(* ===== verification/Py_Base.thy ===== *)
theory Py_Base
  imports Complex_Main
begin

text \<open>
  The prelude: what the components share. Python's floats are modelled as real numbers (no
  rounding error, no infinities or NaN), Python's ints as \<open>int\<close>, \<open>round(x, n)\<close> as the
  half-to-even rounding it documents, a dict as a map or, where iteration order matters, as an
  association list, and an exception as the \<open>Inl\<close> side of a sum. \<open>pyval\<close> is the type of values
  that come from YAML or JSON and are inspected with \<open>isinstance\<close> at run time.
\<close>

named_theorems unit_bounds \<open>facts that place a value in the unit interval\<close>
named_theorems py_eval \<open>definitions unfolded to evaluate a closed term\<close>

subsection \<open>Exceptions\<close>

datatype py_error =
    KeyError string
  | ValueError
  | IndexError
  | ZeroDivisionError
  | TypeError
  | OSError int
  | AttributeError

definition bindE :: "'e + 'a \<Rightarrow> ('a \<Rightarrow> 'e + 'b) \<Rightarrow> 'e + 'b" where
  "bindE m f = (case m of Inl e \<Rightarrow> Inl e | Inr x \<Rightarrow> f x)"

lemma bindE_simps [simp]:
  "bindE (Inl e) f = Inl e"
  "bindE (Inr x) f = f x"
  by (simp_all add: bindE_def)

lemma bindE_Inr_iff: "bindE m f = Inr y \<longleftrightarrow> (\<exists>x. m = Inr x \<and> f x = Inr y)"
  by (cases m) simp_all

lemma bindE_Inl_iff: "bindE m f = Inl e \<longleftrightarrow> m = Inl e \<or> (\<exists>x. m = Inr x \<and> f x = Inl e)"
  by (cases m) auto

definition getitem :: "(string \<rightharpoonup> 'v) \<Rightarrow> string \<Rightarrow> py_error + 'v" where
  \<comment> \<open>\<open>d[k]\<close>\<close>
  "getitem d k = (case d k of None \<Rightarrow> Inl (KeyError k) | Some v \<Rightarrow> Inr v)"

definition dget :: "('k \<rightharpoonup> 'v) \<Rightarrow> 'k \<Rightarrow> 'v \<Rightarrow> 'v" where
  \<comment> \<open>\<open>d.get(k, default)\<close>\<close>
  "dget d k v = (case d k of None \<Rightarrow> v | Some w \<Rightarrow> w)"

lemma dget_simps [simp]:
  "d k = None \<Longrightarrow> dget d k v = v"
  "d k = Some w \<Longrightarrow> dget d k v = w"
  by (simp_all add: dget_def)

lemma getitem_Inr_iff [simp]: "getitem d k = Inr v \<longleftrightarrow> d k = Some v"
  by (simp add: getitem_def split: option.split)

subsection \<open>Dynamic values\<close>

datatype pyval =
    PNone
  | PBool bool
  | PInt int
  | PFloat real
  | PStr string
  | PList "pyval list"
  | PDict "(string \<times> pyval) list"

text \<open>\<open>isinstance(v, (int, float))\<close> and the \<open>float(v)\<close> that follows it: \<open>bool\<close> is a subclass of
  \<open>int\<close> in Python, so \<open>True\<close> passes the test and reads as 1.\<close>

fun as_number :: "pyval \<Rightarrow> real option" where
  "as_number (PBool b) = Some (if b then 1 else 0)"
| "as_number (PInt i) = Some (real_of_int i)"
| "as_number (PFloat x) = Some x"
| "as_number _ = None"

fun is_bool :: "pyval \<Rightarrow> bool" where
  "is_bool (PBool _) = True"
| "is_bool _ = False"

fun truthy :: "pyval \<Rightarrow> bool" where
  "truthy PNone = False"
| "truthy (PBool b) = b"
| "truthy (PInt i) = (i \<noteq> 0)"
| "truthy (PFloat x) = (x \<noteq> 0)"
| "truthy (PStr s) = (s \<noteq> [])"
| "truthy (PList xs) = (xs \<noteq> [])"
| "truthy (PDict kvs) = (kvs \<noteq> [])"

fun pget :: "pyval \<Rightarrow> string \<Rightarrow> pyval" where
  \<comment> \<open>\<open>d.get(k)\<close> on a dict; the callers apply it to dicts only\<close>
  "pget (PDict kvs) k = (case map_of kvs k of None \<Rightarrow> PNone | Some v \<Rightarrow> v)"
| "pget _ k = PNone"

fun is_dict :: "pyval \<Rightarrow> bool" where
  "is_dict (PDict _) = True"
| "is_dict _ = False"

fun attr_get :: "pyval \<Rightarrow> string \<Rightarrow> pyval \<Rightarrow> py_error + pyval" where
  \<comment> \<open>\<open>d.get(k, default)\<close>, where a value that is not a dict has no such method\<close>
  "attr_get (PDict kvs) k v = Inr (case map_of kvs k of None \<Rightarrow> v | Some x \<Rightarrow> x)"
| "attr_get _ k v = Inl AttributeError"

definition dict_or :: "pyval \<Rightarrow> pyval" where
  \<comment> \<open>\<open>d if isinstance(d, dict) else {}\<close>\<close>
  "dict_or v = (if is_dict v then v else PDict [])"

fun float_of :: "(string \<Rightarrow> real option) \<Rightarrow> pyval \<Rightarrow> py_error + real" where
  \<comment> \<open>\<open>float(v)\<close>; the reading of a string is an argument\<close>
  "float_of parse (PStr s) = (case parse s of None \<Rightarrow> Inl ValueError | Some x \<Rightarrow> Inr x)"
| "float_of parse v = (case as_number v of None \<Rightarrow> Inl TypeError | Some x \<Rightarrow> Inr x)"

definition num_or :: "pyval \<Rightarrow> real \<Rightarrow> real" where
  \<comment> \<open>\<open>float(v) if isinstance(v, (int, float)) else default\<close>\<close>
  "num_or v d = (case as_number v of Some x \<Rightarrow> x | None \<Rightarrow> d)"

subsection \<open>Clamping\<close>

definition clamp :: "real \<Rightarrow> real \<Rightarrow> real \<Rightarrow> real" where
  \<comment> \<open>\<open>max(lo, min(hi, x))\<close>\<close>
  "clamp lo hi x = max lo (min hi x)"

lemma clamp_bounds: "lo \<le> hi \<Longrightarrow> lo \<le> clamp lo hi x \<and> clamp lo hi x \<le> hi"
  by (simp add: clamp_def)

lemma clamp_id: "lo \<le> x \<Longrightarrow> x \<le> hi \<Longrightarrow> clamp lo hi x = x"
  by (simp add: clamp_def)

lemma clamp_mono: "x \<le> y \<Longrightarrow> clamp lo hi x \<le> clamp lo hi y"
  by (auto simp: clamp_def)

lemma clamp01 [unit_bounds, simp]: "0 \<le> clamp 0 1 x" "clamp 0 1 x \<le> 1"
  by (simp_all add: clamp_def)

subsection \<open>Rounding to n decimals, half to even\<close>

definition round_half_even :: "real \<Rightarrow> int" where
  "round_half_even y =
     (let f = \<lfloor>y\<rfloor>; d = y - of_int f in
      if d < 1/2 then f else if d > 1/2 then f + 1 else if even f then f else f + 1)"

definition py_round :: "nat \<Rightarrow> real \<Rightarrow> real" where
  "py_round n x = of_int (round_half_even (x * 10 ^ n)) / 10 ^ n"

lemma round_half_even_of_int [simp]: "round_half_even (of_int k) = k"
  by (simp add: round_half_even_def)

lemma round_half_even_bounds:
  "\<lfloor>y\<rfloor> \<le> round_half_even y" "round_half_even y \<le> \<lfloor>y\<rfloor> + 1"
  by (simp_all add: round_half_even_def Let_def)

lemma round_half_even_close: "\<bar>of_int (round_half_even y) - y\<bar> \<le> 1/2"
proof -
  have "of_int \<lfloor>y\<rfloor> \<le> y" "y < of_int \<lfloor>y\<rfloor> + 1" by linarith+
  then show ?thesis
    by (cases "y - of_int \<lfloor>y\<rfloor> < 1/2"; cases "y - of_int \<lfloor>y\<rfloor> > 1/2";
        simp add: round_half_even_def Let_def abs_le_iff; linarith)
qed

lemma round_half_even_mono:
  assumes "x \<le> y" shows "round_half_even x \<le> round_half_even y"
proof (cases "\<lfloor>x\<rfloor> = \<lfloor>y\<rfloor>")
  case True
  with assms show ?thesis by (auto simp: round_half_even_def Let_def)
next
  case False
  with assms have "\<lfloor>x\<rfloor> + 1 \<le> \<lfloor>y\<rfloor>" using floor_mono [OF assms] by linarith
  with round_half_even_bounds(2) [of x] round_half_even_bounds(1) [of y] show ?thesis
    by linarith
qed

lemma py_round_mono: "x \<le> y \<Longrightarrow> py_round n x \<le> py_round n y"
  by (simp add: py_round_def divide_right_mono round_half_even_mono)

lemma py_round_of_int [simp]: "py_round n (of_int k) = of_int k"
proof -
  have eq: "(of_int k :: real) * 10 ^ n = of_int (k * 10 ^ n)" by simp
  show ?thesis
    unfolding py_round_def eq round_half_even_of_int by simp
qed

lemma py_round_0 [simp]: "py_round n 0 = 0"
  using py_round_of_int [of n 0] by simp

lemma py_round_1 [simp]: "py_round n 1 = 1"
  using py_round_of_int [of n 1] by simp

lemma py_round_unit [unit_bounds]:
  "0 \<le> x \<Longrightarrow> 0 \<le> py_round n x" "x \<le> 1 \<Longrightarrow> py_round n x \<le> 1"
  using py_round_mono [of 0 x n] py_round_mono [of x 1 n] by simp_all

lemma py_round_clamped [unit_bounds, simp]:
  "0 \<le> py_round n (max 0 (min 1 x))" "py_round n (max 0 (min 1 x)) \<le> 1"
  by (rule py_round_unit, simp)+

lemma py_round_capped:
  assumes "0 \<le> m" "m \<le> 1"
  shows "0 \<le> py_round n (min (max x m) 1) \<and> py_round n (min (max x m) 1) \<le> 1
    \<and> py_round n m \<le> py_round n (min (max x m) 1)"
proof -
  have "0 \<le> min (max x m) 1" "min (max x m) 1 \<le> 1" "m \<le> min (max x m) 1" using assms by linarith+
  then show ?thesis by (blast intro: py_round_unit py_round_mono)
qed

lemma py_round_close: "\<bar>py_round n x - x\<bar> \<le> 1 / (2 * 10 ^ n)"
proof -
  have "\<bar>of_int (round_half_even (x * 10 ^ n)) - x * 10 ^ n\<bar> / 10 ^ n \<le> (1/2) / (10 ^ n :: real)"
    by (intro divide_right_mono round_half_even_close) simp
  moreover have "py_round n x - x = (of_int (round_half_even (x * 10 ^ n)) - x * 10 ^ n) / 10 ^ n"
    by (simp add: py_round_def diff_divide_distrib)
  ultimately show ?thesis by (simp add: abs_divide)
qed

subsection \<open>Exponential smoothing\<close>

definition ewma :: "real \<Rightarrow> real option \<Rightarrow> real \<Rightarrow> real" where
  \<comment> \<open>\<open>x if prev is None else alpha * x + (1 - alpha) * prev\<close>\<close>
  "ewma a prev x = (case prev of None \<Rightarrow> x | Some p \<Rightarrow> a * x + (1 - a) * p)"

lemma ewma_between:
  assumes "0 \<le> a" "a \<le> 1" "lo \<le> x" "x \<le> hi" "\<And>p. prev = Some p \<Longrightarrow> lo \<le> p \<and> p \<le> hi"
  shows "lo \<le> ewma a prev x \<and> ewma a prev x \<le> hi"
proof (cases prev)
  case None
  with assms show ?thesis by (simp add: ewma_def)
next
  case (Some p)
  with assms(5) have p: "lo \<le> p" "p \<le> hi" by auto
  from assms p have "a * lo + (1 - a) * lo \<le> a * x + (1 - a) * p"
    "a * x + (1 - a) * p \<le> a * hi + (1 - a) * hi"
    by (auto intro!: add_mono mult_left_mono)
  with Some show ?thesis by (simp add: ewma_def algebra_simps)
qed

subsection \<open>The logistic function with its overflow guard\<close>

definition logistic :: "real \<Rightarrow> real" where
  \<comment> \<open>\<open>1.0 / (1.0 + math.exp(z))\<close>\<close>
  "logistic z = 1 / (1 + exp z)"

lemma logistic_pos [simp]: "0 < logistic z"
  by (simp add: logistic_def add_pos_pos)

lemma logistic_less_1 [simp]: "logistic z < 1"
  by (simp add: logistic_def add_pos_pos)

lemma logistic_unit [unit_bounds, simp]: "0 \<le> logistic z" "logistic z \<le> 1"
  using logistic_pos [of z] logistic_less_1 [of z] by linarith+

lemma logistic_antimono: "x \<le> y \<Longrightarrow> logistic y \<le> logistic x"
  by (simp add: logistic_def frac_le add_pos_pos)

lemma logistic_0 [simp]: "logistic 0 = 1/2"
  by (simp add: logistic_def)

subsection \<open>Truncation of floats\<close>

definition py_trunc :: "real \<Rightarrow> int" where
  \<comment> \<open>\<open>int(x)\<close> on a float\<close>
  "py_trunc x = (if x \<ge> 0 then \<lfloor>x\<rfloor> else \<lceil>x\<rceil>)"

lemma py_trunc_nonneg: "0 \<le> x \<Longrightarrow> of_int (py_trunc x) \<le> x \<and> 0 \<le> py_trunc x"
  by (simp add: py_trunc_def)

end
