(* ===== verification/Pressure.thy ===== *)
theory Pressure
  imports Py_Base
begin

text \<open>
  \<open>PressureAnalyzer\<close> of \<open>monitor/pressure.py\<close>: the system pressure score, the disk pressure
  score, and the smoothed, hysteretic level each of the two channels publishes. The class's mutable
  fields are the record \<open>press_state\<close>; each method takes it and returns it updated. What a
  method only writes to the log is not modelled, but a dict access made for the log line that can
  raise is.
\<close>

subsection \<open>Configuration and state\<close>

datatype level = Low | Medium | High | Critical | Unknown

fun level_rank :: "level \<Rightarrow> nat" where
  \<comment> \<open>\<open>_LEVEL_RANK.get(level, 0)\<close>\<close>
  "level_rank Low = 0"
| "level_rank Medium = 1"
| "level_rank High = 2"
| "level_rank Critical = 3"
| "level_rank Unknown = 0"

type_synonym thresholds = "level \<rightharpoonup> real"

record press_cfg =
  pc_memory_busy_threshold :: "real option"
  pc_mem_gate_steepness :: "real option"
  pc_weights :: "(string \<times> real) list"
  pc_disk_psi_weights :: pyval

record press_state =
  ps_score_smoothed :: "real option"
  ps_last_level :: "level option"
  ps_disk_score_smoothed :: "real option"
  ps_disk_last_level :: "level option"

definition press_init :: press_state where
  "press_init = \<lparr>ps_score_smoothed = None, ps_last_level = None,
     ps_disk_score_smoothed = None, ps_disk_last_level = None\<rparr>"

definition cpu_io_self_gate :: real where "cpu_io_self_gate = 7/10"
definition score_ewma_alpha :: real where "score_ewma_alpha = 3/10"
definition level_hysteresis :: real where "level_hysteresis = 5/100"
definition psi_io_full_w :: real where "psi_io_full_w = 3"
definition psi_io_some_w :: real where "psi_io_some_w = 1/2"

lemmas press_consts = cpu_io_self_gate_def score_ewma_alpha_def level_hysteresis_def
  psi_io_full_w_def psi_io_some_w_def

subsection \<open>Operations\<close>

definition psi_io_weights :: "press_cfg \<Rightarrow> real \<times> real" where
  "psi_io_weights cfg =
     (num_or (pget (pc_disk_psi_weights cfg) ''some'') psi_io_some_w,
      num_or (pget (pc_disk_psi_weights cfg) ''full'') psi_io_full_w)"

definition mem_scarcity_gate :: "press_cfg \<Rightarrow> real \<Rightarrow> real" where
  "mem_scarcity_gate cfg mem_avail =
     (let busy = (case pc_memory_busy_threshold cfg of None \<Rightarrow> 90 | Some b \<Rightarrow> b) / 100;
          center = max (1 - busy) (1/1000);
          steepness = (case pc_mem_gate_steepness cfg of None \<Rightarrow> 8 | Some s \<Rightarrow> s);
          x = (mem_avail - center) / center * steepness
      in logistic (clamp (-60) 60 x))"

definition calculate_pressure_score ::
  "press_cfg \<Rightarrow> (string \<rightharpoonup> real) \<Rightarrow> (string \<rightharpoonup> (string \<rightharpoonup> real)) \<Rightarrow> bool
     \<Rightarrow> (string \<rightharpoonup> real) option \<Rightarrow> py_error + real" where
  "calculate_pressure_score cfg psi usage is_limited_app_dominant self_fraction =
     (let weights = pc_weights cfg;
          frac = (if is_limited_app_dominant
                  then (case self_fraction of None \<Rightarrow> Map.empty | Some f \<Rightarrow> f)
                  else Map.empty);
          gate = cpu_io_self_gate;
          psi_cpu = dget psi ''cpu'' 0 * (1 - dget frac ''cpu'' 0 * gate);
          psi_io = dget psi ''io'' 0 * (1 - dget frac ''io'' 0 * gate)
      in bindE (getitem usage ''memory'') (\<lambda>umem.
         let mem_scarcity = mem_scarcity_gate cfg (dget umem ''available_ratio'' 0);
             s = sum_list (map snd weights);
             total_weight = (if s = 0 then 1 else s)
         in bindE (getitem (map_of weights) ''cpu'') (\<lambda>w_cpu.
            bindE (getitem (map_of weights) ''memory'') (\<lambda>w_mem.
            bindE (getitem (map_of weights) ''io'') (\<lambda>w_io.
            let load = (w_cpu * psi_cpu + w_mem * mem_scarcity + w_io * psi_io) / total_weight;
                final_score = min (max load mem_scarcity) 1
            in bindE (getitem usage ''cpu'') (\<lambda>_.
                 Inr (py_round 2 final_score)))))))"

definition get_pressure_level :: "real \<Rightarrow> thresholds \<Rightarrow> level" where
  "get_pressure_level score thr =
     (if score \<ge> dget thr Critical 1 then Critical
      else if score \<ge> dget thr High (8/10) then High
      else if score \<ge> dget thr Medium (6/10) then Medium
      else if score \<ge> dget thr Low (4/10) then Low
      else Low)"

definition apply_level_hysteresis ::
  "level \<Rightarrow> real \<Rightarrow> thresholds \<Rightarrow> level option \<Rightarrow> level" where
  "apply_level_hysteresis candidate score thr prev_level =
     (case prev_level of
        None \<Rightarrow> candidate
      | Some prev \<Rightarrow>
          if prev = Unknown then candidate
          else if level_rank candidate \<ge> level_rank prev then candidate
          else if prev = Critical then candidate
          else if score < dget thr prev 0 - level_hysteresis then candidate
          else prev)"

definition smooth_level ::
  "real \<Rightarrow> real \<Rightarrow> thresholds \<Rightarrow> real option \<Rightarrow> level option \<Rightarrow> real \<times> level" where
  \<comment> \<open>the \<open>if raw >= critical ... else ...\<close> block that both channels contain\<close>
  "smooth_level crit raw thr prev prev_level =
     (if raw \<ge> crit then (raw, Critical)
      else let smoothed = ewma score_ewma_alpha prev raw
           in (smoothed, apply_level_hysteresis (get_pressure_level smoothed thr) smoothed thr
                 prev_level))"

definition classify_level :: "real \<Rightarrow> thresholds \<Rightarrow> press_state \<Rightarrow> press_state \<times> level \<times> real" where
  "classify_level raw_score thr st =
     (case smooth_level (dget thr Critical 1) raw_score thr (ps_score_smoothed st) (ps_last_level st) of
        (smoothed, lvl) \<Rightarrow>
          (st\<lparr>ps_score_smoothed := Some smoothed, ps_last_level := Some lvl\<rparr>,
           lvl, py_round 2 smoothed))"

definition disk_raw_score :: "press_cfg \<Rightarrow> real \<Rightarrow> real \<Rightarrow> real \<Rightarrow> real \<Rightarrow> real \<Rightarrow> real" where
  "disk_raw_score cfg disk_combined some full low high =
     (case psi_io_weights cfg of (some_w, full_w) \<Rightarrow>
       let stall = min 1 (some * some_w + full * full_w);
           sat0 = (if high > low then (disk_combined - low) / (high - low) else 1);
           sat = max 0 (min 1 sat0);
           raw = disk_combined + (1 - disk_combined) * stall * sat
       in py_round 2 (max 0 (min 1 raw)))"

definition classify_disk_pressure ::
  "press_cfg \<Rightarrow> real \<Rightarrow> real \<Rightarrow> real \<Rightarrow> (string \<rightharpoonup> real) option \<Rightarrow> thresholds \<Rightarrow> press_state
     \<Rightarrow> py_error + press_state \<times> level \<times> real \<times> bool" where
  "classify_disk_pressure cfg disk_combined psi_io_some psi_io_full self_fraction thr st =
     (let frac = (case self_fraction of None \<Rightarrow> Map.empty | Some f \<Rightarrow> f);
          disc = 1 - dget frac ''io'' 0 * cpu_io_self_gate;
          some = max 0 psi_io_some * disc;
          full = max 0 psi_io_full * disc
      in case (thr Low, thr High, thr Critical) of
           (Some low, Some high, Some crit) \<Rightarrow>
             let raw = disk_raw_score cfg disk_combined some full low high
             in (case smooth_level crit raw thr (ps_disk_score_smoothed st) (ps_disk_last_level st) of
                   (smoothed, lvl) \<Rightarrow>
                     Inr (st\<lparr>ps_disk_score_smoothed := Some smoothed, ps_disk_last_level := Some lvl\<rparr>,
                          lvl, py_round 2 smoothed, level_rank lvl \<ge> level_rank High))
         | (None, _, _) \<Rightarrow> Inl (KeyError ''low'')
         | (_, None, _) \<Rightarrow> Inl (KeyError ''high'')
         | (_, _, None) \<Rightarrow> Inl (KeyError ''critical''))"

text \<open>The pressure tick calls \<open>classify_level\<close> once per sample; a run is a list of raw scores.\<close>

fun classify_run :: "real list \<Rightarrow> thresholds \<Rightarrow> press_state \<Rightarrow> press_state" where
  "classify_run [] thr st = st"
| "classify_run (r # rs) thr st = classify_run rs thr (fst (classify_level r thr st))"

subsection \<open>The memory gate\<close>

lemma mem_gate_unit [unit_bounds, simp]:
  "0 \<le> mem_scarcity_gate cfg a" "mem_scarcity_gate cfg a \<le> 1"
  by (simp_all add: mem_scarcity_gate_def Let_def)

lemma mem_gate_antimono:
  assumes "\<And>s. pc_mem_gate_steepness cfg = Some s \<Longrightarrow> 0 \<le> s" and "a \<le> b"
  shows "mem_scarcity_gate cfg b \<le> mem_scarcity_gate cfg a"
proof -
  have st: "0 \<le> (case pc_mem_gate_steepness cfg of None \<Rightarrow> 8 | Some s \<Rightarrow> s)"
    using assms(1) by (simp split: option.split)
  show ?thesis
    unfolding mem_scarcity_gate_def Let_def
    by (intro logistic_antimono clamp_mono mult_right_mono divide_right_mono st)
       (use assms(2) in auto)
qed

lemma mem_gate_center:
  assumes "c = max (1 - (case pc_memory_busy_threshold cfg of None \<Rightarrow> 90 | Some b \<Rightarrow> b) / 100) (1/1000)"
  shows "mem_scarcity_gate cfg c = 1/2"
  by (simp add: mem_scarcity_gate_def Let_def assms [symmetric] clamp_def)

subsection \<open>The score\<close>

definition score_formula ::
  "press_cfg \<Rightarrow> (string \<rightharpoonup> real) \<Rightarrow> (string \<rightharpoonup> real) \<Rightarrow> real \<Rightarrow> real \<Rightarrow> real \<Rightarrow> real \<Rightarrow> real" where
  "score_formula cfg psi fr g wc wm wi =
     (let s = sum_list (map snd (pc_weights cfg));
          load = (wc * (dget psi ''cpu'' 0 * (1 - dget fr ''cpu'' 0 * cpu_io_self_gate)) + wm * g
            + wi * (dget psi ''io'' 0 * (1 - dget fr ''io'' 0 * cpu_io_self_gate)))
            / (if s = 0 then 1 else s)
      in py_round 2 (min (max load g) 1))"

lemma score_eq:
  assumes "usage ''memory'' = Some umem" "usage ''cpu'' = Some ucpu"
    and "map_of (pc_weights cfg) ''cpu'' = Some wc" "map_of (pc_weights cfg) ''memory'' = Some wm"
    and "map_of (pc_weights cfg) ''io'' = Some wi"
  shows "calculate_pressure_score cfg psi usage dm sf =
     Inr (score_formula cfg psi (if dm then case sf of None \<Rightarrow> Map.empty | Some f \<Rightarrow> f else Map.empty)
       (mem_scarcity_gate cfg (dget umem ''available_ratio'' 0)) wc wm wi)"
  unfolding calculate_pressure_score_def score_formula_def getitem_def Let_def
  by (simp only: assms option.case bindE_simps)

lemma score_Inr_keys:
  assumes "calculate_pressure_score cfg psi usage dm sf = Inr s"
  obtains umem ucpu wc wm wi where "usage ''memory'' = Some umem" "usage ''cpu'' = Some ucpu"
    "map_of (pc_weights cfg) ''cpu'' = Some wc" "map_of (pc_weights cfg) ''memory'' = Some wm"
    "map_of (pc_weights cfg) ''io'' = Some wi"
proof -
  note d = calculate_pressure_score_def getitem_def Let_def
  obtain umem where a: "usage ''memory'' = Some umem"
    using assms unfolding d by (cases "usage ''memory''") (simp_all only: option.case bindE_simps sum.distinct)
  obtain wc where b: "map_of (pc_weights cfg) ''cpu'' = Some wc"
    using assms a unfolding d
    by (cases "map_of (pc_weights cfg) ''cpu''") (simp_all only: option.case bindE_simps sum.distinct)
  obtain wm where c: "map_of (pc_weights cfg) ''memory'' = Some wm"
    using assms a b unfolding d
    by (cases "map_of (pc_weights cfg) ''memory''") (simp_all only: option.case bindE_simps sum.distinct)
  obtain wi where e: "map_of (pc_weights cfg) ''io'' = Some wi"
    using assms a b c unfolding d
    by (cases "map_of (pc_weights cfg) ''io''") (simp_all only: option.case bindE_simps sum.distinct)
  obtain ucpu where f: "usage ''cpu'' = Some ucpu"
    using assms a b c e unfolding d
    by (cases "usage ''cpu''") (simp_all only: option.case bindE_simps sum.distinct)
  from that [OF a f b c e] show thesis .
qed

lemma weighted_discount_mono:
  fixes wc wm wi t :: real
  assumes "0 \<le> wc" "0 \<le> wi" "0 < t" "c \<le> c'" "i \<le> i'"
  shows "(wc * c + m + wi * i) / t \<le> (wc * c' + m + wi * i') / t"
  using assms by (intro divide_right_mono add_mono mult_left_mono) auto

lemma final_score_mono: "x \<le> y \<Longrightarrow> py_round 2 (min (max x m) 1) \<le> py_round 2 (min (max y m) 1)"
  by (intro py_round_mono) auto

subsection \<open>Levels\<close>

definition bands :: "thresholds \<Rightarrow> real \<Rightarrow> real \<Rightarrow> real \<Rightarrow> real \<Rightarrow> bool" where
  \<comment> \<open>the four keys are configured and ascend, as in \<open>config.yaml\<close>\<close>
  "bands thr l m h c \<longleftrightarrow> thr Low = Some l \<and> thr Medium = Some m \<and> thr High = Some h
     \<and> thr Critical = Some c \<and> l < m \<and> m < h \<and> h < c"

lemma level_below_medium: "bands thr l m h c \<Longrightarrow> s < m \<Longrightarrow> get_pressure_level s thr = Low"
  by (auto simp: get_pressure_level_def bands_def)

lemma hysteresis_Low:
  "bands thr l m h c \<Longrightarrow> s < m - level_hysteresis \<Longrightarrow> apply_level_hysteresis Low s thr prev = Low"
  by (cases prev; cases "the prev") (auto simp: apply_level_hysteresis_def bands_def)

lemma level_rank_le_3 [simp]: "level_rank l \<le> 3"
  by (cases l) simp_all

lemma hysteresis_rank_ge_candidate:
  "level_rank candidate \<le> level_rank (apply_level_hysteresis candidate s thr prev)"
  by (auto simp: apply_level_hysteresis_def split: option.split)

lemma hysteresis_keeps:
  assumes "prev \<noteq> Critical" "thr prev = Some e" "s \<ge> e - level_hysteresis"
  shows "level_rank prev \<le> level_rank (apply_level_hysteresis candidate s thr (Some prev))"
  using assms by (cases "prev = Unknown") (simp_all add: apply_level_hysteresis_def)

lemma smooth_level_keeps:
  assumes "smooth_level crit raw thr prev (Some pl) = (s, lv)"
    and "pl \<noteq> Critical" "thr pl = Some e" "s \<ge> e - level_hysteresis"
  shows "level_rank pl \<le> level_rank lv"
proof (cases "raw \<ge> crit")
  case True
  with assms(1) show ?thesis by (simp add: smooth_level_def)
next
  case False
  with assms(1) have "lv = apply_level_hysteresis (get_pressure_level s thr) s thr (Some pl)"
    by (auto simp: smooth_level_def Let_def)
  with hysteresis_keeps [of pl thr e s] assms(2-4) show ?thesis by simp
qed

lemma smooth_level_bounds:
  assumes "smooth_level crit raw thr prev pl = (s, lv)" "lo \<le> raw" "raw \<le> hi"
    and "\<And>p. prev = Some p \<Longrightarrow> lo \<le> p \<and> p \<le> hi"
  shows "lo \<le> s \<and> s \<le> hi"
  using assms ewma_between [of score_ewma_alpha lo raw hi prev]
  by (auto simp: smooth_level_def Let_def press_consts split: if_splits)

lemma smooth_level_decay:
  assumes "smooth_level crit raw thr prev pl = (s, lv)" "raw < crit" "raw \<le> r" "r \<le> b"
    and "\<And>p. prev = Some p \<Longrightarrow> p \<le> b"
  shows "s \<le> r + 7/10 * (b - r)"
proof -
  have s: "s = ewma score_ewma_alpha prev raw" using assms(1,2) by (auto simp: smooth_level_def Let_def)
  show ?thesis
  proof (cases prev)
    case None
    with s assms(3,4) show ?thesis by (simp add: ewma_def field_simps)
  next
    case (Some p)
    with s assms(3-5) show ?thesis by (simp add: ewma_def press_consts field_simps)
  qed
qed

lemma classify_run_decay:
  assumes "\<forall>x\<in>set rs. x \<le> r" "r < dget thr Critical 1" "r \<le> b"
    and "\<And>p. ps_score_smoothed st = Some p \<Longrightarrow> p \<le> b"
  shows "\<forall>p. ps_score_smoothed (classify_run rs thr st) = Some p \<longrightarrow> p \<le> r + (7/10) ^ length rs * (b - r)"
  using assms
proof (induction rs arbitrary: st b)
  case Nil
  then show ?case by auto
next
  case (Cons x xs)
  obtain s lv where sl:
    "smooth_level (dget thr Critical 1) x thr (ps_score_smoothed st) (ps_last_level st) = (s, lv)"
    by fastforce
  from Cons.prems have "s \<le> r + 7/10 * (b - r)"
    by (intro smooth_level_decay [OF sl, of r b]) auto
  then have "\<forall>p. ps_score_smoothed (classify_run xs thr (fst (classify_level x thr st))) = Some p
      \<longrightarrow> p \<le> r + (7/10) ^ length xs * (r + 7/10 * (b - r) - r)"
    using Cons.prems by (intro Cons.IH) (auto simp: classify_level_def sl)
  then show ?case by (simp add: algebra_simps)
qed

lemma classify_run_snoc:
  "classify_run (rs @ [x]) thr st = fst (classify_level x thr (classify_run rs thr st))"
  by (induction rs arbitrary: st) auto

subsection \<open>Properties\<close>

text \<open>C1: whenever a pressure score is computed (no configured key is missing), it lies in the unit
  interval, it is at least the memory-scarcity signal rounded to two decimals, so a machine that
  runs out of memory reads as pressure whatever the CPU and IO stalls say, and it reads the
  available-memory ratio as 0 when the sample has none.\<close>
theorem pressure_score_bounds:
  assumes "calculate_pressure_score cfg psi usage dominant sf = Inr s"
    and "usage ''memory'' = Some umem"
  shows "0 \<le> s \<and> s \<le> 1 \<and> py_round 2 (mem_scarcity_gate cfg (dget umem ''available_ratio'' 0)) \<le> s"
proof -
  from assms(1) obtain umem' ucpu wc wm wi where
    k: "usage ''memory'' = Some umem'" "usage ''cpu'' = Some ucpu"
      "map_of (pc_weights cfg) ''cpu'' = Some wc" "map_of (pc_weights cfg) ''memory'' = Some wm"
      "map_of (pc_weights cfg) ''io'' = Some wi" by (rule score_Inr_keys)
  from k(1) assms(2) have "umem' = umem" by simp
  with assms(1) obtain fr where
    s: "s = score_formula cfg psi fr (mem_scarcity_gate cfg (dget umem ''available_ratio'' 0)) wc wm wi"
    unfolding score_eq [OF k] by blast
  show ?thesis unfolding s score_formula_def Let_def by (rule py_round_capped) simp_all
qed

theorem pressure_score_bounds_witness:
  "\<exists>s. calculate_pressure_score
     \<lparr>pc_memory_busy_threshold = Some 80, pc_mem_gate_steepness = None,
      pc_weights = [(''cpu'', 1), (''memory'', 7), (''io'', 2)], pc_disk_psi_weights = PNone\<rparr>
     [''cpu'' \<mapsto> 1/2] [''memory'' \<mapsto> [''available_ratio'' \<mapsto> 1/5], ''cpu'' \<mapsto> Map.empty] False None = Inr s
     \<and> 1/2 \<le> s \<and> s \<le> 1"
proof -
  let ?cfg = "\<lparr>pc_memory_busy_threshold = Some 80, pc_mem_gate_steepness = None,
      pc_weights = [(''cpu'', 1), (''memory'', 7), (''io'', 2)], pc_disk_psi_weights = PNone\<rparr>"
  let ?u = "[''memory'' \<mapsto> [''available_ratio'' \<mapsto> 1/5], ''cpu'' \<mapsto> Map.empty] :: string \<rightharpoonup> (string \<rightharpoonup> real)"
  have g: "mem_scarcity_gate ?cfg (1/5) = 1/2"
    by (rule mem_gate_center) simp
  have "\<exists>s. calculate_pressure_score ?cfg [''cpu'' \<mapsto> 1/2] ?u False None = Inr s"
    by (rule exI, rule score_eq) simp_all
  then obtain s where s: "calculate_pressure_score ?cfg [''cpu'' \<mapsto> 1/2] ?u False None = Inr s" ..
  have "py_round 2 (1/2) = 1/2" by (simp add: py_round_def round_half_even_def)
  with pressure_score_bounds [OF s, of "[''available_ratio'' \<mapsto> 1/5]"] s g show ?thesis
    by (simp add: dget_def)
qed

text \<open>discounting the stalls that the rate-limited apps inflict on themselves never raises the
  score, and at most 70 percent of the CPU and IO signal can be discounted: the score stays at
  least what it would be were every CPU and IO stall scaled by 0.3.\<close>
theorem pressure_discount_sound:
  assumes weights: "map_of (pc_weights cfg) ''cpu'' = Some wc" "map_of (pc_weights cfg) ''memory'' = Some wm"
      "map_of (pc_weights cfg) ''io'' = Some wi" "0 \<le> wc" "0 \<le> wi" "0 < sum_list (map snd (pc_weights cfg))"
    and psi: "0 \<le> dget psi ''cpu'' 0" "0 \<le> dget psi ''io'' 0"
    and frac: "\<And>k. 0 \<le> dget f k 0 \<and> dget f k 0 \<le> 1"
    and full: "calculate_pressure_score cfg psi usage False None = Inr s"
    and disc: "calculate_pressure_score cfg psi usage True (Some f) = Inr s'"
    and floor: "calculate_pressure_score cfg (\<lambda>k. map_option (\<lambda>x. 3/10 * x) (psi k)) usage False None = Inr s''"
  shows "s'' \<le> s' \<and> s' \<le> s"
proof -
  have scale: "p * (3/10) \<le> p * (1 - x * (7/10)) \<and> p * (1 - x * (7/10)) \<le> p"
    if "0 \<le> p" "0 \<le> x" "x \<le> 1" for p x :: real
    using that mult_left_mono [of "3/10" "1 - x * (7/10)" p] mult_left_mono [of "1 - x * (7/10)" 1 p]
    by simp
  have d: "dget (\<lambda>k. map_option (\<lambda>x. 3/10 * x) (psi k)) k 0 = dget psi k 0 * (3/10)" for k
    by (simp add: dget_def split: option.split)
  from full obtain umem ucpu wc' wm' wi' where k: "usage ''memory'' = Some umem" "usage ''cpu'' = Some ucpu"
    by (rule score_Inr_keys)
  note eqs = score_eq [OF k weights(1-3)]
  let ?g = "mem_scarcity_gate cfg (dget umem ''available_ratio'' 0)"
  have vs: "s = score_formula cfg psi Map.empty ?g wc wm wi" "s' = score_formula cfg psi f ?g wc wm wi"
    "s'' = score_formula cfg (\<lambda>k. map_option (\<lambda>x. 3/10 * x) (psi k)) Map.empty ?g wc wm wi"
    using full [symmetric] disc [symmetric] floor [symmetric]
    by (simp_all only: eqs sum.inject if_True if_False option.case)
  have tot: "(if sum_list (map snd (pc_weights cfg)) = 0 then 1 else sum_list (map snd (pc_weights cfg)))
      = sum_list (map snd (pc_weights cfg))" using weights(6) by simp
  note cs = scale [OF psi(1), of "dget f ''cpu'' 0"] scale [OF psi(2), of "dget f ''io'' 0"]
  have "s'' \<le> s'"
    unfolding vs(2,3) score_formula_def Let_def tot
    by (intro final_score_mono weighted_discount_mono weights(4-6))
       (use cs frac in \<open>simp_all add: d press_consts\<close>)
  moreover have "s' \<le> s"
    unfolding vs(1,2) score_formula_def Let_def tot
    by (intro final_score_mono weighted_discount_mono weights(4-6))
       (use cs frac in \<open>simp_all add: press_consts\<close>)
  ultimately have "s'' \<le> s' \<and> s' \<le> s" ..
  then show ?thesis by simp
qed

theorem pressure_discount_sound_witness:
  "\<exists>s s' s''. calculate_pressure_score
     \<lparr>pc_memory_busy_threshold = None, pc_mem_gate_steepness = None,
      pc_weights = [(''cpu'', 1), (''memory'', 7), (''io'', 2)], pc_disk_psi_weights = PNone\<rparr>
     [''cpu'' \<mapsto> 1, ''io'' \<mapsto> 1] [''memory'' \<mapsto> Map.empty, ''cpu'' \<mapsto> Map.empty] False None = Inr s \<and> s'' \<le> s' \<and> s' \<le> s"
proof -
  let ?cfg = "\<lparr>pc_memory_busy_threshold = None, pc_mem_gate_steepness = None,
      pc_weights = [(''cpu'', 1), (''memory'', 7), (''io'', 2)], pc_disk_psi_weights = PNone\<rparr>"
  let ?psi = "[''cpu'' \<mapsto> 1, ''io'' \<mapsto> 1] :: string \<rightharpoonup> real"
  let ?u = "[''memory'' \<mapsto> Map.empty, ''cpu'' \<mapsto> Map.empty] :: string \<rightharpoonup> (string \<rightharpoonup> real)"
  let ?f = "[''cpu'' \<mapsto> 1/2] :: string \<rightharpoonup> real"
  have ex: "\<exists>s. calculate_pressure_score ?cfg p ?u b sf = Inr s" for p b sf
    by (rule exI, rule score_eq) simp_all
  obtain s where s: "calculate_pressure_score ?cfg ?psi ?u False None = Inr s" using ex by blast
  obtain s' where s': "calculate_pressure_score ?cfg ?psi ?u True (Some ?f) = Inr s'" using ex by blast
  obtain s'' where s'': "calculate_pressure_score ?cfg (\<lambda>k. map_option (\<lambda>x. 3/10 * x) (?psi k)) ?u False None = Inr s''"
    using ex by blast
  have "s'' \<le> s' \<and> s' \<le> s"
    by (rule pressure_discount_sound [OF _ _ _ _ _ _ _ _ _ s s' s'', of 1 7 2])
       (simp_all add: dget_def)
  with s show ?thesis by blast
qed

text \<open>C2: critical pressure is entered on the raw score at once, whatever the history, and a level
  that is not critical is not left downwards while the smoothed score is within the hysteresis
  margin of its entry threshold. A sample never touches the disk channel.\<close>
theorem classify_level_edges:
  assumes "classify_level raw thr st = (st', lv, sc)" and "bands thr l m h c"
  shows "(raw \<ge> c \<longrightarrow> lv = Critical \<and> ps_score_smoothed st' = Some raw)
    \<and> (\<forall>pl e. ps_last_level st = Some pl \<and> pl \<noteq> Critical \<and> thr pl = Some e
          \<and> the (ps_score_smoothed st') \<ge> e - level_hysteresis
        \<longrightarrow> level_rank pl \<le> level_rank lv)
    \<and> ps_last_level st' = Some lv
    \<and> ps_disk_score_smoothed st' = ps_disk_score_smoothed st
    \<and> ps_disk_last_level st' = ps_disk_last_level st"
proof -
  have c: "dget thr Critical 1 = c" using assms(2) by (simp add: bands_def)
  obtain sm where sl: "smooth_level c raw thr (ps_score_smoothed st) (ps_last_level st) = (sm, lv)"
    and st': "st' = st\<lparr>ps_score_smoothed := Some sm, ps_last_level := Some lv\<rparr>"
    using assms(1) unfolding classify_level_def c by (auto split: prod.splits)
  have "level_rank pl \<le> level_rank lv"
    if "ps_last_level st = Some pl" "pl \<noteq> Critical" "thr pl = Some e" "sm \<ge> e - level_hysteresis" for pl e
    using smooth_level_keeps [OF sl [unfolded that(1)]] that(2-4) by simp
  moreover have "raw \<ge> c \<Longrightarrow> lv = Critical \<and> sm = raw"
    using sl by (simp add: smooth_level_def)
  ultimately show ?thesis by (simp add: st')
qed

theorem classify_level_edges_witness:
  "fst (snd (classify_level (3/4) [Low \<mapsto> 4/10, Medium \<mapsto> 6/10, High \<mapsto> 8/10, Critical \<mapsto> 1]
      \<lparr>ps_score_smoothed = Some (8/10), ps_last_level = Some High,
       ps_disk_score_smoothed = None, ps_disk_last_level = None\<rparr>)) = High"
proof -
  let ?thr = "[Low \<mapsto> 4/10, Medium \<mapsto> 6/10, High \<mapsto> 8/10, Critical \<mapsto> 1] :: thresholds"
  let ?st = "\<lparr>ps_score_smoothed = Some (8/10), ps_last_level = Some High,
       ps_disk_score_smoothed = None, ps_disk_last_level = None\<rparr>"
  obtain st' lv sc where r: "classify_level (3/4) ?thr ?st = (st', lv, sc)"
    by (metis prod_cases3)
  have s: "the (ps_score_smoothed st') = 785/1000"
    using r by (auto simp: classify_level_def smooth_level_def Let_def ewma_def press_consts)
  have b: "bands ?thr (4/10) (6/10) (8/10) 1" by (simp add: bands_def)
  have "ps_last_level ?st = Some High \<and> High \<noteq> Critical \<and> ?thr High = Some (8/10)
      \<and> the (ps_score_smoothed st') \<ge> 8/10 - level_hysteresis"
    using s by (simp add: press_consts)
  with classify_level_edges [OF r b] have "level_rank High \<le> level_rank lv" by blast
  moreover have "lv \<noteq> Critical"
    using r by (auto simp: classify_level_def smooth_level_def Let_def ewma_def press_consts
        get_pressure_level_def apply_level_hysteresis_def dget_def)
  ultimately have "lv = High" by (cases lv) auto
  with r show ?thesis by simp
qed

text \<open>pressure is always given back. From any state whose smoothed score is at most \<open>b\<close>,
  critical included, as soon as enough samples in a row have been at most \<open>r\<close> (enough: the
  distance \<open>b - r\<close>, shrinking by 0.7 per sample, has fallen below the gap from \<open>r\<close> to the medium
  band less the hysteresis margin) the published level is low.\<close>
theorem classify_level_descends:
  assumes "bands thr l m h c" and "rs \<noteq> []" and "\<forall>x\<in>set rs. x \<le> r" and "r \<le> b" and "r < m - level_hysteresis"
    and "\<And>p. ps_score_smoothed st = Some p \<Longrightarrow> p \<le> b"
    and "(7/10) ^ length rs * (b - r) < m - level_hysteresis - r"
  shows "ps_last_level (classify_run rs thr st) = Some Low"
proof -
  obtain ys x where rs: "rs = ys @ [x]" using assms(2) by (metis rev_exhaust)
  have x: "x < c" "r < dget thr Critical 1"
    using assms(1,3,5) rs by (auto simp: bands_def press_consts)
  let ?st = "classify_run ys thr st"
  obtain s lv where sl:
    "smooth_level (dget thr Critical 1) x thr (ps_score_smoothed ?st) (ps_last_level ?st) = (s, lv)"
    by fastforce
  have "ps_score_smoothed (classify_run rs thr st) = Some s"
    by (simp add: rs classify_run_snoc classify_level_def sl)
  with classify_run_decay [OF assms(3) x(2) assms(4,6)] assms(7)
  have "s < m - level_hysteresis" by fastforce
  moreover have "m - level_hysteresis < m" by (simp add: press_consts)
  ultimately have "lv = Low"
    using sl x(1) assms(1) level_below_medium [OF assms(1), of s] hysteresis_Low [OF assms(1), of s]
    by (auto simp: smooth_level_def Let_def bands_def split: if_splits)
  then show ?thesis by (simp add: rs classify_run_snoc classify_level_def sl)
qed

theorem classify_level_descends_witness:
  "ps_last_level (classify_run [0, 0, 0, 0]
      [Low \<mapsto> 4/10, Medium \<mapsto> 6/10, High \<mapsto> 8/10, Critical \<mapsto> 1]
      \<lparr>ps_score_smoothed = Some 1, ps_last_level = Some Critical,
       ps_disk_score_smoothed = None, ps_disk_last_level = None\<rparr>) = Some Low"
  by (rule classify_level_descends [of _ "4/10" "6/10" "8/10" 1 _ 0 1])
     (simp_all add: bands_def press_consts eval_nat_numeral)

text \<open>the disk channel: from a saturation in the unit interval the published score stays in the
  unit interval, IO stalls can only raise the raw score, below the low band a stall is not
  attributed to the disks at all, the stress flag is exactly a level of high or critical, and the
  system channel's state is untouched.\<close>
theorem classify_disk_pressure_sound:
  assumes "classify_disk_pressure cfg dc some full sf thr st = Inr (st', lv, sc, stressed)"
    and "bands thr l m h c" and "0 \<le> dc" "dc \<le> 1"
    and "\<And>p. ps_disk_score_smoothed st = Some p \<Longrightarrow> 0 \<le> p \<and> p \<le> 1"
    and "0 \<le> fst (psi_io_weights cfg)" "0 \<le> snd (psi_io_weights cfg)"
    and "0 \<le> some'" "0 \<le> full'"
  shows "0 \<le> sc \<and> sc \<le> 1 \<and> stressed = (lv = High \<or> lv = Critical)
    \<and> py_round 2 dc \<le> disk_raw_score cfg dc some' full' l h
    \<and> (dc \<le> l \<longrightarrow> disk_raw_score cfg dc some' full' l h = py_round 2 dc)
    \<and> ps_score_smoothed st' = ps_score_smoothed st \<and> ps_last_level st' = ps_last_level st"
proof -
  have raw01: "0 \<le> disk_raw_score cfg dc x y a b \<and> disk_raw_score cfg dc x y a b \<le> 1" for x y a b
    unfolding disk_raw_score_def Let_def by (simp only: split_beta py_round_clamped simp_thms)
  have keys: "thr Low = Some l" "thr High = Some h" "thr Critical = Some c"
    using assms(2) by (simp_all add: bands_def)
  obtain raw sm where sl: "smooth_level c raw thr (ps_disk_score_smoothed st) (ps_disk_last_level st) = (sm, lv)"
    and raw: "0 \<le> raw" "raw \<le> 1" and sc_eq: "sc = py_round 2 sm"
    and st: "stressed = (level_rank lv \<ge> level_rank High)"
    and st': "st' = st\<lparr>ps_disk_score_smoothed := Some sm, ps_disk_last_level := Some lv\<rparr>"
    using assms(1) raw01 unfolding classify_disk_pressure_def Let_def keys
    by (auto split: prod.splits)
  have sc: "0 \<le> sc \<and> sc \<le> 1"
    using smooth_level_bounds [OF sl raw] assms(5) unfolding sc_eq by (intro conjI unit_bounds) auto
  obtain sw fw where w: "psi_io_weights cfg = (sw, fw)" by fastforce
  let ?sat = "max 0 (min 1 ((dc - l) / (h - l)))"
  let ?stall = "min 1 (some' * sw + full' * fw)"
  have lh: "l < h" using assms(2) by (simp add: bands_def)
  have "0 \<le> ?stall" using assms(6-9) w by simp
  then have add: "0 \<le> (1 - dc) * ?stall * ?sat" using assms(4) by simp
  have raw: "disk_raw_score cfg dc some' full' l h
      = py_round 2 (max 0 (min 1 (dc + (1 - dc) * ?stall * ?sat)))"
    using lh by (simp add: disk_raw_score_def w Let_def)
  have up: "py_round 2 dc \<le> disk_raw_score cfg dc some' full' l h"
    unfolding raw using add assms(3,4) by (intro py_round_mono) auto
  have low: "disk_raw_score cfg dc some' full' l h = py_round 2 dc" if "dc \<le> l"
  proof -
    have "(dc - l) / (h - l) \<le> 0" using that lh by (simp add: divide_le_0_iff)
    then have "?sat = 0" by simp
    then show ?thesis unfolding raw using assms(3,4) by simp
  qed
  have "stressed = (lv = High \<or> lv = Critical)"
    unfolding st by (cases lv) simp_all
  with sc up low show ?thesis by (simp add: st')
qed

theorem classify_disk_pressure_sound_witness:
  "\<exists>st' lv sc stressed. classify_disk_pressure
      \<lparr>pc_memory_busy_threshold = None, pc_mem_gate_steepness = None, pc_weights = [], pc_disk_psi_weights = PNone\<rparr>
      (9/10) (1/2) (1/2) None [Low \<mapsto> 4/10, Medium \<mapsto> 6/10, High \<mapsto> 8/10, Critical \<mapsto> 1] press_init
        = Inr (st', lv, sc, stressed) \<and> 0 \<le> sc \<and> sc \<le> 1 \<and> stressed = (lv = High \<or> lv = Critical)"
proof -
  let ?cfg = "\<lparr>pc_memory_busy_threshold = None, pc_mem_gate_steepness = None, pc_weights = [], pc_disk_psi_weights = PNone\<rparr>"
  let ?thr = "[Low \<mapsto> 4/10, Medium \<mapsto> 6/10, High \<mapsto> 8/10, Critical \<mapsto> 1] :: thresholds"
  have "\<exists>st' lv sc stressed. classify_disk_pressure ?cfg (9/10) (1/2) (1/2) None ?thr press_init
      = Inr (st', lv, sc, stressed)"
    by (simp add: classify_disk_pressure_def Let_def split: prod.split)
  then obtain st' lv sc stressed where
    r: "classify_disk_pressure ?cfg (9/10) (1/2) (1/2) None ?thr press_init = Inr (st', lv, sc, stressed)" by blast
  from classify_disk_pressure_sound [OF r, of "4/10" "6/10" "8/10" 1 0 0] r show ?thesis
    by (auto simp: bands_def press_init_def psi_io_weights_def num_or_def psi_io_some_w_def psi_io_full_w_def)
qed

end
