(* ===== verification/Lease.thy ===== *)
theory Lease
  imports Py_Base "HOL-Library.AList"
begin

text \<open>
  The contract the two lease managers share (\<open>utils/quiet_mode.py\<close> and \<open>utils/ui_lease.py\<close>): a
  lease that is live at some time was live at every earlier time, and an event that is not a
  renewal never makes a lapsed lease live. What follows from it, that a lapsed lease stays lapsed
  over any run without a renewal, is proved once here.
\<close>

locale lease =
  fixes live :: "'s \<Rightarrow> real \<Rightarrow> bool"
    and step :: "'e \<Rightarrow> 's \<Rightarrow> 's"
    and renews :: "'e \<Rightarrow> bool"
  assumes live_antimono: "live s t' \<Longrightarrow> t \<le> t' \<Longrightarrow> live s t"
    and step_live: "\<not> renews e \<Longrightarrow> live (step e s) t \<Longrightarrow> live s t"
begin

lemma run_live: "\<forall>e\<in>set es. \<not> renews e \<Longrightarrow> live (fold step es s) t \<Longrightarrow> live s t"
  by (induction es arbitrary: s) (auto dest: step_live)

lemma lapsed_stays:
  assumes "\<forall>e\<in>set es. \<not> renews e" "\<not> live s t" "t \<le> t'"
  shows "\<not> live (fold step es s) t'"
  using assms run_live live_antimono by blast

lemma live_needs_renewal:
  assumes "\<not> live s t" "live (fold step es s) t"
  shows "\<exists>e\<in>set es. renews e"
  using assms run_live by blast

end

text \<open>A dict whose iteration order matters is an association list; \<open>d[k] = v\<close> is
  \<open>AList.update\<close>, which keeps a present key's place and appends a new one, as Python does.\<close>

lemma alist_update_map_of [simp]: "map_of (AList.update k v al) k' = (if k' = k then Some v else map_of al k')"
  by (simp add: update_conv')

end
