(* ===== verification/Quiet_Mode.thy ===== *)
theory Quiet_Mode
  imports Lease
begin

text \<open>
  \<open>utils/quiet_mode.py\<close>: the process-wide gate that a benchmark run holds. The fields of
  \<open>QuietModeManager\<close> are the record \<open>qm\<close>; every method is a function of the clock it reads
  (\<open>now\<close> is \<open>time.monotonic()\<close>, \<open>wall\<close> is \<open>time.time()\<close>) and of the record. A time to live is a
  number of seconds or \<open>float("inf")\<close>. Each method body runs under the manager's lock, so a
  history is a list of timestamped calls.
\<close>

datatype ttl = Finite real | Infinite

fun ttl_add :: "real \<Rightarrow> ttl \<Rightarrow> ttl" where
  "ttl_add now (Finite d) = Finite (now + d)"
| "ttl_add now Infinite = Infinite"

fun past :: "real \<Rightarrow> ttl \<Rightarrow> bool" where
  \<comment> \<open>\<open>time.monotonic() > self._deadline\<close>\<close>
  "past now (Finite d) = (now > d)"
| "past now Infinite = False"

datatype check_result =
    CheckRaises
  | CheckFalsy
  | CheckDict "(string \<times> string) list"
  | CheckReason string

record qm =
  qm_ttl_s :: ttl
  qm_owner :: "string option"
  qm_gate_up :: bool
  qm_since :: "real option"
  qm_deadline :: ttl
  qm_user_exited :: bool
  qm_blockers :: "(string \<times> (unit \<Rightarrow> check_result)) list"
  qm_watchdog :: bool

definition qm_init :: "ttl \<Rightarrow> qm" where
  "qm_init ttl_s = \<lparr>qm_ttl_s = ttl_s, qm_owner = None, qm_gate_up = False, qm_since = None,
     qm_deadline = Finite 0, qm_user_exited = False, qm_blockers = [], qm_watchdog = False\<rparr>"

definition qm_is_active :: "real \<Rightarrow> qm \<Rightarrow> bool" where
  "qm_is_active now q =
     (if qm_owner q = None \<or> \<not> qm_gate_up q then False
      else if past now (qm_deadline q) then False
      else True)"

definition qm_enter :: "real \<Rightarrow> real \<Rightarrow> string \<Rightarrow> ttl option \<Rightarrow> qm \<Rightarrow> qm" where
  "qm_enter now wall owner ttl q =
     (let ttl_s = (case ttl of None \<Rightarrow> qm_ttl_s q | Some d \<Rightarrow> d);
          expired = qm_owner q \<noteq> None \<and> past now (qm_deadline q);
          previous = (if expired then None else qm_owner q)
      in if previous = Some owner then q\<lparr>qm_deadline := ttl_add now ttl_s\<rparr>
         else q\<lparr>qm_owner := Some owner, qm_gate_up := True, qm_user_exited := False,
                qm_since := Some wall, qm_deadline := ttl_add now ttl_s, qm_watchdog := True\<rparr>)"

definition qm_exit :: "string option \<Rightarrow> qm \<Rightarrow> qm \<times> bool" where
  "qm_exit owner q =
     (if qm_owner q = None then (q, False)
      else if owner \<noteq> None \<and> owner \<noteq> qm_owner q then (q, False)
      else (q\<lparr>qm_owner := None, qm_gate_up := False, qm_since := None,
              qm_deadline := Finite 0, qm_user_exited := False\<rparr>, True))"

definition qm_heartbeat :: "real \<Rightarrow> string \<Rightarrow> qm \<Rightarrow> qm" where
  "qm_heartbeat now owner q =
     (if qm_owner q = Some owner \<and> \<not> past now (qm_deadline q)
      then q\<lparr>qm_deadline := ttl_add now (qm_ttl_s q)\<rparr> else q)"

definition qm_set_gate :: "bool \<Rightarrow> qm \<Rightarrow> qm \<times> bool" where
  "qm_set_gate up q =
     (if qm_owner q = None then (q, False)
      else let q' = q\<lparr>qm_gate_up := up\<rparr>;
               q'' = (if \<not> up then q'\<lparr>qm_user_exited := True\<rparr> else q')
           in (q'', qm_gate_up q''))"

definition qm_held_clean :: "qm \<Rightarrow> bool" where
  "qm_held_clean q \<longleftrightarrow> qm_owner q \<noteq> None \<and> \<not> qm_user_exited q"

record qm_state_view =
  qv_active :: bool
  qv_held :: bool
  qv_owner :: "string option"
  qv_since :: "real option"
  qv_user_exited :: bool

definition qm_state :: "real \<Rightarrow> qm \<Rightarrow> qm_state_view" where
  "qm_state now q =
     (let expired = qm_owner q \<noteq> None \<and> past now (qm_deadline q)
      in \<lparr>qv_active = (qm_owner q \<noteq> None \<and> qm_gate_up q \<and> \<not> expired),
          qv_held = (qm_owner q \<noteq> None \<and> \<not> expired),
          qv_owner = qm_owner q, qv_since = qm_since q, qv_user_exited = qm_user_exited q\<rparr>)"

definition qm_register_blocker :: "string \<Rightarrow> (unit \<Rightarrow> check_result) \<Rightarrow> qm \<Rightarrow> qm" where
  "qm_register_blocker name check q = q\<lparr>qm_blockers := AList.update name check (qm_blockers q)\<rparr>"

fun run_blockers :: "(string \<times> (unit \<Rightarrow> check_result)) list \<Rightarrow> (string \<rightharpoonup> string) list" where
  "run_blockers [] = []"
| "run_blockers ((name, check) # rest) =
     (case check () of
        CheckRaises \<Rightarrow> run_blockers rest
      | CheckFalsy \<Rightarrow> run_blockers rest
      | CheckDict kvs \<Rightarrow> ([''name'' \<mapsto> name] ++ map_of kvs) # run_blockers rest
      | CheckReason r \<Rightarrow> [''name'' \<mapsto> name, ''reason'' \<mapsto> r] # run_blockers rest)"

definition qm_check_blockers :: "qm \<Rightarrow> (string \<rightharpoonup> string) list" where
  "qm_check_blockers q = run_blockers (qm_blockers q)"

definition qm_watch :: "real \<Rightarrow> qm \<Rightarrow> qm" where
  \<comment> \<open>one round of the watchdog thread, which exists once the first hold has armed it\<close>
  "qm_watch now q =
     (if qm_watchdog q \<and> qm_owner q \<noteq> None \<and> past now (qm_deadline q) then fst (qm_exit None q) else q)"

subsection \<open>Histories\<close>

datatype qm_event =
    QEnter real string "ttl option"
  | QExit "string option"
  | QHeartbeat string
  | QSetGate bool
  | QWatch
  | QRegister string "unit \<Rightarrow> check_result"

fun qm_step :: "real \<times> qm_event \<Rightarrow> qm \<Rightarrow> qm" where
  "qm_step (now, QEnter wall owner ttl) q = qm_enter now wall owner ttl q"
| "qm_step (now, QExit owner) q = fst (qm_exit owner q)"
| "qm_step (now, QHeartbeat owner) q = qm_heartbeat now owner q"
| "qm_step (now, QSetGate up) q = fst (qm_set_gate up q)"
| "qm_step (now, QWatch) q = qm_watch now q"
| "qm_step (now, QRegister name check) q = qm_register_blocker name check q"

definition qm_inv :: "qm \<Rightarrow> bool" where
  \<comment> \<open>a manager nobody holds is quiescent, and a hold has its watchdog\<close>
  "qm_inv q \<longleftrightarrow> (qm_owner q = None \<longrightarrow> \<not> qm_gate_up q \<and> qm_since q = None \<and> \<not> qm_user_exited q)
     \<and> (qm_owner q \<noteq> None \<longrightarrow> qm_watchdog q \<and> qm_since q \<noteq> None)"

lemmas qm_defs = qm_enter_def qm_exit_def qm_heartbeat_def qm_set_gate_def qm_watch_def
  qm_register_blocker_def Let_def

lemma qm_inv_init: "qm_inv (qm_init d)"
  by (simp add: qm_inv_def qm_init_def)

lemma qm_step_inv: "qm_inv q \<Longrightarrow> qm_inv (qm_step e q)"
  by (cases "(e, q)" rule: qm_step.cases) (auto simp: qm_inv_def qm_defs)

lemma qm_run_inv: "qm_inv q \<Longrightarrow> qm_inv (fold qm_step es q)"
  by (induction es arbitrary: q) (auto intro: qm_step_inv)

lemma past_mono: "past t d \<Longrightarrow> t \<le> t' \<Longrightarrow> past t' d"
  by (cases d) auto

definition qm_holds :: "string \<Rightarrow> qm \<Rightarrow> real \<Rightarrow> bool" where
  "qm_holds owner q now \<longleftrightarrow> qm_owner q = Some owner \<and> \<not> past now (qm_deadline q)"

fun qm_renews :: "string \<Rightarrow> real \<times> qm_event \<Rightarrow> bool" where
  "qm_renews owner (now, QEnter wall o' ttl) = (o' = owner)"
| "qm_renews owner (now, QHeartbeat o') = (o' = owner)"
| "qm_renews owner _ = False"

interpretation quiet: lease "qm_holds owner" qm_step "qm_renews owner" for owner
proof unfold_locales
  show "qm_holds owner s t' \<Longrightarrow> t \<le> t' \<Longrightarrow> qm_holds owner s t" for s t t'
    by (auto simp: qm_holds_def dest: past_mono)
  show "\<not> qm_renews owner e \<Longrightarrow> qm_holds owner (qm_step e s) t \<Longrightarrow> qm_holds owner s t" for e s t
    by (cases "(e, s)" rule: qm_step.cases) (auto simp: qm_holds_def qm_defs split: if_splits)
qed

lemma qm_active_holds: "qm_is_active now q \<longleftrightarrow> (\<exists>owner. qm_holds owner q now) \<and> qm_gate_up q"
  by (auto simp: qm_is_active_def qm_holds_def)

lemma ttl_add_not_past: "\<not> past now (ttl_add t d) \<Longrightarrow> d = Finite x \<Longrightarrow> now \<le> t + x"
  by simp

text \<open>Where the current deadline comes from: the current owner's last renewal.\<close>

definition renewed_by :: "ttl \<Rightarrow> string \<Rightarrow> ttl \<Rightarrow> real \<times> qm_event \<Rightarrow> bool" where
  "renewed_by dflt owner d e \<longleftrightarrow>
     (case e of (t, QEnter wall o' ttl) \<Rightarrow> o' = owner \<and> d = ttl_add t (case ttl of None \<Rightarrow> dflt | Some x \<Rightarrow> x)
              | (t, QHeartbeat o') \<Rightarrow> o' = owner \<and> d = ttl_add t dflt
              | _ \<Rightarrow> False)"

lemma qm_ttl_const: "qm_ttl_s (qm_step e q) = qm_ttl_s q"
  by (cases "(e, q)" rule: qm_step.cases) (auto simp: qm_defs)

lemma qm_run_ttl_const: "qm_ttl_s (fold qm_step es q) = qm_ttl_s q"
  by (induction es arbitrary: q) (simp_all add: qm_ttl_const)

lemma qm_step_renewed:
  assumes "qm_owner (qm_step e q) = Some owner"
  shows "renewed_by (qm_ttl_s q) owner (qm_deadline (qm_step e q)) e
    \<or> (qm_owner q = Some owner \<and> qm_deadline (qm_step e q) = qm_deadline q)"
  using assms
  by (cases "(e, q)" rule: qm_step.cases)
     (auto simp: qm_defs renewed_by_def split: if_splits option.splits)

lemma qm_run_renewed:
  "qm_owner (fold qm_step es (qm_init d)) = Some owner \<Longrightarrow>
     \<exists>e\<in>set es. renewed_by d owner (qm_deadline (fold qm_step es (qm_init d))) e"
proof (induction es rule: rev_induct)
  case Nil
  then show ?case by (simp add: qm_init_def)
next
  case (snoc e es)
  let ?q = "fold qm_step es (qm_init d)"
  have ttl: "qm_ttl_s ?q = d" by (simp add: qm_run_ttl_const) (simp add: qm_init_def)
  from snoc.prems qm_step_renewed [of e ?q owner] ttl snoc.IH show ?case by auto
qed

subsection \<open>Properties\<close>

text \<open>background activity stands down only under a live lease. In every history that starts
  from a fresh manager, if the gate reads active at \<open>now\<close> then some run \<open>owner\<close> holds it and the
  history contains a renewal by that same owner (an \<open>enter\<close>, or a heartbeat) whose time plus its
  time to live has not passed; so a dead sampler cannot keep monitoring suspended, whether or not
  the watchdog ever runs.\<close>
theorem quiet_active_has_live_renewal:
  assumes "qm_is_active now (fold qm_step es (qm_init (Finite d)))"
  shows "\<exists>owner t ev. (t, ev) \<in> set es \<and> qm_owner (fold qm_step es (qm_init (Finite d))) = Some owner
     \<and> ((ev = QHeartbeat owner \<and> now \<le> t + d)
        \<or> (\<exists>wall. ev = QEnter wall owner None \<and> now \<le> t + d)
        \<or> (\<exists>wall x. ev = QEnter wall owner (Some (Finite x)) \<and> now \<le> t + x)
        \<or> (\<exists>wall. ev = QEnter wall owner (Some Infinite)))"
proof -
  let ?q = "fold qm_step es (qm_init (Finite d))"
  from assms obtain owner where o: "qm_owner ?q = Some owner" "\<not> past now (qm_deadline ?q)"
    by (auto simp: qm_active_holds qm_holds_def)
  from qm_run_renewed [OF o(1)] obtain t ev where e: "(t, ev) \<in> set es"
    "renewed_by (Finite d) owner (qm_deadline ?q) (t, ev)" by auto
  show ?thesis
  proof (cases ev)
    case (QEnter wall o' tt)
    with e o show ?thesis
      by (cases tt; cases "the tt") (force simp: renewed_by_def)+
  next
    case (QHeartbeat o')
    with e o show ?thesis by (force simp: renewed_by_def)
  qed (use e in \<open>simp_all add: renewed_by_def\<close>)
qed

theorem quiet_active_has_live_renewal_witness:
  "qm_is_active 100 (fold qm_step [(0, QEnter 5 ''run'' None), (90, QHeartbeat ''run'')] (qm_init (Finite 95)))
   \<and> (\<exists>owner t ev. (t, ev) \<in> set [(0::real, QEnter 5 ''run'' None), (90, QHeartbeat ''run'')]
      \<and> qm_owner (fold qm_step [(0, QEnter 5 ''run'' None), (90, QHeartbeat ''run'')] (qm_init (Finite 95))) = Some owner)"
proof -
  have a: "qm_is_active 100 (fold qm_step [(0, QEnter 5 ''run'' None), (90, QHeartbeat ''run'')] (qm_init (Finite 95)))"
    by (simp add: qm_init_def qm_defs qm_is_active_def)
  from quiet_active_has_live_renewal [OF a] a show ?thesis by blast
qed

text \<open>once a hold has lapsed, nothing but an \<open>enter\<close> or a heartbeat of that run can give it back
  (a heartbeat that comes after the lapse does not either), and an \<open>exit\<close> naming another run
  changes nothing: a late callback cannot cancel the run that started after it.\<close>
theorem quiet_lapsed_needs_renewal:
  assumes "\<not> qm_holds owner q t" and "\<forall>e\<in>set es. \<not> qm_renews owner e" and "t \<le> t'"
  shows "\<not> qm_holds owner (fold qm_step es q) t'
    \<and> \<not> qm_holds owner (qm_step (t, QHeartbeat owner) q) t
    \<and> (qm_owner q \<noteq> Some other \<longrightarrow> qm_exit (Some other) q = (q, False))"
proof -
  have "\<not> qm_holds owner (qm_step (t, QHeartbeat owner) q) t"
    using assms(1) by (auto simp: qm_holds_def qm_heartbeat_def)
  with quiet.lapsed_stays [OF assms(2,1,3)] show ?thesis by (simp add: qm_exit_def)
qed

theorem quiet_lapsed_needs_renewal_witness:
  "\<not> qm_holds ''a'' (fold qm_step [(12, QSetGate True), (13, QHeartbeat ''b'')]
        (qm_enter 0 0 ''a'' None (qm_init (Finite 10)))) 14"
  by (rule quiet_lapsed_needs_renewal [of "''a''" _ 11 _ 14, THEN conjunct1])
     (simp_all add: qm_holds_def qm_init_def qm_defs)

text \<open>What ends the hold of \<open>owner\<close>, given the deadline it runs under: an exit that names the run or
  nobody, an \<open>enter\<close> by another run or after the hold has lapsed (which begins a new hold), and a round
  of the watchdog after the lapse. A renewal by the owner itself, heartbeats, the gate, the registration
  of blockers, an exit that names another run and a round of the watchdog in time do not.\<close>

fun ends_hold :: "string \<Rightarrow> ttl \<Rightarrow> real \<times> qm_event \<Rightarrow> bool" where
  "ends_hold owner deadline (now, QExit who) = (who = None \<or> who = Some owner)"
| "ends_hold owner deadline (now, QEnter wall who ttl) = (who \<noteq> owner \<or> past now deadline)"
| "ends_hold owner deadline (now, QWatch) = past now deadline"
| "ends_hold owner deadline (now, _) = False"

fun hold_goes_on :: "string \<Rightarrow> (real \<times> qm_event) list \<Rightarrow> qm \<Rightarrow> bool" where
  "hold_goes_on owner [] q = True"
| "hold_goes_on owner (e # es) q =
     (\<not> ends_hold owner (qm_deadline q) e \<and> hold_goes_on owner es (qm_step e q))"

lemma dirty_step:
  assumes "qm_owner q = Some owner" "qm_user_exited q" "\<not> ends_hold owner (qm_deadline q) e"
  shows "qm_owner (qm_step e q) = Some owner \<and> qm_user_exited (qm_step e q)"
  using assms by (cases "(e, q)" rule: qm_step.cases) (auto simp: qm_defs)

lemma dirty_run:
  "qm_owner q = Some owner \<Longrightarrow> qm_user_exited q \<Longrightarrow> hold_goes_on owner es q \<Longrightarrow>
     qm_owner (fold qm_step es q) = Some owner \<and> qm_user_exited (fold qm_step es q)"
proof (induction es arbitrary: q)
  case (Cons e es)
  from Cons.prems(3) have "\<not> ends_hold owner (qm_deadline q) e" by simp
  from dirty_step [OF Cons.prems(1,2) this] have "qm_owner (qm_step e q) = Some owner" "qm_user_exited (qm_step e q)"
    by simp_all
  from Cons.IH [OF this] Cons.prems(3) show ?case by simp
qed simp

text \<open>C3: a run whose gate the user dropped is never reported clean again while it keeps its hold:
  after \<open>set_gate(False)\<close> on a held gate, over any calls none of which ends the hold (the run may renew it by
  \<open>enter\<close> or by heartbeats, the gate may be raised again, the watchdog may go round, other runs may try to
  exit), the run still owns the gate, \<open>held_clean\<close> is false and the reported state says that the user
  left.\<close>
theorem quiet_dirty_is_sticky:
  assumes "qm_owner q = Some owner"
    and "hold_goes_on owner es (fst (qm_set_gate False q))"
  shows "\<not> qm_held_clean (fold qm_step es (fst (qm_set_gate False q)))
    \<and> qm_owner (fold qm_step es (fst (qm_set_gate False q))) = Some owner
    \<and> qv_user_exited (qm_state now (fold qm_step es (fst (qm_set_gate False q))))"
proof -
  have "qm_owner (fst (qm_set_gate False q)) = Some owner" "qm_user_exited (fst (qm_set_gate False q))"
    using assms(1) by (simp_all add: qm_set_gate_def Let_def)
  from dirty_run [OF this assms(2)] show ?thesis by (simp add: qm_held_clean_def qm_state_def Let_def)
qed

theorem quiet_dirty_is_sticky_witness:
  "\<not> qm_held_clean (fold qm_step [(1, QSetGate True), (2, QEnter 3 ''a'' None), (3, QWatch), (4, QExit (Some ''b''))]
       (fst (qm_set_gate False (qm_enter 0 0 ''a'' None (qm_init (Finite 10))))))"
  by (rule quiet_dirty_is_sticky [where owner = "''a''", THEN conjunct1]) (simp_all add: qm_init_def qm_defs)

end
