(* ===== verification/Ui_Lease.thy ===== *)
theory Ui_Lease
  imports Lease
begin

text \<open>
  \<open>utils/ui_lease.py\<close>: each open dashboard tab holds a lease, and an armed watchdog stops the service
  once the last one has lapsed. The fields of \<open>UiLeaseManager\<close> are the record \<open>uil\<close>; the session
  dict is an association list from session id to deadline.
\<close>

record uil =
  ul_heartbeat_grace :: real
  ul_release_grace :: real
  ul_startup_grace :: real
  ul_sessions :: "(string \<times> real) list"
  ul_any_seen :: bool
  ul_started_at :: real
  ul_enabled :: bool
  ul_stopped :: bool
  ul_shutdowns :: nat  \<comment> \<open>how often the shutdown callback has been called\<close>

definition uil_init :: "real \<Rightarrow> real \<Rightarrow> real \<Rightarrow> real \<Rightarrow> uil" where
  "uil_init hb rel startup now = \<lparr>ul_heartbeat_grace = hb, ul_release_grace = rel,
     ul_startup_grace = startup, ul_sessions = [], ul_any_seen = False, ul_started_at = now,
     ul_enabled = False, ul_stopped = False, ul_shutdowns = 0\<rparr>"

definition uil_heartbeat :: "real \<Rightarrow> string \<Rightarrow> uil \<Rightarrow> uil" where
  "uil_heartbeat now sid u =
     u\<lparr>ul_any_seen := True, ul_sessions := AList.update sid (now + ul_heartbeat_grace u) (ul_sessions u)\<rparr>"

definition uil_release :: "real \<Rightarrow> string \<Rightarrow> uil \<Rightarrow> uil" where
  "uil_release now sid u =
     (let soon = now + ul_release_grace u
      in u\<lparr>ul_any_seen := True,
           ul_sessions := AList.update sid
             (case map_of (ul_sessions u) sid of None \<Rightarrow> soon | Some existing \<Rightarrow> min existing soon)
             (ul_sessions u)\<rparr>)"

definition uil_enable :: "real \<Rightarrow> uil \<Rightarrow> uil" where
  "uil_enable now u = (if ul_enabled u then u else u\<lparr>ul_enabled := True, ul_started_at := now\<rparr>)"

definition uil_should_stop :: "real \<Rightarrow> uil \<Rightarrow> uil \<times> bool" where
  "uil_should_stop now u =
     (let alive = filter (\<lambda>(sid, deadline). deadline > now) (ul_sessions u);
          u' = u\<lparr>ul_sessions := alive\<rparr>
      in if alive \<noteq> [] then (u', False)
         else if ul_any_seen u then (u', True)
         else (u', now - ul_started_at u > ul_startup_grace u))"

definition uil_watch :: "real \<Rightarrow> uil \<Rightarrow> uil" where
  \<comment> \<open>one round of the watchdog thread: it exists once \<open>enable\<close> was called, and returns after a stop\<close>
  "uil_watch now u =
     (if \<not> ul_enabled u \<or> ul_stopped u then u
      else case uil_should_stop now u of (u', stop) \<Rightarrow>
        if stop then u'\<lparr>ul_stopped := True, ul_shutdowns := ul_shutdowns u' + 1\<rparr> else u')"

datatype ui_event = UHeartbeat string | URelease string | UEnable | UWatch

fun uil_step :: "real \<times> ui_event \<Rightarrow> uil \<Rightarrow> uil" where
  "uil_step (now, UHeartbeat sid) u = uil_heartbeat now sid u"
| "uil_step (now, URelease sid) u = uil_release now sid u"
| "uil_step (now, UEnable) u = uil_enable now u"
| "uil_step (now, UWatch) u = uil_watch now u"

lemmas uil_defs = uil_heartbeat_def uil_release_def uil_enable_def uil_should_stop_def uil_watch_def Let_def

definition uil_holds :: "string \<Rightarrow> uil \<Rightarrow> real \<Rightarrow> bool" where
  "uil_holds sid u now \<longleftrightarrow> list_ex (\<lambda>(s', d). s' = sid \<and> d > now) (ul_sessions u)"

fun uil_renews :: "string \<Rightarrow> real \<times> ui_event \<Rightarrow> bool" where
  "uil_renews sid (now, UHeartbeat s') = (s' = sid)"
| "uil_renews sid (now, URelease s') = (s' = sid)"
| "uil_renews sid _ = False"

subsection \<open>Lemmas\<close>

lemma uil_holds_iff: "uil_holds sid u now \<longleftrightarrow> (\<exists>d. (sid, d) \<in> set (ul_sessions u) \<and> d > now)"
  by (auto simp: uil_holds_def list_ex_iff)

lemma update_other: "k \<noteq> k' \<Longrightarrow> (k, v) \<in> set (AList.update k' w xs) \<longleftrightarrow> (k, v) \<in> set xs"
  by (induction xs) auto

lemma update_mem: "(k, w) \<in> set (AList.update k w xs)"
  by (induction xs) auto

lemma uil_keys_distinct:
  "distinct (map fst (ul_sessions u)) \<Longrightarrow> distinct (map fst (ul_sessions (uil_step e u)))"
  by (cases "(e, u)" rule: uil_step.cases)
     (auto simp: uil_defs distinct_update distinct_map_filter split: if_splits)

interpretation ui: lease "uil_holds sid" uil_step "uil_renews sid" for sid
proof unfold_locales
  show "uil_holds sid s t' \<Longrightarrow> t \<le> t' \<Longrightarrow> uil_holds sid s t" for s t t'
    by (force simp: uil_holds_iff)
  show "\<not> uil_renews sid e \<Longrightarrow> uil_holds sid (uil_step e s) t \<Longrightarrow> uil_holds sid s t" for e s t
    by (cases "(e, s)" rule: uil_step.cases)
       (auto simp: uil_holds_iff uil_defs update_other split: if_splits)
qed

lemma alive_empty_iff:
  "filter (\<lambda>(sid, deadline). deadline > now) (ul_sessions u) = [] \<longleftrightarrow> (\<forall>sid. \<not> uil_holds sid u now)"
  by (auto simp: uil_holds_iff filter_empty_conv)

lemma uil_stop_iff:
  "snd (uil_should_stop now u) \<longleftrightarrow> (\<forall>sid. \<not> uil_holds sid u now)
     \<and> (ul_any_seen u \<or> now - ul_started_at u > ul_startup_grace u)"
  unfolding alive_empty_iff [symmetric] by (simp add: uil_should_stop_def Let_def)

lemma uil_should_stop_fst:
  "fst (uil_should_stop now u) = u\<lparr>ul_sessions := filter (\<lambda>(sid, deadline). deadline > now) (ul_sessions u)\<rparr>"
  by (simp add: uil_should_stop_def Let_def)

lemma uil_watch_stopped:
  "\<not> ul_stopped u \<Longrightarrow> ul_stopped (uil_watch now u) \<longleftrightarrow> ul_enabled u \<and> snd (uil_should_stop now u)"
  using uil_should_stop_fst [of now u] by (auto simp: uil_watch_def split: prod.split)

lemma uil_watch_mem:
  "(sid, d) \<in> set (ul_sessions (uil_watch now u)) \<longleftrightarrow>
     (sid, d) \<in> set (ul_sessions u) \<and> (ul_enabled u \<and> \<not> ul_stopped u \<longrightarrow> d > now)"
  using uil_should_stop_fst [of now u] by (auto simp: uil_watch_def split: prod.split)

lemma uil_shutdowns_once:
  "ul_shutdowns u = (if ul_stopped u then 1 else 0) \<Longrightarrow>
     ul_shutdowns (uil_step e u) = (if ul_stopped (uil_step e u) then 1 else 0)"
  by (cases "(e, u)" rule: uil_step.cases) (auto simp: uil_defs)

lemma uil_run_shutdowns:
  "ul_shutdowns u = (if ul_stopped u then 1 else 0) \<Longrightarrow>
     ul_shutdowns (fold uil_step es u) = (if ul_stopped (fold uil_step es u) then 1 else 0)"
proof (induction es arbitrary: u)
  case (Cons e es)
  from Cons.IH [OF uil_shutdowns_once [OF Cons.prems, of e]] show ?case
    by (simp only: fold_simps)
qed (simp only: fold_simps)

lemma uil_run_grace: "ul_heartbeat_grace (fold uil_step es u) = ul_heartbeat_grace u"
proof (induction es arbitrary: u)
  case (Cons e es)
  have "ul_heartbeat_grace (uil_step e u) = ul_heartbeat_grace u"
    by (cases "(e, u)" rule: uil_step.cases) (auto simp: uil_defs)
  with Cons show ?case by simp
qed simp

lemma uil_run_seen:
  "ul_any_seen u \<Longrightarrow> ul_enabled u \<Longrightarrow> ul_any_seen (fold uil_step es u) \<and> ul_enabled (fold uil_step es u)"
proof (induction es arbitrary: u)
  case (Cons e es)
  have "ul_any_seen (uil_step e u) \<and> ul_enabled (uil_step e u)" using Cons.prems
    by (cases "(e, u)" rule: uil_step.cases) (auto simp: uil_defs)
  with Cons.IH show ?case by simp
qed simp

text \<open>A lease survives every event but its own release, as long as its deadline lies ahead.\<close>

lemma uil_step_keeps:
  assumes "\<exists>d. (sid, d) \<in> set (ul_sessions u) \<and> d \<ge> dl"
    and "fst e < dl" "snd e \<noteq> URelease sid" "snd e = UHeartbeat sid \<Longrightarrow> fst e + ul_heartbeat_grace u \<ge> dl"
  shows "\<exists>d. (sid, d) \<in> set (ul_sessions (uil_step e u)) \<and> d \<ge> dl"
proof (cases "(e, u)" rule: uil_step.cases)
  case (1 now s' u')
  with assms show ?thesis
    by (cases "s' = sid") (auto simp: uil_heartbeat_def update_other intro: update_mem)
next
  case (2 now s' u')
  with assms show ?thesis by (auto simp: uil_release_def Let_def update_other)
next
  case (4 now u')
  from assms(1) obtain d where "(sid, d) \<in> set (ul_sessions u)" "d \<ge> dl" by blast
  with 4 assms(2) show ?thesis by (intro exI [of _ d]) (simp add: uil_watch_mem)
qed (use assms in \<open>auto simp: uil_defs\<close>)

lemma uil_run_keeps:
  assumes "\<exists>d. (sid, d) \<in> set (ul_sessions u) \<and> d \<ge> dl"
    and "\<forall>e\<in>set es. fst e < dl \<and> snd e \<noteq> URelease sid
          \<and> (snd e = UHeartbeat sid \<longrightarrow> fst e + ul_heartbeat_grace u \<ge> dl)"
  shows "\<exists>d. (sid, d) \<in> set (ul_sessions (fold uil_step es u)) \<and> d \<ge> dl"
  using assms
proof (induction es arbitrary: u)
  case (Cons e es)
  have g: "ul_heartbeat_grace (uil_step e u) = ul_heartbeat_grace u"
    using uil_run_grace [of "[e]" u] by simp
  from Cons.prems uil_step_keeps [of sid u dl e]
  have "\<exists>d. (sid, d) \<in> set (ul_sessions (uil_step e u)) \<and> d \<ge> dl" by auto
  with Cons.IH [of "uil_step e u"] Cons.prems(2) g show ?case by auto
qed simp

subsection \<open>Properties\<close>

text \<open>C4: an armed watchdog round stops the service exactly when no tab holds a live lease and either
  a tab was seen before or the startup window has passed; it then calls the shutdown callback, which
  over any history happens at most once.\<close>
theorem ui_watch_verdict:
  assumes "ul_enabled u" and "\<not> ul_stopped u"
  shows "(ul_stopped (uil_watch now u) \<longleftrightarrow> (\<forall>sid. \<not> uil_holds sid u now)
       \<and> (ul_any_seen u \<or> now - ul_started_at u > ul_startup_grace u))
     \<and> (\<forall>sid t. now \<le> t \<longrightarrow> uil_holds sid (uil_watch now u) t = uil_holds sid u t)
     \<and> ul_shutdowns (fold uil_step es (uil_init hb rel startup t0)) \<le> 1"
proof -
  have "ul_stopped (uil_watch now u) \<longleftrightarrow> snd (uil_should_stop now u)"
    using assms by (simp add: uil_watch_stopped)
  moreover have "uil_holds sid (uil_watch now u) t = uil_holds sid u t" if "now \<le> t" for sid t
    using that by (auto simp: uil_holds_iff uil_watch_mem)
  moreover have "ul_shutdowns (fold uil_step es (uil_init hb rel startup t0)) \<le> 1"
    using uil_run_shutdowns [of "uil_init hb rel startup t0" es] by (simp add: uil_init_def)
  ultimately show ?thesis using uil_stop_iff by blast
qed

theorem ui_watch_verdict_witness:
  "ul_stopped (uil_watch 130 (uil_enable 0 (uil_init 90 12 120 0)))
   \<and> \<not> ul_stopped (uil_watch 60 (uil_heartbeat 5 ''tab'' (uil_enable 0 (uil_init 90 12 120 0))))"
proof -
  have e: "ul_enabled (uil_enable 0 (uil_init 90 12 120 0))" "\<not> ul_stopped (uil_enable 0 (uil_init 90 12 120 0))"
    "ul_enabled (uil_heartbeat 5 ''tab'' (uil_enable 0 (uil_init 90 12 120 0)))"
    "\<not> ul_stopped (uil_heartbeat 5 ''tab'' (uil_enable 0 (uil_init 90 12 120 0)))"
    by (simp_all add: uil_defs uil_init_def)
  have h: "\<not> uil_holds sid (uil_enable 0 (uil_init 90 12 120 0)) 130" for sid
    by (simp add: uil_holds_def uil_defs uil_init_def)
  have t: "uil_holds ''tab'' (uil_heartbeat 5 ''tab'' (uil_enable 0 (uil_init 90 12 120 0))) 60"
    by (simp add: uil_holds_def uil_defs uil_init_def)
  show ?thesis
    using ui_watch_verdict [OF e(1,2), of 130] ui_watch_verdict [OF e(3,4), of 60] h t
    by (auto simp: uil_defs uil_init_def)
qed

text \<open>an open tab is not mistaken for a closed one. From its heartbeat at \<open>t\<close>, over any events
  before \<open>t + grace\<close> that do not release it (its own further heartbeats come later than \<open>t\<close>), the tab
  still holds its lease at every time before \<open>t + grace\<close>, so no watchdog round among them stops an
  armed service that was running.\<close>
theorem ui_heartbeat_keeps_service:
  assumes "\<forall>e\<in>set es. t \<le> fst e \<and> fst e < t + ul_heartbeat_grace u \<and> snd e \<noteq> URelease sid"
    and "t' < t + ul_heartbeat_grace u" and "\<not> ul_stopped u"
  shows "uil_holds sid (fold uil_step es (uil_heartbeat t sid u)) t'
    \<and> \<not> ul_stopped (fold uil_step es (uil_heartbeat t sid u))"
proof -
  let ?u = "uil_heartbeat t sid u" and ?dl = "t + ul_heartbeat_grace u"
  have g: "ul_heartbeat_grace ?u = ul_heartbeat_grace u" by (simp add: uil_heartbeat_def)
  have start: "\<exists>d. (sid, d) \<in> set (ul_sessions ?u) \<and> d \<ge> ?dl"
    by (auto simp: uil_heartbeat_def intro: update_mem)
  have keeps: "\<exists>d. (sid, d) \<in> set (ul_sessions (fold uil_step xs ?u)) \<and> d \<ge> ?dl"
    if "set xs \<subseteq> set es" for xs
    using that assms(1) by (intro uil_run_keeps start) (auto simp: g)
  have "\<not> ul_stopped (fold uil_step xs ?u)" if "set xs \<subseteq> set es" for xs
    using that
  proof (induction xs rule: rev_induct)
    case Nil
    show ?case using assms(3) by (simp add: uil_heartbeat_def)
  next
    case (snoc e xs)
    let ?v = "fold uil_step xs ?u"
    obtain now ev where e: "e = (now, ev)" by fastforce
    have v: "\<not> ul_stopped ?v" using snoc by simp
    have "uil_holds sid ?v now"
      using keeps [of xs] snoc.prems assms(1) e by (force simp: uil_holds_iff)
    then have "\<not> snd (uil_should_stop now ?v)" using uil_stop_iff by blast
    then have "\<not> ul_stopped (uil_watch now ?v)"
      using v by (simp add: uil_watch_stopped)
    with v show ?case unfolding e
      by (cases ev) (simp_all add: uil_heartbeat_def uil_release_def uil_enable_def Let_def)
  qed
  with keeps [of es] assms(2) show ?thesis by (force simp: uil_holds_iff)
qed

theorem ui_heartbeat_keeps_service_witness:
  "\<not> ul_stopped (fold uil_step [(20, UWatch), (30, URelease ''other''), (95, UWatch)]
     (uil_heartbeat 10 ''tab'' (uil_enable 0 (uil_init 90 12 120 0))))"
  by (rule ui_heartbeat_keeps_service [where t' = 96, THEN conjunct2]) (simp_all add: uil_defs uil_init_def)

text \<open>a service nobody looks at any more is stopped: once a tab has been seen and every lease has
  lapsed by \<open>t\<close>, then after any further events without a heartbeat or a release the next watchdog
  round at or after \<open>t\<close> stops the service. A release never pushes a known deadline further out.\<close>
theorem ui_silence_stops_service:
  assumes "ul_enabled u" and "ul_any_seen u" and "\<forall>sid. \<not> uil_holds sid u t"
    and "\<forall>e\<in>set es. snd e = UWatch \<or> snd e = UEnable" and "t \<le> now"
  shows "ul_stopped (uil_watch now (fold uil_step es u))
    \<and> (\<forall>v sid d r. map_of (ul_sessions v) sid = Some d
         \<longrightarrow> the (map_of (ul_sessions (uil_release r sid v)) sid) \<le> d)"
proof -
  have nr: "\<forall>e\<in>set es. \<not> uil_renews sid e" for sid using assms(4) by force
  have "\<forall>sid. \<not> uil_holds sid (fold uil_step es u) now"
    using ui.lapsed_stays [OF nr] assms(3,5) by blast
  with uil_run_seen [OF assms(2,1), of es] have "ul_stopped (uil_watch now (fold uil_step es u))"
    using uil_stop_iff [of now "fold uil_step es u"]
    by (cases "ul_stopped (fold uil_step es u)") (simp add: uil_watch_def, simp add: uil_watch_stopped)
  then show ?thesis by (auto simp: uil_release_def Let_def)
qed

theorem ui_silence_stops_service_witness:
  "ul_stopped (uil_watch 130 (fold uil_step [(121, UEnable)] (uil_heartbeat 5 ''tab'' (uil_enable 0 (uil_init 90 12 120 0)))))"
  by (rule ui_silence_stops_service [where t = 120, THEN conjunct1])
     (simp_all add: uil_defs uil_init_def uil_holds_def)

end
