(* ===== verification/Psi.thy ===== *)
theory Psi
  imports Py_String
begin

text \<open>
  \<open>PSIMonitor\<close> of \<open>monitor/psi.py\<close>: stall rates from the cumulative totals of the kernel's
  pressure files. Each file read is an argument (its text, \<open>None\<close> for an \<open>OSError\<close>) together with the
  clock value read beside it; the monitor's mutable fields are the record \<open>psi_state\<close>. Opening the
  files, writing the triggers and closing the descriptors are system calls and not modelled.
\<close>

datatype psi_res = RCpu | RMem | RIo

datatype frac_key = SysKey psi_res | CgKey string psi_res

record psi_state =
  pm_last_total :: "psi_res \<rightharpoonup> real \<times> int"
  pm_frac_last :: "frac_key \<rightharpoonup> real \<times> int"
  pm_frac_smoothed :: "psi_res \<rightharpoonup> real"
  pm_io_full_last :: "(real \<times> int) option"
  pm_pressure_history :: "psi_res \<Rightarrow> (real \<times> real) list"
  pm_last_pressure :: "psi_res \<Rightarrow> real"
  pm_window_sec :: real

definition psi_init :: psi_state where
  "psi_init = \<lparr>pm_last_total = Map.empty, pm_frac_last = Map.empty, pm_frac_smoothed = Map.empty,
     pm_io_full_last = None, pm_pressure_history = (\<lambda>_. []), pm_last_pressure = (\<lambda>_. 0),
     pm_window_sec = 5\<rparr>"

definition frac_ewma_alpha :: real where "frac_ewma_alpha = 3/10"

definition psi_line :: "string \<Rightarrow> string \<Rightarrow> string option" where
  "psi_line kind data = find (\<lambda>line. startswith line kind) (split_char (CHR 0x0A) data)"

definition parse_total :: "string \<Rightarrow> py_error + int" where
  "parse_total data =
     (case psi_line ''some'' data of
        None \<Rightarrow> Inr 0
      | Some line \<Rightarrow> (case py_int (after_last ''total='' line) of None \<Rightarrow> Inl ValueError | Some n \<Rightarrow> Inr n))"

definition parse_some_total :: "string option \<Rightarrow> int option" where
  "parse_some_total file =
     (case file of None \<Rightarrow> None
      | Some data \<Rightarrow> (case psi_line ''some'' data of None \<Rightarrow> None
                       | Some line \<Rightarrow> py_int (after_last ''total='' line)))"

definition parse_full_total :: "string option \<Rightarrow> int option" where
  "parse_full_total file =
     (case file of None \<Rightarrow> None
      | Some data \<Rightarrow> (case psi_line ''full'' data of None \<Rightarrow> None
                       | Some line \<Rightarrow> py_int (after_last ''total='' line)))"

definition stall_rate :: "int \<Rightarrow> real \<Rightarrow> real" where
  \<comment> \<open>\<open>max(0.0, min(total_delta / 1_000_000 / time_delta, 1.0))\<close>\<close>
  "stall_rate total_delta time_delta = clamp 0 1 (of_int total_delta / 1000000 / time_delta)"

definition clean_old_data :: "psi_res \<Rightarrow> real \<Rightarrow> psi_state \<Rightarrow> psi_state" where
  "clean_old_data r now st =
     (let cutoff = now - pm_window_sec st;
          kept = filter (\<lambda>(t, p). t \<ge> cutoff) (pm_pressure_history st r);
          kept' = (if kept = [] \<and> pm_last_pressure st r > 0
                   then [(cutoff + 1/10, pm_last_pressure st r)] else kept)
      in st\<lparr>pm_pressure_history := (pm_pressure_history st)(r := kept')\<rparr>)"

definition get_resource_pressure ::
  "psi_res \<Rightarrow> real \<Rightarrow> string option \<Rightarrow> real \<Rightarrow> psi_state \<Rightarrow> py_error + psi_state \<times> real" where
  "get_resource_pressure r now file now' st =
     (case file of
        None \<Rightarrow> Inl (OSError 0)
      | Some data \<Rightarrow>
          bindE (parse_total data) (\<lambda>current_total.
            case pm_last_total st r of
              None \<Rightarrow> Inr (st\<lparr>pm_last_total := (pm_last_total st)(r \<mapsto> (now, current_total))\<rparr>, 0)
            | Some (last_time, last_total) \<Rightarrow>
                let time_delta = now - last_time;
                    total_delta = current_total - last_total;
                    pressure = (if time_delta \<le> 0 then 0 else stall_rate total_delta time_delta);
                    st1 = st\<lparr>pm_last_total := (pm_last_total st)(r \<mapsto> (now, current_total)),
                             pm_pressure_history := (pm_pressure_history st)
                               (r := pm_pressure_history st r @ [(now, pressure)]),
                             pm_last_pressure := (pm_last_pressure st)(r := pressure)\<rparr>
                in Inr (clean_old_data r now' st1, pressure)))"

definition get_window_average :: "psi_res \<Rightarrow> psi_state \<Rightarrow> real" where
  "get_window_average r st =
     (let history = pm_pressure_history st r
      in if history \<noteq> [] then sum_list (map snd history) / of_nat (length history) else 0)"

definition get_current_pressure ::
  "(psi_res \<Rightarrow> real \<times> string option \<times> real) \<Rightarrow> psi_state \<Rightarrow> py_error + psi_state \<times> (psi_res \<Rightarrow> real)" where
  "get_current_pressure rd st =
     (let one = (\<lambda>r s. case rd r of (now, file, now') \<Rightarrow> get_resource_pressure r now file now' s)
      in bindE (one RCpu st) (\<lambda>(s1, _). bindE (one RMem s1) (\<lambda>(s2, _). bindE (one RIo s2) (\<lambda>(s3, _).
           Inr (s3, \<lambda>r. py_round 2 (get_window_average r s3))))))"

definition some_total_delta_rate ::
  "frac_key \<Rightarrow> real \<Rightarrow> string option \<Rightarrow> psi_state \<Rightarrow> psi_state \<times> real option" where
  "some_total_delta_rate key now file st =
     (case parse_some_total file of
        None \<Rightarrow> (st, None)
      | Some tot \<Rightarrow>
          let last = pm_frac_last st key;
              st' = st\<lparr>pm_frac_last := (pm_frac_last st)(key \<mapsto> (now, tot))\<rparr>
          in (case last of
                None \<Rightarrow> (st', None)
              | Some (t0, tot0) \<Rightarrow>
                  let time_delta = now - t0
                  in if time_delta \<le> 0 then (st', None)
                     else (st', Some (stall_rate (tot - tot0) time_delta))))"

type_synonym psi_reading = "psi_res \<Rightarrow> real \<times> string option"

fun cgroup_rates ::
  "psi_res \<Rightarrow> (string \<times> psi_reading) list \<Rightarrow> psi_state \<Rightarrow> real \<Rightarrow> bool \<Rightarrow> psi_state \<times> real \<times> bool" where
  "cgroup_rates r [] st cg_sum have_cg = (st, cg_sum, have_cg)"
| "cgroup_rates r ((path, rd) # rest) st cg_sum have_cg =
     (case some_total_delta_rate (CgKey path r) (fst (rd r)) (snd (rd r)) st of
        (st', None) \<Rightarrow> cgroup_rates r rest st' cg_sum have_cg
      | (st', Some rate) \<Rightarrow> cgroup_rates r rest st' (cg_sum + rate) True)"

definition raw_fraction ::
  "psi_res \<Rightarrow> psi_reading \<Rightarrow> (string \<times> psi_reading) list \<Rightarrow> psi_state \<Rightarrow> psi_state \<times> real option" where
  \<comment> \<open>the body of the loop over \<open>('cpu', 'io')\<close>\<close>
  "raw_fraction r sys cgs st =
     (case some_total_delta_rate (SysKey r) (fst (sys r)) (snd (sys r)) st of (st1, sys_rate) \<Rightarrow>
      case cgroup_rates r cgs st1 0 False of (st2, cg_sum, have_cg) \<Rightarrow>
        (st2, case sys_rate of
                Some s \<Rightarrow> if s \<noteq> 0 \<and> have_cg then Some (min 1 (cg_sum / s)) else None
              | None \<Rightarrow> None))"

definition smooth_fraction :: "psi_res \<Rightarrow> real option \<Rightarrow> psi_state \<Rightarrow> psi_state \<times> real" where
  \<comment> \<open>the body of the loop over \<open>('cpu', 'memory', 'io')\<close>\<close>
  "smooth_fraction r raw st =
     (case raw of
        Some x \<Rightarrow> let cur = ewma frac_ewma_alpha (pm_frac_smoothed st r) x
                   in (st\<lparr>pm_frac_smoothed := (pm_frac_smoothed st)(r \<mapsto> cur)\<rparr>, cur)
      | None \<Rightarrow> (st, dget (pm_frac_smoothed st) r 0))"

definition get_self_inflicted_fraction ::
  "psi_reading \<Rightarrow> (string \<times> psi_reading) list \<Rightarrow> psi_state \<Rightarrow> psi_state \<times> (psi_res \<rightharpoonup> real)" where
  "get_self_inflicted_fraction sys cgs st =
     (if cgs = [] then (st, [RCpu \<mapsto> 0, RMem \<mapsto> 0, RIo \<mapsto> 0])
      else case raw_fraction RCpu sys cgs st of (st1, raw_cpu) \<Rightarrow>
           case raw_fraction RIo sys cgs st1 of (st2, raw_io) \<Rightarrow>
           case smooth_fraction RCpu raw_cpu st2 of (st3, f_cpu) \<Rightarrow>
           case smooth_fraction RMem None st3 of (st4, f_mem) \<Rightarrow>
           case smooth_fraction RIo raw_io st4 of (st5, f_io) \<Rightarrow>
             (st5, [RCpu \<mapsto> f_cpu, RMem \<mapsto> f_mem, RIo \<mapsto> f_io]))"

definition get_io_full_pressure :: "real \<Rightarrow> string option \<Rightarrow> psi_state \<Rightarrow> psi_state \<times> real" where
  "get_io_full_pressure now file st =
     (case parse_full_total file of
        None \<Rightarrow> (st, 0)
      | Some tot \<Rightarrow>
          let last = pm_io_full_last st;
              st' = st\<lparr>pm_io_full_last := Some (now, tot)\<rparr>
          in (case last of
                None \<Rightarrow> (st', 0)
              | Some (t0, tot0) \<Rightarrow>
                  let time_delta = now - t0
                  in if time_delta \<le> 0 then (st', 0) else (st', stall_rate (tot - tot0) time_delta)))"

subsection \<open>Lemmas\<close>

definition hist_ok :: "(real \<times> real) list \<Rightarrow> bool" where
  "hist_ok h \<longleftrightarrow> (\<forall>e\<in>set h. 0 \<le> snd e \<and> snd e \<le> 1)"

lemma hist_ok_simps [simp]:
  "hist_ok []" "hist_ok (e # h) \<longleftrightarrow> 0 \<le> snd e \<and> snd e \<le> 1 \<and> hist_ok h"
  "hist_ok (h @ h') \<longleftrightarrow> hist_ok h \<and> hist_ok h'"
  by (auto simp: hist_ok_def)

lemma hist_ok_filter [simp]: "hist_ok h \<Longrightarrow> hist_ok (filter P h)"
  by (simp add: hist_ok_def)

definition psi_inv :: "psi_state \<Rightarrow> bool" where
  "psi_inv st \<longleftrightarrow> (\<forall>r x. pm_frac_smoothed st r = Some x \<longrightarrow> 0 \<le> x \<and> x \<le> 1)
     \<and> pm_frac_smoothed st RMem = None
     \<and> (\<forall>r. hist_ok (pm_pressure_history st r))
     \<and> (\<forall>r. 0 \<le> pm_last_pressure st r \<and> pm_last_pressure st r \<le> 1)"

lemma psi_inv_init: "psi_inv psi_init"
  by (simp add: psi_inv_def psi_init_def)

lemma psi_inv_total [simp]: "psi_inv (st\<lparr>pm_last_total := m\<rparr>) = psi_inv st"
  by (simp add: psi_inv_def)

lemma psi_inv_frac_last [simp]: "psi_inv (st\<lparr>pm_frac_last := m\<rparr>) = psi_inv st"
  by (simp add: psi_inv_def)

lemma psi_inv_history: "psi_inv st \<Longrightarrow> hist_ok h \<Longrightarrow>
    psi_inv (st\<lparr>pm_pressure_history := (pm_pressure_history st)(r := h)\<rparr>)"
  by (simp add: psi_inv_def)

lemma psi_inv_last: "psi_inv st \<Longrightarrow> 0 \<le> p \<Longrightarrow> p \<le> 1 \<Longrightarrow>
    psi_inv (st\<lparr>pm_last_pressure := (pm_last_pressure st)(r := p)\<rparr>)"
  by (simp add: psi_inv_def)

lemma psi_inv_smoothed: "psi_inv st \<Longrightarrow> r \<noteq> RMem \<Longrightarrow> 0 \<le> x \<Longrightarrow> x \<le> 1 \<Longrightarrow>
    psi_inv (st\<lparr>pm_frac_smoothed := (pm_frac_smoothed st)(r \<mapsto> x)\<rparr>)"
  by (simp add: psi_inv_def)

lemma psi_invD:
  assumes "psi_inv st"
  shows "pm_frac_smoothed st r = Some x \<Longrightarrow> 0 \<le> x \<and> x \<le> 1" "pm_frac_smoothed st RMem = None"
    "hist_ok (pm_pressure_history st r)" "0 \<le> pm_last_pressure st r" "pm_last_pressure st r \<le> 1"
  using assms by (auto simp: psi_inv_def)

lemma stall_rate_unit [simp]: "0 \<le> stall_rate d t" "stall_rate d t \<le> 1"
  by (simp_all add: stall_rate_def)

lemma clean_old_data_inv: "psi_inv st \<Longrightarrow> psi_inv (clean_old_data r now st)"
  unfolding clean_old_data_def Let_def by (rule psi_inv_history) (simp_all add: psi_invD)

lemma psi_inv_sample:
  assumes "psi_inv st" "0 \<le> p" "p \<le> 1"
  shows "psi_inv (st\<lparr>pm_last_total := m, pm_pressure_history := (pm_pressure_history st)
     (r := pm_pressure_history st r @ [(t, p)]), pm_last_pressure := (pm_last_pressure st)(r := p)\<rparr>)"
  using assms by (simp add: psi_inv_def)

lemma get_resource_pressure_inv:
  assumes "get_resource_pressure r now file now' st = Inr (st', p)" "psi_inv st"
  shows "psi_inv st' \<and> 0 \<le> p \<and> p \<le> 1"
proof -
  from assms(1) obtain data n where d: "file = Some data" "parse_total data = Inr n"
    by (auto simp: get_resource_pressure_def bindE_Inr_iff split: option.splits)
  show ?thesis
  proof (cases "pm_last_total st r")
    case None
    with assms d show ?thesis by (auto simp: get_resource_pressure_def)
  next
    case (Some l)
    obtain t0 n0 where l: "l = (t0, n0)" by fastforce
    let ?p = "if now - t0 \<le> 0 then 0 else stall_rate (n - n0) (now - t0)"
    have p: "p = ?p" and st': "st' = clean_old_data r now' (st\<lparr>pm_last_total := (pm_last_total st)(r \<mapsto> (now, n)),
        pm_pressure_history := (pm_pressure_history st)(r := pm_pressure_history st r @ [(now, ?p)]),
        pm_last_pressure := (pm_last_pressure st)(r := ?p)\<rparr>)"
      using assms(1) d Some l by (auto simp: get_resource_pressure_def Let_def)
    have "0 \<le> ?p" "?p \<le> 1" by simp_all
    with psi_inv_sample [OF assms(2) this] clean_old_data_inv show ?thesis unfolding p st' by blast
  qed
qed

lemma some_rate_frame:
  assumes "some_total_delta_rate k now file st = (st', rate)"
  shows "\<exists>m. st' = st\<lparr>pm_frac_last := m\<rparr>" "rate = Some x \<Longrightarrow> 0 \<le> x \<and> x \<le> 1"
  using assms
  by (auto simp: some_total_delta_rate_def Let_def split: option.splits if_splits intro: exI [of _ "pm_frac_last st"])

lemma cgroup_rates_frame:
  "cgroup_rates r cgs st s h = (st', s', h') \<Longrightarrow> (\<exists>m. st' = st\<lparr>pm_frac_last := m\<rparr>) \<and> s \<le> s'"
proof (induction r cgs st s h arbitrary: st' s' h' rule: cgroup_rates.induct)
  case (1 r st s h)
  then show ?case by (auto intro: exI [of _ "pm_frac_last st"])
next
  case (2 r path rd rest st s h)
  obtain st1 rate where sr: "some_total_delta_rate (CgKey path r) (fst (rd r)) (snd (rd r)) st = (st1, rate)"
    by fastforce
  note fr = some_rate_frame [OF sr]
  obtain m where m: "st1 = st\<lparr>pm_frac_last := m\<rparr>" using fr(1) by blast
  show ?case
  proof (cases rate)
    case None
    with "2.prems" sr "2.IH"(1) [OF sr [symmetric] None] m show ?thesis by auto
  next
    case (Some x)
    with "2.prems" sr "2.IH"(2) [OF sr [symmetric] Some] m fr(2) [OF Some] show ?thesis by fastforce
  qed
qed

lemma raw_fraction_frame:
  assumes "raw_fraction r sys cgs st = (st', raw)"
  shows "(\<exists>m. st' = st\<lparr>pm_frac_last := m\<rparr>) \<and> (\<forall>x. raw = Some x \<longrightarrow> 0 \<le> x \<and> x \<le> 1)"
proof -
  obtain st1 sr where a: "some_total_delta_rate (SysKey r) (fst (sys r)) (snd (sys r)) st = (st1, sr)" by fastforce
  obtain st2 cs h where b: "cgroup_rates r cgs st1 0 False = (st2, cs, h)" by (metis prod_cases3)
  from some_rate_frame [OF a] cgroup_rates_frame [OF b] show ?thesis
    using assms a b by (auto simp: raw_fraction_def split: option.splits if_splits)
qed

lemma smooth_fraction_inv:
  assumes "smooth_fraction r raw st = (st', x)" "psi_inv st"
    and "\<And>y. raw = Some y \<Longrightarrow> 0 \<le> y \<and> y \<le> 1" "r = RMem \<Longrightarrow> raw = None"
  shows "psi_inv st' \<and> 0 \<le> x \<and> x \<le> 1 \<and> (r = RMem \<longrightarrow> x = 0)"
proof (cases raw)
  case None
  with assms(1,2) show ?thesis
    by (auto simp: smooth_fraction_def dget_def psi_invD split: option.split dest: psi_invD)
next
  case (Some y)
  have "0 \<le> ewma frac_ewma_alpha (pm_frac_smoothed st r) y \<and> ewma frac_ewma_alpha (pm_frac_smoothed st r) y \<le> 1"
    using psi_invD [OF assms(2)] assms(3) [OF Some] by (intro ewma_between) (auto simp: frac_ewma_alpha_def)
  moreover have "r \<noteq> RMem" using assms(4) Some by auto
  ultimately show ?thesis
    using assms(1,2) Some psi_inv_smoothed by (auto simp: smooth_fraction_def Let_def)
qed

lemma average_unit:
  assumes "hist_ok h" "h \<noteq> []"
  shows "0 \<le> sum_list (map snd h) / of_nat (length h) \<and> sum_list (map snd h) / of_nat (length h) \<le> 1"
proof -
  have "0 \<le> sum_list (map snd h) \<and> sum_list (map snd h) \<le> of_nat (length h)"
    using assms(1) by (induction h) auto
  with assms(2) show ?thesis by (simp add: divide_le_eq_1)
qed

subsection \<open>Properties\<close>

text \<open>the self-inflicted fraction is a fraction: from a state that satisfies the monitor's
  invariant, every resource is reported, each value lies in the unit interval, the memory fraction is
  0, and the invariant holds afterwards; with no limited cgroup nothing changes.\<close>
theorem self_inflicted_fraction_sound:
  assumes "get_self_inflicted_fraction sys cgs st = (st', f)" and "psi_inv st"
  shows "psi_inv st' \<and> (\<forall>r. \<exists>x. f r = Some x \<and> 0 \<le> x \<and> x \<le> 1) \<and> f RMem = Some 0
    \<and> (cgs = [] \<longrightarrow> st' = st)"
proof (cases "cgs = []")
  case True
  with assms have "st' = st" "f = [RCpu \<mapsto> 0, RMem \<mapsto> 0, RIo \<mapsto> 0]"
    by (auto simp: get_self_inflicted_fraction_def)
  moreover have "\<exists>x. [RCpu \<mapsto> 0, RMem \<mapsto> 0, RIo \<mapsto> (0::real)] r = Some x \<and> 0 \<le> x \<and> x \<le> 1" for r
    by (cases r) simp_all
  ultimately show ?thesis using assms(2) by simp
next
  case False
  obtain st1 rc where a: "raw_fraction RCpu sys cgs st = (st1, rc)" by fastforce
  obtain st2 ri where b: "raw_fraction RIo sys cgs st1 = (st2, ri)" by fastforce
  obtain st3 fc where c: "smooth_fraction RCpu rc st2 = (st3, fc)" by fastforce
  obtain st4 fm where d: "smooth_fraction RMem None st3 = (st4, fm)" by fastforce
  obtain st5 fi where e: "smooth_fraction RIo ri st4 = (st5, fi)" by fastforce
  have i2: "psi_inv st2" using raw_fraction_frame [OF a] raw_fraction_frame [OF b] assms(2) by auto
  have i3: "psi_inv st3 \<and> 0 \<le> fc \<and> fc \<le> 1"
    using smooth_fraction_inv [OF c i2] raw_fraction_frame [OF a] by auto
  have i4: "psi_inv st4 \<and> fm = 0" using smooth_fraction_inv [OF d] i3 by auto
  have i5: "psi_inv st5 \<and> 0 \<le> fi \<and> fi \<le> 1"
    using smooth_fraction_inv [OF e] i4 raw_fraction_frame [OF b] by auto
  have "st' = st5" "f = [RCpu \<mapsto> fc, RMem \<mapsto> fm, RIo \<mapsto> fi]"
    using assms(1) False a b c d e by (auto simp: get_self_inflicted_fraction_def)
  moreover have "\<exists>x. [RCpu \<mapsto> fc, RMem \<mapsto> fm, RIo \<mapsto> fi] r = Some x \<and> 0 \<le> x \<and> x \<le> 1" for r
    using i3 i4 i5 by (cases r) simp_all
  ultimately show ?thesis using i4 i5 False by simp
qed

theorem self_inflicted_fraction_sound_witness:
  "(snd (get_self_inflicted_fraction (\<lambda>_. (0, None)) [(''app'', \<lambda>_. (0, None))] psi_init)) RMem = Some 0"
  using self_inflicted_fraction_sound [OF prod.collapse [symmetric] psi_inv_init] by blast

text \<open>the published PSI pressures and the io-full pressure lie in the unit interval, whatever
  the files hold and however the clock moves, and reading the io-full pressure touches nothing but
  its own timestamp; a counter or a clock that went backwards reads as 0, not as an error.\<close>
theorem psi_pressures_unit:
  assumes "get_current_pressure rd st = Inr (st', p)" and "psi_inv st"
  shows "psi_inv st' \<and> 0 \<le> p r \<and> p r \<le> 1
    \<and> 0 \<le> snd (get_io_full_pressure now file st) \<and> snd (get_io_full_pressure now file st) \<le> 1
    \<and> (\<exists>l. fst (get_io_full_pressure now file st) = st\<lparr>pm_io_full_last := l\<rparr>)
    \<and> (\<forall>t0 n0 n. pm_io_full_last st = Some (t0, n0) \<and> parse_full_total file = Some n \<and> (n \<le> n0 \<or> now \<le> t0)
         \<longrightarrow> snd (get_io_full_pressure now file st) = 0)"
proof -
  obtain s1 p1 s2 p2 p3 where
    a: "(case rd RCpu of (now, file, now') \<Rightarrow> get_resource_pressure RCpu now file now' st) = Inr (s1, p1)" and
    b: "(case rd RMem of (now, file, now') \<Rightarrow> get_resource_pressure RMem now file now' s1) = Inr (s2, p2)" and
    c: "(case rd RIo of (now, file, now') \<Rightarrow> get_resource_pressure RIo now file now' s2) = Inr (st', p3)" and
    p: "p = (\<lambda>r. py_round 2 (get_window_average r st'))"
    using assms(1) unfolding get_current_pressure_def Let_def bindE_Inr_iff split_paired_Ex
      prod.case sum.inject prod.inject by blast
  have i1: "psi_inv s1" using a assms(2) by (auto split: prod.splits dest: get_resource_pressure_inv)
  have i2: "psi_inv s2" using b i1 by (auto split: prod.splits dest: get_resource_pressure_inv)
  have i3: "psi_inv st'" using c i2 by (auto split: prod.splits dest: get_resource_pressure_inv)
  have "hist_ok (pm_pressure_history st' r)" using i3 by (rule psi_invD)
  then have "0 \<le> get_window_average r st' \<and> get_window_average r st' \<le> 1"
    using average_unit [of "pm_pressure_history st' r"] by (simp add: get_window_average_def Let_def)
  then have pr: "0 \<le> p r \<and> p r \<le> 1" unfolding p by (simp add: py_round_unit)
  have full: "0 \<le> snd (get_io_full_pressure now file st) \<and> snd (get_io_full_pressure now file st) \<le> 1
      \<and> (\<exists>l. fst (get_io_full_pressure now file st) = st\<lparr>pm_io_full_last := l\<rparr>)"
    by (auto simp: get_io_full_pressure_def Let_def split: option.split intro: exI [of _ "pm_io_full_last st"])
  have rev: "snd (get_io_full_pressure now file st) = 0"
    if "pm_io_full_last st = Some (t0, n0)" "parse_full_total file = Some n" "n \<le> n0 \<or> now \<le> t0" for t0 n0 n
    using that by (auto simp: get_io_full_pressure_def Let_def stall_rate_def clamp_def divide_nonpos_pos)
  from i3 pr full rev show ?thesis by blast
qed

theorem psi_pressures_unit_witness:
  "\<exists>st' p. get_current_pressure (\<lambda>_. (1, Some ''cpu'', 1)) psi_init = Inr (st', p)
     \<and> 0 \<le> p RIo \<and> p RIo \<le> 1"
proof -
  have "parse_total ''cpu'' = Inr 0"
    by (simp add: parse_total_def psi_line_def startswith_def)
  then have "\<exists>st' p. get_current_pressure (\<lambda>_. (1, Some ''cpu'', 1)) psi_init = Inr (st', p)"
    by (simp add: get_current_pressure_def Let_def get_resource_pressure_def psi_init_def)
  then obtain st' p where r: "get_current_pressure (\<lambda>_. (1, Some ''cpu'', 1)) psi_init = Inr (st', p)"
    by blast
  from psi_pressures_unit [OF r psi_inv_init, of RIo] r show ?thesis by blast
qed

end
