(* ===== verification/Disk_Pressure.thy ===== *)
theory Disk_Pressure
  imports Py_String Pressure "HOL-Library.Multiset"
begin

text \<open>
  \<open>monitor/disk_pressure.py\<close>: media classification, the per-disk USE pressure, its noisy-or
  aggregate, and the dashboard view. What comes from outside the repository (psutil's counters and
  partition table, the sysfs files, \<open>lsblk\<close>) is an argument. The monitor's fields and the module's two
  caches are the record \<open>disk_mon\<close>.
\<close>

subsection \<open>Media classes\<close>

datatype media = Hdd | Sata_ssd | Nvme | Usb | Mmc | Unknown_media

fun media_key :: "media \<Rightarrow> string" where
  "media_key Hdd = ''hdd''"
| "media_key Sata_ssd = ''sata_ssd''"
| "media_key Nvme = ''nvme''"
| "media_key Usb = ''usb''"
| "media_key Mmc = ''mmc''"
| "media_key Unknown_media = ''unknown''"

fun util_half :: "media \<Rightarrow> real" where
  "util_half Hdd = 80"
| "util_half Sata_ssd = 85"
| "util_half Nvme = 95"
| "util_half Usb = 80"
| "util_half Mmc = 80"
| "util_half Unknown_media = 80"

fun await_half_ms :: "media \<Rightarrow> real" where
  "await_half_ms Hdd = 20"
| "await_half_ms Sata_ssd = 5"
| "await_half_ms Nvme = 1"
| "await_half_ms Usb = 30"
| "await_half_ms Mmc = 10"
| "await_half_ms Unknown_media = 20"

fun queue_half_default :: "media \<Rightarrow> real" where
  "queue_half_default Hdd = 3"
| "queue_half_default Sata_ssd = 16"
| "queue_half_default Nvme = 32"
| "queue_half_default Usb = 1"
| "queue_half_default Mmc = 2"
| "queue_half_default Unknown_media = 3"

definition for_media :: "(media \<rightharpoonup> real) \<Rightarrow> media \<Rightarrow> real" where
  "for_media table m =
     (case table m of Some v \<Rightarrow> v
      | None \<Rightarrow> (case table Unknown_media of Some v \<Rightarrow> v | None \<Rightarrow> 0))"

definition classify_media :: "string \<Rightarrow> int option \<Rightarrow> int option \<Rightarrow> string \<Rightarrow> media" where
  "classify_media disk rotational removable dev_path =
     (if startswith disk ''nvme'' then Nvme
      else if removable = Some 1 \<or> contains (lower dev_path) ''/usb'' then Usb
      else if startswith disk ''mmcblk'' then Mmc
      else if rotational = Some 1 then Hdd
      else if rotational = Some 0 then Sata_ssd
      else Unknown_media)"

definition sigmoid_pressure :: "real \<Rightarrow> real \<Rightarrow> real \<Rightarrow> real" where
  "sigmoid_pressure x x_half k =
     (if x_half \<le> 0 then 0 else logistic (clamp (-60) 60 (- k * (x - x_half) / x_half)))"

subsection \<open>Device numbers\<close>

text \<open>One entry of \<open>/sys/block\<close>: its name, its \<open>dev\<close> file, and the \<open>dev\<close> files of its
  subdirectories; a \<open>None\<close> is a read that raises \<open>OSError\<close>.\<close>

record block_entry =
  be_disk :: string
  be_dev :: "string option"
  be_parts :: "string option list option"

fun add_parts :: "string \<Rightarrow> string option list \<Rightarrow> (string \<rightharpoonup> string) \<Rightarrow> (string \<rightharpoonup> string)" where
  "add_parts disk [] m = m"
| "add_parts disk (None # ps) m = add_parts disk ps m"
| "add_parts disk (Some d # ps) m = add_parts disk ps (m(strip d \<mapsto> disk))"

fun build_devno_entries :: "block_entry list \<Rightarrow> (string \<rightharpoonup> string) \<Rightarrow> (string \<rightharpoonup> string)" where
  "build_devno_entries [] m = m"
| "build_devno_entries (b # bs) m =
     (case be_dev b of
        None \<Rightarrow> build_devno_entries bs m
      | Some d \<Rightarrow>
          let m1 = m(strip d \<mapsto> be_disk b)
          in (case be_parts b of
                None \<Rightarrow> build_devno_entries bs m1
              | Some ps \<Rightarrow> build_devno_entries bs (add_parts (be_disk b) ps m1)))"

definition build_devno_map :: "block_entry list option \<Rightarrow> (string \<rightharpoonup> string)" where
  "build_devno_map listing =
     (case listing of None \<Rightarrow> Map.empty | Some bs \<Rightarrow> build_devno_entries bs Map.empty)"

definition disk_name_for_devno ::
  "string \<Rightarrow> block_entry list option \<Rightarrow> (string \<rightharpoonup> string) \<Rightarrow> (string \<rightharpoonup> string) \<times> string" where
  "disk_name_for_devno devno listing cache =
     (case cache devno of
        Some name \<Rightarrow> (cache, if name = [] then devno else name)
      | None \<Rightarrow>
          let cache' = build_devno_map listing
          in (cache', case cache' devno of None \<Rightarrow> devno | Some name \<Rightarrow> if name = [] then devno else name))"

subsection \<open>The live model\<close>

record disk_model =
  dm_w_latency :: real
  dm_w_queue :: real
  dm_w_util :: real
  dm_sigmoid_k :: real
  dm_util_half_pct :: "media \<rightharpoonup> real"
  dm_activity_util_pct :: real
  dm_await_half_ms :: "media \<rightharpoonup> real"
  dm_queue_half :: "media \<rightharpoonup> real"
  dm_max_p_weight :: real

definition media_map :: "pyval \<Rightarrow> (media \<Rightarrow> real) \<Rightarrow> (media \<rightharpoonup> real)" where
  "media_map v defaults =
     (case as_number v of
        Some x \<Rightarrow> (\<lambda>m. Some x)
      | None \<Rightarrow> if \<not> is_dict v then (\<lambda>m. Some (defaults m))
                else (\<lambda>m. Some (num_or (pget v (media_key m)) (defaults m))))"

definition disk_model_of :: "pyval \<Rightarrow> disk_model" where
  "disk_model_of cfg0 =
     (let cfg = (if truthy cfg0 then cfg0 else PDict []);
          sw = (if is_dict (pget cfg ''sub_weights'') then pget cfg ''sub_weights'' else PDict [])
      in \<lparr>dm_w_latency = num_or (pget sw ''latency'') (55/100),
          dm_w_queue = num_or (pget sw ''queue'') (35/100),
          dm_w_util = num_or (pget sw ''util'') (10/100),
          dm_sigmoid_k = num_or (pget cfg ''sigmoid_k'') 8,
          dm_util_half_pct = media_map (pget cfg ''util_half_pct'') util_half,
          dm_activity_util_pct = num_or (pget cfg ''activity_util_pct'') 20,
          dm_await_half_ms = media_map (pget cfg ''await_half_ms'') await_half_ms,
          dm_queue_half = media_map (pget cfg ''queue_half'') queue_half_default,
          dm_max_p_weight = num_or (pget cfg ''max_p_weight'') (8/10)\<rparr>)"

subsection \<open>Monitor state, probes and profiles\<close>

record io_counters =
  ic_read_count :: int
  ic_write_count :: int
  ic_read_bytes :: int
  ic_write_bytes :: int
  ic_read_time :: int
  ic_write_time :: int
  ic_busy_time :: "int option"
  ic_io_time :: "int option"

record disk_probe =
  dp_media :: media
  dp_queue_depth :: "int option"

record disk_mon =
  dk_prev_io :: "string \<rightharpoonup> io_counters"
  dk_prev_weighted :: "string \<rightharpoonup> int"
  dk_prev_time :: real
  dk_profiles :: "string \<rightharpoonup> disk_probe"
  dk_media :: "string \<rightharpoonup> media"  \<comment> \<open>the module-level \<open>_DISK_MEDIA\<close>\<close>

record sysfs =
  sy_rotational :: "string \<Rightarrow> int option"
  sy_removable :: "string \<Rightarrow> int option"
  sy_path :: "string \<Rightarrow> string"
  sy_queue_depth :: "string \<Rightarrow> int option"

definition media_for_disk :: "sysfs \<Rightarrow> string \<Rightarrow> disk_mon \<Rightarrow> disk_mon \<times> media" where
  "media_for_disk sy disk st =
     (case dk_media st disk of
        Some m \<Rightarrow> (st, m)
      | None \<Rightarrow>
          let m = classify_media disk (sy_rotational sy disk) (sy_removable sy disk) (sy_path sy disk)
          in (st\<lparr>dk_media := (dk_media st)(disk \<mapsto> m)\<rparr>, m))"

record disk_profile =
  pf_media :: media
  pf_await_half_ms :: real
  pf_queue_half :: real
  pf_util_half_pct :: real
  pf_activity_util_pct :: real

definition profile_of :: "disk_model \<Rightarrow> disk_probe \<Rightarrow> disk_profile" where
  \<comment> \<open>the part of \<open>_disk_profile\<close> after the cached probe\<close>
  "profile_of model probe =
     (let media = dp_media probe;
          default_half = for_media (dm_queue_half model) media;
          queue_half = (if media = Hdd then for_media (dm_queue_half model) Hdd
                        else (case dp_queue_depth probe of
                                None \<Rightarrow> default_half
                              | Some qd \<Rightarrow> if qd \<noteq> 0 \<and> qd \<ge> 1 then min (of_int qd) default_half else default_half))
      in \<lparr>pf_media = media, pf_await_half_ms = for_media (dm_await_half_ms model) media,
          pf_queue_half = queue_half, pf_util_half_pct = for_media (dm_util_half_pct model) media,
          pf_activity_util_pct = dm_activity_util_pct model\<rparr>)"

definition get_disk_profile :: "disk_model \<Rightarrow> sysfs \<Rightarrow> string \<Rightarrow> disk_mon \<Rightarrow> disk_mon \<times> disk_profile" where
  "get_disk_profile model sy disk st =
     (case dk_profiles st disk of
        Some probe \<Rightarrow> (st, profile_of model probe)
      | None \<Rightarrow>
          (case media_for_disk sy disk st of (st1, m) \<Rightarrow>
             let probe = \<lparr>dp_media = m, dp_queue_depth = sy_queue_depth sy disk\<rparr>
             in (st1\<lparr>dk_profiles := (dk_profiles st1)(disk \<mapsto> probe)\<rparr>, profile_of model probe)))"

subsection \<open>Sampling\<close>

fun physical_disks :: "string list \<Rightarrow> string list" where
  \<comment> \<open>\<open>get_physical_disks\<close> on the lines of \<open>lsblk\<close>'s output\<close>
  "physical_disks [] = []"
| "physical_disks (line # ls) =
     (case split_ws line of
        name # ty # _ \<Rightarrow> if ty = ''disk'' then name # physical_disks ls else physical_disks ls
      | _ \<Rightarrow> physical_disks ls)"

definition get_physical_disks :: "string option \<Rightarrow> string list" where
  "get_physical_disks output =
     (case output of None \<Rightarrow> [] | Some out \<Rightarrow> physical_disks (split_char (CHR 0x0A) (strip out)))"

fun diskstats_lines :: "string list \<Rightarrow> (string \<rightharpoonup> int) \<Rightarrow> (string \<rightharpoonup> int)" where
  "diskstats_lines [] m = m"
| "diskstats_lines (line # ls) m =
     (let parts = split_ws line
      in if length parts \<ge> 14
         then (case py_int (parts ! 13) of
                 None \<Rightarrow> diskstats_lines ls m
               | Some v \<Rightarrow> diskstats_lines ls (m(parts ! 2 \<mapsto> v)))
         else diskstats_lines ls m)"

definition read_diskstats_weighted :: "string option \<Rightarrow> (string \<rightharpoonup> int)" where
  "read_diskstats_weighted file =
     (case file of None \<Rightarrow> Map.empty | Some txt \<Rightarrow> diskstats_lines (split_char (CHR 0x0A) txt) Map.empty)"

record space_row =
  sp_total_bytes :: real
  sp_used_bytes :: real
  sp_free_bytes :: real

record partition_info =
  pt_device :: string
  pt_mountpoint :: string
  pt_block_disk :: string  \<comment> \<open>the parent disk that sysfs resolves the device to\<close>
  pt_usage :: "(int \<times> int \<times> int) option"  \<comment> \<open>total, used, free; \<open>None\<close> when psutil raises\<close>

fun space_totals ::
  "string list \<Rightarrow> partition_info list \<Rightarrow> (string \<times> string) set \<Rightarrow> (string \<rightharpoonup> space_row) \<Rightarrow> (string \<rightharpoonup> space_row)" where
  "space_totals tracked [] seen totals = totals"
| "space_totals tracked (p # ps) seen totals =
     (if \<not> startswith (pt_device p) ''/dev/'' \<or> pt_mountpoint p = [] then space_totals tracked ps seen totals
      else if (pt_device p, pt_mountpoint p) \<in> seen then space_totals tracked ps seen totals
      else let seen' = insert (pt_device p, pt_mountpoint p) seen
           in if pt_block_disk p \<notin> set tracked then space_totals tracked ps seen' totals
              else (case pt_usage p of
                      None \<Rightarrow> space_totals tracked ps seen' totals
                    | Some (total_b, used_b, free_b) \<Rightarrow>
                        let row = (case totals (pt_block_disk p) of
                                     None \<Rightarrow> \<lparr>sp_total_bytes = 0, sp_used_bytes = 0, sp_free_bytes = 0\<rparr>
                                   | Some r \<Rightarrow> r);
                            row' = \<lparr>sp_total_bytes = sp_total_bytes row + of_int total_b,
                                    sp_used_bytes = sp_used_bytes row + of_int used_b,
                                    sp_free_bytes = sp_free_bytes row + of_int free_b\<rparr>
                        in space_totals tracked ps seen' (totals(pt_block_disk p \<mapsto> row'))))"

definition usage_percent :: "space_row \<Rightarrow> real option" where
  "usage_percent r =
     (if sp_total_bytes r > 0 then Some (py_round 2 (sp_used_bytes r / sp_total_bytes r * 100)) else None)"

definition collect_disk_space_stats ::
  "string list \<Rightarrow> partition_info list \<Rightarrow> (string \<rightharpoonup> space_row \<times> real option)" where
  "collect_disk_space_stats disks parts =
     (if disks = [] then Map.empty
      else (\<lambda>d. map_option (\<lambda>r. (r, usage_percent r)) (space_totals disks parts {} Map.empty d)))"

record disk_stats =
  ds_utilization :: real
  ds_read_kb_per_sec :: real
  ds_write_kb_per_sec :: real
  ds_read_iops :: real
  ds_write_iops :: real
  ds_await_ms :: real
  ds_aqu :: real
  ds_total_size_gb :: "real option"
  ds_used_size_gb :: "real option"
  ds_free_size_gb :: "real option"
  ds_usage_percent :: "real option"

definition busy_delta :: "io_counters \<Rightarrow> io_counters \<Rightarrow> int" where
  "busy_delta prev cur =
     (let (pb, cb) = (if ic_busy_time prev = None \<or> ic_busy_time cur = None
                      then (ic_io_time prev, ic_io_time cur)
                      else (ic_busy_time prev, ic_busy_time cur))
      in case (pb, cb) of
           (Some p, Some c) \<Rightarrow> c - p
         | _ \<Rightarrow> (ic_read_time cur - ic_read_time prev) + (ic_write_time cur - ic_write_time prev))"

definition disk_sample ::
  "real \<Rightarrow> io_counters option \<Rightarrow> io_counters option \<Rightarrow> int \<Rightarrow> (space_row \<times> real option) option \<Rightarrow> disk_stats" where
  \<comment> \<open>the loop body of \<open>_collect_disk_io_stats\<close>; \<open>dw\<close> is the difference of the weighted counters\<close>
  "disk_sample elapsed cur prev dw space =
     (let gb = 1024 ^ 3;
          total_gb = (case space of None \<Rightarrow> None
             | Some (r, _) \<Rightarrow> if sp_total_bytes r > 0 then Some (py_round 2 (sp_total_bytes r / gb)) else None);
          used_gb = (case space of None \<Rightarrow> None
             | Some (r, _) \<Rightarrow> if sp_used_bytes r \<ge> 0 then Some (py_round 2 (sp_used_bytes r / gb)) else None);
          free_gb = (case space of None \<Rightarrow> None
             | Some (r, _) \<Rightarrow> if sp_free_bytes r \<ge> 0 then Some (py_round 2 (sp_free_bytes r / gb)) else None);
          pct = (case space of None \<Rightarrow> None | Some (_, p) \<Rightarrow> p);
          zero = \<lparr>ds_utilization = 0, ds_read_kb_per_sec = 0, ds_write_kb_per_sec = 0, ds_read_iops = 0,
            ds_write_iops = 0, ds_await_ms = 0, ds_aqu = 0, ds_total_size_gb = total_gb,
            ds_used_size_gb = used_gb, ds_free_size_gb = free_gb, ds_usage_percent = pct\<rparr>
      in case (cur, prev) of
           (Some c, Some p) \<Rightarrow>
             if elapsed \<le> 0 then zero
             else let read_ops = ic_read_count c - ic_read_count p;
                      write_ops = ic_write_count c - ic_write_count p;
                      utilization = min 100 (max 0 (100 * of_int (busy_delta p c) / (elapsed * 1000)));
                      io_time_delta_ms = max 0 (of_int ((ic_read_time c - ic_read_time p)
                                                      + (ic_write_time c - ic_write_time p)));
                      ops_delta = read_ops + write_ops;
                      await_ms = (if ops_delta > 0 then io_time_delta_ms / of_int ops_delta else 0);
                      aqu = max 0 (of_int dw) / (elapsed * 1000)
                  in \<lparr>ds_utilization = py_round 2 utilization,
                      ds_read_kb_per_sec = py_round 2 (max 0 (of_int (ic_read_bytes c - ic_read_bytes p) / 1024 / elapsed)),
                      ds_write_kb_per_sec = py_round 2 (max 0 (of_int (ic_write_bytes c - ic_write_bytes p) / 1024 / elapsed)),
                      ds_read_iops = py_round 2 (max 0 (of_int read_ops / elapsed)),
                      ds_write_iops = py_round 2 (max 0 (of_int write_ops / elapsed)),
                      ds_await_ms = py_round 3 await_ms, ds_aqu = py_round 3 aqu,
                      ds_total_size_gb = total_gb, ds_used_size_gb = used_gb, ds_free_size_gb = free_gb,
                      ds_usage_percent = pct\<rparr>
         | _ \<Rightarrow> zero)"

definition collect_disk_io_stats ::
  "string list \<Rightarrow> (string \<rightharpoonup> io_counters) \<Rightarrow> (string \<rightharpoonup> int) \<Rightarrow> real
     \<Rightarrow> (string \<rightharpoonup> space_row \<times> real option) \<Rightarrow> disk_mon \<Rightarrow> disk_mon \<times> (string \<times> disk_stats) list" where
  "collect_disk_io_stats disks curr_io curr_weighted curr_time disk_space st =
     (let elapsed = curr_time - dk_prev_time st
      in (st\<lparr>dk_prev_io := curr_io, dk_prev_weighted := curr_weighted, dk_prev_time := curr_time\<rparr>,
          map (\<lambda>d. (d, disk_sample elapsed (curr_io d) (dk_prev_io st d)
                 (dget curr_weighted d 0 - dget (dk_prev_weighted st) d 0) (disk_space d))) disks))"

subsection \<open>Pressure\<close>

definition use_pressure :: "disk_model \<Rightarrow> disk_profile \<Rightarrow> disk_stats \<Rightarrow> real" where
  \<comment> \<open>the arithmetic of \<open>_disk_pressure\<close>\<close>
  "use_pressure m prof stats =
     (let k = dm_sigmoid_k m;
          f_lat = sigmoid_pressure (ds_await_ms stats) (pf_await_half_ms prof) k;
          f_queue = sigmoid_pressure (ds_aqu stats) (pf_queue_half prof) k;
          f_util = sigmoid_pressure (ds_utilization stats) (pf_util_half_pct prof) k;
          act_half = pf_activity_util_pct prof;
          activity = (if act_half > 0 then min 1 (ds_utilization stats / act_half) else 1)
      in activity * (dm_w_latency m * f_lat + dm_w_queue m * f_queue) + dm_w_util m * f_util)"

definition disk_pressure :: "disk_model \<Rightarrow> sysfs \<Rightarrow> string \<Rightarrow> disk_stats \<Rightarrow> disk_mon \<Rightarrow> disk_mon \<times> real" where
  "disk_pressure m sy disk stats st =
     (case get_disk_profile m sy disk st of (st', prof) \<Rightarrow> (st', use_pressure m prof stats))"

record disk_detail =
  dd_stats :: disk_stats
  dd_pressure :: real
  dd_disk_type :: media
  dd_is_busy :: bool

fun score_disks ::
  "disk_model \<Rightarrow> sysfs \<Rightarrow> real \<Rightarrow> (string \<times> disk_stats) list \<Rightarrow> disk_mon
     \<Rightarrow> disk_mon \<times> (real \<times> string \<times> disk_detail) list" where
  "score_disks m sy busy_p [] st = (st, [])"
| "score_disks m sy busy_p ((disk, stats) # rest) st =
     (case disk_pressure m sy disk stats st of (st1, p) \<Rightarrow>
      case get_disk_profile m sy disk st1 of (st2, prof) \<Rightarrow>
      case score_disks m sy busy_p rest st2 of (st3, sc) \<Rightarrow>
        (st3, (p, disk, \<lparr>dd_stats = stats, dd_pressure = py_round 4 p,
                         dd_disk_type = pf_media prof, dd_is_busy = p \<ge> busy_p\<rparr>) # sc))"

definition noisy_or_mean_max :: "real \<Rightarrow> real list \<Rightarrow> real" where
  "noisy_or_mean_max w ps =
     (if ps = [] then 0
      else let avg_p = sum_list ps / of_nat (length ps); max_p = Max (set ps)
           in 1 - (1 - avg_p) * (1 - max_p * w))"

record disk_eval =
  ev_disk_combined :: real
  ev_max_p :: real
  ev_avg_p :: real
  ev_stressed_disks :: "string list"
  ev_details :: "(string \<times> disk_detail) list"

definition evaluate ::
  "disk_model \<Rightarrow> thresholds \<Rightarrow> sysfs \<Rightarrow> (string \<times> disk_stats) list \<Rightarrow> disk_mon \<Rightarrow> py_error + disk_mon \<times> disk_eval" where
  \<comment> \<open>\<open>evaluate\<close> after \<open>_collect_disk_io_stats\<close> has returned its rows\<close>
  "evaluate m thr sy stats st =
     (case thr Medium of
        None \<Rightarrow> Inl (KeyError ''medium'')
      | Some busy_p \<Rightarrow>
          (case score_disks m sy busy_p stats st of (st', scored0) \<Rightarrow>
             let scored = sort_key (\<lambda>e. - fst e) scored0;
                 ps = map fst scored;
                 n = real (length ps)
             in Inr (st', \<lparr>ev_disk_combined = py_round 4 (noisy_or_mean_max (dm_max_p_weight m) ps),
                    ev_max_p = py_round 4 (if ps = [] then 0 else Max (set ps)),
                    ev_avg_p = py_round 4 (if ps = [] then 0 else sum_list ps / n),
                    ev_stressed_disks = map (\<lambda>(_, d, _). d) (filter (\<lambda>(_, _, x). dd_is_busy x) scored),
                    ev_details = map snd scored\<rparr>)))"

record saturation_report =
  sr_is_saturated :: bool
  sr_stressed_disks :: "string list"
  sr_disk_combined :: real
  sr_details :: "(string \<times> disk_detail) list"

definition is_disk_io_stressed :: "thresholds \<Rightarrow> string option \<Rightarrow> disk_eval \<Rightarrow> py_error + saturation_report" where
  \<comment> \<open>\<open>device=""\<close> counts as no device, as Python's truth test has it\<close>
  "is_disk_io_stressed thr device ev =
     (let (details, stressed, combined) =
        (case device of
           Some (c # cs) \<Rightarrow>
             let d = c # cs in
             (case map_of (ev_details ev) d of
                Some x \<Rightarrow> ([(d, x)], filter (\<lambda>s. s = d) (ev_stressed_disks ev), dd_pressure x)
              | None \<Rightarrow> ([], filter (\<lambda>s. s = d) (ev_stressed_disks ev), 0))
         | _ \<Rightarrow> (ev_details ev, ev_stressed_disks ev, ev_disk_combined ev))
      in case thr High of
           None \<Rightarrow> Inl (KeyError ''high'')
         | Some high \<Rightarrow> Inr \<lparr>sr_is_saturated = combined \<ge> high, sr_stressed_disks = stressed,
                            sr_disk_combined = py_round 4 combined, sr_details = details\<rparr>)"

subsection \<open>The dashboard view\<close>

datatype ui_level = NoData | UiLow | UiMedium | UiHigh | UiCritical

fun level_upper :: "level \<Rightarrow> ui_level" where
  "level_upper Low = UiLow"
| "level_upper Medium = UiMedium"
| "level_upper High = UiHigh"
| "level_upper Critical = UiCritical"
| "level_upper Unknown = NoData"

record disk_view =
  dv_busy_disks :: "string list"
  dv_total_disks :: nat
  dv_busy_ratio :: "real option"
  dv_busy_pct :: "real option"
  dv_busy_level :: ui_level
  dv_pressure_pct :: "real option"

definition compute_disk_pressure ::
  "thresholds \<Rightarrow> (string \<times> bool option) list \<Rightarrow> level option \<Rightarrow> real option \<Rightarrow> disk_view" where
  \<comment> \<open>a row's detail is its \<open>is_busy\<close> flag, or \<open>None\<close> when it is not a dict; \<open>level\<close> and \<open>score\<close>
     are the gated ones of the pressure tick\<close>
  "compute_disk_pressure thr disk_io gated_level gated_score =
     (if disk_io = [] then \<lparr>dv_busy_disks = [], dv_total_disks = 0, dv_busy_ratio = None, dv_busy_pct = None,
         dv_busy_level = NoData, dv_pressure_pct = None\<rparr>
      else let rows = filter (\<lambda>(d, x). x \<noteq> None) disk_io;
               busy = map fst (filter (\<lambda>(d, x). x = Some True) rows);
               total_disks = length rows;
               ratio = (if total_disks > 0 then Some (real (length busy) / real total_disks) else None);
               lvl = (case gated_level of
                        Some g \<Rightarrow> if g \<noteq> Unknown then Some (level_upper g) else None
                      | None \<Rightarrow> None);
               busy_level = (case lvl of
                        Some l \<Rightarrow> l
                      | None \<Rightarrow> (case ratio of
                            None \<Rightarrow> NoData
                          | Some r \<Rightarrow> if r < dget thr Low (4/10) then UiLow
                                      else if r < dget thr Medium (6/10) then UiMedium
                                      else if r < dget thr High (8/10) then UiHigh
                                      else UiCritical))
           in \<lparr>dv_busy_disks = busy, dv_total_disks = total_disks,
               dv_busy_ratio = map_option (py_round 4) ratio,
               dv_busy_pct = map_option (\<lambda>r. py_round 2 (r * 100)) ratio,
               dv_busy_level = busy_level,
               dv_pressure_pct = map_option (\<lambda>s. py_round 2 (s * 100)) gated_score\<rparr>)"

subsection \<open>Lemmas\<close>

lemma sigmoid_unit [unit_bounds, simp]: "0 \<le> sigmoid_pressure x h k" "sigmoid_pressure x h k \<le> 1"
  by (simp_all add: sigmoid_pressure_def)

lemma sigmoid_half [simp]: "0 < h \<Longrightarrow> sigmoid_pressure h h k = 1/2"
  by (simp add: sigmoid_pressure_def clamp_def)

lemma sigmoid_mono:
  assumes "0 \<le> k" "x \<le> y" shows "sigmoid_pressure x h k \<le> sigmoid_pressure y h k"
proof (cases "h \<le> 0")
  case False
  have "- k * (y - h) / h \<le> - k * (x - h) / h"
    using assms False by (intro divide_right_mono) (auto simp: mult_left_mono)
  then show ?thesis using False unfolding sigmoid_pressure_def
    by (simp only: if_False) (intro logistic_antimono clamp_mono)
qed (simp add: sigmoid_pressure_def)

lemma media_map_total: "media_map v d m \<noteq> None"
  by (simp add: media_map_def split: option.split)

definition weights_ok :: "disk_model \<Rightarrow> bool" where
  "weights_ok m \<longleftrightarrow> 0 \<le> dm_w_latency m \<and> 0 \<le> dm_w_queue m \<and> 0 \<le> dm_w_util m
     \<and> dm_w_latency m + dm_w_queue m + dm_w_util m \<le> 1"

lemma weighted_sum3:
  fixes a b c x y z act :: real
  assumes "0 \<le> a" "0 \<le> b" "0 \<le> c" "a + b + c \<le> 1" "0 \<le> act" "act \<le> 1"
    and "0 \<le> x" "x \<le> 1" "0 \<le> y" "y \<le> 1" "0 \<le> z" "z \<le> 1"
  shows "0 \<le> act * (a * x + b * y) + c * z \<and> act * (a * x + b * y) + c * z \<le> 1"
proof -
  have l: "0 \<le> a * x + b * y" and u: "a * x + b * y \<le> a + b" and z: "0 \<le> c * z" "c * z \<le> c"
    using assms by (auto intro!: add_nonneg_nonneg add_mono mult_left_le)
  define S where "S = a * x + b * y"
  have "0 \<le> act * S" "act * S \<le> S" using l assms(5,6) by (simp_all add: S_def mult_left_le_one_le)
  moreover have "S \<le> a + b" using u by (simp add: S_def)
  ultimately have "0 \<le> act * S + c * z" "act * S + c * z \<le> 1" using z assms(4) by linarith+
  then show ?thesis by (simp add: S_def)
qed

lemma use_pressure_unit:
  assumes "weights_ok m" "0 \<le> ds_utilization s"
  shows "0 \<le> use_pressure m prof s \<and> use_pressure m prof s \<le> 1"
proof -
  let ?act = "if pf_activity_util_pct prof > 0 then min 1 (ds_utilization s / pf_activity_util_pct prof) else 1"
  have act: "0 \<le> ?act" "?act \<le> 1" using assms(2) by auto
  show ?thesis
    unfolding use_pressure_def Let_def
    by (rule weighted_sum3) (use assms(1) act in \<open>simp_all add: weights_ok_def\<close>)
qed

lemma avg_max:
  assumes "ps \<noteq> []" "\<forall>p\<in>set ps. 0 \<le> p \<and> p \<le> (1::real)"
  shows "0 \<le> sum_list ps / of_nat (length ps)" "sum_list ps / of_nat (length ps) \<le> Max (set ps)"
    "Max (set ps) \<le> 1" "0 \<le> Max (set ps)"
proof -
  have "0 \<le> sum_list ps" using assms(2) by (simp add: sum_list_nonneg)
  then show "0 \<le> sum_list ps / of_nat (length ps)" by simp
  have "sum_list ps \<le> of_nat (length ps) * Max (set ps)"
    using sum_list_mono [of ps "\<lambda>p. p" "\<lambda>_. Max (set ps)"] by (simp add: sum_list_triv)
  then show "sum_list ps / of_nat (length ps) \<le> Max (set ps)"
    using assms(1) by (simp add: divide_le_eq mult.commute)
  have mem: "Max (set ps) \<in> set ps" using assms(1) by simp
  then show "Max (set ps) \<le> 1" "0 \<le> Max (set ps)" using assms(2) by blast+
qed

lemma noisy_or_bounds:
  assumes "ps \<noteq> []" "\<forall>p\<in>set ps. 0 \<le> p \<and> p \<le> 1" "0 \<le> w" "w \<le> 1"
  shows "sum_list ps / of_nat (length ps) \<le> noisy_or_mean_max w ps"
    and "w * Max (set ps) \<le> noisy_or_mean_max w ps"
    and "noisy_or_mean_max w ps \<le> 1"
    and "noisy_or_mean_max w ps \<le> 1 - (1 - sum_list ps / of_nat (length ps)) * (1 - w)"
proof -
  let ?a = "sum_list ps / of_nat (length ps)" and ?m = "Max (set ps)"
  note am = avg_max [OF assms(1,2)]
  have eq: "noisy_or_mean_max w ps = 1 - (1 - ?a) * (1 - ?m * w)"
    using assms(1) by (simp add: noisy_or_mean_max_def Let_def)
  have mw: "0 \<le> ?m * w" "?m * w \<le> 1" "?m * w \<le> w" using am assms(3,4)
    by (simp_all add: mult_le_one mult_left_le_one_le)
  have a1: "0 \<le> 1 - ?a" "1 - ?a \<le> 1" using am by linarith+
  have "(1 - ?a) * (1 - ?m * w) \<le> (1 - ?a) * 1" using mw a1 by (intro mult_left_mono) auto
  then show "?a \<le> noisy_or_mean_max w ps" unfolding eq by simp
  have "(1 - ?a) * (1 - ?m * w) \<le> 1 * (1 - ?m * w)" using mw a1 by (intro mult_right_mono) auto
  then show "w * ?m \<le> noisy_or_mean_max w ps" unfolding eq by (simp add: mult.commute)
  show "noisy_or_mean_max w ps \<le> 1" unfolding eq using mw a1 by simp
  have "(1 - ?a) * (1 - w) \<le> (1 - ?a) * (1 - ?m * w)" using mw a1 by (intro mult_left_mono) auto
  then show "noisy_or_mean_max w ps \<le> 1 - (1 - ?a) * (1 - w)" unfolding eq by simp
qed

lemma score_disks_frame:
  "score_disks m sy b stats st = (st', sc) \<Longrightarrow> dk_prev_io st' = dk_prev_io st
     \<and> map (\<lambda>(p, d, x). d) sc = map fst stats
     \<and> (\<forall>(p, d, x)\<in>set sc. dd_is_busy x = (p \<ge> b) \<and> dd_pressure x = py_round 4 p
          \<and> (\<exists>prof s. (d, s) \<in> set stats \<and> p = use_pressure m prof s))"
proof (induction m sy b stats st arbitrary: st' sc rule: score_disks.induct)
  case (2 m sy b disk s rest st)
  obtain st1 p where a: "disk_pressure m sy disk s st = (st1, p)" by fastforce
  obtain st2 prof where c: "get_disk_profile m sy disk st1 = (st2, prof)" by fastforce
  obtain st3 sc3 where e: "score_disks m sy b rest st2 = (st3, sc3)" by fastforce
  have fr: "dk_prev_io (fst (get_disk_profile m sy disk t)) = dk_prev_io t" for t
    by (auto simp: get_disk_profile_def media_for_disk_def Let_def split: option.split prod.split)
  have "dk_prev_io st1 = dk_prev_io st" "\<exists>prof. p = use_pressure m prof s"
    using a fr [of st] by (auto simp: disk_pressure_def split: prod.splits)
  moreover have "dk_prev_io st2 = dk_prev_io st1" using c fr [of st1] by simp
  moreover note "2.IH" [OF a [symmetric] c [symmetric] e]
  ultimately show ?case using "2.prems" a c e by fastforce
qed simp

lemma bound_by_mono: "\<forall>d\<in>set (xs :: real list). 0 \<le> d \<Longrightarrow> 0 \<le> sum_list xs"
  by (simp add: sum_list_nonneg)

subsection \<open>Properties\<close>

text \<open>what \<open>evaluate\<close> reports: given sub-weights that are non-negative and sum to at most 1 (the
  defaults sum to exactly 1) and sampled utilisations that are not negative, the aggregate lies in
  the unit interval, the details name exactly the sampled disks, busiest first, and the stressed
  list is exactly the disks whose pressure reached the busy band.\<close>
theorem evaluate_sound:
  assumes "evaluate m thr sy stats st = Inr (st', ev)"
    and "weights_ok m" and "0 \<le> dm_max_p_weight m" "dm_max_p_weight m \<le> 1"
    and "\<forall>(d, s)\<in>set stats. 0 \<le> ds_utilization s"
  shows "0 \<le> ev_disk_combined ev \<and> ev_disk_combined ev \<le> 1
    \<and> mset (map fst (ev_details ev)) = mset (map fst stats)
    \<and> ev_stressed_disks ev = map fst (filter (\<lambda>(d, x). dd_is_busy x) (ev_details ev))
    \<and> sorted (map (\<lambda>(d, x). - dd_pressure x) (ev_details ev))"
proof -
  obtain b st1 sc where b: "thr Medium = Some b" and sc: "score_disks m sy b stats st = (st1, sc)"
    using assms(1) by (auto simp: evaluate_def split: option.splits prod.splits)
  let ?s = "sort_key (\<lambda>e. - fst e) sc"
  have ev: "ev_disk_combined ev = py_round 4 (noisy_or_mean_max (dm_max_p_weight m) (map fst ?s))"
    "ev_stressed_disks ev = map (\<lambda>(_, d, _). d) (filter (\<lambda>(_, _, x). dd_is_busy x) ?s)"
    "ev_details ev = map snd ?s"
    using assms(1) b sc by (auto simp: evaluate_def Let_def)
  note fr = score_disks_frame [OF sc]
  have unit: "\<forall>p\<in>set (map fst ?s). 0 \<le> p \<and> p \<le> 1"
    using fr assms(2,5) by (force dest: use_pressure_unit)
  have "0 \<le> noisy_or_mean_max (dm_max_p_weight m) (map fst ?s) \<and> noisy_or_mean_max (dm_max_p_weight m) (map fst ?s) \<le> 1"
  proof (cases "map fst ?s = []")
    case False
    then show ?thesis
      using noisy_or_bounds [OF False unit assms(3,4)] avg_max(1) [OF False unit] by linarith
  qed (simp add: noisy_or_mean_max_def)
  then have c: "0 \<le> ev_disk_combined ev \<and> ev_disk_combined ev \<le> 1" unfolding ev by (simp add: py_round_unit)
  have "mset (map fst (map snd ?s)) = mset (map (\<lambda>(p, d, x). d) sc)"
    by (simp add: split_beta' comp_def image_mset.compositionality)
  then have n: "mset (map fst (ev_details ev)) = mset (map fst stats)" using fr unfolding ev by simp
  have st: "ev_stressed_disks ev = map fst (filter (\<lambda>(d, x). dd_is_busy x) (ev_details ev))"
    unfolding ev by (induction sc) (simp_all add: filter_map comp_def split_beta)
  have "sorted_wrt (\<lambda>a b. - fst a \<le> - fst b) ?s"
    using sorted_sort_key [of "\<lambda>e. - fst e" sc] by (simp only: sorted_map)
  then have "sorted_wrt (\<lambda>a b. - dd_pressure (snd (snd a)) \<le> - dd_pressure (snd (snd b))) ?s"
  proof (rule sorted_wrt_mono_rel [rotated])
    fix x y assume "x \<in> set ?s" "y \<in> set ?s" and le: "- fst x \<le> - fst y"
    then have "dd_pressure (snd (snd x)) = py_round 4 (fst x)" "dd_pressure (snd (snd y)) = py_round 4 (fst y)"
      using fr by auto
    with le py_round_mono [of "fst y" "fst x" 4] show "- dd_pressure (snd (snd x)) \<le> - dd_pressure (snd (snd y))"
      by simp
  qed
  then have "sorted (map (\<lambda>(d, x). - dd_pressure x) (ev_details ev))"
    unfolding ev by (simp add: sorted_map split_beta)
  with c n st show ?thesis by blast
qed

definition idle_stats :: "real \<Rightarrow> real \<Rightarrow> disk_stats" where
  "idle_stats await util = \<lparr>ds_utilization = util, ds_read_kb_per_sec = 0, ds_write_kb_per_sec = 0,
     ds_read_iops = 0, ds_write_iops = 0, ds_await_ms = await, ds_aqu = 0, ds_total_size_gb = None,
     ds_used_size_gb = None, ds_free_size_gb = None, ds_usage_percent = None\<rparr>"

definition no_sysfs :: sysfs where
  "no_sysfs = \<lparr>sy_rotational = (\<lambda>_. Some 0), sy_removable = (\<lambda>_. Some 0), sy_path = (\<lambda>d. d),
     sy_queue_depth = (\<lambda>_. None)\<rparr>"

definition disk_mon0 :: disk_mon where
  "disk_mon0 = \<lparr>dk_prev_io = Map.empty, dk_prev_weighted = Map.empty, dk_prev_time = 0,
     dk_profiles = Map.empty, dk_media = Map.empty\<rparr>"

theorem evaluate_sound_witness:
  "\<exists>st' ev. evaluate (disk_model_of PNone) [Medium \<mapsto> 6/10] no_sysfs [(''sda'', idle_stats 50 100)] disk_mon0 = Inr (st', ev)
     \<and> ev_disk_combined ev \<le> 1"
proof -
  let ?e = "evaluate (disk_model_of PNone) [Medium \<mapsto> 6/10] no_sysfs [(''sda'', idle_stats 50 100)] disk_mon0"
  have "\<exists>st' ev. ?e = Inr (st', ev)"
    by (auto simp: evaluate_def Let_def split: prod.split)
  then obtain st' ev where r: "?e = Inr (st', ev)" by blast
  have w: "weights_ok (disk_model_of PNone)" "0 \<le> dm_max_p_weight (disk_model_of PNone)"
    "dm_max_p_weight (disk_model_of PNone) \<le> 1"
    by (simp_all add: weights_ok_def disk_model_of_def num_or_def Let_def)
  from evaluate_sound [OF r w] r show ?thesis by (auto simp: idle_stats_def)
qed

text \<open>how far one disk carries the aggregate: it is at least the mean and at least the worst
  disk times its weight, it is at most \<open>1 - (1 - avg) * (1 - w)\<close>, and with one disk of \<open>n\<close> fully
  saturated and the others idle it is exactly \<open>1 - (1 - 1/n) * (1 - w)\<close>.\<close>
theorem aggregate_single_disk:
  assumes "\<forall>p\<in>set ps. 0 \<le> p \<and> p \<le> 1" "ps \<noteq> []" "0 \<le> w" "w \<le> 1"
  shows "sum_list ps / length ps \<le> noisy_or_mean_max w ps \<and> w * Max (set ps) \<le> noisy_or_mean_max w ps
    \<and> noisy_or_mean_max w ps \<le> 1 - (1 - sum_list ps / length ps) * (1 - w)
    \<and> noisy_or_mean_max w (1 # replicate k 0) = 1 - (1 - 1 / (k + 1)) * (1 - w)"
proof -
  have "Max (set (1 # replicate k (0::real))) = 1" by (rule Max_eqI) auto
  then have "noisy_or_mean_max w (1 # replicate k 0) = 1 - (1 - 1 / (k + 1)) * (1 - w)"
    by (simp add: noisy_or_mean_max_def Let_def sum_list_replicate add.commute)
  with noisy_or_bounds [OF assms(2,1,3,4)] show ?thesis by simp
qed

theorem aggregate_single_disk_witness:
  "noisy_or_mean_max (8/10) (1 # replicate 2 0) = 1 - (1 - 1 / (2 + 1)) * (1 - 8/10)"
  using aggregate_single_disk [of "[1]" "8/10" 2] by simp

text \<open>a sampled row is always sane, whatever the counters do (a device that was re-plugged
  restarts them from 0): utilisation within 0 and 100, no negative rate, latency or queue depth, and
  the new counters become the next baseline without touching the hardware caches.\<close>
theorem disk_sample_sane:
  "(let s = disk_sample e c p dw sp in
      0 \<le> ds_utilization s \<and> ds_utilization s \<le> 100 \<and> 0 \<le> ds_read_kb_per_sec s \<and> 0 \<le> ds_write_kb_per_sec s
      \<and> 0 \<le> ds_read_iops s \<and> 0 \<le> ds_write_iops s \<and> 0 \<le> ds_await_ms s \<and> 0 \<le> ds_aqu s)
   \<and> dk_prev_io (fst (collect_disk_io_stats disks io wt t space st)) = io
   \<and> dk_profiles (fst (collect_disk_io_stats disks io wt t space st)) = dk_profiles st"
proof -
  have u: "0 \<le> py_round 2 (min 100 (max 0 x))" "py_round 2 (min 100 (max 0 x)) \<le> 100" for x
    using py_round_mono [of 0 "min 100 (max 0 x)" 2] py_round_mono [of "min 100 (max 0 x)" 100 2]
      py_round_of_int [of 2 100] by simp_all
  have nn: "0 \<le> py_round n x" if "0 \<le> x" for n x using py_round_mono [OF that, of n] by simp
  have "let s = disk_sample e c p dw sp in
      0 \<le> ds_utilization s \<and> ds_utilization s \<le> 100 \<and> 0 \<le> ds_read_kb_per_sec s \<and> 0 \<le> ds_write_kb_per_sec s
      \<and> 0 \<le> ds_read_iops s \<and> 0 \<le> ds_write_iops s \<and> 0 \<le> ds_await_ms s \<and> 0 \<le> ds_aqu s"
  proof (cases "\<exists>x y. c = Some x \<and> p = Some y \<and> \<not> e \<le> 0")
    case True
    then obtain x y where c: "c = Some x" "p = Some y" "\<not> e \<le> 0" by blast
    show ?thesis unfolding disk_sample_def Let_def c option.case prod.case if_not_P [OF c(3)]
        disk_stats.select_convs
      using c(3) by (intro conjI u nn) simp_all
  next
    case False
    then show ?thesis by (cases c; cases p) (simp_all add: disk_sample_def Let_def)
  qed
  then show ?thesis by (simp add: collect_disk_io_stats_def Let_def)
qed

end
