(* ===== verification/Swap.thy ===== *)
theory Swap
  imports Py_String "HOL-Library.Multiset"
begin

text \<open>
  \<open>balancer/controller/swap.py\<close>: when to grow swap and by how much, and the execution of growth and
  release. Byte counts are ints, configured ratios and clocks reals. \<open>/proc\<close> files, the directory
  listing, \<open>statvfs\<close> and the commands \<open>mkswap\<close>, \<open>swapon\<close>, \<open>swapoff\<close> are arguments. Paths are absolute
  and normalised, so \<open>os.path.abspath\<close> is the identity on them. The free text of a plan's or a
  result's reason is represented by a constructor per branch.
\<close>

subsection \<open>Data\<close>

record mem_snapshot =
  ms_mem_total :: int
  ms_mem_free :: int
  ms_mem_available :: int
  ms_anon_pages :: int
  ms_swap_total :: int
  ms_swap_free :: int

definition mem_snapshot0 :: mem_snapshot where
  "mem_snapshot0 = \<lparr>ms_mem_total = 0, ms_mem_free = 0, ms_mem_available = 0, ms_anon_pages = 0,
     ms_swap_total = 0, ms_swap_free = 0\<rparr>"

definition used_effective :: "mem_snapshot \<Rightarrow> int" where
  "used_effective s = max 0 (ms_mem_total s - ms_mem_available s)"

definition used_fraction :: "mem_snapshot \<Rightarrow> real" where
  "used_fraction s = (if ms_mem_total s \<noteq> 0 then of_int (used_effective s) / of_int (ms_mem_total s) else 0)"

definition swap_used :: "mem_snapshot \<Rightarrow> int" where
  "swap_used s = max 0 (ms_swap_total s - ms_swap_free s)"

definition swap_free_fraction :: "mem_snapshot \<Rightarrow> real" where
  "swap_free_fraction s = (if ms_swap_total s \<noteq> 0 then of_int (ms_swap_free s) / of_int (ms_swap_total s) else 0)"

definition movable_anon :: "mem_snapshot \<Rightarrow> int" where
  "movable_anon s = max 0 (ms_anon_pages s - swap_used s)"

record swap_cfg =
  sg_enabled :: bool
  sg_grow_mem_watermark :: real
  sg_grow_swap_watermark :: real
  sg_grow_swap_critical :: real
  sg_pressure_window_sec :: real
  sg_step_ratio :: real
  sg_max_swap_ratio :: real
  sg_disk_reserve_pct :: real
  sg_disk_reserve_min_gb :: real
  sg_zswap :: bool
  sg_zswap_compressor :: string
  sg_zswap_pool_percent :: int
  sg_path :: string
  sg_allow_fs :: "string list"

definition swap_growth_defaults :: swap_cfg where
  "swap_growth_defaults = \<lparr>sg_enabled = False, sg_grow_mem_watermark = 80/100,
     sg_grow_swap_watermark = 50/100, sg_grow_swap_critical = 10/100, sg_pressure_window_sec = 30,
     sg_step_ratio = 25/100, sg_max_swap_ratio = 2, sg_disk_reserve_pct = 10,
     sg_disk_reserve_min_gb = 20, sg_zswap = False, sg_zswap_compressor = ''zstd'',
     sg_zswap_pool_percent = 20, sg_path = ''/var/lib/smartune/swap'', sg_allow_fs = [''ext4'', ''xfs'']\<rparr>"

definition shrink_hysteresis :: real where "shrink_hysteresis = 15/100"
definition shrink_idle_sec :: real where "shrink_idle_sec = 600"
definition grow_lead_sec :: real where "grow_lead_sec = 90"
definition min_slope_span_sec :: real where "min_slope_span_sec = 5"
definition swapoff_headroom_ratio :: real where "swapoff_headroom_ratio = 12/10"
definition gib :: int where "gib = 1024 * 1024 * 1024"

lemmas swap_consts = shrink_hysteresis_def shrink_idle_sec_def grow_lead_sec_def
  min_slope_span_sec_def swapoff_headroom_ratio_def gib_def

definition dynamic_growth_fs :: "string list" where "dynamic_growth_fs = [''ext4'', ''xfs'']"
definition conditional_growth_fs :: "string list" where "conditional_growth_fs = [''btrfs'']"

subsection \<open>Parsing the proc files\<close>

fun set_field :: "string \<Rightarrow> int \<Rightarrow> mem_snapshot \<Rightarrow> mem_snapshot" where
  "set_field key v s =
     (if key = ''MemTotal'' then s\<lparr>ms_mem_total := v\<rparr>
      else if key = ''MemFree'' then s\<lparr>ms_mem_free := v\<rparr>
      else if key = ''MemAvailable'' then s\<lparr>ms_mem_available := v\<rparr>
      else if key = ''AnonPages'' then s\<lparr>ms_anon_pages := v\<rparr>
      else if key = ''SwapTotal'' then s\<lparr>ms_swap_total := v\<rparr>
      else if key = ''SwapFree'' then s\<lparr>ms_swap_free := v\<rparr>
      else s)"

definition meminfo_line :: "string \<Rightarrow> mem_snapshot \<Rightarrow> mem_snapshot" where
  "meminfo_line line s =
     (case partition_at (CHR '':'') line of (key, _, rest) \<Rightarrow>
        (case split_ws rest of
           [] \<Rightarrow> s
         | p # _ \<Rightarrow> (case py_int p of None \<Rightarrow> s | Some n \<Rightarrow> set_field (strip key) (n * 1024) s)))"

definition read_meminfo :: "string option \<Rightarrow> mem_snapshot" where
  "read_meminfo file =
     (case file of None \<Rightarrow> mem_snapshot0
      | Some txt \<Rightarrow> fold meminfo_line (split_char (CHR 0x0A) txt) mem_snapshot0)"

record swap_device =
  sd_path :: string
  sd_kind :: string
  sd_size_bytes :: int
  sd_used_bytes :: int
  sd_priority :: int

definition swap_line :: "string \<Rightarrow> swap_device option" where
  "swap_line line =
     (case split_ws line of
        p # k # sz # us # pr # _ \<Rightarrow>
          (case (py_int sz, py_int us, py_int pr) of
             (Some a, Some b, Some c) \<Rightarrow> Some \<lparr>sd_path = p, sd_kind = k, sd_size_bytes = a * 1024,
                                            sd_used_bytes = b * 1024, sd_priority = c\<rparr>
           | _ \<Rightarrow> None)
      | _ \<Rightarrow> None)"

definition read_swap_devices :: "string option \<Rightarrow> swap_device list" where
  "read_swap_devices file =
     (case file of None \<Rightarrow> []
      | Some txt \<Rightarrow> List.map_filter swap_line (tl (split_char (CHR 0x0A) txt)))"

fun rstrip_slash :: "string \<Rightarrow> string" where
  "rstrip_slash s = rev (dropWhile (\<lambda>c. c = CHR ''/'') (rev s))"

fun best_mount :: "string \<Rightarrow> string list list \<Rightarrow> int \<Rightarrow> string \<Rightarrow> string" where
  "best_mount target [] best_len best_type = best_type"
| "best_mount target (parts # rest) best_len best_type =
     (if length parts < 3 then best_mount target rest best_len best_type
      else let mount_point = parts ! 1; fstype = parts ! 2
           in if (target = mount_point \<or> startswith target (rstrip_slash mount_point @ ''/''))
                 \<and> int (length mount_point) > best_len
              then best_mount target rest (int (length mount_point)) fstype
              else best_mount target rest best_len best_type)"

definition filesystem_type :: "string \<Rightarrow> string option \<Rightarrow> string" where
  "filesystem_type target mounts =
     (case mounts of None \<Rightarrow> []
      | Some txt \<Rightarrow> best_mount target (map split_ws (split_char (CHR 0x0A) txt)) (-1) [])"

subsection \<open>The worst-case window\<close>

record swap_ctl =
  sc_cfg :: swap_cfg
  sc_window :: "(real \<times> mem_snapshot) list"  \<comment> \<open>oldest first\<close>
  sc_relaxed_since :: "real option"

definition shrink_watermark :: "swap_cfg \<Rightarrow> real" where
  "shrink_watermark cfg = max 0 (sg_grow_mem_watermark cfg - shrink_hysteresis)"

definition swap_sample :: "real \<Rightarrow> mem_snapshot \<Rightarrow> swap_ctl \<Rightarrow> swap_ctl" where
  "swap_sample now snapshot c =
     (if ms_mem_total snapshot \<le> 0 then c
      else let horizon = now - sg_pressure_window_sec (sc_cfg c);
               w = dropWhile (\<lambda>(t, _). t < horizon) (sc_window c @ [(now, snapshot)]);
               relaxed = (if used_fraction snapshot < shrink_watermark (sc_cfg c)
                          then (case sc_relaxed_since c of None \<Rightarrow> Some now | Some t \<Rightarrow> Some t)
                          else None)
           in c\<lparr>sc_window := w, sc_relaxed_since := relaxed\<rparr>)"

definition relaxed_for :: "real \<Rightarrow> swap_ctl \<Rightarrow> real" where
  "relaxed_for now c = (case sc_relaxed_since c of None \<Rightarrow> 0 | Some t \<Rightarrow> max 0 (now - t))"

definition window_span :: "swap_ctl \<Rightarrow> real \<times> (mem_snapshot \<times> mem_snapshot) option" where
  "window_span c =
     (if length (sc_window c) < 2 then (0, None)
      else (fst (last (sc_window c)) - fst (hd (sc_window c)),
            Some (snd (hd (sc_window c)), snd (last (sc_window c)))))"

definition swap_eta :: "swap_ctl \<Rightarrow> real option" where
  "swap_eta c =
     (case window_span c of
        (spn, None) \<Rightarrow> None
      | (spn, Some (first, lst)) \<Rightarrow>
          if spn < min_slope_span_sec then None
          else if ms_swap_total lst \<le> 0 then None
          else let rate = of_int (ms_swap_free first - ms_swap_free lst) / spn
               in if rate \<le> 0 then None
                  else let remaining = Min (set (map (\<lambda>(_, s). ms_swap_free s) (sc_window c)))
                       in Some (max 0 (of_int remaining / rate)))"

definition mem_rise_rate :: "swap_ctl \<Rightarrow> real option" where
  "mem_rise_rate c =
     (case window_span c of
        (spn, None) \<Rightarrow> None
      | (spn, Some (first, lst)) \<Rightarrow>
          if spn < min_slope_span_sec then None
          else if ms_mem_total lst \<le> 0 then None
          else Some (of_int (used_effective lst - used_effective first) / of_int (ms_mem_total lst)))"

definition worst_recent :: "real \<Rightarrow> swap_ctl \<Rightarrow> mem_snapshot \<Rightarrow> mem_snapshot" where
  "worst_recent now c snapshot =
     (let horizon = now - sg_pressure_window_sec (sc_cfg c);
          recent = map snd (filter (\<lambda>(t, _). t \<ge> horizon) (sc_window c))
      in if recent = [] then snapshot
         else snapshot\<lparr>ms_mem_available := Min (set (ms_mem_available snapshot # map ms_mem_available recent)),
                       ms_swap_free := Min (set (ms_swap_free snapshot # map ms_swap_free recent))\<rparr>)"

subsection \<open>Planning\<close>

datatype grow_reason =
    GrowthDisabled | MeminfoUnavailable | MemoryBelowWatermark | SwapRoomy
  | FsNeedsNodatacow | FsUnsupported | RatioCapReached | DiskReserveNotMet
  | SwapExhausted | SwapDraining | BothWatermarks

record growth_plan =
  gp_should_grow :: bool
  gp_reason :: grow_reason
  gp_grow_bytes :: int
  gp_step_bytes :: int
  gp_ratio_cap_bytes :: int
  gp_disk_cap_bytes :: int
  gp_fs_supported :: bool
  gp_swap_cannot_help :: bool
  gp_snapshot :: mem_snapshot
  gp_disk_reserve_bytes :: int

definition fs_allowed :: "swap_cfg \<Rightarrow> string \<Rightarrow> bool" where
  \<comment> \<open>\<open>fstype in (set(allow_fs or default) & DYNAMIC_GROWTH_FS)\<close>\<close>
  "fs_allowed cfg fstype \<longleftrightarrow>
     fstype \<in> set (if sg_allow_fs cfg = [] then sg_allow_fs swap_growth_defaults else sg_allow_fs cfg)
     \<and> fstype \<in> set dynamic_growth_fs"

definition swap_exhausted :: "swap_cfg \<Rightarrow> mem_snapshot \<Rightarrow> bool" where
  "swap_exhausted cfg s \<longleftrightarrow> swap_free_fraction s \<le> sg_grow_swap_critical cfg"

definition swap_draining :: "swap_ctl \<Rightarrow> mem_snapshot \<Rightarrow> bool" where
  "swap_draining c s \<longleftrightarrow> used_fraction s \<ge> sg_grow_mem_watermark (sc_cfg c)
     \<and> (case swap_eta c of None \<Rightarrow> False | Some eta \<Rightarrow> eta \<le> grow_lead_sec)"

definition growth_trigger :: "swap_ctl \<Rightarrow> mem_snapshot \<Rightarrow> grow_reason + grow_reason" where
  \<comment> \<open>the \<open>if/elif\<close> chain that picks a trigger (right) or returns a refusal (left)\<close>
  "growth_trigger c s =
     (if swap_exhausted (sc_cfg c) s then Inr SwapExhausted
      else if swap_draining c s then Inr SwapDraining
      else if used_fraction s < sg_grow_mem_watermark (sc_cfg c) then Inl MemoryBelowWatermark
      else if swap_free_fraction s > sg_grow_swap_watermark (sc_cfg c) then Inl SwapRoomy
      else Inr BothWatermarks)"

definition growth_base :: "swap_cfg \<Rightarrow> mem_snapshot \<Rightarrow> int \<Rightarrow> int \<Rightarrow> string \<Rightarrow> growth_plan" where
  \<comment> \<open>the sizes computed before any decision (\<open>base\<close>); a plan built from it alone does not grow\<close>
  "growth_base cfg snapshot disk_total disk_available fstype =
     (let mt = real_of_int (ms_mem_total snapshot);
          reserve = max (py_trunc (of_int disk_total * sg_disk_reserve_pct cfg / 100))
                        (py_trunc (sg_disk_reserve_min_gb cfg * of_int gib));
          deficit = max 0 (used_effective snapshot - py_trunc (mt * sg_grow_mem_watermark cfg))
      in \<lparr>gp_should_grow = False, gp_reason = GrowthDisabled, gp_grow_bytes = 0,
          gp_step_bytes = py_trunc (mt * sg_step_ratio cfg),
          gp_ratio_cap_bytes = max 0 (py_trunc (mt * sg_max_swap_ratio cfg) - ms_swap_total snapshot),
          gp_disk_cap_bytes = max 0 (disk_available - reserve),
          gp_fs_supported = fs_allowed cfg fstype,
          gp_swap_cannot_help = (deficit \<noteq> 0 \<and> movable_anon snapshot < deficit),
          gp_snapshot = snapshot, gp_disk_reserve_bytes = reserve\<rparr>)"

definition plan_growth ::
  "real \<Rightarrow> swap_ctl \<Rightarrow> mem_snapshot \<Rightarrow> int \<Rightarrow> int \<Rightarrow> string \<Rightarrow> growth_plan" where
  "plan_growth now c snapshot0 disk_total disk_available fstype =
     (let snapshot = worst_recent now c snapshot0;
          b = growth_base (sc_cfg c) snapshot disk_total disk_available fstype;
          grow = min (gp_step_bytes b) (min (gp_ratio_cap_bytes b) (gp_disk_cap_bytes b))
      in if \<not> sg_enabled (sc_cfg c) then b\<lparr>gp_reason := GrowthDisabled\<rparr>
         else if ms_mem_total snapshot \<le> 0 then b\<lparr>gp_reason := MeminfoUnavailable\<rparr>
         else case growth_trigger c snapshot of
             Inl refusal \<Rightarrow> b\<lparr>gp_reason := refusal\<rparr>
           | Inr trigger \<Rightarrow>
               if \<not> gp_fs_supported b
               then b\<lparr>gp_reason := if fstype \<in> set conditional_growth_fs then FsNeedsNodatacow else FsUnsupported\<rparr>
               else if grow \<le> 0
               then b\<lparr>gp_reason := if gp_ratio_cap_bytes b \<le> 0 then RatioCapReached else DiskReserveNotMet\<rparr>
               else b\<lparr>gp_should_grow := True, gp_grow_bytes := grow, gp_reason := trigger\<rparr>)"

subsection \<open>Managed files\<close>

definition is_managed_name :: "string \<Rightarrow> bool" where
  \<comment> \<open>\<open>MANAGED_NAME_RE\<close>: \<open>^swap-(\d{2,})\.img$\<close>\<close>
  "is_managed_name n \<longleftrightarrow>
     startswith n ''swap-'' \<and> length n \<ge> 11 \<and> drop (length n - 4) n = ''.img''
     \<and> list_all is_digit (drop 5 (take (length n - 4) n))"

definition managed_index :: "string \<Rightarrow> nat" where
  "managed_index n = nat_of_digits (drop 5 (take (length n - 4) n))"

definition managed_name :: "nat \<Rightarrow> string" where
  \<comment> \<open>\<open>"swap-%02d.img" % i\<close>\<close>
  "managed_name i = ''swap-'' @ (if i < 10 then CHR ''0'' # show_nat i else show_nat i) @ ''.img''"

definition managed_files_on_disk :: "string list option \<Rightarrow> string list" where
  \<comment> \<open>names in the managed directory; the code joins the directory to each\<close>
  "managed_files_on_disk listing =
     (case listing of None \<Rightarrow> [] | Some names \<Rightarrow> sort (filter is_managed_name names))"

definition path_split :: "string \<Rightarrow> string \<times> string" where
  \<comment> \<open>\<open>os.path.split\<close>: everything after the last slash is the tail\<close>
  "path_split p =
     (let tail = rev (takeWhile (\<lambda>c. c \<noteq> CHR ''/'') (rev p));
          head = take (length p - length tail) p
      in (if list_all (\<lambda>c. c = CHR ''/'') head then head else rstrip_slash head, tail))"

definition managed_devices :: "string \<Rightarrow> swap_device list \<Rightarrow> swap_device list" where
  "managed_devices directory devices =
     filter (\<lambda>d. case path_split (sd_path d) of (head, tail) \<Rightarrow> head = directory \<and> is_managed_name tail) devices"

function first_unused :: "nat \<Rightarrow> nat list \<Rightarrow> nat" where
  "first_unused i used = (if i \<in> set used then first_unused (Suc i) used else i)"
  by pat_completeness auto
termination
proof (relation "measure (\<lambda>(i, used). card {k \<in> set used. i \<le> k})", goal_cases)
  case 1
  show ?case by (rule wf_measure)
next
  case (2 i used)
  then have "i \<in> {k \<in> set used. i \<le> k} - {k \<in> set used. Suc i \<le> k}" by simp
  moreover have "{k \<in> set used. Suc i \<le> k} \<subseteq> {k \<in> set used. i \<le> k}" by auto
  ultimately have "{k \<in> set used. Suc i \<le> k} \<subset> {k \<in> set used. i \<le> k}" by blast
  then have "card {k \<in> set used. Suc i \<le> k} < card {k \<in> set used. i \<le> k}"
    by (rule psubset_card_mono [rotated]) simp
  then show ?case by (simp only: in_measure prod.case)
qed

declare first_unused.simps [simp del]

definition next_managed_name :: "string list option \<Rightarrow> string" where
  "next_managed_name listing = managed_name (first_unused 1 (map managed_index (managed_files_on_disk listing)))"

definition should_shrink :: "real \<Rightarrow> swap_ctl \<Rightarrow> swap_device list \<Rightarrow> bool" where
  "should_shrink now c devices \<longleftrightarrow>
     managed_devices (sg_path (sc_cfg c)) devices \<noteq> [] \<and> relaxed_for now c \<ge> shrink_idle_sec"

subsection \<open>Lemmas on planning\<close>

lemma worst_recent_totals [simp]:
  "ms_mem_total (worst_recent now c s) = ms_mem_total s"
  "ms_swap_total (worst_recent now c s) = ms_swap_total s"
  by (simp_all add: worst_recent_def Let_def)

lemma worst_recent_le:
  "ms_mem_available (worst_recent now c s) \<le> ms_mem_available s"
  "ms_swap_free (worst_recent now c s) \<le> ms_swap_free s"
  by (simp_all add: worst_recent_def Let_def)

lemma worst_recent_window:
  assumes "(t, x) \<in> set (sc_window c)" "t \<ge> now - sg_pressure_window_sec (sc_cfg c)"
  shows "ms_mem_available (worst_recent now c s) \<le> ms_mem_available x"
    "ms_swap_free (worst_recent now c s) \<le> ms_swap_free x"
proof -
  let ?f = "filter (\<lambda>(t, _). t \<ge> now - sg_pressure_window_sec (sc_cfg c)) (sc_window c)"
  have mem: "(t, x) \<in> set ?f" using assms by simp
  then have ne: "map snd ?f \<noteq> []" by (metis empty_iff list.set(1) map_is_Nil_conv)
  have x: "ms_mem_available x \<in> set (map ms_mem_available (map snd ?f))"
    "ms_swap_free x \<in> set (map ms_swap_free (map snd ?f))" using mem by force+
  have "worst_recent now c s = s\<lparr>ms_mem_available := Min (set (ms_mem_available s # map ms_mem_available (map snd ?f))),
      ms_swap_free := Min (set (ms_swap_free s # map ms_swap_free (map snd ?f)))\<rparr>"
    using ne by (simp add: worst_recent_def Let_def del: filter_empty_conv)
  then show "ms_mem_available (worst_recent now c s) \<le> ms_mem_available x"
    "ms_swap_free (worst_recent now c s) \<le> ms_swap_free x"
    using x by (simp_all del: set_map set_filter)
qed

lemma growth_base_start:
  "\<not> gp_should_grow (growth_base cfg s dt da fs)" "gp_fs_supported (growth_base cfg s dt da fs) = fs_allowed cfg fs"
  by (simp_all add: growth_base_def Let_def)

lemma growth_base_sizes:
  "gp_step_bytes (growth_base cfg s dt da fs) = py_trunc (of_int (ms_mem_total s) * sg_step_ratio cfg)"
  "gp_ratio_cap_bytes (growth_base cfg s dt da fs)
     = max 0 (py_trunc (of_int (ms_mem_total s) * sg_max_swap_ratio cfg) - ms_swap_total s)"
  "gp_disk_reserve_bytes (growth_base cfg s dt da fs)
     = max (py_trunc (of_int dt * sg_disk_reserve_pct cfg / 100)) (py_trunc (sg_disk_reserve_min_gb cfg * of_int gib))"
  "gp_disk_cap_bytes (growth_base cfg s dt da fs) = max 0 (da - gp_disk_reserve_bytes (growth_base cfg s dt da fs))"
  by (simp_all add: growth_base_def Let_def)

lemma plan_growth_base:
  "gp_step_bytes (plan_growth now c s dt da fs) = gp_step_bytes (growth_base (sc_cfg c) (worst_recent now c s) dt da fs)"
  "gp_ratio_cap_bytes (plan_growth now c s dt da fs) = gp_ratio_cap_bytes (growth_base (sc_cfg c) (worst_recent now c s) dt da fs)"
  "gp_disk_reserve_bytes (plan_growth now c s dt da fs) = gp_disk_reserve_bytes (growth_base (sc_cfg c) (worst_recent now c s) dt da fs)"
  "gp_disk_cap_bytes (plan_growth now c s dt da fs) = gp_disk_cap_bytes (growth_base (sc_cfg c) (worst_recent now c s) dt da fs)"
  by (simp_all add: plan_growth_def Let_def split: sum.split)

lemma plan_growth_fields:
  "gp_step_bytes (plan_growth now c s dt da fs) = py_trunc (of_int (ms_mem_total s) * sg_step_ratio (sc_cfg c))"
  "gp_ratio_cap_bytes (plan_growth now c s dt da fs)
     = max 0 (py_trunc (of_int (ms_mem_total s) * sg_max_swap_ratio (sc_cfg c)) - ms_swap_total s)"
  "gp_disk_reserve_bytes (plan_growth now c s dt da fs)
     = max (py_trunc (of_int dt * sg_disk_reserve_pct (sc_cfg c) / 100)) (py_trunc (sg_disk_reserve_min_gb (sc_cfg c) * of_int gib))"
  "gp_disk_cap_bytes (plan_growth now c s dt da fs) = max 0 (da - gp_disk_reserve_bytes (plan_growth now c s dt da fs))"
  unfolding plan_growth_base growth_base_sizes by simp_all

lemma plan_growth_grows_iff:
  "gp_should_grow (plan_growth now c s dt da fs) \<longleftrightarrow>
     sg_enabled (sc_cfg c) \<and> ms_mem_total s > 0 \<and> fs_allowed (sc_cfg c) fs
     \<and> (\<exists>tr. growth_trigger c (worst_recent now c s) = Inr tr)
     \<and> 0 < min (gp_step_bytes (plan_growth now c s dt da fs))
            (min (gp_ratio_cap_bytes (plan_growth now c s dt da fs)) (gp_disk_cap_bytes (plan_growth now c s dt da fs)))"
  unfolding plan_growth_base unfolding plan_growth_def Let_def
  by (auto simp: growth_base_start not_le split: sum.split)

lemma plan_growth_bytes:
  "gp_should_grow (plan_growth now c s dt da fs) \<Longrightarrow> gp_grow_bytes (plan_growth now c s dt da fs)
     = min (gp_step_bytes (plan_growth now c s dt da fs))
            (min (gp_ratio_cap_bytes (plan_growth now c s dt da fs)) (gp_disk_cap_bytes (plan_growth now c s dt da fs)))"
  unfolding plan_growth_base unfolding plan_growth_def Let_def
  by (auto simp: growth_base_start not_le split: sum.splits if_split_asm)

lemma used_fraction_antimono:
  assumes "ms_mem_total a = ms_mem_total b" "ms_mem_available a \<le> ms_mem_available b" "0 \<le> ms_mem_total a"
  shows "used_fraction b \<le> used_fraction a"
proof -
  have "used_effective b \<le> used_effective a" using assms by (auto simp: used_effective_def)
  then show ?thesis using assms by (simp add: used_fraction_def divide_right_mono)
qed

lemma swap_free_fraction_mono:
  assumes "ms_swap_total a = ms_swap_total b" "ms_swap_free a \<le> ms_swap_free b" "0 \<le> ms_swap_total a"
  shows "swap_free_fraction a \<le> swap_free_fraction b"
  using assms by (simp add: swap_free_fraction_def divide_right_mono)

definition level_arm :: "swap_cfg \<Rightarrow> mem_snapshot \<Rightarrow> bool" where
  \<comment> \<open>the two level-based growth conditions of the module's header\<close>
  "level_arm cfg s \<longleftrightarrow> swap_free_fraction s \<le> sg_grow_swap_critical cfg
     \<or> (used_fraction s \<ge> sg_grow_mem_watermark cfg \<and> swap_free_fraction s \<le> sg_grow_swap_watermark cfg)"

lemma growth_trigger_iff:
  "(\<exists>tr. growth_trigger c s = Inr tr) \<longleftrightarrow> level_arm (sc_cfg c) s \<or> swap_draining c s"
  by (auto simp: growth_trigger_def level_arm_def swap_exhausted_def swap_draining_def)

lemma level_arm_mono:
  assumes "level_arm cfg x" "ms_mem_total a = ms_mem_total x" "ms_swap_total a = ms_swap_total x"
    and "ms_mem_available a \<le> ms_mem_available x" "ms_swap_free a \<le> ms_swap_free x"
    and "0 \<le> ms_mem_total x" "0 \<le> ms_swap_total x"
  shows "level_arm cfg a"
  using assms used_fraction_antimono [of a x] swap_free_fraction_mono [of a x]
  by (auto simp: level_arm_def)

subsection \<open>The shrink timer over a history of samples\<close>

fun sample_run :: "(real \<times> mem_snapshot) list \<Rightarrow> swap_ctl \<Rightarrow> swap_ctl" where
  "sample_run [] c = c"
| "sample_run ((t, s) # rest) c = sample_run rest (swap_sample t s c)"

lemma sample_run_snoc: "sample_run (xs @ [(t, s)]) c = swap_sample t s (sample_run xs c)"
  by (induction xs arbitrary: c) auto

lemma swap_sample_cfg [simp]: "sc_cfg (swap_sample t s c) = sc_cfg c"
  by (simp add: swap_sample_def Let_def)

lemma sample_run_cfg [simp]: "sc_cfg (sample_run xs c) = sc_cfg c"
  by (induction xs arbitrary: c) auto

lemma relaxed_history:
  assumes "sc_relaxed_since (sample_run xs c) = Some t0" "sc_relaxed_since c = None"
    and "sorted (map fst xs)"
  shows "\<exists>s. (t0, s) \<in> set xs \<and> (\<forall>(t, s)\<in>set xs. t > t0 \<and> ms_mem_total s > 0
           \<longrightarrow> used_fraction s < shrink_watermark (sc_cfg c))"
  using assms
proof (induction xs rule: rev_induct)
  case (snoc x xs)
  obtain t s where x: "x = (t, s)" by fastforce
  let ?c = "sample_run xs c"
  have run: "sample_run (xs @ [x]) c = swap_sample t s ?c" by (simp add: x sample_run_snoc)
  have srt: "sorted (map fst xs)" "\<forall>y\<in>set xs. fst y \<le> t" using snoc.prems(3) x by (auto simp: sorted_append)
  show ?case
  proof (cases "ms_mem_total s \<le> 0")
    case True
    then have "sc_relaxed_since ?c = Some t0" using snoc.prems(1) unfolding run by (simp add: swap_sample_def)
    with snoc.IH [OF _ snoc.prems(2) srt(1)] True show ?thesis by (auto simp: x)
  next
    case False
    then have rel: "used_fraction s < shrink_watermark (sc_cfg c)"
      and since: "sc_relaxed_since ?c = Some t0 \<or> (sc_relaxed_since ?c = None \<and> t0 = t)"
      using snoc.prems(1) unfolding run by (auto simp: swap_sample_def Let_def split: if_splits option.splits)
    show ?thesis
    proof (cases "sc_relaxed_since ?c = Some t0")
      case True
      with snoc.IH [OF _ snoc.prems(2) srt(1)] rel show ?thesis by (auto simp: x)
    next
      case False
      with since have "t0 = t" by simp
      with srt(2) show ?thesis by (force simp: x)
    qed
  qed
qed simp

subsection \<open>Properties\<close>

text \<open>a growth plan that says grow stays within every limit: growth is enabled, the filesystem
  is one the operator allowed and the code knows to be safe, the step is positive and at most the
  configured share of memory, total swap afterwards is at most the configured multiple of memory,
  and the disk keeps at least the reserve.\<close>
theorem plan_growth_within_caps:
  assumes "gp_should_grow (plan_growth now c s disk_total disk_available fstype)"
    and "0 \<le> sg_max_swap_ratio (sc_cfg c)" "0 \<le> sg_step_ratio (sc_cfg c)"
  defines "p \<equiv> plan_growth now c s disk_total disk_available fstype"
  shows "sg_enabled (sc_cfg c) \<and> (fstype = ''ext4'' \<or> fstype = ''xfs'') \<and> fs_allowed (sc_cfg c) fstype
    \<and> 0 < gp_grow_bytes p \<and> of_int (gp_grow_bytes p) \<le> of_int (ms_mem_total s) * sg_step_ratio (sc_cfg c)
    \<and> of_int (ms_swap_total s + gp_grow_bytes p) \<le> of_int (ms_mem_total s) * sg_max_swap_ratio (sc_cfg c)
    \<and> disk_available - gp_grow_bytes p \<ge> gp_disk_reserve_bytes p"
proof -
  note grows = assms(1) [unfolded plan_growth_grows_iff]
  note bytes = plan_growth_bytes [OF assms(1)]
  have m: "0 \<le> real_of_int (ms_mem_total s)" using grows by simp
  have r: "of_int (py_trunc (of_int (ms_mem_total s) * sg_max_swap_ratio (sc_cfg c)))
      \<le> of_int (ms_mem_total s) * sg_max_swap_ratio (sc_cfg c)"
    "of_int (py_trunc (of_int (ms_mem_total s) * sg_step_ratio (sc_cfg c)))
      \<le> of_int (ms_mem_total s) * sg_step_ratio (sc_cfg c)"
    using py_trunc_nonneg mult_nonneg_nonneg [OF m assms(2)] mult_nonneg_nonneg [OF m assms(3)] by blast+
  have pos: "0 < gp_grow_bytes p" using grows bytes unfolding p_def by linarith
  have lim: "gp_grow_bytes p \<le> py_trunc (of_int (ms_mem_total s) * sg_step_ratio (sc_cfg c))"
    "gp_grow_bytes p \<le> max 0 (py_trunc (of_int (ms_mem_total s) * sg_max_swap_ratio (sc_cfg c)) - ms_swap_total s)"
    "gp_grow_bytes p \<le> max 0 (disk_available - gp_disk_reserve_bytes p)"
    using bytes unfolding p_def plan_growth_fields by linarith+
  have fs: "fstype = ''ext4'' \<or> fstype = ''xfs''"
    using grows by (auto simp: fs_allowed_def dynamic_growth_fs_def)
  have "of_int (gp_grow_bytes p) \<le> of_int (ms_mem_total s) * sg_step_ratio (sc_cfg c)"
    using lim(1) r(2) by linarith
  moreover have "of_int (ms_swap_total s + gp_grow_bytes p) \<le> of_int (ms_mem_total s) * sg_max_swap_ratio (sc_cfg c)"
    using lim(2) pos r(1) by linarith
  moreover have "disk_available - gp_grow_bytes p \<ge> gp_disk_reserve_bytes p"
    using lim(3) pos by linarith
  ultimately show ?thesis using grows pos fs by blast
qed

definition demo_ctl :: swap_ctl where
  "demo_ctl = \<lparr>sc_cfg = swap_growth_defaults\<lparr>sg_enabled := True\<rparr>, sc_window = [], sc_relaxed_since = None\<rparr>"

definition demo_snap :: mem_snapshot where
  "demo_snap = \<lparr>ms_mem_total = 16 * gib, ms_mem_free = 0, ms_mem_available = gib, ms_anon_pages = 12 * gib,
     ms_swap_total = 4 * gib, ms_swap_free = gib\<rparr>"

lemma demo_plan:
  "gp_should_grow (plan_growth 0 demo_ctl demo_snap (500 * gib) (200 * gib) ''ext4'')"
proof -
  have "fs_allowed (sc_cfg demo_ctl) ''ext4''"
    by (simp add: fs_allowed_def demo_ctl_def swap_growth_defaults_def dynamic_growth_fs_def)
  moreover have "worst_recent 0 demo_ctl demo_snap = demo_snap" by (simp add: worst_recent_def demo_ctl_def)
  moreover have "growth_trigger demo_ctl demo_snap = Inr BothWatermarks"
    by (simp add: growth_trigger_def swap_exhausted_def swap_draining_def swap_eta_def window_span_def demo_ctl_def
        demo_snap_def swap_growth_defaults_def swap_free_fraction_def used_fraction_def used_effective_def gib_def)
  ultimately show ?thesis
    unfolding plan_growth_grows_iff plan_growth_fields
    by (simp add: demo_ctl_def demo_snap_def swap_growth_defaults_def py_trunc_def gib_def)
qed

theorem plan_growth_within_caps_witness:
  "200 * gib - gp_grow_bytes (plan_growth 0 demo_ctl demo_snap (500 * gib) (200 * gib) ''ext4'')
     \<ge> gp_disk_reserve_bytes (plan_growth 0 demo_ctl demo_snap (500 * gib) (200 * gib) ''ext4'')"
  using plan_growth_within_caps [OF demo_plan] by (simp add: demo_ctl_def swap_growth_defaults_def)

text \<open>C5: troughs are not missed. When growth is enabled, the filesystem supported and there is room,
  the plan grows if any sample of the recent window, or the instant, crossed a level condition (swap
  at its critical level, or both watermarks), even if the instant reading looks healthy again.\<close>
theorem plan_growth_sees_troughs:
  assumes "sg_enabled (sc_cfg c)" "fs_allowed (sc_cfg c) fstype" "0 < ms_mem_total s"
    and "x = s \<or> (\<exists>t. (t, x) \<in> set (sc_window c) \<and> t \<ge> now - sg_pressure_window_sec (sc_cfg c))"
    and "ms_mem_total x = ms_mem_total s" "ms_swap_total x = ms_swap_total s" "0 \<le> ms_swap_total s"
    and "level_arm (sc_cfg c) x"
    and "0 < gp_step_bytes (plan_growth now c s dt da fstype)"
      "0 < gp_ratio_cap_bytes (plan_growth now c s dt da fstype)"
      "0 < gp_disk_cap_bytes (plan_growth now c s dt da fstype)"
  shows "gp_should_grow (plan_growth now c s dt da fstype)"
proof -
  let ?w = "worst_recent now c s"
  have le: "ms_mem_available ?w \<le> ms_mem_available x" "ms_swap_free ?w \<le> ms_swap_free x"
    using assms(4) worst_recent_le worst_recent_window by blast+
  have "level_arm (sc_cfg c) ?w"
    by (rule level_arm_mono [OF assms(8) _ _ le]) (use assms in simp_all)
  then obtain tr where tr: "growth_trigger c ?w = Inr tr" using growth_trigger_iff by blast
  from assms(1,2,3) tr assms(9-11) show ?thesis unfolding plan_growth_grows_iff by simp
qed

theorem plan_growth_sees_troughs_witness:
  "gp_should_grow (plan_growth 10 (demo_ctl\<lparr>sc_window := [(5, demo_snap)]\<rparr>)
     (demo_snap\<lparr>ms_mem_available := 12 * gib, ms_swap_free := 4 * gib\<rparr>) (500 * gib) (200 * gib) ''ext4'')"
proof (rule plan_growth_sees_troughs [where x = demo_snap])
  show "level_arm (sc_cfg (demo_ctl\<lparr>sc_window := [(5, demo_snap)]\<rparr>)) demo_snap"
    by (simp add: level_arm_def demo_ctl_def demo_snap_def swap_growth_defaults_def swap_free_fraction_def
        used_fraction_def used_effective_def gib_def)
qed (simp_all add: plan_growth_fields demo_ctl_def demo_snap_def swap_growth_defaults_def
      fs_allowed_def dynamic_growth_fs_def py_trunc_def gib_def)

text \<open>shrinking waits for a truly calm machine. When \<open>should_shrink\<close> allows a release at \<open>now\<close>
  after any run of samples in time order from a fresh controller, there is a sample at least 600
  seconds old since which every valid sample was below the shrink watermark, and a sample below that
  watermark can never be one at which the memory watermark for growth is met.\<close>
theorem shrink_needs_sustained_calm:
  assumes "should_shrink now (sample_run xs c) devices"
    and "sc_relaxed_since c = None" and "sorted (map fst xs)"
  shows "\<exists>t0 s0. (t0, s0) \<in> set xs \<and> now - t0 \<ge> shrink_idle_sec
     \<and> (\<forall>(t, s)\<in>set xs. t > t0 \<and> ms_mem_total s > 0 \<longrightarrow> used_fraction s < shrink_watermark (sc_cfg c)
          \<and> used_fraction s < max 0 (sg_grow_mem_watermark (sc_cfg c)))"
proof -
  from assms(1) obtain t0 where t0: "sc_relaxed_since (sample_run xs c) = Some t0" "now - t0 \<ge> shrink_idle_sec"
    by (auto simp: should_shrink_def relaxed_for_def swap_consts split: option.splits)
  have wm: "shrink_watermark (sc_cfg c) \<le> max 0 (sg_grow_mem_watermark (sc_cfg c))"
    by (simp add: shrink_watermark_def swap_consts)
  from relaxed_history [OF t0(1) assms(2,3)] t0(2) wm show ?thesis by fastforce
qed

theorem shrink_needs_sustained_calm_witness:
  "should_shrink 700 (sample_run [(0, demo_snap\<lparr>ms_mem_available := 12 * gib\<rparr>)] demo_ctl)
     [\<lparr>sd_path = ''/var/lib/smartune/swap/swap-01.img'', sd_kind = ''file'', sd_size_bytes = 1,
       sd_used_bytes = 0, sd_priority = 0\<rparr>]
   \<and> (\<exists>t0 s0. (t0, s0) \<in> set [(0, demo_snap\<lparr>ms_mem_available := 12 * gib\<rparr>)] \<and> 700 - t0 \<ge> shrink_idle_sec)"
proof -
  let ?dev = "[\<lparr>sd_path = ''/var/lib/smartune/swap/swap-01.img'', sd_kind = ''file'', sd_size_bytes = 1,
       sd_used_bytes = 0, sd_priority = 0\<rparr>]"
  have m: "managed_devices ''/var/lib/smartune/swap'' ?dev \<noteq> []"
    by (simp add: managed_devices_def path_split_def is_managed_name_def startswith_def is_digit_def Let_def)
  have sh: "should_shrink 700 (sample_run [(0, demo_snap\<lparr>ms_mem_available := 12 * gib\<rparr>)] demo_ctl) ?dev"
    using m by (simp add: should_shrink_def relaxed_for_def swap_sample_def demo_ctl_def demo_snap_def
        swap_growth_defaults_def shrink_watermark_def used_fraction_def used_effective_def swap_consts)
  from shrink_needs_sustained_calm [OF sh] sh show ?thesis by (fastforce simp: demo_ctl_def)
qed

end
