(* ===== verification/Swap_Exec.thy ===== *)
theory Swap_Exec
  imports Swap "HOL-Library.AList"
begin

text \<open>
  The half of \<open>balancer/controller/swap.py\<close> that acts: \<open>_try_make_swap\<close>, \<open>grow\<close>, \<open>release\<close>,
  \<open>plan_zswap\<close> and \<open>apply_zswap\<close>. The world is the active swap table and the file names in the managed
  directory. The command runner (\<open>mkswap\<close>, \<open>swapon\<close>, \<open>swapoff\<close>) is an argument, a function from the
  argument vector and the world to an exit code and a new world; what the code relies on (\<open>runner_ok\<close>)
  is that the commands create and remove no file and that a \<open>swapoff\<close> touches the active table only.
  Which allocations and removals the filesystem lets through is the record \<open>fs_env\<close>.
\<close>

subsection \<open>The world\<close>

record swap_world =
  sw_devices :: "swap_device list"         \<comment> \<open>the kernel's swap table\<close>
  sw_readable :: bool                      \<comment> \<open>\<open>/proc/swaps\<close> can be read\<close>
  sw_files :: "string list"                \<comment> \<open>names in the managed directory\<close>
  sw_listable :: bool                      \<comment> \<open>\<open>os.listdir\<close> works\<close>

type_synonym runner = "string list \<Rightarrow> swap_world \<Rightarrow> int \<times> swap_world"

datatype alloc_result = AllocOk | AllocRefused | AllocPartial

record fs_env =
  fe_alloc :: "string \<Rightarrow> string \<Rightarrow> int \<Rightarrow> alloc_result"  \<comment> \<open>allocator, path, size\<close>
  fe_remove :: "string \<Rightarrow> bool"
  fe_makedirs :: bool
  fe_fstype :: string
  fe_available :: int

datatype allocator = Fallocate | WriteZeros

fun allocator_name :: "allocator \<Rightarrow> string" where
  "allocator_name Fallocate = ''fallocate''"
| "allocator_name WriteZeros = ''write''"

datatype action_reason =
    NotPlanned grow_reason | FsNotAllowed | DiskShrank | DryGrow | CannotPrepare | Added | CouldNotBringUp
  | Deferred | InUse | UnsafeHeadroom | DrySwapoff | SwapoffFailed int | Released
  | OrphanRemoved | DryOrphan

record action_result =
  ar_ok :: bool
  ar_dry_run :: bool
  ar_reason :: action_reason
  ar_path :: string
  ar_bytes :: int
  ar_allocator :: "allocator option"

definition path_join :: "string \<Rightarrow> string \<Rightarrow> string" where
  "path_join d n = d @ ''/'' @ n"

definition listing :: "swap_world \<Rightarrow> string list option" where
  "listing w = (if sw_listable w then Some (sw_files w) else None)"

definition active_devices :: "swap_world \<Rightarrow> swap_device list" where
  "active_devices w = (if sw_readable w then sw_devices w else [])"

definition discard :: "fs_env \<Rightarrow> string \<Rightarrow> string \<Rightarrow> swap_world \<Rightarrow> swap_world" where
  \<comment> \<open>\<open>_discard\<close>: an OSError from the removal is swallowed\<close>
  "discard env dir path w =
     (if fe_remove env path then w\<lparr>sw_files := filter (\<lambda>n. path_join dir n \<noteq> path) (sw_files w)\<rparr> else w)"

subsection \<open>Growing\<close>

definition remove_existing :: "fs_env \<Rightarrow> string \<Rightarrow> string \<Rightarrow> swap_world \<Rightarrow> swap_world option" where
  \<comment> \<open>\<open>if os.path.exists(path): os.remove(path)\<close>; None is the OSError\<close>
  "remove_existing env dir name w =
     (if name \<in> set (sw_files w)
      then if fe_remove env (path_join dir name) then Some (w\<lparr>sw_files := filter (\<lambda>n. n \<noteq> name) (sw_files w)\<rparr>) else None
      else Some w)"

definition allocate :: "fs_env \<Rightarrow> string \<Rightarrow> string \<Rightarrow> int \<Rightarrow> allocator \<Rightarrow> swap_world \<Rightarrow> bool \<times> swap_world" where
  \<comment> \<open>\<open>_allocate\<close>: \<open>O_EXCL\<close> refuses an existing file; a failure after the open leaves the file behind\<close>
  "allocate env dir name sz a w =
     (if name \<in> set (sw_files w) then (False, w)
      else case fe_alloc env (allocator_name a) (path_join dir name) sz of
             AllocOk \<Rightarrow> (True, w\<lparr>sw_files := name # sw_files w\<rparr>)
           | AllocRefused \<Rightarrow> (False, w)
           | AllocPartial \<Rightarrow> (False, w\<lparr>sw_files := name # sw_files w\<rparr>))"

definition try_make_swap ::
  "runner \<Rightarrow> fs_env \<Rightarrow> string \<Rightarrow> string \<Rightarrow> int \<Rightarrow> allocator \<Rightarrow> swap_world \<Rightarrow> bool \<times> swap_world" where
  "try_make_swap run env dir name sz a w =
     (let path = path_join dir name in
      case remove_existing env dir name w of
        None \<Rightarrow> (False, discard env dir path w)
      | Some w1 \<Rightarrow>
          (case allocate env dir name sz a w1 of
             (False, w2) \<Rightarrow> (False, discard env dir path w2)
           | (True, w2) \<Rightarrow>
               (case run [''mkswap'', path] w2 of (code, w3) \<Rightarrow>
                  if code \<noteq> 0 then (False, discard env dir path w3)
                  else (case run [''swapon'', path] w3 of (code, w4) \<Rightarrow>
                          if code \<noteq> 0 then (False, discard env dir path w4) else (True, w4)))))"

fun try_allocators ::
  "runner \<Rightarrow> fs_env \<Rightarrow> string \<Rightarrow> string \<Rightarrow> int \<Rightarrow> allocator list \<Rightarrow> swap_world \<Rightarrow> allocator option \<times> swap_world" where
  "try_allocators run env dir name sz [] w = (None, w)"
| "try_allocators run env dir name sz (a # rest) w =
     (case try_make_swap run env dir name sz a w of
        (True, w') \<Rightarrow> (Some a, w')
      | (False, w') \<Rightarrow> try_allocators run env dir name sz rest w')"

definition grow :: "runner \<Rightarrow> fs_env \<Rightarrow> swap_cfg \<Rightarrow> growth_plan \<Rightarrow> bool \<Rightarrow> swap_world \<Rightarrow> action_result \<times> swap_world" where
  "grow run env cfg plan dry_run w =
     (let res = (\<lambda>ok reason path al. \<lparr>ar_ok = ok, ar_dry_run = dry_run, ar_reason = reason, ar_path = path,
                    ar_bytes = gp_grow_bytes plan, ar_allocator = al\<rparr>);
          dir = sg_path cfg
      in if \<not> gp_should_grow plan then (res False (NotPlanned (gp_reason plan)) [] None, w)
         else if \<not> fs_allowed cfg (fe_fstype env) then (res False FsNotAllowed [] None, w)
         else if fe_available env - gp_disk_reserve_bytes plan < gp_grow_bytes plan then (res False DiskShrank [] None, w)
         else let name = next_managed_name (listing w); path = path_join dir name
              in if dry_run then (res True DryGrow path None, w)
                 else if \<not> fe_makedirs env then (res False CannotPrepare path None, w)
                 else case try_allocators run env dir name (gp_grow_bytes plan) [Fallocate, WriteZeros] w of
                        (Some a, w') \<Rightarrow> (res True Added path (Some a), w')
                      | (None, w') \<Rightarrow> (res False CouldNotBringUp path None, w'))"

subsection \<open>Releasing\<close>

definition needed_bytes :: "swap_device \<Rightarrow> int" where
  "needed_bytes d = py_trunc (of_int (sd_used_bytes d) * swapoff_headroom_ratio)"

fun release_loop ::
  "runner \<Rightarrow> fs_env \<Rightarrow> string \<Rightarrow> bool \<Rightarrow> bool \<Rightarrow> nat option \<Rightarrow> swap_device list \<Rightarrow> int \<Rightarrow> nat \<Rightarrow> swap_world
     \<Rightarrow> action_result list \<times> swap_world" where
  "release_loop run env dir dry only_unused limit [] headroom released w = ([], w)"
| "release_loop run env dir dry only_unused limit (d # ds) headroom released w =
     (let res = (\<lambda>ok reason. \<lparr>ar_ok = ok, ar_dry_run = dry, ar_reason = reason, ar_path = sd_path d,
                    ar_bytes = sd_used_bytes d, ar_allocator = None\<rparr>);
          needed = needed_bytes d;
          go = (\<lambda>r h n w. case release_loop run env dir dry only_unused limit ds h n w of (rs, w') \<Rightarrow> (r # rs, w'))
      in if (case limit of None \<Rightarrow> False | Some l \<Rightarrow> released \<ge> l) then go (res False Deferred) headroom released w
         else if only_unused \<and> sd_used_bytes d > 0 then go (res False InUse) headroom released w
         else if headroom < needed then go (res False UnsafeHeadroom) headroom released w
         else if dry then go (res True DrySwapoff) (headroom - needed) (Suc released) w
         else case run [''swapoff'', sd_path d] w of (code, w1) \<Rightarrow>
                if code \<noteq> 0 then go (res False (SwapoffFailed code)) headroom released w1
                else go (res True Released) (headroom - needed) (Suc released) (discard env dir (sd_path d) w1))"

fun remove_orphans ::
  "fs_env \<Rightarrow> string \<Rightarrow> bool \<Rightarrow> string list \<Rightarrow> string list \<Rightarrow> swap_world \<Rightarrow> action_result list \<times> swap_world" where
  "remove_orphans env dir dry still_active [] w = ([], w)"
| "remove_orphans env dir dry still_active (n # ns) w =
     (if path_join dir n \<in> set still_active then remove_orphans env dir dry still_active ns w
      else let r = \<lparr>ar_ok = True, ar_dry_run = dry, ar_reason = (if dry then DryOrphan else OrphanRemoved),
                     ar_path = path_join dir n, ar_bytes = 0, ar_allocator = None\<rparr>
           in case remove_orphans env dir dry still_active ns (if dry then w else discard env dir (path_join dir n) w)
              of (rs, w') \<Rightarrow> (r # rs, w'))"

definition release ::
  "runner \<Rightarrow> fs_env \<Rightarrow> swap_cfg \<Rightarrow> bool \<Rightarrow> mem_snapshot \<Rightarrow> bool \<Rightarrow> nat option \<Rightarrow> swap_world
     \<Rightarrow> action_result list \<times> swap_world" where
  "release run env cfg dry snapshot only_unused limit w =
     (let dir = sg_path cfg;
          active = sort_key sd_used_bytes (managed_devices dir (active_devices w))
      in case release_loop run env dir dry only_unused limit active (ms_mem_available snapshot) 0 w of
           (rs, w1) \<Rightarrow>
             let still = map sd_path (if dry then active else managed_devices dir (active_devices w1))
             in case remove_orphans env dir dry still (managed_files_on_disk (listing w1)) w1 of
                  (os, w2) \<Rightarrow> (rs @ os, w2))"

subsection \<open>zswap\<close>

definition show_int :: "int \<Rightarrow> string" where
  "show_int i = (if i < 0 then CHR ''-'' # show_nat (nat (- i)) else show_nat (nat i))"

definition zswap_keys :: "string list" where
  "zswap_keys = [''compressor'', ''max_pool_percent'', ''enabled'']"

definition zswap_wanted :: "swap_cfg \<Rightarrow> string \<Rightarrow> string" where
  "zswap_wanted cfg key =
     (if key = ''compressor'' then sg_zswap_compressor cfg
      else if key = ''max_pool_percent'' then show_int (sg_zswap_pool_percent cfg) else ''Y'')"

datatype zswap_reason = ZswapUnavailable | ZswapDisabled | ZswapAsConfigured | ZswapPending
  | ZswapWriteFailed string | ZswapDry | ZswapApplied

definition plan_zswap :: "swap_cfg \<Rightarrow> (string \<times> string) list \<Rightarrow> zswap_reason \<times> (string \<times> string) list" where
  \<comment> \<open>\<open>params\<close> are the readable module parameters; none is a kernel without zswap\<close>
  "plan_zswap cfg params =
     (if params = [] then (ZswapUnavailable, [])
      else if \<not> sg_zswap cfg then (ZswapDisabled, [])
      else let writes = map (\<lambda>k. (k, zswap_wanted cfg k))
                            (filter (\<lambda>k. map_of params k \<noteq> None \<and> map_of params k \<noteq> Some (zswap_wanted cfg k)) zswap_keys)
           in (if writes = [] then ZswapAsConfigured else ZswapPending, writes))"

fun write_params ::
  "(string \<Rightarrow> bool) \<Rightarrow> bool \<Rightarrow> (string \<times> string) list \<Rightarrow> (string \<times> string) list \<Rightarrow> (bool \<times> zswap_reason) \<times> (string \<times> string) list" where
  "write_params writable dry [] params = ((True, if dry then ZswapDry else ZswapApplied), params)"
| "write_params writable dry ((k, v) # rest) params =
     (if dry then write_params writable dry rest params
      else if writable k then write_params writable dry rest (AList.update k v params)
      else ((False, ZswapWriteFailed k), params))"

definition apply_zswap ::
  "(string \<Rightarrow> bool) \<Rightarrow> swap_cfg \<Rightarrow> bool \<Rightarrow> (string \<times> string) list \<Rightarrow> (bool \<times> zswap_reason) \<times> (string \<times> string) list" where
  "apply_zswap writable cfg dry params =
     (case plan_zswap cfg params of (reason, writes) \<Rightarrow>
        if writes = [] then ((True, reason), params) else write_params writable dry writes params)"

subsection \<open>Managed names are fresh and recognised\<close>

definition two_digits :: "nat \<Rightarrow> string" where
  "two_digits i = (if i < 10 then CHR ''0'' # show_nat i else show_nat i)"

lemma two_digits_props: "list_all is_digit (two_digits i)" "length (two_digits i) \<ge> 2" "nat_of_digits (two_digits i) = i"
proof -
  have z: "is_digit (CHR ''0'')" "digit_val (CHR ''0'') = 0" by (simp_all add: is_digit_def digit_val_def)
  show "list_all is_digit (two_digits i)" using show_nat_digits z by (simp add: two_digits_def)
  have "nat_of_digits (CHR ''0'' # show_nat i) = nat_of_digits (show_nat i)"
    using z by (simp add: nat_of_digits_def)
  then show "nat_of_digits (two_digits i) = i" by (simp add: two_digits_def nat_of_show)
  show "length (two_digits i) \<ge> 2"
  proof (cases "i < 10")
    case True
    then show ?thesis using show_nat_digits [of i] by (cases "show_nat i") (simp_all add: two_digits_def)
  next
    case False
    then have "show_nat i = show_nat (i div 10) @ [digit_char (i mod 10)]" by (subst show_nat.simps) simp
    moreover have "show_nat (i div 10) \<noteq> []" using show_nat_digits by simp
    ultimately show ?thesis using False by (cases "show_nat (i div 10)") (simp_all add: two_digits_def)
  qed
qed

lemma managed_name_parts: "managed_name i = ''swap-'' @ two_digits i @ ''.img''"
  by (simp add: managed_name_def two_digits_def)

lemma managed_name_ok [simp]: "is_managed_name (managed_name i)" "managed_index (managed_name i) = i"
proof -
  have "drop 5 (take (length (managed_name i) - 4) (managed_name i)) = two_digits i"
    "drop (length (managed_name i) - 4) (managed_name i) = ''.img''"
    by (simp_all add: managed_name_parts)
  then show "is_managed_name (managed_name i)" "managed_index (managed_name i) = i"
    using two_digits_props [of i]
    by (simp_all add: is_managed_name_def managed_index_def) (simp add: managed_name_parts startswith_def)
qed

lemma first_unused_fresh: "first_unused i used \<notin> set used"
  by (induction i used rule: first_unused.induct) (subst first_unused.simps, simp)

lemma next_managed_name_fresh: "next_managed_name (Some files) \<notin> set files"
proof
  let ?i = "first_unused 1 (map managed_index (managed_files_on_disk (Some files)))"
  assume "next_managed_name (Some files) \<in> set files"
  then have "managed_name ?i \<in> set (managed_files_on_disk (Some files))"
    by (simp add: next_managed_name_def managed_files_on_disk_def)
  then have "?i \<in> set (map managed_index (managed_files_on_disk (Some files)))"
    by (metis managed_name_ok(2) image_eqI set_map)
  then show False using first_unused_fresh by blast
qed

lemma next_managed_name_managed: "is_managed_name (next_managed_name l)"
  by (simp add: next_managed_name_def)

subsection \<open>What the command runner promises\<close>

definition runner_ok :: "runner \<Rightarrow> bool" where
  "runner_ok run \<longleftrightarrow> (\<forall>argv w code w'. run argv w = (code, w') \<longrightarrow>
     sw_files w' = sw_files w \<and> sw_listable w' = sw_listable w \<and> sw_readable w' = sw_readable w
     \<and> (\<forall>p. argv = [''swapoff'', p] \<longrightarrow>
          sw_devices w' = (if code = 0 then filter (\<lambda>d. sd_path d \<noteq> p) (sw_devices w) else sw_devices w)))"

lemma runner_files:
  assumes "runner_ok run" "run argv w = (code, w')"
  shows "sw_files w' = sw_files w" "sw_listable w' = sw_listable w" "sw_readable w' = sw_readable w"
  using assms unfolding runner_ok_def by blast+

lemma runner_swapoff:
  assumes "runner_ok run" "run [''swapoff'', p] w = (code, w')"
  shows "sw_devices w' = (if code = 0 then filter (\<lambda>d. sd_path d \<noteq> p) (sw_devices w) else sw_devices w)"
  using assms unfolding runner_ok_def by blast

lemma path_join_inject [simp]: "path_join d a = path_join d b \<longleftrightarrow> a = b"
  by (simp add: path_join_def)

lemma discard_files [simp]: "sw_files (discard env dir (path_join dir n) w)
    = (if fe_remove env (path_join dir n) then filter (\<lambda>m. m \<noteq> n) (sw_files w) else sw_files w)"
  by (simp add: discard_def)

lemma discard_other [simp]: "sw_devices (discard env dir p w) = sw_devices w" "sw_listable (discard env dir p w) = sw_listable w"
  "sw_readable (discard env dir p w) = sw_readable w"
  by (simp_all add: discard_def)

lemma filter_fresh: "n \<notin> set xs \<Longrightarrow> filter (\<lambda>m. m \<noteq> n) xs = xs"
  by (induction xs) auto

lemma allocate_files:
  assumes "allocate env dir n sz a w = (b, w')" "n \<notin> set (sw_files w)"
  shows "(b \<and> sw_files w' = n # sw_files w) \<or> (\<not> b \<and> (sw_files w' = sw_files w \<or> sw_files w' = n # sw_files w))"
  using assms by (auto simp: allocate_def split: alloc_result.splits)

lemma try_make_swap_files:
  assumes "try_make_swap run env dir n sz a w = (b, w')" "n \<notin> set (sw_files w)" "runner_ok run"
    and "fe_remove env (path_join dir n)"
  shows "sw_files w' = (if b then n # sw_files w else sw_files w)"
proof -
  obtain b2 w2 where al: "allocate env dir n sz a w = (b2, w2)" by fastforce
  obtain c3 w3 where mk: "run [''mkswap'', path_join dir n] w2 = (c3, w3)" by fastforce
  obtain c4 w4 where on: "run [''swapon'', path_join dir n] w3 = (c4, w4)" by fastforce
  note f = allocate_files [OF al assms(2)] runner_files [OF assms(3) mk] runner_files [OF assms(3) on]
  show ?thesis
    using assms(1) f assms(2,4)
    by (cases b2) (auto simp: try_make_swap_def remove_existing_def al mk on Let_def filter_fresh split: if_splits)
qed

lemma try_allocators_files:
  assumes "try_allocators run env dir n sz als w = (r, w')" "n \<notin> set (sw_files w)" "runner_ok run"
    and "fe_remove env (path_join dir n)"
  shows "sw_files w' = (if r \<noteq> None then n # sw_files w else sw_files w)"
  using assms
proof (induction als arbitrary: w)
  case (Cons a als)
  obtain b w1 where t: "try_make_swap run env dir n sz a w = (b, w1)" by fastforce
  have f: "sw_files w1 = (if b then n # sw_files w else sw_files w)"
    by (rule try_make_swap_files [OF t Cons.prems(2-4)])
  show ?case
  proof (cases b)
    case True
    then show ?thesis using Cons.prems(1) f by (auto simp: t)
  next
    case False
    with f have fw: "sw_files w1 = sw_files w" by simp
    have "try_allocators run env dir n sz als w1 = (r, w')" using Cons.prems(1) False by (simp add: t)
    from Cons.IH [OF this] show ?thesis using Cons.prems fw by simp
  qed
qed simp

subsection \<open>The release loop\<close>

definition took_off :: "action_result \<Rightarrow> bool" where
  "took_off r \<longleftrightarrow> ar_reason r = Released \<or> ar_reason r = DrySwapoff"

definition attempted :: "action_result \<Rightarrow> bool" where
  "attempted r \<longleftrightarrow> took_off r \<or> (\<exists>c. ar_reason r = SwapoffFailed c)"

definition needed_of :: "action_result \<Rightarrow> int" where
  "needed_of r = py_trunc (of_int (ar_bytes r) * swapoff_headroom_ratio)"

lemma needed_nonneg: "0 \<le> sd_used_bytes d \<Longrightarrow> 0 \<le> needed_bytes d"
  by (simp add: needed_bytes_def py_trunc_def swapoff_headroom_ratio_def)

lemma release_loop_cases:
  assumes "release_loop run env dir dry ou limit (d # ds) h k w = (rs, w')"
  obtains (skip) r rest where "rs = r # rest" "release_loop run env dir dry ou limit ds h k w = (rest, w')"
      "\<not> attempted r" "ar_path r = sd_path d" "ar_bytes r = sd_used_bytes d"
    | (fail) r rest c w1 where "rs = r # rest" "run [''swapoff'', sd_path d] w = (c, w1)" "c \<noteq> 0"
        "release_loop run env dir dry ou limit ds h k w1 = (rest, w')" "\<not> took_off r" "\<not> dry"
        "ar_path r = sd_path d" "ar_bytes r = sd_used_bytes d"
    | (took) r rest w1 where "rs = r # rest"
        "release_loop run env dir dry ou limit ds (h - needed_bytes d) (Suc k) w1 = (rest, w')" "took_off r"
        "needed_bytes d \<le> h" "\<forall>l. limit = Some l \<longrightarrow> k < l" "ou \<longrightarrow> sd_used_bytes d \<le> 0"
        "ar_path r = sd_path d" "ar_bytes r = sd_used_bytes d"
        "if dry then w1 = w else (\<exists>w0. run [''swapoff'', sd_path d] w = (0, w0) \<and> w1 = discard env dir (sd_path d) w0)"
proof -
  obtain c w0 where r: "run [''swapoff'', sd_path d] w = (c, w0)" by fastforce
  note def = release_loop.simps(2) [of run env dir dry ou limit d ds h k w, unfolded Let_def assms]
  consider "(case limit of None \<Rightarrow> False | Some l \<Rightarrow> k \<ge> l) \<or> (ou \<and> sd_used_bytes d > 0) \<or> h < needed_bytes d"
    | (ok) "\<not> (case limit of None \<Rightarrow> False | Some l \<Rightarrow> k \<ge> l)" "\<not> (ou \<and> sd_used_bytes d > 0)" "\<not> h < needed_bytes d"
    by blast
  then show ?thesis
  proof cases
    case 1
    then show ?thesis using def skip
      by (auto simp: attempted_def took_off_def split: prod.splits if_split_asm)
  next
    case ok
    then have lim: "\<forall>l. limit = Some l \<longrightarrow> k < l" by (auto split: option.splits)
    show ?thesis
    proof (cases dry)
      case True
      then show ?thesis using def ok lim took by (auto simp: took_off_def not_less split: prod.splits)
    next
      case False
      then show ?thesis using def ok lim took fail r
        by (cases "c = 0") (auto simp: took_off_def not_less split: prod.splits)
    qed
  qed
qed

lemma release_loop_budget:
  assumes "release_loop run env dir dry ou limit ds h k w = (rs, w')" "0 \<le> h" "\<forall>d\<in>set ds. 0 \<le> sd_used_bytes d"
  shows "(\<Sum>r\<leftarrow>filter took_off rs. needed_of r) \<le> h"
    "\<forall>l. limit = Some l \<longrightarrow> k + length (filter took_off rs) \<le> max k l"
    "ou \<longrightarrow> (\<forall>r\<in>set rs. took_off r \<longrightarrow> ar_bytes r = 0)"
    "map (\<lambda>r. (ar_path r, ar_bytes r)) rs = map (\<lambda>d. (sd_path d, sd_used_bytes d)) ds"
    "dry \<longrightarrow> w' = w"
  using assms
proof (induction ds arbitrary: h k w rs)
  case (Cons d ds)
  {
    case 1
    from 1(1) show ?case
    proof (cases rule: release_loop_cases)
      case skip then show ?thesis using Cons.IH(1) [OF skip(2)] 1 by (auto simp: attempted_def)
    next
      case fail then show ?thesis using Cons.IH(1) [OF fail(4)] 1 by auto
    next
      case took
      then show ?thesis using Cons.IH(1) [OF took(2)] 1 by (auto simp: needed_of_def needed_bytes_def)
    qed
  next
    case 2
    from 2(1) show ?case
    proof (cases rule: release_loop_cases)
      case skip then show ?thesis using Cons.IH(2) [OF skip(2)] 2 by (auto simp: attempted_def)
    next
      case fail then show ?thesis using Cons.IH(2) [OF fail(4)] 2 by auto
    next
      case took
      then show ?thesis using Cons.IH(2) [OF took(2)] 2 by fastforce
    qed
  next
    case 3
    from 3(1) show ?case
    proof (cases rule: release_loop_cases)
      case skip then show ?thesis using Cons.IH(3) [OF skip(2)] 3 by (auto simp: attempted_def)
    next
      case fail then show ?thesis using Cons.IH(3) [OF fail(4)] 3 by auto
    next
      case took
      then show ?thesis using Cons.IH(3) [OF took(2)] 3 by fastforce
    qed
  next
    case 4
    from 4(1) show ?case
    proof (cases rule: release_loop_cases)
      case skip then show ?thesis using Cons.IH(4) [OF skip(2)] 4 by auto
    next
      case fail then show ?thesis using Cons.IH(4) [OF fail(4)] 4 by auto
    next
      case took
      then show ?thesis using Cons.IH(4) [OF took(2)] 4 by fastforce
    qed
  next
    case 5
    from 5(1) show ?case
    proof (cases rule: release_loop_cases)
      case skip then show ?thesis using Cons.IH(5) [OF skip(2)] 5 by auto
    next
      case fail then show ?thesis by auto
    next
      case took
      then show ?thesis using Cons.IH(5) [OF took(2)] 5 by fastforce
    qed
  }
qed simp_all

subsection \<open>Active files survive\<close>

definition plain_dir :: "string \<Rightarrow> bool" where
  "plain_dir dir \<longleftrightarrow> dir \<noteq> [] \<and> last dir \<noteq> CHR ''/''"

lemma path_split_join:
  assumes "plain_dir dir" "CHR ''/'' \<notin> set n"
  shows "path_split (path_join dir n) = (dir, n)"
proof -
  have t: "takeWhile (\<lambda>c. c \<noteq> CHR ''/'') (rev n @ CHR ''/'' # rev dir) = rev n"
    using assms(2) by (subst takeWhile_append2) auto
  obtain x c where d: "dir = x @ [c]" "c \<noteq> CHR ''/''"
    using assms(1) unfolding plain_dir_def by (metis append_butlast_last_id)
  have "\<not> list_all (\<lambda>c. c = CHR ''/'') (dir @ ''/'')" using d by simp
  moreover have "rstrip_slash (dir @ ''/'') = dir" using d by simp
  ultimately show ?thesis by (simp add: path_split_def path_join_def t Let_def)
qed

definition paths :: "swap_world \<Rightarrow> string set" where
  "paths w = sd_path ` set (sw_devices w)"

lemma release_loop_files:
  assumes "release_loop run env dir False ou limit ds h k w = (rs, w')" "runner_ok run"
    and "\<forall>d\<in>set ds. \<exists>n. is_managed_name n \<and> sd_path d = path_join dir n"
  shows "paths w' \<subseteq> paths w \<and> sw_listable w' = sw_listable w \<and> set (sw_files w') \<subseteq> set (sw_files w)
     \<and> (n \<in> set (sw_files w) \<longrightarrow> n \<notin> set (sw_files w') \<longrightarrow> is_managed_name n \<and> path_join dir n \<notin> paths w')
     \<and> sw_readable w' = sw_readable w"
  using assms
proof (induction ds arbitrary: k h w rs)
  case (Cons d ds)
  obtain m where m: "is_managed_name m" "sd_path d = path_join dir m" using Cons.prems(3) by auto
  have rest: "\<forall>d\<in>set ds. \<exists>n. is_managed_name n \<and> sd_path d = path_join dir n" using Cons.prems(3) by auto
  from Cons.prems(1) show ?case
  proof (cases rule: release_loop_cases)
    case skip
    show ?thesis using Cons.IH [OF skip(2) Cons.prems(2) rest] by blast
  next
    case (fail r rest' c w1)
    have same: "sw_devices w1 = sw_devices w" "sw_files w1 = sw_files w" "sw_listable w1 = sw_listable w" "sw_readable w1 = sw_readable w"
      using runner_swapoff [OF Cons.prems(2) fail(2)] runner_files [OF Cons.prems(2) fail(2)] fail(3) by auto
    then have "paths w1 = paths w" by (simp add: paths_def)
    then show ?thesis using Cons.IH [OF fail(4) Cons.prems(2) rest] same by auto
  next
    case (took r rest' w1)
    then obtain w0 where w0: "run [''swapoff'', sd_path d] w = (0, w0)" "w1 = discard env dir (sd_path d) w0" by auto
    note off = runner_swapoff [OF Cons.prems(2) w0(1)] and f = runner_files [OF Cons.prems(2) w0(1)]
    have p: "paths w1 \<subseteq> paths w - {sd_path d}" using off w0(2)
      by (auto simp: paths_def)
    have fl: "set (sw_files w1) \<subseteq> set (sw_files w)" "n \<in> set (sw_files w) \<Longrightarrow> n \<notin> set (sw_files w1) \<Longrightarrow> n = m"
      using f w0(2) by (auto simp: m(2) split: if_splits)
    have ls: "sw_listable w1 = sw_listable w" "sw_readable w1 = sw_readable w"
      using f off w0(2) by auto
    have ih1: "paths w' \<subseteq> paths w1" and ih2: "set (sw_files w') \<subseteq> set (sw_files w1)"
      and ih3: "sw_listable w' = sw_listable w1" "sw_readable w' = sw_readable w1"
      and ih4: "n \<in> set (sw_files w1) \<Longrightarrow> n \<notin> set (sw_files w') \<Longrightarrow> is_managed_name n \<and> path_join dir n \<notin> paths w'"
      using Cons.IH [OF took(2) Cons.prems(2) rest] by blast+
    have "is_managed_name n \<and> path_join dir n \<notin> paths w'"
      if n: "n \<in> set (sw_files w)" "n \<notin> set (sw_files w')"
    proof (cases "n \<in> set (sw_files w1)")
      case True
      then show ?thesis using ih4 n by blast
    next
      case False
      then have "n = m" using fl(2) n by blast
      moreover have "path_join dir m \<notin> paths w'" using ih1 p m(2) by auto
      ultimately show ?thesis using m(1) by simp
    qed
    moreover have "paths w' \<subseteq> paths w" "set (sw_files w') \<subseteq> set (sw_files w)" using ih1 p ih2 fl(1) by blast+
    ultimately show ?thesis using ih3 ls by simp
  qed
qed simp_all

lemma remove_orphans_files:
  assumes "remove_orphans env dir False still ns w = (rs, w')"
  shows "sw_devices w' = sw_devices w \<and> sw_readable w' = sw_readable w \<and> set (sw_files w') \<subseteq> set (sw_files w) \<and>
     (n \<in> set (sw_files w) \<longrightarrow> n \<notin> set (sw_files w') \<longrightarrow> n \<in> set ns \<and> path_join dir n \<notin> set still)"
  using assms
proof (induction ns arbitrary: w rs)
  case (Cons m ns)
  show ?case
  proof (cases "path_join dir m \<in> set still")
    case True
    with Cons.prems have "remove_orphans env dir False still ns w = (rs, w')" by simp
    from Cons.IH [OF this] show ?thesis by auto
  next
    case False
    with Cons.prems obtain rs' where "remove_orphans env dir False still ns (discard env dir (path_join dir m) w) = (rs', w')"
      by (auto split: prod.splits)
    from Cons.IH [OF this] show ?thesis using False by (auto split: if_splits)
  qed
qed simp_all

lemma remove_orphans_dry: "remove_orphans env dir True still ns w = (rs, w') \<Longrightarrow> w' = w"
  by (induction ns arbitrary: rs) (auto simp: Let_def split: if_splits prod.splits)

lemma release_loop_dry: "release_loop run env dir True ou limit ds h k w = (rs, w') \<Longrightarrow> w' = w"
  by (induction ds arbitrary: h k rs) (auto simp: Let_def split: if_splits prod.splits option.splits)

lemma remove_orphans_results: "remove_orphans env dir dry still ns w = (rs, w') \<Longrightarrow> r \<in> set rs \<Longrightarrow> \<not> attempted r"
  by (induction ns arbitrary: rs w)
    (auto simp: Let_def attempted_def took_off_def split: if_splits prod.splits)

lemma managed_devices_paths:
  assumes "d \<in> set (managed_devices dir ds)" "plain_dir dir"
  shows "d \<in> set ds \<and> is_managed_name (snd (path_split (sd_path d))) \<and> fst (path_split (sd_path d)) = dir"
  using assms by (auto simp: managed_devices_def)

subsection \<open>Properties\<close>

text \<open>growing never harms what is there. With a runner that keeps to \<open>runner_ok\<close> and a readable
  directory, no existing file of the managed directory is lost; when the growth succeeds, exactly
  one file has been added, under a managed name that was not in use; in every other outcome (a dry
  run, a refusal, a failed \<open>mkswap\<close> or \<open>swapon\<close> under both allocators) the directory is as before, with no
  half-made file left behind; and a dry run or a refusal runs no command at all.\<close>
theorem grow_leaves_no_stray_file:
  assumes "grow run env cfg plan dry_run w = (r, w')" "runner_ok run" "sw_listable w"
    and "\<forall>p. fe_remove env p"
  shows "(ar_reason r = Added \<longrightarrow> (\<exists>n. is_managed_name n \<and> n \<notin> set (sw_files w)
             \<and> ar_path r = path_join (sg_path cfg) n \<and> sw_files w' = n # sw_files w))
    \<and> (ar_reason r \<noteq> Added \<longrightarrow> sw_files w' = sw_files w)
    \<and> (dry_run \<or> \<not> gp_should_grow plan \<or> \<not> fs_allowed cfg (fe_fstype env) \<longrightarrow> w' = w)
    \<and> (ar_ok r \<and> \<not> dry_run \<longleftrightarrow> ar_reason r = Added)"
proof -
  let ?n = "next_managed_name (listing w)"
  have fresh: "?n \<notin> set (sw_files w)" "is_managed_name ?n"
    using next_managed_name_fresh next_managed_name_managed assms(3) by (auto simp: listing_def)
  obtain a w1 where ta: "try_allocators run env (sg_path cfg) ?n (gp_grow_bytes plan) [Fallocate, WriteZeros] w = (a, w1)"
    by fastforce
  have f: "sw_files w1 = (if a \<noteq> None then ?n # sw_files w else sw_files w)"
    by (rule try_allocators_files [OF ta fresh(1) assms(2)]) (use assms(4) in simp)
  show ?thesis using assms(1) f fresh
    unfolding grow_def Let_def ta
    by (cases a) (auto split: if_splits)
qed

definition quiet_runner :: runner where
  \<comment> \<open>a runner for the examples: every command works, \<open>swapoff\<close> removes its device\<close>
  "quiet_runner argv w =
     (case argv of [c, p] \<Rightarrow> if c = ''swapoff'' then (0, w\<lparr>sw_devices := filter (\<lambda>d. sd_path d \<noteq> p) (sw_devices w)\<rparr>)
                           else (0, w)
      | _ \<Rightarrow> (0, w))"

lemma quiet_runner_ok: "runner_ok quiet_runner"
  by (auto simp: runner_ok_def quiet_runner_def split: list.splits if_splits)

definition demo_env :: fs_env where
  "demo_env = \<lparr>fe_alloc = (\<lambda>a p n. AllocOk), fe_remove = (\<lambda>p. True), fe_makedirs = True, fe_fstype = ''ext4'',
     fe_available = 200 * gib\<rparr>"

definition demo_world :: swap_world where
  "demo_world = \<lparr>sw_devices = [], sw_readable = True, sw_files = [], sw_listable = True\<rparr>"

definition demo_grow_plan :: growth_plan where
  "demo_grow_plan = (growth_base swap_growth_defaults demo_snap 0 gib ''ext4'')
     \<lparr>gp_should_grow := True, gp_grow_bytes := 4096, gp_disk_reserve_bytes := 0\<rparr>"

lemma demo_grow_added:
  "ar_reason (fst (grow quiet_runner demo_env swap_growth_defaults demo_grow_plan False demo_world)) = Added"
proof -
  have "fs_allowed swap_growth_defaults ''ext4''"
    by (simp add: fs_allowed_def swap_growth_defaults_def dynamic_growth_fs_def)
  moreover have "fst (try_make_swap quiet_runner demo_env d n 4096 Fallocate demo_world)" for d n
    by (simp add: try_make_swap_def remove_existing_def allocate_def demo_world_def demo_env_def quiet_runner_def)
  ultimately show ?thesis
    by (auto simp: grow_def Let_def demo_grow_plan_def demo_env_def gib_def split: prod.splits bool.splits)
      (metis fst_conv)+
qed

theorem grow_leaves_no_stray_file_witness:
  "\<exists>n. is_managed_name n \<and> sw_files (snd (grow quiet_runner demo_env swap_growth_defaults demo_grow_plan False demo_world)) = [n]"
proof -
  obtain r w' where g: "grow quiet_runner demo_env swap_growth_defaults demo_grow_plan False demo_world = (r, w')" by fastforce
  have w: "sw_listable demo_world" "\<forall>p. fe_remove demo_env p" by (simp_all add: demo_world_def demo_env_def)
  from grow_leaves_no_stray_file [OF g quiet_runner_ok w] demo_grow_added show ?thesis
    unfolding g by (auto simp: demo_world_def)
qed

text \<open>a release stays within the memory headroom. The swap held by all files turned off in one call,
  with the headroom ratio, is at most the available memory; at most \<open>limit\<close> files are turned off; with
  \<open>only_unused\<close> only empty ones; every device a \<open>swapoff\<close> is attempted on is an active device in the
  managed directory under a managed name; and a dry run changes nothing.\<close>
theorem release_within_budget:
  assumes "release run env cfg dry s only_unused limit w = (rs, w')" "0 \<le> ms_mem_available s"
    and "\<forall>d\<in>set (active_devices w). 0 \<le> sd_used_bytes d"
  shows "(\<Sum>r\<leftarrow>filter took_off rs. needed_of r) \<le> ms_mem_available s
    \<and> (\<forall>l. limit = Some l \<longrightarrow> length (filter took_off rs) \<le> l)
    \<and> (only_unused \<longrightarrow> (\<forall>r\<in>set rs. took_off r \<longrightarrow> ar_bytes r = 0))
    \<and> (\<forall>r\<in>set rs. attempted r \<longrightarrow> (\<exists>d\<in>set (managed_devices (sg_path cfg) (active_devices w)).
          ar_path r = sd_path d \<and> ar_bytes r = sd_used_bytes d))
    \<and> (dry \<longrightarrow> w' = w)"
proof -
  let ?act = "sort_key sd_used_bytes (managed_devices (sg_path cfg) (active_devices w))"
  obtain rs1 w1 where l: "release_loop run env (sg_path cfg) dry only_unused limit ?act (ms_mem_available s) 0 w = (rs1, w1)"
    by fastforce
  obtain os where os: "remove_orphans env (sg_path cfg) dry
      (map sd_path (if dry then ?act else managed_devices (sg_path cfg) (active_devices w1)))
      (managed_files_on_disk (listing w1)) w1 = (os, w')" "rs = rs1 @ os"
    using assms(1) unfolding release_def Let_def l by (auto split: prod.splits)
  have used: "\<forall>d\<in>set ?act. 0 \<le> sd_used_bytes d" using assms(3) by (auto simp: managed_devices_def)
  note b = release_loop_budget [OF l assms(2) used]
  have none: "filter took_off os = []" "\<forall>r\<in>set os. \<not> attempted r"
    using remove_orphans_results [OF os(1)] by (auto simp: filter_empty_conv attempted_def)
  have "\<exists>d\<in>set (managed_devices (sg_path cfg) (active_devices w)). ar_path r = sd_path d \<and> ar_bytes r = sd_used_bytes d"
    if "r \<in> set rs1" for r
  proof -
    have "(ar_path r, ar_bytes r) \<in> set (map (\<lambda>d. (sd_path d, sd_used_bytes d)) ?act)"
      using that unfolding b(4) [symmetric] by auto
    then show ?thesis by auto
  qed
  moreover have "dry \<longrightarrow> w' = w" using b(5) os(1) remove_orphans_dry by fastforce
  ultimately show ?thesis using b(1-3) none by (auto simp: os(2) attempted_def)
qed

definition demo_device :: "int \<Rightarrow> swap_device" where
  "demo_device used = \<lparr>sd_path = ''/d/swap-01.img'', sd_kind = ''file'', sd_size_bytes = 4000,
     sd_used_bytes = used, sd_priority = 0\<rparr>"

theorem release_within_budget_witness:
  "(\<Sum>r\<leftarrow>filter took_off (fst (release quiet_runner demo_env swap_growth_defaults False
      (demo_snap\<lparr>ms_mem_available := 100\<rparr>) False (Some 1) (demo_world\<lparr>sw_devices := [demo_device 50]\<rparr>))).
      needed_of r) \<le> 100"
proof -
  let ?w = "demo_world\<lparr>sw_devices := [demo_device 50]\<rparr>"
  obtain rs w' where r: "release quiet_runner demo_env swap_growth_defaults False
      (demo_snap\<lparr>ms_mem_available := 100\<rparr>) False (Some 1) ?w = (rs, w')" by fastforce
  have "\<forall>d\<in>set (active_devices ?w). 0 \<le> sd_used_bytes d" by (simp add: active_devices_def demo_device_def)
  from release_within_budget [OF r _ this] show ?thesis using r by simp
qed

text \<open>a release never deletes a swapfile in use. When \<open>/proc/swaps\<close> is readable, the commands keep
  to \<open>runner_ok\<close> and paths are in normal form, every file that a release removes from the managed
  directory has a managed name and is not in the swap table afterwards; in particular a file whose
  \<open>swapoff\<close> failed, was deferred or was judged unsafe is still there, and so is every other file.\<close>
theorem release_keeps_active_files:
  assumes "release run env cfg dry s only_unused limit w = (rs, w')" "runner_ok run"
    and "sw_readable w" "plain_dir (sg_path cfg)"
    and "\<forall>d\<in>set (sw_devices w). path_join (fst (path_split (sd_path d))) (snd (path_split (sd_path d))) = sd_path d"
    and "n \<in> set (sw_files w)" "n \<notin> set (sw_files w')" "CHR ''/'' \<notin> set n"
  shows "is_managed_name n \<and> (\<forall>d\<in>set (sw_devices w'). sd_path d \<noteq> path_join (sg_path cfg) n) \<and> \<not> dry"
proof (cases dry)
  case True
  let ?act = "sort_key sd_used_bytes (managed_devices (sg_path cfg) (active_devices w))"
  have "w' = w"
    using assms(1) remove_orphans_dry unfolding release_def Let_def
    by (cases "release_loop run env (sg_path cfg) dry only_unused limit ?act (ms_mem_available s) 0 w")
       (use True release_loop_dry in \<open>fastforce split: prod.splits\<close>)
  then show ?thesis using assms(6,7) by simp
next
  case False
  let ?dir = "sg_path cfg"
  let ?act = "sort_key sd_used_bytes (managed_devices ?dir (active_devices w))"
  obtain rs1 w1 where l: "release_loop run env ?dir False only_unused limit ?act (ms_mem_available s) 0 w = (rs1, w1)"
    by fastforce
  let ?still = "map sd_path (managed_devices ?dir (active_devices w1))"
  obtain os where os: "remove_orphans env ?dir False ?still (managed_files_on_disk (listing w1)) w1 = (os, w')"
    using assms(1) False unfolding release_def Let_def by (auto simp: l split: prod.splits)
  have act: "\<forall>d\<in>set ?act. \<exists>n. is_managed_name n \<and> sd_path d = path_join ?dir n"
  proof
    fix d assume "d \<in> set ?act"
    then have d: "d \<in> set (managed_devices ?dir (active_devices w))" by simp
    then have "d \<in> set (sw_devices w)" using managed_devices_paths [OF d assms(4)] assms(3) by (simp add: active_devices_def)
    then have "path_join (fst (path_split (sd_path d))) (snd (path_split (sd_path d))) = sd_path d" using assms(5) by blast
    then show "\<exists>n. is_managed_name n \<and> sd_path d = path_join ?dir n"
      using managed_devices_paths [OF d assms(4)] by metis
  qed
  have rd: "sw_readable w1" using release_loop_files [OF l assms(2) act] assms(3) by blast
  have f1: "n \<notin> set (sw_files w1) \<Longrightarrow> is_managed_name n \<and> path_join ?dir n \<notin> paths w1"
    using release_loop_files [OF l assms(2) act] assms(6) by blast
  note f2 = remove_orphans_files [OF os]
  have same: "paths w' = paths w1" using f2 by (simp add: paths_def)
  have "is_managed_name n \<and> path_join ?dir n \<notin> paths w1"
  proof (cases "n \<in> set (sw_files w1)")
    case True
    then have o: "n \<in> set (managed_files_on_disk (listing w1))" "path_join ?dir n \<notin> set ?still"
      using f2 assms(7) by blast+
    from o(1) have m: "is_managed_name n" by (auto simp: managed_files_on_disk_def split: option.splits)
    have "path_join ?dir n \<notin> paths w1"
    proof
      assume "path_join ?dir n \<in> paths w1"
      then obtain d where d: "d \<in> set (sw_devices w1)" "sd_path d = path_join ?dir n" by (auto simp: paths_def)
      then have "d \<in> set (managed_devices ?dir (active_devices w1))"
        using m rd path_split_join [OF assms(4,8)] by (simp add: managed_devices_def active_devices_def)
      then show False using o(2) d(2) by (metis image_eqI set_map)
    qed
    with m show ?thesis by simp
  qed (rule f1)
  then show ?thesis using same False unfolding paths_def by (metis image_eqI)
qed

theorem release_keeps_active_files_witness:
  "is_managed_name ''swap-01.img'' \<and> sw_files (snd (release quiet_runner demo_env
      (swap_growth_defaults\<lparr>sg_path := ''/d''\<rparr>) False (demo_snap\<lparr>ms_mem_available := 100\<rparr>) False None
      (demo_world\<lparr>sw_devices := [demo_device 50], sw_files := [''swap-01.img'']\<rparr>))) = []"
proof -
  let ?cfg = "swap_growth_defaults\<lparr>sg_path := ''/d''\<rparr>"
  let ?w = "demo_world\<lparr>sw_devices := [demo_device 50], sw_files := [''swap-01.img'']\<rparr>"
  let ?s = "demo_snap\<lparr>ms_mem_available := 100\<rparr>"
  have ps: "path_split ''/d/swap-01.img'' = (''/d'', ''swap-01.img'')"
    by (simp add: path_split_def Let_def)
  have mg: "is_managed_name ''swap-01.img''"
    by (simp add: is_managed_name_def startswith_def is_digit_def)
  have gone: "sw_files (snd (release quiet_runner demo_env ?cfg False ?s False None ?w)) = []"
    using mg ps by (simp add: release_def active_devices_def managed_devices_def demo_device_def demo_world_def
        demo_env_def quiet_runner_def needed_bytes_def py_trunc_def swapoff_headroom_ratio_def discard_def
        path_join_def listing_def managed_files_on_disk_def demo_snap_def)
  obtain rs w' where r: "release quiet_runner demo_env ?cfg False ?s False None ?w = (rs, w')" by fastforce
  have "is_managed_name ''swap-01.img'' \<and> (\<forall>d\<in>set (sw_devices w'). sd_path d \<noteq> path_join (sg_path ?cfg) ''swap-01.img'') \<and> \<not> False"
    by (rule release_keeps_active_files [OF r quiet_runner_ok])
      (use gone r ps in \<open>simp_all add: demo_world_def plain_dir_def demo_device_def path_join_def\<close>)
  then show ?thesis using gone by simp
qed

subsection \<open>zswap\<close>

lemma write_params_prefix:
  assumes "write_params writable False ws ps = ((ok, r), ps')" "distinct (map fst ws)"
  shows "\<exists>i \<le> length ws. (\<forall>k. map_of ps' k = (case map_of (take i ws) k of None \<Rightarrow> map_of ps k | Some v \<Rightarrow> Some v))
    \<and> (ok \<longleftrightarrow> i = length ws)"
  using assms
proof (induction ws arbitrary: ps)
  case (Cons x ws)
  obtain k v where x: "x = (k, v)" by fastforce
  show ?case
  proof (cases "writable k")
    case False
    then show ?thesis using Cons.prems by (intro exI [of _ 0]) (simp add: x)
  next
    case True
    then have "write_params writable False ws (AList.update k v ps) = ((ok, r), ps')" using Cons.prems(1) by (simp add: x)
    from Cons.IH [OF this] Cons.prems(2) obtain i where i: "i \<le> length ws"
      "\<forall>j. map_of ps' j = (case map_of (take i ws) j of None \<Rightarrow> map_of (AList.update k v ps) j | Some v \<Rightarrow> Some v)"
      "ok \<longleftrightarrow> i = length ws" by auto
    have "map_of (take i ws) k = None"
      using Cons.prems(2) by (auto simp: x map_of_eq_None_iff dest: in_set_takeD)
    then show ?thesis using i
      by (intro exI [of _ "Suc i"]) (auto simp: x update_conv split: option.splits)
  qed
qed simp

lemma write_params_dry: "write_params writable True ws ps = ((ok, r), ps') \<Longrightarrow> ps' = ps"
  by (induction ws) auto

definition zswap_writes :: "swap_cfg \<Rightarrow> (string \<times> string) list \<Rightarrow> (string \<times> string) list" where
  "zswap_writes cfg params = map (\<lambda>k. (k, zswap_wanted cfg k))
     (filter (\<lambda>k. map_of params k \<noteq> None \<and> map_of params k \<noteq> Some (zswap_wanted cfg k)) zswap_keys)"

lemma zswap_writes_map:
  "map_of (zswap_writes cfg params) k
     = (if k \<in> set zswap_keys \<and> map_of params k \<noteq> None \<and> map_of params k \<noteq> Some (zswap_wanted cfg k)
        then Some (zswap_wanted cfg k) else None)"
  by (auto simp: zswap_writes_def map_of_map_restrict restrict_map_def)

lemma zswap_writes_distinct: "distinct (map fst (zswap_writes cfg params))"
  by (simp add: zswap_writes_def zswap_keys_def comp_def)

lemma zswap_enabled_at_end:
  assumes "i < length (zswap_writes cfg params)"
  shows "map_of (take i (zswap_writes cfg params)) ''enabled'' = None"
proof -
  have "''enabled'' \<notin> fst ` set (butlast (zswap_writes cfg params))"
    by (auto simp: zswap_writes_def zswap_keys_def split: if_splits)
  moreover have "set (take i (zswap_writes cfg params)) \<subseteq> set (butlast (zswap_writes cfg params))"
    using assms by (simp add: butlast_conv_take set_take_subset_set_take)
  ultimately show ?thesis by (auto simp: map_of_eq_None_iff)
qed

text \<open>zswap is enabled last and only with its configured parameters. A call changes nothing when it is
  a dry run or zswap is not configured; it changes only the three parameters, and only to their
  configured values; \<open>enabled\<close> changes only when the compressor and the pool size, where the kernel has
  them, are as configured afterwards; and a successful call leaves every one of the three that exists
  at its configured value.\<close>
theorem zswap_enabled_last:
  assumes "apply_zswap writable cfg dry params = ((ok, reason), params')"
  shows "(dry \<or> \<not> sg_zswap cfg \<longrightarrow> params' = params)
    \<and> (\<forall>k. map_of params' k \<noteq> map_of params k \<longrightarrow> k \<in> set zswap_keys \<and> map_of params' k = Some (zswap_wanted cfg k))
    \<and> (map_of params' ''enabled'' \<noteq> map_of params ''enabled'' \<longrightarrow>
         (\<forall>k\<in>set zswap_keys. map_of params k \<noteq> None \<longrightarrow> map_of params' k = Some (zswap_wanted cfg k)))
    \<and> (ok \<and> \<not> dry \<and> sg_zswap cfg \<longrightarrow>
         (\<forall>k\<in>set zswap_keys. map_of params k \<noteq> None \<longrightarrow> map_of params' k = Some (zswap_wanted cfg k)))"
proof (cases "dry \<or> \<not> sg_zswap cfg \<or> params = []")
  case True
  then have "params' = params"
    using assms write_params_dry by (auto simp: apply_zswap_def plan_zswap_def Let_def split: if_splits)
  then show ?thesis using True by auto
next
  case False
  let ?ws = "zswap_writes cfg params"
  have w: "write_params writable False ?ws params = ((ok, reason), params') \<or> (?ws = [] \<and> ok \<and> params' = params)"
    using assms False by (auto simp: apply_zswap_def plan_zswap_def Let_def zswap_writes_def split: if_splits)
  have "\<exists>i \<le> length ?ws. (\<forall>k. map_of params' k = (case map_of (take i ?ws) k of None \<Rightarrow> map_of params k | Some v \<Rightarrow> Some v))
      \<and> (ok \<longleftrightarrow> i = length ?ws)"
    using w write_params_prefix [OF _ zswap_writes_distinct] by fastforce
  then obtain i where i: "i \<le> length ?ws" "ok \<longleftrightarrow> i = length ?ws"
    and m: "map_of params' k = (case map_of (take i ?ws) k of None \<Rightarrow> map_of params k | Some v \<Rightarrow> Some v)" for k by blast
  have full: "map_of params' k = Some (zswap_wanted cfg k)" if "i = length ?ws" "k \<in> set zswap_keys" "map_of params k \<noteq> None" for k
    using that m [of k] by (auto simp: zswap_writes_map)
  have part: "k \<in> set zswap_keys \<and> map_of params' k = Some (zswap_wanted cfg k)" if c: "map_of params' k \<noteq> map_of params k" for k
  proof -
    from c m [of k] obtain v where v: "map_of (take i ?ws) k = Some v" "map_of params' k = Some v" by (auto split: option.splits)
    then have "(k, v) \<in> set ?ws" by (meson in_set_takeD map_of_SomeD)
    with v show ?thesis by (auto simp: zswap_writes_def)
  qed
  have "i = length ?ws" if c: "map_of params' ''enabled'' \<noteq> map_of params ''enabled''"
    using that m [of "''enabled''"] zswap_enabled_at_end [of i cfg params] i(1) by fastforce
  with full part i(2) False show ?thesis by blast
qed

theorem zswap_enabled_last_witness:
  "map_of (snd (apply_zswap (\<lambda>k. True) (swap_growth_defaults\<lparr>sg_zswap := True\<rparr>) False
      [(''compressor'', ''lzo''), (''enabled'', ''N'')])) ''compressor'' = Some ''zstd''"
proof -
  let ?c = "swap_growth_defaults\<lparr>sg_zswap := True\<rparr>" and ?p = "[(''compressor'', ''lzo''), (''enabled'', ''N'')]"
  obtain ok re p' where a: "apply_zswap (\<lambda>k. True) ?c False ?p = ((ok, re), p')" by (metis surj_pair)
  have ok by (use a in \<open>simp add: apply_zswap_def plan_zswap_def zswap_keys_def zswap_wanted_def swap_growth_defaults_def\<close>)
  with zswap_enabled_last [OF a] have "map_of p' ''compressor'' = Some (zswap_wanted ?c ''compressor'')"
    by (simp add: zswap_keys_def)
  then show ?thesis unfolding a by (simp add: zswap_wanted_def swap_growth_defaults_def)
qed

end
