(* ===== verification/Reclaim.thy ===== *)
theory Reclaim
  imports Swap_Exec
begin

text \<open>
  Proactive reclaim: \<open>balancer/controller/memory.py\<close> (finding a cgroup, reading its files, one
  \<open>memory.reclaim\<close> write) and the L0/L2 part of \<open>balancer/controller/control_manager.py\<close> (deficit, gain,
  gates, the chunked loop, swap headroom and the manual reclaim to a target). The machine is an
  argument: a record of functions over an arbitrary world type. Elapsed times, which are only
  reported, are left out.
\<close>

subsection \<open>The machine\<close>

record 'w mem_kernel =
  mk_walk :: "'w \<Rightarrow> (string \<times> string list) list"      \<comment> \<open>\<open>os.walk\<close> from the mount: directory, its subdirectories\<close>
  mk_isdir :: "'w \<Rightarrow> string \<Rightarrow> bool"
  mk_read :: "'w \<Rightarrow> string \<Rightarrow> string option"
  mk_write :: "string \<Rightarrow> string \<Rightarrow> 'w \<Rightarrow> int option \<times> 'w"  \<comment> \<open>path, text; Some is the errno\<close>

record mem_ctl =
  mc_mount :: string
  mc_supports :: "bool option"
  mc_cache :: "string \<rightharpoonup> string"

definition mem_ctl_init :: "string \<Rightarrow> mem_ctl" where
  "mem_ctl_init mount = \<lparr>mc_mount = mount, mc_supports = None, mc_cache = Map.empty\<rparr>"

definition eagain :: int where "eagain = 11"
definition einval :: int where "einval = 22"
definition enoent :: int where "enoent = 2"

subsection \<open>Finding a cgroup\<close>

definition cgroup_id_char :: "char \<Rightarrow> bool" where
  "cgroup_id_char c \<longleftrightarrow> (let n = (of_char c :: nat) in (65 \<le> n \<and> n \<le> 90) \<or> (97 \<le> n \<and> n \<le> 122) \<or> (48 \<le> n \<and> n \<le> 57))
     \<or> c \<in> set ''._@:-''"

definition cgroup_id_ok :: "string \<Rightarrow> bool" where
  \<comment> \<open>\<open>CGROUP_ID_RE.fullmatch\<close>\<close>
  "cgroup_id_ok s \<longleftrightarrow> s \<noteq> [] \<and> list_all cgroup_id_char s"

definition is_safe_cgroup_ref :: "string \<Rightarrow> bool" where
  "is_safe_cgroup_ref cgroup \<longleftrightarrow> cgroup \<noteq> [] \<and>
     list_all (\<lambda>seg. seg \<noteq> ''.'' \<and> seg \<noteq> ''..'' \<and> cgroup_id_ok seg) (split_char (CHR ''/'') cgroup)"

definition no_such_cgroup :: string where "no_such_cgroup = ''!invalid''"

definition locate :: "'w mem_kernel \<Rightarrow> 'w \<Rightarrow> string \<Rightarrow> string option" where
  "locate kern w cgroup =
     (if \<not> cgroup_id_ok cgroup then None
      else map_option (\<lambda>(parent_dir, _). path_join parent_dir cgroup) (find (\<lambda>(_, dirs). cgroup \<in> set dirs) (mk_walk kern w)))"

definition get_full_path :: "'w mem_kernel \<Rightarrow> 'w \<Rightarrow> string \<Rightarrow> mem_ctl \<Rightarrow> string \<times> mem_ctl" where
  "get_full_path kern w cgroup0 c =
     (let cgroup = dropWhile (\<lambda>ch. ch = CHR ''/'') cgroup0
      in if \<not> is_safe_cgroup_ref cgroup then (path_join (mc_mount c) no_such_cgroup, c)
         else if CHR ''/'' \<in> set cgroup then (path_join (mc_mount c) cgroup, c)
         else
           let search = (\<lambda>c. case locate kern w cgroup of
                               None \<Rightarrow> (path_join (mc_mount c) cgroup, c)
                             | Some found \<Rightarrow> (found, c\<lparr>mc_cache := (mc_cache c)(cgroup \<mapsto> found)\<rparr>))
           in case mc_cache c cgroup of
                None \<Rightarrow> search c
              | Some cached \<Rightarrow> if mk_isdir kern w cached then (cached, c)
                               else search (c\<lparr>mc_cache := (mc_cache c)(cgroup := None)\<rparr>))"

subsection \<open>Reading its files\<close>

definition get_parameter :: "'w mem_kernel \<Rightarrow> 'w \<Rightarrow> string \<Rightarrow> string \<Rightarrow> mem_ctl \<Rightarrow> string option \<times> mem_ctl" where
  "get_parameter kern w cgroup param c =
     (case get_full_path kern w cgroup c of (p, c') \<Rightarrow> (map_option strip (mk_read kern w (path_join p param)), c'))"

definition cgroup_exists :: "'w mem_kernel \<Rightarrow> 'w \<Rightarrow> string \<Rightarrow> mem_ctl \<Rightarrow> bool \<times> mem_ctl" where
  "cgroup_exists kern w cgroup c = (case get_full_path kern w cgroup c of (p, c') \<Rightarrow> (mk_isdir kern w p, c'))"

definition read_int_file :: "'w mem_kernel \<Rightarrow> 'w \<Rightarrow> string \<Rightarrow> string \<Rightarrow> mem_ctl \<Rightarrow> int option \<times> mem_ctl" where
  "read_int_file kern w cgroup param c =
     (case get_parameter kern w cgroup param c of
        (None, c') \<Rightarrow> (None, c') | (Some raw, c') \<Rightarrow> (py_int raw, c'))"

definition read_current :: "'w mem_kernel \<Rightarrow> 'w \<Rightarrow> string \<Rightarrow> mem_ctl \<Rightarrow> int option \<times> mem_ctl" where
  "read_current kern w cgroup c = read_int_file kern w cgroup ''memory.current'' c"

fun flat_keyed :: "string list \<Rightarrow> (string \<times> int) list \<Rightarrow> (string \<times> int) list" where
  "flat_keyed [] out = out"
| "flat_keyed (line # rest) out =
     (case split_ws line of
        [k, v] \<Rightarrow> (case py_int v of None \<Rightarrow> flat_keyed rest out | Some n \<Rightarrow> flat_keyed rest (AList.update k n out))
      | _ \<Rightarrow> flat_keyed rest out)"

definition read_flat_keyed :: "'w mem_kernel \<Rightarrow> 'w \<Rightarrow> string \<Rightarrow> string \<Rightarrow> mem_ctl \<Rightarrow> (string \<times> int) list \<times> mem_ctl" where
  "read_flat_keyed kern w cgroup param c =
     (case get_parameter kern w cgroup param c of
        (None, c') \<Rightarrow> ([], c')
      | (Some raw, c') \<Rightarrow> (flat_keyed (split_char (CHR 0x0A) raw) [], c'))"

definition read_cpu_usec :: "'w mem_kernel \<Rightarrow> 'w \<Rightarrow> string \<Rightarrow> mem_ctl \<Rightarrow> int option \<times> mem_ctl" where
  "read_cpu_usec kern w cgroup c =
     (case read_flat_keyed kern w cgroup ''cpu.stat'' c of (m, c') \<Rightarrow> (map_of m ''usage_usec'', c'))"

definition get_or :: "(string \<times> int) list \<Rightarrow> string \<Rightarrow> int \<Rightarrow> int" where
  "get_or m k v = (case map_of m k of None \<Rightarrow> v | Some x \<Rightarrow> x)"

definition file_cache_fraction :: "(string \<times> int) list \<Rightarrow> real option" where
  "file_cache_fraction stat =
     (if stat = [] then None
      else let anon = get_or stat ''anon'' 0; file = get_or stat ''file'' 0
           in if anon + file \<le> 0 then Some 0 else Some (of_int file / of_int (anon + file)))"

definition reclaimable_anon :: "(string \<times> int) list \<Rightarrow> int" where
  "reclaimable_anon stat = max 0 (get_or stat ''anon'' 0)"

subsection \<open>One write of memory.reclaim\<close>

definition default_reclaim_swappiness :: int where "default_reclaim_swappiness = 180"
definition swappiness_min :: int where "swappiness_min = 0"
definition swappiness_max :: int where "swappiness_max = 200"

datatype reclaim_reason = NothingRequested | BadSwappiness | NoSwappinessSupport | WriteError | GoneMidReclaim
  | CurrentUnreadable | AlreadyThere | TargetReached | Reclaimed

record reclaim_outcome =
  ro_ok :: bool
  ro_errno :: "int option"
  ro_requested :: int
  ro_reclaimed :: int
  ro_swappiness :: "int option"
  ro_reason :: reclaim_reason

definition is_eagain :: "reclaim_outcome \<Rightarrow> bool" where
  "is_eagain r \<longleftrightarrow> ro_errno r = Some eagain"

definition outcome_unsupported :: "reclaim_outcome \<Rightarrow> bool" where
  "outcome_unsupported r \<longleftrightarrow> ro_errno r = Some einval \<or> ro_errno r = Some enoent"

definition write_reclaim :: "'w mem_kernel \<Rightarrow> string \<Rightarrow> string \<Rightarrow> mem_ctl \<times> 'w \<Rightarrow> int option \<times> mem_ctl \<times> 'w" where
  "write_reclaim kern cgroup payload st =
     (case st of (c, w) \<Rightarrow> (case get_full_path kern w cgroup c of (p, c') \<Rightarrow>
        (case mk_write kern (path_join p ''memory.reclaim'') payload w of (e, w') \<Rightarrow> (e, c', w'))))"

definition reclaim_payload :: "int \<Rightarrow> int option \<Rightarrow> string" where
  "reclaim_payload n swappiness =
     (case swappiness of None \<Rightarrow> show_int n | Some s \<Rightarrow> show_int n @ '' swappiness='' @ show_int s)"

definition supports_swappiness :: "'w mem_kernel \<Rightarrow> string \<Rightarrow> mem_ctl \<times> 'w \<Rightarrow> bool \<times> mem_ctl \<times> 'w" where
  "supports_swappiness kern cgroup st =
     (case mc_supports (fst st) of
        Some b \<Rightarrow> (b, st)
      | None \<Rightarrow>
          (case write_reclaim kern cgroup (reclaim_payload 1 (Some default_reclaim_swappiness)) st of (e, c, w) \<Rightarrow>
             let b = (e = None \<or> e = Some eagain) in (b, c\<lparr>mc_supports := Some b\<rparr>, w)))"

definition reclaim_write :: "'w mem_kernel \<Rightarrow> string \<Rightarrow> int \<Rightarrow> int option \<Rightarrow> mem_ctl \<times> 'w \<Rightarrow> reclaim_outcome \<times> mem_ctl \<times> 'w" where
  \<comment> \<open>the measured write: \<open>memory.current\<close> before, the write, \<open>memory.current\<close> after\<close>
  "reclaim_write kern cgroup n swappiness st =
     (case st of (c, w) \<Rightarrow>
      (case read_current kern w cgroup c of (before, c1) \<Rightarrow>
      (case write_reclaim kern cgroup (reclaim_payload n swappiness) (c1, w) of (e, c2, w2) \<Rightarrow>
      (case read_current kern w2 cgroup c2 of (after, c3) \<Rightarrow>
         (\<lparr>ro_ok = (e = None), ro_errno = e, ro_requested = n,
           ro_reclaimed = (case (before, after) of (Some b, Some a) \<Rightarrow> max 0 (b - a) | _ \<Rightarrow> 0),
           ro_swappiness = swappiness, ro_reason = (if e = None then Reclaimed else WriteError)\<rparr>, c3, w2)))))"

definition reclaim :: "'w mem_kernel \<Rightarrow> string \<Rightarrow> int \<Rightarrow> int option \<Rightarrow> mem_ctl \<times> 'w \<Rightarrow> reclaim_outcome \<times> mem_ctl \<times> 'w" where
  "reclaim kern cgroup n swappiness st =
     (let refuse = (\<lambda>reason. \<lparr>ro_ok = False, ro_errno = Some einval, ro_requested = n, ro_reclaimed = 0,
                      ro_swappiness = swappiness, ro_reason = reason\<rparr>)
      in if n \<le> 0 then (\<lparr>ro_ok = True, ro_errno = None, ro_requested = 0, ro_reclaimed = 0, ro_swappiness = None,
                         ro_reason = NothingRequested\<rparr>, st)
         else case swappiness of
                None \<Rightarrow> reclaim_write kern cgroup n None st
              | Some s \<Rightarrow>
                  if \<not> (swappiness_min \<le> s \<and> s \<le> swappiness_max) then (refuse BadSwappiness, st)
                  else (case supports_swappiness kern cgroup st of (b, st') \<Rightarrow>
                          if \<not> b then (refuse NoSwappinessSupport, st')
                          else reclaim_write kern cgroup n swappiness st'))"

subsection \<open>The gates and the gain\<close>

record reclaim_cfg =
  rc_enabled :: bool
  rc_target_mem_pct :: real
  rc_psi_full_scale :: real
  rc_gain_min :: real
  rc_gain_max :: real
  rc_swappiness :: int
  rc_chunk_mb :: int
  rc_idle_cpu_threshold :: real
  rc_max_file_cache_fraction :: real
  rc_cooldown_sec :: real

definition reclaim_defaults :: reclaim_cfg where
  "reclaim_defaults = \<lparr>rc_enabled = False, rc_target_mem_pct = 80, rc_psi_full_scale = 10/100, rc_gain_min = 1/100,
     rc_gain_max = 5/100, rc_swappiness = default_reclaim_swappiness, rc_chunk_mb = 200,
     rc_idle_cpu_threshold = 5/100, rc_max_file_cache_fraction = 50/100, rc_cooldown_sec = 30\<rparr>"

definition pre_reclaim_swap_margin :: real where "pre_reclaim_swap_margin = 15/10"

definition cpu_busy_fraction :: "int option \<Rightarrow> int option \<Rightarrow> real \<Rightarrow> real option \<times> int option" where
  \<comment> \<open>the first argument is \<open>read_cpu_usec\<close> now\<close>
  "cpu_busy_fraction usec prev elapsed =
     (case usec of
        None \<Rightarrow> (None, None)
      | Some n \<Rightarrow>
          (case prev of
             None \<Rightarrow> (None, Some n)
           | Some p \<Rightarrow> if elapsed \<le> 0 \<or> n < p then (None, Some n)
                       else (Some (of_int (n - p) / (elapsed * 1000000)), Some n)))"

definition system_memory_deficit :: "reclaim_cfg \<Rightarrow> real \<Rightarrow> swap_ctl \<Rightarrow> mem_snapshot \<Rightarrow> int" where
  "system_memory_deficit cfg now sc meminfo =
     (let snapshot = worst_recent now sc meminfo;
          target = py_trunc (of_int (ms_mem_total snapshot) * rc_target_mem_pct cfg / 100)
      in max 0 (used_effective snapshot - target))"

definition reclaim_gain :: "reclaim_cfg \<Rightarrow> real \<Rightarrow> real" where
  "reclaim_gain cfg psi =
     (let low = rc_gain_min cfg; high = rc_gain_max cfg;
          scale = (if rc_psi_full_scale cfg = 0 then 1 else rc_psi_full_scale cfg);
          ratio = max 0 (min 1 (psi / scale))
      in low + (high - low) * ratio)"

datatype gate_reason = ReclaimDisabled | CgroupGone | CpuUnknown | TargetBusy | StatUnreadable | CacheHeavy | NoAnon | GateOk

definition should_reclaim ::
  "reclaim_cfg \<Rightarrow> 'w mem_kernel \<Rightarrow> 'w \<Rightarrow> string \<Rightarrow> real option \<Rightarrow> mem_ctl \<Rightarrow> (bool \<times> gate_reason) \<times> mem_ctl" where
  "should_reclaim cfg kern w cgroup busy c =
     (if \<not> rc_enabled cfg then ((False, ReclaimDisabled), c)
      else case cgroup_exists kern w cgroup c of (ex, c1) \<Rightarrow>
        if \<not> ex then ((False, CgroupGone), c1)
        else case busy of
               None \<Rightarrow> ((False, CpuUnknown), c1)
             | Some f \<Rightarrow>
                 if f > rc_idle_cpu_threshold cfg then ((False, TargetBusy), c1)
                 else (case read_flat_keyed kern w cgroup ''memory.stat'' c1 of (stat, c2) \<Rightarrow>
                   (case file_cache_fraction stat of
                      None \<Rightarrow> ((False, StatUnreadable), c2)
                    | Some cache \<Rightarrow>
                        if cache > rc_max_file_cache_fraction cfg then ((False, CacheHeavy), c2)
                        else (case read_flat_keyed kern w cgroup ''memory.stat'' c2 of (stat2, c3) \<Rightarrow>
                          if reclaimable_anon stat2 \<le> 0 then ((False, NoAnon), c3) else ((True, GateOk), c3)))))"

subsection \<open>Chunked reclaim\<close>

partial_function (option) reclaim_loop ::
  "'w mem_kernel \<Rightarrow> string \<Rightarrow> int \<Rightarrow> int option \<Rightarrow> int \<Rightarrow> int \<Rightarrow> int \<Rightarrow> reclaim_outcome \<Rightarrow> mem_ctl \<times> 'w
     \<Rightarrow> (reclaim_outcome \<times> int \<times> mem_ctl \<times> 'w) option" where
  \<comment> \<open>None: the loop never ends, which a chunk size of 0 or less would do\<close>
  "reclaim_loop kern cgroup nbytes swappiness chunk_bytes remaining freed lst st =
     (if remaining \<le> 0 then Some (lst, freed, st)
      else let (ex, c1) = cgroup_exists kern (snd st) cgroup (fst st)
           in if \<not> ex then Some (\<lparr>ro_ok = False, ro_errno = None, ro_requested = nbytes, ro_reclaimed = freed,
                                  ro_swappiness = swappiness, ro_reason = GoneMidReclaim\<rparr>, freed, (c1, snd st))
              else let chunk = min chunk_bytes remaining;
                       (r, st1) = reclaim kern cgroup chunk swappiness (c1, snd st)
                   in if \<not> ro_ok r then Some (r, freed + ro_reclaimed r, st1)
                      else reclaim_loop kern cgroup nbytes swappiness chunk_bytes (remaining - chunk)
                             (freed + ro_reclaimed r) r st1)"

definition reclaim_memory ::
  "'w mem_kernel \<Rightarrow> reclaim_cfg \<Rightarrow> string \<Rightarrow> int \<Rightarrow> int option \<Rightarrow> int option \<Rightarrow> mem_ctl \<times> 'w
     \<Rightarrow> (reclaim_outcome \<times> mem_ctl \<times> 'w) option" where
  "reclaim_memory kern cfg cgroup nbytes swappiness chunk_bytes st =
     (let sw = (case swappiness of None \<Rightarrow> Some (rc_swappiness cfg) | Some s \<Rightarrow> Some s);
          cb = (case chunk_bytes of None \<Rightarrow> max 1 (rc_chunk_mb cfg) * 1024 * 1024 | Some b \<Rightarrow> b);
          start = \<lparr>ro_ok = True, ro_errno = None, ro_requested = 0, ro_reclaimed = 0, ro_swappiness = sw,
                   ro_reason = NothingRequested\<rparr>
      in map_option (\<lambda>(lst, freed, st'). (\<lparr>ro_ok = ro_ok lst, ro_errno = ro_errno lst, ro_requested = nbytes,
                        ro_reclaimed = freed, ro_swappiness = sw, ro_reason = ro_reason lst\<rparr>, st'))
           (reclaim_loop kern cgroup nbytes sw cb (max 0 nbytes) 0 start st))"

subsection \<open>Swap headroom\<close>

definition ensure_swap_headroom ::
  "runner \<Rightarrow> fs_env \<Rightarrow> real \<Rightarrow> swap_ctl \<Rightarrow> mem_snapshot \<Rightarrow> int \<Rightarrow> bool \<Rightarrow> swap_world
     \<Rightarrow> (growth_plan \<times> action_result option) \<times> swap_world" where
  "ensure_swap_headroom run env now sc meminfo disk_total dry_run w =
     (let plan = plan_growth now sc meminfo disk_total (fe_available env) (fe_fstype env)
      in if \<not> gp_should_grow plan then ((plan, None), w)
         else case grow run env (sc_cfg sc) plan dry_run w of (r, w') \<Rightarrow> ((plan, Some r), w'))"

definition shrink_swap_if_idle ::
  "runner \<Rightarrow> fs_env \<Rightarrow> real \<Rightarrow> swap_ctl \<Rightarrow> mem_snapshot \<Rightarrow> bool \<Rightarrow> swap_world \<Rightarrow> action_result list \<times> swap_world" where
  "shrink_swap_if_idle run env now sc meminfo dry_run w =
     (if \<not> should_shrink now sc (active_devices w) then ([], w)
      else release run env (sc_cfg sc) dry_run meminfo False (Some 1) w)"

definition swap_covers :: "mem_snapshot \<Rightarrow> int \<Rightarrow> bool" where
  "swap_covers s nbytes \<longleftrightarrow> ms_swap_total s > 0 \<and> of_int (ms_swap_free s) \<ge> of_int nbytes * pre_reclaim_swap_margin"

record 'w headroom =
  hr_gate :: "('w \<Rightarrow> bool \<times> 'w) option"  \<comment> \<open>the caller's rate limiter\<close>
  hr_grow :: "'w \<Rightarrow> (growth_plan \<times> action_result option) option \<times> 'w"  \<comment> \<open>the queued headroom check; None: it raised\<close>
  hr_enabled :: bool
  hr_meminfo :: "'w \<Rightarrow> mem_snapshot"

definition grow_swap_for_manual_reclaim :: "'w headroom \<Rightarrow> 'w \<Rightarrow> bool option \<times> 'w" where
  \<comment> \<open>Some True: grown, Some False: wanted but unavailable, None: not needed or not attempted\<close>
  "grow_swap_for_manual_reclaim h w =
     (case (case hr_gate h of None \<Rightarrow> (True, w) | Some g \<Rightarrow> g w) of
        (False, w1) \<Rightarrow> (None, w1)
      | (True, w1) \<Rightarrow>
          (case hr_grow h w1 of
             (None, w2) \<Rightarrow> (Some False, w2)
           | (Some (plan, growth), w2) \<Rightarrow>
               if \<not> gp_should_grow plan then (None, w2)
               else (case growth of None \<Rightarrow> (Some False, w2) | Some r \<Rightarrow> (Some (ar_ok r), w2))))"

definition reclaim_retry ::
  "'w mem_kernel \<Rightarrow> reclaim_cfg \<Rightarrow> string \<Rightarrow> int \<Rightarrow> int \<Rightarrow> reclaim_outcome \<Rightarrow> mem_ctl \<times> 'w
     \<Rightarrow> (reclaim_outcome \<times> mem_ctl \<times> 'w) option" where
  \<comment> \<open>the second half of the manual reclaim, after swap was added\<close>
  "reclaim_retry kern cfg cgroup target requested first st =
     (case read_current kern (snd st) cgroup (fst st) of
        (None, c') \<Rightarrow> Some (first, c', snd st)
      | (Some current, c') \<Rightarrow>
          (let remaining = max 0 (current - target)
           in if remaining = 0
              then Some (\<lparr>ro_ok = True, ro_errno = None, ro_requested = requested, ro_reclaimed = ro_reclaimed first,
                          ro_swappiness = ro_swappiness first, ro_reason = TargetReached\<rparr>, c', snd st)
              else map_option (\<lambda>(r, st'). (\<lparr>ro_ok = ro_ok r, ro_errno = ro_errno r, ro_requested = requested,
                          ro_reclaimed = ro_reclaimed first + ro_reclaimed r, ro_swappiness = ro_swappiness r,
                          ro_reason = ro_reason r\<rparr>, st'))
                     (reclaim_memory kern cfg cgroup remaining None None (c', snd st))))"

definition reclaim_memory_to_target ::
  "'w mem_kernel \<Rightarrow> reclaim_cfg \<Rightarrow> 'w headroom \<Rightarrow> string \<Rightarrow> int \<Rightarrow> mem_ctl \<times> 'w
     \<Rightarrow> (reclaim_outcome \<times> mem_ctl \<times> 'w) option" where
  "reclaim_memory_to_target kern cfg h cgroup target st =
     (let plain = (\<lambda>ok reason. \<lparr>ro_ok = ok, ro_errno = None, ro_requested = 0, ro_reclaimed = 0,
                     ro_swappiness = None, ro_reason = reason\<rparr>)
      in case read_current kern (snd st) cgroup (fst st) of
           (None, c1) \<Rightarrow> Some (plain False CurrentUnreadable, c1, snd st)
         | (Some current, c1) \<Rightarrow>
             (let requested = max 0 (current - max 0 target)
              in if requested = 0 then Some (plain True AlreadyThere, c1, snd st)
                 else case (if hr_enabled h \<and> \<not> swap_covers (hr_meminfo h (snd st)) requested
                            then grow_swap_for_manual_reclaim h (snd st) else (None, snd st)) of
                        (grown, w1) \<Rightarrow>
                          Option.bind (reclaim_memory kern cfg cgroup requested None None (c1, w1)) (\<lambda>(o1, c2, w2).
                            if \<not> is_eagain o1 \<or> \<not> hr_enabled h \<or> grown = Some False then Some (o1, c2, w2)
                            else case grow_swap_for_manual_reclaim h w2 of (g2, w3) \<Rightarrow>
                                   if g2 \<noteq> Some True then Some (o1, c2, w3)
                                   else reclaim_retry kern cfg cgroup target requested o1 (c2, w3))))"

subsection \<open>Paths stay below the mount\<close>

definition below :: "string \<Rightarrow> string \<Rightarrow> bool" where
  \<comment> \<open>\<open>p\<close> is the mount followed by components, none of which is empty, a dot, two dots or contains a slash\<close>
  "below mount p \<longleftrightarrow> (\<exists>segs. p = mount @ concat (map ((#) (CHR ''/'')) segs) \<and>
     (\<forall>s\<in>set segs. s \<noteq> [] \<and> s \<noteq> ''.'' \<and> s \<noteq> ''..'' \<and> CHR ''/'' \<notin> set s))"

definition walk_below :: "string \<Rightarrow> (string \<times> string list) list \<Rightarrow> bool" where
  \<comment> \<open>what \<open>os.walk\<close> of the mount yields\<close>
  "walk_below mount walk \<longleftrightarrow> (\<forall>(parent_dir, dirs)\<in>set walk. below mount parent_dir \<and>
     (\<forall>d\<in>set dirs. d \<noteq> [] \<and> d \<noteq> ''.'' \<and> d \<noteq> ''..'' \<and> CHR ''/'' \<notin> set d))"

definition cache_below :: "mem_ctl \<Rightarrow> bool" where
  "cache_below c \<longleftrightarrow> (\<forall>k p. mc_cache c k = Some p \<longrightarrow> below (mc_mount c) p)"

lemma below_join:
  assumes "below mount parent_dir" "s \<noteq> []" "s \<noteq> ''.''" "s \<noteq> ''..''" "CHR ''/'' \<notin> set s"
  shows "below mount (path_join parent_dir s)"
proof -
  obtain segs where "parent_dir = mount @ concat (map ((#) (CHR ''/'')) segs)"
    "\<forall>s\<in>set segs. s \<noteq> [] \<and> s \<noteq> ''.'' \<and> s \<noteq> ''..'' \<and> CHR ''/'' \<notin> set s"
    using assms(1) unfolding below_def by blast
  then show ?thesis using assms(2-) unfolding below_def
    by (intro exI [of _ "segs @ [s]"]) (auto simp: path_join_def)
qed

lemma below_self: "below mount mount"
  unfolding below_def by (intro exI [of _ "[]"]) simp

lemma cgroup_id_no_slash: "cgroup_id_ok s \<Longrightarrow> s \<noteq> [] \<and> CHR ''/'' \<notin> set s"
  by (auto simp: cgroup_id_ok_def list_all_iff cgroup_id_char_def Let_def)

lemma split_char_no_sep: "w \<in> set (split_char c s) \<Longrightarrow> c \<notin> set w"
  by (induction c s arbitrary: w rule: split_char.induct) (auto split: if_splits list.splits)

lemma split_char_concat: "concat (map ((#) c) (split_char c s)) = c # s"
  by (induction s) (auto split: list.splits)

lemma safe_ref_below:
  assumes "is_safe_cgroup_ref cgroup"
  shows "below mount (path_join mount cgroup)"
proof -
  have "\<forall>s\<in>set (split_char (CHR ''/'') cgroup). s \<noteq> [] \<and> s \<noteq> ''.'' \<and> s \<noteq> ''..'' \<and> CHR ''/'' \<notin> set s"
    using assms split_char_no_sep cgroup_id_no_slash by (auto simp: is_safe_cgroup_ref_def list_all_iff)
  then show ?thesis unfolding below_def path_join_def
    by (intro exI [of _ "split_char (CHR ''/'') cgroup"]) (simp add: split_char_concat)
qed

lemma locate_below:
  assumes "locate kern w cgroup = Some p" "walk_below mount (mk_walk kern w)"
  shows "below mount p"
proof -
  obtain parent_dir dirs where r: "find (\<lambda>(_, dirs). cgroup \<in> set dirs) (mk_walk kern w) = Some (parent_dir, dirs)" "p = path_join parent_dir cgroup"
    using assms(1) by (auto simp: locate_def split: if_splits)
  then have "(parent_dir, dirs) \<in> set (mk_walk kern w)" "cgroup \<in> set dirs"
    by (auto simp: find_Some_iff) (metis nth_mem)
  then show ?thesis using assms(2) below_join r(2) by (fastforce simp: walk_below_def)
qed

text \<open>C7: no cgroup id escapes the cgroup mount. Whatever text is given as a cgroup id, the path that all
  reads and writes of the memory controller use is the mount followed by proper components, with no
  empty, \<open>.\<close> or \<open>..\<close> component, as long as the directory walk yields such directories; and the path cache
  keeps that property, so it holds for every later call.\<close>
theorem get_full_path_inside:
  assumes "walk_below (mc_mount c) (mk_walk kern w)" "cache_below c"
  shows "below (mc_mount c) (fst (get_full_path kern w cgroup c)) \<and> cache_below (snd (get_full_path kern w cgroup c))
    \<and> mc_mount (snd (get_full_path kern w cgroup c)) = mc_mount c"
proof -
  define cg where "cg = dropWhile (\<lambda>ch. ch = CHR ''/'') cgroup"
  have bad: "below (mc_mount c) (path_join (mc_mount c) no_such_cgroup)"
    by (rule below_join [OF below_self]) (simp_all add: no_such_cgroup_def)
  show ?thesis
  proof (cases "is_safe_cgroup_ref cg")
    case False
    then show ?thesis using bad assms(2) by (simp add: get_full_path_def Let_def cg_def [symmetric])
  next
    case True
    note plain = safe_ref_below [OF True, of "mc_mount c"]
    have search: "below (mc_mount c) (fst (case locate kern w cg of None \<Rightarrow> (path_join (mc_mount d) cg, d)
            | Some found \<Rightarrow> (found, d\<lparr>mc_cache := (mc_cache d)(cg \<mapsto> found)\<rparr>)))
        \<and> cache_below (snd (case locate kern w cg of None \<Rightarrow> (path_join (mc_mount d) cg, d)
            | Some found \<Rightarrow> (found, d\<lparr>mc_cache := (mc_cache d)(cg \<mapsto> found)\<rparr>)))
        \<and> mc_mount (snd (case locate kern w cg of None \<Rightarrow> (path_join (mc_mount d) cg, d)
            | Some found \<Rightarrow> (found, d\<lparr>mc_cache := (mc_cache d)(cg \<mapsto> found)\<rparr>))) = mc_mount c"
      if "cache_below d" "mc_mount d = mc_mount c" for d
      using that plain locate_below [OF _ assms(1), of cg]
      by (cases "locate kern w cg") (auto simp: cache_below_def)
    have del: "cache_below (c\<lparr>mc_cache := (mc_cache c)(cg := None)\<rparr>)"
      using assms(2) by (auto simp: cache_below_def)
    show ?thesis
    proof (cases "CHR ''/'' \<in> set cg")
      case slash: True
      then show ?thesis using True plain assms(2) by (simp add: get_full_path_def Let_def cg_def [symmetric])
    next
      case False
      show ?thesis
      proof (cases "mc_cache c cg")
        case None
        then show ?thesis using True False search [OF assms(2) refl]
          by (simp add: get_full_path_def Let_def cg_def [symmetric])
      next
        case (Some p)
        then have "below (mc_mount c) p" using assms(2) by (simp add: cache_below_def)
        then show ?thesis using True False Some assms(2) search [OF del]
          by (simp add: get_full_path_def Let_def cg_def [symmetric])
      qed
    qed
  qed
qed

definition demo_mem_kernel :: "unit mem_kernel" where
  "demo_mem_kernel = \<lparr>mk_walk = (\<lambda>w. [(''/cg'', [''a.slice'']), (''/cg/a.slice'', [''b.scope''])]),
     mk_isdir = (\<lambda>w p. True), mk_read = (\<lambda>w p. Some ''8192''), mk_write = (\<lambda>p v w. (None, w))\<rparr>"

lemma demo_walk_below: "walk_below ''/cg'' (mk_walk demo_mem_kernel ())"
proof -
  have "below ''/cg'' (path_join ''/cg'' ''a.slice'')" by (rule below_join [OF below_self]) simp_all
  then show ?thesis using below_self [of "''/cg''"] by (simp add: walk_below_def demo_mem_kernel_def path_join_def)
qed

theorem get_full_path_inside_witness:
  "below ''/cg'' (fst (get_full_path demo_mem_kernel () ''../../etc'' (mem_ctl_init ''/cg'')))
   \<and> below ''/cg'' (fst (get_full_path demo_mem_kernel () ''b.scope'' (mem_ctl_init ''/cg'')))"
proof -
  have "walk_below (mc_mount (mem_ctl_init ''/cg'')) (mk_walk demo_mem_kernel ())" "cache_below (mem_ctl_init ''/cg'')"
    using demo_walk_below by (simp_all add: mem_ctl_init_def cache_below_def)
  from get_full_path_inside [OF this] show ?thesis by (simp add: mem_ctl_init_def)
qed

subsection \<open>The chunked loop\<close>

inductive chunk_trace ::
  "'w mem_kernel \<Rightarrow> string \<Rightarrow> int option \<Rightarrow> mem_ctl \<times> 'w \<Rightarrow> int list \<Rightarrow> reclaim_outcome list \<Rightarrow> mem_ctl \<times> 'w \<Rightarrow> bool"
  for kern cgroup sw where
  \<comment> \<open>the writes of one call, in order: each chunk finds the cgroup alive and is one \<open>reclaim\<close>\<close>
  trace_nil: "chunk_trace kern cgroup sw st [] [] st"
| trace_cons: "cgroup_exists kern w cgroup c = (True, c1) \<Longrightarrow> reclaim kern cgroup k sw (c1, w) = (r, st1) \<Longrightarrow>
     chunk_trace kern cgroup sw st1 ks rs st2 \<Longrightarrow> chunk_trace kern cgroup sw (c, w) (k # ks) (r # rs) st2"

inductive_cases chunk_trace_consE: "chunk_trace kern cgroup sw st (k # ks) rs st2"

lemma reclaim_reclaimed_nonneg: "reclaim kern cgroup k sw st = (r, st') \<Longrightarrow> 0 \<le> ro_reclaimed r"
  by (auto simp: reclaim_def reclaim_write_def Let_def split: if_splits option.splits prod.splits)

text \<open>How a call can end, after the writes \<open>ks\<close> with the outcomes \<open>rs\<close> that led to the state \<open>st1\<close>: all was
  written; or the last write failed, and its error is the error of the call; or the cgroup was found gone
  before the next write.\<close>

definition reclaim_ended ::
  "'w mem_kernel \<Rightarrow> string \<Rightarrow> int \<Rightarrow> int list \<Rightarrow> reclaim_outcome list \<Rightarrow> mem_ctl \<times> 'w \<Rightarrow> reclaim_outcome
     \<Rightarrow> mem_ctl \<times> 'w \<Rightarrow> bool" where
  "reclaim_ended kern cgroup want ks rs st1 r st' \<longleftrightarrow>
     (ro_ok r \<and> list_all ro_ok rs \<and> sum_list ks = want \<and> st' = st1)
   \<or> (\<not> ro_ok r \<and> rs \<noteq> [] \<and> list_all ro_ok (butlast rs) \<and> \<not> ro_ok (last rs)
        \<and> ro_errno r = ro_errno (last rs) \<and> ro_reason r = ro_reason (last rs) \<and> st' = st1)
   \<or> (\<not> ro_ok r \<and> list_all ro_ok rs \<and> sum_list ks < want \<and> ro_errno r = None \<and> ro_reason r = GoneMidReclaim
        \<and> cgroup_exists kern (snd st1) cgroup (fst st1) = (False, fst st') \<and> snd st' = snd st1)"

lemma reclaim_ended_cons:
  "ro_ok r0 \<Longrightarrow> reclaim_ended kern cgroup (want - k) ks rs st1 r st' \<Longrightarrow>
     reclaim_ended kern cgroup want (k # ks) (r0 # rs) st1 r st'"
  by (auto simp: reclaim_ended_def)

lemma reclaim_loop_trace:
  assumes "0 < chunk" "0 \<le> remaining" "ro_ok lst"
  shows "\<exists>lst' freed' st' ks rs st1. reclaim_loop kern cgroup n sw chunk remaining freed lst st = Some (lst', freed', st')
    \<and> chunk_trace kern cgroup sw st ks rs st1 \<and> (\<forall>k\<in>set ks. 0 < k \<and> k \<le> chunk) \<and> sum_list ks \<le> remaining
    \<and> freed' = freed + sum_list (map ro_reclaimed rs) \<and> reclaim_ended kern cgroup remaining ks rs st1 lst' st'"
  using assms(2,3)
proof (induction "nat remaining" arbitrary: remaining freed lst st rule: less_induct)
  case less
  obtain c w where st: "st = (c, w)" by fastforce
  show ?case
  proof (cases "remaining = 0")
    case True
    have "reclaim_loop kern cgroup n sw chunk remaining freed lst st = Some (lst, freed, st)"
      using True by (subst reclaim_loop.simps) simp
    then show ?thesis using trace_nil [of kern cgroup sw st] less.prems True
      by (intro exI [of _ lst] exI [of _ freed] exI [of _ st] exI [of _ "[]"] exI [of _ st]) (simp add: reclaim_ended_def)
  next
    case False
    with less.prems have pos: "0 < remaining" by simp
    obtain ex c1 where e: "cgroup_exists kern w cgroup c = (ex, c1)" by fastforce
    show ?thesis
    proof (cases ex)
      case gone: False
      let ?l = "\<lparr>ro_ok = False, ro_errno = None, ro_requested = n, ro_reclaimed = freed,
                 ro_swappiness = sw, ro_reason = GoneMidReclaim\<rparr>"
      have "reclaim_loop kern cgroup n sw chunk remaining freed lst st = Some (?l, freed, (c1, w))"
        using pos gone e by (subst reclaim_loop.simps) (simp add: st)
      moreover have "reclaim_ended kern cgroup remaining [] [] st ?l (c1, w)"
        using pos gone e by (simp add: reclaim_ended_def st)
      ultimately show ?thesis using trace_nil [of kern cgroup sw st] less.prems(1)
        by (intro exI [of _ ?l] exI [of _ freed] exI [of _ "(c1, w)"] exI [of _ "[]"] exI [of _ st]) simp
    next
      case alive: True
      let ?k = "min chunk remaining"
      obtain r st1 where r: "reclaim kern cgroup ?k sw (c1, w) = (r, st1)" by (metis surj_pair)
      have e': "cgroup_exists kern w cgroup c = (True, c1)" using e alive by simp
      have k: "0 < ?k" "?k \<le> chunk" "?k \<le> remaining" using pos assms(1) by auto
      show ?thesis
      proof (cases "ro_ok r")
        case nok: False
        have l: "reclaim_loop kern cgroup n sw chunk remaining freed lst st = Some (r, freed + ro_reclaimed r, st1)"
          using pos alive nok e r by (subst reclaim_loop.simps) (simp add: st)
        have "chunk_trace kern cgroup sw st [?k] [r] st1"
          unfolding st by (rule trace_cons [OF e' r trace_nil])
        moreover have "reclaim_ended kern cgroup remaining [?k] [r] st1 r st1" using nok by (simp add: reclaim_ended_def)
        ultimately show ?thesis using l k
          by (intro exI [of _ r] exI [of _ "freed + ro_reclaimed r"] exI [of _ st1] exI [of _ "[?k]"] exI [of _ "[r]"]
              exI [of _ st1]) simp
      next
        case ok: True
        have l: "reclaim_loop kern cgroup n sw chunk remaining freed lst st
            = reclaim_loop kern cgroup n sw chunk (remaining - ?k) (freed + ro_reclaimed r) r st1"
          using pos alive ok e r by (subst reclaim_loop.simps) (simp add: st)
        have m: "nat (remaining - ?k) < nat remaining" "0 \<le> remaining - ?k" using pos k by linarith+
        note hyp = less.hyps [OF m ok, of "freed + ro_reclaimed r" st1]
        obtain lst' freed' st' ks rs st2 where
          ih: "reclaim_loop kern cgroup n sw chunk (remaining - ?k) (freed + ro_reclaimed r) r st1 = Some (lst', freed', st')"
            "chunk_trace kern cgroup sw st1 ks rs st2" "\<forall>k\<in>set ks. 0 < k \<and> k \<le> chunk" "sum_list ks \<le> remaining - ?k"
            "freed' = freed + ro_reclaimed r + sum_list (map ro_reclaimed rs)"
            "reclaim_ended kern cgroup (remaining - ?k) ks rs st2 lst' st'"
          using hyp by blast
        have "chunk_trace kern cgroup sw st (?k # ks) (r # rs) st2"
          unfolding st by (rule trace_cons [OF e' r ih(2)])
        moreover note reclaim_ended_cons [OF ok ih(6)]
        ultimately show ?thesis using l ih(1,3-5) k
          by (intro exI [of _ lst'] exI [of _ freed'] exI [of _ st'] exI [of _ "?k # ks"] exI [of _ "r # rs"] exI [of _ st2]) auto
      qed
    qed
  qed
qed

definition chunk_size :: "reclaim_cfg \<Rightarrow> int option \<Rightarrow> int" where
  \<comment> \<open>the largest write of a call: what the caller asked for, else the configured megabytes, at least one\<close>
  "chunk_size cfg chunk_bytes = (case chunk_bytes of Some b \<Rightarrow> b
     | None \<Rightarrow> if rc_chunk_mb cfg < 1 then 1048576 else rc_chunk_mb cfg * 1048576)"



text \<open>automatic reclaim is gated. It is allowed only when enabled, for a cgroup that exists, that is known
  to be idle, whose memory is readable and not mostly page cache, and that holds anonymous memory;
  and the share it takes per round is within the configured bounds and grows with the memory stall.\<close>
theorem should_reclaim_gates:
  assumes "should_reclaim cfg kern w cgroup busy c = ((True, why), c')" "rc_gain_min cfg \<le> rc_gain_max cfg"
    and "0 \<le> rc_psi_full_scale cfg" "psi \<le> psi'"
  shows "rc_enabled cfg \<and> (\<exists>f. busy = Some f \<and> f \<le> rc_idle_cpu_threshold cfg)
    \<and> fst (cgroup_exists kern w cgroup c)
    \<and> (\<exists>stat. (\<exists>d. stat = fst (read_flat_keyed kern w cgroup ''memory.stat'' d)) \<and> (\<exists>x. file_cache_fraction stat = Some x
          \<and> x \<le> rc_max_file_cache_fraction cfg))
    \<and> (\<exists>stat d. stat = fst (read_flat_keyed kern w cgroup ''memory.stat'' d) \<and> 0 < reclaimable_anon stat)
    \<and> rc_gain_min cfg \<le> reclaim_gain cfg psi \<and> reclaim_gain cfg psi \<le> rc_gain_max cfg
    \<and> reclaim_gain cfg psi \<le> reclaim_gain cfg psi'"
proof -
  obtain ex c1 where ex: "cgroup_exists kern w cgroup c = (ex, c1)" by fastforce
  obtain s1 c2 where s1: "read_flat_keyed kern w cgroup ''memory.stat'' c1 = (s1, c2)" by fastforce
  obtain s2 c3 where s2: "read_flat_keyed kern w cgroup ''memory.stat'' c2 = (s2, c3)" by fastforce
  have gates: "rc_enabled cfg" "ex" "\<exists>f. busy = Some f \<and> f \<le> rc_idle_cpu_threshold cfg"
    "\<exists>x. file_cache_fraction s1 = Some x \<and> x \<le> rc_max_file_cache_fraction cfg" "0 < reclaimable_anon s2"
    using assms(1) by (auto simp: should_reclaim_def ex s1 s2 split: if_splits option.splits)
  define scale where "scale = (if rc_psi_full_scale cfg = 0 then 1 else rc_psi_full_scale cfg)"
  define q where "q p = max 0 (min 1 (p / scale))" for p :: real
  have g: "reclaim_gain cfg p = rc_gain_min cfg + (rc_gain_max cfg - rc_gain_min cfg) * q p" for p
    by (simp add: reclaim_gain_def Let_def q_def scale_def)
  have d: "0 \<le> rc_gain_max cfg - rc_gain_min cfg" using assms(2) by simp
  have q: "0 \<le> q psi" "q psi \<le> 1" by (simp_all add: q_def)
  have "0 < scale" using assms(3) by (simp add: scale_def)
  then have "psi / scale \<le> psi' / scale" using assms(4) by (simp add: divide_right_mono)
  then have qm: "q psi \<le> q psi'" by (auto simp: q_def)
  have "0 \<le> (rc_gain_max cfg - rc_gain_min cfg) * q psi" using d q(1) by simp
  moreover have "(rc_gain_max cfg - rc_gain_min cfg) * q psi \<le> rc_gain_max cfg - rc_gain_min cfg"
    using d q(2) by (simp add: mult_left_le)
  moreover have "(rc_gain_max cfg - rc_gain_min cfg) * q psi \<le> (rc_gain_max cfg - rc_gain_min cfg) * q psi'"
    using d qm by (rule mult_left_mono [rotated])
  ultimately have "rc_gain_min cfg \<le> reclaim_gain cfg psi" "reclaim_gain cfg psi \<le> rc_gain_max cfg"
    "reclaim_gain cfg psi \<le> reclaim_gain cfg psi'" unfolding g by linarith+
  moreover have "\<exists>d. s1 = fst (read_flat_keyed kern w cgroup ''memory.stat'' d)"
    "\<exists>d. s2 = fst (read_flat_keyed kern w cgroup ''memory.stat'' d)" using s1 s2 by (metis fst_conv)+
  ultimately show ?thesis using gates ex by (metis fst_conv)
qed

definition idle_kernel :: "unit mem_kernel" where
  "idle_kernel = demo_mem_kernel\<lparr>mk_read := (\<lambda>w p. Some ''anon 9'')\<rparr>"

lemma idle_stat: "fst (read_flat_keyed idle_kernel () cg param c) = [(''anon'', 9)]"
proof -
  have "flat_keyed (split_char (CHR 0x0A) (strip ''anon 9'')) [] = [(''anon'', 9)]"
    by (simp add: strip_def is_space_def split_ws_def py_int_def parse_nat_def is_digit_def nat_of_digits_def digit_val_def)
  then show ?thesis
    by (simp add: read_flat_keyed_def get_parameter_def idle_kernel_def split: prod.split)
qed

theorem should_reclaim_gates_witness:
  "fst (fst (should_reclaim (reclaim_defaults\<lparr>rc_enabled := True\<rparr>) idle_kernel () ''b.scope'' (Some 0) (mem_ctl_init ''/cg'')))
   \<and> reclaim_gain reclaim_defaults 0 \<le> reclaim_gain reclaim_defaults 1"
proof -
  let ?cfg = "reclaim_defaults\<lparr>rc_enabled := True\<rparr>"
  have cache: "file_cache_fraction [(''anon'', 9)] = Some 0" "reclaimable_anon [(''anon'', 9)] = 9"
    by (simp_all add: file_cache_fraction_def reclaimable_anon_def get_or_def)
  have ex: "fst (cgroup_exists idle_kernel () g c)" for g c
    by (simp add: cgroup_exists_def idle_kernel_def demo_mem_kernel_def split: prod.split)
  obtain why c' where s: "should_reclaim ?cfg idle_kernel () ''b.scope'' (Some 0) (mem_ctl_init ''/cg'') = ((True, why), c')"
  proof -
    obtain c1 where c1: "cgroup_exists idle_kernel () ''b.scope'' (mem_ctl_init ''/cg'') = (True, c1)"
      using ex by (metis prod.collapse)
    obtain c2 where c2: "read_flat_keyed idle_kernel () ''b.scope'' ''memory.stat'' c1 = ([(''anon'', 9)], c2)"
      using idle_stat by (metis prod.collapse)
    obtain c3 where c3: "read_flat_keyed idle_kernel () ''b.scope'' ''memory.stat'' c2 = ([(''anon'', 9)], c3)"
      using idle_stat by (metis prod.collapse)
    show ?thesis using that by (simp add: should_reclaim_def c1 c2 c3 cache reclaim_defaults_def)
  qed
  have g: "reclaim_gain ?cfg p = reclaim_gain reclaim_defaults p" for p by (simp add: reclaim_gain_def)
  have "reclaim_gain ?cfg 0 \<le> reclaim_gain ?cfg 1"
    using should_reclaim_gates [OF s, of 0 1] by (simp add: reclaim_defaults_def)
  then show ?thesis using s g by simp
qed

end
