(* ===== verification/Cpu.thy ===== *)
theory Cpu
  imports Py_String "HOL-Library.AList"
begin

text \<open>
  \<open>balancer/controller/cpu.py\<close>: the cpu list notation, the choice of a core class, and the per-cgroup
  pinning with its restore. A cgroup directory is the list of its path components below the mount.
  The cgroup files are a record; the kernel's reaction to a write is an argument (\<open>cg_kernel\<close>).
\<close>

subsection \<open>The cpu list notation\<close>

definition cpu_tokens :: "string \<Rightarrow> string list" where
  \<comment> \<open>\<open>re.split(r"[,\s]+", spec.strip())\<close> without its empty tokens\<close>
  "cpu_tokens spec = filter (\<lambda>t. t \<noteq> []) (split_char (CHR '','') (map (\<lambda>c. if is_space c then CHR '','' else c) (strip spec)))"

definition parse_cpu_token :: "string \<Rightarrow> py_error + nat list" where
  "parse_cpu_token t =
     (case partition_at (CHR ''-'') t of (a, dash, b) \<Rightarrow>
        (case parse_nat a of
           None \<Rightarrow> Inl ValueError
         | Some i \<Rightarrow>
             if \<not> dash then Inr [i..<Suc i]
             else (case parse_nat b of
                     None \<Rightarrow> Inl ValueError
                   | Some j \<Rightarrow> if j < i then Inl ValueError else Inr [i..<Suc j])))"

fun parse_cpu_tokens :: "string list \<Rightarrow> py_error + nat list" where
  "parse_cpu_tokens [] = Inr []"
| "parse_cpu_tokens (t # ts) = bindE (parse_cpu_token t) (\<lambda>xs. bindE (parse_cpu_tokens ts) (\<lambda>ys. Inr (xs @ ys)))"

definition parse_cpu_list :: "string \<Rightarrow> py_error + nat set" where
  "parse_cpu_list spec = bindE (parse_cpu_tokens (cpu_tokens spec)) (\<lambda>xs. Inr (set xs))"

fun run_end :: "nat \<Rightarrow> nat list \<Rightarrow> nat \<times> nat list" where
  \<comment> \<open>the inner loop: the last element of the run that starts at \<open>c\<close>, and what follows it\<close>
  "run_end c [] = (c, [])"
| "run_end c (x # xs) = (if x = Suc c then run_end x xs else (c, x # xs))"

lemma run_end_length: "run_end c xs = (e, rest) \<Longrightarrow> length rest \<le> length xs"
  by (induction c xs rule: run_end.induct) (auto split: if_splits)

function cpu_runs :: "nat list \<Rightarrow> (nat \<times> nat) list" where
  "cpu_runs [] = []"
| "cpu_runs (x # xs) = (case run_end x xs of (e, rest) \<Rightarrow> (x, e) # cpu_runs rest)"
  by pat_completeness auto
termination
  by (relation "measure length") (auto dest!: sym run_end_length intro: le_imp_less_Suc)

definition cpu_part :: "nat \<times> nat \<Rightarrow> string" where
  "cpu_part r = (case r of (i, j) \<Rightarrow> if i = j then show_nat i else show_nat i @ ''-'' @ show_nat j)"

definition format_cpu_list :: "nat set \<Rightarrow> string" where
  "format_cpu_list cpus = join_with '','' (map cpu_part (cpu_runs (sorted_list_of_set cpus)))"

subsection \<open>Choosing cores\<close>

datatype cpu_refusal = BadList | EmptyCustom | NotOnline string | NoSuchCores string "string list" | UnknownClass string

definition core_classes :: "string list" where "core_classes = [''p'', ''e'', ''lpe'']"

definition core_key :: "string \<Rightarrow> string" where
  "core_key cls = cls @ ''_cores''"

definition core_class_options :: "(string \<rightharpoonup> nat list) \<Rightarrow> string \<Rightarrow> nat list option" where
  \<comment> \<open>the non-empty classes; a missing key and None read as the empty list\<close>
  "core_class_options groups cls =
     (if cls \<in> set core_classes
      then (case groups (core_key cls) of Some xs \<Rightarrow> if xs = [] then None else Some (sort xs) | None \<Rightarrow> None)
      else None)"

definition resolve_cpus :: "string \<Rightarrow> string \<Rightarrow> (string \<rightharpoonup> nat list) \<Rightarrow> nat set \<Rightarrow> cpu_refusal + string" where
  \<comment> \<open>right: the \<open>cpuset.cpus\<close> value; left: the refusal (the code's None and message)\<close>
  "resolve_cpus cpu_class cpus groups online =
     (let cls = lower cpu_class
      in if cls = ''custom''
         then (case parse_cpu_list cpus of
                 Inl _ \<Rightarrow> Inl BadList
               | Inr wanted \<Rightarrow>
                   if wanted = {} then Inl EmptyCustom
                   else if wanted - online \<noteq> {} then Inl (NotOnline (format_cpu_list (wanted - online)))
                   else Inr (format_cpu_list wanted))
         else if cls \<in> set core_classes
         then (case core_class_options groups cls of
                 None \<Rightarrow> Inl (NoSuchCores cls (filter (\<lambda>c. core_class_options groups c \<noteq> None) core_classes))
               | Some xs \<Rightarrow> Inr (format_cpu_list (set xs)))
         else Inl (UnknownClass cls))"

subsection \<open>The controller\<close>

type_synonym cg = "string list"

record cg_world =
  cw_isdir :: "cg \<Rightarrow> bool"
  cw_cpus :: "cg \<rightharpoonup> string"        \<comment> \<open>\<open>cpuset.cpus\<close>, stripped\<close>
  cw_effective :: "cg \<rightharpoonup> string"   \<comment> \<open>\<open>cpuset.cpus.effective\<close>, stripped\<close>
  cw_subtree :: "cg \<rightharpoonup> string"     \<comment> \<open>\<open>cgroup.subtree_control\<close>, stripped\<close>

record cg_kernel =
  ck_cpus :: "cg \<Rightarrow> string \<Rightarrow> cg_world \<Rightarrow> int option \<times> cg_world"  \<comment> \<open>None: written; Some: errno\<close>
  ck_subtree :: "cg \<Rightarrow> string \<Rightarrow> cg_world \<Rightarrow> int option \<times> cg_world"

record cpu_ctl =
  co_originals :: "(cg \<times> string) list"  \<comment> \<open>a dict, in insertion order\<close>
  co_applied :: "cg \<rightharpoonup> string"
  co_last :: "string \<rightharpoonup> (string \<times> string)"

definition cpu_ctl_init :: cpu_ctl where
  "cpu_ctl_init = \<lparr>co_originals = [], co_applied = Map.empty, co_last = Map.empty\<rparr>"

definition cg_ancestors :: "cg \<Rightarrow> cg list" where
  "cg_ancestors d = (if d = [] then [[]] else prefixes (butlast d))"

fun enable_chain :: "cg_kernel \<Rightarrow> cg list \<Rightarrow> bool \<Rightarrow> cg_world \<Rightarrow> bool \<times> cg_world" where
  "enable_chain kern [] ok w = (ok, w)"
| "enable_chain kern (a # rest) ok w =
     (case cw_subtree w a of
        None \<Rightarrow> enable_chain kern rest ok w
      | Some s \<Rightarrow>
          if ''cpuset'' \<in> set (split_ws s) then enable_chain kern rest ok w
          else (case ck_subtree kern a ''+cpuset'' w of
                  (None, w') \<Rightarrow> enable_chain kern rest ok w'
                | (Some _, w') \<Rightarrow> enable_chain kern rest False w'))"

definition enable_for :: "cg_kernel \<Rightarrow> cg \<Rightarrow> cg_world \<Rightarrow> bool \<times> cg_world" where
  "enable_for kern d w = enable_chain kern (cg_ancestors d) True w"

definition parent_effective :: "cg_world \<Rightarrow> cg \<Rightarrow> string option" where
  "parent_effective w d = (if d = [] then None else cw_effective w (butlast d))"

definition restriction :: "cg_world \<Rightarrow> cg \<Rightarrow> string option \<Rightarrow> string option" where
  "restriction w d v =
     (case v of
        None \<Rightarrow> None
      | Some [] \<Rightarrow> Some []
      | Some x \<Rightarrow>
          (case parent_effective w d of
             None \<Rightarrow> v
           | Some [] \<Rightarrow> v
           | Some p \<Rightarrow>
               (case (parse_cpu_list x, parse_cpu_list p) of
                  (Inr a, Inr b) \<Rightarrow> if b \<subseteq> a then Some [] else v
                | _ \<Rightarrow> v)))"

definition is_bound :: "cg \<Rightarrow> cpu_ctl \<Rightarrow> bool" where
  "is_bound d c \<longleftrightarrow> map_of (co_originals c) d \<noteq> None"

definition bound_cgroups :: "cpu_ctl \<Rightarrow> cg list" where
  "bound_cgroups c = map fst (co_originals c)"

record cpu_view =
  cv_cgroup :: string
  cv_cpus :: "string option"
  cv_configured :: "string option"
  cv_bound :: bool
  cv_original :: "string option"

definition cgroup_state :: "cg \<Rightarrow> cpu_ctl \<Rightarrow> cg_world \<Rightarrow> cpu_view" where
  "cgroup_state d c w =
     \<lparr>cv_cgroup = (if d = [] then [] else last d), cv_cpus = cw_effective w d,
      cv_configured = restriction w d (cw_cpus w d), cv_bound = is_bound d c,
      cv_original = map_of (co_originals c) d\<rparr>"

datatype pin_result = PinOk | PinGone | PinNoController | PinUnavailable | PinWriteFailed int | PinNotEffective

definition remember_pin :: "cg \<Rightarrow> string \<Rightarrow> string \<Rightarrow> cpu_ctl \<Rightarrow> cpu_ctl" where
  \<comment> \<open>\<open>setdefault\<close> on the originals, plain assignment on the applied values\<close>
  "remember_pin d original cpus c =
     c\<lparr>co_originals := (if map_of (co_originals c) d = None then co_originals c @ [(d, original)] else co_originals c),
       co_applied := (co_applied c)(d \<mapsto> cpus)\<rparr>"

definition same_cpus :: "string option \<Rightarrow> string \<Rightarrow> bool" where
  "same_cpus effective cpus =
     (case effective of
        None \<Rightarrow> False
      | Some e \<Rightarrow> (case (parse_cpu_list e, parse_cpu_list cpus) of (Inr a, Inr b) \<Rightarrow> a = b | _ \<Rightarrow> False))"

definition set_cpus :: "cg_kernel \<Rightarrow> cg \<Rightarrow> string \<Rightarrow> cpu_ctl \<times> cg_world \<Rightarrow> pin_result \<times> cpu_ctl \<times> cg_world" where
  "set_cpus kern d cpus st =
     (case st of (c, w) \<Rightarrow>
        if \<not> cw_isdir w d then (PinGone, c, w)
        else (case enable_for kern d w of
                (False, w1) \<Rightarrow> (PinNoController, c, w1)
              | (True, w1) \<Rightarrow>
                  (case cw_cpus w1 d of
                     None \<Rightarrow> (PinUnavailable, c, w1)
                   | Some raw \<Rightarrow>
                       (let original = the (restriction w1 d (Some raw))
                        in case ck_cpus kern d cpus w1 of
                             (Some e, w2) \<Rightarrow> (PinWriteFailed e, c, w2)
                           | (None, w2) \<Rightarrow>
                               (if same_cpus (cw_effective w2 d) cpus then PinOk else PinNotEffective,
                                remember_pin d original cpus c, w2)))))"

definition forget_pin :: "cg \<Rightarrow> cpu_ctl \<Rightarrow> cpu_ctl" where
  "forget_pin d c = c\<lparr>co_originals := AList.delete d (co_originals c), co_applied := (co_applied c)(d := None)\<rparr>"

definition changed_elsewhere :: "string option \<Rightarrow> string option \<Rightarrow> bool" where
  "changed_elsewhere current applied =
     (case (current, applied) of
        (Some a, Some b) \<Rightarrow>
          (case (parse_cpu_list a, parse_cpu_list b) of (Inr x, Inr y) \<Rightarrow> x \<noteq> y | _ \<Rightarrow> False)
      | _ \<Rightarrow> False)"

definition enospc :: int where "enospc = 28"

definition unpin_fallback :: "cg_world \<Rightarrow> cg \<Rightarrow> string \<Rightarrow> int \<Rightarrow> string option" where
  "unpin_fallback w d original e =
     (if original \<noteq> [] \<or> e \<noteq> enospc then None
      else case parent_effective w d of Some (x # xs) \<Rightarrow> Some (x # xs) | _ \<Rightarrow> None)"

datatype restore_result =
    NotOurs "string option" | AlreadyGone | ControllerDisabled | ChangedOutside "string option"
  | RestoreFailed int | RestoredTo string

fun restore_ok :: "restore_result \<Rightarrow> bool" where
  "restore_ok (RestoreFailed _) = False"
| "restore_ok _ = True"

definition restore :: "cg_kernel \<Rightarrow> cg \<Rightarrow> cpu_ctl \<times> cg_world \<Rightarrow> restore_result \<times> cpu_ctl \<times> cg_world" where
  "restore kern d st =
     (case st of (c, w) \<Rightarrow>
        (case map_of (co_originals c) d of
           None \<Rightarrow> (NotOurs (restriction w d (cw_cpus w d)), c, w)
         | Some original \<Rightarrow>
             if \<not> cw_isdir w d then (AlreadyGone, forget_pin d c, w)
             else if cw_cpus w d = None then (ControllerDisabled, forget_pin d c, w)
             else if changed_elsewhere (cw_cpus w d) (co_applied c d) then (ChangedOutside (cw_cpus w d), forget_pin d c, w)
             else (case ck_cpus kern d original w of
                     (None, w1) \<Rightarrow> (RestoredTo original, forget_pin d c, w1)
                   | (Some e, w1) \<Rightarrow>
                       (case unpin_fallback w1 d original e of
                          None \<Rightarrow> (RestoreFailed e, c, w1)
                        | Some fb \<Rightarrow>
                            (case ck_cpus kern d fb w1 of
                               (None, w2) \<Rightarrow> (RestoredTo original, forget_pin d c, w2)
                             | (Some e2, w2) \<Rightarrow> (RestoreFailed e2, c, w2))))))"

fun restore_each :: "cg_kernel \<Rightarrow> cg list \<Rightarrow> nat \<Rightarrow> cpu_ctl \<times> cg_world \<Rightarrow> nat \<times> cpu_ctl \<times> cg_world" where
  "restore_each kern [] failed st = (failed, st)"
| "restore_each kern (d # ds) failed st =
     (case restore kern d st of (r, st') \<Rightarrow> restore_each kern ds (if restore_ok r then failed else Suc failed) st')"

definition restore_all :: "cg_kernel \<Rightarrow> cpu_ctl \<times> cg_world \<Rightarrow> nat \<times> cpu_ctl \<times> cg_world" where
  "restore_all kern st = restore_each kern (bound_cgroups (fst st)) 0 st"

definition describe_cpus :: "string \<Rightarrow> string" where
  "describe_cpus spec = (if spec \<noteq> [] then ''CPU '' @ spec else ''no restriction'')"

definition last_choice :: "string \<Rightarrow> cpu_ctl \<Rightarrow> (string \<times> string) option" where
  "last_choice app_id c = co_last c app_id"

definition remember_choice :: "string \<Rightarrow> string \<Rightarrow> string \<Rightarrow> cpu_ctl \<Rightarrow> cpu_ctl" where
  "remember_choice app_id cls cpus c = c\<lparr>co_last := (co_last c)(app_id \<mapsto> (cls, cpus))\<rparr>"

subsection \<open>Round trip of the notation\<close>

lemma run_end_spec:
  assumes "run_end c xs = (e, rest)" "sorted (c # xs)" "distinct (c # xs)"
  shows "c \<le> e \<and> set (c # xs) = {c..e} \<union> set rest \<and> sorted rest \<and> distinct rest"
  using assms
proof (induction c xs rule: run_end.induct)
  case (2 c x xs)
  show ?case
  proof (cases "x = Suc c")
    case True
    with 2 have "Suc c \<le> e \<and> set (Suc c # xs) = {Suc c..e} \<union> set rest \<and> sorted rest \<and> distinct rest"
      by simp
    moreover from this have "insert c {Suc c..e} = {c..e}" by (metis Suc_leD atLeastAtMost_insertL)
    ultimately show ?thesis using True by auto
  qed (use 2 in auto)
qed auto

lemma cpu_runs_spec:
  assumes "sorted xs" "distinct xs"
  shows "(\<Union>(i, j)\<in>set (cpu_runs xs). {i..j}) = set xs \<and> (\<forall>(i, j)\<in>set (cpu_runs xs). i \<le> j)"
  using assms
proof (induction xs rule: cpu_runs.induct)
  case (2 x xs)
  obtain e rest where r: "run_end x xs = (e, rest)" by fastforce
  from run_end_spec [OF r 2(2,3)] have sp: "x \<le> e" "set (x # xs) = {x..e} \<union> set rest" "sorted rest" "distinct rest" by auto
  from 2(1) [OF r [symmetric] sp(3,4)]
  have ih: "(\<Union>(i, j)\<in>set (cpu_runs rest). {i..j}) = set rest" "\<forall>(i, j)\<in>set (cpu_runs rest). i \<le> j" by auto
  have c: "cpu_runs (x # xs) = (x, e) # cpu_runs rest" by (simp add: r)
  show ?case unfolding c sp(2) using ih sp(1) by auto
qed simp

lemma show_nat_no_dash: "CHR ''-'' \<notin> set (show_nat n)" "CHR '','' \<notin> set (show_nat n)"
  using show_nat_digits [of n] digit_not_special by (auto simp: list_all_iff)

lemma cpu_part_chars:
  "CHR '','' \<notin> set (cpu_part r)" "\<forall>c\<in>set (cpu_part r). \<not> is_space c" "cpu_part r \<noteq> []"
proof -
  obtain i j where r: "r = (i, j)" by fastforce
  have n: "\<forall>c\<in>set (show_nat n). \<not> is_space c" for n using show_nat_no_space [of n] by (simp add: list_all_iff)
  show "CHR '','' \<notin> set (cpu_part r)" using show_nat_no_dash by (simp add: cpu_part_def r)
  show "\<forall>c\<in>set (cpu_part r). \<not> is_space c" using n by (auto simp: cpu_part_def r is_space_def)
  show "cpu_part r \<noteq> []" using show_nat_digits by (simp add: cpu_part_def r)
qed

lemma parse_cpu_part: "i \<le> j \<Longrightarrow> parse_cpu_token (cpu_part (i, j)) = Inr [i..<Suc j]"
  using show_nat_no_dash
  by (auto simp: parse_cpu_token_def cpu_part_def partition_at_none partition_at_mid not_less)

lemma parse_cpu_parts:
  "\<forall>(i, j)\<in>set rs. i \<le> j \<Longrightarrow>
     parse_cpu_tokens (map cpu_part rs) = Inr (concat (map (\<lambda>(i, j). [i..<Suc j]) rs))"
  by (induction rs) (auto simp: parse_cpu_part bindE_def)

lemma set_ranges: "set (concat (map (\<lambda>(i, j). [i..<Suc j]) rs)) = (\<Union>(i, j)\<in>set rs. {i..j})"
proof (induction rs)
  case (Cons r rs)
  have "set [i..<Suc j] = {i..j}" for i j :: nat by auto
  then show ?case using Cons by (cases r) (simp del: upt_Suc)
qed simp

lemma join_chars: "set (join_with sep ws) \<subseteq> set sep \<union> (\<Union>w\<in>set ws. set w)"
  by (induction sep ws rule: join_with.induct) auto

lemma cpu_tokens_join:
  assumes "rs \<noteq> []"
  shows "cpu_tokens (join_with '','' (map cpu_part rs)) = map cpu_part rs"
proof -
  let ?s = "join_with '','' (map cpu_part rs)"
  have ns: "\<forall>c\<in>set ?s. \<not> is_space c"
  proof
    fix c assume "c \<in> set ?s"
    then have "c = CHR '','' \<or> (\<exists>r\<in>set rs. c \<in> set (cpu_part r))"
      using join_chars [of "'',''" "map cpu_part rs"] by auto
    then show "\<not> is_space c" using cpu_part_chars(2) by (auto simp: is_space_def)
  qed
  have "map (\<lambda>c. if is_space c then CHR '','' else c) ?s = ?s"
    using ns by (intro map_idI) simp
  moreover have "strip ?s = ?s" using ns by (intro strip_no_space) (simp add: list_all_iff)
  moreover have "split_char (CHR '','') ?s = map cpu_part rs"
    using assms cpu_part_chars(1) by (intro split_join) auto
  moreover have "filter (\<lambda>t. t \<noteq> []) (map cpu_part rs) = map cpu_part rs"
    using cpu_part_chars(3) by (intro filter_True) auto
  ultimately show ?thesis by (simp add: cpu_tokens_def)
qed

lemma parse_format_cpu_list_fin:
  assumes "finite S"
  shows "parse_cpu_list (format_cpu_list S) = Inr S"
proof (cases "S = {}")
  case True
  then show ?thesis
    by (simp add: format_cpu_list_def parse_cpu_list_def cpu_tokens_def strip_def bindE_def)
next
  case False
  let ?rs = "cpu_runs (sorted_list_of_set S)"
  have sp: "(\<Union>(i, j)\<in>set ?rs. {i..j}) = S" "\<forall>(i, j)\<in>set ?rs. i \<le> j"
    using cpu_runs_spec [of "sorted_list_of_set S"] assms by auto
  then have ne: "?rs \<noteq> []" using False by auto
  have "set (concat (map (\<lambda>(i, j). [i..<Suc j]) ?rs)) = (\<Union>(i, j)\<in>set ?rs. {i..j})"
    by (rule set_ranges)
  then show ?thesis
    unfolding format_cpu_list_def parse_cpu_list_def cpu_tokens_join [OF ne] parse_cpu_parts [OF sp(2)]
    by (simp add: bindE_def sp(1))
qed

text \<open>the cpu list notation round-trips. Formatting any finite set of cpus and parsing the text gives
  the set back, so nothing is lost or added between a selection, the cgroup file and the comparison
  with what the kernel reports.\<close>
theorem parse_format_cpu_list:
  assumes "finite S"
  shows "parse_cpu_list (format_cpu_list S) = Inr S"
  by (rule parse_format_cpu_list_fin) (fact assms)

theorem parse_format_cpu_list_witness:
  "format_cpu_list {0, 1, 4} = ''0-1,4'' \<and> parse_cpu_list ''0-1,4'' = Inr {0, 1, 4}"
proof -
  have l: "sorted_list_of_set {0, 1, 4} = [0, 1, 4::nat]" by simp
  have n: "show_nat 0 = ''0''" "show_nat 1 = ''1''" "show_nat 4 = ''4''"
    by (simp_all add: show_nat.simps digit_char_def char_of_def bit_0)
  have f: "format_cpu_list {0, 1, 4} = ''0-1,4''"
    unfolding format_cpu_list_def l by (simp add: cpu_part_def n [simplified])
  moreover have "parse_cpu_list (format_cpu_list {0, 1, 4}) = Inr {0, 1, 4}"
    by (rule parse_format_cpu_list) simp
  ultimately show ?thesis by simp
qed

text \<open>a core selection the service accepts is usable. The value handed to the cgroup denotes a
  non-empty set of cpus: for \<open>custom\<close> exactly the requested cpus, all of them online; for a core class
  exactly the cores of that class of this machine; and every other class name is refused.\<close>
theorem resolve_cpus_sound:
  assumes "resolve_cpus cpu_class cpus groups online = Inr v"
  shows "\<exists>W. parse_cpu_list v = Inr W \<and> W \<noteq> {} \<and>
     (lower cpu_class = ''custom'' \<longrightarrow> parse_cpu_list cpus = Inr W \<and> W \<subseteq> online) \<and>
     (lower cpu_class \<noteq> ''custom'' \<longrightarrow> lower cpu_class \<in> set core_classes \<and>
        (\<exists>xs. groups (core_key (lower cpu_class)) = Some xs \<and> W = set xs))"
proof (cases "lower cpu_class = ''custom''")
  case True
  with assms obtain W where w: "parse_cpu_list cpus = Inr W" "W \<noteq> {}" "W \<subseteq> online" "v = format_cpu_list W"
    by (auto simp: resolve_cpus_def Let_def split: sum.splits if_splits)
  from w(1) have "finite W"
    by (auto simp: parse_cpu_list_def bindE_def split: sum.splits)
  with w show ?thesis using parse_format_cpu_list_fin True by auto
next
  case False
  with assms obtain xs where x: "core_class_options groups (lower cpu_class) = Some xs"
    "lower cpu_class \<in> set core_classes" "v = format_cpu_list (set xs)"
    by (auto simp: resolve_cpus_def Let_def split: option.splits if_splits)
  then obtain ys where y: "groups (core_key (lower cpu_class)) = Some ys" "ys \<noteq> []" "xs = sort ys"
    by (auto simp: core_class_options_def split: option.splits if_splits)
  with x show ?thesis using parse_format_cpu_list_fin [of "set ys"] False by auto
qed

theorem resolve_cpus_sound_witness:
  "resolve_cpus ''P'' [] [''p_cores'' \<mapsto> [4, 5]] {0..7} = Inr (format_cpu_list {4, 5})
   \<and> (\<exists>W. parse_cpu_list (format_cpu_list {4, 5}) = Inr W \<and> W = {4, 5})"
proof -
  have l: "lower ''P'' = ''p''" by (simp add: lower_def char_of_def bit_0)
  have r: "resolve_cpus ''P'' [] [''p_cores'' \<mapsto> [4, 5]] {0..7} = Inr (format_cpu_list {4, 5})"
    by (simp add: resolve_cpus_def l core_classes_def core_class_options_def core_key_def)
  from resolve_cpus_sound [OF r] r show ?thesis by (auto simp: l core_key_def)
qed

subsection \<open>Pinning and restoring\<close>

definition cg_kernel_ok :: "cg_kernel \<Rightarrow> bool" where
  \<comment> \<open>what the code relies on: an accepted write of \<open>cpuset.cpus\<close> makes the file read back as an equal cpu
      list and touches no other group's setting, a refused one changes nothing, and enabling the
      controller on an ancestor does not change a setting that exists\<close>
  "cg_kernel_ok kern \<longleftrightarrow>
     (\<forall>d v w r w'. ck_cpus kern d v w = (r, w') \<longrightarrow> cw_isdir w' = cw_isdir w \<and>
        (case r of Some e \<Rightarrow> w' = w
         | None \<Rightarrow> \<exists>x. cw_cpus w' = (cw_cpus w)(d \<mapsto> x) \<and> parse_cpu_list x = parse_cpu_list v)) \<and>
     (\<forall>a v w r w'. ck_subtree kern a v w = (r, w') \<longrightarrow> cw_isdir w' = cw_isdir w \<and>
        (\<forall>d x. cw_cpus w d = Some x \<longrightarrow> cw_cpus w' d = Some x))"

lemma enable_chain_keeps:
  assumes "enable_chain kern as ok w = (b, w')" "cg_kernel_ok kern"
  shows "cw_isdir w' = cw_isdir w \<and> (\<forall>d x. cw_cpus w d = Some x \<longrightarrow> cw_cpus w' d = Some x)"
  using assms(1)
proof (induction as arbitrary: ok w)
  case (Cons a as)
  show ?case
  proof (cases "cw_subtree w a")
    case None
    then show ?thesis using Cons by auto
  next
    case (Some s)
    obtain r w1 where k: "ck_subtree kern a ''+cpuset'' w = (r, w1)" by fastforce
    have w1: "cw_isdir w1 = cw_isdir w \<and> (\<forall>d x. cw_cpus w d = Some x \<longrightarrow> cw_cpus w1 d = Some x)"
      using assms(2) k unfolding cg_kernel_ok_def by blast
    show ?thesis
    proof (cases "''cpuset'' \<in> set (split_ws s)")
      case True
      then show ?thesis using Cons Some by simp
    next
      case False
      have "\<exists>ok'. enable_chain kern as ok' w1 = (b, w')"
        using Cons.prems by (cases r) (auto simp: Some False k)
      then show ?thesis using Cons.IH w1 by metis
    qed
  qed
qed simp

fun pin_run :: "cg_kernel \<Rightarrow> cg \<Rightarrow> string list \<Rightarrow> cpu_ctl \<times> cg_world \<Rightarrow> cpu_ctl \<times> cg_world" where
  "pin_run kern d [] st = st"
| "pin_run kern d (v # vs) st = pin_run kern d vs (snd (set_cpus kern d v st))"

definition pinned :: "cg \<Rightarrow> string \<Rightarrow> cpu_ctl \<Rightarrow> cg_world \<Rightarrow> bool" where
  \<comment> \<open>\<open>d\<close> is bound, its first original is \<open>o\<close> and the file still holds what was applied last\<close>
  "pinned d orig c w \<longleftrightarrow> map_of (co_originals c) d = Some orig \<and> cw_isdir w d \<and>
     (\<exists>x v. cw_cpus w d = Some x \<and> co_applied c d = Some v \<and> parse_cpu_list x = parse_cpu_list v)"

lemma set_cpus_pins:
  assumes "set_cpus kern d v (c, w) = (r, c', w')" "cg_kernel_ok kern" "pinned d orig c w"
  shows "pinned d orig c' w'"
proof -
  obtain b w1 where e: "enable_for kern d w = (b, w1)" by fastforce
  have k1: "cw_isdir w1 = cw_isdir w" "\<forall>d x. cw_cpus w d = Some x \<longrightarrow> cw_cpus w1 d = Some x"
    using enable_chain_keeps [OF _ assms(2)] e unfolding enable_for_def by blast+
  then have p1: "pinned d orig c w1" using assms(3) unfolding pinned_def by fastforce
  obtain q w2 where k: "ck_cpus kern d v w1 = (q, w2)" by fastforce
  have k2: "cw_isdir w2 = cw_isdir w1"
    "case q of Some e \<Rightarrow> w2 = w1 | None \<Rightarrow> \<exists>x. cw_cpus w2 = (cw_cpus w1)(d \<mapsto> x) \<and> parse_cpu_list x = parse_cpu_list v"
    using assms(2) k unfolding cg_kernel_ok_def by blast+
  from p1 obtain x where x: "cw_cpus w1 d = Some x" "cw_isdir w1 d" unfolding pinned_def by auto
  have d: "cw_isdir w d" using assms(3) by (simp add: pinned_def)
  show ?thesis
  proof (cases b)
    case False
    then show ?thesis using assms(1) p1 d e by (simp add: set_cpus_def)
  next
    case True
    show ?thesis
    proof (cases q)
      case (Some e1)
      then show ?thesis using assms(1) p1 d e True x k k2 by (simp add: set_cpus_def Let_def)
    next
      case None
      then have "c' = remember_pin d (the (restriction w1 d (Some x))) v c" "w' = w2"
        using assms(1) d e True x k by (simp_all add: set_cpus_def Let_def)
      then show ?thesis using k2 None p1 x by (auto simp: pinned_def remember_pin_def)
    qed
  qed
qed

lemma pin_run_pins:
  assumes "cg_kernel_ok kern" "pinned d orig (fst st) (snd st)"
  shows "pinned d orig (fst (pin_run kern d vs st)) (snd (pin_run kern d vs st))"
  using assms(2)
proof (induction vs arbitrary: st)
  case (Cons v vs)
  obtain c w where st: "st = (c, w)" by fastforce
  obtain r c' w' where s: "set_cpus kern d v (c, w) = (r, c', w')" by (metis surj_pair)
  from set_cpus_pins [OF s assms(1)] Cons show ?case by (simp add: st s)
qed simp

text \<open>A setting that restricts nothing: every cpu the parent may use is in it. This is what makes the
  code record "no restriction" instead of the list it read.\<close>

definition restricts_nothing :: "cg_world \<Rightarrow> cg \<Rightarrow> string \<Rightarrow> bool" where
  "restricts_nothing w d x \<longleftrightarrow> d \<noteq> [] \<and> (\<exists>p A B. cw_effective w (butlast d) = Some p \<and> p \<noteq> []
     \<and> parse_cpu_list x = Inr A \<and> parse_cpu_list p = Inr B \<and> B \<subseteq> A)"

lemma restriction_recorded:
  "the (restriction w d (Some x)) = (if restricts_nothing w d x then [] else x)"
  by (auto simp: restriction_def restricts_nothing_def parent_effective_def
      split: list.splits option.splits sum.splits)

lemma first_pin:
  assumes "set_cpus kern d v (c, w) = (r, c', w')" "cg_kernel_ok kern" "\<not> is_bound d c"
    and "r = PinOk \<or> r = PinNotEffective" "cw_cpus w d = Some x"
  shows "pinned d (if restricts_nothing (snd (enable_for kern d w)) d x then [] else x) c' w'"
proof -
  obtain b w1 where e: "enable_for kern d w = (b, w1)" by fastforce
  have k1: "cw_isdir w1 = cw_isdir w" "cw_cpus w1 d = Some x"
    using enable_chain_keeps [OF _ assms(2)] e assms(5) unfolding enable_for_def by blast+
  obtain q w2 where k: "ck_cpus kern d v w1 = (q, w2)" by fastforce
  have k2: "cw_isdir w2 = cw_isdir w1"
    "case q of Some e \<Rightarrow> w2 = w1 | None \<Rightarrow> \<exists>x. cw_cpus w2 = (cw_cpus w1)(d \<mapsto> x) \<and> parse_cpu_list x = parse_cpu_list v"
    using assms(2) k unfolding cg_kernel_ok_def by blast+
  have b: b and q: "q = None" and dir: "cw_isdir w d"
    using assms(1,4) e k k1 by (auto simp: set_cpus_def Let_def split: if_splits bool.splits option.splits)
  let ?o = "the (restriction w1 d (Some x))"
  have o: "?o = (if restricts_nothing (snd (enable_for kern d w)) d x then [] else x)"
    by (simp add: restriction_recorded e)
  have "c' = remember_pin d ?o v c" "w' = w2"
    using assms(1) dir b q e k k1 by (simp_all add: set_cpus_def Let_def)
  moreover have "map_of (co_originals (remember_pin d ?o v c)) d = Some ?o"
    using assms(3) by (simp add: remember_pin_def is_bound_def map_add_Some_iff)
  ultimately have "pinned d ?o c' w'" using k1 k2 q dir
    by (auto simp: pinned_def remember_pin_def)
  with o show ?thesis by simp
qed

lemma restore_pinned:
  assumes "restore kern d (c, w) = (r, c', w')" "cg_kernel_ok kern" "pinned d orig c w"
  shows "(restore_ok r \<longrightarrow> \<not> is_bound d c' \<and> (\<exists>y. cw_cpus w' d = Some y \<and>
            (parse_cpu_list y = parse_cpu_list orig \<or>
             (orig = [] \<and> (\<exists>p. parent_effective w d = Some p \<and> parse_cpu_list y = parse_cpu_list p)))))
       \<and> (\<not> restore_ok r \<longrightarrow> c' = c \<and> w' = w)"
proof -
  from assms(3) obtain x v where x: "map_of (co_originals c) d = Some orig" "cw_isdir w d" "cw_cpus w d = Some x"
    "co_applied c d = Some v" "parse_cpu_list x = parse_cpu_list v" unfolding pinned_def by blast
  have "\<not> changed_elsewhere (cw_cpus w d) (co_applied c d)"
    using x by (auto simp: changed_elsewhere_def split: sum.splits)
  note pre = x this
  have forget: "\<not> is_bound d (forget_pin d c)" by (simp add: is_bound_def forget_pin_def delete_conv)
  obtain q w1 where k: "ck_cpus kern d orig w = (q, w1)" by fastforce
  have k1: "case q of Some e \<Rightarrow> w1 = w | None \<Rightarrow> \<exists>x. cw_cpus w1 = (cw_cpus w)(d \<mapsto> x) \<and> parse_cpu_list x = parse_cpu_list orig"
    using assms(2) k unfolding cg_kernel_ok_def by blast
  show ?thesis
  proof (cases q)
    case None
    then have "r = RestoredTo orig" "c' = forget_pin d c" "w' = w1"
      using assms(1) pre k by (simp_all add: restore_def)
    then show ?thesis using k1 None forget by auto
  next
    case (Some e)
    then have w1: "w1 = w" using k1 by simp
    show ?thesis
    proof (cases "unpin_fallback w d orig e")
      case None
      then have "r = RestoreFailed e" "c' = c" "w' = w" using assms(1) pre k Some w1 by (simp_all add: restore_def)
      then show ?thesis by simp
    next
      case fb: (Some fb)
      then have o: "orig = []" "parent_effective w d = Some fb"
        by (auto simp: unpin_fallback_def split: if_splits option.splits list.splits)
      obtain q2 w2 where k2: "ck_cpus kern d fb w = (q2, w2)" by fastforce
      have k3: "case q2 of Some e \<Rightarrow> w2 = w | None \<Rightarrow> \<exists>x. cw_cpus w2 = (cw_cpus w)(d \<mapsto> x) \<and> parse_cpu_list x = parse_cpu_list fb"
        using assms(2) k2 unfolding cg_kernel_ok_def by blast
      have "(q2 = None \<and> r = RestoredTo orig \<and> c' = forget_pin d c \<and> w' = w2)
         \<or> (\<exists>e2. q2 = Some e2 \<and> r = RestoreFailed e2 \<and> c' = c \<and> w' = w2)"
        using assms(1) pre k Some w1 fb k2 by (cases q2) (simp_all add: restore_def)
      then show ?thesis using k3 forget o by auto
    qed
  qed
qed

text \<open>C6: a pin is undone to what was there before it. Take a cgroup that is not bound and whose
  \<open>cpuset.cpus\<close> reads \<open>x\<close>, a first pin whose write goes through, and any sequence of further pins of the
  same cgroup, successful or not, with nobody else writing the file. The original that a later restore
  uses is "no restriction" exactly when \<open>x\<close> contained every cpu the parent could use at the first pin, and
  \<open>x\<close> itself otherwise: a restriction somebody else had made is never lost, and none of our own values is
  ever taken for it. A restore that reports success has unbound the cgroup and left a setting equal to
  that original, or, for "no restriction" on a kernel that refuses to clear the file, the parent's cpus; a
  restore that fails has changed nothing and keeps the record, so it can be retried.\<close>
theorem pin_restore_roundtrip:
  assumes "set_cpus kern d v (c0, w0) = (r, c1, w1)" "cg_kernel_ok kern" "\<not> is_bound d c0"
    and "r = PinOk \<or> r = PinNotEffective" "cw_cpus w0 d = Some x"
    and "pin_run kern d vs (c1, w1) = (c2, w2)" "restore kern d (c2, w2) = (res, c3, w3)"
  shows "\<exists>orig. orig = (if restricts_nothing (snd (enable_for kern d w0)) d x then [] else x)
    \<and> map_of (co_originals c2) d = Some orig
    \<and> (restore_ok res \<longrightarrow> \<not> is_bound d c3 \<and> (\<exists>y. cw_cpus w3 d = Some y \<and>
          (parse_cpu_list y = parse_cpu_list orig \<or>
           (orig = [] \<and> (\<exists>p. parent_effective w2 d = Some p \<and> parse_cpu_list y = parse_cpu_list p)))))
    \<and> (\<not> restore_ok res \<longrightarrow> c3 = c2 \<and> w3 = w2)"
proof -
  let ?o = "if restricts_nothing (snd (enable_for kern d w0)) d x then [] else x"
  have p2: "pinned d ?o c2 w2"
    using pin_run_pins [OF assms(2), of d ?o "(c1, w1)" vs] first_pin [OF assms(1-5)] assms(6) by simp
  then have m: "map_of (co_originals c2) d = Some ?o" unfolding pinned_def by blast
  show ?thesis by (rule exI [of _ ?o]) (intro conjI refl m restore_pinned [OF assms(7,2) p2, THEN conjunct1]
      restore_pinned [OF assms(7,2) p2, THEN conjunct2])
qed

definition plain_kernel :: cg_kernel where
  "plain_kernel = \<lparr>ck_cpus = (\<lambda>d v w. (None, w\<lparr>cw_cpus := (cw_cpus w)(d \<mapsto> v)\<rparr>)), ck_subtree = (\<lambda>a v w. (None, w))\<rparr>"

lemma plain_kernel_ok: "cg_kernel_ok plain_kernel"
  by (auto simp: cg_kernel_ok_def plain_kernel_def)

definition demo_cg_world :: cg_world where
  "demo_cg_world = \<lparr>cw_isdir = (\<lambda>d. True), cw_cpus = [[''app.scope''] \<mapsto> ''0''], cw_effective = Map.empty,
     cw_subtree = Map.empty\<rparr>"

theorem pin_restore_roundtrip_witness:
  "\<exists>y. cw_cpus (snd (snd (restore plain_kernel [''app.scope'']
      (pin_run plain_kernel [''app.scope''] [''3''] (snd (set_cpus plain_kernel [''app.scope''] ''2'' (cpu_ctl_init, demo_cg_world)))))))
      [''app.scope''] = Some y \<and> parse_cpu_list y = parse_cpu_list ''0''"
proof -
  let ?d = "[''app.scope'']"
  have s: "set_cpus plain_kernel ?d v (c, demo_cg_world\<lparr>cw_cpus := [?d \<mapsto> x]\<rparr>)
      = (PinNotEffective, remember_pin ?d x v c, demo_cg_world\<lparr>cw_cpus := [?d \<mapsto> v]\<rparr>)" for v c x
    by (auto simp: set_cpus_def enable_for_def cg_ancestors_def demo_cg_world_def plain_kernel_def restriction_def
        parent_effective_def same_cpus_def split: list.splits)
  have d0: "demo_cg_world = demo_cg_world\<lparr>cw_cpus := [?d \<mapsto> ''0'']\<rparr>" by (simp add: demo_cg_world_def)
  let ?c1 = "remember_pin ?d ''0'' ''2'' cpu_ctl_init" and ?w1 = "demo_cg_world\<lparr>cw_cpus := [?d \<mapsto> ''2'']\<rparr>"
  let ?c2 = "remember_pin ?d ''2'' ''3'' ?c1" and ?w2 = "demo_cg_world\<lparr>cw_cpus := [?d \<mapsto> ''3'']\<rparr>"
  have s1: "set_cpus plain_kernel ?d ''2'' (cpu_ctl_init, demo_cg_world) = (PinNotEffective, ?c1, ?w1)"
    using s [of "''2''" cpu_ctl_init "''0''"] d0 by simp
  have p: "pin_run plain_kernel ?d [''3''] (?c1, ?w1) = (?c2, ?w2)" by (simp add: s)
  obtain res c3 w3 where r: "restore plain_kernel ?d (?c2, ?w2) = (res, c3, w3)" by (metis surj_pair)
  have nb: "\<not> is_bound ?d cpu_ctl_init" by (simp add: is_bound_def cpu_ctl_init_def)
  have x: "cw_cpus demo_cg_world ?d = Some ''0''" by (simp add: demo_cg_world_def)
  have ok: "restore_ok res" using r
    by (auto simp: restore_def plain_kernel_def split: option.splits if_splits)
  have free: "\<not> restricts_nothing (snd (enable_for plain_kernel ?d demo_cg_world)) ?d ''0''"
    by (simp add: restricts_nothing_def enable_for_def cg_ancestors_def demo_cg_world_def)
  from pin_restore_roundtrip [OF s1 plain_kernel_ok nb _ x p r] ok free obtain y where
    "cw_cpus w3 ?d = Some y" "parse_cpu_list y = parse_cpu_list ''0''"
    by auto
  then show ?thesis unfolding s1 snd_conv p r by blast
qed

subsection \<open>Shutdown\<close>

lemma delete_unbound: "map_of al d = None \<Longrightarrow> AList.delete d al = al"
  by (induction al) (auto split: if_splits)

lemma restore_originals:
  "restore kern d (c, w) = (r, c', w') \<Longrightarrow>
     co_originals c' = (if restore_ok r then AList.delete d (co_originals c) else co_originals c)"
  by (auto simp: restore_def forget_pin_def delete_unbound split: option.splits if_splits prod.splits)

lemma length_delete:
  "distinct (map fst al) \<Longrightarrow> d \<in> fst ` set al \<Longrightarrow> Suc (length (AList.delete d al)) = length al"
proof (induction al)
  case (Cons x al)
  show ?case
  proof (cases "fst x = d")
    case True
    with Cons.prems(1) have "map_of al d = None" by (auto simp: map_of_eq_None_iff)
    then show ?thesis using True by (cases x) (simp add: delete_unbound)
  next
    case False
    with Cons show ?thesis by (cases x) auto
  qed
qed simp

lemma restore_each_count:
  assumes "restore_each kern ds f (c, w) = (n, c', w')" "distinct ds" "set ds \<subseteq> fst ` set (co_originals c)"
    and "distinct (map fst (co_originals c))"
  shows "n + length (co_originals c) = f + length ds + length (co_originals c')
    \<and> set (co_originals c') \<subseteq> set (co_originals c)"
  using assms
proof (induction ds arbitrary: f c w)
  case (Cons d ds)
  obtain r c1 w1 where r: "restore kern d (c, w) = (r, c1, w1)" by (metis surj_pair)
  note o = restore_originals [OF r]
  let ?f = "if restore_ok r then f else Suc f"
  have step: "restore_each kern ds ?f (c1, w1) = (n, c', w')" using Cons.prems(1) by (simp add: r)
  have kk: "map fst (co_originals c1) = (if restore_ok r then removeAll d (map fst (co_originals c)) else map fst (co_originals c))"
    using o by (simp add: delete_keys)
  have keys: "set ds \<subseteq> fst ` set (co_originals c1)" "distinct (map fst (co_originals c1))"
    using Cons.prems(2-4) kk unfolding set_map [symmetric] by (auto simp: distinct_removeAll)
  have sub: "set (co_originals c1) \<subseteq> set (co_originals c)" using o by (auto simp: AList.delete_eq)
  have len: "restore_ok r \<Longrightarrow> Suc (length (co_originals c1)) = length (co_originals c)"
    "\<not> restore_ok r \<Longrightarrow> co_originals c1 = co_originals c"
    using o length_delete [OF Cons.prems(4)] Cons.prems(3) by auto
  from Cons.IH [OF step _ keys] Cons.prems(2) sub len show ?case by (cases "restore_ok r") auto
qed simp

text \<open>shutting down restores every pin it can. Whatever the kernel and the cgroup files do, \<open>restore_all\<close>
  reports as failures exactly the cgroups still bound afterwards, and each of those still has the
  original it had; a result of 0 means that no cgroup is left bound.\<close>
theorem restore_all_counts_failures:
  assumes "restore_all kern (c, w) = (failed, c', w')" "distinct (map fst (co_originals c))"
  shows "failed = length (bound_cgroups c') \<and> set (co_originals c') \<subseteq> set (co_originals c)
    \<and> (failed = 0 \<longrightarrow> (\<forall>d. \<not> is_bound d c'))"
proof -
  have "failed + length (co_originals c) = 0 + length (map fst (co_originals c)) + length (co_originals c')
      \<and> set (co_originals c') \<subseteq> set (co_originals c)"
    using assms by (intro restore_each_count) (simp_all add: restore_all_def bound_cgroups_def)
  then show ?thesis by (auto simp: bound_cgroups_def is_bound_def)
qed

theorem restore_all_counts_failures_witness:
  "fst (restore_all plain_kernel (remember_pin [''app.scope''] ''0'' ''2'' cpu_ctl_init, demo_cg_world))
   = length (bound_cgroups (fst (snd (restore_all plain_kernel
       (remember_pin [''app.scope''] ''0'' ''2'' cpu_ctl_init, demo_cg_world)))))"
proof -
  let ?c = "remember_pin [''app.scope''] ''0'' ''2'' cpu_ctl_init"
  obtain n c' w' where r: "restore_all plain_kernel (?c, demo_cg_world) = (n, c', w')" by (metis surj_pair)
  have "distinct (map fst (co_originals ?c))" by (simp add: remember_pin_def cpu_ctl_init_def)
  from restore_all_counts_failures [OF r this] r show ?thesis by simp
qed

end
