(* ===== verification/Freeze.thy ===== *)
theory Freeze
  imports Py_String
begin

text \<open>
  \<open>balancer/controller/freeze.py\<close> and the freeze operations of \<open>controller/control_manager.py\<close>. The world
  holds, per cgroup directory, whether it exists, the text of \<open>cgroup.events\<close> and the value last accepted
  by \<open>cgroup.freeze\<close>, and the cgroup ids in the state file. The kernel is an argument: its answer to a
  write, its progress between two polls, and the number of polls that fit the timeout. Every operation
  carries the list of the worlds it passes through, because the point of the record is a crash between
  any two steps.
\<close>

subsection \<open>The world\<close>

record fz_world =
  fz_isdir :: "string \<Rightarrow> bool"
  fz_events :: "string \<Rightarrow> string option"
  fz_want :: "string \<Rightarrow> bool"
  fz_state :: "string list option"

record fz_kernel =
  fk_write :: "string \<Rightarrow> bool \<Rightarrow> fz_world \<Rightarrow> bool \<times> fz_world"
  fk_tick :: "fz_world \<Rightarrow> fz_world"
  fk_polls :: nat
  fk_persist :: bool  \<comment> \<open>the state file can be replaced\<close>

type_synonym fz_run = "fz_world \<times> fz_world list"  \<comment> \<open>the world, and the worlds passed so far\<close>

definition fz_to :: "fz_world \<Rightarrow> fz_run \<Rightarrow> fz_run" where
  "fz_to w s = (w, snd s @ [w])"

subsection \<open>freeze.py\<close>

fun events_frozen :: "string list \<Rightarrow> bool option" where
  "events_frozen [] = None"
| "events_frozen (line # rest) =
     (case partition_at (CHR '' '') line of (key, _, v) \<Rightarrow>
        if key = ''frozen'' then Some (strip v = ''1'') else events_frozen rest)"

definition is_frozen :: "fz_world \<Rightarrow> string \<Rightarrow> bool option" where
  "is_frozen w path =
     (case fz_events w path of None \<Rightarrow> None | Some txt \<Rightarrow> events_frozen (split_char (CHR 0x0A) txt))"

fun poll_frozen :: "fz_kernel \<Rightarrow> nat \<Rightarrow> string \<Rightarrow> bool \<Rightarrow> fz_run \<Rightarrow> bool \<times> fz_run" where
  "poll_frozen kern 0 path frozen s = (is_frozen (fst s) path = Some frozen, s)"
| "poll_frozen kern (Suc n) path frozen s =
     (if is_frozen (fst s) path = Some frozen then (True, s)
      else poll_frozen kern n path frozen (fz_to (fk_tick kern (fst s)) s))"

datatype freeze_result = FreezeOk | FreezeWriteFailed | FreezeTimeout | FreezeGone | FreezeNoCgroup

definition set_frozen :: "fz_kernel \<Rightarrow> string \<Rightarrow> bool \<Rightarrow> fz_run \<Rightarrow> freeze_result \<times> fz_run" where
  "set_frozen kern path frozen s =
     (case fk_write kern path frozen (fst s) of
        (False, w) \<Rightarrow> (FreezeWriteFailed, fz_to w s)
      | (True, w) \<Rightarrow>
          (case poll_frozen kern (fk_polls kern) path frozen (fz_to w s) of
             (ok, s') \<Rightarrow> (if ok then FreezeOk else FreezeTimeout, s')))"

definition read_state :: "fz_world \<Rightarrow> string list" where
  "read_state w = (case fz_state w of None \<Rightarrow> [] | Some cs \<Rightarrow> cs)"

definition write_state :: "fz_kernel \<Rightarrow> string list \<Rightarrow> fz_run \<Rightarrow> fz_run" where
  \<comment> \<open>the temporary file is renamed over the old one: the record changes in one step or not at all\<close>
  "write_state kern cgroups s =
     (if fk_persist kern then fz_to ((fst s)\<lparr>fz_state := Some (sort (remdups cgroups))\<rparr>) s else s)"

definition record_freeze :: "fz_kernel \<Rightarrow> string \<Rightarrow> bool \<Rightarrow> fz_run \<Rightarrow> fz_run" where
  "record_freeze kern cgroup frozen s =
     (let current = read_state (fst s)
      in write_state kern (if frozen then cgroup # current else filter (\<lambda>c. c \<noteq> cgroup) current) s)"

fun thaw_each :: "fz_kernel \<Rightarrow> (string \<Rightarrow> string) \<Rightarrow> string list \<Rightarrow> fz_run \<Rightarrow> string list \<times> string list \<times> fz_run" where
  \<comment> \<open>the thawed and the kept ids\<close>
  "thaw_each kern resolve [] s = ([], [], s)"
| "thaw_each kern resolve (c # cs) s =
     (if \<not> fz_isdir (fst s) (resolve c) then thaw_each kern resolve cs s
      else (case set_frozen kern (resolve c) False s of
              (r, s1) \<Rightarrow>
                (case thaw_each kern resolve cs s1 of
                   (thawed, keep, s2) \<Rightarrow> if r = FreezeOk then (c # thawed, keep, s2) else (thawed, c # keep, s2))))"

definition thaw_recorded :: "fz_kernel \<Rightarrow> (string \<Rightarrow> string) \<Rightarrow> fz_run \<Rightarrow> string list \<times> fz_run" where
  "thaw_recorded kern resolve s =
     (case thaw_each kern resolve (read_state (fst s)) s of
        (thawed, keep, s1) \<Rightarrow> (thawed, write_state kern keep s1))"

subsection \<open>control\_manager.py\<close>

definition freeze_cgroup :: "fz_kernel \<Rightarrow> (string \<Rightarrow> string) \<Rightarrow> string \<Rightarrow> bool \<Rightarrow> fz_run \<Rightarrow> freeze_result \<times> fz_run" where
  \<comment> \<open>\<open>FreezeOk\<close> and \<open>FreezeGone\<close> are the code's success results\<close>
  "freeze_cgroup kern resolve cgroup frozen s =
     (let path = resolve cgroup
      in if \<not> fz_isdir (fst s) path
         then (if \<not> frozen then (FreezeGone, record_freeze kern cgroup False s) else (FreezeNoCgroup, s))
         else (case set_frozen kern path frozen (if frozen then record_freeze kern cgroup True s else s) of
                 (r, s1) \<Rightarrow>
                   if r = FreezeOk \<and> \<not> frozen then (r, record_freeze kern cgroup False s1)
                   else if r \<noteq> FreezeOk \<and> frozen \<and> is_frozen (fst s1) path \<noteq> Some True
                   then (r, record_freeze kern cgroup False s1)
                   else (r, s1)))"

definition thaw_leftover_frozen :: "fz_kernel \<Rightarrow> (string \<Rightarrow> string) \<Rightarrow> fz_run \<Rightarrow> string list \<times> fz_run" where
  "thaw_leftover_frozen kern resolve s = thaw_recorded kern resolve s"

subsection \<open>What the kernel promises\<close>

definition fz_kernel_ok :: "fz_kernel \<Rightarrow> bool" where
  \<comment> \<open>a write changes the request of its own cgroup only, a refused one nothing; neither a write nor the
      passing of time touches the directories or the state file\<close>
  "fz_kernel_ok kern \<longleftrightarrow>
     (\<forall>p b w ok w'. fk_write kern p b w = (ok, w') \<longrightarrow>
        fz_state w' = fz_state w \<and> fz_isdir w' = fz_isdir w \<and> fz_want w' = (if ok then (fz_want w)(p := b) else fz_want w)) \<and>
     (\<forall>w. fz_state (fk_tick kern w) = fz_state w \<and> fz_want (fk_tick kern w) = fz_want w
        \<and> fz_isdir (fk_tick kern w) = fz_isdir w)"

definition recorded :: "string \<Rightarrow> fz_world \<Rightarrow> bool" where
  "recorded c w \<longleftrightarrow> c \<in> set (read_state w)"

lemma poll_frozen_run:
  assumes "poll_frozen kern n p b s = (ok, s')" "fz_kernel_ok kern"
  shows "fz_state (fst s') = fz_state (fst s) \<and> fz_want (fst s') = fz_want (fst s) \<and> fz_isdir (fst s') = fz_isdir (fst s)
    \<and> (\<exists>tr. snd s' = snd s @ tr \<and> (\<forall>w\<in>set tr. fz_state w = fz_state (fst s) \<and> fz_isdir w = fz_isdir (fst s) \<and> fz_want w = fz_want (fst s)))
    \<and> (ok \<longleftrightarrow> is_frozen (fst s') p = Some b)"
  using assms(1)
proof (induction n arbitrary: s)
  case (Suc n)
  show ?case
  proof (cases "is_frozen (fst s) p = Some b")
    case True
    then show ?thesis using Suc.prems by auto
  next
    case False
    let ?s1 = "fz_to (fk_tick kern (fst s)) s"
    have t: "fz_state (fst ?s1) = fz_state (fst s)" "fz_want (fst ?s1) = fz_want (fst s)" "fz_isdir (fst ?s1) = fz_isdir (fst s)"
      "snd ?s1 = snd s @ [fst ?s1]"
      using assms(2) by (simp_all add: fz_kernel_ok_def fz_to_def)
    from Suc.prems False have "poll_frozen kern n p b ?s1 = (ok, s')" by simp
    from Suc.IH [OF this] t show ?thesis by auto
  qed
qed auto

lemma set_frozen_run:
  assumes "set_frozen kern p b s = (r, s')" "fz_kernel_ok kern"
  shows "fz_state (fst s') = fz_state (fst s) \<and> fz_isdir (fst s') = fz_isdir (fst s)
    \<and> fz_want (fst s') = (if r = FreezeWriteFailed then fz_want (fst s) else (fz_want (fst s))(p := b))
    \<and> (\<exists>tr. snd s' = snd s @ tr \<and> (\<forall>w\<in>set tr. fz_state w = fz_state (fst s) \<and> fz_isdir w = fz_isdir (fst s)
         \<and> fz_want w = (if r = FreezeWriteFailed then fz_want (fst s) else (fz_want (fst s))(p := b))))
    \<and> (r = FreezeOk \<or> r = FreezeWriteFailed \<or> r = FreezeTimeout) \<and> (r = FreezeOk \<longrightarrow> is_frozen (fst s') p = Some b)
    \<and> (r = FreezeTimeout \<longrightarrow> is_frozen (fst s') p \<noteq> Some b)"
proof -
  obtain ok w where w: "fk_write kern p b (fst s) = (ok, w)" by fastforce
  have kw: "fz_state w = fz_state (fst s)" "fz_isdir w = fz_isdir (fst s)"
    "fz_want w = (if ok then (fz_want (fst s))(p := b) else fz_want (fst s))"
    using assms(2) w unfolding fz_kernel_ok_def by blast+
  show ?thesis
  proof (cases ok)
    case False
    then show ?thesis using assms(1) w kw by (auto simp: set_frozen_def fz_to_def)
  next
    case True
    obtain ok2 s2 where p: "poll_frozen kern (fk_polls kern) p b (fz_to w s) = (ok2, s2)" by (meson surj_pair)
    have r: "r = (if ok2 then FreezeOk else FreezeTimeout)" "s' = s2"
      using assms(1) w True p by (auto simp: set_frozen_def)
    from poll_frozen_run [OF p assms(2)] r kw True show ?thesis by (auto simp: fz_to_def)
  qed
qed

subsection \<open>The record covers what is frozen\<close>

definition asks :: "fz_world \<Rightarrow> string \<Rightarrow> bool" where
  "asks w p \<longleftrightarrow> fz_isdir w p \<and> fz_want w p"

definition covered :: "(string \<Rightarrow> string) \<Rightarrow> string set \<Rightarrow> fz_world \<Rightarrow> bool" where
  \<comment> \<open>every cgroup with a freeze request is on record, the ones frozen by others apart\<close>
  "covered resolve foreign w \<longleftrightarrow> (\<forall>c. c \<notin> foreign \<longrightarrow> asks w (resolve c) \<longrightarrow> recorded c w)"

lemma record_freeze_run:
  assumes "fk_persist kern"
  shows "fst (record_freeze kern c b s)
      = (fst s)\<lparr>fz_state := Some (sort (remdups (if b then c # read_state (fst s) else filter (\<lambda>x. x \<noteq> c) (read_state (fst s)))))\<rparr>"
    "snd (record_freeze kern c b s) = snd s @ [fst (record_freeze kern c b s)]"
  using assms by (simp_all add: record_freeze_def write_state_def fz_to_def Let_def)

lemma recorded_after:
  assumes "fk_persist kern"
  shows "recorded x (fst (record_freeze kern c b s)) \<longleftrightarrow> (if x = c then b else recorded x (fst s))"
  using assms by (auto simp: record_freeze_run recorded_def read_state_def)

lemma is_frozen_state [simp]: "is_frozen (w\<lparr>fz_state := x\<rparr>) p = is_frozen w p"
  by (simp add: is_frozen_def)

lemma asks_after [simp]: "asks (w\<lparr>fz_state := x\<rparr>) p = asks w p"
  by (simp add: asks_def)

lemma record_freeze_other:
  assumes "fk_persist kern"
  shows "asks (fst (record_freeze kern c b s)) p = asks (fst s) p"
    "is_frozen (fst (record_freeze kern c b s)) p = is_frozen (fst s) p"
    "fz_want (fst (record_freeze kern c b s)) = fz_want (fst s)"
    "fz_isdir (fst (record_freeze kern c b s)) = fz_isdir (fst s)"
  by (simp_all add: record_freeze_run(1) [OF assms])

lemma recorded_state: "fz_state w = fz_state v \<Longrightarrow> recorded c w = recorded c v"
  by (simp add: recorded_def read_state_def)

lemma set_frozen_covered:
  assumes "set_frozen kern (resolve c) b s = (r, s')" "fz_kernel_ok kern" "inj resolve"
    and "covered resolve foreign (fst s)" "b \<longrightarrow> recorded c (fst s)"
  shows "covered resolve foreign (fst s')"
    "\<exists>tr. snd s' = snd s @ tr \<and> (\<forall>w\<in>set tr. covered resolve foreign w)"
    "recorded x (fst s') = recorded x (fst s)"
    "\<not> b \<Longrightarrow> r \<noteq> FreezeWriteFailed \<Longrightarrow> \<not> fz_want (fst s') (resolve c)"
proof -
  note run = set_frozen_run [OF assms(1,2)]
  have cov: "covered resolve foreign w" if w: "fz_state w = fz_state (fst s)" "fz_isdir w = fz_isdir (fst s)"
    "fz_want w = fz_want (fst s) \<or> fz_want w = (fz_want (fst s))(resolve c := b)" for w
    unfolding covered_def
  proof (intro allI impI)
    fix x assume x: "x \<notin> foreign" "asks w (resolve x)"
    have "recorded x (fst s)"
    proof (cases "asks (fst s) (resolve x)")
      case True
      then show ?thesis using assms(4) x(1) by (simp add: covered_def)
    next
      case False
      then have "resolve x = resolve c \<and> b" using x(2) w(2,3) by (auto simp: asks_def split: if_splits)
      then show ?thesis using assms(3,5) by (auto dest: injD)
    qed
    then show "recorded x w" using recorded_state [OF w(1)] by simp
  qed
  show "covered resolve foreign (fst s')" using run by (intro cov) auto
  show "\<exists>tr. snd s' = snd s @ tr \<and> (\<forall>w\<in>set tr. covered resolve foreign w)"
    using run cov by meson
  show "recorded x (fst s') = recorded x (fst s)" using run recorded_state by blast
  show "\<not> b \<Longrightarrow> r \<noteq> FreezeWriteFailed \<Longrightarrow> \<not> fz_want (fst s') (resolve c)" using run by simp
qed

subsection \<open>Properties\<close>

text \<open>the crash-safe record of frozen apps. Start a freeze or thaw of one cgroup in a world where
  every cgroup with a freeze request (those frozen by others apart) is on record, with a state file that
  can be replaced. Then every world the operation passes through has the same property, so a crash
  at any step leaves nothing frozen that the next start does not know; the one exception is the last
  world of a freeze that failed with the request still pending and the cgroup not yet reported as
  frozen. A success always ends covered, and on record exactly when it was a freeze.\<close>
theorem freeze_record_covers:
  assumes "freeze_cgroup kern resolve c b (w0, []) = (r, s')" "fz_kernel_ok kern" "fk_persist kern" "inj resolve"
    and "covered resolve foreign w0" "c \<notin> foreign"
  shows "(\<forall>w\<in>set (snd s'). covered resolve foreign w \<or>
            (w = fst s' \<and> b \<and> (r = FreezeTimeout \<or> r = FreezeWriteFailed)
               \<and> fz_want w (resolve c) \<and> is_frozen w (resolve c) \<noteq> Some True))
    \<and> (r = FreezeOk \<longrightarrow> covered resolve foreign (fst s') \<and> (recorded c (fst s') \<longleftrightarrow> b)
          \<and> is_frozen (fst s') (resolve c) = Some b)"
proof (cases "fz_isdir w0 (resolve c)")
  case gone: False
  show ?thesis
  proof (cases b)
    case True
    then show ?thesis using assms(1) gone by (auto simp: freeze_cgroup_def)
  next
    case False
    let ?s1 = "record_freeze kern c False (w0, [])"
    have e: "r = FreezeGone" "s' = ?s1"
      using assms(1) gone False by (simp_all add: freeze_cgroup_def)
    have "covered resolve foreign (fst ?s1)"
      using assms(3,5) gone by (auto simp: covered_def record_freeze_other recorded_after asks_def)
    then show ?thesis using e record_freeze_run(2) [OF assms(3), of c False "(w0, [])"] by auto
  qed
next
  case dir: True
  let ?s0 = "if b then record_freeze kern c True (w0, []) else (w0, [])"
  have c0: "covered resolve foreign (fst ?s0)" "b \<longrightarrow> recorded c (fst ?s0)"
    using assms(3,5) by (auto simp: covered_def record_freeze_other recorded_after)
  have t0: "\<forall>w\<in>set (snd ?s0). covered resolve foreign w"
    using c0(1) record_freeze_run(2) [OF assms(3), of c True "(w0, [])"] by (cases b) auto
  obtain r1 s1 where f: "set_frozen kern (resolve c) b ?s0 = (r1, s1)" by (meson surj_pair)
  note sf = set_frozen_covered [OF f assms(2,4) c0]
  note run = set_frozen_run [OF f assms(2)]
  have t1: "\<forall>w\<in>set (snd s1). covered resolve foreign w" using sf(2) t0 by auto
  let ?s2 = "record_freeze kern c False s1"
  have t2: "set (snd ?s2) = set (snd s1) \<union> {fst ?s2}"
    using record_freeze_run(2) [OF assms(3), of c False s1] by simp
  have cov2: "covered resolve foreign (fst ?s2) \<longleftrightarrow> \<not> asks (fst s1) (resolve c)"
    using sf(1) assms(3,6) by (auto simp: covered_def record_freeze_other recorded_after)
  show ?thesis
  proof (cases b)
    case False
    show ?thesis
    proof (cases "r1 = FreezeOk")
      case True
      then have e: "r = FreezeOk" "s' = ?s2" using assms(1) dir f \<open>\<not> b\<close> by (simp_all add: freeze_cgroup_def)
      have "\<not> asks (fst s1) (resolve c)" using sf(4) False True by (simp add: asks_def)
      then show ?thesis using e t1 t2 cov2 run True False assms(3)
        by (auto simp: recorded_after record_freeze_other)
    next
      case nok: False
      then have "r = r1" "s' = s1" using assms(1) dir f False by (simp_all add: freeze_cgroup_def)
      then show ?thesis using t1 nok by simp
    qed
  next
    case True
    show ?thesis
    proof (cases "r1 \<noteq> FreezeOk \<and> is_frozen (fst s1) (resolve c) \<noteq> Some True")
      case drop: True
      then have e: "r = r1" "s' = ?s2" using assms(1) dir f True by (simp_all add: freeze_cgroup_def)
      have "r1 = FreezeWriteFailed \<or> r1 = FreezeTimeout" using run drop by blast
      then show ?thesis using e t1 t2 cov2 drop True record_freeze_other [OF assms(3), of c False s1]
        by (auto simp: asks_def)
    next
      case keep: False
      then have e: "r = r1" "s' = s1" using assms(1) dir f True by (auto simp: freeze_cgroup_def)
      have "recorded c (fst s1)" using sf(3) c0(2) True by simp
      then show ?thesis using e t1 sf(1) run True by auto
    qed
  qed
qed

definition prompt_kernel :: fz_kernel where
  \<comment> \<open>a kernel for the examples: a write is confirmed by the next poll\<close>
  "prompt_kernel = \<lparr>fk_write = (\<lambda>p b w. (True, w\<lparr>fz_want := (fz_want w)(p := b)\<rparr>)),
     fk_tick = (\<lambda>w. w\<lparr>fz_events := (\<lambda>p. Some (if fz_want w p then ''frozen 1'' else ''frozen 0''))\<rparr>),
     fk_polls = 2, fk_persist = True\<rparr>"

definition stuck_kernel :: fz_kernel where
  \<comment> \<open>a kernel whose task is stuck in a driver call: the request is accepted, the freeze does not happen in time\<close>
  "stuck_kernel = prompt_kernel\<lparr>fk_tick := (\<lambda>w. w)\<rparr>"

lemma demo_kernels_ok: "fz_kernel_ok prompt_kernel" "fz_kernel_ok stuck_kernel" "fk_persist prompt_kernel" "fk_persist stuck_kernel"
  by (auto simp: fz_kernel_ok_def prompt_kernel_def stuck_kernel_def)

definition demo_fz :: fz_world where
  "demo_fz = \<lparr>fz_isdir = (\<lambda>p. True), fz_events = (\<lambda>p. Some ''frozen 0''), fz_want = (\<lambda>p. False), fz_state = None\<rparr>"

lemma events_frozen_demo: "events_frozen (split_char (CHR 0x0A) ''frozen 1'') = Some True"
  "events_frozen (split_char (CHR 0x0A) ''frozen 0'') = Some False"
  by (simp_all add: strip_def is_space_def)

lemma is_frozen_demo: "is_frozen demo_fz p = Some False" "is_frozen (demo_fz\<lparr>fz_want := f\<rparr>) p = Some False"
  by (simp_all add: is_frozen_def demo_fz_def events_frozen_demo del: split_char.simps)

theorem freeze_record_covers_witness:
  "recorded ''app'' (fst (snd (freeze_cgroup prompt_kernel id ''app'' True (demo_fz, []))))"
proof -
  obtain r s' where f: "freeze_cgroup prompt_kernel id ''app'' True (demo_fz, []) = (r, s')" by (meson surj_pair)
  have "covered id {} demo_fz" by (simp add: covered_def asks_def demo_fz_def)
  moreover have "r = FreezeOk"
    using f by (simp add: freeze_cgroup_def set_frozen_def record_freeze_def write_state_def fz_to_def Let_def
        prompt_kernel_def numeral_2_eq_2 is_frozen_def events_frozen_demo demo_fz_def del: split_char.simps split: if_splits)
  ultimately have "recorded ''app'' (fst s')"
    using freeze_record_covers [OF f demo_kernels_ok(1,3), of "{}"] by simp
  then show ?thesis by (simp add: f)
qed

lemma freeze_timeout_unrecorded:
  \<comment> \<open>the exception of \<open>freeze_record_covers\<close> is real: after a timeout the request is still pending in
      \<open>cgroup.freeze\<close> but the cgroup is no longer on record\<close>
  "\<exists>s'. freeze_cgroup stuck_kernel id ''app'' True (demo_fz, []) = (FreezeTimeout, s')
     \<and> fz_want (fst s') ''app'' \<and> \<not> recorded ''app'' (fst s')"
  by (simp add: freeze_cgroup_def set_frozen_def record_freeze_def write_state_def fz_to_def Let_def
      stuck_kernel_def prompt_kernel_def numeral_2_eq_2 is_frozen_def events_frozen_demo demo_fz_def recorded_def
      read_state_def del: split_char.simps)

lemma thaw_each_run:
  assumes "thaw_each kern resolve cs s = (th, keep, s')" "fz_kernel_ok kern"
  shows "fz_state (fst s') = fz_state (fst s) \<and> fz_isdir (fst s') = fz_isdir (fst s)
    \<and> (\<forall>p. fz_want (fst s') p \<longrightarrow> fz_want (fst s) p) \<and> (\<forall>p. p \<notin> resolve ` set cs \<longrightarrow> fz_want (fst s') p = fz_want (fst s) p)
    \<and> (\<exists>tr. snd s' = snd s @ tr \<and> (\<forall>w\<in>set tr. fz_state w = fz_state (fst s) \<and> fz_isdir w = fz_isdir (fst s)
          \<and> (\<forall>p. fz_want w p \<longrightarrow> fz_want (fst s) p)))
    \<and> set th \<union> set keep = {c \<in> set cs. fz_isdir (fst s) (resolve c)}
    \<and> (\<forall>c\<in>set th. \<not> fz_want (fst s') (resolve c)) \<and> (distinct cs \<longrightarrow> set th \<inter> set keep = {})"
  using assms(1)
proof (induction cs arbitrary: s th keep)
  case (Cons c cs)
  show ?case
  proof (cases "fz_isdir (fst s) (resolve c)")
    case False
    with Cons.prems have "thaw_each kern resolve cs s = (th, keep, s')" by simp
    from Cons.IH [OF this] False show ?thesis by auto
  next
    case True
    obtain r s1 where f: "set_frozen kern (resolve c) False s = (r, s1)" by (meson surj_pair)
    obtain th1 keep1 s2 where rec: "thaw_each kern resolve cs s1 = (th1, keep1, s2)" by (metis surj_pair)
    have e: "s' = s2" "th = (if r = FreezeOk then c # th1 else th1)" "keep = (if r = FreezeOk then keep1 else c # keep1)"
      using Cons.prems True f rec by (auto split: if_splits)
    note run = set_frozen_run [OF f assms(2)]
    from run have st: "fz_state (fst s1) = fz_state (fst s)" "fz_isdir (fst s1) = fz_isdir (fst s)"
      and wt: "\<forall>p. fz_want (fst s1) p \<longrightarrow> fz_want (fst s) p" "\<forall>p. p \<noteq> resolve c \<longrightarrow> fz_want (fst s1) p = fz_want (fst s) p"
        "r = FreezeOk \<longrightarrow> \<not> fz_want (fst s1) (resolve c)" by auto
    from run obtain tr where tr: "snd s1 = snd s @ tr" "\<forall>w\<in>set tr. fz_state w = fz_state (fst s)
        \<and> fz_isdir w = fz_isdir (fst s) \<and> (\<forall>p. fz_want w p \<longrightarrow> fz_want (fst s) p)" by auto
    note ih = Cons.IH [OF rec [folded e(1)]]
    from ih obtain tr2 where tr2: "snd s' = snd s1 @ tr2" "\<forall>w\<in>set tr2. fz_state w = fz_state (fst s)
        \<and> fz_isdir w = fz_isdir (fst s) \<and> (\<forall>p. fz_want w p \<longrightarrow> fz_want (fst s) p)" using st wt(1) by auto
    have "\<exists>tr. snd s' = snd s @ tr \<and> (\<forall>w\<in>set tr. fz_state w = fz_state (fst s) \<and> fz_isdir w = fz_isdir (fst s)
          \<and> (\<forall>p. fz_want w p \<longrightarrow> fz_want (fst s) p))"
      using tr tr2 by (intro exI [of _ "tr @ tr2"]) auto
    moreover have "set th \<union> set keep = {x \<in> set (c # cs). fz_isdir (fst s) (resolve x)}"
      using ih st e True by auto
    moreover have "\<forall>x\<in>set th. \<not> fz_want (fst s') (resolve x)" using ih e wt(3) by auto
    moreover have "distinct (c # cs) \<longrightarrow> set th \<inter> set keep = {}"
    proof
      assume d: "distinct (c # cs)"
      have "set th1 \<union> set keep1 \<subseteq> set cs" "set th1 \<inter> set keep1 = {}" using ih d by auto
      then show "set th \<inter> set keep = {}" using e d by auto
    qed
    moreover have "fz_state (fst s') = fz_state (fst s)" "fz_isdir (fst s') = fz_isdir (fst s)" using ih st by simp_all
    moreover have "\<forall>p. fz_want (fst s') p \<longrightarrow> fz_want (fst s) p" using ih wt(1) by blast
    moreover have "\<forall>p. p \<notin> resolve ` set (c # cs) \<longrightarrow> fz_want (fst s') p = fz_want (fst s) p"
    proof (intro allI impI)
      fix p assume "p \<notin> resolve ` set (c # cs)"
      then have "p \<notin> resolve ` set cs" "p \<noteq> resolve c" by auto
      then show "fz_want (fst s') p = fz_want (fst s) p" using ih wt(2) by metis
    qed
    ultimately show ?thesis by blast
  qed
qed auto

text \<open>the startup safety net thaws what is on record and nothing else. No cgroup outside the record gets
  a write; nothing becomes frozen; every world passed is covered by the record, so a crash during
  the thaw loses nothing; and afterwards exactly those recorded cgroups are still on record that
  exist and whose thaw was not confirmed, so that the next start tries them again.\<close>
theorem thaw_recorded_retries:
  assumes "thaw_recorded kern resolve (w0, []) = (thawed, s')" "fz_kernel_ok kern" "fk_persist kern"
    and "covered resolve foreign w0" "distinct (read_state w0)"
  shows "(\<forall>p. p \<notin> resolve ` set (read_state w0) \<longrightarrow> fz_want (fst s') p = fz_want w0 p)
    \<and> (\<forall>p. fz_want (fst s') p \<longrightarrow> fz_want w0 p)
    \<and> (\<forall>w\<in>set (snd s'). covered resolve foreign w)
    \<and> (\<forall>c. recorded c (fst s') \<longleftrightarrow> recorded c w0 \<and> fz_isdir w0 (resolve c) \<and> c \<notin> set thawed)
    \<and> (\<forall>c\<in>set thawed. recorded c w0 \<and> \<not> fz_want (fst s') (resolve c))"
proof -
  obtain keep s1 where t: "thaw_each kern resolve (read_state w0) (w0, []) = (thawed, keep, s1)"
    and s': "s' = write_state kern keep s1"
    using assms(1) by (auto simp: thaw_recorded_def split: prod.splits)
  note run = thaw_each_run [OF t assms(2)]
  have out: "fst s' = (fst s1)\<lparr>fz_state := Some (sort (remdups keep))\<rparr>" "snd s' = snd s1 @ [fst s']"
    using s' assms(3) by (simp_all add: write_state_def fz_to_def)
  have rec: "recorded c (fst s') \<longleftrightarrow> c \<in> set keep" for c by (simp add: out(1) recorded_def read_state_def)
  have sets: "set thawed \<union> set keep = {c. recorded c w0 \<and> fz_isdir w0 (resolve c)}" "set thawed \<inter> set keep = {}"
    using run assms(5) by (auto simp: recorded_def)
  have want: "\<forall>p. fz_want (fst s') p \<longrightarrow> fz_want w0 p" "\<forall>c\<in>set thawed. \<not> fz_want (fst s') (resolve c)"
    "\<forall>p. p \<notin> resolve ` set (read_state w0) \<longrightarrow> fz_want (fst s') p = fz_want w0 p" "fz_isdir (fst s') = fz_isdir w0"
    using run by (simp_all add: out(1))
  have "covered resolve foreign w" if "w \<in> set (snd s1)" for w
  proof -
    have w: "fz_state w = fz_state w0" "fz_isdir w = fz_isdir w0" "\<forall>p. fz_want w p \<longrightarrow> fz_want w0 p"
      using run that by auto
    then show ?thesis using assms(4) recorded_state [OF w(1)] by (auto simp: covered_def asks_def)
  qed
  moreover have "covered resolve foreign (fst s')"
    unfolding covered_def rec
  proof (intro allI impI)
    fix c assume c: "c \<notin> foreign" "asks (fst s') (resolve c)"
    then have "asks w0 (resolve c)" using want by (auto simp: asks_def)
    then have "recorded c w0 \<and> fz_isdir w0 (resolve c)" using assms(4) c(1) by (auto simp: covered_def asks_def)
    moreover have "c \<notin> set thawed" using want(2) c(2) by (auto simp: asks_def)
    ultimately show "c \<in> set keep" using sets by blast
  qed
  ultimately show ?thesis using out(2) want sets rec by auto
qed

theorem thaw_recorded_retries_witness:
  "fst (thaw_recorded prompt_kernel id (demo_fz\<lparr>fz_want := (\<lambda>p. p = ''a''), fz_state := Some [''a'', ''b'']\<rparr>, [])) = [''a'', ''b'']
   \<and> \<not> recorded ''a'' (fst (snd (thaw_recorded prompt_kernel id
        (demo_fz\<lparr>fz_want := (\<lambda>p. p = ''a''), fz_state := Some [''a'', ''b'']\<rparr>, []))))"
proof -
  let ?w = "demo_fz\<lparr>fz_want := (\<lambda>p. p = ''a''), fz_state := Some [''a'', ''b'']\<rparr>"
  obtain th s' where t: "thaw_recorded prompt_kernel id (?w, []) = (th, s')" by (meson surj_pair)
  have th: "th = [''a'', ''b'']"
    using t by (simp add: thaw_recorded_def read_state_def set_frozen_def fz_to_def prompt_kernel_def
        numeral_2_eq_2 is_frozen_def events_frozen_demo demo_fz_def del: split_char.simps split: if_splits)
  have rs: "read_state ?w = [''a'', ''b'']" by (simp add: read_state_def)
  then have d: "distinct (read_state ?w)" by simp
  have "covered id {} ?w"
    unfolding covered_def recorded_def rs by (simp add: asks_def)
  from thaw_recorded_retries [OF t demo_kernels_ok(1,3) this d] have "\<not> recorded ''a'' (fst s')"
    unfolding th by (meson list.set_intros(1))
  then show ?thesis unfolding t fst_conv snd_conv using th by simp
qed

end
