(* ===== verification/Net_Tc.thy ===== *)
theory Net_Tc
  imports Py_Base
begin

text \<open>
  Traffic shaping, first part (\<open>balancer/controller/network.py\<close>): tiers, class ids and class bandwidths, the tc tree
  set up for a NIC, and the staged throttle of a direction. A \<open>tc\<close> invocation is a command of the model; what the
  kernel makes of it (\<open>tc_exec\<close>) is the documented behaviour of \<open>tc\<close>: \<open>class change\<close> acts on an existing class only,
  and \<open>filter del\<close> with a priority removes every filter of that priority.
\<close>

subsection \<open>Tiers and bandwidths\<close>

datatype tier = TCritical | THigh | TLow | TSystem

definition normalize_net_priority :: "string \<Rightarrow> tier" where
  "normalize_net_priority p =
     (if p = ''critical'' then TCritical else if p = ''high'' then THigh else if p = ''system'' then TSystem else TLow)"

fun class_num :: "tier \<Rightarrow> nat" where
  \<comment> \<open>the mapping of \<open>_get_classid\<close>\<close>
  "class_num TCritical = 10"
| "class_num THigh = 20"
| "class_num TLow = 30"
| "class_num TSystem = 5"

fun tier_rank :: "tier \<Rightarrow> nat" where
  "tier_rank TLow = 1"
| "tier_rank THigh = 2"
| "tier_rank TCritical = 3"
| "tier_rank TSystem = 4"

definition all_tiers :: "tier list" where
  "all_tiers = [TCritical, THigh, TLow, TSystem]"

type_synonym classid = "nat \<times> nat"

definition get_classid :: "nat \<Rightarrow> tier \<Rightarrow> classid" where
  "get_classid handle t = (handle, class_num t)"

definition get_all_classids :: "nat \<Rightarrow> bool \<Rightarrow> classid list" where
  "get_all_classids handle ingress = map (get_classid (if ingress then handle + 1 else handle)) all_tiers"

definition target_quantum :: int where "target_quantum = 100000"

definition compute_r2q :: "int \<Rightarrow> int" where
  "compute_r2q total_bw_kbit = max 1 (round_half_even (of_int (total_bw_kbit * 1000) / 8 / of_int target_quantum))"

record net_cfg =
  nf_bw :: "tier \<rightharpoonup> real \<times> real"
  nf_burst :: "tier \<rightharpoonup> string"
  nf_critical :: "real option"
  nf_fq_codel :: bool

definition default_bw :: "tier \<rightharpoonup> real \<times> real" where
  "default_bw = [TCritical \<mapsto> (6/10, 9/10), THigh \<mapsto> (3/10, 8/10), TLow \<mapsto> (1/10, 1), TSystem \<mapsto> (5/100, 1/10)]"

definition get_class_bandwidth :: "net_cfg \<Rightarrow> tier \<Rightarrow> int \<Rightarrow> int \<times> int" where
  \<comment> \<open>a tier without a band of its own uses the band of \<open>low\<close>\<close>
  "get_class_bandwidth cfg t total_bw =
     (case (case nf_bw cfg t of Some b \<Rightarrow> b | None \<Rightarrow> dget (nf_bw cfg) TLow (0, 0)) of
        (mn, mx) \<Rightarrow> (py_trunc (mn * of_int total_bw), py_trunc (mx * of_int total_bw)))"

definition half_bandwidth :: "int \<times> int \<Rightarrow> int" where
  "half_bandwidth b = py_trunc (of_int (snd b - fst b) / 2 + of_int (fst b))"

definition burst_of :: "net_cfg \<Rightarrow> tier \<Rightarrow> string" where
  "burst_of cfg t = dget (nf_burst cfg) t ''16k''"

subsection \<open>Commands and the kernel's tables\<close>

datatype match =
    MatchMark int
  | MatchDport nat
  | MatchSport nat
  | MatchAll

datatype net_cmd =
    QdiscDel string nat
  | QdiscAdd string nat int
  | IngressDel string
  | IngressAdd string
  | LeafQdisc string classid
  | LinkAdd string
  | LinkDel string
  | ClassAdd string classid int int string
  | ClassChange string classid int int string
  | FilterAdd string nat nat match classid "(int \<times> int) option"
  | FilterDel string nat nat
  | RedirectAdd string string classid
  | MarkAdd string int
  | MarkDel string int
  | ConnmarkDel
  | ConnmarkAdd

type_synonym tc_filter = "string \<times> nat \<times> nat \<times> match \<times> classid \<times> (int \<times> int) option"

record tc_kernel =
  tk_class :: "string \<times> classid \<Rightarrow> (int \<times> int \<times> string) option"
  tk_filters :: "tc_filter list"
  tk_marks :: "(string \<times> int) list"

fun tc_exec :: "net_cmd \<Rightarrow> tc_kernel \<Rightarrow> tc_kernel" where
  \<comment> \<open>the commands that touch classes, filters or mark rules; deleting a root qdisc takes its classes and filters along\<close>
  "tc_exec (QdiscDel dev h) k = k\<lparr>tk_class := (\<lambda>(d, c). if d = dev \<and> fst c = h then None else tk_class k (d, c)),
      tk_filters := filter (\<lambda>(d, p, _). \<not> (d = dev \<and> p = h)) (tk_filters k)\<rparr>"
| "tc_exec (ClassAdd dev c r ceil b) k =
     (if tk_class k (dev, c) = None then k\<lparr>tk_class := (tk_class k)((dev, c) \<mapsto> (r, ceil, b))\<rparr> else k)"
| "tc_exec (ClassChange dev c r ceil b) k =
     (if tk_class k (dev, c) = None then k else k\<lparr>tk_class := (tk_class k)((dev, c) \<mapsto> (r, ceil, b))\<rparr>)"
| "tc_exec (FilterAdd dev p prio m c pol) k = k\<lparr>tk_filters := tk_filters k @ [(dev, p, prio, m, c, pol)]\<rparr>"
| "tc_exec (FilterDel dev p prio) k =
     k\<lparr>tk_filters := filter (\<lambda>(d, p', prio', _). \<not> (d = dev \<and> p' = p \<and> prio' = prio)) (tk_filters k)\<rparr>"
| "tc_exec (MarkAdd path m) k = k\<lparr>tk_marks := tk_marks k @ [(path, m)]\<rparr>"
| "tc_exec (MarkDel path m) k = k\<lparr>tk_marks := remove1 (path, m) (tk_marks k)\<rparr>"
| "tc_exec _ k = k"

definition tc_run :: "net_cmd list \<Rightarrow> tc_kernel \<Rightarrow> tc_kernel" where
  "tc_run cs k = fold tc_exec cs k"

lemma tc_run_simps [simp]:
  "tc_run [] k = k" "tc_run (c # cs) k = tc_run cs (tc_exec c k)" "tc_run (cs @ ds) k = tc_run ds (tc_run cs k)"
  by (simp_all add: tc_run_def)

subsection \<open>The shaper of a NIC\<close>

datatype flow = Egress | Ingress

record shaper =
  sh_dev :: string
  sh_ifb :: string
  sh_handle :: nat
  sh_total_bw :: int
  sh_stage :: "flow \<Rightarrow> nat"
  sh_last_limit :: "flow \<Rightarrow> real"
  sh_last_recover :: "flow \<Rightarrow> real"

definition new_shaper :: "string \<Rightarrow> string \<Rightarrow> nat \<Rightarrow> int \<Rightarrow> shaper" where
  "new_shaper dev ifb h bw = \<lparr>sh_dev = dev, sh_ifb = ifb, sh_handle = h, sh_total_bw = bw, sh_stage = (\<lambda>f. 0),
     sh_last_limit = (\<lambda>f. 0), sh_last_recover = (\<lambda>f. 0)\<rparr>"

fun flow_dev :: "shaper \<Rightarrow> flow \<Rightarrow> string" where
  "flow_dev sh Egress = sh_dev sh"
| "flow_dev sh Ingress = sh_ifb sh"

fun flow_handle :: "shaper \<Rightarrow> flow \<Rightarrow> nat" where
  "flow_handle sh Egress = sh_handle sh"
| "flow_handle sh Ingress = sh_handle sh + 1"

definition flow_class :: "shaper \<Rightarrow> flow \<Rightarrow> tier \<Rightarrow> classid" where
  "flow_class sh f t = get_classid (flow_handle sh f) t"

definition set_stage :: "flow \<Rightarrow> nat \<Rightarrow> shaper \<Rightarrow> shaper" where
  "set_stage f n sh = sh\<lparr>sh_stage := (sh_stage sh)(f := n)\<rparr>"

definition class_setup :: "net_cfg \<Rightarrow> shaper \<Rightarrow> tier \<Rightarrow> net_cmd list" where
  \<comment> \<open>the body of the loop over the tiers of \<open>setup_tc_classes_and_filters\<close>\<close>
  "class_setup cfg sh t =
     (case get_class_bandwidth cfg t (sh_total_bw sh) of (mn, mx) \<Rightarrow>
        [ClassAdd (sh_dev sh) (flow_class sh Egress t) mn mx (burst_of cfg t)]
        @ (if nf_fq_codel cfg then [LeafQdisc (sh_dev sh) (flow_class sh Egress t)] else [])
        @ [ClassAdd (sh_ifb sh) (flow_class sh Ingress t) mn mx (burst_of cfg t)])"

definition port_filters :: "shaper \<Rightarrow> nat list \<Rightarrow> net_cmd list" where
  \<comment> \<open>\<open>_get_set_networked_system_ports\<close>, given the ports as configured: those in range, sorted, without repetitions\<close>
  "port_filters sh ports =
     (let ps = sort (remdups (filter (\<lambda>p. 1 \<le> p \<and> p \<le> 65535) ports));
          eg = flow_class sh Egress TSystem; ig = flow_class sh Ingress TSystem; h = sh_handle sh
      in concat (map (\<lambda>(i, p).
           [FilterAdd (sh_dev sh) h (1000 + i) (MatchDport p) eg None, FilterAdd (sh_dev sh) h (1000 + i) (MatchSport p) eg None,
            FilterAdd (sh_ifb sh) (h + 1) (2000 + i) (MatchDport p) ig None,
            FilterAdd (sh_ifb sh) (h + 1) (2000 + i) (MatchSport p) ig None]) (enumerate 0 ps)))"

definition setup_head :: "shaper \<Rightarrow> net_cmd list" where
  \<comment> \<open>the two trees with their root classes, and the redirection of what comes in\<close>
  "setup_head sh =
     (let dev = sh_dev sh; ifb = sh_ifb sh; h = sh_handle sh; bw = sh_total_bw sh; r2q = compute_r2q bw
      in [QdiscDel dev h, IngressDel dev, QdiscDel ifb (h + 1), QdiscAdd dev h r2q, ClassAdd dev (h, 1) bw bw ''128k'',
          LinkAdd ifb, QdiscAdd ifb (h + 1) r2q, ClassAdd ifb (h + 1, 1) bw bw ''128k'', IngressAdd dev,
          RedirectAdd dev ifb (h + 1, 1)])"

definition setup_shaper :: "net_cfg \<Rightarrow> nat list \<Rightarrow> shaper \<Rightarrow> net_cmd list" where
  "setup_shaper cfg ports sh = setup_head sh @ concat (map (class_setup cfg sh) all_tiers) @ port_filters sh ports"

definition setup_tc_classes_and_filters :: "bool \<Rightarrow> net_cfg \<Rightarrow> nat list \<Rightarrow> shaper list \<Rightarrow> net_cmd list" where
  "setup_tc_classes_and_filters enabled cfg ports shs = (if enabled then concat (map (setup_shaper cfg ports) shs) else [])"

subsection \<open>Throttle and restore\<close>

type_synonym rates = "classid \<rightharpoonup> real"

definition limit_class :: "net_cfg \<Rightarrow> shaper \<Rightarrow> flow \<Rightarrow> tier \<Rightarrow> int \<Rightarrow> int \<Rightarrow> net_cmd list" where
  \<comment> \<open>\<open>_limit_network_class\<close> with the arguments its two callers pass\<close>
  "limit_class cfg sh f t mn mx = [ClassChange (flow_dev sh f) (flow_class sh f t) mn mx (burst_of cfg t)]"

definition apply_bandwidth_limit :: "net_cfg \<Rightarrow> shaper \<Rightarrow> flow \<Rightarrow> rates \<Rightarrow> net_cmd list \<times> shaper" where
  "apply_bandwidth_limit cfg sh f rates =
     (let stage = sh_stage sh f;
          key = (if stage = 0 \<or> stage = 1 then TLow else THigh);
          band = get_class_bandwidth cfg key (sh_total_bw sh);
          mn = fst band; half = half_bandwidth band;
          current = dget rates (flow_class sh f key) 0;
          (point, full, half_stage) =
            (if stage = 0 then (half, 2, 1) else if stage = 1 then (mn, 2, 2)
             else if stage = 2 then (half, 4, 3) else if stage = 3 then (mn, 4, 4) else (mn, 0, 0))
      in if stage = 0 \<or> stage = 2 then
           if current < of_int point then (limit_class cfg sh f key mn mn, set_stage f full sh)
           else (limit_class cfg sh f key mn half, set_stage f (if half \<noteq> mn then half_stage else full) sh)
         else if stage = 1 \<or> stage = 3 then (limit_class cfg sh f key mn mn, set_stage f full sh)
         else ([], sh))"

definition recover_network_pressure ::
  "net_cfg \<Rightarrow> shaper \<Rightarrow> flow \<Rightarrow> rates \<Rightarrow> int \<Rightarrow> real \<Rightarrow> py_error + net_cmd list \<times> shaper" where
  "recover_network_pressure cfg sh f rates config_total_rate actual_total_bw =
     (let stage = sh_stage sh f;
          key = (if stage = 1 \<or> stage = 2 then TLow else THigh);
          band = get_class_bandwidth cfg key (sh_total_bw sh);
          mn = fst band; mx = snd band; half = half_bandwidth band;
          current = dget rates (flow_class sh f key) 0
      in case nf_critical cfg of
           None \<Rightarrow> Inl (KeyError ''critical'')
         | Some crit \<Rightarrow>
             (let critical_threshold = crit * of_int config_total_rate;
                  (point, full, half_stage) =
                    (if stage = 1 then (half, 0, 0) else if stage = 2 then (mn, 0, 1)
                     else if stage = 3 then (half, 2, 2) else if stage = 4 then (mn, 2, 3) else (mn, 0, 0))
              in if stage > 0 then
                   if current < of_int point * (9/10) then Inr (limit_class cfg sh f key mn mx, set_stage f full sh)
                   else
                     let expected = (if stage = 4 \<or> stage = 2 then of_int half + actual_total_bw - of_int mn
                                     else of_int mx + actual_total_bw - of_int half)
                     in if expected < critical_threshold then
                          Inr (limit_class cfg sh f key mn (if stage = 4 \<or> stage = 2 then half else mx), set_stage f half_stage sh)
                        else Inr ([], sh)
                 else Inr ([], sh)))"

definition can_switch :: "real \<Rightarrow> real \<Rightarrow> real \<Rightarrow> real \<Rightarrow> bool" where
  "can_switch now cooldown last_limit last_recover \<longleftrightarrow> now - last_limit > cooldown \<and> now - last_recover > cooldown"

definition limit_cooldown :: real where "limit_cooldown = 10"
definition recover_cooldown :: real where "recover_cooldown = 30"

subsection \<open>Frame\<close>

fun class_devs :: "net_cmd \<Rightarrow> string list" where
  "class_devs (QdiscDel dev h) = [dev]"
| "class_devs (ClassAdd dev c r ceil b) = [dev]"
| "class_devs (ClassChange dev c r ceil b) = [dev]"
| "class_devs _ = []"

lemma tc_exec_frame: "d \<notin> set (class_devs c) \<Longrightarrow> tk_class (tc_exec c k) (d, x) = tk_class k (d, x)"
  by (cases c) auto

lemma tc_run_frame: "(\<And>c. c \<in> set cs \<Longrightarrow> d \<notin> set (class_devs c)) \<Longrightarrow> tk_class (tc_run cs k) (d, x) = tk_class k (d, x)"
  by (induction cs arbitrary: k) (simp_all add: tc_exec_frame)

lemma tc_run_classes_idle: "(\<And>c. c \<in> set cs \<Longrightarrow> class_devs c = []) \<Longrightarrow> tk_class (tc_run cs k) x = tk_class k x"
  using tc_run_frame [of cs "fst x" k "snd x"] by simp

subsection \<open>What a stage stands for\<close>

fun stage_ceil :: "net_cfg \<Rightarrow> int \<Rightarrow> nat \<Rightarrow> tier \<Rightarrow> int" where
  \<comment> \<open>the ceiling of a class at a stage: first \<open>low\<close> goes to half and to its minimum, then \<open>high\<close>\<close>
  "stage_ceil cfg bw n TLow =
     (let b = get_class_bandwidth cfg TLow bw in if n = 0 then snd b else if n = 1 then half_bandwidth b else fst b)"
| "stage_ceil cfg bw n THigh =
     (let b = get_class_bandwidth cfg THigh bw in if n \<le> 2 then snd b else if n = 3 then half_bandwidth b else fst b)"
| "stage_ceil cfg bw n t = snd (get_class_bandwidth cfg t bw)"

definition stage_class :: "net_cfg \<Rightarrow> shaper \<Rightarrow> flow \<Rightarrow> tier \<Rightarrow> int \<times> int \<times> string" where
  "stage_class cfg sh f t =
     (fst (get_class_bandwidth cfg t (sh_total_bw sh)), stage_ceil cfg (sh_total_bw sh) (sh_stage sh f) t, burst_of cfg t)"

definition flow_shaped :: "net_cfg \<Rightarrow> tc_kernel \<Rightarrow> shaper \<Rightarrow> flow \<Rightarrow> bool" where
  "flow_shaped cfg k sh f \<longleftrightarrow> sh_stage sh f \<le> 4 \<and> (\<forall>t. tk_class k (flow_dev sh f, flow_class sh f t) = Some (stage_class cfg sh f t))"

lemma class_num_inj [simp]: "class_num t = class_num u \<longleftrightarrow> t = u"
  by (cases t; cases u) simp_all

lemma flow_class_eq [simp]: "flow_class sh f t = flow_class sh f u \<longleftrightarrow> t = u"
  by (simp add: flow_class_def get_classid_def)

definition same_nic :: "shaper \<Rightarrow> shaper \<Rightarrow> bool" where
  "same_nic a b \<longleftrightarrow> sh_dev a = sh_dev b \<and> sh_ifb a = sh_ifb b \<and> sh_handle a = sh_handle b \<and> sh_total_bw a = sh_total_bw b"

lemma same_nicD: "same_nic a b \<Longrightarrow> flow_dev a f = flow_dev b f \<and> flow_class a f t = flow_class b f t"
  by (cases f) (simp_all add: same_nic_def flow_class_def)

lemma same_nic_refl [simp]: "same_nic a a" and same_nic_trans: "same_nic a b \<Longrightarrow> same_nic b c \<Longrightarrow> same_nic a c"
  by (simp_all add: same_nic_def)

lemma set_stage_same [simp]: "same_nic sh (set_stage f n sh)" "sh_stage (set_stage f n sh) = (sh_stage sh)(f := n)"
  by (simp_all add: same_nic_def set_stage_def)

text \<open>One change of one class moves the direction from one stage to another one exactly when it sets that class to
  its ceiling in the new stage and the two stages agree on every other class.\<close>

lemma flow_shaped_step:
  assumes "flow_shaped cfg k sh f" "n \<le> 4"
    and "ceil = stage_ceil cfg (sh_total_bw sh) n key" "mn = fst (get_class_bandwidth cfg key (sh_total_bw sh))"
    and "\<And>t. t \<noteq> key \<Longrightarrow> stage_ceil cfg (sh_total_bw sh) n t = stage_ceil cfg (sh_total_bw sh) (sh_stage sh f) t"
  shows "flow_shaped cfg (tc_run (limit_class cfg sh f key mn ceil) k) (set_stage f n sh) f"
proof -
  have c: "flow_dev (set_stage f n sh) f = flow_dev sh f" "flow_class (set_stage f n sh) f t = flow_class sh f t" for t
    using same_nicD [of sh "set_stage f n sh"] by simp_all
  have bw: "sh_total_bw (set_stage f n sh) = sh_total_bw sh" by (simp add: set_stage_def)
  have "tk_class (tc_run (limit_class cfg sh f key mn ceil) k) (flow_dev sh f, flow_class sh f t)
      = Some (stage_class cfg (set_stage f n sh) f t)" for t
    using assms(1,3-5) by (cases "t = key") (simp_all add: flow_shaped_def limit_class_def stage_class_def bw)
  with assms(2) show ?thesis by (simp add: flow_shaped_def c)
qed

definition stage_move :: "net_cfg \<Rightarrow> shaper \<Rightarrow> flow \<Rightarrow> nat \<Rightarrow> net_cmd list \<Rightarrow> shaper \<Rightarrow> bool" where
  \<comment> \<open>one class goes to its ceiling of stage \<open>m\<close>, and the stage is recorded\<close>
  "stage_move cfg sh f m cs sh' \<longleftrightarrow>
     (let n = sh_stage sh f; key = (if n \<le> 2 \<and> m \<le> 2 then TLow else THigh)
      in m \<le> 4 \<and> (n \<le> 2 \<and> m \<le> 2 \<or> 2 \<le> n \<and> 2 \<le> m) \<and> sh' = set_stage f m sh
         \<and> cs = limit_class cfg sh f key (fst (get_class_bandwidth cfg key (sh_total_bw sh))) (stage_ceil cfg (sh_total_bw sh) m key))"

lemma stage_move_shaped:
  assumes "flow_shaped cfg k sh f" "stage_move cfg sh f m cs sh'"
  shows "flow_shaped cfg (tc_run cs k) sh' f"
proof -
  let ?key = "if sh_stage sh f \<le> 2 \<and> m \<le> 2 then TLow else THigh"
  have m: "m \<le> 4" "sh_stage sh f \<le> 2 \<and> m \<le> 2 \<or> 2 \<le> sh_stage sh f \<and> 2 \<le> m" "sh' = set_stage f m sh"
    "cs = limit_class cfg sh f ?key (fst (get_class_bandwidth cfg ?key (sh_total_bw sh))) (stage_ceil cfg (sh_total_bw sh) m ?key)"
    using assms(2) unfolding stage_move_def Let_def by blast+
  have agree: "stage_ceil cfg (sh_total_bw sh) m t = stage_ceil cfg (sh_total_bw sh) (sh_stage sh f) t" if "t \<noteq> ?key" for t
    using that m(2) by (cases t) (auto simp: Let_def split: if_splits)
  show ?thesis unfolding m(3,4) by (rule flow_shaped_step [OF assms(1) m(1) refl refl agree])
qed

lemma apply_moves:
  assumes "sh_stage sh f \<le> 4" "apply_bandwidth_limit cfg sh f rates = (cs, sh')"
  shows "sh_stage sh f = 4 \<and> cs = [] \<and> sh' = sh \<or> (\<exists>m > sh_stage sh f. stage_move cfg sh f m cs sh')"
proof -
  from assms(1) consider "sh_stage sh f = 0" | "sh_stage sh f = 1" | "sh_stage sh f = 2" | "sh_stage sh f = 3" | "sh_stage sh f = 4"
    by linarith
  then show ?thesis
  proof cases
    case 1
    show ?thesis using assms(2) 1
      by (intro disjI2 exI [where x = "if dget rates (flow_class sh f TLow) 0 < of_int (half_bandwidth (get_class_bandwidth cfg TLow (sh_total_bw sh)))
          \<or> half_bandwidth (get_class_bandwidth cfg TLow (sh_total_bw sh)) = fst (get_class_bandwidth cfg TLow (sh_total_bw sh)) then 2 else 1"])
        (auto simp: apply_bandwidth_limit_def stage_move_def Let_def split: if_splits)
  next
    case 2
    then show ?thesis using assms(2)
      by (intro disjI2 exI [where x = 2]) (auto simp: apply_bandwidth_limit_def stage_move_def Let_def)
  next
    case 3
    show ?thesis using assms(2) 3
      by (intro disjI2 exI [where x = "if dget rates (flow_class sh f THigh) 0 < of_int (half_bandwidth (get_class_bandwidth cfg THigh (sh_total_bw sh)))
          \<or> half_bandwidth (get_class_bandwidth cfg THigh (sh_total_bw sh)) = fst (get_class_bandwidth cfg THigh (sh_total_bw sh)) then 4 else 3"])
        (auto simp: apply_bandwidth_limit_def stage_move_def Let_def split: if_splits)
  next
    case 4
    then show ?thesis using assms(2)
      by (intro disjI2 exI [where x = 4]) (auto simp: apply_bandwidth_limit_def stage_move_def Let_def)
  next
    case 5
    then show ?thesis using assms(2) by (simp add: apply_bandwidth_limit_def Let_def)
  qed
qed

lemma recover_moves:
  assumes "sh_stage sh f \<le> 4" "recover_network_pressure cfg sh f rates total_rate bw = Inr (cs, sh')"
  shows "cs = [] \<and> sh' = sh \<or> (\<exists>m < sh_stage sh f. stage_move cfg sh f m cs sh')"
proof -
  from assms(1) consider "sh_stage sh f = 0" | "sh_stage sh f = 1" | "sh_stage sh f = 2" | "sh_stage sh f = 3" | "sh_stage sh f = 4"
    by linarith
  then show ?thesis
  proof cases
    case 1
    then show ?thesis using assms(2) by (simp add: recover_network_pressure_def Let_def split: option.splits)
  next
    case 2
    then show ?thesis using assms(2)
      by (auto simp: recover_network_pressure_def stage_move_def Let_def split: option.splits if_splits)
  next
    case 3
    have "cs = [] \<and> sh' = sh \<or> stage_move cfg sh f 0 cs sh' \<or> stage_move cfg sh f 1 cs sh'"
      using assms(2) 3 by (auto simp: recover_network_pressure_def stage_move_def Let_def split: option.splits if_splits)
    with 3 show ?thesis by auto
  next
    case 4
    have "cs = [] \<and> sh' = sh \<or> stage_move cfg sh f 2 cs sh'"
      using assms(2) 4 by (auto simp: recover_network_pressure_def stage_move_def Let_def split: option.splits if_splits)
    with 4 show ?thesis by auto
  next
    case 5
    have "cs = [] \<and> sh' = sh \<or> stage_move cfg sh f 2 cs sh' \<or> stage_move cfg sh f 3 cs sh'"
      using assms(2) 5 by (auto simp: recover_network_pressure_def stage_move_def Let_def split: option.splits if_splits)
    with 5 show ?thesis by auto
  qed
qed

lemma stage_move_same: "stage_move cfg sh f m cs sh' \<Longrightarrow> same_nic sh sh'"
  by (simp add: stage_move_def Let_def)

lemma stage_move_other: "stage_move cfg sh f m cs sh' \<Longrightarrow> g \<noteq> f \<Longrightarrow> sh_stage sh' g = sh_stage sh g"
  by (simp add: stage_move_def Let_def)

lemma stage_move_devs: "stage_move cfg sh f m cs sh' \<Longrightarrow> c \<in> set cs \<Longrightarrow> class_devs c = [flow_dev sh f]"
  by (auto simp: stage_move_def Let_def limit_class_def)

subsection \<open>Setup\<close>

lemma class_setup_other:
  assumes "c \<in> set (class_setup cfg sh u)" "t \<noteq> u"
  shows "tk_class (tc_exec c k) (flow_dev sh f, flow_class sh f t) = tk_class k (flow_dev sh f, flow_class sh f t)"
  using assms by (cases f) (auto simp: class_setup_def flow_class_def get_classid_def split: prod.splits if_splits)

lemma class_setup_others:
  "t \<noteq> u \<Longrightarrow> set cs \<subseteq> set (class_setup cfg sh u) \<Longrightarrow>
   tk_class (tc_run cs k) (flow_dev sh f, flow_class sh f t) = tk_class k (flow_dev sh f, flow_class sh f t)"
proof (induction cs arbitrary: k)
  case (Cons c cs)
  then show ?case using class_setup_other [of c cfg sh u t k f] by simp
qed simp

lemma class_setup_self:
  assumes "sh_dev sh \<noteq> sh_ifb sh" "\<And>f. tk_class k (flow_dev sh f, flow_class sh f t) = None"
  shows "tk_class (tc_run (class_setup cfg sh t) k) (flow_dev sh f, flow_class sh f t)
    = Some (case get_class_bandwidth cfg t (sh_total_bw sh) of (mn, mx) \<Rightarrow> (mn, mx, burst_of cfg t))"
proof -
  note n = assms(2) [of Egress] assms(2) [of Ingress]
  show ?thesis using n assms(1)
    by (cases f) (simp_all add: class_setup_def split: prod.split)
qed

lemma class_setups:
  assumes "sh_dev sh \<noteq> sh_ifb sh" "distinct ts"
    and "\<And>f t. t \<in> set ts \<Longrightarrow> tk_class k (flow_dev sh f, flow_class sh f t) = None"
  shows "(t \<in> set ts \<longrightarrow> tk_class (tc_run (concat (map (class_setup cfg sh) ts)) k) (flow_dev sh f, flow_class sh f t)
      = Some (case get_class_bandwidth cfg t (sh_total_bw sh) of (mn, mx) \<Rightarrow> (mn, mx, burst_of cfg t)))
    \<and> (t \<notin> set ts \<longrightarrow> tk_class (tc_run (concat (map (class_setup cfg sh) ts)) k) (flow_dev sh f, flow_class sh f t)
      = tk_class k (flow_dev sh f, flow_class sh f t))"
  using assms(2,3)
proof (induction ts arbitrary: k)
  case (Cons u us)
  let ?k = "tc_run (class_setup cfg sh u) k"
  have "tk_class ?k (flow_dev sh g, flow_class sh g v) = None" if "v \<in> set us" for g v
    using that Cons.prems class_setup_others [of v u "class_setup cfg sh u" cfg sh k g] by auto
  then have IH: "(t \<in> set us \<longrightarrow> tk_class (tc_run (concat (map (class_setup cfg sh) us)) ?k) (flow_dev sh f, flow_class sh f t)
        = Some (case get_class_bandwidth cfg t (sh_total_bw sh) of (mn, mx) \<Rightarrow> (mn, mx, burst_of cfg t)))
      \<and> (t \<notin> set us \<longrightarrow> tk_class (tc_run (concat (map (class_setup cfg sh) us)) ?k) (flow_dev sh f, flow_class sh f t)
        = tk_class ?k (flow_dev sh f, flow_class sh f t))"
    using Cons.prems(1) by (intro Cons.IH) auto
  have self: "tk_class ?k (flow_dev sh f, flow_class sh f u)
      = Some (case get_class_bandwidth cfg u (sh_total_bw sh) of (mn, mx) \<Rightarrow> (mn, mx, burst_of cfg u))"
    using Cons.prems by (intro class_setup_self assms(1)) simp
  have other: "t \<noteq> u \<Longrightarrow> tk_class ?k (flow_dev sh f, flow_class sh f t) = tk_class k (flow_dev sh f, flow_class sh f t)"
    by (rule class_setup_others [OF _ subset_refl])
  show ?case using IH self other Cons.prems(1) by (cases "t = u") auto
qed simp

lemma port_filters_no_class: "c \<in> set (port_filters sh ports) \<Longrightarrow> class_devs c = []"
  by (auto simp: port_filters_def Let_def)

lemmas setup_split = setup_shaper_def

lemma setup_head_clears:
  "sh_dev sh \<noteq> sh_ifb sh \<Longrightarrow> tk_class (tc_run (setup_head sh) k) (flow_dev sh f, flow_class sh f t) = None"
  by (cases f; cases t) (simp_all add: setup_head_def Let_def flow_class_def get_classid_def)

lemma setup_shaped:
  assumes "sh_dev sh \<noteq> sh_ifb sh" "\<And>f. sh_stage sh f = 0"
  shows "flow_shaped cfg (tc_run (setup_shaper cfg ports sh) k) sh f"
proof -
  have st: "stage_class cfg sh f t = (case get_class_bandwidth cfg t (sh_total_bw sh) of (mn, mx) \<Rightarrow> (mn, mx, burst_of cfg t))" for t
    using assms(2) by (cases t) (simp_all add: stage_class_def Let_def split: prod.split)
  have "tk_class (tc_run (setup_shaper cfg ports sh) k) (flow_dev sh f, flow_class sh f t) = Some (stage_class cfg sh f t)" for t
  proof -
    have "distinct all_tiers" and t: "t \<in> set all_tiers" by (cases t; simp add: all_tiers_def)+
    from class_setups [OF assms(1) this(1), where cfg = cfg and k = "tc_run (setup_head sh) k" and f = f and t = t] t
    show ?thesis
      by (simp add: setup_split st tc_run_classes_idle [OF port_filters_no_class] setup_head_clears [OF assms(1)])
  qed
  then show ?thesis by (simp add: flow_shaped_def assms(2))
qed

lemma setup_devs: "c \<in> set (setup_shaper cfg ports sh) \<Longrightarrow> set (class_devs c) \<subseteq> {sh_dev sh, sh_ifb sh}"
  by (auto simp: setup_split setup_head_def Let_def class_setup_def port_filters_def split: prod.splits if_splits)

lemma flow_shaped_frame:
  assumes "flow_shaped cfg k sh f" "\<And>c. c \<in> set cs \<Longrightarrow> flow_dev sh f \<notin> set (class_devs c)"
  shows "flow_shaped cfg (tc_run cs k) sh f"
  using assms by (simp add: flow_shaped_def tc_run_frame)

definition nic_devs :: "shaper \<Rightarrow> string list" where
  "nic_devs sh = [sh_dev sh, sh_ifb sh]"

lemma flow_dev_in: "flow_dev sh f \<in> set (nic_devs sh)"
  by (cases f) (simp_all add: nic_devs_def)

lemma setup_all_shaped:
  assumes "distinct (concat (map nic_devs shs))" "\<And>sh f. sh \<in> set shs \<Longrightarrow> sh_stage sh f = 0" "sh \<in> set shs"
  shows "flow_shaped cfg (tc_run (setup_tc_classes_and_filters True cfg ports shs) k) sh f"
  using assms
proof (induction shs arbitrary: k)
  case (Cons a shs)
  let ?rest = "concat (map (setup_shaper cfg ports) shs)"
  have run: "tc_run (setup_tc_classes_and_filters True cfg ports (a # shs)) k = tc_run ?rest (tc_run (setup_shaper cfg ports a) k)"
    by (simp add: setup_tc_classes_and_filters_def)
  show ?case
  proof (cases "sh = a")
    case True
    have dev: "sh_dev a \<noteq> sh_ifb a" using Cons.prems(1) by (simp add: nic_devs_def)
    have st: "sh_stage a g = 0" for g using Cons.prems(2) [of a] by simp
    have "flow_dev a f \<notin> set (class_devs c)" if "c \<in> set ?rest" for c
    proof -
      from that obtain b where "b \<in> set shs" "c \<in> set (setup_shaper cfg ports b)" by auto
      with setup_devs [of c cfg ports b] Cons.prems(1) flow_dev_in [of a f] show ?thesis
        by (auto simp: nic_devs_def)
    qed
    then show ?thesis unfolding run True by (intro flow_shaped_frame setup_shaped dev st)
  next
    case False
    with Cons show ?thesis unfolding run by (simp add: setup_tc_classes_and_filters_def)
  qed
qed simp

subsection \<open>The quantum of a class\<close>

text \<open>On any link the \<open>r2q\<close> the setup computes keeps the HTB quantum of the root class, and so of every class, at
  or below 150000 bytes, under the kernel's limit of 200000; from 4 Mbit/s on it is at least 50000 bytes.\<close>
theorem htb_quantum_in_range:
  "of_int (kbit * 1000) / 8 / of_int (compute_r2q kbit) \<le> (150000 :: real)
   \<and> (4000 \<le> kbit \<longrightarrow> 50000 \<le> of_int (kbit * 1000) / 8 / (of_int (compute_r2q kbit) :: real))"
proof -
  define x :: real where "x = of_int (kbit * 1000) / 8 / 100000"
  define r where "r = round_half_even x"
  have q: "compute_r2q kbit = max 1 r" by (simp add: compute_r2q_def x_def r_def target_quantum_def)
  have bytes: "of_int (kbit * 1000) / 8 = 100000 * x" by (simp add: x_def)
  have close: "\<bar>of_int r - x\<bar> \<le> 1/2" unfolding r_def by (rule round_half_even_close)
  have m: "1 \<le> (of_int (max 1 r) :: real)" by simp
  have "x \<le> 3/2 * of_int (max 1 r)" using close m by linarith
  then have "100000 * x / of_int (max 1 r) \<le> 150000" using m by (simp add: divide_simps)
  moreover have "50000 \<le> 100000 * x / of_int (max 1 r)" if "4000 \<le> kbit"
  proof -
    have "1/2 \<le> x" using that by (simp add: x_def)
    then have "of_int (max 1 r) \<le> 2 * x" using close by linarith
    then show ?thesis using m by (simp add: divide_simps)
  qed
  ultimately show ?thesis unfolding q bytes by blast
qed

lemma htb_quantum_in_range_witness:
  "50000 \<le> of_int (14000 * 1000) / 8 / (of_int (compute_r2q 14000) :: real)"
  using htb_quantum_in_range [of 14000] by simp

text \<open>The target of 100000 bytes itself can be exceeded, by the root class of a 10 Mbit/s link for one.\<close>

lemma quantum_above_target: "100000 < of_int (10000 * 1000) / 8 / (of_int (compute_r2q 10000) :: real)"
  by (simp add: compute_r2q_def target_quantum_def round_half_even_def)

end
