(* ===== verification/Net_Apps.thy ===== *)
theory Net_Apps
  imports Net_Tc Py_String "HOL-Library.AList" "HOL-Library.Multiset"
begin

text \<open>
  Traffic shaping, second part (\<open>balancer/controller/network.py\<close>): the marks of the controlled applications, the rules
  that classify their traffic, and their update when the list of applications changes. Python's \<open>set.pop\<close> takes some
  element of the pool, here the one \<open>pick\<close> chooses. Applications no longer listed are removed in the order of the table
  (the code goes through a set).
\<close>

subsection \<open>State\<close>

record nic_rule =
  nr_ifb :: string
  nr_handle :: "nat option"
  nr_prio_egress :: "nat option"
  nr_prio_ifb :: "nat option"
  nr_class_egress :: classid
  nr_class_ifb :: classid

record app_info =
  ai_mark :: "int option"
  ai_paths :: "string list"
  ai_priority :: tier
  ai_nics :: "(string \<times> nic_rule) list"

record net_app =
  na_id :: string
  na_net_priority :: "string option"
  na_priority :: "string option"
  na_paths :: "string list"

record rx_esc =
  re_rps :: "(string \<times> string) list"
  re_sysctl :: "(string \<times> string) list"
  re_active :: bool

record nctl =
  nt_pool :: "int list"
  nt_marks :: "(string \<times> int) list"
  nt_apps :: "(string \<times> app_info) list"
  nt_samples :: "string \<Rightarrow> (int \<times> real) option"
  nt_rates :: "string \<Rightarrow> real option"
  nt_caps :: "(string \<times> (string \<times> nat \<times> nat) list) list"
  nt_police :: "bool option"
  nt_esc :: "(string \<times> rx_esc) list"
  nt_shapers :: "shaper list"

definition base_marks :: "int list" where
  "base_marks = map int [0x1000..<0x2000]"

definition nctl_init :: "shaper list \<Rightarrow> nctl" where
  "nctl_init shs = \<lparr>nt_pool = base_marks, nt_marks = [], nt_apps = [], nt_samples = (\<lambda>a. None), nt_rates = (\<lambda>a. None), nt_caps = [],
     nt_police = None, nt_esc = [], nt_shapers = shs\<rparr>"

subsection \<open>Marks\<close>

type_synonym picker = "int list \<Rightarrow> int"

definition allocate_mark :: "picker \<Rightarrow> nctl \<Rightarrow> int \<times> nctl" where
  "allocate_mark pick n =
     (if nt_pool n \<noteq> [] then (pick (nt_pool n), n\<lparr>nt_pool := remove1 (pick (nt_pool n)) (nt_pool n)\<rparr>)
      else (0x2000 + int (length (nt_marks n)), n))"

definition release_mark :: "int \<Rightarrow> nctl \<Rightarrow> nctl" where
  "release_mark m n = (if m \<in> set (nt_pool n) then n else n\<lparr>nt_pool := m # nt_pool n\<rparr>)"

subsection \<open>The rules of one application\<close>

definition app_tier :: "net_app \<Rightarrow> tier" where
  \<comment> \<open>\<open>app.get("network_priority") or app.get("priority", "low")\<close>\<close>
  "app_tier a =
     (case na_net_priority a of
        Some p \<Rightarrow> if p \<noteq> [] then normalize_net_priority p
                 else (case na_priority a of Some q \<Rightarrow> normalize_net_priority q | None \<Rightarrow> TLow)
      | None \<Rightarrow> (case na_priority a of Some q \<Rightarrow> normalize_net_priority q | None \<Rightarrow> TLow))"

definition clean_paths :: "string list \<Rightarrow> string list" where
  "clean_paths ps = sort (remdups (filter (\<lambda>p. p \<noteq> []) (map strip ps)))"

definition system_rule :: "shaper \<Rightarrow> string \<times> nic_rule" where
  "system_rule sh = (sh_dev sh, \<lparr>nr_ifb = sh_ifb sh, nr_handle = None, nr_prio_egress = None, nr_prio_ifb = None,
     nr_class_egress = get_classid (sh_handle sh) TSystem, nr_class_ifb = get_classid (sh_handle sh + 1) TSystem\<rparr>)"

definition mark_rule :: "tier \<Rightarrow> nat \<Rightarrow> shaper \<Rightarrow> string \<times> nic_rule" where
  "mark_rule t idx sh = (sh_dev sh, \<lparr>nr_ifb = sh_ifb sh, nr_handle = Some (sh_handle sh), nr_prio_egress = Some (10 + idx),
     nr_prio_ifb = Some (21 + idx), nr_class_egress = get_classid (sh_handle sh) t, nr_class_ifb = get_classid (sh_handle sh + 1) t\<rparr>)"

definition mark_filters :: "tier \<Rightarrow> nat \<Rightarrow> int \<Rightarrow> shaper \<Rightarrow> net_cmd list" where
  "mark_filters t idx m sh =
     [FilterAdd (sh_dev sh) (sh_handle sh) (10 + idx) (MatchMark m) (get_classid (sh_handle sh) t) None,
      FilterAdd (sh_ifb sh) (sh_handle sh + 1) (21 + idx) (MatchMark m) (get_classid (sh_handle sh + 1) t) None]"

definition add_app_network_rules :: "picker \<Rightarrow> net_app \<Rightarrow> nat \<Rightarrow> nctl \<Rightarrow> net_cmd list \<times> nctl" where
  "add_app_network_rules pick app idx n =
     (let t = app_tier app; paths = clean_paths (na_paths app)
      in if t = TSystem then
           ([], n\<lparr>nt_apps := AList.update (na_id app)
               \<lparr>ai_mark = None, ai_paths = paths, ai_priority = t, ai_nics = map system_rule (nt_shapers n)\<rparr> (nt_apps n)\<rparr>)
         else
           (case allocate_mark pick n of (m, n1) \<Rightarrow>
              (map (\<lambda>p. MarkAdd p m) paths @ concat (map (mark_filters t idx m) (nt_shapers n)),
               n1\<lparr>nt_marks := AList.update (na_id app) m (nt_marks n1),
                  nt_apps := AList.update (na_id app)
                    \<lparr>ai_mark = Some m, ai_paths = paths, ai_priority = t, ai_nics = map (mark_rule t idx) (nt_shapers n)\<rparr> (nt_apps n1)\<rparr>)))"

definition clear_app_pps_cap :: "string \<Rightarrow> nctl \<Rightarrow> net_cmd list \<times> nctl" where
  \<comment> \<open>an empty id, like no id, stands for every application\<close>
  "clear_app_pps_cap app_id n =
     (let ids = (if app_id \<noteq> [] then [app_id] else map fst (nt_caps n))
      in (concat (map (\<lambda>a. map (\<lambda>(dev, prio, h). FilterDel dev h prio) (dget (map_of (nt_caps n)) a [])) ids),
          n\<lparr>nt_caps := filter (\<lambda>(a, _). a \<notin> set ids) (nt_caps n)\<rparr>))"

definition filter_dels :: "string \<times> nic_rule \<Rightarrow> net_cmd list" where
  "filter_dels r =
     (case (nr_prio_egress (snd r), nr_prio_ifb (snd r), nr_handle (snd r)) of
        (Some pe, Some pb, Some h) \<Rightarrow> [FilterDel (fst r) h pe, FilterDel (nr_ifb (snd r)) (h + 1) pb]
      | _ \<Rightarrow> [])"

definition remove_app_network_rules :: "string \<Rightarrow> nctl \<Rightarrow> net_cmd list \<times> nctl" where
  "remove_app_network_rules app_id n =
     (case map_of (nt_apps n) app_id of
        None \<Rightarrow> ([], n)
      | Some info \<Rightarrow>
          (case clear_app_pps_cap app_id n of (cs, n1) \<Rightarrow>
             (cs @ (case ai_mark info of None \<Rightarrow> [] | Some m \<Rightarrow> map (\<lambda>p. MarkDel p m) (ai_paths info))
                @ concat (map filter_dels (ai_nics info)),
              (let n2 = (case ai_mark info of None \<Rightarrow> n1 | Some m \<Rightarrow> release_mark m n1)
               in n2\<lparr>nt_marks := AList.delete app_id (nt_marks n2), nt_apps := AList.delete app_id (nt_apps n2)\<rparr>))))"

subsection \<open>Following the list of applications\<close>

fun remove_apps :: "string list \<Rightarrow> nctl \<Rightarrow> net_cmd list \<times> nctl" where
  "remove_apps [] n = ([], n)"
| "remove_apps (a # as) n =
     (case remove_app_network_rules a n of (cs, n1) \<Rightarrow> (case remove_apps as n1 of (ds, n2) \<Rightarrow> (cs @ ds, n2)))"

definition update_app :: "picker \<Rightarrow> string list \<Rightarrow> nat \<Rightarrow> net_app \<Rightarrow> nctl \<Rightarrow> net_cmd list \<times> nctl" where
  "update_app pick old_ids idx app n =
     (if na_id app \<in> set old_ids then
        (let (old_t, old_paths) = (case map_of (nt_apps n) (na_id app) of
               None \<Rightarrow> (TLow, []) | Some i \<Rightarrow> (ai_priority i, ai_paths i))
         in if old_t \<noteq> app_tier app \<or> set old_paths \<noteq> set (clean_paths (na_paths app)) then
              (case remove_app_network_rules (na_id app) n of (cs, n1) \<Rightarrow>
                 (case add_app_network_rules pick app idx n1 of (ds, n2) \<Rightarrow> (cs @ ds, n2)))
            else ([], n))
      else add_app_network_rules pick app idx n)"

fun update_apps :: "picker \<Rightarrow> string list \<Rightarrow> nat \<Rightarrow> net_app list \<Rightarrow> nctl \<Rightarrow> net_cmd list \<times> nctl" where
  "update_apps pick old_ids idx [] n = ([], n)"
| "update_apps pick old_ids idx (app # apps) n =
     (case update_app pick old_ids idx app n of (cs, n1) \<Rightarrow>
        (case update_apps pick old_ids (idx + 1) apps n1 of (ds, n2) \<Rightarrow> (cs @ [ConnmarkDel, ConnmarkAdd] @ ds, n2)))"

definition update_app_network_control :: "picker \<Rightarrow> net_app list \<Rightarrow> nctl \<Rightarrow> net_cmd list \<times> nctl" where
  "update_app_network_control pick apps n =
     (let old_ids = map fst (nt_apps n)
      in case remove_apps (filter (\<lambda>a. a \<notin> na_id ` set apps) old_ids) n of (cs, n1) \<Rightarrow>
           (case update_apps pick old_ids 0 apps n1 of (ds, n2) \<Rightarrow> (cs @ ds, n2)))"

definition app_step :: "picker \<Rightarrow> net_app list \<Rightarrow> tc_kernel \<times> nctl \<Rightarrow> tc_kernel \<times> nctl" where
  "app_step pick apps s = (case update_app_network_control pick apps (snd s) of (cs, n) \<Rightarrow> (tc_run cs (fst s), n))"

fun app_run :: "picker \<Rightarrow> net_app list list \<Rightarrow> tc_kernel \<times> nctl \<Rightarrow> tc_kernel \<times> nctl" where
  "app_run pick [] s = s"
| "app_run pick (l # ls) s = app_run pick ls (app_step pick l s)"

definition teardown_all :: "nctl \<Rightarrow> net_cmd list" where
  "teardown_all n =
     concat (map (\<lambda>sh. [QdiscDel (sh_dev sh) (sh_handle sh), QdiscDel (sh_ifb sh) (sh_handle sh + 1), IngressDel (sh_dev sh),
       LinkDel (sh_ifb sh)]) (nt_shapers n))
     @ concat (map (\<lambda>(a, i). case ai_mark i of None \<Rightarrow> [] | Some m \<Rightarrow> map (\<lambda>p. MarkDel p m) (ai_paths i)) (nt_apps n))"

subsection \<open>The marks stay unique and the mark rules match the table\<close>

definition app_marks :: "string \<times> app_info \<Rightarrow> (string \<times> int) list" where
  "app_marks ai = (case ai_mark (snd ai) of None \<Rightarrow> [] | Some m \<Rightarrow> map (\<lambda>p. (p, m)) (ai_paths (snd ai)))"

definition mark_table :: "nctl \<Rightarrow> (string \<times> int) multiset" where
  "mark_table n = mset (concat (map app_marks (nt_apps n)))"

definition marks_ok :: "nctl \<Rightarrow> bool" where
  "marks_ok n \<longleftrightarrow> distinct (map fst (nt_apps n)) \<and> distinct (map fst (nt_marks n))
     \<and> (\<forall>a. map_of (nt_marks n) a = Option.bind (map_of (nt_apps n) a) ai_mark)
     \<and> distinct (nt_pool n @ map snd (nt_marks n))
     \<and> (\<exists>k. set (nt_pool n) \<union> snd ` set (nt_marks n) = {0x1000..<0x2000} \<union> {0x3000..<0x3000 + int k})"

fun mark_effect :: "net_cmd \<Rightarrow> (string \<times> int) multiset \<Rightarrow> (string \<times> int) multiset" where
  "mark_effect (MarkAdd p m) M = add_mset (p, m) M"
| "mark_effect (MarkDel p m) M = M - {#(p, m)#}"
| "mark_effect _ M = M"

lemma mark_effect_exec: "mset (tk_marks (tc_exec c k)) = mark_effect c (mset (tk_marks k))"
  by (cases c) auto

lemma mark_effect_run: "mset (tk_marks (tc_run cs k)) = fold mark_effect cs (mset (tk_marks k))"
  by (induction cs arbitrary: k) (simp_all add: mark_effect_exec)

lemma mark_effect_none: "(\<And>c. c \<in> set cs \<Longrightarrow> mark_effect c = id) \<Longrightarrow> fold mark_effect cs M = M"
  by (induction cs arbitrary: M) simp_all

lemma mark_effect_adds: "fold mark_effect (map (\<lambda>p. MarkAdd p m) ps) M = M + mset (map (\<lambda>p. (p, m)) ps)"
  by (induction ps arbitrary: M) simp_all

lemma mark_effect_dels: "fold mark_effect (map (\<lambda>p. MarkDel p m) ps) M = M - mset (map (\<lambda>p. (p, m)) ps)"
  by (induction ps arbitrary: M) simp_all

lemma mark_filters_none: "c \<in> set (mark_filters t idx m sh) \<Longrightarrow> mark_effect c = id"
  by (auto simp: mark_filters_def id_def)

lemma filter_dels_none: "c \<in> set (filter_dels r) \<Longrightarrow> mark_effect c = id"
  by (auto simp: filter_dels_def id_def split: option.splits)

lemma clear_caps_none: "c \<in> set (fst (clear_app_pps_cap a n)) \<Longrightarrow> mark_effect c = id"
  by (auto simp: clear_app_pps_cap_def Let_def id_def split: if_splits)

lemma update_fresh: "map_of al a = None \<Longrightarrow> AList.update a v al = al @ [(a, v)]"
  by (induction al) auto

lemma length_used:
  assumes "distinct (map snd (nt_marks n))" "snd ` set (nt_marks n) = {0x1000..<0x2000} \<union> {0x3000..<0x3000 + int k}"
  shows "length (nt_marks n) = 0x1000 + k"
proof -
  have "length (nt_marks n) = card (set (map snd (nt_marks n)))" using distinct_card [OF assms(1)] by simp
  also have "\<dots> = card ({0x1000..<0x2000} \<union> {0x3000..<0x3000 + int k})" using assms(2) by simp
  also have "\<dots> = 0x1000 + k" by (subst card_Un_disjoint) auto
  finally show ?thesis .
qed

definition picks :: "picker \<Rightarrow> bool" where
  "picks pick \<longleftrightarrow> (\<forall>xs. xs \<noteq> [] \<longrightarrow> pick xs \<in> set xs)"

lemma allocate_fresh:
  assumes "marks_ok n" "picks pick" "allocate_mark pick n = (m, n1)"
  shows "nt_marks n1 = nt_marks n" "nt_apps n1 = nt_apps n" "nt_shapers n1 = nt_shapers n"
    and "distinct (m # nt_pool n1 @ map snd (nt_marks n))"
    and "\<exists>k. set (nt_pool n1) \<union> insert m (snd ` set (nt_marks n)) = {0x1000..<0x2000} \<union> {0x3000..<0x3000 + int k}"
proof -
  from assms(1) obtain k where k: "set (nt_pool n) \<union> snd ` set (nt_marks n) = {0x1000..<0x2000} \<union> {0x3000..<0x3000 + int k}"
    and d: "distinct (nt_pool n @ map snd (nt_marks n))" by (auto simp: marks_ok_def)
  show "nt_marks n1 = nt_marks n" "nt_apps n1 = nt_apps n" "nt_shapers n1 = nt_shapers n"
    using assms(3) by (auto simp: allocate_mark_def split: if_splits)
  have "distinct (m # nt_pool n1 @ map snd (nt_marks n)) \<and>
    (\<exists>k. set (nt_pool n1) \<union> insert m (snd ` set (nt_marks n)) = {0x1000..<0x2000} \<union> {0x3000..<0x3000 + int k})"
  proof (cases "nt_pool n = []")
    case True
    have len: "length (nt_marks n) = 0x1000 + k" using d k True by (intro length_used) simp_all
    have m: "m = 0x3000 + int k" "nt_pool n1 = []" using assms(3) True len by (auto simp: allocate_mark_def)
    have "m \<notin> snd ` set (nt_marks n)" using k True m by auto
    have "insert m (snd ` set (nt_marks n)) = {0x1000..<0x2000} \<union> {0x3000..<0x3000 + int (Suc k)}"
      using k True m by auto
    then have "\<exists>k'. set (nt_pool n1) \<union> insert m (snd ` set (nt_marks n)) = {0x1000..<0x2000} \<union> {0x3000..<0x3000 + int k'}"
      using m(2) by (intro exI [where x = "Suc k"]) simp
    moreover have "distinct (m # nt_pool n1 @ map snd (nt_marks n))"
      using \<open>m \<notin> snd ` set (nt_marks n)\<close> d m(2) by simp
    ultimately show ?thesis by blast
  next
    case False
    with assms(2,3) have m: "m \<in> set (nt_pool n)" "nt_pool n1 = remove1 m (nt_pool n)"
      by (auto simp: allocate_mark_def picks_def)
    have "m \<notin> snd ` set (nt_marks n)" using d m(1) by auto
    moreover have "set (nt_pool n1) \<union> insert m (snd ` set (nt_marks n)) = set (nt_pool n) \<union> snd ` set (nt_marks n)"
      using d m by auto
    ultimately show ?thesis using d m k by auto
  qed
  then show "distinct (m # nt_pool n1 @ map snd (nt_marks n))"
    "\<exists>k. set (nt_pool n1) \<union> insert m (snd ` set (nt_marks n)) = {0x1000..<0x2000} \<union> {0x3000..<0x3000 + int k}" by blast+
qed

definition rules_ok :: "(string \<times> int) multiset \<Rightarrow> tc_kernel \<times> nctl \<Rightarrow> bool" where
  "rules_ok B s \<longleftrightarrow> marks_ok (snd s) \<and> mset (tk_marks (fst s)) = B + mark_table (snd s)"

lemma add_rules_ok:
  assumes "rules_ok B (k, n)" "picks pick" "map_of (nt_apps n) (na_id app) = None"
    and "add_app_network_rules pick app idx n = (cs, n')"
  shows "rules_ok B (tc_run cs k, n') \<and> fst ` set (nt_apps n') = insert (na_id app) (fst ` set (nt_apps n))"
proof (cases "app_tier app = TSystem")
  case True
  have ok: "marks_ok n" using assms(1) by (simp add: rules_ok_def)
  let ?i = "\<lparr>ai_mark = None, ai_paths = clean_paths (na_paths app), ai_priority = TSystem, ai_nics = map system_rule (nt_shapers n)\<rparr>"
  have n': "nt_marks n' = nt_marks n" "nt_apps n' = nt_apps n @ [(na_id app, ?i)]" "nt_pool n' = nt_pool n" and cs: "cs = []"
    using assms(3,4) True by (auto simp: add_app_network_rules_def Let_def update_fresh)
  have look: "map_of (nt_marks n') a = Option.bind (map_of (nt_apps n') a) ai_mark" for a
    using ok assms(3) unfolding n' by (cases "a = na_id app") (simp_all add: marks_ok_def map_add_def split: option.splits)
  have "marks_ok n'" unfolding marks_ok_def
    using ok assms(3) look by (simp add: n' marks_ok_def map_of_eq_None_iff)
  with assms(1) show ?thesis by (simp add: rules_ok_def mark_table_def n' cs app_marks_def)
next
  case False
  obtain m n1 where al: "allocate_mark pick n = (m, n1)" by (cases "allocate_mark pick n")
  have ok: "marks_ok n" using assms(1) by (simp add: rules_ok_def)
  note f = allocate_fresh [OF ok assms(2) al]
  have nm: "map_of (nt_marks n) (na_id app) = None" using ok assms(3) by (simp add: marks_ok_def)
  let ?i = "\<lparr>ai_mark = Some m, ai_paths = clean_paths (na_paths app), ai_priority = app_tier app,
    ai_nics = map (mark_rule (app_tier app) idx) (nt_shapers n)\<rparr>"
  have n': "nt_marks n' = nt_marks n @ [(na_id app, m)]" "nt_apps n' = nt_apps n @ [(na_id app, ?i)]" "nt_pool n' = nt_pool n1"
    and cs: "cs = map (\<lambda>p. MarkAdd p m) (clean_paths (na_paths app)) @ concat (map (mark_filters (app_tier app) idx m) (nt_shapers n))"
    using assms(4) False al f(1-3) nm assms(3) by (auto simp: add_app_network_rules_def Let_def update_fresh)
  have look: "map_of (nt_marks n') a = Option.bind (map_of (nt_apps n') a) ai_mark" for a
    using ok nm assms(3) unfolding n' by (cases "a = na_id app") (simp_all add: marks_ok_def map_add_def split: option.splits)
  have fresh: "na_id app \<notin> fst ` set (nt_marks n)" "na_id app \<notin> fst ` set (nt_apps n)"
    using nm assms(3) by (simp_all add: map_of_eq_None_iff)
  have "marks_ok n'" unfolding marks_ok_def
  proof (intro conjI allI look)
    show "distinct (map fst (nt_apps n'))" "distinct (map fst (nt_marks n'))"
      using ok fresh by (simp_all add: n' marks_ok_def)
    show "distinct (nt_pool n' @ map snd (nt_marks n'))" using f(4) by (auto simp: n')
    show "\<exists>k. set (nt_pool n') \<union> snd ` set (nt_marks n') = {0x1000..<0x2000} \<union> {0x3000..<0x3000 + int k}"
      using f(5) by (simp add: n')
  qed
  moreover have "mset (tk_marks (tc_run cs k)) = mset (tk_marks k) + mset (map (\<lambda>p. (p, m)) (clean_paths (na_paths app)))"
    unfolding cs mark_effect_run fold_append comp_def mark_effect_adds
    by (rule mark_effect_none) (auto simp: mark_filters_none)
  ultimately show ?thesis using assms(1) by (auto simp: rules_ok_def mark_table_def n' app_marks_def)
qed

lemma delete_fresh_filter: "AList.delete a al = filter (\<lambda>p. fst p \<noteq> a) al"
  by (auto simp: AList.delete_eq intro!: filter_cong)

lemma map_of_without: "map_of (filter (\<lambda>p. fst p \<noteq> a) xs) b = (if b = a then None else map_of xs b)"
  by (induction xs) auto

lemma mset_filter_split: "mset (concat (map f xs)) = mset (concat (map f (filter P xs))) + mset (concat (map f (filter (\<lambda>x. \<not> P x) xs)))"
  by (induction xs) auto

lemma filter_key: "distinct (map fst al) \<Longrightarrow> map_of al a = Some v \<Longrightarrow> filter (\<lambda>p. fst p = a) al = [(a, v)]"
proof (induction al)
  case (Cons p al)
  then show ?case
  proof (cases "fst p = a")
    case True
    with Cons.prems have "a \<notin> fst ` set al" by auto
    then have "filter (\<lambda>p. fst p = a) al = []" by (auto simp: filter_empty_conv)
    with True Cons.prems show ?thesis by (cases p) simp
  qed auto
qed simp

lemma remove_rules_ok:
  assumes "rules_ok B (k, n)" "remove_app_network_rules a n = (cs, n')"
  shows "rules_ok B (tc_run cs k, n') \<and> nt_apps n' = filter (\<lambda>p. fst p \<noteq> a) (nt_apps n)"
proof (cases "map_of (nt_apps n) a")
  case None
  then have "filter (\<lambda>p. fst p \<noteq> a) (nt_apps n) = nt_apps n" by (auto simp: map_of_eq_None_iff filter_id_conv)
  with None assms show ?thesis by (auto simp: remove_app_network_rules_def)
next
  case (Some i)
  obtain cc n1 where cl: "clear_app_pps_cap a n = (cc, n1)" by (cases "clear_app_pps_cap a n")
  have n1: "nt_marks n1 = nt_marks n" "nt_apps n1 = nt_apps n" "nt_pool n1 = nt_pool n"
    using cl by (auto simp: clear_app_pps_cap_def Let_def)
  have cn: "fold mark_effect cc N = N" for N
    using clear_caps_none [of _ a n] cl by (intro mark_effect_none) simp
  have ok: "marks_ok n" and M: "mset (tk_marks k) = B + mark_table n" using assms(1) by (simp_all add: rules_ok_def)
  have fn: "fold mark_effect (concat (map filter_dels (ai_nics i))) N = N" for N
    using filter_dels_none by (intro mark_effect_none) auto
  have da: "distinct (map fst (nt_apps n))" using ok by (simp add: marks_ok_def)
  have tab: "mark_table n = mset (app_marks (a, i)) + mset (concat (map app_marks (filter (\<lambda>p. fst p \<noteq> a) (nt_apps n))))"
    unfolding mark_table_def mset_filter_split [of app_marks "nt_apps n" "\<lambda>p. fst p = a"] filter_key [OF da Some] by simp
  have apps': "nt_apps n' = filter (\<lambda>p. fst p \<noteq> a) (nt_apps n)" and marks': "nt_marks n' = filter (\<lambda>p. fst p \<noteq> a) (nt_marks n)"
    and pool': "nt_pool n' = (case ai_mark i of None \<Rightarrow> nt_pool n | Some m \<Rightarrow> nt_pool (release_mark m n1))"
    using assms(2) Some cl n1
    by (auto simp: remove_app_network_rules_def Let_def delete_fresh_filter release_mark_def split: option.splits if_splits)
  have cs: "cs = cc @ (case ai_mark i of None \<Rightarrow> [] | Some m \<Rightarrow> map (\<lambda>p. MarkDel p m) (ai_paths i)) @ concat (map filter_dels (ai_nics i))"
    using assms(2) Some cl by (auto simp: remove_app_network_rules_def)
  have "mset (tk_marks (tc_run cs k)) = B + mark_table n - mset (app_marks (a, i))"
    unfolding mark_effect_run cs fold_append comp_def M fn cn
    by (simp add: mark_effect_dels app_marks_def split: option.split)
  then have M': "mset (tk_marks (tc_run cs k)) = B + mark_table n'" unfolding tab by (simp add: mark_table_def apps')
  have mk: "map_of (nt_marks n) a = ai_mark i" using ok Some by (simp add: marks_ok_def)
  have look: "map_of (nt_marks n') b = Option.bind (map_of (nt_apps n') b) ai_mark" for b
    using ok unfolding marks' apps' by (simp add: marks_ok_def map_of_without)
  have dm: "distinct (map fst (nt_marks n))" "distinct (nt_pool n @ map snd (nt_marks n))" using ok by (simp_all add: marks_ok_def)
  obtain k' where uk: "set (nt_pool n) \<union> snd ` set (nt_marks n) = {0x1000..<0x2000} \<union> {0x3000..<0x3000 + int k'}"
    using ok by (auto simp: marks_ok_def)
  have released: "distinct (nt_pool n' @ map snd (nt_marks n')) \<and> set (nt_pool n') \<union> snd ` set (nt_marks n') = {0x1000..<0x2000} \<union> {0x3000..<0x3000 + int k'}"
  proof (cases "ai_mark i")
    case None
    then have "a \<notin> fst ` set (nt_marks n)" using mk by (simp add: map_of_eq_None_iff)
    then have "nt_marks n' = nt_marks n" unfolding marks' by (force simp: filter_id_conv)
    then show ?thesis using pool' None dm(2) uk by simp
  next
    case (Some m)
    then have am: "filter (\<lambda>p. fst p = a) (nt_marks n) = [(a, m)]" using filter_key [OF dm(1)] mk by simp
    have "mset (map snd (nt_marks n)) = add_mset m (mset (map snd (nt_marks n')))"
      using am mset_filter_split [of "\<lambda>p. [snd p]" "nt_marks n" "\<lambda>p. fst p = a"] unfolding marks' by (simp add: concat_map_singleton)
    then have e: "mset (nt_pool n @ map snd (nt_marks n)) = mset ((m # nt_pool n) @ map snd (nt_marks n'))" by simp
    have "(a, m) \<in> set (nt_marks n)" using mk Some by (simp add: map_of_SomeD)
    then have "m \<notin> set (nt_pool n1)" using dm(2) n1(3) by force
    then have p: "nt_pool n' = m # nt_pool n" using pool' Some n1(3) by (simp add: release_mark_def)
    have "distinct (nt_pool n' @ map snd (nt_marks n'))" unfolding p using mset_eq_imp_distinct_iff [OF e] dm(2) by blast
    moreover have "set (nt_pool n' @ map snd (nt_marks n')) = set (nt_pool n @ map snd (nt_marks n))"
      unfolding p using mset_eq_setD [OF e] by simp
    ultimately show ?thesis using uk by simp
  qed
  have "marks_ok n'" unfolding marks_ok_def
  proof (intro conjI allI look)
    show "distinct (map fst (nt_apps n'))" "distinct (map fst (nt_marks n'))"
      using da dm(1) by (simp_all add: apps' marks' distinct_map_filter)
    show "distinct (nt_pool n' @ map snd (nt_marks n'))" using released by blast
    show "\<exists>k. set (nt_pool n') \<union> snd ` set (nt_marks n') = {0x1000..<0x2000} \<union> {0x3000..<0x3000 + int k}" using released by blast
  qed
  with M' apps' show ?thesis by (simp add: rules_ok_def)
qed

lemma remove_apps_ok:
  "rules_ok B (k, n) \<Longrightarrow> remove_apps as n = (cs, n') \<Longrightarrow>
   rules_ok B (tc_run cs k, n') \<and> fst ` set (nt_apps n') = fst ` set (nt_apps n) - set as"
proof (induction as arbitrary: k n cs)
  case (Cons a as)
  obtain ca n1 where a: "remove_app_network_rules a n = (ca, n1)" by (cases "remove_app_network_rules a n")
  obtain ds where d: "remove_apps as n1 = (ds, n')" "cs = ca @ ds"
    using Cons.prems(2) a by (auto split: prod.splits)
  have r: "rules_ok B (tc_run ca k, n1)" "nt_apps n1 = filter (\<lambda>p. fst p \<noteq> a) (nt_apps n)"
    using remove_rules_ok [OF Cons.prems(1) a] by blast+
  from Cons.IH [OF r(1) d(1)] show ?case unfolding d(2) using r(2) by auto
qed simp

lemma update_app_ok:
  assumes "rules_ok B (k, n)" "picks pick" "na_id app \<notin> set old \<Longrightarrow> na_id app \<notin> fst ` set (nt_apps n)"
    and "update_app pick old idx app n = (cs, n')"
  shows "rules_ok B (tc_run cs k, n') \<and> fst ` set (nt_apps n') \<subseteq> insert (na_id app) (fst ` set (nt_apps n))"
proof -
  consider (same) "cs = []" "n' = n"
    | (again) ca n1 ds where "remove_app_network_rules (na_id app) n = (ca, n1)" "add_app_network_rules pick app idx n1 = (ds, n')" "cs = ca @ ds"
    | (new) "na_id app \<notin> set old" "add_app_network_rules pick app idx n = (cs, n')"
    using assms(4) by (auto simp: update_app_def Let_def split: if_splits prod.splits option.splits)
  then show ?thesis
  proof cases
    case same
    with assms(1) show ?thesis by auto
  next
    case again
    have r: "rules_ok B (tc_run ca k, n1)" "nt_apps n1 = filter (\<lambda>p. fst p \<noteq> na_id app) (nt_apps n)"
      using remove_rules_ok [OF assms(1) again(1)] by blast+
    have "map_of (nt_apps n1) (na_id app) = None" using r(2) by (simp add: map_of_without)
    from add_rules_ok [OF r(1) assms(2) this again(2)] show ?thesis unfolding again(3) using r(2) by auto
  next
    case new
    have "map_of (nt_apps n) (na_id app) = None" using assms(3) new(1) by (simp add: map_of_eq_None_iff)
    from add_rules_ok [OF assms(1,2) this new(2)] show ?thesis by auto
  qed
qed

lemma update_apps_ok:
  "rules_ok B (k, n) \<Longrightarrow> picks pick \<Longrightarrow> distinct (map na_id apps) \<Longrightarrow>
   (\<And>app. app \<in> set apps \<Longrightarrow> na_id app \<notin> set old \<Longrightarrow> na_id app \<notin> fst ` set (nt_apps n)) \<Longrightarrow>
   update_apps pick old idx apps n = (cs, n') \<Longrightarrow> rules_ok B (tc_run cs k, n')"
proof (induction apps arbitrary: k n cs idx)
  case (Cons app apps)
  obtain ca n1 where a: "update_app pick old idx app n = (ca, n1)" by (cases "update_app pick old idx app n")
  obtain ds where d: "update_apps pick old (idx + 1) apps n1 = (ds, n')" "cs = ca @ [ConnmarkDel, ConnmarkAdd] @ ds"
    using Cons.prems(5) a by (auto split: prod.splits)
  have r: "rules_ok B (tc_run ca k, n1)" "fst ` set (nt_apps n1) \<subseteq> insert (na_id app) (fst ` set (nt_apps n))"
    using update_app_ok [OF Cons.prems(1,2) _ a] Cons.prems(4) by auto
  have "rules_ok B (tc_run ds (tc_run ca k), n')"
  proof (rule Cons.IH [OF r(1) Cons.prems(2) _ _ d(1)])
    show "distinct (map na_id apps)" using Cons.prems(3) by simp
    fix b assume b: "b \<in> set apps" "na_id b \<notin> set old"
    then have "na_id b \<noteq> na_id app" using Cons.prems(3) by (auto simp: rev_image_eqI)
    moreover have "na_id b \<notin> fst ` set (nt_apps n)" using Cons.prems(4) b by simp
    ultimately show "na_id b \<notin> fst ` set (nt_apps n1)" using r(2) by blast
  qed
  then show ?case unfolding d(2) by simp
qed simp

lemma app_step_ok:
  assumes "rules_ok B s" "picks pick" "distinct (map na_id apps)" shows "rules_ok B (app_step pick apps s)"
proof -
  obtain k n where s: "s = (k, n)" by (cases s)
  let ?gone = "filter (\<lambda>a. a \<notin> na_id ` set apps) (map fst (nt_apps n))"
  obtain cs n1 where a: "remove_apps ?gone n = (cs, n1)" by (cases "remove_apps ?gone n")
  obtain ds n2 where b: "update_apps pick (map fst (nt_apps n)) 0 apps n1 = (ds, n2)"
    by (cases "update_apps pick (map fst (nt_apps n)) 0 apps n1")
  have r: "rules_ok B (tc_run cs k, n1)" "fst ` set (nt_apps n1) = fst ` set (nt_apps n) - set ?gone"
    using remove_apps_ok [OF _ a] assms(1) s by auto
  have "rules_ok B (tc_run ds (tc_run cs k), n2)"
    by (rule update_apps_ok [OF r(1) assms(2,3) _ b]) (use r(2) in auto)
  then show ?thesis by (simp add: s app_step_def update_app_network_control_def Let_def a b)
qed

lemma app_run_ok: "rules_ok B s \<Longrightarrow> picks pick \<Longrightarrow> \<forall>l \<in> set ls. distinct (map na_id l) \<Longrightarrow> rules_ok B (app_run pick ls s)"
  by (induction ls arbitrary: s) (simp_all add: app_step_ok)

lemma base_marks_props: "set base_marks = {0x1000..<0x2000}" "distinct base_marks"
  by (simp_all only: base_marks_def set_map set_upt image_int_atLeastLessThan of_nat_numeral distinct_map distinct_upt inj_on_of_nat simp_thms)

lemma init_rules_ok: "rules_ok (mset (tk_marks k)) (k, nctl_init shs)"
  using base_marks_props
  by (simp add: rules_ok_def marks_ok_def nctl_init_def mark_table_def exI [where x = 0])

text \<open>C15: However the list of controlled applications changes, the marks stay unambiguous: no two applications carry the
  same mark and no mark in use is in the pool, also after the pool of 4096 marks ran dry. And the mark rules in
  iptables are exactly those of the recorded applications, one per path, on top of the foreign ones that were there
  before.\<close>
theorem marks_unique_and_rules_exact:
  assumes "picks pick" "\<forall>l \<in> set ls. distinct (map na_id l)" "app_run pick ls (k, nctl_init shs) = (k', n)"
  shows "distinct (map snd (nt_marks n)) \<and> set (nt_pool n) \<inter> snd ` set (nt_marks n) = {}
    \<and> (\<forall>a m. map_of (nt_marks n) a = Some m \<longleftrightarrow> (\<exists>i. map_of (nt_apps n) a = Some i \<and> ai_mark i = Some m))
    \<and> mset (tk_marks k') = mset (tk_marks k) + (\<Sum>ai \<leftarrow> nt_apps n. mset (app_marks ai))"
proof -
  have ok: "rules_ok (mset (tk_marks k)) (k', n)"
    using app_run_ok [OF init_rules_ok assms(1,2), of k shs] assms(3) by simp
  have "mset (concat (map app_marks xs)) = (\<Sum>ai \<leftarrow> xs. mset (app_marks ai))" for xs :: "(string \<times> app_info) list"
    by (induction xs) simp_all
  with ok show ?thesis by (auto simp: rules_ok_def marks_ok_def mark_table_def Option.bind_eq_Some_conv)
qed

definition demo_app :: "string \<Rightarrow> net_app" where
  "demo_app a = \<lparr>na_id = a, na_net_priority = Some ''high'', na_priority = None, na_paths = [''/user.slice/'' @ a]\<rparr>"

definition demo_kernel :: tc_kernel where
  "demo_kernel = \<lparr>tk_class = (\<lambda>x. None), tk_filters = [], tk_marks = []\<rparr>"

definition demo_shaper :: shaper where
  "demo_shaper = new_shaper ''eth0'' ''ifb0'' 50 1000000"

lemma marks_unique_and_rules_exact_witness:
  "distinct (map snd (nt_marks (snd (app_run hd [[demo_app ''a'', demo_app ''b''], [demo_app ''b'', demo_app ''c'']]
     (demo_kernel, nctl_init [demo_shaper])))))"
proof -
  let ?ls = "[[demo_app ''a'', demo_app ''b''], [demo_app ''b'', demo_app ''c'']]"
  obtain k n where r: "app_run hd ?ls (demo_kernel, nctl_init [demo_shaper]) = (k, n)" by fastforce
  have "distinct (map snd (nt_marks n))"
    using marks_unique_and_rules_exact [OF _ _ r] by (simp add: picks_def demo_app_def)
  then show ?thesis unfolding r by simp
qed

text \<open>The priority of an application's filters comes from its position in the list at the time it was added, and the
  filters of one priority are deleted together. Three applications, one after the other: \<open>b\<close> keeps priority 11 when
  \<open>a\<close> goes, \<open>c\<close> is added with the same priority 11, and when \<open>b\<close> goes the filters of \<open>c\<close> go with it. \<open>c\<close> stays in
  the table, so nothing adds them again.\<close>

definition demo_ctl :: nctl where
  \<comment> \<open>a controller with three marks left\<close>
  "demo_ctl = \<lparr>nt_pool = [0x1000, 0x1001, 0x1002], nt_marks = [], nt_apps = [], nt_samples = (\<lambda>a. None), nt_rates = (\<lambda>a. None),
     nt_caps = [], nt_police = None, nt_esc = [], nt_shapers = [demo_shaper]\<rparr>"

definition three_updates :: "tc_kernel \<times> nctl" where
  "three_updates = app_run hd [[demo_app ''a'', demo_app ''b''], [demo_app ''b'', demo_app ''c''], [demo_app ''c'']] (demo_kernel, demo_ctl)"

lemma filter_priority_collision:
  "map fst (nt_apps (snd three_updates)) = [''c''] \<and> tk_filters (fst three_updates) = []
   \<and> tk_filters (fst (app_run hd [[demo_app ''c''], [demo_app ''c'']] three_updates)) = []"
  by code_simp

subsection \<open>A fresh start classifies every application\<close>

definition classified :: "tc_filter list \<Rightarrow> nctl \<Rightarrow> nat \<Rightarrow> net_app \<Rightarrow> bool" where
  \<comment> \<open>the application's mark leads to the class of its tier on every NIC, both ways\<close>
  "classified F n idx app \<longleftrightarrow>
     (\<exists>m. map_of (nt_marks n) (na_id app) = Some m \<and> (\<forall>sh \<in> set (nt_shapers n).
        (sh_dev sh, sh_handle sh, 10 + idx, MatchMark m, get_classid (sh_handle sh) (app_tier app), None) \<in> set F
        \<and> (sh_ifb sh, sh_handle sh + 1, 21 + idx, MatchMark m, get_classid (sh_handle sh + 1) (app_tier app), None) \<in> set F))"

fun only_adds :: "net_cmd \<Rightarrow> bool" where
  "only_adds (FilterDel dev p prio) = False"
| "only_adds (QdiscDel dev h) = False"
| "only_adds c = True"

lemma only_adds_exec: "only_adds c \<Longrightarrow> set (tk_filters k) \<subseteq> set (tk_filters (tc_exec c k))"
  by (cases c) auto

lemma only_adds_run: "list_all only_adds cs \<Longrightarrow> set (tk_filters k) \<subseteq> set (tk_filters (tc_run cs k))"
proof (induction cs arbitrary: k)
  case (Cons c cs)
  then have "set (tk_filters k) \<subseteq> set (tk_filters (tc_exec c k))" by (intro only_adds_exec) simp
  also have "\<dots> \<subseteq> set (tk_filters (tc_run cs (tc_exec c k)))" using Cons by simp
  finally show ?case by simp
qed simp

lemma run_adds_filter:
  "list_all only_adds cs \<Longrightarrow> FilterAdd d p prio m c pol \<in> set cs \<Longrightarrow> (d, p, prio, m, c, pol) \<in> set (tk_filters (tc_run cs k))"
proof (induction cs arbitrary: k)
  case (Cons e cs)
  show ?case
  proof (cases "e = FilterAdd d p prio m c pol")
    case True
    then have "(d, p, prio, m, c, pol) \<in> set (tk_filters (tc_exec e k))" by simp
    then show ?thesis using only_adds_run [of cs "tc_exec e k"] Cons.prems(1) by auto
  qed (use Cons in auto)
qed simp

lemma add_rules_classifies:
  assumes "add_app_network_rules pick app idx n = (cs, n')" "map_of (nt_marks n) (na_id app) = None" "map_of (nt_apps n) (na_id app) = None"
  shows "list_all only_adds cs \<and> nt_shapers n' = nt_shapers n \<and> (\<exists>ys. nt_marks n' = nt_marks n @ ys \<and> fst ` set ys \<subseteq> {na_id app})
    \<and> fst ` set (nt_apps n') = insert (na_id app) (fst ` set (nt_apps n))
    \<and> (app_tier app \<noteq> TSystem \<longrightarrow> classified (tk_filters (tc_run cs k)) n' idx app)"
proof (cases "app_tier app = TSystem")
  case True
  with assms show ?thesis by (auto simp: add_app_network_rules_def Let_def update_fresh)
next
  case False
  obtain m n1 where al: "allocate_mark pick n = (m, n1)" by (cases "allocate_mark pick n")
  have n1: "nt_marks n1 = nt_marks n" "nt_apps n1 = nt_apps n" "nt_shapers n1 = nt_shapers n"
    using al by (auto simp: allocate_mark_def split: if_splits)
  have cs: "cs = map (\<lambda>p. MarkAdd p m) (clean_paths (na_paths app)) @ concat (map (mark_filters (app_tier app) idx m) (nt_shapers n))"
    and n': "nt_marks n' = nt_marks n @ [(na_id app, m)]" "nt_shapers n' = nt_shapers n"
      "fst ` set (nt_apps n') = insert (na_id app) (fst ` set (nt_apps n))"
    using assms False al n1 by (auto simp: add_app_network_rules_def Let_def update_fresh)
  have adds: "list_all only_adds cs" unfolding cs by (auto simp: list_all_iff mark_filters_def)
  have "map_of (nt_marks n') (na_id app) = Some m" using assms(2) by (simp add: n' map_add_def)
  then have "classified (tk_filters (tc_run cs k)) n' idx app"
    unfolding classified_def using n'(2)
    by (intro exI [where x = m] conjI ballI run_adds_filter adds) (auto simp: cs mark_filters_def)
  then show ?thesis using adds n' by auto
qed

lemma classified_mono:
  "classified F n i app \<Longrightarrow> set F \<subseteq> set G \<Longrightarrow> nt_shapers n' = nt_shapers n \<Longrightarrow>
   (\<And>m. map_of (nt_marks n) (na_id app) = Some m \<Longrightarrow> map_of (nt_marks n') (na_id app) = Some m) \<Longrightarrow> classified G n' i app"
  unfolding classified_def by (metis (no_types, lifting) subsetD)

lemma update_apps_classifies:
  assumes "update_apps pick [] idx apps n = (cs, n')" "distinct (map na_id apps)"
    and "\<And>app. app \<in> set apps \<Longrightarrow> na_id app \<notin> fst ` set (nt_apps n) \<and> na_id app \<notin> fst ` set (nt_marks n)"
  shows "list_all only_adds cs \<and> nt_shapers n' = nt_shapers n \<and> (\<exists>ys. nt_marks n' = nt_marks n @ ys \<and> fst ` set ys \<subseteq> na_id ` set apps)
    \<and> (\<forall>i < length apps. app_tier (apps ! i) \<noteq> TSystem \<longrightarrow> classified (tk_filters (tc_run cs k)) n' (idx + i) (apps ! i))"
  using assms
proof (induction apps arbitrary: idx n cs k)
  case (Cons app apps)
  obtain ca n1 where a: "add_app_network_rules pick app idx n = (ca, n1)" by (cases "add_app_network_rules pick app idx n")
  obtain ds where d: "update_apps pick [] (idx + 1) apps n1 = (ds, n')" "cs = ca @ [ConnmarkDel, ConnmarkAdd] @ ds"
    using Cons.prems(1) a by (auto simp: update_app_def split: prod.splits)
  have fresh: "map_of (nt_marks n) (na_id app) = None" "map_of (nt_apps n) (na_id app) = None"
    using Cons.prems(3) [of app] by (simp_all add: map_of_eq_None_iff)
  from add_rules_classifies [OF a fresh, of k] obtain ys where r: "list_all only_adds ca" "nt_shapers n1 = nt_shapers n"
    "nt_marks n1 = nt_marks n @ ys" "fst ` set ys \<subseteq> {na_id app}" "fst ` set (nt_apps n1) = insert (na_id app) (fst ` set (nt_apps n))"
    "app_tier app \<noteq> TSystem \<longrightarrow> classified (tk_filters (tc_run ca k)) n1 idx app" by blast
  have "na_id b \<notin> fst ` set (nt_apps n1) \<and> na_id b \<notin> fst ` set (nt_marks n1)" if "b \<in> set apps" for b
  proof -
    have "na_id b \<noteq> na_id app" using Cons.prems(2) that by (auto simp: rev_image_eqI)
    with Cons.prems(3) [of b] that r(3-5) show ?thesis by auto
  qed
  from Cons.IH [OF d(1) _ this, of "tc_run [ConnmarkDel, ConnmarkAdd] (tc_run ca k)"] Cons.prems(2) obtain zs where
    IH: "list_all only_adds ds" "nt_shapers n' = nt_shapers n1" "nt_marks n' = nt_marks n1 @ zs" "fst ` set zs \<subseteq> na_id ` set apps"
    "\<And>i. i < length apps \<Longrightarrow> app_tier (apps ! i) \<noteq> TSystem \<Longrightarrow> classified (tk_filters (tc_run cs k)) n' (idx + 1 + i) (apps ! i)"
    unfolding d(2) by auto
  have "classified (tk_filters (tc_run cs k)) n' idx app" if "app_tier app \<noteq> TSystem"
  proof (rule classified_mono)
    show "classified (tk_filters (tc_run ca k)) n1 idx app" using r(6) that by blast
    show "set (tk_filters (tc_run ca k)) \<subseteq> set (tk_filters (tc_run cs k))"
      unfolding d(2) using only_adds_run [OF IH(1), of "tc_run [ConnmarkDel, ConnmarkAdd] (tc_run ca k)"] by simp
    have "na_id app \<notin> fst ` set zs" using IH(4) Cons.prems(2) by auto
    then show "map_of (nt_marks n') (na_id app) = Some m" if "map_of (nt_marks n1) (na_id app) = Some m" for m
      using that by (simp add: IH(3) map_add_def map_of_eq_None_iff [symmetric])
  qed (use IH(2) r(2) in simp)
  then have "classified (tk_filters (tc_run cs k)) n' (idx + i) ((app # apps) ! i)"
    if "i < length (app # apps)" "app_tier ((app # apps) ! i) \<noteq> TSystem" for i
    using that IH(5) [of "i - 1"] by (cases i) simp_all
  moreover have "list_all only_adds cs" unfolding d(2) using r(1) IH(1) by simp
  moreover have "nt_marks n' = nt_marks n @ ys @ zs \<and> fst ` set (ys @ zs) \<subseteq> na_id ` set (app # apps)"
    using IH(3,4) r(3,4) by auto
  ultimately show ?case using IH(2) r(2) by auto
qed simp

text \<open>After the first update of a fresh controller every listed application outside the system tier has a mark of
  its own, and on every shaped NIC that mark leads to the class of the application's tier, for what it sends and for
  what it receives.\<close>
theorem fresh_start_classifies_all:
  assumes "distinct (map na_id apps)" "app_step pick apps (k, nctl_init shs) = (k', n)" "i < length apps" "app_tier (apps ! i) \<noteq> TSystem"
  shows "classified (tk_filters k') n i (apps ! i)"
proof -
  obtain cs where cs: "update_apps pick [] 0 apps (nctl_init shs) = (cs, n)" "k' = tc_run cs k"
    using assms(2) by (auto simp: app_step_def update_app_network_control_def nctl_init_def split: prod.splits)
  from update_apps_classifies [OF cs(1) assms(1), of k] assms(3,4) show ?thesis
    unfolding cs(2) by (simp add: nctl_init_def)
qed

lemma fresh_start_classifies_all_witness:
  "classified (tk_filters (fst (app_step hd [demo_app ''a'', demo_app ''b''] (demo_kernel, nctl_init [demo_shaper]))))
     (snd (app_step hd [demo_app ''a'', demo_app ''b''] (demo_kernel, nctl_init [demo_shaper]))) 1 (demo_app ''b'')"
proof -
  obtain k' n where st: "app_step hd [demo_app ''a'', demo_app ''b''] (demo_kernel, nctl_init [demo_shaper]) = (k', n)" by fastforce
  have "classified (tk_filters k') n 1 ([demo_app ''a'', demo_app ''b''] ! 1)"
    by (rule fresh_start_classifies_all [OF _ st]) (simp_all add: demo_app_def app_tier_def normalize_net_priority_def)
  then show ?thesis unfolding st by simp
qed

end
