(* ===== verification/Net_Control.thy ===== *)
theory Net_Control
  imports Net_Apps Pressure
begin

text \<open>
  Traffic shaping, third part (\<open>balancer/controller/network.py\<close>): the packet-rate policy and its gate, the per-application
  caps, the escalation of a flooded receive path and the reaction to a pair of levels (\<open>handle_network_pressure\<close>).
  Readings of the machine are arguments: packet counts, the kernel version and the receive queues of a NIC. One call
  reads the clock once.
\<close>

subsection \<open>The packet-rate policy\<close>

record pps_policy =
  pp_fq_codel :: bool
  pp_rps :: bool
  pp_budget :: bool
  pp_app_high :: real
  pp_harm :: real
  pp_window :: real
  pp_cap_rate :: int
  pp_cap_burst :: int

definition default_pps_policy :: pps_policy where
  "default_pps_policy = \<lparr>pp_fq_codel = True, pp_rps = True, pp_budget = False, pp_app_high = 50000, pp_harm = 1/2, pp_window = 5,
     pp_cap_rate = 10000, pp_cap_burst = 2000\<rparr>"

fun to_float :: "(string \<Rightarrow> real option) \<Rightarrow> pyval \<Rightarrow> real option" where
  \<comment> \<open>\<open>float(value)\<close>, with the reading of a string as an argument\<close>
  "to_float parse (PStr s) = parse s"
| "to_float parse v = as_number v"

fun to_int :: "pyval \<Rightarrow> int option" where
  "to_int (PBool b) = Some (if b then 1 else 0)"
| "to_int (PInt i) = Some i"
| "to_int (PFloat x) = Some (py_trunc x)"
| "to_int (PStr s) = py_int s"
| "to_int _ = None"

definition policy_entry :: "(string \<Rightarrow> real option) \<Rightarrow> string \<times> pyval \<Rightarrow> pps_policy \<Rightarrow> pps_policy" where
  "policy_entry parse kv p =
     (let k = fst kv; v = snd kv
      in if k = ''enable_fq_codel'' then p\<lparr>pp_fq_codel := truthy v\<rparr>
         else if k = ''enable_rps_escalation'' then p\<lparr>pp_rps := truthy v\<rparr>
         else if k = ''enable_netdev_budget_bump'' then p\<lparr>pp_budget := truthy v\<rparr>
         else if k = ''app_pps_high'' then (case to_float parse v of Some x \<Rightarrow> p\<lparr>pp_app_high := x\<rparr> | None \<Rightarrow> p)
         else if k = ''collective_harm_threshold'' then (case to_float parse v of Some x \<Rightarrow> p\<lparr>pp_harm := x\<rparr> | None \<Rightarrow> p)
         else if k = ''pps_window_sec'' then (case to_float parse v of Some x \<Rightarrow> p\<lparr>pp_window := x\<rparr> | None \<Rightarrow> p)
         else if k = ''pps_cap_rate'' then (case to_int v of Some i \<Rightarrow> p\<lparr>pp_cap_rate := max 1 i\<rparr> | None \<Rightarrow> p)
         else if k = ''pps_cap_burst'' then (case to_int v of Some i \<Rightarrow> p\<lparr>pp_cap_burst := max 1 i\<rparr> | None \<Rightarrow> p)
         else p)"

fun normalized_pps_policy :: "(string \<Rightarrow> real option) \<Rightarrow> pyval \<Rightarrow> pps_policy" where
  "normalized_pps_policy parse (PDict kvs) = fold (policy_entry parse) kvs default_pps_policy"
| "normalized_pps_policy parse _ = default_pps_policy"

subsection \<open>Packet rates and the gate\<close>

definition app_sample :: "(int \<Rightarrow> int option) \<Rightarrow> nctl \<Rightarrow> string \<Rightarrow> int option" where
  \<comment> \<open>the packets counted for the mark of an application\<close>
  "app_sample counts n a = Option.bind (Option.bind (map_of (nt_apps n) a) ai_mark) counts"

definition app_rate :: "pps_policy \<Rightarrow> real \<Rightarrow> (int \<Rightarrow> int option) \<Rightarrow> nctl \<Rightarrow> string \<Rightarrow> real option" where
  "app_rate pol now counts n a =
     (case (app_sample counts n a, nt_samples n a) of
        (Some packets, Some (previous, t)) \<Rightarrow>
          (let elapsed = max (1 / 1000) (now - t)
           in if elapsed \<le> max (1 / 10) (pp_window pol) * 2 then Some (max 0 (of_int (packets - previous)) / elapsed) else None)
      | _ \<Rightarrow> None)"

definition sample_app_pps :: "pps_policy \<Rightarrow> real \<Rightarrow> (int \<Rightarrow> int option) \<Rightarrow> nctl \<Rightarrow> (string \<times> real) list \<times> nctl" where
  "sample_app_pps pol now counts n =
     (concat (map (\<lambda>a. case app_rate pol now counts n a of None \<Rightarrow> [] | Some r \<Rightarrow> [(a, r)]) (map fst (nt_apps n))),
      n\<lparr>nt_samples := (\<lambda>a. if map_of (nt_apps n) a = None then None
            else (case app_sample counts n a of Some p \<Rightarrow> Some (p, now) | None \<Rightarrow> nt_samples n a)),
        nt_rates := (\<lambda>a. case app_rate pol now counts n a of Some r \<Rightarrow> Some r | None \<Rightarrow> nt_rates n a)\<rparr>)"

definition ranked_apps :: "nctl \<Rightarrow> (string \<times> nat) list" where
  "ranked_apps n = map (\<lambda>(a, i). (a, tier_rank (ai_priority i))) (filter (\<lambda>(a, i). ai_mark i \<noteq> None) (nt_apps n))"

definition evaluate_tx_pps_gate ::
  "pps_policy \<Rightarrow> real \<Rightarrow> (int \<Rightarrow> int option) \<Rightarrow> real \<Rightarrow> real \<Rightarrow> nctl \<Rightarrow> string list \<times> nctl" where
  \<comment> \<open>the ids of the candidates, given the two harms\<close>
  "evaluate_tx_pps_gate pol now counts tx_harm softirq_harm n =
     (if max tx_harm softirq_harm < pp_harm pol then ([], n)
      else (case sample_app_pps pol now counts n of (rates, n1) \<Rightarrow>
        (let ranked = ranked_apps n1
         in if ranked = [] then ([], n1)
            else let top_rank = Max (set (map snd ranked))
                 in (map fst (filter (\<lambda>(a, pps). pps \<ge> pp_app_high pol \<and> dget (map_of ranked) a 1 < top_rank) rates), n1))))"

subsection \<open>Caps of single applications\<close>

definition kernel_supports_pkt_police :: "(nat \<times> nat) option \<Rightarrow> nctl \<Rightarrow> bool \<times> nctl" where
  \<comment> \<open>the first answer is kept; \<open>uname\<close> is the major and minor version when it can be read\<close>
  "kernel_supports_pkt_police uname n =
     (case nt_police n of
        Some b \<Rightarrow> (b, n)
      | None \<Rightarrow> (let b = (case uname of None \<Rightarrow> False | Some (major, minor) \<Rightarrow> major > 5 \<or> major = 5 \<and> minor \<ge> 17)
                in (b, n\<lparr>nt_police := Some b\<rparr>)))"

definition apply_app_pps_cap ::
  "pps_policy \<Rightarrow> bool \<Rightarrow> (nat \<times> nat) option \<Rightarrow> shaper \<Rightarrow> string \<Rightarrow> nctl \<Rightarrow> bool \<times> net_cmd list \<times> nctl" where
  "apply_app_pps_cap pol enabled uname sh app_id n =
     (if \<not> enabled then (False, [], n)
      else (case kernel_supports_pkt_police uname n of (ok, n1) \<Rightarrow>
        if \<not> ok then (False, [], n1)
        else (case map_of (nt_apps n1) app_id of
            None \<Rightarrow> (False, [], n1)
          | Some info \<Rightarrow> (case ai_mark info of
                None \<Rightarrow> (False, [], n1)
              | Some m \<Rightarrow>
                  (let dev_caps = dget (map_of (nt_caps n1)) app_id [];
                       caps = AList.update app_id dev_caps (nt_caps n1);
                       n2 = n1\<lparr>nt_caps := caps\<rparr>
                   in if map_of dev_caps (sh_dev sh) \<noteq> None then (True, [], n2)
                      else
                        let prio = 3000 + length caps * 10 + length dev_caps
                        in case map_of (ai_nics info) (sh_dev sh) of
                             None \<Rightarrow> (False, [], n2)
                           | Some r \<Rightarrow>
                               (True, [FilterAdd (sh_dev sh) (sh_handle sh) prio (MatchMark m) (nr_class_egress r)
                                  (Some (pp_cap_rate pol, pp_cap_burst pol))],
                                n2\<lparr>nt_caps := AList.update app_id (dev_caps @ [(sh_dev sh, prio, sh_handle sh)]) caps\<rparr>))))))"

fun apply_caps ::
  "pps_policy \<Rightarrow> bool \<Rightarrow> (nat \<times> nat) option \<Rightarrow> shaper \<Rightarrow> string list \<Rightarrow> nctl \<Rightarrow> bool \<times> net_cmd list \<times> nctl" where
  "apply_caps pol enabled uname sh [] n = (False, [], n)"
| "apply_caps pol enabled uname sh (a # as) n =
     (case apply_app_pps_cap pol enabled uname sh a n of (b, cs, n1) \<Rightarrow>
        (case apply_caps pol enabled uname sh as n1 of (c, ds, n2) \<Rightarrow> (b \<or> c, cs @ ds, n2)))"

subsection \<open>Escalation of the receive path\<close>

fun hex_digit :: "nat \<Rightarrow> char" where
  "hex_digit d = (if d < 10 then char_of (48 + d) else char_of (87 + d))"

fun show_hex :: "nat \<Rightarrow> string" where
  \<comment> \<open>\<open>format(n, "x")\<close>\<close>
  "show_hex n = (if n < 16 then [hex_digit n] else show_hex (n div 16) @ [hex_digit (n mod 16)])"

declare show_hex.simps [simp del]

definition show_hex8 :: "nat \<Rightarrow> string" where
  \<comment> \<open>\<open>format(n, "08x")\<close>\<close>
  "show_hex8 n = replicate (8 - length (show_hex n)) (CHR ''0'') @ show_hex n"

fun mask_words :: "nat \<Rightarrow> nat list" where
  \<comment> \<open>the loop of \<open>_cpu_mask\<close>: the least significant word first\<close>
  "mask_words mk = (if mk = 0 then [] else mk mod 2 ^ 32 # mask_words (mk div 2 ^ 32))"

declare mask_words.simps [simp del]

definition cpu_mask :: "nat \<Rightarrow> string" where
  \<comment> \<open>\<open>_cpu_mask\<close> for the number of processors\<close>
  "cpu_mask ncpu =
     (let cpus = max 1 ncpu; mk = 2 ^ cpus - 1
      in if cpus \<le> 32 then show_hex mk else join_with '','' (rev (map show_hex8 (mask_words mk))))"

record rx_host =
  hr_files :: "string \<Rightarrow> string option"
  hr_writable :: "string \<Rightarrow> bool"

definition host_write :: "string \<Rightarrow> string \<Rightarrow> rx_host \<Rightarrow> rx_host" where
  \<comment> \<open>a failed write is logged and leaves the file\<close>
  "host_write path v h = (if hr_writable h path then h\<lparr>hr_files := (hr_files h)(path \<mapsto> v)\<rparr> else h)"

fun escalate_rps :: "string \<Rightarrow> string list \<Rightarrow> (string \<times> string) list \<Rightarrow> rx_host \<Rightarrow> (string \<times> string) list \<times> rx_host" where
  "escalate_rps mk [] saved h = (saved, h)"
| "escalate_rps mk (p # ps) saved h =
     (let saved1 = (if map_of saved p \<noteq> None then saved
                    else saved @ [(p, case hr_files h p of Some c \<Rightarrow> strip c | None \<Rightarrow> ''0'')])
      in escalate_rps mk ps saved1 (host_write p mk h))"

definition budget_knobs :: "(string \<times> string) list" where
  "budget_knobs = [(''/proc/sys/net/core/netdev_max_backlog'', ''50000''), (''/proc/sys/net/core/netdev_budget'', ''600'')]"

fun bump_sysctl :: "(string \<times> string) list \<Rightarrow> (string \<times> string) list \<Rightarrow> rx_host \<Rightarrow> (string \<times> string) list \<times> rx_host" where
  "bump_sysctl [] saved h = (saved, h)"
| "bump_sysctl ((p, v) # ps) saved h =
     (if map_of saved p \<noteq> None then bump_sysctl ps saved (host_write p v h)
      else (case hr_files h p of
              None \<Rightarrow> bump_sysctl ps saved h
            | Some c \<Rightarrow> bump_sysctl ps (saved @ [(p, strip c)]) (host_write p v h)))"

definition escalate_rx :: "pps_policy \<Rightarrow> nat \<Rightarrow> string list \<Rightarrow> string \<Rightarrow> nctl \<times> rx_host \<Rightarrow> nctl \<times> rx_host" where
  \<comment> \<open>\<open>queues\<close> are the \<open>rps_cpus\<close> files of the NIC\<close>
  "escalate_rx pol ncpu queues dev s =
     (let n = fst s; h = snd s;
          st = dget (map_of (nt_esc n)) dev \<lparr>re_rps = [], re_sysctl = [], re_active = False\<rparr>
      in if re_active st then s
         else
           let (rps, h1) = (if pp_rps pol then escalate_rps (cpu_mask ncpu) queues (re_rps st) h else (re_rps st, h));
               (sys, h2) = (if pp_budget pol then bump_sysctl budget_knobs (re_sysctl st) h1 else (re_sysctl st, h1))
           in (n\<lparr>nt_esc := AList.update dev \<lparr>re_rps = rps, re_sysctl = sys, re_active = True\<rparr> (nt_esc n)\<rparr>, h2))"

definition restore_rx :: "string \<Rightarrow> nctl \<times> rx_host \<Rightarrow> nctl \<times> rx_host" where
  "restore_rx dev s =
     (case map_of (nt_esc (fst s)) dev of
        None \<Rightarrow> s
      | Some st \<Rightarrow> ((fst s)\<lparr>nt_esc := AList.delete dev (nt_esc (fst s))\<rparr>,
                   fold (\<lambda>(p, v). host_write p v) (re_rps st @ re_sysctl st) (snd s)))"

subsection \<open>Reacting to the levels of a NIC\<close>

record net_data =
  da_tx :: real
  da_rx :: real
  da_tx_harm :: real
  da_rx_harm :: real
  da_softirq_harm :: real

record net_env =
  ne_now :: real
  ne_policy :: pps_policy
  ne_police :: bool
  ne_counts :: "int \<Rightarrow> int option"
  ne_uname :: "(nat \<times> nat) option"
  ne_ncpu :: nat
  ne_queues :: "string \<Rightarrow> string list"

record net_world =
  nw_ctl :: nctl
  nw_host :: rx_host
  nw_shaper :: shaper
  nw_cmds :: "net_cmd list"

definition emit :: "net_cmd list \<Rightarrow> net_world \<Rightarrow> net_world" where
  "emit cs w = w\<lparr>nw_cmds := nw_cmds w @ cs\<rparr>"

definition stamp_limit :: "flow \<Rightarrow> real \<Rightarrow> net_world \<Rightarrow> net_world" where
  "stamp_limit f t w = w\<lparr>nw_shaper := (nw_shaper w)\<lparr>sh_last_limit := (sh_last_limit (nw_shaper w))(f := t)\<rparr>\<rparr>"

definition stamp_recover :: "flow \<Rightarrow> real \<Rightarrow> net_world \<Rightarrow> net_world" where
  "stamp_recover f t w = w\<lparr>nw_shaper := (nw_shaper w)\<lparr>sh_last_recover := (sh_last_recover (nw_shaper w))(f := t)\<rparr>\<rparr>"

definition may_switch :: "net_env \<Rightarrow> real \<Rightarrow> flow \<Rightarrow> shaper \<Rightarrow> bool" where
  "may_switch e cooldown f sh = can_switch (ne_now e) cooldown (sh_last_limit sh f) (sh_last_recover sh f)"

definition throttle :: "net_cfg \<Rightarrow> flow \<Rightarrow> rates \<Rightarrow> net_env \<Rightarrow> net_world \<Rightarrow> net_world" where
  "throttle cfg f rates e w =
     (case apply_bandwidth_limit cfg (nw_shaper w) f rates of (cs, sh) \<Rightarrow> stamp_limit f (ne_now e) (emit cs (w\<lparr>nw_shaper := sh\<rparr>)))"

definition tx_gate_active :: "pps_policy \<Rightarrow> level \<Rightarrow> net_data \<Rightarrow> bool" where
  "tx_gate_active pol tx d \<longleftrightarrow> tx = Critical \<and> da_tx_harm d \<ge> pp_harm pol \<or> da_softirq_harm d \<ge> pp_harm pol"

definition tx_throttle :: "net_cfg \<Rightarrow> net_env \<Rightarrow> level \<Rightarrow> rates \<Rightarrow> net_data \<Rightarrow> net_world \<Rightarrow> net_world" where
  "tx_throttle cfg e tx rates d w =
     (if tx_gate_active (ne_policy e) tx d then
        (case evaluate_tx_pps_gate (ne_policy e) (ne_now e) (ne_counts e) (da_tx_harm d) (da_softirq_harm d) (nw_ctl w) of (cands, n1) \<Rightarrow>
           (case apply_caps (ne_policy e) (ne_police e) (ne_uname e) (nw_shaper w) cands n1 of (applied, cs, n2) \<Rightarrow>
              (let w1 = emit cs (w\<lparr>nw_ctl := n2\<rparr>) in if applied then stamp_limit Egress (ne_now e) w1 else w1)))
      else if tx = Critical \<and> may_switch e limit_cooldown Egress (nw_shaper w) then throttle cfg Egress rates e w
      else if tx \<noteq> Critical then (case clear_app_pps_cap [] (nw_ctl w) of (cs, n1) \<Rightarrow> emit cs (w\<lparr>nw_ctl := n1\<rparr>))
      else w)"

definition rx_throttle :: "net_cfg \<Rightarrow> net_env \<Rightarrow> level \<Rightarrow> rates \<Rightarrow> net_data \<Rightarrow> net_world \<Rightarrow> net_world" where
  "rx_throttle cfg e rx rates d w =
     (let dev = sh_dev (nw_shaper w)
      in if rx = Critical \<and> da_rx_harm d \<ge> pp_harm (ne_policy e) then
           (case escalate_rx (ne_policy e) (ne_ncpu e) (ne_queues e dev) dev (nw_ctl w, nw_host w) of (n1, h1) \<Rightarrow>
              stamp_limit Ingress (ne_now e) (w\<lparr>nw_ctl := n1, nw_host := h1\<rparr>))
         else if rx = Critical \<and> may_switch e limit_cooldown Ingress (nw_shaper w) then throttle cfg Ingress rates e w
         else if rx \<noteq> Critical \<and> map_of (nt_esc (nw_ctl w)) dev \<noteq> None \<and> may_switch e recover_cooldown Ingress (nw_shaper w) then
           (case restore_rx dev (nw_ctl w, nw_host w) of (n1, h1) \<Rightarrow>
              stamp_recover Ingress (ne_now e) (w\<lparr>nw_ctl := n1, nw_host := h1\<rparr>))
         else w)"

definition recover_flow :: "net_cfg \<Rightarrow> net_env \<Rightarrow> flow \<Rightarrow> level \<Rightarrow> rates \<Rightarrow> real \<Rightarrow> net_world \<Rightarrow> net_world \<times> py_error option" where
  "recover_flow cfg e f lvl rates used w =
     (let sh = nw_shaper w
      in if lvl \<noteq> Critical \<and> sh_stage sh f > 0 \<and> may_switch e recover_cooldown f sh then
           (case recover_network_pressure cfg sh f rates (sh_total_bw sh) (of_int (sh_total_bw sh) * used) of
              Inl err \<Rightarrow> (w, Some err)
            | Inr (cs, sh1) \<Rightarrow> (stamp_recover f (ne_now e) (emit cs (w\<lparr>nw_shaper := sh1\<rparr>)), None))
         else (w, None))"

definition handle_network_pressure ::
  "net_cfg \<Rightarrow> net_env \<Rightarrow> level \<Rightarrow> level \<Rightarrow> rates \<Rightarrow> rates \<Rightarrow> net_data \<Rightarrow> net_world \<Rightarrow> net_world \<times> py_error option" where
  "handle_network_pressure cfg e tx rx ingress egress d w =
     (case recover_flow cfg e Egress tx egress (da_tx d) (rx_throttle cfg e rx ingress d (tx_throttle cfg e tx egress d w)) of
        (w1, Some err) \<Rightarrow> (w1, Some err)
      | (w1, None) \<Rightarrow> recover_flow cfg e Ingress rx ingress (da_rx d) w1)"

definition demo_host :: rx_host where
  "demo_host = \<lparr>hr_files = (\<lambda>p. Some ''0''), hr_writable = (\<lambda>p. True)\<rparr>"

subsection \<open>The stage stays a faithful record of the classes\<close>

definition world_shaped :: "net_cfg \<Rightarrow> tc_kernel \<Rightarrow> shaper \<Rightarrow> net_world \<Rightarrow> bool" where
  \<comment> \<open>the commands so far concern the classes of this NIC only, and after them every class is where the stages say\<close>
  "world_shaped cfg k sh w \<longleftrightarrow> same_nic sh (nw_shaper w) \<and> sh_dev sh \<noteq> sh_ifb sh
     \<and> (\<forall>c \<in> set (nw_cmds w). set (class_devs c) \<subseteq> set (nic_devs sh))
     \<and> (\<forall>f. flow_shaped cfg (tc_run (nw_cmds w) k) (nw_shaper w) f)"

lemma flow_shaped_other: "g \<noteq> f \<Longrightarrow> flow_shaped cfg k (set_stage f m sh) g = flow_shaped cfg k sh g"
  by (cases g) (simp_all add: flow_shaped_def stage_class_def set_stage_def flow_class_def)

lemma flow_shaped_stamps:
  "flow_shaped cfg k (sh\<lparr>sh_last_limit := x\<rparr>) f = flow_shaped cfg k sh f"
  "flow_shaped cfg k (sh\<lparr>sh_last_recover := x\<rparr>) f = flow_shaped cfg k sh f"
  by (cases f; simp add: flow_shaped_def stage_class_def flow_class_def)+

lemma world_shaped_stamp:
  "world_shaped cfg k sh w \<Longrightarrow> world_shaped cfg k sh (stamp_limit f t w)"
  "world_shaped cfg k sh w \<Longrightarrow> world_shaped cfg k sh (stamp_recover f t w)"
  by (auto simp: world_shaped_def stamp_limit_def stamp_recover_def flow_shaped_stamps same_nic_def)

lemma world_shaped_aux:
  "world_shaped cfg k sh w \<Longrightarrow> world_shaped cfg k sh (w\<lparr>nw_ctl := n\<rparr>)"
  "world_shaped cfg k sh w \<Longrightarrow> world_shaped cfg k sh (w\<lparr>nw_host := h\<rparr>)"
  by (simp_all add: world_shaped_def)

lemma world_shaped_emit:
  assumes "world_shaped cfg k sh w" "\<And>c. c \<in> set cs \<Longrightarrow> class_devs c = []"
  shows "world_shaped cfg k sh (emit cs w)"
  using assms by (auto simp: world_shaped_def emit_def flow_shaped_def tc_run_classes_idle)

lemma world_shaped_move:
  assumes "world_shaped cfg k sh w" "stage_move cfg (nw_shaper w) f m cs sh'"
  shows "world_shaped cfg k sh (emit cs (w\<lparr>nw_shaper := sh'\<rparr>))"
proof -
  have dev: "class_devs c = [flow_dev (nw_shaper w) f]" if "c \<in> set cs" for c
    using stage_move_devs [OF assms(2) that] .
  have same: "same_nic sh (nw_shaper w)" "same_nic sh sh'" and ne: "sh_dev sh \<noteq> sh_ifb sh"
    using assms(1) stage_move_same [OF assms(2)] by (auto simp: world_shaped_def intro: same_nic_trans)
  have sh': "sh' = set_stage f m (nw_shaper w)" using assms(2) by (simp add: stage_move_def Let_def)
  have "flow_shaped cfg (tc_run cs (tc_run (nw_cmds w) k)) sh' g" for g
  proof (cases "g = f")
    case True
    then show ?thesis using stage_move_shaped [OF _ assms(2)] assms(1) by (simp add: world_shaped_def)
  next
    case False
    have "flow_dev (nw_shaper w) g \<noteq> flow_dev (nw_shaper w) f"
      using False same(1) ne by (cases f; cases g) (auto simp: same_nic_def)
    then have "flow_shaped cfg (tc_run cs (tc_run (nw_cmds w) k)) (nw_shaper w) g"
      using assms(1) dev by - (rule flow_shaped_frame, auto simp: world_shaped_def)
    then show ?thesis unfolding sh' by (simp add: flow_shaped_other [OF False])
  qed
  moreover have "flow_dev (nw_shaper w) f \<in> set (nic_devs sh)"
    using same(1) by (cases f) (auto simp: same_nic_def nic_devs_def)
  ultimately show ?thesis using assms(1) same(2) dev by (auto simp: world_shaped_def emit_def)
qed

lemma world_shaped_throttle: "world_shaped cfg k sh w \<Longrightarrow> world_shaped cfg k sh (throttle cfg f rates e w)"
proof -
  assume w: "world_shaped cfg k sh w"
  obtain cs sh' where a: "apply_bandwidth_limit cfg (nw_shaper w) f rates = (cs, sh')" by fastforce
  have le: "sh_stage (nw_shaper w) f \<le> 4" using w by (auto simp: world_shaped_def flow_shaped_def)
  from apply_moves [OF le a] have "world_shaped cfg k sh (emit cs (w\<lparr>nw_shaper := sh'\<rparr>))"
    using w world_shaped_move [OF w] by (auto simp: emit_def)
  then show ?thesis by (simp add: throttle_def a world_shaped_stamp)
qed

lemma clear_caps_classes: "c \<in> set (fst (clear_app_pps_cap a n)) \<Longrightarrow> class_devs c = []"
  by (auto simp: clear_app_pps_cap_def Let_def split: if_splits)

lemma apply_cap_classes: "apply_app_pps_cap pol b u sh a n = (r, cs, n') \<Longrightarrow> c \<in> set cs \<Longrightarrow> class_devs c = []"
  by (auto simp: apply_app_pps_cap_def Let_def split: if_splits prod.splits option.splits)

lemma apply_caps_classes: "apply_caps pol b u sh as n = (r, cs, n') \<Longrightarrow> c \<in> set cs \<Longrightarrow> class_devs c = []"
  by (induction as arbitrary: n r cs) (auto split: prod.splits dest: apply_cap_classes)

lemma world_shaped_tx: "world_shaped cfg k sh w \<Longrightarrow> world_shaped cfg k sh (tx_throttle cfg e tx rates d w)"
  using clear_caps_classes [of _ "[]" "nw_ctl w"]
  by (auto simp: tx_throttle_def Let_def world_shaped_throttle split: prod.split
      intro!: world_shaped_emit world_shaped_stamp world_shaped_aux dest: apply_caps_classes)

lemma world_shaped_rx: "world_shaped cfg k sh w \<Longrightarrow> world_shaped cfg k sh (rx_throttle cfg e rx rates d w)"
  by (auto simp: rx_throttle_def Let_def world_shaped_throttle split: prod.split intro!: world_shaped_stamp world_shaped_aux)

lemma world_shaped_recover: "world_shaped cfg k sh w \<Longrightarrow> world_shaped cfg k sh (fst (recover_flow cfg e f lvl rates used w))"
proof -
  assume w: "world_shaped cfg k sh w"
  have le: "sh_stage (nw_shaper w) f \<le> 4" using w by (auto simp: world_shaped_def flow_shaped_def)
  have "world_shaped cfg k sh (stamp_recover f (ne_now e) (emit cs (w\<lparr>nw_shaper := sh'\<rparr>)))"
    if r: "recover_network_pressure cfg (nw_shaper w) f rates q x = Inr (cs, sh')" for cs sh' q x
    using recover_moves [OF le r] world_shaped_move [OF w, of f _ cs sh'] w
    by (auto simp: emit_def intro!: world_shaped_stamp)
  with w show ?thesis by (auto simp: recover_flow_def Let_def split: sum.split)
qed

lemma world_shaped_handle:
  assumes "world_shaped cfg k sh w"
  shows "world_shaped cfg k sh (fst (handle_network_pressure cfg e tx rx ingress egress d w))"
proof -
  let ?a = "rx_throttle cfg e rx ingress d (tx_throttle cfg e tx egress d w)"
  obtain w1 err where r: "recover_flow cfg e Egress tx egress (da_tx d) ?a = (w1, err)" by fastforce
  have "world_shaped cfg k sh w1"
    using world_shaped_recover [OF world_shaped_rx [OF world_shaped_tx [OF assms]], of e Egress tx egress "da_tx d" e rx ingress d e tx egress d]
    by (simp add: r)
  then show ?thesis
    by (cases err) (simp_all add: handle_network_pressure_def r world_shaped_recover)
qed

subsection \<open>Changes of a direction are spaced\<close>

definition class_cmds :: "flow \<Rightarrow> net_world \<Rightarrow> net_cmd list" where
  "class_cmds f w = filter (\<lambda>c. flow_dev (nw_shaper w) f \<in> set (class_devs c)) (nw_cmds w)"

definition stamps :: "flow \<Rightarrow> net_world \<Rightarrow> real \<times> real" where
  "stamps f w = (sh_last_limit (nw_shaper w) f, sh_last_recover (nw_shaper w) f)"

definition quiet_step :: "flow \<Rightarrow> real \<Rightarrow> net_world \<Rightarrow> net_world \<Rightarrow> bool" where
  \<comment> \<open>no class of the direction changes; its stamps stay or move to the present\<close>
  "quiet_step f t w w' \<longleftrightarrow> same_nic (nw_shaper w) (nw_shaper w') \<and> class_cmds f w' = class_cmds f w
     \<and> fst (stamps f w') \<in> {fst (stamps f w), t} \<and> snd (stamps f w') \<in> {snd (stamps f w), t}"

definition change_step :: "flow \<Rightarrow> real \<Rightarrow> net_world \<Rightarrow> net_world \<Rightarrow> bool" where
  \<comment> \<open>at most one class of the direction changes, after the cool-down, and one stamp moves to the present\<close>
  "change_step f t w w' \<longleftrightarrow> same_nic (nw_shaper w) (nw_shaper w')
     \<and> (\<exists>cs. class_cmds f w' = class_cmds f w @ cs \<and> length cs \<le> 1)
     \<and> limit_cooldown < t - fst (stamps f w) \<and> limit_cooldown < t - snd (stamps f w)
     \<and> fst (stamps f w') \<in> {fst (stamps f w), t} \<and> snd (stamps f w') \<in> {snd (stamps f w), t}
     \<and> t \<in> {fst (stamps f w'), snd (stamps f w')}"

lemma apply_same:
  "apply_bandwidth_limit cfg sh f rates = (cs, sh') \<Longrightarrow>
   same_nic sh sh' \<and> sh_last_limit sh' = sh_last_limit sh \<and> sh_last_recover sh' = sh_last_recover sh
   \<and> length cs \<le> 1 \<and> (\<forall>c \<in> set cs. class_devs c = [flow_dev sh f])"
  by (auto simp: apply_bandwidth_limit_def limit_class_def set_stage_def same_nic_def Let_def split: if_splits)

lemma recover_same:
  "recover_network_pressure cfg sh f rates q x = Inr (cs, sh') \<Longrightarrow>
   same_nic sh sh' \<and> sh_last_limit sh' = sh_last_limit sh \<and> sh_last_recover sh' = sh_last_recover sh
   \<and> length cs \<le> 1 \<and> (\<forall>c \<in> set cs. class_devs c = [flow_dev sh f])"
  by (auto simp: recover_network_pressure_def limit_class_def set_stage_def same_nic_def Let_def split: if_splits option.splits)

lemma filter_dev_self: "\<forall>c \<in> set cs. class_devs c = [d] \<Longrightarrow> filter (\<lambda>c. d \<in> set (class_devs c)) cs = cs"
  by (induction cs) auto

lemma filter_dev_other: "\<forall>c \<in> set cs. class_devs c = [d] \<Longrightarrow> d' \<noteq> d \<Longrightarrow> filter (\<lambda>c. d' \<in> set (class_devs c)) cs = []"
  by (induction cs) auto

lemma filter_dev_none: "\<forall>c \<in> set cs. class_devs c = [] \<Longrightarrow> filter (\<lambda>c. d \<in> set (class_devs c)) cs = []"
  by (induction cs) auto

lemma quiet_refl: "quiet_step f t w w" and quiet_aux: "quiet_step f t w (w\<lparr>nw_ctl := n\<rparr>)" "quiet_step f t w (w\<lparr>nw_host := h\<rparr>)"
  by (simp_all add: quiet_step_def class_cmds_def stamps_def)

lemma same_nic_dev: "same_nic a b \<Longrightarrow> flow_dev b f = flow_dev a f"
  by (cases f) (simp_all add: same_nic_def)

lemma quiet_trans: "quiet_step f t u v \<Longrightarrow> quiet_step f t v w \<Longrightarrow> quiet_step f t u w"
  by (auto simp: quiet_step_def dest: same_nic_trans)

lemma quiet_change:
  assumes "quiet_step f t u v" "change_step f t v w" shows "change_step f t u w"
proof -
  have "fst (stamps f v) \<in> {fst (stamps f u), t}" "snd (stamps f v) \<in> {snd (stamps f u), t}" using assms(1) by (simp_all add: quiet_step_def)
  moreover have "fst (stamps f v) \<noteq> t" "snd (stamps f v) \<noteq> t" using assms(2) by (auto simp: change_step_def limit_cooldown_def)
  ultimately have "stamps f v = stamps f u" by (simp add: prod_eq_iff)
  with assms show ?thesis unfolding quiet_step_def change_step_def by (metis same_nic_trans)
qed

lemma change_quiet:
  assumes "change_step f t u v" "quiet_step f t v w" shows "change_step f t u w"
proof -
  have n: "same_nic (nw_shaper u) (nw_shaper w)" using assms unfolding quiet_step_def change_step_def by (blast intro: same_nic_trans)
  have c: "class_cmds f w = class_cmds f v" using assms(2) unfolding quiet_step_def by blast
  have d: "fst (stamps f v) \<in> {fst (stamps f u), t}" "snd (stamps f v) \<in> {snd (stamps f u), t}" "t \<in> {fst (stamps f v), snd (stamps f v)}"
    "fst (stamps f w) \<in> {fst (stamps f v), t}" "snd (stamps f w) \<in> {snd (stamps f v), t}"
    using assms unfolding quiet_step_def change_step_def by blast+
  have "fst (stamps f w) \<in> {fst (stamps f u), t}" using d(1,4) by (metis insert_iff singletonD)
  moreover have "snd (stamps f w) \<in> {snd (stamps f u), t}" using d(2,5) by (metis insert_iff singletonD)
  moreover have "t \<in> {fst (stamps f w), snd (stamps f w)}" using d(3-5) by (metis insert_iff singletonD)
  ultimately show ?thesis using n assms(1) unfolding change_step_def c by blast
qed

lemma quiet_stamp_limit: "quiet_step f t w (stamp_limit g t w)" and quiet_stamp_recover: "quiet_step f t w (stamp_recover g t w)"
  by (cases f; simp add: quiet_step_def stamp_limit_def stamp_recover_def class_cmds_def stamps_def same_nic_def)+

lemma quiet_emit: "\<forall>c \<in> set cs. class_devs c = [] \<Longrightarrow> quiet_step f t w (emit cs w)"
  by (simp add: quiet_step_def emit_def class_cmds_def stamps_def filter_dev_none)

lemma quiet_other_flow:
  assumes "flow_dev (nw_shaper w) f \<noteq> flow_dev (nw_shaper w) g" "same_nic (nw_shaper w) sh" "\<forall>c \<in> set cs. class_devs c = [flow_dev (nw_shaper w) g]"
    "sh_last_limit sh = sh_last_limit (nw_shaper w)" "sh_last_recover sh = sh_last_recover (nw_shaper w)"
  shows "quiet_step f t w (emit cs (w\<lparr>nw_shaper := sh\<rparr>))"
  using assms filter_dev_other [OF assms(3) assms(1)]
  by (simp add: quiet_step_def emit_def class_cmds_def stamps_def same_nic_dev)

lemma change_own_flow:
  assumes "same_nic (nw_shaper w) sh" "\<forall>c \<in> set cs. class_devs c = [flow_dev (nw_shaper w) f]" "length cs \<le> 1"
    "sh_last_limit sh = sh_last_limit (nw_shaper w)" "sh_last_recover sh = sh_last_recover (nw_shaper w)"
    "limit_cooldown < t - fst (stamps f w)" "limit_cooldown < t - snd (stamps f w)"
  shows "change_step f t w (stamp_limit f t (emit cs (w\<lparr>nw_shaper := sh\<rparr>)))" "change_step f t w (stamp_recover f t (emit cs (w\<lparr>nw_shaper := sh\<rparr>)))"
proof -
  have n: "same_nic (nw_shaper w) (sh\<lparr>sh_last_limit := x\<rparr>)" "same_nic (nw_shaper w) (sh\<lparr>sh_last_recover := x\<rparr>)" for x
    using assms(1) by (simp_all add: same_nic_def)
  have "class_cmds f (stamp_limit f t (emit cs (w\<lparr>nw_shaper := sh\<rparr>))) = class_cmds f w @ cs"
    "class_cmds f (stamp_recover f t (emit cs (w\<lparr>nw_shaper := sh\<rparr>))) = class_cmds f w @ cs"
    using filter_dev_self [OF assms(2)] same_nic_dev [OF n(1)] same_nic_dev [OF n(2)]
    by (simp_all add: class_cmds_def stamp_limit_def stamp_recover_def emit_def)
  moreover have "stamps f (stamp_limit f t (emit cs (w\<lparr>nw_shaper := sh\<rparr>))) = (t, snd (stamps f w))"
    "stamps f (stamp_recover f t (emit cs (w\<lparr>nw_shaper := sh\<rparr>))) = (fst (stamps f w), t)"
    using assms(4,5) by (simp_all add: stamps_def stamp_limit_def stamp_recover_def emit_def)
  moreover have "same_nic (nw_shaper w) (nw_shaper (stamp_limit f t (emit cs (w\<lparr>nw_shaper := sh\<rparr>))))"
    "same_nic (nw_shaper w) (nw_shaper (stamp_recover f t (emit cs (w\<lparr>nw_shaper := sh\<rparr>))))"
    using n by (simp_all add: stamp_limit_def stamp_recover_def emit_def)
  ultimately show "change_step f t w (stamp_limit f t (emit cs (w\<lparr>nw_shaper := sh\<rparr>)))"
    "change_step f t w (stamp_recover f t (emit cs (w\<lparr>nw_shaper := sh\<rparr>)))"
    using assms(3,6,7) by (simp_all add: change_step_def exI [where x = cs])
qed

lemma throttle_step:
  assumes "flow_dev (nw_shaper w) Egress \<noteq> flow_dev (nw_shaper w) Ingress"
    "may_switch e limit_cooldown g (nw_shaper w)"
  shows "if f = g then change_step f (ne_now e) w (throttle cfg g rates e w) else quiet_step f (ne_now e) w (throttle cfg g rates e w)"
proof -
  obtain cs sh where a: "apply_bandwidth_limit cfg (nw_shaper w) g rates = (cs, sh)" by fastforce
  note s = apply_same [OF a]
  have sw: "limit_cooldown < ne_now e - fst (stamps g w)" "limit_cooldown < ne_now e - snd (stamps g w)"
    using assms(2) by (simp_all add: may_switch_def can_switch_def stamps_def)
  show ?thesis
  proof (cases "f = g")
    case True
    then show ?thesis using change_own_flow(1) [of w sh cs g "ne_now e"] s sw by (simp add: throttle_def a)
  next
    case False
    then have "flow_dev (nw_shaper w) f \<noteq> flow_dev (nw_shaper w) g" using assms(1) by (cases f; cases g) auto
    then have "quiet_step f (ne_now e) w (emit cs (w\<lparr>nw_shaper := sh\<rparr>))" using s by (intro quiet_other_flow) auto
    from quiet_trans [OF this quiet_stamp_limit] False show ?thesis by (simp add: throttle_def a)
  qed
qed

lemma recover_step:
  assumes "flow_dev (nw_shaper w) Egress \<noteq> flow_dev (nw_shaper w) Ingress"
  shows "quiet_step f (ne_now e) w (fst (recover_flow cfg e g lvl rates used w))
    \<or> f = g \<and> lvl \<noteq> Critical \<and> may_switch e recover_cooldown g (nw_shaper w) \<and> change_step f (ne_now e) w (fst (recover_flow cfg e g lvl rates used w))"
proof (cases "lvl \<noteq> Critical \<and> sh_stage (nw_shaper w) g > 0 \<and> may_switch e recover_cooldown g (nw_shaper w)")
  case False
  then have "fst (recover_flow cfg e g lvl rates used w) = w" unfolding recover_flow_def Let_def by (simp only: if_False fst_conv)
  then show ?thesis by (simp add: quiet_refl)
next
  case True
  let ?r = "recover_network_pressure cfg (nw_shaper w) g rates (sh_total_bw (nw_shaper w)) (of_int (sh_total_bw (nw_shaper w)) * used)"
  show ?thesis
  proof (cases ?r)
    case (Inl err)
    then show ?thesis using True by (simp add: recover_flow_def quiet_refl)
  next
    case (Inr x)
    obtain cs sh where x: "x = (cs, sh)" by (cases x)
    note s = recover_same [OF Inr [unfolded x]]
    have eq: "fst (recover_flow cfg e g lvl rates used w) = stamp_recover g (ne_now e) (emit cs (w\<lparr>nw_shaper := sh\<rparr>))"
      using True Inr x by (simp add: recover_flow_def)
    have sw: "limit_cooldown < ne_now e - fst (stamps g w)" "limit_cooldown < ne_now e - snd (stamps g w)"
      using True by (simp_all add: may_switch_def can_switch_def stamps_def limit_cooldown_def recover_cooldown_def)
    show ?thesis
    proof (cases "f = g")
      case True': True
      then have "change_step f (ne_now e) w (stamp_recover g (ne_now e) (emit cs (w\<lparr>nw_shaper := sh\<rparr>)))"
        using change_own_flow(2) [of w sh cs g "ne_now e"] s sw by simp
      with True True' eq show ?thesis by simp
    next
      case False
      then have "flow_dev (nw_shaper w) f \<noteq> flow_dev (nw_shaper w) g" using assms(1) by (cases f; cases g) auto
      then have "quiet_step f (ne_now e) w (emit cs (w\<lparr>nw_shaper := sh\<rparr>))" using s by (intro quiet_other_flow) auto
      from quiet_trans [OF this quiet_stamp_recover] eq show ?thesis by simp
    qed
  qed
qed

lemma two_flows: "same_nic a b \<Longrightarrow> flow_dev a Egress \<noteq> flow_dev a Ingress \<Longrightarrow> flow_dev b Egress \<noteq> flow_dev b Ingress"
  by (simp add: same_nic_def)

lemma tx_step:
  assumes "flow_dev (nw_shaper w) Egress \<noteq> flow_dev (nw_shaper w) Ingress"
  shows "quiet_step f (ne_now e) w (tx_throttle cfg e tx rates d w)
    \<or> f = Egress \<and> tx = Critical \<and> change_step f (ne_now e) w (tx_throttle cfg e tx rates d w)"
proof -
  consider (gate) "tx_gate_active (ne_policy e) tx d"
    | (limit) "\<not> tx_gate_active (ne_policy e) tx d" "tx = Critical" "may_switch e limit_cooldown Egress (nw_shaper w)"
    | (calm) "\<not> tx_gate_active (ne_policy e) tx d" "tx \<noteq> Critical"
    | (wait) "\<not> tx_gate_active (ne_policy e) tx d" "tx = Critical" "\<not> may_switch e limit_cooldown Egress (nw_shaper w)" by blast
  then show ?thesis
  proof cases
    case gate
    obtain cands n1 where g: "evaluate_tx_pps_gate (ne_policy e) (ne_now e) (ne_counts e) (da_tx_harm d) (da_softirq_harm d) (nw_ctl w) = (cands, n1)"
      by fastforce
    obtain b cs n2 where c: "apply_caps (ne_policy e) (ne_police e) (ne_uname e) (nw_shaper w) cands n1 = (b, cs, n2)" by (metis prod_cases3)
    have q: "quiet_step f (ne_now e) w (emit cs (w\<lparr>nw_ctl := n2\<rparr>))"
      using apply_caps_classes [OF c] by (intro quiet_trans [OF quiet_aux(1) quiet_emit]) blast
    show ?thesis using q quiet_trans [OF q quiet_stamp_limit] gate by (simp add: tx_throttle_def g c Let_def)
  next
    case limit
    then show ?thesis using throttle_step [OF assms limit(3), of f cfg rates] by (auto simp: tx_throttle_def split: if_splits)
  next
    case calm
    obtain cs n1 where c: "clear_app_pps_cap [] (nw_ctl w) = (cs, n1)" by fastforce
    have "quiet_step f (ne_now e) w (emit cs (w\<lparr>nw_ctl := n1\<rparr>))"
      using clear_caps_classes [of _ "[]" "nw_ctl w"] c by (intro quiet_trans [OF quiet_aux(1) quiet_emit]) simp
    then show ?thesis using calm by (simp add: tx_throttle_def c)
  next
    case wait
    then show ?thesis by (simp add: tx_throttle_def quiet_refl)
  qed
qed

lemma rx_step:
  assumes "flow_dev (nw_shaper w) Egress \<noteq> flow_dev (nw_shaper w) Ingress"
  shows "quiet_step f (ne_now e) w (rx_throttle cfg e rx rates d w)
    \<or> f = Ingress \<and> rx = Critical \<and> change_step f (ne_now e) w (rx_throttle cfg e rx rates d w)"
proof -
  have aux: "quiet_step f (ne_now e) w (stamp_limit Ingress (ne_now e) (w\<lparr>nw_ctl := n, nw_host := h\<rparr>))"
    "quiet_step f (ne_now e) w (stamp_recover Ingress (ne_now e) (w\<lparr>nw_ctl := n, nw_host := h\<rparr>))" for n h
    by (rule quiet_trans [OF quiet_trans [OF quiet_aux(1) quiet_aux(2)]], rule quiet_stamp_limit quiet_stamp_recover)+
  show ?thesis
  proof (cases "rx = Critical \<and> \<not> da_rx_harm d \<ge> pp_harm (ne_policy e) \<and> may_switch e limit_cooldown Ingress (nw_shaper w)")
    case True
    then show ?thesis using throttle_step [OF assms, of e Ingress f cfg rates] by (auto simp: rx_throttle_def Let_def split: if_splits)
  next
    case False
    then show ?thesis using aux by (auto simp: rx_throttle_def Let_def quiet_refl split: prod.splits)
  qed
qed

lemma handle_step:
  assumes "flow_dev (nw_shaper w) Egress \<noteq> flow_dev (nw_shaper w) Ingress"
  shows "quiet_step f (ne_now e) w (fst (handle_network_pressure cfg e tx rx ingress egress d w))
    \<or> change_step f (ne_now e) w (fst (handle_network_pressure cfg e tx rx ingress egress d w))"
proof -
  let ?t = "ne_now e"
  define a where "a = tx_throttle cfg e tx egress d w"
  define b where "b = rx_throttle cfg e rx ingress d a"
  obtain c err where c: "recover_flow cfg e Egress tx egress (da_tx d) b = (c, err)" by fastforce
  have A: "quiet_step f ?t w a \<or> f = Egress \<and> tx = Critical \<and> change_step f ?t w a" unfolding a_def by (rule tx_step [OF assms])
  then have na: "same_nic (nw_shaper w) (nw_shaper a)" unfolding quiet_step_def change_step_def by blast
  note da = two_flows [OF na assms]
  have B: "quiet_step f ?t a b \<or> f = Ingress \<and> rx = Critical \<and> change_step f ?t a b" unfolding b_def by (rule rx_step [OF da])
  then have nb: "same_nic (nw_shaper a) (nw_shaper b)" unfolding quiet_step_def change_step_def by blast
  note db = two_flows [OF nb da]
  have C: "quiet_step f ?t b c \<or> f = Egress \<and> tx \<noteq> Critical \<and> change_step f ?t b c"
    using recover_step [OF db, of f e cfg Egress tx egress "da_tx d"] c by auto
  then have nc: "same_nic (nw_shaper b) (nw_shaper c)" unfolding quiet_step_def change_step_def by blast
  note dc = two_flows [OF nc db]
  have wc: "quiet_step f ?t w c \<and> True \<or> change_step f ?t w c \<and> (f = Ingress \<longrightarrow> rx = Critical)"
    using A B C by (cases f) (blast intro: quiet_trans quiet_change change_quiet)+
  define z where "z = (if err = None then fst (recover_flow cfg e Ingress rx ingress (da_rx d) c) else c)"
  have "quiet_step f ?t c z \<or> f = Ingress \<and> rx \<noteq> Critical \<and> change_step f ?t c z"
    using recover_step [OF dc, of f e cfg Ingress rx ingress "da_rx d"] by (auto simp: z_def quiet_refl)
  with wc have "quiet_step f ?t w z \<or> change_step f ?t w z" by (blast intro: quiet_trans quiet_change change_quiet)
  moreover have "fst (handle_network_pressure cfg e tx rx ingress egress d w) = z"
    by (cases err) (simp_all add: handle_network_pressure_def z_def b_def [symmetric] a_def [symmetric] c)
  ultimately show ?thesis by simp
qed

type_synonym reaction = "net_env \<times> level \<times> level \<times> rates \<times> rates \<times> net_data"

fun react :: "net_cfg \<Rightarrow> reaction \<Rightarrow> net_world \<Rightarrow> net_world" where
  \<comment> \<open>one reaction; the commands of the earlier ones have been carried out\<close>
  "react cfg (e, tx, rx, ingress, egress, d) w = fst (handle_network_pressure cfg e tx rx ingress egress d (w\<lparr>nw_cmds := []\<rparr>))"

definition react_time :: "reaction \<Rightarrow> real" where
  "react_time r = ne_now (fst r)"

fun change_times :: "flow \<Rightarrow> net_cfg \<Rightarrow> reaction list \<Rightarrow> net_world \<Rightarrow> real list" where
  \<comment> \<open>when the classes of the direction were changed\<close>
  "change_times f cfg [] w = []"
| "change_times f cfg (r # rs) w =
     map (\<lambda>c. react_time r) (class_cmds f (react cfg r w)) @ change_times f cfg rs (react cfg r w)"

lemma step_summary:
  assumes "quiet_step f t u v \<or> change_step f t u v" "class_cmds f u = []"
  shows "same_nic (nw_shaper u) (nw_shaper v) \<and> length (class_cmds f v) \<le> 1
    \<and> fst (stamps f v) \<in> {fst (stamps f u), t} \<and> snd (stamps f v) \<in> {snd (stamps f u), t}
    \<and> (class_cmds f v \<noteq> [] \<longrightarrow> limit_cooldown < t - fst (stamps f u) \<and> limit_cooldown < t - snd (stamps f u)
        \<and> t \<in> {fst (stamps f v), snd (stamps f v)})"
  using assms(1)
proof
  assume "quiet_step f t u v"
  then show ?thesis unfolding quiet_step_def assms(2) by (elim conjE) (simp only: list.size, blast)
next
  assume c: "change_step f t u v"
  then obtain cs where "class_cmds f v = class_cmds f u @ cs" "length cs \<le> 1" unfolding change_step_def by blast
  then have "length (class_cmds f v) \<le> 1" by (simp add: assms(2))
  with c show ?thesis unfolding change_step_def by blast
qed

lemma react_step:
  assumes "flow_dev (nw_shaper w) Egress \<noteq> flow_dev (nw_shaper w) Ingress"
  shows "same_nic (nw_shaper w) (nw_shaper (react cfg r w)) \<and> length (class_cmds f (react cfg r w)) \<le> 1
    \<and> fst (stamps f (react cfg r w)) \<in> {fst (stamps f w), react_time r} \<and> snd (stamps f (react cfg r w)) \<in> {snd (stamps f w), react_time r}
    \<and> (class_cmds f (react cfg r w) \<noteq> [] \<longrightarrow> limit_cooldown < react_time r - fst (stamps f w) \<and> limit_cooldown < react_time r - snd (stamps f w)
        \<and> react_time r \<in> {fst (stamps f (react cfg r w)), snd (stamps f (react cfg r w))})"
proof -
  obtain e tx rx ri re d where r: "r = (e, tx, rx, ri, re, d)" by (metis prod_cases6)
  let ?w = "w\<lparr>nw_cmds := []\<rparr>"
  have z: "nw_shaper ?w = nw_shaper w" "stamps f ?w = stamps f w" "class_cmds f ?w = []"
    by (simp_all add: stamps_def class_cmds_def)
  have "flow_dev (nw_shaper ?w) Egress \<noteq> flow_dev (nw_shaper ?w) Ingress" using assms by simp
  from step_summary [OF handle_step [OF this, of f e cfg tx rx ri re d] z(3)] show ?thesis
    unfolding r react.simps react_time_def fst_conv z(1,2) .
qed

lemma changes_after_stamps:
  assumes "flow_dev (nw_shaper w) Egress \<noteq> flow_dev (nw_shaper w) Ingress" "sorted (map react_time rs)"
    and "\<And>r. r \<in> set rs \<Longrightarrow> fst (stamps f w) \<le> react_time r \<and> snd (stamps f w) \<le> react_time r"
  shows "(\<forall>t \<in> set (change_times f cfg rs w). limit_cooldown < t - fst (stamps f w) \<and> limit_cooldown < t - snd (stamps f w))
    \<and> sorted_wrt (\<lambda>s t. limit_cooldown < t - s) (change_times f cfg rs w)"
  using assms
proof (induction rs arbitrary: w)
  case (Cons r rs)
  let ?v = "react cfg r w" and ?t = "react_time r"
  note st = react_step [OF Cons.prems(1), of cfg r f]
  have nv: "flow_dev (nw_shaper ?v) Egress \<noteq> flow_dev (nw_shaper ?v) Ingress" using two_flows [OF conjunct1 [OF st] Cons.prems(1)] .
  have up: "fst (stamps f w) \<le> fst (stamps f ?v)" "snd (stamps f w) \<le> snd (stamps f ?v)"
    "fst (stamps f ?v) \<le> ?t" "snd (stamps f ?v) \<le> ?t"
  proof -
    have "fst (stamps f ?v) = fst (stamps f w) \<or> fst (stamps f ?v) = ?t" "snd (stamps f ?v) = snd (stamps f w) \<or> snd (stamps f ?v) = ?t"
      using st by blast+
    moreover have "fst (stamps f w) \<le> ?t" "snd (stamps f w) \<le> ?t" using Cons.prems(3) [of r] by simp_all
    ultimately show "fst (stamps f w) \<le> fst (stamps f ?v)" "snd (stamps f w) \<le> snd (stamps f ?v)"
      "fst (stamps f ?v) \<le> ?t" "snd (stamps f ?v) \<le> ?t" by linarith+
  qed
  have later: "?t \<le> react_time q" if "q \<in> set rs" for q using Cons.prems(2) that by simp
  have pre: "fst (stamps f ?v) \<le> react_time q \<and> snd (stamps f ?v) \<le> react_time q" if "q \<in> set rs" for q
    using up(3,4) later [OF that] by linarith
  have so: "sorted (map react_time rs)" using Cons.prems(2) by simp
  have IH: "\<And>t. t \<in> set (change_times f cfg rs ?v) \<Longrightarrow> limit_cooldown < t - fst (stamps f ?v) \<and> limit_cooldown < t - snd (stamps f ?v)"
    "sorted_wrt (\<lambda>s t. limit_cooldown < t - s) (change_times f cfg rs ?v)"
    using Cons.IH [OF nv so pre] by blast+
  have far: "limit_cooldown < t - fst (stamps f w) \<and> limit_cooldown < t - snd (stamps f w)" if "t \<in> set (change_times f cfg rs ?v)" for t
    using IH(1) [OF that] up(1,2) by linarith
  from st consider "class_cmds f ?v = []" | c where "class_cmds f ?v = [c]"
    by (cases "class_cmds f ?v") auto
  then show ?case
  proof cases
    case 1
    then show ?thesis using far IH(2) by simp
  next
    case 2
    then have h: "limit_cooldown < ?t - fst (stamps f w)" "limit_cooldown < ?t - snd (stamps f w)" "?t = fst (stamps f ?v) \<or> ?t = snd (stamps f ?v)"
      using st by simp_all
    have "limit_cooldown < t - ?t" if "t \<in> set (change_times f cfg rs ?v)" for t using h(3) IH(1) [OF that] by linarith
    then show ?thesis using 2 h(1,2) far IH(2) by simp
  qed
qed simp

text \<open>C16: The shaping does not flap: however levels, rates and harms follow one another on a clock that does not run
  backwards, any two changes of a traffic class of the same direction of a NIC, limits and restores alike, lie more
  than ten seconds apart.\<close>
theorem class_changes_spaced:
  assumes "sh_dev (nw_shaper w) \<noteq> sh_ifb (nw_shaper w)" "sorted (map react_time rs)"
    and "\<forall>r \<in> set rs. sh_last_limit (nw_shaper w) f \<le> react_time r \<and> sh_last_recover (nw_shaper w) f \<le> react_time r"
  shows "sorted_wrt (\<lambda>s t. 10 < t - s) (change_times f cfg rs w)"
  using changes_after_stamps [of w rs f cfg] assms by (simp add: stamps_def limit_cooldown_def)

definition demo_world :: net_world where
  "demo_world = \<lparr>nw_ctl = demo_ctl, nw_host = demo_host, nw_shaper = demo_shaper, nw_cmds = []\<rparr>"

definition demo_cfg :: net_cfg where
  "demo_cfg = \<lparr>nf_bw = default_bw, nf_burst = Map.empty, nf_critical = Some (9/10), nf_fq_codel = True\<rparr>"

definition demo_reaction :: "real \<Rightarrow> reaction" where
  "demo_reaction t = (\<lparr>ne_now = t, ne_policy = default_pps_policy, ne_police = True, ne_counts = (\<lambda>m. None), ne_uname = None, ne_ncpu = 4,
     ne_queues = (\<lambda>d. [])\<rparr>, Critical, Low, Map.empty, Map.empty,
     \<lparr>da_tx = 1, da_rx = 0, da_tx_harm = 0, da_rx_harm = 0, da_softirq_harm = 0\<rparr>)"

lemma class_changes_spaced_witness:
  "sorted_wrt (\<lambda>s t. 10 < t - s) (change_times Egress demo_cfg [demo_reaction 100, demo_reaction 105, demo_reaction 111] demo_world)
   \<and> change_times Egress demo_cfg [demo_reaction 100, demo_reaction 105, demo_reaction 111] demo_world = [100, 111]"
proof
  show "sorted_wrt (\<lambda>s t. 10 < t - s) (change_times Egress demo_cfg [demo_reaction 100, demo_reaction 105, demo_reaction 111] demo_world)"
    by (rule class_changes_spaced) (simp_all add: demo_world_def demo_shaper_def new_shaper_def demo_reaction_def react_time_def)
  have g: "\<not> tx_gate_active default_pps_policy Critical \<lparr>da_tx = 1, da_rx = 0, da_tx_harm = 0, da_rx_harm = 0, da_softirq_harm = 0\<rparr>"
    by (simp add: tx_gate_active_def default_pps_policy_def)
  show "change_times Egress demo_cfg [demo_reaction 100, demo_reaction 105, demo_reaction 111] demo_world = [100, 111]"
    by (simp add: demo_world_def demo_shaper_def new_shaper_def demo_reaction_def react_time_def handle_network_pressure_def tx_throttle_def
        rx_throttle_def recover_flow_def g may_switch_def can_switch_def limit_cooldown_def recover_cooldown_def throttle_def
        apply_bandwidth_limit_def demo_cfg_def default_bw_def get_class_bandwidth_def half_bandwidth_def py_trunc_def Let_def set_stage_def
        limit_class_def emit_def stamp_limit_def class_cmds_def demo_ctl_def)
qed

subsection \<open>Only lower tiers are capped\<close>

fun police_cmd :: "net_cmd \<Rightarrow> bool" where
  "police_cmd (FilterAdd d p prio m c (Some pol)) = True"
| "police_cmd c = False"

lemma apply_cap_police:
  assumes "apply_app_pps_cap pol en u sh a n = (b, cs, n')"
  shows "nt_apps n' = nt_apps n \<and> (\<forall>c \<in> set cs. en \<and> (\<exists>i m prio cl. map_of (nt_apps n) a = Some i \<and> ai_mark i = Some m
    \<and> c = FilterAdd (sh_dev sh) (sh_handle sh) prio (MatchMark m) cl (Some (pp_cap_rate pol, pp_cap_burst pol))))"
  using assms by (auto simp: apply_app_pps_cap_def kernel_supports_pkt_police_def Let_def split: if_splits prod.splits option.splits)

lemma apply_caps_police:
  "apply_caps pol en u sh as n = (b, cs, n') \<Longrightarrow> c \<in> set cs \<Longrightarrow> en \<and> (\<exists>a i m prio cl. a \<in> set as \<and> map_of (nt_apps n) a = Some i
    \<and> ai_mark i = Some m \<and> c = FilterAdd (sh_dev sh) (sh_handle sh) prio (MatchMark m) cl (Some (pp_cap_rate pol, pp_cap_burst pol)))"
proof (induction as arbitrary: n b cs)
  case (Cons a as)
  obtain b1 ca n1 where a: "apply_app_pps_cap pol en u sh a n = (b1, ca, n1)" by (metis prod_cases3)
  obtain b2 ds where d: "apply_caps pol en u sh as n1 = (b2, ds, n')" "cs = ca @ ds" using Cons.prems(1) a by (auto split: prod.splits)
  note p = conjunct1 [OF apply_cap_police [OF a]] bspec [OF conjunct2 [OF apply_cap_police [OF a]]]
  show ?case
  proof (cases "c \<in> set ca")
    case True
    from p(2) [OF this] show ?thesis unfolding list.set by blast
  next
    case False
    with Cons.prems(2) d(2) have "c \<in> set ds" by simp
    from Cons.IH [OF d(1) this] show ?thesis unfolding list.set p(1) by blast
  qed
qed simp

lemma gate_candidates:
  assumes "evaluate_tx_pps_gate pol now counts th sh n = (as, n1)" "a \<in> set as" "distinct (map fst (nt_apps n))"
    and "map_of (nt_apps n) a = Some i" "ai_mark i \<noteq> None"
  shows "nt_apps n1 = nt_apps n \<and> pp_harm pol \<le> max th sh \<and> (\<exists>r. app_rate pol now counts n a = Some r \<and> pp_app_high pol \<le> r)
    \<and> (\<exists>b j. map_of (nt_apps n) b = Some j \<and> ai_mark j \<noteq> None \<and> tier_rank (ai_priority i) < tier_rank (ai_priority j))"
proof -
  let ?R = "ranked_apps n"
  have n1: "nt_apps n1 = nt_apps n" using assms(1) by (auto simp: evaluate_tx_pps_gate_def sample_app_pps_def Let_def split: if_splits)
  obtain rates n2 where sm: "sample_app_pps pol now counts n = (rates, n2)" by fastforce
  have R: "ranked_apps n2 = ?R" using sm by (auto simp: sample_app_pps_def ranked_apps_def)
  have harm: "\<not> max th sh < pp_harm pol"
  proof
    assume "max th sh < pp_harm pol"
    then have "as = []" using assms(1) by (simp add: evaluate_tx_pps_gate_def)
    with assms(2) show False by simp
  qed
  have ne: "?R \<noteq> []"
  proof
    assume "?R = []"
    then have "as = []"
      using assms(1) unfolding evaluate_tx_pps_gate_def sm R Let_def prod.case if_not_P [OF harm] by simp
    with assms(2) show False by simp
  qed
  have as: "as = map fst (filter (\<lambda>(a, pps). pps \<ge> pp_app_high pol \<and> dget (map_of ?R) a 1 < Max (set (map snd ?R))) rates)"
    using assms(1) unfolding evaluate_tx_pps_gate_def sm R Let_def prod.case if_not_P [OF harm] if_not_P [OF ne] prod.inject by simp
  from as assms(2) obtain r where r: "(a, r) \<in> set rates" "pp_app_high pol \<le> r"
    "dget (map_of ?R) a 1 < Max (set (map snd ?R))" by auto
  have rate: "app_rate pol now counts n a = Some r" using r(1) sm by (auto simp: sample_app_pps_def split: option.splits)
  have keys: "map fst ?R = map fst (filter (\<lambda>(a, i). ai_mark i \<noteq> None) (nt_apps n))" by (auto simp: ranked_apps_def)
  have dR: "distinct (map fst ?R)" unfolding keys using assms(3) by (rule distinct_map_filter)
  have "(a, i) \<in> set (nt_apps n)" using assms(4) by (rule map_of_SomeD)
  then have "(a, tier_rank (ai_priority i)) \<in> set ?R" using assms(5) by (force simp: ranked_apps_def)
  then have own: "dget (map_of ?R) a 1 = tier_rank (ai_priority i)" using dR by (simp add: map_of_is_SomeI)
  have "Max (set (map snd ?R)) \<in> set (map snd ?R)" using ne by (intro Max_in) simp_all
  then obtain b k where bk: "(b, k) \<in> set ?R" "Max (set (map snd ?R)) = k" by auto
  then obtain j where j: "(b, j) \<in> set (nt_apps n)" "ai_mark j \<noteq> None" "k = tier_rank (ai_priority j)" by (auto simp: ranked_apps_def)
  have "map_of (nt_apps n) b = Some j" using assms(3) j(1) by simp
  with r(2,3) rate own bk(2) j(2,3) harm n1 show ?thesis by (auto simp: not_less)
qed

lemma throttle_cmds: "c \<in> set (nw_cmds (throttle cfg f rates e w)) \<Longrightarrow> c \<in> set (nw_cmds w) \<or> \<not> police_cmd c"
  by (auto simp: throttle_def emit_def stamp_limit_def apply_bandwidth_limit_def limit_class_def Let_def split: prod.splits if_splits)

lemma recover_cmds: "c \<in> set (nw_cmds (fst (recover_flow cfg e f lvl rates used w))) \<Longrightarrow> c \<in> set (nw_cmds w) \<or> \<not> police_cmd c"
  by (auto simp: recover_flow_def emit_def stamp_recover_def recover_network_pressure_def limit_class_def Let_def
      split: prod.splits if_splits option.splits sum.splits)

lemma rx_cmds: "c \<in> set (nw_cmds (rx_throttle cfg e rx rates d w)) \<Longrightarrow> c \<in> set (nw_cmds w) \<or> \<not> police_cmd c"
  by (auto simp: rx_throttle_def stamp_limit_def stamp_recover_def Let_def split: prod.splits if_splits dest: throttle_cmds)

lemma tx_cmds:
  assumes "c \<in> set (nw_cmds (tx_throttle cfg e tx rates d w))" "c \<notin> set (nw_cmds w)" "police_cmd c"
  shows "\<exists>as n1 b cs n2. evaluate_tx_pps_gate (ne_policy e) (ne_now e) (ne_counts e) (da_tx_harm d) (da_softirq_harm d) (nw_ctl w) = (as, n1)
    \<and> apply_caps (ne_policy e) (ne_police e) (ne_uname e) (nw_shaper w) as n1 = (b, cs, n2) \<and> c \<in> set cs"
proof -
  have clear: "\<not> police_cmd c" if "c \<in> set (fst (clear_app_pps_cap [] (nw_ctl w)))"
    using that by (auto simp: clear_app_pps_cap_def Let_def)
  show ?thesis using assms clear
    by (auto simp: tx_throttle_def emit_def stamp_limit_def Let_def split: prod.splits if_splits dest: throttle_cmds)
qed

text \<open>A packet-rate cap never hits the most important traffic: whenever a reaction installs one, caps are enabled, the
  harm reached the threshold, the capped application sends at the configured rate or above, and some other marked
  application has a strictly higher tier.\<close>
theorem caps_only_below_top:
  assumes "c \<in> set (nw_cmds (fst (handle_network_pressure cfg e tx rx ingress egress d w)))" "police_cmd c" "nw_cmds w = []"
    and "distinct (map fst (nt_apps (nw_ctl w)))"
  shows "ne_police e \<and> pp_harm (ne_policy e) \<le> max (da_tx_harm d) (da_softirq_harm d)
    \<and> (\<exists>a i m prio cl. map_of (nt_apps (nw_ctl w)) a = Some i \<and> ai_mark i = Some m
        \<and> c = FilterAdd (sh_dev (nw_shaper w)) (sh_handle (nw_shaper w)) prio (MatchMark m) cl
            (Some (pp_cap_rate (ne_policy e), pp_cap_burst (ne_policy e)))
        \<and> (\<exists>r. app_rate (ne_policy e) (ne_now e) (ne_counts e) (nw_ctl w) a = Some r \<and> pp_app_high (ne_policy e) \<le> r)
        \<and> (\<exists>b j. map_of (nt_apps (nw_ctl w)) b = Some j \<and> ai_mark j \<noteq> None \<and> tier_rank (ai_priority i) < tier_rank (ai_priority j)))"
proof -
  let ?a = "tx_throttle cfg e tx egress d w"
  let ?b = "rx_throttle cfg e rx ingress d ?a"
  obtain w1 err where r: "recover_flow cfg e Egress tx egress (da_tx d) ?b = (w1, err)" by fastforce
  have "c \<in> set (nw_cmds w1)"
    using assms(1,2) recover_cmds [of c cfg e Ingress rx ingress "da_rx d" w1]
    by (cases err) (auto simp: handle_network_pressure_def r)
  then have "c \<in> set (nw_cmds ?a)"
    using recover_cmds [of c cfg e Egress tx egress "da_tx d" ?b] rx_cmds [of c cfg e rx ingress d ?a] assms(2) by (auto simp: r)
  from tx_cmds [OF this _ assms(2)] assms(3) obtain as n1 b cs n2 where
    g: "evaluate_tx_pps_gate (ne_policy e) (ne_now e) (ne_counts e) (da_tx_harm d) (da_softirq_harm d) (nw_ctl w) = (as, n1)" and
    p: "apply_caps (ne_policy e) (ne_police e) (ne_uname e) (nw_shaper w) as n1 = (b, cs, n2)" "c \<in> set cs" by auto
  have n1: "nt_apps n1 = nt_apps (nw_ctl w)"
    using g by (auto simp: evaluate_tx_pps_gate_def sample_app_pps_def Let_def split: if_splits)
  from apply_caps_police [OF p] obtain a i m prio cl where c: "ne_police e" "a \<in> set as" "map_of (nt_apps (nw_ctl w)) a = Some i"
    "ai_mark i = Some m" "c = FilterAdd (sh_dev (nw_shaper w)) (sh_handle (nw_shaper w)) prio (MatchMark m) cl
      (Some (pp_cap_rate (ne_policy e), pp_cap_burst (ne_policy e)))" unfolding n1 by blast
  have "ai_mark i \<noteq> None" using c(4) by simp
  from gate_candidates [OF g c(2) assms(4) c(3) this] c show ?thesis by blast
qed

definition flood_info :: "int \<Rightarrow> tier \<Rightarrow> app_info" where
  "flood_info m t = \<lparr>ai_mark = Some m, ai_paths = [], ai_priority = t, ai_nics = [mark_rule t 0 demo_shaper]\<rparr>"

definition flood_world :: net_world where
  \<comment> \<open>\<open>a\<close> of the low tier and \<open>b\<close> of the critical one; \<open>a\<close> was sampled one second ago\<close>
  "flood_world = demo_world\<lparr>nw_ctl := demo_ctl\<lparr>nt_apps := [(''a'', flood_info 1 TLow), (''b'', flood_info 2 TCritical)],
     nt_samples := (\<lambda>x. if x = ''a'' then Some (0, 99) else None)\<rparr>\<rparr>"

definition flood_env :: net_env where
  "flood_env = \<lparr>ne_now = 100, ne_policy = default_pps_policy, ne_police = True, ne_counts = (\<lambda>m. Some 90000), ne_uname = Some (6, 1),
     ne_ncpu = 4, ne_queues = (\<lambda>d. [])\<rparr>"

definition flood_data :: net_data where
  "flood_data = \<lparr>da_tx = 1/2, da_rx = 0, da_tx_harm = 0, da_rx_harm = 0, da_softirq_harm = 3/4\<rparr>"

lemma flood_gate:
  assumes "sample_app_pps default_pps_policy 100 (\<lambda>m. Some 90000) (nw_ctl flood_world) = (rates, n1)"
  shows "evaluate_tx_pps_gate default_pps_policy 100 (\<lambda>m. Some 90000) 0 (3/4) (nw_ctl flood_world) = ([''a''], n1)"
proof -
  let ?n = "nw_ctl flood_world"
  have "fst (sample_app_pps default_pps_policy 100 (\<lambda>m. Some 90000) ?n) = [(''a'', 90000)]"
    by (simp add: sample_app_pps_def app_rate_def app_sample_def flood_world_def demo_world_def flood_info_def default_pps_policy_def)
  then have r: "rates = [(''a'', 90000)]" unfolding assms by simp
  have "ranked_apps (snd (sample_app_pps default_pps_policy 100 (\<lambda>m. Some 90000) ?n)) = [(''a'', 1), (''b'', 3)]"
    by (simp add: sample_app_pps_def ranked_apps_def flood_world_def demo_world_def flood_info_def)
  then have k: "ranked_apps n1 = [(''a'', 1), (''b'', 3)]" unfolding assms by simp
  show ?thesis unfolding evaluate_tx_pps_gate_def assms r prod.case Let_def k
    by (simp add: default_pps_policy_def)
qed

lemma first_cap:
  assumes "map_of (nt_apps n) ''a'' = Some (flood_info 1 TLow)" "nt_caps n = []" "nt_police n = None"
  shows "apply_app_pps_cap default_pps_policy True (Some (6, 1)) demo_shaper ''a'' n
    = (True, [FilterAdd ''eth0'' 50 3010 (MatchMark 1) (50, 30) (Some (10000, 2000))],
       n\<lparr>nt_police := Some True, nt_caps := [(''a'', [(''eth0'', 3010, 50)])]\<rparr>)"
proof -
  have k: "kernel_supports_pkt_police (Some (6, 1)) n = (True, n\<lparr>nt_police := Some True\<rparr>)"
    using assms(3) by (simp add: kernel_supports_pkt_police_def)
  show ?thesis unfolding apply_app_pps_cap_def k prod.case using assms(1,2)
    by (simp add: flood_info_def default_pps_policy_def demo_shaper_def new_shaper_def mark_rule_def get_classid_def)
qed

lemma flood_cap:
  "fst (snd (apply_caps default_pps_policy True (Some (6, 1)) demo_shaper [''a'']
     (snd (sample_app_pps default_pps_policy 100 (\<lambda>m. Some 90000) (nw_ctl flood_world)))))
     = [FilterAdd ''eth0'' 50 3010 (MatchMark 1) (50, 30) (Some (10000, 2000))]
   \<and> fst (apply_caps default_pps_policy True (Some (6, 1)) demo_shaper [''a'']
     (snd (sample_app_pps default_pps_policy 100 (\<lambda>m. Some 90000) (nw_ctl flood_world))))"
proof -
  let ?n = "snd (sample_app_pps default_pps_policy 100 (\<lambda>m. Some 90000) (nw_ctl flood_world))"
  have "map_of (nt_apps ?n) ''a'' = Some (flood_info 1 TLow)" "nt_caps ?n = []" "nt_police ?n = None"
    by (simp_all add: sample_app_pps_def flood_world_def demo_world_def demo_ctl_def)
  from first_cap [OF this] show ?thesis by simp
qed

lemma flood_cmds:
  "FilterAdd ''eth0'' 50 3010 (MatchMark 1) (50, 30) (Some (10000, 2000))
    \<in> set (nw_cmds (fst (handle_network_pressure demo_cfg flood_env Medium Low Map.empty Map.empty flood_data flood_world)))"
proof -
  let ?w = "tx_throttle demo_cfg flood_env Medium Map.empty flood_data flood_world"
  obtain b cs n2 where c: "apply_caps default_pps_policy True (Some (6, 1)) demo_shaper [''a'']
     (snd (sample_app_pps default_pps_policy 100 (\<lambda>m. Some 90000) (nw_ctl flood_world))) = (b, cs, n2)" by (metis prod_cases3)
  have cs: "b" "cs = [FilterAdd ''eth0'' 50 3010 (MatchMark 1) (50, 30) (Some (10000, 2000))]"
    using flood_cap unfolding c by simp_all
  have g: "tx_gate_active default_pps_policy Medium flood_data" by (simp add: tx_gate_active_def default_pps_policy_def flood_data_def)
  have d: "da_tx_harm flood_data = 0" "da_softirq_harm flood_data = 3/4" by (simp_all add: flood_data_def)
  have e: "ne_policy flood_env = default_pps_policy" "ne_now flood_env = 100" "ne_counts flood_env = (\<lambda>m. Some 90000)"
    "ne_police flood_env" "ne_uname flood_env = Some (6, 1)" by (simp_all add: flood_env_def)
  have sh: "nw_shaper flood_world = demo_shaper" "nw_cmds flood_world = []" by (simp_all add: flood_world_def demo_world_def)
  obtain rates n1 where sm: "sample_app_pps default_pps_policy 100 (\<lambda>m. Some 90000) (nw_ctl flood_world) = (rates, n1)" by fastforce
  have w: "?w = stamp_limit Egress 100 (emit cs (flood_world\<lparr>nw_ctl := n2\<rparr>))"
    unfolding tx_throttle_def e d sh flood_gate [OF sm] if_P [OF g] prod.case using c cs(1) by (simp add: sm e)
  have st: "sh_stage (nw_shaper ?w) f = 0" for f
    unfolding w by (simp add: stamp_limit_def emit_def sh demo_shaper_def new_shaper_def)
  have rx: "rx_throttle demo_cfg flood_env Low Map.empty flood_data ?w = ?w \<or>
      nw_cmds (rx_throttle demo_cfg flood_env Low Map.empty flood_data ?w) = nw_cmds ?w \<and>
      sh_stage (nw_shaper (rx_throttle demo_cfg flood_env Low Map.empty flood_data ?w)) = sh_stage (nw_shaper ?w)"
    by (simp add: rx_throttle_def Let_def stamp_recover_def split: prod.split)
  then have "nw_cmds (fst (handle_network_pressure demo_cfg flood_env Medium Low Map.empty Map.empty flood_data flood_world)) = nw_cmds ?w"
    using st by (elim disjE) (simp_all add: handle_network_pressure_def recover_flow_def)
  then show ?thesis by (simp add: w emit_def stamp_limit_def cs(2))
qed

lemma caps_only_below_top_witness:
  "\<exists>a i m prio cl. map_of (nt_apps (nw_ctl flood_world)) a = Some i \<and> ai_mark i = Some m
     \<and> FilterAdd ''eth0'' 50 3010 (MatchMark 1) (50, 30) (Some (10000, 2000))
       = FilterAdd (sh_dev (nw_shaper flood_world)) (sh_handle (nw_shaper flood_world)) prio (MatchMark m) cl
           (Some (pp_cap_rate (ne_policy flood_env), pp_cap_burst (ne_policy flood_env)))
     \<and> (\<exists>r. app_rate (ne_policy flood_env) (ne_now flood_env) (ne_counts flood_env) (nw_ctl flood_world) a = Some r
          \<and> pp_app_high (ne_policy flood_env) \<le> r)
     \<and> (\<exists>b j. map_of (nt_apps (nw_ctl flood_world)) b = Some j \<and> ai_mark j \<noteq> None \<and> tier_rank (ai_priority i) < tier_rank (ai_priority j))"
proof -
  let ?c = "FilterAdd ''eth0'' 50 3010 (MatchMark 1) (50, 30) (Some (10000, 2000))"
  have m: "?c \<in> set (nw_cmds (fst (handle_network_pressure demo_cfg flood_env Medium Low Map.empty Map.empty flood_data flood_world)))"
    by (rule flood_cmds)
  have w: "police_cmd ?c" "nw_cmds flood_world = []" "distinct (map fst (nt_apps (nw_ctl flood_world)))"
    by (simp_all add: flood_world_def demo_world_def)
  show ?thesis by (rule conjunct2 [OF conjunct2 [OF caps_only_below_top [OF m w]]])
qed

text \<open>The priority of a cap comes from how many applications are capped at the time. With \<open>a\<close> and \<open>b\<close> capped, \<open>a\<close>
  released and \<open>c\<close> capped, \<open>b\<close> and \<open>c\<close> have the same priority; releasing \<open>b\<close> deletes the cap of \<open>c\<close> too, which the
  table still lists as installed.\<close>

definition cap_ctl :: nctl where
  "cap_ctl = demo_ctl\<lparr>nt_apps := [(''a'', flood_info 1 TLow), (''b'', flood_info 2 TLow), (''c'', flood_info 3 TLow)]\<rparr>"

definition cap_sequence :: "tc_kernel \<times> nctl" where
  "cap_sequence =
     (let cap = (\<lambda>a (k, n). case apply_app_pps_cap default_pps_policy True (Some (6, 1)) demo_shaper a n of (_, cs, n') \<Rightarrow> (tc_run cs k, n'));
          clear = (\<lambda>a (k, n). case clear_app_pps_cap a n of (cs, n') \<Rightarrow> (tc_run cs k, n'))
      in clear ''b'' (cap ''c'' (clear ''a'' (cap ''b'' (cap ''a'' (demo_kernel, cap_ctl))))))"

lemma cap_priority_collision:
  "tk_filters (fst cap_sequence) = [] \<and> map_of (nt_caps (snd cap_sequence)) ''c'' = Some [(''eth0'', 3020, 50)]"
  by code_simp

subsection \<open>Escalation is undone\<close>

lemma host_write_other [simp]: "p \<noteq> q \<Longrightarrow> hr_files (host_write p v h) q = hr_files h q" "hr_writable (host_write p v h) = hr_writable h"
  by (simp_all add: host_write_def)

lemma escalate_rps_saves:
  assumes "distinct (map fst saved @ ps)" "escalate_rps mk ps saved h = (saved', h')"
    and "\<And>p. p \<in> set ps \<Longrightarrow> hr_writable h p \<and> hr_files h p \<noteq> None"
  shows "saved' = saved @ map (\<lambda>p. (p, strip (the (hr_files h p)))) ps \<and> hr_writable h' = hr_writable h
    \<and> (\<forall>p. p \<notin> set ps \<longrightarrow> hr_files h' p = hr_files h p)"
  using assms
proof (induction ps arbitrary: saved h)
  case (Cons p ps)
  obtain c where c: "hr_files h p = Some c" using Cons.prems(3) [of p] by auto
  have new: "map_of saved p = None" using Cons.prems(1) by (auto simp: map_of_eq_None_iff)
  let ?h = "host_write p mk h"
  have rec: "escalate_rps mk ps (saved @ [(p, strip c)]) ?h = (saved', h')" using Cons.prems(2) c new by simp
  have keep: "hr_files ?h q = hr_files h q" if "q \<in> set ps" for q using Cons.prems(1) that by (intro host_write_other) auto
  have IH: "saved' = (saved @ [(p, strip c)]) @ map (\<lambda>q. (q, strip (the (hr_files ?h q)))) ps \<and> hr_writable h' = hr_writable ?h
      \<and> (\<forall>q. q \<notin> set ps \<longrightarrow> hr_files h' q = hr_files ?h q)"
    using Cons.prems keep by (intro Cons.IH [OF _ rec]) auto
  have "map (\<lambda>q. (q, strip (the (hr_files ?h q)))) ps = map (\<lambda>q. (q, strip (the (hr_files h q)))) ps" using keep by simp
  with IH c show ?case by auto
qed simp

lemma bump_saves:
  assumes "distinct (map fst saved @ map fst kvs)" "bump_sysctl kvs saved h = (saved', h')"
    and "\<And>p. p \<in> fst ` set kvs \<Longrightarrow> hr_writable h p \<and> hr_files h p \<noteq> None"
  shows "saved' = saved @ map (\<lambda>p. (p, strip (the (hr_files h p)))) (map fst kvs) \<and> hr_writable h' = hr_writable h
    \<and> (\<forall>p. p \<notin> fst ` set kvs \<longrightarrow> hr_files h' p = hr_files h p)"
  using assms
proof (induction kvs arbitrary: saved h)
  case (Cons kv kvs)
  obtain p v where kv: "kv = (p, v)" by (cases kv)
  obtain c where c: "hr_files h p = Some c" using Cons.prems(3) [of p] kv by auto
  have new: "map_of saved p = None" using Cons.prems(1) kv by (auto simp: map_of_eq_None_iff)
  let ?h = "host_write p v h"
  have rec: "bump_sysctl kvs (saved @ [(p, strip c)]) ?h = (saved', h')" using Cons.prems(2) c new kv by simp
  have keep: "hr_files ?h q = hr_files h q" if "q \<in> fst ` set kvs" for q using Cons.prems(1) that kv by (intro host_write_other) auto
  have IH: "saved' = (saved @ [(p, strip c)]) @ map (\<lambda>q. (q, strip (the (hr_files ?h q)))) (map fst kvs) \<and> hr_writable h' = hr_writable ?h
      \<and> (\<forall>q. q \<notin> fst ` set kvs \<longrightarrow> hr_files h' q = hr_files ?h q)"
    using Cons.prems keep kv by (intro Cons.IH [OF _ rec]) auto
  have "map (\<lambda>q. (q, strip (the (hr_files ?h q)))) (map fst kvs) = map (\<lambda>q. (q, strip (the (hr_files h q)))) (map fst kvs)" using keep by simp
  with IH c kv show ?case by auto
qed simp

lemma write_back:
  assumes "distinct ps" "\<And>p. p \<in> set ps \<Longrightarrow> hr_writable h p"
  shows "hr_files (fold (\<lambda>(p, v). host_write p v) (map (\<lambda>p. (p, g p)) ps) h) q = (if q \<in> set ps then Some (g q) else hr_files h q)"
  using assms
proof (induction ps arbitrary: h)
  case (Cons p ps)
  have "hr_files (fold (\<lambda>(p, v). host_write p v) (map (\<lambda>p. (p, g p)) ps) (host_write p (g p) h)) q
      = (if q \<in> set ps then Some (g q) else hr_files (host_write p (g p) h) q)"
    using Cons.prems by (intro Cons.IH) auto
  moreover have "hr_files (host_write p (g p) h) p = Some (g p)" using Cons.prems(2) [of p] by (simp add: host_write_def)
  ultimately show ?case using Cons.prems(1) by (cases "q = p") auto
qed simp

lemma strip_strip [simp]: "strip (strip s) = strip s"
proof -
  define u where "u = dropWhile is_space s"
  define v where "v = rev (dropWhile is_space (rev u))"
  have "dropWhile is_space v = v"
  proof (cases v)
    case (Cons x xs)
    obtain ys where "u = v @ ys" unfolding v_def by (metis rev_append rev_rev_ident takeWhile_dropWhile_id)
    then have "u \<noteq> []" "hd u = x" using Cons by auto
    then have "\<not> is_space x" using hd_dropWhile [of is_space s] u_def by metis
    then show ?thesis using Cons by simp
  qed simp
  moreover have "dropWhile is_space (rev v) = rev v" unfolding v_def by simp
  ultimately show ?thesis by (simp add: strip_def u_def v_def)
qed

definition knob_paths :: "string list" where
  "knob_paths = map fst budget_knobs"

text \<open>C17: Escalating the receive path of a NIC and restoring it leaves the machine as it was: every processor mask and
  kernel setting holds its former text again (without surrounding space), whatever the policy was at the time and
  however often the escalation was repeated in between, and nothing of it stays on record.\<close>
theorem rx_escalation_roundtrip:
  assumes "map_of (nt_esc n) dev = None" "distinct (queues @ knob_paths)"
    and "\<forall>p \<in> set (queues @ knob_paths). hr_writable h p \<and> hr_files h p \<noteq> None"
    and "restore_rx dev (escalate_rx pol2 ncpu2 queues2 dev (escalate_rx pol ncpu queues dev (n, h))) = (n', h')"
  shows "n' = n \<and> (\<forall>p. map_option strip (hr_files h' p) = map_option strip (hr_files h p))"
proof -
  obtain rps h1 where r: "(if pp_rps pol then escalate_rps (cpu_mask ncpu) queues [] h else ([], h)) = (rps, h1)" by fastforce
  obtain sys h2 where b: "(if pp_budget pol then bump_sysctl budget_knobs [] h1 else ([], h1)) = (sys, h2)" by fastforce
  let ?old = "\<lambda>p. strip (the (hr_files h p))"
  define qs where "qs = (if pp_rps pol then queues else [])"
  define ks where "ks = (if pp_budget pol then knob_paths else [])"
  have R: "rps = map (\<lambda>p. (p, ?old p)) qs \<and> hr_writable h1 = hr_writable h \<and> (\<forall>p. p \<notin> set qs \<longrightarrow> hr_files h1 p = hr_files h p)"
    using r assms(2,3) escalate_rps_saves [of "[]" queues "cpu_mask ncpu" h rps h1] by (simp add: qs_def split: if_splits)
  have disj: "set queues \<inter> set knob_paths = {}" "distinct queues" "distinct knob_paths" using assms(2) by auto
  have same: "hr_files h1 p = hr_files h p" if "p \<in> set knob_paths" for p
    using R that disj(1) by (auto simp: qs_def split: if_splits)
  have S: "sys = map (\<lambda>p. (p, ?old p)) ks \<and> hr_writable h2 = hr_writable h \<and> (\<forall>p. p \<notin> set qs \<union> set ks \<longrightarrow> hr_files h2 p = hr_files h p)"
  proof (cases "pp_budget pol")
    case True
    have "sys = [] @ map (\<lambda>p. (p, strip (the (hr_files h1 p)))) (map fst budget_knobs) \<and> hr_writable h2 = hr_writable h1
        \<and> (\<forall>p. p \<notin> fst ` set budget_knobs \<longrightarrow> hr_files h2 p = hr_files h1 p)"
      using b True R same assms(3) disj(3) by (intro bump_saves) (auto simp: knob_paths_def)
    moreover have "map (\<lambda>p. (p, strip (the (hr_files h1 p)))) knob_paths = map (\<lambda>p. (p, ?old p)) knob_paths" using same by simp
    ultimately show ?thesis using True R by (simp add: ks_def knob_paths_def)
  next
    case False
    with b R show ?thesis by (simp add: ks_def)
  qed
  let ?st = "\<lparr>re_rps = rps, re_sysctl = sys, re_active = True\<rparr>"
  have e1: "escalate_rx pol ncpu queues dev (n, h) = (n\<lparr>nt_esc := nt_esc n @ [(dev, ?st)]\<rparr>, h2)"
    using r b assms(1) by (cases "pp_rps pol"; cases "pp_budget pol") (simp_all add: escalate_rx_def Let_def update_fresh)
  have e2: "escalate_rx pol2 ncpu2 queues2 dev (n\<lparr>nt_esc := nt_esc n @ [(dev, ?st)]\<rparr>, h2) = (n\<lparr>nt_esc := nt_esc n @ [(dev, ?st)]\<rparr>, h2)"
    using assms(1) by (simp add: escalate_rx_def map_add_def)
  have "dev \<notin> fst ` set (nt_esc n)" using assms(1) by (simp add: map_of_eq_None_iff)
  then have del: "AList.delete dev (nt_esc n @ [(dev, x)]) = nt_esc n" for x by (auto simp: delete_fresh_filter filter_id_conv)
  have out: "n' = n" "h' = fold (\<lambda>(p, v). host_write p v) (map (\<lambda>p. (p, ?old p)) (qs @ ks)) h2"
    using assms(1,4) conjunct1 [OF R] conjunct1 [OF S] unfolding e1 e2 by (simp_all add: restore_rx_def map_add_def del)
  have "distinct (qs @ ks)" using disj by (auto simp: qs_def ks_def)
  moreover have "hr_writable h2 p" if "p \<in> set (qs @ ks)" for p using that S assms(3) by (auto simp: qs_def ks_def split: if_splits)
  ultimately have wb: "hr_files h' p = (if p \<in> set (qs @ ks) then Some (?old p) else hr_files h2 p)" for p
    unfolding out(2) by (rule write_back)
  have "map_option strip (hr_files h' p) = map_option strip (hr_files h p)" for p
  proof (cases "p \<in> set (qs @ ks)")
    case True
    then have "hr_files h p \<noteq> None" using assms(3) by (auto simp: qs_def ks_def split: if_splits)
    with True wb [of p] show ?thesis by auto
  next
    case False
    with wb [of p] S show ?thesis by simp
  qed
  with out(1) show ?thesis by blast
qed

lemma rx_escalation_roundtrip_witness:
  "map_option strip (hr_files (snd (restore_rx ''eth0'' (escalate_rx default_pps_policy 4 [] ''eth0''
     (escalate_rx default_pps_policy 4 [''q0'', ''q1''] ''eth0'' (demo_ctl, demo_host))))) ''q1'') = Some ''0''"
proof -
  obtain n' h' where r: "restore_rx ''eth0'' (escalate_rx default_pps_policy 4 [] ''eth0''
     (escalate_rx default_pps_policy 4 [''q0'', ''q1''] ''eth0'' (demo_ctl, demo_host))) = (n', h')" by fastforce
  have "map_option strip (hr_files h' ''q1'') = map_option strip (hr_files demo_host ''q1'')"
    using rx_escalation_roundtrip [OF _ _ _ r] by (simp add: demo_ctl_def demo_host_def knob_paths_def budget_knobs_def)
  then show ?thesis unfolding r by (simp add: demo_host_def strip_def is_space_def)
qed

text \<open>The kernel settings are those of the machine, the record is per NIC. Two NICs escalated one after the other and
  restored in the same order leave the raised settings behind: the second one saved what the first had written.\<close>

lemma sysctl_bump_leaks:
  "hr_files (snd (restore_rx ''eth1'' (restore_rx ''eth0''
     (escalate_rx (default_pps_policy\<lparr>pp_budget := True\<rparr>) 4 [] ''eth1''
       (escalate_rx (default_pps_policy\<lparr>pp_budget := True\<rparr>) 4 [] ''eth0'' (demo_ctl, demo_host))))))
     ''/proc/sys/net/core/netdev_budget'' = Some ''600''"
  by (simp add: escalate_rx_def restore_rx_def default_pps_policy_def demo_ctl_def demo_host_def budget_knobs_def host_write_def
      strip_def is_space_def)

subsection \<open>The processor mask\<close>

definition hex_digit_val :: "char \<Rightarrow> nat" where
  "hex_digit_val c = (let n = of_char c in if n < 58 then n - 48 else n - 87)"

definition hex_num :: "string \<Rightarrow> nat" where
  "hex_num s = fold (\<lambda>c acc. acc * 16 + hex_digit_val c) s 0"

definition parse_mask :: "string \<Rightarrow> nat" where
  \<comment> \<open>how the kernel reads a bitmap: words of 32 bits, the most significant first\<close>
  "parse_mask s = fold (\<lambda>w acc. acc * 2 ^ 32 + hex_num w) (split_char (CHR '','') s) 0"

lemma hex_digit_props:
  assumes "d < 16" shows "hex_digit_val (hex_digit d) = d" "hex_digit d \<noteq> CHR '',''"
proof -
  have c: "(of_char (hex_digit d) :: nat) = (if d < 10 then 48 + d else 87 + d)" using assms by simp
  then show "hex_digit_val (hex_digit d) = d" using assms by (auto simp: hex_digit_val_def Let_def)
  show "hex_digit d \<noteq> CHR '',''"
  proof
    assume "hex_digit d = CHR '',''"
    then have "(of_char (hex_digit d) :: nat) = 44" by simp
    with c show False by (simp split: if_splits)
  qed
qed

declare hex_digit.simps [simp del]

lemma hex_num_snoc: "hex_num (s @ [c]) = hex_num s * 16 + hex_digit_val c"
  by (simp add: hex_num_def)

lemma show_hex_props: "hex_num (show_hex n) = n \<and> CHR '','' \<notin> set (show_hex n) \<and> show_hex n \<noteq> []"
proof (induction n rule: show_hex.induct)
  case (1 n)
  show ?case
  proof (cases "n < 16")
    case True
    then have "show_hex n = [hex_digit n]" by (simp add: show_hex.simps [of n])
    then show ?thesis using hex_digit_props [OF True] by (simp add: hex_num_def)
  next
    case False
    have e: "show_hex n = show_hex (n div 16) @ [hex_digit (n mod 16)]" using False by (simp add: show_hex.simps [of n])
    have d: "hex_digit_val (hex_digit (n mod 16)) = n mod 16" "hex_digit (n mod 16) \<noteq> CHR '',''" by (rule hex_digit_props; simp)+
    show ?thesis unfolding e hex_num_snoc d(1) using 1 [OF False] d(2) by simp
  qed
qed

lemma show_hex_length: "n < 16 ^ Suc k \<Longrightarrow> length (show_hex n) \<le> Suc k"
proof (induction k arbitrary: n)
  case 0
  then show ?case by (simp add: show_hex.simps [of n])
next
  case (Suc k)
  show ?case
  proof (cases "n < 16")
    case False
    have "n div 16 < 16 ^ Suc k" using Suc.prems by (simp add: less_mult_imp_div_less)
    then show ?thesis using Suc.IH [of "n div 16"] False by (simp add: show_hex.simps [of n])
  qed (simp add: show_hex.simps [of n])
qed

lemma hex_num_zeros: "hex_num (replicate k (CHR ''0'') @ s) = hex_num s"
proof -
  have "fold (\<lambda>c acc. acc * 16 + hex_digit_val c) (replicate k (CHR ''0'')) 0 = 0"
    by (induction k) (simp_all add: hex_digit_val_def)
  then show ?thesis by (simp add: hex_num_def)
qed

lemma show_hex8_props: "n < 2 ^ 32 \<Longrightarrow> hex_num (show_hex8 n) = n \<and> CHR '','' \<notin> set (show_hex8 n) \<and> length (show_hex8 n) = 8"
  using show_hex_length [of n 7] show_hex_props [of n] by (simp add: show_hex8_def hex_num_zeros)

lemma mask_words_bound: "w \<in> set (mask_words m) \<Longrightarrow> w < 2 ^ 32"
  by (induction m rule: mask_words.induct) (subst (asm) (2) mask_words.simps, auto split: if_splits)

lemma mask_words_value: "fold (\<lambda>w acc. acc * 2 ^ 32 + w) (rev (mask_words m)) 0 = m"
proof (induction m rule: mask_words.induct)
  case (1 m)
  show ?case
  proof (cases "m = 0")
    case False
    then have "mask_words m = m mod 2 ^ 32 # mask_words (m div 2 ^ 32)" by (simp add: mask_words.simps [of m])
    then show ?thesis using 1 [OF False] by simp
  qed (simp add: mask_words.simps)
qed

text \<open>The mask written to \<open>rps_cpus\<close> selects exactly the processors there are, on machines of any size: read as the
  kernel reads a bitmap it is the number with one bit per processor, and no word of it is longer than eight digits.\<close>
theorem cpu_mask_roundtrip:
  "parse_mask (cpu_mask ncpu) = 2 ^ max 1 ncpu - 1 \<and> (\<forall>w \<in> set (split_char (CHR '','') (cpu_mask ncpu)). length w \<le> 8)"
proof -
  define cpus where "cpus = max 1 ncpu"
  define m :: nat where "m = 2 ^ cpus - 1"
  show ?thesis
  proof (cases "cpus \<le> 32")
    case True
    have c: "cpu_mask ncpu = show_hex m" using True by (simp add: cpu_mask_def cpus_def m_def Let_def)
    have "(2 ^ cpus :: nat) \<le> 2 ^ 32" using True by (intro power_increasing) simp_all
    moreover have "(0 :: nat) < 2 ^ cpus" by simp
    ultimately have "m < 2 ^ 32" unfolding m_def by linarith
    then have "m < 16 ^ Suc 7" by simp
    from show_hex_length [OF this] show_hex_props [of m] show ?thesis
      unfolding c by (simp add: parse_mask_def split_char_plain m_def cpus_def)
  next
    case False
    let ?ws = "rev (map show_hex8 (mask_words m))"
    have c: "cpu_mask ncpu = join_with [CHR '',''] ?ws" using False by (simp add: cpu_mask_def cpus_def m_def Let_def)
    have "1 < (2 ^ cpus :: nat)" using False by (intro one_less_power) simp_all
    then have "m \<noteq> 0" unfolding m_def by linarith
    then have ne: "?ws \<noteq> []" by (simp add: mask_words.simps [of m])
    have w: "hex_num (show_hex8 w) = w \<and> CHR '','' \<notin> set (show_hex8 w) \<and> length (show_hex8 w) = 8" if "w \<in> set (mask_words m)" for w
      using show_hex8_props mask_words_bound [OF that] by blast
    have sp: "split_char (CHR '','') (cpu_mask ncpu) = ?ws" unfolding c using w by (intro split_join ne) auto
    have "fold (\<lambda>w acc. acc * 2 ^ 32 + hex_num w) (map show_hex8 us) a = fold (\<lambda>w acc. acc * 2 ^ 32 + w) us a"
      if "set us \<subseteq> set (mask_words m)" for us a
      using that w by (induction us arbitrary: a) auto
    from this [of "rev (mask_words m)" 0] have "parse_mask (cpu_mask ncpu) = m"
      unfolding parse_mask_def sp using mask_words_value [of m] by (simp add: rev_map)
    then show ?thesis using w unfolding sp by (auto simp: m_def cpus_def)
  qed
qed

lemma cpu_mask_roundtrip_witness:
  "parse_mask (cpu_mask 40) = 2 ^ 40 - 1 \<and> cpu_mask 40 = ''000000ff,ffffffff''"
proof -
  have "cpu_mask 40 = ''000000ff,ffffffff''"
    by (simp add: cpu_mask_def mask_words.simps show_hex8_def show_hex.simps hex_digit.simps, code_simp)
  with cpu_mask_roundtrip [of 40] show ?thesis by simp
qed

end
