(* ===== verification/Net_Monitor.thy ===== *)
theory Net_Monitor
  imports Py_String Pressure Disk_Pressure "HOL-Library.Product_Lexorder"
begin

text \<open>
  Network pressure: \<open>monitor/network.py\<close> (one \<open>NetworkMonitor\<close> per interface), the level given to its scores
  (\<open>update_network_pressure_level\<close> of \<open>monitor/monitor_api.py\<close>) and the published snapshot with its summary
  (\<open>monitor/network_pressure.py\<close>). The counters of the kernel, the number of cores and the clock are arguments; one
  sample reads the clock once. The tc statistics of a class are read by \<open>Net_Shaping\<close> as an argument.
\<close>

subsection \<open>Formulas\<close>

definition saturate :: "real \<Rightarrow> real \<Rightarrow> real" where
  \<comment> \<open>\<open>_sat\<close>\<close>
  "saturate ratio h = (if ratio \<le> 0 then 0 else 1 - exp (- ratio / h))"

definition net_sigmoid :: "real \<Rightarrow> real \<Rightarrow> real \<Rightarrow> real" where
  "net_sigmoid x h k = (let z = - k * (x - h) in if z \<ge> 60 then 0 else if z \<le> - 60 then 1 else logistic z)"

definition noisy_or :: "real list \<Rightarrow> real" where
  "noisy_or vs = 1 - prod_list (map (\<lambda>v. 1 - clamp 0 1 v) vs)"

definition ema_step :: "real option \<Rightarrow> real \<Rightarrow> real \<Rightarrow> real \<Rightarrow> real" where
  "ema_step prev instant alpha dt =
     (case prev of None \<Rightarrow> instant
      | Some p \<Rightarrow> (let a = 1 - (1 - clamp 0 1 alpha) powr dt in a * instant + (1 - a) * p))"

subsection \<open>Counters\<close>

datatype dir = Rx | Tx

record nic_counters =
  nc_bytes :: "dir \<Rightarrow> int"
  nc_packets :: "dir \<Rightarrow> int"
  nc_dropped :: "dir \<Rightarrow> int"
  nc_fifo :: "dir \<Rightarrow> int"
  nc_rx_missed :: int
  nc_rx_over :: int

definition rx_hw_overflow :: "nic_counters \<Rightarrow> int" where
  "rx_hw_overflow c = nc_fifo c Rx + nc_rx_missed c + nc_rx_over c"

record softnet =
  sn_processed :: int
  sn_squeezed :: int
  sn_dropped :: int

fun softnet_lines :: "int option list list \<Rightarrow> softnet \<Rightarrow> softnet" where
  \<comment> \<open>the columns of each line, read as hexadecimal numbers; a column that is none ends the reading\<close>
  "softnet_lines [] s = s"
| "softnet_lines (line # rest) s =
     (case line of
        Some p # Some d # Some q # _ \<Rightarrow>
          softnet_lines rest (s\<lparr>sn_processed := sn_processed s + p, sn_dropped := sn_dropped s + d, sn_squeezed := sn_squeezed s + q\<rparr>)
      | None # _ # _ # _ \<Rightarrow> s
      | Some p # None # _ # _ \<Rightarrow> s\<lparr>sn_processed := sn_processed s + p\<rparr>
      | Some p # Some d # None # _ \<Rightarrow> s\<lparr>sn_processed := sn_processed s + p, sn_dropped := sn_dropped s + d\<rparr>
      | _ \<Rightarrow> softnet_lines rest s)"

definition read_softnet_stats :: "int option list list option \<Rightarrow> softnet" where
  "read_softnet_stats file =
     (let z = \<lparr>sn_processed = 0, sn_squeezed = 0, sn_dropped = 0\<rparr> in case file of None \<Rightarrow> z | Some ls \<Rightarrow> softnet_lines ls z)"

subsection \<open>The window of cumulative counters\<close>

type_synonym history = "(real \<times> int list) list"

definition window_sec :: real where "window_sec = 5"

definition hist_add :: "real \<Rightarrow> int list \<Rightarrow> history \<Rightarrow> history" where
  "hist_add now values h = filter (\<lambda>row. fst row \<ge> now - window_sec) (h @ [(now, values)])"

definition diff_rate :: "nat \<Rightarrow> nat \<Rightarrow> history \<Rightarrow> real" where
  \<comment> \<open>positions as in the code: 0 is the time stamp\<close>
  "diff_rate num_idx denom_idx h =
     (if length h < 2 then 0
      else let dn = snd (last h) ! (num_idx - 1) - snd (hd h) ! (num_idx - 1);
               dd = snd (last h) ! (denom_idx - 1) - snd (hd h) ! (denom_idx - 1)
           in if dd \<le> 0 \<or> dn < 0 then 0 else of_int dn / of_int dd)"

definition rate_kbit :: "history \<Rightarrow> real" where
  \<comment> \<open>the average rate of a class over its window\<close>
  "rate_kbit h =
     (if length h < 2 then 0
      else let db = snd (last h) ! 0 - snd (hd h) ! 0; dt = fst (last h) - fst (hd h)
           in if dt > 0 then of_int db * 8 / 1000 / dt else 0)"

subsection \<open>The model\<close>

record net_model =
  nm_ema_alpha :: real
  nm_decay_rate :: real
  nm_cpu_pps_per_core :: real
  nm_min_pps_activity :: real
  nm_drop_half :: real
  nm_rx_drop_weight :: real
  nm_fifo_half :: real
  nm_softnet_half :: real
  nm_util_sat_half :: real
  nm_util_sat_k :: real

definition strict_num :: "pyval \<Rightarrow> real \<Rightarrow> real" where
  \<comment> \<open>a bool does not count as a number here\<close>
  "strict_num v d = (if is_bool v then d else num_or v d)"

definition weight_num :: "pyval \<Rightarrow> real \<Rightarrow> real" where
  "weight_num v d = (let x = strict_num v d in if 0 \<le> x \<and> x \<le> 1 then x else d)"

definition net_model_of :: "pyval \<Rightarrow> net_model" where
  "net_model_of cfg =
     \<lparr>nm_ema_alpha = strict_num (pget cfg ''ema_alpha'') (3/10),
      nm_decay_rate = strict_num (pget cfg ''decay_rate'') (7/10),
      nm_cpu_pps_per_core = strict_num (pget cfg ''cpu_pps_per_core'') 1500000,
      nm_min_pps_activity = strict_num (pget cfg ''min_pps_activity'') 2000,
      nm_drop_half = strict_num (pget cfg ''drop_half'') (1/1000),
      nm_rx_drop_weight = weight_num (pget cfg ''rx_drop_weight'') (1/2),
      nm_fifo_half = strict_num (pget cfg ''fifo_half'') (1/10000),
      nm_softnet_half = strict_num (pget cfg ''softnet_half'') (1/1000),
      nm_util_sat_half = strict_num (pget cfg ''util_sat_half'') (96/100),
      nm_util_sat_k = strict_num (pget cfg ''util_sat_k'') 120\<rparr>"

definition rx_drop_half :: real where "rx_drop_half = 5/100"
definition softnet_squeeze_weight :: real where "softnet_squeeze_weight = 1/2"
definition pps_per_gbps :: real where "pps_per_gbps = 1488095"

subsection \<open>One sample\<close>

record net_parts =
  np_rx_drop :: real
  np_rx_hw :: real
  np_rx_squeeze :: real
  np_rx_softdrop :: real
  np_tx_drop :: real
  np_tx_fifo :: real
  np_rx_collective :: real
  np_tx_collective :: real
  np_rx_exhausted :: bool
  np_softirq_harm :: real

definition net_parts0 :: net_parts where
  "net_parts0 = \<lparr>np_rx_drop = 0, np_rx_hw = 0, np_rx_squeeze = 0, np_rx_softdrop = 0, np_tx_drop = 0, np_tx_fifo = 0,
     np_rx_collective = 0, np_tx_collective = 0, np_rx_exhausted = False, np_softirq_harm = 0\<rparr>"

record nic_mon =
  ni_last :: "(nic_counters \<times> softnet \<times> real) option"
  ni_ema_bw :: "dir \<Rightarrow> real option"
  ni_ema_pps :: "dir \<Rightarrow> real option"
  ni_distress :: "dir \<Rightarrow> real"
  ni_score :: "dir \<Rightarrow> real"
  ni_parts :: net_parts
  ni_rx_hist :: history
  ni_tx_hist :: history
  ni_soft_hist :: history

definition nic_mon_init :: nic_mon where
  "nic_mon_init = \<lparr>ni_last = None, ni_ema_bw = (\<lambda>d. None), ni_ema_pps = (\<lambda>d. None), ni_distress = (\<lambda>d. 0), ni_score = (\<lambda>d. 0),
     ni_parts = net_parts0, ni_rx_hist = [], ni_tx_hist = [], ni_soft_hist = []\<rparr>"

definition add_histories :: "real \<Rightarrow> nic_counters \<Rightarrow> softnet \<Rightarrow> nic_mon \<Rightarrow> nic_mon" where
  "add_histories now c sn s =
     s\<lparr>ni_rx_hist := hist_add now [nc_packets c Rx, nc_dropped c Rx, rx_hw_overflow c] (ni_rx_hist s),
       ni_tx_hist := hist_add now [nc_packets c Tx, nc_dropped c Tx, nc_fifo c Tx] (ni_tx_hist s),
       ni_soft_hist := hist_add now [sn_processed sn, sn_squeezed sn, sn_dropped sn] (ni_soft_hist s)\<rparr>"

definition grown :: "('a \<Rightarrow> int) \<Rightarrow> 'a \<Rightarrow> 'a \<Rightarrow> real" where
  \<comment> \<open>\<open>_delta\<close>: a counter that went back counts as unchanged\<close>
  "grown f c p = of_int (max 0 (f c - f p))"

definition eff_max_pps :: "net_model \<Rightarrow> real \<Rightarrow> real \<Rightarrow> real" where
  "eff_max_pps m cores max_kbit =
     (let physical = (if max_kbit > 0 then max_kbit / 1000000 else 0) * pps_per_gbps; cpu = cores * nm_cpu_pps_per_core m
      in if physical > 0 then min physical cpu else cpu)"

definition bw_util :: "real \<Rightarrow> real \<Rightarrow> nic_counters \<Rightarrow> nic_counters \<Rightarrow> dir \<Rightarrow> real" where
  "bw_util max_kbit dt c p d =
     (if max_kbit > 0 then clamp 0 1 (grown (\<lambda>x. nc_bytes x d) c p * 8 / 1000 / dt / max_kbit) else 0)"

definition pps_util :: "real \<Rightarrow> real \<Rightarrow> nic_counters \<Rightarrow> nic_counters \<Rightarrow> dir \<Rightarrow> real" where
  "pps_util eff dt c p d = (if eff > 0 then clamp 0 1 (grown (\<lambda>x. nc_packets x d) c p / dt / eff) else 0)"

definition activity :: "net_model \<Rightarrow> real \<Rightarrow> nic_counters \<Rightarrow> nic_counters \<Rightarrow> dir \<Rightarrow> real" where
  "activity m dt c p d = clamp 0 1 (grown (\<lambda>x. nc_packets x d) c p / dt / max (1 / 10 ^ 9) (nm_min_pps_activity m))"

definition softnet_share :: "nic_counters \<Rightarrow> nic_counters \<Rightarrow> softnet \<Rightarrow> softnet \<Rightarrow> real" where
  "softnet_share c p sn last_sn =
     (let processed = sn_processed sn - sn_processed last_sn
      in if processed > 0 then clamp 0 1 (grown (\<lambda>x. nc_packets x Rx) c p / of_int processed) else 1)"

definition half_of :: "real \<Rightarrow> real" where
  "half_of x = max (1 / 10 ^ 12) x"

definition net_parts_of :: "net_model \<Rightarrow> real \<Rightarrow> real \<Rightarrow> real \<Rightarrow> nic_mon \<Rightarrow> net_parts" where
  \<comment> \<open>the components of distress, given the activity of the two directions and the share of softirq work\<close>
  "net_parts_of m rx_act tx_act share s =
     (let fifo_half = half_of (nm_fifo_half m); softnet_half = half_of (nm_softnet_half m); drop_half = half_of (nm_drop_half m);
          rx_hw_ratio = diff_rate 3 1 (ni_rx_hist s); soft_drop_ratio = diff_rate 3 1 (ni_soft_hist s);
          squeeze_sat = saturate (diff_rate 2 1 (ni_soft_hist s)) softnet_half;
          softdrop_sat = saturate soft_drop_ratio softnet_half;
          c_drop = rx_act * nm_rx_drop_weight m * saturate (diff_rate 2 1 (ni_rx_hist s)) rx_drop_half;
          c_hw = rx_act * saturate rx_hw_ratio fifo_half;
          c_squeeze = rx_act * share * softnet_squeeze_weight * squeeze_sat;
          c_softdrop = rx_act * share * softdrop_sat;
          t_drop = tx_act * saturate (diff_rate 2 1 (ni_tx_hist s)) drop_half;
          t_fifo = tx_act * saturate (diff_rate 3 1 (ni_tx_hist s)) fifo_half
      in \<lparr>np_rx_drop = c_drop, np_rx_hw = c_hw, np_rx_squeeze = c_squeeze, np_rx_softdrop = c_softdrop,
          np_tx_drop = t_drop, np_tx_fifo = t_fifo, np_rx_collective = noisy_or [c_hw, c_squeeze, c_softdrop],
          np_tx_collective = t_fifo,
          np_rx_exhausted = (rx_hw_ratio \<ge> fifo_half \<or> soft_drop_ratio \<ge> softnet_half),
          np_softirq_harm = noisy_or [squeeze_sat, softdrop_sat]\<rparr>)"

fun instant_distress :: "net_parts \<Rightarrow> dir \<Rightarrow> real" where
  "instant_distress p Rx = noisy_or [np_rx_drop p, np_rx_hw p, np_rx_squeeze p, np_rx_softdrop p]"
| "instant_distress p Tx = noisy_or [np_tx_drop p, np_tx_fifo p]"

definition cool :: "net_model \<Rightarrow> real \<Rightarrow> real \<Rightarrow> real \<Rightarrow> real" where
  \<comment> \<open>the capacitor: the held distress, or the instant one when that is larger\<close>
  "cool m dt held instant = max (held * clamp 0 1 (nm_decay_rate m) powr dt) instant"

definition val0 :: "real option \<Rightarrow> real" where
  "val0 x = (case x of None \<Rightarrow> 0 | Some v \<Rightarrow> v)"

definition fused_score :: "net_model \<Rightarrow> real \<Rightarrow> real \<Rightarrow> real" where
  "fused_score m base_load distress = py_round 6 (noisy_or [net_sigmoid base_load (nm_util_sat_half m) (nm_util_sat_k m), distress])"

definition update_pressure ::
  "pyval \<Rightarrow> real \<Rightarrow> real \<Rightarrow> real \<Rightarrow> nic_counters \<Rightarrow> softnet \<Rightarrow> nic_mon \<Rightarrow> (real \<times> real) option \<times> nic_mon" where
  "update_pressure cfg cores max_kbit now c sn s =
     (case ni_last s of
        None \<Rightarrow> (None, add_histories now c sn (s\<lparr>ni_last := Some (c, sn, now)\<rparr>))
      | Some (p, last_sn, last_time) \<Rightarrow>
          (let dt = now - last_time
           in if dt \<le> 0 then (Some (ni_score s Rx, ni_score s Tx), s)
              else
                let m = net_model_of cfg;
                    eff = eff_max_pps m cores max_kbit;
                    bw = (\<lambda>d. ema_step (ni_ema_bw s d) (bw_util max_kbit dt c p d) (nm_ema_alpha m) dt);
                    pps = (\<lambda>d. ema_step (ni_ema_pps s d) (pps_util eff dt c p d) (nm_ema_alpha m) dt);
                    s1 = add_histories now c sn s;
                    parts = net_parts_of m (activity m dt c p Rx) (activity m dt c p Tx) (softnet_share c p sn last_sn) s1;
                    distress = (\<lambda>d. cool m dt (ni_distress s d) (instant_distress parts d));
                    score = (\<lambda>d. fused_score m (max (bw d) (pps d)) (distress d))
                in (Some (score Rx, score Tx),
                    s1\<lparr>ni_last := Some (c, sn, now), ni_ema_bw := (\<lambda>d. Some (bw d)), ni_ema_pps := (\<lambda>d. Some (pps d)),
                       ni_parts := parts, ni_distress := distress, ni_score := score\<rparr>)))"

subsection \<open>Levels\<close>

definition update_network_pressure_level :: "thresholds \<Rightarrow> nic_mon \<Rightarrow> level \<times> level" where
  \<comment> \<open>of \<open>tx\<close> and of \<open>rx\<close>\<close>
  "update_network_pressure_level thr s =
     (let tx = get_pressure_level (ni_score s Tx) thr; rx = get_pressure_level (ni_score s Rx) thr
      in (tx, if rx = Critical \<and> \<not> np_rx_exhausted (ni_parts s) then High else rx))"

subsection \<open>The published snapshot\<close>

record nic_snap =
  sp_rx :: real
  sp_tx :: real
  sp_exhausted :: bool

definition snap_of :: "nic_mon \<Rightarrow> nic_snap" where
  "snap_of s = \<lparr>sp_rx = min 1 (max 0 (ni_score s Rx)), sp_tx = min 1 (max 0 (ni_score s Tx)), sp_exhausted = np_rx_exhausted (ni_parts s)\<rparr>"

definition publish_snapshot :: "(string \<times> nic_mon) list \<Rightarrow> (string \<times> nic_snap) list" where
  \<comment> \<open>\<open>publish_network_pressure_snapshot\<close>: the new table replaces the old one\<close>
  "publish_snapshot mons = map (\<lambda>(name, s). (name, snap_of s)) mons"

definition snap_level :: "thresholds \<Rightarrow> real \<Rightarrow> bool \<Rightarrow> ui_level" where
  \<comment> \<open>\<open>_network_pressure_level\<close>\<close>
  "snap_level thr score critical_eligible =
     (if critical_eligible \<and> score \<ge> dget thr Critical (9/10) then UiCritical
      else if score \<ge> dget thr High (7/10) then UiHigh
      else if score \<ge> dget thr Medium (1/2) then UiMedium else UiLow)"

fun dir_name :: "dir \<Rightarrow> string" where
  "dir_name Rx = ''RX''"
| "dir_name Tx = ''TX''"

definition nic_row :: "thresholds \<Rightarrow> string \<times> nic_snap \<Rightarrow> real \<times> string \<times> string" where
  \<comment> \<open>the body of the loop of \<open>_compute_fused_network_pressure\<close>: an \<open>rx\<close> score short of exhaustion stays below critical\<close>
  "nic_row thr ns =
     (case ns of (name, p) \<Rightarrow>
        (let rx_score = (if sp_exhausted p then sp_rx p else min (sp_rx p) (max 0 (dget thr Critical (9/10) - 1 / 1000000)))
         in (max rx_score (sp_tx p), name, dir_name (if rx_score > sp_tx p then Rx else Tx))))"

record net_gauge =
  ga_busy_nics :: "string list"
  ga_total_nics :: nat
  ga_busy_ratio :: "real option"
  ga_busy_pct :: "real option"
  ga_level :: ui_level
  ga_pressure_pct :: "real option"
  ga_worst :: "(string \<times> string) option"

definition sort_rows :: "(real \<times> string \<times> string) list \<Rightarrow> (real \<times> string \<times> string) list" where
  "sort_rows = sort_key (\<lambda>row. (- fst row, snd row))"

definition compute_fused :: "thresholds \<Rightarrow> (string \<times> nic_snap) list \<Rightarrow> net_gauge" where
  \<comment> \<open>\<open>_compute_fused_network_pressure\<close>\<close>
  "compute_fused thr interfaces =
     (if interfaces = [] then
        \<lparr>ga_busy_nics = [], ga_total_nics = 0, ga_busy_ratio = None, ga_busy_pct = None, ga_level = NoData,
         ga_pressure_pct = None, ga_worst = None\<rparr>
      else
        let medium = dget thr Medium (1/2);
            per_nic = sort_rows (map (nic_row thr) interfaces);
            worst = hd per_nic;
            busy = map (fst \<circ> snd) (filter (\<lambda>row. fst row \<ge> medium) per_nic);
            n = length per_nic;
            ratio = real (length busy) / real n
        in \<lparr>ga_busy_nics = busy, ga_total_nics = n, ga_busy_ratio = Some (py_round 4 ratio),
            ga_busy_pct = Some (py_round 2 (ratio * 100)), ga_level = snap_level thr (fst worst) True,
            ga_pressure_pct = Some (py_round 2 (fst worst * 100)), ga_worst = Some (snd worst)\<rparr>)"

definition snap_pct :: "pyval \<Rightarrow> real" where
  \<comment> \<open>\<open>_pct\<close> of a field\<close>
  "snap_pct v = py_round 4 (min 1 (max 0 (strict_num v 0)) * 100)"

definition loss_pct :: "real \<Rightarrow> pyval \<Rightarrow> pyval \<Rightarrow> real" where
  \<comment> \<open>\<open>_loss_pct\<close>: a ratio and the packet rate it was measured at; an absent rate trusts the ratio\<close>
  "loss_pct min_pps ratio pps =
     (if as_number ratio \<noteq> None \<and> \<not> is_bool ratio \<and> strict_num ratio 0 \<le> 0 then 0
      else if pps = PNone then snap_pct ratio
      else if as_number pps = None \<or> is_bool pps \<or> strict_num pps 0 < min_pps then 0
      else snap_pct ratio)"

definition card_levels :: "thresholds \<Rightarrow> nic_snap \<Rightarrow> ui_level \<times> ui_level" where
  \<comment> \<open>the \<open>level\<close> of \<open>rx\<close> and of \<open>tx\<close> in \<open>_build_network_interface_pressure\<close>\<close>
  "card_levels thr p = (snap_level thr (sp_rx p) (sp_exhausted p), snap_level thr (sp_tx p) True)"

subsection \<open>Runs\<close>

type_synonym sample = "pyval \<times> real \<times> real \<times> real \<times> nic_counters \<times> softnet"

fun net_run :: "sample list \<Rightarrow> nic_mon \<Rightarrow> nic_mon" where
  \<comment> \<open>the samples one after the other, each with the configuration, cores, bandwidth and clock of its moment\<close>
  "net_run [] s = s"
| "net_run ((cfg, cores, kbit, now, c, sn) # rest) s = net_run rest (snd (update_pressure cfg cores kbit now c sn s))"

definition unit :: "real \<Rightarrow> bool" where
  "unit x \<longleftrightarrow> 0 \<le> x \<and> x \<le> 1"

definition net_ok :: "nic_mon \<Rightarrow> bool" where
  "net_ok s \<longleftrightarrow> (\<forall>d. unit (ni_score s d) \<and> unit (ni_distress s d) \<and> (\<forall>v. ni_ema_bw s d = Some v \<longrightarrow> unit v)
     \<and> (\<forall>v. ni_ema_pps s d = Some v \<longrightarrow> unit v))"

subsection \<open>Bounds\<close>

lemma unit_simps [simp]: "unit 0" "unit 1"
  by (simp_all add: unit_def)

lemma unit_mult: "unit x \<Longrightarrow> unit y \<Longrightarrow> unit (x * y)"
  by (auto simp: unit_def mult_le_one)

lemma unit_compl: "unit x \<Longrightarrow> unit (1 - x)"
  by (simp add: unit_def)

lemma unit_clamp: "unit (clamp 0 1 x)"
  by (simp add: unit_def)

lemma unit_max: "unit x \<Longrightarrow> unit y \<Longrightarrow> unit (max x y)"
  by (auto simp: unit_def)

lemma unit_powr: "unit x \<Longrightarrow> 0 \<le> t \<Longrightarrow> unit (x powr t)"
  by (auto simp: unit_def intro: powr_le_one_le powr_le1)

lemma unit_mix:
  assumes "unit a" "unit x" "unit y" shows "unit (a * x + (1 - a) * y)"
proof -
  have "a * x + (1 - a) * y \<le> a * 1 + (1 - a) * 1"
    using assms by (intro add_mono mult_left_mono) (auto simp: unit_def)
  with assms show ?thesis by (auto simp: unit_def intro!: add_nonneg_nonneg mult_nonneg_nonneg)
qed

lemma unit_noisy_or: "unit (noisy_or vs)"
proof -
  have "unit (prod_list (map (\<lambda>v. 1 - clamp 0 1 v) vs))"
    by (induction vs) (auto intro: unit_mult unit_compl unit_clamp)
  then show ?thesis unfolding noisy_or_def by (rule unit_compl)
qed

lemma noisy_or_ge: "v \<in> set vs \<Longrightarrow> clamp 0 1 v \<le> noisy_or vs"
proof -
  assume "v \<in> set vs"
  moreover have "unit (prod_list (map (\<lambda>v. 1 - clamp 0 1 v) us))" for us
    using unit_compl [OF unit_noisy_or [of us]] by (simp add: noisy_or_def)
  ultimately have "prod_list (map (\<lambda>v. 1 - clamp 0 1 v) vs) \<le> 1 - clamp 0 1 v"
  proof (induction vs)
    case (Cons u us)
    let ?p = "prod_list (map (\<lambda>v. 1 - clamp 0 1 v) us)"
    have p: "0 \<le> ?p" "?p \<le> 1" using Cons.prems(2) [of us] by (simp_all add: unit_def)
    have u: "0 \<le> 1 - clamp 0 1 u" "1 - clamp 0 1 u \<le> 1" by simp_all
    show ?case
    proof (cases "v = u")
      case True
      then show ?thesis using mult_left_mono [OF p(2) u(1)] by simp
    next
      case False
      with Cons have "?p \<le> 1 - clamp 0 1 v" by simp
      with mult_right_mono [OF u(2) p(1)] show ?thesis by simp
    qed
  qed simp
  then show ?thesis by (simp add: noisy_or_def)
qed

lemma unit_saturate: "0 < h \<Longrightarrow> unit (saturate r h)"
  by (simp add: unit_def saturate_def)

lemma unit_sigmoid: "unit (net_sigmoid x h k)"
  by (simp add: unit_def net_sigmoid_def Let_def)

lemma unit_round: "unit x \<Longrightarrow> unit (py_round n x)"
  by (auto simp: unit_def intro: py_round_unit)

lemma unit_fused: "unit (fused_score m b d)"
  unfolding fused_score_def by (intro unit_round unit_noisy_or)

lemma unit_ema_step:
  assumes "\<And>p. prev = Some p \<Longrightarrow> unit p" "unit x" "0 < dt"
  shows "unit (ema_step prev x alpha dt)"
proof (cases prev)
  case (Some p)
  let ?a = "1 - (1 - clamp 0 1 alpha) powr dt"
  have "unit ?a"
    using assms(3) by (intro unit_compl unit_powr unit_clamp) simp
  then have "unit (?a * x + (1 - ?a) * p)"
    using assms Some by (intro unit_mix) auto
  with Some show ?thesis by (simp add: ema_step_def Let_def)
qed (use assms in \<open>simp add: ema_step_def\<close>)

lemma unit_instant: "unit (instant_distress p d)"
  by (cases d) (simp_all add: unit_noisy_or)

lemma unit_cool:
  assumes "unit held" "unit i" "0 < dt" shows "unit (cool m dt held i)"
  unfolding cool_def using assms by (intro unit_max unit_mult unit_powr unit_clamp) simp_all

lemma unit_bw: "unit (bw_util k dt c p d)" and unit_pps: "unit (pps_util e dt c p d)"
  by (simp_all add: bw_util_def pps_util_def unit_clamp)

lemma add_histories_same [simp]:
  "ni_score (add_histories now c sn s) = ni_score s" "ni_distress (add_histories now c sn s) = ni_distress s"
  "ni_ema_bw (add_histories now c sn s) = ni_ema_bw s" "ni_ema_pps (add_histories now c sn s) = ni_ema_pps s"
  "ni_last (add_histories now c sn s) = ni_last s" "ni_parts (add_histories now c sn s) = ni_parts s"
  by (simp_all add: add_histories_def)

lemma update_cases:
  obtains (seed) "ni_last s = None"
      "update_pressure cfg cores kbit now c sn s = (None, add_histories now c sn (s\<lparr>ni_last := Some (c, sn, now)\<rparr>))"
    | (still) p l t where "ni_last s = Some (p, l, t)" "now \<le> t"
      "update_pressure cfg cores kbit now c sn s = (Some (ni_score s Rx, ni_score s Tx), s)"
    | (sampled) p l t s' parts where "ni_last s = Some (p, l, t)" "t < now"
      "update_pressure cfg cores kbit now c sn s = (Some (ni_score s' Rx, ni_score s' Tx), s')"
      "parts = net_parts_of (net_model_of cfg) (activity (net_model_of cfg) (now - t) c p Rx)
         (activity (net_model_of cfg) (now - t) c p Tx) (softnet_share c p sn l) (add_histories now c sn s)"
      "ni_last s' = Some (c, sn, now)" "ni_parts s' = parts"
      "\<And>d. ni_ema_bw s' d = Some (ema_step (ni_ema_bw s d) (bw_util kbit (now - t) c p d) (nm_ema_alpha (net_model_of cfg)) (now - t))"
      "\<And>d. ni_ema_pps s' d = Some (ema_step (ni_ema_pps s d)
         (pps_util (eff_max_pps (net_model_of cfg) cores kbit) (now - t) c p d) (nm_ema_alpha (net_model_of cfg)) (now - t))"
      "\<And>d. ni_distress s' d = cool (net_model_of cfg) (now - t) (ni_distress s d) (instant_distress parts d)"
      "\<And>d. ni_score s' d = fused_score (net_model_of cfg) (max (val0 (ni_ema_bw s' d)) (val0 (ni_ema_pps s' d))) (ni_distress s' d)"
proof (cases "ni_last s")
  case None
  then show ?thesis by (intro seed) (simp_all add: update_pressure_def)
next
  case (Some x)
  obtain p l t where x: "x = (p, l, t)" by (cases x)
  show ?thesis
  proof (cases "now \<le> t")
    case True
    with Some x show ?thesis by (intro still) (simp_all add: update_pressure_def)
  next
    case False
    with Some x show ?thesis
      by (intro sampled [where p = p and l = l and t = t and s' = "snd (update_pressure cfg cores kbit now c sn s)"])
        (simp_all add: update_pressure_def Let_def val0_def)
  qed
qed

lemma net_ok_init: "net_ok nic_mon_init"
  by (simp add: net_ok_def nic_mon_init_def)

lemma net_ok_update:
  assumes "net_ok s" shows "net_ok (snd (update_pressure cfg cores kbit now c sn s))"
proof (cases rule: update_cases [of s cfg cores kbit now c sn])
  case seed
  with assms show ?thesis by (simp add: net_ok_def)
next
  case (still p l t)
  with assms show ?thesis by simp
next
  case (sampled p l t s' parts)
  have dt: "0 < now - t" using sampled(2) by simp
  have "unit (ema_step (ni_ema_bw s d) (bw_util kbit (now - t) c p d) (nm_ema_alpha (net_model_of cfg)) (now - t))" for d
    using assms by (intro unit_ema_step unit_bw dt) (auto simp: net_ok_def)
  moreover have "unit (ema_step (ni_ema_pps s d) (pps_util (eff_max_pps (net_model_of cfg) cores kbit) (now - t) c p d)
      (nm_ema_alpha (net_model_of cfg)) (now - t))" for d
    using assms by (intro unit_ema_step unit_pps dt) (auto simp: net_ok_def)
  moreover have "unit (cool (net_model_of cfg) (now - t) (ni_distress s d) (instant_distress parts d))" for d
    using assms by (intro unit_cool unit_instant dt) (auto simp: net_ok_def)
  ultimately show ?thesis using sampled by (simp add: net_ok_def unit_fused)
qed

lemma net_ok_run: "net_ok s \<Longrightarrow> net_ok (net_run es s)"
  by (induction es s rule: net_run.induct) (auto intro: net_ok_update)

subsection \<open>Properties\<close>

text \<open>Whatever the configuration, the counters and the clock report, after any number of samples both scores,
  both held distresses and the smoothed utilisations of a NIC lie in the unit interval; a sample that is taken after
  the seeding one scores a direction at least as high as its distress (up to the rounding to six decimals), so heavy
  loss is never hidden by low utilisation.\<close>
theorem network_scores_bounded:
  "(\<forall>d. 0 \<le> ni_score (net_run es nic_mon_init) d \<and> ni_score (net_run es nic_mon_init) d \<le> 1
      \<and> 0 \<le> ni_distress (net_run es nic_mon_init) d \<and> ni_distress (net_run es nic_mon_init) d \<le> 1)
   \<and> py_round 6 (clamp 0 1 distress) \<le> fused_score m load distress
   \<and> py_round 6 (net_sigmoid load (nm_util_sat_half m) (nm_util_sat_k m)) \<le> fused_score m load distress"
proof (intro conjI allI)
  have ok: "net_ok (net_run es nic_mon_init)" by (intro net_ok_run net_ok_init)
  fix d
  show "0 \<le> ni_score (net_run es nic_mon_init) d" "ni_score (net_run es nic_mon_init) d \<le> 1"
    "0 \<le> ni_distress (net_run es nic_mon_init) d" "ni_distress (net_run es nic_mon_init) d \<le> 1"
    using ok by (simp_all add: net_ok_def unit_def)
next
  show "py_round 6 (clamp 0 1 distress) \<le> fused_score m load distress"
    unfolding fused_score_def by (intro py_round_mono noisy_or_ge) simp
next
  have "clamp 0 1 (net_sigmoid load (nm_util_sat_half m) (nm_util_sat_k m)) = net_sigmoid load (nm_util_sat_half m) (nm_util_sat_k m)"
    using unit_sigmoid by (intro clamp_id) (simp_all add: unit_def)
  then show "py_round 6 (net_sigmoid load (nm_util_sat_half m) (nm_util_sat_k m)) \<le> fused_score m load distress"
    unfolding fused_score_def by (metis py_round_mono noisy_or_ge list.set_intros(1))
qed

subsubsection \<open>Cooling\<close>

fun cool_run :: "pyval \<Rightarrow> (real \<times> nic_counters \<times> softnet \<times> real \<times> real) list \<Rightarrow> nic_mon \<Rightarrow> nic_mon" where
  "cool_run cfg es s = net_run (map (\<lambda>(now, c, sn, cores, kbit). (cfg, cores, kbit, now, c, sn)) es) s"

fun quiet_from :: "dir \<Rightarrow> real \<Rightarrow> int \<Rightarrow> (real \<times> nic_counters \<times> softnet \<times> real \<times> real) list \<Rightarrow> bool" where
  \<comment> \<open>from the time \<open>t\<close> on the clock advances and the packet counter of \<open>d\<close> stays at \<open>n\<close>\<close>
  "quiet_from d t n [] = True"
| "quiet_from d t n ((now, c, sn, cores, kbit) # es) = (t < now \<and> nc_packets c d = n \<and> quiet_from d now n es)"

fun end_time :: "real \<Rightarrow> (real \<times> nic_counters \<times> softnet \<times> real \<times> real) list \<Rightarrow> real" where
  "end_time t [] = t"
| "end_time t ((now, c, sn, cores, kbit) # es) = end_time now es"

lemma saturate_nonneg: "0 < h \<Longrightarrow> 0 \<le> saturate r h"
  using unit_saturate unfolding unit_def by blast

lemma instant_zero_act:
  "instant_distress (net_parts_of m 0 ta sh s) Rx = 0" "instant_distress (net_parts_of m ra 0 sh s) Tx = 0"
  by (simp_all add: net_parts_of_def Let_def noisy_or_def clamp_def)

lemma activity_quiet: "nc_packets c d = nc_packets p d \<Longrightarrow> activity m dt c p d = 0"
  by (simp add: activity_def grown_def clamp_def)

lemma cool_quiet: "unit held \<Longrightarrow> 0 < dt \<Longrightarrow> cool m dt held 0 = held * clamp 0 1 (nm_decay_rate m) powr dt"
  by (simp add: cool_def unit_def)

lemma cool_update:
  assumes "net_ok s" "ni_last s = Some (p, l, t)" "t < now" "nc_packets c d = nc_packets p d"
  shows "ni_distress (snd (update_pressure cfg cores kbit now c sn s)) d
      = ni_distress s d * clamp 0 1 (nm_decay_rate (net_model_of cfg)) powr (now - t)"
    "ni_last (snd (update_pressure cfg cores kbit now c sn s)) = Some (c, sn, now)"
proof -
  from assms(2,3) have
    l: "ni_last (snd (update_pressure cfg cores kbit now c sn s)) = Some (c, sn, now)" and
    di: "ni_distress (snd (update_pressure cfg cores kbit now c sn s)) d = cool (net_model_of cfg) (now - t) (ni_distress s d)
       (instant_distress (net_parts_of (net_model_of cfg) (activity (net_model_of cfg) (now - t) c p Rx)
         (activity (net_model_of cfg) (now - t) c p Tx) (softnet_share c p sn l) (add_histories now c sn s)) d)"
    by (cases rule: update_cases [of s cfg cores kbit now c sn]; simp)+
  from assms(4) have z: "instant_distress (net_parts_of (net_model_of cfg) (activity (net_model_of cfg) (now - t) c p Rx)
         (activity (net_model_of cfg) (now - t) c p Tx) (softnet_share c p sn l) (add_histories now c sn s)) d = 0"
    by (cases d) (simp_all add: activity_quiet instant_zero_act del: instant_distress.simps)
  have "unit (ni_distress s d)" "0 < now - t" using assms by (simp_all add: net_ok_def)
  from cool_quiet [OF this] di z l show
    "ni_distress (snd (update_pressure cfg cores kbit now c sn s)) d
      = ni_distress s d * clamp 0 1 (nm_decay_rate (net_model_of cfg)) powr (now - t)"
    "ni_last (snd (update_pressure cfg cores kbit now c sn s)) = Some (c, sn, now)"
    by simp_all
qed

lemma cool_run_decays:
  assumes "net_ok s" "ni_last s = Some (p, l, t)" "quiet_from d t (nc_packets p d) es"
  shows "ni_distress (cool_run cfg es s) d
      = ni_distress s d * clamp 0 1 (nm_decay_rate (net_model_of cfg)) powr (end_time t es - t)
    \<or> es = [] \<and> cool_run cfg es s = s"
  using assms
proof (induction es arbitrary: s p l t)
  case (Cons e es)
  obtain now c sn cores kbit where e: "e = (now, c, sn, cores, kbit)" by (cases e)
  from Cons.prems(3) e have q: "t < now" "nc_packets c d = nc_packets p d" "quiet_from d now (nc_packets c d) es" by auto
  let ?s = "snd (update_pressure cfg cores kbit now c sn s)" and ?b = "clamp 0 1 (nm_decay_rate (net_model_of cfg))"
  have st: "ni_distress ?s d = ni_distress s d * ?b powr (now - t)" "ni_last ?s = Some (c, sn, now)"
    using cool_update [OF Cons.prems(1,2) q(1,2)] by blast+
  have run: "cool_run cfg (e # es) s = cool_run cfg es ?s" by (simp add: e)
  from Cons.IH [OF net_ok_update [OF Cons.prems(1)] st(2) q(3)] show ?case
  proof (elim disjE conjE)
    assume "ni_distress (cool_run cfg es ?s) d = ni_distress ?s d * ?b powr (end_time now es - now)"
    moreover have "?b powr (now - t) * ?b powr (end_time now es - now) = ?b powr (end_time now es - t)"
      by (simp flip: powr_add)
    ultimately show ?thesis unfolding run st(1) by (simp add: e mult.assoc)
  next
    assume "es = []" "cool_run cfg es ?s = ?s"
    then show ?thesis unfolding run using st(1) by (simp add: e)
  qed
qed simp

lemma last_after:
  assumes "ni_last s = None \<or> (\<exists>p l t. ni_last s = Some (p, l, t) \<and> t < now)"
  shows "ni_last (snd (update_pressure cfg cores kbit now c sn s)) = Some (c, sn, now)"
  using assms by (cases rule: update_cases [of s cfg cores kbit now c sn]) auto

text \<open>Once a direction carries no more packets, its distress falls by the configured rate per second,
  whatever the cadence of the samples: after any sequence of samples it is the held value times the rate to the
  power of the elapsed seconds.\<close>
theorem idle_distress_decays:
  assumes "ni_last (net_run past nic_mon_init) = Some (p, l, t)" "quiet_from d t (nc_packets p d) es" "es \<noteq> []"
  shows "ni_distress (cool_run cfg es (net_run past nic_mon_init)) d
    = ni_distress (net_run past nic_mon_init) d * clamp 0 1 (nm_decay_rate (net_model_of cfg)) powr (end_time t es - t)"
  using cool_run_decays [OF net_ok_run [OF net_ok_init] assms(1,2)] assms(3) by blast

definition demo_counters :: "int \<Rightarrow> int \<Rightarrow> nic_counters" where
  "demo_counters n drops = \<lparr>nc_bytes = (\<lambda>d. 100 * n), nc_packets = (\<lambda>d. n), nc_dropped = (\<lambda>d. drops), nc_fifo = (\<lambda>d. 0), nc_rx_missed = 0, nc_rx_over = 0\<rparr>"

definition demo_softnet :: softnet where
  "demo_softnet = \<lparr>sn_processed = 0, sn_squeezed = 0, sn_dropped = 0\<rparr>"

definition demo_past :: "sample list" where
  "demo_past = [(PNone, 4, 1000000, 1, demo_counters 0 0, demo_softnet), (PNone, 4, 1000000, 2, demo_counters 5000 100, demo_softnet)]"

lemma idle_distress_decays_witness:
  "ni_distress (cool_run PNone [(3, demo_counters 5000 100, demo_softnet, 4, 1000000), (5, demo_counters 5000 100, demo_softnet, 4, 1000000)]
      (net_run demo_past nic_mon_init)) Tx = ni_distress (net_run demo_past nic_mon_init) Tx * (7/10) powr 3"
proof -
  have i: "ni_last nic_mon_init = None" by (simp add: nic_mon_init_def)
  have a: "ni_last (snd (update_pressure PNone 4 1000000 1 (demo_counters 0 0) demo_softnet nic_mon_init)) = Some (demo_counters 0 0, demo_softnet, 1)"
    by (rule last_after) (simp add: i)
  have b: "ni_last (net_run demo_past nic_mon_init) = Some (demo_counters 5000 100, demo_softnet, 2)"
    unfolding demo_past_def net_run.simps by (rule last_after) (simp add: a)
  have r: "clamp 0 1 (nm_decay_rate (net_model_of PNone)) = 7/10"
    by (simp add: net_model_of_def strict_num_def num_or_def clamp_def)
  show ?thesis
    using idle_distress_decays [OF b, where d = Tx and cfg = PNone
      and es = "[(3, demo_counters 5000 100, demo_softnet, 4, 1000000), (5, demo_counters 5000 100, demo_softnet, 4, 1000000)]"]
    by (simp add: r demo_counters_def del: cool_run.simps)
qed

subsubsection \<open>Load\<close>

lemma exp_pow_ge: "0 \<le> x \<Longrightarrow> 0 < k \<Longrightarrow> (1 + x / real k) ^ k \<le> exp x"
proof -
  assume "0 \<le> x" "0 < k"
  then have "(1 + x / real k) ^ k \<le> exp (x / real k) ^ k"
    by (intro power_mono exp_ge_add_one_self) simp
  also have "\<dots> = exp x" using \<open>0 < k\<close> by (simp flip: exp_of_nat_mult)
  finally show ?thesis .
qed

lemma net_sigmoid_mono: "0 \<le> k \<Longrightarrow> x \<le> y \<Longrightarrow> net_sigmoid x h k \<le> net_sigmoid y h k"
proof -
  assume "0 \<le> k" "x \<le> y"
  then have "- k * (y - h) \<le> - k * (x - h)" by (simp add: mult_left_mono)
  then show ?thesis
    using logistic_antimono [of "- k * (y - h)" "- k * (x - h)"] by (auto simp: net_sigmoid_def Let_def)
qed

lemma default_gate_low: "net_sigmoid (9/10) (96/100) 120 \<le> 1 / 1000"
proof -
  have "(1 + (9/10) / real 20) ^ 20 \<le> exp (9/10)" by (rule exp_pow_ge) simp_all
  moreover have "(24/10::real) \<le> (1 + (9/10) / real 20) ^ 20" by (simp add: power_divide)
  ultimately have "24/10 \<le> exp (9/10 :: real)" by linarith
  then have "(24/10) ^ 8 \<le> exp (9/10 :: real) ^ 8" by (intro power_mono) simp_all
  moreover have "exp (9/10 :: real) ^ 8 = exp (72/10)" by (simp flip: exp_of_nat_mult)
  ultimately have "1000 \<le> exp (72/10 :: real)" by (simp add: power_divide)
  then show ?thesis by (simp add: net_sigmoid_def logistic_def divide_simps)
qed

lemma default_gate_high: "9 / 10 \<le> net_sigmoid (98/100) (96/100) 120"
proof -
  have "(1 + (24/10) / real 48) ^ 48 \<le> exp (24/10)" by (rule exp_pow_ge) simp_all
  moreover have "(9::real) \<le> (1 + (24/10) / real 48) ^ 48" by (simp add: power_divide)
  ultimately have "9 \<le> exp (24/10 :: real)" by linarith
  then have "9 / 10 \<le> logistic (- (24/10))" by (simp add: logistic_def exp_minus divide_simps)
  then show ?thesis by (simp add: net_sigmoid_def)
qed

text \<open>With the shipped model, load alone is no pressure until the link is nearly full: a clean NIC at up to 90%
  of its capacity scores at most 0.001, one at 98% or more at least 0.9.\<close>
theorem clean_busy_link_is_calm:
  "(load \<le> 9/10 \<longrightarrow> fused_score (net_model_of PNone) load 0 \<le> 1 / 1000)
   \<and> (98/100 \<le> load \<longrightarrow> 9/10 \<le> fused_score (net_model_of PNone) load 0)"
proof -
  have m: "nm_util_sat_half (net_model_of PNone) = 96/100" "nm_util_sat_k (net_model_of PNone) = 120"
    by (simp_all add: net_model_of_def strict_num_def num_or_def)
  have sc: "fused_score (net_model_of PNone) load 0 = py_round 6 (net_sigmoid load (96/100) 120)"
    using unit_sigmoid [of load "96/100" 120] by (simp add: fused_score_def m noisy_or_def clamp_def unit_def)
  have k: "py_round 6 (of_int i / 1000) = of_int i / 1000" for i
  proof -
    have eq: "of_int i / 1000 * 10 ^ 6 = (of_int (1000 * i) :: real)" by simp
    show ?thesis unfolding py_round_def eq round_half_even_of_int by simp
  qed
  have "load \<le> 9/10 \<Longrightarrow> fused_score (net_model_of PNone) load 0 \<le> 1 / 1000"
    unfolding sc using py_round_mono [of "net_sigmoid load (96/100) 120" "1/1000" 6] k [of 1]
      net_sigmoid_mono [of 120 load "9/10" "96/100"] default_gate_low by simp
  moreover have "98/100 \<le> load \<Longrightarrow> 9/10 \<le> fused_score (net_model_of PNone) load 0"
    unfolding sc using py_round_mono [of "9/10" "net_sigmoid load (96/100) 120" 6] k [of 900]
      net_sigmoid_mono [of 120 "98/100" load "96/100"] default_gate_high by simp
  ultimately show ?thesis by blast
qed

lemma clean_busy_link_is_calm_witness:
  "fused_score (net_model_of PNone) (1/2) 0 \<le> 1 / 1000 \<and> 9/10 \<le> fused_score (net_model_of PNone) 1 0"
  using clean_busy_link_is_calm [of "1/2"] clean_busy_link_is_calm [of 1] by simp

subsubsection \<open>The gauge\<close>

fun ui_rank :: "ui_level \<Rightarrow> nat" where
  "ui_rank NoData = 0"
| "ui_rank UiLow = 1"
| "ui_rank UiMedium = 2"
| "ui_rank UiHigh = 3"
| "ui_rank UiCritical = 4"

definition control_rank :: "thresholds \<Rightarrow> nic_mon \<Rightarrow> nat" where
  \<comment> \<open>the rank of the worse of the two levels the shaping acts on\<close>
  "control_rank thr s = (case update_network_pressure_level thr s of (tx, rx) \<Rightarrow> max (level_rank tx) (level_rank rx))"

lemma snap_rank_mono: "x \<le> y \<Longrightarrow> ui_rank (snap_level thr x True) \<le> ui_rank (snap_level thr y True)"
  by (auto simp: snap_level_def)

lemma snap_rank_max:
  "ui_rank (snap_level thr (max x y) True) = max (ui_rank (snap_level thr x True)) (ui_rank (snap_level thr y True))"
  using snap_rank_mono [of x y thr] snap_rank_mono [of y x thr] by (auto simp: max_def)

lemma hd_sort_rows:
  assumes "rows \<noteq> []"
  shows "hd (sort_rows rows) \<in> set rows \<and> (\<forall>r \<in> set rows. fst r \<le> fst (hd (sort_rows rows)))"
proof -
  let ?k = "\<lambda>row. (- fst row, snd row) :: real \<times> string \<times> string"
  obtain x xs where x: "sort_rows rows = x # xs"
    using assms by (cases "sort_rows rows") (auto simp: sort_rows_def dest: arg_cong [where f = set])
  then have st: "set (x # xs) = set rows" by (metis set_sort sort_rows_def)
  have "sorted (map ?k (sort_rows rows))" unfolding sort_rows_def by (rule sorted_sort_key)
  then have "sorted (map ?k (x # xs))" unfolding x .
  then have "\<forall>r \<in> set (x # xs). ?k x \<le> ?k r" by auto
  then have "\<forall>r \<in> set (x # xs). fst r \<le> fst x" by (auto simp: less_eq_prod_def)
  with st x show ?thesis by auto
qed

lemma control_rank_row:
  assumes "thr Medium = Some m" "thr High = Some h" "thr Critical = Some c" "0 \<le> m" "m \<le> h" "h + 1 / 1000000 \<le> c"
    and "net_ok s"
  shows "ui_rank (snap_level thr (fst (nic_row thr (name, snap_of s))) True) = control_rank thr s + 1"
proof -
  have u: "0 \<le> ni_score s Rx" "ni_score s Rx \<le> 1" "0 \<le> ni_score s Tx" "ni_score s Tx \<le> 1"
    using assms(7) by (simp_all add: net_ok_def unit_def)
  have tx: "ui_rank (snap_level thr (ni_score s Tx) True) = level_rank (get_pressure_level (ni_score s Tx) thr) + 1"
    using assms by (simp add: snap_level_def get_pressure_level_def)
  let ?rx = "if np_rx_exhausted (ni_parts s) then ni_score s Rx else min (ni_score s Rx) (max 0 (c - 1 / 1000000))"
  have rx: "ui_rank (snap_level thr ?rx True)
      = level_rank (if get_pressure_level (ni_score s Rx) thr = Critical \<and> \<not> np_rx_exhausted (ni_parts s) then High
          else get_pressure_level (ni_score s Rx) thr) + 1"
    using assms u by (auto simp: snap_level_def get_pressure_level_def min_def max_def)
  have row: "fst (nic_row thr (name, snap_of s)) = max ?rx (ni_score s Tx)"
    using u assms(3) by (simp add: nic_row_def snap_of_def Let_def)
  show ?thesis
    unfolding row snap_rank_max rx tx by (simp add: control_rank_def update_network_pressure_level_def Let_def)
qed

text \<open>The dashboard and the shaper judge alike: with the bands configured, the level of the System Overview gauge
  is the worst of the levels the shaping uses, over all published NICs and both directions, after any samples.\<close>
theorem gauge_is_worst_control_level:
  assumes "thr Medium = Some m" "thr High = Some h" "thr Critical = Some c" "0 \<le> m" "m \<le> h" "h + 1 / 1000000 \<le> c"
    and "runs \<noteq> []"
  shows "ui_rank (ga_level (compute_fused thr (publish_snapshot (map (\<lambda>(n, es). (n, net_run es nic_mon_init)) runs))))
    = Max ((\<lambda>(n, es). control_rank thr (net_run es nic_mon_init)) ` set runs) + 1"
proof -
  let ?rows = "map (nic_row thr) (publish_snapshot (map (\<lambda>(n, es). (n, net_run es nic_mon_init)) runs))"
  let ?w = "hd (sort_rows ?rows)" and ?C = "(\<lambda>(n, es). control_rank thr (net_run es nic_mon_init))"
  have row: "ui_rank (snap_level thr (fst (nic_row thr (n, snap_of (net_run es nic_mon_init)))) True) = ?C (n, es) + 1" for n es
    using control_rank_row [OF assms(1-6) net_ok_run [OF net_ok_init]] by simp
  have rows: "set ?rows = (\<lambda>(n, es). nic_row thr (n, snap_of (net_run es nic_mon_init))) ` set runs"
    by (auto simp: publish_snapshot_def image_iff split_beta)
  have ne: "?rows \<noteq> []" using assms(7) by (simp add: publish_snapshot_def)
  have w: "?w \<in> set ?rows" "\<forall>r \<in> set ?rows. fst r \<le> fst ?w" using hd_sort_rows [OF ne] by blast+
  from w(1) rows obtain n es where ne': "(n, es) \<in> set runs" "?w = nic_row thr (n, snap_of (net_run es nic_mon_init))"
    by auto
  have "Max (?C ` set runs) = ?C (n, es)"
  proof (rule Max_eqI)
    fix y assume "y \<in> ?C ` set runs"
    then obtain n' es' where y: "(n', es') \<in> set runs" "y = ?C (n', es')" by auto
    then have "nic_row thr (n', snap_of (net_run es' nic_mon_init)) \<in> set ?rows" unfolding rows by force
    with w(2) have "fst (nic_row thr (n', snap_of (net_run es' nic_mon_init))) \<le> fst ?w" by blast
    from snap_rank_mono [OF this, of thr] show "y \<le> ?C (n, es)" unfolding ne'(2) row y(2) by simp
  qed (use ne'(1) in force)+
  moreover have "ga_level (compute_fused thr (publish_snapshot (map (\<lambda>(n, es). (n, net_run es nic_mon_init)) runs)))
      = snap_level thr (fst ?w) True"
    using assms(7) by (simp add: compute_fused_def Let_def publish_snapshot_def)
  ultimately show ?thesis unfolding ne'(2) by (simp add: row)
qed

lemma gauge_is_worst_control_level_witness:
  "ui_rank (ga_level (compute_fused [Medium \<mapsto> 1/2, High \<mapsto> 7/10, Critical \<mapsto> 9/10]
      (publish_snapshot (map (\<lambda>(n, es). (n, net_run es nic_mon_init)) [(''eth0'', []), (''eth1'', demo_past)]))))
    = Max ((\<lambda>(n, es). control_rank [Medium \<mapsto> 1/2, High \<mapsto> 7/10, Critical \<mapsto> 9/10] (net_run es nic_mon_init))
        ` set [(''eth0'', []), (''eth1'', demo_past)]) + 1"
  by (rule gauge_is_worst_control_level [where m = "1/2" and h = "7/10" and c = "9/10"]) simp_all

end
