(* ===== verification/Net_Cycle.thy ===== *)
theory Net_Cycle
  imports Net_Control Net_Monitor
begin

text \<open>
  Traffic shaping, last part (\<open>balancer/controller/network.py\<close>): the interfaces that are monitored and shaped, the cycle
  the balancer runs (\<open>process_network_cycle\<close>) and its hot reload. Link speeds, counters, class byte counts and the
  configuration a reload would read come with each cycle.
\<close>

subsection \<open>The controlled interfaces\<close>

fun listed_specs :: "pyval list \<Rightarrow> string list \<Rightarrow> string list" where
  \<comment> \<open>the entries of \<open>network_interfaces\<close> that are dicts, named, not repeated and not disabled\<close>
  "listed_specs [] seen = []"
| "listed_specs (e # es) seen =
     (case (e, pget e ''name'') of
        (PDict kvs, PStr name) \<Rightarrow>
          (if name = [] \<or> name \<in> set seen then listed_specs es seen
           else if map_of kvs ''enabled'' \<noteq> None \<and> \<not> truthy (pget e ''enabled'') then listed_specs es seen
           else name # listed_specs es (name # seen))
      | _ \<Rightarrow> listed_specs es seen)"

definition resolve_nic_specs :: "pyval \<Rightarrow> bool \<Rightarrow> string list \<Rightarrow> string list" where
  "resolve_nic_specs nics enabled detected =
     (case nics of
        PList es \<Rightarrow> (let specs = listed_specs es [] in if specs \<noteq> [] \<or> enabled then specs else detected)
      | _ \<Rightarrow> detected)"

fun monitored :: "(string \<Rightarrow> bool) \<Rightarrow> (string \<Rightarrow> bool) \<Rightarrow> string list \<Rightarrow> string list \<Rightarrow> string list" where
  \<comment> \<open>\<open>_build_monitors\<close>: the interfaces that exist, are not enslaved and come for the first time\<close>
  "monitored present enslaved [] acc = []"
| "monitored present enslaved (i # is) acc =
     (if \<not> present i \<or> enslaved i \<or> i \<in> set acc then monitored present enslaved is acc
      else i # monitored present enslaved is (i # acc))"

definition detect_link_speed_kbit :: "string option \<Rightarrow> int" where
  \<comment> \<open>given the text of the \<open>speed\<close> file\<close>
  "detect_link_speed_kbit file =
     (case Option.bind file (\<lambda>t. py_int (strip t)) of None \<Rightarrow> 0 | Some mbit \<Rightarrow> if mbit > 0 then mbit * 1000 else 0)"

definition bandwidth_for :: "(string \<Rightarrow> string option) \<Rightarrow> (string \<times> int option) list \<Rightarrow> string \<Rightarrow> int" where
  \<comment> \<open>the inventory lists each NIC with its speed in Mbit/s when that is a number\<close>
  "bandwidth_for speed_file inventory iface =
     (let d = detect_link_speed_kbit (speed_file iface)
      in if d \<noteq> 0 then d
         else (case map_of inventory iface of Some (Some mbps) \<Rightarrow> if mbps > 0 then mbps * 1000 else 0 | _ \<Rightarrow> 0))"

definition base_handle_id :: nat where "base_handle_id = 50"

definition build_shapers :: "(string \<times> int) list \<Rightarrow> shaper list" where
  "build_shapers mons =
     map (\<lambda>(idx, (iface, bw)). new_shaper iface (''ifb'' @ show_nat idx) (base_handle_id + 2 * idx) bw)
       (enumerate 0 (filter (\<lambda>(iface, bw). bw > 0) mons))"

subsection \<open>The cycle\<close>

record net_conf =
  cf_cfg :: net_cfg
  cf_policy :: pps_policy
  cf_police :: bool
  cf_enabled :: bool
  cf_shaping :: bool
  cf_ports :: "nat list"
  cf_nics :: "(string \<times> int) list"

record net_daemon =
  nd_conf :: net_conf
  nd_ctl :: nctl
  nd_mons :: "(string \<times> int \<times> nic_mon) list"
  nd_hist :: "string \<Rightarrow> classid \<Rightarrow> history"
  nd_host :: rx_host
  nd_kernel :: tc_kernel
  nd_snapshot :: "(string \<times> nic_snap) list"
  nd_reload :: bool

record cycle_in =
  ci_now :: real
  ci_eval :: bool
  ci_conf :: net_conf
  ci_model :: pyval
  ci_cores :: real
  ci_read :: "string \<Rightarrow> nic_counters \<times> softnet"
  ci_apps :: "net_app list"
  ci_usage :: "string \<Rightarrow> classid \<Rightarrow> int option"
  ci_thr :: thresholds
  ci_counts :: "int \<Rightarrow> int option"
  ci_uname :: "(nat \<times> nat) option"
  ci_ncpu :: nat
  ci_queues :: "string \<Rightarrow> string list"

definition load_conf :: "net_conf \<Rightarrow> net_daemon \<Rightarrow> net_daemon" where
  \<comment> \<open>the configuration is read, the NICs are detected, monitors and shapers are built\<close>
  "load_conf conf s =
     (let mons = map (\<lambda>(i, bw). (i, bw, nic_mon_init)) (cf_nics conf)
      in s\<lparr>nd_conf := (if mons = [] then conf\<lparr>cf_enabled := False\<rparr> else conf), nd_mons := mons, nd_hist := (\<lambda>d c. []),
           nd_ctl := (nctl_init (build_shapers (cf_nics conf)))\<lparr>nt_esc := nt_esc (nd_ctl s)\<rparr>\<rparr>)"

definition run_cmds :: "net_cmd list \<Rightarrow> net_daemon \<Rightarrow> net_daemon" where
  "run_cmds cs s = s\<lparr>nd_kernel := tc_run cs (nd_kernel s)\<rparr>"

definition setup_daemon :: "net_daemon \<Rightarrow> net_daemon" where
  "setup_daemon s =
     run_cmds (setup_tc_classes_and_filters (cf_enabled (nd_conf s)) (cf_cfg (nd_conf s)) (cf_ports (nd_conf s)) (nt_shapers (nd_ctl s))) s"

definition net_reload :: "net_conf \<Rightarrow> net_daemon \<Rightarrow> net_daemon" where
  "net_reload conf s =
     (let s1 = load_conf conf (run_cmds (teardown_all (nd_ctl s)) s)
      in if nd_mons s1 = [] \<or> nt_shapers (nd_ctl s1) = [] then s1 else setup_daemon s1)"

definition net_start :: "net_conf \<Rightarrow> tc_kernel \<Rightarrow> rx_host \<Rightarrow> net_daemon" where
  \<comment> \<open>the constructor, and the setup the balancer runs after it\<close>
  "net_start conf k h =
     setup_daemon (load_conf conf \<lparr>nd_conf = conf, nd_ctl = nctl_init [], nd_mons = [], nd_hist = (\<lambda>d c. []), nd_host = h,
       nd_kernel = k, nd_snapshot = [], nd_reload = False\<rparr>)"

definition sample_all :: "cycle_in \<Rightarrow> net_daemon \<Rightarrow> net_daemon" where
  "sample_all ci s =
     (let mons = map (\<lambda>(i, bw, m). (i, bw, case ci_read ci i of (c, sn) \<Rightarrow>
            snd (update_pressure (ci_model ci) (ci_cores ci) (of_int bw) (ci_now ci) c sn m))) (nd_mons s)
      in s\<lparr>nd_mons := mons, nd_snapshot := publish_snapshot (map (\<lambda>(i, bw, m). (i, m)) mons)\<rparr>)"

definition current_data :: "nic_mon \<Rightarrow> net_data" where
  \<comment> \<open>the fields of \<open>get_current_pressure\<close> the controller uses\<close>
  "current_data m =
     \<lparr>da_tx = ni_score m Tx, da_rx = ni_score m Rx, da_tx_harm = py_round 6 (np_tx_collective (ni_parts m)),
      da_rx_harm = py_round 6 (np_rx_collective (ni_parts m)), da_softirq_harm = py_round 6 (np_softirq_harm (ni_parts m))\<rparr>"

definition note_usage :: "cycle_in \<Rightarrow> string \<Rightarrow> classid list \<Rightarrow> net_daemon \<Rightarrow> net_daemon" where
  \<comment> \<open>\<open>get_tc_class_stats\<close>: the byte counts of the classes join their windows\<close>
  "note_usage ci dev cls s =
     s\<lparr>nd_hist := (\<lambda>d c. if d = dev \<and> c \<in> set cls then
          (case ci_usage ci dev c of Some b \<Rightarrow> hist_add (ci_now ci) [b] (nd_hist s d c) | None \<Rightarrow> nd_hist s d c) else nd_hist s d c)\<rparr>"

definition class_rates :: "net_daemon \<Rightarrow> string \<Rightarrow> rates" where
  "class_rates s dev = (\<lambda>c. if nd_hist s dev c = [] then None else Some (rate_kbit (nd_hist s dev c)))"

definition env_of :: "cycle_in \<Rightarrow> net_daemon \<Rightarrow> net_env" where
  "env_of ci s = \<lparr>ne_now = ci_now ci, ne_policy = cf_policy (nd_conf s), ne_police = cf_police (nd_conf s), ne_counts = ci_counts ci,
     ne_uname = ci_uname ci, ne_ncpu = ci_ncpu ci, ne_queues = ci_queues ci\<rparr>"

definition process_shaper_cycle :: "cycle_in \<Rightarrow> nat \<Rightarrow> net_daemon \<Rightarrow> net_daemon" where
  \<comment> \<open>for the shaper at position \<open>i\<close>; an exception of the reaction ends this NIC's part, what it had done by then stays\<close>
  "process_shaper_cycle ci i s =
     (let sh = nt_shapers (nd_ctl s) ! i; h = sh_handle sh; conf = nd_conf s;
          s1 = (if cf_enabled conf then note_usage ci (sh_dev sh) (get_all_classids h False) (note_usage ci (sh_ifb sh) (get_all_classids h True) s)
                else s)
      in case map_of (nd_mons s1) (sh_dev sh) of
           None \<Rightarrow> s1
         | Some (_, m) \<Rightarrow>
             if ci_eval ci \<and> cf_enabled conf \<and> cf_shaping conf then
               (case update_network_pressure_level (ci_thr ci) m of (tx, rx) \<Rightarrow>
                  (let w = fst (handle_network_pressure ((cf_cfg conf)\<lparr>nf_critical := ci_thr ci Critical\<rparr>) (env_of ci s1) tx rx
                         (class_rates s1 (sh_ifb sh)) (class_rates s1 (sh_dev sh)) (current_data m)
                         \<lparr>nw_ctl = nd_ctl s1, nw_host = nd_host s1, nw_shaper = sh, nw_cmds = []\<rparr>)
                   in run_cmds (nw_cmds w) (s1\<lparr>nd_host := nw_host w,
                        nd_ctl := (nw_ctl w)\<lparr>nt_shapers := (nt_shapers (nd_ctl s1))[i := nw_shaper w]\<rparr>\<rparr>)))
             else s1)"

definition update_daemon_apps :: "picker \<Rightarrow> cycle_in \<Rightarrow> net_daemon \<Rightarrow> net_daemon" where
  "update_daemon_apps pick ci s =
     (case update_app_network_control pick (ci_apps ci) (nd_ctl s) of (cs, n) \<Rightarrow> run_cmds cs (s\<lparr>nd_ctl := n\<rparr>))"

definition process_network_cycle :: "picker \<Rightarrow> cycle_in \<Rightarrow> net_daemon \<Rightarrow> net_daemon" where
  "process_network_cycle pick ci s =
     (let s1 = (if nd_reload s then net_reload (ci_conf ci) (s\<lparr>nd_reload := False\<rparr>) else s);
          s2 = sample_all ci s1
      in if nt_shapers (nd_ctl s2) = [] then s2
         else
           let s3 = (if cf_enabled (nd_conf s2) then update_daemon_apps pick ci s2 else s2)
           in fold (process_shaper_cycle ci) [0..<length (nt_shapers (nd_ctl s3))] s3)"

definition clear_network_rules_on_exit :: "net_daemon \<Rightarrow> net_daemon" where
  "clear_network_rules_on_exit s = (if cf_enabled (nd_conf s) then run_cmds (teardown_all (nd_ctl s)) s else s)"

datatype net_event = RequestReload | Cycle cycle_in

fun net_step :: "picker \<Rightarrow> net_event \<Rightarrow> net_daemon \<Rightarrow> net_daemon" where
  "net_step pick RequestReload s = s\<lparr>nd_reload := True\<rparr>"
| "net_step pick (Cycle ci) s = process_network_cycle pick ci s"

subsection \<open>Stages and classes agree through every cycle\<close>

definition daemon_ok :: "net_daemon \<Rightarrow> bool" where
  "daemon_ok s \<longleftrightarrow> distinct (concat (map nic_devs (nt_shapers (nd_ctl s))))
     \<and> (cf_enabled (nd_conf s) \<longrightarrow> (\<forall>sh \<in> set (nt_shapers (nd_ctl s)). \<forall>f. flow_shaped (cf_cfg (nd_conf s)) (nd_kernel s) sh f))"

definition conf_ok :: "net_conf \<Rightarrow> bool" where
  \<comment> \<open>the NICs are distinct, and none has the name of an intermediate device\<close>
  "conf_ok conf \<longleftrightarrow> distinct (map fst (cf_nics conf)) \<and> (\<forall>nic \<in> set (cf_nics conf). \<forall>i. fst nic \<noteq> ''ifb'' @ show_nat i)"

lemma show_nat_inj: "show_nat i = show_nat j \<longleftrightarrow> i = j"
  by (metis option.inject parse_show_nat)

lemma paired_distinct:
  assumes "inj g" "distinct (map fst xs)" "\<And>nic i. nic \<in> set xs \<Longrightarrow> fst nic \<noteq> g i"
  shows "distinct (concat (map (\<lambda>(idx, (iface, bw)). [iface, g idx]) (enumerate m xs)))
    \<and> set (concat (map (\<lambda>(idx, (iface, bw)). [iface, g idx]) (enumerate m xs))) \<subseteq> fst ` set xs \<union> g ` {m..}"
  using assms(2,3)
proof (induction xs arbitrary: m)
  case (Cons x xs)
  define r where "r = concat (map (\<lambda>(idx, (iface, bw)). [iface, g idx]) (enumerate (Suc m) xs))"
  have IH: "distinct r" "set r \<subseteq> fst ` set xs \<union> g ` {Suc m..}"
    using Cons.IH [of "Suc m"] Cons.prems unfolding r_def by auto
  have "fst x \<notin> set r" using IH(2) Cons.prems(1) Cons.prems(2) [of x] by auto
  moreover have "g m \<notin> fst ` set xs" using Cons.prems(2) by force
  then have "g m \<notin> set r" using IH(2) inj_image_mem_iff [OF assms(1), of m "{Suc m..}"] by auto
  moreover have "fst x \<noteq> g m" using Cons.prems(2) [of x] by simp
  moreover have "concat (map (\<lambda>(idx, (iface, bw)). [iface, g idx]) (enumerate m (x # xs))) = [fst x, g m] @ r"
    by (cases x) (simp add: r_def)
  ultimately show ?case using IH by auto
qed simp

lemma build_shapers_distinct: "conf_ok conf \<Longrightarrow> distinct (concat (map nic_devs (build_shapers (cf_nics conf))))"
proof -
  assume ok: "conf_ok conf"
  let ?xs = "filter (\<lambda>(iface, bw). bw > 0) (cf_nics conf)"
  have "map nic_devs (build_shapers (cf_nics conf)) = map (\<lambda>(idx, (iface, bw)). [iface, ''ifb'' @ show_nat idx]) (enumerate 0 ?xs)"
    by (auto simp: build_shapers_def nic_devs_def new_shaper_def)
  moreover have "distinct (map fst ?xs)" using ok by (auto simp: conf_ok_def distinct_map_filter)
  moreover have "fst nic \<noteq> ''ifb'' @ show_nat i" if "nic \<in> set ?xs" for nic i using ok that by (auto simp: conf_ok_def)
  moreover have "inj (\<lambda>i. ''ifb'' @ show_nat i)" by (simp add: inj_def show_nat_inj)
  ultimately show ?thesis using paired_distinct [of "\<lambda>i. ''ifb'' @ show_nat i" ?xs 0] by metis
qed

lemma build_shapers_stage: "sh \<in> set (build_shapers mons) \<Longrightarrow> sh_stage sh f = 0"
  by (auto simp: build_shapers_def new_shaper_def)

lemma load_conf_fields [simp]:
  "nt_shapers (nd_ctl (load_conf conf s)) = build_shapers (cf_nics conf)"
  "nd_kernel (load_conf conf s) = nd_kernel s"
  by (simp_all add: load_conf_def nctl_init_def Let_def)

lemma run_cmds_fields [simp]:
  "nd_conf (run_cmds cs s) = nd_conf s" "nd_ctl (run_cmds cs s) = nd_ctl s" "nd_mons (run_cmds cs s) = nd_mons s"
  "nd_kernel (run_cmds cs s) = tc_run cs (nd_kernel s)" "nd_host (run_cmds cs s) = nd_host s"
  by (simp_all add: run_cmds_def)

lemma setup_daemon_ok: "conf_ok conf \<Longrightarrow> daemon_ok (setup_daemon (load_conf conf s))"
  using setup_all_shaped [OF build_shapers_distinct build_shapers_stage, of conf]
  by (auto simp: daemon_ok_def setup_daemon_def build_shapers_distinct)

lemma net_start_ok: "conf_ok conf \<Longrightarrow> daemon_ok (net_start conf k h)"
  unfolding net_start_def by (rule setup_daemon_ok)

lemma net_reload_ok: "conf_ok conf \<Longrightarrow> daemon_ok (net_reload conf s)"
proof -
  assume ok: "conf_ok conf"
  let ?s = "load_conf conf (run_cmds (teardown_all (nd_ctl s)) s)"
  have "nt_shapers (nd_ctl ?s) = []" if "nd_mons ?s = []"
    using that by (simp add: load_conf_def Let_def nctl_init_def build_shapers_def)
  then have "nd_mons ?s = [] \<or> nt_shapers (nd_ctl ?s) = [] \<Longrightarrow> daemon_ok ?s" by (auto simp: daemon_ok_def)
  then show ?thesis using setup_daemon_ok [OF ok] by (auto simp: net_reload_def Let_def)
qed

lemma clear_caps_shapers: "clear_app_pps_cap a n = (cs, n') \<Longrightarrow> nt_shapers n' = nt_shapers n"
  by (auto simp: clear_app_pps_cap_def Let_def)

lemma filter_dels_classes: "c \<in> set (filter_dels r) \<Longrightarrow> class_devs c = []"
  by (auto simp: filter_dels_def split: option.splits)

lemma add_rules_classes:
  "add_app_network_rules pick app idx n = (cs, n') \<Longrightarrow> (\<forall>c \<in> set cs. class_devs c = []) \<and> nt_shapers n' = nt_shapers n"
  by (auto simp: add_app_network_rules_def Let_def allocate_mark_def mark_filters_def split: if_splits prod.splits)

lemma remove_rules_classes:
  "remove_app_network_rules a n = (cs, n') \<Longrightarrow> (\<forall>c \<in> set cs. class_devs c = []) \<and> nt_shapers n' = nt_shapers n"
  using clear_caps_classes [of _ a n]
  by (auto simp: remove_app_network_rules_def Let_def release_mark_def split: if_splits prod.splits option.splits
      dest: filter_dels_classes clear_caps_shapers)

lemma remove_apps_classes:
  "remove_apps as n = (cs, n') \<Longrightarrow> (\<forall>c \<in> set cs. class_devs c = []) \<and> nt_shapers n' = nt_shapers n"
proof (induction as arbitrary: n cs)
  case (Cons a as)
  obtain ca n1 where a: "remove_app_network_rules a n = (ca, n1)" by fastforce
  obtain ds where d: "remove_apps as n1 = (ds, n')" "cs = ca @ ds" using Cons.prems a by (auto split: prod.splits)
  show ?case unfolding d(2) using Cons.IH [OF d(1)] remove_rules_classes [OF a] by auto
qed simp

lemma update_app_classes:
  "update_app pick old idx app n = (cs, n') \<Longrightarrow> (\<forall>c \<in> set cs. class_devs c = []) \<and> nt_shapers n' = nt_shapers n"
  by (auto simp: update_app_def Let_def split: if_splits prod.splits option.splits dest!: add_rules_classes remove_rules_classes)

lemma update_apps_classes:
  "update_apps pick old idx apps n = (cs, n') \<Longrightarrow> (\<forall>c \<in> set cs. class_devs c = []) \<and> nt_shapers n' = nt_shapers n"
proof (induction apps arbitrary: idx n cs)
  case (Cons a as)
  obtain ca n1 where a: "update_app pick old idx a n = (ca, n1)" by fastforce
  obtain ds where d: "update_apps pick old (idx + 1) as n1 = (ds, n')" "cs = ca @ [ConnmarkDel, ConnmarkAdd] @ ds"
    using Cons.prems a by (auto split: prod.splits)
  show ?case unfolding d(2) using Cons.IH [OF d(1)] update_app_classes [OF a] by auto
qed simp

lemma update_control_classes:
  "update_app_network_control pick apps n = (cs, n') \<Longrightarrow> (\<forall>c \<in> set cs. class_devs c = []) \<and> nt_shapers n' = nt_shapers n"
  by (auto simp: update_app_network_control_def Let_def split: prod.splits dest!: remove_apps_classes update_apps_classes)

lemma daemon_ok_apps: "daemon_ok s \<Longrightarrow> daemon_ok (update_daemon_apps pick ci s)"
proof -
  assume s: "daemon_ok s"
  obtain cs n where u: "update_app_network_control pick (ci_apps ci) (nd_ctl s) = (cs, n)" by fastforce
  from update_control_classes [OF u] have "tk_class (tc_run cs (nd_kernel s)) x = tk_class (nd_kernel s) x" "nt_shapers n = nt_shapers (nd_ctl s)" for x
    using tc_run_classes_idle [of cs] by auto
  with s show ?thesis by (simp add: update_daemon_apps_def u daemon_ok_def flow_shaped_def)
qed

lemma flow_shaped_live [simp]: "flow_shaped (cfg\<lparr>nf_critical := x\<rparr>) k sh f = flow_shaped cfg k sh f"
proof -
  have bw: "get_class_bandwidth (cfg\<lparr>nf_critical := x\<rparr>) t bw = get_class_bandwidth cfg t bw" for t bw
    by (cases "nf_bw cfg t") (simp_all add: get_class_bandwidth_def)
  have "stage_ceil (cfg\<lparr>nf_critical := x\<rparr>) bw n t = stage_ceil cfg bw n t" for bw n t
    by (cases t) (simp_all add: Let_def bw)
  then show ?thesis
    by (simp add: flow_shaped_def stage_class_def bw burst_of_def)
qed

lemma note_usage_fields [simp]:
  "nd_conf (note_usage ci d cs s) = nd_conf s" "nd_ctl (note_usage ci d cs s) = nd_ctl s" "nd_mons (note_usage ci d cs s) = nd_mons s"
  "nd_kernel (note_usage ci d cs s) = nd_kernel s" "nd_host (note_usage ci d cs s) = nd_host s"
  by (simp_all add: note_usage_def)

lemma concat_devs_update:
  "i < length shs \<Longrightarrow> same_nic (shs ! i) sh \<Longrightarrow> concat (map nic_devs (shs[i := sh])) = concat (map nic_devs shs)"
proof -
  assume i: "i < length shs" "same_nic (shs ! i) sh"
  then have "map nic_devs (shs[i := sh]) = map nic_devs shs"
    by (intro nth_equalityI) (auto simp: nth_list_update same_nic_def nic_devs_def)
  then show ?thesis by simp
qed

lemma distinct_devs_nth:
  assumes "distinct (concat (map nic_devs shs))" "i < length shs" "j < length shs" "i \<noteq> j"
  shows "set (nic_devs (shs ! i)) \<inter> set (nic_devs (shs ! j)) = {}"
proof -
  have "shs = take i shs @ shs ! i # drop (Suc i) shs" using assms(2) by (rule id_take_nth_drop)
  then have d: "distinct (concat (map nic_devs (take i shs @ shs ! i # drop (Suc i) shs)))" using assms(1) by simp
  have "shs ! j \<in> set (take i shs) \<union> set (drop (Suc i) shs)"
  proof (cases "j < i")
    case True
    then have "shs ! j = take i shs ! j" "j < length (take i shs)" using assms by simp_all
    then show ?thesis by (metis UnI1 nth_mem)
  next
    case False
    then have "shs ! j = drop (Suc i) shs ! (j - Suc i)" "j - Suc i < length (drop (Suc i) shs)" using assms by simp_all
    then show ?thesis by (metis UnI2 nth_mem)
  qed
  with d show ?thesis by auto
qed

lemma process_shaper_ok:
  assumes "daemon_ok s" "i < length (nt_shapers (nd_ctl s))"
  shows "daemon_ok (process_shaper_cycle ci i s) \<and> length (nt_shapers (nd_ctl (process_shaper_cycle ci i s))) = length (nt_shapers (nd_ctl s))"
proof -
  let ?shs = "nt_shapers (nd_ctl s)" and ?conf = "nd_conf s"
  let ?sh = "?shs ! i"
  let ?h = "sh_handle ?sh"
  define s1 where "s1 = (if cf_enabled ?conf
    then note_usage ci (sh_dev ?sh) (get_all_classids ?h False) (note_usage ci (sh_ifb ?sh) (get_all_classids ?h True) s) else s)"
  have s1: "nd_conf s1 = ?conf" "nd_ctl s1 = nd_ctl s" "nd_kernel s1 = nd_kernel s" "nd_host s1 = nd_host s"
    by (simp_all add: s1_def)
  have idle: "daemon_ok s1 \<and> length (nt_shapers (nd_ctl s1)) = length ?shs" using assms(1) by (simp add: daemon_ok_def s1)
  have acts: "daemon_ok (run_cmds (nw_cmds w) (s1\<lparr>nd_host := nw_host w, nd_ctl := (nw_ctl w)\<lparr>nt_shapers := ?shs[i := nw_shaper w]\<rparr>\<rparr>))"
    if en: "cf_enabled ?conf" and w: "w = fst (handle_network_pressure ((cf_cfg ?conf)\<lparr>nf_critical := crit\<rparr>) e tx rx ri re d
        \<lparr>nw_ctl = nd_ctl s1, nw_host = nd_host s1, nw_shaper = ?sh, nw_cmds = []\<rparr>)" for w crit e tx rx ri re d
  proof -
    have dist: "distinct (concat (map nic_devs ?shs))" and shaped: "\<And>sh f. sh \<in> set ?shs \<Longrightarrow> flow_shaped (cf_cfg ?conf) (nd_kernel s) sh f"
      using assms(1) en by (auto simp: daemon_ok_def)
    have mem: "?sh \<in> set ?shs" using assms(2) by simp
    have "distinct (nic_devs ?sh)" using dist mem by (auto simp: distinct_concat_iff dest: in_set_conv_decomp_first [THEN iffD1])
    then have "sh_dev ?sh \<noteq> sh_ifb ?sh" by (simp add: nic_devs_def)
    then have "world_shaped ((cf_cfg ?conf)\<lparr>nf_critical := crit\<rparr>) (nd_kernel s) ?sh
        \<lparr>nw_ctl = nd_ctl s1, nw_host = nd_host s1, nw_shaper = ?sh, nw_cmds = []\<rparr>"
      using shaped [OF mem] by (simp add: world_shaped_def)
    from world_shaped_handle [OF this, of e tx rx ri re d] w
    have ws: "world_shaped ((cf_cfg ?conf)\<lparr>nf_critical := crit\<rparr>) (nd_kernel s) ?sh w" by simp
    have "flow_shaped (cf_cfg ?conf) (tc_run (nw_cmds w) (nd_kernel s)) sh f" if "sh \<in> set (?shs[i := nw_shaper w])" for sh f
    proof -
      from that obtain j where j: "j < length ?shs" "sh = (?shs[i := nw_shaper w]) ! j" by (auto simp: in_set_conv_nth)
      show ?thesis
      proof (cases "j = i")
        case True
        then show ?thesis using ws j by (simp add: world_shaped_def)
      next
        case False
        then have sh: "sh = ?shs ! j" using j by simp
        have "flow_dev sh f \<notin> set (nic_devs ?sh)"
          using distinct_devs_nth [OF dist assms(2) j(1)] False flow_dev_in [of sh f] sh by auto
        moreover have "set (class_devs c) \<subseteq> set (nic_devs ?sh)" if "c \<in> set (nw_cmds w)" for c
          using ws that by (simp add: world_shaped_def)
        ultimately show ?thesis using shaped [of sh f] j(1) sh by - (rule flow_shaped_frame, auto)
      qed
    qed
    moreover have "same_nic ?sh (nw_shaper w)" using ws by (simp add: world_shaped_def)
    ultimately show ?thesis
      using dist concat_devs_update [OF assms(2)] by (simp add: daemon_ok_def s1)
  qed
  show ?thesis
    unfolding process_shaper_cycle_def Let_def s1_def [symmetric]
    using idle acts by (auto simp: s1 split: option.split prod.split)
qed

lemma sample_all_ok: "daemon_ok (sample_all ci s) = daemon_ok s"
  by (simp add: daemon_ok_def sample_all_def Let_def)

lemma cycle_ok:
  assumes "daemon_ok s" "conf_ok (ci_conf ci)" shows "daemon_ok (process_network_cycle pick ci s)"
proof -
  have fold_ok: "daemon_ok t \<Longrightarrow> \<forall>i \<in> set js. i < length (nt_shapers (nd_ctl t)) \<Longrightarrow> daemon_ok (fold (process_shaper_cycle ci) js t)" for js t
    by (induction js arbitrary: t) (simp_all add: process_shaper_ok)
  let ?s1 = "if nd_reload s then net_reload (ci_conf ci) (s\<lparr>nd_reload := False\<rparr>) else s"
  have "daemon_ok ?s1" using assms net_reload_ok by simp
  then have s2: "daemon_ok (sample_all ci ?s1)" by (simp only: sample_all_ok)
  let ?s3 = "if cf_enabled (nd_conf (sample_all ci ?s1)) then update_daemon_apps pick ci (sample_all ci ?s1) else sample_all ci ?s1"
  have "daemon_ok ?s3" using s2 daemon_ok_apps by simp
  then have "daemon_ok (fold (process_shaper_cycle ci) [0..<length (nt_shapers (nd_ctl ?s3))] ?s3)" by (intro fold_ok) auto
  with s2 show ?thesis unfolding process_network_cycle_def Let_def by (simp only: if_split simp_thms)
qed

text \<open>C14: The throttle stage of every NIC and direction is a faithful record of its traffic classes: after any sequence
  of cycles and hot reloads, with any levels, rates, faults of the reaction and changes of the application list, each
  class of a shaped NIC has exactly the ceiling its stage stands for - untouched at 0, \<open>low\<close> at half and then at its
  minimum at 1 and 2, \<open>high\<close> likewise at 3 and 4, \<open>critical\<close> and \<open>system\<close> never limited.\<close>
theorem stage_refines_classes:
  assumes "conf_ok conf" "\<And>ci. Cycle ci \<in> set evs \<Longrightarrow> conf_ok (ci_conf ci)"
    and "s = fold (net_step pick) evs (net_start conf k h)" "cf_enabled (nd_conf s)" "sh \<in> set (nt_shapers (nd_ctl s))"
  shows "sh_stage sh f \<le> 4 \<and> tk_class (nd_kernel s) (flow_dev sh f, flow_class sh f t)
    = Some (fst (get_class_bandwidth (cf_cfg (nd_conf s)) t (sh_total_bw sh)),
            stage_ceil (cf_cfg (nd_conf s)) (sh_total_bw sh) (sh_stage sh f) t, burst_of (cf_cfg (nd_conf s)) t)"
proof -
  have step: "daemon_ok r \<Longrightarrow> (\<And>ci. e = Cycle ci \<Longrightarrow> conf_ok (ci_conf ci)) \<Longrightarrow> daemon_ok (net_step pick e r)" for e r
    by (cases e) (simp_all add: cycle_ok, simp add: daemon_ok_def)
  have "daemon_ok r \<Longrightarrow> (\<And>ci. Cycle ci \<in> set es \<Longrightarrow> conf_ok (ci_conf ci)) \<Longrightarrow> daemon_ok (fold (net_step pick) es r)" for es r
    by (induction es arbitrary: r) (simp_all add: step)
  then have "daemon_ok s" unfolding assms(3) using net_start_ok [OF assms(1)] assms(2) by blast
  with assms(4,5) show ?thesis by (auto simp: daemon_ok_def flow_shaped_def stage_class_def)
qed

definition demo_conf :: net_conf where
  "demo_conf = \<lparr>cf_cfg = \<lparr>nf_bw = default_bw, nf_burst = Map.empty, nf_critical = Some (9/10), nf_fq_codel = True\<rparr>,
     cf_policy = default_pps_policy, cf_police = True, cf_enabled = True, cf_shaping = True, cf_ports = [22, 53],
     cf_nics = [(''eth0'', 1000000), (''wlan0'', 0)]\<rparr>"

lemma stage_refines_classes_witness:
  "tk_class (nd_kernel (fold (net_step hd) [RequestReload] (net_start demo_conf demo_kernel demo_host)))
     (''eth0'', get_classid 50 THigh) = Some (300000, 800000, ''16k'')"
proof -
  let ?s = "fold (net_step hd) [RequestReload] (net_start demo_conf demo_kernel demo_host)"
  let ?sh = "new_shaper ''eth0'' (''ifb'' @ show_nat 0) 50 1000000"
  have sh: "?sh \<in> set (nt_shapers (nd_ctl ?s))"
    by (simp add: net_start_def setup_daemon_def demo_conf_def build_shapers_def base_handle_id_def)
  have cf: "nd_conf ?s = demo_conf" by (simp add: net_start_def setup_daemon_def load_conf_def demo_conf_def Let_def)
  have ok: "conf_ok demo_conf" by (simp add: conf_ok_def demo_conf_def)
  have en: "cf_enabled (nd_conf ?s)" unfolding cf by (simp add: demo_conf_def)
  have "sh_stage ?sh Egress \<le> 4 \<and> tk_class (nd_kernel ?s) (flow_dev ?sh Egress, flow_class ?sh Egress THigh)
    = Some (fst (get_class_bandwidth (cf_cfg (nd_conf ?s)) THigh (sh_total_bw ?sh)),
            stage_ceil (cf_cfg (nd_conf ?s)) (sh_total_bw ?sh) (sh_stage ?sh Egress) THigh, burst_of (cf_cfg (nd_conf ?s)) THigh)"
    by (rule stage_refines_classes [OF ok _ refl en sh]) simp
  then show ?thesis
    unfolding cf by (simp add: demo_conf_def new_shaper_def flow_class_def get_class_bandwidth_def default_bw_def py_trunc_def
        burst_of_def Let_def)
qed

end
