(* ===== verification/Limit_Policy.thy ===== *)
theory Limit_Policy
  imports Disk_Pressure "HOL-Library.AList"
begin

text \<open>
  The registry of limited apps and the staged restore of \<open>balancer/balancer/balancer.py\<close>:
  \<open>LimitedApp\<close>, \<open>LimitRegistry\<close> with its exclusions, \<open>_upsert_auto_limited\<close>, \<open>restore_resources\<close>,
  \<open>_restore_channel\<close> and the restore arm of the monitor loop. Ordered dicts are association lists in
  order. The writes to the cgroups (\<open>adjust_resources\<close> and the io controller) are an argument, a record
  of functions over an arbitrary world. Control events, status updates and notifications, which nothing
  here reads back, are left out.
\<close>

subsection \<open>A limited app\<close>

datatype limit_source = Auto | Manual
datatype channel = ChSys | ChDisk
datatype restore_type = Partial | Full

record io_rates =
  ir_read :: real
  ir_write :: real
  ir_read_iops :: real
  ir_write_iops :: real

record limit_rates =
  lr_cpu :: "real option"
  lr_mem :: "real option"
  lr_io :: "io_rates option"

record limited_app =
  la_public_id :: string
  la_name :: string
  la_source :: limit_source
  la_rates :: limit_rates
  la_cpu_mem :: bool          \<comment> \<open>\<open>limit_parts['cpu_mem_limited']\<close>\<close>
  la_io :: bool               \<comment> \<open>\<open>limit_parts['io_limited']\<close>\<close>
  la_res_cpu :: bool
  la_res_mem :: bool
  la_relaxed :: bool          \<comment> \<open>\<open>state == "partially_restored"\<close>\<close>
  la_priority :: string
  la_controlled :: bool
  la_reason :: string
  la_level :: string
  la_part_sys :: bool
  la_part_io :: bool
  la_cgroups :: "string list"
  la_disks :: "string list"
  la_pids :: "int list"       \<comment> \<open>a set: order and repetition carry no meaning\<close>
  la_rep_pid :: "int option"
  la_limited_at :: real
  la_last_reclaim :: real
  la_backoff :: real
  la_last_cpu :: "int option"
  la_last_cpu_at :: real
  la_inflight :: bool
  la_adopted :: bool          \<comment> \<open>\<open>adopted_from_auto\<close>\<close>
  la_frozen :: bool
  la_frozen_at :: real
  la_freeze_notified :: bool

fun has_part :: "channel \<Rightarrow> limited_app \<Rightarrow> bool" where
  "has_part ChSys a = la_cpu_mem a"
| "has_part ChDisk a = la_io a"

fun relaxed_part :: "channel \<Rightarrow> limited_app \<Rightarrow> bool" where
  "relaxed_part ChSys a = la_part_sys a"
| "relaxed_part ChDisk a = la_part_io a"

fun clear_part :: "channel \<Rightarrow> limited_app \<Rightarrow> limited_app" where
  "clear_part ChSys a = a\<lparr>la_cpu_mem := False\<rparr>"
| "clear_part ChDisk a = a\<lparr>la_io := False\<rparr>"

fun set_relaxed :: "channel \<Rightarrow> bool \<Rightarrow> limited_app \<Rightarrow> limited_app" where
  "set_relaxed ChSys b a = a\<lparr>la_part_sys := b\<rparr>"
| "set_relaxed ChDisk b a = a\<lparr>la_part_io := b\<rparr>"

subsection \<open>The registry\<close>

record exclusion =
  ex_key :: string
  ex_app_kind :: bool         \<comment> \<open>\<open>kind == "app"\<close>\<close>
  ex_reason :: string
  ex_app_id :: string
  ex_app_name :: string
  ex_cgroups :: "string list"

record usage_peak =
  up_cpu :: real
  up_mem :: real
  up_read_mb :: real
  up_write_mb :: real
  up_read_iops :: real
  up_write_iops :: real
  up_cg_mem :: "(string \<times> real) list"
  up_cg_cpu :: "(string \<times> real) list"

record registry =
  rg_apps :: "(string \<times> limited_app) list"
  rg_exclusions :: "(string \<times> exclusion) list"
  rg_baseline :: "(string \<times> usage_peak) list"   \<comment> \<open>\<open>manual_limit_baseline\<close>\<close>
  rg_dominant :: bool                           \<comment> \<open>\<open>is_limited_app_dominant\<close>\<close>

definition registry_init :: registry where
  "registry_init = \<lparr>rg_apps = [], rg_exclusions = [], rg_baseline = [], rg_dominant = False\<rparr>"

definition move_to_end :: "'k \<Rightarrow> ('k \<times> 'v) list \<Rightarrow> ('k \<times> 'v) list" where
  "move_to_end k al = (case map_of al k of None \<Rightarrow> al | Some v \<Rightarrow> AList.delete k al @ [(k, v)])"

definition first_auto :: "registry \<Rightarrow> (string \<times> limited_app) option" where
  "first_auto r = find (\<lambda>(k, a). la_source a = Auto) (rg_apps r)"

definition first_auto_with_part :: "channel \<Rightarrow> bool \<Rightarrow> registry \<Rightarrow> (string \<times> limited_app) option" where
  "first_auto_with_part ch skip_partially_restored r =
     find (\<lambda>(k, a). la_source a = Auto \<and> has_part ch a \<and> \<not> (skip_partially_restored \<and> relaxed_part ch a)) (rg_apps r)"

definition source_matches :: "limit_source option \<Rightarrow> limited_app \<Rightarrow> bool" where
  "source_matches src a \<longleftrightarrow> (case src of None \<Rightarrow> True | Some s \<Rightarrow> la_source a = s)"

definition by_public_id :: "string \<Rightarrow> limit_source option \<Rightarrow> registry \<Rightarrow> (string \<times> limited_app) option" where
  "by_public_id ident src r = find (\<lambda>(k, a). la_public_id a = ident \<and> source_matches src a) (rg_apps r)"

definition by_any_id :: "string \<Rightarrow> limit_source option \<Rightarrow> registry \<Rightarrow> (string \<times> limited_app) option" where
  "by_any_id ident src r =
     find (\<lambda>(k, a). source_matches src a \<and> (ident = k \<or> ident = la_public_id a \<or> ident \<in> set (la_cgroups a))) (rg_apps r)"

subsection \<open>Exclusions\<close>

definition exclusion_key :: "bool \<Rightarrow> string \<Rightarrow> string \<Rightarrow> string" where
  "exclusion_key controlled public_id primary =
     (if controlled \<and> public_id \<noteq> [] then ''app:'' @ public_id
      else ''instance:'' @ (if primary \<noteq> [] then primary else public_id))"

definition primary_cgroup :: "limited_app \<Rightarrow> string" where
  "primary_cgroup a = (if la_cgroups a = [] then la_public_id a else hd (la_cgroups a))"

definition exclusion_of :: "limited_app \<Rightarrow> string \<Rightarrow> exclusion" where
  "exclusion_of a reason =
     (let key = exclusion_key (la_controlled a) (la_public_id a) (primary_cgroup a)
      in \<lparr>ex_key = key, ex_app_kind = startswith key ''app:'', ex_reason = reason, ex_app_id = la_public_id a,
          ex_app_name = la_name a, ex_cgroups = la_cgroups a\<rparr>)"

definition add_exclusion :: "limited_app \<Rightarrow> string \<Rightarrow> registry \<Rightarrow> registry" where
  "add_exclusion a reason r =
     r\<lparr>rg_exclusions := AList.update (ex_key (exclusion_of a reason)) (exclusion_of a reason) (rg_exclusions r)\<rparr>"

definition remove_exclusion :: "string \<Rightarrow> registry \<Rightarrow> exclusion option \<times> registry" where
  "remove_exclusion ident r =
     (case map_of (rg_exclusions r) ident of
        Some rec \<Rightarrow> (Some rec, r\<lparr>rg_exclusions := AList.delete ident (rg_exclusions r)\<rparr>)
      | None \<Rightarrow>
          (case find (\<lambda>(k, rec). ident = ex_app_id rec \<or> ident \<in> set (ex_cgroups rec)) (rg_exclusions r) of
             None \<Rightarrow> (None, r)
           | Some (k, rec) \<Rightarrow> (Some rec, r\<lparr>rg_exclusions := AList.delete k (rg_exclusions r)\<rparr>)))"

definition is_excluded :: "string \<Rightarrow> string \<Rightarrow> string list \<Rightarrow> registry \<Rightarrow> exclusion option" where
  "is_excluded app_id app_name cgroups r =
     (let ids = filter (\<lambda>i. i \<noteq> []) (app_id # cgroups);
          name = lower (strip app_name)
      in map_option snd (find (\<lambda>(k, rec).
           (\<exists>i\<in>set ids. i = ex_app_id rec \<or> i \<in> set (ex_cgroups rec))
           \<or> (ex_app_kind rec \<and> name \<noteq> [] \<and> name = lower (strip (ex_app_name rec)))) (rg_exclusions r)))"

subsection \<open>Recording an automatic limit\<close>

definition merge_rates :: "limit_rates \<Rightarrow> limit_rates \<Rightarrow> limit_rates" where
  \<comment> \<open>\<open>{**prev, **new}\<close>: \<open>get_limited_rates\<close> fills all three keys, so the new dict replaces the old one\<close>
  "merge_rates p n = n"

record limit_request =
  lq_public_id :: string
  lq_name :: string
  lq_rates :: limit_rates
  lq_resource :: bool
  lq_io :: bool
  lq_priority :: string
  lq_controlled :: bool
  lq_reason :: string
  lq_level :: string
  lq_cgroups :: "string list"
  lq_disks :: "string list"
  lq_pids :: "int list"
  lq_rep_pid :: "int option"
  lq_res_cpu :: bool
  lq_res_mem :: bool

definition uniq :: "'a list \<Rightarrow> 'a list" where
  \<comment> \<open>\<open>list(dict.fromkeys(xs))\<close>: the first occurrences, in order\<close>
  "uniq xs = rev (remdups (rev xs))"

definition fresh_entry :: "real \<Rightarrow> limit_request \<Rightarrow> limited_app" where
  "fresh_entry now q =
     \<lparr>la_public_id = lq_public_id q, la_name = lq_name q, la_source = Auto, la_rates = lq_rates q,
      la_cpu_mem = lq_resource q, la_io = lq_io q, la_res_cpu = lq_res_cpu q, la_res_mem = lq_res_mem q,
      la_relaxed = False, la_priority = (if lq_priority q = [] then ''undefined'' else lq_priority q),
      la_controlled = lq_controlled q, la_reason = lq_reason q, la_level = lq_level q, la_part_sys = False,
      la_part_io = False, la_cgroups = uniq (lq_cgroups q), la_disks = lq_disks q, la_pids = lq_pids q,
      la_rep_pid = lq_rep_pid q, la_limited_at = now, la_last_reclaim = 0, la_backoff = 0, la_last_cpu = None,
      la_last_cpu_at = 0, la_inflight = False, la_adopted = False, la_frozen = False, la_frozen_at = 0,
      la_freeze_notified = False\<rparr>"

definition merged_entry :: "real \<Rightarrow> limit_request \<Rightarrow> limited_app \<Rightarrow> limited_app" where
  "merged_entry now q prev =
     (let e = fresh_entry now q;
          part_sys = (la_part_sys prev \<and> \<not> lq_resource q);
          part_io = (la_part_io prev \<and> \<not> lq_io q)
      in e\<lparr>la_res_cpu := la_res_cpu prev \<or> lq_res_cpu q, la_res_mem := la_res_mem prev \<or> lq_res_mem q,
           la_cpu_mem := la_cpu_mem prev \<or> lq_resource q, la_io := la_io prev \<or> lq_io q,
           la_part_sys := part_sys, la_part_io := part_io, la_relaxed := part_sys \<or> part_io,
           la_limited_at := (if la_limited_at prev = 0 then now else la_limited_at prev),
           la_reason := (if la_reason prev = [] then lq_reason q else la_reason prev),
           la_rates := merge_rates (la_rates prev) (lq_rates q),
           la_cgroups := uniq (la_cgroups prev @ uniq (lq_cgroups q)),
           la_disks := uniq (la_disks prev @ lq_disks q),
           la_pids := lq_pids q @ la_pids prev,
           la_rep_pid := (if lq_rep_pid q = None \<or> lq_rep_pid q = Some 0 then la_rep_pid prev else lq_rep_pid q)\<rparr>)"

definition upsert_auto_limited :: "real \<Rightarrow> string \<Rightarrow> limit_request \<Rightarrow> registry \<Rightarrow> (bool \<times> bool) \<times> registry" where
  \<comment> \<open>also the channels newly hit, CPU/memory first\<close>
  "upsert_auto_limited now app_id q r =
     (case map_of (rg_apps r) app_id of
        Some prev \<Rightarrow>
          if la_source prev = Auto
          then ((lq_resource q \<and> \<not> la_cpu_mem prev, lq_io q \<and> \<not> la_io prev),
                r\<lparr>rg_apps := AList.update app_id (merged_entry now q prev) (rg_apps r)\<rparr>)
          else ((lq_resource q, lq_io q), r\<lparr>rg_apps := AList.update app_id (fresh_entry now q) (rg_apps r)\<rparr>)
      | None \<Rightarrow> ((lq_resource q, lq_io q), r\<lparr>rg_apps := AList.update app_id (fresh_entry now q) (rg_apps r)\<rparr>))"

subsection \<open>Restoring\<close>

record 'w lim_kernel =
  lk_relax :: "string \<Rightarrow> int option \<Rightarrow> int option \<Rightarrow> 'w \<Rightarrow> bool \<times> 'w"  \<comment> \<open>\<open>adjust_resources(id, "medium", ...)\<close>\<close>
  lk_lift :: "string \<Rightarrow> 'w \<Rightarrow> bool \<times> 'w"                              \<comment> \<open>\<open>adjust_resources(id, "low")\<close>\<close>
  lk_io_cap :: "string \<Rightarrow> io_rates \<Rightarrow> string list \<Rightarrow> 'w \<Rightarrow> bool \<times> 'w"  \<comment> \<open>no disks means every disk\<close>
  lk_io_lift :: "string \<Rightarrow> string list \<Rightarrow> 'w \<Rightarrow> bool \<times> 'w"
  lk_total_mem :: real                                             \<comment> \<open>in MB\<close>

fun each_extra :: "(string \<Rightarrow> 'w \<Rightarrow> bool \<times> 'w) \<Rightarrow> string list \<Rightarrow> 'w \<Rightarrow> 'w" where
  \<comment> \<open>the loops over the extra cgroups, whose results the code does not look at\<close>
  "each_extra op [] w = w"
| "each_extra op (c # cs) w = each_extra op cs (snd (op c w))"

definition double_rates :: "io_rates \<Rightarrow> io_rates" where
  "double_rates i = \<lparr>ir_read = ir_read i * 2, ir_write = ir_write i * 2, ir_read_iops = ir_read_iops i * 2,
     ir_write_iops = ir_write_iops i * 2\<rparr>"

definition restore_cpu_mem ::
  "'w lim_kernel \<Rightarrow> string \<Rightarrow> string list \<Rightarrow> limit_rates \<Rightarrow> restore_type \<Rightarrow> 'w \<Rightarrow> bool \<times> 'w" where
  "restore_cpu_mem kern app_id extra rates rt w =
     (case rt of
        Partial \<Rightarrow>
          (let cpu = map_option (\<lambda>r. py_trunc (100 * r * 2)) (lr_cpu rates);
               mem = map_option (\<lambda>r. py_trunc (lk_total_mem kern * r * 2)) (lr_mem rates)
           in case lk_relax kern app_id cpu mem w of (ok, w1) \<Rightarrow>
                (ok, each_extra (\<lambda>c. lk_relax kern c cpu mem) extra w1))
      | Full \<Rightarrow>
          (case lk_lift kern app_id w of (ok, w1) \<Rightarrow> (ok, each_extra (lk_lift kern) extra w1)))"

definition restore_io ::
  "'w lim_kernel \<Rightarrow> string \<Rightarrow> string list \<Rightarrow> string list \<Rightarrow> limit_rates \<Rightarrow> restore_type \<Rightarrow> 'w \<Rightarrow> bool \<times> 'w" where
  "restore_io kern app_id extra disks rates rt w =
     (case rt of
        Partial \<Rightarrow>
          (case lr_io rates of
             None \<Rightarrow> (True, w)
           | Some i \<Rightarrow>
               (case lk_io_cap kern app_id (double_rates i) disks w of (ok, w1) \<Rightarrow>
                  (ok, each_extra (\<lambda>c. lk_io_cap kern c (double_rates i) disks) extra w1)))
      | Full \<Rightarrow>
          (case lk_io_lift kern app_id disks w of (ok, w1) \<Rightarrow>
             (ok, each_extra (\<lambda>c. lk_io_lift kern c disks) extra w1)))"

definition update_entry :: "string \<Rightarrow> (limited_app \<Rightarrow> limited_app) \<Rightarrow> registry \<Rightarrow> registry" where
  "update_entry k f r =
     (case map_of (rg_apps r) k of None \<Rightarrow> r | Some a \<Rightarrow> r\<lparr>rg_apps := AList.update k (f a) (rg_apps r)\<rparr>)"

definition restore_resources ::
  "'w lim_kernel \<Rightarrow> bool \<Rightarrow> string \<Rightarrow> limit_rates \<Rightarrow> bool \<Rightarrow> bool \<Rightarrow> restore_type \<Rightarrow> registry \<times> 'w
     \<Rightarrow> bool \<times> registry \<times> 'w" where
  "restore_resources kern running app_id rates do_sys do_io rt st =
     (case st of (r, w) \<Rightarrow>
        (let entry = map_of (rg_apps r) app_id;
             extra = (case entry of None \<Rightarrow> [] | Some a \<Rightarrow> tl (la_cgroups a));
             disks = (case entry of None \<Rightarrow> [] | Some a \<Rightarrow> la_disks a)
         in if \<not> running then (True, r, w)
            else
              (let (ok1, w1) = (if do_sys then restore_cpu_mem kern app_id extra rates rt w else (True, w));
                   r1 = (if do_sys \<and> rt = Full \<and> ok1 then update_entry app_id (clear_part ChSys) r else r);
                   (ok2, w2) = (if do_io then restore_io kern app_id extra disks rates rt w1 else (True, w1));
                   r2 = (if do_io \<and> rt = Full \<and> ok2 then update_entry app_id (clear_part ChDisk) r1 else r1)
               in (ok1 \<and> ok2, r2, w2))))"

definition restore_channel_for ::
  "'w lim_kernel \<Rightarrow> bool \<Rightarrow> string \<Rightarrow> limited_app \<Rightarrow> channel \<Rightarrow> restore_type \<Rightarrow> registry \<times> 'w \<Rightarrow> bool \<times> registry \<times> 'w" where
  "restore_channel_for kern running app_id entry ch rt st =
     (case restore_resources kern running app_id (la_rates entry) (ch = ChSys) (ch = ChDisk) rt st of (ok, r, w) \<Rightarrow>
        if \<not> ok then (False, r\<lparr>rg_apps := move_to_end app_id (rg_apps r)\<rparr>, w)
        else case rt of
            Partial \<Rightarrow>
              (let r1 = update_entry app_id (\<lambda>a. set_relaxed ch True a\<lparr>la_relaxed := True\<rparr>) r
               in (False, r1\<lparr>rg_apps := move_to_end app_id (rg_apps r1)\<rparr>, w))
          | Full \<Rightarrow>
              (let r1 = update_entry app_id (set_relaxed ch False) r;
                   still = (case map_of (rg_apps r1) app_id of None \<Rightarrow> False | Some a \<Rightarrow> la_cpu_mem a \<or> la_io a)
               in if still then (True, r1\<lparr>rg_apps := move_to_end app_id (rg_apps r1)\<rparr>, w)
                  else (True, r1\<lparr>rg_apps := AList.delete app_id (rg_apps r1)\<rparr>, w)))"

definition restore_channel ::
  "'w lim_kernel \<Rightarrow> bool \<Rightarrow> channel \<Rightarrow> restore_type \<Rightarrow> registry \<times> 'w \<Rightarrow> bool \<times> registry \<times> 'w" where
  "restore_channel kern running ch rt st =
     (case first_auto_with_part ch (rt = Partial) (fst st) of
        None \<Rightarrow> (False, st)
      | Some (app_id, entry) \<Rightarrow> restore_channel_for kern running app_id entry ch rt st)"

definition clear_io_cap_before_sys_limit ::
  "'w lim_kernel \<Rightarrow> bool \<Rightarrow> string \<Rightarrow> registry \<times> 'w \<Rightarrow> registry \<times> 'w" where
  "clear_io_cap_before_sys_limit kern running app_id st =
     (case by_any_id app_id (Some Auto) (fst st) of
        None \<Rightarrow> st
      | Some (k, entry) \<Rightarrow>
          if \<not> la_io entry then st else snd (restore_channel_for kern running k entry ChDisk Full st))"

subsection \<open>Candidates\<close>

record disk_rates =
  dr_disk :: string
  dr_read_mb :: real
  dr_write_mb :: real
  dr_read_iops :: real
  dr_write_iops :: real

record candidate =
  ca_id :: string
  ca_name :: string
  ca_cgroup :: string
  ca_cgroup_id :: string
  ca_extra :: "string list"
  ca_read_mb :: real
  ca_write_mb :: real
  ca_read_iops :: real
  ca_write_iops :: real
  ca_per_disk :: "disk_rates list"
  ca_app_name :: string                  \<comment> \<open>\<open>app.name\<close>, empty for none\<close>
  ca_pids :: "int list"
  ca_pid :: "int option"                 \<comment> \<open>\<open>process.pid\<close>\<close>
  ca_mem_rss :: "(string \<times> int) list"    \<comment> \<open>\<open>per_cgroup_mem_rss\<close>\<close>
  ca_cpu :: "(string \<times> real) list"       \<comment> \<open>\<open>per_cgroup_cpu\<close>\<close>
  ca_public_id :: string                 \<comment> \<open>\<open>public_app_id\<close>, empty for none\<close>
  ca_priority :: string                  \<comment> \<open>\<open>resolved_priority\<close>, empty for none\<close>

definition basename_of :: "string \<Rightarrow> string" where
  \<comment> \<open>\<open>os.path.basename(p.rstrip('/'))\<close>\<close>
  "basename_of p = rev (takeWhile (\<lambda>c. c \<noteq> CHR ''/'') (dropWhile (\<lambda>c. c = CHR ''/'') (rev p)))"

definition sampled_cgroup :: "candidate \<Rightarrow> string" where
  "sampled_cgroup ca = strip (if basename_of (ca_cgroup ca) \<noteq> [] then basename_of (ca_cgroup ca) else ca_cgroup_id ca)"

definition candidate_cgroups :: "candidate \<Rightarrow> string list" where
  "candidate_cgroups ca =
     (if sampled_cgroup ca \<noteq> [] \<and> sampled_cgroup ca \<notin> set (ca_extra ca) then ca_extra ca @ [sampled_cgroup ca]
      else ca_extra ca)"

definition drop_excluded_candidates :: "registry \<Rightarrow> candidate list \<Rightarrow> candidate list" where
  "drop_excluded_candidates r apps =
     filter (\<lambda>ca. is_excluded (ca_id ca) (ca_name ca) (candidate_cgroups ca) r = None) apps"

subsection \<open>The restore arm of the monitor loop\<close>

record mloop =
  ml_restore_pending :: bool
  ml_pressure_start :: "real option"
  ml_current_pressure :: "level option"
  ml_disk_start :: "real option"
  ml_batch :: "candidate list"         \<comment> \<open>the held candidates\<close>
  ml_reach :: bool
  ml_top_source :: "channel option"
  ml_fetched_at :: real

definition mloop_init :: mloop where
  "mloop_init = \<lparr>ml_restore_pending = False, ml_pressure_start = None, ml_current_pressure = None,
     ml_disk_start = None, ml_batch = [], ml_reach = False, ml_top_source = None, ml_fetched_at = 0\<rparr>"

definition stable_period :: real where "stable_period = 1800"
definition stable_disk_io_period :: real where "stable_disk_io_period = 300"
definition top_batch_ttl :: real where "top_batch_ttl = 30"

definition drop_top_batch :: "mloop \<Rightarrow> mloop" where
  "drop_top_batch s = s\<lparr>ml_batch := [], ml_reach := False, ml_top_source := None, ml_fetched_at := 0\<rparr>"

definition loop_reset :: "mloop \<Rightarrow> mloop" where
  "loop_reset s = (drop_top_batch s)\<lparr>ml_pressure_start := None\<rparr>"

definition keep_top_batch :: "candidate list \<Rightarrow> bool \<Rightarrow> channel \<Rightarrow> real \<Rightarrow> mloop \<Rightarrow> mloop" where
  "keep_top_batch apps reach src now s =
     s\<lparr>ml_batch := apps, ml_reach := reach, ml_top_source := Some src, ml_fetched_at := now\<rparr>"

definition stale_top_batch :: "channel \<Rightarrow> real \<Rightarrow> mloop \<Rightarrow> bool" where
  "stale_top_batch src now s \<longleftrightarrow> ml_batch s \<noteq> [] \<and>
     (ml_top_source s \<noteq> Some src \<or> now - ml_fetched_at s > top_batch_ttl)"

definition any_auto_with :: "channel \<Rightarrow> registry \<Rightarrow> bool" where
  "any_auto_with ch r \<longleftrightarrow> list_ex (\<lambda>(k, a). la_source a = Auto \<and> has_part ch a) (rg_apps r)"

definition start_pressure_timer :: "real \<Rightarrow> level \<Rightarrow> mloop \<Rightarrow> mloop" where
  "start_pressure_timer now pressure s =
     (if ml_pressure_start s = None \<or> ml_current_pressure s \<noteq> Some pressure
      then s\<lparr>ml_pressure_start := Some now, ml_current_pressure := Some pressure\<rparr> else s)"

definition start_disk_timer :: "real \<Rightarrow> mloop \<Rightarrow> mloop" where
  "start_disk_timer now s = (if ml_disk_start s = None then s\<lparr>ml_disk_start := Some now\<rparr> else s)"

definition ripe :: "real option \<Rightarrow> real \<Rightarrow> real \<Rightarrow> bool" where
  "ripe start now period \<longleftrightarrow> (case start of None \<Rightarrow> False | Some t \<Rightarrow> now - t \<ge> period)"

definition check_pressure :: "level \<Rightarrow> registry \<Rightarrow> bool" where
  "check_pressure pressure r \<longleftrightarrow> (pressure = Medium \<or> pressure = Low) \<and> any_auto_with ChSys r"

definition check_io :: "bool \<Rightarrow> registry \<Rightarrow> bool" where
  "check_io disk_stressed r \<longleftrightarrow> \<not> disk_stressed \<and> any_auto_with ChDisk r"

definition restore_timers :: "real \<Rightarrow> level \<Rightarrow> bool \<Rightarrow> registry \<Rightarrow> mloop \<Rightarrow> mloop" where
  "restore_timers now pressure disk_stressed r s =
     (let s1 = (if check_pressure pressure r then start_pressure_timer now pressure s else s)
      in if check_io disk_stressed r then start_disk_timer now s1 else s1)"

datatype restore_step = StepNone | StepPartial channel | StepFull bool bool

definition relax_raises :: "channel \<Rightarrow> limit_rates \<Rightarrow> bool" where
  \<comment> \<open>the keys of a rate dict are always there; doubling a rate that is \<open>None\<close> is a TypeError\<close>
  "relax_raises ch rates = (if ch = ChSys then lr_cpu rates = None \<or> lr_mem rates = None else lr_io rates = None)"

definition step_raises :: "bool \<Rightarrow> restore_step \<Rightarrow> registry \<Rightarrow> bool" where
  "step_raises running stp r =
     (case stp of
        StepPartial ch \<Rightarrow>
          running \<and> (case first_auto_with_part ch True r of None \<Rightarrow> False | Some (_, a) \<Rightarrow> relax_raises ch (la_rates a))
      | _ \<Rightarrow> False)"

definition restore_step_for :: "real \<Rightarrow> level \<Rightarrow> bool \<Rightarrow> registry \<Rightarrow> mloop \<Rightarrow> restore_step" where
  \<comment> \<open>the \<open>if/elif\<close> chain on the stability of the two timers\<close>
  "restore_step_for now pressure disk_stressed r s =
     (let pressure_stable = (check_pressure pressure r \<and> ripe (ml_pressure_start s) now stable_period);
          io_stable = (check_io disk_stressed r \<and> ripe (ml_disk_start s) now stable_disk_io_period);
          io_double_stable = (check_io disk_stressed r \<and> ripe (ml_disk_start s) now (stable_disk_io_period * 2))
      in if pressure_stable \<and> pressure = Medium then StepPartial ChSys
         else if io_stable \<and> \<not> io_double_stable then StepPartial ChDisk
         else if (pressure_stable \<and> pressure = Low) \<or> io_double_stable
         then StepFull (pressure_stable \<and> pressure = Low) io_double_stable
         else StepNone)"

fun run_restore_step ::
  "'w lim_kernel \<Rightarrow> bool \<Rightarrow> restore_step \<Rightarrow> mloop \<times> registry \<times> 'w \<Rightarrow> mloop \<times> registry \<times> 'w" where
  "run_restore_step kern running StepNone (s, r, w) = (s, r, w)"
| "run_restore_step kern running (StepPartial ch) (s, r, w) =
     (case restore_channel kern running ch Partial (r, w) of (_, r', w') \<Rightarrow> (s, r', w'))"
| "run_restore_step kern running (StepFull sys disk) (s, r, w) =
     (let (r1, w1) = (if sys then snd (restore_channel kern running ChSys Full (r, w)) else (r, w));
          (done, r2, w2) = (if disk then restore_channel kern running ChDisk Full (r1, w1) else (False, r1, w1))
      in (s\<lparr>ml_disk_start := (if done then None else ml_disk_start s)\<rparr>, r2, w2))"

definition tick_separated_restore ::
  "'w lim_kernel \<Rightarrow> bool \<Rightarrow> real \<Rightarrow> level \<Rightarrow> bool \<Rightarrow> mloop \<times> registry \<times> 'w \<Rightarrow> mloop \<times> registry \<times> 'w" where
  "tick_separated_restore kern running now pressure disk_stressed st =
     (case st of (s, r, w) \<Rightarrow>
        if first_auto r = None \<or> ml_restore_pending s then (s, r, w)
        else if \<not> (check_pressure pressure r \<or> check_io disk_stressed r) then (loop_reset s, r, w)
        else let s1 = restore_timers now pressure disk_stressed r s;
                 stp = restore_step_for now pressure disk_stressed r s1
             in if step_raises running stp r
                then (loop_reset (s1\<lparr>ml_restore_pending := True\<rparr>), r, w)  \<comment> \<open>as the handler of the loop leaves it\<close>
                else case run_restore_step kern running stp (s1, r, w) of
                       (s2, r', w') \<Rightarrow> (s2\<lparr>ml_restore_pending := False\<rparr>, r', w'))"

subsection \<open>Choosing a disk consumer\<close>

record floor_row =
  fl_mb_s :: real
  fl_iops :: real

fun floor_default :: "media \<Rightarrow> floor_row" where
  "floor_default Nvme = \<lparr>fl_mb_s = 30, fl_iops = 2000\<rparr>"
| "floor_default Sata_ssd = \<lparr>fl_mb_s = 20, fl_iops = 1200\<rparr>"
| "floor_default Mmc = \<lparr>fl_mb_s = 10, fl_iops = 400\<rparr>"
| "floor_default Hdd = \<lparr>fl_mb_s = 5, fl_iops = 60\<rparr>"
| "floor_default Usb = \<lparr>fl_mb_s = 4, fl_iops = 50\<rparr>"
| "floor_default Unknown_media = \<lparr>fl_mb_s = 5, fl_iops = 60\<rparr>"

definition all_media :: "media list" where
  "all_media = [Nvme, Sata_ssd, Mmc, Hdd, Usb, Unknown_media]"

definition floor_or :: "pyval \<Rightarrow> real \<Rightarrow> real" where
  "floor_or v d = (case as_number v of Some n \<Rightarrow> if n \<ge> 0 then n else d | None \<Rightarrow> d)"

definition candidate_floors :: "pyval \<Rightarrow> media \<Rightarrow> floor_row" where
  \<comment> \<open>the table \<open>limit_policy.disk_io.candidate_floor\<close> merged over the defaults\<close>
  "candidate_floors table m =
     \<lparr>fl_mb_s = floor_or (pget (pget table (media_key m)) ''mb_s'') (fl_mb_s (floor_default m)),
      fl_iops = floor_or (pget (pget table (media_key m)) ''iops'') (fl_iops (floor_default m))\<rparr>"

fun strictest :: "floor_row \<Rightarrow> floor_row list \<Rightarrow> floor_row" where
  \<comment> \<open>\<open>max(..., key=mb_s)\<close>: the first of the largest\<close>
  "strictest best [] = best"
| "strictest best (f # fs) = strictest (if fl_mb_s f > fl_mb_s best then f else best) fs"

definition strictest_floor :: "(media \<Rightarrow> floor_row) \<Rightarrow> floor_row" where
  "strictest_floor floors = strictest (floors (hd all_media)) (map floors (tl all_media))"

definition qualifies_for_throttle :: "(media \<Rightarrow> floor_row) \<Rightarrow> (string \<Rightarrow> media) \<Rightarrow> candidate \<Rightarrow> bool" where
  "qualifies_for_throttle floors media_of ca =
     (if ca_per_disk ca = []
      then let f = strictest_floor floors
           in ca_read_mb ca + ca_write_mb ca \<ge> fl_mb_s f \<or> ca_read_iops ca + ca_write_iops ca \<ge> fl_iops f
      else list_ex (\<lambda>d. let f = floors (media_of (dr_disk d))
                        in dr_read_mb d + dr_write_mb d \<ge> fl_mb_s f \<or> dr_read_iops d + dr_write_iops d \<ge> fl_iops f)
             (ca_per_disk ca))"

fun media_scale_default :: "media \<Rightarrow> real" where
  "media_scale_default Nvme = 1"
| "media_scale_default Sata_ssd = 60/100"
| "media_scale_default Mmc = 30/100"
| "media_scale_default Hdd = 25/100"
| "media_scale_default Usb = 15/100"
| "media_scale_default Unknown_media = 25/100"

definition media_scales :: "pyval \<Rightarrow> media \<Rightarrow> real" where
  "media_scales table m =
     (case as_number (pget table (media_key m)) of
        Some v \<Rightarrow> if 0 < v \<and> v \<le> 1 then v else media_scale_default m
      | None \<Rightarrow> media_scale_default m)"

record io_max =
  im_rbps :: int
  im_wbps :: int
  im_riops :: int
  im_wiops :: int

definition scaled_row :: "io_rates \<Rightarrow> real \<Rightarrow> io_max" where
  "scaled_row i scale =
     (let f = (\<lambda>v. max 1 (py_trunc (v * scale)))
      in \<lparr>im_rbps = f (ir_read i * 1024 ^ 2), im_wbps = f (ir_write i * 1024 ^ 2), im_riops = f (ir_read_iops i),
          im_wiops = f (ir_write_iops i)\<rparr>)"

definition scaled_io_limits :: "pyval \<Rightarrow> (string \<Rightarrow> media) \<Rightarrow> string list \<Rightarrow> io_rates \<Rightarrow> (string \<times> io_max) list" where
  "scaled_io_limits table media_of disks i =
     (''default'', scaled_row i 1) # map (\<lambda>d. (d, scaled_row i (media_scales table (media_of d)))) disks"

record control_data =
  cd_priority :: string     \<comment> \<open>empty for None\<close>
  cd_app_id :: string
  cd_name :: string

record 'w disk_env =
  de_quiet :: "'w \<Rightarrow> bool"                                     \<comment> \<open>inside the reclaim quiet window\<close>
  de_control :: "string \<Rightarrow> string \<Rightarrow> bool \<times> control_data option"
  de_resolve :: "candidate \<Rightarrow> control_data \<Rightarrow> string option"
  de_floors :: "media \<Rightarrow> floor_row"
  de_media :: "string \<Rightarrow> media"

record disk_choice =
  dc_controlled :: bool
  dc_app_id :: string
  dc_priority :: string
  dc_index :: nat

definition already_io_limited :: "registry \<Rightarrow> string list \<Rightarrow> bool" where
  "already_io_limited r ids \<longleftrightarrow> list_ex (\<lambda>i. case by_any_id i (Some Auto) r of None \<Rightarrow> False | Some (_, a) \<Rightarrow> la_io a) ids"

definition known_ids :: "candidate \<Rightarrow> control_data option \<Rightarrow> string list" where
  "known_ids ca data = filter (\<lambda>i. i \<noteq> []) [ca_id ca, sampled_cgroup ca, (case data of None \<Rightarrow> [] | Some d \<Rightarrow> cd_app_id d)]"

definition skip_candidate :: "'w disk_env \<Rightarrow> registry \<Rightarrow> candidate \<Rightarrow> bool" where
  \<comment> \<open>the \<open>continue\<close> branches of the walk\<close>
  "skip_candidate env r ca =
     (case de_control env (ca_id ca) (lower (ca_name ca)) of (controlled, data) \<Rightarrow>
        ca_id ca = []
        \<or> (controlled \<and> (case data of None \<Rightarrow> False | Some d \<Rightarrow> lower (cd_priority d) = ''critical''))
        \<or> is_excluded (ca_id ca) (lower (ca_name ca)) (candidate_cgroups ca) r \<noteq> None
        \<or> already_io_limited r (known_ids ca data)
        \<or> \<not> qualifies_for_throttle (de_floors env) (de_media env) ca)"

definition choice_for :: "'w disk_env \<Rightarrow> candidate \<Rightarrow> nat \<Rightarrow> disk_choice" where
  "choice_for env ca i =
     (case de_control env (ca_id ca) (lower (ca_name ca)) of (controlled, data) \<Rightarrow>
        \<lparr>dc_controlled = controlled,
         dc_app_id = (case (controlled, data) of
                        (True, Some d) \<Rightarrow> (case de_resolve env ca d of Some x \<Rightarrow> (if x = [] then ca_id ca else x) | None \<Rightarrow> ca_id ca)
                      | _ \<Rightarrow> (if sampled_cgroup ca \<noteq> [] then sampled_cgroup ca else ca_id ca)),
         dc_priority = (case data of None \<Rightarrow> ''undefined'' | Some d \<Rightarrow> if cd_priority d = [] then ''undefined'' else cd_priority d),
         dc_index = i\<rparr>)"

fun first_throttleable :: "'w disk_env \<Rightarrow> registry \<Rightarrow> nat \<Rightarrow> candidate list \<Rightarrow> disk_choice option" where
  "first_throttleable env r i [] = None"
| "first_throttleable env r i (ca # cas) =
     (if skip_candidate env r ca then first_throttleable env r (Suc i) cas else Some (choice_for env ca i))"

definition handle_disk_io_stressed :: "'w disk_env \<Rightarrow> 'w \<Rightarrow> registry \<Rightarrow> candidate list \<Rightarrow> disk_choice option" where
  "handle_disk_io_stressed env w r consumers =
     (if de_quiet env w then None else first_throttleable env r 0 consumers)"

subsection \<open>The policy tick\<close>

record 'w tick_env =
  te_kernel :: "'w lim_kernel"
  te_running :: bool
  te_fetch :: "channel \<Rightarrow> candidate list \<times> bool"     \<comment> \<open>\<open>resolve_for_critical\<close> of the channel's prefetcher\<close>
  te_cache_stale :: bool                              \<comment> \<open>\<open>disk_top_prefetcher.is_stale()\<close>\<close>
  te_disk :: "'w disk_env"
  te_apply :: "disk_choice \<Rightarrow> candidate \<Rightarrow> registry \<times> 'w \<Rightarrow> registry \<times> 'w"  \<comment> \<open>presence check and \<open>_apply_resource_limits\<close>, disk channel\<close>
  te_sys_arm :: "candidate list \<Rightarrow> bool \<Rightarrow> registry \<times> 'w \<Rightarrow> registry \<times> 'w"  \<comment> \<open>CPU/memory critical path and reclaim\<close>
  te_drain :: "'w \<Rightarrow> 'w"                              \<comment> \<open>resumes one pending launch\<close>
  te_pending :: "'w \<Rightarrow> bool"                          \<comment> \<open>the launch queue is not empty\<close>

definition remove_nth :: "nat \<Rightarrow> 'a list \<Rightarrow> 'a list" where
  "remove_nth i xs = take i xs @ drop (Suc i) xs"

definition disk_arm :: "'w tick_env \<Rightarrow> level \<Rightarrow> mloop \<times> registry \<times> 'w \<Rightarrow> mloop \<times> registry \<times> 'w" where
  "disk_arm env disk_level st =
     (case st of (s, r, w) \<Rightarrow>
        (case handle_disk_io_stressed (te_disk env) w r (ml_batch s) of
           None \<Rightarrow> (if disk_level \<noteq> Critical then s else drop_top_batch s, r, w)
         | Some c \<Rightarrow>
             if disk_level \<noteq> Critical then (s, r, w)
             else (case (if ml_reach s then te_apply env c (ml_batch s ! dc_index c) (r, w) else (r, w)) of (r', w') \<Rightarrow>
                     (s\<lparr>ml_batch := remove_nth (dc_index c) (ml_batch s)\<rparr>, r', w'))))"

definition sys_arm :: "'w tick_env \<Rightarrow> mloop \<times> registry \<times> 'w \<Rightarrow> mloop \<times> registry \<times> 'w" where
  "sys_arm env st =
     (case st of (s, r, w) \<Rightarrow>
        (case te_sys_arm env (ml_batch s) (ml_reach s) (r, w) of (r', w') \<Rightarrow>
           (s\<lparr>ml_batch := remove_nth 0 (ml_batch s)\<rparr>, r', w')))"

definition pressed :: "level \<Rightarrow> level \<Rightarrow> bool \<Rightarrow> bool" where
  "pressed pressure disk_level passive \<longleftrightarrow> passive \<and> (pressure = Critical \<or> disk_level = High \<or> disk_level = Critical)"

definition pressed_state :: "'w tick_env \<Rightarrow> real \<Rightarrow> channel \<Rightarrow> registry \<Rightarrow> mloop \<Rightarrow> mloop" where
  \<comment> \<open>the head of the pressed arm: the channel's calm timer is stopped and its batch of candidates refreshed\<close>
  "pressed_state env now ch r s =
     (let s1 = s\<lparr>ml_restore_pending := False\<rparr>;
          s2 = (if stale_top_batch ch now s1 then drop_top_batch s1 else s1);
          s3 = (if ch = ChSys then s2\<lparr>ml_pressure_start := None\<rparr> else s2\<lparr>ml_disk_start := None\<rparr>);
          (apps, reach) = te_fetch env ch;
          s4 = (if ml_batch s3 = [] \<or> (ch = ChDisk \<and> te_cache_stale env)
                then keep_top_batch (drop_excluded_candidates r apps) (ch = ChDisk \<or> reach) ch now s3 else s3)
      in s4\<lparr>ml_batch := drop_excluded_candidates r (ml_batch s4)\<rparr>)"

definition pressed_channel :: "level \<Rightarrow> channel" where
  "pressed_channel pressure = (if pressure = Critical then ChSys else ChDisk)"

definition tick_separated_policy ::
  "'w tick_env \<Rightarrow> real \<Rightarrow> level \<Rightarrow> level \<Rightarrow> bool \<Rightarrow> mloop \<times> registry \<times> 'w \<Rightarrow> mloop \<times> registry \<times> 'w" where
  "tick_separated_policy env now pressure disk_level passive st =
     (case st of (s, r, w) \<Rightarrow>
        (let disk_stressed = (disk_level = High \<or> disk_level = Critical)
         in if pressed pressure disk_level passive
            then (let ch = pressed_channel pressure;
                      s5 = pressed_state env now ch r s
                  in if ml_batch s5 = [] then (loop_reset s5, r, w)
                     else if ch = ChSys then sys_arm env (s5, r, w) else disk_arm env disk_level (s5, r, w))
            else if te_pending env w \<and> pressure \<noteq> Critical \<and> \<not> disk_stressed
            then (loop_reset s, r, te_drain env w)
            else tick_separated_restore (te_kernel env) (te_running env) now pressure disk_stressed (s, r, w)))"

subsection \<open>Lemmas on the registry\<close>

lemma all_channels: "(\<forall>c. P c) \<longleftrightarrow> P ChSys \<and> P ChDisk"
  by (metis channel.exhaust)

lemma map_of_move_to_end [simp]: "map_of (move_to_end k al) = map_of al"
  by (rule ext) (auto simp: move_to_end_def delete_conv map_add_def split: option.splits)

lemma map_of_update_entry:
  "map_of (rg_apps (update_entry k f r)) x = (if x = k then map_option f (map_of (rg_apps r) k) else map_of (rg_apps r) x)"
  by (auto simp: update_entry_def update_conv split: option.splits)

lemma has_part_other: "ch \<noteq> c \<Longrightarrow> has_part c (clear_part ch a) = has_part c a"
  by (cases ch; cases c) auto

lemma clear_part_props [simp]: "\<not> has_part ch (clear_part ch a)" "la_source (clear_part ch a) = la_source a"
  "has_part c (clear_part ch a) \<Longrightarrow> has_part c a" "la_cgroups (clear_part ch a) = la_cgroups a"
  by (cases ch; cases c; simp)+

lemma set_relaxed_props [simp]: "has_part c (set_relaxed ch b a) = has_part c a" "la_source (set_relaxed ch b a) = la_source a"
  by (cases ch; cases c; simp)+

lemma relaxed_flag_props [simp]: "has_part c (a\<lparr>la_relaxed := x\<rparr>) = has_part c a"
  by (cases c) simp_all

lemma restore_resources_apps:
  assumes "restore_resources kern running k rates (ch = ChSys) (ch = ChDisk) rt (r, w) = (ok, r', w')"
  shows "r' = r \<or> (rt = Full \<and> ok \<and> running \<and> r' = update_entry k (clear_part ch) r)"
    "rt = Full \<Longrightarrow> ok \<Longrightarrow> running \<Longrightarrow> r' = update_entry k (clear_part ch) r"
  using assms
  by (cases ch; auto simp: restore_resources_def Let_def split: prod.splits if_splits)+

definition eased :: "channel \<Rightarrow> restore_type \<Rightarrow> limited_app \<Rightarrow> limited_app option \<Rightarrow> bool" where
  \<comment> \<open>what one restore step of one channel may do to an entry\<close>
  "eased ch rt a a' \<longleftrightarrow>
     (case a' of
        None \<Rightarrow> la_source a = Auto \<and> rt = Full \<and> (\<forall>c. c \<noteq> ch \<longrightarrow> \<not> has_part c a)
      | Some b \<Rightarrow> b = a \<or> (la_source a = Auto \<and> la_source b = Auto
          \<and> (\<forall>c. has_part c b \<noteq> has_part c a \<longrightarrow> c = ch \<and> rt = Full \<and> has_part c a)))"

lemma restore_channel_for_eases:
  assumes "restore_channel_for kern running k entry ch rt (r, w) = (b, r', w')"
    and "map_of (rg_apps r) k = Some entry" "la_source entry = Auto" "map_of (rg_apps r) x = Some a"
  shows "eased ch rt a (map_of (rg_apps r') x)"
proof -
  obtain ok r1 w1 where rr: "restore_resources kern running k (la_rates entry) (ch = ChSys) (ch = ChDisk) rt (r, w) = (ok, r1, w1)"
    by (metis surj_pair)
  note apps = restore_resources_apps [OF rr]
  show ?thesis
  proof (cases "x = k")
    case False
    have same: "map_of (rg_apps r1) x = Some a"
      using apps(1) assms(4) False by (auto simp: map_of_update_entry)
    have "map_of (rg_apps r') x = Some a"
      using assms(1) same False unfolding restore_channel_for_def rr Let_def
      by (auto simp: map_of_update_entry delete_conv split: if_splits restore_type.splits)
    then show ?thesis by (simp add: eased_def)
  next
    case True
    then have a: "a = entry" using assms(2,4) by simp
    show ?thesis
    proof (cases "ok \<and> rt = Full")
      case False
      then have r1: "r1 = r" using apps(1) by auto
      have "\<exists>b. map_of (rg_apps r') x = Some b \<and> (b = entry \<or> (la_source b = Auto \<and> (\<forall>c. has_part c b = has_part c entry)))"
        using assms(1,2,3) True False unfolding restore_channel_for_def rr Let_def r1
        by (auto simp: map_of_update_entry split: if_splits restore_type.splits)
      then show ?thesis using assms(3) by (auto simp: eased_def a)
    next
      case ok: True
      define e1 where "e1 = set_relaxed ch False (if running then clear_part ch entry else entry)"
      have r1: "map_of (rg_apps r1) k = Some (if running then clear_part ch entry else entry)"
        using apps assms(2) ok by (auto simp: map_of_update_entry)
      have m: "map_of (rg_apps r') x = (if la_cpu_mem e1 \<or> la_io e1 then Some e1 else None)"
        using assms(1) ok r1 True unfolding restore_channel_for_def rr Let_def e1_def
        by (auto simp: map_of_update_entry delete_conv split: if_splits restore_type.splits)
      have parts: "la_source e1 = Auto" "\<forall>c. has_part c e1 \<noteq> has_part c entry \<longrightarrow> c = ch \<and> has_part c entry"
        "\<forall>c. c \<noteq> ch \<longrightarrow> has_part c e1 = has_part c entry"
        using assms(3) by (cases ch; simp add: e1_def all_channels)+
      show ?thesis
      proof (cases "la_cpu_mem e1 \<or> la_io e1")
        case True
        then have m: "map_of (rg_apps r') x = Some e1" using m by simp
        have rt: "rt = Full" using ok by simp
        show ?thesis unfolding m eased_def a rt option.case using parts assms(3) by blast
      next
        case False
        then have m: "map_of (rg_apps r') x = None" using m by simp
        have "\<not> has_part c entry" if "c \<noteq> ch" for c
          using parts(3) that False by (cases c) auto
        moreover have "rt = Full" using ok by simp
        ultimately show ?thesis unfolding m eased_def a option.case using assms(3) by blast
      qed
    qed
  qed
qed

lemma restore_channel_eases:
  assumes "restore_channel kern running ch rt (r, w) = (b, r', w')" "map_of (rg_apps r) x = Some a"
    and "distinct (map fst (rg_apps r))"
  shows "eased ch rt a (map_of (rg_apps r') x)"
proof (cases "first_auto_with_part ch (rt = Partial) r")
  case None
  then show ?thesis using assms by (simp add: restore_channel_def eased_def)
next
  case (Some kv)
  obtain k entry where kv: "kv = (k, entry)" by fastforce
  have f: "(k, entry) \<in> set (rg_apps r)" "la_source entry = Auto"
    using Some unfolding kv first_auto_with_part_def find_Some_iff by (auto simp: in_set_conv_nth)
  then have "map_of (rg_apps r) k = Some entry" using assms(3) by simp
  then show ?thesis
    using restore_channel_for_eases [of kern running k entry ch rt r w b r' w' x a] assms(1,2) f(2) Some
    by (simp add: restore_channel_def kv)
qed

lemma move_to_end_distinct: "distinct (map fst al) \<Longrightarrow> distinct (map fst (move_to_end k al))"
  by (auto simp: move_to_end_def delete_keys distinct_removeAll split: option.splits)

lemma update_entry_distinct: "distinct (map fst (rg_apps r)) \<Longrightarrow> distinct (map fst (rg_apps (update_entry k f r)))"
  by (auto simp: update_entry_def distinct_update split: option.splits)

lemma restore_channel_distinct:
  assumes "restore_channel kern running ch rt (r, w) = (b, r', w')" "distinct (map fst (rg_apps r))"
  shows "distinct (map fst (rg_apps r'))"
proof (cases "first_auto_with_part ch (rt = Partial) r")
  case None
  then show ?thesis using assms by (simp add: restore_channel_def)
next
  case (Some kv)
  obtain k entry where kv: "kv = (k, entry)" by fastforce
  obtain ok r1 w1 where rr: "restore_resources kern running k (la_rates entry) (ch = ChSys) (ch = ChDisk) rt (r, w) = (ok, r1, w1)"
    by (metis surj_pair)
  have d1: "distinct (map fst (rg_apps r1))"
    using restore_resources_apps(1) [OF rr] assms(2) update_entry_distinct by metis
  have "restore_channel_for kern running k entry ch rt (r, w) = (b, r', w')"
    using assms(1) Some by (simp add: restore_channel_def kv)
  then show ?thesis unfolding restore_channel_for_def rr Let_def
    using d1
    by (auto simp: delete_keys intro!: move_to_end_distinct update_entry_distinct distinct_removeAll
        split: if_splits restore_type.splits)
qed

lemma restore_channel_keeps_absent:
  assumes "restore_channel kern running ch rt (r, w) = (b, r', w')" "map_of (rg_apps r) x = None"
  shows "map_of (rg_apps r') x = None"
proof (cases "first_auto_with_part ch (rt = Partial) r")
  case None
  then show ?thesis using assms by (simp add: restore_channel_def)
next
  case (Some kv)
  obtain k entry where kv: "kv = (k, entry)" by fastforce
  obtain ok r1 w1 where rr: "restore_resources kern running k (la_rates entry) (ch = ChSys) (ch = ChDisk) rt (r, w) = (ok, r1, w1)"
    by (metis surj_pair)
  have a1: "map_of (rg_apps r1) x = None"
    using restore_resources_apps(1) [OF rr] assms(2) by (auto simp: map_of_update_entry)
  have "restore_channel_for kern running k entry ch rt (r, w) = (b, r', w')"
    using assms(1) Some by (simp add: restore_channel_def kv)
  then show ?thesis unfolding restore_channel_for_def rr Let_def
    using a1 by (auto simp: map_of_update_entry delete_conv split: if_splits restore_type.splits)
qed

subsection \<open>Properties\<close>

definition keeps :: "(limited_app \<Rightarrow> bool) \<Rightarrow> limited_app option \<Rightarrow> bool" where
  "keeps flag x \<longleftrightarrow> (case x of None \<Rightarrow> False | Some b \<Rightarrow> flag b)"

lemma eased_partial_safe:
  assumes "eased ch Partial a x"
  shows "(la_source a = Manual \<longrightarrow> x = Some a) \<and> (la_io a \<longrightarrow> keeps la_io x) \<and> (la_cpu_mem a \<longrightarrow> keeps la_cpu_mem x)
    \<and> (\<forall>b. x = Some b \<longrightarrow> (la_io b \<longrightarrow> la_io a) \<and> (la_cpu_mem b \<longrightarrow> la_cpu_mem a))"
  using assms by (cases x) (auto simp: eased_def all_channels keeps_def)

definition after_disk :: "bool \<Rightarrow> limited_app option \<Rightarrow> limited_app option \<Rightarrow> bool" where
  "after_disk d x y \<longleftrightarrow> (case x of None \<Rightarrow> y = None | Some b \<Rightarrow> if d then eased ChDisk Full b y else y = Some b)"

lemma eased_full_safe:
  assumes "if p then eased ChSys Full a x else x = Some a" and "after_disk d x y"
  shows "(la_source a = Manual \<longrightarrow> y = Some a) \<and> (la_io a \<longrightarrow> \<not> d \<longrightarrow> keeps la_io y)
    \<and> (la_cpu_mem a \<longrightarrow> \<not> p \<longrightarrow> keeps la_cpu_mem y)
    \<and> (\<forall>b. y = Some b \<longrightarrow> (la_io b \<longrightarrow> la_io a) \<and> (la_cpu_mem b \<longrightarrow> la_cpu_mem a))"
  using assms
  by (cases p; cases d; cases x; cases y) (auto simp: eased_def all_channels keeps_def after_disk_def)

lemma step_full_disk:
  assumes "restore_step_for now pressure stressed r (restore_timers now pressure stressed r s) = StepFull p True"
  shows "\<not> stressed \<and> (\<exists>t. ml_disk_start s = Some t \<and> now - t \<ge> stable_disk_io_period * 2)"
proof -
  let ?s = "restore_timers now pressure stressed r s"
  have "check_io stressed r" "ripe (ml_disk_start ?s) now (stable_disk_io_period * 2)"
    using assms by (auto simp: restore_step_for_def Let_def split: if_splits)
  then show ?thesis
    by (auto simp: restore_timers_def start_disk_timer_def start_pressure_timer_def check_io_def ripe_def
        stable_disk_io_period_def Let_def split: if_splits option.splits)
qed

lemma step_full_sys:
  assumes "restore_step_for now pressure stressed r (restore_timers now pressure stressed r s) = StepFull True d"
  shows "pressure = Low \<and> ml_current_pressure s = Some Low \<and> (\<exists>t. ml_pressure_start s = Some t \<and> now - t \<ge> stable_period)"
proof -
  let ?s = "restore_timers now pressure stressed r s"
  have "check_pressure pressure r" "pressure = Low" "ripe (ml_pressure_start ?s) now stable_period"
    using assms by (auto simp: restore_step_for_def Let_def split: if_splits)
  then show ?thesis
    by (auto simp: restore_timers_def start_disk_timer_def start_pressure_timer_def ripe_def
        stable_period_def Let_def split: if_splits option.splits)
qed

lemma restore_tick_effect:
  assumes "tick_separated_restore kern running now pressure stressed (s, r, w) = (s', r', w')"
    and "distinct (map fst (rg_apps r))" "map_of (rg_apps r) k = Some a"
  shows "r' = r \<or> (\<exists>ch. eased ch Partial a (map_of (rg_apps r') k)) \<or>
    (\<exists>p d x. restore_step_for now pressure stressed r (restore_timers now pressure stressed r s) = StepFull p d
       \<and> (if p then eased ChSys Full a x else x = Some a) \<and> after_disk d x (map_of (rg_apps r') k))"
proof -
  let ?s1 = "restore_timers now pressure stressed r s"
  let ?step = "restore_step_for now pressure stressed r ?s1"
  obtain s2 where step: "r' = r \<or> run_restore_step kern running ?step (?s1, r, w) = (s2, r', w')"
    using assms(1) by (auto simp: tick_separated_restore_def Let_def split: if_splits prod.splits)
  show ?thesis
  proof (cases ?step)
    case StepNone
    then show ?thesis using step by auto
  next
    case (StepPartial ch)
    obtain b r1 w1 where c: "restore_channel kern running ch Partial (r, w) = (b, r1, w1)" by (metis surj_pair)
    have "r' = r \<or> r' = r1" using step StepPartial c by auto
    then show ?thesis using restore_channel_eases [OF c assms(3,2)] by blast
  next
    case (StepFull p d)
    obtain b1 r1 w1 where c1: "restore_channel kern running ChSys Full (r, w) = (b1, r1, w1)" by (metis surj_pair)
    let ?r1 = "if p then r1 else r" and ?w1 = "if p then w1 else w"
    obtain b2 r2 w2 where c2: "restore_channel kern running ChDisk Full (?r1, ?w1) = (b2, r2, w2)" by (metis surj_pair)
    have r': "r' = r \<or> r' = (if d then r2 else ?r1)"
      using step StepFull c1 c2 by (cases p; cases d) auto
    have e1: "if p then eased ChSys Full a (map_of (rg_apps ?r1) k) else map_of (rg_apps ?r1) k = Some a"
      using restore_channel_eases [OF c1 assms(3,2)] assms(3) by simp
    have d1: "distinct (map fst (rg_apps ?r1))" using restore_channel_distinct [OF c1 assms(2)] assms(2) by simp
    have "after_disk d (map_of (rg_apps ?r1) k) (map_of (rg_apps (if d then r2 else ?r1)) k)"
      using restore_channel_eases [OF c2 _ d1] restore_channel_keeps_absent [OF c2]
      by (cases d) (auto simp: after_disk_def split: option.splits)
    then show ?thesis using e1 r' StepFull by blast
  qed
qed

lemma disk_lift_ripe:
  assumes "tick_separated_restore kern running now pressure stressed (s, r, w) = (s', r', w')"
    and "distinct (map fst (rg_apps r))" "map_of (rg_apps r) k = Some a" "la_io a" "\<not> keeps la_io (map_of (rg_apps r') k)"
  shows "\<not> stressed \<and> (\<exists>t. ml_disk_start s = Some t \<and> now - t \<ge> stable_disk_io_period * 2)"
proof -
  consider (same) "r' = r" | (part) ch where "eased ch Partial a (map_of (rg_apps r') k)"
    | (full) p d x where "restore_step_for now pressure stressed r (restore_timers now pressure stressed r s) = StepFull p d"
        "if p then eased ChSys Full a x else x = Some a" "after_disk d x (map_of (rg_apps r') k)"
    using restore_tick_effect [OF assms(1-3)] by blast
  then show ?thesis
  proof cases
    case same
    then show ?thesis using assms(3-5) by (simp add: keeps_def)
  next
    case (part ch)
    from eased_partial_safe [OF this] show ?thesis using assms(4,5) by blast
  next
    case (full p d x)
    have "d" using eased_full_safe [OF full(2,3)] assms(4,5) by blast
    with full(1) show ?thesis using step_full_disk [of now pressure stressed r s p] by simp
  qed
qed

text \<open>C9: a restore tick lifts a cap only for its own reason. In one restore tick a manual limit is never
  touched. A disk cap of an automatic limit is lifted only when the disk is not stressed and its calm
  timer has run twice the stability period; a CPU/memory cap only at low pressure, on a timer started at
  that level, after its own period. No cap is ever added.\<close>
theorem restore_tick_separated:
  assumes "tick_separated_restore kern running now pressure stressed (s, r, w) = (s', r', w')"
    and "distinct (map fst (rg_apps r))" "map_of (rg_apps r) k = Some a"
  shows "(la_source a = Manual \<longrightarrow> map_of (rg_apps r') k = Some a)
    \<and> (la_io a \<and> \<not> keeps la_io (map_of (rg_apps r') k) \<longrightarrow>
         \<not> stressed \<and> (\<exists>t. ml_disk_start s = Some t \<and> now - t \<ge> stable_disk_io_period * 2))
    \<and> (la_cpu_mem a \<and> \<not> keeps la_cpu_mem (map_of (rg_apps r') k) \<longrightarrow>
         pressure = Low \<and> ml_current_pressure s = Some Low
         \<and> (\<exists>t. ml_pressure_start s = Some t \<and> now - t \<ge> stable_period))
    \<and> (\<forall>b. map_of (rg_apps r') k = Some b \<longrightarrow> (la_io b \<longrightarrow> la_io a) \<and> (la_cpu_mem b \<longrightarrow> la_cpu_mem a))"
proof -
  let ?s1 = "restore_timers now pressure stressed r s"
  let ?step = "restore_step_for now pressure stressed r ?s1"
  note timers = restore_timers_def start_pressure_timer_def start_disk_timer_def check_pressure_def check_io_def
  have disk: "\<not> stressed \<and> (\<exists>t. ml_disk_start s = Some t \<and> now - t \<ge> stable_disk_io_period * 2)"
    if "?step = StepFull sys True" for sys
    using that step_full_disk by blast
  have sys: "pressure = Low \<and> ml_current_pressure s = Some Low \<and> (\<exists>t. ml_pressure_start s = Some t \<and> now - t \<ge> stable_period)"
    if "?step = StepFull True d" for d
    using that step_full_sys by blast
  consider (same) "r' = r" | (part) ch where "eased ch Partial a (map_of (rg_apps r') k)"
    | (full) p d x where "?step = StepFull p d" "if p then eased ChSys Full a x else x = Some a"
        "after_disk d x (map_of (rg_apps r') k)"
    using restore_tick_effect [OF assms] by blast
  then show ?thesis
  proof cases
    case same
    then show ?thesis using assms(3) by (simp add: keeps_def)
  next
    case (part ch)
    from eased_partial_safe [OF this] show ?thesis by blast
  next
    case (full p d x)
    then have "p \<longrightarrow> pressure = Low \<and> ml_current_pressure s = Some Low \<and> (\<exists>t. ml_pressure_start s = Some t \<and> now - t \<ge> stable_period)"
      "d \<longrightarrow> \<not> stressed \<and> (\<exists>t. ml_disk_start s = Some t \<and> now - t \<ge> stable_disk_io_period * 2)"
      using disk sys by auto
    with eased_full_safe [OF full(2,3)] show ?thesis by blast
  qed
qed

definition demo_app :: limited_app where
  "demo_app = fresh_entry 1 \<lparr>lq_public_id = ''app'', lq_name = ''app'', lq_rates = \<lparr>lr_cpu = None, lr_mem = None, lr_io = None\<rparr>,
     lq_resource = True, lq_io = True, lq_priority = ''low'', lq_controlled = False, lq_reason = ''disk'', lq_level = ''critical'',
     lq_cgroups = [''a.scope''], lq_disks = [], lq_pids = [], lq_rep_pid = None, lq_res_cpu = True, lq_res_mem = True\<rparr>"

lemma demo_app_fields [simp]: "la_source demo_app = Auto" "la_cpu_mem demo_app" "la_io demo_app" "la_cgroups demo_app = [''a.scope'']"
  "la_disks demo_app = []"
  by (simp_all add: demo_app_def fresh_entry_def uniq_def)

definition demo_registry :: registry where
  "demo_registry = \<lparr>rg_apps = [(''a.scope'', demo_app)], rg_exclusions = [], rg_baseline = [], rg_dominant = False\<rparr>"

definition yes_kernel :: "unit lim_kernel" where
  "yes_kernel = \<lparr>lk_relax = (\<lambda>c q m w. (True, w)), lk_lift = (\<lambda>c w. (True, w)), lk_io_cap = (\<lambda>c i d w. (True, w)),
     lk_io_lift = (\<lambda>c d w. (True, w)), lk_total_mem = 1\<rparr>"

lemma demo_restore_disk:
  "\<exists>r'. restore_channel yes_kernel True ChDisk Full (demo_registry, ()) = (True, r', ())
     \<and> map_of (rg_apps r') ''a.scope'' = Some (demo_app\<lparr>la_io := False, la_part_io := False\<rparr>)
     \<and> rg_apps r' = [(''a.scope'', demo_app\<lparr>la_io := False, la_part_io := False\<rparr>)]"
  by (simp add: restore_channel_def first_auto_with_part_def demo_registry_def restore_channel_for_def
      restore_resources_def restore_io_def yes_kernel_def update_entry_def move_to_end_def Let_def)

lemma demo_parts [simp]: "any_auto_with ch demo_registry" "first_auto demo_registry = Some (''a.scope'', demo_app)"
  by (cases ch; simp add: any_auto_with_def first_auto_def demo_registry_def)+

lemmas restore_arm_defs = tick_separated_restore_def restore_timers_def restore_step_for_def check_pressure_def check_io_def
  start_pressure_timer_def start_disk_timer_def ripe_def mloop_init_def stable_period_def stable_disk_io_period_def step_raises_def

theorem restore_tick_separated_witness:
  "\<not> keeps la_io (map_of (rg_apps (fst (snd (tick_separated_restore yes_kernel True 700 Medium False
      (mloop_init\<lparr>ml_disk_start := Some 0\<rparr>, demo_registry, ()))))) ''a.scope'')
   \<and> (\<exists>t. Some (0::real) = Some t \<and> 700 - t \<ge> stable_disk_io_period * 2)"
proof -
  let ?s = "mloop_init\<lparr>ml_disk_start := Some 0\<rparr>"
  obtain r1 where r1: "restore_channel yes_kernel True ChDisk Full (demo_registry, ()) = (True, r1, ())"
    "map_of (rg_apps r1) ''a.scope'' = Some (demo_app\<lparr>la_io := False, la_part_io := False\<rparr>)"
    using demo_restore_disk by blast
  have tick: "\<exists>s'. tick_separated_restore yes_kernel True 700 Medium False (?s, demo_registry, ()) = (s', r1, ())"
    using r1(1)
    by (simp add: restore_arm_defs)
  then obtain s' where s': "tick_separated_restore yes_kernel True 700 Medium False (?s, demo_registry, ()) = (s', r1, ())" by blast
  have k: "\<not> keeps la_io (map_of (rg_apps r1) ''a.scope'')" using r1(2) by (simp add: keeps_def)
  have d: "distinct (map fst (rg_apps demo_registry))" "map_of (rg_apps demo_registry) ''a.scope'' = Some demo_app"
    by (simp_all add: demo_registry_def)
  from restore_tick_separated [OF s' d] k have "\<exists>t. ml_disk_start ?s = Some t \<and> 700 - t \<ge> stable_disk_io_period * 2" by simp
  then show ?thesis unfolding s' using k by simp
qed

subsection \<open>The calm timer of the disk\<close>

definition stressed_level :: "level \<Rightarrow> bool" where
  "stressed_level d \<longleftrightarrow> d = High \<or> d = Critical"

lemma batch_timers [simp]:
  "ml_disk_start (drop_top_batch s) = ml_disk_start s" "ml_disk_start (loop_reset s) = ml_disk_start s"
  "ml_disk_start (keep_top_batch a b c n s) = ml_disk_start s"
  by (simp_all add: drop_top_batch_def loop_reset_def keep_top_batch_def)

lemma disk_arm_timer: "disk_arm env d (s, r, w) = (s', r', w') \<Longrightarrow> ml_disk_start s' = ml_disk_start s"
  by (auto simp: disk_arm_def split: option.splits if_splits prod.splits)

lemma sys_arm_timer: "sys_arm env (s, r, w) = (s', r', w') \<Longrightarrow> ml_disk_start s' = ml_disk_start s"
  by (auto simp: sys_arm_def split: prod.splits)

lemma run_restore_step_timer:
  "run_restore_step kern running stp (s, r, w) = (s', r', w') \<Longrightarrow> ml_disk_start s' = ml_disk_start s \<or> ml_disk_start s' = None"
  by (cases stp) (auto simp: Let_def split: prod.splits if_splits)

lemma restore_tick_timer:
  assumes "tick_separated_restore kern running now p stressed (s, r, w) = (s', r', w')"
  shows "ml_disk_start s' = ml_disk_start s \<or> ml_disk_start s' = None \<or> ml_disk_start s' = Some now"
proof -
  let ?s1 = "restore_timers now p stressed r s"
  have t: "ml_disk_start ?s1 = ml_disk_start s \<or> ml_disk_start ?s1 = Some now"
    by (auto simp: restore_timers_def start_disk_timer_def start_pressure_timer_def Let_def)
  obtain s2 r2 w2 where x: "run_restore_step kern running (restore_step_for now p stressed r ?s1) (?s1, r, w) = (s2, r2, w2)"
    by (metis surj_pair)
  have "s' = s \<or> s' = loop_reset s \<or> s' = loop_reset (?s1\<lparr>ml_restore_pending := True\<rparr>) \<or> s' = s2\<lparr>ml_restore_pending := False\<rparr>"
    using assms unfolding tick_separated_restore_def Let_def prod.case x by (auto split: if_splits)
  then show ?thesis using run_restore_step_timer [OF x] t by auto
qed

lemma pressed_state_timer: "ml_disk_start (pressed_state env now ch r s) = (if ch = ChSys then ml_disk_start s else None)"
  by (simp add: pressed_state_def Let_def split: prod.splits)

lemma pressed_tick_timer:
  assumes "tick_separated_policy env now p d True (s, r, w) = (s', r', w')" "p = Critical \<or> stressed_level d"
  shows "ml_disk_start s' = (if p = Critical then ml_disk_start s else None)"
proof -
  let ?s5 = "pressed_state env now (pressed_channel p) r s"
  have "(if ml_batch ?s5 = [] then (loop_reset ?s5, r, w)
     else if pressed_channel p = ChSys then sys_arm env (?s5, r, w) else disk_arm env d (?s5, r, w)) = (s', r', w')"
    using assms by (simp add: tick_separated_policy_def pressed_def stressed_level_def Let_def)
  then have "ml_disk_start s' = ml_disk_start ?s5"
    using sys_arm_timer disk_arm_timer by (auto split: if_splits)
  then show ?thesis by (simp add: pressed_state_timer pressed_channel_def)
qed

lemma calm_tick_timer:
  assumes "tick_separated_policy env now p d True (s, r, w) = (s', r', w')" "p \<noteq> Critical" "\<not> stressed_level d"
  shows "ml_disk_start s' = ml_disk_start s \<or> ml_disk_start s' = None \<or> ml_disk_start s' = Some now"
proof (cases "te_pending env w")
  case True
  then show ?thesis using assms by (auto simp: tick_separated_policy_def pressed_def stressed_level_def Let_def)
next
  case False
  then have "tick_separated_restore (te_kernel env) (te_running env) now p False (s, r, w) = (s', r', w')"
    using assms by (auto simp: tick_separated_policy_def pressed_def stressed_level_def Let_def)
  then show ?thesis by (rule restore_tick_timer)
qed

definition demo_env :: "unit tick_env" where
  "demo_env = \<lparr>te_kernel = yes_kernel, te_running = True, te_fetch = (\<lambda>c. ([], False)), te_cache_stale = False,
     te_disk = \<lparr>de_quiet = (\<lambda>w. False), de_control = (\<lambda>a b. (False, None)), de_resolve = (\<lambda>c d. None),
       de_floors = floor_default, de_media = (\<lambda>d. Nvme)\<rparr>,
     te_apply = (\<lambda>c a st. st), te_sys_arm = (\<lambda>c b st. st), te_drain = (\<lambda>w. w), te_pending = (\<lambda>w. False)\<rparr>"

definition demo_loop :: mloop where
  "demo_loop = mloop_init\<lparr>ml_pressure_start := Some 10, ml_current_pressure := Some Medium, ml_disk_start := Some 10\<rparr>"

subsection \<open>What the timers miss\<close>

text \<open>The calm timer of the disk is stopped by the disk arm only. A tick in which the system is critical while
  the disk is stressed takes the other arm, so the timer runs through it and the next calm tick restores.\<close>
lemma disk_timer_runs_through_critical:
  "\<exists>s1 s2 r2. tick_separated_policy demo_env 605 Critical Critical True (demo_loop, demo_registry, ()) = (s1, demo_registry, ())
     \<and> tick_separated_policy demo_env 611 Medium Low True (s1, demo_registry, ()) = (s2, r2, ())
     \<and> map_of (rg_apps r2) ''a.scope'' = Some (demo_app\<lparr>la_io := False, la_part_io := False\<rparr>)"
proof -
  let ?s1 = "demo_loop\<lparr>ml_pressure_start := None\<rparr>"
  have a: "tick_separated_policy demo_env 605 Critical Critical True (demo_loop, demo_registry, ()) = (?s1, demo_registry, ())"
    by (simp add: tick_separated_policy_def pressed_def pressed_channel_def pressed_state_def demo_env_def mloop_init_def
      demo_loop_def stale_top_batch_def keep_top_batch_def drop_excluded_candidates_def loop_reset_def drop_top_batch_def)
  have b: "\<exists>s2 r2. tick_separated_policy demo_env 611 Medium Low True (?s1, demo_registry, ()) = (s2, r2, ())
     \<and> map_of (rg_apps r2) ''a.scope'' = Some (demo_app\<lparr>la_io := False, la_part_io := False\<rparr>)"
    using demo_restore_disk
    by (auto simp: tick_separated_policy_def pressed_def demo_env_def demo_loop_def restore_arm_defs)
  show ?thesis using a b by blast
qed

text \<open>A tick at high pressure does not restart the pressure timer while a disk cap is being considered.\<close>
lemma pressure_timer_runs_through_high:
  assumes "any_auto_with ChDisk r" "first_auto r \<noteq> None" "\<not> ml_restore_pending s"
    and "tick_separated_restore kern running now High False (s, r, w) = (s', r', w')"
    and "\<not> step_raises running (restore_step_for now High False r (restore_timers now High False r s)) r"
  shows "ml_pressure_start s' = ml_pressure_start s \<and> ml_current_pressure s' = ml_current_pressure s"
proof -
  let ?s1 = "restore_timers now High False r s"
  have keep: "ml_pressure_start ?s1 = ml_pressure_start s" "ml_current_pressure ?s1 = ml_current_pressure s"
    by (auto simp: restore_timers_def check_pressure_def start_disk_timer_def Let_def)
  obtain s2 r2 w2 where x: "run_restore_step kern running (restore_step_for now High False r ?s1) (?s1, r, w) = (s2, r2, w2)"
    by (metis surj_pair)
  have io: "check_io False r" using assms(1) by (simp add: check_io_def)
  have "s' = s2\<lparr>ml_restore_pending := False\<rparr>"
    using assms(2-5) io unfolding tick_separated_restore_def Let_def prod.case x by auto
  moreover have "ml_pressure_start s2 = ml_pressure_start ?s1 \<and> ml_current_pressure s2 = ml_current_pressure ?s1"
    using x by (cases "restore_step_for now High False r ?s1") (auto simp: Let_def split: prod.splits if_splits)
  ultimately show ?thesis using keep by simp
qed

text \<open>A partial restore of an application whose CPU or memory rate is not set raises, and from then on every restore
  tick does nothing: the flag that a restore is under way stays set until the next pressed tick.\<close>
lemma raising_relaxation_blocks_restores:
  assumes "step_raises running (restore_step_for now p stressed r (restore_timers now p stressed r s)) r"
    and "first_auto r \<noteq> None" "\<not> ml_restore_pending s" "check_pressure p r \<or> check_io stressed r"
  shows "\<exists>s1. tick_separated_restore kern running now p stressed (s, r, w) = (s1, r, w)
    \<and> (\<forall>now' p' d' w'. tick_separated_restore kern running now' p' d' (s1, r, w') = (s1, r, w'))"
proof -
  let ?s1 = "loop_reset ((restore_timers now p stressed r s)\<lparr>ml_restore_pending := True\<rparr>)"
  have "tick_separated_restore kern running now p stressed (s, r, w) = (?s1, r, w)"
    using assms by (auto simp: tick_separated_restore_def Let_def)
  moreover have "ml_restore_pending ?s1" by (simp add: loop_reset_def drop_top_batch_def)
  then have "tick_separated_restore kern running now' p' d' (?s1, r, w') = (?s1, r, w')" for now' p' d' w'
    by (simp add: tick_separated_restore_def)
  ultimately show ?thesis by blast
qed

text \<open>A full restore drops the entry of an application although the cap of an extra cgroup could not be lifted.\<close>
lemma full_restore_ignores_extra_failures:
  assumes "lk_io_lift kern k (la_disks a) w = (True, w1)"
    and "map_of (rg_apps r) k = Some a" "distinct (map fst (rg_apps r))" "la_io a" "\<not> la_cpu_mem a" "rates = la_rates a"
  shows "\<exists>r'. restore_channel_for kern True k a ChDisk Full (r, w)
      = (True, r', each_extra (\<lambda>c. lk_io_lift kern c (la_disks a)) (tl (la_cgroups a)) w1)
    \<and> map_of (rg_apps r') k = None"
  using assms
  by (simp add: restore_channel_for_def restore_resources_def restore_io_def update_entry_def Let_def
      map_of_update_entry update_conv' delete_conv)

subsection \<open>Choosing a consumer and excluding one\<close>

lemma first_throttleable_cases:
  "case first_throttleable env r i cs of
     None \<Rightarrow> list_all (skip_candidate env r) cs
   | Some c \<Rightarrow> \<exists>ca before after. cs = before @ ca # after \<and> list_all (skip_candidate env r) before
       \<and> \<not> skip_candidate env r ca \<and> c = choice_for env ca (i + length before)"
proof (induction cs arbitrary: i)
  case Nil
  show ?case by simp
next
  case (Cons x cs)
  show ?case
  proof (cases "skip_candidate env r x")
    case False
    have "x # cs = [] @ x # cs \<and> list_all (skip_candidate env r) [] \<and> \<not> skip_candidate env r x
        \<and> choice_for env x i = choice_for env x (i + length [])" using False by simp
    then have "\<exists>ca before after. x # cs = before @ ca # after \<and> list_all (skip_candidate env r) before
        \<and> \<not> skip_candidate env r ca \<and> choice_for env x i = choice_for env ca (i + length before)" by blast
    then show ?thesis using False by simp
  next
    case True
    show ?thesis
    proof (cases "first_throttleable env r (Suc i) cs")
      case None
      then show ?thesis using True Cons.IH [where i="Suc i"] by simp
    next
      case (Some c)
      then obtain ca before after where "cs = before @ ca # after" "list_all (skip_candidate env r) before"
        "\<not> skip_candidate env r ca" "c = choice_for env ca (Suc i + length before)"
        using Cons.IH [where i="Suc i"] by auto
      then have "x # cs = (x # before) @ ca # after" "list_all (skip_candidate env r) (x # before)"
        "\<not> skip_candidate env r ca" "c = choice_for env ca (i + length (x # before))"
        using True by simp_all
      then show ?thesis using Some True unfolding first_throttleable.simps if_P [OF True] Some option.case by blast
    qed
  qed
qed

lemma chosen_index: "dc_index (choice_for env ca i) = i"
  by (simp add: choice_for_def split: prod.splits)

lemma not_skipped:
  assumes "\<not> skip_candidate env r ca"
  shows "ca_id ca \<noteq> []" "is_excluded (ca_id ca) (lower (ca_name ca)) (candidate_cgroups ca) r = None"
    "qualifies_for_throttle (de_floors env) (de_media env) ca"
    "\<not> already_io_limited r (known_ids ca (snd (de_control env (ca_id ca) (lower (ca_name ca)))))"
    "de_control env (ca_id ca) (lower (ca_name ca)) = (True, Some d) \<Longrightarrow> lower (cd_priority d) \<noteq> ''critical''"
  using assms by (auto simp: skip_candidate_def split: prod.splits)

text \<open>The disk arm picks the first candidate it may throttle. Whenever it picks one, the machine is outside the
  quiet window of its own reclaim; everything ranked above the pick had to be skipped; and the pick has an id, is not a
  critical application, is not excluded, carries no automatic disk cap under any of its ids and is heavy enough for
  its disks. It picks none only in the quiet window or when every candidate has to be skipped.\<close>
lemma disk_choice_sound:
  "case handle_disk_io_stressed env w r cs of
     None \<Rightarrow> de_quiet env w \<or> list_all (skip_candidate env r) cs
   | Some c \<Rightarrow> \<not> de_quiet env w \<and> dc_index c < length cs \<and> list_all (skip_candidate env r) (take (dc_index c) cs)
       \<and> (let ca = cs ! dc_index c; ctl = de_control env (ca_id ca) (lower (ca_name ca))
          in c = choice_for env ca (dc_index c) \<and> ca_id ca \<noteq> []
             \<and> \<not> (\<exists>d. ctl = (True, Some d) \<and> lower (cd_priority d) = ''critical'')
             \<and> is_excluded (ca_id ca) (lower (ca_name ca)) (candidate_cgroups ca) r = None
             \<and> \<not> already_io_limited r (known_ids ca (snd ctl))
             \<and> qualifies_for_throttle (de_floors env) (de_media env) ca)"
proof (cases "handle_disk_io_stressed env w r cs")
  case None
  then show ?thesis using first_throttleable_cases [where i=0 and cs=cs and env=env and r=r] by (auto simp: handle_disk_io_stressed_def split: if_splits)
next
  case (Some c)
  then have q: "\<not> de_quiet env w" and ft: "first_throttleable env r 0 cs = Some c"
    by (auto simp: handle_disk_io_stressed_def split: if_splits)
  obtain ca before after where cs: "cs = before @ ca # after" and sk: "list_all (skip_candidate env r) before"
    "\<not> skip_candidate env r ca" and c: "c = choice_for env ca (length before)"
    using first_throttleable_cases [where i=0 and cs=cs and env=env and r=r] unfolding ft by auto
  have i: "dc_index c = length before" using c by (simp add: chosen_index)
  have ca: "cs ! dc_index c = ca" by (simp add: i cs)
  have tk: "take (dc_index c) cs = before" by (simp add: i cs)
  have len: "dc_index c < length cs" by (simp add: i cs)
  have cc: "c = choice_for env ca (dc_index c)" using c i by simp
  show ?thesis unfolding Some option.case Let_def ca tk
    using q sk(1) len cc not_skipped [OF sk(2)] by blast
qed

lemma exclusion_recorded:
  "map_of (rg_exclusions (add_exclusion a reason r)) (ex_key (exclusion_of a reason)) = Some (exclusion_of a reason)"
  by (simp add: add_exclusion_def update_conv')

lemma find_not_None: "x \<in> set xs \<Longrightarrow> P x \<Longrightarrow> find P xs \<noteq> None"
  by (auto simp: find_None_iff)

lemma excluded_by_id:
  assumes "i \<in> set (app_id # cgs)" "i \<noteq> []" "i = la_public_id a \<or> i \<in> set (la_cgroups a)"
  shows "is_excluded app_id name cgs (add_exclusion a reason r) \<noteq> None"
proof -
  let ?e = "exclusion_of a reason"
  have mem: "(ex_key ?e, ?e) \<in> set (rg_exclusions (add_exclusion a reason r))"
    by (rule map_of_SomeD [OF exclusion_recorded])
  have "i = ex_app_id ?e \<or> i \<in> set (ex_cgroups ?e)" using assms(3) by (simp add: exclusion_of_def Let_def)
  moreover have "i \<in> set (filter (\<lambda>i. i \<noteq> []) (app_id # cgs))" using assms(1,2) by auto
  ultimately have "case (ex_key ?e, ?e) of (k, rec) \<Rightarrow>
      (\<exists>i\<in>set (filter (\<lambda>i. i \<noteq> []) (app_id # cgs)). i = ex_app_id rec \<or> i \<in> set (ex_cgroups rec))
      \<or> (ex_app_kind rec \<and> lower (strip name) \<noteq> [] \<and> lower (strip name) = lower (strip (ex_app_name rec)))" by blast
  note hit = this
  show ?thesis unfolding is_excluded_def Let_def option.map_disc_iff
    by (rule find_not_None [where P="\<lambda>(k, rec). _ k rec", OF mem]) (use hit in simp)
qed

lemma skip_excluded:
  assumes "i \<in> set (ca_id ca # candidate_cgroups ca)" "i \<noteq> []" "i = la_public_id a \<or> i \<in> set (la_cgroups a)"
  shows "skip_candidate env (add_exclusion a reason r) ca"
  using excluded_by_id [OF assms] by (simp add: skip_candidate_def split: prod.splits)

lemma choice_not_skipped:
  assumes "handle_disk_io_stressed env w r cs = Some c"
  shows "\<not> skip_candidate env r (cs ! dc_index c)"
proof -
  have "first_throttleable env r 0 cs = Some c"
    using assms by (auto simp: handle_disk_io_stressed_def split: if_splits)
  then show ?thesis using first_throttleable_cases [where i=0 and cs=cs and env=env and r=r]
    by (auto simp: chosen_index)
qed

lemma remove_added_exclusion:
  assumes "map_of (rg_exclusions r) (ex_key (exclusion_of a reason)) = None"
  shows "remove_exclusion (ex_key (exclusion_of a reason)) (add_exclusion a reason r) = (Some (exclusion_of a reason), r)"
proof -
  let ?k = "ex_key (exclusion_of a reason)"
  have out: "?k \<notin> fst ` set (rg_exclusions r)" using assms by (simp add: map_of_eq_None_iff)
  have "AList.delete ?k (AList.update ?k (exclusion_of a reason) (rg_exclusions r)) = rg_exclusions r"
    using out by (simp add: delete_update_same)
  then show ?thesis using exclusion_recorded [of a reason r]
    by (simp add: remove_exclusion_def add_exclusion_def)
qed

text \<open>C11: an exclusion protects the application. Once a limited application is excluded, a candidate sharing its id or
  one of its cgroups is not in the batch of any pressed tick, whichever arm it takes and even when the batch was fetched
  before the exclusion was made; the disk arm does not pick it from any list either; and removing a freshly added
  exclusion gives back the registry as it was.\<close>
theorem exclusion_protects:
  assumes "i \<in> set (ca_id ca # candidate_cgroups ca)" "i \<noteq> []" "i = la_public_id a \<or> i \<in> set (la_cgroups a)"
  shows "ca \<notin> set (ml_batch (pressed_state tenv now ch (add_exclusion a reason r) s))
    \<and> (\<forall>(env :: 'w disk_env) w c. handle_disk_io_stressed env w (add_exclusion a reason r) cs = Some c \<longrightarrow> cs ! dc_index c \<noteq> ca)
    \<and> (map_of (rg_exclusions r) (ex_key (exclusion_of a reason)) = None \<longrightarrow>
        remove_exclusion (ex_key (exclusion_of a reason)) (add_exclusion a reason r) = (Some (exclusion_of a reason), r))"
proof -
  have "ca \<notin> set (ml_batch (pressed_state tenv now ch (add_exclusion a reason r) s))"
    using excluded_by_id [OF assms] by (auto simp: pressed_state_def drop_excluded_candidates_def Let_def split: prod.splits)
  moreover have "cs ! dc_index c \<noteq> ca" if "handle_disk_io_stressed env w (add_exclusion a reason r) cs = Some c"
    for env :: "'w disk_env" and w c
    using choice_not_skipped [OF that] skip_excluded [OF assms, where env=env] by auto
  ultimately show ?thesis using remove_added_exclusion by blast
qed

definition demo_candidate :: candidate where
  "demo_candidate = \<lparr>ca_id = ''x'', ca_name = ''x'', ca_cgroup = ''/u/a.scope'', ca_cgroup_id = [], ca_extra = [], ca_read_mb = 90,
     ca_write_mb = 0, ca_read_iops = 0, ca_write_iops = 0, ca_per_disk = [],
     ca_app_name = [], ca_pids = [], ca_pid = None, ca_mem_rss = [], ca_cpu = [], ca_public_id = [], ca_priority = []\<rparr>"

theorem exclusion_protects_witness:
  "demo_candidate \<notin> set (ml_batch (pressed_state demo_env 5 ChDisk (add_exclusion demo_app ''user_restore'' demo_registry)
      (mloop_init\<lparr>ml_batch := [demo_candidate], ml_top_source := Some ChDisk\<rparr>)))"
proof -
  have "sampled_cgroup demo_candidate = ''a.scope''" by (simp add: sampled_cgroup_def demo_candidate_def basename_of_def strip_def is_space_def)
  then have "''a.scope'' \<in> set (ca_id demo_candidate # candidate_cgroups demo_candidate)"
    by (simp add: candidate_cgroups_def demo_candidate_def)
  moreover have "''a.scope'' \<noteq> []" "''a.scope'' = la_public_id demo_app \<or> ''a.scope'' \<in> set (la_cgroups demo_app)" by simp_all
  ultimately show ?thesis using exclusion_protects by blast
qed

lemma set_uniq [simp]: "set (uniq xs) = set xs"
  by (simp add: uniq_def)

text \<open>limiting an application again forgets no cap. Refreshing the entry of an automatically limited application
  keeps both channels' flags, the first time stamp and the cgroups, disks and pids that carry caps; it adds those of the new limit, ends the relaxation of exactly the channels just capped, reports
  the channels that were not capped before and leaves every other entry alone.\<close>
theorem upsert_keeps_caps:
  assumes "upsert_auto_limited now k q r = (hit, r')" "map_of (rg_apps r) k = Some prev" "la_source prev = Auto"
  shows "\<exists>e. map_of (rg_apps r') k = Some e \<and> la_source e = Auto
    \<and> la_cpu_mem e = (la_cpu_mem prev \<or> lq_resource q) \<and> la_io e = (la_io prev \<or> lq_io q)
    \<and> la_limited_at e = (if la_limited_at prev = 0 then now else la_limited_at prev)
    \<and> set (la_cgroups e) = set (la_cgroups prev) \<union> set (lq_cgroups q)
    \<and> set (la_disks e) = set (la_disks prev) \<union> set (lq_disks q) \<and> set (la_pids e) = set (la_pids prev) \<union> set (lq_pids q)
    \<and> (la_part_sys e \<longleftrightarrow> la_part_sys prev \<and> \<not> lq_resource q) \<and> (la_part_io e \<longleftrightarrow> la_part_io prev \<and> \<not> lq_io q)
    \<and> (la_relaxed e \<longleftrightarrow> la_part_sys e \<or> la_part_io e)
    \<and> la_rates e = lq_rates q
    \<and> hit = (lq_resource q \<and> \<not> la_cpu_mem prev, lq_io q \<and> \<not> la_io prev)
    \<and> (\<forall>j. j \<noteq> k \<longrightarrow> map_of (rg_apps r') j = map_of (rg_apps r) j)"
proof -
  have r': "r' = r\<lparr>rg_apps := AList.update k (merged_entry now q prev) (rg_apps r)\<rparr>"
    and hit: "hit = (lq_resource q \<and> \<not> la_cpu_mem prev, lq_io q \<and> \<not> la_io prev)"
    using assms by (auto simp: upsert_auto_limited_def)
  show ?thesis unfolding hit r'
    by (auto simp: update_conv' merged_entry_def fresh_entry_def merge_rates_def Let_def)
qed

theorem upsert_keeps_caps_witness:
  "\<exists>e. map_of (rg_apps (snd (upsert_auto_limited 9 ''a.scope''
      \<lparr>lq_public_id = ''app'', lq_name = ''app'', lq_rates = \<lparr>lr_cpu = None, lr_mem = None, lr_io = None\<rparr>,
       lq_resource = False, lq_io = True, lq_priority = ''low'', lq_controlled = False, lq_reason = ''disk'', lq_level = ''critical'',
       lq_cgroups = [''b.scope''], lq_disks = [''sda''], lq_pids = [], lq_rep_pid = None, lq_res_cpu = False, lq_res_mem = False\<rparr>
      demo_registry))) ''a.scope'' = Some e \<and> la_cpu_mem e \<and> la_limited_at e = 1 \<and> set (la_cgroups e) = {''a.scope'', ''b.scope''}"
proof -
  define q where "q = \<lparr>lq_public_id = ''app'', lq_name = ''app'', lq_rates = \<lparr>lr_cpu = None, lr_mem = None, lr_io = None\<rparr>,
       lq_resource = False, lq_io = True, lq_priority = ''low'', lq_controlled = False, lq_reason = ''disk'', lq_level = ''critical'',
       lq_cgroups = [''b.scope''], lq_disks = [''sda''], lq_pids = [], lq_rep_pid = None, lq_res_cpu = False, lq_res_mem = False\<rparr>"
  obtain hit r' where u: "upsert_auto_limited 9 ''a.scope'' q demo_registry = (hit, r')" by fastforce
  have m: "map_of (rg_apps demo_registry) ''a.scope'' = Some demo_app" by (simp add: demo_registry_def)
  have at: "la_limited_at demo_app = 1" by (simp add: demo_app_def fresh_entry_def)
  have cg: "set (lq_cgroups q) = {''b.scope''}" by (simp add: q_def)
  from upsert_keeps_caps [OF u m demo_app_fields(1)] obtain e where
    "map_of (rg_apps r') ''a.scope'' = Some e" "la_cpu_mem e" "la_limited_at e = 1" "set (la_cgroups e) = {''a.scope'', ''b.scope''}"
    unfolding at cg by auto
  then show ?thesis unfolding q_def [symmetric] u snd_conv by blast
qed

end
