(* ===== verification/Limit_Rates.thy ===== *)
theory Limit_Rates
  imports Limit_Policy
begin

text \<open>
  The rates a limit is taken at, from \<open>balancer/balancer/balancer.py\<close>: the bounds of a priority, the merge of the
  policy table with an application's overrides (\<open>get_limited_rates\<close>), the choices offered to the user and the profile
  shown for an application (\<open>get_resource_limit_profile\<close>). Tables are \<open>pyval\<close>, as YAML and JSON deliver them; what
  \<open>float()\<close> makes of a string is an argument. Reading the overrides from the database and the names of the
  processes are arguments.
\<close>

subsection \<open>Bounds\<close>

record rate_bounds =
  rb_cpu_min :: real
  rb_cpu_max :: real
  rb_mem_min :: real
  rb_mem_max :: real

definition limit_rate_bounds :: "string \<Rightarrow> rate_bounds" where
  "limit_rate_bounds priority =
     (let p = lower (if priority = [] then ''undefined'' else priority);
          (cl, ch) = (if p = ''high'' then (10/100, 90/100) else if p = ''medium'' then (5/100, 70/100)
                      else if p = ''low'' then (1/100, 50/100) else (1/100, 40/100));
          (ml, mh) = (if p = ''high'' then (10/100, 60/100) else if p = ''medium'' then (5/100, 40/100)
                      else (1/100, 30/100))
      in \<lparr>rb_cpu_min = cl, rb_cpu_max = ch, rb_mem_min = ml, rb_mem_max = mh\<rparr>)"

definition clamp_rate :: "real option \<Rightarrow> real \<Rightarrow> real \<Rightarrow> real option" where
  "clamp_rate v low high = map_option (clamp low high) v"

subsection \<open>The rates of a priority\<close>

definition or_dict :: "pyval \<Rightarrow> pyval" where
  \<comment> \<open>\<open>v or {}\<close>\<close>
  "or_dict v = (if truthy v then v else PDict [])"

fun int_of :: "pyval \<Rightarrow> py_error + int" where
  \<comment> \<open>\<open>int(v)\<close>\<close>
  "int_of (PInt i) = Inr i"
| "int_of (PBool b) = Inr (if b then 1 else 0)"
| "int_of (PFloat x) = Inr (py_trunc x)"
| "int_of (PStr s) = (case py_int s of None \<Rightarrow> Inl ValueError | Some i \<Rightarrow> Inr i)"
| "int_of _ = Inl TypeError"

definition section_rate ::
  "(string \<Rightarrow> real option) \<Rightarrow> pyval \<Rightarrow> pyval \<Rightarrow> string \<Rightarrow> string \<Rightarrow> real \<Rightarrow> real \<Rightarrow> py_error + real option" where
  \<comment> \<open>the CPU and the memory section: the override wins key by key over the policy\<close>
  "section_rate parse policy overrides name priority low high =
     bindE (attr_get policy name (PDict [])) (\<lambda>cfg.
     bindE (attr_get cfg ''rate'' (PDict [])) (\<lambda>rates.
     bindE (attr_get overrides name (PDict [])) (\<lambda>o0.
     bindE (attr_get cfg ''enabled'' (PBool False)) (\<lambda>cfg_enabled.
     bindE (attr_get (dict_or o0) ''enabled'' cfg_enabled) (\<lambda>enabled.
     bindE (attr_get rates priority PNone) (\<lambda>cfg_rate.
     bindE (attr_get (dict_or o0) ''rate'' cfg_rate) (\<lambda>rate.
       if truthy enabled \<and> rate \<noteq> PNone
       then bindE (float_of parse rate) (\<lambda>x. Inr (clamp_rate (Some x) low high))
       else Inr None)))))))"

definition to_pos_int :: "(string \<Rightarrow> real option) \<Rightarrow> pyval \<Rightarrow> string \<Rightarrow> pyval \<Rightarrow> py_error + int" where
  "to_pos_int parse disk_rate name fallback =
     bindE (attr_get disk_rate name fallback) (\<lambda>raw.
       case float_of parse raw of
         Inr x \<Rightarrow> Inr (max 1 (py_trunc x))
       | Inl _ \<Rightarrow> bindE (int_of fallback) (\<lambda>i. Inr (max 1 i)))"

definition disk_default :: "pyval \<Rightarrow> string \<Rightarrow> py_error + pyval" where
  "disk_default default_disk_rate name =
     (if truthy default_disk_rate then attr_get default_disk_rate name (PInt 1) else Inr (PInt 1))"

definition disk_io_rate :: "(string \<Rightarrow> real option) \<Rightarrow> pyval \<Rightarrow> pyval \<Rightarrow> string \<Rightarrow> py_error + io_rates option" where
  "disk_io_rate parse policy overrides priority =
     bindE (attr_get policy ''disk_io'' (PDict [])) (\<lambda>cfg.
     bindE (attr_get cfg ''rate'' (PDict [])) (\<lambda>rates.
     bindE (attr_get rates priority PNone) (\<lambda>default_disk_rate.
     bindE (attr_get overrides ''disk_io'' (PDict [])) (\<lambda>o0.
     bindE (attr_get cfg ''enabled'' (PBool False)) (\<lambda>cfg_enabled.
     bindE (attr_get (dict_or o0) ''enabled'' cfg_enabled) (\<lambda>enabled.
     bindE (attr_get (dict_or o0) ''rate'' default_disk_rate) (\<lambda>disk_rate.
       if truthy enabled \<and> is_dict disk_rate
       then bindE (disk_default default_disk_rate ''write'') (\<lambda>dw.
            bindE (disk_default default_disk_rate ''read'') (\<lambda>dr.
            bindE (disk_default default_disk_rate ''write_iops'') (\<lambda>dwi.
            bindE (disk_default default_disk_rate ''read_iops'') (\<lambda>dri.
            bindE (to_pos_int parse disk_rate ''write'' dw) (\<lambda>w.
            bindE (to_pos_int parse disk_rate ''read'' dr) (\<lambda>r.
            bindE (to_pos_int parse disk_rate ''write_iops'' dwi) (\<lambda>wi.
            bindE (to_pos_int parse disk_rate ''read_iops'' dri) (\<lambda>ri.
              Inr (Some \<lparr>ir_read = of_int r, ir_write = of_int w, ir_read_iops = of_int ri, ir_write_iops = of_int wi\<rparr>)))))))))
       else Inr None)))))))"

definition no_rates :: limit_rates where
  "no_rates = \<lparr>lr_cpu = None, lr_mem = None, lr_io = None\<rparr>"

definition get_limited_rates ::
  "(string \<Rightarrow> real option) \<Rightarrow> pyval option \<Rightarrow> string \<Rightarrow> pyval \<Rightarrow> py_error + limit_rates" where
  \<comment> \<open>the policy is None when the configuration has no \<open>limit_policy\<close>\<close>
  "get_limited_rates parse limit_policy priority limit_overrides =
     (case limit_policy of
        None \<Rightarrow> Inr no_rates
      | Some raw \<Rightarrow>
          (let p = lower priority; b = limit_rate_bounds p; policy = or_dict raw; overrides = or_dict limit_overrides
           in bindE (section_rate parse policy overrides ''cpu'' p (rb_cpu_min b) (rb_cpu_max b)) (\<lambda>cpu.
              bindE (section_rate parse policy overrides ''memory'' p (rb_mem_min b) (rb_mem_max b)) (\<lambda>mem.
              bindE (disk_io_rate parse policy overrides p) (\<lambda>io.
                Inr \<lparr>lr_cpu = cpu, lr_mem = mem, lr_io = io\<rparr>)))))"

subsection \<open>The choices offered\<close>

fun positive_floats :: "(string \<Rightarrow> real option) \<Rightarrow> pyval list \<Rightarrow> real list" where
  "positive_floats parse [] = []"
| "positive_floats parse (v # vs) =
     (case float_of parse v of
        Inl _ \<Rightarrow> positive_floats parse vs
      | Inr x \<Rightarrow> if x > 0 then x # positive_floats parse vs else positive_floats parse vs)"

fun dict_values :: "pyval \<Rightarrow> pyval list" where
  "dict_values (PDict kvs) = map snd kvs"
| "dict_values _ = []"

definition rate_values :: "(string \<Rightarrow> real option) \<Rightarrow> pyval \<Rightarrow> string \<Rightarrow> real option \<Rightarrow> real list" where
  "rate_values parse rate_cfg priority current_rate =
     (let p_val = pget rate_cfg (lower (if priority = [] then ''undefined'' else priority));
          own = (if is_dict rate_cfg
                 then positive_floats parse (dict_values rate_cfg @ (if p_val = PNone then [] else [p_val])) else [])
      in own @ (case current_rate of None \<Rightarrow> [] | Some r \<Rightarrow> [r]))"

definition policy_rate_options ::
  "(string \<Rightarrow> real option) \<Rightarrow> pyval option \<Rightarrow> string \<Rightarrow> string \<Rightarrow> real option \<Rightarrow> py_error + real list" where
  "policy_rate_options parse limit_policy resource priority current_rate =
     bindE (case limit_policy of None \<Rightarrow> Inr (PDict []) | Some raw \<Rightarrow> attr_get (or_dict raw) resource (PDict [])) (\<lambda>policy.
     bindE (attr_get (dict_or policy) ''rate'' (PDict [])) (\<lambda>rate_cfg.
       Inr (sorted_list_of_set (set (map (\<lambda>v. py_round 1 (v * 100))
              (filter (\<lambda>v. v > 0) (rate_values parse rate_cfg priority current_rate)))))))"

subsection \<open>Usage of an application\<close>

record app_usage =
  au_paths :: "string list"              \<comment> \<open>\<open>cgroup_paths\<close>\<close>
  au_path :: string                      \<comment> \<open>\<open>cgroup_path\<close>, empty for none\<close>
  au_pids :: "int list"
  au_cpu :: real
  au_mem :: real
  au_swap :: real
  au_read_mb :: real
  au_write_mb :: real
  au_read_iops :: real
  au_write_iops :: real
  au_cg_mem :: "(string \<times> real) list"
  au_cg_cpu :: "(string \<times> real) list"

definition no_usage :: app_usage where
  \<comment> \<open>what an empty dict reads as\<close>
  "no_usage = \<lparr>au_paths = [], au_path = [], au_pids = [], au_cpu = 0, au_mem = 0, au_swap = 0, au_read_mb = 0,
     au_write_mb = 0, au_read_iops = 0, au_write_iops = 0, au_cg_mem = [], au_cg_cpu = []\<rparr>"

definition usage_paths :: "app_usage \<Rightarrow> string list" where
  "usage_paths u = (if au_paths u \<noteq> [] then au_paths u else if au_path u \<noteq> [] then [au_path u] else [])"

definition basename :: "string \<Rightarrow> string" where
  \<comment> \<open>\<open>os.path.basename\<close>\<close>
  "basename p = rev (takeWhile (\<lambda>c. c \<noteq> CHR ''/'') (rev p))"

definition usage_cgroups :: "app_usage \<Rightarrow> string list" where
  "usage_cgroups u = map basename (filter (\<lambda>p. p \<noteq> []) (usage_paths u))"

definition io_limit_mbps_threshold :: real where "io_limit_mbps_threshold = 100"
definition io_limit_iops_threshold :: real where "io_limit_iops_threshold = 1000"

definition is_io_limit_reached :: "real \<Rightarrow> real \<Rightarrow> real \<Rightarrow> real \<Rightarrow> bool" where
  "is_io_limit_reached read_mb write_mb read_iops write_iops \<longleftrightarrow>
     read_mb + write_mb \<ge> io_limit_mbps_threshold \<or> read_iops + write_iops \<ge> io_limit_iops_threshold"

subsection \<open>The profile of an application\<close>

record limit_item =
  li_enabled :: bool
  li_value :: real
  li_min :: real
  li_max :: real
  li_options :: "real list"

record limit_profile =
  lp_cpu :: limit_item
  lp_mem :: limit_item
  lp_io_enabled :: bool
  lp_io_reached :: bool
  lp_write :: int            \<comment> \<open>the value of an io item, which is its maximum too; the minimum is 1\<close>
  lp_read :: int
  lp_write_iops :: int
  lp_read_iops :: int
  lp_cgroups :: "string list"
  lp_processes :: "(int \<times> string) list"

definition override_disk :: "pyval \<Rightarrow> pyval" where
  \<comment> \<open>the \<open>disk_io\<close> section of the overrides, when both are dicts\<close>
  "override_disk app_overrides = (if is_dict app_overrides then dict_or (pget app_overrides ''disk_io'') else PDict [])"

definition pct :: "real \<Rightarrow> real" where "pct x = py_round 2 (x * 100)"

definition limit_item_of :: "real option \<Rightarrow> real \<Rightarrow> real \<Rightarrow> real list \<Rightarrow> limit_item" where
  "limit_item_of rate low high options =
     \<lparr>li_enabled = (rate \<noteq> None), li_value = pct (case rate of None \<Rightarrow> 0 | Some x \<Rightarrow> x), li_min = pct low, li_max = pct high,
      li_options = options\<rparr>"

definition io_item :: "pyval \<Rightarrow> string \<Rightarrow> py_error + real option \<Rightarrow> py_error + int" where
  \<comment> \<open>\<open>_io_item\<close>: the value in force, else the configured one, else 1\<close>
  "io_item cfg_disk_rate key v =
     bindE v (\<lambda>x. case x of
         Some y \<Rightarrow> Inr (max 1 (py_trunc y))
       | None \<Rightarrow> (let d = pget (dict_or cfg_disk_rate) key in if d = PNone then Inr 1 else bindE (int_of d) (\<lambda>i. Inr (max 1 i))))"

definition saved_rate :: "pyval \<Rightarrow> string \<Rightarrow> py_error + real option" where
  \<comment> \<open>\<open>int()\<close> of the entry of a saved dict, not an entry: None\<close>
  "saved_rate d key = (let v = pget (dict_or d) key in if v = PNone then Inr None else bindE (int_of v) (\<lambda>i. Inr (Some (of_int i))))"

definition io_rate_of :: "limit_rates \<Rightarrow> pyval \<Rightarrow> (io_rates \<Rightarrow> real) \<Rightarrow> string \<Rightarrow> py_error + real option" where
  "io_rate_of rates saved sel key = (case lr_io rates of Some i \<Rightarrow> Inr (Some (sel i)) | None \<Rightarrow> saved_rate saved key)"

definition config_disk_rate :: "pyval option \<Rightarrow> string \<Rightarrow> py_error + pyval" where
  "config_disk_rate limit_policy priority =
     bindE (case limit_policy of None \<Rightarrow> Inr (PDict []) | Some raw \<Rightarrow> attr_get (or_dict raw) ''disk_io'' (PDict [])) (\<lambda>pol.
     bindE (attr_get (dict_or pol) ''rate'' (PDict [])) (\<lambda>cfg.
     bindE (attr_get cfg priority PNone) (\<lambda>a.
     bindE (attr_get cfg ''undefined'' PNone) (\<lambda>b. Inr (if truthy a then a else or_dict b)))))"

fun processes_of :: "(int \<Rightarrow> string) \<Rightarrow> int set \<Rightarrow> int list \<Rightarrow> (int \<times> string) list" where
  \<comment> \<open>the loop over the pids, each seen once\<close>
  "processes_of pname seen [] = []"
| "processes_of pname seen (p # ps) =
     (if p \<in> seen then processes_of pname seen ps else (p, pname p) # processes_of pname (insert p seen) ps)"

definition io_enabled :: "limit_rates \<Rightarrow> pyval \<Rightarrow> pyval \<Rightarrow> bool \<Rightarrow> bool" where
  "io_enabled rates saved disk_override reached \<longleftrightarrow>
     truthy (pget disk_override ''enabled'')
     \<or> ((lr_io rates \<noteq> None \<or> truthy (dict_or saved)) \<and> reached)"

definition get_resource_limit_profile ::
  "(string \<Rightarrow> real option) \<Rightarrow> pyval option \<Rightarrow> pyval \<Rightarrow> app_usage option \<Rightarrow> (int \<Rightarrow> string) \<Rightarrow> string
     \<Rightarrow> py_error + limit_profile" where
  "get_resource_limit_profile parse limit_policy app_overrides usage pname priority0 =
     (let priority = lower (if priority0 = [] then ''undefined'' else priority0);
          b = limit_rate_bounds priority; u = (case usage of None \<Rightarrow> no_usage | Some u \<Rightarrow> u);
          saved = pget (override_disk app_overrides) ''rate'';
          reached = is_io_limit_reached (au_read_mb u) (au_write_mb u) (au_read_iops u) (au_write_iops u)
      in bindE (get_limited_rates parse limit_policy priority app_overrides) (\<lambda>rates.
         bindE (policy_rate_options parse limit_policy ''cpu'' priority (lr_cpu rates)) (\<lambda>cpu_options.
         bindE (policy_rate_options parse limit_policy ''memory'' priority (lr_mem rates)) (\<lambda>mem_options.
         bindE (config_disk_rate limit_policy priority) (\<lambda>cfg.
         bindE (io_item cfg ''write'' (io_rate_of rates saved ir_write ''write'')) (\<lambda>iw.
         bindE (io_item cfg ''read'' (io_rate_of rates saved ir_read ''read'')) (\<lambda>ir.
         bindE (io_item cfg ''write_iops'' (io_rate_of rates saved ir_write_iops ''write_iops'')) (\<lambda>iwi.
         bindE (io_item cfg ''read_iops'' (io_rate_of rates saved ir_read_iops ''read_iops'')) (\<lambda>iri.
           Inr \<lparr>lp_cpu = limit_item_of (lr_cpu rates) (rb_cpu_min b) (rb_cpu_max b) cpu_options,
                lp_mem = limit_item_of (lr_mem rates) (rb_mem_min b) (rb_mem_max b) mem_options,
                lp_io_enabled = io_enabled rates saved (override_disk app_overrides) reached, lp_io_reached = reached,
                lp_write = iw, lp_read = ir, lp_write_iops = iwi, lp_read_iops = iri,
                lp_cgroups = uniq (usage_cgroups u),
                lp_processes = sort_key fst (processes_of pname {} (au_pids u))\<rparr>)))))))))"

subsection \<open>Lemmas\<close>

lemma bounds_ordered:
  "0 < rb_cpu_min (limit_rate_bounds p) \<and> rb_cpu_min (limit_rate_bounds p) < rb_cpu_max (limit_rate_bounds p)
     \<and> rb_cpu_max (limit_rate_bounds p) < 1"
  "0 < rb_mem_min (limit_rate_bounds p) \<and> rb_mem_min (limit_rate_bounds p) < rb_mem_max (limit_rate_bounds p)
     \<and> rb_mem_max (limit_rate_bounds p) < 1"
  by (simp_all add: limit_rate_bounds_def Let_def)

lemma section_rate_bounds:
  assumes "section_rate parse policy overrides name p low high = Inr (Some x)" "low \<le> high"
  shows "low \<le> x \<and> x \<le> high"
  using assms by (auto simp: section_rate_def bindE_Inr_iff clamp_rate_def clamp_bounds split: if_splits)

lemma to_pos_int_ge: "to_pos_int parse d n f = Inr i \<Longrightarrow> 1 \<le> i"
proof -
  assume "to_pos_int parse d n f = Inr i"
  then obtain raw where r: "(case float_of parse raw of Inr x \<Rightarrow> Inr (max 1 (py_trunc x))
      | Inl _ \<Rightarrow> bindE (int_of f) (\<lambda>i. Inr (max 1 i))) = (Inr i :: py_error + int)"
    by (auto simp: to_pos_int_def bindE_Inr_iff)
  then show ?thesis by (cases "float_of parse raw") (auto simp: bindE_Inr_iff)
qed

definition rates_within :: "string \<Rightarrow> limit_rates \<Rightarrow> bool" where
  "rates_within p r \<longleftrightarrow>
     (case lr_cpu r of None \<Rightarrow> True | Some c \<Rightarrow> rb_cpu_min (limit_rate_bounds p) \<le> c \<and> c \<le> rb_cpu_max (limit_rate_bounds p))
   \<and> (case lr_mem r of None \<Rightarrow> True | Some c \<Rightarrow> rb_mem_min (limit_rate_bounds p) \<le> c \<and> c \<le> rb_mem_max (limit_rate_bounds p))
   \<and> (case lr_io r of None \<Rightarrow> True | Some i \<Rightarrow> 1 \<le> ir_read i \<and> 1 \<le> ir_write i \<and> 1 \<le> ir_read_iops i \<and> 1 \<le> ir_write_iops i)"

lemma disk_io_rate_ge:
  assumes "disk_io_rate parse policy overrides p = Inr (Some i)"
  shows "1 \<le> ir_read i \<and> 1 \<le> ir_write i \<and> 1 \<le> ir_read_iops i \<and> 1 \<le> ir_write_iops i"
  using assms by (auto simp: disk_io_rate_def bindE_Inr_iff split: if_splits dest!: to_pos_int_ge)

subsection \<open>Properties\<close>

lemma rounded_pct_mono: "x \<le> y \<Longrightarrow> pct x \<le> pct y"
  by (simp add: pct_def py_round_mono)

text \<open>the rates of a limit stay within the bounds of the priority. Whatever the policy file and the overrides of the
  application say, the CPU and the memory rate that come out lie between the bounds of the priority, and every disk
  rate is at least one.\<close>
theorem limited_rates_clamped:
  assumes "get_limited_rates parse limit_policy priority overrides = Inr r"
  shows "rates_within (lower priority) r"
proof (cases limit_policy)
  case None
  then show ?thesis using assms by (auto simp: get_limited_rates_def no_rates_def rates_within_def)
next
  case (Some raw)
  let ?p = "lower priority" and ?b = "limit_rate_bounds (lower priority)"
  from assms Some obtain cpu mem io where
    c: "section_rate parse (or_dict raw) (or_dict overrides) ''cpu'' ?p (rb_cpu_min ?b) (rb_cpu_max ?b) = Inr cpu" and
    m: "section_rate parse (or_dict raw) (or_dict overrides) ''memory'' ?p (rb_mem_min ?b) (rb_mem_max ?b) = Inr mem" and
    i: "disk_io_rate parse (or_dict raw) (or_dict overrides) ?p = Inr io" and
    r: "r = \<lparr>lr_cpu = cpu, lr_mem = mem, lr_io = io\<rparr>"
    by (auto simp: get_limited_rates_def Let_def bindE_Inr_iff)
  have "rb_cpu_min ?b \<le> x \<and> x \<le> rb_cpu_max ?b" if "cpu = Some x" for x
    using section_rate_bounds [of parse _ _ _ _ _ _ x] c that bounds_ordered(1) [of ?p] by fastforce
  moreover have "rb_mem_min ?b \<le> x \<and> x \<le> rb_mem_max ?b" if "mem = Some x" for x
    using section_rate_bounds [of parse _ _ _ _ _ _ x] m that bounds_ordered(2) [of ?p] by fastforce
  ultimately show ?thesis
    using disk_io_rate_ge [of parse _ _ _] i by (auto simp: r rates_within_def split: option.splits)
qed

theorem limited_rates_clamped_witness:
  "rates_within ''low'' \<lparr>lr_cpu = Some (1/2), lr_mem = None, lr_io = None\<rparr>"
proof -
  have low: "lower ''LOW'' = ''low''" "lower ''low'' = ''low''" by code_simp+
  let ?policy = "PDict [(''cpu'', PDict [(''enabled'', PBool True), (''rate'', PDict [(''low'', PFloat 7)])])]"
  have "get_limited_rates (\<lambda>s. None) (Some ?policy) ''LOW'' PNone = Inr \<lparr>lr_cpu = Some (1/2), lr_mem = None, lr_io = None\<rparr>"
    by (simp add: get_limited_rates_def or_dict_def section_rate_def disk_io_rate_def limit_rate_bounds_def low clamp_rate_def
        clamp_def dict_or_def)
  from limited_rates_clamped [OF this] show ?thesis by (simp add: low)
qed

end
