(* ===== verification/Reclaim_Sched.thy ===== *)
theory Reclaim_Sched
  imports Reclaim Limit_Policy
begin

text \<open>
  Scheduling of proactive reclaim and of swap growth in \<open>balancer/balancer/balancer.py\<close>: who gives up memory
  (\<open>_reclaim_candidates\<close>, \<open>_tick_memory_reclaim\<close>), how a round is divided (\<open>_split_proportionally\<close>), what an outcome does to
  the entry (\<open>_on_reclaim_done\<close>), the quiet window of the disk arm and the slot that spaces attempts to grow swap. The
  measurements come from the controllers of theory \<open>Reclaim\<close>, the entries from the registry of theory \<open>Limit_Policy\<close>.
  Submitting to the executor is a result of the round; the events for the user interface and the logs are left out.
\<close>

subsection \<open>Dividing a budget\<close>

definition split_proportionally :: "int option \<Rightarrow> 'k list \<Rightarrow> ('k \<Rightarrow> real) \<Rightarrow> ('k \<times> int option) list" where
  "split_proportionally total_budget ids usage =
     (case total_budget of
        None \<Rightarrow> map (\<lambda>i. (i, None)) ids
      | Some b \<Rightarrow>
          if b = 0 then map (\<lambda>i. (i, Some 0)) ids
          else let total_usage = sum_list (map usage ids)
               in if total_usage \<le> 0
                  then map (\<lambda>i. (i, Some (max 1 (b div int (if ids = [] then 1 else length ids))))) ids
                  else map (\<lambda>i. (i, Some (max 1 (py_trunc (of_int b * usage i / total_usage))))) ids)"

subsection \<open>Candidates\<close>

definition reclaim_candidates :: "registry \<Rightarrow> (string \<times> limited_app \<times> nat) list" where
  "reclaim_candidates r =
     map (\<lambda>(index, k, a). (k, a, index + 1))
       (filter (\<lambda>(index, k, a). la_cpu_mem a \<and> la_priority a \<noteq> ''critical'' \<and> \<not> la_inflight a)
          (enumerate 0 (rg_apps r)))"

definition reclaim_cooldown_ok :: "reclaim_cfg \<Rightarrow> limited_app \<Rightarrow> real \<Rightarrow> bool" where
  "reclaim_cooldown_ok cfg a now \<longleftrightarrow> now - la_last_reclaim a \<ge> rc_cooldown_sec cfg + la_backoff a"

definition reclaim_target :: "string \<Rightarrow> limited_app \<Rightarrow> string" where
  "reclaim_target k a = (if la_cgroups a = [] then k else hd (la_cgroups a))"

definition gather_one ::
  "reclaim_cfg \<Rightarrow> 'w mem_kernel \<Rightarrow> 'w \<Rightarrow> real \<Rightarrow> string \<times> limited_app \<times> nat \<Rightarrow> registry \<times> mem_ctl
     \<Rightarrow> (string \<times> string \<times> int) option \<times> registry \<times> mem_ctl" where
  \<comment> \<open>one pass of the loop over the candidates: the ready target with its weight, if any\<close>
  "gather_one cfg kern w now cand st =
     (case cand of (k, a, order) \<Rightarrow> case st of (r, c) \<Rightarrow>
        if \<not> reclaim_cooldown_ok cfg a now \<or> la_io a then (None, r, c)
        else
          (let cgroup = reclaim_target k a;
               elapsed = (if la_last_cpu_at a = 0 then 0 else now - la_last_cpu_at a);
               (usec, c1) = read_cpu_usec kern w cgroup c;
               (busy, cpu_usec) = cpu_busy_fraction usec (la_last_cpu a) elapsed;
               r1 = update_entry k (\<lambda>e. e\<lparr>la_last_cpu := cpu_usec, la_last_cpu_at := now\<rparr>) r;
               ((allowed, _), c2) = should_reclaim cfg kern w cgroup busy c1
           in if \<not> allowed then (None, r1, c2)
              else (case read_current kern w cgroup c2 of (cur, c3) \<Rightarrow>
                      (let current = (case cur of None \<Rightarrow> 0 | Some n \<Rightarrow> n)
                       in if current \<le> 0 then (None, r1, c3)
                          else (Some (k, cgroup, current * int order), r1, c3)))))"

fun gather ::
  "reclaim_cfg \<Rightarrow> 'w mem_kernel \<Rightarrow> 'w \<Rightarrow> real \<Rightarrow> (string \<times> limited_app \<times> nat) list \<Rightarrow> registry \<times> mem_ctl
     \<Rightarrow> (string \<times> string \<times> int) list \<times> registry \<times> mem_ctl" where
  "gather cfg kern w now [] st = ([], st)"
| "gather cfg kern w now (cand # cands) st =
     (case gather_one cfg kern w now cand st of (found, st1) \<Rightarrow>
        (case gather cfg kern w now cands st1 of (ready, st2) \<Rightarrow>
           ((case found of None \<Rightarrow> ready | Some x \<Rightarrow> x # ready), st2)))"

subsection \<open>One round\<close>

definition reclaim_disk_quiet_sec :: real where "reclaim_disk_quiet_sec = 20"
definition reclaim_max_backoff :: real where "reclaim_max_backoff = 600"

definition mark_reclaim_noise :: "real \<Rightarrow> real" where
  "mark_reclaim_noise wall = wall + reclaim_disk_quiet_sec"

definition in_reclaim_quiet_window :: "real \<Rightarrow> real \<Rightarrow> bool" where
  "in_reclaim_quiet_window quiet_until wall \<longleftrightarrow> wall < quiet_until"

record reclaim_facts =
  rf_cfg :: reclaim_cfg
  rf_swap :: swap_ctl
  rf_meminfo :: mem_snapshot
  rf_psi :: real

fun submit_all ::
  "real \<Rightarrow> real \<Rightarrow> (string \<times> string \<times> int) list \<Rightarrow> (string \<Rightarrow> int) \<Rightarrow> registry \<times> real
     \<Rightarrow> (string \<times> string \<times> int) list \<times> registry \<times> real" where
  "submit_all now wall [] share st = ([], st)"
| "submit_all now wall ((k, cgroup, weight) # ready) share (r, quiet) =
     (if share k \<le> 0 then submit_all now wall ready share (r, quiet)
      else case submit_all now wall ready share
                  (update_entry k (\<lambda>e. e\<lparr>la_inflight := True, la_last_reclaim := now\<rparr>) r, mark_reclaim_noise wall) of
             (subs, st) \<Rightarrow> ((k, cgroup, share k) # subs, st))"

definition share_of :: "(string \<times> int option) list \<Rightarrow> string \<Rightarrow> int" where
  "share_of shares k = (case map_of shares k of Some (Some n) \<Rightarrow> n | _ \<Rightarrow> 0)"

definition round_budget :: "int \<Rightarrow> real \<Rightarrow> (string \<times> string \<times> int) list \<Rightarrow> int" where
  "round_budget deficit gain ready = min deficit (py_trunc (of_int (sum_list (map (\<lambda>(k, g, n). n) ready)) * gain))"

definition tick_memory_reclaim ::
  "reclaim_facts \<Rightarrow> 'w mem_kernel \<Rightarrow> 'w \<Rightarrow> real \<Rightarrow> real \<Rightarrow> registry \<times> mem_ctl \<times> real
     \<Rightarrow> (string \<times> string \<times> int) list \<times> registry \<times> mem_ctl \<times> real" where
  \<comment> \<open>the submitted reclaims (entry, cgroup, bytes); \<open>now\<close> is the time of the tick, \<open>wall\<close> the clock when it submits\<close>
  "tick_memory_reclaim f kern w now wall st =
     (case st of (r, c, quiet) \<Rightarrow>
        (let cfg = rf_cfg f;
             deficit = system_memory_deficit cfg now (rf_swap f) (rf_meminfo f);
             cands = reclaim_candidates r
         in if \<not> rc_enabled cfg \<or> deficit \<le> 0 \<or> cands = [] \<or> movable_anon (worst_recent now (rf_swap f) (rf_meminfo f)) \<le> 0
            then ([], r, c, quiet)
            else case gather cfg kern w now cands (r, c) of (ready, r1, c1) \<Rightarrow>
              (let budget = round_budget deficit (reclaim_gain cfg (rf_psi f)) ready
               in if ready = [] \<or> budget \<le> 0 then ([], r1, c1, quiet)
                  else let weights = (\<lambda>k. case map_of (map (\<lambda>(k, g, n). (k, n)) ready) k of None \<Rightarrow> 0 | Some n \<Rightarrow> real_of_int n);
                           shares = split_proportionally (Some budget) (map fst ready) weights
                       in case submit_all now wall ready (share_of shares) (r1, quiet) of
                            (subs, r2, quiet') \<Rightarrow> (subs, r2, c1, quiet'))))"

subsection \<open>The end of a reclaim\<close>

definition on_reclaim_done ::
  "reclaim_cfg \<Rightarrow> bool \<Rightarrow> real \<Rightarrow> reclaim_outcome option \<Rightarrow> limited_app \<Rightarrow> limited_app \<times> real \<times> bool" where
  \<comment> \<open>the entry, the new end of the quiet window, and whether swap headroom is asked for; None: the job raised\<close>
  "on_reclaim_done cfg swap_enabled wall outcome a =
     (let a1 = a\<lparr>la_inflight := False\<rparr>; quiet = mark_reclaim_noise wall
      in case outcome of
           None \<Rightarrow> (a1, quiet, False)
         | Some o1 \<Rightarrow>
             if is_eagain o1
             then (a1\<lparr>la_backoff := min (max (rc_cooldown_sec cfg) (la_backoff a * 2)) reclaim_max_backoff\<rparr>, quiet, swap_enabled)
             else (a1\<lparr>la_backoff := 0\<rparr>, quiet, False))"

subsection \<open>The slot of swap growth\<close>

definition swap_growth_interval :: real where "swap_growth_interval = 60"
definition swap_growth_urgent_interval :: real where "swap_growth_urgent_interval = 10"

definition claim_swap_growth_slot :: "real \<Rightarrow> bool \<Rightarrow> real \<Rightarrow> bool \<times> real" where
  "claim_swap_growth_slot now urgent last_at =
     (let interval = (if urgent then swap_growth_urgent_interval else swap_growth_interval)
      in if now - last_at < interval then (False, last_at) else (True, now))"

definition tick_swap_headroom :: "bool \<Rightarrow> real \<Rightarrow> level \<Rightarrow> real \<Rightarrow> bool \<times> real" where
  \<comment> \<open>whether a headroom check is queued\<close>
  "tick_swap_headroom swap_enabled now pressure last_at =
     (if \<not> swap_enabled then (False, last_at) else claim_swap_growth_slot now (pressure = Critical) last_at)"

definition tick_swap_release :: "real \<Rightarrow> real \<Rightarrow> bool \<times> real" where
  "tick_swap_release now last_at = (if now - last_at < swap_growth_interval then (False, last_at) else (True, now))"

definition on_critical_state_changed ::
  "bool \<Rightarrow> bool \<Rightarrow> bool \<Rightarrow> bool \<Rightarrow> real \<Rightarrow> real \<Rightarrow> bool \<times> bool \<times> real" where
  \<comment> \<open>whether the prefetcher is started and a headroom check queued\<close>
  "on_critical_state_changed is_critical passive_enabled quiet_active swap_enabled now last_at =
     (if \<not> is_critical \<or> \<not> passive_enabled \<or> quiet_active then (False, False, last_at)
      else if \<not> swap_enabled then (True, False, last_at)
      else case claim_swap_growth_slot now True last_at of (ok, l) \<Rightarrow> (True, ok, l))"

subsection \<open>Shares\<close>

lemma near_sum:
  fixes v :: "'k \<Rightarrow> int" and x :: "'k \<Rightarrow> real"
  assumes "\<forall>i\<in>set ids. \<bar>of_int (v i) - x i\<bar> \<le> 1"
  shows "\<bar>of_int (sum_list (map v ids)) - sum_list (map x ids)\<bar> \<le> real (length ids)"
  using assms by (induction ids) auto

lemma sum_scaled: "sum_list (map (\<lambda>i. c * u i / t) ids) = c * sum_list (map u ids) / (t :: real)"
  by (induction ids) (simp_all add: algebra_simps add_divide_distrib)

lemma trunc_near:
  fixes x :: real
  assumes "0 \<le> x"
  shows "\<bar>of_int (max 1 (py_trunc x)) - x\<bar> \<le> 1"
proof -
  have a: "of_int \<lfloor>x\<rfloor> \<le> x" "x < of_int \<lfloor>x\<rfloor> + 1" by linarith+
  have t: "py_trunc x = \<lfloor>x\<rfloor>" using assms by (simp add: py_trunc_def)
  show ?thesis
  proof (cases "1 \<le> \<lfloor>x\<rfloor>")
    case True
    then have "max 1 (py_trunc x) = \<lfloor>x\<rfloor>" by (simp add: t)
    then show ?thesis using a by linarith
  next
    case False
    then have "max 1 (py_trunc x) = 1" "x < 1" using a(2) by (simp_all add: t)
    then show ?thesis using assms by simp
  qed
qed

lemma div_near:
  assumes "0 < b" "0 < n"
  shows "\<bar>real_of_int (max 1 (b div int n)) - of_int b / real n\<bar> \<le> 1"
proof -
  have "b div int n = \<lfloor>of_int b / real n\<rfloor>" using floor_divide_of_int_eq [of b "int n", where ?'a = real] by simp
  then have "b div int n = py_trunc (of_int b / real n)" using assms by (simp add: py_trunc_def)
  then show ?thesis using trunc_near [of "of_int b / real n"] assms by simp
qed

definition share_value :: "'k \<times> int option \<Rightarrow> int" where
  "share_value p = (case snd p of None \<Rightarrow> 0 | Some n \<Rightarrow> n)"

lemma split_keys: "map fst (split_proportionally tb ids usage) = ids"
  by (auto simp: split_proportionally_def comp_def Let_def split: option.split)

lemma split_near:
  assumes "0 < b" "ids \<noteq> []" "\<forall>i\<in>set ids. 0 \<le> usage i"
  shows "\<exists>v x. split_proportionally (Some b) ids usage = map (\<lambda>i. (i, Some (v i))) ids
    \<and> (\<forall>i\<in>set ids. 1 \<le> v i \<and> \<bar>real_of_int (v i) - x i\<bar> \<le> 1) \<and> sum_list (map x ids) = of_int b"
proof (cases "sum_list (map usage ids) \<le> 0")
  case True
  let ?v = "\<lambda>i. max 1 (b div int (length ids))" and ?x = "\<lambda>i. of_int b / real (length ids)"
  have "split_proportionally (Some b) ids usage = map (\<lambda>i. (i, Some (?v i))) ids"
    using True assms(1,2) by (simp add: split_proportionally_def)
  moreover have "\<forall>i\<in>set ids. 1 \<le> ?v i \<and> \<bar>real_of_int (?v i) - ?x i\<bar> \<le> 1"
    using div_near [OF assms(1), of "length ids"] assms(2) by simp
  moreover have "sum_list (map ?x ids) = of_int b" using assms(2) by (simp add: sum_list_triv)
  ultimately show ?thesis by (intro exI [of _ ?v] exI [of _ ?x]) blast
next
  case False
  let ?t = "sum_list (map usage ids)"
  let ?x = "\<lambda>i. of_int b * usage i / ?t"
  let ?v = "\<lambda>i. max 1 (py_trunc (?x i))"
  have "split_proportionally (Some b) ids usage = map (\<lambda>i. (i, Some (?v i))) ids"
    using False assms(1) by (simp add: split_proportionally_def Let_def)
  moreover have "\<forall>i\<in>set ids. 1 \<le> ?v i \<and> \<bar>real_of_int (?v i) - ?x i\<bar> \<le> 1"
    using trunc_near assms(1,3) False by (simp add: divide_nonneg_pos)
  moreover have "sum_list (map ?x ids) = of_int b" unfolding sum_scaled using False by simp
  ultimately show ?thesis by (intro exI [of _ ?v] exI [of _ ?x]) blast
qed

text \<open>a budget is divided fairly. Every cgroup gets a share of at least one unit; together the shares miss the budget
  by at most one unit per cgroup, in either direction; and an application with one cgroup gets exactly the budget.\<close>
theorem split_shares_budget:
  assumes "0 < b" "ids \<noteq> []" "\<forall>i\<in>set ids. 0 \<le> usage i"
  shows "map fst (split_proportionally (Some b) ids usage) = ids
    \<and> (\<forall>s\<in>set (split_proportionally (Some b) ids usage). 1 \<le> share_value s)
    \<and> \<bar>sum_list (map share_value (split_proportionally (Some b) ids usage)) - b\<bar> \<le> int (length ids)
    \<and> (length ids = 1 \<longrightarrow> split_proportionally (Some b) ids usage = [(hd ids, Some b)])"
proof -
  obtain v x where vx: "split_proportionally (Some b) ids usage = map (\<lambda>i. (i, Some (v i))) ids"
    "\<forall>i\<in>set ids. 1 \<le> v i \<and> \<bar>real_of_int (v i) - x i\<bar> \<le> 1" "sum_list (map x ids) = of_int b"
    using split_near [OF assms] by blast
  have shares: "map share_value (map (\<lambda>i. (i, Some (v i))) ids) = map v ids"
    by (simp add: share_value_def comp_def)
  have "\<bar>of_int (sum_list (map v ids)) - real_of_int b\<bar> \<le> real (length ids)"
    using near_sum [of ids v x] vx(2,3) by simp
  then have total: "\<bar>sum_list (map v ids) - b\<bar> \<le> int (length ids)" by linarith
  have one: "split_proportionally (Some b) ids usage = [(hd ids, Some b)]" if single: "length ids = 1"
  proof -
    obtain i where i: "ids = [i]" using single length_Suc_conv [of ids 0] by auto
    show ?thesis using assms(1,3) by (auto simp: i split_proportionally_def py_trunc_def Let_def)
  qed
  have least: "\<forall>s\<in>set (map (\<lambda>i. (i, Some (v i))) ids). 1 \<le> share_value s"
    using vx(2) by (simp add: share_value_def)
  have "map fst (map (\<lambda>i. (i, Some (v i))) ids) = ids" by (simp add: comp_def)
  then show ?thesis using least total one unfolding vx(1) shares by blast
qed

theorem split_shares_budget_witness:
  "\<bar>sum_list (map share_value (split_proportionally (Some 10) [''a'', ''b'', ''c''] (\<lambda>i. if i = ''a'' then 2 else 1))) - 10\<bar> \<le> 3"
  using split_shares_budget [of 10 "[''a'', ''b'', ''c'']" "\<lambda>i. if i = ''a'' then 2 else 1"] by simp

subsection \<open>The end of a reclaim: backoff\<close>

fun after_outcomes :: "reclaim_cfg \<Rightarrow> bool \<Rightarrow> (real \<times> reclaim_outcome) list \<Rightarrow> limited_app \<Rightarrow> limited_app" where
  "after_outcomes cfg en [] a = a"
| "after_outcomes cfg en ((wall, o1) # rest) a = after_outcomes cfg en rest (fst (on_reclaim_done cfg en wall (Some o1) a))"

lemma after_outcomes_snoc:
  "after_outcomes cfg en (os @ [(wall, o1)]) a = fst (on_reclaim_done cfg en wall (Some o1) (after_outcomes cfg en os a))"
proof (induction os arbitrary: a)
  case Nil
  show ?case by simp
next
  case (Cons x os)
  obtain t p where "x = (t, p)" by fastforce
  then show ?case using Cons.IH by simp
qed

lemma done_backoff:
  "la_backoff (fst (on_reclaim_done cfg en wall (Some o1) a)) =
     (if is_eagain o1 then min (max (rc_cooldown_sec cfg) (la_backoff a * 2)) reclaim_max_backoff else 0)"
  by (simp add: on_reclaim_done_def Let_def)

lemma double_capped: "0 \<le> c \<Longrightarrow> c \<le> y \<Longrightarrow> 0 \<le> m \<Longrightarrow> min (max c (min y m * 2)) m = min (y * 2) (m :: real)"
  by (auto simp: min_def max_def)

definition trailing_eagain :: "(real \<times> reclaim_outcome) list \<Rightarrow> nat" where
  "trailing_eagain os = length (takeWhile (\<lambda>(t, o1). is_eagain o1) (rev os))"

lemma trailing_snoc: "trailing_eagain (os @ [(t, o1)]) = (if is_eagain o1 then Suc (trailing_eagain os) else 0)"
  by (simp add: trailing_eagain_def)

text \<open>backing off from a full swap. After any sequence of finished reclaims an entry's extra wait is determined by the
  length m of the run of EAGAIN results at the end: nothing when it is empty, the cooldown doubled m - 1 times
  otherwise, and never more than ten minutes.\<close>
theorem backoff_doubles_to_cap:
  assumes "0 \<le> rc_cooldown_sec cfg" "la_backoff a = 0"
  shows "la_backoff (after_outcomes cfg en os a) =
    (case trailing_eagain os of 0 \<Rightarrow> 0 | Suc n \<Rightarrow> min (rc_cooldown_sec cfg * 2 ^ n) reclaim_max_backoff)"
proof (induction os rule: rev_induct)
  case Nil
  show ?case by (simp add: trailing_eagain_def assms(2))
next
  case (snoc x os)
  obtain t o1 where x: "x = (t, o1)" by fastforce
  show ?case
  proof (cases "is_eagain o1")
    case False
    then show ?thesis by (simp add: x after_outcomes_snoc done_backoff trailing_snoc)
  next
    case True
    show ?thesis
    proof (cases "trailing_eagain os")
      case 0
      then show ?thesis using True snoc assms by (simp add: x after_outcomes_snoc done_backoff trailing_snoc)
    next
      case (Suc n)
      let ?c = "rc_cooldown_sec cfg"
      have "?c * 1 \<le> ?c * 2 ^ n" using assms(1) by (intro mult_left_mono) simp_all
      then have "min (max ?c (min (?c * 2 ^ n) reclaim_max_backoff * 2)) reclaim_max_backoff = min (?c * 2 ^ n * 2) reclaim_max_backoff"
        using assms(1) by (intro double_capped) (simp_all add: reclaim_max_backoff_def)
      then have "min (max ?c (min (?c * 2 ^ n) reclaim_max_backoff * 2)) reclaim_max_backoff = min (?c * 2 ^ Suc n) reclaim_max_backoff"
        by (simp add: algebra_simps)
      then show ?thesis using True snoc Suc by (simp add: x after_outcomes_snoc done_backoff trailing_snoc)
    qed
  qed
qed

theorem backoff_doubles_to_cap_witness:
  "la_backoff (after_outcomes reclaim_defaults True (replicate 3 (0, \<lparr>ro_ok = False, ro_errno = Some eagain, ro_requested = 1,
      ro_reclaimed = 0, ro_swappiness = None, ro_reason = WriteError\<rparr>)) demo_app) = 120"
proof -
  let ?o = "\<lparr>ro_ok = False, ro_errno = Some eagain, ro_requested = 1, ro_reclaimed = 0, ro_swappiness = None, ro_reason = WriteError\<rparr>"
  have b: "la_backoff demo_app = 0" by (simp add: demo_app_def fresh_entry_def)
  have n: "trailing_eagain (replicate 3 (0, ?o)) = Suc 2"
    by (simp add: trailing_eagain_def is_eagain_def numeral_3_eq_3)
  have "0 \<le> rc_cooldown_sec reclaim_defaults" by (simp add: reclaim_defaults_def)
  from backoff_doubles_to_cap [OF this b, of True "replicate 3 (0, ?o)"] show ?thesis
    unfolding n by (simp add: reclaim_defaults_def reclaim_max_backoff_def)
qed

subsection \<open>The slot of swap growth\<close>

fun claim_times :: "(real \<times> bool) list \<Rightarrow> real \<Rightarrow> real list" where
  \<comment> \<open>the times at which the slot was granted\<close>
  "claim_times [] last_at = []"
| "claim_times ((now, urgent) # cs) last_at =
     (case claim_swap_growth_slot now urgent last_at of (ok, l) \<Rightarrow> if ok then now # claim_times cs l else claim_times cs l)"

lemma claims_spaced:
  "sorted_wrt (\<lambda>s t. t - s \<ge> swap_growth_urgent_interval) (last_at # claim_times cs last_at)"
proof (induction cs arbitrary: last_at)
  case Nil
  show ?case by simp
next
  case (Cons c cs)
  obtain now urgent where c: "c = (now, urgent)" by fastforce
  have pos: "0 \<le> swap_growth_urgent_interval" "swap_growth_urgent_interval \<le> (if urgent then swap_growth_urgent_interval else swap_growth_interval)"
    by (simp_all add: swap_growth_urgent_interval_def swap_growth_interval_def)
  show ?case
  proof (cases "fst (claim_swap_growth_slot now urgent last_at)")
    case False
    then show ?thesis using Cons.IH [of last_at] by (auto simp: c claim_swap_growth_slot_def Let_def split: if_splits)
  next
    case True
    then have s: "claim_swap_growth_slot now urgent last_at = (True, now)" "swap_growth_urgent_interval \<le> now - last_at"
      using pos(2) by (auto simp: claim_swap_growth_slot_def Let_def split: if_splits)
    have "swap_growth_urgent_interval \<le> t - last_at" if "t \<in> set (claim_times cs now)" for t
    proof -
      have "swap_growth_urgent_interval \<le> t - now" using Cons.IH [of now] that by simp
      then show ?thesis using s(2) pos(1) by simp
    qed
    then show ?thesis using Cons.IH [of now] s by (simp add: c)
  qed
qed

subsection \<open>One round\<close>

lemma candidates_entry:
  assumes "(k, a, i) \<in> set (reclaim_candidates r)"
  shows "(k, a) \<in> set (rg_apps r)" "la_cpu_mem a" "la_priority a \<noteq> ''critical''" "\<not> la_inflight a" "0 < i"
  using assms by (auto simp: reclaim_candidates_def in_set_enumerate_eq) (metis nth_mem)

lemma candidates_keys: "distinct (map fst (rg_apps r)) \<Longrightarrow> distinct (map fst (reclaim_candidates r))"
proof -
  let ?P = "\<lambda>(index, k, a). la_cpu_mem a \<and> la_priority a \<noteq> ''critical'' \<and> \<not> la_inflight a"
  assume d: "distinct (map fst (rg_apps r))"
  have "map fst (reclaim_candidates r) = map (fst \<circ> snd) (filter ?P (enumerate 0 (rg_apps r)))"
    by (auto simp: reclaim_candidates_def)
  moreover have "distinct (map (fst \<circ> snd) (enumerate 0 (rg_apps r)))"
    using d by (metis map_map map_snd_enumerate)
  ultimately show ?thesis by (simp only: distinct_map_filter)
qed

text \<open>What the gates of a round promise about one cgroup, in terms of the files it was measured by: the cgroup
  exists; by the CPU time at the previous sample of the entry and now, it has used at most the configured share of
  one core in between; at most the configured share of its memory is page cache; and it has anonymous memory. A file
  is read at the path that the path cache gives at that moment.\<close>

definition was_idle :: "reclaim_cfg \<Rightarrow> 'w mem_kernel \<Rightarrow> 'w \<Rightarrow> real \<Rightarrow> limited_app \<Rightarrow> string \<Rightarrow> bool" where
  "was_idle cfg kern w now a cgroup \<longleftrightarrow> (\<exists>c before usec. fst (read_cpu_usec kern w cgroup c) = Some usec
     \<and> la_last_cpu a = Some before \<and> before \<le> usec \<and> la_last_cpu_at a \<noteq> 0 \<and> la_last_cpu_at a < now
     \<and> of_int (usec - before) \<le> rc_idle_cpu_threshold cfg * ((now - la_last_cpu_at a) * 1000000))"

definition gates_open :: "reclaim_cfg \<Rightarrow> 'w mem_kernel \<Rightarrow> 'w \<Rightarrow> string \<Rightarrow> bool" where
  "gates_open cfg kern w cgroup \<longleftrightarrow> (\<exists>c. fst (cgroup_exists kern w cgroup c))
     \<and> (\<exists>c x. file_cache_fraction (fst (read_flat_keyed kern w cgroup ''memory.stat'' c)) = Some x
          \<and> x \<le> rc_max_file_cache_fraction cfg)
     \<and> (\<exists>c. 0 < reclaimable_anon (fst (read_flat_keyed kern w cgroup ''memory.stat'' c)))"

definition uses_memory :: "'w mem_kernel \<Rightarrow> 'w \<Rightarrow> string \<Rightarrow> int \<Rightarrow> bool" where
  "uses_memory kern w cgroup m \<longleftrightarrow> 0 < m \<and> (\<exists>c. fst (read_current kern w cgroup c) = Some m)"

lemma should_reclaim_open:
  assumes "should_reclaim cfg kern w cgroup busy c = ((True, why), c')"
  shows "gates_open cfg kern w cgroup \<and> (\<exists>f. busy = Some f \<and> f \<le> rc_idle_cpu_threshold cfg)"
proof -
  obtain ex c1 where ex: "cgroup_exists kern w cgroup c = (ex, c1)" by fastforce
  obtain s1 c2 where s1: "read_flat_keyed kern w cgroup ''memory.stat'' c1 = (s1, c2)" by fastforce
  obtain s2 c3 where s2: "read_flat_keyed kern w cgroup ''memory.stat'' c2 = (s2, c3)" by fastforce
  have "ex" "\<exists>f. busy = Some f \<and> f \<le> rc_idle_cpu_threshold cfg"
    "\<exists>x. file_cache_fraction s1 = Some x \<and> x \<le> rc_max_file_cache_fraction cfg" "0 < reclaimable_anon s2"
    using assms by (auto simp: should_reclaim_def ex s1 s2 split: if_splits option.splits)
  then show ?thesis unfolding gates_open_def using ex s1 s2 by (metis fst_conv)
qed

lemma busy_fraction_idle:
  assumes "cpu_busy_fraction usec prev elapsed = (Some f, cu)"
  shows "\<exists>p n. prev = Some p \<and> usec = Some n \<and> p \<le> n \<and> 0 < elapsed \<and> of_int (n - p) = f * (elapsed * 1000000)"
  using assms by (auto simp: cpu_busy_fraction_def split: option.splits if_splits)

lemma gather_one_ready:
  assumes "gather_one cfg kern w now (k, a, i) (r, c) = (found, r', c')"
  shows "found = Some (k', g, n) \<Longrightarrow>
      k' = k \<and> g = reclaim_target k a \<and> (\<exists>m. n = m * int i \<and> uses_memory kern w g m) \<and> reclaim_cooldown_ok cfg a now \<and> \<not> la_io a
      \<and> was_idle cfg kern w now a g \<and> gates_open cfg kern w g"
    and "map_of (rg_apps r') x = None \<longleftrightarrow> map_of (rg_apps r) x = None"
proof -
  let ?g = "reclaim_target k a" and ?el = "if la_last_cpu_at a = 0 then 0 else now - la_last_cpu_at a"
  obtain usec c1 where u: "read_cpu_usec kern w ?g c = (usec, c1)" by fastforce
  obtain busy cu where b: "cpu_busy_fraction usec (la_last_cpu a) ?el = (busy, cu)" by fastforce
  obtain ok why c2 where s: "should_reclaim cfg kern w ?g busy c1 = ((ok, why), c2)" by (metis surj_pair)
  obtain cur c3 where m: "read_current kern w ?g c2 = (cur, c3)" by fastforce
  note eq = assms [unfolded gather_one_def Let_def u b s m prod.case]
  show "map_of (rg_apps r') x = None \<longleftrightarrow> map_of (rg_apps r) x = None"
    using eq by (auto simp: map_of_update_entry split: if_splits)
  assume f: "found = Some (k', g, n)"
  have ok: "ok" "reclaim_cooldown_ok cfg a now" "\<not> la_io a" "k' = k" "g = ?g"
    "n = (case cur of None \<Rightarrow> 0 | Some n \<Rightarrow> n) * int i" "0 < (case cur of None \<Rightarrow> 0 | Some n \<Rightarrow> n)"
    using eq f by (auto split: if_splits)
  have "should_reclaim cfg kern w ?g busy c1 = ((True, why), c2)" using s ok(1) by simp
  note gates = should_reclaim_open [OF this]
  then obtain f where busy: "busy = Some f" "f \<le> rc_idle_cpu_threshold cfg" by blast
  from busy_fraction_idle [OF b [unfolded busy(1)]] obtain p q where
    pq: "la_last_cpu a = Some p" "usec = Some q" "p \<le> q" "0 < ?el" "of_int (q - p) = f * (?el * 1000000)" by blast
  have el: "la_last_cpu_at a \<noteq> 0" "la_last_cpu_at a < now" "?el = now - la_last_cpu_at a" using pq(4) by (auto split: if_splits)
  have "f * (?el * 1000000) \<le> rc_idle_cpu_threshold cfg * (?el * 1000000)"
    using busy(2) pq(4) by (intro mult_right_mono) simp_all
  then have "of_int (q - p) \<le> rc_idle_cpu_threshold cfg * ((now - la_last_cpu_at a) * 1000000)"
    using pq(5) unfolding el(3) by simp
  moreover have "fst (read_cpu_usec kern w ?g c) = Some q" using u pq(2) by simp
  ultimately have idle: "was_idle cfg kern w now a g" unfolding was_idle_def ok(5) using pq(1,3) el(1,2) by blast
  have "cur = Some (case cur of None \<Rightarrow> 0 | Some n \<Rightarrow> n)" using ok(7) by (cases cur) simp_all
  then have "uses_memory kern w g (case cur of None \<Rightarrow> 0 | Some n \<Rightarrow> n)"
    unfolding uses_memory_def ok(5) using m ok(7) by (metis fst_conv)
  then have "\<exists>m. n = m * int i \<and> uses_memory kern w g m" using ok(6) by blast
  then show "k' = k \<and> g = ?g \<and> (\<exists>m. n = m * int i \<and> uses_memory kern w g m) \<and> reclaim_cooldown_ok cfg a now \<and> \<not> la_io a
      \<and> was_idle cfg kern w now a g \<and> gates_open cfg kern w g"
    using gates idle ok by blast
qed

definition ready_for ::
  "reclaim_cfg \<Rightarrow> 'w mem_kernel \<Rightarrow> 'w \<Rightarrow> real \<Rightarrow> (string \<times> limited_app \<times> nat) list \<Rightarrow> string \<times> string \<times> int \<Rightarrow> bool" where
  "ready_for cfg kern w now cands x \<longleftrightarrow>
     (\<exists>a i m. (fst x, a, i) \<in> set cands \<and> fst (snd x) = reclaim_target (fst x) a \<and> reclaim_cooldown_ok cfg a now
         \<and> \<not> la_io a \<and> was_idle cfg kern w now a (fst (snd x)) \<and> gates_open cfg kern w (fst (snd x))
         \<and> uses_memory kern w (fst (snd x)) m \<and> snd (snd x) = m * int i)"

lemma ready_for_more: "ready_for cfg kern w now cands x \<Longrightarrow> ready_for cfg kern w now (cand # cands) x"
  unfolding ready_for_def by (meson list.set_intros(2))

lemma ready_for_cand: "ready_for cfg kern w now cands x \<Longrightarrow> fst x \<in> fst ` set cands"
  by (force simp: ready_for_def)

lemma gather_ready:
  assumes "gather cfg kern w now cands (r, c) = (ready, r', c')"
  shows "(\<forall>x\<in>set ready. ready_for cfg kern w now cands x)
    \<and> (\<forall>y. map_of (rg_apps r') y = None \<longleftrightarrow> map_of (rg_apps r) y = None)
    \<and> (distinct (map fst cands) \<longrightarrow> distinct (map fst ready))"
  using assms
proof (induction cands arbitrary: r c ready r' c')
  case Nil
  then show ?case by simp
next
  case (Cons cand cands)
  obtain k a i where cand: "cand = (k, a, i)" by (metis surj_pair)
  obtain found r1 c1 where g1: "gather_one cfg kern w now (k, a, i) (r, c) = (found, r1, c1)" by (metis surj_pair)
  obtain rest r2 c2 where g2: "gather cfg kern w now cands (r1, c1) = (rest, r2, c2)" by (metis surj_pair)
  have out: "ready = (case found of None \<Rightarrow> rest | Some x \<Rightarrow> x # rest)" "r' = r2"
    using Cons.prems by (simp_all add: cand g1 g2)
  note ih = Cons.IH [OF g2]
  have none: "\<forall>y. map_of (rg_apps r') y = None \<longleftrightarrow> map_of (rg_apps r) y = None"
    using ih gather_one_ready(2) [OF g1] out(2) by simp
  have more: "\<forall>x\<in>set rest. ready_for cfg kern w now (cand # cands) x" using ih by (auto intro: ready_for_more)
  show ?case
  proof (cases found)
    case None
    then have "ready = rest" using out(1) by simp
    then show ?thesis using ih none more by simp
  next
    case (Some x)
    obtain k' g n where x: "x = (k', g, n)" by (metis surj_pair)
    have new: "k' = k" "g = reclaim_target k a" "\<exists>m. n = m * int i \<and> uses_memory kern w g m" "reclaim_cooldown_ok cfg a now"
      "\<not> la_io a" "was_idle cfg kern w now a g" "gates_open cfg kern w g"
      using gather_one_ready(1) [OF g1, of k' g n] Some x by auto
    have ready: "ready = x # rest" using Some out(1) by simp
    obtain m where m: "n = m * int i" "uses_memory kern w g m" using new(3) by blast
    have "ready_for cfg kern w now (cand # cands) x" unfolding ready_for_def x cand fst_conv snd_conv new(1)
      by (rule exI [of _ a], rule exI [of _ i], rule exI [of _ m]) (use new(2,4-7) m in simp)
    moreover have "distinct (map fst ready)" if d: "distinct (map fst (cand # cands))"
    proof -
      have "k \<notin> fst ` set cands" "distinct (map fst rest)" using d ih by (simp_all add: cand)
      moreover have "fst ` set rest \<subseteq> fst ` set cands" using ih by (auto dest: ready_for_cand)
      ultimately show ?thesis by (auto simp: ready x new(1))
    qed
    ultimately show ?thesis using none more by (simp add: ready)
  qed
qed

lemma submit_all_done:
  assumes "submit_all now wall ready share (r, quiet) = (subs, r', quiet')" "\<forall>x\<in>set ready. 0 < share (fst x)"
    and "distinct (map fst ready)" "\<forall>x\<in>set ready. map_of (rg_apps r) (fst x) \<noteq> None"
  shows "subs = map (\<lambda>x. (fst x, fst (snd x), share (fst x))) ready
    \<and> quiet' = (if ready = [] then quiet else mark_reclaim_noise wall)
    \<and> (\<forall>x\<in>set ready. \<exists>b. map_of (rg_apps r') (fst x) = Some b \<and> la_inflight b \<and> la_last_reclaim b = now)
    \<and> (\<forall>k. k \<notin> fst ` set ready \<longrightarrow> map_of (rg_apps r') k = map_of (rg_apps r) k)"
  using assms
proof (induction ready arbitrary: r quiet subs)
  case Nil
  then show ?case by simp
next
  case (Cons x ready)
  obtain k g n where x: "x = (k, g, n)" by (metis surj_pair)
  let ?r1 = "update_entry k (\<lambda>e. e\<lparr>la_inflight := True, la_last_reclaim := now\<rparr>) r"
  obtain rest r2 q2 where s: "submit_all now wall ready share (?r1, mark_reclaim_noise wall) = (rest, r2, q2)" by (metis surj_pair)
  have out: "subs = (k, g, share k) # rest" "r2 = r'" "q2 = quiet'"
    using Cons.prems(1,2) by (auto simp: x s)
  have here: "\<forall>x\<in>set ready. map_of (rg_apps ?r1) (fst x) \<noteq> None"
    using Cons.prems(4) by (auto simp: map_of_update_entry)
  have p: "\<forall>x\<in>set ready. 0 < share (fst x)" "distinct (map fst ready)" "k \<notin> fst ` set ready"
    using Cons.prems(2,3) by (simp_all add: x)
  note ih = Cons.IH [OF s [unfolded out(2,3)] p(1,2) here]
  have kept: "map_of (rg_apps r') k = map_of (rg_apps ?r1) k" using ih p(3) by blast
  have mine: "\<exists>b. map_of (rg_apps r') k = Some b \<and> la_inflight b \<and> la_last_reclaim b = now"
    using kept Cons.prems(4) by (auto simp: x map_of_update_entry)
  have "map_of (rg_apps r') j = map_of (rg_apps r) j" if "j \<notin> fst ` set (x # ready)" for j
  proof -
    have "j \<notin> fst ` set ready" "j \<noteq> k" using that by (auto simp: x)
    then show ?thesis using ih by (simp add: map_of_update_entry)
  qed
  moreover have "subs = map (\<lambda>x. (fst x, fst (snd x), share (fst x))) (x # ready)" using out(1) ih by (simp add: x)
  moreover have "quiet' = mark_reclaim_noise wall" using ih by (cases ready) simp_all
  ultimately show ?case using ih mine by (simp add: x)
qed

lemma round_total:
  assumes "0 < b" "ready \<noteq> []" "distinct (map fst ready)" "\<forall>k. 0 \<le> usage k"
  shows "(\<forall>x\<in>set ready. 1 \<le> share_of (split_proportionally (Some b) (map fst ready) usage) (fst x))
    \<and> sum_list (map (\<lambda>x. share_of (split_proportionally (Some b) (map fst ready) usage) (fst x)) ready) \<le> b + int (length ready)"
proof -
  have ne: "map fst ready \<noteq> []" using assms(2) by simp
  obtain v x where vx: "split_proportionally (Some b) (map fst ready) usage = map (\<lambda>i. (i, Some (v i))) (map fst ready)"
    "\<forall>i\<in>set (map fst ready). 1 \<le> v i \<and> \<bar>real_of_int (v i) - x i\<bar> \<le> 1" "sum_list (map x (map fst ready)) = of_int b"
    using split_near [OF assms(1) ne, of usage] assms(4) by blast
  have share: "share_of (map (\<lambda>i. (i, Some (v i))) (map fst ready)) (fst y) = v (fst y)" if "y \<in> set ready" for y
  proof -
    have "map_of (map (\<lambda>i. (i, Some (v i))) (map fst ready)) (fst y) = Some (Some (v (fst y)))"
      using that unfolding map_of_map_restrict by (simp add: restrict_map_def)
    then show ?thesis by (simp only: share_of_def option.case)
  qed
  have "\<bar>of_int (sum_list (map v (map fst ready))) - real_of_int b\<bar> \<le> real (length (map fst ready))"
    using near_sum [of "map fst ready" v x] vx(2,3) by simp
  then have bound: "sum_list (map v (map fst ready)) \<le> b + int (length ready)" by simp
  have m: "map (\<lambda>y. share_of (map (\<lambda>i. (i, Some (v i))) (map fst ready)) (fst y)) ready = map v (map fst ready)"
    unfolding map_map comp_def using share by (intro map_cong) (simp_all add: comp_def)
  show ?thesis unfolding vx(1) m using share vx(2) bound by simp
qed

lemma weights_nonneg:
  assumes "\<forall>x\<in>set ready. 0 < snd (snd x)"
  shows "0 \<le> (case map_of (map (\<lambda>(k, g, n). (k, n)) ready) k of None \<Rightarrow> 0 | Some n \<Rightarrow> real_of_int n)"
  using assms by (force dest!: map_of_SomeD split: option.splits)

lemma round_shares:
  assumes "0 < b" "0 < sum_list (map usage (map fst ready))" "\<forall>k. 0 \<le> usage k" "x \<in> set ready"
  shows "\<bar>of_int (share_of (split_proportionally (Some b) (map fst ready) usage) (fst x))
    - of_int b * usage (fst x) / sum_list (map usage (map fst ready))\<bar> \<le> (1::real)"
proof -
  let ?t = "sum_list (map usage (map fst ready))"
  let ?v = "\<lambda>i. max 1 (py_trunc (of_int b * usage i / ?t))"
  have split: "split_proportionally (Some b) (map fst ready) usage = map (\<lambda>i. (i, Some (?v i))) (map fst ready)"
    using assms(1,2) by (simp add: split_proportionally_def Let_def)
  have "map_of (map (\<lambda>i. (i, Some (?v i))) (map fst ready)) (fst x) = Some (Some (?v (fst x)))"
    using assms(4) unfolding map_of_map_restrict by (simp add: restrict_map_def)
  then have "share_of (split_proportionally (Some b) (map fst ready) usage) (fst x) = ?v (fst x)"
    by (simp only: split share_of_def option.case)
  moreover have "0 \<le> of_int b * usage (fst x) / ?t" using assms(1-3) by simp
  ultimately show ?thesis using trunc_near by presburger
qed

definition seniority :: "registry \<Rightarrow> string \<Rightarrow> nat" where
  \<comment> \<open>1 for the application limited first\<close>
  "seniority r k = Suc (length (takeWhile (\<lambda>(j, a). j \<noteq> k) (rg_apps r)))"

lemma candidates_seniority:
  assumes "(k, a, i) \<in> set (reclaim_candidates r)" "distinct (map fst (rg_apps r))"
  shows "i = seniority r k"
proof -
  obtain j where j: "j < length (rg_apps r)" "rg_apps r ! j = (k, a)" "i = Suc j"
    using assms(1) by (auto simp: reclaim_candidates_def in_set_enumerate_eq)
  have "takeWhile (\<lambda>(j, a). j \<noteq> k) (rg_apps r) = take j (rg_apps r)"
  proof (rule takeWhile_eq_take_P_nth)
    fix n assume n: "n < j" "n < length (rg_apps r)"
    have "map fst (rg_apps r) ! n \<noteq> map fst (rg_apps r) ! j"
      using assms(2) n j(1) by (simp add: nth_eq_iff_index_eq del: nth_map)
    then show "(case rg_apps r ! n of (j, a) \<Rightarrow> j \<noteq> k)" using n j by (simp add: case_prod_beta)
  qed (use j in simp)
  then show ?thesis using j by (simp add: seniority_def)
qed

text \<open>The division of a round over the reclaims \<open>subs\<close>: the budget is the smaller of the deficit and the gain
  applied to the total weight, it is positive, every reclaim asks for its share of it by weight, up to one byte, and
  together they exceed it by at most one byte each.\<close>

definition fair_round :: "int \<Rightarrow> real \<Rightarrow> (string \<Rightarrow> int) \<Rightarrow> (string \<times> string \<times> int) list \<Rightarrow> bool" where
  "fair_round deficit gain weight subs \<longleftrightarrow>
     (let W = sum_list (map (\<lambda>(k, g, n). weight k) subs); B = min deficit (py_trunc (of_int W * gain))
      in 0 < B \<and> (\<forall>(k, g, n)\<in>set subs. \<bar>of_int n - of_int B * of_int (weight k) / of_int W\<bar> \<le> (1::real))
       \<and> sum_list (map (\<lambda>(k, g, n). n) subs) \<le> B + int (length subs))"

definition submitted_ok :: "reclaim_cfg \<Rightarrow> 'w mem_kernel \<Rightarrow> 'w \<Rightarrow> real \<Rightarrow> registry \<Rightarrow> registry \<Rightarrow> string \<times> string \<times> int \<Rightarrow> bool" where
  \<comment> \<open>what holds of one submitted reclaim: of the entry before the round, of its cgroup, of the entry after\<close>
  "submitted_ok cfg kern w now r r' s \<longleftrightarrow> (case s of (k, g, n) \<Rightarrow>
     1 \<le> n
     \<and> (\<exists>a. map_of (rg_apps r) k = Some a \<and> la_cpu_mem a \<and> \<not> la_io a \<and> la_priority a \<noteq> ''critical'' \<and> \<not> la_inflight a
          \<and> now - la_last_reclaim a \<ge> rc_cooldown_sec cfg + la_backoff a \<and> g = reclaim_target k a \<and> was_idle cfg kern w now a g)
     \<and> gates_open cfg kern w g
     \<and> (\<exists>b. map_of (rg_apps r') k = Some b \<and> la_inflight b \<and> la_last_reclaim b = now))"

lemma ready_weight:
  "distinct (map fst ready) \<Longrightarrow> x \<in> set ready \<Longrightarrow>
     map_of (map (\<lambda>(k, g, n). (k, n)) ready) (fst x) = Some (snd (snd x))"
  by (induction ready) (auto simp: case_prod_beta intro: rev_image_eqI)

lemma tick_round:
  assumes "tick_memory_reclaim f kern w now wall (r, c, quiet) = (subs, r', c', quiet')" "distinct (map fst (rg_apps r))"
    and "subs \<noteq> []"
  shows "\<exists>ready. (\<forall>x\<in>set ready. ready_for (rf_cfg f) kern w now (reclaim_candidates r) x) \<and> distinct (map fst ready)
    \<and> (\<exists>share. subs = map (\<lambda>x. (fst x, fst (snd x), share (fst x))) ready \<and> (\<forall>x\<in>set ready. 1 \<le> share (fst x)))
    \<and> fair_round (system_memory_deficit (rf_cfg f) now (rf_swap f) (rf_meminfo f)) (reclaim_gain (rf_cfg f) (rf_psi f))
        (\<lambda>k. case map_of (map (\<lambda>(k, g, n). (k, n)) ready) k of None \<Rightarrow> 0 | Some n \<Rightarrow> n) subs
    \<and> quiet' = mark_reclaim_noise wall \<and> rc_enabled (rf_cfg f)
    \<and> 0 < movable_anon (worst_recent now (rf_swap f) (rf_meminfo f))
    \<and> (\<forall>x\<in>set ready. \<exists>b. map_of (rg_apps r') (fst x) = Some b \<and> la_inflight b \<and> la_last_reclaim b = now)"
proof -
  let ?cfg = "rf_cfg f" and ?cands = "reclaim_candidates r"
  let ?deficit = "system_memory_deficit ?cfg now (rf_swap f) (rf_meminfo f)" and ?gain = "reclaim_gain ?cfg (rf_psi f)"
  obtain ready r1 c1 where g: "gather ?cfg kern w now ?cands (r, c) = (ready, r1, c1)" by (metis surj_pair)
  let ?budget = "round_budget ?deficit ?gain ready"
  let ?int = "\<lambda>k. case map_of (map (\<lambda>(k, g, n). (k, n)) ready) k of None \<Rightarrow> 0 | Some n \<Rightarrow> n"
  let ?weights = "\<lambda>k. case map_of (map (\<lambda>(k, g, n). (k, n)) ready) k of None \<Rightarrow> 0 | Some n \<Rightarrow> real_of_int n"
  let ?share = "share_of (split_proportionally (Some ?budget) (map fst ready) ?weights)"
  obtain subs2 r2 q2 where sub: "submit_all now wall ready ?share (r1, quiet) = (subs2, r2, q2)" by (metis surj_pair)
  have round: "rc_enabled ?cfg" "0 < movable_anon (worst_recent now (rf_swap f) (rf_meminfo f))" "ready \<noteq> []" "0 < ?budget"
    "subs = subs2" "r' = r2" "quiet' = q2"
    using assms(1,3) unfolding tick_memory_reclaim_def Let_def prod.case g sub by (auto split: if_splits)
  note gathered = gather_ready [OF g]
  have dist: "distinct (map fst ready)" using gathered candidates_keys [OF assms(2)] by blast
  have each: "\<forall>x\<in>set ready. ready_for ?cfg kern w now ?cands x" using gathered by blast
  have pos: "\<forall>x\<in>set ready. 0 < snd (snd x)"
    using each candidates_entry(5) [of _ _ _ r] by (fastforce simp: ready_for_def uses_memory_def)
  have weights: "\<forall>k. 0 \<le> ?weights k" using weights_nonneg [OF pos] by blast
  have rt: "\<forall>x\<in>set ready. 1 \<le> ?share (fst x)" "sum_list (map (\<lambda>x. ?share (fst x)) ready) \<le> ?budget + int (length ready)"
    using round_total [OF round(4,3) dist weights] by blast+
  have known: "\<forall>x\<in>set ready. map_of (rg_apps r) (fst x) \<noteq> None"
  proof
    fix x assume "x \<in> set ready"
    then obtain a i where "(fst x, a, i) \<in> set ?cands" using each unfolding ready_for_def by blast
    then show "map_of (rg_apps r) (fst x) \<noteq> None" using candidates_entry(1) assms(2) by (metis map_of_is_SomeI option.distinct(1))
  qed
  have pos1: "\<forall>x\<in>set ready. 0 < ?share (fst x)" using rt(1) by fastforce
  have known1: "\<forall>x\<in>set ready. map_of (rg_apps r1) (fst x) \<noteq> None" using known gathered by blast
  note submitted = submit_all_done [OF sub pos1 dist known1]
  have s: "subs = map (\<lambda>x. (fst x, fst (snd x), ?share (fst x))) ready" using submitted round(5) by simp
  note at = ready_weight [OF dist]
  have W: "sum_list (map (\<lambda>(k, g, n). ?int k) subs) = sum_list (map (\<lambda>(k, g, n). n) ready)"
    unfolding s map_map by (intro arg_cong [where f = sum_list] map_cong) (auto simp: at)
  have tot: "sum_list (map ?weights (map fst ready)) = of_int (sum_list (map (\<lambda>(k, g, n). n) ready))"
  proof -
    have w: "map ?weights (map fst ready) = map (\<lambda>x. real_of_int (snd (snd x))) ready"
      unfolding map_map by (intro map_cong) (auto simp: at)
    have "sum_list (map (\<lambda>x. real_of_int (snd (snd x))) ready) = of_int (sum_list (map (\<lambda>(k, g, n). n) ready))"
      by (induction ready) auto
    then show ?thesis unfolding w .
  qed
  obtain x0 rest where x0: "ready = x0 # rest" using round(3) by (cases ready) auto
  have "0 \<le> sum_list (map (\<lambda>(k, g, n). n) rest)" using pos unfolding x0 by (intro sum_list_nonneg) force
  then have "0 < sum_list (map (\<lambda>(k, g, n). n) ready)" using pos unfolding x0 by (cases x0) simp
  then have tpos: "0 < sum_list (map ?weights (map fst ready))" unfolding tot by simp
  have B: "min ?deficit (py_trunc (of_int (sum_list (map (\<lambda>(k, g, n). ?int k) subs)) * ?gain)) = ?budget"
    unfolding W round_budget_def ..
  have near: "\<forall>(k, g, n)\<in>set subs. \<bar>of_int n - of_int ?budget * of_int (?int k)
      / of_int (sum_list (map (\<lambda>(k, g, n). ?int k) subs))\<bar> \<le> (1::real)"
  proof -
    have "\<bar>of_int (?share (fst x)) - of_int ?budget * of_int (?int (fst x))
      / of_int (sum_list (map (\<lambda>(k, g, n). ?int k) subs))\<bar> \<le> (1::real)" if x: "x \<in> set ready" for x
      using round_shares [OF round(4) tpos weights x] unfolding W tot at [OF x] by simp
    then show ?thesis unfolding s by auto
  qed
  have "sum_list (map (\<lambda>(k, g, n). n) subs) \<le> ?budget + int (length subs)"
    using rt(2) by (simp add: s comp_def)
  then have fair: "fair_round ?deficit ?gain ?int subs"
    unfolding fair_round_def Let_def B using round(4) near by blast
  have "quiet' = mark_reclaim_noise wall" using submitted round(3,7) by simp
  then show ?thesis using each dist s rt(1) fair round(1,2,6) submitted by blast
qed

lemma fair_round_cong:
  assumes "fair_round deficit gain weight subs" "\<And>k. k \<in> fst ` set subs \<Longrightarrow> weight k = weight' k"
  shows "fair_round deficit gain weight' subs"
proof -
  have W: "map (\<lambda>(k, g, n). weight k) subs = map (\<lambda>(k, g, n). weight' k) subs"
    using assms(2) by (intro map_cong) force+
  have each: "weight (fst x) = weight' (fst x)" if "x \<in> set subs" for x using assms(2) that by simp
  show ?thesis using assms(1) each unfolding fair_round_def Let_def W by (auto 0 3)
qed

lemma ready_memory:
  assumes "\<forall>x\<in>set ready. ready_for cfg kern w now (reclaim_candidates r) x" "distinct (map fst ready)" "distinct (map fst (rg_apps r))"
  shows "\<exists>mem. \<forall>x\<in>set ready. uses_memory kern w (fst (snd x)) (mem (fst x)) \<and> snd (snd x) = mem (fst x) * int (seniority r (fst x))"
proof -
  have "\<forall>x\<in>set ready. \<exists>m. uses_memory kern w (fst (snd x)) m \<and> snd (snd x) = m * int (seniority r (fst x))"
    using assms(1) candidates_seniority [OF _ assms(3)] unfolding ready_for_def by metis
  then obtain f where f: "\<forall>x\<in>set ready. uses_memory kern w (fst (snd x)) (f x) \<and> snd (snd x) = f x * int (seniority r (fst x))"
    by metis
  define mem where "mem k = (case map_of (map (\<lambda>x. (fst x, f x)) ready) k of Some m \<Rightarrow> m | None \<Rightarrow> 0)" for k
  have "mem (fst x) = f x" if "x \<in> set ready" for x
  proof -
    have "map_of (map (\<lambda>x. (fst x, f x)) ready) (fst x) = Some (f x)"
      using that assms(2) by (intro map_of_is_SomeI) (force simp: comp_def)+
    then show ?thesis by (simp add: mem_def)
  qed
  then show ?thesis using f by (intro exI [of _ mem]) auto
qed

lemma ready_submitted:
  assumes "ready_for cfg kern w now (reclaim_candidates r) x" "distinct (map fst (rg_apps r))" "1 \<le> share (fst x)"
    and "\<exists>b. map_of (rg_apps r') (fst x) = Some b \<and> la_inflight b \<and> la_last_reclaim b = now"
  shows "submitted_ok cfg kern w now r r' (fst x, fst (snd x), share (fst x))"
proof -
  obtain a i where ai: "(fst x, a, i) \<in> set (reclaim_candidates r)" "fst (snd x) = reclaim_target (fst x) a" "reclaim_cooldown_ok cfg a now"
    "\<not> la_io a" "was_idle cfg kern w now a (fst (snd x))" "gates_open cfg kern w (fst (snd x))"
    using assms(1) unfolding ready_for_def by blast
  have "map_of (rg_apps r) (fst x) = Some a" using candidates_entry(1) [OF ai(1)] assms(2) by simp
  then show ?thesis using candidates_entry [OF ai(1)] ai assms(3,4) by (auto simp: submitted_ok_def reclaim_cooldown_ok_def)
qed

lemma submit_all_none:
  assumes "submit_all now wall ready share (r, quiet) = ([], r', quiet')"
  shows "quiet' = quiet"
  using assms
proof (induction ready arbitrary: r quiet)
  case (Cons x ready)
  obtain k g n where x: "x = (k, g, n)" by (metis surj_pair)
  show ?case using Cons by (auto simp: x split: if_splits prod.splits)
qed simp


definition round_text :: string where
  "round_text = ''usage_usec 5'' @ [CHR 0x0A] @ ''anon 9''"

definition round_kernel :: "unit mem_kernel" where
  "round_kernel = demo_mem_kernel\<lparr>mk_read := (\<lambda>w p. if take 3 (rev p) = ''tne'' then Some ''4096''
     else Some round_text)\<rparr>"

definition round_entry :: limited_app where
  "round_entry = demo_app\<lparr>la_io := False, la_last_cpu := Some 5, la_last_cpu_at := 1\<rparr>"

definition round_registry :: registry where
  "round_registry = \<lparr>rg_apps = [(''a.scope'', round_entry)], rg_exclusions = [], rg_baseline = [], rg_dominant = False\<rparr>"

definition round_facts :: reclaim_facts where
  "round_facts = \<lparr>rf_cfg = reclaim_defaults\<lparr>rc_enabled := True\<rparr>, rf_swap = demo_ctl\<lparr>sc_window := []\<rparr>,
     rf_meminfo = demo_snap\<lparr>ms_mem_total := 1000000, ms_mem_available := 100, ms_anon_pages := 500000, ms_swap_total := 0, ms_swap_free := 0\<rparr>,
     rf_psi = 0\<rparr>"

lemma round_read:
  "mk_read round_kernel () (path_join p ''memory.current'') = Some ''4096''"
  "mk_read round_kernel () (path_join p ''cpu.stat'') = Some round_text"
  "mk_read round_kernel () (path_join p ''memory.stat'') = Some round_text"
  by (simp_all add: round_kernel_def path_join_def)

lemma round_keyed: "flat_keyed (split_char (CHR 0x0A) (strip round_text)) [] = [(''usage_usec'', 5), (''anon'', 9)]"
  by (simp add: round_text_def strip_def is_space_def split_ws_def py_int_def parse_nat_def is_digit_def nat_of_digits_def digit_val_def)

lemma round_files:
  "fst (read_current round_kernel () g c) = Some 4096"
  "fst (read_flat_keyed round_kernel () g ''memory.stat'' c) = [(''usage_usec'', 5), (''anon'', 9)]"
  "fst (read_cpu_usec round_kernel () g c) = Some 5"
  by (simp_all add: read_current_def read_int_file_def read_flat_keyed_def read_cpu_usec_def get_parameter_def round_read round_keyed
      split: prod.split)
    (simp add: strip_def is_space_def py_int_def parse_nat_def is_digit_def nat_of_digits_def digit_val_def)

lemma round_gathered:
  "\<exists>r1 c1. gather (rf_cfg round_facts) round_kernel () 1000 (reclaim_candidates round_registry) (round_registry, mem_ctl_init ''/cg'')
     = ([(''a.scope'', ''a.scope'', 4096)], r1, c1)"
proof -
  let ?cfg = "rf_cfg round_facts" and ?c = "mem_ctl_init ''/cg''" and ?g = "''a.scope''"
  have cands: "reclaim_candidates round_registry = [(?g, round_entry, 1)]"
    by (simp add: reclaim_candidates_def round_registry_def round_entry_def demo_app_def fresh_entry_def)
  obtain c1 where c1: "read_cpu_usec round_kernel () ?g ?c = (Some 5, c1)" using round_files(3) by (metis prod.collapse)
  have ex: "fst (cgroup_exists round_kernel () g c)" for g c
    by (simp add: cgroup_exists_def round_kernel_def demo_mem_kernel_def split: prod.split)
  obtain c2 where c2: "cgroup_exists round_kernel () ?g c1 = (True, c2)" using ex by (metis prod.collapse)
  obtain c3 where c3: "read_flat_keyed round_kernel () ?g ''memory.stat'' c2 = ([(''usage_usec'', 5), (''anon'', 9)], c3)"
    using round_files(2) by (metis prod.collapse)
  obtain c4 where c4: "read_flat_keyed round_kernel () ?g ''memory.stat'' c3 = ([(''usage_usec'', 5), (''anon'', 9)], c4)"
    using round_files(2) by (metis prod.collapse)
  obtain c5 where c5: "read_current round_kernel () ?g c4 = (Some 4096, c5)" using round_files(1) by (metis prod.collapse)
  have stat: "file_cache_fraction [(''usage_usec'', 5), (''anon'', 9)] = Some 0" "reclaimable_anon [(''usage_usec'', 5), (''anon'', 9)] = 9"
    by (simp_all add: file_cache_fraction_def reclaimable_anon_def get_or_def)
  have cfg: "rc_enabled ?cfg" "rc_idle_cpu_threshold ?cfg = 5/100" "rc_max_file_cache_fraction ?cfg = 50/100" "rc_cooldown_sec ?cfg = 30"
    by (simp_all add: round_facts_def reclaim_defaults_def)
  have e: "reclaim_target ?g round_entry = ?g" "la_last_cpu round_entry = Some 5" "la_last_cpu_at round_entry = 1" "\<not> la_io round_entry"
    "reclaim_cooldown_ok ?cfg round_entry 1000"
    by (simp_all add: reclaim_target_def round_entry_def reclaim_cooldown_ok_def cfg demo_app_def fresh_entry_def uniq_def)
  have s: "should_reclaim ?cfg round_kernel () ?g (Some 0) c1 = ((True, GateOk), c4)"
    by (simp add: should_reclaim_def cfg c2 c3 c4 stat)
  show ?thesis unfolding cands
    by (simp add: gather_one_def e c1 cpu_busy_fraction_def s c5 Let_def)
qed


subsection \<open>Seniority\<close>

text \<open>The weight of a candidate is its position in the registry. A partial restore moves the entry to the end, so an
  application limited first counts as the newest from then on.\<close>
lemma partial_restore_makes_newest:
  assumes "restore_channel_for kern running k entry ch Partial (r, w) = (b, r', w')" "map_of (rg_apps r) k \<noteq> None"
  shows "\<exists>a. last (rg_apps r') = (k, a) \<and> rg_apps r' \<noteq> []"
proof -
  obtain ok r1 w1 where rr: "restore_resources kern running k (la_rates entry) (ch = ChSys) (ch = ChDisk) Partial (r, w) = (ok, r1, w1)"
    by (metis surj_pair)
  have "map_of (rg_apps r1) k \<noteq> None" using restore_resources_apps(1) [OF rr] assms(2) by (auto simp: map_of_update_entry)
  then have m: "\<exists>a. move_to_end k (rg_apps (update_entry k f r1)) = AList.delete k (rg_apps (update_entry k f r1)) @ [(k, a)]" for f
    by (auto simp: move_to_end_def map_of_update_entry split: option.splits)
  obtain a0 where "move_to_end k (rg_apps r1) = AList.delete k (rg_apps r1) @ [(k, a0)]"
    using \<open>map_of (rg_apps r1) k \<noteq> None\<close> by (auto simp: move_to_end_def split: option.splits)
  then show ?thesis using assms(1) m [of "\<lambda>a. set_relaxed ch True a\<lparr>la_relaxed := True\<rparr>"]
    unfolding restore_channel_for_def rr by (auto simp: Let_def split: if_splits)
qed

text \<open>The gain is applied to the weights, so to the memory in use times the position: with the largest gain of the
  shipped configuration, 5%, the tenth application alone is asked for half of its memory in one round.\<close>

lemma gain_times_seniority:
  "round_budget 1000000 (rc_gain_max reclaim_defaults) [(k, g, 1000 * 10)] = 1000 div 2"
  by (simp add: round_budget_def reclaim_defaults_def py_trunc_def)

end
