(* ===== verification/Proc_State.thy ===== *)
theory Proc_State
  imports Limit_Policy
begin

text \<open>
  Whether an application is still there, from \<open>balancer/balancer/balancer.py\<close>: the reading of \<open>/proc/<pid>/status\<close>
  (\<open>_pid_gone_or_dying\<close>), the presence of a candidate (\<open>_target_still_present\<close>) and the closing of a limited
  application (\<open>_is_app_closed\<close>). The file read, the cgroup lookup and the running status are arguments.
\<close>

unbundle bit_operations_syntax

subsection \<open>The state of a process\<close>

datatype proc_read = ProcMissing | ProcUnreadable | ProcText string

definition hex_char_value :: "char \<Rightarrow> nat option" where
  "hex_char_value c =
     (let n = (of_char c :: nat)
      in if 48 \<le> n \<and> n \<le> 57 then Some (n - 48) else if 97 \<le> n \<and> n \<le> 102 then Some (n - 87)
         else if 65 \<le> n \<and> n \<le> 70 then Some (n - 55) else None)"

fun hex_value :: "nat \<Rightarrow> string \<Rightarrow> nat option" where
  "hex_value acc [] = Some acc"
| "hex_value acc (c # cs) = (case hex_char_value c of None \<Rightarrow> None | Some d \<Rightarrow> hex_value (acc * 16 + d) cs)"

definition parse_hex :: "string \<Rightarrow> nat option" where
  \<comment> \<open>\<open>int(s, 16)\<close> on the plain digits the kernel prints\<close>
  "parse_hex s = (if s = [] then None else hex_value 0 s)"

definition status_fields :: "string \<Rightarrow> (string \<times> string) list" where
  \<comment> \<open>the lines read into \<open>fields\<close>, the last one of a name first\<close>
  "status_fields content =
     rev (map (\<lambda>line. case partition_at CHR '':'' line of (key, _, v) \<Rightarrow> (key, strip v))
       (filter (\<lambda>line. startswith line ''State:'' \<or> startswith line ''SigPnd:'' \<or> startswith line ''ShdPnd:'')
          (split_char CHR 0x0A content)))"

definition pending_of :: "(string \<times> string) list \<Rightarrow> string \<Rightarrow> nat" where
  "pending_of flds key =
     (case split_ws (case map_of flds key of None \<Rightarrow> ''0'' | Some v \<Rightarrow> v) of
        [] \<Rightarrow> 0
      | t # _ \<Rightarrow> (case parse_hex t of None \<Rightarrow> 0 | Some n \<Rightarrow> n))"

definition fatal_pending_signals :: "nat list" where
  "fatal_pending_signals = [2, 9, 15]"

definition fatal_mask :: nat where
  "fatal_mask = foldr (\<lambda>s m. m OR 2 ^ (s - 1)) fatal_pending_signals 0"

definition pid_gone_or_dying :: "proc_read \<Rightarrow> bool" where
  "pid_gone_or_dying rd =
     (case rd of
        ProcMissing \<Rightarrow> True
      | ProcUnreadable \<Rightarrow> False
      | ProcText content \<Rightarrow>
          (let flds = status_fields content;
               pending = pending_of flds ''ShdPnd'' OR pending_of flds ''SigPnd'';
               state = (case map_of flds ''State'' of Some (c # _) \<Rightarrow> c | _ \<Rightarrow> CHR '' '')
           in state = CHR ''Z'' \<or> pending AND fatal_mask \<noteq> 0))"

subsection \<open>Presence and closing\<close>

definition target_still_present :: "(int \<Rightarrow> proc_read) \<Rightarrow> (string \<Rightarrow> bool) \<Rightarrow> candidate \<Rightarrow> string \<Rightarrow> bool" where
  "target_still_present rd cgroup_exists ca app_id \<longleftrightarrow>
     list_ex (\<lambda>p. \<not> pid_gone_or_dying (rd p)) (filter (\<lambda>p. p \<noteq> 0) (ca_pids ca)) \<or> cgroup_exists app_id"

definition is_app_closed :: "(int \<Rightarrow> proc_read) \<Rightarrow> (string \<Rightarrow> string \<Rightarrow> string option) \<Rightarrow> limited_app \<Rightarrow> bool" where
  \<comment> \<open>\<open>status id name\<close> is \<open>check_app_running_status\<close>, None when it raises\<close>
  "is_app_closed rd status a \<longleftrightarrow>
     list_all (\<lambda>p. pid_gone_or_dying (rd p)) (la_pids a)
     \<or> (case la_rep_pid a of
          None \<Rightarrow> False
        | Some p \<Rightarrow> p \<noteq> 0 \<and> pid_gone_or_dying (rd p) \<and> (la_source a = Auto \<or> la_adopted a)
            \<and> status (la_public_id a) (la_name a) = Some ''stopped'')"

subsection \<open>Lemmas\<close>

lemma fatal_mask_value: "fatal_mask = 0x4102"
  by (simp add: fatal_mask_def fatal_pending_signals_def)

lemma bit_fatal_mask: "bit fatal_mask n \<longleftrightarrow> n = 1 \<or> n = 8 \<or> n = 14"
proof -
  have e: "fatal_mask = 2 ^ 1 OR (2 ^ 8 OR 2 ^ 14)"
    by (simp add: fatal_mask_def fatal_pending_signals_def)
  show ?thesis by (simp only: e bit_or_iff bit_exp_iff) auto
qed

lemma fatal_iff: "n AND fatal_mask \<noteq> 0 \<longleftrightarrow> bit n 1 \<or> bit n 8 \<or> bit n 14" for n :: nat
proof -
  have "n AND fatal_mask \<noteq> 0 \<longleftrightarrow> (\<exists>i. bit (n AND fatal_mask) i)"
    by (metis bit_eq_iff bit_0_eq bot_apply bot_bool_def)
  then show ?thesis by (simp add: bit_and_iff bit_fatal_mask) blast
qed

lemma fatal_pos: "0 < n AND fatal_mask \<longleftrightarrow> bit n 1 \<or> bit n 8 \<or> bit n 14" for n :: nat
  using fatal_iff [of n] by (simp only: neq0_conv)

lemma pending_disj: "bit (a OR b) n \<longleftrightarrow> bit a n \<or> bit b n" for a b :: nat
  by (simp add: bit_or_iff)

text \<open>a process counts as gone exactly when it is gone or about to be. Its status file is missing, it is a zombie, or one of
  the interrupt, kill and termination signals is pending, in either of the two pending sets; an unreadable file counts as
  alive.\<close>
theorem pid_gone_exact:
  "pid_gone_or_dying rd =
     (case rd of
        ProcMissing \<Rightarrow> True
      | ProcUnreadable \<Rightarrow> False
      | ProcText content \<Rightarrow>
          (\<exists>s cs. map_of (status_fields content) ''State'' = Some (s # cs) \<and> s = CHR ''Z'')
          \<or> (\<exists>sig\<in>{2, 9, 15}. \<exists>f\<in>{''SigPnd'', ''ShdPnd''}. bit (pending_of (status_fields content) f) (sig - 1)))"
  by (cases rd) (auto simp: pid_gone_or_dying_def Let_def fatal_pos pending_disj split: option.splits list.splits)

end
