(* ===== verification/Limit_Apply.thy ===== *)
theory Limit_Apply
  imports Limit_Rates Reclaim_Sched Proc_State
begin

text \<open>
  Applying an automatic limit, from \<open>balancer/balancer/balancer.py\<close>: whom the CPU/memory arm picks
  (\<open>_handle_critical_pressure\<close>, \<open>_resolve_controlled_target\<close>), how much memory it leaves (\<open>_auto_mem_high_mb\<close>), the
  writes and their record (\<open>_apply_resource_limits\<close>), the dominant flag, and the two arms of the policy tick put
  together with theory \<open>Limit_Policy\<close>. The writes to cgroups and the readings are functions over an arbitrary world.
\<close>

subsection \<open>The host\<close>

record 'w limit_host =
  lh_kernel :: "'w lim_kernel"
  lh_cap :: "string \<Rightarrow> int option \<Rightarrow> int option \<Rightarrow> 'w \<Rightarrow> bool \<times> 'w"   \<comment> \<open>\<open>adjust_resources(id, "critical", cpu_quota, mem_high)\<close>\<close>
  lh_throttle :: "string \<Rightarrow> (string \<times> io_max) list \<Rightarrow> string list \<Rightarrow> 'w \<Rightarrow> bool \<times> 'w"  \<comment> \<open>\<open>set_disk_io_throttle\<close>, no filter means every disk\<close>
  lh_current :: "'w \<Rightarrow> string \<Rightarrow> int option"            \<comment> \<open>None: not readable\<close>
  lh_swapped :: "'w \<Rightarrow> string \<Rightarrow> int option"
  lh_stressed :: "'w \<Rightarrow> string list"                   \<comment> \<open>\<open>_stressed_disks\<close>\<close>
  lh_disks :: "'w \<Rightarrow> string list \<Rightarrow> string list"        \<comment> \<open>the names of \<open>get_disk_id(filter)\<close>\<close>
  lh_scales :: pyval
  lh_media :: "string \<Rightarrow> media"

subsection \<open>Memory an automatic limit leaves\<close>

definition cgroup_bytes :: "'w limit_host \<Rightarrow> 'w \<Rightarrow> (string \<times> int) list \<Rightarrow> string \<Rightarrow> int" where
  \<comment> \<open>the sampled resident size, or what the kernel says when the sample has no row\<close>
  "cgroup_bytes host w rss cg =
     (if get_or rss cg 0 \<noteq> 0 then get_or rss cg 0
      else (case lh_current host w cg of None \<Rightarrow> 0 | Some n \<Rightarrow> n) + (case lh_swapped host w cg of None \<Rightarrow> 0 | Some n \<Rightarrow> n))"

definition app_working_set_mb :: "'w limit_host \<Rightarrow> 'w \<Rightarrow> string list \<Rightarrow> (string \<times> int) list \<Rightarrow> int" where
  "app_working_set_mb host w cgroups rss = sum_list (map (cgroup_bytes host w rss) cgroups) div (1024 * 1024)"

definition auto_mem_high_mb ::
  "'w limit_host \<Rightarrow> 'w \<Rightarrow> string \<Rightarrow> string list \<Rightarrow> (string \<times> int) list \<Rightarrow> real \<Rightarrow> real option \<Rightarrow> int option" where
  "auto_mem_high_mb host w app_id extra rss total_mem_mb rate =
     (case rate of
        None \<Rightarrow> None
      | Some r \<Rightarrow>
          if r = 0 then None
          else (let system_share = py_trunc (total_mem_mb * r);
                    working_set = app_working_set_mb host w (app_id # extra) rss
                in if working_set \<le> 0 then Some system_share
                   else Some (min system_share (max 1 (py_trunc (of_int working_set * r))))))"

subsection \<open>The writes\<close>

definition share_for :: "(string \<times> int option) list \<Rightarrow> int option \<Rightarrow> string \<Rightarrow> int option" where
  \<comment> \<open>\<open>dist.get(cgroup, whole)\<close>\<close>
  "share_for shares whole cg = (case map_of shares cg of None \<Rightarrow> whole | Some v \<Rightarrow> v)"

definition usage_of :: "(string \<times> real) list \<Rightarrow> string \<Rightarrow> real" where
  "usage_of d k = (case map_of d k of None \<Rightarrow> 0 | Some v \<Rightarrow> v)"

definition cap_cpu_mem ::
  "'w limit_host \<Rightarrow> string \<Rightarrow> string list \<Rightarrow> int option \<Rightarrow> int option \<Rightarrow> (string \<times> real) list \<Rightarrow> (string \<times> real) list
     \<Rightarrow> 'w \<Rightarrow> bool \<times> 'w" where
  \<comment> \<open>the result of the primary cgroup counts, those of the others are only logged\<close>
  "cap_cpu_mem host app_id extra cpu mem cg_mem cg_cpu w =
     (if extra = [] then lh_cap host app_id cpu mem w
      else (let md = split_proportionally mem (app_id # extra) (usage_of cg_mem);
                cd = split_proportionally cpu (app_id # extra) (usage_of cg_cpu)
            in case lh_cap host app_id (share_for cd cpu app_id) (share_for md mem app_id) w of (ok, w1) \<Rightarrow>
                 (ok, each_extra (\<lambda>c. lh_cap host c (share_for cd cpu c) (share_for md mem c)) extra w1)))"

definition throttle_all ::
  "'w limit_host \<Rightarrow> string \<Rightarrow> string list \<Rightarrow> (string \<times> io_max) list \<Rightarrow> string list \<Rightarrow> 'w \<Rightarrow> bool \<times> 'w" where
  "throttle_all host app_id extra limits disks w =
     (case lh_throttle host app_id limits disks w of (ok, w1) \<Rightarrow>
        (ok, each_extra (\<lambda>c. lh_throttle host c limits disks) extra w1))"

definition truthy_rate :: "real option \<Rightarrow> bool" where
  "truthy_rate r \<longleftrightarrow> r \<noteq> None \<and> r \<noteq> Some 0"

definition auto_cpu_rate :: "limit_rates \<Rightarrow> int option" where
  "auto_cpu_rate rates = (if truthy_rate (lr_cpu rates) then map_option (\<lambda>r. py_trunc (100 * r)) (lr_cpu rates) else None)"

definition display_name :: "candidate \<Rightarrow> string \<Rightarrow> string" where
  "display_name ca app_id = (if ca_app_name ca \<noteq> [] then ca_app_name ca else if ca_name ca \<noteq> [] then ca_name ca else app_id)"

definition request_of ::
  "candidate \<Rightarrow> string \<Rightarrow> limit_rates \<Rightarrow> bool \<Rightarrow> bool \<Rightarrow> string \<Rightarrow> bool \<Rightarrow> bool \<Rightarrow> string list \<Rightarrow> limit_request" where
  "request_of ca app_id rates controlled disk level resource_limited io_limited disks =
     \<lparr>lq_public_id = (if ca_public_id ca \<noteq> [] then ca_public_id ca else app_id), lq_name = display_name ca app_id,
      lq_rates = rates, lq_resource = resource_limited, lq_io = io_limited, lq_priority = ca_priority ca,
      lq_controlled = controlled, lq_reason = (if disk then ''disk_pressure'' else ''system_pressure''), lq_level = level,
      lq_cgroups = app_id # ca_extra ca, lq_disks = disks, lq_pids = ca_pids ca, lq_rep_pid = ca_pid ca,
      lq_res_cpu = (resource_limited \<and> truthy_rate (lr_cpu rates)),
      lq_res_mem = (resource_limited \<and> truthy_rate (lr_mem rates))\<rparr>"

definition manual_cgroups :: "registry \<Rightarrow> string list \<Rightarrow> string list" where
  "manual_cgroups r ids = filter (\<lambda>i. by_any_id i (Some Manual) r \<noteq> None) ids"

definition apply_sys ::
  "'w limit_host \<Rightarrow> bool \<Rightarrow> candidate \<Rightarrow> string \<Rightarrow> limit_rates \<Rightarrow> registry \<times> 'w \<Rightarrow> bool \<times> registry \<times> 'w" where
  \<comment> \<open>the CPU/memory half: the disk cap of the application goes first, then the caps are written\<close>
  "apply_sys host running ca app_id rates st =
     (case clear_io_cap_before_sys_limit (lh_kernel host) running app_id st of (r1, w1) \<Rightarrow>
        (let cpu = auto_cpu_rate rates;
             mem = auto_mem_high_mb host w1 app_id (ca_extra ca) (ca_mem_rss ca) (lk_total_mem (lh_kernel host)) (lr_mem rates)
         in if (cpu \<noteq> None \<or> mem \<noteq> None) \<and> running
            then (case cap_cpu_mem host app_id (ca_extra ca) cpu mem
                         (map (\<lambda>(k, v). (k, of_int v)) (ca_mem_rss ca)) (ca_cpu ca) w1 of (ok, w2) \<Rightarrow> (ok, r1, w2))
            else (False, r1, w1)))"

definition apply_io ::
  "'w limit_host \<Rightarrow> bool \<Rightarrow> candidate \<Rightarrow> string \<Rightarrow> limit_rates \<Rightarrow> 'w \<Rightarrow> bool \<times> string list \<times> 'w" where
  "apply_io host running ca app_id rates w =
     (case lr_io rates of
        None \<Rightarrow> (False, [], w)
      | Some i \<Rightarrow>
          if \<not> running then (False, [], w)
          else (let disks = lh_stressed host w;
                    limits = scaled_io_limits (lh_scales host) (lh_media host) (lh_disks host w disks) i
                in case throttle_all host app_id (ca_extra ca) limits disks w of (ok, w1) \<Rightarrow> (ok, disks, w1)))"

definition apply_resource_limits ::
  "'w limit_host \<Rightarrow> bool \<Rightarrow> real \<Rightarrow> candidate \<Rightarrow> string \<Rightarrow> limit_rates \<Rightarrow> bool \<Rightarrow> bool \<Rightarrow> string
     \<Rightarrow> registry \<times> 'w \<Rightarrow> registry \<times> 'w" where
  "apply_resource_limits host running now ca app_id rates controlled disk level st =
     (case st of (r, w) \<Rightarrow>
        if manual_cgroups r (app_id # ca_extra ca) \<noteq> [] then (r, w)
        else (let (res, r1, w1) = (if disk then (False, r, w) else apply_sys host running ca app_id rates (r, w));
                  (io, disks, w2) = (if disk then apply_io host running ca app_id rates w1 else (False, [], w1))
              in if res \<or> io
                 then (snd (upsert_auto_limited now app_id (request_of ca app_id rates controlled disk level res io disks) r1), w2)
                 else (r1, w2)))"

subsection \<open>Whom the CPU/memory arm picks\<close>

record control_env =
  ce_control :: "string \<Rightarrow> string \<Rightarrow> bool \<times> control_data option"   \<comment> \<open>\<open>get_app_control_info\<close>\<close>
  ce_usage :: "string \<Rightarrow> string \<Rightarrow> app_usage option"                \<comment> \<open>\<open>get_app_resource_usage\<close>\<close>
  ce_rates :: "string \<Rightarrow> limit_rates"                             \<comment> \<open>\<open>get_limited_rates\<close> of a priority\<close>

definition resolve_controlled_target :: "control_env \<Rightarrow> candidate \<Rightarrow> control_data \<Rightarrow> string option \<times> candidate" where
  "resolve_controlled_target env ca d =
     (let u = (case ce_usage env (cd_app_id d) (cd_name d) of None \<Rightarrow> no_usage | Some u \<Rightarrow> u);
          ids = usage_cgroups u
      in case ids of
           [] \<Rightarrow> (None, ca)
         | i # is \<Rightarrow>
             (let primary = fold min is i
              in (Some primary,
                  ca\<lparr>ca_extra := filter (\<lambda>e. e \<noteq> primary) ids, ca_public_id := cd_app_id d,
                     ca_pids := (if au_pids u \<noteq> [] then au_pids u else ca_pids ca),
                     ca_mem_rss := (if au_cg_mem u \<noteq> [] then map (\<lambda>(k, v). (k, \<lfloor>v\<rfloor>)) (au_cg_mem u) else ca_mem_rss ca),
                     ca_cpu := (if au_cg_cpu u \<noteq> [] then au_cg_cpu u else ca_cpu ca)\<rparr>)))"

definition sample_scope :: "candidate \<Rightarrow> string" where
  "sample_scope ca = (if basename_of (ca_cgroup ca) \<noteq> [] then basename_of (ca_cgroup ca) else ca_cgroup_id ca)"

definition priority_of :: "control_data option \<Rightarrow> string" where
  "priority_of data = (case data of None \<Rightarrow> [] | Some d \<Rightarrow> cd_priority d)"

definition target_of :: "control_env \<Rightarrow> bool \<Rightarrow> control_data option \<Rightarrow> candidate \<Rightarrow> string \<times> candidate" where
  \<comment> \<open>the id to address cgroups with, and the rewritten candidate\<close>
  "target_of env controlled data ca =
     (case (controlled, data) of
        (True, Some d) \<Rightarrow>
          (case resolve_controlled_target env ca d of
             (Some (c # cs), ca1) \<Rightarrow> (c # cs, ca1)
           | (_, ca1) \<Rightarrow> (ca_id ca, ca1))
      | _ \<Rightarrow> if sample_scope ca \<noteq> [] then (sample_scope ca, ca\<lparr>ca_public_id := ca_id ca\<rparr>) else (ca_id ca, ca))"

definition handle_critical_pressure ::
  "control_env \<Rightarrow> bool \<Rightarrow> bool \<Rightarrow> candidate list \<Rightarrow> (bool \<times> string \<times> limit_rates \<times> candidate) option" where
  \<comment> \<open>None when nothing is to be adjusted; the notifications to the user are left out\<close>
  "handle_critical_pressure env sys_busy reach tops =
     (case tops of
        [] \<Rightarrow> None
      | ca # _ \<Rightarrow>
          (case ce_control env (ca_id ca) (lower (ca_name ca)) of (controlled, data) \<Rightarrow>
             (let priority = priority_of data; p = (if priority = [] then ''undefined'' else priority)
              in if sys_busy \<and> \<not> reach then None
                 else if \<not> controlled \<or> priority \<noteq> ''critical''
                 then (case target_of env controlled data ca of (app_id, ca1) \<Rightarrow>
                         Some (controlled, app_id, ce_rates env p, ca1\<lparr>ca_priority := p\<rparr>))
                 else None)))"

definition target_ids :: "candidate \<Rightarrow> string \<Rightarrow> string list" where
  "target_ids ca app_id =
     filter (\<lambda>i. i \<noteq> []) [app_id, ca_id ca, ca_cgroup_id ca] @ map basename_of (filter (\<lambda>c. c \<noteq> []) (ca_cgroup ca # ca_extra ca))"

definition target_has_auto_cpu_mem_limit :: "registry \<Rightarrow> candidate \<Rightarrow> string \<Rightarrow> bool" where
  "target_has_auto_cpu_mem_limit r ca app_id \<longleftrightarrow>
     list_ex (\<lambda>i. case by_any_id i (Some Auto) r of None \<Rightarrow> False | Some (_, a) \<Rightarrow> la_cpu_mem a) (target_ids ca app_id)"

definition top_cgroups :: "candidate \<Rightarrow> string list" where
  "top_cgroups ca =
     (if ca_cgroup ca \<noteq> [] then [basename (ca_cgroup ca)] else []) @ (if ca_cgroup_id ca \<noteq> [] then [ca_cgroup_id ca] else [])
     @ map basename (ca_extra ca)"

definition limited_entry_of :: "registry \<Rightarrow> candidate \<Rightarrow> limited_app option" where
  "limited_entry_of r ca =
     (case map_of (rg_apps r) (ca_id ca) of
        Some a \<Rightarrow> Some a
      | None \<Rightarrow> map_option snd (find (\<lambda>(k, a). la_source a = Auto \<and>
                  (k \<in> set (top_cgroups ca) \<or> set (top_cgroups ca) \<inter> set (la_cgroups a) \<noteq> {})) (rg_apps r)))"

definition counts_as_dominant :: "registry \<Rightarrow> candidate \<Rightarrow> bool" where
  "counts_as_dominant r ca \<longleftrightarrow>
     (case limited_entry_of r ca of None \<Rightarrow> False | Some a \<Rightarrow> la_source a = Auto \<and> \<not> la_relaxed a)"

definition lead_pid :: "candidate \<Rightarrow> int option" where
  "lead_pid ca = (if ca_pid ca \<noteq> None \<and> ca_pid ca \<noteq> Some 0 then ca_pid ca else case ca_pids ca of [] \<Rightarrow> None | p # _ \<Rightarrow> Some p)"

definition dominant_of :: "(int \<Rightarrow> string option) \<Rightarrow> registry \<Rightarrow> candidate list \<Rightarrow> bool \<times> string list" where
  \<comment> \<open>the flag, and the cgroup paths handed to the pressure monitor\<close>
  "dominant_of path_of r apps =
     (let own = filter (counts_as_dominant r) apps
      in (own \<noteq> [],
          uniq (filter (\<lambda>p. p \<noteq> []) (List.map_filter
            (\<lambda>ca. case lead_pid ca of None \<Rightarrow> None | Some p \<Rightarrow> if p = 0 then None else path_of p) own))))"

subsection \<open>The two arms of the policy tick\<close>

record 'w policy_env =
  pe_host :: "'w limit_host"
  pe_control :: control_env
  pe_proc :: "'w \<Rightarrow> int \<Rightarrow> proc_read"
  pe_cgroup_exists :: "'w \<Rightarrow> string \<Rightarrow> bool"
  pe_busy :: "'w \<Rightarrow> bool"                                     \<comment> \<open>CPU or memory reported busy\<close>
  pe_reclaim :: "registry \<times> 'w \<Rightarrow> registry \<times> 'w"              \<comment> \<open>\<open>_tick_memory_reclaim\<close>\<close>
  pe_quiet :: "'w \<Rightarrow> bool"
  pe_floors :: "media \<Rightarrow> floor_row"
  pe_fetch :: "channel \<Rightarrow> candidate list \<times> bool"
  pe_stale :: bool
  pe_drain :: "'w \<Rightarrow> 'w"
  pe_pending :: "'w \<Rightarrow> bool"

definition present :: "'w policy_env \<Rightarrow> 'w \<Rightarrow> candidate \<Rightarrow> string \<Rightarrow> bool" where
  "present env w ca app_id = target_still_present (pe_proc env w) (pe_cgroup_exists env w) ca app_id"

definition policy_sys_arm ::
  "'w policy_env \<Rightarrow> bool \<Rightarrow> real \<Rightarrow> candidate list \<Rightarrow> bool \<Rightarrow> registry \<times> 'w \<Rightarrow> registry \<times> 'w" where
  \<comment> \<open>the CPU/memory arm: one candidate at most, then a round of reclaim\<close>
  "policy_sys_arm env running now batch reach st =
     (case st of (r, w) \<Rightarrow> pe_reclaim env
        (case handle_critical_pressure (pe_control env) (pe_busy env w) reach batch of
           None \<Rightarrow> (r, w)
         | Some (controlled, app_id, rates, ca) \<Rightarrow>
             if \<not> target_has_auto_cpu_mem_limit r ca app_id \<and> reach \<and> app_id \<noteq> [] \<and> present env w ca app_id
             then apply_resource_limits (pe_host env) running now ca app_id rates controlled False ''critical'' (r, w)
             else (r, w)))"

definition disk_target :: "control_env \<Rightarrow> candidate \<Rightarrow> string \<Rightarrow> candidate" where
  \<comment> \<open>the candidate as the disk arm rewrites it\<close>
  "disk_target env ca priority =
     (case ce_control env (ca_id ca) (lower (ca_name ca)) of
        (True, Some d) \<Rightarrow> (snd (resolve_controlled_target env ca d))\<lparr>ca_priority := priority\<rparr>
      | _ \<Rightarrow> ca\<lparr>ca_priority := priority\<rparr>)"

definition policy_disk_apply ::
  "'w policy_env \<Rightarrow> bool \<Rightarrow> real \<Rightarrow> disk_choice \<Rightarrow> candidate \<Rightarrow> registry \<times> 'w \<Rightarrow> registry \<times> 'w" where
  "policy_disk_apply env running now c ca0 st =
     (case st of (r, w) \<Rightarrow>
        (let ca = disk_target (pe_control env) ca0 (dc_priority c)
         in if dc_app_id c \<noteq> [] \<and> present env w ca (dc_app_id c)
            then apply_resource_limits (pe_host env) running now ca (dc_app_id c) (ce_rates (pe_control env) (dc_priority c))
                   (dc_controlled c) True ''critical'' (r, w)
            else (r, w)))"

definition tick_env_of :: "'w policy_env \<Rightarrow> bool \<Rightarrow> real \<Rightarrow> 'w tick_env" where
  \<comment> \<open>the policy tick of theory \<open>Limit_Policy\<close> over this theory's operations\<close>
  "tick_env_of env running now =
     \<lparr>te_kernel = lh_kernel (pe_host env), te_running = running, te_fetch = pe_fetch env, te_cache_stale = pe_stale env,
      te_disk = \<lparr>de_quiet = pe_quiet env, de_control = ce_control (pe_control env),
                 de_resolve = (\<lambda>ca d. fst (resolve_controlled_target (pe_control env) ca d)),
                 de_floors = pe_floors env, de_media = lh_media (pe_host env)\<rparr>,
      te_apply = policy_disk_apply env running now, te_sys_arm = policy_sys_arm env running now,
      te_drain = pe_drain env, te_pending = pe_pending env\<rparr>"

definition policy_tick ::
  "'w policy_env \<Rightarrow> (int \<Rightarrow> string option) \<Rightarrow> bool \<Rightarrow> real \<Rightarrow> level \<Rightarrow> level \<Rightarrow> bool \<Rightarrow> mloop \<times> registry \<times> 'w
     \<Rightarrow> mloop \<times> registry \<times> 'w" where
  \<comment> \<open>\<open>_tick_separated_policy\<close> with the dominant flag, which is set from the batch before either arm acts and is
      read by no operation of the tick\<close>
  "policy_tick env path_of running now pressure disk_level passive st =
     (case st of (s, r, w) \<Rightarrow>
        (let te = tick_env_of env running now;
             batch = ml_batch (pressed_state te now (pressed_channel pressure) r s)
         in case tick_separated_policy te now pressure disk_level passive (s, r, w) of (s', r', w') \<Rightarrow>
              if pressed pressure disk_level passive \<and> batch \<noteq> []
              then (s', r'\<lparr>rg_dominant := fst (dominant_of path_of r batch)\<rparr>, w')
              else (s', r', w')))"

subsection \<open>Lemmas\<close>

lemma py_trunc_pos: "0 \<le> x \<Longrightarrow> of_int (py_trunc x) \<le> x" for x :: real
  by (simp add: py_trunc_def)

lemma py_trunc_ge0: "0 \<le> x \<Longrightarrow> 0 \<le> py_trunc x" for x :: real
  by (simp add: py_trunc_def)

text \<open>What the writes of the host may touch: a cgroup is seen through an arbitrary view, and every operation leaves the
  view of the cgroups it is not called for.\<close>

definition writes_only :: "('w \<Rightarrow> string \<Rightarrow> 'v) \<Rightarrow> (string \<Rightarrow> 'w \<Rightarrow> bool \<times> 'w) \<Rightarrow> bool" where
  "writes_only view f \<longleftrightarrow> (\<forall>cg w other. other \<noteq> cg \<longrightarrow> view (snd (f cg w)) other = view w other)"

definition limit_host_ok :: "('w, 'b) limit_host_scheme \<Rightarrow> ('w \<Rightarrow> string \<Rightarrow> 'v) \<Rightarrow> bool" where
  "limit_host_ok host view \<longleftrightarrow>
     (\<forall>c m. writes_only view (\<lambda>cg. lh_cap host cg c m))
   \<and> (\<forall>l d. writes_only view (\<lambda>cg. lh_throttle host cg l d))
   \<and> (\<forall>c m. writes_only view (\<lambda>cg. lk_relax (lh_kernel host) cg c m))
   \<and> writes_only view (lk_lift (lh_kernel host))
   \<and> (\<forall>i d. writes_only view (\<lambda>cg. lk_io_cap (lh_kernel host) cg i d))
   \<and> (\<forall>d. writes_only view (\<lambda>cg. lk_io_lift (lh_kernel host) cg d))"

lemma writes_onlyD: "writes_only view f \<Longrightarrow> other \<noteq> cg \<Longrightarrow> f cg w = (ok, w') \<Longrightarrow> view w' other = view w other"
  by (metis snd_conv writes_only_def)

lemma each_extra_other:
  assumes "\<And>cg w. cg \<noteq> other \<Longrightarrow> view (snd (f cg w)) other = view w other" "other \<notin> set cs"
  shows "view (each_extra f cs w) other = view w other"
  using assms(2) by (induction cs arbitrary: w) (auto simp: assms(1))

lemma cap_cpu_mem_other:
  assumes h: "limit_host_ok host view" and r: "cap_cpu_mem host app_id extra cpu mem cm cc w = (ok, w')"
    and o: "other \<notin> set (app_id # extra)"
  shows "view w' other = view w other"
proof -
  have f: "view (snd (lh_cap host cg (c cg) (m cg) v)) other = view v other" if "cg \<noteq> other" for cg v c m
    using h that unfolding limit_host_ok_def writes_only_def by metis
  show ?thesis
  proof (cases "extra = []")
    case True
    then show ?thesis using r o f [of app_id "\<lambda>_. cpu" "\<lambda>_. mem" w] by (auto simp: cap_cpu_mem_def)
  next
    case False
    then obtain md cd w1 where w1: "lh_cap host app_id (share_for cd cpu app_id) (share_for md mem app_id) w = (ok, w1)"
      and w': "w' = each_extra (\<lambda>c. lh_cap host c (share_for cd cpu c) (share_for md mem c)) extra w1"
      using r by (auto simp: cap_cpu_mem_def Let_def split: prod.splits)
    have "view w' other = view w1 other" unfolding w' using o by (intro each_extra_other f) auto
    also have "\<dots> = view w other" using f [of app_id "share_for cd cpu" "share_for md mem" w] w1 o by auto
    finally show ?thesis .
  qed
qed

lemma throttle_all_other:
  assumes h: "limit_host_ok host view" and r: "throttle_all host app_id extra limits disks w = (ok, w')"
    and o: "other \<notin> set (app_id # extra)"
  shows "view w' other = view w other"
proof -
  have f: "view (snd (lh_throttle host cg limits disks v)) other = view v other" if "cg \<noteq> other" for cg v
    using h that unfolding limit_host_ok_def writes_only_def by metis
  obtain w1 where w1: "lh_throttle host app_id limits disks w = (ok, w1)"
    and w': "w' = each_extra (\<lambda>c. lh_throttle host c limits disks) extra w1"
    using r by (auto simp: throttle_all_def split: prod.splits)
  have "view w' other = view w1 other" unfolding w' using o by (intro each_extra_other f) auto
  also have "\<dots> = view w other" using f [of app_id w] w1 o by auto
  finally show ?thesis .
qed

definition cleared :: "registry \<Rightarrow> string \<Rightarrow> string set" where
  \<comment> \<open>the cgroups whose disk cap is taken away before a CPU/memory limit\<close>
  "cleared r app_id =
     (case by_any_id app_id (Some Auto) r of
        None \<Rightarrow> {}
      | Some (k, a) \<Rightarrow> if la_io a then insert k (set (tl (la_cgroups a))) else {})"

lemma by_any_id_in:
  assumes "by_any_id i src r = Some (k, a)"
  shows "(k, a) \<in> set (rg_apps r)" "source_matches src a" "i = k \<or> i = la_public_id a \<or> i \<in> set (la_cgroups a)"
  using assms by (auto simp: by_any_id_def find_Some_iff in_set_conv_nth)

lemma restore_io_other:
  assumes h: "limit_host_ok host view" and r: "restore_io (lh_kernel host) k extra disks rates rt w = (ok, w')"
    and o: "other \<notin> insert k (set extra)"
  shows "view w' other = view w other"
proof -
  have lift: "view (snd (lk_io_lift (lh_kernel host) cg disks v)) other = view v other" if "cg \<noteq> other" for cg v
    using h that unfolding limit_host_ok_def writes_only_def by metis
  have cap: "view (snd (lk_io_cap (lh_kernel host) cg i disks v)) other = view v other" if "cg \<noteq> other" for cg v i
    using h that unfolding limit_host_ok_def writes_only_def by metis
  have ne: "k \<noteq> other" "other \<notin> set extra" using o by auto
  show ?thesis
  proof (cases rt)
    case Full
    obtain w1 where "lk_io_lift (lh_kernel host) k disks w = (ok, w1)"
      "w' = each_extra (\<lambda>c. lk_io_lift (lh_kernel host) c disks) extra w1"
      using r Full by (auto simp: restore_io_def split: prod.splits)
    then show ?thesis using each_extra_other [of other view, OF lift ne(2)] lift [OF ne(1), of w] by simp
  next
    case Partial
    show ?thesis
    proof (cases "lr_io rates")
      case None
      then show ?thesis using r Partial by (simp add: restore_io_def)
    next
      case (Some i)
      obtain w1 where "lk_io_cap (lh_kernel host) k (double_rates i) disks w = (ok, w1)"
        "w' = each_extra (\<lambda>c. lk_io_cap (lh_kernel host) c (double_rates i) disks) extra w1"
        using r Partial Some by (auto simp: restore_io_def split: prod.splits)
      then show ?thesis using each_extra_other [of other view, OF cap ne(2)] cap [OF ne(1), of "double_rates i" w] by simp
    qed
  qed
qed

lemma restore_channel_for_keeps:
  assumes "restore_channel_for kern running k entry ch rt (r, w) = (b, r', w')" "x \<noteq> k"
  shows "map_of (rg_apps r') x = map_of (rg_apps r) x"
proof -
  obtain ok r1 w1 where rr: "restore_resources kern running k (la_rates entry) (ch = ChSys) (ch = ChDisk) rt (r, w) = (ok, r1, w1)"
    by (metis surj_pair)
  have same: "map_of (rg_apps r1) x = map_of (rg_apps r) x"
    using restore_resources_apps(1) [OF rr] assms(2) by (auto simp: map_of_update_entry)
  show ?thesis using assms same unfolding restore_channel_for_def rr Let_def
    by (auto simp: map_of_update_entry delete_conv split: if_splits restore_type.splits)
qed

lemma restore_disk_other:
  assumes h: "limit_host_ok host view"
    and r: "restore_channel_for (lh_kernel host) running k entry ChDisk Full (r, w) = (b, r', w')"
    and e: "map_of (rg_apps r) k = Some entry" and o: "other \<notin> insert k (set (tl (la_cgroups entry)))"
  shows "view w' other = view w other"
proof -
  obtain ok r1 w1 where rr: "restore_resources (lh_kernel host) running k (la_rates entry) False True Full (r, w) = (ok, r1, w1)"
    by (metis surj_pair)
  have w': "w' = w1" using r unfolding restore_channel_for_def by (auto simp: rr Let_def split: if_splits)
  show ?thesis
  proof (cases running)
    case False
    then show ?thesis using rr by (simp add: restore_resources_def w')
  next
    case True
    then have "restore_io (lh_kernel host) k (tl (la_cgroups entry)) (la_disks entry) (la_rates entry) Full w = (ok, w1)"
      using rr e by (auto simp: restore_resources_def split: prod.splits)
    from restore_io_other [OF h this o] show ?thesis by (simp add: w')
  qed
qed

lemma clear_io_frame:
  assumes h: "limit_host_ok host view" and d: "distinct (map fst (rg_apps r))"
    and c: "clear_io_cap_before_sys_limit (lh_kernel host) running app_id (r, w) = (r1, w1)"
  shows "other \<notin> cleared r app_id \<Longrightarrow> view w1 other = view w other"
    and "map_of (rg_apps r) x = Some a \<Longrightarrow> la_source a = Manual \<Longrightarrow> map_of (rg_apps r1) x = Some a"
proof -
  have "(other \<notin> cleared r app_id \<longrightarrow> view w1 other = view w other)
    \<and> (map_of (rg_apps r) x = Some a \<and> la_source a = Manual \<longrightarrow> map_of (rg_apps r1) x = Some a)"
  proof (cases "by_any_id app_id (Some Auto) r")
    case None
    then show ?thesis using c by (simp add: clear_io_cap_before_sys_limit_def)
  next
    case (Some ka)
    obtain k e where ka: "ka = (k, e)" by fastforce
    note in1 = by_any_id_in [OF Some [unfolded ka]]
    have e: "map_of (rg_apps r) k = Some e" using in1(1) d by simp
    show ?thesis
    proof (cases "la_io e")
      case False
      then show ?thesis using c Some by (simp add: clear_io_cap_before_sys_limit_def ka)
    next
      case True
      then obtain b where rc: "restore_channel_for (lh_kernel host) running k e ChDisk Full (r, w) = (b, r1, w1)"
        using c Some by (cases "restore_channel_for (lh_kernel host) running k e ChDisk Full (r, w)")
          (auto simp: clear_io_cap_before_sys_limit_def ka)
      have "x \<noteq> k" if "map_of (rg_apps r) x = Some a" "la_source a = Manual"
        using that e in1(2) by (auto simp: source_matches_def)
      then show ?thesis
        using restore_disk_other [OF h rc e, of other] restore_channel_for_keeps [OF rc, of x] Some True
        by (auto simp: cleared_def ka)
    qed
  qed
  then show "other \<notin> cleared r app_id \<Longrightarrow> view w1 other = view w other"
    and "map_of (rg_apps r) x = Some a \<Longrightarrow> la_source a = Manual \<Longrightarrow> map_of (rg_apps r1) x = Some a" by blast+
qed

lemma apply_sys_frame:
  assumes h: "limit_host_ok host view" and d: "distinct (map fst (rg_apps r))"
    and a: "apply_sys host running ca app_id rates (r, w) = (ok, r1, w1)"
  shows "other \<notin> cleared r app_id \<union> set (app_id # ca_extra ca) \<Longrightarrow> view w1 other = view w other"
    and "map_of (rg_apps r) x = Some e \<Longrightarrow> la_source e = Manual \<Longrightarrow> map_of (rg_apps r1) x = Some e"
proof -
  obtain rc wc where c: "clear_io_cap_before_sys_limit (lh_kernel host) running app_id (r, w) = (rc, wc)" by fastforce
  note f = clear_io_frame [OF h d c]
  have r1: "r1 = rc" using a c by (auto simp: apply_sys_def Let_def split: if_splits prod.splits)
  show "map_of (rg_apps r1) x = Some e" if "map_of (rg_apps r) x = Some e" "la_source e = Manual"
    using f(2) that r1 by blast
  show "view w1 other = view w other" if o: "other \<notin> cleared r app_id \<union> set (app_id # ca_extra ca)"
  proof -
    consider "w1 = wc" | cpu mem cm cc where "cap_cpu_mem host app_id (ca_extra ca) cpu mem cm cc wc = (ok, w1)"
      using a c by (auto simp: apply_sys_def Let_def split: if_splits prod.splits)
    then show ?thesis
    proof cases
      case 1
      then show ?thesis using f(1) o by simp
    next
      case 2
      have "view w1 other = view wc other" using cap_cpu_mem_other [OF h 2] o by simp
      then show ?thesis using f(1) o by simp
    qed
  qed
qed

lemma apply_io_frame:
  assumes h: "limit_host_ok host view" and a: "apply_io host running ca app_id rates w = (ok, disks, w1)"
    and o: "other \<notin> set (app_id # ca_extra ca)"
  shows "view w1 other = view w other"
proof -
  consider "w1 = w" | limits ds where "throttle_all host app_id (ca_extra ca) limits ds w = (ok, w1)"
    using a by (auto simp: apply_io_def Let_def split: option.splits if_splits prod.splits)
  then show ?thesis using throttle_all_other [OF h _ o] by cases auto
qed

lemma upsert_other: "x \<noteq> k \<Longrightarrow> map_of (rg_apps (snd (upsert_auto_limited now k q r))) x = map_of (rg_apps r) x"
  by (auto simp: upsert_auto_limited_def update_conv split: option.splits)

lemma upsert_self:
  "\<exists>a. map_of (rg_apps (snd (upsert_auto_limited now k q r))) k = Some a \<and> la_source a = Auto
     \<and> (lq_resource q \<longrightarrow> la_cpu_mem a) \<and> (lq_io q \<longrightarrow> la_io a)
     \<and> set (lq_cgroups q) \<subseteq> set (la_cgroups a) \<and> set (lq_disks q) \<subseteq> set (la_disks a)"
proof (cases "map_of (rg_apps r) k")
  case None
  then show ?thesis by (simp add: upsert_auto_limited_def update_conv fresh_entry_def)
next
  case (Some p)
  show ?thesis
  proof (cases "la_source p = Auto")
    case True
    then show ?thesis using Some
      by (auto simp: upsert_auto_limited_def update_conv fresh_entry_def merged_entry_def Let_def)
  next
    case False
    then show ?thesis using Some by (simp add: upsert_auto_limited_def update_conv fresh_entry_def)
  qed
qed

lemma manual_at_primary:
  assumes "map_of (rg_apps r) app_id = Some a" "la_source a = Manual" "distinct (map fst (rg_apps r))"
  shows "manual_cgroups r (app_id # es) \<noteq> []"
proof -
  have "(app_id, a) \<in> set (rg_apps r)" using assms(1) by (rule map_of_SomeD)
  then have "by_any_id app_id (Some Manual) r \<noteq> None"
    unfolding by_any_id_def using assms(2) by (intro find_not_None) (auto simp: source_matches_def)
  then show ?thesis by (simp add: manual_cgroups_def)
qed

definition halves ::
  "'w limit_host \<Rightarrow> bool \<Rightarrow> candidate \<Rightarrow> string \<Rightarrow> limit_rates \<Rightarrow> bool \<Rightarrow> registry \<times> 'w
     \<Rightarrow> (bool \<times> bool) \<times> string list \<times> registry \<times> 'w" where
  \<comment> \<open>the outcome of the two halves, the disks capped, and the state before the limit is recorded\<close>
  "halves host running ca app_id rates disk st =
     (if disk
      then (case apply_io host running ca app_id rates (snd st) of (io, disks, w) \<Rightarrow> ((False, io), disks, fst st, w))
      else (case apply_sys host running ca app_id rates st of (res, r, w) \<Rightarrow> ((res, False), [], r, w)))"

lemma apply_by_halves:
  assumes "halves host running ca app_id rates disk (r, w) = ((res, io), disks, r1, w1)" "manual_cgroups r (app_id # ca_extra ca) = []"
  shows "apply_resource_limits host running now ca app_id rates controlled disk level (r, w) =
     (if res \<or> io then snd (upsert_auto_limited now app_id (request_of ca app_id rates controlled disk level res io disks) r1)
      else r1, w1)"
  using assms by (cases disk) (auto simp: halves_def apply_resource_limits_def Let_def split: prod.splits)

lemma halves_frame:
  assumes h: "limit_host_ok host view" and d: "distinct (map fst (rg_apps r))"
    and a: "halves host running ca app_id rates disk (r, w) = ((res, io), disks, r1, w1)"
  shows "other \<notin> (if disk then {} else cleared r app_id) \<union> set (app_id # ca_extra ca) \<Longrightarrow> view w1 other = view w other"
    and "map_of (rg_apps r) x = Some e \<Longrightarrow> la_source e = Manual \<Longrightarrow> map_of (rg_apps r1) x = Some e"
proof -
  have "(other \<notin> (if disk then {} else cleared r app_id) \<union> set (app_id # ca_extra ca) \<longrightarrow> view w1 other = view w other)
    \<and> (map_of (rg_apps r) x = Some e \<and> la_source e = Manual \<longrightarrow> map_of (rg_apps r1) x = Some e)"
  proof (cases disk)
    case True
    then obtain ok where "apply_io host running ca app_id rates w = (ok, disks, w1)" "r1 = r"
      using a by (auto simp: halves_def split: prod.splits)
    then show ?thesis using apply_io_frame [OF h, of running ca app_id rates w ok disks w1 other] True by auto
  next
    case False
    then obtain ok where s: "apply_sys host running ca app_id rates (r, w) = (ok, r1, w1)"
      using a by (auto simp: halves_def split: prod.splits)
    show ?thesis using apply_sys_frame(1) [OF h d s, of other] apply_sys_frame(2) [OF h d s, of x e] False by auto
  qed
  then show "other \<notin> (if disk then {} else cleared r app_id) \<union> set (app_id # ca_extra ca) \<Longrightarrow> view w1 other = view w other"
    and "map_of (rg_apps r) x = Some e \<Longrightarrow> la_source e = Manual \<Longrightarrow> map_of (rg_apps r1) x = Some e" by blast+
qed

subsection \<open>Properties\<close>

text \<open>C18: an automatic limit stays within its target and leaves manual limits alone. When a cgroup of the target is under a
  manual limit nothing happens at all; otherwise only cgroups of the target are written, and, by the CPU/memory arm, those
  whose earlier disk cap is lifted first; every manual entry of the registry stays as it is.\<close>
theorem auto_limit_scope:
  assumes h: "limit_host_ok host view" and d: "distinct (map fst (rg_apps r))"
    and a: "apply_resource_limits host running now ca app_id rates controlled disk level (r, w) = (r', w')"
  shows "(manual_cgroups r (app_id # ca_extra ca) \<noteq> [] \<longrightarrow> r' = r \<and> w' = w)
    \<and> (\<forall>cg. cg \<notin> (if disk then {} else cleared r app_id) \<union> set (app_id # ca_extra ca) \<longrightarrow> view w' cg = view w cg)
    \<and> (\<forall>k e. map_of (rg_apps r) k = Some e \<and> la_source e = Manual \<longrightarrow> map_of (rg_apps r') k = Some e)"
proof (cases "manual_cgroups r (app_id # ca_extra ca) = []")
  case False
  then have "r' = r" "w' = w" using a by (simp_all add: apply_resource_limits_def)
  then show ?thesis by simp
next
  case True
  obtain res io disks r1 w1 where hv: "halves host running ca app_id rates disk (r, w) = ((res, io), disks, r1, w1)"
    by (metis surj_pair)
  note f = halves_frame [OF h d hv]
  have e: "w' = w1" "r' = r1 \<or> (\<exists>q. r' = snd (upsert_auto_limited now app_id q r1))"
    using apply_by_halves [OF hv True, of now controlled level] a by (auto split: if_splits)
  have "map_of (rg_apps r') k = Some m" if m: "map_of (rg_apps r) k = Some m" "la_source m = Manual" for k m
  proof -
    have "k \<noteq> app_id" using manual_at_primary [OF _ m(2) d, of k] m(1) True by metis
    then show ?thesis using e(2) f(2) [OF m] upsert_other by metis
  qed
  then show ?thesis using f(1) True e(1) by blast
qed

text \<open>a limit that was written is on record. When either half of applying a limit succeeds, the registry has an automatic
  entry for the application with the flag of that half, all cgroups of the target and every disk that was capped; when
  neither does, no entry is added.\<close>
theorem auto_limit_recorded:
  assumes m: "manual_cgroups r (app_id # ca_extra ca) = []"
    and hv: "halves host running ca app_id rates disk (r, w) = ((res, io), disks, r1, w1)"
    and a: "apply_resource_limits host running now ca app_id rates controlled disk level (r, w) = (r', w')"
  shows "w' = w1 \<and> (if res \<or> io
      then (\<exists>e. map_of (rg_apps r') app_id = Some e \<and> la_source e = Auto \<and> (res \<longrightarrow> la_cpu_mem e) \<and> (io \<longrightarrow> la_io e)
              \<and> set (app_id # ca_extra ca) \<subseteq> set (la_cgroups e) \<and> set disks \<subseteq> set (la_disks e))
      else r' = r1)"
proof -
  note ap = apply_by_halves [OF hv m, of now controlled level, unfolded a]
  let ?q = "request_of ca app_id rates controlled disk level res io disks"
  have q: "lq_resource ?q = res" "lq_io ?q = io" "lq_cgroups ?q = app_id # ca_extra ca" "lq_disks ?q = disks"
    by (simp_all add: request_of_def)
  show ?thesis
  proof (cases "res \<or> io")
    case True
    then have "r' = snd (upsert_auto_limited now app_id ?q r1)" "w' = w1" using ap by simp_all
    then show ?thesis using upsert_self [of now app_id ?q r1] True unfolding q by auto
  next
    case False
    then show ?thesis using ap by simp
  qed
qed

text \<open>the memory an automatic limit leaves is below what the application uses. For a rate below one the cap is never more
  than that share of the whole memory; with a known working set it is at most that share of the working set, or one
  megabyte, so an application of two megabytes or more is always made to give memory back.\<close>
theorem auto_mem_high_bounds:
  assumes c: "auto_mem_high_mb host w app_id extra rss mem_mb (Some r) = Some m" and r: "0 < r" "r < 1" and t: "0 \<le> mem_mb"
  shows "0 \<le> m \<and> real_of_int m \<le> mem_mb * r
    \<and> (let ws = app_working_set_mb host w (app_id # extra) rss
       in 0 < ws \<longrightarrow> real_of_int m \<le> max 1 (real_of_int ws * r) \<and> (2 \<le> ws \<longrightarrow> m < ws))"
proof -
  let ?ws = "app_working_set_mb host w (app_id # extra) rss" and ?share = "py_trunc (mem_mb * r)"
  have share: "0 \<le> ?share" "real_of_int ?share \<le> mem_mb * r"
    using py_trunc_ge0 [of "mem_mb * r"] py_trunc_pos [of "mem_mb * r"] t r by simp_all
  show ?thesis
  proof (cases "?ws \<le> 0")
    case True
    then have "m = ?share" using c r by (simp add: auto_mem_high_mb_def Let_def)
    then show ?thesis using share True by (simp add: Let_def)
  next
    case False
    let ?part = "py_trunc (real_of_int ?ws * r)"
    have m: "m = min ?share (max 1 ?part)" using c r False by (simp add: auto_mem_high_mb_def Let_def)
    have p: "0 \<le> ?part" "real_of_int ?part \<le> real_of_int ?ws * r"
      using py_trunc_ge0 [of "real_of_int ?ws * r"] py_trunc_pos [of "real_of_int ?ws * r"] False r by simp_all
    have lt: "real_of_int ?ws * r < real_of_int ?ws" using False r by simp
    then have "?part < ?ws" using p(2) by linarith
    then have "2 \<le> ?ws \<longrightarrow> m < ?ws" using m by linarith
    moreover have "0 \<le> m" "real_of_int m \<le> mem_mb * r" using m share by linarith+
    moreover have "real_of_int m \<le> max 1 (real_of_int ?ws * r)" using m p(2) by linarith
    ultimately show ?thesis by (simp add: Let_def)
  qed
qed

subsection \<open>A small host\<close>

type_synonym demo_world = "string \<Rightarrow> (int option \<times> int option) \<times> bool"
  \<comment> \<open>per cgroup the two caps and whether a disk is capped\<close>

definition demo_host :: "string list \<Rightarrow> demo_world limit_host" where
  \<comment> \<open>writes to the cgroups of the list fail\<close>
  "demo_host bad =
     \<lparr>lh_kernel = \<lparr>lk_relax = (\<lambda>cg c m w. (True, w(cg := ((c, m), snd (w cg))))),
        lk_lift = (\<lambda>cg w. (True, w(cg := ((None, None), snd (w cg))))),
        lk_io_cap = (\<lambda>cg i d w. (True, w(cg := (fst (w cg), True)))), lk_io_lift = (\<lambda>cg d w. (True, w(cg := (fst (w cg), False)))),
        lk_total_mem = 1000\<rparr>,
      lh_cap = (\<lambda>cg c m w. if cg \<in> set bad then (False, w) else (True, w(cg := ((c, m), snd (w cg))))),
      lh_throttle = (\<lambda>cg l d w. if cg \<in> set bad then (False, w) else (True, w(cg := (fst (w cg), True)))),
      lh_current = (\<lambda>w cg. Some (200 * 1024 * 1024)), lh_swapped = (\<lambda>w cg. None), lh_stressed = (\<lambda>w. [''sda'']),
      lh_disks = (\<lambda>w f. f), lh_scales = PDict [], lh_media = (\<lambda>d. Hdd)\<rparr>"

lemma demo_host_ok: "limit_host_ok (demo_host bad) (\<lambda>w. w)"
  by (simp add: limit_host_ok_def writes_only_def demo_host_def)

definition demo_ca :: candidate where
  "demo_ca = \<lparr>ca_id = ''b'', ca_name = ''b'', ca_cgroup = ''/b.scope'', ca_cgroup_id = [], ca_extra = [''c.scope''], ca_read_mb = 0,
     ca_write_mb = 0, ca_read_iops = 0, ca_write_iops = 0, ca_per_disk = [], ca_app_name = ''b'', ca_pids = [], ca_pid = None,
     ca_mem_rss = [], ca_cpu = [], ca_public_id = [], ca_priority = ''low''\<rparr>"

definition half_cpu :: limit_rates where "half_cpu = \<lparr>lr_cpu = Some (1/2), lr_mem = None, lr_io = None\<rparr>"

definition open_world :: demo_world where "open_world = (\<lambda>cg. ((None, None), False))"

lemma demo_ca_fields [simp]: "ca_extra demo_ca = [''c.scope'']" "ca_mem_rss demo_ca = []" "ca_cpu demo_ca = []"
  by (simp_all add: demo_ca_def)

lemma demo_lookup [simp]: "manual_cgroups demo_registry [''b.scope'', ''c.scope''] = []" "by_any_id ''b.scope'' (Some Auto) demo_registry = None"
  "distinct (map fst (rg_apps demo_registry))"
  by (simp_all add: manual_cgroups_def by_any_id_def demo_registry_def source_matches_def demo_app_def fresh_entry_def uniq_def)

lemma demo_half: "auto_cpu_rate half_cpu = Some 50" "lr_mem half_cpu = None"
  by (simp_all add: auto_cpu_rate_def truthy_rate_def half_cpu_def py_trunc_def)

lemma demo_split:
  "split_proportionally (Some 50) [''b.scope'', ''c.scope''] (usage_of []) = [(''b.scope'', Some 25), (''c.scope'', Some 25)]"
  "split_proportionally None [''b.scope'', ''c.scope''] (usage_of []) = [(''b.scope'', None), (''c.scope'', None)]"
  by (simp_all add: split_proportionally_def usage_of_def)

lemma demo_halves:
  "\<exists>w1. halves (demo_host bad) True demo_ca ''b.scope'' half_cpu False (demo_registry, open_world)
      = ((''b.scope'' \<notin> set bad, False), [], demo_registry, w1)
   \<and> (''c.scope'' \<notin> set bad \<longrightarrow> w1 ''c.scope'' = ((Some 25, None), False)) \<and> w1 ''a.scope'' = ((None, None), False)"
  by (simp add: halves_def apply_sys_def clear_io_cap_before_sys_limit_def demo_half auto_mem_high_mb_def cap_cpu_mem_def demo_split
      share_for_def demo_host_def open_world_def Let_def)

theorem auto_limit_scope_witness:
  "\<exists>r' w'. apply_resource_limits (demo_host []) True 5 demo_ca ''b.scope'' half_cpu False False ''critical''
      (demo_registry, open_world) = (r', w') \<and> w' ''a.scope'' = ((None, None), False) \<and> w' ''c.scope'' = ((Some 25, None), False)"
proof -
  obtain r' w' where a: "apply_resource_limits (demo_host []) True 5 demo_ca ''b.scope'' half_cpu False False ''critical''
      (demo_registry, open_world) = (r', w')" by fastforce
  have "''a.scope'' \<notin> (if False then {} else cleared demo_registry ''b.scope'') \<union> set (''b.scope'' # ca_extra demo_ca)"
    by (simp add: cleared_def)
  then have "w' ''a.scope'' = open_world ''a.scope''"
    using auto_limit_scope [OF demo_host_ok demo_lookup(3) a] by blast
  moreover obtain w1 where "halves (demo_host []) True demo_ca ''b.scope'' half_cpu False (demo_registry, open_world)
      = ((True, False), [], demo_registry, w1)" "w1 ''c.scope'' = ((Some 25, None), False)"
    using demo_halves [of "[]"] by auto
  then have "w' ''c.scope'' = ((Some 25, None), False)"
    using apply_by_halves [of "demo_host []" True demo_ca "''b.scope''" half_cpu False demo_registry open_world] a by fastforce
  ultimately show ?thesis using a by (simp add: open_world_def)
qed

theorem auto_limit_recorded_witness:
  "\<exists>r' w' e. apply_resource_limits (demo_host []) True 5 demo_ca ''b.scope'' half_cpu False False ''critical''
      (demo_registry, open_world) = (r', w') \<and> map_of (rg_apps r') ''b.scope'' = Some e \<and> la_cpu_mem e
      \<and> ''c.scope'' \<in> set (la_cgroups e)"
proof -
  obtain r' w' where a: "apply_resource_limits (demo_host []) True 5 demo_ca ''b.scope'' half_cpu False False ''critical''
      (demo_registry, open_world) = (r', w')" by fastforce
  obtain w1 where hv: "halves (demo_host []) True demo_ca ''b.scope'' half_cpu False (demo_registry, open_world)
      = ((True, False), [], demo_registry, w1)"
    using demo_halves [of "[]"] by auto
  have "manual_cgroups demo_registry (''b.scope'' # ca_extra demo_ca) = []" by simp
  from auto_limit_recorded [OF this hv a] show ?thesis using a by auto
qed

theorem auto_mem_high_bounds_witness:
  "auto_mem_high_mb (demo_host []) open_world ''b.scope'' [] [] 1000 (Some (1/2)) = Some 100 \<and> real_of_int 100 \<le> 1000 * (1/2)"
proof -
  have "auto_mem_high_mb (demo_host []) open_world ''b.scope'' [] [] 1000 (Some (1/2)) = Some 100"
    by (simp add: auto_mem_high_mb_def app_working_set_mb_def cgroup_bytes_def get_or_def demo_host_def py_trunc_def)
  from auto_mem_high_bounds [OF this] this show ?thesis by simp
qed

text \<open>When the write for the primary cgroup fails and the one for another cgroup of the application succeeds, the limit
  is not recorded and the other cgroup stays capped.\<close>
lemma extra_cap_unrecorded:
  "\<exists>w'. apply_resource_limits (demo_host [''b.scope'']) True 5 demo_ca ''b.scope'' half_cpu False False ''critical''
      (demo_registry, open_world) = (demo_registry, w') \<and> w' ''c.scope'' = ((Some 25, None), False)
    \<and> by_any_id ''c.scope'' None demo_registry = None"
proof -
  obtain w1 where hv: "halves (demo_host [''b.scope'']) True demo_ca ''b.scope'' half_cpu False (demo_registry, open_world)
      = ((False, False), [], demo_registry, w1)" "w1 ''c.scope'' = ((Some 25, None), False)"
    using demo_halves [of "[''b.scope'']"] by auto
  have "by_any_id ''c.scope'' None demo_registry = None"
    by (simp add: by_any_id_def demo_registry_def demo_app_def fresh_entry_def uniq_def)
  then show ?thesis using apply_by_halves [OF hv(1)] hv(2) by simp
qed

end
