(* ===== verification/Manual_Limit.thy ===== *)
theory Manual_Limit
  imports Limit_Apply
begin

text \<open>
  Limits set by the user, from \<open>balancer/balancer/balancer.py\<close>: \<open>set_resource_limit\<close> with its three phases (install,
  reclaim, deferred disk cap), freezing and thawing, \<open>set_restore_resource\<close>, and the handing over of automatic limits
  (\<open>restore_auto_limited\<close>, \<open>lock_to_manual\<close>, \<open>lock_all_auto_to_manual\<close>, \<open>adopt_auto_limit\<close>). The host is that of
  theory \<open>Limit_Apply\<close> with freezing and reclaim added. The usage of the application, its rates and the cgroup of a
  process are arguments; status updates, notifications, events and log output are left out.
\<close>

record 'w manual_host = "'w limit_host" +
  mh_freeze :: "string \<Rightarrow> bool \<Rightarrow> 'w \<Rightarrow> bool \<times> 'w"      \<comment> \<open>\<open>freeze_cgroup\<close>\<close>
  mh_reclaim :: "string \<Rightarrow> int \<Rightarrow> 'w \<Rightarrow> 'w"            \<comment> \<open>\<open>reclaim_memory_to_target\<close>, in bytes; its outcome is only logged\<close>

subsection \<open>The request\<close>

definition selected_ids :: "string list \<Rightarrow> string list \<Rightarrow> string list option" where
  \<comment> \<open>the running cgroups the user ticked; None when none of them runs any more\<close>
  "selected_ids target_cgroups ids =
     (if target_cgroups = [] then Some ids
      else (let wanted = map basename (filter (\<lambda>c. strip c \<noteq> []) target_cgroups);
                selected = filter (\<lambda>e. e \<in> set wanted) ids
            in if selected = [] then None else Some selected))"

definition auto_limited_cgroups :: "registry \<Rightarrow> string list \<Rightarrow> string list" where
  "auto_limited_cgroups r ids = filter (\<lambda>i. by_any_id i (Some Auto) r \<noteq> None) ids"

definition max_usage :: "(string \<times> real) list \<Rightarrow> (string \<times> real) list \<Rightarrow> (string \<times> real) list" where
  \<comment> \<open>per cgroup the larger value, of the cgroups of either dict\<close>
  "max_usage now peak =
     (if peak = [] then now
      else map (\<lambda>k. (k, max (usage_of now k) (usage_of peak k))) (remdups (map fst now @ map fst peak)))"

definition latched_usage :: "app_usage \<Rightarrow> usage_peak option \<Rightarrow> usage_peak" where
  \<comment> \<open>the sample, raised to the recorded peak\<close>
  "latched_usage u baseline =
     (let raw = \<lparr>up_cpu = au_cpu u, up_mem = au_mem u + au_swap u, up_read_mb = au_read_mb u, up_write_mb = au_write_mb u,
                 up_read_iops = au_read_iops u, up_write_iops = au_write_iops u, up_cg_mem = au_cg_mem u, up_cg_cpu = au_cg_cpu u\<rparr>
      in case baseline of
           None \<Rightarrow> raw
         | Some b \<Rightarrow>
             \<lparr>up_cpu = max (up_cpu raw) (up_cpu b), up_mem = max (up_mem raw) (up_mem b),
              up_read_mb = max (up_read_mb raw) (up_read_mb b), up_write_mb = max (up_write_mb raw) (up_write_mb b),
              up_read_iops = max (up_read_iops raw) (up_read_iops b), up_write_iops = max (up_write_iops raw) (up_write_iops b),
              up_cg_mem = max_usage (up_cg_mem raw) (up_cg_mem b), up_cg_cpu = max_usage (up_cg_cpu raw) (up_cg_cpu b)\<rparr>)"

definition share_of_usage :: "real option \<Rightarrow> real \<Rightarrow> int option" where
  \<comment> \<open>\<open>max(1, int(usage * rate))\<close> when there is a rate and a usage\<close>
  "share_of_usage rate usage =
     (case rate of None \<Rightarrow> None
      | Some r \<Rightarrow> if r \<noteq> 0 \<and> 0 < usage then Some (max 1 (py_trunc (usage * r))) else None)"

definition manual_cpu_quota :: "limit_rates \<Rightarrow> usage_peak \<Rightarrow> int option" where
  "manual_cpu_quota rates p = share_of_usage (lr_cpu rates) (if up_cpu p \<ge> 2 then up_cpu p else 0)"

definition manual_mem_high :: "limit_rates \<Rightarrow> usage_peak \<Rightarrow> int option" where
  "manual_mem_high rates p = share_of_usage (lr_mem rates) (up_mem p)"

definition manual_io_wanted :: "bool \<Rightarrow> limit_rates \<Rightarrow> usage_peak \<Rightarrow> bool" where
  "manual_io_wanted force rates p \<longleftrightarrow> lr_io rates \<noteq> None
     \<and> (force \<or> is_io_limit_reached (up_read_mb p) (up_write_mb p) (up_read_iops p) (up_write_iops p))"

definition manual_io_limits :: "io_rates \<Rightarrow> (string \<times> io_max) list" where
  "manual_io_limits i =
     [(''default'', \<lparr>im_rbps = \<lfloor>ir_read i * 1024 ^ 2\<rfloor>, im_wbps = \<lfloor>ir_write i * 1024 ^ 2\<rfloor>, im_riops = \<lfloor>ir_read_iops i\<rfloor>,
        im_wiops = \<lfloor>ir_write_iops i\<rfloor>\<rparr>)]"

subsection \<open>Installing\<close>

fun cap_others ::
  "('w, 'b) limit_host_scheme \<Rightarrow> (string \<Rightarrow> int option) \<Rightarrow> (string \<Rightarrow> int option) \<Rightarrow> string list \<Rightarrow> 'w \<Rightarrow> string list \<times> 'w" where
  \<comment> \<open>the loop over the other cgroups, collecting those whose write succeeded\<close>
  "cap_others host cpu mem [] w = ([], w)"
| "cap_others host cpu mem (c # cs) w =
     (case lh_cap host c (cpu c) (mem c) w of (ok, w1) \<Rightarrow>
      case cap_others host cpu mem cs w1 of (done, w2) \<Rightarrow> (if ok then c # done else done, w2))"

definition cap_manual ::
  "('w, 'b) limit_host_scheme \<Rightarrow> string \<Rightarrow> string list \<Rightarrow> int option \<Rightarrow> int option \<Rightarrow> usage_peak \<Rightarrow> 'w
     \<Rightarrow> bool \<times> string list \<times> (string \<times> int option) list \<times> 'w" where
  \<comment> \<open>success of the primary cgroup, the cgroups capped, the memory cap of each\<close>
  "cap_manual host primary extra cpu mem p w =
     (if extra = []
      then (case lh_cap host primary cpu mem w of (ok, w1) \<Rightarrow> (ok, if ok then [primary] else [], [(primary, mem)], w1))
      else (let md = split_proportionally mem (primary # extra) (usage_of (up_cg_mem p));
                cd = split_proportionally cpu (primary # extra) (usage_of (up_cg_cpu p))
            in case lh_cap host primary (share_for cd cpu primary) (share_for md mem primary) w of (ok, w1) \<Rightarrow>
               case cap_others host (share_for cd cpu) (share_for md mem) extra w1 of (done, w2) \<Rightarrow>
                 (ok, if ok then primary # done else done, md, w2)))"

record deferred_io =
  df_key :: string
  df_extra :: "string list"
  df_limits :: "(string \<times> io_max) list"

datatype install_result = Installed | NotInstalled | SkippedGone | SkippedAuto "string list" | SkippedIdle

record install_outcome =
  io_result :: install_result
  io_reclaim_plan :: "(string \<times> int) list"       \<comment> \<open>cgroup and target in MB\<close>
  io_deferred_plan :: "deferred_io list"

definition nothing_installed :: "install_result \<Rightarrow> install_outcome" where
  "nothing_installed res = \<lparr>io_result = res, io_reclaim_plan = [], io_deferred_plan = []\<rparr>"

definition manual_entry ::
  "real \<Rightarrow> string \<Rightarrow> string \<Rightarrow> string \<Rightarrow> limit_rates \<Rightarrow> bool \<Rightarrow> bool \<Rightarrow> bool \<Rightarrow> bool \<Rightarrow> string list \<Rightarrow> int list \<Rightarrow> limited_app" where
  "manual_entry now app_id app_name priority rates res io cpu mem cgroups pids =
     \<lparr>la_public_id = app_id, la_name = app_name, la_source = Manual, la_rates = rates, la_cpu_mem = res, la_io = io,
      la_res_cpu = cpu, la_res_mem = mem, la_relaxed = False, la_priority = (if priority = [] then ''undefined'' else priority),
      la_controlled = True, la_reason = [], la_level = [], la_part_sys = False, la_part_io = False, la_cgroups = cgroups,
      la_disks = [], la_pids = pids, la_rep_pid = None, la_limited_at = now, la_last_reclaim = 0, la_backoff = 0,
      la_last_cpu = None, la_last_cpu_at = 0, la_inflight = False, la_adopted = False, la_frozen = False, la_frozen_at = 0,
      la_freeze_notified = False\<rparr>"

definition record_manual :: "string \<Rightarrow> limited_app \<Rightarrow> usage_peak \<Rightarrow> registry \<Rightarrow> registry" where
  \<comment> \<open>the entry, the peak and the exclusion from the pressure loop\<close>
  "record_manual key e p r =
     add_exclusion e ''manual_limit''
       (r\<lparr>rg_apps := AList.update key e (rg_apps r), rg_baseline := AList.update key p (rg_baseline r)\<rparr>)"

definition reclaim_plan_for :: "int option \<Rightarrow> string list \<Rightarrow> (string \<times> int option) list \<Rightarrow> (string \<times> int) list" where
  "reclaim_plan_for mem limited shares =
     (if mem = None then []
      else List.map_filter (\<lambda>c. case map_of shares c of Some (Some m) \<Rightarrow> Some (c, m) | _ \<Rightarrow> None) limited)"

definition io_phase ::
  "('w, 'b) limit_host_scheme \<Rightarrow> string \<Rightarrow> string list \<Rightarrow> bool \<Rightarrow> bool \<Rightarrow> io_rates option \<Rightarrow> 'w
     \<Rightarrow> bool \<times> deferred_io list \<times> 'w" where
  \<comment> \<open>the disk cap: held back, or written at once\<close>
  "io_phase host primary extra wanted postpone rates w =
     (case (wanted, rates) of
        (True, Some i) \<Rightarrow>
          if postpone then (False, [\<lparr>df_key = primary, df_extra = extra, df_limits = manual_io_limits i\<rparr>], w)
          else (case lh_throttle host primary (manual_io_limits i) [] w of (ok, w1) \<Rightarrow>
                  (ok, [], each_extra (\<lambda>c. lh_throttle host c (manual_io_limits i) []) extra w1))
      | _ \<Rightarrow> (False, [], w))"

definition sys_phase ::
  "('w, 'b) limit_host_scheme \<Rightarrow> bool \<Rightarrow> string \<Rightarrow> string list \<Rightarrow> int option \<Rightarrow> int option \<Rightarrow> usage_peak \<Rightarrow> 'w
     \<Rightarrow> bool \<times> string list \<times> (string \<times> int option) list \<times> 'w" where
  "sys_phase host running primary extra cpu mem p w =
     (if (cpu \<noteq> None \<or> mem \<noteq> None) \<and> running then cap_manual host primary extra cpu mem p w
      else (False, [], [(primary, mem)], w))"

definition install_on ::
  "('w, 'b) limit_host_scheme \<Rightarrow> bool \<Rightarrow> real \<Rightarrow> string \<Rightarrow> string \<Rightarrow> string \<Rightarrow> limit_rates \<Rightarrow> bool \<Rightarrow> app_usage
     \<Rightarrow> (int \<Rightarrow> string) \<Rightarrow> string \<Rightarrow> string list \<Rightarrow> registry \<times> 'w \<Rightarrow> install_outcome \<times> registry \<times> 'w" where
  \<comment> \<open>from the selected cgroups on; \<open>leaf\<close> is the last part of the cgroup of a process\<close>
  "install_on host running now app_id app_name priority rates force u leaf primary extra st =
     (case st of (r, w) \<Rightarrow>
        (let p = latched_usage u (map_of (rg_baseline r) primary);
             cpu = manual_cpu_quota rates p; mem = manual_mem_high rates p; wanted = manual_io_wanted force rates p
         in if cpu = None \<and> mem = None \<and> \<not> wanted then (nothing_installed SkippedIdle, r, w)
            else (case sys_phase host running primary extra cpu mem p w of (res, limited, shares, w1) \<Rightarrow>
                  case io_phase host primary extra (wanted \<and> running) (res \<and> mem \<noteq> None \<and> limited \<noteq> []) (lr_io rates) w1 of
                    (io, held, w2) \<Rightarrow>
                    (let r1 = (if res then r\<lparr>rg_dominant := True\<rparr> else r);
                         pids = filter (\<lambda>q. leaf q \<in> set (primary # extra)) (au_pids u);
                         e = manual_entry now app_id app_name priority rates res io (cpu \<noteq> None) (mem \<noteq> None) (primary # extra) pids
                     in if res \<or> io
                        then (\<lparr>io_result = Installed, io_reclaim_plan = reclaim_plan_for mem limited shares, io_deferred_plan = held\<rparr>,
                              record_manual primary e p r1, w2)
                        else (\<lparr>io_result = NotInstalled, io_reclaim_plan = [], io_deferred_plan = held\<rparr>, r1, w2)))))"

definition install_resource_limit ::
  "('w, 'b) limit_host_scheme \<Rightarrow> bool \<Rightarrow> real \<Rightarrow> string \<Rightarrow> string \<Rightarrow> string \<Rightarrow> limit_rates \<Rightarrow> bool \<Rightarrow> app_usage option
     \<Rightarrow> (int \<Rightarrow> string) \<Rightarrow> string list \<Rightarrow> registry \<times> 'w \<Rightarrow> install_outcome \<times> registry \<times> 'w" where
  \<comment> \<open>\<open>force\<close>: the overrides are a dict with a dict under \<open>disk_io\<close>\<close>
  "install_resource_limit host running now app_id app_name priority rates force usage leaf target_cgroups st =
     (let u = (case usage of None \<Rightarrow> no_usage | Some u \<Rightarrow> u)
      in case usage_cgroups u of
           [] \<Rightarrow> (nothing_installed NotInstalled, st)
         | ids \<Rightarrow>
             (case selected_ids target_cgroups ids of
                Some (primary # extra) \<Rightarrow>
                  if auto_limited_cgroups (fst st) (primary # extra) \<noteq> []
                  then (nothing_installed (SkippedAuto (auto_limited_cgroups (fst st) (primary # extra))), st)
                  else install_on host running now app_id app_name priority rates force u leaf primary extra st
              | _ \<Rightarrow> (nothing_installed SkippedGone, st)))"

subsection \<open>After the lock is released\<close>

fun reclaim_to_manual_targets ::
  "'w manual_host \<Rightarrow> (nat \<Rightarrow> real) \<Rightarrow> nat \<Rightarrow> (string \<times> int) list \<Rightarrow> real \<times> 'w \<Rightarrow> real \<times> 'w" where
  \<comment> \<open>the quiet window of the disk arm is opened before each reclaim and again after it; \<open>clock\<close> numbers the readings\<close>
  "reclaim_to_manual_targets host clock i [] st = st"
| "reclaim_to_manual_targets host clock i ((cg, target_mb) # ps) (quiet, w) =
     (let opened = (mark_reclaim_noise (clock i), mh_reclaim host cg (target_mb * (1024 * 1024)) w);
          closed = (mark_reclaim_noise (clock (i + 1)), snd opened)
      in reclaim_to_manual_targets host clock (i + 2) ps closed)"

definition apply_deferred_io_cap :: "('w, 'b) limit_host_scheme \<Rightarrow> deferred_io \<Rightarrow> registry \<times> 'w \<Rightarrow> registry \<times> 'w" where
  "apply_deferred_io_cap host d st =
     (case st of (r, w) \<Rightarrow>
        if map_of (rg_apps r) (df_key d) = None then (r, w)
        else (case lh_throttle host (df_key d) (df_limits d) [] w of (ok, w1) \<Rightarrow>
               (update_entry (df_key d) (\<lambda>e. e\<lparr>la_io := ok\<rparr>) r,
                each_extra (\<lambda>c. lh_throttle host c (df_limits d) []) (df_extra d) w1)))"

definition set_resource_limit ::
  "'w manual_host \<Rightarrow> (nat \<Rightarrow> real) \<Rightarrow> bool \<Rightarrow> string \<Rightarrow> string \<Rightarrow> string \<Rightarrow> limit_rates \<Rightarrow> bool \<Rightarrow> app_usage option
     \<Rightarrow> (int \<Rightarrow> string) \<Rightarrow> string list \<Rightarrow> registry \<times> real \<times> 'w \<Rightarrow> install_result \<times> registry \<times> real \<times> 'w" where
  "set_resource_limit host clock running app_id app_name priority rates force usage leaf target_cgroups st =
     (case st of (r, quiet, w) \<Rightarrow>
      case install_resource_limit host running (clock 0) app_id app_name priority rates force usage leaf target_cgroups (r, w) of
        (out, r1, w1) \<Rightarrow>
      case reclaim_to_manual_targets host clock 1 (io_reclaim_plan out) (quiet, w1) of (quiet1, w2) \<Rightarrow>
      case foldl (\<lambda>s d. apply_deferred_io_cap host d s) (r1, w2) (io_deferred_plan out) of (r2, w3) \<Rightarrow>
        (io_result out, r2, quiet1, w3))"

subsection \<open>Freezing\<close>

fun thaw_cgroups :: "'w manual_host \<Rightarrow> string list \<Rightarrow> 'w \<Rightarrow> bool \<times> 'w" where
  "thaw_cgroups host [] w = (True, w)"
| "thaw_cgroups host (c # cs) w =
     (case mh_freeze host c False w of (ok, w1) \<Rightarrow> case thaw_cgroups host cs w1 of (rest, w2) \<Rightarrow> (ok \<and> rest, w2))"

fun freeze_each :: "'w manual_host \<Rightarrow> bool \<Rightarrow> string list \<Rightarrow> string list \<Rightarrow> 'w \<Rightarrow> bool \<times> string list \<times> 'w" where
  \<comment> \<open>the loop up to the first failure, with the cgroups done\<close>
  "freeze_each host freeze [] finished w = (True, finished, w)"
| "freeze_each host freeze (c # cs) finished w =
     (case mh_freeze host c freeze w of
        (False, w1) \<Rightarrow> (False, finished, w1)
      | (True, w1) \<Rightarrow> freeze_each host freeze cs (finished @ [c]) w1)"

datatype freeze_verdict = NoManualLimit | NothingToDo | FreezeFailed | RestoredMeanwhile | FreezeDone

definition freeze_ok :: "freeze_verdict \<Rightarrow> bool" where
  "freeze_ok res \<longleftrightarrow> res = NothingToDo \<or> res = FreezeDone"

definition entry_cgroups :: "string \<Rightarrow> limited_app \<Rightarrow> string list" where
  "entry_cgroups k e = (if la_cgroups e = [] then [k] else la_cgroups e)"

definition set_freeze ::
  "'w manual_host \<Rightarrow> real \<Rightarrow> (registry \<times> 'w \<Rightarrow> registry \<times> 'w) \<Rightarrow> string \<Rightarrow> bool \<Rightarrow> registry \<times> 'w
     \<Rightarrow> freeze_verdict \<times> registry \<times> 'w" where
  \<comment> \<open>the lock is free while the cgroups are written: \<open>meanwhile\<close> is what other threads do before it is taken again\<close>
  "set_freeze host now meanwhile app_id freeze st =
     (case st of (r, w) \<Rightarrow>
      case by_public_id app_id (Some Manual) r of
        None \<Rightarrow> (NoManualLimit, r, w)
      | Some (k, e) \<Rightarrow>
          if la_frozen e = freeze then (NothingToDo, r, w)
          else (case freeze_each host freeze (entry_cgroups k e) [] w of
                  (False, finished, w1) \<Rightarrow>
                    (FreezeFailed, r, if freeze then snd (thaw_cgroups host finished w1) else w1)
                | (True, finished, w1) \<Rightarrow>
                    (case meanwhile (r, w1) of (r2, w2) \<Rightarrow>
                     case by_public_id app_id (Some Manual) r2 of
                       None \<Rightarrow> (RestoredMeanwhile, r2, if freeze then snd (thaw_cgroups host finished w2) else w2)
                     | Some (k2, e2) \<Rightarrow>
                         (FreezeDone,
                          update_entry k2 (\<lambda>a. a\<lparr>la_frozen := freeze, la_frozen_at := (if freeze then now else 0),
                            la_freeze_notified := False\<rparr>) r2, w2))))"

subsection \<open>Restoring\<close>

definition lift_if ::
  "bool \<Rightarrow> (string \<Rightarrow> 'w \<Rightarrow> bool \<times> 'w) \<Rightarrow> string \<Rightarrow> string list \<Rightarrow> 'w \<Rightarrow> bool \<times> 'w" where
  \<comment> \<open>one channel: the result of the primary counts, the others are written all the same\<close>
  "lift_if flag f primary extra w =
     (if flag then (case f primary w of (ok, w1) \<Rightarrow> (ok, each_extra f extra w1)) else (True, w))"

definition set_restore_resource :: "'w manual_host \<Rightarrow> string \<Rightarrow> registry \<times> 'w \<Rightarrow> bool \<times> registry \<times> 'w" where
  "set_restore_resource host app_id st =
     (case st of (r, w) \<Rightarrow>
      case (case by_public_id app_id (Some Manual) r of
              Some (k, e) \<Rightarrow> (entry_cgroups k e, la_cpu_mem e, la_io e, la_frozen e,
                              snd (remove_exclusion k (r\<lparr>rg_apps := AList.delete k (rg_apps r)\<rparr>)))
            | None \<Rightarrow> ([app_id], False, False, False, r)) of
        (ids, res, io, frozen, r1) \<Rightarrow>
        case lift_if res (lk_lift (lh_kernel host)) (hd ids) (tl ids) w of (ok1, w1) \<Rightarrow>
        case lift_if io (\<lambda>c. lk_io_lift (lh_kernel host) c []) (hd ids) (tl ids) w1 of (ok2, w2) \<Rightarrow>
        case (if frozen then thaw_cgroups host ids w2 else (True, w2)) of (ok3, w3) \<Rightarrow>
          (ok1 \<and> ok2 \<and> ok3, r1\<lparr>rg_dominant := False\<rparr>, w3))"

subsection \<open>Handing over\<close>

definition find_auto :: "string \<Rightarrow> registry \<Rightarrow> (string \<times> limited_app) option" where
  "find_auto app_id r =
     (case by_public_id app_id (Some Auto) r of Some x \<Rightarrow> Some x | None \<Rightarrow> by_any_id app_id (Some Auto) r)"

definition taken_over :: "real \<Rightarrow> limited_app \<Rightarrow> limited_app" where
  "taken_over now e = e\<lparr>la_source := Manual, la_relaxed := False, la_adopted := True, la_limited_at := now\<rparr>"

definition put_manual :: "string \<Rightarrow> limited_app \<Rightarrow> registry \<Rightarrow> registry" where
  "put_manual k e r = add_exclusion e ''manual_limit'' (r\<lparr>rg_apps := AList.update k e (rg_apps r)\<rparr>)"

definition lock_to_manual :: "real \<Rightarrow> (string \<Rightarrow> bool) \<Rightarrow> string \<Rightarrow> registry \<Rightarrow> bool \<times> registry" where
  \<comment> \<open>\<open>controlled_now\<close> asks the database\<close>
  "lock_to_manual now controlled_now app_id r =
     (case find_auto app_id r of
        None \<Rightarrow> (False, r)
      | Some (k, e) \<Rightarrow>
          if la_controlled e then (True, put_manual k (taken_over now e) r)
          else if controlled_now app_id
          then (True, put_manual k (taken_over now (e\<lparr>la_controlled := True, la_public_id := app_id\<rparr>)) r)
          else (False, r))"

fun lock_each :: "(nat \<Rightarrow> real) \<Rightarrow> (string \<Rightarrow> bool) \<Rightarrow> nat \<Rightarrow> string list \<Rightarrow> nat \<times> registry \<Rightarrow> nat \<times> registry" where
  "lock_each clock controlled_now i [] st = st"
| "lock_each clock controlled_now i (a # as) (n, r) =
     (case lock_to_manual (clock i) controlled_now a r of (ok, r1) \<Rightarrow>
        lock_each clock controlled_now (i + 1) as (if ok then n + 1 else n, r1))"

definition lock_all_auto_to_manual :: "(nat \<Rightarrow> real) \<Rightarrow> (string \<Rightarrow> bool) \<Rightarrow> registry \<Rightarrow> nat \<times> registry" where
  "lock_all_auto_to_manual clock controlled_now r =
     (let ids = map (la_public_id \<circ> snd) (filter (\<lambda>(k, e). la_source e = Auto \<and> la_controlled e) (rg_apps r))
      in case lock_each clock controlled_now 0 ids (0, r) of (n, r1) \<Rightarrow>
           (n, if n \<noteq> 0 then r1\<lparr>rg_dominant := False\<rparr> else r1))"

definition adopt_auto_limit :: "real \<Rightarrow> string \<Rightarrow> string \<Rightarrow> string \<Rightarrow> string \<Rightarrow> registry \<Rightarrow> bool \<times> registry" where
  "adopt_auto_limit now effective_id new_id new_name priority r =
     (case (case map_of (rg_apps r) effective_id of Some e \<Rightarrow> Some (effective_id, e) | None \<Rightarrow> by_any_id effective_id (Some Auto) r) of
        None \<Rightarrow> (False, r)
      | Some (k, e) \<Rightarrow>
          if la_source e \<noteq> Auto then (False, r)
          else (True, put_manual k (taken_over now (e\<lparr>la_controlled := True, la_public_id := new_id,
                  la_name := (if new_name = [] then la_name e else new_name),
                  la_priority := (if priority = [] then la_priority e else priority)\<rparr>)) r))"

definition get_auto_limit_exclusions :: "registry \<Rightarrow> exclusion list" where
  "get_auto_limit_exclusions r = map snd (rg_exclusions r)"

definition remove_auto_limit_exclusion :: "string \<Rightarrow> registry \<Rightarrow> bool \<times> registry" where
  "remove_auto_limit_exclusion ident r = (case remove_exclusion ident r of (rec, r1) \<Rightarrow> (rec \<noteq> None, r1))"

subsection \<open>What the user interface is shown\<close>

record control_view =
  cv_status :: string
  cv_cpu_mem :: bool
  cv_io :: bool
  cv_rates :: limit_rates
  cv_disks :: "string list"
  cv_auto :: "(string \<times> string \<times> bool \<times> bool) option"   \<comment> \<open>reason, level, the two relaxed parts\<close>

definition entry_control_view :: "limited_app \<Rightarrow> control_view" where
  "entry_control_view e =
     \<lparr>cv_status = (if la_source e = Auto then ''AUTO_LIMITED'' else ''MANUAL_LIMITED''), cv_cpu_mem = la_cpu_mem e,
      cv_io = la_io e, cv_rates = la_rates e, cv_disks = la_disks e,
      cv_auto = (if la_source e = Auto
                 then Some (if la_reason e = [] then ''system_pressure'' else la_reason e,
                            if la_level e = [] then ''critical'' else la_level e, la_part_sys e, la_part_io e)
                 else None)\<rparr>"

record limit_snapshot =
  sn_key :: string
  sn_source :: limit_source
  sn_pids :: "int list"
  sn_cgroups :: "string list"
  sn_limited_at :: "real option"
  sn_adopted :: bool
  sn_frozen :: bool
  sn_frozen_at :: "real option"
  sn_view :: control_view

definition or_none :: "real \<Rightarrow> real option" where
  "or_none x = (if x = 0 then None else Some x)"

definition get_limit_snapshot :: "string \<Rightarrow> registry \<Rightarrow> limit_snapshot option" where
  \<comment> \<open>None: not limited, status \<open>NORMAL\<close>\<close>
  "get_limit_snapshot app_id r =
     map_option (\<lambda>(k, e). \<lparr>sn_key = k, sn_source = la_source e, sn_pids = sorted_list_of_set (set (la_pids e)),
         sn_cgroups = la_cgroups e, sn_limited_at = or_none (la_limited_at e), sn_adopted = la_adopted e, sn_frozen = la_frozen e,
         sn_frozen_at = or_none (la_frozen_at e), sn_view = entry_control_view e\<rparr>)
       (by_public_id app_id None r)"

definition inspect_interrupted_limit :: "(string \<Rightarrow> bool \<times> string list) \<Rightarrow> string list \<Rightarrow> (string list) option" where
  \<comment> \<open>None: not available. \<open>inspect\<close> is \<open>inspect_cgroup_limits\<close>; the names are shown sorted\<close>
  "inspect_interrupted_limit inspect cgroups =
     (if list_all (\<lambda>c. fst (inspect c)) cgroups then Some (remdups (concat (map (snd \<circ> inspect) cgroups))) else None)"

record auto_row =
  ar_app_id :: string
  ar_key :: string
  ar_name :: string
  ar_priority :: string
  ar_controlled :: bool
  ar_relaxed :: bool              \<comment> \<open>\<open>partially_restored\<close>, else \<open>limited\<close>\<close>
  ar_reason :: string
  ar_level :: string
  ar_limited_at :: "real option"
  ar_cgroups :: "string list"
  ar_pids :: "int list"
  ar_rep_pid :: "int option"
  ar_view :: control_view
  ar_scope :: "(string \<times> (int \<times> string \<times> string) list) list"   \<comment> \<open>per cgroup pid, name and command line\<close>

definition scope_processes ::
  "(string \<Rightarrow> int list) \<Rightarrow> (int \<Rightarrow> (string \<times> string) option) \<Rightarrow> string \<Rightarrow> int option \<Rightarrow> string \<Rightarrow> (int \<times> string \<times> string) list" where
  \<comment> \<open>the live processes of a cgroup, the representative one first; \<open>info\<close> is None for a process that is gone, a
      zombie or not readable\<close>
  "scope_processes pids_in info app_name rep cg =
     (let procs = List.map_filter (\<lambda>p. map_option (\<lambda>(name, cmd). (p, if name = [] then app_name else name, strip cmd)) (info p)) (pids_in cg)
      in case rep of
           Some q \<Rightarrow> if q = 0 then procs else filter (\<lambda>x. fst x = q) procs @ filter (\<lambda>x. fst x \<noteq> q) procs
         | None \<Rightarrow> procs)"

definition get_auto_limited_apps ::
  "(string \<Rightarrow> int list) \<Rightarrow> (int \<Rightarrow> (string \<times> string) option) \<Rightarrow> registry \<Rightarrow> auto_row list" where
  \<comment> \<open>the current levels that ride along are left out\<close>
  "get_auto_limited_apps pids_in info r =
     map (\<lambda>(k, e). \<lparr>ar_app_id = la_public_id e, ar_key = k, ar_name = la_name e,
         ar_priority = (if la_priority e = [] then ''undefined'' else la_priority e), ar_controlled = la_controlled e,
         ar_relaxed = la_relaxed e, ar_reason = (if la_reason e = [] then ''system_pressure'' else la_reason e),
         ar_level = (if la_level e = [] then ''critical'' else la_level e), ar_limited_at = or_none (la_limited_at e),
         ar_cgroups = la_cgroups e, ar_pids = sorted_list_of_set (set (la_pids e)), ar_rep_pid = la_rep_pid e,
         ar_view = entry_control_view e,
         ar_scope = map (\<lambda>cg. (cg, scope_processes pids_in info (la_name e) (la_rep_pid e) cg)) (la_cgroups e)\<rparr>)
       (filter (\<lambda>(k, e). la_source e = Auto) (rg_apps r))"

subsection \<open>Lemmas: the peak\<close>

lemma share_of_usage_mono:
  assumes "share_of_usage (Some rt) x = Some m" "x \<le> y" "0 \<le> rt"
  shows "\<exists>n. share_of_usage (Some rt) y = Some n \<and> m \<le> n"
proof -
  have x: "rt \<noteq> 0" "0 < x" "m = max 1 (py_trunc (x * rt))" using assms(1) by (auto simp: share_of_usage_def split: if_splits)
  have "x * rt \<le> y * rt" using assms(2,3) by (rule mult_right_mono)
  moreover have "0 \<le> x * rt" using x(2) assms(3) by simp
  ultimately have "py_trunc (x * rt) \<le> py_trunc (y * rt)" by (simp add: py_trunc_def floor_mono)
  then show ?thesis using x assms(2) by (auto simp: share_of_usage_def)
qed

lemma cpu_quota_mono:
  assumes "manual_cpu_quota rates p = Some m" "up_cpu p \<le> up_cpu q" "\<forall>c. lr_cpu rates = Some c \<longrightarrow> 0 \<le> c"
  shows "\<exists>n. manual_cpu_quota rates q = Some n \<and> m \<le> n"
proof -
  obtain c where c: "lr_cpu rates = Some c" using assms(1) by (auto simp: manual_cpu_quota_def share_of_usage_def split: option.splits)
  show ?thesis using share_of_usage_mono [of c "if up_cpu p \<ge> 2 then up_cpu p else 0" m "if up_cpu q \<ge> 2 then up_cpu q else 0"]
      assms c by (auto simp: manual_cpu_quota_def)
qed

lemma mem_high_mono:
  assumes "manual_mem_high rates p = Some m" "up_mem p \<le> up_mem q" "\<forall>c. lr_mem rates = Some c \<longrightarrow> 0 \<le> c"
  shows "\<exists>n. manual_mem_high rates q = Some n \<and> m \<le> n"
proof -
  obtain c where c: "lr_mem rates = Some c" using assms(1) by (auto simp: manual_mem_high_def share_of_usage_def split: option.splits)
  show ?thesis using share_of_usage_mono [of c "up_mem p" m "up_mem q"] assms c by (auto simp: manual_mem_high_def)
qed

lemma latched_ge: "up_cpu b \<le> up_cpu (latched_usage u (Some b))" "up_mem b \<le> up_mem (latched_usage u (Some b))"
  by (simp_all add: latched_usage_def Let_def)

lemma baseline_recorded [simp]:
  "rg_baseline (record_manual k e p r) = AList.update k p (rg_baseline r)"
  "rg_apps (record_manual k e p r) = AList.update k e (rg_apps r)"
  by (simp_all add: record_manual_def add_exclusion_def)

lemma install_baseline:
  assumes "install_on host running now app_id app_name priority rates force u leaf primary extra (r, w) = (out, r', w')"
  shows "map_of (rg_baseline r') primary =
      (if io_result out = Installed then Some (latched_usage u (map_of (rg_baseline r) primary)) else map_of (rg_baseline r) primary)"
    and "k \<noteq> primary \<Longrightarrow> map_of (rg_baseline r') k = map_of (rg_baseline r) k"
  using assms by (auto simp: install_on_def nothing_installed_def Let_def update_conv split: if_splits prod.splits)

subsection \<open>Lemmas: the order of reclaim and disk cap\<close>

datatype host_event = Throttled string | Reclaimed string

definition logging :: "'w manual_host \<Rightarrow> ('w \<Rightarrow> host_event list) \<Rightarrow> bool" where
  \<comment> \<open>the world keeps a log of the disk caps written and the reclaims run\<close>
  "logging host tr \<longleftrightarrow>
     (\<forall>cg l d w. tr (snd (lh_throttle host cg l d w)) = tr w @ [Throttled cg])
   \<and> (\<forall>cg n w. tr (mh_reclaim host cg n w) = tr w @ [Reclaimed cg])
   \<and> (\<forall>cg c m w. tr (snd (lh_cap host cg c m w)) = tr w)"

fun is_throttle :: "host_event \<Rightarrow> bool" where
  "is_throttle (Throttled _) = True"
| "is_throttle (Reclaimed _) = False"

lemma log_throttle: "logging host tr \<Longrightarrow> lh_throttle host cg l d w = (ok, w') \<Longrightarrow> tr w' = tr w @ [Throttled cg]"
  by (metis logging_def snd_conv)

lemma log_cap: "logging host tr \<Longrightarrow> lh_cap host cg c m w = (ok, w') \<Longrightarrow> tr w' = tr w"
  by (metis logging_def snd_conv)

lemma log_extras:
  assumes "logging host tr"
  shows "\<exists>b. tr (each_extra (\<lambda>c. lh_throttle host c l d) cs w) = tr w @ b \<and> list_all is_throttle b"
proof (induction cs arbitrary: w)
  case (Cons c cs)
  obtain ok w1 where t: "lh_throttle host c l d w = (ok, w1)" by fastforce
  obtain b where b: "tr (each_extra (\<lambda>c. lh_throttle host c l d) cs w1) = tr w1 @ b" "list_all is_throttle b"
    using Cons by blast
  then show ?case using log_throttle [OF assms t] t by (auto intro!: exI [of _ "Throttled c # b"])
qed simp

lemma log_others:
  assumes "logging host tr" "cap_others host cpu mem cs w = (don, w')"
  shows "tr w' = tr w"
  using assms(2) by (induction cs arbitrary: w don) (auto split: prod.splits simp: log_cap [OF assms(1)] dest: log_cap [OF assms(1)])

lemma log_sys:
  assumes "logging host tr" "sys_phase host running primary extra cpu mem p w = (res, limited, shares, w')"
  shows "tr w' = tr w"
  using assms(2)
  by (auto simp: sys_phase_def cap_manual_def Let_def split: if_splits prod.splits)
    (metis log_cap [OF assms(1)] log_others [OF assms(1)])+

lemma log_io:
  assumes "logging host tr" "io_phase host primary extra wanted postpone rates w = (io, held, w')"
  shows "\<exists>b. tr w' = tr w @ b \<and> list_all is_throttle b \<and> (postpone \<longrightarrow> b = [])" "postpone \<or> held = []"
proof -
  show "\<exists>b. tr w' = tr w @ b \<and> list_all is_throttle b \<and> (postpone \<longrightarrow> b = [])"
  proof (cases "wanted \<and> rates \<noteq> None \<and> \<not> postpone")
    case True
    then obtain i w1 where "rates = Some i" and t: "lh_throttle host primary (manual_io_limits i) [] w = (io, w1)"
      and w': "w' = each_extra (\<lambda>c. lh_throttle host c (manual_io_limits i) []) extra w1"
      using assms(2) by (auto simp: io_phase_def split: prod.splits)
    obtain b where "tr w' = tr w1 @ b" "list_all is_throttle b" using log_extras [OF assms(1)] w' by blast
    then show ?thesis using log_throttle [OF assms(1) t] True by (intro exI [of _ "Throttled primary # b"]) simp
  next
    case False
    then have "w' = w" using assms(2) by (cases wanted; cases rates; cases postpone) (auto simp: io_phase_def)
    then show ?thesis by simp
  qed
  show "postpone \<or> held = []"
    using assms(2) by (cases wanted; cases rates; cases postpone) (auto simp: io_phase_def split: prod.splits)
qed

lemma log_reclaims:
  assumes "logging host tr" "reclaim_to_manual_targets host clock i ps (q, w) = (q', w')"
  shows "tr w' = tr w @ map (Reclaimed \<circ> fst) ps"
  using assms(2)
proof (induction ps arbitrary: i q w)
  case (Cons x ps)
  obtain cg mb where x: "x = (cg, mb)" by fastforce
  show ?case using Cons.prems Cons.IH [of "i + 2" "mark_reclaim_noise (clock (i + 1))" "mh_reclaim host cg (mb * (1024 * 1024)) w"]
    using assms(1) unfolding x logging_def by (simp add: Let_def)
qed simp

lemma log_deferred:
  assumes "logging host tr"
  shows "\<exists>b. tr (snd (foldl (\<lambda>s d. apply_deferred_io_cap host d s) (r, w) ds)) = tr w @ b \<and> list_all is_throttle b"
proof (induction ds arbitrary: r w)
  case (Cons d ds)
  obtain r1 w1 where a: "apply_deferred_io_cap host d (r, w) = (r1, w1)" by fastforce
  have "\<exists>b. tr w1 = tr w @ b \<and> list_all is_throttle b"
  proof (cases "map_of (rg_apps r) (df_key d) = None")
    case True
    then show ?thesis using a by (simp add: apply_deferred_io_cap_def)
  next
    case False
    then obtain ok w0 where t: "lh_throttle host (df_key d) (df_limits d) [] w = (ok, w0)"
      and w1: "w1 = each_extra (\<lambda>c. lh_throttle host c (df_limits d) []) (df_extra d) w0"
      using a by (auto simp: apply_deferred_io_cap_def split: prod.splits)
    obtain b where "tr w1 = tr w0 @ b" "list_all is_throttle b" using log_extras [OF assms] w1 by blast
    then show ?thesis using log_throttle [OF assms t] by (intro exI [of _ "Throttled (df_key d) # b"]) simp
  qed
  then obtain b1 where b1: "tr w1 = tr w @ b1" "list_all is_throttle b1" by blast
  obtain b2 where "tr (snd (foldl (\<lambda>s d. apply_deferred_io_cap host d s) (r1, w1) ds)) = tr w1 @ b2" "list_all is_throttle b2"
    using Cons by blast
  then show ?case using a b1 by (intro exI [of _ "b1 @ b2"]) simp
qed simp

lemma deferred_kept:
  assumes "map_of (rg_apps r) k = Some e0"
  shows "\<exists>e. map_of (rg_apps (fst (foldl (\<lambda>s d. apply_deferred_io_cap host d s) (r, w) ds))) k = Some e
    \<and> la_cpu_mem e = la_cpu_mem e0"
  using assms
proof (induction ds arbitrary: r w e0)
  case (Cons d ds)
  obtain r1 w1 where a: "apply_deferred_io_cap host d (r, w) = (r1, w1)" by fastforce
  have "r1 = r \<or> (\<exists>ok. r1 = update_entry (df_key d) (\<lambda>e. e\<lparr>la_io := ok\<rparr>) r)"
    using a by (auto simp: apply_deferred_io_cap_def split: if_splits prod.splits)
  then have "\<exists>e1. map_of (rg_apps r1) k = Some e1 \<and> la_cpu_mem e1 = la_cpu_mem e0"
    using Cons.prems by (auto simp: map_of_update_entry)
  then obtain e1 where "map_of (rg_apps r1) k = Some e1" "la_cpu_mem e1 = la_cpu_mem e0" by blast
  from Cons.IH [OF this(1), of w1] this(2) show ?case by (simp add: a)
qed simp

subsection \<open>Properties\<close>

lemma plan_within: "fst ` set (reclaim_plan_for mem limited shares) \<subseteq> set limited"
  by (auto simp: reclaim_plan_for_def List.map_filter_def split: option.splits if_splits)

lemma cap_others_within: "cap_others host cpu mem cs w = (don, w') \<Longrightarrow> set don \<subseteq> set cs"
proof (induction cs arbitrary: w don w')
  case (Cons c cs)
  obtain ok w1 where c: "lh_cap host c (cpu c) (mem c) w = (ok, w1)" by fastforce
  obtain d w2 where d: "cap_others host cpu mem cs w1 = (d, w2)" by fastforce
  have "don = (if ok then c # d else d)" using Cons.prems by (simp add: c d)
  then show ?case using Cons.IH [OF d] by auto
qed simp

lemma sys_phase_within:
  assumes "sys_phase host running primary extra cpu mem p w = (res, limited, shares, w')"
  shows "set limited \<subseteq> set (if res then primary # extra else extra)" "res \<Longrightarrow> limited \<noteq> []"
  using assms
  by (auto simp: sys_phase_def cap_manual_def Let_def split: if_splits prod.splits dest!: cap_others_within)


text \<open>limiting again never tightens the cap. Whatever the second sample shows, taken while the first limit holds the
  application down, the CPU and memory caps computed at the same rates are no smaller than those the recorded peak gives,
  and the recorded peak only grows.\<close>
theorem manual_cap_never_tightens:
  assumes b: "map_of (rg_baseline r) primary = Some b"
    and i: "install_on host running now app_id app_name priority rates force u leaf primary extra (r, w) = (out, r', w')"
    and rates: "\<forall>c. lr_cpu rates = Some c \<longrightarrow> 0 \<le> c" "\<forall>c. lr_mem rates = Some c \<longrightarrow> 0 \<le> c"
  shows "\<exists>p. map_of (rg_baseline r') primary = Some p \<and> up_cpu b \<le> up_cpu p \<and> up_mem b \<le> up_mem p
    \<and> (\<forall>m. manual_cpu_quota rates b = Some m \<longrightarrow> (\<exists>n\<ge>m. manual_cpu_quota rates (latched_usage u (Some b)) = Some n))
    \<and> (\<forall>m. manual_mem_high rates b = Some m \<longrightarrow> (\<exists>n\<ge>m. manual_mem_high rates (latched_usage u (Some b)) = Some n))"
proof -
  let ?p = "latched_usage u (Some b)"
  have "map_of (rg_baseline r') primary = Some (if io_result out = Installed then ?p else b)"
    using install_baseline(1) [OF i] b by simp
  moreover have "up_cpu b \<le> up_cpu (if io_result out = Installed then ?p else b)"
    "up_mem b \<le> up_mem (if io_result out = Installed then ?p else b)" using latched_ge [of b u] by simp_all
  moreover have "\<forall>m. manual_cpu_quota rates b = Some m \<longrightarrow> (\<exists>n\<ge>m. manual_cpu_quota rates ?p = Some n)"
    using cpu_quota_mono [OF _ latched_ge(1) rates(1), of b _ u] by blast
  moreover have "\<forall>m. manual_mem_high rates b = Some m \<longrightarrow> (\<exists>n\<ge>m. manual_mem_high rates ?p = Some n)"
    using mem_high_mono [OF _ latched_ge(2) rates(2), of b _ u] by blast
  ultimately show ?thesis by blast
qed

subsection \<open>Freezing\<close>

definition freeze_host_ok :: "'w manual_host \<Rightarrow> ('w \<Rightarrow> string \<Rightarrow> bool) \<Rightarrow> bool" where
  \<comment> \<open>\<open>freeze_cgroup\<close>: when it reports success the cgroup is in the state asked for; other cgroups are left alone. After a
      failure the state of the cgroup is not known\<close>
  "freeze_host_ok host frozen \<longleftrightarrow>
     (\<forall>c b w ok w'. mh_freeze host c b w = (ok, w') \<longrightarrow>
        (ok \<longrightarrow> frozen w' c = b) \<and> (\<forall>d. d \<noteq> c \<longrightarrow> frozen w' d = frozen w d))"

lemma freeze_law:
  assumes "freeze_host_ok host frozen" "mh_freeze host c b w = (ok, w')"
  shows "ok \<Longrightarrow> frozen w' c = b" "d \<noteq> c \<Longrightarrow> frozen w' d = frozen w d"
  using assms unfolding freeze_host_ok_def by blast+

lemma freeze_each_law:
  assumes h: "freeze_host_ok host frozen" and f: "freeze_each host b cs acc w = (ok, finished, w')"
  shows "\<exists>more rest. finished = acc @ more \<and> cs = more @ rest \<and> (ok \<longleftrightarrow> rest = [])
    \<and> (distinct cs \<longrightarrow> (\<forall>c\<in>set more. frozen w' c = b)) \<and> (\<forall>d. d \<notin> set (more @ take 1 rest) \<longrightarrow> frozen w' d = frozen w d)"
  using f
proof (induction cs arbitrary: acc w)
  case Nil
  then show ?case by auto
next
  case (Cons c cs)
  obtain ok1 w1 where m: "mh_freeze host c b w = (ok1, w1)" by fastforce
  note law = freeze_law [OF h m]
  show ?case
  proof (cases ok1)
    case False
    then have "finished = acc" "w' = w1" "\<not> ok" using Cons.prems m by simp_all
    then show ?thesis using law(2) by (intro exI [of _ "[]"] exI [of _ "c # cs"]) auto
  next
    case True
    then have next1: "freeze_each host b cs (acc @ [c]) w1 = (ok, finished, w')" using Cons.prems m by simp
    obtain more rest where more: "finished = (acc @ [c]) @ more" "cs = more @ rest" "ok \<longleftrightarrow> rest = []"
      "distinct cs \<longrightarrow> (\<forall>x\<in>set more. frozen w' x = b)" "\<forall>d. d \<notin> set (more @ take 1 rest) \<longrightarrow> frozen w' d = frozen w1 d"
      using Cons.IH [OF next1] by blast
    have sub: "set (more @ take 1 rest) \<subseteq> set cs" using more(2) by (auto dest: in_set_takeD)
    have "frozen w' c = b" if "distinct (c # cs)"
    proof -
      have "c \<notin> set (more @ take 1 rest)" using that sub by auto
      then show ?thesis using more(5) law(1) True by simp
    qed
    then have "distinct (c # cs) \<longrightarrow> (\<forall>x\<in>set (c # more). frozen w' x = b)" using more(4) by simp
    moreover have "\<forall>d. d \<notin> set ((c # more) @ take 1 rest) \<longrightarrow> frozen w' d = frozen w d" using more(5) law(2) by auto
    ultimately show ?thesis using more(1-3) by (intro exI [of _ "c # more"] exI [of _ rest]) auto
  qed
qed

definition thawable :: "'w manual_host \<Rightarrow> string \<Rightarrow> bool" where
  \<comment> \<open>writes that thaw the cgroup succeed\<close>
  "thawable host c \<longleftrightarrow> (\<forall>v. fst (mh_freeze host c False v))"

lemma thaw_law:
  assumes h: "freeze_host_ok host frozen" and t: "thaw_cgroups host cs w = (ok, w')"
  shows "(distinct cs \<longrightarrow> (\<forall>c\<in>set cs. thawable host c \<longrightarrow> \<not> frozen w' c)) \<and> (\<forall>d. d \<notin> set cs \<longrightarrow> frozen w' d = frozen w d)"
  using t
proof (induction cs arbitrary: w ok)
  case Nil
  then show ?case by auto
next
  case (Cons c cs)
  obtain ok1 w1 where m: "mh_freeze host c False w = (ok1, w1)" by fastforce
  obtain ok2 where r: "thaw_cgroups host cs w1 = (ok2, w')" "ok = (ok1 \<and> ok2)" using Cons.prems m by (auto split: prod.splits)
  note law = freeze_law [OF h m] and ih = Cons.IH [OF r(1)]
  have other: "frozen w' d = frozen w1 d" if "d \<notin> set cs" for d using ih that by blast
  have "\<not> frozen w' c" if "thawable host c" "c \<notin> set cs"
  proof -
    have ok1 using that(1) m unfolding thawable_def by (metis fst_conv)
    then show ?thesis using other [OF that(2)] law(1) by simp
  qed
  then show ?case using ih other law(2) by auto
qed

definition written_only :: "('w \<Rightarrow> string \<Rightarrow> bool) \<Rightarrow> string list \<Rightarrow> 'w \<Rightarrow> 'w \<Rightarrow> bool" where
  "written_only frozen cs w w' \<longleftrightarrow> (\<forall>c. c \<notin> set cs \<longrightarrow> frozen w' c = frozen w c)"

lemma by_public_id_update:
  assumes "by_public_id i src r = Some (k, e)" "distinct (map fst (rg_apps r))"
    and "\<And>a. la_public_id (f a) = la_public_id a" "\<And>a. la_source (f a) = la_source a"
  shows "by_public_id i src (update_entry k f r) = Some (k, f e)"
proof -
  have found: "find P (AList.update k (f e) xs) = Some (k, f e)"
    if "find P xs = Some (k, e)" "distinct (map fst xs)" "\<And>j a. P (j, f a) = P (j, a)" for P xs
    using that
  proof (induction xs)
    case (Cons x xs)
    obtain j a where x: "x = (j, a)" by fastforce
    show ?case
    proof (cases "P x")
      case True
      then show ?thesis using Cons.prems by (simp add: x)
    next
      case False
      then have rest: "find P xs = Some (k, e)" using Cons.prems(1) by simp
      then have "(k, e) \<in> set xs" by (metis find_Some_iff nth_mem)
      then have "k \<in> fst ` set xs" by (metis fst_conv image_eqI)
      then have "j \<noteq> k" using Cons.prems(2) by (auto simp: x)
      then show ?thesis using False Cons.IH [OF rest _ Cons.prems(3)] Cons.prems(2) by (simp add: x)
    qed
  qed simp
  have "(k, e) \<in> set (rg_apps r)" using assms(1) by (auto simp: by_public_id_def find_Some_iff in_set_conv_nth)
  then have "map_of (rg_apps r) k = Some e" using assms(2) by simp
  then show ?thesis using found [of "\<lambda>(j, a). la_public_id a = i \<and> source_matches src a" "rg_apps r"] assms
    by (auto simp: by_public_id_def update_entry_def source_matches_def split: option.splits)
qed

text \<open>C20: freezing is all or nothing but for the write that failed, and the record says which, whatever other threads do
  while the cgroups are written. Asking for the state the entry already has writes nothing. Otherwise the cgroups are
  written in order. When all writes succeed, every cgroup is in the state asked for; then, if the application still has a
  manual limit, that entry and no other is marked; if the limit is gone, no entry is changed and a freeze is taken back on
  every cgroup that can be thawed. When the write to one cgroup fails, no entry is changed, the cgroups after it are as they
  were, and those before it are thawed again, after a freeze as far as they can be; only the one whose write failed is in an
  unknown state. A failed thaw is not taken back: the application still counts as frozen and can be thawed again.\<close>
theorem freeze_all_or_nothing:
  assumes h: "freeze_host_ok host frozen" and k: "by_public_id app_id (Some Manual) r = Some (k, e)" "distinct (entry_cgroups k e)"
    and d: "\<forall>v. distinct (map fst (rg_apps (fst (meanwhile (r, v)))))"
    and f: "set_freeze host now meanwhile app_id freeze (r, w) = (res, r', w')"
  shows "(res = NothingToDo \<longleftrightarrow> la_frozen e = freeze) \<and> (case res of
      NoManualLimit \<Rightarrow> False
    | NothingToDo \<Rightarrow> r' = r \<and> w' = w
    | FreezeFailed \<Rightarrow> r' = r \<and> (\<exists>before bad after. entry_cgroups k e = before @ bad # after
        \<and> (\<forall>c\<in>set before. \<not> freeze \<or> thawable host c \<longrightarrow> \<not> frozen w' c) \<and> written_only frozen (before @ [bad]) w w')
    | FreezeDone \<Rightarrow> (\<exists>w1 r2 k2 e2. (\<forall>c\<in>set (entry_cgroups k e). frozen w1 c = freeze) \<and> written_only frozen (entry_cgroups k e) w w1
        \<and> meanwhile (r, w1) = (r2, w') \<and> by_public_id app_id (Some Manual) r2 = Some (k2, e2)
        \<and> by_public_id app_id (Some Manual) r' = Some (k2, e2\<lparr>la_frozen := freeze, la_frozen_at := (if freeze then now else 0),
            la_freeze_notified := False\<rparr>)
        \<and> (\<forall>j. j \<noteq> k2 \<longrightarrow> map_of (rg_apps r') j = map_of (rg_apps r2) j))
    | RestoredMeanwhile \<Rightarrow> (\<exists>w1 w2. (\<forall>c\<in>set (entry_cgroups k e). frozen w1 c = freeze) \<and> written_only frozen (entry_cgroups k e) w w1
        \<and> meanwhile (r, w1) = (r', w2) \<and> by_public_id app_id (Some Manual) r' = None
        \<and> (if freeze then (\<forall>c\<in>set (entry_cgroups k e). thawable host c \<longrightarrow> \<not> frozen w' c) \<and> written_only frozen (entry_cgroups k e) w2 w'
           else w' = w2)))"
proof (cases "la_frozen e = freeze")
  case True
  then show ?thesis using f k by (simp add: set_freeze_def)
next
  case False
  obtain ok finished w1 where fe: "freeze_each host freeze (entry_cgroups k e) [] w = (ok, finished, w1)" by (metis surj_pair)
  obtain rest where pre: "entry_cgroups k e = finished @ rest" "ok \<longleftrightarrow> rest = []" "\<forall>c\<in>set finished. frozen w1 c = freeze"
    "\<forall>d. d \<notin> set (finished @ take 1 rest) \<longrightarrow> frozen w1 d = frozen w d"
    using freeze_each_law [OF h fe] k(2) by auto
  have fin: "distinct finished" using pre(1) k(2) by auto
  obtain okt wt where t: "thaw_cgroups host finished w1 = (okt, wt)" by fastforce
  obtain r2 w2 where mw: "meanwhile (r, w1) = (r2, w2)" by fastforce
  obtain ok2 w3 where t2: "thaw_cgroups host finished w2 = (ok2, w3)" by fastforce
  show ?thesis
  proof (cases ok)
    case failed: False
    then obtain bad after where rest: "rest = bad # after" using pre(2) by (cases rest) auto
    have res: "res = FreezeFailed" "r' = r" "w' = (if freeze then wt else w1)"
      using f False fe failed k(1) t by (cases freeze; simp add: set_freeze_def)+
    note tl = thaw_law [OF h t]
    have "written_only frozen (finished @ [bad]) w w'"
      using tl pre(4) res(3) by (auto simp: written_only_def rest)
    moreover have "\<forall>c\<in>set finished. \<not> freeze \<or> thawable host c \<longrightarrow> \<not> frozen w' c"
      using tl fin res(3) pre(3) by auto
    ultimately show ?thesis using res(1,2) pre(1) False unfolding rest by (auto 0 3)
  next
    case True
    then have all: "entry_cgroups k e = finished" "\<forall>c\<in>set finished. frozen w1 c = freeze" "written_only frozen finished w w1"
      using pre by (simp_all add: written_only_def)
    show ?thesis
    proof (cases "by_public_id app_id (Some Manual) r2")
      case None
      have res: "res = RestoredMeanwhile" "r' = r2" "w' = (if freeze then w3 else w2)"
        using f False fe True k(1) mw None t2 by (cases freeze; simp add: set_freeze_def)+
      have "written_only frozen finished w2 w'" "\<forall>c\<in>set finished. thawable host c \<longrightarrow> \<not> frozen w' c" if freeze
        using thaw_law [OF h t2] fin res(3) that by (auto simp: written_only_def)
      then show ?thesis using res mw None all False by (cases freeze) (auto 0 3)
    next
      case (Some x)
      obtain k2 e2 where x: "x = (k2, e2)" by fastforce
      let ?mark = "\<lambda>a. a\<lparr>la_frozen := freeze, la_frozen_at := (if freeze then now else 0), la_freeze_notified := False\<rparr>"
      have res: "res = FreezeDone" "r' = update_entry k2 ?mark r2" "w' = w2"
        using f False fe True k(1) mw Some x by (simp_all add: set_freeze_def)
      have "by_public_id app_id (Some Manual) r' = Some (k2, ?mark e2)"
        unfolding res(2) using d [rule_format, of w1] by (intro by_public_id_update [OF Some [unfolded x]]) (simp_all add: mw)
      moreover have "\<forall>j. j \<noteq> k2 \<longrightarrow> map_of (rg_apps r') j = map_of (rg_apps r2) j"
        by (simp add: res(2) map_of_update_entry)
      ultimately show ?thesis unfolding res(1,3) all(1) using all(2,3) mw Some x False
        by (simp only: freeze_verdict.case freeze_verdict.distinct) blast
    qed
  qed
qed

subsection \<open>Restoring and handing over\<close>

lemma by_public_id_in:
  assumes "by_public_id i src r = Some (k, e)"
  shows "(k, e) \<in> set (rg_apps r)" "la_public_id e = i" "source_matches src e"
  using assms by (auto simp: by_public_id_def find_Some_iff in_set_conv_nth)

lemma find_auto_in:
  assumes "find_auto i r = Some (k, e)"
  shows "(k, e) \<in> set (rg_apps r)" "la_source e = Auto"
  using assms by (auto simp: find_auto_def source_matches_def split: option.splits dest: by_public_id_in by_any_id_in)

lemma lift_if_other:
  assumes "\<And>c v. c \<noteq> other \<Longrightarrow> view (snd (f c v)) other = view v other" "other \<notin> insert primary (set extra)"
    "lift_if flag f primary extra w = (ok, w')"
  shows "view w' other = view w other"
proof (cases flag)
  case True
  then obtain w1 where w1: "f primary w = (ok, w1)" "w' = each_extra f extra w1"
    using assms(3) by (auto simp: lift_if_def split: prod.splits)
  have "view w1 other = view w other" using assms(1) [of primary w] assms(2) w1(1) by auto
  then show ?thesis using each_extra_other [of other view f extra, OF assms(1)] assms(2) w1(2) by auto
next
  case False
  then show ?thesis using assms(3) by (simp add: lift_if_def)
qed

lemma thaw_other:
  assumes "\<And>c v. c \<noteq> other \<Longrightarrow> view (snd (mh_freeze host c False v)) other = view v other" "other \<notin> set cs"
    "thaw_cgroups host cs w = (ok, w')"
  shows "view w' other = view w other"
  using assms(2,3)
proof (induction cs arbitrary: w ok)
  case (Cons c cs)
  obtain ok1 w1 where m: "mh_freeze host c False w = (ok1, w1)" by fastforce
  have "view w1 other = view w other" using assms(1) [of c w] Cons.prems(1) m by auto
  then show ?case using Cons m by (auto split: prod.splits)
qed simp

lemma remove_exclusion_apps [simp]:
  "rg_apps (snd (remove_exclusion i r)) = rg_apps r" "rg_baseline (snd (remove_exclusion i r)) = rg_baseline r"
  by (auto simp: remove_exclusion_def split: option.splits prod.splits)

text \<open>a restore by the user undoes one manual limit and nothing else. It drops the entry of that limit, keeps all others,
  automatic ones included, and the recorded peaks, and writes only cgroups of that entry; without a manual entry it writes
  nothing.\<close>
theorem manual_restore_scope:
  assumes h: "limit_host_ok host view" "writes_only view (\<lambda>c. mh_freeze host c False)"
    and s: "set_restore_resource host app_id (r, w) = (ok, r', w')"
  shows "rg_baseline r' = rg_baseline r
    \<and> (case by_public_id app_id (Some Manual) r of
        None \<Rightarrow> w' = w \<and> rg_apps r' = rg_apps r \<and> rg_exclusions r' = rg_exclusions r
      | Some (k, e) \<Rightarrow> rg_apps r' = AList.delete k (rg_apps r) \<and> la_source e = Manual \<and> la_public_id e = app_id
          \<and> (\<forall>cg. cg \<notin> set (entry_cgroups k e) \<longrightarrow> view w' cg = view w cg))"
proof (cases "by_public_id app_id (Some Manual) r")
  case None
  then show ?thesis using s by (auto simp: set_restore_resource_def lift_if_def)
next
  case (Some ke)
  obtain k e where ke: "ke = (k, e)" by fastforce
  note e = by_public_id_in [OF Some [unfolded ke]]
  let ?ids = "entry_cgroups k e"
  obtain ok1 w1 where l1: "lift_if (la_cpu_mem e) (lk_lift (lh_kernel host)) (hd ?ids) (tl ?ids) w = (ok1, w1)" by fastforce
  obtain ok2 w2 where l2: "lift_if (la_io e) (\<lambda>c. lk_io_lift (lh_kernel host) c []) (hd ?ids) (tl ?ids) w1 = (ok2, w2)" by fastforce
  obtain ok3 w3 where l3: "(if la_frozen e then thaw_cgroups host ?ids w2 else (True, w2)) = (ok3, w3)" by fastforce
  let ?rx = "snd (remove_exclusion k (r\<lparr>rg_apps := AList.delete k (rg_apps r)\<rparr>))"
  have pr: "(ok1 \<and> ok2 \<and> ok3, ?rx\<lparr>rg_dominant := False\<rparr>, w3) = (ok, r', w')"
    using s by (simp only: set_restore_resource_def Some ke option.case prod.case l1 l2 l3)
  have r': "?rx\<lparr>rg_dominant := False\<rparr> = r'" using arg_cong [OF pr, of "\<lambda>x. fst (snd x)"] by (simp only: fst_conv snd_conv)
  have w': "w3 = w'" using arg_cong [OF pr, of "\<lambda>x. snd (snd x)"] by (simp only: snd_conv)
  have out: "w' = w3" "rg_apps r' = AList.delete k (rg_apps r)" "rg_baseline r' = rg_baseline r"
    unfolding r' [symmetric] w' by simp_all
  have ne: "?ids \<noteq> []" by (simp add: entry_cgroups_def)
  have only: "writes_only view (lk_lift (lh_kernel host))" "writes_only view (\<lambda>c. lk_io_lift (lh_kernel host) c [])"
    "writes_only view (\<lambda>c. mh_freeze host c False)" using h by (simp_all add: limit_host_ok_def)
  have "view w' cg = view w cg" if "cg \<notin> set ?ids" for cg
  proof -
    have hd: "cg \<notin> insert (hd ?ids) (set (tl ?ids))" using that ne by (cases ?ids) auto
    have f: "view (snd (lk_lift (lh_kernel host) c v)) cg = view v cg"
      "view (snd (lk_io_lift (lh_kernel host) c [] v)) cg = view v cg"
      "view (snd (mh_freeze host c False v)) cg = view v cg" if "c \<noteq> cg" for c v
      using only that by (simp_all add: writes_only_def)
    have "view w1 cg = view w cg" by (rule lift_if_other [where view=view, OF _ hd l1]) (rule f(1))
    moreover have "view w2 cg = view w1 cg" by (rule lift_if_other [where view=view, OF _ hd l2]) (rule f(2))
    moreover have "view w3 cg = view w2 cg"
      using thaw_other [of cg view, OF f(3) that] l3 by (auto split: if_splits)
    ultimately show ?thesis using out(1) by simp
  qed
  then show ?thesis using out e by (simp add: Some ke source_matches_def)
qed

definition same_caps :: "limited_app \<Rightarrow> limited_app \<Rightarrow> bool" where
  \<comment> \<open>two entries stand for the same caps in the kernel\<close>
  "same_caps a b \<longleftrightarrow> la_rates a = la_rates b \<and> la_cpu_mem a = la_cpu_mem b \<and> la_io a = la_io b \<and> la_cgroups a = la_cgroups b
     \<and> la_disks a = la_disks b \<and> la_res_cpu a = la_res_cpu b \<and> la_res_mem a = la_res_mem b \<and> la_frozen a = la_frozen b"

lemma taken_over_props: "same_caps e (taken_over now e)" "la_source (taken_over now e) = Manual"
  "la_public_id (taken_over now e) = la_public_id e" "la_cgroups (taken_over now e) = la_cgroups e"
  by (simp_all add: same_caps_def taken_over_def)

lemma put_manual_apps [simp]: "rg_apps (put_manual k e r) = AList.update k e (rg_apps r)" "rg_baseline (put_manual k e r) = rg_baseline r"
  by (simp_all add: put_manual_def add_exclusion_def)

lemma put_manual_excludes:
  assumes "i \<in> set (app_id # cgs)" "i \<noteq> []" "i = la_public_id e \<or> i \<in> set (la_cgroups e)"
  shows "is_excluded app_id name cgs (put_manual k e r) \<noteq> None"
  unfolding put_manual_def by (rule excluded_by_id [OF assms])

text \<open>a takeover keeps the caps. Locking an automatic limit to manual, or adopting it for an application newly under
  control, when it succeeds, turns one automatic entry into a manual one with the same caps on the same cgroups and disks,
  leaves all other entries alone and keeps every candidate with its id or one of its cgroups away from the pressure loop;
  when it does not succeed nothing changes.\<close>
theorem takeover_keeps_caps:
  assumes t: "lock_to_manual now controlled_now app_id r = (ok, r') \<or> adopt_auto_limit now eff app_id new_name priority r = (ok, r')"
    and d: "distinct (map fst (rg_apps r))"
  shows "(\<not> ok \<longrightarrow> r' = r)
    \<and> (ok \<longrightarrow> (\<exists>k e e'. map_of (rg_apps r) k = Some e \<and> la_source e = Auto \<and> map_of (rg_apps r') k = Some e' \<and> la_source e' = Manual
         \<and> same_caps e e' \<and> (\<forall>j. j \<noteq> k \<longrightarrow> map_of (rg_apps r') j = map_of (rg_apps r) j)
         \<and> (\<forall>ca cgs name i. i \<in> set (ca # cgs) \<and> i \<noteq> [] \<and> (i = la_public_id e' \<or> i \<in> set (la_cgroups e'))
              \<longrightarrow> is_excluded ca name cgs r' \<noteq> None)))"
proof -
  have main: "\<exists>k e e1. (k, e) \<in> set (rg_apps r) \<and> la_source e = Auto \<and> same_caps e e1 \<and> la_source e1 = Manual \<and> r' = put_manual k e1 r"
    if yes: ok
    using t
  proof
    assume l: "lock_to_manual now controlled_now app_id r = (ok, r')"
    then obtain k e where f: "find_auto app_id r = Some (k, e)"
      using yes by (cases "find_auto app_id r") (auto simp: lock_to_manual_def)
    let ?e = "if la_controlled e then e else e\<lparr>la_controlled := True, la_public_id := app_id\<rparr>"
    have "r' = put_manual k (taken_over now ?e) r" using l f yes by (auto simp: lock_to_manual_def split: if_splits)
    moreover have "same_caps e (taken_over now ?e)" "la_source (taken_over now ?e) = Manual" by (simp_all add: same_caps_def taken_over_def)
    ultimately show ?thesis using find_auto_in [OF f] by blast
  next
    assume a: "adopt_auto_limit now eff app_id new_name priority r = (ok, r')"
    let ?f = "case map_of (rg_apps r) eff of Some e \<Rightarrow> Some (eff, e) | None \<Rightarrow> by_any_id eff (Some Auto) r"
    obtain k e where f: "?f = Some (k, e)" using a yes by (cases ?f) (auto simp: adopt_auto_limit_def)
    have e: "(k, e) \<in> set (rg_apps r)" using f by (auto split: option.splits dest: map_of_SomeD by_any_id_in)
    let ?e = "e\<lparr>la_controlled := True, la_public_id := app_id, la_name := (if new_name = [] then la_name e else new_name),
                  la_priority := (if priority = [] then la_priority e else priority)\<rparr>"
    have "r' = put_manual k (taken_over now ?e) r" "la_source e = Auto"
      using a yes unfolding adopt_auto_limit_def f by (auto split: if_splits)
    moreover have "same_caps e (taken_over now ?e)" "la_source (taken_over now ?e) = Manual" by (simp_all add: same_caps_def taken_over_def)
    ultimately show ?thesis using e by blast
  qed
  have "r' = r" if "\<not> ok"
    using t that by (auto simp: lock_to_manual_def adopt_auto_limit_def split: option.splits if_splits)
  moreover have "\<exists>k e e'. map_of (rg_apps r) k = Some e \<and> la_source e = Auto \<and> map_of (rg_apps r') k = Some e' \<and> la_source e' = Manual
         \<and> same_caps e e' \<and> (\<forall>j. j \<noteq> k \<longrightarrow> map_of (rg_apps r') j = map_of (rg_apps r) j)
         \<and> (\<forall>ca cgs name i. i \<in> set (ca # cgs) \<and> i \<noteq> [] \<and> (i = la_public_id e' \<or> i \<in> set (la_cgroups e'))
              \<longrightarrow> is_excluded ca name cgs r' \<noteq> None)" if yes: ok
  proof -
    obtain k e e1 where m: "(k, e) \<in> set (rg_apps r)" "la_source e = Auto" "same_caps e e1" "la_source e1 = Manual" "r' = put_manual k e1 r"
      using main [OF yes] by blast
    have k: "map_of (rg_apps r) k = Some e" using m(1) d by simp
    have x: "is_excluded ca name cgs r' \<noteq> None"
      if "i \<in> set (ca # cgs)" "i \<noteq> []" "i = la_public_id e1 \<or> i \<in> set (la_cgroups e1)" for ca cgs name i
      unfolding m(5) by (rule put_manual_excludes [OF that])
    have up: "map_of (rg_apps r') k = Some e1" "\<forall>j. j \<noteq> k \<longrightarrow> map_of (rg_apps r') j = map_of (rg_apps r) j"
      by (simp_all add: m(5) update_conv)
    show ?thesis
      by (rule exI [of _ k], rule exI [of _ e], rule exI [of _ e1], intro conjI k m(2-4) up allI impI) (elim conjE, rule x)
  qed
  ultimately show ?thesis by blast
qed

subsection \<open>A small host\<close>

definition log_host :: "string list \<Rightarrow> host_event list manual_host" where
  \<comment> \<open>its world is the log; CPU/memory writes to the cgroups of the list fail\<close>
  "log_host bad =
     \<lparr>lh_kernel = \<lparr>lk_relax = (\<lambda>cg c m w. (True, w)), lk_lift = (\<lambda>cg w. (True, w)), lk_io_cap = (\<lambda>cg i d w. (True, w)),
        lk_io_lift = (\<lambda>cg d w. (True, w)), lk_total_mem = 1000\<rparr>,
      lh_cap = (\<lambda>cg c m w. (cg \<notin> set bad, w)), lh_throttle = (\<lambda>cg l d w. (True, w @ [Throttled cg])),
      lh_current = (\<lambda>w cg. None), lh_swapped = (\<lambda>w cg. None), lh_stressed = (\<lambda>w. []),
      lh_disks = (\<lambda>w f. f), lh_scales = PDict [], lh_media = (\<lambda>d. Hdd),
      mh_freeze = (\<lambda>cg b w. (True, w)), mh_reclaim = (\<lambda>cg n w. w @ [Reclaimed cg])\<rparr>"

lemma log_host_logging: "logging (log_host bad) (\<lambda>w. w)"
  by (simp add: logging_def log_host_def)

definition busy_usage :: app_usage where
  "busy_usage = no_usage\<lparr>au_paths := [''/u/a.scope'', ''/u/b.scope''], au_mem := 100, au_write_mb := 200,
     au_cg_mem := [(''a.scope'', 60), (''b.scope'', 40)]\<rparr>"

definition half_mem_io :: limit_rates where
  "half_mem_io = \<lparr>lr_cpu = None, lr_mem = Some (1/2), lr_io = Some \<lparr>ir_read = 1, ir_write = 1, ir_read_iops = 1, ir_write_iops = 1\<rparr>\<rparr>"

lemma busy_cgroups: "usage_cgroups busy_usage = [''a.scope'', ''b.scope'']"
  by (simp add: usage_cgroups_def usage_paths_def busy_usage_def basename_def)

lemma busy_pids: "au_pids busy_usage = []"
  by (simp add: busy_usage_def no_usage_def)

lemma busy_caps: "manual_cpu_quota half_mem_io (latched_usage busy_usage None) = None"
  "manual_mem_high half_mem_io (latched_usage busy_usage None) = Some 50" "manual_io_wanted force half_mem_io (latched_usage busy_usage None)"
  "lr_io half_mem_io = Some \<lparr>ir_read = 1, ir_write = 1, ir_read_iops = 1, ir_write_iops = 1\<rparr>"
  by (simp_all add: manual_cpu_quota_def manual_mem_high_def manual_io_wanted_def share_of_usage_def half_mem_io_def latched_usage_def
      busy_usage_def no_usage_def py_trunc_def is_io_limit_reached_def io_limit_mbps_threshold_def)

lemma busy_split:
  "split_proportionally (Some 50) [''a.scope'', ''b.scope''] (usage_of (up_cg_mem (latched_usage busy_usage None)))
     = [(''a.scope'', Some 30), (''b.scope'', Some 20)]"
  "split_proportionally None [''a.scope'', ''b.scope''] u = [(''a.scope'', None), (''b.scope'', None)]"
  by (simp_all add: split_proportionally_def usage_of_def latched_usage_def busy_usage_def no_usage_def py_trunc_def)

definition one_mb :: "(string \<times> io_max) list" where
  "one_mb = manual_io_limits \<lparr>ir_read = 1, ir_write = 1, ir_read_iops = 1, ir_write_iops = 1\<rparr>"

lemma busy_install:
  "\<exists>out r' w'. install_on (log_host bad) True now app_id app_name priority half_mem_io force busy_usage leaf ''a.scope'' [''b.scope'']
      (registry_init, w) = (out, r', w')
    \<and> (bad = [] \<longrightarrow> io_result out = Installed \<and> io_reclaim_plan out = [(''a.scope'', 30), (''b.scope'', 20)]
        \<and> io_deferred_plan out = [\<lparr>df_key = ''a.scope'', df_extra = [''b.scope''], df_limits = one_mb\<rparr>] \<and> w' = w)
    \<and> (bad = [''a.scope''] \<longrightarrow> io_result out = Installed \<and> io_reclaim_plan out = [(''b.scope'', 20)]
        \<and> io_deferred_plan out = [] \<and> w' = w @ [Throttled ''a.scope'', Throttled ''b.scope''])
    \<and> (\<exists>e. map_of (rg_apps r') ''a.scope'' = Some e \<and> la_source e = Manual \<and> la_cpu_mem e = (''a.scope'' \<notin> set bad))
    \<and> io_result out = Installed"
proof -
  have b: "map_of (rg_baseline registry_init) ''a.scope'' = None" by (simp add: registry_init_def)
  show ?thesis
    by (simp add: install_on_def one_mb_def b busy_caps Let_def sys_phase_def cap_manual_def busy_split log_host_def share_for_def io_phase_def
        reclaim_plan_for_def List.map_filter_def manual_entry_def update_conv' split: prod.splits) auto
qed

lemma busy_selected: "selected_ids [] (usage_cgroups busy_usage) = Some [''a.scope'', ''b.scope'']"
  "auto_limited_cgroups registry_init [''a.scope'', ''b.scope''] = []" "usage_cgroups busy_usage \<noteq> []"
  by (simp_all add: selected_ids_def busy_cgroups auto_limited_cgroups_def by_any_id_def registry_init_def)


theorem manual_cap_never_tightens_witness:
  "\<exists>out r' w' p. install_on (log_host []) True 0 ''app'' ''app'' ''low'' half_mem_io False no_usage (\<lambda>p. []) ''a.scope'' []
      (registry_init\<lparr>rg_baseline := [(''a.scope'', latched_usage busy_usage None)]\<rparr>, []) = (out, r', w')
    \<and> map_of (rg_baseline r') ''a.scope'' = Some p \<and> 100 \<le> up_mem p"
proof -
  let ?r = "registry_init\<lparr>rg_baseline := [(''a.scope'', latched_usage busy_usage None)]\<rparr>"
  have b: "map_of (rg_baseline ?r) ''a.scope'' = Some (latched_usage busy_usage None)" by simp
  obtain out r' w' where i: "install_on (log_host []) True 0 ''app'' ''app'' ''low'' half_mem_io False no_usage (\<lambda>p. []) ''a.scope'' []
      (?r, []) = (out, r', w')" by (metis surj_pair)
  have "\<forall>c. lr_cpu half_mem_io = Some c \<longrightarrow> 0 \<le> c" "\<forall>c. lr_mem half_mem_io = Some c \<longrightarrow> 0 \<le> c" by (simp_all add: half_mem_io_def)
  from manual_cap_never_tightens [OF b i this] obtain p where "map_of (rg_baseline r') ''a.scope'' = Some p"
    "up_mem (latched_usage busy_usage None) \<le> up_mem p" by blast
  then show ?thesis using i by (auto simp: latched_usage_def busy_usage_def no_usage_def)
qed

type_synonym frozen_world = "string \<Rightarrow> bool"

definition frost_host :: "string list \<Rightarrow> frozen_world manual_host" where
  \<comment> \<open>its world says which cgroups are frozen; freezing or thawing those of the list fails\<close>
  "frost_host bad =
     \<lparr>lh_kernel = \<lparr>lk_relax = (\<lambda>cg c m w. (True, w)), lk_lift = (\<lambda>cg w. (cg \<notin> set bad, w)), lk_io_cap = (\<lambda>cg i d w. (True, w)),
        lk_io_lift = (\<lambda>cg d w. (True, w)), lk_total_mem = 1000\<rparr>,
      lh_cap = (\<lambda>cg c m w. (True, w)), lh_throttle = (\<lambda>cg l d w. (True, w)),
      lh_current = (\<lambda>w cg. None), lh_swapped = (\<lambda>w cg. None), lh_stressed = (\<lambda>w. []),
      lh_disks = (\<lambda>w f. f), lh_scales = PDict [], lh_media = (\<lambda>d. Hdd),
      mh_freeze = (\<lambda>cg b w. if cg \<in> set bad then (False, w) else (True, w(cg := b))), mh_reclaim = (\<lambda>cg n w. w)\<rparr>"

lemma frost_host_ok: "freeze_host_ok (frost_host bad) (\<lambda>w. w)" "limit_host_ok (frost_host bad) (\<lambda>w. w)"
  "writes_only (\<lambda>w. w) (\<lambda>c. mh_freeze (frost_host bad) c False)"
  by (simp_all add: freeze_host_ok_def limit_host_ok_def writes_only_def frost_host_def)

definition two_scopes :: "bool \<Rightarrow> bool \<Rightarrow> limited_app" where
  "two_scopes io frozen = (manual_entry 0 ''app'' ''app'' ''low'' half_mem_io True io False True [''a.scope'', ''b.scope''] [])\<lparr>la_frozen := frozen\<rparr>"

definition manual_registry :: "bool \<Rightarrow> bool \<Rightarrow> registry" where
  "manual_registry io frozen = record_manual ''a.scope'' (two_scopes io frozen) (latched_usage busy_usage None) registry_init"

lemma manual_lookup: "by_public_id ''app'' (Some Manual) (manual_registry io fz) = Some (''a.scope'', two_scopes io fz)"
  "entry_cgroups ''a.scope'' (two_scopes io fz) = [''a.scope'', ''b.scope'']" "distinct (map fst (rg_apps (manual_registry io fz)))"
  "la_frozen (two_scopes io fz) = fz" "rg_apps (manual_registry io fz) = [(''a.scope'', two_scopes io fz)]"
  "la_io (two_scopes io fz) = io" "la_cpu_mem (two_scopes io fz)"
  by (simp_all add: manual_registry_def by_public_id_def registry_init_def two_scopes_def manual_entry_def source_matches_def entry_cgroups_def)

theorem freeze_all_or_nothing_witness:
  "\<exists>w'. set_freeze (frost_host []) 5 (\<lambda>(r, w). (registry_init, w)) ''app'' True (manual_registry False False, \<lambda>c. False)
       = (RestoredMeanwhile, registry_init, w')
     \<and> \<not> w' ''a.scope'' \<and> \<not> w' ''b.scope''"
proof -
  obtain w' where s: "set_freeze (frost_host []) 5 (\<lambda>(r, w). (registry_init, w)) ''app'' True (manual_registry False False, \<lambda>c. False)
      = (RestoredMeanwhile, registry_init, w')"
    by (simp add: set_freeze_def manual_lookup) (simp add: frost_host_def by_public_id_def registry_init_def)
  have "distinct (entry_cgroups ''a.scope'' (two_scopes False False))" by (simp add: manual_lookup)
  note law = freeze_all_or_nothing [OF frost_host_ok(1) manual_lookup(1) this _ s]
  have "distinct (map fst (rg_apps registry_init))" by (simp add: registry_init_def)
  with law have "\<forall>c\<in>{''a.scope'', ''b.scope''}. thawable (frost_host []) c \<longrightarrow> \<not> w' c" by (auto simp: manual_lookup)
  then show ?thesis using s by (simp add: thawable_def) (simp add: frost_host_def)
qed

theorem manual_restore_scope_witness:
  "\<exists>r' w'. set_restore_resource (frost_host []) ''app'' (manual_registry False True, \<lambda>c. True) = (True, r', w')
     \<and> rg_apps r' = [] \<and> w' ''c.scope'' \<and> \<not> w' ''b.scope''"
proof -
  obtain r' w' where s: "set_restore_resource (frost_host []) ''app'' (manual_registry False True, \<lambda>c. True) = (True, r', w')" "\<not> w' ''b.scope''"
    by (simp add: set_restore_resource_def manual_lookup lift_if_def frost_host_def split: prod.splits)
  from manual_restore_scope [OF frost_host_ok(2,3) s(1)]
  have "rg_apps r' = [] \<and> w' ''c.scope''" by (simp add: manual_lookup)
  then show ?thesis using s by blast
qed

theorem takeover_keeps_caps_witness:
  "\<exists>r' e'. lock_to_manual 9 (\<lambda>a. True) ''app'' demo_registry = (True, r') \<and> map_of (rg_apps r') ''a.scope'' = Some e'
     \<and> la_source e' = Manual \<and> la_io e' \<and> is_excluded ''x'' ''x'' [''a.scope''] r' \<noteq> None"
proof -
  obtain r' where l: "lock_to_manual 9 (\<lambda>a. True) ''app'' demo_registry = (True, r')"
    by (simp add: lock_to_manual_def find_auto_def by_public_id_def demo_registry_def source_matches_def demo_app_def fresh_entry_def)
  from takeover_keeps_caps [OF disjI1 [OF l] demo_lookup(3)] obtain k e e' where
    t: "map_of (rg_apps demo_registry) k = Some e" "map_of (rg_apps r') k = Some e'" "la_source e' = Manual" "same_caps e e'"
    "\<forall>ca cgs name i. i \<in> set (ca # cgs) \<and> i \<noteq> [] \<and> (i = la_public_id e' \<or> i \<in> set (la_cgroups e'))
              \<longrightarrow> is_excluded ca name cgs r' \<noteq> None" by blast
  have k: "k = ''a.scope''" "e = demo_app" using t(1) by (auto simp: demo_registry_def split: if_splits)
  have "la_io e'" "la_cgroups e' = [''a.scope'']" using t(4) by (simp_all add: k same_caps_def)
  then have "is_excluded ''x'' ''x'' [''a.scope''] r' \<noteq> None"
    using t(5) [rule_format, of "''a.scope''" "''x''" "[''a.scope'']" "''x''"] by simp
  then show ?thesis using l t(2,3) k \<open>la_io e'\<close> by auto
qed

subsection \<open>Where a limit set by the user is forgotten\<close>

text \<open>When the write for the primary cgroup fails and that for another succeeds, the disk cap is written at once and the
  reclaim of the other cgroup runs under it.\<close>
lemma reclaim_under_disk_cap:
  "\<exists>r' q w'. set_resource_limit (log_host [''a.scope'']) (\<lambda>i. real i) True ''app'' ''app'' ''low'' half_mem_io False (Some busy_usage) (\<lambda>p. []) []
      (registry_init, 0, []) = (Installed, r', q, w')
    \<and> w' = [Throttled ''a.scope'', Throttled ''b.scope'', Reclaimed ''b.scope'']"
proof -
  obtain out r1 w1 where i: "install_on (log_host [''a.scope'']) True 0 ''app'' ''app'' ''low'' half_mem_io False busy_usage (\<lambda>p. []) ''a.scope'' [''b.scope'']
      (registry_init, []) = (out, r1, w1)" "io_result out = Installed" "io_reclaim_plan out = [(''b.scope'', 20)]" "io_deferred_plan out = []"
    "w1 = [Throttled ''a.scope'', Throttled ''b.scope'']"
    using busy_install [where bad="[''a.scope'']" and now=0 and app_id="''app''" and app_name="''app''" and priority="''low''"
        and force=False and leaf="\<lambda>p. []" and w="[]"] by auto
  then show ?thesis
    by (simp add: set_resource_limit_def install_resource_limit_def busy_cgroups busy_selected [unfolded busy_cgroups] log_host_def Let_def)
qed

text \<open>Limiting a frozen application again replaces its entry: the application is no longer known to be frozen, and a restore
  leaves it frozen.\<close>
lemma relimit_forgets_freeze:
  "\<exists>out r1 r2. install_on (frost_host []) True 7 ''app'' ''app'' ''low'' half_mem_io False busy_usage (\<lambda>p. []) ''a.scope'' [''b.scope'']
      (manual_registry False True, \<lambda>c. True) = (out, r1, \<lambda>c. True)
    \<and> set_restore_resource (frost_host []) ''app'' (r1, \<lambda>c. True) = (True, r2, \<lambda>c. True) \<and> rg_apps r2 = []"
proof -
  have b: "map_of (rg_baseline (manual_registry False True)) ''a.scope'' = Some (latched_usage busy_usage None)"
    by (simp add: manual_registry_def registry_init_def)
  have c: "latched_usage busy_usage (Some (latched_usage busy_usage None)) = latched_usage busy_usage None"
    by (simp add: latched_usage_def busy_usage_def no_usage_def max_usage_def usage_of_def)
  obtain out r1 where i: "install_on (frost_host []) True 7 ''app'' ''app'' ''low'' half_mem_io False busy_usage (\<lambda>p. []) ''a.scope'' [''b.scope'']
      (manual_registry False True, \<lambda>c. True) = (out, r1, \<lambda>c. True)"
    and r1: "rg_apps r1 = [(''a.scope'', manual_entry 7 ''app'' ''app'' ''low'' half_mem_io True False False True [''a.scope'', ''b.scope''] [])]"
    by (simp add: install_on_def b c busy_caps Let_def sys_phase_def cap_manual_def busy_split frost_host_def share_for_def io_phase_def
        manual_lookup busy_pids split: prod.splits)
  have f: "by_public_id ''app'' (Some Manual) r1 = Some (''a.scope'', manual_entry 7 ''app'' ''app'' ''low'' half_mem_io True False False True [''a.scope'', ''b.scope''] [])"
    using r1 by (simp add: by_public_id_def source_matches_def manual_entry_def)
  obtain r2 where "set_restore_resource (frost_host []) ''app'' (r1, \<lambda>c. True) = (True, r2, \<lambda>c. True)" "rg_apps r2 = []"
    by (simp add: set_restore_resource_def f lift_if_def frost_host_def manual_entry_def entry_cgroups_def r1)
  then show ?thesis using i by blast
qed

text \<open>A restore drops the entry before it writes: when the write fails, the limit stays in force and is on no record.\<close>
lemma failed_restore_forgets_limit:
  "\<exists>r' w'. set_restore_resource (frost_host [''a.scope'']) ''app'' (manual_registry False False, w) = (False, r', w') \<and> rg_apps r' = []"
  by (simp add: set_restore_resource_def manual_lookup lift_if_def frost_host_def split: prod.splits)

text \<open>A restore removes the first exclusion that mentions the cgroup. When the user had restored an automatic limit on the
  same cgroup before, that exemption goes and the one of the manual limit stays.\<close>
lemma restore_drops_older_exclusion:
  assumes "rg_exclusions r = [(''instance:a.scope'', \<lparr>ex_key = ''instance:a.scope'', ex_app_kind = False, ex_reason = ''user_restore'',
     ex_app_id = ''a.scope'', ex_app_name = ''proc'', ex_cgroups = [''a.scope'']\<rparr>)]" "rg_apps r = []"
  shows "\<exists>r'. set_restore_resource (frost_host []) ''app'' (record_manual ''a.scope'' (two_scopes False False) p r, w) = (True, r', w)
     \<and> map ex_reason (get_auto_limit_exclusions r') = [''manual_limit'']"
proof -
  have f: "by_public_id ''app'' (Some Manual) (record_manual ''a.scope'' (two_scopes False False) p r) = Some (''a.scope'', two_scopes False False)"
    using assms(2) by (simp add: by_public_id_def source_matches_def two_scopes_def manual_entry_def)
  have x: "rg_exclusions (record_manual ''a.scope'' (two_scopes False False) p r) = rg_exclusions r @
      [(''app:app'', \<lparr>ex_key = ''app:app'', ex_app_kind = True, ex_reason = ''manual_limit'', ex_app_id = ''app'', ex_app_name = ''app'',
         ex_cgroups = [''a.scope'', ''b.scope'']\<rparr>)]"
    using assms(1) by (simp add: record_manual_def add_exclusion_def exclusion_of_def two_scopes_def manual_entry_def exclusion_key_def
        primary_cgroup_def startswith_def)
  show ?thesis
    by (simp add: set_restore_resource_def f manual_lookup lift_if_def frost_host_def remove_exclusion_def x assms(1)
        get_auto_limit_exclusions_def)
qed

end
