(* ===== verification/Policy_Life.thy ===== *)
theory Policy_Life
  imports Manual_Limit
begin

text \<open>
  The policy tick and the takeovers as one step relation over the loop state, the registry and the host
  (\<open>balancer/balancer/balancer.py\<close>: \<open>_tick_separated_policy\<close> on the monitor thread, \<open>lock_to_manual\<close>,
  \<open>lock_all_auto_to_manual\<close> and \<open>adopt_auto_limit\<close> on the REST thread). The lemmas show what every part does to the
  limits set by the user, and in which ticks the disk cap of an automatic limit is lifted.
\<close>

subsection \<open>Owned entries\<close>

definition owned_kept :: "registry \<Rightarrow> registry \<Rightarrow> bool" where
  \<comment> \<open>every manual entry is still there, with the same identity and the same caps\<close>
  "owned_kept r r' \<longleftrightarrow> distinct (map fst (rg_apps r')) \<and>
     (\<forall>k a. map_of (rg_apps r) k = Some a \<and> la_source a = Manual \<longrightarrow>
        (\<exists>b. map_of (rg_apps r') k = Some b \<and> la_source b = Manual \<and> la_public_id b = la_public_id a \<and> same_caps a b))"

lemma same_caps_refl [simp]: "same_caps a a"
  by (simp add: same_caps_def)

lemma same_caps_trans: "same_caps a b \<Longrightarrow> same_caps b c \<Longrightarrow> same_caps a c"
  by (simp add: same_caps_def)

lemma owned_keptD:
  assumes "owned_kept r r'"
  shows "distinct (map fst (rg_apps r'))"
    "map_of (rg_apps r) k = Some a \<Longrightarrow> la_source a = Manual \<Longrightarrow>
      \<exists>b. map_of (rg_apps r') k = Some b \<and> la_source b = Manual \<and> la_public_id b = la_public_id a \<and> same_caps a b"
  using assms by (auto simp only: owned_kept_def)

lemma owned_kept_refl: "distinct (map fst (rg_apps r)) \<Longrightarrow> owned_kept r r"
  unfolding owned_kept_def by (metis same_caps_refl)

lemma owned_kept_trans:
  assumes a: "owned_kept r1 r2" and b: "owned_kept r2 r3"
  shows "owned_kept r1 r3"
  unfolding owned_kept_def
proof (intro conjI allI impI)
  show "distinct (map fst (rg_apps r3))" by (rule owned_keptD(1) [OF b])
  fix k x assume "map_of (rg_apps r1) k = Some x \<and> la_source x = Manual"
  then obtain y where y: "map_of (rg_apps r2) k = Some y" "la_source y = Manual" "la_public_id y = la_public_id x" "same_caps x y"
    using owned_keptD(2) [OF a] by blast
  obtain z where z: "map_of (rg_apps r3) k = Some z" "la_source z = Manual" "la_public_id z = la_public_id y" "same_caps y z"
    using owned_keptD(2) [OF b y(1,2)] by blast
  show "\<exists>b. map_of (rg_apps r3) k = Some b \<and> la_source b = Manual \<and> la_public_id b = la_public_id x \<and> same_caps x b"
    using y z same_caps_trans by (intro exI [of _ z]) simp
qed

lemma owned_exact:
  assumes "distinct (map fst (rg_apps r'))" "\<And>k a. map_of (rg_apps r) k = Some a \<Longrightarrow> la_source a = Manual \<Longrightarrow> map_of (rg_apps r') k = Some a"
  shows "owned_kept r r'"
  unfolding owned_kept_def using assms by (metis same_caps_refl)

lemma owned_apps: "owned_kept r r' \<Longrightarrow> rg_apps r'' = rg_apps r' \<Longrightarrow> owned_kept r r''"
  by (unfold owned_kept_def) (erule ssubst)

lemma owned_update_entry:
  assumes "distinct (map fst (rg_apps r))"
    "\<And>a. la_source (f a) = la_source a \<and> la_public_id (f a) = la_public_id a \<and> same_caps a (f a)"
  shows "owned_kept r (update_entry k f r)"
  unfolding owned_kept_def
proof (intro conjI allI impI)
  show "distinct (map fst (rg_apps (update_entry k f r)))" by (rule update_entry_distinct [OF assms(1)])
  fix j a assume "map_of (rg_apps r) j = Some a \<and> la_source a = Manual"
  then show "\<exists>b. map_of (rg_apps (update_entry k f r)) j = Some b \<and> la_source b = Manual \<and> la_public_id b = la_public_id a \<and> same_caps a b"
    using assms(2) [of a] by (cases "j = k") (auto simp: map_of_update_entry)
qed

subsection \<open>The parts of a tick\<close>

lemma restore_channel_for_distinct:
  assumes "restore_channel_for kern running k entry ch rt (r, w) = (b, r', w')" "distinct (map fst (rg_apps r))"
  shows "distinct (map fst (rg_apps r'))"
proof -
  obtain ok r1 w1 where rr: "restore_resources kern running k (la_rates entry) (ch = ChSys) (ch = ChDisk) rt (r, w) = (ok, r1, w1)"
    by (metis surj_pair)
  have d1: "distinct (map fst (rg_apps r1))"
    using restore_resources_apps(1) [OF rr] assms(2) update_entry_distinct by metis
  then show ?thesis using assms(1) unfolding restore_channel_for_def rr Let_def
    by (auto simp: delete_keys intro!: move_to_end_distinct update_entry_distinct distinct_removeAll
        split: if_splits restore_type.splits)
qed

lemma eased_manual: "eased ch rt a x \<Longrightarrow> la_source a = Manual \<Longrightarrow> x = Some a"
  by (auto simp: eased_def split: option.splits)

lemma restore_channel_owned:
  assumes "restore_channel kern running ch rt (r, w) = (b, r', w')" "distinct (map fst (rg_apps r))"
  shows "owned_kept r r'"
  using restore_channel_distinct [OF assms] eased_manual [OF restore_channel_eases [OF assms(1) _ assms(2)]] by (rule owned_exact)

lemma restore_tick_owned:
  assumes t: "tick_separated_restore kern running now pressure stressed (s, r, w) = (s', r', w')" and d: "distinct (map fst (rg_apps r))"
  shows "owned_kept r r'"
proof -
  let ?s1 = "restore_timers now pressure stressed r s"
  let ?step = "restore_step_for now pressure stressed r ?s1"
  have "r' = r \<or> (\<exists>s2. run_restore_step kern running ?step (?s1, r, w) = (s2, r', w'))"
    using t by (auto simp: tick_separated_restore_def Let_def split: if_splits prod.splits)
  then consider "r' = r" | s2 where "run_restore_step kern running ?step (?s1, r, w) = (s2, r', w')" by blast
  then show ?thesis
  proof cases
    case 1
    then show ?thesis using owned_kept_refl [OF d] by simp
  next
    case 2
    show ?thesis
    proof (cases ?step)
      case StepNone
      then show ?thesis using 2 owned_kept_refl [OF d] by simp
    next
      case (StepPartial ch)
      then obtain b where "restore_channel kern running ch Partial (r, w) = (b, r', w')" using 2 by (auto split: prod.splits)
      from restore_channel_owned [OF this d] show ?thesis .
    next
      case (StepFull p dk)
      obtain b1 r1 w1 where c1: "restore_channel kern running ChSys Full (r, w) = (b1, r1, w1)" by (metis surj_pair)
      let ?r1 = "if p then r1 else r" and ?w1 = "if p then w1 else w"
      have o1: "owned_kept r ?r1" using restore_channel_owned [OF c1 d] owned_kept_refl [OF d] by simp
      then have d1: "distinct (map fst (rg_apps ?r1))" by (rule owned_keptD(1))
      obtain b2 r2 w2 where c2: "restore_channel kern running ChDisk Full (?r1, ?w1) = (b2, r2, w2)" by (metis surj_pair)
      have "r' = (if dk then r2 else ?r1)" using 2 StepFull c1 c2 by (cases p; cases dk) auto
      then show ?thesis using owned_kept_trans [OF o1 restore_channel_owned [OF c2 d1]] o1 by simp
    qed
  qed
qed

lemma clear_io_owned:
  assumes "clear_io_cap_before_sys_limit kern running app_id (r, w) = (r', w')" "distinct (map fst (rg_apps r))"
  shows "owned_kept r r'"
proof (cases "by_any_id app_id (Some Auto) r")
  case None
  then show ?thesis using assms owned_kept_refl by (simp add: clear_io_cap_before_sys_limit_def)
next
  case (Some ke)
  obtain k e where ke: "ke = (k, e)" by fastforce
  note e = by_any_id_in [OF Some [unfolded ke]]
  have k: "map_of (rg_apps r) k = Some e" using e(1) assms(2) by simp
  show ?thesis
  proof (cases "la_io e")
    case False
    then show ?thesis using assms Some owned_kept_refl by (simp add: clear_io_cap_before_sys_limit_def ke)
  next
    case True
    then obtain b where rc: "restore_channel_for kern running k e ChDisk Full (r, w) = (b, r', w')"
      using assms(1) Some by (cases "restore_channel_for kern running k e ChDisk Full (r, w)")
        (auto simp: clear_io_cap_before_sys_limit_def ke)
    show ?thesis
    proof (rule owned_exact [OF restore_channel_for_distinct [OF rc assms(2)]])
      fix x a assume "map_of (rg_apps r) x = Some a" "la_source a = Manual"
      moreover have "la_source e = Auto" using e(2) by (simp add: source_matches_def)
      ultimately have "x \<noteq> k" using k by auto
      then show "map_of (rg_apps r') x = Some a"
        using restore_channel_for_keeps [OF rc, of x] \<open>map_of (rg_apps r) x = Some a\<close> by simp
    qed
  qed
qed

lemma upsert_distinct: "distinct (map fst (rg_apps r)) \<Longrightarrow> distinct (map fst (rg_apps (snd (upsert_auto_limited now k q r))))"
  by (auto simp: upsert_auto_limited_def distinct_update split: option.splits)

lemma halves_owned:
  assumes "halves host running ca app_id rates disk (r, w) = (oc, disks, r1, w1)" "distinct (map fst (rg_apps r))"
  shows "owned_kept r r1"
proof (cases disk)
  case True
  then show ?thesis using assms owned_kept_refl by (auto simp: halves_def split: prod.splits)
next
  case False
  obtain rc wc where c: "clear_io_cap_before_sys_limit (lh_kernel host) running app_id (r, w) = (rc, wc)" by fastforce
  have "r1 = rc" using assms(1) False c by (auto simp: halves_def apply_sys_def Let_def split: prod.splits if_splits)
  then show ?thesis using clear_io_owned [OF c assms(2)] by simp
qed

lemma apply_owned:
  assumes a: "apply_resource_limits host running now ca app_id rates controlled disk level (r, w) = (r', w')"
    and d: "distinct (map fst (rg_apps r))"
  shows "owned_kept r r'"
proof (cases "manual_cgroups r (app_id # ca_extra ca) = []")
  case False
  then show ?thesis using a owned_kept_refl [OF d] by (simp add: apply_resource_limits_def)
next
  case True
  obtain res io disks r1 w1 where hv: "halves host running ca app_id rates disk (r, w) = ((res, io), disks, r1, w1)" by (metis surj_pair)
  note o1 = halves_owned [OF hv d]
  let ?q = "request_of ca app_id rates controlled disk level res io disks"
  have r': "r' = r1 \<or> r' = snd (upsert_auto_limited now app_id ?q r1)"
    using apply_by_halves [OF hv True, of now controlled level] a by (auto split: if_splits)
  have "owned_kept r (snd (upsert_auto_limited now app_id ?q r1))"
    unfolding owned_kept_def
  proof (intro conjI allI impI)
    show "distinct (map fst (rg_apps (snd (upsert_auto_limited now app_id ?q r1))))"
      by (rule upsert_distinct [OF owned_keptD(1) [OF o1]])
    fix k m assume m: "map_of (rg_apps r) k = Some m \<and> la_source m = Manual"
    then have "k \<noteq> app_id" using manual_at_primary [OF _ _ d, of k m] True by metis
    then show "\<exists>b. map_of (rg_apps (snd (upsert_auto_limited now app_id ?q r1))) k = Some b \<and> la_source b = Manual
        \<and> la_public_id b = la_public_id m \<and> same_caps m b"
      using owned_keptD(2) [OF o1, of k m] m upsert_other [of k app_id now ?q r1] by simp
  qed
  then show ?thesis using r' o1 by auto
qed

subsection \<open>A round of reclaim\<close>

lemma gather_owned:
  assumes "gather cfg kern w now cands (r, c) = (ready, r', c')" "distinct (map fst (rg_apps r))"
  shows "owned_kept r r'"
  using assms
proof (induction cands arbitrary: r c ready)
  case Nil
  then show ?case using owned_kept_refl by simp
next
  case (Cons cand cands)
  obtain found r1 c1 where g: "gather_one cfg kern w now cand (r, c) = (found, r1, c1)" by (metis surj_pair)
  have "r1 = r \<or> (\<exists>k v. r1 = update_entry k (\<lambda>e. e\<lparr>la_last_cpu := v, la_last_cpu_at := now\<rparr>) r)"
    using g by (auto simp: gather_one_def Let_def split: if_splits prod.splits)
  then have o1: "owned_kept r r1"
    using owned_kept_refl [OF Cons.prems(2)] owned_update_entry [OF Cons.prems(2)] by (auto simp: same_caps_def)
  obtain ready2 where "gather cfg kern w now cands (r1, c1) = (ready2, r', c')"
    using Cons.prems(1) g by (auto split: prod.splits)
  from Cons.IH [OF this owned_keptD(1) [OF o1]] show ?case by (rule owned_kept_trans [OF o1])
qed

lemma submit_owned:
  assumes "submit_all now wall ready share (r, quiet) = (subs, r', quiet')" "distinct (map fst (rg_apps r))"
  shows "owned_kept r r'"
  using assms
proof (induction ready arbitrary: r quiet subs)
  case Nil
  then show ?case using owned_kept_refl by simp
next
  case (Cons x ready)
  obtain k cg n where x: "x = (k, cg, n)" by (metis surj_pair)
  show ?case
  proof (cases "share k \<le> 0")
    case True
    then show ?thesis using Cons by (simp add: x)
  next
    case False
    let ?r1 = "update_entry k (\<lambda>e. e\<lparr>la_inflight := True, la_last_reclaim := now\<rparr>) r"
    have o1: "owned_kept r ?r1" by (rule owned_update_entry [OF Cons.prems(2)]) (simp add: same_caps_def)
    obtain subs2 where "submit_all now wall ready share (?r1, mark_reclaim_noise wall) = (subs2, r', quiet')"
      using Cons.prems(1) False by (auto simp: x split: prod.splits)
    from Cons.IH [OF this owned_keptD(1) [OF o1]] show ?thesis by (rule owned_kept_trans [OF o1])
  qed
qed

lemma reclaim_tick_owned:
  assumes "tick_memory_reclaim f kern w now wall (r, c, quiet) = (subs, r', c', quiet')" "distinct (map fst (rg_apps r))"
  shows "owned_kept r r'"
proof -
  obtain ready r1 c1 where g: "gather (rf_cfg f) kern w now (reclaim_candidates r) (r, c) = (ready, r1, c1)" by (metis surj_pair)
  note o1 = gather_owned [OF g assms(2)]
  have d1: "distinct (map fst (rg_apps r1))" by (rule owned_keptD(1) [OF o1])
  have "r' = r \<or> r' = r1 \<or> (\<exists>share s. submit_all now wall ready share (r1, quiet) = (s, r', quiet'))"
    using assms(1) g by (auto simp: tick_memory_reclaim_def Let_def split: if_splits prod.splits)
  then show ?thesis using owned_kept_refl [OF assms(2)] o1 owned_kept_trans [OF o1 submit_owned [OF _ d1]] by blast
qed

definition reclaim_step ::
  "reclaim_facts \<Rightarrow> 'w mem_kernel \<Rightarrow> real \<Rightarrow> real \<Rightarrow> ('w \<Rightarrow> mem_ctl \<times> real) \<Rightarrow> (mem_ctl \<times> real \<Rightarrow> 'w \<Rightarrow> 'w)
     \<Rightarrow> registry \<times> 'w \<Rightarrow> registry \<times> 'w" where
  \<comment> \<open>\<open>_tick_memory_reclaim\<close> as the CPU/memory arm calls it: the controller and the quiet window are part of the host\<close>
  "reclaim_step f kern now wall sel put st =
     (case st of (r, w) \<Rightarrow>
      case tick_memory_reclaim f kern w now wall (r, sel w) of (subs, r', cq) \<Rightarrow> (r', put cq w))"

definition reclaim_law :: "'w policy_env \<Rightarrow> bool" where
  \<comment> \<open>the reclaim of the environment keeps what the user owns\<close>
  "reclaim_law env \<longleftrightarrow> (\<forall>r w. distinct (map fst (rg_apps r)) \<longrightarrow> owned_kept r (fst (pe_reclaim env (r, w))))"

lemma reclaim_step_law: "pe_reclaim env = reclaim_step f kern now wall sel put \<Longrightarrow> reclaim_law env"
  unfolding reclaim_law_def
proof (intro allI impI)
  fix r :: registry and w assume e: "pe_reclaim env = reclaim_step f kern now wall sel put" and d: "distinct (map fst (rg_apps r))"
  obtain subs r' c' q' where t: "tick_memory_reclaim f kern w now wall (r, fst (sel w), snd (sel w)) = (subs, r', c', q')"
    by (metis surj_pair)
  from reclaim_tick_owned [OF t d] t show "owned_kept r (fst (pe_reclaim env (r, w)))" by (simp add: e reclaim_step_def)
qed

subsection \<open>The tick\<close>

lemma sys_arm_owned:
  assumes l: "reclaim_law env" and a: "policy_sys_arm env running now batch reach (r, w) = (r', w')" and d: "distinct (map fst (rg_apps r))"
  shows "owned_kept r r'"
proof -
  obtain r1 w1 where r1: "(case handle_critical_pressure (pe_control env) (pe_busy env w) reach batch of
           None \<Rightarrow> (r, w)
         | Some (controlled, app_id, rates, ca) \<Rightarrow>
             if \<not> target_has_auto_cpu_mem_limit r ca app_id \<and> reach \<and> app_id \<noteq> [] \<and> present env w ca app_id
             then apply_resource_limits (pe_host env) running now ca app_id rates controlled False ''critical'' (r, w)
             else (r, w)) = (r1, w1)" by fastforce
  have o1: "owned_kept r r1"
  proof (cases "handle_critical_pressure (pe_control env) (pe_busy env w) reach batch")
    case None
    then show ?thesis using r1 owned_kept_refl [OF d] by simp
  next
    case (Some x)
    obtain controlled app_id rates ca where x: "x = (controlled, app_id, rates, ca)" by (metis surj_pair)
    show ?thesis
    proof (cases "\<not> target_has_auto_cpu_mem_limit r ca app_id \<and> reach \<and> app_id \<noteq> [] \<and> present env w ca app_id")
      case True
      then have "apply_resource_limits (pe_host env) running now ca app_id rates controlled False ''critical'' (r, w) = (r1, w1)"
        using r1 Some x by simp
      from apply_owned [OF this d] show ?thesis .
    next
      case False
      then have "r1 = r" using r1 Some x by auto
      then show ?thesis using owned_kept_refl [OF d] by simp
    qed
  qed
  have "pe_reclaim env (r1, w1) = (r', w')" using a r1 by (simp only: policy_sys_arm_def prod.case)
  then have "owned_kept r1 r'" using l owned_keptD(1) [OF o1] unfolding reclaim_law_def by (metis fst_conv)
  from owned_kept_trans [OF o1 this] show ?thesis .
qed

lemma disk_apply_owned:
  assumes "policy_disk_apply env running now c ca (r, w) = (r', w')" "distinct (map fst (rg_apps r))"
  shows "owned_kept r r'"
proof -
  have "r' = r \<or> (\<exists>ca1 rates ctl. apply_resource_limits (pe_host env) running now ca1 (dc_app_id c) rates ctl True ''critical'' (r, w) = (r', w'))"
    using assms(1) by (auto simp: policy_disk_apply_def Let_def split: if_splits)
  then show ?thesis
    by (elim disjE exE) (simp add: owned_kept_refl [OF assms(2)], erule apply_owned [OF _ assms(2)])
qed

lemma disk_arm_owned:
  assumes "disk_arm (tick_env_of env running now) lvl (s, r, w) = (s', r', w')" "distinct (map fst (rg_apps r))"
  shows "owned_kept r r'"
proof -
  have "r' = r \<or> (\<exists>c ca. policy_disk_apply env running now c ca (r, w) = (r', w'))"
    using assms(1) by (auto simp: disk_arm_def tick_env_of_def split: option.splits if_splits prod.splits)
  then show ?thesis
    by (elim disjE exE) (simp add: owned_kept_refl [OF assms(2)], erule disk_apply_owned [OF _ assms(2)])
qed

lemma policy_tick_owned:
  assumes l: "reclaim_law env" and t: "policy_tick env path_of running now pressure disk passive (s, r, w) = (s', r', w')"
    and d: "distinct (map fst (rg_apps r))"
  shows "owned_kept r r'"
proof -
  let ?te = "tick_env_of env running now"
  obtain s1 r1 w1 where t1: "tick_separated_policy ?te now pressure disk passive (s, r, w) = (s1, r1, w1)" by (metis surj_pair)
  have same: "rg_apps r' = rg_apps r1" using t t1 by (auto simp: policy_tick_def Let_def split: if_splits)
  consider (kept) "r1 = r" | (sys) s5 where "sys_arm ?te (s5, r, w) = (s1, r1, w1)"
    | (disk) s5 where "disk_arm ?te disk (s5, r, w) = (s1, r1, w1)"
    | (calm) "tick_separated_restore (te_kernel ?te) (te_running ?te) now pressure (disk = High \<or> disk = Critical) (s, r, w) = (s1, r1, w1)"
    using t1 by (auto simp: tick_separated_policy_def Let_def split: if_splits)
  then have "owned_kept r r1"
  proof cases
    case kept
    then show ?thesis using owned_kept_refl [OF d] by simp
  next
    case sys
    then obtain w2 where "policy_sys_arm env running now (ml_batch s5) (ml_reach s5) (r, w) = (r1, w2)"
      by (auto simp: sys_arm_def tick_env_of_def split: prod.splits)
    from sys_arm_owned [OF l this d] show ?thesis .
  next
    case disk
    from disk_arm_owned [OF this d] show ?thesis .
  next
    case calm
    from restore_tick_owned [OF this d] show ?thesis .
  qed
  then show ?thesis using same by (rule owned_apps)
qed

subsection \<open>Takeovers\<close>

lemma put_manual_owned:
  assumes "(k, e) \<in> set (rg_apps r)" "la_source e = Auto" "distinct (map fst (rg_apps r))"
  shows "owned_kept r (put_manual k e1 r)"
proof (rule owned_exact)
  show "distinct (map fst (rg_apps (put_manual k e1 r)))" using assms(3) by (simp add: distinct_update)
  fix j a assume a: "map_of (rg_apps r) j = Some a" "la_source a = Manual"
  have "map_of (rg_apps r) k = Some e" using assms(1,3) by simp
  then have "j \<noteq> k" using a assms(2) by auto
  then show "map_of (rg_apps (put_manual k e1 r)) j = Some a" using a(1) by (simp add: update_conv)
qed

lemma lock_owned:
  assumes "lock_to_manual now controlled_now app_id r = (ok, r')" "distinct (map fst (rg_apps r))"
  shows "owned_kept r r'"
proof (cases "find_auto app_id r")
  case None
  then show ?thesis using assms owned_kept_refl by (simp add: lock_to_manual_def)
next
  case (Some ke)
  obtain k e where ke: "ke = (k, e)" by fastforce
  have "r' = r \<or> (\<exists>e1. r' = put_manual k e1 r)" using assms(1) Some by (auto simp: lock_to_manual_def ke split: if_splits)
  then show ?thesis
    using owned_kept_refl [OF assms(2)] put_manual_owned [OF find_auto_in [OF Some [unfolded ke]] assms(2)] by auto
qed

lemma lock_each_owned:
  assumes "lock_each clock controlled_now i ids (n, r) = (m, r')" "distinct (map fst (rg_apps r))"
  shows "owned_kept r r'"
  using assms
proof (induction ids arbitrary: i n r)
  case Nil
  then show ?case using owned_kept_refl by simp
next
  case (Cons a ids)
  obtain ok r1 where l: "lock_to_manual (clock i) controlled_now a r = (ok, r1)" by fastforce
  note o1 = lock_owned [OF l Cons.prems(2)]
  have "lock_each clock controlled_now (i + 1) ids (if ok then n + 1 else n, r1) = (m, r')" using Cons.prems(1) l by simp
  from Cons.IH [OF this owned_keptD(1) [OF o1]] show ?case by (rule owned_kept_trans [OF o1])
qed

lemma lock_all_owned:
  assumes "lock_all_auto_to_manual clock controlled_now r = (n, r')" "distinct (map fst (rg_apps r))"
  shows "owned_kept r r'"
proof -
  obtain ids m r1 where l: "lock_each clock controlled_now 0 ids (0, r) = (m, r1)" and "rg_apps r' = rg_apps r1"
    using assms(1) by (auto simp: lock_all_auto_to_manual_def Let_def split: prod.splits if_splits)
  then show ?thesis using owned_apps [OF lock_each_owned [OF l assms(2)]] by simp
qed

lemma adopt_owned:
  assumes "adopt_auto_limit now eff new_id new_name priority r = (ok, r')" "distinct (map fst (rg_apps r))"
  shows "owned_kept r r'"
proof -
  let ?f = "case map_of (rg_apps r) eff of Some e \<Rightarrow> Some (eff, e) | None \<Rightarrow> by_any_id eff (Some Auto) r"
  show ?thesis
  proof (cases ?f)
    case None
    then show ?thesis using assms owned_kept_refl by (simp add: adopt_auto_limit_def)
  next
    case (Some ke)
    obtain k e where ke: "ke = (k, e)" by fastforce
    have e: "(k, e) \<in> set (rg_apps r)" using Some ke by (auto split: option.splits dest: map_of_SomeD by_any_id_in)
    have "r' = r \<or> (la_source e = Auto \<and> (\<exists>e1. r' = put_manual k e1 r))"
      using assms(1) unfolding adopt_auto_limit_def Some ke by (cases "la_source e") auto
    then show ?thesis using owned_kept_refl [OF assms(2)] put_manual_owned [OF e _ assms(2)] by auto
  qed
qed

subsection \<open>Runs\<close>

inductive life_step :: "mloop \<times> registry \<times> 'w \<Rightarrow> mloop \<times> registry \<times> 'w \<Rightarrow> bool" where
  tick: "reclaim_law env \<Longrightarrow> policy_tick env path_of running now pressure disk passive (s, r, w) = (s', r', w')
    \<Longrightarrow> life_step (s, r, w) (s', r', w')"
| lock: "lock_to_manual now controlled_now app_id r = (ok, r') \<Longrightarrow> life_step (s, r, w) (s, r', w)"
| lock_all: "lock_all_auto_to_manual clock controlled_now r = (n, r') \<Longrightarrow> life_step (s, r, w) (s, r', w)"
| adopt: "adopt_auto_limit now eff new_id new_name priority r = (ok, r') \<Longrightarrow> life_step (s, r, w) (s, r', w)"

inductive_cases life_step_cases: "life_step (s, r, w) (s', r', w')"

lemma life_step_owned:
  assumes "life_step (s, r, w) (s', r', w')" "distinct (map fst (rg_apps r))"
  shows "owned_kept r r'"
  using assms(1)
proof (rule life_step_cases)
  fix env path_of running now pressure dk pas
  assume "reclaim_law env" "policy_tick env path_of running now pressure dk pas (s, r, w) = (s', r', w')"
  from policy_tick_owned [OF this assms(2)] show ?thesis .
qed (elim lock_owned [OF _ assms(2)] lock_all_owned [OF _ assms(2)] adopt_owned [OF _ assms(2)])+

lemmas rtranclp_induct3 = rtranclp_induct [of _ "(ax, ay, az)" "(bx, by, bz)", split_rule, consumes 1, case_names refl step]

subsection \<open>Properties\<close>

text \<open>C21: a limit the user owns survives the pressure loop. Through any run of policy ticks, at whatever pressure, and of
  takeovers, an entry that is manual stays in the registry under its key, manual, with the same identity and the same
  caps on the same cgroups.\<close>
theorem manual_limit_survives_policy:
  assumes run: "life_step\<^sup>*\<^sup>* (s, r, w) (s', r', w')" and d: "distinct (map fst (rg_apps r))"
    and e: "map_of (rg_apps r) k = Some e" "la_source e = Manual"
  shows "\<exists>b. map_of (rg_apps r') k = Some b \<and> la_source b = Manual \<and> la_public_id b = la_public_id e \<and> same_caps e b"
proof -
  have "owned_kept r r'"
    using run
  proof (induction rule: rtranclp_induct3)
    case refl
    then show ?case by (rule owned_kept_refl [OF d])
  next
    case (step s1 r1 w1 s2 r2 w2)
    from life_step_owned [OF step(2) owned_keptD(1) [OF step(3)]] show ?case by (rule owned_kept_trans [OF step(3)])
  qed
  from owned_keptD(2) [OF this e] show ?thesis .
qed

definition idle_env :: "demo_world policy_env" where
  "idle_env = \<lparr>pe_host = demo_host [], pe_control = \<lparr>ce_control = (\<lambda>i n. (False, None)), ce_usage = (\<lambda>i n. None), ce_rates = (\<lambda>p. no_rates)\<rparr>,
     pe_proc = (\<lambda>w p. ProcMissing), pe_cgroup_exists = (\<lambda>w c. False), pe_busy = (\<lambda>w. False), pe_reclaim = (\<lambda>st. st),
     pe_quiet = (\<lambda>w. False), pe_floors = floor_default, pe_fetch = (\<lambda>c. ([], False)), pe_stale = False, pe_drain = (\<lambda>w. w),
     pe_pending = (\<lambda>w. False)\<rparr>"

lemma idle_env_law: "reclaim_law idle_env"
  unfolding reclaim_law_def idle_env_def by (simp add: owned_kept_refl)

definition mixed_registry :: registry where
  "mixed_registry = demo_registry\<lparr>rg_apps := [(''a.scope'', demo_app), (''m.scope'', two_scopes True False)]\<rparr>"

theorem manual_limit_survives_policy_witness:
  "\<exists>r' b. lock_to_manual 9 (\<lambda>a. True) ''app'' mixed_registry = (True, r') \<and> map_of (rg_apps r') ''m.scope'' = Some b
     \<and> la_source b = Manual \<and> la_io b"
proof -
  obtain r' where l: "lock_to_manual 9 (\<lambda>a. True) ''app'' mixed_registry = (True, r')" and none: "first_auto r' = None"
    by (simp add: lock_to_manual_def find_auto_def by_public_id_def mixed_registry_def demo_registry_def source_matches_def demo_app_def
        fresh_entry_def put_manual_def add_exclusion_def taken_over_def first_auto_def two_scopes_def manual_entry_def)
  have t: "policy_tick idle_env (\<lambda>p. None) True 9 Low Low False (mloop_init, r', open_world) = (mloop_init, r', open_world)"
    by (simp add: policy_tick_def tick_separated_policy_def pressed_def tick_env_of_def idle_env_def tick_separated_restore_def none Let_def)
  have s1: "life_step (mloop_init, mixed_registry, open_world) (mloop_init, r', open_world)" by (rule life_step.lock [OF l])
  have s2: "life_step (mloop_init, r', open_world) (mloop_init, r', open_world)" by (rule life_step.tick [OF idle_env_law t])
  have run: "life_step\<^sup>*\<^sup>* (mloop_init, mixed_registry, open_world) (mloop_init, r', open_world)"
    using s1 s2 by (meson r_into_rtranclp rtranclp_trans)
  have "distinct (map fst (rg_apps mixed_registry))" "map_of (rg_apps mixed_registry) ''m.scope'' = Some (two_scopes True False)"
    "la_source (two_scopes True False) = Manual"
    by (simp_all add: mixed_registry_def two_scopes_def manual_entry_def)
  from manual_limit_survives_policy [OF run this] obtain b where
    "map_of (rg_apps r') ''m.scope'' = Some b" "la_source b = Manual" "same_caps (two_scopes True False) b" by blast
  then show ?thesis using l by (auto simp: same_caps_def manual_lookup)
qed

subsection \<open>Disk caps through every arm of the tick\<close>

definition entries_kept :: "registry \<Rightarrow> registry \<Rightarrow> bool" where
  \<comment> \<open>every entry is still there with the same caps\<close>
  "entries_kept r r' \<longleftrightarrow> (\<forall>k a. map_of (rg_apps r) k = Some a \<longrightarrow> (\<exists>b. map_of (rg_apps r') k = Some b \<and> same_caps a b))"

lemma entries_kept_refl: "entries_kept r r"
  unfolding entries_kept_def by (metis same_caps_refl)

lemma entries_kept_trans: "entries_kept r1 r2 \<Longrightarrow> entries_kept r2 r3 \<Longrightarrow> entries_kept r1 r3"
  unfolding entries_kept_def by (metis same_caps_trans)

lemma entries_kept_update:
  assumes "\<And>a. same_caps a (f a)"
  shows "entries_kept r (update_entry k f r)"
  unfolding entries_kept_def
proof (intro allI impI)
  fix j a assume "map_of (rg_apps r) j = Some a"
  then show "\<exists>b. map_of (rg_apps (update_entry k f r)) j = Some b \<and> same_caps a b"
    using assms [of a] by (cases "j = k") (auto simp: map_of_update_entry)
qed

lemma gather_entries:
  assumes "gather cfg kern w now cands (r, c) = (ready, r', c')"
  shows "entries_kept r r'"
  using assms
proof (induction cands arbitrary: r c ready)
  case Nil
  then show ?case using entries_kept_refl by simp
next
  case (Cons cand cands)
  obtain found r1 c1 where g: "gather_one cfg kern w now cand (r, c) = (found, r1, c1)" by (metis surj_pair)
  have "r1 = r \<or> (\<exists>k v. r1 = update_entry k (\<lambda>e. e\<lparr>la_last_cpu := v, la_last_cpu_at := now\<rparr>) r)"
    using g by (auto simp: gather_one_def Let_def split: if_splits prod.splits)
  then have e: "entries_kept r r1" using entries_kept_refl entries_kept_update by (auto simp: same_caps_def)
  obtain ready2 where "gather cfg kern w now cands (r1, c1) = (ready2, r', c')"
    using Cons.prems(1) g by (auto split: prod.splits)
  from entries_kept_trans [OF e Cons.IH [OF this]] show ?case .
qed

lemma submit_entries:
  assumes "submit_all now wall ready share (r, quiet) = (subs, r', quiet')"
  shows "entries_kept r r'"
  using assms
proof (induction ready arbitrary: r quiet subs)
  case Nil
  then show ?case using entries_kept_refl by simp
next
  case (Cons x ready)
  obtain k cg n where x: "x = (k, cg, n)" by (metis surj_pair)
  show ?case
  proof (cases "share k \<le> 0")
    case True
    then show ?thesis using Cons by (simp add: x)
  next
    case False
    let ?r1 = "update_entry k (\<lambda>e. e\<lparr>la_inflight := True, la_last_reclaim := now\<rparr>) r"
    have e: "entries_kept r ?r1" by (rule entries_kept_update) (simp add: same_caps_def)
    obtain subs2 where "submit_all now wall ready share (?r1, mark_reclaim_noise wall) = (subs2, r', quiet')"
      using Cons.prems(1) False by (auto simp: x split: prod.splits)
    from entries_kept_trans [OF e Cons.IH [OF this]] show ?thesis .
  qed
qed

lemma reclaim_tick_entries:
  assumes "tick_memory_reclaim f kern w now wall (r, c, quiet) = (subs, r', c', quiet')"
  shows "entries_kept r r'"
proof -
  obtain ready r1 c1 where g: "gather (rf_cfg f) kern w now (reclaim_candidates r) (r, c) = (ready, r1, c1)" by (metis surj_pair)
  have "r' = r \<or> r' = r1 \<or> (\<exists>share s. submit_all now wall ready share (r1, quiet) = (s, r', quiet'))"
    using assms(1) g by (auto simp: tick_memory_reclaim_def Let_def split: if_splits prod.splits)
  then show ?thesis using entries_kept_refl gather_entries [OF g] entries_kept_trans [OF gather_entries [OF g] submit_entries] by blast
qed

definition caps_law :: "'w policy_env \<Rightarrow> bool" where
  \<comment> \<open>the reclaim of the environment drops no entry and no cap\<close>
  "caps_law env \<longleftrightarrow> (\<forall>r w. entries_kept r (fst (pe_reclaim env (r, w))))"

lemma reclaim_step_caps: "pe_reclaim env = reclaim_step f kern now wall sel put \<Longrightarrow> caps_law env"
  unfolding caps_law_def
proof (intro allI)
  fix r :: registry and w assume e: "pe_reclaim env = reclaim_step f kern now wall sel put"
  obtain subs r' c' q' where t: "tick_memory_reclaim f kern w now wall (r, fst (sel w), snd (sel w)) = (subs, r', c', q')"
    by (metis surj_pair)
  from reclaim_tick_entries [OF t] t show "entries_kept r (fst (pe_reclaim env (r, w)))" by (simp add: e reclaim_step_def)
qed

lemma entries_kept_io:
  assumes e: "entries_kept r r'" and k: "keeps la_io (map_of (rg_apps r) k)"
  shows "keeps la_io (map_of (rg_apps r') k)"
proof -
  obtain a where a: "map_of (rg_apps r) k = Some a" "la_io a" using k by (auto simp: keeps_def split: option.splits)
  obtain b where "map_of (rg_apps r') k = Some b" "same_caps a b" using e a(1) unfolding entries_kept_def by blast
  then show ?thesis using a(2) by (simp add: keeps_def same_caps_def)
qed

lemma upsert_keeps_io:
  assumes "map_of (rg_apps r) k = Some a" "la_io a" "k = key \<Longrightarrow> la_source a = Auto"
  shows "keeps la_io (map_of (rg_apps (snd (upsert_auto_limited now key q r))) k)"
proof (cases "k = key")
  case True
  then show ?thesis using assms
    by (simp add: upsert_auto_limited_def update_conv keeps_def merged_entry_def fresh_entry_def Let_def)
next
  case False
  then show ?thesis using assms upsert_other [OF False] by (simp add: keeps_def)
qed

lemma clear_io_only:
  assumes c: "clear_io_cap_before_sys_limit kern running app_id (r, w) = (r', w')" and d: "distinct (map fst (rg_apps r))"
    and o: "map_of (rg_apps r) k = Some a" "map_of (rg_apps r') k \<noteq> Some a"
  shows "by_any_id app_id (Some Auto) r = Some (k, a)"
proof (cases "by_any_id app_id (Some Auto) r")
  case None
  then show ?thesis using c o by (simp add: clear_io_cap_before_sys_limit_def)
next
  case (Some ke)
  obtain k1 e where ke: "ke = (k1, e)" by fastforce
  have k1: "map_of (rg_apps r) k1 = Some e" using by_any_id_in(1) [OF Some [unfolded ke]] d by simp
  show ?thesis
  proof (cases "la_io e")
    case False
    then show ?thesis using c o Some by (simp add: clear_io_cap_before_sys_limit_def ke)
  next
    case True
    then obtain b where rc: "restore_channel_for kern running k1 e ChDisk Full (r, w) = (b, r', w')"
      using c Some by (cases "restore_channel_for kern running k1 e ChDisk Full (r, w)")
        (auto simp: clear_io_cap_before_sys_limit_def ke)
    have "k = k1" using restore_channel_for_keeps [OF rc, of k] o by auto
    then show ?thesis using Some ke k1 o(1) by simp
  qed
qed

lemma apply_lifts_only:
  assumes ap: "apply_resource_limits host running now ca app_id rates controlled disk level (r, w) = (r', w')"
    and d: "distinct (map fst (rg_apps r))"
    and o: "map_of (rg_apps r) k = Some a" "la_io a" "\<not> keeps la_io (map_of (rg_apps r') k)"
  shows "\<not> disk \<and> by_any_id app_id (Some Auto) r = Some (k, a)"
proof (rule ccontr)
  assume n: "\<not> (\<not> disk \<and> by_any_id app_id (Some Auto) r = Some (k, a))"
  show False
  proof (cases "manual_cgroups r (app_id # ca_extra ca) = []")
    case False
    then show False using ap o by (simp add: apply_resource_limits_def keeps_def)
  next
    case True
    obtain res io disks r1 w1 where hv: "halves host running ca app_id rates disk (r, w) = ((res, io), disks, r1, w1)" by (metis surj_pair)
    have k1: "map_of (rg_apps r1) k = Some a"
    proof (cases disk)
      case True
      then show ?thesis using hv o(1) by (auto simp: halves_def split: prod.splits)
    next
      case False
      obtain rc wc where c: "clear_io_cap_before_sys_limit (lh_kernel host) running app_id (r, w) = (rc, wc)" by fastforce
      have "r1 = rc" using hv False c by (auto simp: halves_def apply_sys_def Let_def split: prod.splits if_splits)
      then show ?thesis using clear_io_only [OF c d o(1)] n False by blast
    qed
    have auto: "la_source a = Auto" if "k = app_id"
      using manual_at_primary [OF _ _ d, of k a "ca_extra ca"] o(1) True that by (cases "la_source a") auto
    let ?q = "request_of ca app_id rates controlled disk level res io disks"
    have "r' = r1 \<or> r' = snd (upsert_auto_limited now app_id ?q r1)"
      using apply_by_halves [OF hv True, of now controlled level] ap by (auto split: if_splits)
    moreover have "keeps la_io (map_of (rg_apps (snd (upsert_auto_limited now app_id ?q r1))) k)"
      by (rule upsert_keeps_io [OF k1 o(2) auto])
    ultimately show False using o(2,3) k1 by (auto simp: keeps_def)
  qed
qed

definition batch_for :: "'w policy_env \<Rightarrow> bool \<Rightarrow> real \<Rightarrow> registry \<Rightarrow> mloop \<Rightarrow> mloop" where
  \<comment> \<open>the loop state with the candidates a critical tick works on\<close>
  "batch_for env running now r s = pressed_state (tick_env_of env running now) now ChSys r s"

definition yields_to_cpu_mem :: "'w policy_env \<Rightarrow> mloop \<Rightarrow> 'w \<Rightarrow> string \<Rightarrow> limited_app \<Rightarrow> bool" where
  \<comment> \<open>the entry belongs to the application that the CPU/memory arm limits in this tick\<close>
  "yields_to_cpu_mem env s5 w k a \<longleftrightarrow>
     (\<exists>controlled app_id rates ca.
        handle_critical_pressure (pe_control env) (pe_busy env w) (ml_reach s5) (ml_batch s5) = Some (controlled, app_id, rates, ca)
      \<and> (app_id = k \<or> app_id = la_public_id a \<or> app_id \<in> set (la_cgroups a))
      \<and> ml_reach s5 \<and> app_id \<noteq> [] \<and> present env w ca app_id)"

lemma sys_arm_yields:
  assumes l: "caps_law env" and t: "policy_sys_arm env running now (ml_batch s5) (ml_reach s5) (r, w) = (r', w')"
    and d: "distinct (map fst (rg_apps r))"
    and o: "map_of (rg_apps r) k = Some a" "la_io a" "\<not> keeps la_io (map_of (rg_apps r') k)"
  shows "la_source a = Auto \<and> \<not> la_cpu_mem a \<and> yields_to_cpu_mem env s5 w k a"
proof -
  obtain r1 w1 where r1: "(case handle_critical_pressure (pe_control env) (pe_busy env w) (ml_reach s5) (ml_batch s5) of
           None \<Rightarrow> (r, w)
         | Some (controlled, app_id, rates, ca) \<Rightarrow>
             if \<not> target_has_auto_cpu_mem_limit r ca app_id \<and> ml_reach s5 \<and> app_id \<noteq> [] \<and> present env w ca app_id
             then apply_resource_limits (pe_host env) running now ca app_id rates controlled False ''critical'' (r, w)
             else (r, w)) = (r1, w1)" by fastforce
  have "pe_reclaim env (r1, w1) = (r', w')" using t r1 by (simp only: policy_sys_arm_def prod.case)
  then have "entries_kept r1 r'" using l unfolding caps_law_def by (metis fst_conv)
  then have k1: "\<not> keeps la_io (map_of (rg_apps r1) k)" using entries_kept_io o(3) by blast
  have ne: "r1 \<noteq> r" using k1 o(1,2) by (auto simp: keeps_def)
  obtain controlled app_id rates ca where
    h: "handle_critical_pressure (pe_control env) (pe_busy env w) (ml_reach s5) (ml_batch s5) = Some (controlled, app_id, rates, ca)"
    using r1 ne by (cases "handle_critical_pressure (pe_control env) (pe_busy env w) (ml_reach s5) (ml_batch s5)") auto
  have g: "\<not> target_has_auto_cpu_mem_limit r ca app_id" "ml_reach s5" "app_id \<noteq> []" "present env w ca app_id"
    and ap: "apply_resource_limits (pe_host env) running now ca app_id rates controlled False ''critical'' (r, w) = (r1, w1)"
    using r1 ne h by (auto split: if_splits)
  have f: "by_any_id app_id (Some Auto) r = Some (k, a)" using apply_lifts_only [OF ap d o(1,2) k1] by blast
  have "\<not> la_cpu_mem a" using g(1,3) f by (auto simp: target_has_auto_cpu_mem_limit_def target_ids_def)
  moreover have "la_source a = Auto" "app_id = k \<or> app_id = la_public_id a \<or> app_id \<in> set (la_cgroups a)"
    using by_any_id_in [OF f] by (simp_all add: source_matches_def)
  ultimately show ?thesis using h g unfolding yields_to_cpu_mem_def by blast
qed

lemma disk_arm_lifts_nothing:
  assumes t: "disk_arm (tick_env_of env running now) lvl (s, r, w) = (s', r', w')" and d: "distinct (map fst (rg_apps r))"
    and o: "map_of (rg_apps r) k = Some a" "la_io a"
  shows "keeps la_io (map_of (rg_apps r') k)"
proof -
  have "r' = r \<or> (\<exists>c ca. policy_disk_apply env running now c ca (r, w) = (r', w'))"
    using t by (auto simp: disk_arm_def tick_env_of_def split: option.splits if_splits prod.splits)
  then have "r' = r \<or> (\<exists>ca app_id rates ctl. apply_resource_limits (pe_host env) running now ca app_id rates ctl True ''critical'' (r, w) = (r', w'))"
    by (auto simp: policy_disk_apply_def Let_def split: if_splits)
  then show ?thesis
  proof (elim disjE exE)
    assume "r' = r"
    then show ?thesis using o by (simp add: keeps_def)
  next
    fix ca app_id rates ctl
    assume "apply_resource_limits (pe_host env) running now ca app_id rates ctl True ''critical'' (r, w) = (r', w')"
    from apply_lifts_only [OF this d o] show ?thesis by blast
  qed
qed

lemma calm_manual_kept:
  assumes "tick_separated_restore kern running now p stressed (s, r, w) = (s', r', w')" "distinct (map fst (rg_apps r))"
    and "map_of (rg_apps r) k = Some a" "la_io a" "\<not> keeps la_io (map_of (rg_apps r') k)"
  shows "la_source a = Auto"
proof (rule ccontr)
  assume "la_source a \<noteq> Auto"
  then have m: "la_source a = Manual" by (cases "la_source a") auto
  obtain b where "map_of (rg_apps r') k = Some b" "same_caps a b"
    using owned_keptD(2) [OF restore_tick_owned [OF assms(1,2)] assms(3) m] by blast
  then show False using assms(4,5) by (simp add: keeps_def same_caps_def)
qed

lemma tick_lift_cases:
  assumes l: "caps_law env" and t: "tick_separated_policy (tick_env_of env running now) now p d True (s, r, w) = (s', r', w')"
    and ds: "distinct (map fst (rg_apps r))"
    and o: "map_of (rg_apps r) k = Some a" "la_io a" "\<not> keeps la_io (map_of (rg_apps r') k)"
  shows "la_source a = Auto \<and>
    ((p \<noteq> Critical \<and> \<not> stressed_level d \<and> (\<exists>t. ml_disk_start s = Some t \<and> now - t \<ge> stable_disk_io_period * 2))
     \<or> (p = Critical \<and> \<not> la_cpu_mem a \<and> yields_to_cpu_mem env (batch_for env running now r s) w k a))"
proof -
  let ?te = "tick_env_of env running now"
  have ne: "r' \<noteq> r" using o by (auto simp: keeps_def)
  consider (sys) "p = Critical" "sys_arm ?te (batch_for env running now r s, r, w) = (s', r', w')"
    | (disk) s5 where "disk_arm ?te d (s5, r, w) = (s', r', w')"
    | (calm) "p \<noteq> Critical" "\<not> stressed_level d"
        "tick_separated_restore (te_kernel ?te) (te_running ?te) now p False (s, r, w) = (s', r', w')"
    using t ne unfolding tick_separated_policy_def Let_def prod.case pressed_def stressed_level_def batch_for_def pressed_channel_def
    by (auto split: if_splits)
  then show ?thesis
  proof cases
    case sys
    then obtain w2 where "policy_sys_arm env running now (ml_batch (batch_for env running now r s))
        (ml_reach (batch_for env running now r s)) (r, w) = (r', w2)"
      by (auto simp: sys_arm_def tick_env_of_def split: prod.splits)
    from sys_arm_yields [OF l this ds o] show ?thesis using sys(1) by blast
  next
    case disk
    from disk_arm_lifts_nothing [OF this ds o(1,2)] show ?thesis using o(3) by blast
  next
    case calm
    from disk_lift_ripe [OF calm(3) ds o] calm_manual_kept [OF calm(3) ds o] show ?thesis using calm(1,2) by blast
  qed
qed

inductive loop_history :: "(real \<times> level \<times> level) list \<Rightarrow> mloop \<times> registry \<times> 'w \<Rightarrow> bool" where
  \<comment> \<open>the policy ticks of a monitor loop so far, with what each found; between two ticks other threads may change the
      registry and the host in any way\<close>
  start: "loop_history [] (mloop_init, r, w)"
| tick: "loop_history ts (s, r, w) \<Longrightarrow> policy_tick env path_of running now p d True (s, r, w) = (s', r', w')
    \<Longrightarrow> loop_history (ts @ [(now, p, d)]) (s', r', w')"
| other: "loop_history ts (s, r, w) \<Longrightarrow> loop_history ts (s, r', w')"

lemma policy_tick_loop:
  assumes "policy_tick env path_of running now p d on (s, r, w) = (s', r', w')"
  obtains r1 where "tick_separated_policy (tick_env_of env running now) now p d on (s, r, w) = (s', r1, w')" "rg_apps r' = rg_apps r1"
proof -
  obtain s1 r1 w1 where t: "tick_separated_policy (tick_env_of env running now) now p d on (s, r, w) = (s1, r1, w1)" by (metis surj_pair)
  then have "s1 = s'" "w1 = w'" "rg_apps r' = rg_apps r1" using assms by (auto simp: policy_tick_def Let_def split: if_splits)
  then show ?thesis using that t by blast
qed

lemma history_timer:
  assumes "loop_history ts st" "sorted (map fst ts)" "ml_disk_start (fst st) = Some t"
    and "(n, q, l) \<in> set ts" "q \<noteq> Critical" "stressed_level l"
  shows "n \<le> t"
  using assms
proof (induction arbitrary: t rule: loop_history.induct)
  case (start r w)
  then show ?case by simp
next
  case (tick ts s r w env path_of running now p d s' r' w')
  obtain r1 where x: "tick_separated_policy (tick_env_of env running now) now p d True (s, r, w) = (s', r1, w')"
    using policy_tick_loop [OF tick.hyps(2)] by blast
  have ord: "sorted (map fst ts)" and le: "n \<le> now" using tick.prems(1,3) by (auto simp: sorted_append)
  have from_before: "n \<le> t" if "ml_disk_start s = Some t" "p = Critical \<or> \<not> stressed_level d"
    using tick.IH [OF ord _ _ tick.prems(4,5)] tick.prems(3-5) that by auto
  show ?case
  proof (cases "p = Critical \<or> stressed_level d")
    case True
    then show ?thesis using pressed_tick_timer [OF x] tick.prems(2) from_before by (auto split: if_splits)
  next
    case False
    then show ?thesis using calm_tick_timer [OF x] tick.prems(2) from_before le by auto
  qed
next
  case (other ts s r w r' w')
  then show ?case by simp
qed

definition calm_since_stress :: "(real \<times> level \<times> level) list \<Rightarrow> real \<Rightarrow> bool" where
  \<comment> \<open>every tick that took the disk arm is ten minutes or more ago\<close>
  "calm_since_stress ts now \<longleftrightarrow>
     list_all (\<lambda>(n, q, l). q \<noteq> Critical \<and> stressed_level l \<longrightarrow> now - n \<ge> stable_disk_io_period * 2) ts"


lemma idle_env_caps: "caps_law idle_env"
  unfolding caps_law_def idle_env_def by (simp add: entries_kept_refl)

lemma idle_batch: "ml_batch (pressed_state (tick_env_of idle_env True 0) 0 ChDisk demo_registry mloop_init) = []"
  "loop_reset (pressed_state (tick_env_of idle_env True 0) 0 ChDisk demo_registry mloop_init) = mloop_init"
  by (simp_all add: pressed_state_def tick_env_of_def idle_env_def mloop_init_def stale_top_batch_def keep_top_batch_def
      drop_excluded_candidates_def loop_reset_def drop_top_batch_def)

lemma idle_tick_pressed:
  "policy_tick idle_env path_of True 0 Low High True (mloop_init, demo_registry, open_world) = (mloop_init, demo_registry, open_world)"
  by (simp add: policy_tick_def tick_separated_policy_def pressed_def pressed_channel_def idle_batch)

lemma idle_tick_calm:
  "policy_tick idle_env path_of True 10 Medium Low True (mloop_init, demo_registry, open_world) = (demo_loop, demo_registry, open_world)"
  by (simp add: policy_tick_def tick_separated_policy_def pressed_def tick_env_of_def idle_env_def demo_loop_def restore_arm_defs)

lemma idle_restore_disk:
  "\<exists>r' w'. restore_channel (lh_kernel (demo_host [])) True ChDisk Full (demo_registry, open_world) = (True, r', w')
     \<and> map_of (rg_apps r') ''a.scope'' = Some (demo_app\<lparr>la_io := False, la_part_io := False\<rparr>)"
  by (simp add: restore_channel_def first_auto_with_part_def demo_registry_def restore_channel_for_def
      restore_resources_def restore_io_def demo_host_def update_entry_def move_to_end_def Let_def)

lemma idle_tick_lifts:
  "\<exists>s' r' w'. policy_tick idle_env path_of True 700 Medium Low True (demo_loop, demo_registry, open_world) = (s', r', w')
     \<and> map_of (rg_apps r') ''a.scope'' = Some (demo_app\<lparr>la_io := False, la_part_io := False\<rparr>)"
  using idle_restore_disk
  by (auto simp: policy_tick_def tick_separated_policy_def pressed_def tick_env_of_def idle_env_def demo_loop_def restore_arm_defs)


definition busy_env :: "demo_world policy_env" where
  \<comment> \<open>the application is the top consumer of CPU and memory, and still there\<close>
  "busy_env = idle_env\<lparr>pe_cgroup_exists := (\<lambda>w c. True),
     pe_fetch := (\<lambda>c. ([demo_ca\<lparr>ca_id := ''app'', ca_cgroup := ''/a.scope''\<rparr>], True))\<rparr>"

text \<open>The cap does yield: in a critical tick the disk cap of the top consumer goes, ten seconds after the disk was stressed.\<close>
lemma disk_cap_yields:
  "\<not> keeps la_io (map_of (rg_apps (fst (snd (policy_tick busy_env (\<lambda>p. None) True 10 Critical Low True
       (mloop_init, demo_registry\<lparr>rg_apps := [(''a.scope'', demo_app\<lparr>la_cpu_mem := False\<rparr>)]\<rparr>, open_world))))) ''a.scope'')"
  by code_simp

end
