(* ===== verification/Launch_Queue.thy ===== *)
theory Launch_Queue
  imports Py_Base "HOL-Library.Multiset" "HOL-Library.Product_Lexorder"
begin

text \<open>
  The queue of launches held back under pressure (\<open>MaxPriorityQueue\<close> of \<open>balancer/balancer/balancer.py\<close>).
  Entries are the triples the code pushes on a heap: the negated priority, a running number that breaks ties, and the
  item. The heap of the standard library is kept as the list of its entries, of which \<open>heappop\<close> takes the smallest; the
  order of the other entries is the library's affair and no statement depends on it. The contract of a queue that serves
  the highest priority first, and the first comer among equals, is the locale \<open>fair_queue\<close>.
\<close>

subsection \<open>The queue of the code\<close>

type_synonym 'd item = "'d \<times> int"
type_synonym 'd entry = "int \<times> nat \<times> 'd item"

record 'd max_queue =
  mq_heap :: "'d entry list"
  mq_index :: nat

definition mq_init :: "'d max_queue" where
  "mq_init = \<lparr>mq_heap = [], mq_index = 0\<rparr>"

definition entry_key :: "'d entry \<Rightarrow> int \<times> nat" where
  "entry_key e = (fst e, fst (snd e))"

fun least_entry :: "'d entry \<Rightarrow> 'd entry list \<Rightarrow> 'd entry" where
  "least_entry e [] = e"
| "least_entry e (x # xs) = least_entry (if entry_key x < entry_key e then x else e) xs"

definition mq_put :: "'d item \<Rightarrow> 'd max_queue \<Rightarrow> 'd max_queue" where
  "mq_put item q = \<lparr>mq_heap = mq_heap q @ [(- snd item, mq_index q, item)], mq_index = mq_index q + 1\<rparr>"

definition mq_get :: "'d max_queue \<Rightarrow> ('d item \<times> 'd max_queue) option" where
  \<comment> \<open>\<open>None\<close> is the IndexError of an empty heap\<close>
  "mq_get q =
     (case mq_heap q of
        [] \<Rightarrow> None
      | e # es \<Rightarrow> (let m = least_entry e es in Some (snd (snd m), q\<lparr>mq_heap := remove1 m (mq_heap q)\<rparr>)))"

definition mq_remove_if :: "('d item \<Rightarrow> bool) \<Rightarrow> 'd max_queue \<Rightarrow> 'd item list \<times> 'd max_queue" where
  "mq_remove_if cond q =
     (map (snd \<circ> snd) (filter (\<lambda>e. cond (snd (snd e))) (mq_heap q)),
      q\<lparr>mq_heap := filter (\<lambda>e. \<not> cond (snd (snd e))) (mq_heap q)\<rparr>)"

definition mq_empty :: "'d max_queue \<Rightarrow> bool" where
  "mq_empty q \<longleftrightarrow> mq_heap q = []"

definition mq_len :: "'d max_queue \<Rightarrow> nat" where
  "mq_len q = length (mq_heap q)"

subsection \<open>The contract\<close>

definition enlist :: "'d item \<Rightarrow> 'd item list \<Rightarrow> 'd item list" where
  \<comment> \<open>into a list in the order of service: behind everything of the same or a higher priority\<close>
  "enlist x xs = takeWhile (\<lambda>y. snd y \<ge> snd x) xs @ x # dropWhile (\<lambda>y. snd y \<ge> snd x) xs"

datatype 'd queue_op = Put "'d item" | Get | RemoveIf "'d item \<Rightarrow> bool"
datatype 'd queue_out = Done | Served "'d item option" | Removed "'d item multiset"

fun list_op :: "'d queue_op \<Rightarrow> 'd item list \<Rightarrow> 'd queue_out \<times> 'd item list" where
  "list_op (Put x) xs = (Done, enlist x xs)"
| "list_op Get xs = (case xs of [] \<Rightarrow> (Served None, []) | y # ys \<Rightarrow> (Served (Some y), ys))"
| "list_op (RemoveIf P) xs = (Removed (mset (filter P xs)), filter (\<lambda>x. \<not> P x) xs)"

fun list_run :: "'d queue_op list \<Rightarrow> 'd item list \<Rightarrow> 'd queue_out list" where
  "list_run [] xs = []"
| "list_run (op # ops) xs = (case list_op op xs of (out, ys) \<Rightarrow> out # list_run ops ys)"

locale fair_queue =
  fixes start :: 'q
    and put :: "'d item \<Rightarrow> 'q \<Rightarrow> 'q"
    and get :: "'q \<Rightarrow> ('d item \<times> 'q) option"
    and remove_if :: "('d item \<Rightarrow> bool) \<Rightarrow> 'q \<Rightarrow> 'd item list \<times> 'q"
    and ok :: "'q \<Rightarrow> bool"
    and line :: "'q \<Rightarrow> 'd item list"
  assumes start_ok: "ok start" and start_line: "line start = []"
    and put_ok: "ok q \<Longrightarrow> ok (put x q)" and put_line: "ok q \<Longrightarrow> line (put x q) = enlist x (line q)"
    and get_none: "ok q \<Longrightarrow> get q = None \<longleftrightarrow> line q = []"
    and get_ok: "ok q \<Longrightarrow> get q = Some (x, q') \<Longrightarrow> ok q' \<and> line q = x # line q'"
    and remove_ok: "ok q \<Longrightarrow> ok (snd (remove_if P q))"
    and remove_line: "ok q \<Longrightarrow> line (snd (remove_if P q)) = filter (\<lambda>x. \<not> P x) (line q)"
    and remove_out: "ok q \<Longrightarrow> mset (fst (remove_if P q)) = mset (filter P (line q))"
begin

fun serve :: "'d queue_op \<Rightarrow> 'q \<Rightarrow> 'd queue_out \<times> 'q" where
  "serve (Put x) q = (Done, put x q)"
| "serve Get q = (case get q of None \<Rightarrow> (Served None, q) | Some (x, q') \<Rightarrow> (Served (Some x), q'))"
| "serve (RemoveIf P) q = (case remove_if P q of (out, q') \<Rightarrow> (Removed (mset out), q'))"

fun run :: "'d queue_op list \<Rightarrow> 'q \<Rightarrow> 'd queue_out list" where
  "run [] q = []"
| "run (op # ops) q = (case serve op q of (out, q') \<Rightarrow> out # run ops q')"

lemma serve_simulates:
  assumes "ok q" "serve op q = (out, q')"
  shows "ok q' \<and> list_op op (line q) = (out, line q')"
proof (cases op)
  case (Put x)
  then have "out = Done" "q' = put x q" using assms(2) by auto
  then show ?thesis using Put put_ok [OF assms(1), of x] put_line [OF assms(1), of x] by simp
next
  case Get
  show ?thesis
  proof (cases "get q")
    case None
    then have "line q = []" using get_none [OF assms(1)] by simp
    then show ?thesis using assms Get None by simp
  next
    case (Some p)
    obtain x q1 where "p = (x, q1)" by fastforce
    then show ?thesis using assms Get Some get_ok [of q x q1] by auto
  qed
next
  case (RemoveIf P)
  then show ?thesis using assms remove_ok [of q P] remove_line [of q P] remove_out [of q P] by (auto split: prod.splits)
qed

lemma run_refines: "ok q \<Longrightarrow> run ops q = list_run ops (line q)"
proof (induction ops arbitrary: q)
  case Nil
  show ?case by simp
next
  case (Cons op ops)
  obtain out q' where s: "serve op q = (out, q')" by fastforce
  from serve_simulates [OF Cons.prems s] show ?case using Cons.IH [of q'] s by simp
qed

lemma run_from_start: "run ops start = list_run ops []"
  using run_refines [OF start_ok] start_line by simp

end

subsection \<open>The code's queue keeps the contract\<close>

definition mq_ok :: "'d max_queue \<Rightarrow> bool" where
  "mq_ok q \<longleftrightarrow> distinct (map (fst \<circ> snd) (mq_heap q))
     \<and> (\<forall>e\<in>set (mq_heap q). fst (snd e) < mq_index q \<and> fst e = - snd (snd (snd e)))"

definition mq_line :: "'d max_queue \<Rightarrow> 'd item list" where
  "mq_line q = map (snd \<circ> snd) (sort_key entry_key (mq_heap q))"

lemma least_entry_min:
  "least_entry e es \<in> set (e # es) \<and> (\<forall>x\<in>set (e # es). entry_key (least_entry e es) \<le> entry_key x)"
proof (induction es arbitrary: e)
  case Nil
  show ?case by simp
next
  case (Cons y es)
  show ?case
  proof (cases "entry_key y < entry_key e")
    case True
    then show ?thesis using Cons.IH [of y] by (auto intro: order.trans [OF _ less_imp_le])
  next
    case False
    then have "entry_key e \<le> entry_key y" by simp
    then show ?thesis using Cons.IH [of e] False by (auto intro: order.trans)
  qed
qed

lemma key_inj: "distinct (map (fst \<circ> snd) es) \<Longrightarrow> inj_on entry_key (set es)"
  by (auto simp: distinct_map inj_on_def entry_key_def)

lemma sort_key_cong_mset:
  assumes "mset xs = mset ys" "inj_on f (set xs)"
  shows "sort_key f xs = sort_key f ys"
proof -
  have "inj_on f (set ys)" using assms by (metis set_mset_mset)
  then show ?thesis using assms
    by (intro sort_key_inj_key_eq) (auto simp: )
qed

lemma sort_least_first:
  assumes "mq_ok q" "mq_heap q = e # es" "m = least_entry e es"
  shows "sort_key entry_key (mq_heap q) = m # sort_key entry_key (remove1 m (mq_heap q))"
proof -
  have inj: "inj_on entry_key (set (mq_heap q))" using assms(1) key_inj by (auto simp: mq_ok_def)
  have min: "m \<in> set (mq_heap q)" "\<forall>x\<in>set (mq_heap q). entry_key m \<le> entry_key x"
    using least_entry_min [of e es] assms by auto
  have "sort_key entry_key (mq_heap q) = sort_key entry_key (m # remove1 m (mq_heap q))"
    by (rule sort_key_cong_mset [OF _ inj]) (use min(1) in simp)
  also have "\<dots> = m # sort_key entry_key (remove1 m (mq_heap q))"
    by (simp, rule insort_is_Cons) (use min(2) in \<open>auto dest: notin_set_remove1 set_remove1_subset [THEN subsetD]\<close>)
  finally show ?thesis .
qed

lemma dropWhile_none:
  assumes "sorted (map f es)" "\<And>a b. f a \<le> f b \<Longrightarrow> P b \<Longrightarrow> P a"
  shows "\<forall>e\<in>set (dropWhile P es). \<not> P e"
  using assms by (induction es) auto

lemma key_le_iff: "entry_key a \<le> entry_key b \<longleftrightarrow> fst a < fst b \<or> (fst a = fst b \<and> fst (snd a) \<le> fst (snd b))"
  by (auto simp: entry_key_def less_eq_prod_def)

lemma enlist_sorted:
  assumes "sorted (map entry_key es)" "\<forall>e\<in>set es. fst (snd e) < n"
  shows "sorted (map entry_key (takeWhile (\<lambda>e. fst e \<le> p) es @ (p, n, x) # dropWhile (\<lambda>e. fst e \<le> p) es))"
proof -
  let ?P = "\<lambda>e. fst e \<le> p" and ?new = "(p, n, x)"
  have "sorted (map entry_key (takeWhile ?P es) @ map entry_key (dropWhile ?P es))"
    unfolding map_append [symmetric] takeWhile_dropWhile_id by (rule assms(1))
  then have parts: "sorted (map entry_key (takeWhile ?P es))" "sorted (map entry_key (dropWhile ?P es))"
    unfolding sorted_append by blast+
  have after: "\<forall>e\<in>set (dropWhile ?P es). \<not> ?P e"
    using assms(1) by (rule dropWhile_none) (auto simp: key_le_iff)
  have below: "entry_key e \<le> entry_key ?new" if "e \<in> set (takeWhile ?P es)" for e
    using set_takeWhileD [OF that] assms(2) by (fastforce simp: key_le_iff)
  have above: "entry_key ?new \<le> entry_key e" if "e \<in> set (dropWhile ?P es)" for e
    using after that by (fastforce simp: key_le_iff)
  have "entry_key a \<le> entry_key b" if "a \<in> set (takeWhile ?P es)" "b \<in> set (dropWhile ?P es)" for a b
    using below [OF that(1)] above [OF that(2)] by (rule order.trans)
  then show ?thesis using parts below above unfolding map_append list.map sorted_append sorted_simps by auto
qed

lemma enlist_map:
  assumes "\<forall>e\<in>set es. fst e = - snd (snd (snd e))"
  shows "map (snd \<circ> snd) (takeWhile (\<lambda>e. fst e \<le> - snd x) es @ (- snd x, n, x) # dropWhile (\<lambda>e. fst e \<le> - snd x) es)
    = enlist x (map (snd \<circ> snd) es)"
proof -
  have t: "takeWhile (\<lambda>e. fst e \<le> - snd x) es = takeWhile ((\<lambda>y. snd y \<ge> snd x) \<circ> (snd \<circ> snd)) es"
    using assms by (intro takeWhile_cong) auto
  have d: "dropWhile (\<lambda>e. fst e \<le> - snd x) es = dropWhile ((\<lambda>y. snd y \<ge> snd x) \<circ> (snd \<circ> snd)) es"
    using assms by (intro dropWhile_cong) auto
  show ?thesis unfolding enlist_def takeWhile_map dropWhile_map t d by simp
qed

lemma put_keeps: "mq_ok q \<Longrightarrow> mq_ok (mq_put x q)"
  by (force simp: mq_ok_def mq_put_def)

lemma put_enlists:
  assumes "mq_ok q"
  shows "mq_line (mq_put x q) = enlist x (mq_line q)"
proof -
  let ?es = "sort_key entry_key (mq_heap q)" and ?e = "(- snd x, mq_index q, x)"
  let ?new = "takeWhile (\<lambda>e. fst e \<le> - snd x) ?es @ ?e # dropWhile (\<lambda>e. fst e \<le> - snd x) ?es"
  have s: "sorted (map entry_key ?new)"
    using assms by (intro enlist_sorted) (auto simp: mq_ok_def)
  have m: "mset (mq_heap (mq_put x q)) = mset ?new"
    by (simp add: mq_put_def) (metis mset_append mset_sort takeWhile_dropWhile_id)
  have inj: "inj_on entry_key (set (mq_heap (mq_put x q)))"
    using put_keeps [OF assms, of x] key_inj by (auto simp: mq_ok_def)
  have "sort_key entry_key (mq_heap (mq_put x q)) = sort_key entry_key ?new" by (rule sort_key_cong_mset [OF m inj])
  also have "\<dots> = ?new" by (rule sort_key_id_if_sorted [OF s])
  finally have "mq_line (mq_put x q) = map (snd \<circ> snd) ?new" by (simp only: mq_line_def)
  also have "\<dots> = enlist x (mq_line q)"
    unfolding mq_line_def using assms by (intro enlist_map) (auto simp: mq_ok_def)
  finally show ?thesis .
qed

lemma filter_keeps: "mq_ok q \<Longrightarrow> mq_ok (q\<lparr>mq_heap := filter P (mq_heap q)\<rparr>)"
  by (auto simp: mq_ok_def distinct_map_filter)

lemma remove1_keeps: "mq_ok q \<Longrightarrow> mq_ok (q\<lparr>mq_heap := remove1 m (mq_heap q)\<rparr>)"
  by (auto simp: mq_ok_def distinct_map inj_on_def dest: set_remove1_subset [THEN subsetD])

lemma get_first:
  assumes "mq_ok q" "mq_get q = Some (x, q')"
  shows "mq_ok q' \<and> mq_line q = x # mq_line q'"
proof -
  obtain e es where h: "mq_heap q = e # es" using assms(2) by (cases "mq_heap q") (auto simp: mq_get_def)
  define m where "m = least_entry e es"
  have x: "x = snd (snd m)" "q' = q\<lparr>mq_heap := remove1 m (mq_heap q)\<rparr>"
    using assms(2) by (auto simp: mq_get_def h m_def Let_def)
  have "sort_key entry_key (mq_heap q) = m # sort_key entry_key (remove1 m (mq_heap q))"
    by (rule sort_least_first [OF assms(1) h m_def])
  then have "mq_line q = x # mq_line q'" by (simp add: mq_line_def x)
  then show ?thesis using remove1_keeps [OF assms(1)] x(2) by simp
qed

interpretation launches: fair_queue mq_init mq_put mq_get mq_remove_if mq_ok mq_line
proof unfold_locales
  show "mq_ok mq_init" "mq_line mq_init = []" by (simp_all add: mq_ok_def mq_line_def mq_init_def)
  fix q :: "'a max_queue" and x
  assume ok: "mq_ok q"
  show "mq_ok (mq_put x q)" by (rule put_keeps [OF ok])
  show "mq_line (mq_put x q) = enlist x (mq_line q)" by (rule put_enlists [OF ok])
  show "mq_get q = None \<longleftrightarrow> mq_line q = []"
    by (cases "mq_heap q"; simp add: mq_get_def mq_line_def Let_def)
  show "mq_ok q' \<and> mq_line q = x # mq_line q'" if "mq_get q = Some (x, q')" for q' by (rule get_first [OF ok that])
  show "mq_ok (snd (mq_remove_if P q))" for P using filter_keeps [OF ok] by (simp add: mq_remove_if_def)
  show "mq_line (snd (mq_remove_if P q)) = filter (\<lambda>x. \<not> P x) (mq_line q)" for P
    by (simp add: mq_remove_if_def mq_line_def filter_sort filter_map comp_def)
  show "mset (fst (mq_remove_if P q)) = mset (filter P (mq_line q))" for P
    by (simp add: mq_remove_if_def mq_line_def filter_map mset_map mset_filter comp_def)
qed

text \<open>C12: the launch queue is a fair priority line. On every sequence of arrivals, resumptions and removals it answers
  exactly as the plain list in which each arrival stands behind everything of the same or a higher priority.\<close>
theorem launch_queue_refines_line:
  "launches.run ops mq_init = list_run ops []"
  by (rule launches.run_from_start)

fun put_all :: "'d item list \<Rightarrow> 'd max_queue \<Rightarrow> 'd max_queue" where
  "put_all [] q = q"
| "put_all (x # xs) q = put_all xs (mq_put x q)"

lemma enlist_stable: "sorted (map (\<lambda>y. - snd y) xs) \<Longrightarrow> enlist x xs = sort_key (\<lambda>y. - snd y) (xs @ [x])"
proof (rule sym, rule properties_for_sort_key)
  let ?f = "\<lambda>y::'a item. - snd y" and ?P = "\<lambda>y. snd x \<le> snd y"
  assume s: "sorted (map ?f xs)"
  have split: "mset (takeWhile ?P xs) + mset (dropWhile ?P xs) = mset xs"
    unfolding mset_append [symmetric] takeWhile_dropWhile_id ..
  have "mset (enlist x xs) = add_mset x (mset (takeWhile ?P xs) + mset (dropWhile ?P xs))"
    by (simp only: enlist_def mset_append mset.simps union_mset_add_mset_right)
  then show "mset (enlist x xs) = mset (xs @ [x])"
    unfolding split by simp
  have none: "\<forall>e\<in>set (dropWhile (\<lambda>y. snd x \<le> snd y) xs). \<not> snd x \<le> snd e"
    using s by (rule dropWhile_none) auto
  show "filter (\<lambda>z. ?f k = ?f z) (enlist x xs) = filter (\<lambda>z. ?f k = ?f z) (xs @ [x])" for k
  proof (cases "snd k = snd x")
    case True
    have e: "filter (\<lambda>z. ?f k = ?f z) (dropWhile ?P xs) = []"
      unfolding filter_empty_conv
    proof
      fix z assume "z \<in> set (dropWhile ?P xs)"
      then have "\<not> snd x \<le> snd z" using none by blast
      then show "\<not> ?f k = ?f z" using True by simp
    qed
    have "filter (\<lambda>z. ?f k = ?f z) xs = filter (\<lambda>z. ?f k = ?f z) (takeWhile ?P xs) @ filter (\<lambda>z. ?f k = ?f z) (dropWhile ?P xs)"
      unfolding filter_append [symmetric] takeWhile_dropWhile_id ..
    then show ?thesis unfolding e unfolding enlist_def filter_append filter.simps e by simp
  next
    case False
    have "filter (\<lambda>z. ?f k = ?f z) xs = filter (\<lambda>z. ?f k = ?f z) (takeWhile ?P xs) @ filter (\<lambda>z. ?f k = ?f z) (dropWhile ?P xs)"
      unfolding filter_append [symmetric] takeWhile_dropWhile_id ..
    then show ?thesis unfolding enlist_def filter_append using False by simp
  qed
  have "sorted (map ?f (takeWhile ?P xs) @ map ?f (dropWhile ?P xs))"
    unfolding map_append [symmetric] takeWhile_dropWhile_id by (rule s)
  then have parts: "sorted (map ?f (takeWhile ?P xs))" "sorted (map ?f (dropWhile ?P xs))"
    "\<forall>a\<in>set (takeWhile ?P xs). \<forall>b\<in>set (dropWhile ?P xs). ?f a \<le> ?f b"
    unfolding sorted_append by auto
  have "\<forall>a\<in>set (takeWhile ?P xs). ?f a \<le> ?f x" using set_takeWhileD by fastforce
  moreover have "\<forall>b\<in>set (dropWhile ?P xs). ?f x \<le> ?f b" using none by fastforce
  ultimately show "sorted (map ?f (enlist x xs))"
    using parts unfolding enlist_def map_append list.map sorted_append sorted_simps set_map list.set by blast
qed

lemma sort_key_absorb: "sort_key f (sort_key f a @ b) = sort_key f (a @ b)"
proof (rule properties_for_sort_key)
  have same: "filter (\<lambda>x. f k = f x) (sort_key f l) = filter (\<lambda>x. f k = f x) l" for k and l :: "'a list"
    using sort_key_stable [of f "f k" l] by (simp add: eq_commute [of "f k"])
  show "mset (sort_key f (a @ b)) = mset (sort_key f a @ b)" by simp
  show "filter (\<lambda>x. f k = f x) (sort_key f (a @ b)) = filter (\<lambda>x. f k = f x) (sort_key f a @ b)" for k
    unfolding filter_append same ..
  show "sorted (map f (sort_key f (a @ b)))" by simp
qed

lemma put_all_line:
  "mq_ok q \<Longrightarrow> sorted (map (\<lambda>y. - snd y) (mq_line q)) \<Longrightarrow>
   mq_ok (put_all xs q) \<and> mq_line (put_all xs q) = sort_key (\<lambda>y. - snd y) (mq_line q @ xs)"
proof (induction xs arbitrary: q)
  case Nil
  then show ?case by (simp add: sort_key_id_if_sorted)
next
  case (Cons x xs)
  let ?l = "mq_line q"
  have l: "mq_line (mq_put x q) = sort_key (\<lambda>y. - snd y) (?l @ [x])"
    using put_enlists [OF Cons.prems(1)] enlist_stable [OF Cons.prems(2)] by simp
  have "mq_ok (put_all xs (mq_put x q)) \<and> mq_line (put_all xs (mq_put x q)) = sort_key (\<lambda>y. - snd y) (mq_line (mq_put x q) @ xs)"
    by (rule Cons.IH [OF put_keeps [OF Cons.prems(1)]]) (simp add: l)
  then show ?case unfolding put_all.simps l sort_key_absorb by simp
qed

fun drain :: "nat \<Rightarrow> 'd max_queue \<Rightarrow> 'd item list" where
  \<comment> \<open>at most so many resumptions in a row\<close>
  "drain 0 q = []"
| "drain (Suc n) q = (case mq_get q of None \<Rightarrow> [] | Some (x, q') \<Rightarrow> x # drain n q')"

lemma drain_line: "mq_ok q \<Longrightarrow> drain n q = take n (mq_line q)"
proof (induction n arbitrary: q)
  case 0
  show ?case by simp
next
  case (Suc n)
  show ?case
  proof (cases "mq_get q")
    case None
    then show ?thesis using launches.get_none [OF Suc.prems] by simp
  next
    case (Some p)
    obtain x q' where p: "p = (x, q')" by fastforce
    have "mq_ok q'" "mq_line q = x # mq_line q'" using launches.get_ok [OF Suc.prems] Some p by auto
    then show ?thesis using Suc.IH Some p by simp
  qed
qed

text \<open>resuming serves the highest priority first and keeps the order of arrival among equals: draining the queue
  after any arrivals yields their stable sort by falling priority.\<close>
theorem launch_queue_stable_sort:
  "drain (length xs) (put_all xs mq_init) = sort_key (\<lambda>y. - snd y) xs"
proof -
  have "mq_ok (put_all xs mq_init) \<and> mq_line (put_all xs mq_init) = sort_key (\<lambda>y. - snd y) xs"
    using put_all_line [OF launches.start_ok, of xs] unfolding launches.start_line by simp
  then show ?thesis using drain_line [of "put_all xs mq_init" "length xs"] by simp
qed

end
