(* ===== verification/Limit_Life.thy ===== *)
theory Limit_Life
  imports Policy_Life Launch_Queue
begin

text \<open>
  How limits end, from \<open>balancer/balancer/balancer.py\<close>: \<open>_restore_entry\<close>, the restore of an automatic limit by the user,
  the reaper of closed applications with its reminder for frozen ones, the sweep at shutdown and the cancelling of a
  launch. The host is that of theory \<open>Manual_Limit\<close>; whether a cgroup still exists, the state of a process and the
  running status are arguments. Notifications, events and log output are left out.
\<close>

subsection \<open>Restoring one entry\<close>

definition lift_one :: "'w manual_host \<Rightarrow> limited_app \<Rightarrow> string \<Rightarrow> 'w \<Rightarrow> bool \<times> 'w" where
  \<comment> \<open>both channels of one cgroup; the disks are those of the entry\<close>
  "lift_one host e cg w =
     (case (if la_cpu_mem e then lk_lift (lh_kernel host) cg w else (True, w)) of (ok1, w1) \<Rightarrow>
      case (if la_io e then lk_io_lift (lh_kernel host) cg (la_disks e) w1 else (True, w1)) of (ok2, w2) \<Rightarrow> (ok1 \<and> ok2, w2))"

fun lift_each :: "'w manual_host \<Rightarrow> ('w \<Rightarrow> string \<Rightarrow> bool) \<Rightarrow> limited_app \<Rightarrow> bool \<Rightarrow> string list \<Rightarrow> 'w \<Rightarrow> bool \<times> 'w" where
  \<comment> \<open>the loop over the cgroups; the flag says that the first of the list is the primary one, whose result alone counts\<close>
  "lift_each host exists e primary [] w = (True, w)"
| "lift_each host exists e primary (cg # cgs) w =
     (if \<not> exists w cg then lift_each host exists e False cgs w
      else case lift_one host e cg w of (ok, w1) \<Rightarrow>
           case lift_each host exists e False cgs w1 of (rest, w2) \<Rightarrow> ((primary \<longrightarrow> ok) \<and> rest, w2))"

definition restore_entry :: "'w manual_host \<Rightarrow> ('w \<Rightarrow> string \<Rightarrow> bool) \<Rightarrow> limited_app \<Rightarrow> 'w \<Rightarrow> bool \<times> 'w" where
  "restore_entry host exists e w =
     (let cgs = (if la_cgroups e = [] then [la_public_id e] else la_cgroups e)
      in case lift_each host exists e True cgs w of (ok, w1) \<Rightarrow>
         case (if la_frozen e then thaw_cgroups host cgs w1 else (True, w1)) of (ok2, w2) \<Rightarrow> (ok \<and> ok2, w2))"

definition drop_entry :: "string \<Rightarrow> registry \<Rightarrow> registry" where
  "drop_entry k r = r\<lparr>rg_apps := AList.delete k (rg_apps r), rg_baseline := AList.delete k (rg_baseline r)\<rparr>"

definition restore_auto_limited ::
  "'w manual_host \<Rightarrow> ('w \<Rightarrow> string \<Rightarrow> bool) \<Rightarrow> string \<Rightarrow> bool \<Rightarrow> registry \<times> 'w \<Rightarrow> bool \<times> registry \<times> 'w" where
  \<comment> \<open>the entry is dropped only when the restore succeeded, so a failed write can be tried again; no other thread
      replaces the entry meanwhile\<close>
  "restore_auto_limited host exists app_id exclude st =
     (case st of (r, w) \<Rightarrow>
      case find_auto app_id r of
        None \<Rightarrow> (False, r, w)
      | Some (k, e) \<Rightarrow>
          (case restore_entry host exists e w of
             (False, w1) \<Rightarrow> (False, r, w1)
           | (True, w1) \<Rightarrow>
               (True, (if exclude then add_exclusion e ''user_restore'' (drop_entry k r) else drop_entry k r)\<lparr>rg_dominant := False\<rparr>, w1)))"

fun restore_sweep :: "'w manual_host \<Rightarrow> ('w \<Rightarrow> string \<Rightarrow> bool) \<Rightarrow> limited_app list \<Rightarrow> 'w \<Rightarrow> 'w" where
  "restore_sweep host exists [] w = w"
| "restore_sweep host exists (e # es) w = restore_sweep host exists es (snd (restore_entry host exists e w))"

definition restore_all_limited_apps_resources :: "'w manual_host \<Rightarrow> ('w \<Rightarrow> string \<Rightarrow> bool) \<Rightarrow> registry \<times> 'w \<Rightarrow> registry \<times> 'w" where
  \<comment> \<open>every entry goes, with its recorded peak\<close>
  "restore_all_limited_apps_resources host exists st =
     (case st of (r, w) \<Rightarrow>
        (r\<lparr>rg_apps := [], rg_baseline := filter (\<lambda>(k, p). k \<notin> fst ` set (rg_apps r)) (rg_baseline r)\<rparr>,
         restore_sweep host exists (map snd (rg_apps r)) w))"

subsection \<open>The reaper\<close>

definition entry_closed :: "(int \<Rightarrow> proc_read) \<Rightarrow> (string \<Rightarrow> string \<Rightarrow> string option) \<Rightarrow> limited_app \<Rightarrow> bool" where
  \<comment> \<open>without pids the running status decides\<close>
  "entry_closed rd status e =
     (if la_pids e = [] then status (la_public_id e) (la_name e) = Some ''stopped'' else is_app_closed rd status e)"

definition reap_one :: "string \<Rightarrow> registry \<Rightarrow> registry" where
  "reap_one k r = snd (remove_exclusion k (drop_entry k r))"

fun reap_registry ::
  "(int \<Rightarrow> proc_read) \<Rightarrow> (string \<Rightarrow> string \<Rightarrow> string option) \<Rightarrow> string list \<Rightarrow> registry \<Rightarrow> limited_app list \<times> registry" where
  \<comment> \<open>the pass under the lock: the closed entries leave the registry\<close>
  "reap_registry rd status [] r = ([], r)"
| "reap_registry rd status (k # ks) r =
     (case map_of (rg_apps r) k of
        None \<Rightarrow> reap_registry rd status ks r
      | Some e \<Rightarrow>
          if entry_closed rd status e
          then (case reap_registry rd status ks (reap_one k r) of (gone, r1) \<Rightarrow> (e # gone, r1))
          else reap_registry rd status ks r)"

definition frozen_too_long :: "real \<Rightarrow> real \<Rightarrow> limited_app \<Rightarrow> bool" where
  "frozen_too_long after_s now e \<longleftrightarrow> la_frozen e \<and> \<not> la_freeze_notified e \<and> now - la_frozen_at e \<ge> after_s"

definition notify_long_frozen :: "real \<Rightarrow> real \<Rightarrow> registry \<Rightarrow> (string \<times> string) list \<times> registry" where
  \<comment> \<open>the applications the user is reminded of, once per freeze\<close>
  "notify_long_frozen after_s now r =
     (if after_s \<le> 0 then ([], r)
      else (map (\<lambda>(k, e). (la_public_id e, la_name e)) (filter (\<lambda>(k, e). frozen_too_long after_s now e) (rg_apps r)),
            r\<lparr>rg_apps := map (\<lambda>(k, e). (k, if frozen_too_long after_s now e then e\<lparr>la_freeze_notified := True\<rparr> else e)) (rg_apps r)\<rparr>))"

definition reap_closed_apps ::
  "'w manual_host \<Rightarrow> ('w \<Rightarrow> string \<Rightarrow> bool) \<Rightarrow> (int \<Rightarrow> proc_read) \<Rightarrow> (string \<Rightarrow> string \<Rightarrow> string option) \<Rightarrow> real \<Rightarrow> real
     \<Rightarrow> registry \<times> 'w \<Rightarrow> (string \<times> string) list \<times> registry \<times> 'w" where
  "reap_closed_apps host exists rd status after_s now st =
     (case st of (r, w) \<Rightarrow>
      case reap_registry rd status (map fst (rg_apps r)) r of (gone, r1) \<Rightarrow>
      case notify_long_frozen after_s now r1 of (due, r2) \<Rightarrow> (due, r2, restore_sweep host exists gone w))"

subsection \<open>Cancelling a launch\<close>

definition cancel_relaunch_by_app_id ::
  "('d \<Rightarrow> string) \<Rightarrow> ('d \<Rightarrow> int) \<Rightarrow> (int \<Rightarrow> bool) \<Rightarrow> string \<Rightarrow> 'd max_queue \<Rightarrow> bool \<times> int list \<times> 'd max_queue" where
  \<comment> \<open>whether a process was killed, the pids signalled, and the queue; \<open>alive\<close> says that the kill finds a process\<close>
  "cancel_relaunch_by_app_id app_of pid_of alive app_id q =
     (case mq_remove_if (\<lambda>item. app_of (fst item) = app_id) q of (removed, q1) \<Rightarrow>
        (let pids = filter (\<lambda>p. p \<noteq> 0) (map (pid_of \<circ> fst) removed) in (list_ex alive pids, pids, q1)))"

subsection \<open>Lemmas\<close>

lemma drop_entry_apps [simp]: "rg_apps (drop_entry k r) = AList.delete k (rg_apps r)" "rg_exclusions (drop_entry k r) = rg_exclusions r"
  by (simp_all add: drop_entry_def)

lemma reap_one_apps [simp]: "rg_apps (reap_one k r) = AList.delete k (rg_apps r)"
  by (simp add: reap_one_def)

lemma add_exclusion_apps [simp]: "rg_apps (add_exclusion e reason r) = rg_apps r" "rg_baseline (add_exclusion e reason r) = rg_baseline r"
  by (simp_all add: add_exclusion_def)

lemma lift_one_other:
  assumes "limit_host_ok host view" "lift_one host e cg w = (ok, w')" "other \<noteq> cg"
  shows "view w' other = view w other"
proof -
  obtain ok1 w1 where 1: "(if la_cpu_mem e then lk_lift (lh_kernel host) cg w else (True, w)) = (ok1, w1)" by fastforce
  obtain ok2 w2 where 2: "(if la_io e then lk_io_lift (lh_kernel host) cg (la_disks e) w1 else (True, w1)) = (ok2, w2)" by fastforce
  have w': "w' = w2" using assms(2) by (simp only: lift_one_def 1 2 prod.case prod.inject)
  have law: "writes_only view (lk_lift (lh_kernel host))" "writes_only view (\<lambda>cg. lk_io_lift (lh_kernel host) cg (la_disks e))"
    using assms(1) by (simp_all add: limit_host_ok_def)
  have "view w1 other = view w other" using 1 writes_onlyD [OF law(1) assms(3)] by (auto split: if_splits)
  moreover have "view w2 other = view w1 other" using 2 writes_onlyD [OF law(2) assms(3)] by (auto split: if_splits)
  ultimately show ?thesis using w' by simp
qed

lemma lift_each_other:
  assumes "limit_host_ok host view" "lift_each host exists e p cgs w = (ok, w')" "other \<notin> set cgs"
  shows "view w' other = view w other"
  using assms(2,3)
proof (induction cgs arbitrary: p w ok)
  case (Cons cg cgs)
  show ?case
  proof (cases "exists w cg")
    case True
    obtain ok1 w1 where l: "lift_one host e cg w = (ok1, w1)" by fastforce
    obtain rest where r: "lift_each host exists e False cgs w1 = (rest, w')" using Cons.prems(1) True l by (auto split: prod.splits)
    show ?thesis using Cons.IH [OF r] lift_one_other [OF assms(1) l, of other] Cons.prems(2) by simp
  next
    case False
    then show ?thesis using Cons by simp
  qed
qed simp

lemma reap_registry_map:
  assumes "reap_registry rd status ks r = (gone, r1)" "distinct ks"
  shows "map_of (rg_apps r1) k = (case map_of (rg_apps r) k of None \<Rightarrow> None
      | Some e \<Rightarrow> if k \<in> set ks \<and> entry_closed rd status e then None else Some e)
    \<and> set gone = {e. \<exists>k\<in>set ks. map_of (rg_apps r) k = Some e \<and> entry_closed rd status e}"
  using assms
proof (induction ks arbitrary: r gone)
  case Nil
  then show ?case by (auto split: option.splits)
next
  case (Cons x ks)
  have dist: "distinct ks" "x \<notin> set ks" using Cons.prems(2) by simp_all
  show ?case
  proof (cases "map_of (rg_apps r) x")
    case None
    then have "reap_registry rd status ks r = (gone, r1)" using Cons.prems(1) by simp
    from Cons.IH [OF this dist(1)] show ?thesis using None by (auto split: option.splits)
  next
    case (Some e)
    show ?thesis
    proof (cases "entry_closed rd status e")
      case False
      then have "reap_registry rd status ks r = (gone, r1)" using Cons.prems(1) Some by simp
      from Cons.IH [OF this dist(1)] show ?thesis using Some False by (auto split: option.splits)
    next
      case True
      then obtain gone1 where g: "reap_registry rd status ks (reap_one x r) = (gone1, r1)" "gone = e # gone1"
        using Cons.prems(1) Some by (auto split: prod.splits)
      have m: "map_of (rg_apps (reap_one x r)) j = (if j = x then None else map_of (rg_apps r) j)" for j
        by (simp add: delete_conv)
      from Cons.IH [OF g(1) dist(1)] show ?thesis unfolding m g(2) using Some True dist(2) by (auto split: option.splits)
    qed
  qed
qed

lemma notify_map:
  "map_of (rg_apps (snd (notify_long_frozen after_s now r))) k =
     map_option (\<lambda>e. if 0 < after_s \<and> frozen_too_long after_s now e then e\<lparr>la_freeze_notified := True\<rparr> else e) (map_of (rg_apps r) k)"
proof (cases "after_s \<le> 0")
  case True
  then show ?thesis by (cases "map_of (rg_apps r) k") (simp_all add: notify_long_frozen_def)
next
  case False
  have "map_of (map (\<lambda>(k, e). (k, f e)) al) k = map_option f (map_of al k)" for f :: "limited_app \<Rightarrow> limited_app" and al
    by (induction al) auto
  from this [of "\<lambda>e. if frozen_too_long after_s now e then e\<lparr>la_freeze_notified := True\<rparr> else e"] False
  show ?thesis by (simp add: notify_long_frozen_def)
qed

lemma notify_once: "fst (notify_long_frozen after_s later (snd (notify_long_frozen after_s now r))) =
    map (\<lambda>(k, e). (la_public_id e, la_name e)) (filter (\<lambda>(k, e). \<not> frozen_too_long after_s now e \<and> frozen_too_long after_s later e) (rg_apps r))"
  if "0 < after_s"
proof -
  have "map (\<lambda>(k, e). (la_public_id e, la_name e)) (filter (\<lambda>(k, e). frozen_too_long after_s later e)
      (map (\<lambda>(k, e). (k, if frozen_too_long after_s now e then e\<lparr>la_freeze_notified := True\<rparr> else e)) al)) =
    map (\<lambda>(k, e). (la_public_id e, la_name e)) (filter (\<lambda>(k, e). \<not> frozen_too_long after_s now e \<and> frozen_too_long after_s later e) al)"
    for al :: "(string \<times> limited_app) list"
    by (induction al) (auto simp: frozen_too_long_def split: if_splits)
  then show ?thesis using that by (simp add: notify_long_frozen_def)
qed

subsection \<open>Properties\<close>

text \<open>A world that logs the writes of a restore: what was written, to which cgroup, and whether the write succeeded.\<close>

datatype lift_kind = SysLift | DiskLift "string list" | Thaw

definition logs_lifts :: "'w manual_host \<Rightarrow> ('w \<Rightarrow> (lift_kind \<times> string \<times> bool) list) \<Rightarrow> bool" where
  "logs_lifts host tr \<longleftrightarrow>
     (\<forall>cg w ok w'. lk_lift (lh_kernel host) cg w = (ok, w') \<longrightarrow> tr w' = tr w @ [(SysLift, cg, ok)])
   \<and> (\<forall>cg d w ok w'. lk_io_lift (lh_kernel host) cg d w = (ok, w') \<longrightarrow> tr w' = tr w @ [(DiskLift d, cg, ok)])
   \<and> (\<forall>cg w ok w'. mh_freeze host cg False w = (ok, w') \<longrightarrow> tr w' = tr w @ [(Thaw, cg, ok)])"

definition lifts_of :: "limited_app \<Rightarrow> string \<Rightarrow> (lift_kind \<times> string) list" where
  "lifts_of e cg = (if la_cpu_mem e then [(SysLift, cg)] else []) @ (if la_io e then [(DiskLift (la_disks e), cg)] else [])"

definition planned_lifts :: "(string \<Rightarrow> bool) \<Rightarrow> limited_app \<Rightarrow> string list \<Rightarrow> (lift_kind \<times> string) list" where
  \<comment> \<open>every channel the entry has capped, on every cgroup that is left; and all cgroups of a frozen entry\<close>
  "planned_lifts alive e cgs = concat (map (lifts_of e) (filter alive cgs)) @ (if la_frozen e then map (Pair Thaw) cgs else [])"

definition write_of :: "lift_kind \<times> string \<times> bool \<Rightarrow> lift_kind \<times> string" where
  "write_of x = (fst x, fst (snd x))"

lemma lift_one_log:
  assumes "logs_lifts host tr" "lift_one host e cg w = (ok, w')"
  shows "\<exists>L. tr w' = tr w @ L \<and> map write_of L = lifts_of e cg \<and> (ok \<longleftrightarrow> (\<forall>x\<in>set L. snd (snd x)))"
proof -
  obtain ok1 w1 where 1: "lk_lift (lh_kernel host) cg w = (ok1, w1)" by fastforce
  obtain ok2 w2 where 2: "lk_io_lift (lh_kernel host) cg (la_disks e) (if la_cpu_mem e then w1 else w) = (ok2, w2)" by fastforce
  have l1: "tr w1 = tr w @ [(SysLift, cg, ok1)]" using assms(1) 1 unfolding logs_lifts_def by blast
  have l2: "tr w2 = tr (if la_cpu_mem e then w1 else w) @ [(DiskLift (la_disks e), cg, ok2)]"
    using assms(1) 2 unfolding logs_lifts_def by blast
  let ?L = "(if la_cpu_mem e then [(SysLift, cg, ok1)] else []) @ (if la_io e then [(DiskLift (la_disks e), cg, ok2)] else [])"
  have "tr w' = tr w @ ?L \<and> (ok \<longleftrightarrow> (\<forall>x\<in>set ?L. snd (snd x)))"
    using assms(2) 1 2 l1 l2 by (cases "la_cpu_mem e"; cases "la_io e"; simp add: lift_one_def)
  moreover have "map write_of ?L = lifts_of e cg" by (simp add: write_of_def lifts_of_def)
  ultimately show ?thesis by blast
qed

lemma lift_each_log:
  assumes "logs_lifts host tr" "lift_each host (\<lambda>v. alive) e False cgs w = (ok, w')"
  shows "ok \<and> (\<exists>L. tr w' = tr w @ L \<and> map write_of L = concat (map (lifts_of e) (filter alive cgs)))"
  using assms(2)
proof (induction cgs arbitrary: w ok)
  case (Cons cg cgs)
  show ?case
  proof (cases "alive cg")
    case False
    then have "lift_each host (\<lambda>v. alive) e False cgs w = (ok, w')" using Cons.prems by simp
    from Cons.IH [OF this] False show ?thesis by simp
  next
    case True
    obtain ok1 w1 where l: "lift_one host e cg w = (ok1, w1)" by fastforce
    obtain rest where r: "lift_each host (\<lambda>v. alive) e False cgs w1 = (rest, w')" "ok = rest"
      using Cons.prems True l by (auto split: prod.splits)
    obtain L1 where L1: "tr w1 = tr w @ L1" "map write_of L1 = lifts_of e cg" using lift_one_log [OF assms(1) l] by blast
    obtain L2 where L2: "rest" "tr w' = tr w1 @ L2" "map write_of L2 = concat (map (lifts_of e) (filter alive cgs))"
      using Cons.IH [OF r(1)] by blast
    then show ?thesis using L1 r(2) True by (intro conjI exI [of _ "L1 @ L2"]) simp_all
  qed
qed simp

lemma thaw_log:
  assumes "logs_lifts host tr" "thaw_cgroups host cgs w = (ok, w')"
  shows "\<exists>L. tr w' = tr w @ L \<and> map write_of L = map (Pair Thaw) cgs \<and> (ok \<longleftrightarrow> (\<forall>x\<in>set L. snd (snd x)))"
  using assms(2)
proof (induction cgs arbitrary: w ok)
  case (Cons cg cgs)
  obtain ok1 w1 where f: "mh_freeze host cg False w = (ok1, w1)" by fastforce
  have t: "tr w1 = tr w @ [(Thaw, cg, ok1)]" using assms(1) f unfolding logs_lifts_def by blast
  obtain ok2 where r: "thaw_cgroups host cgs w1 = (ok2, w')" "ok = (ok1 \<and> ok2)" using Cons.prems f by (auto split: prod.splits)
  obtain L where L: "tr w' = tr w1 @ L" "map write_of L = map (Pair Thaw) cgs" "ok2 \<longleftrightarrow> (\<forall>x\<in>set L. snd (snd x))"
    using Cons.IH [OF r(1)] by blast
  have "write_of (Thaw, cg, ok1) = (Thaw, cg)" by (simp add: write_of_def)
  then show ?case using t r(2) L by (intro exI [of _ "(Thaw, cg, ok1) # L"]) simp
qed simp

definition written_cgroups :: "limited_app \<Rightarrow> string list" where
  "written_cgroups e = (if la_cgroups e = [] then [la_public_id e] else la_cgroups e)"

lemma lifts_of_cgroup: "x \<in> set (lifts_of e cg) \<Longrightarrow> snd x = cg \<and> fst x \<noteq> Thaw"
  by (auto simp: lifts_of_def split: if_splits)

lemma restore_entry_log:
  assumes "logs_lifts host tr" "restore_entry host (\<lambda>v. alive) e w = (ok, w')" "distinct (written_cgroups e)"
  shows "\<exists>L. tr w' = tr w @ L \<and> map write_of L = planned_lifts alive e (written_cgroups e)
    \<and> (ok \<longleftrightarrow> (\<forall>(kind, cg, good)\<in>set L. kind = Thaw \<or> cg = hd (written_cgroups e) \<longrightarrow> good))"
proof -
  obtain p rest where c: "written_cgroups e = p # rest" by (cases "written_cgroups e") (auto simp: written_cgroups_def split: if_splits)
  obtain okl w1 where l: "lift_each host (\<lambda>v. alive) e True (p # rest) w = (okl, w1)" by fastforce
  obtain okt w2 where t: "thaw_cgroups host (p # rest) w1 = (okt, w2)" by fastforce
  have out: "ok = (okl \<and> (la_frozen e \<longrightarrow> okt))" "w' = (if la_frozen e then w2 else w1)"
    using assms(2) l t c unfolding restore_entry_def Let_def written_cgroups_def [symmetric] by (cases "la_frozen e"; simp)+
  have "\<exists>L1 L2. tr w1 = tr w @ L1 @ L2 \<and> map write_of L1 = (if alive p then lifts_of e p else [])
      \<and> map write_of L2 = concat (map (lifts_of e) (filter alive rest)) \<and> (okl \<longleftrightarrow> (\<forall>x\<in>set L1. snd (snd x)))"
  proof (cases "alive p")
    case False
    then have "lift_each host (\<lambda>v. alive) e False rest w = (okl, w1)" using l by simp
    from lift_each_log [OF assms(1) this] False show ?thesis by auto
  next
    case True
    obtain ok1 wa where l1: "lift_one host e p w = (ok1, wa)" by fastforce
    obtain ok2 where l2: "lift_each host (\<lambda>v. alive) e False rest wa = (ok2, w1)" "okl = (ok1 \<and> ok2)"
      using l True l1 by (auto split: prod.splits)
    obtain L1 where L1: "tr wa = tr w @ L1" "map write_of L1 = lifts_of e p" "ok1 \<longleftrightarrow> (\<forall>x\<in>set L1. snd (snd x))"
      using lift_one_log [OF assms(1) l1] by blast
    obtain L2 where "ok2" "tr w1 = tr wa @ L2" "map write_of L2 = concat (map (lifts_of e) (filter alive rest))"
      using lift_each_log [OF assms(1) l2(1)] by blast
    then show ?thesis using L1 l2(2) True by (intro exI [of _ L1] exI [of _ L2]) simp
  qed
  then obtain L1 L2 where L: "tr w1 = tr w @ L1 @ L2" "map write_of L1 = (if alive p then lifts_of e p else [])"
      "map write_of L2 = concat (map (lifts_of e) (filter alive rest))" "okl \<longleftrightarrow> (\<forall>x\<in>set L1. snd (snd x))" by blast
  obtain L3 where L3: "tr w2 = tr w1 @ L3" "map write_of L3 = map (Pair Thaw) (p # rest)" "okt \<longleftrightarrow> (\<forall>x\<in>set L3. snd (snd x))"
    using thaw_log [OF assms(1) t] by blast
  let ?T = "if la_frozen e then L3 else []"
  have log: "tr w' = tr w @ (L1 @ L2 @ ?T)" using out(2) L(1) L3(1) by simp
  have plan: "map write_of (L1 @ L2 @ ?T) = planned_lifts alive e (p # rest)"
    using L(2,3) L3(2) by (simp add: planned_lifts_def)
  have k1: "fst x \<noteq> Thaw \<and> fst (snd x) = p" if "x \<in> set L1" for x
  proof -
    have "write_of x \<in> set (map write_of L1)" using that by simp
    then have "write_of x \<in> set (lifts_of e p)" unfolding L(2) by (auto split: if_splits)
    from lifts_of_cgroup [OF this] show ?thesis by (simp add: write_of_def)
  qed
  have k2: "fst x \<noteq> Thaw \<and> fst (snd x) \<noteq> p" if "x \<in> set L2" for x
  proof -
    have "write_of x \<in> set (map write_of L2)" using that by simp
    then obtain cg where "cg \<in> set rest" "write_of x \<in> set (lifts_of e cg)" unfolding L(3) by auto
    moreover have "p \<notin> set rest" using assms(3) c by simp
    ultimately show ?thesis using lifts_of_cgroup [of "write_of x" e cg] by (auto simp: write_of_def)
  qed
  have k3: "fst x = Thaw" if "x \<in> set L3" for x
  proof -
    have "write_of x \<in> set (map write_of L3)" using that by simp
    then show ?thesis unfolding L3(2) by (auto simp: write_of_def)
  qed
  have "ok \<longleftrightarrow> (\<forall>(kind, cg, good)\<in>set (L1 @ L2 @ ?T). kind = Thaw \<or> cg = hd (p # rest) \<longrightarrow> good)"
  proof -
    define Q where "Q x \<longleftrightarrow> (fst x = Thaw \<or> fst (snd x) = p \<longrightarrow> snd (snd x))" for x :: "lift_kind \<times> string \<times> bool"
    have "(\<forall>x\<in>set L1. Q x) \<longleftrightarrow> okl" unfolding L(4) by (rule ball_cong) (simp_all add: Q_def k1)
    moreover have "\<forall>x\<in>set L2. Q x" using k2 by (simp add: Q_def)
    moreover have "(\<forall>x\<in>set L3. Q x) \<longleftrightarrow> okt" unfolding L3(3) by (rule ball_cong) (simp_all add: Q_def k3)
    ultimately have "ok \<longleftrightarrow> (\<forall>x\<in>set (L1 @ L2 @ ?T). Q x)" using out(1) by (cases "la_frozen e") auto
    then show ?thesis by (simp add: Q_def case_prod_beta)
  qed
  then show ?thesis using log plan unfolding c by blast
qed

text \<open>C22: a restore by the user succeeds exactly when its writes do, and one that fails can be tried again. The call lifts
  every channel the entry has capped on every cgroup of it that is left, and thaws all cgroups of a frozen entry, in that
  order and whatever single writes answer; it writes no other cgroup. It reports success exactly when all writes to the
  primary cgroup and all thaws succeeded. On success the entry and its recorded peak are gone, every other entry and peak is
  kept, and with the exclusion asked for no candidate with one of its ids comes back to the pressure loop; on failure the
  registry is as it was, so the same call finds the same entry again.\<close>
theorem user_restore_retryable:
  assumes h: "limit_host_ok host view" "writes_only view (\<lambda>c. mh_freeze host c False)" and l: "logs_lifts host tr"
    and s: "restore_auto_limited host (\<lambda>v. alive) app_id exclude (r, w) = (ok, r', w')"
    and f: "find_auto app_id r = Some (k, e)" and d: "distinct (written_cgroups e)"
  shows "(\<exists>L. tr w' = tr w @ L \<and> map write_of L = planned_lifts alive e (written_cgroups e)
        \<and> (ok \<longleftrightarrow> (\<forall>(kind, cg, good)\<in>set L. kind = Thaw \<or> cg = hd (written_cgroups e) \<longrightarrow> good)))
    \<and> (\<forall>cg. cg \<notin> set (written_cgroups e) \<longrightarrow> view w' cg = view w cg)
    \<and> (\<not> ok \<longrightarrow> r' = r)
    \<and> (ok \<longrightarrow> rg_apps r' = AList.delete k (rg_apps r) \<and> rg_baseline r' = AList.delete k (rg_baseline r))
    \<and> (ok \<and> exclude \<longrightarrow> (\<forall>ca cgs name i. i \<in> set (ca # cgs) \<and> i \<noteq> [] \<and> (i = la_public_id e \<or> i \<in> set (la_cgroups e))
         \<longrightarrow> is_excluded ca name cgs r' \<noteq> None))"
proof -
  obtain b w1 where re: "restore_entry host (\<lambda>v. alive) e w = (b, w1)" by fastforce
  have out: "ok = b" "w' = w1"
    "r' = (if b then (if exclude then add_exclusion e ''user_restore'' (drop_entry k r) else drop_entry k r)\<lparr>rg_dominant := False\<rparr> else r)"
    using s by (cases b; simp add: restore_auto_limited_def f re)+
  obtain okl wl where l1: "lift_each host (\<lambda>v. alive) e True (written_cgroups e) w = (okl, wl)" by fastforce
  have w1: "w1 = (if la_frozen e then snd (thaw_cgroups host (written_cgroups e) wl) else wl)"
    using re l1 unfolding restore_entry_def Let_def written_cgroups_def [symmetric] by (auto split: prod.splits if_splits)
  have frame: "view w' cg = view w cg" if cg: "cg \<notin> set (written_cgroups e)" for cg
  proof -
    have "view (snd (thaw_cgroups host (written_cgroups e) wl)) cg = view wl cg"
      using thaw_other [of cg view host "written_cgroups e" wl, OF _ cg prod.collapse [symmetric]] writes_onlyD [OF h(2)] by (metis prod.collapse)
    then show ?thesis using lift_each_other [OF h(1) l1 cg] w1 out(2) by simp
  qed
  have ex: "is_excluded ca name cgs r' \<noteq> None"
    if "ok \<and> exclude" "i \<in> set (ca # cgs)" "i \<noteq> []" "i = la_public_id e \<or> i \<in> set (la_cgroups e)" for ca cgs name i
  proof -
    have "rg_exclusions r' = rg_exclusions (add_exclusion e ''user_restore'' (drop_entry k r))" using out that(1) by simp
    then have "is_excluded ca name cgs r' = is_excluded ca name cgs (add_exclusion e ''user_restore'' (drop_entry k r))"
      by (simp add: is_excluded_def)
    then show ?thesis using excluded_by_id [OF that(2-4)] by simp
  qed
  have "(\<not> ok \<longrightarrow> r' = r) \<and> (ok \<longrightarrow> rg_apps r' = AList.delete k (rg_apps r) \<and> rg_baseline r' = AList.delete k (rg_baseline r))"
    using out by (simp add: drop_entry_def add_exclusion_def)
  moreover have "ok \<and> exclude \<longrightarrow> (\<forall>ca cgs name i. i \<in> set (ca # cgs) \<and> i \<noteq> [] \<and> (i = la_public_id e \<or> i \<in> set (la_cgroups e))
         \<longrightarrow> is_excluded ca name cgs r' \<noteq> None)"
    by (intro impI allI, elim conjE, rule ex) simp_all
  ultimately show ?thesis using frame restore_entry_log [OF l re d] unfolding out(1,2) by blast
qed

text \<open>the reaper takes exactly the closed applications. After its pass an entry is gone when its application is closed and
  otherwise unchanged, but for the mark that its owner has been reminded of a long freeze; the cgroups of the closed ones
  are those restored; and a second reminder in the same state names nobody twice.\<close>
theorem reaper_exact:
  assumes a: "reap_closed_apps host exists rd status after_s now (r, w) = (due, r', w')" and d: "distinct (map fst (rg_apps r))"
  shows "map_of (rg_apps r') k = (case map_of (rg_apps r) k of None \<Rightarrow> None
      | Some e \<Rightarrow> if entry_closed rd status e then None
                 else Some (if 0 < after_s \<and> frozen_too_long after_s now e then e\<lparr>la_freeze_notified := True\<rparr> else e))
    \<and> (\<exists>gone. w' = restore_sweep host exists gone w \<and> set gone = {e. \<exists>k. map_of (rg_apps r) k = Some e \<and> entry_closed rd status e})
    \<and> fst (notify_long_frozen after_s now r') = []"
proof -
  obtain gone r1 where g: "reap_registry rd status (map fst (rg_apps r)) r = (gone, r1)" by fastforce
  have out: "r' = snd (notify_long_frozen after_s now r1)" "w' = restore_sweep host exists gone w"
    using a g by (auto simp: reap_closed_apps_def split: prod.splits)
  have keys: "k \<in> set (map fst (rg_apps r))" if "map_of (rg_apps r) k = Some e" for k e
    using map_of_SomeD [OF that] by force
  have m: "map_of (rg_apps r1) k = (case map_of (rg_apps r) k of None \<Rightarrow> None | Some e \<Rightarrow> if entry_closed rd status e then None else Some e)"
    using reap_registry_map [OF g d, of k] keys [of k] by (auto split: option.splits)
  have gs: "set gone = {e. \<exists>k. map_of (rg_apps r) k = Some e \<and> entry_closed rd status e}"
    using reap_registry_map [OF g d] keys by blast
  have "fst (notify_long_frozen after_s now r') = []"
  proof (cases "0 < after_s")
    case True
    show ?thesis unfolding out(1) notify_once [OF True] by simp
  next
    case False
    then show ?thesis by (simp add: notify_long_frozen_def)
  qed
  moreover have "map_of (rg_apps r') k = (case map_of (rg_apps r) k of None \<Rightarrow> None
      | Some e \<Rightarrow> if entry_closed rd status e then None
                 else Some (if 0 < after_s \<and> frozen_too_long after_s now e then e\<lparr>la_freeze_notified := True\<rparr> else e))"
    unfolding out(1) notify_map m by (simp split: option.splits)
  ultimately show ?thesis using out(2) gs by blast
qed

definition log_lifts_host :: "string list \<Rightarrow> (lift_kind \<times> string \<times> bool) list manual_host" where
  \<comment> \<open>its world is the log; lifting a cap of a cgroup of the list fails\<close>
  "log_lifts_host bad =
     \<lparr>lh_kernel = \<lparr>lk_relax = (\<lambda>cg c m w. (True, w)), lk_lift = (\<lambda>cg w. (cg \<notin> set bad, w @ [(SysLift, cg, cg \<notin> set bad)])),
        lk_io_cap = (\<lambda>cg i d w. (True, w)), lk_io_lift = (\<lambda>cg d w. (True, w @ [(DiskLift d, cg, True)])), lk_total_mem = 1000\<rparr>,
      lh_cap = (\<lambda>cg c m w. (True, w)), lh_throttle = (\<lambda>cg l d w. (True, w)),
      lh_current = (\<lambda>w cg. None), lh_swapped = (\<lambda>w cg. None), lh_stressed = (\<lambda>w. []),
      lh_disks = (\<lambda>w f. f), lh_scales = PDict [], lh_media = (\<lambda>d. Hdd),
      mh_freeze = (\<lambda>cg b w. (True, w @ [(Thaw, cg, True)])), mh_reclaim = (\<lambda>cg n w. w)\<rparr>"

lemma log_lifts_host_ok:
  "logs_lifts (log_lifts_host bad) (\<lambda>w. w)" "limit_host_ok (log_lifts_host bad) (\<lambda>w cg. filter (\<lambda>x. fst (snd x) = cg) w)"
  "writes_only (\<lambda>w cg. filter (\<lambda>x. fst (snd x) = cg) w) (\<lambda>c. mh_freeze (log_lifts_host bad) c False)"
  by (auto simp: logs_lifts_def limit_host_ok_def writes_only_def log_lifts_host_def)

theorem user_restore_retryable_witness:
  "\<exists>r' w'. restore_auto_limited (log_lifts_host [''a.scope'']) (\<lambda>w c. True) ''app'' True (demo_registry, []) = (False, r', w')
     \<and> map_of (rg_apps r') ''a.scope'' = Some demo_app
     \<and> map write_of w' = planned_lifts (\<lambda>c. True) demo_app [''a.scope'']"
proof -
  have f: "find_auto ''app'' demo_registry = Some (''a.scope'', demo_app)"
    by (simp add: find_auto_def by_public_id_def demo_registry_def source_matches_def demo_app_def fresh_entry_def)
  have nf: "\<not> la_frozen demo_app" "la_cpu_mem demo_app" and c: "la_cgroups demo_app = [''a.scope'']" "written_cgroups demo_app = [''a.scope'']"
    by (simp_all add: demo_app_def fresh_entry_def uniq_def written_cgroups_def)
  obtain r' w' where s: "restore_auto_limited (log_lifts_host [''a.scope'']) (\<lambda>w c. True) ''app'' True (demo_registry, []) = (False, r', w')"
    by (simp add: restore_auto_limited_def f restore_entry_def nf c lift_one_def log_lifts_host_def split: prod.splits)
  have d: "distinct (written_cgroups demo_app)" by (simp add: c)
  from user_restore_retryable [OF log_lifts_host_ok(2,3,1) s f d] have "r' = demo_registry"
    "map write_of w' = planned_lifts (\<lambda>c. True) demo_app [''a.scope'']" by (auto simp: c)
  then show ?thesis using s by (simp add: demo_registry_def)
qed

theorem reaper_exact_witness:
  "\<exists>due r' w'. reap_closed_apps (frost_host []) (\<lambda>w c. True) (\<lambda>p. ProcMissing) (\<lambda>i n. Some ''stopped'') 60 100 (demo_registry, \<lambda>c. False) = (due, r', w')
     \<and> map_of (rg_apps r') ''a.scope'' = None"
proof -
  obtain due r' w' where a: "reap_closed_apps (frost_host []) (\<lambda>w c. True) (\<lambda>p. ProcMissing) (\<lambda>i n. Some ''stopped'') 60 100 (demo_registry, \<lambda>c. False)
      = (due, r', w')" by (metis surj_pair)
  have "entry_closed (\<lambda>p. ProcMissing) (\<lambda>i n. Some ''stopped'') demo_app" "map_of (rg_apps demo_registry) ''a.scope'' = Some demo_app"
    by (simp_all add: entry_closed_def demo_app_def fresh_entry_def demo_registry_def)
  then have "map_of (rg_apps r') ''a.scope'' = None" using reaper_exact [OF a demo_lookup(3), of "''a.scope''"] by simp
  then show ?thesis using a by blast
qed

text \<open>The reaper drops an entry before it restores: when the restore fails, the limit stays in force on no record.\<close>
lemma reaper_forgets_failed_restore:
  "\<exists>due r' w'. reap_closed_apps (frost_host [''a.scope'']) (\<lambda>w c. True) (\<lambda>p. ProcMissing) (\<lambda>i n. Some ''stopped'') 0 100 (demo_registry, w) = (due, r', w')
     \<and> rg_apps r' = [] \<and> fst (restore_entry (frost_host [''a.scope'']) (\<lambda>w c. True) demo_app w) = False"
proof -
  have c: "entry_closed (\<lambda>p. ProcMissing) (\<lambda>i n. Some ''stopped'') demo_app"
    by (simp add: entry_closed_def demo_app_def fresh_entry_def)
  have nf: "\<not> la_frozen demo_app" by (simp add: demo_app_def fresh_entry_def)
  have "fst (restore_entry (frost_host [''a.scope'']) (\<lambda>w c. True) demo_app w) = False"
    by (simp add: restore_entry_def nf lift_one_def frost_host_def)
  moreover have "rg_apps (fst (snd (reap_closed_apps (frost_host [''a.scope'']) (\<lambda>w c. True) (\<lambda>p. ProcMissing) (\<lambda>i n. Some ''stopped'') 0 100 (demo_registry, w)))) = []"
    by (simp add: reap_closed_apps_def demo_registry_def c notify_long_frozen_def reap_one_def drop_entry_def split: prod.splits)
  ultimately show ?thesis by (metis prod.collapse)
qed

end
