(* ===== verification/Prefetch.thy ===== *)
theory Prefetch
  imports Limit_Policy
begin

text \<open>
  The cache of top consumers (\<open>TopConsumerPrefetcher\<close>) and the edges that warm it (\<open>_maybe_trigger_prefetch\<close>,
  \<open>_maybe_prefetch_early\<close>) in \<open>balancer/balancer/balancer.py\<close>. The sampling pipeline is an argument: what a fetch
  returns, and the cache found after a wait, are given. A second model takes \<open>start\<close> apart into its check and its
  act, as the threads that call it interleave.
\<close>

subsection \<open>The cache\<close>

record 'a prefetcher =
  pf_apps :: "'a list"
  pf_reach :: bool
  pf_fetched_at :: real
  pf_inflight :: bool

definition prefetcher_init :: "'a prefetcher" where
  "prefetcher_init = \<lparr>pf_apps = [], pf_reach = False, pf_fetched_at = 0, pf_inflight = False\<rparr>"

definition cache_ttl :: real where "cache_ttl = 5"
definition max_cache_age :: real where "max_cache_age = 30"
definition sustained_critical_refresh :: real where "sustained_critical_refresh = 45"

definition start_blocked :: "real \<Rightarrow> 'a prefetcher \<Rightarrow> bool" where
  \<comment> \<open>the two early returns of \<open>start\<close>\<close>
  "start_blocked now p \<longleftrightarrow> pf_inflight p \<or> (pf_apps p \<noteq> [] \<and> now - pf_fetched_at p < cache_ttl)"

definition pf_start :: "real \<Rightarrow> 'a prefetcher \<Rightarrow> bool \<times> 'a prefetcher" where
  \<comment> \<open>whether a worker was spawned\<close>
  "pf_start now p = (if start_blocked now p then (False, p) else (True, p\<lparr>pf_inflight := True\<rparr>))"

definition pf_finish :: "real \<Rightarrow> ('a list \<times> bool) option \<Rightarrow> 'a prefetcher \<Rightarrow> 'a prefetcher" where
  \<comment> \<open>the end of a worker; None: the fetch raised\<close>
  "pf_finish now result p =
     (case result of
        None \<Rightarrow> p\<lparr>pf_inflight := False\<rparr>
      | Some (apps, threshold) \<Rightarrow> p\<lparr>pf_apps := apps, pf_reach := threshold, pf_fetched_at := now, pf_inflight := False\<rparr>)"

definition pf_is_stale :: "real \<Rightarrow> 'a prefetcher \<Rightarrow> bool" where
  "pf_is_stale now p \<longleftrightarrow> pf_apps p = [] \<or> now - pf_fetched_at p > max_cache_age"

datatype resolved_by = Cached | CachedRefreshing | AfterWait | Blocking

definition resolve_for_critical ::
  "real \<Rightarrow> 'a prefetcher \<Rightarrow> ('a list \<times> bool) \<Rightarrow> 'a prefetcher \<Rightarrow> resolved_by \<times> ('a list \<times> bool) \<times> 'a prefetcher" where
  \<comment> \<open>the cache as found, what a blocking fetch would return, the cache as found after the wait\<close>
  "resolve_for_critical now after_wait fetched p =
     (if pf_fetched_at p \<noteq> 0
      then if now - pf_fetched_at p > max_cache_age
           then (CachedRefreshing, (pf_apps p, pf_reach p), snd (pf_start now p))
           else (Cached, (pf_apps p, pf_reach p), p)
      else if pf_inflight p \<and> pf_fetched_at after_wait \<noteq> 0
      then (AfterWait, (pf_apps after_wait, pf_reach after_wait), after_wait)
      else (Blocking, fetched, if pf_inflight p then after_wait else p))"

record fetch_cost =
  fc_runs :: nat
  fc_wall :: real
  fc_cpu :: real
  fc_sync_runs :: nat
  fc_sync_wall :: real
  fc_first_at :: real

definition record_cost :: "real \<Rightarrow> real \<Rightarrow> real \<Rightarrow> bool \<Rightarrow> fetch_cost \<Rightarrow> fetch_cost" where
  "record_cost now wall cpu synchronous c =
     c\<lparr>fc_first_at := (if fc_first_at c = 0 then now - wall else fc_first_at c),
       fc_runs := fc_runs c + 1, fc_wall := fc_wall c + wall, fc_cpu := fc_cpu c + cpu,
       fc_sync_runs := (if synchronous then fc_sync_runs c + 1 else fc_sync_runs c),
       fc_sync_wall := (if synchronous then fc_sync_wall c + wall else fc_sync_wall c)\<rparr>"

subsection \<open>What warms it\<close>

datatype warm_reason = EnteringHigh | EnteringPreOom | MemoryClimbing | SustainedCritical | EnteringDiskHigh | SustainedDisk

record warm_state =
  ws_prev_pressure :: "level option"
  ws_prev_pre_oom :: bool
  ws_critical_since :: "real option"
  ws_last_recheck :: real
  ws_prev_disk :: "level option"
  ws_disk_since :: "real option"
  ws_disk_recheck :: real

definition warm_init :: warm_state where
  "warm_init = \<lparr>ws_prev_pressure = None, ws_prev_pre_oom = False, ws_critical_since = None, ws_last_recheck = 0,
     ws_prev_disk = None, ws_disk_since = None, ws_disk_recheck = 0\<rparr>"

definition mem_rise_trigger :: real where "mem_rise_trigger = 10/100"

definition maybe_prefetch_early :: "bool \<Rightarrow> real option \<Rightarrow> warm_state \<Rightarrow> warm_reason list \<times> warm_state" where
  "maybe_prefetch_early pre_oom rise s =
     (let entering_band = (pre_oom \<and> \<not> ws_prev_pre_oom s);
          s1 = s\<lparr>ws_prev_pre_oom := pre_oom\<rparr>
      in if entering_band then ([EnteringPreOom], s1)
         else case rise of None \<Rightarrow> ([], s1) | Some r \<Rightarrow> if r \<ge> mem_rise_trigger then ([MemoryClimbing], s1) else ([], s1))"

definition warm_sys :: "real \<Rightarrow> level \<Rightarrow> warm_state \<Rightarrow> warm_reason list \<times> warm_state" where
  \<comment> \<open>the sustained recheck of the system channel\<close>
  "warm_sys now pressure s =
     (if pressure \<noteq> Critical then ([], s\<lparr>ws_critical_since := None\<rparr>)
      else if ws_critical_since s = None then ([], s\<lparr>ws_critical_since := Some now, ws_last_recheck := now\<rparr>)
      else if now - ws_last_recheck s \<ge> sustained_critical_refresh then ([SustainedCritical], s\<lparr>ws_last_recheck := now\<rparr>)
      else ([], s))"

definition warm_disk :: "real \<Rightarrow> level \<Rightarrow> level \<Rightarrow> warm_state \<Rightarrow> warm_reason list \<times> warm_state" where
  "warm_disk now pressure disk_level s =
     (let stressed = (disk_level = High \<or> disk_level = Critical);
          prefetch_ok = (stressed \<and> pressure \<noteq> Critical);
          edge = (if prefetch_ok \<and> ws_prev_disk s \<noteq> Some High \<and> ws_prev_disk s \<noteq> Some Critical then [EnteringDiskHigh] else [])
      in if \<not> stressed then (edge, s\<lparr>ws_disk_since := None\<rparr>)
         else if ws_disk_since s = None then (edge, s\<lparr>ws_disk_since := Some now, ws_disk_recheck := now\<rparr>)
         else if now - ws_disk_recheck s \<ge> sustained_critical_refresh \<and> prefetch_ok
         then (edge @ [SustainedDisk], s\<lparr>ws_disk_recheck := now\<rparr>)
         else (edge, s))"

definition maybe_trigger_prefetch ::
  "real \<Rightarrow> level \<Rightarrow> level \<Rightarrow> bool \<Rightarrow> bool \<Rightarrow> real option \<Rightarrow> warm_state \<times> mloop \<Rightarrow> warm_reason list \<times> warm_state \<times> mloop" where
  "maybe_trigger_prefetch now pressure disk_level passive pre_oom rise st =
     (case st of (s, m) \<Rightarrow>
        if \<not> passive then ([], s\<lparr>ws_critical_since := None, ws_disk_since := None\<rparr>, m)
        else
          (let high = (if pressure = High \<and> ws_prev_pressure s \<noteq> Some High then [EnteringHigh] else []);
               (early, s1) = maybe_prefetch_early pre_oom rise s;
               (sys, s2) = warm_sys now pressure s1;
               (disk, s3) = warm_disk now pressure disk_level s2;
               m1 = (if \<not> (disk_level = High \<or> disk_level = Critical) \<and> ml_top_source m = Some ChDisk \<and> ml_batch m \<noteq> []
                     then drop_top_batch m else m)
           in (high @ early @ sys @ disk, s3, m1)))"

subsection \<open>Starting from several threads\<close>

datatype caller = Outside | Checked

record gate =
  gt_inflight :: bool
  gt_workers :: nat
  gt_callers :: "nat \<Rightarrow> caller"

definition gate_init :: gate where
  "gate_init = \<lparr>gt_inflight = False, gt_workers = 0, gt_callers = (\<lambda>t. Outside)\<rparr>"

inductive gate_step :: "gate \<Rightarrow> gate \<Rightarrow> bool" where
  check: "gt_callers g t = Outside \<Longrightarrow> \<not> gt_inflight g \<Longrightarrow>
    gate_step g (g\<lparr>gt_callers := (gt_callers g)(t := Checked)\<rparr>)"
| spawn: "gt_callers g t = Checked \<Longrightarrow>
    gate_step g (g\<lparr>gt_inflight := True, gt_workers := gt_workers g + 1, gt_callers := (gt_callers g)(t := Outside)\<rparr>)"
| finish: "0 < gt_workers g \<Longrightarrow> gate_step g (g\<lparr>gt_inflight := False, gt_workers := gt_workers g - 1\<rparr>)"

inductive gate_reach :: "(nat \<Rightarrow> bool) \<Rightarrow> gate \<Rightarrow> bool" for may_call where
  init: "gate_reach may_call gate_init"
| step: "gate_reach may_call g \<Longrightarrow> gate_step g g' \<Longrightarrow> (\<forall>t. gt_callers g' t = Checked \<longrightarrow> may_call t) \<Longrightarrow> gate_reach may_call g'"

text \<open>one triggering thread never has two fetches in flight. As long as all the calls of \<open>start\<close> come from a single
  thread, at most one worker runs, and the gate is closed exactly while it runs.\<close>
theorem single_trigger_single_flight:
  assumes "gate_reach (\<lambda>t. t = one) g"
  shows "gt_workers g \<le> 1 \<and> (gt_inflight g \<longleftrightarrow> gt_workers g = 1)"
proof -
  have "gt_workers g \<le> 1 \<and> (gt_inflight g \<longleftrightarrow> gt_workers g = 1)
      \<and> (\<forall>t. gt_callers g t = Checked \<longrightarrow> t = one) \<and> (gt_callers g one = Checked \<longrightarrow> gt_workers g = 0)"
    using assms
  proof induction
    case init
    show ?case by (simp add: gate_init_def)
  next
    case (step g g')
    note ih = step.IH and one = step.hyps(3)
    from step.hyps(2) show ?case
    proof (cases rule: gate_step.cases)
      case (check t)
      have "gt_workers g = 0" using ih check(3) by linarith
      then have "gt_workers g' = 0" "\<not> gt_inflight g'" using check by simp_all
      then show ?thesis using one by simp
    next
      case (spawn t)
      have t: "t = one" using ih spawn(2) by blast
      then have "gt_workers g = 0" using ih spawn(2) by blast
      then have "gt_workers g' = 1" "gt_inflight g'" "gt_callers g' one \<noteq> Checked" by (simp_all add: spawn(1) t)
      then show ?thesis using one by simp
    next
      case finish
      have "gt_workers g = 1" using ih finish(2) by linarith
      then have "gt_workers g' = 0" "\<not> gt_inflight g'" by (simp_all add: finish(1))
      then show ?thesis using one by simp
    qed
  qed
  then show ?thesis by blast
qed

theorem single_trigger_single_flight_witness:
  "\<exists>g. gate_reach (\<lambda>t. t = 7) g \<and> gt_workers g = 1 \<and> gt_inflight g"
proof -
  let ?g1 = "gate_init\<lparr>gt_callers := (gt_callers gate_init)(7 := Checked)\<rparr>"
  let ?g2 = "?g1\<lparr>gt_inflight := True, gt_workers := gt_workers ?g1 + 1, gt_callers := (gt_callers ?g1)(7 := Outside)\<rparr>"
  let ?R = "gate_reach (\<lambda>t. t = 7)"
  have "gate_step gate_init ?g1" by (rule gate_step.check) (simp_all add: gate_init_def)
  with gate_reach.init have 1: "?R ?g1" by (rule gate_reach.step) (auto simp: gate_init_def)
  have "gate_step ?g1 ?g2" by (rule gate_step.spawn) (simp add: gate_init_def)
  with 1 have 2: "?R ?g2" by (rule gate_reach.step) (auto simp: gate_init_def)
  have w: "gt_workers ?g2 = 1" by (simp add: gate_init_def)
  then have "gt_inflight ?g2" using single_trigger_single_flight [OF 2] by simp
  then show ?thesis using 2 w by blast
qed

text \<open>Two threads can both pass the check before either closes the gate: two fetches run at once, and the first to end
  opens the gate while the other still runs.\<close>
lemma two_triggers_two_fetches:
  "\<exists>g. gate_reach (\<lambda>t. t < 2) g \<and> gt_workers g = 2"
  "\<exists>g. gate_reach (\<lambda>t. t < 2) g \<and> gt_workers g = 1 \<and> \<not> gt_inflight g"
proof -
  let ?g1 = "gate_init\<lparr>gt_callers := (gt_callers gate_init)(0 := Checked)\<rparr>"
  let ?g2 = "?g1\<lparr>gt_callers := (gt_callers ?g1)(1 := Checked)\<rparr>"
  let ?g3 = "?g2\<lparr>gt_inflight := True, gt_workers := gt_workers ?g2 + 1, gt_callers := (gt_callers ?g2)(0 := Outside)\<rparr>"
  let ?g4 = "?g3\<lparr>gt_inflight := True, gt_workers := gt_workers ?g3 + 1, gt_callers := (gt_callers ?g3)(1 := Outside)\<rparr>"
  let ?g5 = "?g4\<lparr>gt_inflight := False, gt_workers := gt_workers ?g4 - 1\<rparr>"
  let ?R = "gate_reach (\<lambda>t. t < 2)"
  have "gate_step gate_init ?g1" by (rule gate_step.check) (simp_all add: gate_init_def)
  with gate_reach.init have 1: "?R ?g1" by (rule gate_reach.step) (auto simp: gate_init_def)
  have "gate_step ?g1 ?g2" by (rule gate_step.check) (simp_all add: gate_init_def)
  with 1 have 2: "?R ?g2" by (rule gate_reach.step) (auto simp: gate_init_def)
  have "gate_step ?g2 ?g3" by (rule gate_step.spawn) (simp add: gate_init_def)
  with 2 have 3: "?R ?g3" by (rule gate_reach.step) (auto simp: gate_init_def)
  have "gate_step ?g3 ?g4" by (rule gate_step.spawn) (simp add: gate_init_def)
  with 3 have 4: "?R ?g4" by (rule gate_reach.step) (auto simp: gate_init_def)
  have "gate_step ?g4 ?g5" by (rule gate_step.finish) (simp add: gate_init_def)
  with 4 have 5: "?R ?g5" by (rule gate_reach.step) (auto simp: gate_init_def)
  show "\<exists>g. ?R g \<and> gt_workers g = 2" using 4 by (intro exI [of _ ?g4]) (simp add: gate_init_def)
  show "\<exists>g. ?R g \<and> gt_workers g = 1 \<and> \<not> gt_inflight g" using 5 by (intro exI [of _ ?g5]) (simp add: gate_init_def)
qed

subsection \<open>Properties of the cache and of its warming\<close>

datatype 'a pf_op = OpStart real | OpFinish real "('a list \<times> bool) option" | OpResolve real

fun pf_apply :: "'a pf_op \<Rightarrow> 'a prefetcher \<Rightarrow> 'a prefetcher" where
  "pf_apply (OpStart now) p = snd (pf_start now p)"
| "pf_apply (OpFinish now result) p = pf_finish now result p"
| "pf_apply (OpResolve now) p = snd (snd (resolve_for_critical now p ([], False) p))"

lemma pf_apply_warm:
  assumes "pf_fetched_at p \<noteq> 0" "op \<noteq> OpFinish 0 res"
  shows "pf_fetched_at (pf_apply op p) \<noteq> 0 \<or> (\<exists>x. op = OpFinish 0 (Some x))"
  using assms
  by (cases op) (auto simp: pf_start_def pf_finish_def resolve_for_critical_def split: option.splits)

definition clock_set :: "'a pf_op \<Rightarrow> bool" where
  "clock_set op \<longleftrightarrow> (case op of OpFinish now _ \<Rightarrow> now \<noteq> 0 | _ \<Rightarrow> True)"

lemma warm_stays_warm:
  "pf_fetched_at p \<noteq> 0 \<Longrightarrow> list_all clock_set ops \<Longrightarrow> pf_fetched_at (fold pf_apply ops p) \<noteq> 0"
proof (induction ops arbitrary: p)
  case Nil
  then show ?case by simp
next
  case (Cons op ops)
  have "pf_fetched_at (pf_apply op p) \<noteq> 0"
    using Cons.prems by (cases op) (auto simp: clock_set_def pf_start_def pf_finish_def resolve_for_critical_def split: option.splits)
  then show ?case using Cons by simp
qed

text \<open>once one fetch has finished, the critical path never waits again. After any history of triggers, ends of fetches
  and lookups in which some fetch succeeded, a lookup answers at once with the cached answer - also when that answer is
  the empty list - and starts a refresh only when the answer is older than the age limit.\<close>
theorem lookup_never_blocks_once_warm:
  assumes "list_all clock_set (before @ OpFinish t (Some (apps, reach)) # after)"
    and "p = fold pf_apply (before @ OpFinish t (Some (apps, reach)) # after) start"
  shows "\<exists>how p'. resolve_for_critical now waited fetched p = (how, (pf_apps p, pf_reach p), p')
    \<and> how = (if now - pf_fetched_at p > max_cache_age then CachedRefreshing else Cached)
    \<and> pf_apps p' = pf_apps p \<and> pf_fetched_at p' = pf_fetched_at p"
proof -
  let ?q = "pf_apply (OpFinish t (Some (apps, reach))) (fold pf_apply before start)"
  have "pf_fetched_at ?q \<noteq> 0" using assms(1) by (simp add: pf_finish_def clock_set_def)
  then have "pf_fetched_at (fold pf_apply after ?q) \<noteq> 0" by (rule warm_stays_warm) (use assms(1) in simp)
  then have "pf_fetched_at p \<noteq> 0" using assms(2) by simp
  then show ?thesis by (auto simp: resolve_for_critical_def pf_start_def)
qed

theorem lookup_never_blocks_once_warm_witness:
  "fst (resolve_for_critical 40 prefetcher_init ([1], True)
     (fold pf_apply [OpStart 1, OpFinish 4 (Some ([], False)), OpStart 6] (prefetcher_init :: nat prefetcher))) = CachedRefreshing"
proof -
  let ?ops = "[OpStart 1] @ OpFinish 4 (Some ([], False)) # [OpStart 6]"
  have ok: "list_all clock_set (?ops :: nat pf_op list)" by (simp add: clock_set_def)
  have at: "pf_fetched_at (fold pf_apply ?ops (prefetcher_init :: nat prefetcher)) = 4"
    by (simp add: pf_start_def pf_finish_def prefetcher_init_def start_blocked_def)
  from lookup_never_blocks_once_warm [OF ok refl, of 40 prefetcher_init "([1], True)" prefetcher_init]
  show ?thesis unfolding at by (auto simp: max_cache_age_def)
qed

definition disk_reason :: "warm_reason \<Rightarrow> bool" where
  "disk_reason x \<longleftrightarrow> x = EnteringDiskHigh \<or> x = SustainedDisk"

lemma warm_sys_reasons:
  "warm_sys now pressure s = (sys, s') \<Longrightarrow> set sys \<subseteq> {SustainedCritical}
     \<and> (SustainedCritical \<in> set sys \<longrightarrow> pressure = Critical \<and> now - ws_last_recheck s \<ge> sustained_critical_refresh \<and> ws_last_recheck s' = now)"
  by (auto simp: warm_sys_def split: if_splits)

lemma warm_disk_reasons:
  "warm_disk now pressure disk_level s = (disk, s') \<Longrightarrow> \<forall>x\<in>set disk. disk_reason x \<and> pressure \<noteq> Critical \<and> (disk_level = High \<or> disk_level = Critical)"
  by (auto simp: warm_disk_def disk_reason_def Let_def split: if_splits)

lemma early_reasons:
  "maybe_prefetch_early pre_oom rise s = (early, s') \<Longrightarrow> set early \<subseteq> {EnteringPreOom, MemoryClimbing} \<and> ws_last_recheck s' = ws_last_recheck s"
  by (auto simp: maybe_prefetch_early_def Let_def split: if_splits option.splits)

text \<open>memory goes first, and nothing is sampled for nobody. With automatic control off no fetch is started at all. A disk
  fetch is started only while the disk is stressed and the system is not critical, so it never competes with the fetch
  of a memory crisis; rechecks of a sustained crisis are at least 45 seconds apart; and when the disk is calm no batch of
  the disk channel stays behind.\<close>
theorem warming_rules:
  assumes "maybe_trigger_prefetch now pressure disk_level passive pre_oom rise (s, m) = (reasons, s', m')"
  shows "(\<not> passive \<longrightarrow> reasons = [])
    \<and> ((\<exists>x\<in>set reasons. disk_reason x) \<longrightarrow> pressure \<noteq> Critical \<and> (disk_level = High \<or> disk_level = Critical))
    \<and> (SustainedCritical \<in> set reasons \<longrightarrow> pressure = Critical \<and> now - ws_last_recheck s \<ge> sustained_critical_refresh)
    \<and> (passive \<and> disk_level \<noteq> High \<and> disk_level \<noteq> Critical \<longrightarrow> ml_top_source m' = Some ChDisk \<longrightarrow> ml_batch m' = [])"
proof (cases "passive")
  case False
  then show ?thesis using assms by (simp add: maybe_trigger_prefetch_def)
next
  case True
  obtain early s1 where e: "maybe_prefetch_early pre_oom rise s = (early, s1)" by fastforce
  obtain sys s2 where y: "warm_sys now pressure s1 = (sys, s2)" by fastforce
  obtain disk s3 where d: "warm_disk now pressure disk_level s2 = (disk, s3)" by fastforce
  let ?high = "if pressure = High \<and> ws_prev_pressure s \<noteq> Some High then [EnteringHigh] else []"
  have r: "reasons = ?high @ early @ sys @ disk"
    and m: "m' = (if \<not> (disk_level = High \<or> disk_level = Critical) \<and> ml_top_source m = Some ChDisk \<and> ml_batch m \<noteq> []
                     then drop_top_batch m else m)"
    using assms True by (auto simp: maybe_trigger_prefetch_def e y d Let_def)
  have dr: "\<forall>x\<in>set reasons. disk_reason x \<longrightarrow> x \<in> set disk"
    using r early_reasons [OF e] warm_sys_reasons [OF y] by (auto simp: disk_reason_def split: if_splits)
  have "SustainedCritical \<in> set reasons \<longrightarrow> SustainedCritical \<in> set sys"
    using r early_reasons [OF e] warm_disk_reasons [OF d] by (auto simp: disk_reason_def split: if_splits)
  then have "SustainedCritical \<in> set reasons \<longrightarrow> pressure = Critical \<and> now - ws_last_recheck s \<ge> sustained_critical_refresh"
    using warm_sys_reasons [OF y] early_reasons [OF e] by simp
  moreover have "(\<exists>x\<in>set reasons. disk_reason x) \<longrightarrow> pressure \<noteq> Critical \<and> (disk_level = High \<or> disk_level = Critical)"
    using dr warm_disk_reasons [OF d] by blast
  moreover have "disk_level \<noteq> High \<and> disk_level \<noteq> Critical \<longrightarrow> ml_top_source m' = Some ChDisk \<longrightarrow> ml_batch m' = []"
    unfolding m by (auto simp: drop_top_batch_def)
  ultimately show ?thesis using True by blast
qed

theorem warming_rules_witness:
  "maybe_trigger_prefetch 1 High Critical True False None (warm_init, mloop_init) =
     ([EnteringHigh, EnteringDiskHigh], warm_init\<lparr>ws_disk_since := Some 1, ws_disk_recheck := 1\<rparr>, mloop_init)
   \<and> disk_reason EnteringDiskHigh \<and> High \<noteq> Critical"
proof -
  have t: "maybe_trigger_prefetch 1 High Critical True False None (warm_init, mloop_init) =
     ([EnteringHigh, EnteringDiskHigh], warm_init\<lparr>ws_disk_since := Some 1, ws_disk_recheck := 1\<rparr>, mloop_init)"
    by (simp add: maybe_trigger_prefetch_def maybe_prefetch_early_def warm_sys_def warm_disk_def warm_init_def)
  from warming_rules [OF t] t show ?thesis by (simp add: disk_reason_def)
qed

end
