(* ===== verification/Monitor_Loop.thy ===== *)
theory Monitor_Loop
  imports Limit_Life Prefetch
begin

text \<open>
  The monitor thread of the balancer, from \<open>balancer/balancer/balancer.py\<close>: \<open>_make_monitor_loop_state\<close>, one pass of
  \<open>_run_monitor_resource_loop\<close> with the draining of a held launch, the network tick and the reapers, and runs of passes.
  A pass reads its settings, levels and clock from an environment and acts on the loop state, the registry and the host
  \<open>'w\<close>; the operations of other theories are composed as the code composes them. Waiting between two passes, log
  output and notifications are left out.
\<close>

subsection \<open>The state of the loop\<close>

record loop_state =
  ps_loop :: mloop
  ps_warm :: warm_state
  ps_interval :: real                 \<comment> \<open>\<open>idle_check_interval\<close>, which never leaves its default\<close>
  ps_last_check :: real
  ps_last_reap :: real
  ps_last_net :: real
  ps_prev_critical :: bool
  ps_prev_enabled :: "bool option"
  ps_growth_at :: real
  ps_release_at :: real

definition loop_interval :: "real \<Rightarrow> real \<Rightarrow> real" where
  "loop_interval raw_idle pressure_update = max 2 (min 30 (max raw_idle pressure_update))"

definition make_monitor_loop_state :: "real \<Rightarrow> real \<Rightarrow> loop_state" where
  \<comment> \<open>with the two slots of swap growth and release as the balancer starts with them\<close>
  "make_monitor_loop_state raw_idle pressure_update =
     \<lparr>ps_loop = mloop_init, ps_warm = warm_init, ps_interval = loop_interval raw_idle pressure_update, ps_last_check = 0,
      ps_last_reap = 0, ps_last_net = 0, ps_prev_critical = False, ps_prev_enabled = None, ps_growth_at = 0, ps_release_at = 0\<rparr>"

subsection \<open>What a pass reads\<close>

record ('d, 'w) pass_env =
  pa_now :: real
  pa_enabled :: bool                             \<comment> \<open>\<open>passive_resource_control.enabled\<close>\<close>
  pa_quiet :: bool                               \<comment> \<open>\<open>quiet_mode.is_active()\<close>\<close>
  pa_critical :: bool                            \<comment> \<open>the current level, which does not reset the peak\<close>
  pa_peak :: "level \<times> level"                     \<comment> \<open>\<open>consume_peak_pressure_level\<close>\<close>
  pa_pre_oom :: bool
  pa_rise :: "real option"
  pa_swap_enabled :: bool
  pa_clock :: "nat \<Rightarrow> real"                      \<comment> \<open>the readings of a takeover\<close>
  pa_controlled :: "string \<Rightarrow> bool"
  pa_policy :: "'w policy_env"
  pa_path_of :: "int \<Rightarrow> string option"
  pa_running :: bool
  pa_sample :: "'w \<Rightarrow> 'w"                        \<comment> \<open>\<open>sample_memory\<close>\<close>
  pa_network :: "bool \<Rightarrow> 'w \<Rightarrow> 'w"               \<comment> \<open>\<open>process_network_cycle\<close>\<close>
  pa_queue :: "'w \<Rightarrow> 'd max_queue"
  pa_set_queue :: "'d max_queue \<Rightarrow> 'w \<Rightarrow> 'w"
  pa_resume :: "'d \<Rightarrow> 'w \<Rightarrow> 'w option"           \<comment> \<open>SIGCONT and the new status; None when there is no such process\<close>
  pa_host :: "'w manual_host"
  pa_exists :: "'w \<Rightarrow> string \<Rightarrow> bool"
  pa_proc :: "int \<Rightarrow> proc_read"
  pa_status :: "string \<Rightarrow> string \<Rightarrow> string option"
  pa_frozen_after :: real
  pa_reap_interval :: real
  pa_reap_affinity :: "'w \<Rightarrow> 'w"                 \<comment> \<open>\<open>_reap_closed_affinity\<close>, theory \<open>Affinity\<close>\<close>

datatype pass_act =
  TookOver nat | Drained bool | WarmedUp warm_reason | AskedHeadroom | AskedRelease | Decided level level bool | NetworkCycle bool | Reaped

subsection \<open>The parts of a pass\<close>

definition drain_pending_app_queue :: "('d, 'w) pass_env \<Rightarrow> 'w \<Rightarrow> bool \<times> 'w" where
  \<comment> \<open>whether it raised, in which case the launch is off the queue all the same\<close>
  "drain_pending_app_queue e w =
     (case mq_get (pa_queue e w) of
        None \<Rightarrow> (True, w)
      | Some ((d, priority), q) \<Rightarrow>
          (case pa_resume e d (pa_set_queue e q w) of None \<Rightarrow> (True, pa_set_queue e q w) | Some w1 \<Rightarrow> (False, w1)))"

definition pass_policy :: "('d, 'w) pass_env \<Rightarrow> 'w policy_env" where
  "pass_policy e =
     (pa_policy e)\<lparr>pe_pending := (\<lambda>w. \<not> mq_empty (pa_queue e w)), pe_drain := (\<lambda>w. snd (drain_pending_app_queue e w))\<rparr>"

definition policy_raises :: "('d, 'w) pass_env \<Rightarrow> bool \<Rightarrow> mloop \<times> registry \<times> 'w \<Rightarrow> bool" where
  \<comment> \<open>the tick ends in an exception: the drained process is gone, or a relaxation multiplies None\<close>
  "policy_raises e enabled st =
     (case st of (s, r, w) \<Rightarrow>
      case pa_peak e of (pressure, disk) \<Rightarrow>
        (let stressed = (disk = High \<or> disk = Critical)
         in if pressed pressure disk enabled then False
            else if \<not> mq_empty (pa_queue e w) \<and> pressure \<noteq> Critical \<and> \<not> stressed then fst (drain_pending_app_queue e w)
            else first_auto r \<noteq> None \<and> \<not> ml_restore_pending s \<and> (check_pressure pressure r \<or> check_io stressed r)
              \<and> step_raises (pa_running e)
                  (restore_step_for (pa_now e) pressure stressed r (restore_timers (pa_now e) pressure stressed r s)) r))"

definition decide_now :: "('d, 'w) pass_env \<Rightarrow> loop_state \<Rightarrow> 'w \<Rightarrow> bool" where
  "decide_now e p w \<longleftrightarrow> \<not> mq_empty (pa_queue e w) \<or> (pa_critical e \<and> \<not> ps_prev_critical p) \<or> pa_now e - ps_last_check p \<ge> ps_interval p"

definition decide :: "('d, 'w) pass_env \<Rightarrow> bool \<Rightarrow> loop_state \<times> registry \<times> 'w \<Rightarrow> bool \<times> pass_act list \<times> loop_state \<times> registry \<times> 'w" where
  \<comment> \<open>the decision block; the flag says that it raised\<close>
  "decide e enabled st =
     (case st of (p, r, w) \<Rightarrow>
      case pa_peak e of (pressure, disk) \<Rightarrow>
      case maybe_trigger_prefetch (pa_now e) pressure disk enabled (pa_pre_oom e) (pa_rise e) (ps_warm p, ps_loop p) of (warm, ws, m) \<Rightarrow>
      case (if enabled then tick_swap_headroom (pa_swap_enabled e) (pa_now e) pressure (ps_growth_at p) else (False, ps_growth_at p)) of
        (ask, growth_at) \<Rightarrow>
      case tick_swap_release (pa_now e) (ps_release_at p) of (lend, release_at) \<Rightarrow>
      case policy_tick (pass_policy e) (pa_path_of e) (pa_running e) (pa_now e) pressure disk enabled (m, r, w) of (m1, r1, w1) \<Rightarrow>
        (let acts = map WarmedUp warm @ (if ask then [AskedHeadroom] else []) @ (if lend then [AskedRelease] else [])
                      @ [Decided pressure disk enabled];
             p1 = p\<lparr>ps_last_check := pa_now e, ps_warm := ws, ps_growth_at := growth_at, ps_release_at := release_at, ps_loop := m1\<rparr>
         in if policy_raises e enabled (m, r, w) then (True, acts, p1\<lparr>ps_loop := loop_reset m1\<rparr>, r1, w1)
            else (False, acts, p1\<lparr>ps_warm := ws\<lparr>ws_prev_pressure := Some pressure, ws_prev_disk := Some disk\<rparr>\<rparr>, r1, w1)))"

definition network_sample_interval :: real where "network_sample_interval = 5"

definition run_network_tick :: "('d, 'w) pass_env \<Rightarrow> loop_state \<times> 'w \<Rightarrow> bool \<times> loop_state \<times> 'w" where
  "run_network_tick e st =
     (case st of (p, w) \<Rightarrow>
        (let due = (pa_now e - ps_last_net p \<ge> network_sample_interval)
         in (due, if due then p\<lparr>ps_last_net := pa_now e\<rparr> else p, pa_network e due w)))"

definition reap_pass :: "('d, 'w) pass_env \<Rightarrow> loop_state \<times> registry \<times> 'w \<Rightarrow> pass_act list \<times> loop_state \<times> registry \<times> 'w" where
  "reap_pass e st =
     (case st of (p, r, w) \<Rightarrow>
        if pa_now e - ps_last_reap p \<ge> pa_reap_interval e
        then (case reap_closed_apps (pa_host e) (pa_exists e) (pa_proc e) (pa_status e) (pa_frozen_after e) (pa_now e) (r, w) of
                (due, r1, w1) \<Rightarrow> ([Reaped], p\<lparr>ps_last_reap := pa_now e\<rparr>, r1, pa_reap_affinity e w1))
        else ([], p, r, w))"

definition hand_over :: "('d, 'w) pass_env \<Rightarrow> loop_state \<Rightarrow> registry \<Rightarrow> pass_act list \<times> registry" where
  \<comment> \<open>passive control was on and is off now; without it no limit counts as the cause of pressure\<close>
  "hand_over e p r =
     (case (if ps_prev_enabled p = Some True \<and> \<not> pa_enabled e
            then (case lock_all_auto_to_manual (pa_clock e) (pa_controlled e) r of (n, r1) \<Rightarrow> ([TookOver n], r1)) else ([], r)) of
        (acts, r1) \<Rightarrow> (acts, if pa_enabled e then r1 else r1\<lparr>rg_dominant := False\<rparr>))"

definition quiet_part :: "('d, 'w) pass_env \<Rightarrow> loop_state \<times> registry \<times> 'w \<Rightarrow> pass_act list \<times> loop_state \<times> registry \<times> 'w" where
  \<comment> \<open>a measured run: a held launch is let go, closed applications are reaped, nothing else\<close>
  "quiet_part e st =
     (case st of (p, r, w) \<Rightarrow>
        (let p1 = p\<lparr>ps_prev_critical := False\<rparr>
         in if mq_empty (pa_queue e w) then reap_pass e (p1, r, w)
            else case drain_pending_app_queue e w of (raised, w1) \<Rightarrow>
                 (let p2 = p1\<lparr>ps_loop := loop_reset (ps_loop p1)\<rparr>
                  in if raised then ([Drained False], p2, r, w1)
                     else case reap_pass e (p2, r, w1) of (acts, st1) \<Rightarrow> (Drained True # acts, st1))))"

definition active_part :: "('d, 'w) pass_env \<Rightarrow> loop_state \<times> registry \<times> 'w \<Rightarrow> pass_act list \<times> loop_state \<times> registry \<times> 'w" where
  "active_part e st =
     (case st of (p, r, w) \<Rightarrow>
      case (if decide_now e p w then decide e (pa_enabled e) (p\<lparr>ps_prev_critical := pa_critical e\<rparr>, r, w)
            else (False, [], p\<lparr>ps_prev_critical := pa_critical e\<rparr>, r, w)) of
        (raised, acts, p1, r1, w1) \<Rightarrow>
          if raised then (acts, p1, r1, w1)
          else case run_network_tick e (p1, w1) of (due, p2, w2) \<Rightarrow>
               case reap_pass e (p2, r1, w2) of (acts1, st1) \<Rightarrow> (acts @ [NetworkCycle due] @ acts1, st1))"

definition monitor_pass :: "('d, 'w) pass_env \<Rightarrow> loop_state \<times> registry \<times> 'w \<Rightarrow> pass_act list \<times> loop_state \<times> registry \<times> 'w" where
  "monitor_pass e st =
     (case st of (p, r, w) \<Rightarrow>
      case hand_over e p r of (acts, r1) \<Rightarrow>
        (let st1 = (p\<lparr>ps_prev_enabled := Some (pa_enabled e)\<rparr>, r1, pa_sample e w)
         in case (if pa_quiet e then quiet_part e st1 else active_part e st1) of (acts1, st2) \<Rightarrow> (acts @ acts1, st2)))"

fun monitor_run :: "('d, 'w) pass_env list \<Rightarrow> loop_state \<times> registry \<times> 'w \<Rightarrow> (real \<times> pass_act list) list \<times> loop_state \<times> registry \<times> 'w" where
  \<comment> \<open>passes one after another, with what each did and when\<close>
  "monitor_run [] st = ([], st)"
| "monitor_run (e # es) st =
     (case monitor_pass e st of (acts, st1) \<Rightarrow> case monitor_run es st1 of (history, st2) \<Rightarrow> ((pa_now e, acts) # history, st2))"

subsection \<open>Lemmas on a takeover\<close>

definition auto_of :: "string \<Rightarrow> string \<times> limited_app \<Rightarrow> bool" where
  "auto_of a x \<longleftrightarrow> la_source (snd x) = Auto \<and> la_controlled (snd x) \<and> la_public_id (snd x) = a"

definition autos_of :: "string \<Rightarrow> registry \<Rightarrow> nat" where
  \<comment> \<open>how many automatic limits of controlled applications bear this id\<close>
  "autos_of a r = length (filter (auto_of a) (rg_apps r))"

definition own_ids :: "registry \<Rightarrow> bool" where
  \<comment> \<open>no other automatic limit bears the id of a controlled application\<close>
  "own_ids r \<longleftrightarrow> (\<forall>x\<in>set (rg_apps r). \<forall>y\<in>set (rg_apps r).
     la_source (snd x) = Auto \<and> la_source (snd y) = Auto \<and> la_controlled (snd x) \<and> la_public_id (snd x) = la_public_id (snd y)
       \<longrightarrow> la_controlled (snd y))"

lemma filter_update_out:
  assumes "(k, e) \<in> set al" "distinct (map fst al)" "\<not> P (k, e')"
  shows "length (filter P (AList.update k e' al)) = length (filter P al) - (if P (k, e) then 1 else 0)"
  using assms
proof (induction al)
  case (Cons x al)
  obtain j b where x: "x = (j, b)" by fastforce
  show ?case
  proof (cases "j = k")
    case True
    then have "e = b" using Cons.prems(1,2) x by force
    then show ?thesis using True Cons.prems(3) x by simp
  next
    case False
    then have i: "(k, e) \<in> set al" using Cons.prems(1) x by simp
    then have "P (k, e) \<Longrightarrow> 0 < length (filter P al)" by (auto simp: filter_empty_conv)
    then show ?thesis using Cons.IH [OF i] Cons.prems(2,3) False x by auto
  qed
qed simp

lemma taken_over_not_auto [simp]: "\<not> auto_of a (k, taken_over now e)"
  by (simp add: auto_of_def taken_over_def)

lemma autos_put:
  assumes "(k, e) \<in> set (rg_apps r)" "distinct (map fst (rg_apps r))"
  shows "autos_of a (put_manual k (taken_over now e1) r) = autos_of a r - (if auto_of a (k, e) then 1 else 0)"
  unfolding autos_of_def put_manual_apps by (rule filter_update_out [where P = "auto_of a", OF assms]) simp

lemma update_sub: "set (AList.update k v al) \<subseteq> insert (k, v) (set al)"
  by (induction al) auto

lemma own_ids_put: "own_ids r \<Longrightarrow> own_ids (put_manual k (taken_over now e1) r)"
proof -
  assume o: "own_ids r"
  have "x \<in> set (rg_apps r)" if "x \<in> set (AList.update k (taken_over now e1) (rg_apps r))" "la_source (snd x) = Auto" for x
    using update_sub [of k "taken_over now e1" "rg_apps r"] that by (auto simp: taken_over_def)
  then show ?thesis using o unfolding own_ids_def put_manual_apps by blast
qed

definition handed :: "registry \<Rightarrow> registry \<Rightarrow> bool" where
  \<comment> \<open>every entry is still there with its caps, and changed only by becoming manual\<close>
  "handed r r' \<longleftrightarrow> (\<forall>k e. map_of (rg_apps r) k = Some e \<longrightarrow>
     (\<exists>e'. map_of (rg_apps r') k = Some e' \<and> same_caps e e' \<and> (la_source e' = Auto \<longrightarrow> e' = e)))"

lemma handed_refl: "handed r r"
  by (simp add: handed_def)

lemma handed_trans: "handed r1 r2 \<Longrightarrow> handed r2 r3 \<Longrightarrow> handed r1 r3"
  unfolding handed_def by (metis same_caps_trans)

lemma lock_cases:
  assumes "lock_to_manual now controlled_now a r = (ok, r')"
  obtains "r' = r" "find_auto a r = None \<or> (\<exists>k e. find_auto a r = Some (k, e) \<and> \<not> la_controlled e)"
  | k e e1 where "find_auto a r = Some (k, e)" "r' = put_manual k (taken_over now e1) r" "same_caps e (taken_over now e1)"
proof (cases "find_auto a r")
  case None
  then show thesis using assms that(1) by (simp add: lock_to_manual_def)
next
  case (Some ke)
  obtain k e where ke: "ke = (k, e)" by fastforce
  note f = Some [unfolded ke]
  show thesis
  proof (cases "la_controlled e \<or> controlled_now a")
    case False
    then show thesis using assms f by (intro that(1)) (auto simp: lock_to_manual_def)
  next
    case True
    let ?e1 = "if la_controlled e then e else e\<lparr>la_controlled := True, la_public_id := a\<rparr>"
    have "r' = put_manual k (taken_over now ?e1) r" using assms f True by (auto simp: lock_to_manual_def)
    moreover have "same_caps e (taken_over now ?e1)" by (simp add: same_caps_def taken_over_def)
    ultimately show thesis using that(2) [OF f] by blast
  qed
qed

lemma lock_law:
  assumes l: "lock_to_manual now controlled_now a r = (ok, r')" and d: "distinct (map fst (rg_apps r))" and o: "own_ids r"
  shows "handed r r'" "distinct (map fst (rg_apps r'))" "own_ids r'" "autos_of b r' \<le> autos_of b r" "autos_of a r' \<le> autos_of a r - 1"
proof -
  have found: "find_auto a r = Some (k, e) \<Longrightarrow> map_of (rg_apps r) k = Some e" for k e using find_auto_in(1) d by simp
  have hit: "\<exists>k e. find_auto a r = Some (k, e) \<and> auto_of a (k, e)" if "0 < autos_of a r"
  proof -
    obtain x where x: "x \<in> set (rg_apps r)" "auto_of a x" using \<open>0 < autos_of a r\<close> by (auto simp: autos_of_def filter_empty_conv)
    then have "\<exists>y\<in>set (rg_apps r). case y of (k, e) \<Rightarrow> la_public_id e = a \<and> source_matches (Some Auto) e"
      by (intro bexI [of _ x]) (auto simp: source_matches_def auto_of_def split: prod.splits)
    then have "by_public_id a (Some Auto) r \<noteq> None" unfolding by_public_id_def find_None_iff by blast
    then obtain k e where b: "by_public_id a (Some Auto) r = Some (k, e)" by fastforce
    note i = by_public_id_in [OF b]
    have "la_controlled e" using o [unfolded own_ids_def, rule_format, of x "(k, e)"] x i by (simp add: auto_of_def source_matches_def)
    then have "auto_of a (k, e)" using i by (simp add: auto_of_def source_matches_def)
    then show ?thesis using b by (simp add: find_auto_def)
  qed
  show "handed r r'"
    using l
  proof (cases rule: lock_cases)
    case 1
    then show ?thesis by (simp add: handed_refl)
  next
    case (2 k e e1)
    have "la_source (taken_over now e1) \<noteq> Auto" by (simp add: taken_over_def)
    then show ?thesis unfolding handed_def using 2 found [OF 2(1)] by (simp add: update_conv)
  qed
  show "distinct (map fst (rg_apps r'))" "own_ids r'" "autos_of b r' \<le> autos_of b r"
    using l
  proof (atomize (full), cases rule: lock_cases)
    case 1
    then show "distinct (map fst (rg_apps r')) \<and> own_ids r' \<and> autos_of b r' \<le> autos_of b r" using d o by simp
  next
    case (2 k e e1)
    note in_r = find_auto_in(1) [OF 2(1)]
    show "distinct (map fst (rg_apps r')) \<and> own_ids r' \<and> autos_of b r' \<le> autos_of b r"
      unfolding 2(2) autos_put [OF in_r d] using own_ids_put [OF o] d by (simp add: distinct_update)
  qed
  show "autos_of a r' \<le> autos_of a r - 1"
  proof (cases "autos_of a r = 0")
    case True
    show ?thesis using l
    proof (cases rule: lock_cases)
      case (2 k e e1)
      show ?thesis unfolding 2(2) autos_put [OF find_auto_in(1) [OF 2(1)] d] using True by simp
    qed (simp add: True)
  next
    case False
    then obtain k e where h: "find_auto a r = Some (k, e)" "auto_of a (k, e)" using hit by blast
    then have "r' = put_manual k (taken_over now e) r" using l by (simp add: lock_to_manual_def auto_of_def)
    then show ?thesis using autos_put [OF find_auto_in(1) [OF h(1)] d] h(2) by simp
  qed
qed

lemma lock_each_law:
  assumes "lock_each clock controlled_now i ids (n, r) = (m, r')" "distinct (map fst (rg_apps r))" "own_ids r"
  shows "handed r r' \<and> autos_of a r' \<le> autos_of a r - count_list ids a"
  using assms
proof (induction ids arbitrary: i n r)
  case Nil
  then show ?case by (simp add: handed_refl)
next
  case (Cons b ids)
  obtain ok r1 where l: "lock_to_manual (clock i) controlled_now b r = (ok, r1)" by fastforce
  note law = lock_law [OF l Cons.prems(2,3)]
  have "lock_each clock controlled_now (i + 1) ids (if ok then n + 1 else n, r1) = (m, r')" using Cons.prems(1) l by simp
  from Cons.IH [OF this law(2,3)] have "handed r1 r'" "autos_of a r' \<le> autos_of a r1 - count_list ids a" by simp_all
  then show ?case using handed_trans [OF law(1)] law(4) [of a] law(5) by (cases "a = b") simp_all
qed

lemma handed_apps: "rg_apps r'' = rg_apps r' \<Longrightarrow> handed r r' \<Longrightarrow> handed r r''"
  by (simp add: handed_def)

lemma count_public: "count_list (map (la_public_id \<circ> snd) (filter (\<lambda>(k, e). la_source e = Auto \<and> la_controlled e) al)) a
    = length (filter (auto_of a) al)"
  by (induction al) (auto simp: auto_of_def)

lemma lock_all_law:
  assumes l: "lock_all_auto_to_manual clock controlled_now r = (n, r')" and d: "distinct (map fst (rg_apps r))" and o: "own_ids r"
    and e: "map_of (rg_apps r) k = Some e" "la_source e = Auto" "la_controlled e"
  shows "\<exists>e'. map_of (rg_apps r') k = Some e' \<and> la_source e' = Manual \<and> same_caps e e'"
proof -
  let ?ids = "map (la_public_id \<circ> snd) (filter (\<lambda>(k, e). la_source e = Auto \<and> la_controlled e) (rg_apps r))"
  obtain r1 where l1: "lock_each clock controlled_now 0 ?ids (0, r) = (n, r1)" and same: "rg_apps r' = rg_apps r1"
    using l by (auto simp: lock_all_auto_to_manual_def Let_def split: prod.splits if_splits)
  have law: "handed r r'" "autos_of (la_public_id e) r' = 0"
    using lock_each_law [OF l1 d o, of "la_public_id e"] handed_apps [OF same] count_public [of "rg_apps r"]
    by (simp_all add: autos_of_def same)
  obtain e' where e': "map_of (rg_apps r') k = Some e'" "same_caps e e'" "la_source e' = Auto \<longrightarrow> e' = e"
    using law(1) e(1) unfolding handed_def by blast
  have "la_source e' \<noteq> Auto"
  proof
    assume "la_source e' = Auto"
    then have "(k, e) \<in> set (rg_apps r')" using e' map_of_SomeD by fastforce
    moreover have "auto_of (la_public_id e) (k, e)" using e by (simp add: auto_of_def)
    ultimately have "filter (auto_of (la_public_id e)) (rg_apps r') \<noteq> []" unfolding filter_empty_conv by blast
    then have "0 < autos_of (la_public_id e) r'" by (simp add: autos_of_def)
    then show False using law(2) by simp
  qed
  then show ?thesis using e' by (cases "la_source e'") auto
qed

subsection \<open>Lemmas on a pass\<close>

definition stays :: "('d, 'w) pass_env \<Rightarrow> registry \<Rightarrow> registry \<Rightarrow> bool" where
  \<comment> \<open>a manual entry keeps its caps, unless the reaper found its application closed\<close>
  "stays e r r' \<longleftrightarrow> (\<forall>k a. map_of (rg_apps r) k = Some a \<and> la_source a = Manual \<longrightarrow>
     (\<exists>b. la_source b = Manual \<and> same_caps a b
        \<and> (map_of (rg_apps r') k = Some b \<or> map_of (rg_apps r') k = None \<and> entry_closed (pa_proc e) (pa_status e) b)))"

lemma staysD:
  assumes "stays e r r'" "map_of (rg_apps r) k = Some a" "la_source a = Manual"
  obtains b where "la_source b = Manual" "same_caps a b"
    "map_of (rg_apps r') k = Some b \<or> map_of (rg_apps r') k = None \<and> entry_closed (pa_proc e) (pa_status e) b"
  using assms unfolding stays_def by blast

lemma reap_pass_law:
  assumes "reap_pass e (p, r, w) = (acts, p', r', w')" "distinct (map fst (rg_apps r))"
  shows "map_of (rg_apps r') k = map_of (rg_apps r) k
      \<or> (\<exists>a. map_of (rg_apps r) k = Some a \<and> \<not> entry_closed (pa_proc e) (pa_status e) a \<and> map_of (rg_apps r') k = Some (a\<lparr>la_freeze_notified := True\<rparr>))
      \<or> (\<exists>a. map_of (rg_apps r) k = Some a \<and> entry_closed (pa_proc e) (pa_status e) a \<and> map_of (rg_apps r') k = None)"
    and "acts = [] \<and> p' = p \<and> r' = r \<and> w' = w \<or> acts = [Reaped] \<and> p' = p\<lparr>ps_last_reap := pa_now e\<rparr>"
proof -
  consider (none) "acts = []" "p' = p" "r' = r" "w' = w"
    | (reap) due w1 where "acts = [Reaped]" "p' = p\<lparr>ps_last_reap := pa_now e\<rparr>"
        "reap_closed_apps (pa_host e) (pa_exists e) (pa_proc e) (pa_status e) (pa_frozen_after e) (pa_now e) (r, w) = (due, r', w1)"
    using assms(1) by (auto simp: reap_pass_def split: if_splits prod.splits)
  then show "map_of (rg_apps r') k = map_of (rg_apps r) k
      \<or> (\<exists>a. map_of (rg_apps r) k = Some a \<and> \<not> entry_closed (pa_proc e) (pa_status e) a \<and> map_of (rg_apps r') k = Some (a\<lparr>la_freeze_notified := True\<rparr>))
      \<or> (\<exists>a. map_of (rg_apps r) k = Some a \<and> entry_closed (pa_proc e) (pa_status e) a \<and> map_of (rg_apps r') k = None)"
  proof cases
    case reap
    obtain gone r1 where g: "reap_registry (pa_proc e) (pa_status e) (map fst (rg_apps r)) r = (gone, r1)" by fastforce
    have out: "r' = snd (notify_long_frozen (pa_frozen_after e) (pa_now e) r1)"
      using reap(3) g by (auto simp: reap_closed_apps_def split: prod.splits)
    show ?thesis
    proof (cases "map_of (rg_apps r) k")
      case None
      then show ?thesis using reap_registry_map [OF g assms(2), of k] unfolding out notify_map by simp
    next
      case (Some a)
      then have "k \<in> set (map fst (rg_apps r))" using map_of_SomeD by force
      then have "map_of (rg_apps r1) k = (if entry_closed (pa_proc e) (pa_status e) a then None else Some a)"
        using reap_registry_map [OF g assms(2), of k] Some by simp
      then show ?thesis unfolding out notify_map using Some by simp
    qed
  qed simp
  show "acts = [] \<and> p' = p \<and> r' = r \<and> w' = w \<or> acts = [Reaped] \<and> p' = p\<lparr>ps_last_reap := pa_now e\<rparr>"
    using assms(1) by (auto simp: reap_pass_def split: if_splits prod.splits)
qed

lemma same_caps_notified [simp]: "same_caps a (b\<lparr>la_freeze_notified := x\<rparr>) = same_caps a b"
  by (simp add: same_caps_def)

lemma owned_reap_stays:
  assumes o: "owned_kept r r1" and reap: "reap_pass e (p, r1, w) = (acts, p', r', w')"
  shows "stays e r r'"
  unfolding stays_def
proof (intro allI impI, elim conjE)
  fix k a assume "map_of (rg_apps r) k = Some a" "la_source a = Manual"
  then obtain b where b: "map_of (rg_apps r1) k = Some b" "la_source b = Manual" "same_caps a b" using owned_keptD(2) [OF o] by blast
  from reap_pass_law(1) [OF reap owned_keptD(1) [OF o], of k]
  show "\<exists>b. la_source b = Manual \<and> same_caps a b
        \<and> (map_of (rg_apps r') k = Some b \<or> map_of (rg_apps r') k = None \<and> entry_closed (pa_proc e) (pa_status e) b)"
  proof (elim disjE exE conjE)
    assume "map_of (rg_apps r') k = map_of (rg_apps r1) k"
    then show ?thesis using b by auto
  next
    fix x assume "map_of (rg_apps r1) k = Some x" "map_of (rg_apps r') k = Some (x\<lparr>la_freeze_notified := True\<rparr>)"
    then show ?thesis using b by (intro exI [of _ "b\<lparr>la_freeze_notified := True\<rparr>"]) simp
  next
    fix x assume "map_of (rg_apps r1) k = Some x" "entry_closed (pa_proc e) (pa_status e) x" "map_of (rg_apps r') k = None"
    then show ?thesis using b by auto
  qed
qed

lemma owned_stays: "owned_kept r r' \<Longrightarrow> stays e r r'"
  unfolding stays_def using owned_keptD(2) by blast

lemma pass_policy_law: "reclaim_law (pa_policy e) \<Longrightarrow> reclaim_law (pass_policy e)"
  by (simp add: reclaim_law_def pass_policy_def)

lemma decide_law:
  assumes "decide e enabled (p, r, w) = (raised, acts, p', r', w')"
  obtains pressure disk m m1 where "pa_peak e = (pressure, disk)"
    "policy_tick (pass_policy e) (pa_path_of e) (pa_running e) (pa_now e) pressure disk enabled (m, r, w) = (m1, r', w')"
    "Decided pressure disk enabled \<in> set acts" "ps_last_check p' = pa_now e" "ps_interval p' = ps_interval p"
    "ps_last_net p' = ps_last_net p" "ps_prev_critical p' = ps_prev_critical p"
proof -
  obtain pressure disk where pk: "pa_peak e = (pressure, disk)" by fastforce
  obtain warm ws m where w: "maybe_trigger_prefetch (pa_now e) pressure disk enabled (pa_pre_oom e) (pa_rise e) (ps_warm p, ps_loop p) = (warm, ws, m)"
    by (metis surj_pair)
  obtain ask ga where a: "(if enabled then tick_swap_headroom (pa_swap_enabled e) (pa_now e) pressure (ps_growth_at p) else (False, ps_growth_at p))
      = (ask, ga)" by fastforce
  obtain lend ra where l: "tick_swap_release (pa_now e) (ps_release_at p) = (lend, ra)" by fastforce
  obtain m1 r1 w1 where t: "policy_tick (pass_policy e) (pa_path_of e) (pa_running e) (pa_now e) pressure disk enabled (m, r, w) = (m1, r1, w1)"
    by (metis surj_pair)
  note d = assms [unfolded decide_def pk w a l t prod.case Let_def]
  have "r1 = r'" "w1 = w'" "Decided pressure disk enabled \<in> set acts" "ps_last_check p' = pa_now e" "ps_interval p' = ps_interval p"
    "ps_last_net p' = ps_last_net p" "ps_prev_critical p' = ps_prev_critical p"
    using d by (auto split: if_splits)
  then show thesis using that pk t by blast
qed

lemma active_law:
  assumes a: "active_part e (p, r, w) = (acts, p', r', w')" and l: "reclaim_law (pa_policy e)" and d: "distinct (map fst (rg_apps r))"
  shows "stays e r r'"
proof (cases "decide_now e p w")
  case True
  obtain raised acts1 p1 r1 w1 where dc: "decide e (pa_enabled e) (p\<lparr>ps_prev_critical := pa_critical e\<rparr>, r, w) = (raised, acts1, p1, r1, w1)"
    by (metis surj_pair)
  obtain pressure disk m m1 where "policy_tick (pass_policy e) (pa_path_of e) (pa_running e) (pa_now e) pressure disk (pa_enabled e) (m, r, w) = (m1, r1, w1)"
    using decide_law [OF dc] by metis
  then have o: "owned_kept r r1" by (rule policy_tick_owned [OF pass_policy_law [OF l] _ d])
  show ?thesis
  proof (cases raised)
    case True
    then have "r' = r1" using a \<open>decide_now e p w\<close> dc by (simp add: active_part_def)
    then show ?thesis using owned_stays [OF o] by simp
  next
    case False
    then obtain p2 w2 acts2 where "reap_pass e (p2, r1, w2) = (acts2, p', r', w')"
      using a \<open>decide_now e p w\<close> dc by (auto simp: active_part_def split: prod.splits)
    then show ?thesis by (rule owned_reap_stays [OF o])
  qed
next
  case False
  then obtain p2 w2 acts2 where "reap_pass e (p2, r, w2) = (acts2, p', r', w')"
    using a by (auto simp: active_part_def split: prod.splits)
  then show ?thesis by (rule owned_reap_stays [OF owned_kept_refl [OF d]])
qed

lemma quiet_cases:
  assumes "quiet_part e (p, r, w) = (acts, p', r', w')"
  obtains (idle) "mq_empty (pa_queue e w)" "reap_pass e (p\<lparr>ps_prev_critical := False\<rparr>, r, w) = (acts, p', r', w')"
  | (gone) "drain_pending_app_queue e w = (True, w')" "acts = [Drained False]" "r' = r"
      "p' = p\<lparr>ps_prev_critical := False, ps_loop := loop_reset (ps_loop p)\<rparr>" "\<not> mq_empty (pa_queue e w)"
  | (served) acts1 w1 where "drain_pending_app_queue e w = (False, w1)" "acts = Drained True # acts1" "\<not> mq_empty (pa_queue e w)"
      "reap_pass e (p\<lparr>ps_prev_critical := False, ps_loop := loop_reset (ps_loop p)\<rparr>, r, w1) = (acts1, p', r', w')"
proof (cases "mq_empty (pa_queue e w)")
  case True
  then show thesis using assms by (intro idle) (simp_all add: quiet_part_def)
next
  case False
  obtain raised w1 where dr: "drain_pending_app_queue e w = (raised, w1)" by fastforce
  note q = assms [unfolded quiet_part_def prod.case Let_def dr, simplified False if_False]
  show thesis
  proof (cases raised)
    case True
    then show thesis using q dr False by (intro gone) auto
  next
    case False
    obtain acts1 p1 r1 w2 where "reap_pass e (p\<lparr>ps_prev_critical := False, ps_loop := loop_reset (ps_loop p)\<rparr>, r, w1) = (acts1, p1, r1, w2)"
      by (metis surj_pair)
    then show thesis using q dr False \<open>\<not> mq_empty (pa_queue e w)\<close> by (intro served [of w1 acts1]) auto
  qed
qed

lemma quiet_stays:
  assumes "quiet_part e (p, r, w) = (acts, p', r', w')" and d: "distinct (map fst (rg_apps r))"
  shows "stays e r r'"
  using assms(1)
proof (cases rule: quiet_cases)
  case idle
  then show ?thesis by (intro owned_reap_stays [OF owned_kept_refl [OF d]])
next
  case gone
  then show ?thesis using owned_stays [OF owned_kept_refl [OF d]] by simp
next
  case (served acts1 w1)
  then show ?thesis by (intro owned_reap_stays [OF owned_kept_refl [OF d]])
qed

lemma pass_parts:
  assumes "monitor_pass e (p, r, w) = (acts, p', r', w')"
  obtains acts1 acts2 r1 where "hand_over e p r = (acts1, r1)" "acts = acts1 @ acts2"
    "(if pa_quiet e then quiet_part e (p\<lparr>ps_prev_enabled := Some (pa_enabled e)\<rparr>, r1, pa_sample e w)
      else active_part e (p\<lparr>ps_prev_enabled := Some (pa_enabled e)\<rparr>, r1, pa_sample e w)) = (acts2, p', r', w')"
proof -
  obtain acts1 r1 where h: "hand_over e p r = (acts1, r1)" by fastforce
  obtain acts2 p1 r2 w2 where m: "(if pa_quiet e then quiet_part e (p\<lparr>ps_prev_enabled := Some (pa_enabled e)\<rparr>, r1, pa_sample e w)
      else active_part e (p\<lparr>ps_prev_enabled := Some (pa_enabled e)\<rparr>, r1, pa_sample e w)) = (acts2, p1, r2, w2)" by (metis surj_pair)
  have "acts = acts1 @ acts2 \<and> p1 = p' \<and> r2 = r' \<and> w2 = w'" using assms unfolding monitor_pass_def prod.case h Let_def m by simp
  then show thesis using that h m by blast
qed

definition decides :: "pass_act list \<Rightarrow> bool" where
  "decides acts \<longleftrightarrow> list_ex (\<lambda>a. case a of Decided _ _ _ \<Rightarrow> True | _ \<Rightarrow> False) acts"

definition last_decision :: "real \<Rightarrow> (real \<times> pass_act list) list \<Rightarrow> real" where
  "last_decision t history = foldl (\<lambda>t (now, acts). if decides acts then now else t) t history"

lemma decides_simps [simp]: "decides [] = False" "decides (Decided a b c # xs)" "decides (xs @ ys) = (decides xs \<or> decides ys)"
  "decides (NetworkCycle due # xs) = decides xs" "decides (Reaped # xs) = decides xs" "decides (Drained x # xs) = decides xs"
  "decides (TookOver n # xs) = decides xs"
  by (simp_all add: decides_def)

lemma decides_in: "Decided a b c \<in> set acts \<Longrightarrow> decides acts"
  by (force simp: decides_def list_ex_iff)

lemma reap_fields:
  assumes "reap_pass e (p, r, w) = (acts, p', r', w')"
  shows "\<not> decides acts" "ps_last_check p' = ps_last_check p" "ps_interval p' = ps_interval p" "ps_prev_critical p' = ps_prev_critical p"
    "ps_last_net p' = ps_last_net p" "ps_growth_at p' = ps_growth_at p" "ps_release_at p' = ps_release_at p" "ps_warm p' = ps_warm p"
    "ps_loop p' = ps_loop p" "set acts \<subseteq> {Reaped}"
  using assms by (auto simp: reap_pass_def split: if_splits prod.splits)

lemma active_fields:
  assumes "active_part e (p, r, w) = (acts, p', r', w')"
  shows "decides acts = decide_now e p w \<and> ps_last_check p' = (if decides acts then pa_now e else ps_last_check p)
    \<and> ps_interval p' = ps_interval p \<and> ps_prev_critical p' = pa_critical e"
proof (cases "decide_now e p w")
  case True
  obtain raised acts1 p1 r1 w1 where dc: "decide e (pa_enabled e) (p\<lparr>ps_prev_critical := pa_critical e\<rparr>, r, w) = (raised, acts1, p1, r1, w1)"
    by (metis surj_pair)
  have f: "decides acts1" "ps_last_check p1 = pa_now e" "ps_interval p1 = ps_interval p" "ps_prev_critical p1 = pa_critical e"
    using decide_law [OF dc] decides_in by (metis loop_state.select_convs(3,7) loop_state.ext_inject loop_state.surjective loop_state.update_convs(7))+
  show ?thesis
  proof (cases raised)
    case True
    then show ?thesis using assms f \<open>decide_now e p w\<close> dc by (simp add: active_part_def)
  next
    case False
    obtain due p2 w2 where n: "run_network_tick e (p1, w1) = (due, p2, w2)" by (metis surj_pair)
    obtain acts2 p3 r3 w3 where rp: "reap_pass e (p2, r1, w2) = (acts2, p3, r3, w3)" by (metis surj_pair)
    have p2: "ps_last_check p2 = ps_last_check p1" "ps_interval p2 = ps_interval p1" "ps_prev_critical p2 = ps_prev_critical p1"
      using n by (auto simp: run_network_tick_def Let_def)
    have out: "acts = acts1 @ [NetworkCycle due] @ acts2 \<and> p' = p3"
      using assms \<open>decide_now e p w\<close> False unfolding active_part_def prod.case dc by (simp add: n rp)
    show ?thesis using out f p2 reap_fields [OF rp] \<open>decide_now e p w\<close> by simp
  qed
next
  case False
  obtain due p2 w2 where n: "run_network_tick e (p\<lparr>ps_prev_critical := pa_critical e\<rparr>, w) = (due, p2, w2)" by (metis surj_pair)
  obtain acts2 p3 r3 w3 where rp: "reap_pass e (p2, r, w2) = (acts2, p3, r3, w3)" by (metis surj_pair)
  have p2: "ps_last_check p2 = ps_last_check p" "ps_interval p2 = ps_interval p" "ps_prev_critical p2 = pa_critical e"
    using n by (auto simp: run_network_tick_def Let_def)
  have out: "acts = NetworkCycle due # acts2 \<and> p' = p3" using assms False by (simp add: active_part_def n rp)
  show ?thesis using out p2 reap_fields [OF rp] False by simp
qed

lemma quiet_fields:
  assumes "quiet_part e (p, r, w) = (acts, p', r', w')"
  shows "\<not> decides acts \<and> set acts \<subseteq> {Drained True, Drained False, Reaped} \<and> ps_last_check p' = ps_last_check p \<and> ps_interval p' = ps_interval p
    \<and> \<not> ps_prev_critical p' \<and> ps_last_net p' = ps_last_net p \<and> ps_growth_at p' = ps_growth_at p \<and> ps_release_at p' = ps_release_at p
    \<and> ps_warm p' = ps_warm p \<and> ps_loop p' = (if mq_empty (pa_queue e w) then ps_loop p else loop_reset (ps_loop p))"
  using assms
proof (cases rule: quiet_cases)
  case idle
  show ?thesis using reap_fields [OF idle(2)] idle(1) by auto
next
  case gone
  then show ?thesis by simp
next
  case (served acts1 w1)
  show ?thesis using reap_fields [OF served(4)] served(2,3) by auto
qed

lemma hand_over_acts: "hand_over e p r = (acts, r1) \<Longrightarrow> acts = [] \<or> (\<exists>n. acts = [TookOver n])"
  by (auto simp: hand_over_def split: if_splits prod.splits)

lemma pass_fields:
  assumes "monitor_pass e (p, r, w) = (acts, p', r', w')"
  shows "decides acts = (\<not> pa_quiet e \<and> decide_now e p (pa_sample e w)) \<and> ps_last_check p' = (if decides acts then pa_now e else ps_last_check p)
    \<and> ps_interval p' = ps_interval p \<and> ps_prev_critical p' = (\<not> pa_quiet e \<and> pa_critical e)"
  using assms
proof (rule pass_parts)
  fix acts1 acts2 r1
  let ?p = "p\<lparr>ps_prev_enabled := Some (pa_enabled e)\<rparr>"
  assume h: "hand_over e p r = (acts1, r1)" and acts: "acts = acts1 @ acts2"
    and m: "(if pa_quiet e then quiet_part e (?p, r1, pa_sample e w) else active_part e (?p, r1, pa_sample e w)) = (acts2, p', r', w')"
  have no: "\<not> decides acts1" using hand_over_acts [OF h] by auto
  have same: "decide_now e ?p (pa_sample e w) = decide_now e p (pa_sample e w)" by (simp add: decide_now_def)
  show ?thesis
  proof (cases "pa_quiet e")
    case True
    then show ?thesis using quiet_fields [of e ?p r1 "pa_sample e w" acts2 p' r' w'] m no acts by simp
  next
    case False
    then show ?thesis using active_fields [of e ?p r1 "pa_sample e w" acts2 p' r' w'] m no acts same by simp
  qed
qed

lemma run_fields:
  assumes "monitor_run es (p, r, w) = (history, p', r', w')"
  shows "ps_last_check p' = last_decision (ps_last_check p) history \<and> ps_interval p' = ps_interval p
    \<and> ps_prev_critical p' = (if es = [] then ps_prev_critical p else \<not> pa_quiet (last es) \<and> pa_critical (last es))"
  using assms
proof (induction es arbitrary: p r w history)
  case Nil
  then show ?case by (simp add: last_decision_def)
next
  case (Cons e es)
  obtain acts p1 r1 w1 where m: "monitor_pass e (p, r, w) = (acts, p1, r1, w1)" by (metis surj_pair)
  obtain rest where rest: "monitor_run es (p1, r1, w1) = (rest, p', r', w')" "history = (pa_now e, acts) # rest"
    using Cons.prems m by (auto split: prod.splits)
  show ?case using Cons.IH [OF rest(1)] pass_fields [OF m] rest(2) by (simp add: last_decision_def)
qed

subsection \<open>Properties\<close>

text \<open>C24: switching passive control off releases nothing. In the pass that sees the switch go off, every automatic limit of a
  controlled application becomes a manual one with the same caps on the same cgroups, whatever the pressure and whatever
  else the pass does; only an application the reaper of that pass finds closed loses its entry.\<close>
theorem passive_off_hands_over:
  assumes "ps_prev_enabled p = Some True" "\<not> pa_enabled e" and m: "monitor_pass e (p, r, w) = (acts, p', r', w')"
    and d: "distinct (map fst (rg_apps r))" and o: "own_ids r" and l: "reclaim_law (pa_policy e)"
    and k: "map_of (rg_apps r) k = Some a" "la_source a = Auto" "la_controlled a"
  shows "\<exists>b. la_source b = Manual \<and> same_caps a b
    \<and> (map_of (rg_apps r') k = Some b \<or> map_of (rg_apps r') k = None \<and> entry_closed (pa_proc e) (pa_status e) b)"
  using m
proof (rule pass_parts)
  fix acts1 acts2 r1
  let ?p = "p\<lparr>ps_prev_enabled := Some (pa_enabled e)\<rparr>"
  assume h: "hand_over e p r = (acts1, r1)"
    and m: "(if pa_quiet e then quiet_part e (?p, r1, pa_sample e w) else active_part e (?p, r1, pa_sample e w)) = (acts2, p', r', w')"
  obtain n r0 where lk: "lock_all_auto_to_manual (pa_clock e) (pa_controlled e) r = (n, r0)" by fastforce
  have same: "rg_apps r1 = rg_apps r0" using h assms(1,2) by (auto simp: hand_over_def lk)
  have d1: "distinct (map fst (rg_apps r1))" using owned_keptD(1) [OF lock_all_owned [OF lk d]] same by simp
  obtain a1 where a1: "map_of (rg_apps r1) k = Some a1" "la_source a1 = Manual" "same_caps a a1"
    using lock_all_law [OF lk d o k] same by auto
  have "stays e r1 r'"
  proof (cases "pa_quiet e")
    case True
    show ?thesis by (rule quiet_stays [OF m [unfolded if_P [OF True]] d1])
  next
    case False
    show ?thesis by (rule active_law [OF m [unfolded if_not_P [OF False]] l d1])
  qed
  from staysD [OF this a1(1,2)] same_caps_trans [OF a1(3)] show ?thesis by metis
qed

text \<open>a measured run is left alone. A pass in quiet mode decides nothing: it asks for no memory, starts no sampling, touches
  neither the network nor any timer of the loop, and changes the registry only by dropping applications that closed or by
  noting a reminder. A launch that was held is let go all the same.\<close>
theorem quiet_pass_restrained:
  assumes q: "pa_quiet e" and on: "ps_prev_enabled p \<noteq> Some True \<or> pa_enabled e" and m: "monitor_pass e (p, r, w) = (acts, p', r', w')"
    and d: "distinct (map fst (rg_apps r))"
  shows "set acts \<subseteq> {Drained True, Drained False, Reaped}
    \<and> ps_last_check p' = ps_last_check p \<and> ps_last_net p' = ps_last_net p \<and> ps_growth_at p' = ps_growth_at p
      \<and> ps_release_at p' = ps_release_at p \<and> ps_warm p' = ps_warm p \<and> \<not> ps_prev_critical p'
    \<and> (map_of (rg_apps r') k = map_of (rg_apps r) k
      \<or> (\<exists>a. map_of (rg_apps r) k = Some a \<and> (map_of (rg_apps r') k = Some (a\<lparr>la_freeze_notified := True\<rparr>)
            \<or> map_of (rg_apps r') k = None \<and> entry_closed (pa_proc e) (pa_status e) a)))
    \<and> (mq_get (pa_queue e (pa_sample e w)) = Some ((launch, priority), rest)
      \<longrightarrow> Drained (pa_resume e launch (pa_set_queue e rest (pa_sample e w)) \<noteq> None) \<in> set acts)"
proof -
  obtain acts1 acts2 r1 where h: "hand_over e p r = (acts1, r1)" and acts: "acts = acts1 @ acts2"
    and qp: "quiet_part e (p\<lparr>ps_prev_enabled := Some (pa_enabled e)\<rparr>, r1, pa_sample e w) = (acts2, p', r', w')"
    using pass_parts [OF m] q by metis
  have none: "acts1 = []" "rg_apps r1 = rg_apps r" using h on by (auto simp: hand_over_def split: if_splits)
  have a: "set acts \<subseteq> {Drained True, Drained False, Reaped}" using quiet_fields [OF qp] acts none(1) by simp
  have b: "ps_last_check p' = ps_last_check p \<and> ps_last_net p' = ps_last_net p \<and> ps_growth_at p' = ps_growth_at p
      \<and> ps_release_at p' = ps_release_at p \<and> ps_warm p' = ps_warm p \<and> \<not> ps_prev_critical p'" using quiet_fields [OF qp] by simp
  have d1: "distinct (map fst (rg_apps r1))" using d none(2) by simp
  have c: "map_of (rg_apps r') k = map_of (rg_apps r) k
      \<or> (\<exists>a. map_of (rg_apps r) k = Some a \<and> (map_of (rg_apps r') k = Some (a\<lparr>la_freeze_notified := True\<rparr>)
            \<or> map_of (rg_apps r') k = None \<and> entry_closed (pa_proc e) (pa_status e) a))"
    using qp
  proof (cases rule: quiet_cases)
    case idle
    from reap_pass_law(1) [OF idle(2) d1, of k] none(2) show ?thesis by metis
  next
    case gone
    then show ?thesis using none(2) by simp
  next
    case (served acts3 w1)
    from reap_pass_law(1) [OF served(4) d1, of k] none(2) show ?thesis by metis
  qed
  have "Drained (pa_resume e launch (pa_set_queue e rest (pa_sample e w)) \<noteq> None) \<in> set acts"
    if g: "mq_get (pa_queue e (pa_sample e w)) = Some ((launch, priority), rest)"
  proof -
  have ne: "\<not> mq_empty (pa_queue e (pa_sample e w))" using g by (auto simp: mq_get_def mq_empty_def)
  have dr: "fst (drain_pending_app_queue e (pa_sample e w)) = (pa_resume e launch (pa_set_queue e rest (pa_sample e w)) = None)"
    by (simp add: drain_pending_app_queue_def g split: option.split)
  show ?thesis
    using qp
  proof (cases rule: quiet_cases)
    case idle
    then show ?thesis using ne by simp
  next
    case gone
    then show ?thesis using dr acts by simp
  next
    case (served acts3 w1)
    then show ?thesis using dr acts by simp
  qed
qed
  then show ?thesis using a b c by blast
qed

text \<open>how soon the balancer decides. Whatever the configured interval, passes that are not quiet decide at least every 30 and,
  without a cause, at most every 2 seconds, never faster than the pressure is refreshed; and a pass decides exactly when a
  launch is held, when the level has become critical since the pass before, or when the interval since the last decision
  is over.\<close>
theorem decision_cadence:
  assumes h: "monitor_run es (make_monitor_loop_state raw_idle pressure_update, r0, w0) = (history, p, r, w)"
    and m: "monitor_pass e (p, r, w) = (acts, p', r', w')" and q: "\<not> pa_quiet e"
  shows "2 \<le> loop_interval raw_idle pressure_update \<and> loop_interval raw_idle pressure_update \<le> 30
    \<and> min 30 pressure_update \<le> loop_interval raw_idle pressure_update
    \<and> (decides acts \<longleftrightarrow> \<not> mq_empty (pa_queue e (pa_sample e w))
        \<or> pa_critical e \<and> (es = [] \<or> pa_quiet (last es) \<or> \<not> pa_critical (last es))
        \<or> loop_interval raw_idle pressure_update \<le> pa_now e - last_decision 0 history)"
proof -
  note f = run_fields [OF h]
  have init: "ps_last_check (make_monitor_loop_state raw_idle pressure_update) = 0" "\<not> ps_prev_critical (make_monitor_loop_state raw_idle pressure_update)"
    "ps_interval (make_monitor_loop_state raw_idle pressure_update) = loop_interval raw_idle pressure_update"
    by (simp_all add: make_monitor_loop_state_def)
  have "decides acts \<longleftrightarrow> decide_now e p (pa_sample e w)" using pass_fields [OF m] q by simp
  then show ?thesis using f init by (auto simp: decide_now_def loop_interval_def)
qed

subsection \<open>A small host\<close>

definition still_host :: "'w manual_host" where
  \<comment> \<open>every write succeeds and none shows in the world\<close>
  "still_host =
     \<lparr>lh_kernel = \<lparr>lk_relax = (\<lambda>cg c m w. (True, w)), lk_lift = (\<lambda>cg w. (True, w)), lk_io_cap = (\<lambda>cg i d w. (True, w)),
        lk_io_lift = (\<lambda>cg d w. (True, w)), lk_total_mem = 1000\<rparr>,
      lh_cap = (\<lambda>cg c m w. (True, w)), lh_throttle = (\<lambda>cg l d w. (True, w)),
      lh_current = (\<lambda>w cg. None), lh_swapped = (\<lambda>w cg. None), lh_stressed = (\<lambda>w. []),
      lh_disks = (\<lambda>w f. f), lh_scales = PDict [], lh_media = (\<lambda>d. Hdd),
      mh_freeze = (\<lambda>cg b w. (True, w)), mh_reclaim = (\<lambda>cg n w. w)\<rparr>"

definition still_policy :: "'w policy_env" where
  "still_policy = \<lparr>pe_host = limit_host.truncate still_host,
     pe_control = \<lparr>ce_control = (\<lambda>i n. (False, None)), ce_usage = (\<lambda>i n. None), ce_rates = (\<lambda>p. no_rates)\<rparr>,
     pe_proc = (\<lambda>w p. ProcMissing), pe_cgroup_exists = (\<lambda>w c. False), pe_busy = (\<lambda>w. False), pe_reclaim = (\<lambda>st. st),
     pe_quiet = (\<lambda>w. False), pe_floors = floor_default, pe_fetch = (\<lambda>c. ([], False)), pe_stale = False, pe_drain = (\<lambda>w. w),
     pe_pending = (\<lambda>w. False)\<rparr>"

definition still_env :: "bool \<Rightarrow> bool \<Rightarrow> real \<Rightarrow> (nat, nat max_queue) pass_env" where
  \<comment> \<open>its world is the queue of held launches\<close>
  "still_env enabled quiet now =
     \<lparr>pa_now = now, pa_enabled = enabled, pa_quiet = quiet, pa_critical = False, pa_peak = (Low, Low), pa_pre_oom = False, pa_rise = None,
      pa_swap_enabled = False, pa_clock = (\<lambda>i. now), pa_controlled = (\<lambda>a. True), pa_policy = still_policy, pa_path_of = (\<lambda>p. None),
      pa_running = True, pa_sample = id, pa_network = (\<lambda>b. id), pa_queue = id, pa_set_queue = (\<lambda>q w. q), pa_resume = (\<lambda>d. Some),
      pa_host = still_host, pa_exists = (\<lambda>w c. True), pa_proc = (\<lambda>p. ProcUnreadable), pa_status = (\<lambda>i n. None),
      pa_frozen_after = 0, pa_reap_interval = 2, pa_reap_affinity = id\<rparr>"

lemma still_env_law: "reclaim_law (pa_policy (still_env enabled quiet now))"
  unfolding reclaim_law_def still_env_def still_policy_def by (simp add: owned_kept_refl)

lemma still_env_fields [simp]: "pa_enabled (still_env b quiet now) = b" "pa_quiet (still_env b quiet now) = quiet"
  "pa_now (still_env b quiet now) = now" "pa_queue (still_env b quiet now) = id" "pa_sample (still_env b quiet now) = id"
  "pa_critical (still_env b quiet now) = False" "pa_resume (still_env b quiet now) d = Some"
  by (simp_all add: still_env_def)

lemma still_env_open: "\<not> entry_closed (pa_proc (still_env b quiet now)) (pa_status (still_env b quiet now)) x"
  by (cases "la_pids x") (simp_all add: entry_closed_def is_app_closed_def pid_gone_or_dying_def still_env_def split: option.splits)

definition held_registry :: registry where
  "held_registry = registry_init\<lparr>rg_apps := [(''a.scope'', demo_app\<lparr>la_controlled := True\<rparr>)]\<rparr>"

theorem passive_off_hands_over_witness:
  "\<exists>acts p' r' w' b. monitor_pass (still_env False False 40)
       ((make_monitor_loop_state 10 5)\<lparr>ps_prev_enabled := Some True\<rparr>, held_registry, mq_init) = (acts, p', r', w')
     \<and> map_of (rg_apps r') ''a.scope'' = Some b \<and> la_source b = Manual \<and> la_io b"
proof -
  let ?p = "(make_monitor_loop_state 10 5)\<lparr>ps_prev_enabled := Some True\<rparr>"
  obtain acts p' r' w' where m: "monitor_pass (still_env False False 40) (?p, held_registry, mq_init) = (acts, p', r', w')"
    by (metis surj_pair)
  have d: "distinct (map fst (rg_apps held_registry))" "own_ids held_registry"
    "map_of (rg_apps held_registry) ''a.scope'' = Some (demo_app\<lparr>la_controlled := True\<rparr>)"
    by (simp_all add: held_registry_def own_ids_def)
  have a: "la_source (demo_app\<lparr>la_controlled := True\<rparr>) = Auto" "la_controlled (demo_app\<lparr>la_controlled := True\<rparr>)"
    "la_io (demo_app\<lparr>la_controlled := True\<rparr>)"
    by (simp_all add: demo_app_def fresh_entry_def)
  have pre: "ps_prev_enabled ?p = Some True" "\<not> pa_enabled (still_env False False 40)" by simp_all
  obtain b where b: "la_source b = Manual" "same_caps (demo_app\<lparr>la_controlled := True\<rparr>) b" "map_of (rg_apps r') ''a.scope'' = Some b"
    using passive_off_hands_over [OF pre m d(1,2) still_env_law d(3) a(1,2)] still_env_open by blast
  have "la_io b" using b(2) a(3) by (simp add: same_caps_def)
  then show ?thesis using m b(1,3) by blast
qed

theorem quiet_pass_restrained_witness:
  "\<exists>acts p' r' w'. monitor_pass (still_env True True 40) (make_monitor_loop_state 10 5, registry_init, mq_put (7, 2) mq_init) = (acts, p', r', w')
     \<and> Drained True \<in> set acts \<and> \<not> decides acts \<and> ps_last_check p' = 0"
proof -
  let ?p = "make_monitor_loop_state 10 5"
  obtain acts p' r' w' where m: "monitor_pass (still_env True True 40) (?p, registry_init, mq_put (7, 2) mq_init) = (acts, p', r', w')"
    by (metis surj_pair)
  have pre: "pa_quiet (still_env True True 40)" "ps_prev_enabled ?p \<noteq> Some True \<or> pa_enabled (still_env True True 40)"
    "distinct (map fst (rg_apps registry_init))" "ps_last_check ?p = 0"
    by (simp_all add: registry_init_def make_monitor_loop_state_def)
  have g: "mq_get (pa_queue (still_env True True 40) (pa_sample (still_env True True 40) (mq_put (7, 2) mq_init))) = Some ((7, 2), mq_init\<lparr>mq_index := 1\<rparr>)"
    by (simp add: mq_get_def mq_put_def mq_init_def)
  note law = quiet_pass_restrained [OF pre(1,2) m pre(3)]
  have "Drained True \<in> set acts" "ps_last_check p' = 0" "set acts \<subseteq> {Drained True, Drained False, Reaped}"
    using law [of _ 7 2 "mq_init\<lparr>mq_index := 1\<rparr>"] g pre(4) by auto
  then show ?thesis using m by (force simp: decides_def list_ex_iff)
qed

theorem decision_cadence_witness:
  "\<exists>acts p' r' w'. monitor_pass (still_env True False 40) (make_monitor_loop_state 100 5, registry_init, mq_init) = (acts, p', r', w')
     \<and> decides acts"
proof -
  obtain acts p' r' w' where m: "monitor_pass (still_env True False 40) (make_monitor_loop_state 100 5, registry_init, mq_init) = (acts, p', r', w')"
    by (metis surj_pair)
  have h: "monitor_run [] (make_monitor_loop_state 100 5, registry_init, mq_init) = ([], make_monitor_loop_state 100 5, registry_init, mq_init)" by simp
  have "\<not> pa_quiet (still_env True False 40)" by simp
  from decision_cadence [OF h m this] have "decides acts" by (simp add: last_decision_def loop_interval_def)
  then show ?thesis using m by blast
qed

end
