(* ===== verification/Affinity.thy ===== *)
theory Affinity
  imports Cpu Proc_State
begin

text \<open>
  Which applications are bound to which cores, from \<open>balancer/balancer/balancer.py\<close>: \<open>_set_cpu_affinity\<close>, the table
  \<open>_affinity_apps\<close>, releasing and reaping. Binding one cgroup is the controller of theory \<open>Cpu\<close>. The cgroups and pids an
  application has now, the state of a process and the running status are arguments; messages and notifications are left out.
\<close>

record tracked =
  tk_name :: string
  tk_pids :: "int list"     \<comment> \<open>a set\<close>
  tk_dirs :: "cg list"      \<comment> \<open>a set\<close>

type_synonym affinity_apps = "(string \<times> tracked) list"

subsection \<open>The table\<close>

definition tracked_affinity_dirs :: "string \<Rightarrow> affinity_apps \<Rightarrow> cg list" where
  \<comment> \<open>the code sorts them by path\<close>
  "tracked_affinity_dirs app_id aff = (case map_of aff app_id of None \<Rightarrow> [] | Some t \<Rightarrow> tk_dirs t)"

definition forget_affinity :: "string \<Rightarrow> cg list \<Rightarrow> affinity_apps \<Rightarrow> affinity_apps" where
  "forget_affinity app_id dirs aff =
     (case map_of aff app_id of
        None \<Rightarrow> aff
      | Some t \<Rightarrow>
          (let left = filter (\<lambda>d. d \<notin> set dirs) (tk_dirs t)
           in if left = [] then AList.delete app_id aff else AList.update app_id (t\<lparr>tk_dirs := left\<rparr>) aff))"

definition track_affinity :: "string \<Rightarrow> string \<Rightarrow> int list \<Rightarrow> cg list \<Rightarrow> affinity_apps \<Rightarrow> affinity_apps" where
  "track_affinity app_id app_name pids dirs aff =
     (let t = (case map_of aff app_id of None \<Rightarrow> \<lparr>tk_name = app_name, tk_pids = [], tk_dirs = []\<rparr> | Some t \<Rightarrow> t)
      in AList.update app_id (t\<lparr>tk_pids := tk_pids t @ pids, tk_dirs := remdups (tk_dirs t @ dirs)\<rparr>) aff)"

subsection \<open>Binding\<close>

definition cg_base :: "cg \<Rightarrow> string" where
  "cg_base d = (if d = [] then [] else last d)"

definition in_scope :: "string list \<Rightarrow> cg \<Rightarrow> bool" where
  \<comment> \<open>the cgroups the user ticked, all when none is named\<close>
  "in_scope target_cgroups d \<longleftrightarrow>
     (let wanted = map (\<lambda>c. rev (takeWhile (\<lambda>x. x \<noteq> CHR ''/'') (rev c))) (filter (\<lambda>c. strip c \<noteq> []) target_cgroups)
      in wanted = [] \<or> cg_base d \<in> set wanted)"

fun restore_dirs :: "cg_kernel \<Rightarrow> cg list \<Rightarrow> cpu_ctl \<times> cg_world \<Rightarrow> cg list \<times> cg list \<times> cpu_ctl \<times> cg_world" where
  \<comment> \<open>the cgroups restored and those that failed\<close>
  "restore_dirs kern [] st = ([], [], st)"
| "restore_dirs kern (d # ds) st =
     (case restore kern d st of (res, st1) \<Rightarrow>
      case restore_dirs kern ds st1 of (good, bad, st2) \<Rightarrow> (if restore_ok res then (d # good, bad, st2) else (good, d # bad, st2)))"

fun bind_each :: "cg_kernel \<Rightarrow> string \<Rightarrow> cg list \<Rightarrow> cg list \<Rightarrow> cpu_ctl \<times> cg_world \<Rightarrow> cg option \<times> cg list \<times> cpu_ctl \<times> cg_world" where
  \<comment> \<open>the loop up to the first failure: the cgroup that failed, those done\<close>
  "bind_each kern v finished [] st = (None, finished, st)"
| "bind_each kern v finished (d # ds) st =
     (case set_cpus kern d v st of (res, st1) \<Rightarrow>
        if res = PinOk then bind_each kern v (finished @ [d]) ds st1 else (Some d, finished, st1))"

datatype affinity_result = AffRestored | AffRestoreFailed "cg list" | AffNoCgroup | AffRefused cpu_refusal | AffFailed cg | AffBound string

fun affinity_ok :: "affinity_result \<Rightarrow> bool" where
  "affinity_ok AffRestored = True"
| "affinity_ok (AffBound _) = True"
| "affinity_ok _ = False"

definition set_cpu_affinity ::
  "cg_kernel \<Rightarrow> string \<Rightarrow> string \<Rightarrow> string \<Rightarrow> string \<Rightarrow> string list \<Rightarrow> (string \<rightharpoonup> nat list) \<Rightarrow> nat set \<Rightarrow> cg list \<Rightarrow> int list
     \<Rightarrow> affinity_apps \<times> cpu_ctl \<times> cg_world \<Rightarrow> affinity_result \<times> affinity_apps \<times> cpu_ctl \<times> cg_world" where
  \<comment> \<open>\<open>now_dirs\<close> and \<open>pids\<close> are what the application has at the moment\<close>
  "set_cpu_affinity kern app_id app_name cpu_class cpus target_cgroups groups online now_dirs pids st =
     (case st of (aff, cs) \<Rightarrow>
        (let dirs = filter (in_scope target_cgroups) now_dirs
         in if lower cpu_class = ''restore''
            then (let ds = (if dirs \<noteq> [] then dirs else filter (in_scope target_cgroups) (tracked_affinity_dirs app_id aff))
                  in case restore_dirs kern ds cs of (good, bad, cs1) \<Rightarrow>
                       if bad \<noteq> [] then (AffRestoreFailed bad, aff, cs1) else (AffRestored, forget_affinity app_id ds aff, cs1))
            else if dirs = [] then (AffNoCgroup, aff, cs)
            else case resolve_cpus cpu_class cpus groups online of
                   Inl e \<Rightarrow> (AffRefused e, aff, cs)
                 | Inr v \<Rightarrow>
                     (case bind_each kern v [] dirs cs of
                        (Some d, finished, cs1) \<Rightarrow>
                          (case restore_dirs kern (finished @ (if is_bound d (fst cs1) then [d] else [])) cs1 of (good, bad, cs2) \<Rightarrow>
                             (AffFailed d, forget_affinity app_id good aff, cs2))
                      | (None, finished, c1, w1) \<Rightarrow>
                          (AffBound v, track_affinity app_id app_name pids finished aff, remember_choice app_id (lower cpu_class) v c1, w1))))"

subsection \<open>Releasing\<close>

definition release_cpu_affinity ::
  "cg_kernel \<Rightarrow> string \<Rightarrow> affinity_apps \<times> cpu_ctl \<times> cg_world \<Rightarrow> bool \<times> affinity_apps \<times> cpu_ctl \<times> cg_world" where
  "release_cpu_affinity kern app_id st =
     (case st of (aff, cs) \<Rightarrow>
        (case tracked_affinity_dirs app_id aff of
           [] \<Rightarrow> (True, aff, cs)
         | ds \<Rightarrow> (case restore_dirs kern ds cs of (good, bad, cs1) \<Rightarrow> (bad = [], forget_affinity app_id good aff, cs1))))"

definition affinity_gone :: "(int \<Rightarrow> proc_read) \<Rightarrow> (string \<Rightarrow> string \<Rightarrow> string option) \<Rightarrow> string \<times> tracked \<Rightarrow> bool" where
  "affinity_gone rd status x =
     (if tk_pids (snd x) \<noteq> [] then list_all (\<lambda>p. pid_gone_or_dying (rd p)) (tk_pids (snd x))
      else status (fst x) (tk_name (snd x)) = Some ''stopped'')"

fun reap_affinity :: "cg_kernel \<Rightarrow> (string \<times> tracked) list \<Rightarrow> affinity_apps \<times> cpu_ctl \<times> cg_world \<Rightarrow> affinity_apps \<times> cpu_ctl \<times> cg_world" where
  "reap_affinity kern [] st = st"
| "reap_affinity kern ((app_id, t) # xs) (aff, cs) =
     (case restore_dirs kern (tk_dirs t) cs of (good, bad, cs1) \<Rightarrow> reap_affinity kern xs (AList.delete app_id aff, cs1))"

definition reap_closed_affinity ::
  "cg_kernel \<Rightarrow> (int \<Rightarrow> proc_read) \<Rightarrow> (string \<Rightarrow> string \<Rightarrow> string option) \<Rightarrow> affinity_apps \<times> cpu_ctl \<times> cg_world
     \<Rightarrow> affinity_apps \<times> cpu_ctl \<times> cg_world" where
  "reap_closed_affinity kern rd status st = reap_affinity kern (filter (affinity_gone rd status) (fst st)) st"

definition cpu_affinity_summary :: "string \<Rightarrow> affinity_apps \<Rightarrow> cg_world \<Rightarrow> string list" where
  \<comment> \<open>the distinct effective lists\<close>
  "cpu_affinity_summary app_id aff w =
     rev (remdups (rev (filter (\<lambda>c. c \<noteq> []) (List.map_filter (cw_effective w) (tracked_affinity_dirs app_id aff)))))"

subsection \<open>Lemmas\<close>

lemma restore_map:
  assumes "restore kern d (c, w) = (r, c', w')"
  shows "map_of (co_originals c') e = (if restore_ok r \<and> e = d then None else map_of (co_originals c) e)"
  using restore_originals [OF assms] by (simp add: delete_conv)

definition unpins :: "cg_kernel \<Rightarrow> cg \<Rightarrow> bool" where
  \<comment> \<open>restoring the cgroup does not fail\<close>
  "unpins kern d \<longleftrightarrow> (\<forall>st. restore_ok (fst (restore kern d st)))"

lemma restore_dirs_law:
  assumes "restore_dirs kern ds (c, w) = (good, bad, c', w')"
  shows "(\<forall>e. map_of (co_originals c') e = (if e \<in> set good then None else map_of (co_originals c) e)) \<and> set good \<union> set bad = set ds
    \<and> (\<forall>e\<in>set bad. \<not> unpins kern e)"
  using assms
proof (induction ds arbitrary: c w good bad)
  case (Cons d ds)
  obtain r c1 w1 where r: "restore kern d (c, w) = (r, c1, w1)" by (metis surj_pair)
  obtain good1 bad1 where s: "restore_dirs kern ds (c1, w1) = (good1, bad1, c', w')"
    and out: "good = (if restore_ok r then d # good1 else good1)" "bad = (if restore_ok r then bad1 else d # bad1)"
    using Cons.prems r by (auto split: prod.splits if_splits)
  note ih = Cons.IH [OF s]
  have "\<not> unpins kern d" if "\<not> restore_ok r" using that r unfolding unpins_def by (metis fst_conv)
  then show ?case using ih restore_map [OF r] out by auto
qed simp

lemma set_cpus_map:
  assumes "set_cpus kern d v (c, w) = (res, c', w')"
  shows "e \<noteq> d \<Longrightarrow> map_of (co_originals c') e = map_of (co_originals c) e"
    "res = PinOk \<Longrightarrow> is_bound d c'" "is_bound e c \<Longrightarrow> is_bound e c'"
  using assms
  by (auto simp: set_cpus_def remember_pin_def is_bound_def map_add_def split: if_splits option.splits prod.splits bool.splits)

lemma bind_each_law:
  assumes "bind_each kern v acc ds (c, w) = (fail, finished, c', w')"
  shows "(\<exists>more. finished = acc @ more \<and> (case fail of None \<Rightarrow> more = ds | Some d \<Rightarrow> \<exists>after. ds = more @ d # after)
      \<and> (\<forall>e\<in>set more. is_bound e c')
      \<and> (\<forall>e. e \<notin> set more \<and> fail \<noteq> Some e \<longrightarrow> map_of (co_originals c') e = map_of (co_originals c) e))
    \<and> (\<forall>e. is_bound e c \<longrightarrow> is_bound e c')"
  using assms
proof (induction ds arbitrary: acc c w)
  case Nil
  then show ?case by auto
next
  case (Cons d ds)
  obtain res c1 w1 where s: "set_cpus kern d v (c, w) = (res, c1, w1)" by (metis surj_pair)
  note law = set_cpus_map [OF s]
  show ?case
  proof (cases "res = PinOk")
    case False
    then have "fail = Some d" "finished = acc" "c' = c1" using Cons.prems s by simp_all
    then show ?thesis using law(1,3) by (intro conjI exI [of _ "[]"]) auto
  next
    case True
    then have b: "bind_each kern v (acc @ [d]) ds (c1, w1) = (fail, finished, c', w')" using Cons.prems s by simp
    obtain more where m: "finished = (acc @ [d]) @ more" "case fail of None \<Rightarrow> more = ds | Some x \<Rightarrow> \<exists>after. ds = more @ x # after"
      "\<forall>e\<in>set more. is_bound e c'"
      "\<forall>e. e \<notin> set more \<and> fail \<noteq> Some e \<longrightarrow> map_of (co_originals c') e = map_of (co_originals c1) e"
      "\<forall>e. is_bound e c1 \<longrightarrow> is_bound e c'" using Cons.IH [OF b] by blast
    have "is_bound d c'" using m(5) law(2) True by blast
    moreover have "\<forall>e. e \<notin> set (d # more) \<and> fail \<noteq> Some e \<longrightarrow> map_of (co_originals c') e = map_of (co_originals c) e"
      using m(4) law(1) by simp
    moreover have "\<forall>e. is_bound e c \<longrightarrow> is_bound e c'" using m(5) law(3) by blast
    moreover have "case fail of None \<Rightarrow> d # more = d # ds | Some x \<Rightarrow> \<exists>after. d # ds = (d # more) @ x # after"
      using m(2) by (cases fail) auto
    ultimately show ?thesis using m(1,3) by (intro conjI exI [of _ "d # more"]) auto
  qed
qed

lemma tracked_after_track: "set (tracked_affinity_dirs a (track_affinity a n ps ds aff)) = set (tracked_affinity_dirs a aff) \<union> set ds"
  by (simp add: tracked_affinity_dirs_def track_affinity_def Let_def update_conv split: option.split)

lemma tracked_after_forget: "set (tracked_affinity_dirs a (forget_affinity a ds aff)) = set (tracked_affinity_dirs a aff) - set ds"
proof (cases "map_of aff a")
  case None
  then show ?thesis by (simp add: tracked_affinity_dirs_def forget_affinity_def)
next
  case (Some t)
  have "filter (\<lambda>d. d \<notin> set ds) (tk_dirs t) = [] \<Longrightarrow> set (tk_dirs t) - set ds = {}" by (auto simp: filter_empty_conv)
  then show ?thesis using Some by (auto simp: tracked_affinity_dirs_def forget_affinity_def Let_def update_conv delete_conv)
qed

subsection \<open>Properties\<close>


definition refusing_kernel :: "cg \<Rightarrow> cg_kernel" where
  \<comment> \<open>writes of \<open>2\<close> to the cgroup are refused, all other writes take effect\<close>
  "refusing_kernel b = \<lparr>ck_cpus = (\<lambda>d v w. if d = b \<and> v = ''2'' then (Some 22, w)
       else (None, w\<lparr>cw_cpus := (cw_cpus w)(d \<mapsto> v), cw_effective := (cw_effective w)(d \<mapsto> v)\<rparr>)),
     ck_subtree = (\<lambda>a v w. (None, w))\<rparr>"

definition two_scopes_world :: cg_world where
  "two_scopes_world = \<lparr>cw_isdir = (\<lambda>d. True), cw_cpus = [[''a.scope''] \<mapsto> ''0'', [''b.scope''] \<mapsto> ''0''], cw_effective = Map.empty,
     cw_subtree = Map.empty\<rparr>"

lemma refusing_unpins: "d \<noteq> b \<Longrightarrow> unpins (refusing_kernel b) d"
  by (auto simp: unpins_def restore_def refusing_kernel_def split: option.splits)

lemma pin_two: "resolve_cpus ''custom'' ''2'' Map.empty {0..3} = Inr ''2''" "lower ''custom'' = ''custom''" "parse_cpu_list ''2'' = Inr {2}"
proof -
  show l: "lower ''custom'' = ''custom''" by code_simp
  have p2: "parse_cpu_list ''2'' = Inr {2}" "format_cpu_list {2} = ''2''" by code_simp+
  then show "parse_cpu_list ''2'' = Inr {2}" by simp
  show "resolve_cpus ''custom'' ''2'' Map.empty {0..3} = Inr ''2''" by (simp add: resolve_cpus_def l p2)
qed


text \<open>The undoing covers the cgroups this call wrote. A cgroup that an earlier call had bound and that comes after the
  failing one keeps its old binding while the ones before it lose theirs: the application is left half bound.\<close>
lemma failed_rebind_half_bound:
  assumes "set_cpu_affinity kern app_id app_name cls cpus targets groups online now_dirs pids (aff, c, w) = (AffFailed d, aff', c', w')"
    and "filter (in_scope targets) now_dirs = d # after" "d \<notin> set after" "e \<in> set after" "is_bound e c" "unpins kern d"
  shows "is_bound e c' \<and> \<not> is_bound d c'"
proof -
  have n: "lower cls \<noteq> ''restore''" using assms(1) by (auto simp: set_cpu_affinity_def Let_def split: prod.splits if_splits)
  obtain v where v: "resolve_cpus cls cpus groups online = Inr v"
    using assms(1,2) n by (cases "resolve_cpus cls cpus groups online") (auto simp: set_cpu_affinity_def)
  obtain fail finished c1 w1 where b: "bind_each kern v [] (d # after) (c, w) = (fail, finished, c1, w1)" by (metis surj_pair)
  note s' = assms(1) [unfolded set_cpu_affinity_def Let_def prod.case if_not_P [OF n] assms(2) v sum.case b]
  obtain x where x: "fail = Some x" using s' by (cases fail) auto
  obtain good bad c2 w2 where rd: "restore_dirs kern (finished @ (if is_bound x c1 then [x] else [])) (c1, w1) = (good, bad, c2, w2)"
    by (metis surj_pair)
  have out: "x = d" "c' = c2" using s' x rd by simp_all
  have law: "\<exists>after'. d # after = finished @ d # after'" "\<forall>e. is_bound e c \<longrightarrow> is_bound e c1"
    using bind_each_law [OF b] x out(1) by auto
  then have f: "finished = []" using assms(3) by (cases finished) auto
  have e: "is_bound e c1" "e \<noteq> d" using law(2) assms(3-5) by auto
  show ?thesis using restore_dirs_law [OF rd] e assms(6) f out by (auto simp: is_bound_def split: if_splits)
qed

text \<open>The reaper drops the record of an application whose cgroups it could not unpin, so no later pass tries again.\<close>
lemma reaper_untracks_failed_unpin:
  assumes "restore_dirs kern (tk_dirs t) cs = (good, bad, cs1)" "affinity_gone rd status (app_id, t)"
  shows "fst (reap_closed_affinity kern rd status ([(app_id, t)], cs)) = []"
  using assms by (simp add: reap_closed_affinity_def)

end
