(* ===== verification/Io_Ctl.thy ===== *)
theory Io_Ctl
  imports Limit_Policy
begin

text \<open>
  \<open>balancer/controller/io.py\<close>: finding the disks and the cgroup, keeping the io controller enabled on the way down
  (\<open>_ensure_io_enabled\<close>) and writing \<open>io.max\<close> (\<open>set_disk_io_throttle\<close>). Commands and files are a record of functions
  over an arbitrary world; one line of \<open>io.max\<close> is its device and its keys, where no value stands for \<open>max\<close>.
\<close>

record 'w io_kernel =
  ik_mount :: string
  ik_lsblk :: "'w \<Rightarrow> string option"                   \<comment> \<open>its output, None when the command fails\<close>
  ik_find :: "'w \<Rightarrow> string \<Rightarrow> string option"          \<comment> \<open>output of \<open>find mount -name id -type d\<close>, None when it fails\<close>
  ik_exists :: "'w \<Rightarrow> string \<Rightarrow> bool"
  ik_controllers :: "'w \<Rightarrow> string \<Rightarrow> string option"    \<comment> \<open>reads a \<open>cgroup.subtree_control\<close>\<close>
  ik_enable :: "string \<Rightarrow> 'w \<Rightarrow> bool \<times> 'w"            \<comment> \<open>writes \<open>+io\<close> to it\<close>
  ik_max :: "string \<Rightarrow> string \<Rightarrow> (string \<times> int option) list \<Rightarrow> 'w \<Rightarrow> bool \<times> 'w"  \<comment> \<open>writes a line of \<open>io.max\<close>\<close>
  ik_weight :: "string \<Rightarrow> int \<Rightarrow> 'w \<Rightarrow> bool \<times> 'w"    \<comment> \<open>writes \<open>io.weight\<close>\<close>
  ik_read :: "'w \<Rightarrow> string \<Rightarrow> string option"

subsection \<open>Disks\<close>

fun index_of :: "'a \<Rightarrow> 'a list \<Rightarrow> nat option" where
  "index_of x [] = None"
| "index_of x (y # ys) = (if x = y then Some 0 else map_option Suc (index_of x ys))"

definition disk_selected :: "string list \<Rightarrow> string \<Rightarrow> bool" where
  \<comment> \<open>a filter entry selects every disk whose name contains it\<close>
  "disk_selected filters name \<longleftrightarrow> filters = [] \<or> list_ex (\<lambda>f. contains (lower name) (lower f)) filters"

fun disk_rows :: "nat \<Rightarrow> nat \<Rightarrow> nat \<Rightarrow> string list \<Rightarrow> string list \<Rightarrow> (string \<times> string) list \<Rightarrow> (string \<times> string) list option" where
  \<comment> \<open>the loop over the lines below the header; None is the IndexError of a short line\<close>
  "disk_rows ni ti mi filters [] acc = Some acc"
| "disk_rows ni ti mi filters (line # lines) acc =
     (if strip line = [] then disk_rows ni ti mi filters lines acc
      else (let parts = split_ws line
            in if length parts \<le> ni \<or> length parts \<le> ti \<or> length parts \<le> mi then None
               else if parts ! ti \<noteq> ''disk'' \<or> \<not> disk_selected filters (parts ! ni)
               then disk_rows ni ti mi filters lines acc
               else disk_rows ni ti mi filters lines (AList.update (parts ! ni) (parts ! mi) acc)))"

definition get_disk_id :: "'w io_kernel \<Rightarrow> 'w \<Rightarrow> string list \<Rightarrow> (string \<times> string) list" where
  \<comment> \<open>disk name to device number; every failure gives the empty dict\<close>
  "get_disk_id kern w filters =
     (case ik_lsblk kern w of
        None \<Rightarrow> []
      | Some out \<Rightarrow>
          (case split_char CHR 0x0A (strip out) of
             [] \<Rightarrow> []
           | head # lines \<Rightarrow>
               (case (index_of ''NAME'' (split_ws head), index_of ''TYPE'' (split_ws head), index_of ''MAJ:MIN'' (split_ws head)) of
                  (Some ni, Some ti, Some mi) \<Rightarrow> (case disk_rows ni ti mi filters lines [] of None \<Rightarrow> [] | Some m \<Rightarrow> m)
                | _ \<Rightarrow> [])))"

subsection \<open>The way down to a cgroup\<close>

definition path_split :: "string \<Rightarrow> string \<times> string" where
  \<comment> \<open>\<open>os.path.split\<close>\<close>
  "path_split p =
     (let tail = rev (takeWhile (\<lambda>c. c \<noteq> CHR ''/'') (rev p)); head = take (length p - length tail) p;
          kept = rev (dropWhile (\<lambda>c. c = CHR ''/'') (rev head))
      in (if kept = [] then head else kept, tail))"

definition path_join :: "string \<Rightarrow> string \<Rightarrow> string" where
  \<comment> \<open>\<open>os.path.join\<close> with a relative second part\<close>
  "path_join a b = (if a = [] \<or> last a = CHR ''/'' then a @ b else a @ ''/'' @ b)"

definition dir_of :: "string \<Rightarrow> string" where "dir_of p = fst (path_split p)"

fun components_up :: "nat \<Rightarrow> string \<Rightarrow> string \<Rightarrow> string list \<Rightarrow> string list option" where
  \<comment> \<open>the loop that climbs to the mount, collecting the components; None when the fuel runs out\<close>
  "components_up 0 mount path acc = None"
| "components_up (Suc n) mount path acc =
     (if path = mount then Some acc
      else case path_split path of (p, c) \<Rightarrow> components_up n mount p (c # acc))"

fun enable_down :: "'w io_kernel \<Rightarrow> string \<Rightarrow> string list \<Rightarrow> 'w \<Rightarrow> bool \<times> 'w" where
  "enable_down kern current [] w = (True, w)"
| "enable_down kern current (seg # segs) w =
     (let here = path_join current seg; control = path_join here ''cgroup.subtree_control''
      in if \<not> ik_exists kern w control then enable_down kern here segs w
         else case ik_controllers kern w control of
                None \<Rightarrow> (False, w)
              | Some ctl \<Rightarrow>
                  if ''io'' \<in> set (split_ws ctl) then enable_down kern here segs w
                  else (case ik_enable kern control w of
                          (False, w1) \<Rightarrow> (False, w1)
                        | (True, w1) \<Rightarrow> enable_down kern here segs w1))"

definition ensure_io_enabled :: "'w io_kernel \<Rightarrow> string \<Rightarrow> 'w \<Rightarrow> (bool \<times> 'w) option" where
  \<comment> \<open>None when the climb never reaches the mount; a path can be climbed no more often than it has characters before
      it stands still at the top\<close>
  "ensure_io_enabled kern cgroup_path w =
     (let target = dir_of (dir_of cgroup_path)
      in case components_up (length target + 2) (ik_mount kern) target [] of
           None \<Rightarrow> None
         | Some segs \<Rightarrow>
             (case enable_down kern (ik_mount kern) segs w of
                (False, w1) \<Rightarrow> Some (False, w1)
              | (True, w1) \<Rightarrow> Some (ik_exists kern w1 cgroup_path, w1)))"

definition io_id_char :: "char \<Rightarrow> bool" where
  "io_id_char c \<longleftrightarrow> (let n = (of_char c :: nat)
     in (65 \<le> n \<and> n \<le> 90) \<or> (97 \<le> n \<and> n \<le> 122) \<or> (48 \<le> n \<and> n \<le> 57) \<or> c \<in> set ''._@:-'')"

definition io_id_ok :: "string \<Rightarrow> bool" where
  \<comment> \<open>the pattern, whose \<open>$\<close> lets one trailing newline pass\<close>
  "io_id_ok s \<longleftrightarrow> (let t = (if s \<noteq> [] \<and> last s = CHR 0x0A then butlast s else s) in t \<noteq> [] \<and> list_all io_id_char t)"

definition full_cgroup_path :: "'w io_kernel \<Rightarrow> 'w \<Rightarrow> string \<Rightarrow> string \<Rightarrow> string option" where
  "full_cgroup_path kern w cgroup_id file =
     (if \<not> io_id_ok cgroup_id then None
      else case ik_find kern w cgroup_id of
             None \<Rightarrow> None
           | Some out \<Rightarrow>
               (case split_char CHR 0x0A out of
                  [] \<Rightarrow> None
                | l # _ \<Rightarrow> if strip l = [] then None else Some (path_join (strip l) file)))"

subsection \<open>Writing io.max\<close>

type_synonym io_row = "(string \<times> int) list"

definition io_keys :: "string list" where "io_keys = [''rbps'', ''wbps'', ''riops'', ''wiops'']"

definition row_in :: "(string \<times> io_row) list \<Rightarrow> string \<Rightarrow> io_row" where
  "row_in limits k = (case map_of limits k of None \<Rightarrow> [] | Some r \<Rightarrow> r)"

definition disk_row :: "(string \<times> io_row) list \<Rightarrow> string \<Rightarrow> string \<Rightarrow> io_row" where
  \<comment> \<open>the default, overridden by the row of the device number, overridden by the row of the name; the winner first\<close>
  "disk_row limits name disk_id = row_in limits name @ row_in limits disk_id @ row_in limits ''default''"

definition cap_line :: "io_row \<Rightarrow> (string \<times> int option) list" where
  "cap_line row = List.map_filter (\<lambda>k. map_option (\<lambda>v. (k, Some v)) (map_of row k)) io_keys"

definition clear_line :: "(string \<times> int option) list" where
  "clear_line = map (\<lambda>k. (k, None)) io_keys"

definition line_for :: "bool \<Rightarrow> (string \<times> io_row) list \<Rightarrow> string \<Rightarrow> string \<Rightarrow> (string \<times> int option) list" where
  "line_for is_restore limits name disk_id =
     (if is_restore then clear_line else cap_line (disk_row limits name disk_id))"

definition write_disk ::
  "'w io_kernel \<Rightarrow> string \<Rightarrow> string \<Rightarrow> (string \<times> int option) list \<Rightarrow> bool \<Rightarrow> bool \<times> 'w \<Rightarrow> (bool \<times> 'w) option" where
  \<comment> \<open>the body of the loop over the disks, with the running result; a refused write is tried once more\<close>
  "write_disk kern path disk_id line is_restore st =
     (case st of (ok, w) \<Rightarrow>
        if line = [] then Some (ok, w)
        else if \<not> ik_exists kern w path then Some (if is_restore then ok else False, w)
        else (case ik_max kern path disk_id line w of
                (True, w1) \<Rightarrow> Some (ok, w1)
              | (False, w1) \<Rightarrow>
                  (case ensure_io_enabled kern path w1 of
                     None \<Rightarrow> None
                   | Some (False, w2) \<Rightarrow> Some (False, w2)
                   | Some (True, w2) \<Rightarrow>
                       (case ik_max kern path disk_id line w2 of (ok2, w3) \<Rightarrow> Some (ok \<and> ok2, w3)))))"

fun write_disks ::
  "'w io_kernel \<Rightarrow> string \<Rightarrow> (string \<times> io_row) list \<Rightarrow> bool \<Rightarrow> (string \<times> string) list \<Rightarrow> bool \<times> 'w \<Rightarrow> (bool \<times> 'w) option" where
  "write_disks kern path limits is_restore [] st = Some st"
| "write_disks kern path limits is_restore ((name, disk_id) # ds) st =
     Option.bind (write_disk kern path disk_id (line_for is_restore limits name disk_id) is_restore st)
       (write_disks kern path limits is_restore ds)"

definition set_disk_io_throttle ::
  "'w io_kernel \<Rightarrow> string \<Rightarrow> (string \<times> io_row) list \<Rightarrow> string list \<Rightarrow> bool \<Rightarrow> 'w \<Rightarrow> (bool \<times> 'w) option" where
  \<comment> \<open>None only when a climb never ends\<close>
  "set_disk_io_throttle kern cgroup_id limits filters is_restore w =
     (let disks = get_disk_id kern w filters
      in if disks = [] then Some (False, w)
         else case full_cgroup_path kern w cgroup_id ''io.max'' of
                None \<Rightarrow> Some (False, w)
              | Some path \<Rightarrow>
                  (case ensure_io_enabled kern path w of
                     None \<Rightarrow> None
                   | Some (False, w1) \<Rightarrow> Some (False, w1)
                   | Some (True, w1) \<Rightarrow> write_disks kern path limits is_restore disks (True, w1)))"

definition restore_disk_io_throttle :: "'w io_kernel \<Rightarrow> string \<Rightarrow> string list \<Rightarrow> 'w \<Rightarrow> (bool \<times> 'w) option" where
  "restore_disk_io_throttle kern cgroup_id filters w = set_disk_io_throttle kern cgroup_id [] filters True w"

definition throttle_one ::
  "'w io_kernel \<Rightarrow> string \<Rightarrow> string \<Rightarrow> int \<Rightarrow> string list \<Rightarrow> 'w \<Rightarrow> (bool \<times> 'w) option" where
  \<comment> \<open>the four \<open>set_*_throttle_app\<close> helpers, one per key\<close>
  "throttle_one kern key cgroup_id v filters w =
     set_disk_io_throttle kern cgroup_id [(''default'', [(key, v)])] filters False w"

fun enable_each :: "'w io_kernel \<Rightarrow> string list \<Rightarrow> bool \<times> 'w \<Rightarrow> bool \<times> 'w" where
  \<comment> \<open>the loop of \<open>enable_io_controller\<close>\<close>
  "enable_each kern [] st = st"
| "enable_each kern (p # ps) (ok, w) =
     (if \<not> ik_exists kern w (dir_of p) then enable_each kern ps (False, w)
      else (case ik_enable kern p w of (done, w1) \<Rightarrow> enable_each kern ps (ok \<and> done, w1)))"

definition slice_controls :: "string \<Rightarrow> string \<Rightarrow> string list" where
  "slice_controls mount uid =
     (let user = mount @ ''/user.slice''; slice = user @ ''/user-'' @ uid @ ''.slice''; serv = slice @ ''/user@'' @ uid @ ''.service''
      in map (\<lambda>p. p @ ''/cgroup.subtree_control'') [mount, user, slice, serv, serv @ ''/app.slice''])"

definition enable_io_controller :: "'w io_kernel \<Rightarrow> string \<Rightarrow> 'w \<Rightarrow> bool \<times> 'w" where
  "enable_io_controller kern uid w = enable_each kern (slice_controls (ik_mount kern) uid) (True, w)"

definition io_set_weight :: "'w io_kernel \<Rightarrow> string \<Rightarrow> int \<Rightarrow> 'w \<Rightarrow> (bool \<times> 'w) option" where
  \<comment> \<open>without a path the climb raises a TypeError, which it catches itself\<close>
  "io_set_weight kern cgroup_id weight w =
     (if weight < 1 \<or> weight > 10000 then Some (False, w)
      else case full_cgroup_path kern w cgroup_id ''io.weight'' of
             None \<Rightarrow> Some (False, w)
           | Some path \<Rightarrow>
               (case ensure_io_enabled kern path w of
                  None \<Rightarrow> None
                | Some (False, w1) \<Rightarrow> Some (False, w1)
                | Some (True, w1) \<Rightarrow> Some (ik_weight kern path weight w1)))"

definition value_after_eq :: "string \<Rightarrow> py_error + int" where
  \<comment> \<open>\<open>int(part.split('=')[1])\<close> of a part that has an equals sign\<close>
  "value_after_eq part =
     (case split_char CHR ''='' part of
        _ # v # _ \<Rightarrow> (case py_int v of None \<Rightarrow> Inl ValueError | Some i \<Rightarrow> Inr i)
      | _ \<Rightarrow> Inl IndexError)"

fun limits_of :: "string list \<Rightarrow> (string \<Rightarrow> int) \<Rightarrow> py_error + (string \<Rightarrow> int)" where
  "limits_of [] m = Inr m"
| "limits_of (part # parts) m =
     (case find (\<lambda>k. startswith part (k @ ''='')) io_keys of
        None \<Rightarrow> limits_of parts m
      | Some k \<Rightarrow> bindE (value_after_eq part) (\<lambda>i. limits_of parts (m(k := i))))"

definition get_current_io_limits :: "'w io_kernel \<Rightarrow> 'w \<Rightarrow> string \<Rightarrow> py_error + (int \<times> int \<times> int \<times> int) option" where
  \<comment> \<open>the existence test of a path that was not found raises outside the handler\<close>
  "get_current_io_limits kern w cgroup_id =
     (case full_cgroup_path kern w cgroup_id ''io.max'' of
        None \<Rightarrow> Inl TypeError
      | Some path \<Rightarrow>
          if \<not> ik_exists kern w path then Inr None
          else (case ik_read kern w path of
                  None \<Rightarrow> Inr None
                | Some content \<Rightarrow>
                    if strip content = [] then Inr (Some (0, 0, 0, 0))
                    else (case limits_of (tl (split_ws content)) (\<lambda>k. 0) of
                            Inl _ \<Rightarrow> Inr None
                          | Inr m \<Rightarrow> Inr (Some (m ''rbps'', m ''wbps'', m ''riops'', m ''wiops'')))))"

subsection \<open>The climb to the mount ends\<close>

definition path_under :: "string \<Rightarrow> string list \<Rightarrow> string" where
  \<comment> \<open>the path of the components below a directory\<close>
  "path_under base segs = base @ concat (map (\<lambda>s. CHR ''/'' # s) segs)"

definition plain_seg :: "string \<Rightarrow> bool" where
  "plain_seg s \<longleftrightarrow> s \<noteq> [] \<and> CHR ''/'' \<notin> set s"

lemma path_split_seg:
  assumes "base \<noteq> []" "last base \<noteq> CHR ''/''" "CHR ''/'' \<notin> set seg"
  shows "path_split (base @ CHR ''/'' # seg) = (base, seg)"
proof -
  have t: "takeWhile (\<lambda>c. c \<noteq> CHR ''/'') (rev (base @ CHR ''/'' # seg)) = rev seg"
    using assms(3) by (simp, subst takeWhile_append2) auto
  have "hd (rev base) \<noteq> CHR ''/''" using assms(1,2) by (simp add: hd_rev)
  then have d: "dropWhile (\<lambda>c. c = CHR ''/'') (rev base) = rev base"
    using assms(1) by (cases "rev base") auto
  have h: "take (length (base @ CHR ''/'' # seg) - length (rev (rev seg))) (base @ CHR ''/'' # seg) = base @ ''/''"
    by simp
  show ?thesis unfolding path_split_def t h Let_def using d assms(1) by simp
qed

lemma under_snoc: "path_under base (segs @ [s]) = path_under base segs @ CHR ''/'' # s"
  by (simp add: path_under_def)

lemma under_end:
  assumes "base \<noteq> []" "last base \<noteq> CHR ''/''" "list_all plain_seg segs"
  shows "path_under base segs \<noteq> [] \<and> last (path_under base segs) \<noteq> CHR ''/''"
  using assms
proof (induction segs rule: rev_induct)
  case Nil
  then show ?case by (simp add: path_under_def)
next
  case (snoc s segs)
  then have p: "s \<noteq> []" "CHR ''/'' \<notin> set s" by (auto simp: plain_seg_def)
  then have "last s \<noteq> CHR ''/''" by (metis last_in_set)
  then show ?case using p by (simp add: under_snoc)
qed

lemma length_under: "length base + length segs \<le> length (path_under base segs)"
  by (induction segs rule: rev_induct) (simp_all add: path_under_def)

lemma components_under:
  assumes "base \<noteq> []" "last base \<noteq> CHR ''/''" "list_all plain_seg segs" "length segs < n"
  shows "components_up n base (path_under base segs) acc = Some (segs @ acc)"
  using assms
proof (induction segs arbitrary: n acc rule: rev_induct)
  case Nil
  then show ?case by (cases n) (simp_all add: path_under_def)
next
  case (snoc s segs)
  then obtain m where n: "n = Suc m" by (cases n) auto
  have ne: "path_under base (segs @ [s]) \<noteq> base"
    using length_under [of base "segs @ [s]"] by auto
  have "path_split (path_under base (segs @ [s])) = (path_under base segs, s)"
  proof -
    have "list_all plain_seg segs" "CHR ''/'' \<notin> set s" using snoc.prems(3) by (auto simp: plain_seg_def list_all_iff)
    then show ?thesis unfolding under_snoc using under_end [of base segs] snoc.prems(1,2) by (intro path_split_seg) blast+
  qed
  then show ?case using snoc ne by (simp add: n)
qed

lemma ensure_io_enabled_ends:
  assumes "ik_mount kern \<noteq> []" "last (ik_mount kern) \<noteq> CHR ''/''" "list_all plain_seg (segs @ [s, f])"
  shows "ensure_io_enabled kern (path_under (ik_mount kern) (segs @ [s, f])) w \<noteq> None"
proof -
  let ?m = "ik_mount kern"
  have "path_under ?m (segs @ [s, f]) = path_under ?m (segs @ [s]) @ CHR ''/'' # f" "path_under ?m (segs @ [s]) = path_under ?m segs @ CHR ''/'' # s"
    by (simp_all add: path_under_def)
  then have d: "dir_of (dir_of (path_under ?m (segs @ [s, f]))) = path_under ?m segs"
    using path_split_seg [of "path_under ?m (segs @ [s])" f] path_split_seg [of "path_under ?m segs" s]
      under_end [of ?m "segs @ [s]"] under_end [of ?m segs] assms by (simp add: dir_of_def plain_seg_def)
  have "length segs < length (path_under ?m segs) + 2" using length_under [of ?m segs] by linarith
  then have "components_up (length (path_under ?m segs) + 2) ?m (path_under ?m segs) [] = Some (segs @ [])"
    using assms by (intro components_under) auto
  then show ?thesis unfolding ensure_io_enabled_def d Let_def by (simp split: prod.split bool.split)
qed

lemma cut_slashes:
  assumes "c \<in> set m" "c \<noteq> CHR ''/''" "last m = CHR ''/''"
    and "kept = rev (dropWhile (\<lambda>c. c = CHR ''/'') (rev h))"
  shows "(if kept = [] then h else kept) \<noteq> m"
proof (cases "kept = []")
  case True
  then have "\<forall>c\<in>set h. c = CHR ''/''" using assms(4) by simp
  then show ?thesis using True assms(1,2) by auto
next
  case False
  then have "dropWhile (\<lambda>c. c = CHR ''/'') (rev h) \<noteq> []" using assms(4) by simp
  from hd_dropWhile [OF this] have "last kept \<noteq> CHR ''/''" using assms(4) by (simp add: last_rev)
  then show ?thesis using False assms(3) by auto
qed

lemma path_split_end:
  assumes "path_split p = (a, b)" "c \<in> set m" "c \<noteq> CHR ''/''" "last m = CHR ''/''"
  shows "a \<noteq> m"
proof -
  have "fst (path_split p) \<noteq> m"
    unfolding path_split_def Let_def fst_conv by (rule cut_slashes [OF assms(2,3,4) refl])
  then show ?thesis by (simp only: assms(1) fst_conv not_False_eq_True)
qed

text \<open>A mount that is configured with a slash at its end is never reached, so the climb does not end.\<close>

lemma trailing_slash_never_ends:
  assumes "c \<in> set mount" "c \<noteq> CHR ''/''" "last mount = CHR ''/''" "path \<noteq> mount"
  shows "components_up n mount path acc = None"
  using assms(4)
proof (induction n arbitrary: path acc)
  case 0
  then show ?case by simp
next
  case (Suc n)
  obtain a b where ab: "path_split path = (a, b)" by fastforce
  then have "a \<noteq> mount" using path_split_end [OF ab assms(1,2,3)] by blast
  then show ?case using Suc ab by simp
qed

subsection \<open>What a throttle leaves behind\<close>

definition after_line :: "(string \<times> int option) list \<Rightarrow> (string \<Rightarrow> int option) \<Rightarrow> string \<Rightarrow> int option" where
  "after_line line old k = (case map_of line k of None \<Rightarrow> old k | Some v \<Rightarrow> v)"

definition io_kernel_ok :: "'w io_kernel \<Rightarrow> ('w \<Rightarrow> string \<Rightarrow> string \<Rightarrow> string \<Rightarrow> int option) \<Rightarrow> bool" where
  \<comment> \<open>the documented behaviour of \<open>io.max\<close>: a line sets its keys for its device and nothing else, a refused one sets
      nothing, and a file that is not there caps nothing; disks and cgroups do not move under the writes\<close>
  "io_kernel_ok kern cap \<longleftrightarrow>
     (\<forall>p d line w w'. ik_max kern p d line w = (True, w') \<longrightarrow>
        (\<forall>q e. cap w' q e = (if q = p \<and> e = d then after_line line (cap w q e) else cap w q e)))
   \<and> (\<forall>p d line w w'. ik_max kern p d line w = (False, w') \<longrightarrow> cap w' = cap w)
   \<and> (\<forall>p w. cap (snd (ik_enable kern p w)) = cap w)
   \<and> (\<forall>p w d k. \<not> ik_exists kern w p \<longrightarrow> cap w p d k = None)
   \<and> (\<forall>p d line w. ik_lsblk kern (snd (ik_max kern p d line w)) = ik_lsblk kern w \<and> ik_find kern (snd (ik_max kern p d line w)) = ik_find kern w)
   \<and> (\<forall>p w. ik_lsblk kern (snd (ik_enable kern p w)) = ik_lsblk kern w \<and> ik_find kern (snd (ik_enable kern p w)) = ik_find kern w)"

definition still_world :: "'w io_kernel \<Rightarrow> 'w \<Rightarrow> 'w \<Rightarrow> bool" where
  "still_world kern w w' \<longleftrightarrow> ik_lsblk kern w' = ik_lsblk kern w \<and> ik_find kern w' = ik_find kern w"

lemma max_law:
  assumes "io_kernel_ok kern cap" "ik_max kern p d line w = (ok, w')"
  shows "cap w' q e = (if ok \<and> q = p \<and> e = d then after_line line (cap w q e) else cap w q e)" "still_world kern w w'"
proof -
  show "cap w' q e = (if ok \<and> q = p \<and> e = d then after_line line (cap w q e) else cap w q e)"
    using assms by (cases ok) (simp_all add: io_kernel_ok_def)
  have "snd (ik_max kern p d line w) = w'" using assms(2) by simp
  then show "still_world kern w w'" using assms(1) unfolding io_kernel_ok_def still_world_def by metis
qed

lemma enable_law:
  assumes "io_kernel_ok kern cap" "ik_enable kern p w = (ok, w')"
  shows "cap w' = cap w" "still_world kern w w'"
proof -
  have s: "snd (ik_enable kern p w) = w'" using assms(2) by simp
  show "cap w' = cap w" using assms(1) s unfolding io_kernel_ok_def by metis
  show "still_world kern w w'" using assms(1) s unfolding io_kernel_ok_def still_world_def by metis
qed

lemma still_trans: "still_world kern w w1 \<Longrightarrow> still_world kern w1 w2 \<Longrightarrow> still_world kern w w2"
  by (simp add: still_world_def)

lemma still_refl [simp]: "still_world kern w w"
  by (simp add: still_world_def)

lemma enable_down_law:
  assumes "io_kernel_ok kern cap" "enable_down kern current segs w = (ok, w')"
  shows "cap w' = cap w \<and> still_world kern w w'"
  using assms(2)
proof (induction segs arbitrary: current w)
  case Nil
  then show ?case by simp
next
  case (Cons seg segs)
  let ?here = "path_join current seg" and ?c = "path_join (path_join current seg) ''cgroup.subtree_control''"
  show ?case
  proof (cases "ik_exists kern w ?c")
    case False
    then show ?thesis using Cons by simp
  next
    case True
    show ?thesis
    proof (cases "ik_controllers kern w ?c")
      case None
      then show ?thesis using Cons.prems True by simp
    next
      case (Some ctl)
      obtain b w1 where e: "ik_enable kern ?c w = (b, w1)" by fastforce
      note l = enable_law [OF assms(1) e]
      consider "''io'' \<in> set (split_ws ctl)" | "''io'' \<notin> set (split_ws ctl)" "b" | "''io'' \<notin> set (split_ws ctl)" "\<not> b" by blast
      then show ?thesis
      proof cases
        case 1
        then show ?thesis using Cons True Some by simp
      next
        case 2
        then have "enable_down kern ?here segs w1 = (ok, w')" using Cons.prems True Some e by simp
        from Cons.IH [OF this] show ?thesis using l still_trans by metis
      next
        case 3
        then have "w' = w1" using Cons.prems True Some e by simp
        then show ?thesis using l by simp
      qed
    qed
  qed
qed

lemma ensure_law:
  assumes "io_kernel_ok kern cap" "ensure_io_enabled kern path w = Some (ok, w')"
  shows "cap w' = cap w \<and> still_world kern w w'"
proof -
  obtain segs b w1 where c: "components_up (length (dir_of (dir_of path)) + 2) (ik_mount kern) (dir_of (dir_of path)) [] = Some segs"
    and e: "enable_down kern (ik_mount kern) segs w = (b, w1)"
    using assms(2) by (fastforce simp: ensure_io_enabled_def Let_def split: option.splits)
  have "w' = w1" using assms(2) c e by (cases b) (auto simp: ensure_io_enabled_def Let_def)
  then show ?thesis using enable_down_law [OF assms(1) e] by simp
qed

lemma write_disk_law:
  assumes "io_kernel_ok kern cap" "write_disk kern path d line rs (ok, w) = Some (ok', w')" "rs \<Longrightarrow> line = clear_line"
  shows "ok' \<longrightarrow> ok \<and> cap w' path d = after_line line (cap w path d)"
    and "q \<noteq> path \<or> e \<noteq> d \<Longrightarrow> cap w' q e = cap w q e" and "still_world kern w w'"
proof -
  have gone: "cap w path d = after_line line (cap w path d)" if "\<not> ik_exists kern w path" rs
  proof
    fix k
    have "cap w path d k = None" using assms(1) that(1) by (simp add: io_kernel_ok_def)
    then show "cap w path d k = after_line line (cap w path d) k"
      by (simp add: assms(3) [OF that(2)] after_line_def clear_line_def io_keys_def)
  qed
  have nil: "after_line [] f = f" for f :: "string \<Rightarrow> int option" by (rule ext) (simp add: after_line_def)
  consider (no_line) "line = []" | (no_file) "line \<noteq> []" "\<not> ik_exists kern w path" | (has_file) "line \<noteq> []" "ik_exists kern w path" by blast
  then have "(ok' \<longrightarrow> ok \<and> cap w' path d = after_line line (cap w path d))
      \<and> (q \<noteq> path \<or> e \<noteq> d \<longrightarrow> cap w' q e = cap w q e) \<and> still_world kern w w'"
  proof cases
    case no_line
    then show ?thesis using assms(2) by (auto simp: write_disk_def nil)
  next
    case no_file
    then show ?thesis using assms(2) gone by (auto simp: write_disk_def split: if_splits)
  next
    case has_file
    obtain b w1 where m: "ik_max kern path d line w = (b, w1)" by fastforce
    note l1 = max_law [OF assms(1) m]
    show ?thesis
    proof (cases b)
      case True
      then have "ok' = ok" "w' = w1" using assms(2) has_file m by (auto simp: write_disk_def)
      then show ?thesis using l1 True by (auto simp: fun_eq_iff)
    next
      case False
      then obtain b2 w2 where en: "ensure_io_enabled kern path w1 = Some (b2, w2)"
        using assms(2) has_file m by (cases "ensure_io_enabled kern path w1") (auto simp: write_disk_def)
      have l2: "cap w2 = cap w1" "still_world kern w1 w2" using ensure_law [OF assms(1) en] by simp_all
      have c1: "cap w1 = cap w" using l1(1) False by (intro ext) simp
      show ?thesis
      proof (cases b2)
        case False2: False
        then have "\<not> ok'" "w' = w2" using assms(2) has_file m en False by (auto simp: write_disk_def)
        then show ?thesis using l1(2) l2 c1 still_trans by metis
      next
        case True2: True
        obtain ok2 w3 where m2: "ik_max kern path d line w2 = (ok2, w3)" by fastforce
        note l3 = max_law [OF assms(1) m2]
        have r: "ok' = (ok \<and> ok2)" "w' = w3" using assms(2) has_file m en False True2 m2 by (auto simp: write_disk_def)
        have s: "still_world kern w w'" using l1(2) l2(2) l3(2) r(2) still_trans by metis
        have c: "cap w' q e = (if ok2 \<and> q = path \<and> e = d then after_line line (cap w q e) else cap w q e)" for q e
          using l3(1) [of q e] l2(1) c1 r(2) by simp
        show ?thesis using s c r(1) by auto
      qed
    qed
  qed
  then show "ok' \<longrightarrow> ok \<and> cap w' path d = after_line line (cap w path d)"
    and "q \<noteq> path \<or> e \<noteq> d \<Longrightarrow> cap w' q e = cap w q e" and "still_world kern w w'" by blast+
qed

lemma line_for_restore: "line_for True limits n d = clear_line"
  by (simp add: line_for_def)

lemma write_disks_law:
  assumes "io_kernel_ok kern cap" "write_disks kern path limits rs ds (ok, w) = Some (ok', w')" "distinct (map snd ds)"
  shows "(ok' \<longrightarrow> ok \<and> (\<forall>(n, d)\<in>set ds. cap w' path d = after_line (line_for rs limits n d) (cap w path d)))
    \<and> (\<forall>q e. q \<noteq> path \<or> e \<notin> snd ` set ds \<longrightarrow> cap w' q e = cap w q e) \<and> still_world kern w w'"
  using assms(2,3)
proof (induction ds arbitrary: ok w)
  case Nil
  then show ?case by simp
next
  case (Cons x ds)
  obtain n d where x: "x = (n, d)" by fastforce
  let ?line = "line_for rs limits n d"
  from Cons.prems obtain ok1 w1 where s: "write_disk kern path d ?line rs (ok, w) = Some (ok1, w1)"
    and r: "write_disks kern path limits rs ds (ok1, w1) = Some (ok', w')"
    by (cases "write_disk kern path d ?line rs (ok, w)") (auto simp: x)
  have cl: "rs \<Longrightarrow> ?line = clear_line" by (simp add: line_for_def)
  note l = write_disk_law [OF assms(1) s cl]
  have nd: "d \<notin> snd ` set ds" "distinct (map snd ds)" using Cons.prems(2) by (simp_all add: x)
  note ih = Cons.IH [OF r nd(2)]
  have keep: "cap w' path d = cap w1 path d" using ih nd(1) by blast
  have other: "cap w1 path e = cap w path e" if "e \<in> snd ` set ds" for e
    using l(2) [of path e] that nd(1) by blast
  have caps: "ok \<and> (\<forall>(n, d)\<in>set (x # ds). cap w' path d = after_line (line_for rs limits n d) (cap w path d))" if ok': "ok'"
  proof -
    have a: "ok1" "\<forall>(n, d)\<in>set ds. cap w' path d = after_line (line_for rs limits n d) (cap w1 path d)" using ih ok' by blast+
    have b: "ok" "cap w1 path d = after_line ?line (cap w path d)" using l(1) a(1) by blast+
    have "cap w' path e = after_line (line_for rs limits m e) (cap w path e)" if "(m, e) \<in> set ds" for m e
    proof -
      have "cap w' path e = after_line (line_for rs limits m e) (cap w1 path e)" using a(2) that by blast
      moreover have "e \<in> snd ` set ds" using that by force
      ultimately show ?thesis using other by metis
    qed
    then show ?thesis using b keep by (auto simp: x)
  qed
  have frame: "cap w' q e = cap w q e" if "q \<noteq> path \<or> e \<notin> snd ` set (x # ds)" for q e
  proof -
    have "q \<noteq> path \<or> e \<notin> snd ` set ds" "q \<noteq> path \<or> e \<noteq> d" using that by (auto simp: x)
    then show ?thesis using ih l(2) [of q e] by simp
  qed
  have same: "still_world kern w w'" using still_trans [OF l(3) ih [THEN conjunct2, THEN conjunct2]] .
  show ?case
  proof (intro conjI)
    show "ok' \<longrightarrow> ok \<and> (\<forall>(n, d)\<in>set (x # ds). cap w' path d = after_line (line_for rs limits n d) (cap w path d))"
      using caps by (rule impI)
    show "\<forall>q e. q \<noteq> path \<or> e \<notin> snd ` set (x # ds) \<longrightarrow> cap w' q e = cap w q e"
      by (intro allI impI) (rule frame)
  qed (rule same)
qed

lemma throttle_law:
  assumes k: "io_kernel_ok kern cap" and t: "set_disk_io_throttle kern cg limits filters rs w = Some (ok, w')"
    and d: "distinct (map snd (get_disk_id kern w filters))"
  shows "still_world kern w w'"
    and "ok \<Longrightarrow> \<exists>path. full_cgroup_path kern w cg ''io.max'' = Some path
          \<and> (\<forall>(n, e)\<in>set (get_disk_id kern w filters). cap w' path e = after_line (line_for rs limits n e) (cap w path e))"
    and "full_cgroup_path kern w cg ''io.max'' \<noteq> Some q \<or> e \<notin> snd ` set (get_disk_id kern w filters) \<Longrightarrow> cap w' q e = cap w q e"
proof -
  let ?disks = "get_disk_id kern w filters"
  have main: "still_world kern w w'
    \<and> (ok \<longrightarrow> (\<exists>path. full_cgroup_path kern w cg ''io.max'' = Some path
          \<and> (\<forall>(n, e)\<in>set ?disks. cap w' path e = after_line (line_for rs limits n e) (cap w path e))))
    \<and> (\<forall>q e. full_cgroup_path kern w cg ''io.max'' \<noteq> Some q \<or> e \<notin> snd ` set ?disks \<longrightarrow> cap w' q e = cap w q e)"
  proof (cases "?disks = [] \<or> full_cgroup_path kern w cg ''io.max'' = None")
    case True
    then have "\<not> ok" "w' = w" using t by (auto simp: set_disk_io_throttle_def Let_def split: if_splits)
    then show ?thesis by simp
  next
    case False
    then obtain path where p: "full_cgroup_path kern w cg ''io.max'' = Some path" by auto
    obtain b w1 where en: "ensure_io_enabled kern path w = Some (b, w1)"
      using t False p by (cases "ensure_io_enabled kern path w") (auto simp: set_disk_io_throttle_def)
    note l = ensure_law [OF k en]
    show ?thesis
    proof (cases b)
      case False2: False
      then have "\<not> ok" "w' = w1" using t False p en by (auto simp: set_disk_io_throttle_def)
      then show ?thesis using l by simp
    next
      case True
      then have "write_disks kern path limits rs ?disks (True, w1) = Some (ok, w')"
        using t False p en by (simp add: set_disk_io_throttle_def)
      from write_disks_law [OF k this d] l p show ?thesis by (auto intro: still_trans)
    qed
  qed
  show "still_world kern w w'" using main by (rule conjunct1)
  show "\<exists>path. full_cgroup_path kern w cg ''io.max'' = Some path
          \<and> (\<forall>(n, e)\<in>set ?disks. cap w' path e = after_line (line_for rs limits n e) (cap w path e))" if ok
    using main that by blast
  show "cap w' q e = cap w q e" if "full_cgroup_path kern w cg ''io.max'' \<noteq> Some q \<or> e \<notin> snd ` set ?disks"
    using main that by blast
qed

lemma still_disks: "still_world kern w w' \<Longrightarrow> get_disk_id kern w' f = get_disk_id kern w f"
  by (simp add: still_world_def get_disk_id_def)

lemma still_path: "still_world kern w w' \<Longrightarrow> full_cgroup_path kern w' c f = full_cgroup_path kern w c f"
  by (simp add: still_world_def full_cgroup_path_def)

subsection \<open>Properties\<close>

text \<open>a restored disk cap is gone and nothing else was touched. Throttle a cgroup on the disks of a filter, with any
  result, and lift the throttle with the same filter: if lifting reports success, no selected disk has a value left in
  the cgroup's \<open>io.max\<close>, and every other disk and cgroup is as it was before the throttle.\<close>
theorem io_cap_restore_roundtrip:
  assumes k: "io_kernel_ok kern cap" and d: "distinct (map snd (get_disk_id kern w filters))"
    and t: "set_disk_io_throttle kern cg limits filters False w = Some (ok, w1)"
    and r: "restore_disk_io_throttle kern cg filters w1 = Some (True, w2)"
  shows "\<exists>path. full_cgroup_path kern w cg ''io.max'' = Some path
    \<and> (\<forall>(n, e)\<in>set (get_disk_id kern w filters). \<forall>key\<in>set io_keys. cap w2 path e key = None)
    \<and> (\<forall>q e. q \<noteq> path \<or> e \<notin> snd ` set (get_disk_id kern w filters) \<longrightarrow> cap w2 q e = cap w q e)"
proof -
  let ?disks = "get_disk_id kern w filters"
  note l1 = throttle_law [OF k t d]
  have same: "get_disk_id kern w1 filters = ?disks" "full_cgroup_path kern w1 cg ''io.max'' = full_cgroup_path kern w cg ''io.max''"
    using still_disks [OF l1(1)] still_path [OF l1(1)] by simp_all
  note l2 = throttle_law [OF k r [unfolded restore_disk_io_throttle_def], unfolded same, OF d]
  obtain path where p: "full_cgroup_path kern w cg ''io.max'' = Some path"
    and c: "\<forall>(n, e)\<in>set ?disks. cap w2 path e = after_line (line_for True [] n e) (cap w1 path e)"
    using l2(2) by blast
  have "cap w2 path e key = None" if "(n, e) \<in> set ?disks" "key \<in> set io_keys" for n e key
  proof -
    have "cap w2 path e = after_line clear_line (cap w1 path e)" using c that(1) by (auto simp: line_for_restore)
    then show ?thesis using that(2) by (auto simp: after_line_def clear_line_def io_keys_def)
  qed
  moreover have "cap w2 q e = cap w q e" if "q \<noteq> path \<or> e \<notin> snd ` set ?disks" for q e
    using l1(3) [of q e] l2(3) [of q e] p that by auto
  ultimately show ?thesis using p by blast
qed

text \<open>A throttle over several disks that fails on one of them reports failure and leaves the others capped.\<close>

type_synonym demo_caps = "string \<Rightarrow> string \<Rightarrow> string \<Rightarrow> int option"

definition demo_io :: "string list \<Rightarrow> demo_caps io_kernel" where
  \<comment> \<open>two disks, one cgroup; writes for the devices of the list are refused\<close>
  "demo_io bad =
     \<lparr>ik_mount = ''/c'', ik_lsblk = (\<lambda>w. Some (''NAME TYPE MAJ:MIN'' @ [CHR 0x0A] @ ''sda disk 8:0'' @ [CHR 0x0A] @ ''sdb disk 8:16'')),
      ik_find = (\<lambda>w i. Some ''/c/a.scope''), ik_exists = (\<lambda>w p. True), ik_controllers = (\<lambda>w p. Some ''io''),
      ik_enable = (\<lambda>p w. (True, w)),
      ik_max = (\<lambda>p d line w. if d \<in> set bad then (False, w)
                  else (True, \<lambda>q e. if q = p \<and> e = d then after_line line (w q e) else w q e)),
      ik_weight = (\<lambda>p v w. (True, w)), ik_read = (\<lambda>w p. None)\<rparr>"

definition no_caps :: demo_caps where "no_caps = (\<lambda>p d k. None)"

lemma demo_io_ok: "io_kernel_ok (demo_io []) (\<lambda>w. w)"
  by (simp add: io_kernel_ok_def demo_io_def)

lemma demo_disks: "get_disk_id (demo_io bad) w [] = [(''sda'', ''8:0''), (''sdb'', ''8:16'')]"
  unfolding get_disk_id_def demo_io_def by (simp, code_simp)

lemma demo_path: "full_cgroup_path (demo_io bad) w ''a.scope'' ''io.max'' = Some ''/c/a.scope/io.max''"
  unfolding full_cgroup_path_def demo_io_def by (simp, code_simp)

lemma demo_ensure: "ensure_io_enabled (demo_io bad) ''/c/a.scope/io.max'' w = Some (True, w)"
proof -
  have "components_up (length (dir_of (dir_of ''/c/a.scope/io.max'')) + 2) ''/c'' (dir_of (dir_of ''/c/a.scope/io.max'')) [] = Some []"
    by code_simp
  then show ?thesis by (simp add: ensure_io_enabled_def demo_io_def)
qed

definition demo_limits :: "(string \<times> io_row) list" where
  "demo_limits = [(''default'', [(''rbps'', 7)]), (''sdb'', [(''rbps'', 5)])]"

lemma demo_lines:
  "line_for False demo_limits ''sda'' ''8:0'' = [(''rbps'', Some 7)]"
  "line_for False demo_limits ''sdb'' ''8:16'' = [(''rbps'', Some 5)]"
  by code_simp+

lemma demo_throttle:
  "set_disk_io_throttle (demo_io bad) ''a.scope'' limits [] rs w =
     write_disks (demo_io bad) ''/c/a.scope/io.max'' limits rs [(''sda'', ''8:0''), (''sdb'', ''8:16'')] (True, w)"
  unfolding set_disk_io_throttle_def demo_disks demo_path by (simp add: demo_ensure)

lemma demo_disk:
  "write_disk (demo_io bad) ''/c/a.scope/io.max'' d line rs (ok, w) =
     (if line = [] then Some (ok, w)
      else if d \<in> set bad then Some (False, w)
      else Some (ok, \<lambda>q e. if q = ''/c/a.scope/io.max'' \<and> e = d then after_line line (w q e) else w q e))"
  unfolding write_disk_def using demo_ensure by (simp add: demo_io_def)

theorem io_cap_restore_roundtrip_witness:
  "\<exists>path w1 w2. set_disk_io_throttle (demo_io []) ''a.scope'' demo_limits [] False no_caps = Some (True, w1)
     \<and> restore_disk_io_throttle (demo_io []) ''a.scope'' [] w1 = Some (True, w2)
     \<and> full_cgroup_path (demo_io []) no_caps ''a.scope'' ''io.max'' = Some path
     \<and> w1 path ''8:16'' ''rbps'' = Some 5 \<and> w2 path ''8:16'' ''rbps'' = None"
proof -
  let ?p = "''/c/a.scope/io.max''"
  obtain w1 where w1: "set_disk_io_throttle (demo_io []) ''a.scope'' demo_limits [] False no_caps = Some (True, w1)"
    and five: "w1 ?p ''8:16'' ''rbps'' = Some 5"
    by (simp add: demo_throttle demo_disk demo_lines after_line_def)
  obtain w2 where w2: "restore_disk_io_throttle (demo_io []) ''a.scope'' [] w1 = Some (True, w2)"
    by (simp add: restore_disk_io_throttle_def demo_throttle demo_disk line_for_restore clear_line_def io_keys_def)
  have "distinct (map snd (get_disk_id (demo_io []) no_caps []))" by (simp add: demo_disks)
  from io_cap_restore_roundtrip [OF demo_io_ok this w1 w2] have "w2 ?p ''8:16'' ''rbps'' = None"
    by (simp add: demo_disks demo_path io_keys_def)
  then show ?thesis using w1 w2 five demo_path by blast
qed

lemma partial_throttle_reports_failure:
  "\<exists>w1. set_disk_io_throttle (demo_io [''8:16'']) ''a.scope'' demo_limits [] False no_caps = Some (False, w1)
     \<and> w1 ''/c/a.scope/io.max'' ''8:0'' ''rbps'' = Some 7"
  by (simp add: demo_throttle demo_disk demo_lines after_line_def)

end
