(* ===== verification/Unit_Ctl.thy ===== *)
theory Unit_Ctl
  imports Limit_Policy
begin

text \<open>
  \<open>balancer/controller/controller.py\<close> and \<open>governor.py\<close> with \<open>adjust_resources\<close> of \<open>control_manager.py\<close>: which
  systemd unit an application is, the \<open>set-property\<close> command that caps it, the check of the kernel files behind it and
  the four adjustments. systemd, cpupower and the files are functions over an arbitrary world; waiting between
  attempts is left out.
\<close>

subsection \<open>Units\<close>

function str_remove :: "string \<Rightarrow> string \<Rightarrow> string" where
  \<comment> \<open>\<open>s.replace(p, '')\<close>\<close>
  "str_remove p [] = []"
| "str_remove p (c # cs) =
     (if p \<noteq> [] \<and> startswith (c # cs) p then str_remove p (drop (length p) (c # cs)) else c # str_remove p cs)"
  by pat_completeness auto
termination by (relation "measure (\<lambda>(p, s). length s)") auto

definition endswith :: "string \<Rightarrow> string \<Rightarrow> bool" where
  "endswith s p \<longleftrightarrow> startswith (rev s) (rev p)"

definition user_slice :: "string \<Rightarrow> string" where
  "user_slice uid = ''/sys/fs/cgroup/user.slice/user-'' @ uid @ ''.slice/''"

definition find_lines :: "string option \<Rightarrow> string list" where
  \<comment> \<open>\<open>stdout.splitlines()\<close> of a command, none when it fails\<close>
  "find_lines out = (case out of None \<Rightarrow> [] | Some s \<Rightarrow> split_char CHR 0x0A s)"

definition user_scopes :: "string \<Rightarrow> string option \<Rightarrow> string list" where
  "user_scopes uid out =
     map (str_remove (user_slice uid))
       (filter (\<lambda>line. strip line \<noteq> [] \<and> str_remove (user_slice uid) line \<noteq> []
           \<and> \<not> endswith line (''user-'' @ uid @ ''.slice'') \<and> \<not> endswith line (''user@'' @ uid @ ''.service''))
         (find_lines out))"

definition services_in :: "string \<Rightarrow> string option \<Rightarrow> string list" where
  "services_in path out =
     map (str_remove path)
       (filter (\<lambda>line. strip line \<noteq> [] \<and> str_remove path line \<noteq> [] \<and> \<not> endswith line ''app.slice'') (find_lines out))"

definition app_services :: "string \<Rightarrow> (string \<Rightarrow> string option) \<Rightarrow> string list" where
  \<comment> \<open>without repetition; the code keeps them in no particular order\<close>
  "app_services uid find_out =
     remdups (concat (map (\<lambda>path. services_in path (find_out path))
       [user_slice uid @ ''user@'' @ uid @ ''.service/app.slice/'', ''/sys/fs/cgroup/system.slice/'']))"

datatype unit_type = UScope | UService | USystemService

record unit_env =
  un_scopes :: "string list"
  un_services :: "string list"
  un_system_dir :: "string \<Rightarrow> bool"         \<comment> \<open>a directory of that name below \<open>system.slice\<close>\<close>
  un_procs :: "string \<Rightarrow> int list"          \<comment> \<open>\<open>get_app_processes\<close>\<close>
  un_dominant :: "int list \<Rightarrow> string"       \<comment> \<open>\<open>dominant_cgroup_by_pids\<close>, empty for none\<close>
  un_cpus :: int
  un_generic :: bool                      \<comment> \<open>\<open>vendor == "generic"\<close>\<close>
  un_session :: "string option"           \<comment> \<open>\<open>_resolve_session_user\<close>\<close>
  un_uid :: "string \<Rightarrow> int option"
  un_dbus :: "int \<Rightarrow> string"               \<comment> \<open>empty for none\<close>

definition resolve_process_unit :: "unit_env \<Rightarrow> string \<Rightarrow> (string \<times> unit_type) option" where
  "resolve_process_unit env app_id =
     (let pids = un_procs env app_id; path = un_dominant env pids; unit_name = basename_of path
      in if pids = [] \<or> path = [] \<or> \<not> (endswith unit_name ''.scope'' \<or> endswith unit_name ''.service'') then None
         else Some (unit_name, if contains path ''/system.slice/'' then USystemService
                               else if endswith unit_name ''.scope'' then UScope else UService))"

definition matching_unit :: "unit_env \<Rightarrow> string \<Rightarrow> (string \<times> unit_type) option" where
  "matching_unit env app_id =
     (if endswith app_id ''.scope''
      then Some (app_id, if app_id \<in> set (un_scopes env) then UScope
                         else if un_system_dir env app_id then USystemService else UService)
      else if endswith app_id ''.service''
      then Some (app_id, if un_system_dir env app_id then USystemService else UService)
      else if endswith app_id ''.desktop''
      then (let base = lower (last (split_char CHR ''.'' (str_remove ''.desktop'' app_id)))
            in map_option (\<lambda>u. (u, if u \<in> set (un_scopes env) then UScope else UService))
                 (find (\<lambda>u. contains (lower u) base) (un_scopes env @ un_services env)))
      else resolve_process_unit env app_id)"

subsection \<open>Setting the properties of a unit\<close>

record 'w unit_kernel =
  uk_set :: "string option \<Rightarrow> string \<Rightarrow> int option \<Rightarrow> int option \<Rightarrow> 'w \<Rightarrow> bool \<times> 'w"
    \<comment> \<open>\<open>systemctl set-property\<close> with CPUQuota in percent of one CPU and MemoryHigh in MB, where no value clears the
        property; in the session of a user, or the system's\<close>
  uk_governor :: "'w \<Rightarrow> string option"         \<comment> \<open>output of cpupower, None when there is no such program\<close>
  uk_set_governor :: "string \<Rightarrow> 'w \<Rightarrow> 'w"

definition sane_cpu :: "int option \<Rightarrow> int option" where
  "sane_cpu q = (case q of None \<Rightarrow> None | Some v \<Rightarrow> if 1 \<le> v \<and> v \<le> 100 then Some v else None)"

definition sane_mem :: "int option \<Rightarrow> int option" where
  "sane_mem q = (case q of None \<Rightarrow> None | Some v \<Rightarrow> if v \<le> 0 then None else Some v)"

definition sane_io :: "int option \<Rightarrow> int option" where
  "sane_io q = (case q of None \<Rightarrow> None | Some v \<Rightarrow> if 1 \<le> v \<and> v \<le> 10000 then Some v else None)"

definition bus_user :: "unit_env \<Rightarrow> unit_type \<Rightarrow> string option option" where
  \<comment> \<open>the user whose session is addressed, None when it cannot be found\<close>
  "bus_user env t =
     (if un_generic env \<and> t = UService
      then (case un_session env of
              None \<Rightarrow> None
            | Some u \<Rightarrow> if u = [] then None
                else (case un_uid env u of None \<Rightarrow> None | Some i \<Rightarrow> if un_dbus env i = [] then None else Some (Some u)))
      else Some None)"

fun try_set :: "'w unit_kernel \<Rightarrow> string option \<Rightarrow> string \<Rightarrow> int option \<Rightarrow> int option \<Rightarrow> nat \<Rightarrow> 'w \<Rightarrow> bool \<times> 'w" where
  "try_set kern user u cpu mem 0 w = (False, w)"
| "try_set kern user u cpu mem (Suc n) w =
     (case uk_set kern user u cpu mem w of
        (True, w1) \<Rightarrow> (True, w1)
      | (False, w1) \<Rightarrow> try_set kern user u cpu mem n w1)"

definition max_retries :: nat where "max_retries = 3"

definition set_resource_quota ::
  "unit_env \<Rightarrow> 'w unit_kernel \<Rightarrow> string \<Rightarrow> int option \<Rightarrow> int option \<Rightarrow> int option \<Rightarrow> bool \<Rightarrow> 'w \<Rightarrow> bool \<times> 'w" where
  "set_resource_quota env kern app_id cpu_quota mem_high io_weight is_restore w =
     (let cpu = sane_cpu cpu_quota; mem = sane_mem mem_high; io = sane_io io_weight
      in if \<not> is_restore \<and> cpu = None \<and> mem = None \<and> io = None then (True, w)
         else case matching_unit env app_id of
                None \<Rightarrow> (False, w)
              | Some (u, t) \<Rightarrow>
                  if u = [] then (False, w)
                  else (case bus_user env t of
                          None \<Rightarrow> (False, w)
                        | Some user \<Rightarrow>
                            if is_restore then try_set kern user u None None max_retries w
                            else try_set kern user u (map_option (\<lambda>q. q * un_cpus env) cpu) mem max_retries w))"

definition set_all_resources ::
  "unit_env \<Rightarrow> 'w unit_kernel \<Rightarrow> string \<Rightarrow> int option \<Rightarrow> int option \<Rightarrow> int option \<Rightarrow> bool \<Rightarrow> 'w \<Rightarrow> bool \<times> 'w" where
  "set_all_resources env kern app_id cpu mem io is_restore w =
     (if is_restore then set_resource_quota env kern app_id None None None True w
      else set_resource_quota env kern app_id cpu mem io False w)"

definition set_cpu_quota :: "unit_env \<Rightarrow> 'w unit_kernel \<Rightarrow> string \<Rightarrow> int option \<Rightarrow> bool \<Rightarrow> 'w \<Rightarrow> bool \<times> 'w" where
  "set_cpu_quota env kern app_id cpu is_restore w =
     set_resource_quota env kern app_id (if is_restore then None else cpu) None None is_restore w"

definition set_mem_high :: "unit_env \<Rightarrow> 'w unit_kernel \<Rightarrow> string \<Rightarrow> int option \<Rightarrow> bool \<Rightarrow> 'w \<Rightarrow> bool \<times> 'w" where
  "set_mem_high env kern app_id mem is_restore w =
     set_resource_quota env kern app_id None (if is_restore then None else mem) None is_restore w"

definition set_io_weight :: "unit_env \<Rightarrow> 'w unit_kernel \<Rightarrow> string \<Rightarrow> int option \<Rightarrow> bool \<Rightarrow> 'w \<Rightarrow> (py_error + bool) \<times> 'w" where
  "set_io_weight env kern app_id io is_restore w =
     (if \<not> is_restore \<and> io \<noteq> None \<and> sane_io io = None then (Inl ValueError, w)
      else case set_resource_quota env kern app_id None None (if is_restore then None else io) is_restore w of
             (ok, w1) \<Rightarrow> (Inr ok, w1))"

subsection \<open>The governor\<close>

definition governor_of :: "string \<Rightarrow> py_error + string option" where
  "governor_of out =
     (case find (\<lambda>line. contains (lower line) ''governor'') (split_char CHR 0x0A out) of
        None \<Rightarrow> Inr None
      | Some line \<Rightarrow> (case split_char CHR 0x22 line of _ # g # _ \<Rightarrow> Inr (Some g) | _ \<Rightarrow> Inl IndexError))"

definition set_governor :: "'w unit_kernel \<Rightarrow> string \<Rightarrow> 'w \<Rightarrow> (py_error + bool) \<times> 'w" where
  \<comment> \<open>\<open>set_performance\<close> and \<open>set_powersave\<close>: False when the program is missing\<close>
  "set_governor kern target w =
     (case uk_governor kern w of
        None \<Rightarrow> (Inr False, w)
      | Some out \<Rightarrow>
          (case governor_of out of
             Inl e \<Rightarrow> (Inl e, w)
           | Inr g \<Rightarrow> (Inr True, if g = Some target then w else uk_set_governor kern target w)))"

subsection \<open>The adjustments\<close>

datatype adjustment = AdjLow | AdjMedium | AdjHigh | AdjCritical

fun cap_each :: "'w unit_kernel \<Rightarrow> string option \<Rightarrow> string list \<Rightarrow> 'w \<Rightarrow> bool \<times> 'w" where
  \<comment> \<open>CPUQuota 60 percent for each unit; a failing command raises and ends the loop\<close>
  "cap_each kern user [] w = (True, w)"
| "cap_each kern user (u # us) w =
     (case uk_set kern user u (Some 60) None w of (False, w1) \<Rightarrow> (False, w1) | (True, w1) \<Rightarrow> cap_each kern user us w1)"

definition high_cpu_throttle :: "unit_env \<Rightarrow> 'w unit_kernel \<Rightarrow> 'w \<Rightarrow> 'w" where
  \<comment> \<open>returns no value, which is false\<close>
  "high_cpu_throttle env kern w =
     (case cap_each kern None (un_scopes env) w of
        (False, w1) \<Rightarrow> w1
      | (True, w1) \<Rightarrow> snd (cap_each kern (Some []) (un_services env) w1))"

definition adjust_resources ::
  "unit_env \<Rightarrow> 'w unit_kernel \<Rightarrow> adjustment \<Rightarrow> string \<Rightarrow> int option \<Rightarrow> int option \<Rightarrow> 'w \<Rightarrow> bool \<times> 'w" where
  \<comment> \<open>the governor first, then the unit; success is the success of both\<close>
  "adjust_resources env kern adj app_id cpu mem w =
     (case set_governor kern (if adj = AdjLow then ''powersave'' else ''performance'') w of
        (Inl _, w1) \<Rightarrow> (False, w1)
      | (Inr gov, w1) \<Rightarrow>
          (case adj of
             AdjHigh \<Rightarrow> (False, high_cpu_throttle env kern w1)
           | AdjLow \<Rightarrow> (case set_all_resources env kern app_id None None None True w1 of (ok, w2) \<Rightarrow> (gov \<and> ok, w2))
           | _ \<Rightarrow> (case set_all_resources env kern app_id cpu mem None False w1 of (ok, w2) \<Rightarrow> (gov \<and> ok, w2))))"

subsection \<open>What is in force\<close>

datatype file_read = FileMissing | FileError | FileText string

record applied =
  ap_cpu_present :: bool
  ap_quota :: "int option"          \<comment> \<open>microseconds\<close>
  ap_period :: int
  ap_mem_present :: bool
  ap_high :: "int option"           \<comment> \<open>bytes\<close>

definition limit_of :: "string \<Rightarrow> py_error + int option" where
  \<comment> \<open>\<open>max\<close> or a number\<close>
  "limit_of t = (if t = ''max'' then Inr None else case py_int t of None \<Rightarrow> Inl ValueError | Some i \<Rightarrow> Inr (Some i))"

definition read_cpu_max :: "file_read \<Rightarrow> applied \<Rightarrow> applied" where
  \<comment> \<open>the quota stays read when the period after it is not a number\<close>
  "read_cpu_max f a =
     (case f of
        FileText t \<Rightarrow>
          (case split_ws t of
             [] \<Rightarrow> a
           | q # rest \<Rightarrow>
               (case limit_of q of
                  Inl _ \<Rightarrow> a
                | Inr quota \<Rightarrow>
                    (case rest of
                       [] \<Rightarrow> a\<lparr>ap_quota := quota, ap_period := 100000, ap_cpu_present := True\<rparr>
                     | p # _ \<Rightarrow>
                         (case py_int p of
                            None \<Rightarrow> a\<lparr>ap_quota := quota\<rparr>
                          | Some n \<Rightarrow> a\<lparr>ap_quota := quota, ap_period := n, ap_cpu_present := True\<rparr>))))
      | _ \<Rightarrow> a)"

definition read_memory_high :: "file_read \<Rightarrow> applied \<Rightarrow> applied" where
  "read_memory_high f a =
     (case f of
        FileText t \<Rightarrow> (case limit_of (strip t) of Inl _ \<Rightarrow> a | Inr h \<Rightarrow> a\<lparr>ap_high := h, ap_mem_present := True\<rparr>)
      | _ \<Rightarrow> a)"

definition read_applied_limits :: "file_read \<Rightarrow> file_read \<Rightarrow> applied" where
  \<comment> \<open>each file for itself\<close>
  "read_applied_limits cpu_max memory_high =
     read_memory_high memory_high (read_cpu_max cpu_max
       \<lparr>ap_cpu_present = False, ap_quota = None, ap_period = 100000, ap_mem_present = False, ap_high = None\<rparr>)"

definition cpu_matches :: "int option \<Rightarrow> applied \<Rightarrow> bool" where
  \<comment> \<open>the expected value in percent of one CPU\<close>
  "cpu_matches expected a =
     (let period = (if ap_period a = 0 then 100000 else ap_period a); capped = (ap_cpu_present a \<and> ap_quota a \<noteq> None)
      in case expected of
           None \<Rightarrow> \<not> capped
         | Some e \<Rightarrow> capped \<and> \<bar>real_of_int (the (ap_quota a)) - real_of_int period * real_of_int e / 100\<bar> \<le> real_of_int period * (1/100))"

definition mem_matches :: "int option \<Rightarrow> applied \<Rightarrow> bool" where
  "mem_matches expected a =
     (let capped = (ap_mem_present a \<and> ap_high a \<noteq> None)
      in case expected of None \<Rightarrow> \<not> capped | Some e \<Rightarrow> capped \<and> \<bar>the (ap_high a) - e\<bar> \<le> 4096)"

definition verify_attempts :: nat where "verify_attempts = 5"

fun verify_loop :: "(nat \<Rightarrow> applied option) \<Rightarrow> int option \<Rightarrow> int option \<Rightarrow> nat \<Rightarrow> nat \<Rightarrow> bool option" where
  \<comment> \<open>None: the cgroup was not found. The readings are numbered by attempt; the second number counts those left\<close>
  "verify_loop reading cpu mem i 0 = Some False"
| "verify_loop reading cpu mem i (Suc n) =
     (case reading i of
        None \<Rightarrow> None
      | Some a \<Rightarrow> if cpu_matches cpu a \<and> mem_matches mem a then Some True else verify_loop reading cpu mem (i + 1) n)"

definition verify_applied_limits ::
  "int \<Rightarrow> (nat \<Rightarrow> applied option) \<Rightarrow> int option \<Rightarrow> int option \<Rightarrow> bool \<Rightarrow> bool option" where
  "verify_applied_limits cpus reading cpu_quota mem_high is_restore =
     verify_loop reading (if is_restore then None else map_option (\<lambda>q. q * cpus) cpu_quota)
       (if is_restore then None else map_option (\<lambda>m. m * 1024 * 1024) mem_high) 0 verify_attempts"

definition io_field_caps :: "string \<Rightarrow> py_error + bool" where
  \<comment> \<open>one field of a line of \<open>io.max\<close>\<close>
  "io_field_caps fd =
     (case partition_at CHR ''='' fd of (k, eq, v) \<Rightarrow>
        if k \<in> set [''rbps'', ''wbps'', ''riops'', ''wiops''] then (if eq then Inr (v \<noteq> ''max'') else Inl IndexError)
        else Inr False)"

fun any_io_cap :: "string list \<Rightarrow> py_error + bool" where
  "any_io_cap [] = Inr False"
| "any_io_cap (f # fs) = bindE (io_field_caps f) (\<lambda>b. if b then Inr True else any_io_cap fs)"

definition inspect_cgroup_limits :: "string \<Rightarrow> (file_read \<times> file_read \<times> file_read) option \<Rightarrow> bool \<times> string list" where
  \<comment> \<open>whether the state could be read, and the resources under a limit; the files are \<open>cpu.max\<close>, \<open>memory.high\<close> and
      \<open>io.max\<close> of the cgroup, none when there is no such cgroup\<close>
  "inspect_cgroup_limits cgroup_id found =
     (if \<not> (cgroup_id \<noteq> [] \<and> list_all (\<lambda>c. let n = (of_char c :: nat) in (65 \<le> n \<and> n \<le> 90) \<or> (97 \<le> n \<and> n \<le> 122)
                \<or> (48 \<le> n \<and> n \<le> 57) \<or> c \<in> set ''._@:-'') cgroup_id) then (False, [])
      else case found of
             None \<Rightarrow> (True, [])
           | Some (FileText c, FileText m, FileText i) \<Rightarrow>
               (case (split_ws c, any_io_cap (concat (map (\<lambda>line. drop 1 (split_ws line)) (split_char CHR 0x0A i)))) of
                  (q # _, Inr io) \<Rightarrow>
                    (True, (if q \<noteq> ''max'' then [''cpu''] else []) @ (if strip m \<noteq> ''max'' then [''memory''] else [])
                       @ (if io then [''disk_io''] else []))
                | _ \<Rightarrow> (False, []))
           | Some _ \<Rightarrow> (False, []))"

subsection \<open>What a unit is left with\<close>

definition unit_kernel_ok :: "'w unit_kernel \<Rightarrow> ('w \<Rightarrow> string \<Rightarrow> int option \<times> int option) \<Rightarrow> bool" where
  \<comment> \<open>systemd's promise: an accepted command sets both properties of its unit, a refused one sets nothing; the governor
      does not matter to them\<close>
  "unit_kernel_ok kern cap \<longleftrightarrow>
     (\<forall>user u c m w w'. uk_set kern user u c m w = (True, w') \<longrightarrow> cap w' = (cap w)(u := (c, m)))
   \<and> (\<forall>user u c m w w'. uk_set kern user u c m w = (False, w') \<longrightarrow> cap w' = cap w)
   \<and> (\<forall>g w. cap (uk_set_governor kern g w) = cap w)"

lemma try_set_cap:
  assumes "unit_kernel_ok kern cap" "try_set kern user u c m n w = (ok, w')"
  shows "cap w' = (if ok then (cap w)(u := (c, m)) else cap w)"
  using assms(2)
proof (induction n arbitrary: w)
  case 0
  then show ?case by simp
next
  case (Suc n)
  obtain b w1 where s: "uk_set kern user u c m w = (b, w1)" by fastforce
  show ?case
  proof (cases b)
    case True
    then have "ok" "w' = w1" using Suc.prems s by simp_all
    then show ?thesis using assms(1) s True by (simp add: unit_kernel_ok_def)
  next
    case False
    then have "try_set kern user u c m n w1 = (ok, w')" using Suc.prems s by simp
    moreover have "cap w1 = cap w" using assms(1) s False by (simp add: unit_kernel_ok_def)
    ultimately show ?thesis using Suc.IH by simp
  qed
qed

definition unit_name_of :: "unit_env \<Rightarrow> string \<Rightarrow> string option" where
  "unit_name_of env app_id = map_option fst (matching_unit env app_id)"

lemma quota_cap:
  assumes "unit_kernel_ok kern cap" "set_resource_quota env kern app_id c m i rs w = (ok, w')"
  shows "unit_name_of env app_id \<noteq> Some v \<Longrightarrow> cap w' v = cap w v"
    and "rs \<Longrightarrow> ok \<Longrightarrow> \<exists>u. unit_name_of env app_id = Some u \<and> cap w' u = (None, None)"
    and "\<not> rs \<Longrightarrow> ok \<Longrightarrow> sane_cpu c \<noteq> None \<or> sane_mem m \<noteq> None \<Longrightarrow>
      \<exists>u. unit_name_of env app_id = Some u \<and> cap w' u = (map_option (\<lambda>q. q * un_cpus env) (sane_cpu c), sane_mem m)"
proof -
  have main: "(unit_name_of env app_id \<noteq> Some v \<longrightarrow> cap w' v = cap w v)
    \<and> (rs \<and> ok \<longrightarrow> (\<exists>u. unit_name_of env app_id = Some u \<and> cap w' u = (None, None)))
    \<and> (\<not> rs \<and> ok \<and> (sane_cpu c \<noteq> None \<or> sane_mem m \<noteq> None) \<longrightarrow>
      (\<exists>u. unit_name_of env app_id = Some u \<and> cap w' u = (map_option (\<lambda>q. q * un_cpus env) (sane_cpu c), sane_mem m)))"
  proof (cases "\<not> rs \<and> sane_cpu c = None \<and> sane_mem m = None \<and> sane_io i = None")
    case True
    then show ?thesis using assms(2) by (auto simp: set_resource_quota_def)
  next
    case todo: False
    show ?thesis
    proof (cases "matching_unit env app_id")
      case None
      then have "\<not> ok" "w' = w" using assms(2) todo by (auto simp: set_resource_quota_def Let_def split: if_splits)
      then show ?thesis by simp
    next
      case (Some p)
      then obtain u t where m: "matching_unit env app_id = Some (u, t)" by (cases p) auto
      then have n: "unit_name_of env app_id = Some u" by (simp add: unit_name_of_def)
      show ?thesis
      proof (cases "u = [] \<or> bus_user env t = None")
        case True
        then have "\<not> ok" "w' = w" using assms(2) todo m by (auto simp: set_resource_quota_def Let_def split: if_splits)
        then show ?thesis by simp
      next
        case False
        then obtain user where b: "bus_user env t = Some user" by auto
        let ?c = "if rs then None else map_option (\<lambda>q. q * un_cpus env) (sane_cpu c)" and ?m = "if rs then None else sane_mem m"
        have "try_set kern user u ?c ?m max_retries w = (ok, w')"
          using assms(2) todo m False b by (auto simp: set_resource_quota_def Let_def split: if_splits)
        from try_set_cap [OF assms(1) this] have "cap w' = (if ok then (cap w)(u := (?c, ?m)) else cap w)" .
        then show ?thesis using n by simp
      qed
    qed
  qed
  show "unit_name_of env app_id \<noteq> Some v \<Longrightarrow> cap w' v = cap w v"
    and "rs \<Longrightarrow> ok \<Longrightarrow> \<exists>u. unit_name_of env app_id = Some u \<and> cap w' u = (None, None)"
    and "\<not> rs \<Longrightarrow> ok \<Longrightarrow> sane_cpu c \<noteq> None \<or> sane_mem m \<noteq> None \<Longrightarrow>
      \<exists>u. unit_name_of env app_id = Some u \<and> cap w' u = (map_option (\<lambda>q. q * un_cpus env) (sane_cpu c), sane_mem m)"
    using main by blast+
qed

lemma set_governor_cap:
  assumes "unit_kernel_ok kern cap" "set_governor kern g w = (res, w')"
  shows "cap w' = cap w"
  using assms by (auto simp: set_governor_def unit_kernel_ok_def split: option.splits sum.splits if_splits)

lemma adjust_cap:
  assumes k: "unit_kernel_ok kern cap" and a: "adjust_resources env kern adj app_id c m w = (ok, w')" "adj \<noteq> AdjHigh"
  shows "unit_name_of env app_id \<noteq> Some v \<Longrightarrow> cap w' v = cap w v"
    and "adj = AdjLow \<Longrightarrow> ok \<Longrightarrow> \<exists>u. unit_name_of env app_id = Some u \<and> cap w' u = (None, None)"
    and "adj \<noteq> AdjLow \<Longrightarrow> ok \<Longrightarrow> sane_cpu c \<noteq> None \<or> sane_mem m \<noteq> None \<Longrightarrow>
      \<exists>u. unit_name_of env app_id = Some u \<and> cap w' u = (map_option (\<lambda>q. q * un_cpus env) (sane_cpu c), sane_mem m)"
proof -
  let ?low = "adj = AdjLow"
  obtain res w1 where g: "set_governor kern (if ?low then ''powersave'' else ''performance'') w = (res, w1)" by fastforce
  have c1: "cap w1 = cap w" by (rule set_governor_cap [OF k g])
  have main: "(unit_name_of env app_id \<noteq> Some v \<longrightarrow> cap w' v = cap w v)
    \<and> (?low \<and> ok \<longrightarrow> (\<exists>u. unit_name_of env app_id = Some u \<and> cap w' u = (None, None)))
    \<and> (\<not> ?low \<and> ok \<and> (sane_cpu c \<noteq> None \<or> sane_mem m \<noteq> None) \<longrightarrow>
      (\<exists>u. unit_name_of env app_id = Some u \<and> cap w' u = (map_option (\<lambda>q. q * un_cpus env) (sane_cpu c), sane_mem m)))"
  proof (cases res)
    case (Inl e)
    then have "\<not> ok" "w' = w1" using a g by (auto simp: adjust_resources_def)
    then show ?thesis using c1 by simp
  next
    case (Inr gov)
    let ?c = "if ?low then None else c" and ?m = "if ?low then None else m"
    obtain ok2 w2 where q: "set_resource_quota env kern app_id ?c ?m None ?low w1 = (ok2, w2)" by fastforce
    have r: "ok = (gov \<and> ok2)" "w' = w2"
      using a g Inr q by (cases adj; simp add: adjust_resources_def set_all_resources_def)+
    note l = quota_cap [OF k q]
    show ?thesis using l(1) [of v] l(2) l(3) c1 r by (cases ?low) auto
  qed
  show "unit_name_of env app_id \<noteq> Some v \<Longrightarrow> cap w' v = cap w v"
    and "adj = AdjLow \<Longrightarrow> ok \<Longrightarrow> \<exists>u. unit_name_of env app_id = Some u \<and> cap w' u = (None, None)"
    and "adj \<noteq> AdjLow \<Longrightarrow> ok \<Longrightarrow> sane_cpu c \<noteq> None \<or> sane_mem m \<noteq> None \<Longrightarrow>
      \<exists>u. unit_name_of env app_id = Some u \<and> cap w' u = (map_option (\<lambda>q. q * un_cpus env) (sane_cpu c), sane_mem m)"
    using main by blast+
qed

lemma verify_loop_iff:
  "verify_loop reading cpu mem i n = Some True \<longleftrightarrow>
     (\<exists>j<n. (\<exists>a. reading (i + j) = Some a \<and> cpu_matches cpu a \<and> mem_matches mem a) \<and> (\<forall>k<j. reading (i + k) \<noteq> None))"
proof (induction n arbitrary: i)
  case 0
  then show ?case by simp
next
  case (Suc n)
  show ?case
  proof (cases "reading i")
    case None
    have "\<not> (\<exists>j<Suc n. (\<exists>a. reading (i + j) = Some a \<and> cpu_matches cpu a \<and> mem_matches mem a) \<and> (\<forall>k<j. reading (i + k) \<noteq> None))"
    proof
      assume "\<exists>j<Suc n. (\<exists>a. reading (i + j) = Some a \<and> cpu_matches cpu a \<and> mem_matches mem a) \<and> (\<forall>k<j. reading (i + k) \<noteq> None)"
      then obtain j a where j: "reading (i + j) = Some a" "\<forall>k<j. reading (i + k) \<noteq> None" by blast
      then show False using None by (cases j) auto
    qed
    then show ?thesis using None by simp
  next
    case (Some a)
    show ?thesis
    proof (cases "cpu_matches cpu a \<and> mem_matches mem a")
      case True
      then show ?thesis using Some by (auto intro!: exI [of _ 0])
    next
      case False
      have "(\<exists>j<Suc n. (\<exists>b. reading (i + j) = Some b \<and> cpu_matches cpu b \<and> mem_matches mem b) \<and> (\<forall>k<j. reading (i + k) \<noteq> None))
        \<longleftrightarrow> (\<exists>j<n. (\<exists>b. reading (i + Suc j) = Some b \<and> cpu_matches cpu b \<and> mem_matches mem b) \<and> (\<forall>k<Suc j. reading (i + k) \<noteq> None))"
        using Some False by (subst Ex_less_Suc2) auto
      also have "\<dots> \<longleftrightarrow> (\<exists>j<n. (\<exists>b. reading (i + 1 + j) = Some b \<and> cpu_matches cpu b \<and> mem_matches mem b) \<and> (\<forall>k<j. reading (i + 1 + k) \<noteq> None))"
        using Some by (simp add: All_less_Suc2)
      finally show ?thesis using Suc.IH [of "i + 1"] Some False by auto
    qed
  qed
qed

subsection \<open>Properties\<close>

text \<open>capping and uncapping a unit. A critical adjustment that reports success leaves the unit of the application with
  exactly the asked CPU quota, scaled to the number of CPUs, and memory limit; whatever it reports, no other unit
  changes. A following low adjustment that reports success leaves the unit without either.\<close>
theorem adjust_cap_roundtrip:
  assumes k: "unit_kernel_ok kern cap"
    and c: "adjust_resources env kern AdjCritical app_id cpu mem w = (ok1, w1)" "sane_cpu cpu \<noteq> None \<or> sane_mem mem \<noteq> None"
    and l: "adjust_resources env kern AdjLow app_id None None w1 = (True, w2)"
  shows "\<exists>u. unit_name_of env app_id = Some u
     \<and> (ok1 \<longrightarrow> cap w1 u = (map_option (\<lambda>q. q * un_cpus env) (sane_cpu cpu), sane_mem mem))
     \<and> cap w2 u = (None, None) \<and> (\<forall>v. v \<noteq> u \<longrightarrow> cap w1 v = cap w v \<and> cap w2 v = cap w v)"
proof -
  obtain u where u: "unit_name_of env app_id = Some u" "cap w2 u = (None, None)"
    using adjust_cap(2) [OF k l] by blast
  have "ok1 \<longrightarrow> cap w1 u = (map_option (\<lambda>q. q * un_cpus env) (sane_cpu cpu), sane_mem mem)"
    using adjust_cap(3) [OF k c(1)] c(2) u(1) by auto
  moreover have "cap w1 v = cap w v \<and> cap w2 v = cap w v" if "v \<noteq> u" for v
    using adjust_cap(1) [OF k c(1), of v] adjust_cap(1) [OF k l, of v] u(1) that by simp
  ultimately show ?thesis using u by blast
qed

definition demo_units :: unit_env where
  "demo_units = \<lparr>un_scopes = [''a.scope''], un_services = [], un_system_dir = (\<lambda>u. False), un_procs = (\<lambda>a. []),
     un_dominant = (\<lambda>p. []), un_cpus = 8, un_generic = True, un_session = None, un_uid = (\<lambda>u. None), un_dbus = (\<lambda>i. [])\<rparr>"

type_synonym unit_caps = "string \<Rightarrow> int option \<times> int option"

definition demo_systemd :: "string option \<Rightarrow> unit_caps unit_kernel" where
  "demo_systemd gov = \<lparr>uk_set = (\<lambda>user u c m w. (True, w(u := (c, m)))), uk_governor = (\<lambda>w. gov), uk_set_governor = (\<lambda>g w. w)\<rparr>"

lemma demo_systemd_ok: "unit_kernel_ok (demo_systemd gov) (\<lambda>w. w)"
  by (simp add: unit_kernel_ok_def demo_systemd_def)

lemma demo_unit: "matching_unit demo_units ''a.scope'' = Some (''a.scope'', UScope)"
  by code_simp

lemma demo_adjust:
  "adjust_resources demo_units (demo_systemd (Some [])) AdjCritical ''a.scope'' (Some 50) (Some 100) w
     = (True, w(''a.scope'' := (Some 400, Some 100)))"
  "adjust_resources demo_units (demo_systemd (Some [])) AdjLow ''a.scope'' None None w = (True, w(''a.scope'' := (None, None)))"
proof -
  have g: "governor_of [] = Inr None" by code_simp
  have c: "un_cpus demo_units = 8" by (simp add: demo_units_def)
  show "adjust_resources demo_units (demo_systemd (Some [])) AdjCritical ''a.scope'' (Some 50) (Some 100) w
     = (True, w(''a.scope'' := (Some 400, Some 100)))"
    "adjust_resources demo_units (demo_systemd (Some [])) AdjLow ''a.scope'' None None w = (True, w(''a.scope'' := (None, None)))"
    by (simp_all add: adjust_resources_def set_governor_def demo_systemd_def g set_all_resources_def set_resource_quota_def
        demo_unit bus_user_def sane_cpu_def sane_mem_def sane_io_def c max_retries_def eval_nat_numeral)
qed

theorem adjust_cap_roundtrip_witness:
  "\<exists>w1 w2. adjust_resources demo_units (demo_systemd (Some [])) AdjCritical ''a.scope'' (Some 50) (Some 100) (\<lambda>u. (None, None)) = (True, w1)
     \<and> adjust_resources demo_units (demo_systemd (Some [])) AdjLow ''a.scope'' None None w1 = (True, w2)
     \<and> w1 ''a.scope'' = (Some 400, Some 100) \<and> w2 ''a.scope'' = (None, None)"
proof -
  let ?w0 = "\<lambda>u. (None, None) :: int option \<times> int option"
  let ?w1 = "?w0(''a.scope'' := (Some 400, Some 100))"
  let ?w2 = "?w1(''a.scope'' := (None, None))"
  have "sane_cpu (Some 50) \<noteq> None \<or> sane_mem (Some 100) \<noteq> None" by (simp add: sane_cpu_def)
  from adjust_cap_roundtrip [OF demo_systemd_ok demo_adjust(1) [of ?w0] this demo_adjust(2)]
  have "?w2 ''a.scope'' = (None, None)" by (simp add: unit_name_of_def demo_unit)
  then show ?thesis using demo_adjust(1) [of ?w0] demo_adjust(2) [of ?w1]
    by (intro exI [of _ ?w1] exI [of _ ?w2] conjI) simp_all
qed

text \<open>the check of the kernel files is exact. Verifying a limit reports success just when one of its five readings,
  none before it missing, shows the CPU cap within one percent of the period and the memory cap within a page of what
  was asked, or no cap where none was asked.\<close>
theorem verification_exact:
  "verify_applied_limits cpus reading cpu_quota mem_high is_restore = Some True \<longleftrightarrow>
     (\<exists>j<verify_attempts. (\<exists>a. reading j = Some a
          \<and> cpu_matches (if is_restore then None else map_option (\<lambda>q. q * cpus) cpu_quota) a
          \<and> mem_matches (if is_restore then None else map_option (\<lambda>m. m * 1024 * 1024) mem_high) a)
        \<and> (\<forall>k<j. reading k \<noteq> None))"
  unfolding verify_applied_limits_def verify_loop_iff by simp

theorem verification_exact_witness:
  "verify_applied_limits 8 (\<lambda>j. Some (read_applied_limits (FileText (if j = 0 then ''max 100000'' else ''400000 100000'')) (FileText ''max'')))
     (Some 50) None False = Some True"
proof -
  let ?reading = "\<lambda>j. Some (read_applied_limits (FileText (if j = 0 then ''max 100000'' else ''400000 100000'')) (FileText ''max''))"
  let ?a = "read_applied_limits (FileText ''400000 100000'') (FileText ''max'')"
  have "?a = \<lparr>ap_cpu_present = True, ap_quota = Some 400000, ap_period = 100000, ap_mem_present = True, ap_high = None\<rparr>"
    by (simp add: read_applied_limits_def read_cpu_max_def read_memory_high_def limit_of_def strip_def is_space_def split_ws_def
        py_int_def parse_nat_def is_digit_def nat_of_digits_def digit_val_def)
  then have "cpu_matches (map_option (\<lambda>q. q * 8) (Some 50)) ?a \<and> mem_matches None ?a"
    by (simp add: cpu_matches_def mem_matches_def)
  then have "\<exists>j<verify_attempts. (\<exists>a. ?reading j = Some a
          \<and> cpu_matches (if False then None else map_option (\<lambda>q. q * 8) (Some 50)) a
          \<and> mem_matches (if False then None else map_option (\<lambda>m. m * 1024 * 1024) None) a)
        \<and> (\<forall>k<j. ?reading k \<noteq> None)"
    by (intro exI [of _ 1]) (simp add: verify_attempts_def)
  then show ?thesis by (simp only: verification_exact)
qed

subsection \<open>Where the adjustments miss their intent\<close>

text \<open>Without cpupower a critical adjustment reports failure although the caps are in force.\<close>
lemma missing_cpupower_hides_caps:
  "adjust_resources demo_units (demo_systemd None) AdjCritical ''a.scope'' (Some 50) (Some 100) w
     = (False, w(''a.scope'' := (Some 400, Some 100)))"
proof -
  have c: "un_cpus demo_units = 8" by (simp add: demo_units_def)
  show ?thesis
    by (simp add: adjust_resources_def set_governor_def demo_systemd_def set_all_resources_def set_resource_quota_def
        demo_unit bus_user_def sane_cpu_def sane_mem_def sane_io_def c max_retries_def eval_nat_numeral)
qed

text \<open>A relaxation to more than the whole machine, of an application capped in CPU only, reports success and writes
  nothing, so the cap stays as it was.\<close>
lemma relaxation_beyond_machine_is_noop:
  assumes "100 < q" "uk_governor kern w = Some []"
  shows "\<exists>w1. adjust_resources env kern AdjMedium app_id (Some q) None w = (True, w1) \<and> w1 = uk_set_governor kern ''performance'' w"
proof -
  have g: "governor_of [] = Inr None" by code_simp
  show ?thesis using assms
    by (simp add: adjust_resources_def set_governor_def g set_all_resources_def set_resource_quota_def sane_cpu_def
        sane_mem_def sane_io_def)
qed

text \<open>Setting the IO weight of a unit sets no IO weight and takes both caps away.\<close>
lemma io_weight_clears_caps:
  "\<exists>w1. set_io_weight demo_units (demo_systemd gov) ''a.scope'' (Some 100) False w = (Inr True, w1) \<and> w1 ''a.scope'' = (None, None)"
  by (simp add: set_io_weight_def set_resource_quota_def demo_unit demo_systemd_def bus_user_def sane_cpu_def sane_mem_def
      sane_io_def max_retries_def eval_nat_numeral)

text \<open>A high adjustment never reports success.\<close>
lemma high_adjustment_reports_failure: "fst (adjust_resources env kern AdjHigh app_id c m w) = False"
  by (simp add: adjust_resources_def split: prod.split sum.split)

end
