(* ===== verification/Config_Store.thy ===== *)
theory Config_Store
  imports Py_String "HOL-Library.AList"
begin

text \<open>
  The settings in memory, from \<open>config/config.py\<close>: \<open>update_config_section\<close>, \<open>update_top_level_scalars\<close>,
  \<open>set_limit_policy\<close>, \<open>set_disk_pressure_model\<close>, \<open>set_network_control_policy\<close> and
  \<open>update_limit_policy_for_priority\<close>. The attributes of \<open>Config\<close> are an association list; an operation returns what it
  reports, the leaves it has to write to the file, in order, and the attributes. The reading of a string by \<open>float()\<close>
  and the printing by \<open>str()\<close> are arguments. The lock makes each operation atomic; log output is left out.
\<close>

type_synonym pydict = "(string \<times> pyval) list"
type_synonym leaf_log = "(string list \<times> pyval) list"

subsection \<open>Values\<close>

fun py_eq :: "pyval \<Rightarrow> pyval \<Rightarrow> bool" where
  \<comment> \<open>\<open>==\<close>: numbers compare across their types, dicts by key\<close>
  "py_eq (PList []) b = (b = PList [])"
| "py_eq (PList (x # xs)) b = (case b of PList (y # ys) \<Rightarrow> py_eq x y \<and> py_eq (PList xs) (PList ys) | _ \<Rightarrow> False)"
| "py_eq (PDict xs) b =
     (case b of
        PDict ys \<Rightarrow> length xs = length ys
          \<and> list_all (\<lambda>(k, v). case map_of ys k of None \<Rightarrow> False | Some w \<Rightarrow> py_eq v w) xs
      | _ \<Rightarrow> False)"
| "py_eq a b =
     (case (as_number a, as_number b) of
        (Some x, Some y) \<Rightarrow> x = y
      | (None, None) \<Rightarrow> a = b
      | _ \<Rightarrow> False)"

fun int_of_val :: "pyval \<Rightarrow> py_error + int" where
  \<comment> \<open>\<open>int(v)\<close>\<close>
  "int_of_val (PBool b) = Inr (if b then 1 else 0)"
| "int_of_val (PInt i) = Inr i"
| "int_of_val (PFloat x) = Inr (py_trunc x)"
| "int_of_val (PStr s) = (case py_int s of None \<Rightarrow> Inl ValueError | Some i \<Rightarrow> Inr i)"
| "int_of_val _ = Inl TypeError"

fun to_type :: "(string \<Rightarrow> real option) \<Rightarrow> (pyval \<Rightarrow> string) \<Rightarrow> pyval \<Rightarrow> pyval \<Rightarrow> py_error + pyval" where
  \<comment> \<open>\<open>type(old)(v)\<close> for the four scalar types, any other type takes the value as it is\<close>
  "to_type parse str_of (PBool _) v = Inr (PBool (truthy v))"
| "to_type parse str_of (PInt _) v = bindE (int_of_val v) (\<lambda>i. Inr (PInt i))"
| "to_type parse str_of (PFloat _) v = bindE (float_of parse v) (\<lambda>x. Inr (PFloat x))"
| "to_type parse str_of (PStr _) v = Inr (PStr (str_of v))"
| "to_type parse str_of _ v = Inr v"

definition dict_of :: "pyval option \<Rightarrow> pydict" where
  "dict_of v = (case v of Some (PDict d) \<Rightarrow> d | _ \<Rightarrow> [])"

definition value_or_none :: "pydict \<Rightarrow> string \<Rightarrow> pyval" where
  "value_or_none d k = (case map_of d k of None \<Rightarrow> PNone | Some v \<Rightarrow> v)"

subsection \<open>Sections and scalars\<close>

fun section_loop ::
  "(string \<Rightarrow> real option) \<Rightarrow> (pyval \<Rightarrow> string) \<Rightarrow> string \<Rightarrow> pydict \<Rightarrow> pydict \<times> leaf_log \<Rightarrow> pydict \<times> leaf_log" where
  "section_loop parse str_of sect [] st = st"
| "section_loop parse str_of sect ((k, v) # us) (d, wr) =
     (case (case map_of d k of None \<Rightarrow> Inr v | Some old \<Rightarrow> to_type parse str_of old v) of
        Inl e \<Rightarrow> section_loop parse str_of sect us (d, wr)
      | Inr new \<Rightarrow>
          if py_eq (value_or_none d k) new then section_loop parse str_of sect us (d, wr)
          else section_loop parse str_of sect us (AList.update k new d, wr @ [([sect, k], new)]))"

definition update_config_section ::
  "(string \<Rightarrow> real option) \<Rightarrow> (pyval \<Rightarrow> string) \<Rightarrow> string \<Rightarrow> pydict \<Rightarrow> pydict \<Rightarrow> bool \<times> leaf_log \<times> pydict" where
  "update_config_section parse str_of sect updates cfg =
     (if sect = [] then (False, [], cfg)
      else case section_loop parse str_of sect updates (dict_of (map_of cfg sect), []) of
             (d, wr) \<Rightarrow> (wr \<noteq> [], wr, AList.update sect (PDict d) cfg))"

fun scalar_new :: "(string \<Rightarrow> real option) \<Rightarrow> pyval \<Rightarrow> pyval \<Rightarrow> py_error + pyval" where
  "scalar_new parse (PBool _) v = Inr (PBool (truthy v))"
| "scalar_new parse (PInt _) v = bindE (int_of_val v) (\<lambda>i. Inr (PInt i))"
| "scalar_new parse (PFloat _) v = bindE (float_of parse v) (\<lambda>x. Inr (PFloat x))"
| "scalar_new parse _ v = Inr v"

fun scalar_loop :: "(string \<Rightarrow> real option) \<Rightarrow> pydict \<Rightarrow> pydict \<times> leaf_log \<Rightarrow> pydict \<times> leaf_log" where
  "scalar_loop parse [] st = st"
| "scalar_loop parse ((k, v) # us) (cfg, wr) =
     (case scalar_new parse (value_or_none cfg k) v of
        Inl e \<Rightarrow> scalar_loop parse us (cfg, wr)
      | Inr new \<Rightarrow>
          if py_eq (value_or_none cfg k) new then scalar_loop parse us (cfg, wr)
          else scalar_loop parse us (AList.update k new cfg, wr @ [([k], new)]))"

definition update_top_level_scalars :: "(string \<Rightarrow> real option) \<Rightarrow> pydict \<Rightarrow> pydict \<Rightarrow> bool \<times> leaf_log \<times> pydict" where
  "update_top_level_scalars parse updates cfg = (case scalar_loop parse updates (cfg, []) of (cfg1, wr) \<Rightarrow> (wr \<noteq> [], wr, cfg1))"

subsection \<open>Leaves of nested sections\<close>

fun nest_at :: "bool \<Rightarrow> string list \<Rightarrow> (pydict \<Rightarrow> pydict) \<Rightarrow> pydict \<Rightarrow> pydict option" where
  \<comment> \<open>down a path with \<open>setdefault\<close>; what is no dict on the way is replaced, or has no such method\<close>
  "nest_at over [] f d = Some (f d)"
| "nest_at over (k # ks) f d =
     (case map_of d k of
        Some (PDict e) \<Rightarrow> map_option (\<lambda>x. AList.update k (PDict x) d) (nest_at over ks f e)
      | None \<Rightarrow> map_option (\<lambda>x. AList.update k (PDict x) d) (nest_at over ks f [])
      | Some _ \<Rightarrow> if over then map_option (\<lambda>x. AList.update k (PDict x) d) (nest_at over ks f []) else None)"

fun leaf_at :: "string list \<Rightarrow> string \<Rightarrow> pydict \<Rightarrow> pyval" where
  "leaf_at [] k d = value_or_none d k"
| "leaf_at (p # ps) k d = leaf_at ps k (dict_of (map_of d p))"

datatype leaf_op = Touch "string list" string | Put "string list" string pyval

definition open_dict :: "bool \<Rightarrow> string \<Rightarrow> pydict \<Rightarrow> pydict" where
  \<comment> \<open>\<open>setdefault(k, {})\<close>, or a new dict in place of anything else\<close>
  "open_dict over k d =
     (case map_of d k of
        None \<Rightarrow> AList.update k (PDict []) d
      | Some (PDict e) \<Rightarrow> d
      | Some _ \<Rightarrow> if over then AList.update k (PDict []) d else d)"

definition put_if_new :: "string \<Rightarrow> pyval \<Rightarrow> pydict \<Rightarrow> pydict" where
  "put_if_new k v d = (if py_eq (value_or_none d k) v then d else AList.update k v d)"

fun leaf_step :: "bool \<Rightarrow> leaf_op \<Rightarrow> pydict \<times> leaf_log \<Rightarrow> (pydict \<times> leaf_log) option" where
  "leaf_step over (Touch ps k) (d, wr) = map_option (\<lambda>x. (x, wr)) (nest_at over ps (open_dict over k) d)"
| "leaf_step over (Put ps k v) (d, wr) =
     map_option (\<lambda>x. (x, if py_eq (leaf_at ps k d) v then wr else wr @ [(ps @ [k], v)])) (nest_at over ps (put_if_new k v) d)"

fun leaf_steps :: "bool \<Rightarrow> leaf_op list \<Rightarrow> pydict \<times> leaf_log \<Rightarrow> bool \<times> pydict \<times> leaf_log" where
  \<comment> \<open>up to the first that raises\<close>
  "leaf_steps over [] st = (False, st)"
| "leaf_steps over (x # xs) st = (case leaf_step over x st of None \<Rightarrow> (True, st) | Some st1 \<Rightarrow> leaf_steps over xs st1)"

definition nested_update :: "string \<Rightarrow> bool \<Rightarrow> leaf_op list \<Rightarrow> pydict \<Rightarrow> bool option \<times> leaf_log \<times> pydict" where
  \<comment> \<open>the frame of the nested setters; None when it raised, in which case nothing is written to the file and an attribute
      that was no dict stays\<close>
  "nested_update sect over ops cfg =
     (case leaf_steps over ops (dict_of (map_of cfg sect), []) of
        (True, d, wr) \<Rightarrow>
          (None, [], if map_of cfg sect = Some (PDict (dict_of (map_of cfg sect))) then AList.update sect (PDict d) cfg else cfg)
      | (False, d, wr) \<Rightarrow> (Some (wr \<noteq> []), map (\<lambda>(p, v). (sect # p, v)) wr, AList.update sect (PDict d) cfg))"

definition float_put :: "(string \<Rightarrow> real option) \<Rightarrow> string list \<Rightarrow> string \<Rightarrow> pyval \<Rightarrow> leaf_op list" where
  \<comment> \<open>a value that is no number is passed over\<close>
  "float_put parse ps k raw = (case float_of parse raw of Inl e \<Rightarrow> [] | Inr x \<Rightarrow> [Put ps k (PFloat x)])"

definition count_put :: "(string \<Rightarrow> real option) \<Rightarrow> string list \<Rightarrow> string \<Rightarrow> pyval \<Rightarrow> leaf_op list" where
  \<comment> \<open>\<open>max(1, int(float(raw)))\<close>\<close>
  "count_put parse ps k raw = (case float_of parse raw of Inl e \<Rightarrow> [] | Inr x \<Rightarrow> [Put ps k (PInt (max 1 (py_trunc x)))])"

definition each_key :: "string list \<Rightarrow> pydict \<Rightarrow> (string \<Rightarrow> pyval \<Rightarrow> leaf_op list) \<Rightarrow> leaf_op list" where
  \<comment> \<open>the keys of a fixed list that are present\<close>
  "each_key ks d f = concat (map (\<lambda>k. case map_of d k of None \<Rightarrow> [] | Some v \<Rightarrow> f k v) ks)"

definition when_dict :: "pydict \<Rightarrow> string \<Rightarrow> (pydict \<Rightarrow> leaf_op list) \<Rightarrow> leaf_op list" where
  \<comment> \<open>\<open>isinstance(d.get(k), dict)\<close>\<close>
  "when_dict d k f = (case map_of d k of Some (PDict e) \<Rightarrow> f e | _ \<Rightarrow> [])"

definition rate_keys :: "string list" where
  "rate_keys = [''write'', ''read'', ''write_iops'', ''read_iops'']"

definition enabled_put :: "string \<Rightarrow> pydict \<Rightarrow> leaf_op list" where
  "enabled_put res d = each_key [''enabled''] d (\<lambda>k v. [Put [res] k (PBool (truthy v))])"

definition resource_ops :: "(string \<Rightarrow> real option) \<Rightarrow> pydict \<Rightarrow> string \<Rightarrow> leaf_op list" where
  "resource_ops parse upd res =
     when_dict upd res (\<lambda>d. Touch [] res # enabled_put res d
       @ when_dict d ''rate'' (\<lambda>rates. Touch [res] ''rate'' # concat (map (\<lambda>(pri, raw). float_put parse [res, ''rate''] pri raw) rates)))"

definition disk_ops :: "(string \<Rightarrow> real option) \<Rightarrow> pydict \<Rightarrow> leaf_op list" where
  "disk_ops parse upd =
     when_dict upd ''disk_io'' (\<lambda>d. Touch [] ''disk_io'' # enabled_put ''disk_io'' d
       @ when_dict d ''rate'' (\<lambda>rates. Touch [''disk_io''] ''rate''
           # concat (map (\<lambda>(pri, flds). (case flds of
                 PDict f \<Rightarrow> Touch [''disk_io'', ''rate''] pri # each_key rate_keys f (count_put parse [''disk_io'', ''rate'', pri])
               | _ \<Rightarrow> [])) rates))
       @ when_dict d ''media_scale'' (\<lambda>sc. Touch [''disk_io''] ''media_scale''
           # concat (map (\<lambda>(media, raw). float_put parse [''disk_io'', ''media_scale''] media raw) sc))
       @ when_dict d ''candidate_floor'' (\<lambda>fl. Touch [''disk_io''] ''candidate_floor''
           # concat (map (\<lambda>(media, flds). (case flds of
                 PDict f \<Rightarrow> Touch [''disk_io'', ''candidate_floor''] media
                   # each_key [''mb_s'', ''iops''] f (float_put parse [''disk_io'', ''candidate_floor'', media])
               | _ \<Rightarrow> [])) fl)))"

definition set_limit_policy ::
  "(string \<Rightarrow> real option) \<Rightarrow> (pyval \<Rightarrow> string) \<Rightarrow> pydict \<Rightarrow> pydict \<Rightarrow> bool option \<times> leaf_log \<times> pydict" where
  "set_limit_policy parse str_of updates cfg =
     (if updates = [] then (Some False, [], cfg)
      else nested_update ''limit_policy'' False
             (each_key [''policy''] updates (\<lambda>k v. [Put [] k (PStr (str_of v))])
              @ resource_ops parse updates ''cpu'' @ resource_ops parse updates ''memory'' @ disk_ops parse updates) cfg)"

definition set_disk_pressure_model :: "(string \<Rightarrow> real option) \<Rightarrow> pydict \<Rightarrow> pydict \<Rightarrow> bool option \<times> leaf_log \<times> pydict" where
  "set_disk_pressure_model parse updates cfg =
     (if updates = [] then (Some False, [], cfg)
      else nested_update ''disk_pressure_model'' False
             (when_dict updates ''sub_weights'' (\<lambda>sw. Touch [] ''sub_weights''
                # each_key [''latency'', ''queue'', ''util''] sw (float_put parse [''sub_weights'']))
              @ each_key [''sigmoid_k'', ''max_p_weight''] updates (float_put parse [])) cfg)"

subsection \<open>Network control\<close>

definition bool_puts :: "pydict \<Rightarrow> pydict \<times> leaf_log \<Rightarrow> pydict \<times> leaf_log" where
  \<comment> \<open>the three switches; a missing attribute reads as its default\<close>
  "bool_puts updates st =
     foldl (\<lambda>(cfg, wr) (k, default).
        (case map_of updates k of
           None \<Rightarrow> (cfg, wr)
         | Some v \<Rightarrow>
             if py_eq (case map_of cfg k of None \<Rightarrow> PBool default | Some old \<Rightarrow> old) (PBool (truthy v)) then (cfg, wr)
             else (AList.update k (PBool (truthy v)) cfg, wr @ [([k], PBool (truthy v))])))
       st [(''enable_network_control'', False), (''enable_network_pressure_shaping'', True), (''enable_app_pps_police'', False)]"

fun pps_puts :: "string list \<Rightarrow> pydict \<Rightarrow> pydict \<times> leaf_log \<Rightarrow> bool \<times> pydict \<times> leaf_log" where
  \<comment> \<open>the flag says that \<open>int()\<close> raised\<close>
  "pps_puts [] upd st = (False, st)"
| "pps_puts (k # ks) upd (d, wr) =
     (case map_of upd k of
        None \<Rightarrow> pps_puts ks upd (d, wr)
      | Some raw \<Rightarrow>
          (case int_of_val raw of
             Inl e \<Rightarrow> (True, d, wr)
           | Inr i \<Rightarrow>
               if py_eq (value_or_none d k) (PInt i) then pps_puts ks upd (d, wr)
               else pps_puts ks upd (AList.update k (PInt i) d, wr @ [([''network_pps_policy'', k], PInt i)])))"

definition pps_keys :: "string list" where
  "pps_keys = [''app_pps_high'', ''pps_cap_rate'', ''pps_cap_burst'']"

definition bandwidth_ops :: "(string \<Rightarrow> real option) \<Rightarrow> pydict \<Rightarrow> leaf_op list" where
  "bandwidth_ops parse upd =
     concat (map (\<lambda>(pri, bounds). (case bounds of
         PDict b \<Rightarrow> Touch [] pri # each_key [''min'', ''max''] b (float_put parse [pri])
       | _ \<Rightarrow> [])) upd)"

definition set_network_control_policy :: "(string \<Rightarrow> real option) \<Rightarrow> pydict \<Rightarrow> pydict \<Rightarrow> bool option \<times> leaf_log \<times> pydict" where
  "set_network_control_policy parse updates cfg =
     (if updates = [] then (Some False, [], cfg)
      else case bool_puts updates (cfg, []) of (cfg1, wr1) \<Rightarrow>
           case (case map_of updates ''network_pps_policy'' of
                   Some (PDict p) \<Rightarrow>
                     (let old = map_of cfg1 ''network_pps_policy'' in
                      case pps_puts pps_keys p (dict_of old, []) of
                        (raised, d, wr) \<Rightarrow>
                          (raised, if raised \<and> old \<noteq> Some (PDict (dict_of old)) then cfg1
                                   else AList.update ''network_pps_policy'' (PDict d) cfg1, wr))
                 | _ \<Rightarrow> (False, cfg1, [])) of
             (raised, cfg2, wr2) \<Rightarrow>
               if raised then (None, [], cfg2)
               else case (case map_of updates ''config_network_bw'' of
                            Some (PDict b) \<Rightarrow> nested_update ''config_network_bw'' True (bandwidth_ops parse b) cfg2
                          | _ \<Rightarrow> (Some False, [], cfg2)) of
                      (res, wr3, cfg3) \<Rightarrow>
                        (let wr = wr1 @ wr2 @ wr3 in if res = None then (None, [], cfg3) else (Some (wr \<noteq> []), wr, cfg3)))"

subsection \<open>The limits of one priority\<close>

definition priority_ops :: "(string \<Rightarrow> real option) \<Rightarrow> string \<Rightarrow> pydict \<Rightarrow> leaf_op list" where
  "priority_ops parse p overrides =
     concat (map (\<lambda>res. when_dict overrides res (\<lambda>d. Touch [res] ''rate'' # enabled_put res d
        @ (case map_of d ''rate'' of None \<Rightarrow> [] | Some PNone \<Rightarrow> [] | Some raw \<Rightarrow> float_put parse [res, ''rate''] p raw)))
       [''cpu'', ''memory''])
     @ when_dict overrides ''disk_io'' (\<lambda>d. Touch [''disk_io''] ''rate'' # enabled_put ''disk_io'' d
        @ when_dict d ''rate'' (\<lambda>r. each_key rate_keys r (count_put parse [''disk_io'', ''rate'', p])))"

definition update_limit_policy_for_priority ::
  "(string \<Rightarrow> real option) \<Rightarrow> string \<Rightarrow> pyval \<Rightarrow> pydict \<Rightarrow> bool option \<times> leaf_log \<times> pydict" where
  "update_limit_policy_for_priority parse priority overrides cfg =
     (case overrides of
        PDict o1 \<Rightarrow> nested_update ''limit_policy'' True
          (priority_ops parse (lower (if priority = [] then ''undefined'' else priority)) o1) cfg
      | _ \<Rightarrow> (Some False, [], cfg))"


subsection \<open>Lemmas\<close>

fun scalar_kind :: "pyval \<Rightarrow> nat option" where
  "scalar_kind (PBool _) = Some 0"
| "scalar_kind (PInt _) = Some 1"
| "scalar_kind (PFloat _) = Some 2"
| "scalar_kind (PStr _) = Some 3"
| "scalar_kind _ = None"

lemma to_type_kind: "to_type parse str_of old v = Inr new \<Longrightarrow> scalar_kind old \<noteq> None \<Longrightarrow> scalar_kind new = scalar_kind old"
  by (cases old) (auto simp: bindE_Inr_iff)

lemma scalar_new_kind: "scalar_new parse old v = Inr new \<Longrightarrow> scalar_kind old \<in> {Some 0, Some 1, Some 2} \<Longrightarrow> scalar_kind new = scalar_kind old"
  by (cases old) (auto simp: bindE_Inr_iff)

lemma section_loop_step:
  obtains "section_loop parse str_of sect ((k, v) # us) (d, wr) = section_loop parse str_of sect us (d, wr)"
  | new where "section_loop parse str_of sect ((k, v) # us) (d, wr) =
        section_loop parse str_of sect us (AList.update k new d, wr @ [([sect, k], new)])"
      "(case map_of d k of None \<Rightarrow> Inr v | Some old \<Rightarrow> to_type parse str_of old v) = Inr new"
proof (cases "case map_of d k of None \<Rightarrow> Inr v | Some old \<Rightarrow> to_type parse str_of old v")
  case (Inl e)
  then show thesis using that(1) by simp
next
  case (Inr new)
  then show thesis using that by (cases "py_eq (value_or_none d k) new") simp_all
qed

lemma section_loop_kinds:
  assumes "section_loop parse str_of sect us (d, wr) = (d', wr')" "map_of d k = Some old" "scalar_kind old \<noteq> None"
  shows "\<exists>new. map_of d' k = Some new \<and> scalar_kind new = scalar_kind old"
  using assms
proof (induction us arbitrary: d wr old)
  case (Cons u us)
  obtain j v where u: "u = (j, v)" by fastforce
  show ?case
  proof (rule section_loop_step [of parse str_of sect j v us d wr])
    assume "section_loop parse str_of sect ((j, v) # us) (d, wr) = section_loop parse str_of sect us (d, wr)"
    then show ?thesis using Cons u by simp
  next
    fix new
    assume s: "section_loop parse str_of sect ((j, v) # us) (d, wr) =
        section_loop parse str_of sect us (AList.update j new d, wr @ [([sect, j], new)])"
      and t: "(case map_of d j of None \<Rightarrow> Inr v | Some old \<Rightarrow> to_type parse str_of old v) = Inr new"
    have l: "section_loop parse str_of sect us (AList.update j new d, wr @ [([sect, j], new)]) = (d', wr')"
      using Cons.prems(1) s u by simp
    show ?thesis
    proof (cases "j = k")
      case True
      then have n: "scalar_kind new = scalar_kind old" using t Cons.prems(2,3) by (auto intro: to_type_kind)
      show ?thesis using Cons.IH [OF l, of new] True n Cons.prems(3) by (simp add: update_conv)
    next
      case False
      then show ?thesis using Cons.IH [OF l, of old] Cons.prems(2,3) by (simp add: update_conv)
    qed
  qed
qed simp

lemma scalar_loop_kinds:
  assumes "scalar_loop parse us (d, wr) = (d', wr')" "map_of d k = Some old" "scalar_kind old \<in> {Some 0, Some 1, Some 2}"
  shows "\<exists>new. map_of d' k = Some new \<and> scalar_kind new = scalar_kind old"
  using assms
proof (induction us arbitrary: d wr old)
  case (Cons u us)
  obtain j v where u: "u = (j, v)" by fastforce
  show ?case
  proof (cases "\<exists>new. scalar_new parse (value_or_none d j) v = Inr new \<and> \<not> py_eq (value_or_none d j) new")
    case False
    then have "scalar_loop parse us (d, wr) = (d', wr')" using Cons.prems(1) u by (auto split: sum.splits if_splits)
    then show ?thesis using Cons by blast
  next
    case True
    then obtain new where n: "scalar_new parse (value_or_none d j) v = Inr new" "\<not> py_eq (value_or_none d j) new" by blast
    then have l: "scalar_loop parse us (AList.update j new d, wr @ [([j], new)]) = (d', wr')" using Cons.prems(1) u by simp
    show ?thesis
    proof (cases "j = k")
      case True
      then have "scalar_kind new = scalar_kind old"
        using n(1) Cons.prems(2,3) scalar_new_kind [of parse old v new] by (simp add: value_or_none_def)
      then show ?thesis using Cons.IH [OF l, of new] True Cons.prems(3) by (simp add: update_conv)
    next
      case False
      then show ?thesis using Cons.IH [OF l, of old] Cons.prems(2,3) by (simp add: update_conv)
    qed
  qed
qed simp

lemma section_loop_frame:
  assumes "section_loop parse str_of sect us (d, wr) = (d', wr')"
  shows "\<exists>new. wr' = wr @ map (\<lambda>(k, v). ([sect, k], v)) new \<and> (\<forall>k. map_of d' k = (case map_of (rev new) k of None \<Rightarrow> map_of d k | Some v \<Rightarrow> Some v))
    \<and> fst ` set new \<subseteq> fst ` set us"
  using assms
proof (induction us arbitrary: d wr)
  case Nil
  then show ?case by (intro exI [of _ "[]"]) simp
next
  case (Cons u us)
  obtain j v where u: "u = (j, v)" by fastforce
  show ?case
  proof (rule section_loop_step [of parse str_of sect j v us d wr])
    assume "section_loop parse str_of sect ((j, v) # us) (d, wr) = section_loop parse str_of sect us (d, wr)"
    then have "section_loop parse str_of sect us (d, wr) = (d', wr')" using Cons.prems u by metis
    from Cons.IH [OF this] obtain new where "wr' = wr @ map (\<lambda>(k, v). ([sect, k], v)) new"
      "\<forall>k. map_of d' k = (case map_of (rev new) k of None \<Rightarrow> map_of d k | Some v \<Rightarrow> Some v)" "fst ` set new \<subseteq> fst ` set us" by blast
    then show ?thesis by (intro exI [of _ new] conjI) auto
  next
    fix n
    assume "section_loop parse str_of sect ((j, v) # us) (d, wr) =
        section_loop parse str_of sect us (AList.update j n d, wr @ [([sect, j], n)])"
    then have l: "section_loop parse str_of sect us (AList.update j n d, wr @ [([sect, j], n)]) = (d', wr')"
      using Cons.prems u by simp
    obtain new where new: "wr' = (wr @ [([sect, j], n)]) @ map (\<lambda>(k, v). ([sect, k], v)) new"
      "\<forall>k. map_of d' k = (case map_of (rev new) k of None \<Rightarrow> map_of (AList.update j n d) k | Some v \<Rightarrow> Some v)" "fst ` set new \<subseteq> fst ` set us"
      using Cons.IH [OF l] by blast
    show ?thesis
      by (rule exI [of _ "(j, n) # new"]) (use new u in \<open>auto simp: update_conv map_add_def split: option.splits\<close>)
  qed
qed

subsection \<open>Properties\<close>

text \<open>C25: a setting keeps its type. Whatever value a section or scalar update brings, an attribute or entry that held a
  boolean, an integer or a float holds one of the same type afterwards, and an entry that held a string holds a string.\<close>
theorem settings_keep_types:
  "(map_of (dict_of (map_of cfg sect)) k = Some old \<and> scalar_kind old \<noteq> None \<longrightarrow>
      (\<exists>new. map_of (dict_of (map_of (snd (snd (update_config_section parse str_of sect updates cfg))) sect)) k = Some new
        \<and> scalar_kind new = scalar_kind old))
    \<and> (map_of cfg j = Some was \<and> scalar_kind was \<in> {Some 0, Some 1, Some 2} \<longrightarrow>
      (\<exists>new. map_of (snd (snd (update_top_level_scalars parse scalars cfg))) j = Some new \<and> scalar_kind new = scalar_kind was))"
proof (intro conjI impI; elim conjE)
  assume a: "map_of (dict_of (map_of cfg sect)) k = Some old" "scalar_kind old \<noteq> None"
  obtain d wr where l: "section_loop parse str_of sect updates (dict_of (map_of cfg sect), []) = (d, wr)" by fastforce
  have "dict_of (map_of (snd (snd (update_config_section parse str_of sect updates cfg))) sect)
      = (if sect = [] then dict_of (map_of cfg sect) else d)"
    by (simp add: update_config_section_def l update_conv dict_of_def [of "Some (PDict d)"])
  then show "\<exists>new. map_of (dict_of (map_of (snd (snd (update_config_section parse str_of sect updates cfg))) sect)) k = Some new
        \<and> scalar_kind new = scalar_kind old"
    using section_loop_kinds [OF l a] a by (cases "sect = []") auto
next
  assume a: "map_of cfg j = Some was" "scalar_kind was \<in> {Some 0, Some 1, Some 2}"
  obtain cfg1 wr where l: "scalar_loop parse scalars (cfg, []) = (cfg1, wr)" by fastforce
  show "\<exists>new. map_of (snd (snd (update_top_level_scalars parse scalars cfg))) j = Some new \<and> scalar_kind new = scalar_kind was"
    using scalar_loop_kinds [OF l a] by (simp add: update_top_level_scalars_def l)
qed

text \<open>a section update writes what it changes. The leaves it hands to the file are those of the section that changed, in
  order, the last one of a key with the value in memory; every other entry of the section and every other attribute is as
  before; and it reports a change exactly when there is a leaf to write.\<close>
theorem section_update_exact:
  assumes "update_config_section parse str_of sect updates cfg = (modified, wr, cfg')"
  shows "\<exists>new. wr = map (\<lambda>(k, v). ([sect, k], v)) new \<and> (modified \<longleftrightarrow> new \<noteq> []) \<and> fst ` set new \<subseteq> fst ` set updates
    \<and> (\<forall>k. map_of (dict_of (map_of cfg' sect)) k =
          (case map_of (rev new) k of None \<Rightarrow> map_of (dict_of (map_of cfg sect)) k | Some v \<Rightarrow> Some v))
    \<and> (\<forall>other. other \<noteq> sect \<longrightarrow> map_of cfg' other = map_of cfg other)"
proof (cases "sect = []")
  case True
  then show ?thesis using assms by (intro exI [of _ "[]"]) (simp add: update_config_section_def)
next
  case False
  obtain d w where l: "section_loop parse str_of sect updates (dict_of (map_of cfg sect), []) = (d, w)" by fastforce
  have out: "modified = (w \<noteq> [])" "wr = w" "cfg' = AList.update sect (PDict d) cfg"
    using assms False by (auto simp: update_config_section_def l)
  obtain new where new: "w = map (\<lambda>(k, v). ([sect, k], v)) new" "fst ` set new \<subseteq> fst ` set updates"
    "\<forall>k. map_of d k = (case map_of (rev new) k of None \<Rightarrow> map_of (dict_of (map_of cfg sect)) k | Some v \<Rightarrow> Some v)"
    using section_loop_frame [OF l] by auto
  have "dict_of (map_of cfg' sect) = d" by (simp add: out(3) update_conv dict_of_def)
  then show ?thesis using new out by (intro exI [of _ new]) (auto simp: update_conv)
qed

subsection \<open>Concrete settings\<close>

definition no_number :: "string \<Rightarrow> real option" where "no_number s = None"
definition no_text :: "pyval \<Rightarrow> string" where "no_text v = []"

theorem settings_keep_types_witness:
  "\<exists>new. map_of (dict_of (map_of (snd (snd (update_config_section no_number no_text ''weights'' [(''cpu'', PFloat (7/2))]
      [(''weights'', PDict [(''cpu'', PInt 1)])]))) ''weights'')) ''cpu'' = Some new \<and> scalar_kind new = scalar_kind (PInt 1)"
proof -
  have "map_of (dict_of (map_of [(''weights'', PDict [(''cpu'', PInt 1)])] ''weights'')) ''cpu'' = Some (PInt 1)"
    by (simp add: dict_of_def)
  moreover have "scalar_kind (PInt 1) \<noteq> None" by simp
  ultimately show ?thesis using settings_keep_types by blast
qed

theorem section_update_exact_witness:
  "\<exists>new wr cfg'. update_config_section no_number no_text ''weights'' [(''cpu'', PInt 3)] [(''weights'', PDict [(''cpu'', PInt 1)])] = (True, wr, cfg')
     \<and> wr = map (\<lambda>(k, v). ([''weights'', k], v)) new \<and> fst ` set new \<subseteq> {''cpu''}"
proof -
  have u: "update_config_section no_number no_text ''weights'' [(''cpu'', PInt 3)] [(''weights'', PDict [(''cpu'', PInt 1)])]
      = (True, [([''weights'', ''cpu''], PInt 3)], [(''weights'', PDict [(''cpu'', PInt 3)])])"
    by (simp add: update_config_section_def value_or_none_def dict_of_def)
  from section_update_exact [OF u] show ?thesis
  proof (elim exE conjE)
    fix new assume a: "[([''weights'', ''cpu''], PInt 3)] = map (\<lambda>(k, v). ([''weights'', k], v)) new"
      and b: "fst ` set new \<subseteq> fst ` set [(''cpu'', PInt 3)]"
    have c: "fst ` set new \<subseteq> {''cpu''}" using b by simp
    show ?thesis by (rule exI [of _ new], rule exI, rule exI, rule conjI [OF u conjI [OF a c]])
  qed
qed

text \<open>A threshold that the file holds as the integer 1, which is how 1.0 is written back, is cut to 0 by the next update
  that brings a value below 1.\<close>

lemma threshold_cut_to_zero:
  "update_config_section parse str_of ''thresholds'' [(''critical'', PFloat (9/10))] [(''thresholds'', PDict [(''critical'', PInt 1)])]
     = (True, [([''thresholds'', ''critical''], PInt 0)], [(''thresholds'', PDict [(''critical'', PInt 0)])])"
  by (simp add: update_config_section_def value_or_none_def dict_of_def py_trunc_def)

end
