(* ===== verification/Config_Yaml.thy ===== *)
theory Config_Yaml
  imports Config_Store
begin

text \<open>
  How settings reach \<open>config.yaml\<close>, from \<open>config/config.py\<close>: the patching of one scalar line, which keeps everything
  else of the file, and the rewriting of a list section. A file is the list of its lines, each with its newline, as
  \<open>readlines\<close> gives them; white space is ASCII. Printing a float and \<open>str()\<close> are arguments. Writing the file and
  log output are left out.
\<close>

definition rstrip :: "string \<Rightarrow> string" where "rstrip s = rev (dropWhile is_space (rev s))"
definition lstrip :: "string \<Rightarrow> string" where "lstrip s = dropWhile is_space s"

definition newline :: char where "newline = CHR 0x0A"

definition yaml_int :: "int \<Rightarrow> string" where
  "yaml_int i = (if i < 0 then CHR ''-'' # show_nat (nat (- i)) else show_nat (nat i))"

subsection \<open>Patching a scalar\<close>

fun format_yaml_scalar :: "(real \<Rightarrow> string) \<Rightarrow> (pyval \<Rightarrow> string) \<Rightarrow> pyval \<Rightarrow> string" where
  \<comment> \<open>\<open>g x\<close> is \<open>f"{x:g}"\<close>\<close>
  "format_yaml_scalar g str_of (PBool b) = (if b then ''true'' else ''false'')"
| "format_yaml_scalar g str_of (PInt i) = yaml_int i"
| "format_yaml_scalar g str_of (PFloat x) = g x"
| "format_yaml_scalar g str_of v = str_of v"

definition key_char :: "char \<Rightarrow> bool" where "key_char c \<longleftrightarrow> c \<noteq> CHR '':'' \<and> c \<noteq> CHR ''#''"

definition key_view :: "string \<Rightarrow> (nat \<times> string) option" where
  \<comment> \<open>the match of \<open>key_pattern\<close>: the indentation and the key, stripped\<close>
  "key_view line =
     (let ws = takeWhile is_space line; rest = dropWhile is_space line; key = takeWhile key_char rest
      in case dropWhile key_char rest of
           [] \<Rightarrow> None
         | c # _ \<Rightarrow>
             if c \<noteq> CHR '':'' then None
             else if key \<noteq> [] then Some (length ws, strip key)
             else if ws \<noteq> [] then Some (length ws - 1, [])
             else None)"

fun seek :: "nat option \<Rightarrow> nat \<Rightarrow> string \<Rightarrow> (nat \<times> string) option list \<Rightarrow> nat option" where
  \<comment> \<open>the first line with this indentation and key, before the block of the parent ends\<close>
  "seek parent target key [] = None"
| "seek parent target key (None # vs) = map_option Suc (seek parent target key vs)"
| "seek parent target key (Some (n, k) # vs) =
     (if (case parent of None \<Rightarrow> False | Some p \<Rightarrow> n \<le> p) then None
      else if n \<noteq> target \<or> k \<noteq> key then map_option Suc (seek parent target key vs)
      else Some 0)"

fun path_line :: "(nat \<times> string) option list \<Rightarrow> nat \<Rightarrow> nat option \<Rightarrow> string list \<Rightarrow> nat option" where
  \<comment> \<open>the line of a path, each key two columns further in than the one before\<close>
  "path_line vs start parent [] = None"
| "path_line vs start parent (k # ks) =
     (let target = (case parent of None \<Rightarrow> 0 | Some p \<Rightarrow> p + 2) in
      case seek parent target k (drop start vs) of
        None \<Rightarrow> None
      | Some i \<Rightarrow> if ks = [] then Some (start + i) else path_line vs (start + i + 1) (Some target) ks)"

definition new_line :: "(real \<Rightarrow> string) \<Rightarrow> (pyval \<Rightarrow> string) \<Rightarrow> string \<Rightarrow> pyval \<Rightarrow> string" where
  "new_line g str_of line v =
     (case partition_at CHR ''#'' line of (value_part, found, comment_part) \<Rightarrow>
        (let body = (if found then rstrip value_part else line);
             comment = (if found then ''  #'' @ strip comment_part else [])
         in takeWhile (\<lambda>c. c \<noteq> CHR '':'') body @ '': '' @ format_yaml_scalar g str_of v @ comment @ [newline]))"

definition replace_yaml_scalar_line ::
  "(real \<Rightarrow> string) \<Rightarrow> (pyval \<Rightarrow> string) \<Rightarrow> string list \<Rightarrow> string list \<Rightarrow> pyval \<Rightarrow> bool \<times> string list" where
  "replace_yaml_scalar_line g str_of lines path v =
     (case path_line (map key_view lines) 0 None path of
        None \<Rightarrow> (False, lines)
      | Some i \<Rightarrow> (True, lines[i := new_line g str_of (lines ! i) v]))"

fun patch_limit_policy_yaml :: "(real \<Rightarrow> string) \<Rightarrow> (pyval \<Rightarrow> string) \<Rightarrow> leaf_log \<Rightarrow> string list \<Rightarrow> bool \<times> string list" where
  \<comment> \<open>whether the file has to be written, and its lines\<close>
  "patch_limit_policy_yaml g str_of [] lines = (False, lines)"
| "patch_limit_policy_yaml g str_of ((path, v) # wr) lines =
     (case replace_yaml_scalar_line g str_of lines path v of (ok, lines1) \<Rightarrow>
      case patch_limit_policy_yaml g str_of wr lines1 of (changed, lines2) \<Rightarrow> (ok \<or> changed, lines2))"

subsection \<open>List sections\<close>

definition escape_yaml :: "string \<Rightarrow> string" where
  "escape_yaml s = concat (map (\<lambda>c. if c = CHR 0x5C \<or> c = CHR 0x22 then [CHR 0x5C, c] else [c]) s)"

fun format_yaml_value :: "(real \<Rightarrow> string) \<Rightarrow> pyval \<Rightarrow> string" where
  \<comment> \<open>\<open>show_real x\<close> is \<open>f"{x}"\<close>; the keys of a dict are strings\<close>
  "format_yaml_value show_real PNone = ''null''"
| "format_yaml_value show_real (PBool b) = (if b then ''true'' else ''false'')"
| "format_yaml_value show_real (PInt i) = yaml_int i"
| "format_yaml_value show_real (PFloat x) = show_real x"
| "format_yaml_value show_real (PList xs) = ''['' @ join_with '', '' (map (format_yaml_value show_real) xs) @ '']''"
| "format_yaml_value show_real (PDict kvs) =
     ''{'' @ join_with '', '' (map (\<lambda>(k, v). CHR 0x22 # escape_yaml k @ [CHR 0x22] @ '': '' @ format_yaml_value show_real v) kvs) @ ''}''"
| "format_yaml_value show_real (PStr s) = CHR 0x22 # escape_yaml s @ [CHR 0x22]"

definition first_index :: "('a \<Rightarrow> bool) \<Rightarrow> 'a list \<Rightarrow> nat option" where
  "first_index P xs = (let n = length (takeWhile (\<lambda>x. \<not> P x) xs) in if n < length xs then Some n else None)"

definition heads :: "string \<Rightarrow> string \<Rightarrow> bool" where
  "heads sect line \<longleftrightarrow> startswith line (sect @ '':'')
     \<and> (case drop (length sect + 1) line of [] \<Rightarrow> True | c # _ \<Rightarrow> c = CHR '' '' \<or> c = CHR 0x09 \<or> c = newline \<or> c = CHR 0x0D \<or> c = CHR ''#'')"

definition find_top_level_key :: "string list \<Rightarrow> string \<Rightarrow> nat option" where
  "find_top_level_key lines sect = first_index (heads sect) lines"

definition blank :: "string \<Rightarrow> bool" where "blank line \<longleftrightarrow> strip line = []"
definition is_comment :: "string \<Rightarrow> bool" where "is_comment line \<longleftrightarrow> startswith (lstrip line) ''#''"

definition ends_block :: "string \<Rightarrow> bool" where
  "ends_block line \<longleftrightarrow> \<not> blank line \<and> \<not> is_comment line \<and> (case line of [] \<Rightarrow> False | c # _ \<Rightarrow> c \<noteq> CHR '' '' \<and> c \<noteq> CHR 0x09)"

definition find_block_end :: "string list \<Rightarrow> nat \<Rightarrow> nat" where
  "find_block_end lines start =
     (case first_index ends_block (drop (start + 1) lines) of None \<Rightarrow> length lines | Some i \<Rightarrow> start + 1 + i)"

definition lstrip_blank :: "string \<Rightarrow> string" where
  "lstrip_blank s = dropWhile (\<lambda>c. c = CHR '' '' \<or> c = CHR 0x09) s"

fun sub_indent_of :: "nat \<Rightarrow> string list \<Rightarrow> nat option" where
  \<comment> \<open>the first line that is neither empty nor a comment, when it is further in\<close>
  "sub_indent_of dash [] = None"
| "sub_indent_of dash (l # ls) =
     (let s = lstrip_blank l in
      if s = [] \<or> startswith s ''#'' then sub_indent_of dash ls
      else if length l - length s > dash then Some (length l - length s) else None)"

fun detect_indent :: "string list \<Rightarrow> nat \<times> nat" where
  "detect_indent [] = (2, 4)"
| "detect_indent (l # ls) =
     (let s = lstrip_blank l in
      if startswith s ''- ''
      then (let dash = length l - length s in (dash, case sub_indent_of dash ls of Some n \<Rightarrow> n | None \<Rightarrow> dash + 2))
      else detect_indent ls)"

definition detect_list_item_indent :: "string list \<Rightarrow> nat \<Rightarrow> nat \<Rightarrow> nat \<times> nat" where
  "detect_list_item_indent lines header end_idx = detect_indent (take (end_idx - (header + 1)) (drop (header + 1) lines))"

definition render_list_item :: "(real \<Rightarrow> string) \<Rightarrow> pyval \<Rightarrow> nat \<Rightarrow> nat \<Rightarrow> string list" where
  "render_list_item show_real v dash sub =
     (case v of
        PDict [] \<Rightarrow> [replicate dash CHR '' '' @ ''- {}'' @ [newline]]
      | PDict ((k, x) # kvs) \<Rightarrow>
          (replicate dash CHR '' '' @ ''- '' @ k @ '': '' @ format_yaml_value show_real x @ [newline])
          # map (\<lambda>(k, x). replicate sub CHR '' '' @ k @ '': '' @ format_yaml_value show_real x @ [newline]) kvs
      | x \<Rightarrow> [replicate dash CHR '' '' @ ''- '' @ format_yaml_value show_real x @ [newline]])"

definition append_to_list_section ::
  "(real \<Rightarrow> string) \<Rightarrow> string \<Rightarrow> pyval \<Rightarrow> pydict \<times> string list \<Rightarrow> bool \<times> pydict \<times> string list" where
  "append_to_list_section show_real sect entry st =
     (case st of (cfg, lines) \<Rightarrow>
      case find_top_level_key lines sect of
        None \<Rightarrow> (False, cfg, lines)
      | Some h \<Rightarrow>
          (let e = find_block_end lines h;
               (dash, sub) = detect_list_item_indent lines h e;
               body = take (e - (h + 1)) (drop (h + 1) lines);
               kept = rev (dropWhile blank (rev body));
               old = (case map_of cfg sect of Some (PList xs) \<Rightarrow> xs | _ \<Rightarrow> [])
           in (True, AList.update sect (PList (old @ [entry])) cfg,
               take (h + 1) lines @ kept @ render_list_item show_real entry dash sub @ drop (length kept) body @ drop e lines)))"

definition header_comment :: "string \<Rightarrow> string" where
  "header_comment line =
     (case partition_at CHR '':'' (if line \<noteq> [] \<and> last line = newline then butlast line else line) of (_, _, after) \<Rightarrow>
      case partition_at CHR ''#'' after of (_, found, c) \<Rightarrow> if found then ''  '' @ strip (CHR ''#'' # c) else [])"

definition header_line :: "string \<Rightarrow> pyval list \<Rightarrow> string \<Rightarrow> string" where
  "header_line sect entries comment = sect @ (if entries = [] then '': []'' else '':'') @ comment @ [newline]"

definition already_empty :: "string list \<Rightarrow> string \<Rightarrow> bool" where
  "already_empty lines sect =
     (case find_top_level_key lines sect of
        None \<Rightarrow> False
      | Some h \<Rightarrow>
          (let e = find_block_end lines h;
               (_, _, after) = partition_at CHR '':'' (lines ! h);
               (inline, _, _) = partition_at CHR ''#'' after
           in strip inline = ''[]'' \<and> \<not> list_ex (\<lambda>l. \<not> blank l \<and> \<not> is_comment l) (take (e - (h + 1)) (drop (h + 1) lines))))"

definition rewrite_list :: "(real \<Rightarrow> string) \<Rightarrow> string \<Rightarrow> pyval list \<Rightarrow> string list \<Rightarrow> string list" where
  "rewrite_list show_real sect entries lines =
     (case find_top_level_key lines sect of
        None \<Rightarrow>
          lines @ (if lines \<noteq> [] \<and> \<not> blank (last lines) then [[newline]] else []) @ [header_line sect entries []]
            @ concat (map (\<lambda>x. render_list_item show_real x 2 4) entries)
      | Some h \<Rightarrow>
          (let e = find_block_end lines h;
               (dash, sub) = detect_list_item_indent lines h e
           in take h lines @ [header_line sect entries (header_comment (lines ! h))]
                @ concat (map (\<lambda>x. render_list_item show_real x dash sub) entries) @ drop e lines))"

definition set_list_section ::
  "(real \<Rightarrow> string) \<Rightarrow> string \<Rightarrow> pyval list \<Rightarrow> pydict \<times> string list \<Rightarrow> bool \<times> pydict \<times> string list" where
  "set_list_section show_real sect entries st =
     (case st of (cfg, lines) \<Rightarrow>
        if py_eq (value_or_none cfg sect) (PList entries) \<and> (entries \<noteq> [] \<or> already_empty lines sect) then (False, cfg, lines)
        else (True, AList.update sect (PList entries) cfg, rewrite_list show_real sect entries lines))"

definition strip_quotes :: "string \<Rightarrow> string" where
  "strip_quotes s = (let q = (\<lambda>c. c = CHR 0x22 \<or> c = CHR 0x27) in rev (dropWhile q (rev (dropWhile q s))))"

definition item_fields :: "string list \<Rightarrow> (string \<times> string) list" where
  \<comment> \<open>the crude scan of an item; a later line of the same key wins\<close>
  "item_fields item =
     rev (List.map_filter (\<lambda>line.
       (let s = strip line; t = (if startswith s ''- '' then drop 2 s else s)
        in if CHR '':'' \<notin> set t \<or> startswith t ''#'' then None
           else case partition_at CHR '':'' t of (k, _, v) \<Rightarrow> Some (strip k, strip_quotes (strip v)))) item)"

fun item_blocks :: "string \<Rightarrow> string list \<Rightarrow> string list \<Rightarrow> string list \<times> string list list" where
  \<comment> \<open>the lines before the first item, and the items; the second argument collects the lines of the item at hand\<close>
  "item_blocks dash_prefix cur [] = (cur, [])"
| "item_blocks dash_prefix cur (l # ls) =
     (if startswith l dash_prefix then (case item_blocks dash_prefix [l] ls of (c, items) \<Rightarrow> (cur, c # items))
      else item_blocks dash_prefix (cur @ [l]) ls)"

definition remove_from_list_section ::
  "(pyval \<Rightarrow> string) \<Rightarrow> string \<Rightarrow> pydict \<Rightarrow> pydict \<times> string list \<Rightarrow> nat \<times> pydict \<times> string list" where
  "remove_from_list_section str_of sect wanted st =
     (case st of (cfg, lines) \<Rightarrow>
        if wanted = [] then (0, cfg, lines)
        else case find_top_level_key lines sect of
          None \<Rightarrow> (0, cfg, lines)
        | Some h \<Rightarrow>
            (let e = find_block_end lines h;
                 (dash, sub) = detect_list_item_indent lines h e;
                 (lead, items) = item_blocks (replicate dash CHR '' '' @ ''- '') [] (take (e - (h + 1)) (drop (h + 1) lines));
                 hit = (\<lambda>item. list_all (\<lambda>(k, v). (case map_of (item_fields item) k of None \<Rightarrow> [] | Some s \<Rightarrow> s) = str_of v) wanted);
                 n = length (filter hit items)
             in if n = 0 then (0, cfg, lines)
                else (n,
                  (case map_of cfg sect of
                     Some (PList xs) \<Rightarrow>
                       AList.update sect (PList (filter (\<lambda>x. (case x of
                           PDict d \<Rightarrow> \<not> list_all (\<lambda>(k, v). str_of (case map_of d k of None \<Rightarrow> PStr [] | Some y \<Rightarrow> y) = str_of v) wanted
                         | _ \<Rightarrow> True)) xs)) cfg
                   | _ \<Rightarrow> cfg),
                  take (h + 1) lines @ lead @ concat (filter (\<lambda>i. \<not> hit i) items) @ drop e lines)))"

definition set_monitored_sections :: "string list \<Rightarrow> pydict \<times> string list \<Rightarrow> bool \<times> pydict \<times> string list" where
  "set_monitored_sections sections st =
     (case st of (cfg, lines) \<Rightarrow>
      case find_top_level_key lines ''monitored_sections'' of
        None \<Rightarrow> (False, cfg, lines)
      | Some i \<Rightarrow>
          (let line = (if lines ! i \<noteq> [] \<and> last (lines ! i) = newline then butlast (lines ! i) else lines ! i);
               (_, _, after_key) = partition_at CHR '':'' line
           in if CHR ''['' \<in> set after_key \<and> CHR '']'' \<notin> set after_key then (False, cfg, lines)
              else (let tail = (if CHR '']'' \<in> set after_key then rev (takeWhile (\<lambda>c. c \<noteq> CHR '']'') (rev after_key)) else after_key);
                        (_, found, c) = partition_at CHR ''#'' tail;
                        comment = (if found then ''  '' @ strip (CHR ''#'' # c) else [])
                    in (True, AList.update ''monitored_sections'' (PList (map PStr sections)) cfg,
                        lines[i := ''monitored_sections: ['' @ join_with '', '' sections @ '']'' @ comment @ [newline]]))))"

subsection \<open>Reading a line back\<close>

definition scalar_text :: "string \<Rightarrow> string" where
  \<comment> \<open>what a line says about its key: the text between the colon and a comment\<close>
  "scalar_text line = strip (takeWhile (\<lambda>c. c \<noteq> CHR ''#'') (drop 1 (dropWhile (\<lambda>c. c \<noteq> CHR '':'') line)))"

definition value_at :: "string list \<Rightarrow> string list \<Rightarrow> string option" where
  "value_at path lines = map_option (\<lambda>i. scalar_text (lines ! i)) (path_line (map key_view lines) 0 None path)"

definition keyed :: "string \<Rightarrow> string \<Rightarrow> string \<Rightarrow> bool" where
  \<comment> \<open>the parts of a line with a key: indentation, key, what follows the colon\<close>
  "keyed ws key line \<longleftrightarrow> list_all is_space ws \<and> list_all key_char key \<and> (key \<noteq> [] \<longrightarrow> \<not> is_space (hd key)) \<and> (key = [] \<longrightarrow> ws \<noteq> [])
     \<and> (\<exists>t. line = ws @ key @ CHR '':'' # t)"

lemma space_key_char: "is_space c \<Longrightarrow> key_char c"
  by (auto simp: is_space_def key_char_def)

lemma not_space [simp]: "\<not> is_space CHR '':''" "\<not> is_space CHR ''#''" "is_space CHR '' ''" "is_space newline"
  by (simp_all add: is_space_def newline_def)

lemma take_drop_while: "list_all P xs \<Longrightarrow> ys = [] \<or> \<not> P (hd ys) \<Longrightarrow> takeWhile P (xs @ ys) = xs \<and> dropWhile P (xs @ ys) = ys"
  by (induction xs) (cases ys; auto)+

lemma key_view_keyed:
  assumes "keyed ws key line"
  shows "key_view line = Some (if key \<noteq> [] then (length ws, strip key) else (length ws - 1, []))"
proof -
  obtain t where k: "list_all is_space ws" "list_all key_char key" "key \<noteq> [] \<longrightarrow> \<not> is_space (hd key)" "key = [] \<longrightarrow> ws \<noteq> []"
    "line = ws @ key @ CHR '':'' # t"
    using assms unfolding keyed_def by blast
  have "\<not> is_space (hd (key @ CHR '':'' # t))" using k(3) by (cases key) simp_all
  from take_drop_while [OF k(1) disjI2 [OF this]] have a: "takeWhile is_space line = ws" "dropWhile is_space line = key @ CHR '':'' # t"
    using k(5) by simp_all
  have "\<not> key_char (hd (CHR '':'' # t))" by (simp add: key_char_def)
  from take_drop_while [OF k(2) disjI2 [OF this]] have b: "takeWhile key_char (key @ CHR '':'' # t) = key"
    "dropWhile key_char (key @ CHR '':'' # t) = CHR '':'' # t" by simp_all
  show ?thesis unfolding key_view_def Let_def a b using k(4) by simp
qed

lemma keyed_exists:
  assumes "key_view line = Some x"
  obtains ws key where "keyed ws key line"
proof -
  let ?ws = "takeWhile is_space line" and ?rest = "dropWhile is_space line"
  let ?key = "takeWhile key_char ?rest"
  obtain c t where d: "dropWhile key_char ?rest = c # t" using assms by (auto simp: key_view_def Let_def split: list.splits)
  have c: "c = CHR '':''" "?key = [] \<longrightarrow> ?ws \<noteq> []" using assms d by (auto simp: key_view_def Let_def split: if_splits)
  have "line = ?ws @ ?key @ c # t" using d by (metis takeWhile_dropWhile_id)
  moreover have "list_all is_space ?ws" "list_all key_char ?key" by (simp_all add: list_all_iff) (meson set_takeWhileD)+
  moreover have "\<not> is_space (hd ?key)" if "?key \<noteq> []"
  proof -
    have "?rest \<noteq> []" using that by (metis takeWhile.simps(1))
    moreover from this that have "hd ?key = hd ?rest" by (cases ?rest) (auto split: if_splits)
    ultimately show ?thesis using hd_dropWhile [of is_space line] by simp
  qed
  ultimately have "keyed ?ws ?key line" using c unfolding keyed_def by blast
  then show thesis by (rule that)
qed

lemma dropWhile_to: "\<not> is_space c \<Longrightarrow> \<exists>b. dropWhile is_space (ys @ c # z) = b @ c # z"
proof (induction ys)
  case (Cons y ys)
  then show ?case by (cases "is_space y") (auto intro: exI [of _ "y # ys"])
qed (auto intro: exI [of _ "[]"])

lemma rstrip_mid: "\<not> is_space c \<Longrightarrow> \<exists>b. rstrip (x @ c # a) = x @ c # b"
proof -
  assume "\<not> is_space c"
  then obtain b where "dropWhile is_space (rev a @ c # rev x) = b @ c # rev x" using dropWhile_to by blast
  then show ?thesis by (intro exI [of _ "rev b"]) (simp add: rstrip_def)
qed

lemma colon_split:
  assumes "list_all is_space ws" "list_all key_char key"
  shows "takeWhile (\<lambda>c. c \<noteq> CHR '':'') (ws @ key @ CHR '':'' # t) = ws @ key" "dropWhile (\<lambda>c. c \<noteq> CHR '':'') (ws @ key @ CHR '':'' # t) = CHR '':'' # t"
    "CHR ''#'' \<notin> set (ws @ key @ [CHR '':''])"
proof -
  have n: "\<forall>c\<in>set (ws @ key). c \<noteq> CHR '':'' \<and> c \<noteq> CHR ''#''"
    using assms not_space(1,2) unfolding list_all_iff key_char_def set_append by blast
  then have a: "list_all (\<lambda>c. c \<noteq> CHR '':'') (ws @ key)" by (auto simp: list_all_iff)
  from take_drop_while [OF a, of "CHR '':'' # t"]
  show "takeWhile (\<lambda>c. c \<noteq> CHR '':'') (ws @ key @ CHR '':'' # t) = ws @ key" "dropWhile (\<lambda>c. c \<noteq> CHR '':'') (ws @ key @ CHR '':'' # t) = CHR '':'' # t"
    by simp_all
  show "CHR ''#'' \<notin> set (ws @ key @ [CHR '':''])" using n by auto
qed

lemma new_line_form:
  assumes "keyed ws key line"
  shows "\<exists>comment. (comment = [] \<or> hd (dropWhile is_space comment) = CHR ''#'' \<and> dropWhile is_space comment \<noteq> [])
    \<and> new_line g str_of line v = ws @ key @ '': '' @ format_yaml_scalar g str_of v @ comment @ [newline]"
proof -
  obtain t where k: "list_all is_space ws" "list_all key_char key" "line = ws @ key @ CHR '':'' # t"
    using assms unfolding keyed_def by blast
  note cs = colon_split [OF k(1,2)]
  show ?thesis
  proof (cases "CHR ''#'' \<in> set t")
    case True
    then obtain a b where t: "t = a @ CHR ''#'' # b" "CHR ''#'' \<notin> set a" by (metis split_list_first)
    have "partition_at CHR ''#'' ((ws @ key @ CHR '':'' # a) @ CHR ''#'' # b) = (ws @ key @ CHR '':'' # a, True, b)"
      using cs(3) t(2) by (intro partition_at_mid) auto
    then have p: "partition_at CHR ''#'' line = (ws @ key @ CHR '':'' # a, True, b)" using k(3) t(1) by simp
    obtain r where r: "rstrip (ws @ key @ CHR '':'' # a) = ws @ key @ CHR '':'' # r"
      using rstrip_mid [of "CHR '':''" "ws @ key" a] by auto
    show ?thesis
      by (rule exI [of _ "''  #'' @ strip b"]) (simp add: new_line_def p r cs(1))
  next
    case False
    then have "partition_at CHR ''#'' line = (line, False, [])" using cs(3) k(3) by (intro partition_at_none) auto
    then show ?thesis using cs(1) k(3) by (intro exI [of _ "[]"]) (simp add: new_line_def)
  qed
qed

lemma key_view_new:
  assumes "key_view line = Some x"
  shows "key_view (new_line g str_of line v) = Some x"
proof -
  obtain ws key where k: "keyed ws key line" using keyed_exists [OF assms] .
  obtain comment where n: "new_line g str_of line v = ws @ key @ CHR '':'' # ('' '' @ format_yaml_scalar g str_of v @ comment @ [newline])"
    using new_line_form [OF k] by force
  have "keyed ws key (new_line g str_of line v)" using k unfolding keyed_def n by blast
  then show ?thesis using key_view_keyed k assms by metis
qed

lemma strip_around:
  assumes "list_all is_space a" "list_all is_space b"
  shows "strip (a @ x @ b) = strip x"
proof (cases "list_all is_space x")
  case True
  have "strip y = []" if "list_all is_space y" for y
  proof -
    have "dropWhile is_space y = []" using that by (simp add: list_all_iff)
    then show ?thesis unfolding strip_def by (metis dropWhile.simps(1) rev.simps(1))
  qed
  then show ?thesis using assms True by simp
next
  case False
  have a: "dropWhile is_space (a @ y) = dropWhile is_space y" for y using assms(1) by (induction a) auto
  have b: "dropWhile is_space (rev b @ y) = dropWhile is_space y" for y
    using assms(2) by (induction b arbitrary: y) auto
  have "dropWhile is_space (x @ b) = dropWhile is_space x @ b" using False by (induction x) auto
  then show ?thesis by (simp add: strip_def a b)
qed

lemma scalar_text_new:
  assumes "keyed ws key line" "CHR ''#'' \<notin> set (format_yaml_scalar g str_of v)"
  shows "scalar_text (new_line g str_of line v) = strip (format_yaml_scalar g str_of v)"
proof -
  let ?f = "format_yaml_scalar g str_of v"
  obtain comment where c: "comment = [] \<or> hd (dropWhile is_space comment) = CHR ''#'' \<and> dropWhile is_space comment \<noteq> []"
    and n: "new_line g str_of line v = ws @ key @ CHR '':'' # ('' '' @ ?f @ comment @ [newline])"
    using new_line_form [OF assms(1), of g str_of v] by force
  have k: "list_all is_space ws" "list_all key_char key" using assms(1) by (simp_all add: keyed_def)
  have no: "list_all (\<lambda>c. c \<noteq> CHR ''#'') ('' '' @ ?f)" using assms(2) by (auto simp: list_all_iff)
  have "\<exists>sp. list_all is_space sp \<and> takeWhile (\<lambda>c. c \<noteq> CHR ''#'') (comment @ [newline]) = sp"
    using c
  proof
    assume "comment = []"
    then show ?thesis by (simp add: newline_def is_space_def)
  next
    assume h: "hd (dropWhile is_space comment) = CHR ''#'' \<and> dropWhile is_space comment \<noteq> []"
    obtain lead b where d: "comment = lead @ CHR ''#'' # b" "list_all is_space lead"
    proof (rule that)
      show "list_all is_space (takeWhile is_space comment)" by (auto simp: list_all_iff dest: set_takeWhileD)
      show "comment = takeWhile is_space comment @ CHR ''#'' # tl (dropWhile is_space comment)"
        using h takeWhile_dropWhile_id [of is_space comment] by (metis list.collapse)
    qed
    have "list_all (\<lambda>c. c \<noteq> CHR ''#'') lead" using d(2) by (auto simp: list_all_iff)
    from take_drop_while [OF this, of "CHR ''#'' # b @ [newline]"] show ?thesis using d by simp
  qed
  then obtain sp where sp: "list_all is_space sp" "takeWhile (\<lambda>c. c \<noteq> CHR ''#'') (comment @ [newline]) = sp" by blast
  have "scalar_text (new_line g str_of line v) = strip ('' '' @ ?f @ sp)"
    unfolding scalar_text_def n colon_split(2) [OF k] using takeWhile_append2 [of "'' '' @ ?f" "\<lambda>c. c \<noteq> CHR ''#''" "comment @ [newline]"] no sp(2)
    by (simp add: list_all_iff)
  also have "... = strip ?f" by (rule strip_around) (simp_all add: sp)
  finally show ?thesis .
qed

subsection \<open>Paths\<close>

definition depth_of :: "nat option \<Rightarrow> nat" where
  "depth_of parent = (case parent of None \<Rightarrow> 0 | Some p \<Rightarrow> p + 2)"

definition inside :: "nat option \<Rightarrow> (nat \<times> string) option \<Rightarrow> bool" where
  "inside parent v \<longleftrightarrow> (\<forall>p n k. parent = Some p \<and> v = Some (n, k) \<longrightarrow> p < n)"

lemma seek_sound:
  assumes "seek parent target key vs = Some i"
  shows "i < length vs \<and> vs ! i = Some (target, key) \<and> (\<forall>j<i. inside parent (vs ! j) \<and> vs ! j \<noteq> Some (target, key))"
  using assms
proof (induction vs arbitrary: i)
  case (Cons v vs)
  show ?case
  proof (cases "v = Some (target, key)")
    case True
    then have "i = 0" using Cons.prems by (auto split: if_splits)
    then show ?thesis using True by simp
  next
    case False
    then obtain m where m: "seek parent target key vs = Some m" "i = Suc m" "inside parent v"
      using Cons.prems by (cases v) (auto simp: inside_def split: option.splits if_splits)
    show ?thesis using Cons.IH [OF m(1)] m(2,3) False by (auto simp: less_Suc_eq_0_disj)
  qed
qed simp

lemma path_unfold:
  assumes "path_line vs s parent (k # ks) = Some i"
  obtains a where "seek parent (depth_of parent) k (drop s vs) = Some a" "ks = [] \<Longrightarrow> i = s + a"
    "ks \<noteq> [] \<Longrightarrow> path_line vs (s + a + 1) (Some (depth_of parent)) ks = Some i"
proof -
  have u: "path_line vs s parent (k # ks) = (case seek parent (depth_of parent) k (drop s vs) of None \<Rightarrow> None
      | Some a \<Rightarrow> if ks = [] then Some (s + a) else path_line vs (s + a + 1) (Some (depth_of parent)) ks)"
    by (simp only: path_line.simps(2) Let_def depth_of_def)
  obtain a where a: "seek parent (depth_of parent) k (drop s vs) = Some a"
    using assms unfolding u by (cases "seek parent (depth_of parent) k (drop s vs)") simp_all
  show thesis
    using assms unfolding u a option.case by (intro that [OF a]) (simp_all split: if_splits)
qed

lemma path_sound:
  assumes "path_line vs s parent ks = Some i" "s \<le> length vs"
  shows "s \<le> i \<and> i < length vs \<and> (\<exists>k. vs ! i = Some (depth_of parent + 2 * (length ks - 1), k)) \<and> (\<forall>j. s \<le> j \<and> j < i \<longrightarrow> inside parent (vs ! j))"
  using assms
proof (induction ks arbitrary: s parent)
  case (Cons k ks)
  show ?case
    using Cons.prems(1)
  proof (rule path_unfold)
    fix a
    assume a: "seek parent (depth_of parent) k (drop s vs) = Some a" "ks = [] \<Longrightarrow> i = s + a"
      "ks \<noteq> [] \<Longrightarrow> path_line vs (s + a + 1) (Some (depth_of parent)) ks = Some i"
    have sk: "a < length vs - s" "vs ! (s + a) = Some (depth_of parent, k)" "\<forall>j<a. inside parent (vs ! (s + j))"
      using seek_sound [OF a(1)] Cons.prems(2) by auto
    have below: "inside parent (vs ! j)" if "s \<le> j" "j < s + a" for j
      using sk(3) [rule_format, of "j - s"] that by simp
    show ?thesis
    proof (cases "ks = []")
      case True
      then show ?thesis using a(2) sk below by auto
    next
      case False
      from Cons.IH [OF a(3) [OF False]] sk(1)
      have ih: "s + a + 1 \<le> i" "i < length vs" "\<exists>k. vs ! i = Some (depth_of (Some (depth_of parent)) + 2 * (length ks - 1), k)"
        "\<forall>j. s + a + 1 \<le> j \<and> j < i \<longrightarrow> inside (Some (depth_of parent)) (vs ! j)" by auto
      have d: "depth_of (Some (depth_of parent)) + 2 * (length ks - 1) = depth_of parent + 2 * (length (k # ks) - 1)"
        using False by (cases ks) (simp_all add: depth_of_def)
      have out: "inside parent v" if "inside (Some (depth_of parent)) v" for v
        using that by (cases parent) (auto simp: inside_def depth_of_def)
      have at: "inside parent (vs ! (s + a))" using sk(2) by (cases parent) (auto simp: inside_def depth_of_def)
      have "inside parent (vs ! j)" if "s \<le> j" "j < i" for j
        using below [of j] at out ih(4) [rule_format, of j] that by (cases "j < s + a"; cases "j = s + a") auto
      then show ?thesis using ih(1-3) d by auto
    qed
  qed
qed simp

lemma path_step_below:
  assumes "seek parent (depth_of parent) k (drop s vs) = Some a" "seek parent (depth_of parent) m (drop s vs) = Some b" "a < b"
    "ks = [] \<Longrightarrow> i = s + a" "ks \<noteq> [] \<Longrightarrow> path_line vs (s + a + 1) (Some (depth_of parent)) ks = Some i" "s + b \<le> i" "s \<le> length vs"
  shows False
proof -
  have b: "b < length vs - s" "vs ! (s + b) = Some (depth_of parent, m)" using seek_sound [OF assms(2)] assms(7) by auto
  have ks: "ks \<noteq> []" using assms(3,4,6) by auto
  have le: "s + a + 1 \<le> length vs" using b(1) assms(3) by simp
  note p = path_sound [OF assms(5) [OF ks] le]
  show False
  proof (cases "s + b = i")
    case True
    then obtain q where "vs ! i = Some (depth_of parent + 2 + 2 * (length ks - 1), q)" using p by (auto simp: depth_of_def)
    then show False using b(2) True by simp
  next
    case False
    then have "inside (Some (depth_of parent)) (vs ! (s + b))" using p assms(3,6) by auto
    then show False using b(2) by (simp add: inside_def)
  qed
qed

lemma path_inj:
  assumes "path_line vs s parent ks = Some i" "path_line vs s parent ms = Some i" "s \<le> length vs"
  shows "ks = ms"
  using assms
proof (induction ks arbitrary: s parent ms)
  case (Cons k ks)
  obtain m ms1 where ms: "ms = m # ms1" using Cons.prems(2) by (cases ms) auto
  obtain a where a: "seek parent (depth_of parent) k (drop s vs) = Some a" "ks = [] \<Longrightarrow> i = s + a"
      "ks \<noteq> [] \<Longrightarrow> path_line vs (s + a + 1) (Some (depth_of parent)) ks = Some i" using path_unfold [OF Cons.prems(1)] by metis
  obtain b where b: "seek parent (depth_of parent) m (drop s vs) = Some b" "ms1 = [] \<Longrightarrow> i = s + b"
      "ms1 \<noteq> [] \<Longrightarrow> path_line vs (s + b + 1) (Some (depth_of parent)) ms1 = Some i"
    using path_unfold [OF Cons.prems(2) [unfolded ms]] by metis
  have al: "a < length vs - s" "vs ! (s + a) = Some (depth_of parent, k)" using seek_sound [OF a(1)] Cons.prems(3) by auto
  have bl: "b < length vs - s" "vs ! (s + b) = Some (depth_of parent, m)" using seek_sound [OF b(1)] Cons.prems(3) by auto
  have ai: "s + a \<le> i" "ks \<noteq> [] \<Longrightarrow> s + a < i" using a(2,3) path_sound [OF a(3)] al(1) by (cases "ks = []"; force)+
  have bi: "s + b \<le> i" "ms1 \<noteq> [] \<Longrightarrow> s + b < i" using b(2,3) path_sound [OF b(3)] bl(1) by (cases "ms1 = []"; force)+
  have eq: "a = b"
  proof (rule linorder_cases [of a b])
    assume "a < b"
    from path_step_below [OF a(1) b(1) this a(2,3) bi(1) Cons.prems(3)] show ?thesis by blast
  next
    assume "b < a"
    from path_step_below [OF b(1) a(1) this b(2,3) ai(1) Cons.prems(3)] show ?thesis by blast
  qed
  then have key: "k = m" using al(2) bl(2) by simp
  show ?case
  proof (cases "ks = []")
    case True
    then have "ms1 = []" using a(2) bi(2) eq by auto
    then show ?thesis using True key ms by simp
  next
    case False
    then have "ms1 \<noteq> []" using ai(2) b(2) eq by auto
    then show ?thesis using Cons.IH [OF a(3) [OF False], of ms1] b(3) eq key ms al(1) by simp
  qed
qed simp

subsection \<open>Properties\<close>

lemma replace_line_law:
  assumes "replace_yaml_scalar_line g str_of lines path v = (ok, lines')" "CHR ''#'' \<notin> set (format_yaml_scalar g str_of v)"
  shows "map key_view lines' = map key_view lines" "ok \<longleftrightarrow> value_at path lines \<noteq> None"
    "value_at p lines' = (if p = path \<and> ok then Some (strip (format_yaml_scalar g str_of v)) else value_at p lines)"
    "i < length lines \<Longrightarrow> lines' ! i \<noteq> lines ! i \<Longrightarrow> path_line (map key_view lines) 0 None path = Some i"
proof -
  let ?vs = "map key_view lines"
  have all: "map key_view lines' = ?vs \<and> (ok \<longleftrightarrow> value_at path lines \<noteq> None)
    \<and> value_at p lines' = (if p = path \<and> ok then Some (strip (format_yaml_scalar g str_of v)) else value_at p lines)
    \<and> (i < length lines \<longrightarrow> lines' ! i \<noteq> lines ! i \<longrightarrow> path_line ?vs 0 None path = Some i)" for p i
  proof (cases "path_line ?vs 0 None path")
    case None
    then show ?thesis using assms(1) by (auto simp: replace_yaml_scalar_line_def value_at_def)
  next
    case (Some n)
    have out: "ok" "lines' = lines[n := new_line g str_of (lines ! n) v]" using assms(1) Some by (simp_all add: replace_yaml_scalar_line_def)
    have n: "n < length lines" "\<exists>x. key_view (lines ! n) = Some x" using path_sound [OF Some] by auto
    obtain ws key where k: "keyed ws key (lines ! n)" using keyed_exists n(2) by metis
    have "key_view (new_line g str_of (lines ! n) v) = key_view (lines ! n)" using key_view_new n(2) by metis
    then have same: "map key_view lines' = ?vs" using n(1) out(2) by (simp add: map_update list_update_same_conv)
    have said: "scalar_text (lines' ! n) = strip (format_yaml_scalar g str_of v)"
      using scalar_text_new [OF k assms(2)] out(2) n(1) by simp
    have "value_at p lines' = (if p = path then Some (strip (format_yaml_scalar g str_of v)) else value_at p lines)"
    proof (cases "path_line ?vs 0 None p")
      case None
      then show ?thesis using Some by (auto simp: value_at_def same)
    next
      case (Some j)
      have "p = path" if "j = n" using path_inj [OF Some] \<open>path_line ?vs 0 None path = Some n\<close> that by auto
      moreover have "lines' ! j = lines ! j" if "j \<noteq> n" using that by (simp add: out(2))
      ultimately show ?thesis unfolding value_at_def same Some using said \<open>path_line ?vs 0 None path = Some n\<close> Some by (cases "j = n") auto
    qed
    moreover have "value_at path lines \<noteq> None" using Some by (simp add: value_at_def)
    moreover have "n = i" if "lines' ! i \<noteq> lines ! i" using that by (metis nth_list_update_neq out(2))
    ultimately show ?thesis using out(1) Some same by auto
  qed
  show "map key_view lines' = ?vs" "ok \<longleftrightarrow> value_at path lines \<noteq> None"
    "value_at p lines' = (if p = path \<and> ok then Some (strip (format_yaml_scalar g str_of v)) else value_at p lines)"
    "i < length lines \<Longrightarrow> lines' ! i \<noteq> lines ! i \<Longrightarrow> path_line ?vs 0 None path = Some i"
    using all by blast+
qed

text \<open>C26: what is written reads back. Patching the file with a list of leaves gives, at every path the file has, the value
  written last for it, and the old one where none was; the keys and the indentation of every line stay, no other line is
  touched; a path the file does not have is not added, and the file counts as changed exactly when some path was found.\<close>
theorem patch_reads_back:
  assumes "patch_limit_policy_yaml g str_of wr lines = (changed, lines')"
    and "\<forall>(p, v)\<in>set wr. CHR ''#'' \<notin> set (format_yaml_scalar g str_of v)"
  shows "value_at p lines' = (case value_at p lines of None \<Rightarrow> None | Some old \<Rightarrow>
      Some (case map_of (rev wr) p of None \<Rightarrow> old | Some v \<Rightarrow> strip (format_yaml_scalar g str_of v)))
    \<and> map key_view lines' = map key_view lines \<and> (changed \<longleftrightarrow> (\<exists>q\<in>fst ` set wr. value_at q lines \<noteq> None))
    \<and> (\<forall>i<length lines. lines' ! i \<noteq> lines ! i \<longrightarrow> (\<exists>q\<in>fst ` set wr. path_line (map key_view lines) 0 None q = Some i))"
  using assms
proof (induction wr arbitrary: lines changed)
  case Nil
  then show ?case by (simp split: option.split)
next
  case (Cons x wr)
  obtain path v where x: "x = (path, v)" by fastforce
  obtain ok lines1 where r: "replace_yaml_scalar_line g str_of lines path v = (ok, lines1)" by fastforce
  obtain ch where t: "patch_limit_policy_yaml g str_of wr lines1 = (ch, lines')" "changed = (ok \<or> ch)"
    using Cons.prems(1) x r by (auto split: prod.splits)
  have nohash: "CHR ''#'' \<notin> set (format_yaml_scalar g str_of v)" using Cons.prems(2) x by auto
  note law = replace_line_law [OF r nohash]
  have "\<forall>(p, v)\<in>set wr. CHR ''#'' \<notin> set (format_yaml_scalar g str_of v)" using Cons.prems(2) by auto
  note ih = Cons.IH [OF t(1) this]
  have some: "value_at q lines1 = None \<longleftrightarrow> value_at q lines = None" for q using law(2,3) by auto
  have len: "length lines1 = length lines" using law(1) by (metis length_map)
  have v: "value_at p lines' = (case value_at p lines of None \<Rightarrow> None | Some old \<Rightarrow>
      Some (case map_of (rev (x # wr)) p of None \<Rightarrow> old | Some v \<Rightarrow> strip (format_yaml_scalar g str_of v)))"
    using ih law(2) law(3) [of p] x by (auto simp: map_add_def split: option.splits if_splits)
  have c: "changed \<longleftrightarrow> (\<exists>q\<in>fst ` set (x # wr). value_at q lines \<noteq> None)" using ih t(2) law(2) some x by auto
  have d: "\<exists>q\<in>fst ` set (x # wr). path_line (map key_view lines) 0 None q = Some i" if i: "i < length lines" "lines' ! i \<noteq> lines ! i" for i
  proof (cases "lines1 ! i = lines ! i")
    case True
    then have "\<exists>q\<in>fst ` set wr. path_line (map key_view lines1) 0 None q = Some i" using ih i len by auto
    then show ?thesis using law(1) by auto
  next
    case False
    then show ?thesis using law(4) [OF i(1)] x by auto
  qed
  show ?case using v c d ih law(1) by simp
qed

subsection \<open>A list in its file\<close>

lemma first_index_Some:
  "first_index P xs = Some n \<longleftrightarrow> n < length xs \<and> P (xs ! n) \<and> (\<forall>i<n. \<not> P (xs ! i))"
proof -
  let ?n = "length (takeWhile (\<lambda>x. \<not> P x) xs)"
  have before: "\<not> P (xs ! i)" if "i < ?n" for i
    using that nth_mem [OF that] set_takeWhileD takeWhile_nth [OF that] by metis
  have at: "P (xs ! ?n)" if "?n < length xs" using that nth_length_takeWhile [of "\<lambda>x. \<not> P x" xs] by simp
  show ?thesis
  proof
    assume "first_index P xs = Some n"
    then have "?n < length xs" "n = ?n" by (simp_all add: first_index_def Let_def split: if_splits)
    then show "n < length xs \<and> P (xs ! n) \<and> (\<forall>i<n. \<not> P (xs ! i))" using before at by simp
  next
    assume n: "n < length xs \<and> P (xs ! n) \<and> (\<forall>i<n. \<not> P (xs ! i))"
    have "?n = n"
    proof (rule linorder_cases [of ?n n])
      assume "?n < n"
      then show ?thesis using n at by auto
    qed (use n before in auto)
    then show "first_index P xs = Some n" using n by (simp add: first_index_def)
  qed
qed

lemma first_index_None: "first_index P xs = None \<longleftrightarrow> (\<forall>x\<in>set xs. \<not> P x)"
  by (induction xs) (auto simp: first_index_def Let_def split: if_splits)

lemma first_index_app:
  "\<forall>x\<in>set xs. \<not> P x \<Longrightarrow> first_index P (xs @ ys) = map_option ((+) (length xs)) (first_index P ys)"
  by (simp add: first_index_def Let_def takeWhile_append2)

lemma block_end_cases:
  assumes "h < length lines"
  obtains (last) "find_block_end lines h = length lines" "\<forall>x\<in>set (drop (h + 1) lines). \<not> ends_block x"
  | (later) i where "find_block_end lines h = h + 1 + i" "h + 1 + i < length lines" "ends_block (lines ! (h + 1 + i))"
      "\<forall>x\<in>set (take i (drop (h + 1) lines)). \<not> ends_block x"
proof (cases "first_index ends_block (drop (h + 1) lines)")
  case None
  show thesis
  proof (rule that(1))
    show "find_block_end lines h = length lines" unfolding find_block_end_def None option.case ..
    show "\<forall>x\<in>set (drop (h + 1) lines). \<not> ends_block x" using None unfolding first_index_None .
  qed
next
  case (Some i)
  have i: "i < length lines - (h + 1)" "ends_block (drop (h + 1) lines ! i)" "\<forall>j<i. \<not> ends_block (drop (h + 1) lines ! j)"
    using Some unfolding first_index_Some by simp_all
  show thesis
  proof (rule that(2))
    show "find_block_end lines h = h + 1 + i" unfolding find_block_end_def Some option.case ..
    show "h + 1 + i < length lines" "ends_block (lines ! (h + 1 + i))" using i assms by simp_all
    show "\<forall>x\<in>set (take i (drop (h + 1) lines)). \<not> ends_block x" using i(3) by (auto simp: in_set_conv_nth)
  qed
qed

lemma block_end_law:
  assumes "h < length lines"
  shows "h + 1 \<le> find_block_end lines h" "find_block_end lines h \<le> length lines"
    "drop (find_block_end lines h) lines = [] \<or> ends_block (hd (drop (find_block_end lines h) lines))"
    "\<forall>x\<in>set (take (find_block_end lines h - (h + 1)) (drop (h + 1) lines)). \<not> ends_block x"
  using assms by (cases rule: block_end_cases; use assms in \<open>simp add: hd_drop_conv_nth\<close>)+

lemma detect_positive:
  assumes "\<forall>x\<in>set ls. \<not> ends_block x" "detect_indent ls = (dash, sub)"
  shows "0 < dash \<and> dash < sub"
  using assms
proof (induction ls)
  case (Cons l ls)
  let ?s = "lstrip_blank l"
  show ?case
  proof (cases "startswith ?s ''- ''")
    case False
    then show ?thesis using Cons by simp
  next
    case True
    then have d: "dash = length l - length ?s" "sub = (case sub_indent_of dash ls of Some n \<Rightarrow> n | None \<Rightarrow> dash + 2)"
      using Cons.prems(2) by (auto simp: Let_def)
    have "0 < dash"
    proof (rule ccontr)
      assume "\<not> 0 < dash"
      then have "length l \<le> length ?s" using d(1) by simp
      moreover have "takeWhile (\<lambda>c. c = CHR '' '' \<or> c = CHR 0x09) l @ ?s = l" by (simp add: lstrip_blank_def)
      ultimately have "?s = l" by (metis append_eq_append_conv append_Nil le_antisym length_append le_add2)
      then obtain t where l: "l = CHR ''-'' # CHR '' '' # t" using True by (auto simp: startswith_prefix prefix_def)
      have "ends_block l" by (simp add: l ends_block_def blank_def is_comment_def strip_def lstrip_def is_space_def startswith_def)
      then show False using Cons.prems(1) by simp
    qed
    moreover have "dash < n" if "sub_indent_of dash ls = Some n" for n
      using that by (induction ls) (auto simp: Let_def split: if_splits)
    ultimately show ?thesis using d(2) by (auto split: option.splits)
  qed
qed simp

lemma indented_stays: "0 < n \<Longrightarrow> \<not> ends_block (replicate n CHR '' '' @ x)"
  by (cases n) (simp_all add: ends_block_def)

lemma rendered_stays: "0 < dash \<Longrightarrow> dash < sub \<Longrightarrow> x \<in> set (render_list_item show_real v dash sub) \<Longrightarrow> \<not> ends_block x"
  by (cases v rule: pyval.exhaust; auto simp: render_list_item_def indented_stays split: list.splits)

lemma header_heads: "heads sect (header_line sect entries (header_comment line))"
  by (auto simp: heads_def header_line_def startswith_def header_comment_def newline_def split: prod.splits)

text \<open>a rewritten list owns its block and nothing else. Everything before the section and everything from the end of its
  block on stays, line for line; the section is found at the same line again and its block ends where the rest begins, so
  a later rewrite replaces just what this one wrote; and the list in memory is the one written.\<close>
theorem list_rewrite_owns_block:
  assumes s: "set_list_section show_real sect entries (cfg, lines) = (True, cfg', lines')" and h: "find_top_level_key lines sect = Some h"
  shows "take h lines' = take h lines \<and> find_top_level_key lines' sect = Some h
    \<and> drop (find_block_end lines' h) lines' = drop (find_block_end lines h) lines \<and> map_of cfg' sect = Some (PList entries)"
proof -
  let ?e = "find_block_end lines h"
  obtain dash sub where i: "detect_list_item_indent lines h ?e = (dash, sub)" by fastforce
  let ?R = "concat (map (\<lambda>x. render_list_item show_real x dash sub) entries)"
  let ?H = "header_line sect entries (header_comment (lines ! h))"
  have out: "lines' = take h lines @ ?H # ?R @ drop ?e lines" "cfg' = AList.update sect (PList entries) cfg"
    using s by (auto simp: set_list_section_def rewrite_list_def h i Let_def split: if_splits)
  have hl: "h < length lines" "\<forall>j<h. \<not> heads sect (lines ! j)" using h by (simp_all add: find_top_level_key_def first_index_Some)
  note be = block_end_law [OF hl(1)]
  have pos: "0 < dash \<and> dash < sub" using detect_positive [OF be(4)] i by (simp add: detect_list_item_indent_def)
  have R: "\<forall>x\<in>set ?R. \<not> ends_block x" using rendered_stays pos by auto
  have top: "find_top_level_key lines' sect = Some h"
    unfolding find_top_level_key_def first_index_Some using hl header_heads by (auto simp: out(1) nth_append)
  have rest: "first_index ends_block (drop ?e lines) = (if drop ?e lines = [] then None else Some 0)"
    using be(3) by (cases "drop ?e lines") (simp_all add: first_index_def)
  have tail: "drop (h + 1) lines' = ?R @ drop ?e lines" using hl(1) by (simp add: out(1))
  have "find_block_end lines' h = h + 1 + length ?R"
  proof (cases "drop ?e lines = []")
    case True
    then have "first_index ends_block (drop (h + 1) lines') = None" unfolding tail first_index_app [OF R] rest by simp
    then show ?thesis unfolding find_block_end_def [of lines' h] using hl(1) True by (simp add: out(1))
  next
    case False
    then have "first_index ends_block (drop (h + 1) lines') = Some (length ?R)" unfolding tail first_index_app [OF R] rest by simp
    then show ?thesis unfolding find_block_end_def [of lines' h] by simp
  qed
  then have "drop (find_block_end lines' h) lines' = drop ?e lines" using hl(1) by (simp add: out(1))
  then show ?thesis using top hl(1) by (simp add: out update_conv)
qed

subsection \<open>Concrete files\<close>

definition plain_real :: "real \<Rightarrow> string" where "plain_real x = (if x = 1/2 then ''0.5'' else ''1'')"
definition plain_str :: "pyval \<Rightarrow> string" where "plain_str v = (case v of PStr s \<Rightarrow> s | _ \<Rightarrow> ''None'')"

definition small_file :: "string list" where
  "small_file = [''a:'' @ [newline], ''  x: 1  # why'' @ [newline], ''b:'' @ [newline], ''  # note'' @ [newline], ''  - 7'' @ [newline], ''c: 2'' @ [newline]]"

lemma small_views: "map key_view small_file = [Some (0, ''a''), Some (2, ''x''), Some (0, ''b''), None, None, Some (0, ''c'')]"
  by (simp add: small_file_def key_view_def key_char_def is_space_def newline_def strip_def)

theorem patch_reads_back_witness:
  "\<exists>lines'. patch_limit_policy_yaml plain_real plain_str [([''a'', ''x''], PFloat (1/2)), ([''a'', ''gone''], PBool True)] small_file = (True, lines')
     \<and> value_at [''a'', ''x''] lines' = Some ''0.5'' \<and> value_at [''c''] lines' = value_at [''c''] small_file"
proof -
  let ?wr = "[([''a'', ''x''], PFloat (1/2)), ([''a'', ''gone''], PBool True)]"
  obtain ch lines' where p: "patch_limit_policy_yaml plain_real plain_str ?wr small_file = (ch, lines')" by fastforce
  have ok: "\<forall>(p, v)\<in>set ?wr. CHR ''#'' \<notin> set (format_yaml_scalar plain_real plain_str v)"
    by (auto simp: plain_real_def)
  have at: "value_at [''a'', ''x''] small_file \<noteq> None" by (simp add: value_at_def small_views)
  note law = patch_reads_back [OF p ok]
  have "value_at [''a'', ''x''] lines' = Some ''0.5''"
    using law [of "[''a'', ''x'']"] at by (auto simp: plain_real_def strip_def is_space_def split: option.splits)
  moreover have "value_at [''c''] lines' = value_at [''c''] small_file" using law [of "[''c'']"] by (auto split: option.splits)
  moreover have ch using law [of "[''a'', ''x'']"] at by auto
  ultimately show ?thesis using p by auto
qed

theorem list_rewrite_owns_block_witness:
  "\<exists>cfg' lines'. set_list_section plain_real ''b'' [PInt 9] ([(''b'', PList [PInt 7])], small_file) = (True, cfg', lines')
     \<and> take 2 lines' = take 2 small_file \<and> find_top_level_key lines' ''b'' = Some 2"
proof -
  have h: "find_top_level_key small_file ''b'' = Some 2"
    by (simp add: find_top_level_key_def first_index_def small_file_def heads_def startswith_def newline_def)
  obtain ok cfg' lines' where s: "set_list_section plain_real ''b'' [PInt 9] ([(''b'', PList [PInt 7])], small_file) = (ok, cfg', lines')"
    by (metis surj_pair)
  have ok by (use s in \<open>simp add: set_list_section_def value_or_none_def split: if_splits\<close>)
  with s list_rewrite_owns_block [OF _ h] show ?thesis by fastforce
qed

subsection \<open>Where the file and the memory part\<close>

text \<open>A setting that the file does not name takes effect and is not saved.\<close>

lemma unnamed_setting_unsaved:
  "update_config_section parse plain_str ''a'' [(''y'', PInt 3)] [(''a'', PDict [(''x'', PInt 1)])]
     = (True, [([''a'', ''y''], PInt 3)], [(''a'', PDict [(''x'', PInt 1), (''y'', PInt 3)])])
   \<and> patch_limit_policy_yaml plain_real plain_str [([''a'', ''y''], PInt 3)] small_file = (False, small_file)"
  by (simp add: update_config_section_def value_or_none_def dict_of_def replace_yaml_scalar_line_def small_views)

text \<open>Rewriting a list drops the comments of its block.\<close>

lemma list_rewrite_drops_comments:
  "\<exists>cfg' lines'. set_list_section plain_real ''b'' [PInt 9] ([(''b'', PList [PInt 7])], small_file) = (True, cfg', lines')
     \<and> ''  # note'' @ [newline] \<notin> set lines'"
proof -
  have h: "find_top_level_key small_file ''b'' = Some 2"
    by (simp add: find_top_level_key_def first_index_def small_file_def heads_def startswith_def newline_def)
  have e: "find_block_end small_file 2 = 5"
    by (simp add: find_block_end_def first_index_def small_file_def ends_block_def blank_def is_comment_def strip_def lstrip_def is_space_def
        startswith_def newline_def)
  have d: "detect_list_item_indent small_file 2 5 = (2, 4)"
    by (simp add: detect_list_item_indent_def small_file_def lstrip_blank_def startswith_def)
  show ?thesis
    by (simp add: set_list_section_def value_or_none_def rewrite_list_def h e d)
       (simp add: small_file_def render_list_item_def header_line_def newline_def numeral_2_eq_2)
qed

end
