(* ===== verification/Settings_Check.thy ===== *)
theory Settings_Check
  imports Config_Store Disk_Pressure
begin

text \<open>
  The checks that the settings API makes on a request body before it changes anything, from \<open>monitor/monitor_api.py\<close>:
  the \<open>_validate_*_config\<close> functions. Each takes the attributes of \<open>Config\<close> and the body and returns the updates to
  make, or the error that the handler answers with; the texts of the errors are left out. The infinities and NaN, that
  the JSON reader of Python would accept, are no values of the model.
\<close>

record py_text =
  tx_float :: "string \<Rightarrow> real option"  \<comment> \<open>\<open>float(s)\<close>\<close>
  tx_str :: "pyval \<Rightarrow> string"  \<comment> \<open>\<open>str(v)\<close>\<close>
  tx_general :: "real \<Rightarrow> string"  \<comment> \<open>\<open>f"{x:g}"\<close>\<close>
  tx_plain :: "real \<Rightarrow> string"  \<comment> \<open>\<open>f"{x}"\<close>\<close>

subsection \<open>Fields\<close>

definition number_in :: "py_text \<Rightarrow> (real \<Rightarrow> bool) \<Rightarrow> pyval \<Rightarrow> py_error + pyval" where
  "number_in tx ok v = bindE (float_of (tx_float tx) v) (\<lambda>x. if ok x then Inr (PFloat x) else Inl ValueError)"

definition whole_in :: "(int \<Rightarrow> bool) \<Rightarrow> pyval \<Rightarrow> py_error + pyval" where
  "whole_in ok v = bindE (int_of_val v) (\<lambda>i. if ok i then Inr (PInt i) else Inl ValueError)"

definition count_in :: "py_text \<Rightarrow> pyval \<Rightarrow> py_error + pyval" where
  \<comment> \<open>\<open>int(float(v))\<close>, at least 1\<close>
  "count_in tx v = bindE (float_of (tx_float tx) v) (\<lambda>x. if py_trunc x < 1 then Inl ValueError else Inr (PInt (py_trunc x)))"

fun field_loop :: "(string \<Rightarrow> pyval \<Rightarrow> py_error + pyval) \<Rightarrow> string list \<Rightarrow> pydict \<Rightarrow> py_error + pydict" where
  \<comment> \<open>the fields of a fixed list that the body gives a value\<close>
  "field_loop f [] body = Inr []"
| "field_loop f (k # ks) body =
     (if value_or_none body k = PNone then field_loop f ks body
      else bindE (f k (value_or_none body k)) (\<lambda>w. bindE (field_loop f ks body) (\<lambda>r. Inr ((k, w) # r))))"

fun table_loop :: "(string \<Rightarrow> pydict \<Rightarrow> py_error + pydict) \<Rightarrow> string list \<Rightarrow> pydict \<Rightarrow> py_error + pydict" where
  \<comment> \<open>the same for entries that are tables; what is no dict is passed over, and so is a table without a valid field\<close>
  "table_loop f [] body = Inr []"
| "table_loop f (k # ks) body =
     (case value_or_none body k of
        PDict d \<Rightarrow> bindE (f k d) (\<lambda>t. bindE (table_loop f ks body) (\<lambda>r. Inr (if t = [] then r else (k, PDict t) # r)))
      | _ \<Rightarrow> table_loop f ks body)"

fun gather :: "(py_error + pydict) list \<Rightarrow> py_error + pydict" where
  "gather [] = Inr []"
| "gather (x # xs) = bindE x (\<lambda>a. bindE (gather xs) (\<lambda>b. Inr (a @ b)))"

definition part :: "string \<Rightarrow> pydict \<Rightarrow> pydict" where
  "part k d = (if d = [] then [] else [(k, PDict d)])"

definition in_dict :: "pydict \<Rightarrow> string \<Rightarrow> (pydict \<Rightarrow> py_error + pydict) \<Rightarrow> py_error + pydict" where
  "in_dict body k f = (case value_or_none body k of PDict d \<Rightarrow> f d | _ \<Rightarrow> Inr [])"

definition switch :: "string \<Rightarrow> pydict \<Rightarrow> pydict" where
  \<comment> \<open>\<open>if k in body: updates[k] = bool(body[k])\<close>\<close>
  "switch k body = (case map_of body k of None \<Rightarrow> [] | Some v \<Rightarrow> [(k, PBool (truthy v))])"

definition some_update :: "py_error + pydict \<Rightarrow> py_error + pydict" where
  "some_update m = bindE m (\<lambda>u. if u = [] then Inl ValueError else Inr u)"

definition section_dict :: "pydict \<Rightarrow> string \<Rightarrow> py_error + pydict" where
  \<comment> \<open>\<open>**(cfg.k or {})\<close>\<close>
  "section_dict cfg k = (case value_or_none cfg k of PDict d \<Rightarrow> Inr d | v \<Rightarrow> if truthy v then Inl TypeError else Inr [])"

definition merge_dict :: "pydict \<Rightarrow> pydict \<Rightarrow> pydict" where
  "merge_dict d u = foldl (\<lambda>d (k, v). AList.update k v d) d u"

subsection \<open>Levels in order\<close>

definition threshold_keys :: "string list" where
  "threshold_keys = [''low'', ''medium'', ''high'', ''critical'']"

definition level_values :: "pydict \<Rightarrow> pyval list" where
  "level_values d = filter (\<lambda>v. v \<noteq> PNone) (map (value_or_none d) threshold_keys)"

definition in_order :: "pyval list \<Rightarrow> py_error + bool" where
  \<comment> \<open>\<open>vs == sorted(vs)\<close>; sorting compares every value with a neighbour, so numbers mixed with others raise, and tables do\<close>
  "in_order vs =
     (if length vs \<le> 1 then Inr True
      else if list_all (\<lambda>v. as_number v \<noteq> None) vs then Inr (sorted (map (\<lambda>v. the (as_number v)) vs))
      else Inl TypeError)"

definition unit_value :: "real \<Rightarrow> bool" where "unit_value x \<longleftrightarrow> 0 < x \<and> x \<le> 1"
definition ratio_value :: "real \<Rightarrow> bool" where "ratio_value x \<longleftrightarrow> 0 \<le> x \<and> x \<le> 1"

definition level_fields :: "py_text \<Rightarrow> pydict \<Rightarrow> py_error + pydict" where
  "level_fields tx th_body = field_loop (\<lambda>k. number_in tx unit_value) threshold_keys th_body"

definition levels_part :: "py_text \<Rightarrow> pydict \<Rightarrow> string \<Rightarrow> pydict \<Rightarrow> py_error + pydict" where
  "levels_part tx cfg sect th_body =
     bindE (level_fields tx th_body) (\<lambda>th.
       if th = [] then Inr []
       else bindE (section_dict cfg sect) (\<lambda>old.
            bindE (in_order (level_values (merge_dict old th))) (\<lambda>ok. if ok then Inr [(sect, PDict th)] else Inl ValueError)))"

subsection \<open>System and disk pressure\<close>

definition scalar_field :: "py_text \<Rightarrow> real \<Rightarrow> real \<Rightarrow> pydict \<Rightarrow> string \<Rightarrow> py_error + pydict" where
  "scalar_field tx lo hi body k = field_loop (\<lambda>k. number_in tx (\<lambda>x. lo \<le> x \<and> x \<le> hi)) [k] body"

definition psi_weight_keys :: "string list" where "psi_weight_keys = [''cpu'', ''memory'', ''io'']"

definition validate_system_pressure_config :: "py_text \<Rightarrow> pydict \<Rightarrow> pydict \<Rightarrow> py_error + pydict" where
  "validate_system_pressure_config tx cfg body = some_update (gather
     [scalar_field tx 1 3600 body ''regular_update_sys_pressure_time'',
      in_dict body ''thresholds'' (levels_part tx cfg ''thresholds''),
      in_dict body ''weights'' (\<lambda>w. bindE (field_loop (\<lambda>k. whole_in (\<lambda>i. 0 \<le> i)) psi_weight_keys w) (\<lambda>r. Inr (part ''weights'' r))),
      scalar_field tx 1 50 body ''mem_gate_steepness'',
      scalar_field tx 0 100 body ''memory_busy_threshold'',
      scalar_field tx 0 100 body ''cpu_busy_threshold''])"

definition disk_sub_weight_keys :: "string list" where "disk_sub_weight_keys = [''latency'', ''queue'', ''util'']"

definition current_sub_weights :: "pydict \<Rightarrow> pydict" where
  "current_sub_weights cfg =
     (let m = disk_model_of (value_or_none cfg ''disk_pressure_model'')
      in [(''latency'', PFloat (dm_w_latency m)), (''queue'', PFloat (dm_w_queue m)), (''util'', PFloat (dm_w_util m))])"

definition total_of :: "pydict \<Rightarrow> real" where
  \<comment> \<open>\<open>sum(d.values())\<close> of a dict of numbers\<close>
  "total_of d = sum_list (map (\<lambda>(k, v). num_or v 0) d)"

definition sub_weights_part :: "py_text \<Rightarrow> pydict \<Rightarrow> pydict \<Rightarrow> py_error + pydict" where
  "sub_weights_part tx cfg sw_body =
     bindE (field_loop (\<lambda>k. number_in tx ratio_value) disk_sub_weight_keys sw_body) (\<lambda>sw.
       if sw \<noteq> [] \<and> total_of (merge_dict (current_sub_weights cfg) sw) > 1 + 1 / 10 ^ 9 then Inl ValueError
       else Inr (part ''sub_weights'' sw))"

definition validate_disk_pressure_config :: "py_text \<Rightarrow> pydict \<Rightarrow> pydict \<Rightarrow> py_error + pydict" where
  "validate_disk_pressure_config tx cfg body = some_update (gather
     [in_dict body ''disk_thresholds'' (levels_part tx cfg ''disk_thresholds''),
      in_dict body ''disk_pressure_model'' (\<lambda>mb.
        bindE (gather [in_dict mb ''sub_weights'' (sub_weights_part tx cfg),
                       scalar_field tx 1 50 mb ''sigmoid_k'',
                       scalar_field tx 0 1 mb ''max_p_weight''])
          (\<lambda>m. Inr (part ''disk_pressure_model'' m)))])"

subsection \<open>Network pressure\<close>

definition needs_dict :: "pydict \<Rightarrow> string \<Rightarrow> (pydict \<Rightarrow> py_error + pydict) \<Rightarrow> py_error + pydict" where
  \<comment> \<open>a key that is there has to be an object\<close>
  "needs_dict body k f = (case map_of body k of None \<Rightarrow> Inr [] | Some (PDict d) \<Rightarrow> f d | Some _ \<Rightarrow> Inl ValueError)"

definition network_levels :: "py_text \<Rightarrow> pydict \<Rightarrow> pydict \<Rightarrow> py_error + pydict" where
  \<comment> \<open>here all four levels have to be known, and an empty table is an update\<close>
  "network_levels tx cfg th_body =
     bindE (level_fields tx th_body) (\<lambda>th.
     bindE (section_dict cfg ''network_thresholds'') (\<lambda>old.
       let vs = level_values (merge_dict old th) in
       if length vs \<noteq> length threshold_keys then Inl ValueError
       else bindE (in_order vs) (\<lambda>ok. if ok then Inr [(''network_thresholds'', PDict th)] else Inl ValueError)))"

definition validate_network_pressure_config :: "py_text \<Rightarrow> pydict \<Rightarrow> pydict \<Rightarrow> py_error + pydict" where
  "validate_network_pressure_config tx cfg body = some_update (gather
     [needs_dict body ''network_thresholds'' (network_levels tx cfg),
      needs_dict body ''network_pressure_model'' (\<lambda>mb.
        bindE (scalar_field tx 0 1 mb ''rx_drop_weight'') (\<lambda>m. Inr (part ''network_pressure_model'' m)))])"

subsection \<open>The limit policy\<close>

definition limit_priorities :: "string list" where "limit_priorities = [''high'', ''medium'', ''low'', ''undefined'']"
definition disk_rate_fields :: "string list" where "disk_rate_fields = [''write'', ''read'', ''write_iops'', ''read_iops'']"
definition disk_media_classes :: "string list" where
  "disk_media_classes = [''hdd'', ''sata_ssd'', ''nvme'', ''usb'', ''mmc'', ''unknown'']"

definition policy_mode :: "py_text \<Rightarrow> pydict \<Rightarrow> py_error + pydict" where
  "policy_mode tx body =
     (case map_of body ''policy'' of
        None \<Rightarrow> Inr []
      | Some v \<Rightarrow> (let p = lower (strip (tx_str tx v)) in if p = ''separated'' then Inr [(''policy'', PStr p)] else Inl ValueError))"

definition resource_part :: "py_text \<Rightarrow> pydict \<Rightarrow> string \<Rightarrow> py_error + pydict" where
  "resource_part tx body res = in_dict body res (\<lambda>rb.
     bindE (gather
       [Inr (switch ''enabled'' rb),
        in_dict rb ''rate'' (\<lambda>rates. bindE (field_loop (\<lambda>k. number_in tx unit_value) limit_priorities rates) (\<lambda>r. Inr (part ''rate'' r)))])
     (\<lambda>u. Inr (part res u)))"

definition disk_part :: "py_text \<Rightarrow> pydict \<Rightarrow> py_error + pydict" where
  "disk_part tx body = in_dict body ''disk_io'' (\<lambda>db.
     bindE (gather
       [Inr (switch ''enabled'' db),
        in_dict db ''rate'' (\<lambda>rates.
          bindE (table_loop (\<lambda>pri. field_loop (\<lambda>k. count_in tx) disk_rate_fields) limit_priorities rates) (\<lambda>r. Inr (part ''rate'' r))),
        in_dict db ''media_scale'' (\<lambda>sc.
          bindE (field_loop (\<lambda>k. number_in tx unit_value) disk_media_classes sc) (\<lambda>r. Inr (part ''media_scale'' r))),
        in_dict db ''candidate_floor'' (\<lambda>fl.
          bindE (table_loop (\<lambda>media. field_loop (\<lambda>k. number_in tx (\<lambda>x. \<not> x \<le> 0)) [''mb_s'', ''iops'']) disk_media_classes fl)
            (\<lambda>r. Inr (part ''candidate_floor'' r)))])
     (\<lambda>u. Inr (part ''disk_io'' u)))"

definition validate_limit_policy_config :: "py_text \<Rightarrow> pydict \<Rightarrow> py_error + pydict" where
  "validate_limit_policy_config tx body = some_update (gather
     [policy_mode tx body, resource_part tx body ''cpu'', resource_part tx body ''memory'', disk_part tx body])"

subsection \<open>Network control\<close>

definition network_priorities :: "string list" where "network_priorities = [''system'', ''critical'', ''high'', ''low'']"

definition default_pps_settings :: pydict where
  "default_pps_settings = [(''app_pps_high'', PInt 50000), (''pps_cap_rate'', PInt 10000), (''pps_cap_burst'', PInt 2000)]"

definition exceeds :: "pyval \<Rightarrow> pyval \<Rightarrow> py_error + bool" where
  \<comment> \<open>\<open>a > b\<close> on numbers\<close>
  "exceeds a b =
     (case (as_number a, as_number b) of (Some x, Some y) \<Rightarrow> Inr (x > y) | _ \<Rightarrow> Inl TypeError)"

definition pps_part :: "pydict \<Rightarrow> pydict \<Rightarrow> py_error + pydict" where
  "pps_part cfg body =
     (if value_or_none body ''network_pps_policy'' = PNone then Inr []
      else needs_dict body ''network_pps_policy'' (\<lambda>pb.
        bindE (field_loop (\<lambda>k. whole_in (\<lambda>i. 0 < i)) [''app_pps_high'', ''pps_cap_rate'', ''pps_cap_burst''] pb) (\<lambda>pu.
          if pu = [] then Inr []
          else (let m = merge_dict (merge_dict default_pps_settings (dict_of (map_of cfg ''network_pps_policy''))) pu in
                bindE (exceeds (value_or_none m ''pps_cap_rate'') (value_or_none m ''app_pps_high''))
                  (\<lambda>b. if b then Inl ValueError else Inr [(''network_pps_policy'', PDict pu)])))))"

definition nic_entry :: "string \<Rightarrow> pyval" where
  "nic_entry n = PDict [(''name'', PStr n), (''enabled'', PBool True)]"

definition first_of_each :: "'a list \<Rightarrow> 'a list" where
  \<comment> \<open>\<open>list(dict.fromkeys(xs))\<close>: the first of each\<close>
  "first_of_each xs = rev (remdups (rev xs))"

definition configured_nic :: "pyval \<Rightarrow> bool" where
  "configured_nic v =
     (case v of
        PDict d \<Rightarrow> truthy (case map_of d ''enabled'' of None \<Rightarrow> PBool True | Some e \<Rightarrow> e) \<and> truthy (value_or_none d ''name'')
      | _ \<Rightarrow> False)"

definition nics_part :: "py_text \<Rightarrow> string list \<Rightarrow> pydict \<Rightarrow> pydict \<Rightarrow> py_error + pydict" where
  \<comment> \<open>\<open>nics\<close> are the names of the valid interfaces of the machine\<close>
  "nics_part tx nics cfg body =
     (let given = map_of body ''enable_network_control'';
          enabling = (case given of Some v \<Rightarrow> truthy v | None \<Rightarrow> False);
          disabling = (case given of Some v \<Rightarrow> \<not> truthy v | None \<Rightarrow> False)
      in if disabling then Inr [(''network_interfaces'', PList [])]
         else case map_of body ''selected_network_interfaces'' of
           Some (PList sel) \<Rightarrow>
             (let names = first_of_each (map (tx_str tx) (filter truthy sel)) in
              if \<not> list_all (\<lambda>n. n \<in> set nics) names then Inl ValueError
              else if truthy (case given of Some v \<Rightarrow> v | None \<Rightarrow> value_or_none cfg ''enable_network_control'') \<and> names = []
              then Inl ValueError
              else Inr [(''network_interfaces'', PList (map nic_entry names))])
         | Some _ \<Rightarrow> Inl ValueError
         | None \<Rightarrow>
             if enabling
                \<and> \<not> (case map_of cfg ''network_interfaces'' of Some (PList xs) \<Rightarrow> list_ex configured_nic xs | _ \<Rightarrow> False)
             then (if nics = [] then Inl ValueError else Inr [(''network_interfaces'', PList (map nic_entry nics))])
             else Inr [])"

definition ratio_fields :: "py_text \<Rightarrow> pydict \<Rightarrow> py_error + pydict" where
  "ratio_fields tx pb = field_loop (\<lambda>k. number_in tx ratio_value) [''min'', ''max''] pb"

definition class_ratios :: "py_text \<Rightarrow> pydict \<Rightarrow> string \<Rightarrow> pydict \<Rightarrow> py_error + pydict" where
  "class_ratios tx cfg pri pb =
     bindE (ratio_fields tx pb) (\<lambda>pu.
       if pu = [] then Inr []
       else (let m = merge_dict (dict_of (map_of (dict_of (map_of cfg ''config_network_bw'')) pri)) pu in
             if value_or_none m ''min'' = PNone \<or> value_or_none m ''max'' = PNone then Inl ValueError
             else bindE (exceeds (value_or_none m ''min'') (value_or_none m ''max'')) (\<lambda>b. if b then Inl ValueError else Inr pu)))"

definition merged_ratios :: "pydict \<Rightarrow> pydict \<Rightarrow> (string \<times> pydict) list" where
  "merged_ratios old bu =
     map (\<lambda>pri. (pri, merge_dict (dict_of (map_of old pri)) (dict_of (map_of bu pri)))) network_priorities"

fun min_total :: "py_text \<Rightarrow> (string \<times> pydict) list \<Rightarrow> py_error + real" where
  "min_total tx [] = Inr 0"
| "min_total tx ((pri, m) # ms) =
     bindE (float_of (tx_float tx) (case map_of m ''min'' of None \<Rightarrow> PInt 0 | Some v \<Rightarrow> v)) (\<lambda>x.
     bindE (min_total tx ms) (\<lambda>s. Inr (x + s)))"

definition bandwidth_part :: "py_text \<Rightarrow> pydict \<Rightarrow> pydict \<Rightarrow> py_error + pydict" where
  "bandwidth_part tx cfg body = in_dict body ''config_network_bw'' (\<lambda>bb.
     if map_of bb ''system'' \<noteq> None then Inl ValueError
     else bindE (table_loop (class_ratios tx cfg) [''critical'', ''high'', ''low''] bb) (\<lambda>bu.
          if bu = [] then Inr []
          else bindE (min_total tx (merged_ratios (dict_of (map_of cfg ''config_network_bw'')) bu)) (\<lambda>total.
               if total > 1 + 1 / 10 ^ 9 then Inl ValueError else Inr [(''config_network_bw'', PDict bu)])))"

definition reserved_ports :: "pydict \<Rightarrow> py_error + pydict" where
  "reserved_ports body = (if map_of body ''network_system_ports'' = None then Inr [] else Inl ValueError)"

definition validate_network_control_config :: "py_text \<Rightarrow> string list \<Rightarrow> pydict \<Rightarrow> pydict \<Rightarrow> py_error + pydict" where
  "validate_network_control_config tx nics cfg body = some_update (gather
     [Inr (switch ''enable_network_control'' body),
      Inr (switch ''enable_network_pressure_shaping'' body),
      Inr (switch ''enable_app_pps_police'' body),
      pps_part cfg body, nics_part tx nics cfg body, bandwidth_part tx cfg body, reserved_ports body])"

subsection \<open>Diagnostics\<close>

fun event_switches :: "string list \<Rightarrow> pydict \<Rightarrow> py_error + pydict" where
  "event_switches allowed [] = Inr []"
| "event_switches allowed ((k, v) # body) =
     (if k = ''expected_updated_at'' then event_switches allowed body
      else if k \<notin> set allowed then Inl ValueError
      else case v of PBool b \<Rightarrow> bindE (event_switches allowed body) (\<lambda>r. Inr ((k, PBool b) # r)) | _ \<Rightarrow> Inl ValueError)"

definition validate_diagnostic_events_config :: "string list \<Rightarrow> pydict \<Rightarrow> py_error + pydict" where
  \<comment> \<open>\<open>allowed\<close> are the keys of \<open>event_catalog.defaults()\<close>\<close>
  "validate_diagnostic_events_config allowed body = some_update (event_switches allowed body)"

definition is_lower :: "char \<Rightarrow> bool" where
  "is_lower c \<longleftrightarrow> 97 \<le> (of_char c :: nat) \<and> (of_char c :: nat) \<le> 122"

definition named_by :: "string \<Rightarrow> string \<Rightarrow> bool" where
  \<comment> \<open>\<open>[a-z][a-z0-9 and the extra characters]{0,63}\<close> on the whole string\<close>
  "named_by extra s \<longleftrightarrow>
     (case s of
        [] \<Rightarrow> False
      | c # cs \<Rightarrow> is_lower c \<and> length cs \<le> 63 \<and> list_all (\<lambda>d. is_lower d \<or> is_digit d \<or> d \<in> set extra) cs)"

definition custom_rule_sources :: "string list" where "custom_rule_sources = [''journal'', ''smartune'']"
definition custom_rule_severities :: "string list" where "custom_rule_severities = [''info'', ''warning'', ''error'', ''critical'']"
definition custom_rule_domains :: "string list" where
  "custom_rule_domains = [''compute'', ''data-path'', ''services'', ''hardware'', ''platform'', ''other'']"
definition custom_rule_event_kinds :: "string list" where
  "custom_rule_event_kinds = [''pressure'', ''control'', ''hardware-fault'', ''lifecycle'', ''availability'',
     ''configuration'', ''observability'', ''status'']"
definition custom_rule_fatal_signatures :: "string list" where
  "custom_rule_fatal_signatures = [''oom'', ''kernel-panic'', ''gpu-hang'']"

definition one_of :: "string list \<Rightarrow> pyval \<Rightarrow> py_error + string" where
  \<comment> \<open>\<open>v in {...}\<close>; a list or a dict cannot be looked up\<close>
  "one_of xs v =
     (case v of
        PStr s \<Rightarrow> if s \<in> set xs then Inr s else Inl ValueError
      | PList _ \<Rightarrow> Inl TypeError | PDict _ \<Rightarrow> Inl TypeError | _ \<Rightarrow> Inl ValueError)"

definition text_where :: "(string \<Rightarrow> bool) \<Rightarrow> pyval \<Rightarrow> py_error + string" where
  "text_where ok v = (case v of PStr s \<Rightarrow> if ok s then Inr s else Inl ValueError | _ \<Rightarrow> Inl ValueError)"

fun each_of :: "string list \<Rightarrow> pyval list \<Rightarrow> py_error + string list" where
  "each_of xs [] = Inr []"
| "each_of xs (v # vs) = bindE (one_of xs v) (\<lambda>s. bindE (each_of xs vs) (\<lambda>r. Inr (s # r)))"

definition given_or :: "pydict \<Rightarrow> string \<Rightarrow> pyval \<Rightarrow> pyval" where
  "given_or d k v = (case map_of d k of None \<Rightarrow> v | Some x \<Rightarrow> x)"

definition signatures :: "pyval \<Rightarrow> py_error + string list" where
  "signatures v =
     (case v of
        PList vs \<Rightarrow> bindE (each_of custom_rule_fatal_signatures vs) (\<lambda>ss. if distinct ss then Inr ss else Inl ValueError)
      | _ \<Rightarrow> Inl ValueError)"

definition rule_service :: "pyval \<Rightarrow> py_error + pyval" where
  "rule_service v =
     (case v of
        PNone \<Rightarrow> Inr PNone
      | PStr s \<Rightarrow> if strip s = [] \<or> 128 < length s then Inl ValueError else Inr (PStr (strip s))
      | _ \<Rightarrow> Inl ValueError)"

definition check_rule :: "string list \<Rightarrow> pydict \<Rightarrow> py_error + (string \<times> pydict)" where
  "check_rule ids r =
     bindE (text_where (named_by ''-'') (value_or_none r ''id'')) (\<lambda>rid.
     if rid \<in> set ids then Inl ValueError else
     bindE (text_where (\<lambda>s. strip s \<noteq> [] \<and> length s \<le> 80) (value_or_none r ''name'')) (\<lambda>nm.
     bindE (one_of custom_rule_sources (value_or_none r ''source'')) (\<lambda>src.
     bindE (text_where (\<lambda>s. s \<noteq> [] \<and> length s \<le> 256) (value_or_none r ''message_pattern'')) (\<lambda>pat.
     bindE (one_of custom_rule_severities (value_or_none r ''severity'')) (\<lambda>sev.
     bindE (text_where (named_by ''._-'') (given_or r ''category'' (PStr ''service.custom''))) (\<lambda>cat.
     bindE (one_of custom_rule_domains (given_or r ''domain'' (PStr ''services''))) (\<lambda>dmn.
     bindE (one_of custom_rule_event_kinds (given_or r ''event_kind'' (PStr ''status''))) (\<lambda>knd.
     bindE (signatures (given_or r ''fatal_signatures'' (PList []))) (\<lambda>sigs.
     bindE (rule_service (value_or_none r ''service'')) (\<lambda>srv.
       (case map_of r ''enabled'' of
          Some (PBool b) \<Rightarrow>
            Inr (rid, [(''id'', PStr rid), (''name'', PStr (strip nm)), (''enabled'', PBool b), (''source'', PStr src),
              (''service'', srv), (''message_pattern'', PStr (strip pat)), (''severity'', PStr sev), (''category'', PStr cat),
              (''domain'', PStr dmn), (''event_kind'', PStr knd), (''fatal_signatures'', PList (map PStr sigs))])
        | _ \<Rightarrow> Inl ValueError)))))))))))"

fun check_rules :: "string list \<Rightarrow> pyval list \<Rightarrow> py_error + pyval list" where
  "check_rules ids [] = Inr []"
| "check_rules ids (v # vs) =
     (case v of
        PDict r \<Rightarrow> bindE (check_rule ids r) (\<lambda>(rid, out). bindE (check_rules (rid # ids) vs) (\<lambda>rs. Inr (PDict out # rs)))
      | _ \<Rightarrow> Inl ValueError)"

definition validate_diagnostic_rules_config :: "pydict \<Rightarrow> py_error + pydict" where
  "validate_diagnostic_rules_config body =
     (case value_or_none body ''rules'' of
        PList rules \<Rightarrow>
          if 32 < length rules then Inl ValueError
          else bindE (check_rules [] rules) (\<lambda>rs. Inr [(''rules'', PList rs)])
      | _ \<Rightarrow> Inl ValueError)"

end
