(* ===== verification/Settings_Api.thy ===== *)
theory Settings_Api
  imports Config_Yaml Settings_Check
begin

text \<open>
  The settings API of \<open>monitor/monitor_api.py\<close>: what a POST to \<open>/monitor/config/<section>\<close>, to the dedicated routes and
  to \<open>/monitor/history/retention\<close> does to the settings in memory, to \<open>config.yaml\<close> and to the file of the
  stamps, \<open>runtime_state.json\<close>. The check is optimistic: every section carries the time of its last save, and a client
  has to send the one it has seen. The clock, whether the file of the stamps can be written, the names of the network
  interfaces and the catalogue of diagnostic events are arguments. The payloads of the answers, log output, the start of
  background threads and the reload notice to the network monitor are left out; a write to \<open>config.yaml\<close> succeeds.
\<close>

record api_env =
  ae_text :: py_text
  ae_now :: int  \<comment> \<open>\<open>int(time.time())\<close>\<close>
  ae_writable :: bool  \<comment> \<open>\<open>_write_settings_file\<close> succeeds\<close>
  ae_nics :: "string list"
  ae_events :: "string list"

record api_state =
  as_cfg :: pydict
  as_yaml :: "string list"
  as_stamps :: pydict  \<comment> \<open>what \<open>_read_settings_file\<close> returns\<close>
  as_days :: "int option"  \<comment> \<open>\<open>_retention_days\<close>\<close>

datatype reply =
    Refused  \<comment> \<open>ARGUMENT_ERROR\<close>
  | Conflicted  \<comment> \<open>CONFLICT\<close>
  | Unsaved  \<comment> \<open>OPERATING_ERROR\<close>
  | Failed  \<comment> \<open>EXCEPTION_ERROR\<close>
  | Saved int  \<comment> \<open>with the new stamp\<close>

subsection \<open>Stamps\<close>

definition config_sections :: "string list" where
  "config_sections = [''weights_top'', ''retention'', ''passive_resource_control'', ''monitored_sections'', ''system_pressure'',
     ''disk_pressure'', ''network_pressure'', ''network_control'', ''limit_policy'', ''diagnostic_events'', ''diagnostic_rules'']"

definition config_ts_key :: "string \<Rightarrow> string option" where
  "config_ts_key sect = (if sect \<in> set config_sections then Some (sect @ ''_updated_at'') else None)"

definition stamp_in :: "pydict \<Rightarrow> string \<Rightarrow> int" where
  "stamp_in st key = (case int_of_val (given_or st key (PInt 0)) of Inl e \<Rightarrow> 0 | Inr i \<Rightarrow> i)"

definition get_config_updated_at :: "string \<Rightarrow> api_state \<Rightarrow> int" where
  "get_config_updated_at sect s = (case config_ts_key sect of None \<Rightarrow> 0 | Some k \<Rightarrow> stamp_in (as_stamps s) k)"

definition write_settings_file :: "api_env \<Rightarrow> pydict \<Rightarrow> api_state \<Rightarrow> api_state option" where
  "write_settings_file e u s = (if ae_writable e then Some (s\<lparr>as_stamps := merge_dict (as_stamps s) u\<rparr>) else None)"

definition bump_config_updated_at :: "api_env \<Rightarrow> string \<Rightarrow> api_state \<Rightarrow> (int \<times> api_state) option" where
  "bump_config_updated_at e sect s =
     (case config_ts_key sect of
        None \<Rightarrow> Some (0, s)
      | Some k \<Rightarrow> map_option (Pair (ae_now e)) (write_settings_file e [(k, PInt (ae_now e))] s))"

definition coerce_expected_ts :: "pyval \<Rightarrow> int option" where
  "coerce_expected_ts v = (if v = PNone then None else Some (case int_of_val v of Inl e \<Rightarrow> -1 | Inr i \<Rightarrow> i))"

definition check_against :: "int \<Rightarrow> pyval \<Rightarrow> reply option" where
  \<comment> \<open>the gate of every handler, on the stamp that counts\<close>
  "check_against current expected =
     (case coerce_expected_ts expected of
        None \<Rightarrow> if current \<noteq> 0 then Some Conflicted else None
      | Some t \<Rightarrow> if t = -1 then Some Refused else if t \<noteq> current then Some Conflicted else None)"

definition check_config_conflict :: "string \<Rightarrow> pyval \<Rightarrow> api_state \<Rightarrow> reply option" where
  "check_config_conflict sect expected s = check_against (get_config_updated_at sect s) expected"

subsection \<open>Writing the updates\<close>

definition persist :: "py_text \<Rightarrow> bool \<times> leaf_log \<times> pydict \<Rightarrow> api_state \<Rightarrow> api_state" where
  "persist tx r s =
     (case r of (changed, wr, cfg) \<Rightarrow>
        s\<lparr>as_cfg := cfg,
          as_yaml := (if changed then snd (patch_limit_policy_yaml (tx_general tx) (tx_str tx) wr (as_yaml s)) else as_yaml s)\<rparr>)"

definition persist_nested :: "py_text \<Rightarrow> bool option \<times> leaf_log \<times> pydict \<Rightarrow> api_state \<Rightarrow> bool \<times> api_state" where
  \<comment> \<open>False when the setter raised\<close>
  "persist_nested tx r s =
     (case r of (None, wr, cfg) \<Rightarrow> (False, s\<lparr>as_cfg := cfg\<rparr>) | (Some b, wr, cfg) \<Rightarrow> (True, persist tx (b, wr, cfg) s))"

definition put_section :: "py_text \<Rightarrow> string \<Rightarrow> pydict \<Rightarrow> api_state \<Rightarrow> api_state" where
  "put_section tx sect u s = persist tx (update_config_section (tx_float tx) (tx_str tx) sect u (as_cfg s)) s"

definition put_given :: "py_text \<Rightarrow> string \<Rightarrow> pydict \<Rightarrow> api_state \<Rightarrow> api_state" where
  "put_given tx sect u s = (case map_of u sect of Some (PDict d) \<Rightarrow> put_section tx sect d s | _ \<Rightarrow> s)"

definition scalar_keys :: "string list" where
  "scalar_keys = [''mem_gate_steepness'', ''memory_busy_threshold'', ''cpu_busy_threshold'', ''regular_update_sys_pressure_time'']"

definition write_system_pressure_config :: "py_text \<Rightarrow> pydict \<Rightarrow> api_state \<Rightarrow> bool \<times> api_state" where
  "write_system_pressure_config tx u s =
     (let s1 = put_given tx ''weights'' u (put_given tx ''thresholds'' u s);
          scalars = List.map_filter (\<lambda>k. map_option (Pair k) (map_of u k)) scalar_keys
      in (True, if scalars = [] then s1 else persist tx (update_top_level_scalars (tx_float tx) scalars (as_cfg s1)) s1))"

definition write_disk_pressure_config :: "py_text \<Rightarrow> pydict \<Rightarrow> api_state \<Rightarrow> bool \<times> api_state" where
  "write_disk_pressure_config tx u s =
     (let s1 = put_given tx ''disk_thresholds'' u s in
      case map_of u ''disk_pressure_model'' of
        Some (PDict m) \<Rightarrow> persist_nested tx (set_disk_pressure_model (tx_float tx) m (as_cfg s1)) s1
      | _ \<Rightarrow> (True, s1))"

definition write_network_pressure_config :: "py_text \<Rightarrow> pydict \<Rightarrow> api_state \<Rightarrow> bool \<times> api_state" where
  "write_network_pressure_config tx u s =
     (True, put_given tx ''network_pressure_model'' u (put_given tx ''network_thresholds'' u s))"

definition put_list :: "py_text \<Rightarrow> string \<Rightarrow> pyval list \<Rightarrow> api_state \<Rightarrow> api_state" where
  "put_list tx sect xs s =
     (case set_list_section (tx_plain tx) sect xs (as_cfg s, as_yaml s) of (_, cfg, lines) \<Rightarrow> s\<lparr>as_cfg := cfg, as_yaml := lines\<rparr>)"

definition write_network_control_config :: "py_text \<Rightarrow> pydict \<Rightarrow> api_state \<Rightarrow> bool \<times> api_state" where
  "write_network_control_config tx u s =
     (let rest = AList.delete ''network_interfaces'' u;
          (ok, s1) = (if rest = [] then (True, s)
                      else persist_nested tx (set_network_control_policy (tx_float tx) rest (as_cfg s)) s)
      in if \<not> ok then (False, s1)
         else case map_of u ''network_interfaces'' of
           Some (PList xs) \<Rightarrow> (True, put_list tx ''network_interfaces'' xs s1)
         | _ \<Rightarrow> (True, s1))"

subsection \<open>The generic handler\<close>

datatype api_spec = System_pressure | Disk_pressure_spec | Network_pressure | Network_control | Limit_policy_spec
  | Diagnostic_events | Diagnostic_rules

definition spec_table :: "(string \<times> api_spec) list" where
  "spec_table =
     [(''system_pressure'', System_pressure), (''disk_pressure'', Disk_pressure_spec), (''network_pressure'', Network_pressure),
      (''network_control'', Network_control), (''limit_policy'', Limit_policy_spec), (''diagnostic_events'', Diagnostic_events),
      (''diagnostic_rules'', Diagnostic_rules)]"

definition config_specs :: "string \<Rightarrow> api_spec option" where
  "config_specs = map_of spec_table"

fun spec_validate :: "api_env \<Rightarrow> api_spec \<Rightarrow> pydict \<Rightarrow> pydict \<Rightarrow> py_error + pydict" where
  "spec_validate e System_pressure cfg body = validate_system_pressure_config (ae_text e) cfg body"
| "spec_validate e Disk_pressure_spec cfg body = validate_disk_pressure_config (ae_text e) cfg body"
| "spec_validate e Network_pressure cfg body = validate_network_pressure_config (ae_text e) cfg body"
| "spec_validate e Network_control cfg body = validate_network_control_config (ae_text e) (ae_nics e) cfg body"
| "spec_validate e Limit_policy_spec cfg body = validate_limit_policy_config (ae_text e) body"
| "spec_validate e Diagnostic_events cfg body = validate_diagnostic_events_config (ae_events e) body"
| "spec_validate e Diagnostic_rules cfg body = validate_diagnostic_rules_config body"

fun spec_write :: "py_text \<Rightarrow> api_spec \<Rightarrow> pydict \<Rightarrow> api_state \<Rightarrow> bool \<times> api_state" where
  "spec_write tx System_pressure u s = write_system_pressure_config tx u s"
| "spec_write tx Disk_pressure_spec u s = write_disk_pressure_config tx u s"
| "spec_write tx Network_pressure u s = write_network_pressure_config tx u s"
| "spec_write tx Network_control u s = write_network_control_config tx u s"
| "spec_write tx Limit_policy_spec u s =
     persist_nested tx (set_limit_policy (tx_float tx) (tx_str tx) u (as_cfg s)) s"
| "spec_write tx Diagnostic_events u s = (True, put_section tx ''diagnostic_events'' u s)"
| "spec_write tx Diagnostic_rules u s =
     (True, case map_of u ''rules'' of Some (PList rs) \<Rightarrow> put_list tx ''diagnostic_rules'' rs s | _ \<Rightarrow> s)"

definition finish_save :: "api_env \<Rightarrow> string \<Rightarrow> api_state \<Rightarrow> reply \<times> api_state" where
  "finish_save e sect s = (case bump_config_updated_at e sect s of None \<Rightarrow> (Failed, s) | Some (t, s1) \<Rightarrow> (Saved t, s1))"

definition update_config_generic :: "api_env \<Rightarrow> string \<Rightarrow> pyval \<Rightarrow> api_state \<Rightarrow> reply \<times> api_state" where
  "update_config_generic e sect data s =
     (case config_specs sect of
        None \<Rightarrow> (Refused, s)
      | Some sp \<Rightarrow>
          (case data of
             PDict body \<Rightarrow>
               (case spec_validate e sp (as_cfg s) body of
                  Inl AttributeError \<Rightarrow> (Failed, s)
                | Inl _ \<Rightarrow> (Refused, s)
                | Inr u \<Rightarrow>
                    (case check_config_conflict sect (value_or_none body ''expected_updated_at'') s of
                       Some r \<Rightarrow> (r, s)
                     | None \<Rightarrow>
                         (case spec_write (ae_text e) sp u s of
                            (False, s1) \<Rightarrow> (Failed, s1)
                          | (True, s1) \<Rightarrow> finish_save e sect s1)))
           | _ \<Rightarrow> (Refused, s)))"

subsection \<open>The dedicated handlers\<close>

fun top_weights :: "string list \<Rightarrow> pydict \<Rightarrow> py_error + pydict" where
  "top_weights [] data = Inr []"
| "top_weights (k # ks) data =
     (case map_of data k of
        None \<Rightarrow> top_weights ks data
      | Some v \<Rightarrow> bindE (whole_in (\<lambda>i. 0 \<le> i) v) (\<lambda>w. bindE (top_weights ks data) (\<lambda>r. Inr ((k, w) # r))))"

definition update_weights_top :: "api_env \<Rightarrow> pyval \<Rightarrow> api_state \<Rightarrow> reply \<times> api_state" where
  "update_weights_top e data s =
     (case data of
        PDict body \<Rightarrow>
          (case some_update (top_weights [''cpu'', ''memory'', ''gpu''] body) of
             Inl _ \<Rightarrow> (Refused, s)
           | Inr u \<Rightarrow>
               (case check_config_conflict ''weights_top'' (value_or_none body ''expected_updated_at'') s of
                  Some r \<Rightarrow> (r, s)
                | None \<Rightarrow> finish_save e ''weights_top'' (put_section (ae_text e) ''weights_top'' u s)))
      | _ \<Rightarrow> (Refused, s))"

fun switch_value :: "pyval \<Rightarrow> py_error + bool" where
  "switch_value (PBool b) = Inr b"
| "switch_value (PStr s) = Inr (lower (strip s) \<in> {''1'', ''true'', ''yes'', ''y'', ''on''})"
| "switch_value v = bindE (int_of_val v) (\<lambda>i. Inr (i \<noteq> 0))"

definition update_passive_control :: "api_env \<Rightarrow> pyval \<Rightarrow> api_state \<Rightarrow> reply \<times> api_state" where
  "update_passive_control e data s =
     (case data of
        PDict body \<Rightarrow>
          (case map_of body ''enabled'' of
             None \<Rightarrow> (Refused, s)
           | Some raw \<Rightarrow>
               (case switch_value raw of
                  Inl _ \<Rightarrow> (Refused, s)
                | Inr b \<Rightarrow>
                    (case check_config_conflict ''passive_resource_control'' (value_or_none body ''expected_updated_at'') s of
                       Some r \<Rightarrow> (r, s)
                     | None \<Rightarrow>
                         finish_save e ''passive_resource_control''
                           (put_section (ae_text e) ''passive_resource_control'' [(''enabled'', PBool b)] s))))
      | _ \<Rightarrow> (Refused, s))"

definition dynamic_info_sections :: "string list" where
  "dynamic_info_sections = [''cpu'', ''memory'', ''pressure'', ''network'', ''disk'', ''gpu'', ''npu'']"

definition get_monitored_sections :: "pydict \<Rightarrow> string list" where
  \<comment> \<open>unset means every section; the setting is a list\<close>
  "get_monitored_sections cfg =
     (case value_or_none cfg ''monitored_sections'' of
        PNone \<Rightarrow> dynamic_info_sections
      | PList xs \<Rightarrow> filter (\<lambda>n. PStr n \<in> set xs) dynamic_info_sections
      | _ \<Rightarrow> [])"

definition get_monitored_sections_updated_at :: "api_env \<Rightarrow> api_state \<Rightarrow> int \<times> api_state" where
  "get_monitored_sections_updated_at e s =
     (let current = PList (map PStr (get_monitored_sections (as_cfg s)));
          stored = stamp_in (as_stamps s) ''monitored_sections_updated_at''
      in if py_eq (value_or_none (as_stamps s) ''monitored_sections_snapshot'') current \<and> 0 < stored then (stored, s)
         else (let t = max (stored + 1) (ae_now e) in
               case write_settings_file e
                      [(''monitored_sections_updated_at'', PInt t), (''monitored_sections_snapshot'', current)] s of
                 None \<Rightarrow> (stored, s)
               | Some s1 \<Rightarrow> (t, s1)))"

definition update_monitored_sections_config :: "api_env \<Rightarrow> pyval \<Rightarrow> api_state \<Rightarrow> reply \<times> api_state" where
  "update_monitored_sections_config e data s =
     (case data of
        PDict body \<Rightarrow>
          (case value_or_none body ''sections'' of
             PList raw \<Rightarrow>
               (let seen = map (\<lambda>v. lower (strip (tx_str (ae_text e) v))) raw;
                    expected = value_or_none body ''expected_updated_at''
                in if \<not> list_all (\<lambda>n. n \<in> set dynamic_info_sections) seen then (Refused, s)
                   else if coerce_expected_ts expected = Some (-1) then (Refused, s)
                   else case get_monitored_sections_updated_at e s of
                     (current, s1) \<Rightarrow>
                       (case check_against current expected of
                          Some r \<Rightarrow> (r, s1)
                        | None \<Rightarrow>
                            (case set_monitored_sections (filter (\<lambda>n. n \<in> set seen) dynamic_info_sections) (as_cfg s1, as_yaml s1) of
                               (False, cfg, lines) \<Rightarrow> (Unsaved, s1\<lparr>as_cfg := cfg, as_yaml := lines\<rparr>)
                             | (True, cfg, lines) \<Rightarrow>
                                 (case get_monitored_sections_updated_at e (s1\<lparr>as_cfg := cfg, as_yaml := lines\<rparr>) of
                                    (t, s2) \<Rightarrow> (Saved t, s2)))))
           | _ \<Rightarrow> (Refused, s))
      | _ \<Rightarrow> (Refused, s))"

definition load_retention_settings :: "api_state \<Rightarrow> int \<times> api_state" where
  "load_retention_settings s =
     (case as_days s of
        Some d \<Rightarrow> (d, s)
      | None \<Rightarrow>
          (let d = (case int_of_val (given_or (as_stamps s) ''snapshot_retention_days'' (PInt 3)) of
                      Inl _ \<Rightarrow> 3 | Inr i \<Rightarrow> max 1 (min i 7))
           in (d, s\<lparr>as_days := Some d\<rparr>)))"

definition save_retention_settings :: "api_env \<Rightarrow> int \<Rightarrow> api_state \<Rightarrow> int \<times> api_state" where
  \<comment> \<open>a failed write is reported as the stamp 0; the value in memory is changed all the same\<close>
  "save_retention_settings e days s =
     (let d = max 1 (min days 7); s1 = s\<lparr>as_days := Some d\<rparr> in
      case write_settings_file e [(''snapshot_retention_days'', PInt d), (''retention_updated_at'', PInt (ae_now e))] s1 of
        None \<Rightarrow> (0, s1)
      | Some s2 \<Rightarrow> (ae_now e, s2))"

definition set_history_retention :: "api_env \<Rightarrow> pyval \<Rightarrow> api_state \<Rightarrow> reply \<times> api_state" where
  "set_history_retention e data s =
     (case (if truthy data then data else PDict []) of
        PDict body \<Rightarrow>
          (case int_of_val (value_or_none body ''retention_days'') of
             Inl _ \<Rightarrow> (Refused, s)
           | Inr days \<Rightarrow>
               if \<not> (1 \<le> days \<and> days \<le> 7) then (Refused, s)
               else (case check_config_conflict ''retention'' (value_or_none body ''expected_updated_at'') s of
                       Some Conflicted \<Rightarrow> (Conflicted, snd (load_retention_settings s))
                     | Some r \<Rightarrow> (r, s)
                     | None \<Rightarrow> (case save_retention_settings e days s of (t, s1) \<Rightarrow> (Saved t, s1))))
      | _ \<Rightarrow> (Failed, s))"

subsection \<open>Requests\<close>

datatype request =
    Post string pyval
  | Post_weights pyval
  | Post_passive pyval
  | Post_monitored pyval
  | Post_retention pyval

fun handle :: "api_env \<Rightarrow> request \<Rightarrow> api_state \<Rightarrow> reply \<times> api_state" where
  "handle e (Post sect data) s = update_config_generic e sect data s"
| "handle e (Post_weights data) s = update_weights_top e data s"
| "handle e (Post_passive data) s = update_passive_control e data s"
| "handle e (Post_monitored data) s = update_monitored_sections_config e data s"
| "handle e (Post_retention data) s = set_history_retention e data s"

fun handle_all :: "(api_env \<times> request) list \<Rightarrow> api_state \<Rightarrow> api_state" where
  "handle_all [] s = s"
| "handle_all ((e, r) # rs) s = handle_all rs (snd (handle e r s))"

end
