(* ===== verification/Settings_Sound.thy ===== *)
theory Settings_Sound
  imports Settings_Api
begin

text \<open>
  What the settings API keeps: which settings a request can touch, that the levels of the three pressures stay in order,
  that the weights of the disk model stay a share of one, and that a client who has not seen the last save of a section
  cannot overwrite it.
\<close>

subsection \<open>What a request touches\<close>

lemma map_of_update [simp]: "map_of (AList.update k v d) = (map_of d)(k \<mapsto> v)"
  by (simp add: update_conv')

lemma section_other: "k \<noteq> sect \<Longrightarrow> map_of (snd (snd (update_config_section parse str_of sect u cfg))) k = map_of cfg k"
  by (simp add: update_config_section_def split: prod.split)

lemma scalar_other: "k \<notin> fst ` set us \<Longrightarrow> map_of (fst (scalar_loop parse us st)) k = map_of (fst st) k"
  by (induction parse us st rule: scalar_loop.induct) (auto split: sum.splits)

lemma nested_other: "k \<noteq> sect \<Longrightarrow> map_of (snd (snd (nested_update sect over ops cfg))) k = map_of cfg k"
  by (simp add: nested_update_def split: prod.split bool.split)

lemma foldl_frame: "(\<And>x st. x \<in> set xs \<Longrightarrow> g (f st x) = g st) \<Longrightarrow> g (foldl f st xs) = g st"
  by (induction xs arbitrary: st) simp_all

lemma bool_puts_other:
  assumes "k \<noteq> ''enable_network_control''" "k \<noteq> ''enable_network_pressure_shaping''" "k \<noteq> ''enable_app_pps_police''"
  shows "map_of (fst (bool_puts u st)) k = map_of (fst st) k"
  unfolding bool_puts_def
proof (rule foldl_frame [where g = "\<lambda>st. map_of (fst st) k"], goal_cases)
  case (1 x st)
  hence "fst x \<noteq> k" using assms by auto
  thus ?case by (cases x; cases st) (simp split: option.split)
qed

definition policy_keys :: "string set" where
  "policy_keys = {''enable_network_control'', ''enable_network_pressure_shaping'', ''enable_app_pps_police'',
     ''network_pps_policy'', ''config_network_bw''}"

lemma network_policy_other:
  assumes "k \<notin> policy_keys"
  shows "map_of (snd (snd (set_network_control_policy parse u cfg))) k = map_of cfg k"
proof -
  obtain cfg1 wr1 where b: "bool_puts u (cfg, []) = (cfg1, wr1)" by fastforce
  have 1: "map_of cfg1 k = map_of cfg k"
    using bool_puts_other [of k u "(cfg, [])"] assms by (simp only: b policy_keys_def fst_conv insert_iff empty_iff) blast
  have k: "k \<noteq> ''network_pps_policy''" "k \<noteq> ''config_network_bw''" using assms by (auto simp: policy_keys_def)
  have 2: "map_of (snd (snd (nested_update ''config_network_bw'' True ops c))) k = map_of c k" for ops c
    by (rule nested_other [OF k(2)])
  show ?thesis
  proof (cases "u = []")
    case False
    define p where "p = (case map_of u ''network_pps_policy'' of
                   Some (PDict p) \<Rightarrow>
                     (let old = map_of cfg1 ''network_pps_policy'' in
                      case pps_puts pps_keys p (dict_of old, []) of
                        (raised, d, wr) \<Rightarrow>
                          (raised, if raised \<and> old \<noteq> Some (PDict (dict_of old)) then cfg1
                                   else AList.update ''network_pps_policy'' (PDict d) cfg1, wr))
                 | _ \<Rightarrow> (False, cfg1, []))"
    obtain raised cfg2 wr2 where p3: "p = (raised, cfg2, wr2)" by (cases p) auto
    have "map_of (fst (snd p)) k = map_of cfg1 k"
      using k(1) by (simp add: p_def Let_def split: option.split pyval.split prod.split)
    hence 3: "map_of cfg2 k = map_of cfg1 k" by (simp add: p3)
    define q where "q = (case map_of u ''config_network_bw'' of
                            Some (PDict b) \<Rightarrow> nested_update ''config_network_bw'' True (bandwidth_ops parse b) cfg2
                          | _ \<Rightarrow> (Some False, [], cfg2))"
    obtain res wr3 cfg3 where q3: "q = (res, wr3, cfg3)" by (cases q) auto
    have "map_of (snd (snd q)) k = map_of cfg2 k"
      by (simp add: q_def 2 split: option.split pyval.split)
    hence 4: "map_of cfg3 k = map_of cfg2 k" by (simp add: q3)
    show ?thesis
      using 1 3 4 False
      by (simp add: set_network_control_policy_def b p_def [symmetric] p3 q_def [symmetric] q3 Let_def split: option.split)
  qed (simp add: set_network_control_policy_def)
qed

lemma list_other: "k \<noteq> sect \<Longrightarrow> map_of (fst (snd (set_list_section sr sect xs st))) k = map_of (fst st) k"
  by (cases st) (simp add: set_list_section_def)

fun touches :: "api_spec \<Rightarrow> string set" where
  "touches System_pressure = {''thresholds'', ''weights''} \<union> set scalar_keys"
| "touches Disk_pressure_spec = {''disk_thresholds'', ''disk_pressure_model''}"
| "touches Network_pressure = {''network_thresholds'', ''network_pressure_model''}"
| "touches Network_control = insert ''network_interfaces'' policy_keys"
| "touches Limit_policy_spec = {''limit_policy''}"
| "touches Diagnostic_events = {''diagnostic_events''}"
| "touches Diagnostic_rules = {''diagnostic_rules''}"

lemma persist_simps [simp]:
  "as_cfg (persist tx r s) = snd (snd r)" "as_stamps (persist tx r s) = as_stamps s" "as_days (persist tx r s) = as_days s"
  by (simp_all add: persist_def split: prod.split)

lemma persist_nested_simps [simp]:
  "as_cfg (snd (persist_nested tx r s)) = snd (snd r)" "as_stamps (snd (persist_nested tx r s)) = as_stamps s"
  "as_days (snd (persist_nested tx r s)) = as_days s"
  by (simp_all add: persist_nested_def split: prod.split option.split)

lemma put_section_simps [simp]:
  "as_stamps (put_section tx sect u s) = as_stamps s" "as_days (put_section tx sect u s) = as_days s"
  "k \<noteq> sect \<Longrightarrow> map_of (as_cfg (put_section tx sect u s)) k = map_of (as_cfg s) k"
  by (simp_all add: put_section_def section_other)

lemma put_given_simps [simp]:
  "as_stamps (put_given tx sect u s) = as_stamps s" "as_days (put_given tx sect u s) = as_days s"
  "k \<noteq> sect \<Longrightarrow> map_of (as_cfg (put_given tx sect u s)) k = map_of (as_cfg s) k"
  by (simp_all add: put_given_def split: option.split pyval.split)

lemma put_list_simps [simp]:
  "as_stamps (put_list tx sect xs s) = as_stamps s" "as_days (put_list tx sect xs s) = as_days s"
  "k \<noteq> sect \<Longrightarrow> map_of (as_cfg (put_list tx sect xs s)) k = map_of (as_cfg s) k"
  using list_other [of k sect "tx_plain tx" xs "(as_cfg s, as_yaml s)"]
  by (simp_all add: put_list_def case_prod_beta)

lemma scalars_in: "fst ` set (List.map_filter (\<lambda>k. map_option (Pair k) (map_of u k)) ks) \<subseteq> set ks"
  by (auto simp: List.map_filter_def)

lemma write_system_other:
  "k \<noteq> ''thresholds'' \<Longrightarrow> k \<noteq> ''weights'' \<Longrightarrow> k \<notin> set scalar_keys \<Longrightarrow>
   map_of (as_cfg (snd (write_system_pressure_config tx u s))) k = map_of (as_cfg s) k"
proof -
  assume k: "k \<noteq> ''thresholds''" "k \<noteq> ''weights''" "k \<notin> set scalar_keys"
  define us where "us = List.map_filter (\<lambda>k. map_option (Pair k) (map_of u k)) scalar_keys"
  have "k \<notin> fst ` set us" using k(3) scalars_in [of u scalar_keys] by (auto simp: us_def)
  from scalar_other [OF this] k(1,2) show ?thesis
    by (simp add: write_system_pressure_config_def Let_def update_top_level_scalars_def case_prod_beta us_def [symmetric])
qed

lemma write_disk_other:
  "k \<noteq> ''disk_thresholds'' \<Longrightarrow> k \<noteq> ''disk_pressure_model'' \<Longrightarrow>
   map_of (as_cfg (snd (write_disk_pressure_config tx u s))) k = map_of (as_cfg s) k"
  by (simp add: write_disk_pressure_config_def Let_def set_disk_pressure_model_def nested_other split: option.split pyval.split)

lemma write_network_control_other:
  assumes "k \<noteq> ''network_interfaces''" "k \<notin> policy_keys"
  shows "map_of (as_cfg (snd (write_network_control_config tx u s))) k = map_of (as_cfg s) k"
proof -
  define r where "r = AList.delete ''network_interfaces'' u"
  define q where "q = (if r = [] then (True, s) else persist_nested tx (set_network_control_policy (tx_float tx) r (as_cfg s)) s)"
  have "map_of (as_cfg (snd q)) k = map_of (as_cfg s) k"
    using network_policy_other [OF assms(2)] by (simp add: q_def)
  thus ?thesis
    using assms(1)
    by (cases q) (simp add: write_network_control_config_def r_def [symmetric] q_def [symmetric] split: option.split pyval.split)
qed

lemma spec_write_other: "k \<notin> touches sp \<Longrightarrow> map_of (as_cfg (snd (spec_write tx sp u s))) k = map_of (as_cfg s) k"
proof (cases sp)
  case Limit_policy_spec
  assume "k \<notin> touches sp"
  thus ?thesis by (simp add: Limit_policy_spec set_limit_policy_def nested_other)
next
  case Diagnostic_rules
  assume "k \<notin> touches sp"
  thus ?thesis by (simp add: Diagnostic_rules split: option.split pyval.split)
qed (simp_all add: write_system_other write_disk_other write_network_control_other write_network_pressure_config_def)

lemma write_stamps [simp]:
  "as_stamps (snd (write_system_pressure_config tx u s)) = as_stamps s"
  "as_stamps (snd (write_disk_pressure_config tx u s)) = as_stamps s"
  "as_stamps (snd (write_network_pressure_config tx u s)) = as_stamps s"
  by (simp_all add: write_system_pressure_config_def write_disk_pressure_config_def write_network_pressure_config_def
      Let_def split: option.split pyval.split)

lemma write_network_control_stamps [simp]: "as_stamps (snd (write_network_control_config tx u s)) = as_stamps s"
proof -
  define r where "r = AList.delete ''network_interfaces'' u"
  define q where "q = (if r = [] then (True, s) else persist_nested tx (set_network_control_policy (tx_float tx) r (as_cfg s)) s)"
  have "as_stamps (snd q) = as_stamps s" by (simp add: q_def)
  thus ?thesis
    by (cases q) (simp add: write_network_control_config_def r_def [symmetric] q_def [symmetric] split: option.split pyval.split)
qed

lemma spec_write_stamps [simp]: "as_stamps (snd (spec_write tx sp u s)) = as_stamps s"
  by (cases sp) (simp_all split: option.split pyval.split)

subsection \<open>Stamps\<close>

fun section_of :: "request \<Rightarrow> string option" where
  \<comment> \<open>the section a request saves under the gate of \<open>_check_config_conflict\<close>\<close>
  "section_of (Post sect d) = (if config_specs sect = None then None else Some sect)"
| "section_of (Post_weights d) = Some ''weights_top''"
| "section_of (Post_passive d) = Some ''passive_resource_control''"
| "section_of (Post_monitored d) = None"
| "section_of (Post_retention d) = Some ''retention''"

fun body_of :: "request \<Rightarrow> pyval" where
  "body_of (Post sect d) = d"
| "body_of (Post_weights d) = d"
| "body_of (Post_passive d) = d"
| "body_of (Post_monitored d) = d"
| "body_of (Post_retention d) = d"

definition seen_stamp :: "request \<Rightarrow> pyval" where "seen_stamp r = pget (body_of r) ''expected_updated_at''"

definition saved :: "reply \<Rightarrow> bool" where "saved r \<longleftrightarrow> (case r of Saved t \<Rightarrow> True | _ \<Rightarrow> False)"

lemma saved_simps [simp]: "saved (Saved t)" "\<not> saved Refused" "\<not> saved Conflicted" "\<not> saved Failed" "\<not> saved Unsaved"
  by (simp_all add: saved_def)

lemma dedicated_sections:
  "list_all (\<lambda>k. k \<in> set config_sections) (map fst spec_table)" "''weights_top'' \<in> set config_sections"
  "''passive_resource_control'' \<in> set config_sections" "''retention'' \<in> set config_sections"
  by code_simp+

lemma spec_sections: "config_specs sect = Some sp \<Longrightarrow> sect \<in> set config_sections"
  using dedicated_sections(1) by (fastforce simp: config_specs_def list_all_iff dest: map_of_SomeD)

lemma ts_key: "sect \<in> set config_sections \<Longrightarrow> config_ts_key sect = Some (sect @ ''_updated_at'')"
  by (simp add: config_ts_key_def)

lemma section_known: "section_of r = Some sect \<Longrightarrow> sect \<in> set config_sections"
  by (cases r) (auto simp: dedicated_sections dest: spec_sections split: if_splits)

definition stamp :: "string \<Rightarrow> pydict \<Rightarrow> int" where
  "stamp sect st = stamp_in st (sect @ ''_updated_at'')"

lemma updated_at_stamp: "sect \<in> set config_sections \<Longrightarrow> get_config_updated_at sect s = stamp sect (as_stamps s)"
  by (simp add: get_config_updated_at_def ts_key stamp_def)

lemma stamp_update [simp]:
  "stamp sect (merge_dict st [(sect' @ ''_updated_at'', PInt t)]) = (if sect = sect' then t else stamp sect st)"
  by (simp add: stamp_def stamp_in_def merge_dict_def given_or_def)

lemma finish_save_stamp:
  assumes "sect' \<in> set config_sections"
  shows "stamp sect (as_stamps (snd (finish_save e sect' s)))
       = (if sect = sect' \<and> saved (fst (finish_save e sect' s)) then ae_now e else stamp sect (as_stamps s))"
  by (simp add: finish_save_def bump_config_updated_at_def ts_key [OF assms] write_settings_file_def)

definition settings_kept :: "api_state \<Rightarrow> api_state \<Rightarrow> bool" where
  "settings_kept s s' \<longleftrightarrow> as_cfg s' = as_cfg s \<and> as_yaml s' = as_yaml s \<and> as_stamps s' = as_stamps s"

lemma settings_kept_refl [simp]: "settings_kept s s" by (simp add: settings_kept_def)

lemma check_replies: "check_config_conflict sect x s = Some r \<Longrightarrow> r \<in> {Refused, Conflicted}"
  by (auto simp: check_config_conflict_def check_against_def split: option.splits if_splits)

subsection \<open>The gate of each handler\<close>

definition gate_law :: "api_env \<Rightarrow> string \<Rightarrow> pyval \<Rightarrow> api_state \<Rightarrow> reply \<times> api_state \<Rightarrow> bool" where
  \<comment> \<open>either nothing is saved, or the gate was open\<close>
  "gate_law e sect x s out \<longleftrightarrow>
     (check_config_conflict sect x s \<noteq> None \<longrightarrow> \<not> saved (fst out) \<and> settings_kept s (snd out))
     \<and> (\<forall>k. stamp k (as_stamps (snd out)) = (if k = sect \<and> saved (fst out) then ae_now e else stamp k (as_stamps s)))"

lemma gate_same: "\<not> saved r \<Longrightarrow> gate_law e sect x s (r, s)" by (simp add: gate_law_def)

lemma gate_closed: "check_config_conflict sect x s = Some r \<Longrightarrow> gate_law e sect x s (r, s)"
  by (rule gate_same) (drule check_replies, auto)

lemma gate_open:
  assumes "check_config_conflict sect x s = None" "sect \<in> set config_sections" "as_stamps s1 = as_stamps s"
  shows "gate_law e sect x s (finish_save e sect s1)"
  using finish_save_stamp [OF assms(2), of _ e s1] by (simp add: gate_law_def assms)

lemma gate_raised:
  "check_config_conflict sect x s = None \<Longrightarrow> as_stamps s1 = as_stamps s \<Longrightarrow> gate_law e sect x s (Failed, s1)"
  by (simp add: gate_law_def)

lemma gate_case:
  assumes "sect \<in> set config_sections" "as_stamps s1 = as_stamps s"
  shows "gate_law e sect x s (case check_config_conflict sect x s of Some r \<Rightarrow> (r, s) | None \<Rightarrow> finish_save e sect s1)"
  using gate_open [OF _ assms] gate_closed [of sect x s] by (cases "check_config_conflict sect x s") simp_all

lemma seen_in_body: "body_of r = PDict body \<Longrightarrow> seen_stamp r = value_or_none body ''expected_updated_at''"
  by (simp add: seen_stamp_def value_or_none_def)

lemma gate_generic:
  assumes "section_of (Post sect d) = Some sect'"
  shows "gate_law e sect' (seen_stamp (Post sect d)) s (update_config_generic e sect d s)"
proof -
  have known: "sect \<in> set config_sections" and same: "sect' = sect" and "config_specs sect \<noteq> None"
    using assms section_known [OF assms] by (auto split: if_splits)
  then obtain sp where sp: "config_specs sect = Some sp" by auto
  show ?thesis
  proof (cases d)
    case (PDict body)
    note seen = seen_in_body [of "Post sect d" body, simplified PDict body_of.simps, OF refl]
    show ?thesis
    proof (cases "spec_validate e sp (as_cfg s) body")
      case (Inl err)
      thus ?thesis by (cases err) (simp_all add: update_config_generic_def sp PDict gate_same)
    next
      case (Inr u)
      obtain ok s1 where w: "spec_write (ae_text e) sp u s = (ok, s1)" by fastforce
      have st: "as_stamps s1 = as_stamps s" using spec_write_stamps [of "ae_text e" sp u s] by (simp add: w)
      show ?thesis
      proof (cases ok)
        case True
        show ?thesis
          using gate_open [OF _ known st] gate_closed [of sect _ s]
          by (cases "check_config_conflict sect (value_or_none body ''expected_updated_at'') s")
            (simp_all add: update_config_generic_def sp PDict Inr w True same seen)
      next
        case False
        show ?thesis
          using gate_raised [OF _ st] gate_closed [of sect _ s]
          by (cases "check_config_conflict sect (value_or_none body ''expected_updated_at'') s")
            (simp_all add: update_config_generic_def sp PDict Inr w False same seen)
      qed
    qed
  qed (simp_all add: update_config_generic_def sp gate_same)
qed

lemma gate_weights: "gate_law e ''weights_top'' (seen_stamp (Post_weights d)) s (update_weights_top e d s)"
proof (cases d)
  case (PDict body)
  note seen = seen_in_body [of "Post_weights d" body, simplified PDict body_of.simps, OF refl]
  from gate_case [OF dedicated_sections(2)] show ?thesis
    by (cases "some_update (top_weights [''cpu'', ''memory'', ''gpu''] body)")
      (simp_all add: update_weights_top_def PDict seen gate_same del: top_weights.simps)
qed (simp_all add: update_weights_top_def gate_same)

lemma gate_passive: "gate_law e ''passive_resource_control'' (seen_stamp (Post_passive d)) s (update_passive_control e d s)"
proof (cases d)
  case (PDict body)
  note seen = seen_in_body [of "Post_passive d" body, simplified PDict body_of.simps, OF refl]
  show ?thesis
  proof (cases "map_of body ''enabled''")
    case (Some raw)
    from gate_case [OF dedicated_sections(3)] show ?thesis
      by (cases "switch_value raw") (simp_all add: update_passive_control_def PDict seen Some gate_same)
  qed (simp add: update_passive_control_def PDict gate_same)
qed (simp_all add: update_passive_control_def gate_same)

lemma retention_stamps:
  "stamp k (merge_dict st [(''snapshot_retention_days'', PInt d), (''retention_updated_at'', PInt t)])
   = (if k = ''retention'' then t else stamp k st)"
proof -
  have 1: "k @ ''_updated_at'' \<noteq> ''snapshot_retention_days''"
  proof
    assume "k @ ''_updated_at'' = ''snapshot_retention_days''"
    hence "rev (k @ ''_updated_at'') = rev ''snapshot_retention_days''" by (rule arg_cong)
    thus False by simp
  qed
  have 2: "k @ ''_updated_at'' = ''retention_updated_at'' \<longleftrightarrow> k = ''retention''"
    using append_same_eq [of k "''_updated_at''" "''retention''"] by simp
  show ?thesis using 1 2 by (simp add: stamp_def stamp_in_def merge_dict_def given_or_def)
qed

lemma gate_retention:
  assumes "ae_writable e"
  shows "gate_law e ''retention'' (seen_stamp (Post_retention d)) s (set_history_retention e d s)"
proof (cases "truthy d")
  case True
  show ?thesis
  proof (cases d)
    case (PDict body)
    note seen = seen_in_body [of "Post_retention d" body, simplified PDict body_of.simps, OF refl]
    show ?thesis
    proof (cases "int_of_val (value_or_none body ''retention_days'')")
      case (Inr days)
      have load: "settings_kept s (snd (load_retention_settings s))"
        by (simp add: load_retention_settings_def settings_kept_def Let_def split: option.split)
      have load_st: "as_stamps (snd (load_retention_settings s)) = as_stamps s"
        by (simp add: load_retention_settings_def Let_def split: option.split)
      have "gate_law e ''retention'' x s
          (case check_config_conflict ''retention'' x s of
             Some Conflicted \<Rightarrow> (Conflicted, snd (load_retention_settings s))
           | Some r \<Rightarrow> (r, s)
           | None \<Rightarrow> (case save_retention_settings e days s of (t, s1) \<Rightarrow> (Saved t, s1)))" for x
      proof (cases "check_config_conflict ''retention'' x s")
        case None
        thus ?thesis
          using assms by (simp add: gate_law_def save_retention_settings_def Let_def write_settings_file_def retention_stamps)
      next
        case (Some r)
        from check_replies [OF Some] gate_closed [OF Some] load show ?thesis
          by (auto simp: Some gate_law_def load_st)
      qed
      from this [of "value_or_none body ''expected_updated_at''"] show ?thesis
        using True by (simp add: set_history_retention_def PDict Inr seen gate_same)
    qed (use True in \<open>simp add: set_history_retention_def PDict gate_same\<close>)
  qed (use True in \<open>simp_all add: set_history_retention_def gate_same\<close>)
qed (simp add: set_history_retention_def value_or_none_def gate_same)

lemma handle_gate:
  assumes "section_of r = Some sect" "ae_writable e"
  shows "gate_law e sect (seen_stamp r) s (handle e r s)"
proof (cases r)
  case (Post sect' d)
  with assms gate_generic [of sect' d sect] show ?thesis by (simp only: handle.simps)
next
  case (Post_retention d)
  with assms gate_retention show ?thesis by (simp only: handle.simps section_of.simps option.inject)
qed (use assms gate_weights gate_passive in \<open>simp_all only: handle.simps section_of.simps option.inject option.distinct\<close>)

subsection \<open>Runs of requests\<close>

lemma finish_save_not [simp]: "stamp k (as_stamps (snd (r, s))) = stamp k (as_stamps s)" by simp

fun saved_meanwhile :: "string \<Rightarrow> (api_env \<times> request) list \<Rightarrow> api_state \<Rightarrow> bool" where
  \<comment> \<open>some request of the run saves the section\<close>
  "saved_meanwhile sect [] s = False"
| "saved_meanwhile sect ((e, r) # rs) s =
     (section_of r = Some sect \<and> saved (fst (handle e r s)) \<or> saved_meanwhile sect rs (snd (handle e r s)))"

lemma other_stamp:
  assumes "section_of r = None" "sect \<noteq> ''monitored_sections''"
  shows "stamp sect (as_stamps (snd (handle e r s))) = stamp sect (as_stamps s)"
proof (cases r)
  case (Post sect' d)
  with assms(1) have "config_specs sect' = None" by (simp split: if_splits)
  thus ?thesis by (simp add: Post update_config_generic_def)
next
  case (Post_monitored d)
  have keys: "sect @ ''_updated_at'' \<noteq> ''monitored_sections_updated_at''" "sect @ ''_updated_at'' \<noteq> ''monitored_sections_snapshot''"
  proof -
    show "sect @ ''_updated_at'' \<noteq> ''monitored_sections_updated_at''"
      using append_same_eq [of sect "''_updated_at''" "''monitored_sections''"] assms(2) by simp
    have "rev (sect @ ''_updated_at'') \<noteq> rev ''monitored_sections_snapshot''" by simp
    thus "sect @ ''_updated_at'' \<noteq> ''monitored_sections_snapshot''" by metis
  qed
  have one: "stamp sect (as_stamps (snd (get_monitored_sections_updated_at e s'))) = stamp sect (as_stamps s')" for s'
    using keys
    by (simp add: get_monitored_sections_updated_at_def Let_def write_settings_file_def stamp_def stamp_in_def
        merge_dict_def given_or_def)
  obtain c s1 where g: "get_monitored_sections_updated_at e s = (c, s1)" by fastforce
  hence s1: "stamp sect (as_stamps s1) = stamp sect (as_stamps s)" using one [of s] by simp
  have two: "stamp sect (as_stamps (snd (case get_monitored_sections_updated_at e (s1\<lparr>as_cfg := a, as_yaml := b\<rparr>) of (t, s2) \<Rightarrow> (Saved t, s2))))
      = stamp sect (as_stamps s)" for a b
    using one [of "s1\<lparr>as_cfg := a, as_yaml := b\<rparr>"] s1 by (simp add: case_prod_beta)
  show ?thesis
    using s1 two
    by (simp add: Post_monitored update_monitored_sections_config_def Let_def g case_prod_beta
        split: pyval.split option.split bool.split)
qed (use assms in simp_all)

lemma handle_stamp:
  assumes "ae_writable e" "sect \<noteq> ''monitored_sections''"
  shows "stamp sect (as_stamps (snd (handle e r s)))
       = (if section_of r = Some sect \<and> saved (fst (handle e r s)) then ae_now e else stamp sect (as_stamps s))"
proof (cases "section_of r")
  case None
  with other_stamp [OF None assms(2)] show ?thesis by simp
next
  case (Some sect')
  from handle_gate [OF Some assms(1), of s] show ?thesis by (simp add: gate_law_def Some)
qed

lemma run_stamp_grows:
  assumes "sect \<noteq> ''monitored_sections''"
  shows "\<forall>(e, r)\<in>set rs. ae_writable e \<and> t0 < ae_now e \<Longrightarrow> t0 < stamp sect (as_stamps s) \<Longrightarrow>
         t0 < stamp sect (as_stamps (handle_all rs s))"
proof (induction rs arbitrary: s)
  case (Cons x rs)
  obtain e r where x: "x = (e, r)" by fastforce
  with Cons.prems have "t0 < stamp sect (as_stamps (snd (handle e r s)))"
    using handle_stamp [OF _ assms, of e r s] by simp
  thus ?case using Cons by (simp add: x)
qed simp

lemma run_stamp_saved:
  assumes "sect \<noteq> ''monitored_sections''"
  shows "\<forall>(e, r)\<in>set rs. ae_writable e \<and> t0 < ae_now e \<Longrightarrow> saved_meanwhile sect rs s \<Longrightarrow>
         t0 < stamp sect (as_stamps (handle_all rs s))"
proof (induction rs arbitrary: s)
  case (Cons x rs)
  obtain e r where x: "x = (e, r)" by fastforce
  show ?case
  proof (cases "section_of r = Some sect \<and> saved (fst (handle e r s))")
    case True
    hence "t0 < stamp sect (as_stamps (snd (handle e r s)))"
      using handle_stamp [OF _ assms, of e r s] Cons.prems by (simp add: x)
    thus ?thesis using run_stamp_grows [OF assms] Cons.prems by (simp add: x)
  next
    case False
    thus ?thesis using Cons by (auto simp: x)
  qed
qed simp

lemma run_stamp_kept:
  assumes "sect \<noteq> ''monitored_sections''"
  shows "\<forall>(e, r)\<in>set rs. ae_writable e \<Longrightarrow> \<not> saved_meanwhile sect rs s \<Longrightarrow>
         stamp sect (as_stamps (handle_all rs s)) = stamp sect (as_stamps s)"
proof (induction rs arbitrary: s)
  case (Cons x rs)
  obtain e r where x: "x = (e, r)" by fastforce
  thus ?case using Cons handle_stamp [OF _ assms, of e r s] by auto
qed simp

lemma section_not_monitored: "section_of r = Some sect \<Longrightarrow> sect \<noteq> ''monitored_sections''"
proof -
  have "list_all (\<lambda>k. k \<noteq> ''monitored_sections'') (map fst spec_table)" by code_simp
  hence "config_specs sect \<noteq> None \<Longrightarrow> sect \<noteq> ''monitored_sections''"
    by (fastforce simp: config_specs_def list_all_iff dest: map_of_SomeD)
  thus "section_of r = Some sect \<Longrightarrow> sect \<noteq> ''monitored_sections''" by (cases r) (auto split: if_splits)
qed

lemma open_gate: "check_config_conflict sect (PInt t) s = None \<longleftrightarrow> t \<noteq> -1 \<and> t = get_config_updated_at sect s"
  by (simp add: check_config_conflict_def check_against_def coerce_expected_ts_def)

text \<open>C27: 
  No save is overwritten by a client that has not seen it: a client has read the stamp of a section, any requests of
  others follow, and the clock has gone past that stamp. If one of them saved the section, the client's own request, which
  carries the stamp it has seen, saves nothing and changes neither the settings, nor the file, nor the stamps. If none of
  them did, whatever else they saved, its request is not turned away as a conflict.
\<close>
theorem no_lost_update:
  assumes "section_of mine = Some sect" "seen_stamp mine = PInt (get_config_updated_at sect s)"
    "0 \<le> get_config_updated_at sect s"
    "\<forall>(e, r)\<in>set rs. ae_writable e \<and> get_config_updated_at sect s < ae_now e" "ae_writable e"
  shows "if saved_meanwhile sect rs s
         then \<not> saved (fst (handle e mine (handle_all rs s)))
           \<and> settings_kept (handle_all rs s) (snd (handle e mine (handle_all rs s)))
         else check_config_conflict sect (seen_stamp mine) (handle_all rs s) = None"
proof -
  have known: "sect \<in> set config_sections" and other: "sect \<noteq> ''monitored_sections''"
    using assms(1) section_known section_not_monitored by auto
  note now = updated_at_stamp [OF known]
  show ?thesis
  proof (cases "saved_meanwhile sect rs s")
    case True
    from run_stamp_saved [OF other assms(4) True]
    have "check_config_conflict sect (seen_stamp mine) (handle_all rs s) \<noteq> None"
      using open_gate [of sect "get_config_updated_at sect s" "handle_all rs s"] by (simp add: assms(2) now)
    thus ?thesis using True handle_gate [OF assms(1,5), of "handle_all rs s"] by (simp add: gate_law_def)
  next
    case False
    thus ?thesis
      using run_stamp_kept [OF other _ False] assms(3,4) open_gate [of sect "get_config_updated_at sect s" "handle_all rs s"]
      by (fastforce simp: assms(2) now)
  qed
qed

subsection \<open>Concrete runs\<close>

definition plain_text :: py_text where
  "plain_text = \<lparr>tx_float = no_number, tx_str = no_text, tx_general = (\<lambda>x. ''1''), tx_plain = (\<lambda>x. ''1'')\<rparr>"

definition api_at :: "int \<Rightarrow> api_env" where
  "api_at t = \<lparr>ae_text = plain_text, ae_now = t, ae_writable = True, ae_nics = [''eth0''], ae_events = []\<rparr>"

definition idle_state :: api_state where
  "idle_state = \<lparr>as_cfg = [(''weights_top'', PDict [(''cpu'', PInt 1)])], as_yaml = [],
     as_stamps = [(''weights_top_updated_at'', PInt 5)], as_days = None\<rparr>"

definition weight_post :: "int \<Rightarrow> request" where
  \<comment> \<open>from a client that has seen the stamp 5\<close>
  "weight_post w = Post_weights (PDict [(''cpu'', PInt w), (''expected_updated_at'', PInt 5)])"

definition cpu_weight :: "api_state \<Rightarrow> pyval" where
  "cpu_weight s = value_or_none (dict_of (map_of (as_cfg s) ''weights_top'')) ''cpu''"

lemma meanwhile_run:
  "saved_meanwhile ''weights_top'' [(api_at 6, weight_post 2)] idle_state
   \<and> cpu_weight (handle_all [(api_at 6, weight_post 2)] idle_state) = PInt 2"
  by code_simp

theorem no_lost_update_witness:
  "\<not> saved (fst (handle (api_at 9) (weight_post 3) (handle_all [(api_at 6, weight_post 2)] idle_state)))
   \<and> cpu_weight (snd (handle (api_at 9) (weight_post 3) (handle_all [(api_at 6, weight_post 2)] idle_state))) = PInt 2"
proof -
  have stamp: "get_config_updated_at ''weights_top'' idle_state = 5" by code_simp
  have "seen_stamp (weight_post 3) = PInt 5" by code_simp
  moreover have "section_of (weight_post 3) = Some ''weights_top''" by (simp add: weight_post_def)
  ultimately have "\<not> saved (fst (handle (api_at 9) (weight_post 3) (handle_all [(api_at 6, weight_post 2)] idle_state)))
      \<and> settings_kept (handle_all [(api_at 6, weight_post 2)] idle_state)
          (snd (handle (api_at 9) (weight_post 3) (handle_all [(api_at 6, weight_post 2)] idle_state)))"
    using no_lost_update [of "weight_post 3" "''weights_top''" idle_state "[(api_at 6, weight_post 2)]" "api_at 9"] meanwhile_run
    by (simp add: stamp api_at_def)
  thus ?thesis using meanwhile_run by (simp add: settings_kept_def cpu_weight_def)
qed

text \<open>
  The stamp is a time in whole seconds. Two clients that have seen the same stamp and save within one second both get
  their save acknowledged, and the first of the two is lost, when the last save before was in that second too.
\<close>

lemma lost_update_same_second:
  "handle (api_at 5) (weight_post 2) idle_state = (Saved 5, s1) \<Longrightarrow>
   fst (handle (api_at 5) (weight_post 3) s1) = Saved 5 \<and> cpu_weight s1 = PInt 2
   \<and> cpu_weight (snd (handle (api_at 5) (weight_post 3) s1)) = PInt 3"
proof -
  assume "handle (api_at 5) (weight_post 2) idle_state = (Saved 5, s1)"
  hence s1: "s1 = snd (handle (api_at 5) (weight_post 2) idle_state)" by simp
  show ?thesis unfolding s1 by code_simp
qed

text \<open>
  The retention is changed in memory and the answer is a success even when its file cannot be written: the new value is
  gone at the next start, and the stamp that is returned, 0, is not the one of the file.
\<close>

lemma unsaved_retention_acknowledged:
  "handle ((api_at 9)\<lparr>ae_writable := False\<rparr>) (Post_retention (PDict [(''retention_days'', PInt 7)])) idle_state
   = (Saved 0, idle_state\<lparr>as_days := Some 7\<rparr>)"
  by code_simp

text \<open>A settings change is kept although the request is answered with an error, when the stamp cannot be written.\<close>

lemma failed_post_takes_effect:
  "fst (handle ((api_at 9)\<lparr>ae_writable := False\<rparr>) (weight_post 3) idle_state) = Failed
   \<and> cpu_weight (snd (handle ((api_at 9)\<lparr>ae_writable := False\<rparr>) (weight_post 3) idle_state)) = PInt 3"
  by code_simp

text \<open>A rule whose pattern is blank passes the check, and is stored with the empty pattern that the matcher skips.\<close>

lemma blank_pattern_accepted:
  "(case check_rule [] [(''id'', PStr ''a''), (''name'', PStr ''n''), (''source'', PStr ''journal''),
      (''message_pattern'', PStr '' ''), (''severity'', PStr ''info''), (''enabled'', PBool True)] of
      Inl e \<Rightarrow> False
    | Inr (rid, out) \<Rightarrow> map_of out ''message_pattern'' = Some (PStr []))"
  by code_simp

end
