(* ===== verification/Settings_Levels.thy ===== *)
theory Settings_Levels
  imports Settings_Sound
begin

text \<open>
  The settings that the settings API keeps sound: the levels of the three pressures stay in order, and the weights of
  the disk model stay a share of one.
\<close>

subsection \<open>What a check lets through\<close>

lemma field_loop_entry: "field_loop f ks body = Inr r \<Longrightarrow> (k, w) \<in> set r \<Longrightarrow> k \<in> set ks \<and> (\<exists>v. f k v = Inr w)"
  by (induction ks arbitrary: r) (auto simp: bindE_Inr_iff split: if_splits)

lemma number_in_float: "number_in tx ok v = Inr w \<Longrightarrow> \<exists>x. w = PFloat x \<and> ok x"
  by (auto simp: number_in_def bindE_Inr_iff split: if_splits)

lemma gather_entry: "gather xs = Inr u \<Longrightarrow> e \<in> set u \<Longrightarrow> \<exists>a. Inr a \<in> set xs \<and> e \<in> set a"
  by (induction xs arbitrary: u) (simp, fastforce simp: bindE_Inr_iff)

lemma some_update_Inr: "some_update m = Inr u \<Longrightarrow> m = Inr u"
  by (auto simp: some_update_def bindE_Inr_iff split: if_splits)

lemma map_of_merge: "map_of (merge_dict d u) k = (case map_of (rev u) k of None \<Rightarrow> map_of d k | Some v \<Rightarrow> Some v)"
  unfolding merge_dict_def
proof (induction u rule: rev_induct)
  case (snoc x u)
  thus ?case by (cases x) (simp add: update_conv')
qed simp

lemma merge_cong: "map_of d = map_of d' \<Longrightarrow> map_of (merge_dict d u) = map_of (merge_dict d' u)"
  by (rule ext) (simp only: map_of_merge)

lemma merge_Cons: "merge_dict d ((k, v) # u) = merge_dict (AList.update k v d) u"
  by (simp add: merge_dict_def)

lemma section_floats:
  "\<forall>(k, v)\<in>set us. \<exists>x y. v = PFloat x \<and> map_of d k = Some (PFloat y) \<Longrightarrow>
   map_of (fst (section_loop parse str_of sect us (d, wr))) = map_of (merge_dict d us)"
proof (induction us arbitrary: d wr)
  case (Cons u us)
  from Cons.prems obtain k x y where u: "u = (k, PFloat x)" and k: "map_of d k = Some (PFloat y)" by (cases u) auto
  have rest: "\<forall>(k', v)\<in>set us. \<exists>x' y'. v = PFloat x' \<and> map_of d k' = Some (PFloat y')" using Cons.prems by simp
  show ?case
  proof (cases "y = x")
    case True
    have "map_of d = map_of (AList.update k (PFloat x) d)" using k True by (simp add: update_conv' map_upd_triv)
    from merge_cong [OF this, of us] Cons.IH [OF rest] show ?thesis
      using True by (simp add: u k value_or_none_def merge_Cons)
  next
    case False
    have "\<forall>(k', v)\<in>set us. \<exists>x' y'. v = PFloat x' \<and> map_of (AList.update k (PFloat x) d) k' = Some (PFloat y')"
      using rest by (fastforce simp: update_conv')
    from Cons.IH [OF this] show ?thesis using False by (simp add: u k value_or_none_def merge_Cons)
  qed
qed (simp add: merge_dict_def)

subsection \<open>Levels\<close>

definition level_at :: "pydict \<Rightarrow> string \<Rightarrow> real" where
  "level_at d k = (case value_or_none d k of PFloat x \<Rightarrow> x | _ \<Rightarrow> 0)"

definition is_level :: "pyval \<Rightarrow> bool" where
  "is_level v = (case v of PFloat x \<Rightarrow> unit_value x | _ \<Rightarrow> False)"

definition levels_ok :: "pydict \<Rightarrow> bool" where
  \<comment> \<open>four levels, each above 0 and at most 1, from low to critical\<close>
  "levels_ok d \<longleftrightarrow> list_all (\<lambda>k. is_level (value_or_none d k)) threshold_keys \<and> sorted (map (level_at d) threshold_keys)"

lemma levels_cong: "map_of d = map_of d' \<Longrightarrow> levels_ok d = levels_ok d'"
  by (simp add: levels_ok_def level_at_def [abs_def] value_or_none_def)

lemma is_level_float: "is_level v \<longleftrightarrow> (\<exists>x. v = PFloat x \<and> unit_value x)"
  by (cases v) (simp_all add: is_level_def)

lemma levels_in_order:
  assumes "\<forall>k\<in>set threshold_keys. is_level (value_or_none d k)"
  shows "length (level_values d) = 4 \<and> (in_order (level_values d) = Inr True \<longleftrightarrow> levels_ok d)"
proof -
  have val: "value_or_none d k = PFloat (level_at d k)" if "k \<in> set threshold_keys" for k
    using assms that by (fastforce simp: level_at_def is_level_float)
  have vals: "level_values d = map (\<lambda>k. PFloat (level_at d k)) threshold_keys"
    by (simp add: level_values_def threshold_keys_def val [unfolded threshold_keys_def])
  have "map (\<lambda>v. the (as_number v)) (level_values d) = map (level_at d) threshold_keys" by (simp add: vals)
  moreover have "list_all (\<lambda>v. as_number v \<noteq> None) (level_values d)" by (simp add: vals list_all_iff)
  moreover have n: "length (level_values d) = 4" by (simp add: vals threshold_keys_def)
  ultimately have "in_order (level_values d) = Inr (sorted (map (level_at d) threshold_keys))" by (simp add: in_order_def)
  thus ?thesis using n assms by (simp add: levels_ok_def list_all_iff)
qed

definition level_update :: "pydict \<Rightarrow> pydict \<Rightarrow> bool" where
  \<comment> \<open>what the check of the levels lets through, over the levels that are there\<close>
  "level_update d th \<longleftrightarrow> (\<forall>(k, v)\<in>set th. k \<in> set threshold_keys \<and> is_level v) \<and> levels_ok (merge_dict d th)"

lemma merged_levels:
  assumes "\<forall>(k, v)\<in>set th. k \<in> set threshold_keys \<and> is_level v" "levels_ok d" "k \<in> set threshold_keys"
  shows "is_level (value_or_none (merge_dict d th) k)"
proof (cases "map_of (rev th) k")
  case None
  thus ?thesis using assms(2,3) by (simp add: value_or_none_def map_of_merge levels_ok_def list_all_iff)
next
  case (Some v)
  hence "(k, v) \<in> set th" using map_of_SomeD by fastforce
  thus ?thesis using assms(1) Some by (auto simp: value_or_none_def map_of_merge)
qed

lemma level_fields_ok: "level_fields tx body = Inr th \<Longrightarrow> \<forall>(k, v)\<in>set th. k \<in> set threshold_keys \<and> is_level v"
  by (auto simp: level_fields_def is_level_float dest!: field_loop_entry number_in_float)

lemma section_is_dict: "levels_ok (dict_of (map_of cfg sect)) \<Longrightarrow> \<exists>d. map_of cfg sect = Some (PDict d)"
  by (auto simp: levels_ok_def threshold_keys_def is_level_float value_or_none_def dict_of_def split: option.splits pyval.splits)

lemma levels_part_ok:
  assumes "levels_part tx cfg sect body = Inr a" "(k, v) \<in> set a" "levels_ok (dict_of (map_of cfg sect))"
  shows "k = sect \<and> (\<exists>th. v = PDict th \<and> level_update (dict_of (map_of cfg sect)) th)"
proof -
  obtain d where d: "map_of cfg sect = Some (PDict d)" using section_is_dict [OF assms(3)] by auto
  hence ok: "levels_ok d" using assms(3) by (simp add: dict_of_def)
  obtain th where th: "level_fields tx body = Inr th" "th \<noteq> []"
    and c: "in_order (level_values (merge_dict d th)) = Inr True" and a: "a = [(sect, PDict th)]"
    using assms(1,2) d by (auto simp: levels_part_def section_dict_def value_or_none_def bindE_Inr_iff split: if_splits)
  have "levels_ok (merge_dict d th)"
    using levels_in_order [of "merge_dict d th"] merged_levels [OF level_fields_ok [OF th(1)] ok] c by simp
  thus ?thesis using assms(2) level_fields_ok [OF th(1)] by (simp add: a d dict_of_def level_update_def)
qed

lemma network_levels_ok:
  assumes "network_levels tx cfg body = Inr a" "(k, v) \<in> set a" "levels_ok (dict_of (map_of cfg ''network_thresholds''))"
  shows "k = ''network_thresholds'' \<and> (\<exists>th. v = PDict th \<and> level_update (dict_of (map_of cfg ''network_thresholds'')) th)"
proof -
  obtain d where d: "map_of cfg ''network_thresholds'' = Some (PDict d)" using section_is_dict [OF assms(3)] by auto
  hence ok: "levels_ok d" using assms(3) by (simp add: dict_of_def)
  obtain th where th: "level_fields tx body = Inr th"
    and c: "in_order (level_values (merge_dict d th)) = Inr True" and a: "a = [(''network_thresholds'', PDict th)]"
    using assms(1) d by (auto simp: network_levels_def section_dict_def value_or_none_def bindE_Inr_iff Let_def split: if_splits)
  have "levels_ok (merge_dict d th)"
    using levels_in_order [of "merge_dict d th"] merged_levels [OF level_fields_ok [OF th] ok] c by simp
  thus ?thesis using assms(2) level_fields_ok [OF th] by (simp add: a d dict_of_def level_update_def)
qed

lemma put_section_levels:
  assumes "level_update (dict_of (map_of (as_cfg s) sect)) th" "levels_ok (dict_of (map_of (as_cfg s) sect))" "sect \<noteq> []"
  shows "levels_ok (dict_of (map_of (as_cfg (put_section tx sect th s)) sect))"
proof -
  define d where "d = dict_of (map_of (as_cfg s) sect)"
  have "\<forall>(k, v)\<in>set th. \<exists>x y. v = PFloat x \<and> map_of d k = Some (PFloat y)"
  proof (clarify)
    fix k v assume kv: "(k, v) \<in> set th"
    have 1: "k \<in> set threshold_keys" "is_level v" using assms(1) kv by (auto simp: level_update_def)
    have "is_level (value_or_none d k)" using assms(2) 1(1) by (simp add: levels_ok_def list_all_iff d_def)
    thus "\<exists>x y. v = PFloat x \<and> map_of d k = Some (PFloat y)"
      using 1(2) by (auto simp: is_level_float value_or_none_def split: option.splits)
  qed
  from section_floats [OF this, of "tx_float tx" "tx_str tx" sect "[]"]
  have "levels_ok (fst (section_loop (tx_float tx) (tx_str tx) sect th (d, []))) = levels_ok (merge_dict d th)"
    by (rule levels_cong)
  moreover have "dict_of (map_of (as_cfg (put_section tx sect th s)) sect) = fst (section_loop (tx_float tx) (tx_str tx) sect th (d, []))"
    using assms(3) by (simp add: put_section_def update_config_section_def d_def case_prod_beta dict_of_def)
  ultimately show ?thesis using assms(1) by (simp add: level_update_def d_def)
qed

lemma put_given_levels:
  assumes "\<And>v. map_of u sect = Some v \<Longrightarrow> \<exists>th. v = PDict th \<and> level_update (dict_of (map_of (as_cfg s) sect)) th"
    "levels_ok (dict_of (map_of (as_cfg s) sect))" "sect \<noteq> []"
  shows "levels_ok (dict_of (map_of (as_cfg (put_given tx sect u s)) sect))"
proof (cases "map_of u sect")
  case (Some v)
  with assms(1) obtain th where "v = PDict th" "level_update (dict_of (map_of (as_cfg s) sect)) th" by blast
  with Some put_section_levels [OF _ assms(2,3)] show ?thesis by (simp add: put_given_def)
qed (use assms(2) in \<open>simp add: put_given_def\<close>)

definition avoids :: "string \<Rightarrow> py_error + pydict \<Rightarrow> bool" where
  \<comment> \<open>a piece of the updates without the key\<close>
  "avoids k m \<longleftrightarrow> (\<forall>a v. m = Inr a \<longrightarrow> (k, v) \<notin> set a)"

lemma gather_pick:
  assumes "gather xs = Inr u" "(k, v) \<in> set u" "\<forall>y\<in>set xs. y = x \<or> avoids k y"
  shows "\<exists>a. x = Inr a \<and> (k, v) \<in> set a"
  using gather_entry [OF assms(1,2)] assms(3) by (auto simp: avoids_def)

lemma avoids_scalar [simp]: "k \<noteq> k' \<Longrightarrow> avoids k (scalar_field tx lo hi body k')"
  by (auto simp: avoids_def scalar_field_def dest: field_loop_entry simp del: field_loop.simps)

lemma in_dict_entry: "in_dict body k f = Inr a \<Longrightarrow> e \<in> set a \<Longrightarrow> \<exists>d. f d = Inr a"
  by (auto simp: in_dict_def split: pyval.splits)

lemma needs_dict_entry: "needs_dict body k f = Inr a \<Longrightarrow> e \<in> set a \<Longrightarrow> \<exists>d. f d = Inr a"
  by (auto simp: needs_dict_def split: option.splits pyval.splits)

lemma avoids_in_dict: "(\<And>d. avoids k (f d)) \<Longrightarrow> avoids k (in_dict body k' f)"
  by (auto simp: avoids_def dest!: in_dict_entry)

lemma avoids_needs_dict: "(\<And>d. avoids k (f d)) \<Longrightarrow> avoids k (needs_dict body k' f)"
  by (auto simp: avoids_def dest!: needs_dict_entry)

lemma avoids_part: "k \<noteq> k' \<Longrightarrow> avoids k (bindE m (\<lambda>r. Inr (part k' r)))"
  by (auto simp: avoids_def bindE_Inr_iff part_def)

lemma avoids_levels: "k \<noteq> sect \<Longrightarrow> avoids k (levels_part tx cfg sect d)"
  by (auto simp: avoids_def levels_part_def bindE_Inr_iff split: if_splits)

lemma avoids_network_levels: "k \<noteq> ''network_thresholds'' \<Longrightarrow> avoids k (network_levels tx cfg d)"
  by (auto simp: avoids_def network_levels_def bindE_Inr_iff Let_def split: if_splits)

lemmas avoids_pieces = avoids_in_dict avoids_needs_dict avoids_part avoids_levels avoids_network_levels

lemma system_levels_checked:
  assumes "validate_system_pressure_config tx cfg body = Inr u" "map_of u ''thresholds'' = Some v"
    "levels_ok (dict_of (map_of cfg ''thresholds''))"
  shows "\<exists>th. v = PDict th \<and> level_update (dict_of (map_of cfg ''thresholds'')) th"
proof -
  have "(''thresholds'', v) \<in> set u" using assms(2) by (rule map_of_SomeD)
  from gather_pick [OF some_update_Inr [OF assms(1) [unfolded validate_system_pressure_config_def]] this, of "in_dict body ''thresholds'' (levels_part tx cfg ''thresholds'')"]
  obtain a where a: "in_dict body ''thresholds'' (levels_part tx cfg ''thresholds'') = Inr a" "(''thresholds'', v) \<in> set a"
    by (auto simp: avoids_pieces simp del: gather.simps)
  with in_dict_entry obtain d where "levels_part tx cfg ''thresholds'' d = Inr a" by blast
  from levels_part_ok [OF this a(2) assms(3)] show ?thesis by simp
qed

lemma disk_levels_checked:
  assumes "validate_disk_pressure_config tx cfg body = Inr u" "map_of u ''disk_thresholds'' = Some v"
    "levels_ok (dict_of (map_of cfg ''disk_thresholds''))"
  shows "\<exists>th. v = PDict th \<and> level_update (dict_of (map_of cfg ''disk_thresholds'')) th"
proof -
  have "(''disk_thresholds'', v) \<in> set u" using assms(2) by (rule map_of_SomeD)
  from gather_pick [OF some_update_Inr [OF assms(1) [unfolded validate_disk_pressure_config_def]] this, of "in_dict body ''disk_thresholds'' (levels_part tx cfg ''disk_thresholds'')"]
  obtain a where a: "in_dict body ''disk_thresholds'' (levels_part tx cfg ''disk_thresholds'') = Inr a" "(''disk_thresholds'', v) \<in> set a"
    by (auto simp: avoids_pieces simp del: gather.simps)
  with in_dict_entry obtain d where "levels_part tx cfg ''disk_thresholds'' d = Inr a" by blast
  from levels_part_ok [OF this a(2) assms(3)] show ?thesis by simp
qed

lemma network_levels_checked:
  assumes "validate_network_pressure_config tx cfg body = Inr u" "map_of u ''network_thresholds'' = Some v"
    "levels_ok (dict_of (map_of cfg ''network_thresholds''))"
  shows "\<exists>th. v = PDict th \<and> level_update (dict_of (map_of cfg ''network_thresholds'')) th"
proof -
  have "(''network_thresholds'', v) \<in> set u" using assms(2) by (rule map_of_SomeD)
  from gather_pick [OF some_update_Inr [OF assms(1) [unfolded validate_network_pressure_config_def]] this, of "needs_dict body ''network_thresholds'' (network_levels tx cfg)"]
  obtain a where a: "needs_dict body ''network_thresholds'' (network_levels tx cfg) = Inr a" "(''network_thresholds'', v) \<in> set a"
    by (auto simp: avoids_pieces simp del: gather.simps)
  with needs_dict_entry obtain d where "network_levels tx cfg d = Inr a" by blast
  from network_levels_ok [OF this a(2) assms(3)] show ?thesis by simp
qed

subsection \<open>Requests keep the levels\<close>

definition level_sections :: "string list" where
  "level_sections = [''thresholds'', ''disk_thresholds'', ''network_thresholds'']"

definition levels_in :: "pydict \<Rightarrow> bool" where
  "levels_in cfg \<longleftrightarrow> list_all (\<lambda>sect. levels_ok (dict_of (map_of cfg sect))) level_sections"

lemma levels_in_iff:
  "levels_in cfg \<longleftrightarrow> levels_ok (dict_of (map_of cfg ''thresholds'')) \<and> levels_ok (dict_of (map_of cfg ''disk_thresholds''))
     \<and> levels_ok (dict_of (map_of cfg ''network_thresholds''))"
  by (simp add: levels_in_def level_sections_def)

lemma levels_frame: "(\<And>k. k \<in> set level_sections \<Longrightarrow> map_of cfg' k = map_of cfg k) \<Longrightarrow> levels_in cfg \<Longrightarrow> levels_in cfg'"
  by (simp add: levels_in_def list_all_iff)

lemma system_keeps_levels:
  assumes "validate_system_pressure_config tx (as_cfg s) body = Inr u" "levels_in (as_cfg s)"
  shows "levels_in (as_cfg (snd (write_system_pressure_config tx u s)))"
proof -
  have lv: "levels_ok (dict_of (map_of (as_cfg s) ''thresholds''))" using assms(2) by (simp add: levels_in_iff)
  define s1 where "s1 = put_given tx ''thresholds'' u s"
  have 1: "levels_ok (dict_of (map_of (as_cfg s1) ''thresholds''))"
    unfolding s1_def using put_given_levels [OF system_levels_checked [OF assms(1) _ lv] lv] by simp
  define us where "us = List.map_filter (\<lambda>k. map_option (Pair k) (map_of u k)) scalar_keys"
  have other: "map_of (fst (scalar_loop parse us st)) k = map_of (fst st) k" if "k \<in> set level_sections" for k parse st
  proof (rule scalar_other)
    have "list_all (\<lambda>k. k \<notin> set scalar_keys) level_sections" by code_simp
    thus "k \<notin> fst ` set us" using scalars_in [of u scalar_keys] that by (auto simp: us_def list_all_iff)
  qed
  have "''thresholds'' \<in> set level_sections" by (simp add: level_sections_def)
  hence "map_of (as_cfg (snd (write_system_pressure_config tx u s))) ''thresholds'' = map_of (as_cfg s1) ''thresholds''"
    by (simp add: write_system_pressure_config_def Let_def update_top_level_scalars_def case_prod_beta us_def [symmetric] other s1_def)
  moreover have "map_of (as_cfg (snd (write_system_pressure_config tx u s))) k = map_of (as_cfg s) k"
    if "k \<in> {''disk_thresholds'', ''network_thresholds''}" for k
    using that by (elim insertE) (simp_all add: write_system_other scalar_keys_def)
  ultimately show ?thesis using 1 assms(2) by (simp add: levels_in_iff)
qed

lemma disk_keeps_levels:
  assumes "validate_disk_pressure_config tx (as_cfg s) body = Inr u" "levels_in (as_cfg s)"
  shows "levels_in (as_cfg (snd (write_disk_pressure_config tx u s)))"
proof -
  have lv: "levels_ok (dict_of (map_of (as_cfg s) ''disk_thresholds''))" using assms(2) by (simp add: levels_in_iff)
  define s1 where "s1 = put_given tx ''disk_thresholds'' u s"
  have 1: "levels_ok (dict_of (map_of (as_cfg s1) ''disk_thresholds''))"
    unfolding s1_def using put_given_levels [OF disk_levels_checked [OF assms(1) _ lv] lv] by simp
  have "map_of (as_cfg (snd (write_disk_pressure_config tx u s))) ''disk_thresholds'' = map_of (as_cfg s1) ''disk_thresholds''"
    by (simp add: write_disk_pressure_config_def Let_def set_disk_pressure_model_def nested_other s1_def split: option.split pyval.split)
  thus ?thesis using 1 assms(2) by (simp add: levels_in_iff write_disk_other)
qed

lemma network_keeps_levels:
  assumes "validate_network_pressure_config tx (as_cfg s) body = Inr u" "levels_in (as_cfg s)"
  shows "levels_in (as_cfg (snd (write_network_pressure_config tx u s)))"
proof -
  have lv: "levels_ok (dict_of (map_of (as_cfg s) ''network_thresholds''))" using assms(2) by (simp add: levels_in_iff)
  have "levels_ok (dict_of (map_of (as_cfg (put_given tx ''network_thresholds'' u s)) ''network_thresholds''))"
    using put_given_levels [OF network_levels_checked [OF assms(1) _ lv] lv] by simp
  thus ?thesis using assms(2) by (simp add: levels_in_iff write_network_pressure_config_def)
qed

lemma spec_keeps_levels:
  assumes "spec_validate e sp (as_cfg s) body = Inr u" "levels_in (as_cfg s)"
  shows "levels_in (as_cfg (snd (spec_write (ae_text e) sp u s)))"
proof (cases "sp \<in> {System_pressure, Disk_pressure_spec, Network_pressure}")
  case True
  thus ?thesis using assms system_keeps_levels disk_keeps_levels network_keeps_levels by (elim insertE) auto
next
  case False
  have "list_all (\<lambda>k. k \<notin> {''limit_policy'', ''diagnostic_events'', ''diagnostic_rules'', ''network_interfaces''}) level_sections"
    by code_simp
  moreover have "k \<notin> policy_keys" if "k \<in> set level_sections" for k
    using that by (auto simp: level_sections_def policy_keys_def)
  ultimately have "k \<notin> touches sp" if "k \<in> set level_sections" for k
    using that False by (cases sp) (auto simp: list_all_iff)
  from levels_frame [OF spec_write_other [OF this] assms(2)] show ?thesis by simp
qed

subsection \<open>Requests of every kind\<close>

lemma handle_cfg_cases:
  assumes "\<And>sp u e body. spec_validate e sp (as_cfg s) body = Inr u \<Longrightarrow> P (as_cfg s) \<Longrightarrow> P (as_cfg (snd (spec_write (ae_text e) sp u s)))"
    and frame: "\<And>cfg. P (as_cfg s) \<Longrightarrow>
      (\<forall>k. k \<notin> {''weights_top'', ''passive_resource_control'', ''monitored_sections''} \<longrightarrow> map_of cfg k = map_of (as_cfg s) k) \<Longrightarrow> P cfg"
    and P: "P (as_cfg s)"
  shows "P (as_cfg (snd (handle e r s)))"
proof -
  have fin: "as_cfg (snd (finish_save e sect s1)) = as_cfg s1" for sect s1
    by (simp add: finish_save_def bump_config_updated_at_def write_settings_file_def split: option.split)
  show ?thesis
  proof (cases r)
    case (Post sect d)
    show ?thesis
    proof (cases "\<exists>sp body u. config_specs sect = Some sp \<and> d = PDict body \<and> spec_validate e sp (as_cfg s) body = Inr u")
      case True
      then obtain sp body u where o: "config_specs sect = Some sp" "d = PDict body" "spec_validate e sp (as_cfg s) body = Inr u"
        by blast
      from assms(1) [OF o(3) P] show ?thesis
        by (simp add: Post update_config_generic_def o fin P case_prod_beta split: option.split bool.split)
    next
      case False
      hence "as_cfg (snd (update_config_generic e sect d s)) = as_cfg s"
        by (auto simp: update_config_generic_def split: option.split pyval.split sum.split py_error.split)
      thus ?thesis by (simp add: Post P)
    qed
  next
    case (Post_weights d)
    have "P (as_cfg (put_section (ae_text e) ''weights_top'' u s))" for u by (rule frame [OF P]) simp
    thus ?thesis
      using P by (simp add: Post_weights update_weights_top_def fin split: pyval.split sum.split option.split del: top_weights.simps)
  next
    case (Post_passive d)
    have "P (as_cfg (put_section (ae_text e) ''passive_resource_control'' u s))" for u by (rule frame [OF P]) simp
    thus ?thesis using P by (simp add: Post_passive update_passive_control_def fin split: pyval.split sum.split option.split)
  next
    case (Post_retention d)
    have "as_cfg (snd (load_retention_settings s)) = as_cfg s" "as_cfg (snd (save_retention_settings e i s)) = as_cfg s" for i
      by (simp_all add: load_retention_settings_def save_retention_settings_def write_settings_file_def Let_def split: option.split)
    hence "as_cfg (snd (set_history_retention e d s)) = as_cfg s"
      by (simp add: set_history_retention_def case_prod_beta split: pyval.split sum.split option.split reply.split)
    thus ?thesis by (simp add: Post_retention P)
  next
    case (Post_monitored d)
    have st: "as_cfg (snd (get_monitored_sections_updated_at e s')) = as_cfg s'" for s'
      by (simp add: get_monitored_sections_updated_at_def Let_def write_settings_file_def)
    have set: "map_of (fst (snd (set_monitored_sections xs st))) k = map_of (fst st) k" if "k \<noteq> ''monitored_sections''" for xs st k
      using that by (cases st) (simp add: set_monitored_sections_def Let_def case_prod_beta split: option.split)
    obtain c s1 where g: "get_monitored_sections_updated_at e s = (c, s1)" by fastforce
    have s1: "as_cfg s1 = as_cfg s" using st [of s] by (simp add: g)
    have "P (fst (snd (set_monitored_sections xs (as_cfg s, as_yaml s1))))" for xs
      by (rule frame [OF P]) (simp add: set)
    thus ?thesis
      using P by (simp add: Post_monitored update_monitored_sections_config_def Let_def g s1 st case_prod_beta
          split: pyval.split option.split bool.split)
  qed
qed

lemma handle_keeps_levels: "levels_in (as_cfg s) \<Longrightarrow> levels_in (as_cfg (snd (handle e r s)))"
proof (rule handle_cfg_cases [where P = levels_in])
  have other: "list_all (\<lambda>k. k \<notin> {''weights_top'', ''passive_resource_control'', ''monitored_sections''}) level_sections"
    by code_simp
  show "levels_in cfg" if "levels_in (as_cfg s)"
    "\<forall>k. k \<notin> {''weights_top'', ''passive_resource_control'', ''monitored_sections''} \<longrightarrow> map_of cfg k = map_of (as_cfg s) k" for cfg
    using levels_frame [OF _ that(1)] that(2) other by (simp add: list_all_iff)
qed (use spec_keeps_levels in auto)

text \<open>The two parts of that invariant, read off the settings without regard to the type they are stored with, and the type.
  The loader reads a level that the file holds as \<open>1\<close> as a whole number.\<close>

definition level_numbers :: "pydict \<Rightarrow> string \<Rightarrow> real option list" where
  "level_numbers cfg sect = map (\<lambda>k. as_number (value_or_none (dict_of (map_of cfg sect)) k)) threshold_keys"

definition levels_ordered :: "pydict \<Rightarrow> bool" where
  \<comment> \<open>all four there, above 0 and at most 1, from low to critical\<close>
  "levels_ordered cfg \<longleftrightarrow> list_all (\<lambda>sect. list_all (\<lambda>v. case v of Some x \<Rightarrow> unit_value x | None \<Rightarrow> False) (level_numbers cfg sect)
     \<and> sorted (map the (level_numbers cfg sect))) level_sections"

definition levels_stored_as_floats :: "pydict \<Rightarrow> bool" where
  "levels_stored_as_floats cfg \<longleftrightarrow> list_all (\<lambda>sect. list_all (\<lambda>k. case value_or_none (dict_of (map_of cfg sect)) k of
     PFloat x \<Rightarrow> True | _ \<Rightarrow> False) threshold_keys) level_sections"

lemma levels_ok_split:
  "levels_ok (dict_of (map_of cfg sect)) \<longleftrightarrow>
     (list_all (\<lambda>v. case v of Some x \<Rightarrow> unit_value x | None \<Rightarrow> False) (level_numbers cfg sect) \<and> sorted (map the (level_numbers cfg sect)))
   \<and> list_all (\<lambda>k. case value_or_none (dict_of (map_of cfg sect)) k of PFloat x \<Rightarrow> True | _ \<Rightarrow> False) threshold_keys"
    (is "?ok \<longleftrightarrow> ?ordered \<and> ?floats")
proof (cases ?floats)
  case True
  define v where "v k = value_or_none (dict_of (map_of cfg sect)) k" for k
  have f: "\<exists>x. v k = PFloat x" if "k \<in> set threshold_keys" for k
  proof -
    have "case v k of PFloat x \<Rightarrow> True | _ \<Rightarrow> False" using True that by (simp add: list_all_iff v_def)
    then show ?thesis by (cases "v k") simp_all
  qed
  have n: "as_number (v k) = Some (level_at (dict_of (map_of cfg sect)) k)" if "k \<in> set threshold_keys" for k
    using f [OF that] by (auto simp: level_at_def v_def)
  have lv: "level_numbers cfg sect = map (\<lambda>k. Some (level_at (dict_of (map_of cfg sect)) k)) threshold_keys"
    using n by (simp add: level_numbers_def v_def)
  have "is_level (v k) \<longleftrightarrow> unit_value (level_at (dict_of (map_of cfg sect)) k)" if "k \<in> set threshold_keys" for k
    using f [OF that] by (auto simp: is_level_def level_at_def v_def)
  then show ?thesis using True by (simp add: levels_ok_def lv list_all_iff comp_def v_def)
next
  case False
  then have "\<not> ?ok" by (fastforce simp: levels_ok_def list_all_iff is_level_float split: pyval.splits)
  then show ?thesis using False by blast
qed

lemma levels_in_split: "levels_in cfg \<longleftrightarrow> levels_ordered cfg \<and> levels_stored_as_floats cfg"
  unfolding levels_in_def levels_ordered_def levels_stored_as_floats_def levels_ok_split by (auto simp: list_all_iff)

text \<open>C28: 
  Between two loads of the settings file the levels of the system, disk and network pressure stay as they have to be,
  whatever clients send and in whatever order: when all four levels of each are there, each above 0 and at most 1, low
  \<open>\<le>\<close> medium \<open>\<le>\<close> high \<open>\<le>\<close> critical, and all are stored as floats, then both remain so. The condition on the type
  is needed, and a reload can end it: 1.0 is written to the file as \<open>1\<close> and read back as a whole number, and then
  a client's 0.9 is stored as 0 (\<open>threshold_cut_to_zero\<close> in theory \<open>Config_Store\<close>).
\<close>
theorem levels_stay_ordered:
  assumes "levels_ordered (as_cfg s)" and "levels_stored_as_floats (as_cfg s)"
  shows "levels_ordered (as_cfg (handle_all rs s)) \<and> levels_stored_as_floats (as_cfg (handle_all rs s))"
proof -
  have "levels_in (as_cfg s) \<Longrightarrow> levels_in (as_cfg (handle_all rs s))"
    by (induction rs s rule: handle_all.induct) (simp_all add: handle_keeps_levels)
  then show ?thesis using assms by (simp add: levels_in_split)
qed

subsection \<open>The weights of the disk model\<close>

definition sub_table :: "pydict \<Rightarrow> pydict" where
  "sub_table d = dict_of (map_of d ''sub_weights'')"

definition default_sub_weight :: "string \<Rightarrow> real" where
  "default_sub_weight k = (if k = ''latency'' then 55/100 else if k = ''queue'' then 35/100 else 10/100)"

definition sub_weight :: "pydict \<Rightarrow> string \<Rightarrow> real" where
  "sub_weight d k = num_or (value_or_none (sub_table d) k) (default_sub_weight k)"

lemma model_weights:
  "dm_w_latency (disk_model_of (value_or_none cfg sect)) = sub_weight (dict_of (map_of cfg sect)) ''latency''"
  "dm_w_queue (disk_model_of (value_or_none cfg sect)) = sub_weight (dict_of (map_of cfg sect)) ''queue''"
  "dm_w_util (disk_model_of (value_or_none cfg sect)) = sub_weight (dict_of (map_of cfg sect)) ''util''"
proof -
  have pg: "pget (if is_dict (pget v ''sub_weights'') then pget v ''sub_weights'' else PDict []) k
      = value_or_none (sub_table (dict_of (Some v))) k" for v k
  proof (cases v)
    case (PDict d)
    thus ?thesis
      by (cases "map_of d ''sub_weights''") (auto simp: sub_table_def dict_of_def value_or_none_def split: pyval.split option.split)
  qed (simp_all add: sub_table_def dict_of_def value_or_none_def)
  have d: "dict_of (Some (if truthy (value_or_none cfg sect) then value_or_none cfg sect else PDict [])) = dict_of (map_of cfg sect)"
  proof (cases "map_of cfg sect")
    case (Some v)
    thus ?thesis by (cases v) (auto simp: dict_of_def value_or_none_def)
  qed (simp add: dict_of_def value_or_none_def)
  show "dm_w_latency (disk_model_of (value_or_none cfg sect)) = sub_weight (dict_of (map_of cfg sect)) ''latency''"
    "dm_w_queue (disk_model_of (value_or_none cfg sect)) = sub_weight (dict_of (map_of cfg sect)) ''queue''"
    "dm_w_util (disk_model_of (value_or_none cfg sect)) = sub_weight (dict_of (map_of cfg sect)) ''util''"
    by (simp_all only: disk_model_of_def Let_def disk_model.simps pg d sub_weight_def default_sub_weight_def) simp_all
qed

lemma py_eq_float: "py_eq v (PFloat x) \<longleftrightarrow> as_number v = Some x"
proof (cases v)
  case (PList xs)
  thus ?thesis by (cases xs) simp_all
qed simp_all

lemma put_if_new_number:
  "as_number (value_or_none (put_if_new k (PFloat x) d) k') = (if k' = k then Some x else as_number (value_or_none d k'))"
  by (auto simp: put_if_new_def py_eq_float value_or_none_def)

fun sub_put :: "leaf_op \<Rightarrow> pydict \<Rightarrow> pydict" where
  "sub_put (Put [p] k v) d = put_if_new k v d"
| "sub_put _ d = d"

definition model_op :: "leaf_op \<Rightarrow> bool" where
  \<comment> \<open>the shapes of the leaves of the disk model\<close>
  "model_op x \<longleftrightarrow>
     (case x of
        Touch ps k \<Rightarrow> ps = [] \<and> k = ''sub_weights''
      | Put ps k v \<Rightarrow> ps = [''sub_weights''] \<or> ps = [] \<and> k \<noteq> ''sub_weights'')"

definition odd_table :: "pydict \<Rightarrow> bool" where
  \<comment> \<open>the attribute is there and no table\<close>
  "odd_table d \<longleftrightarrow> (case map_of d ''sub_weights'' of None \<Rightarrow> False | Some v \<Rightarrow> \<not> is_dict v)"

lemma odd_step:
  assumes "odd_table d" "model_op x" "leaf_step False x (d, wr) = Some (d', wr')"
  shows "odd_table d' \<and> sub_table d' = sub_table d"
proof (cases x)
  case (Touch ps k)
  with assms show ?thesis
    by (auto simp: model_op_def open_dict_def odd_table_def sub_table_def split: option.splits pyval.splits)
next
  case (Put ps k v)
  with assms show ?thesis
    by (auto simp: model_op_def put_if_new_def odd_table_def sub_table_def split: option.splits pyval.splits if_splits)
qed

lemma model_step:
  assumes "\<not> odd_table d" "model_op x"
  shows "\<exists>d' wr'. leaf_step False x (d, wr) = Some (d', wr') \<and> \<not> odd_table d' \<and> sub_table d' = sub_put x (sub_table d)"
proof (cases x)
  case (Touch ps k)
  with assms show ?thesis
    by (auto simp: model_op_def open_dict_def odd_table_def sub_table_def dict_of_def split: option.splits pyval.splits)
next
  case (Put ps k v)
  with assms show ?thesis
    by (auto simp: model_op_def put_if_new_def odd_table_def sub_table_def dict_of_def split: option.splits pyval.splits if_splits)
qed

lemma odd_steps:
  "odd_table d \<Longrightarrow> list_all model_op ops \<Longrightarrow> sub_table (fst (snd (leaf_steps False ops (d, wr)))) = sub_table d"
proof (induction ops arbitrary: d wr)
  case (Cons x ops)
  show ?case
  proof (cases "leaf_step False x (d, wr)")
    case (Some st)
    obtain d' wr' where st: "st = (d', wr')" by (cases st) auto
    with odd_step [OF Cons.prems(1) _ Some [unfolded st]] Cons.prems Cons.IH [of d' wr'] Some show ?thesis by simp
  qed simp
qed simp

lemma model_steps:
  "\<not> odd_table d \<Longrightarrow> list_all model_op ops \<Longrightarrow>
   \<exists>d' wr'. leaf_steps False ops (d, wr) = (False, d', wr') \<and> sub_table d' = foldl (\<lambda>e x. sub_put x e) (sub_table d) ops"
proof (induction ops arbitrary: d wr)
  case (Cons x ops)
  obtain d1 wr1 where s: "leaf_step False x (d, wr) = Some (d1, wr1)" "\<not> odd_table d1" "sub_table d1 = sub_put x (sub_table d)"
    using model_step [OF Cons.prems(1), of x wr] Cons.prems(2) by auto
  from Cons.IH [OF s(2)] Cons.prems(2) s show ?case by simp
qed simp

definition sub_update :: "pydict \<Rightarrow> bool" where
  \<comment> \<open>what the check of the weights lets through\<close>
  "sub_update sw \<longleftrightarrow> (\<forall>(k, v)\<in>set sw. k \<in> set disk_sub_weight_keys \<and> (\<exists>x. v = PFloat x \<and> ratio_value x))"

definition sub_ops :: "(string \<Rightarrow> real option) \<Rightarrow> pydict \<Rightarrow> leaf_op list" where
  "sub_ops parse sw = each_key disk_sub_weight_keys sw (float_put parse [''sub_weights''])"

lemma sub_ops_effect:
  assumes "sub_update sw" "k \<in> set disk_sub_weight_keys"
  shows "num_or (value_or_none (foldl (\<lambda>e x. sub_put x e) d (sub_ops parse sw)) k) z
       = (case map_of sw k of Some v \<Rightarrow> num_or v 0 | None \<Rightarrow> num_or (value_or_none d k) z)"
proof -
  have num: "num_or (value_or_none (put_if_new k (PFloat x) d) k') z = (if k' = k then x else num_or (value_or_none d k') z)"
    for k k' x d by (simp add: num_or_def put_if_new_number)
  have fl: "\<exists>x. v = PFloat x" if "map_of sw k = Some v" for k v
    using assms(1) map_of_SomeD [OF that] by (auto simp: sub_update_def)
  have put: "float_put parse [''sub_weights''] k v = (case v of PFloat x \<Rightarrow> [Put [''sub_weights''] k v] | _ \<Rightarrow> float_put parse [''sub_weights''] k v)" for k v
    by (cases v) (simp_all add: float_put_def)
  define one where "one k e = (case map_of sw k of Some (PFloat x) \<Rightarrow> put_if_new k (PFloat x) e | _ \<Rightarrow> e)" for k e
  have step: "foldl (\<lambda>e x. sub_put x e) e (case map_of sw k of None \<Rightarrow> [] | Some v \<Rightarrow> float_put parse [''sub_weights''] k v) = one k e" for k e
  proof (cases "map_of sw k")
    case (Some v)
    with fl obtain x where "v = PFloat x" by blast
    with Some show ?thesis by (simp add: one_def float_put_def)
  qed (simp add: one_def)
  have all: "foldl (\<lambda>e x. sub_put x e) d (sub_ops parse sw) = one ''util'' (one ''queue'' (one ''latency'' d))"
    by (simp add: sub_ops_def each_key_def disk_sub_weight_keys_def step)
  have other: "k' \<noteq> k \<Longrightarrow> num_or (value_or_none (one k e) k') z = num_or (value_or_none e k') z" for k k' e
    by (simp add: one_def num split: option.split pyval.split)
  have same: "num_or (value_or_none (one k e) k) z
      = (case map_of sw k of Some v \<Rightarrow> num_or v 0 | None \<Rightarrow> num_or (value_or_none e k) z)" for k e
  proof (cases "map_of sw k")
    case (Some v)
    with fl obtain x where "v = PFloat x" by blast
    with Some show ?thesis by (simp add: one_def num) (simp add: num_or_def)
  qed (simp add: one_def)
  consider "k = ''latency''" | "k = ''queue''" | "k = ''util''" using assms(2) by (auto simp: disk_sub_weight_keys_def)
  thus ?thesis unfolding all by cases (simp_all only: same other list.inject char.inject simp_thms)
qed

lemma field_loop_keys: "field_loop f ks body = Inr r \<Longrightarrow> map fst r = filter (\<lambda>k. value_or_none body k \<noteq> PNone) ks"
  by (induction ks arbitrary: r) (auto simp: bindE_Inr_iff split: if_splits)

lemma merge_keys: "set (map fst u) \<subseteq> set (map fst d) \<Longrightarrow> map fst (merge_dict d u) = map fst d"
  unfolding merge_dict_def
proof (induction u arbitrary: d)
  case (Cons x u)
  obtain k v where x: "x = (k, v)" by fastforce
  have k: "map fst (AList.update k v d) = map fst d"
    using Cons.prems unfolding update_keys by (simp add: x del: set_map)
  have "set (map fst u) \<subseteq> set (map fst (AList.update k v d))" using Cons.prems by (simp add: k del: set_map)
  from Cons.IH [OF this] show ?case unfolding x by (simp add: k)
qed simp

lemma map_of_keys: "distinct (map fst d) \<Longrightarrow> map (\<lambda>k. (k, the (map_of d k))) (map fst d) = d"
  unfolding map_map by (rule map_idI) (auto simp: map_of_is_SomeI)

lemma map_of_rev_keys: "distinct (map fst d) \<Longrightarrow> map_of (rev d) = map_of d"
  by (subst map_of_inject_set) (simp_all add: rev_map [symmetric])

lemma total_merged:
  assumes "sub_update sw" "distinct (map fst sw)"
  shows "total_of (merge_dict (current_sub_weights cfg) sw)
       = (\<Sum>k\<leftarrow>disk_sub_weight_keys. case map_of sw k of Some v \<Rightarrow> num_or v 0
            | None \<Rightarrow> sub_weight (dict_of (map_of cfg ''disk_pressure_model'')) k)"
proof -
  define cur where "cur = current_sub_weights cfg"
  have ck: "map fst cur = disk_sub_weight_keys"
    by (simp add: cur_def current_sub_weights_def Let_def disk_sub_weight_keys_def)
  have mk: "map fst (merge_dict cur sw) = disk_sub_weight_keys"
    using merge_keys [of sw cur] assms(1) ck by (fastforce simp: sub_update_def)
  have dist: "distinct disk_sub_weight_keys" by (simp add: disk_sub_weight_keys_def)
  have cv: "map_of cur k = Some (PFloat (sub_weight (dict_of (map_of cfg ''disk_pressure_model'')) k))"
    if "k \<in> set disk_sub_weight_keys" for k
    using that by (auto simp: cur_def current_sub_weights_def Let_def disk_sub_weight_keys_def model_weights)
  have mv: "map_of (merge_dict cur sw) k = (case map_of sw k of Some v \<Rightarrow> Some v | None \<Rightarrow> map_of cur k)" for k
    by (simp add: map_of_merge map_of_rev_keys [OF assms(2)] split: option.split)
  have "total_of (merge_dict cur sw) = total_of (map (\<lambda>k. (k, the (map_of (merge_dict cur sw) k))) disk_sub_weight_keys)"
    using map_of_keys [of "merge_dict cur sw"] by (simp add: mk dist)
  also have "\<dots> = (\<Sum>k\<leftarrow>disk_sub_weight_keys. num_or (the (map_of (merge_dict cur sw) k)) 0)"
    by (simp add: total_of_def o_def)
  also have "\<dots> = (\<Sum>k\<leftarrow>disk_sub_weight_keys. case map_of sw k of Some v \<Rightarrow> num_or v 0
            | None \<Rightarrow> sub_weight (dict_of (map_of cfg ''disk_pressure_model'')) k)"
  proof (rule arg_cong [where f = sum_list], rule map_cong [OF refl])
    fix k assume "k \<in> set disk_sub_weight_keys"
    thus "num_or (the (map_of (merge_dict cur sw) k)) 0 = (case map_of sw k of Some v \<Rightarrow> num_or v 0
            | None \<Rightarrow> sub_weight (dict_of (map_of cfg ''disk_pressure_model'')) k)"
      by (simp add: mv cv num_or_def split: option.split)
  qed
  finally show ?thesis by (simp add: cur_def)
qed

definition sub_weights_sound :: "pydict \<Rightarrow> bool" where
  \<comment> \<open>the weights in force, none negative, together at most 1, up to the tolerance of the check\<close>
  "sub_weights_sound cfg \<longleftrightarrow>
     (let m = disk_model_of (value_or_none cfg ''disk_pressure_model'')
      in 0 \<le> dm_w_latency m \<and> 0 \<le> dm_w_queue m \<and> 0 \<le> dm_w_util m
         \<and> dm_w_latency m + dm_w_queue m + dm_w_util m \<le> 1 + 1 / 10 ^ 9)"

lemma sub_weights_sound_iff:
  "sub_weights_sound cfg \<longleftrightarrow>
     list_all (\<lambda>k. 0 \<le> sub_weight (dict_of (map_of cfg ''disk_pressure_model'')) k) disk_sub_weight_keys
     \<and> (\<Sum>k\<leftarrow>disk_sub_weight_keys. sub_weight (dict_of (map_of cfg ''disk_pressure_model'')) k) \<le> 1 + 1 / 10 ^ 9"
  by (simp add: sub_weights_sound_def Let_def model_weights disk_sub_weight_keys_def add.assoc)

lemma dict_of_dict: "dict_of (Some (PDict d)) = d" by (simp add: dict_of_def)

lemma set_model_keeps:
  assumes "sub_weights_sound cfg"
    "\<And>w. map_of m ''sub_weights'' = Some w \<Longrightarrow> \<exists>sw. w = PDict sw \<and> sub_update sw \<and> distinct (map fst sw)
       \<and> total_of (merge_dict (current_sub_weights cfg) sw) \<le> 1 + 1 / 10 ^ 9"
  shows "sub_weights_sound (snd (snd (set_disk_pressure_model parse m cfg)))"
proof -
  define d where "d = dict_of (map_of cfg ''disk_pressure_model'')"
  define rest where "rest = each_key [''sigmoid_k'', ''max_p_weight''] m (float_put parse [])"
  define ops where "ops = when_dict m ''sub_weights'' (\<lambda>sw. Touch [] ''sub_weights'' # sub_ops parse sw) @ rest"
  have result: "set_disk_pressure_model parse m cfg = (if m = [] then (Some False, [], cfg) else nested_update ''disk_pressure_model'' False ops cfg)"
    by (simp add: set_disk_pressure_model_def ops_def rest_def sub_ops_def disk_sub_weight_keys_def)
  have shape: "list_all model_op ops"
    by (auto simp: ops_def rest_def when_dict_def sub_ops_def each_key_def float_put_def model_op_def list_all_iff
        split: option.splits pyval.splits sum.splits)
  have kept: "sub_weights_sound cfg'" if "sub_table (dict_of (map_of cfg' ''disk_pressure_model'')) = sub_table d" for cfg'
    using assms(1) that by (simp add: sub_weights_sound_iff sub_weight_def d_def)
  obtain r d' wr' where st: "leaf_steps False ops (d, []) = (r, d', wr')" by (metis prod_cases3)
  have out: "dict_of (map_of (snd (snd (nested_update ''disk_pressure_model'' False ops cfg))) ''disk_pressure_model'')
      = (if r \<and> map_of cfg ''disk_pressure_model'' \<noteq> Some (PDict d) then d else d')"
    by (cases r) (simp_all add: nested_update_def d_def [symmetric] st dict_of_dict)
  show ?thesis
  proof (cases "odd_table d")
    case True
    have "sub_table d' = sub_table d" using odd_steps [OF True shape, of "[]"] by (simp add: st)
    thus ?thesis using kept assms(1) out by (simp add: result)
  next
    case False
    from model_steps [OF False shape, of "[]"] have r: "\<not> r" and d': "sub_table d' = foldl (\<lambda>e x. sub_put x e) (sub_table d) ops"
      by (simp_all add: st)
    have rest_id: "foldl (\<lambda>e x. sub_put x e) e rest = e" for e
      by (simp add: rest_def each_key_def float_put_def split: option.split sum.split)
    show ?thesis
    proof (cases "map_of m ''sub_weights''")
      case None
      have "sub_table d' = sub_table d" using d' rest_id by (simp add: ops_def when_dict_def None)
      thus ?thesis using kept assms(1) out by (simp add: result)
    next
      case (Some w)
      from assms(2) [OF Some] obtain sw where sw: "w = PDict sw" "sub_update sw" "distinct (map fst sw)"
        "total_of (merge_dict (current_sub_weights cfg) sw) \<le> 1 + 1 / 10 ^ 9" by blast
      have d'': "sub_table d' = foldl (\<lambda>e x. sub_put x e) (sub_table d) (sub_ops parse sw)"
        using d' rest_id by (simp add: ops_def when_dict_def Some sw(1))
      have new: "sub_weight d' k = (case map_of sw k of Some v \<Rightarrow> num_or v 0 | None \<Rightarrow> sub_weight d k)"
        if "k \<in> set disk_sub_weight_keys" for k
        unfolding sub_weight_def d'' by (rule sub_ops_effect [OF sw(2) that])
      have pos: "0 \<le> sub_weight d' k" if "k \<in> set disk_sub_weight_keys" for k
      proof (cases "map_of sw k")
        case None
        thus ?thesis using new [OF that] assms(1) that by (simp add: sub_weights_sound_iff d_def list_all_iff)
      next
        case (Some v)
        with sw(2) map_of_SomeD [OF Some] have "0 \<le> num_or v 0" by (auto simp: sub_update_def ratio_value_def num_or_def)
        thus ?thesis using new [OF that] Some by simp
      qed
      have "(\<Sum>k\<leftarrow>disk_sub_weight_keys. sub_weight d' k) = total_of (merge_dict (current_sub_weights cfg) sw)"
        unfolding total_merged [OF sw(2,3)] d_def [symmetric]
        by (rule arg_cong [where f = sum_list], rule map_cong [OF refl]) (rule new)
      hence "(\<Sum>k\<leftarrow>disk_sub_weight_keys. sub_weight d' k) \<le> 1 + 1 / 10 ^ 9" using sw(4) by simp
      moreover have "m \<noteq> []" using Some by auto
      ultimately show ?thesis using out r pos by (simp add: result sub_weights_sound_iff list_all_iff)
    qed
  qed
qed

lemma sub_weights_checked:
  assumes "validate_disk_pressure_config tx cfg body = Inr u" "map_of u ''disk_pressure_model'' = Some v"
  shows "\<exists>m. v = PDict m \<and> (\<forall>w. map_of m ''sub_weights'' = Some w \<longrightarrow>
    (\<exists>sw. w = PDict sw \<and> sub_update sw \<and> distinct (map fst sw) \<and> total_of (merge_dict (current_sub_weights cfg) sw) \<le> 1 + 1 / 10 ^ 9))"
proof -
  define inner where "inner mb = gather [in_dict mb ''sub_weights'' (sub_weights_part tx cfg),
                       scalar_field tx 1 50 mb ''sigmoid_k'', scalar_field tx 0 1 mb ''max_p_weight'']" for mb
  define piece where "piece = in_dict body ''disk_pressure_model'' (\<lambda>mb. bindE (inner mb) (\<lambda>m. Inr (part ''disk_pressure_model'' m)))"
  have "(''disk_pressure_model'', v) \<in> set u" using assms(2) by (rule map_of_SomeD)
  from gather_pick [OF some_update_Inr [OF assms(1) [unfolded validate_disk_pressure_config_def]] this, of piece]
  obtain a where a: "piece = Inr a" "(''disk_pressure_model'', v) \<in> set a"
    by (auto simp: avoids_pieces piece_def inner_def simp del: gather.simps)
  with in_dict_entry obtain mb where mb: "bindE (inner mb) (\<lambda>m. Inr (part ''disk_pressure_model'' m)) = Inr a"
    unfolding piece_def by blast
  then obtain m where m: "inner mb = Inr m" and v: "v = PDict m" using a(2) by (auto simp: bindE_Inr_iff part_def split: if_splits)
  have "\<exists>sw. w = PDict sw \<and> sub_update sw \<and> distinct (map fst sw) \<and> total_of (merge_dict (current_sub_weights cfg) sw) \<le> 1 + 1 / 10 ^ 9"
    if w: "map_of m ''sub_weights'' = Some w" for w
  proof -
    have "(''sub_weights'', w) \<in> set m" using w by (rule map_of_SomeD)
    from gather_pick [OF m [unfolded inner_def] this, of "in_dict mb ''sub_weights'' (sub_weights_part tx cfg)"]
    obtain b where b: "in_dict mb ''sub_weights'' (sub_weights_part tx cfg) = Inr b" "(''sub_weights'', w) \<in> set b"
      by (auto simp del: gather.simps)
    with in_dict_entry obtain sb where sb: "sub_weights_part tx cfg sb = Inr b" by blast
    then obtain sw where sw: "field_loop (\<lambda>k. number_in tx ratio_value) disk_sub_weight_keys sb = Inr sw"
      and le: "sw \<noteq> [] \<longrightarrow> total_of (merge_dict (current_sub_weights cfg) sw) \<le> 1 + 1 / 10 ^ 9"
      and bb: "b = part ''sub_weights'' sw"
      by (auto simp: sub_weights_part_def bindE_Inr_iff not_less split: if_splits)
    have "sub_update sw" using sw by (auto simp: sub_update_def dest!: field_loop_entry number_in_float)
    moreover have "distinct (map fst sw)"
      unfolding field_loop_keys [OF sw] by (rule distinct_filter) (simp add: disk_sub_weight_keys_def)
    ultimately show ?thesis using b(2) le by (auto simp: bb part_def split: if_splits)
  qed
  thus ?thesis by (simp add: v)
qed

lemma weights_frame:
  "map_of cfg' ''disk_pressure_model'' = map_of cfg ''disk_pressure_model'' \<Longrightarrow> sub_weights_sound cfg \<Longrightarrow> sub_weights_sound cfg'"
  by (simp add: sub_weights_sound_iff)

lemma spec_keeps_weights:
  assumes "spec_validate e sp (as_cfg s) body = Inr u" "sub_weights_sound (as_cfg s)"
  shows "sub_weights_sound (as_cfg (snd (spec_write (ae_text e) sp u s)))"
proof (cases "sp = Disk_pressure_spec")
  case True
  define s1 where "s1 = put_given (ae_text e) ''disk_thresholds'' u s"
  have s1: "map_of (as_cfg s1) ''disk_pressure_model'' = map_of (as_cfg s) ''disk_pressure_model''" by (simp add: s1_def)
  hence cur: "current_sub_weights (as_cfg s1) = current_sub_weights (as_cfg s)"
    by (simp add: current_sub_weights_def value_or_none_def)
  have ok1: "sub_weights_sound (as_cfg s1)" using weights_frame [OF s1 assms(2)] .
  have "sub_weights_sound (snd (snd (set_disk_pressure_model (tx_float (ae_text e)) m (as_cfg s1))))"
    if "map_of u ''disk_pressure_model'' = Some (PDict m)" for m
    using set_model_keeps [OF ok1, of m] sub_weights_checked [of "ae_text e" "as_cfg s" body u, OF _ that] assms(1)
    by (simp add: True cur)
  thus ?thesis
    using ok1 by (simp add: True write_disk_pressure_config_def Let_def s1_def [symmetric] split: option.split pyval.split)
next
  case False
  have "''disk_pressure_model'' \<notin> set scalar_keys" "''disk_pressure_model'' \<notin> policy_keys"
    by (simp_all add: scalar_keys_def policy_keys_def)
  hence "''disk_pressure_model'' \<notin> touches sp" using False by (cases sp) simp_all
  from weights_frame [OF spec_write_other [OF this] assms(2)] show ?thesis .
qed

lemma handle_keeps_weights: "sub_weights_sound (as_cfg s) \<Longrightarrow> sub_weights_sound (as_cfg (snd (handle e r s)))"
  by (rule handle_cfg_cases [where P = sub_weights_sound]) (use spec_keeps_weights weights_frame in auto)

text \<open>C29: 
  The weights that the pressure of a disk is computed with stay a share of one: whatever clients send, the three
  weights in force, with the defaults where a setting is missing, stay nonnegative and sum to at most 1 (up to the
  \<open>1e-9\<close> that the check allows), which is what the bound of the disk pressure rests on.
\<close>
theorem disk_weights_stay_sound:
  assumes "sub_weights_sound (as_cfg s)"
  shows "sub_weights_sound (as_cfg (handle_all rs s))"
  using assms by (induction rs s rule: handle_all.induct) (simp_all add: handle_keeps_weights)

subsection \<open>Concrete runs\<close>

definition four_levels :: pydict where
  "four_levels = [(''low'', PFloat (3/10)), (''medium'', PFloat (1/2)), (''high'', PFloat (7/10)), (''critical'', PFloat (9/10))]"

definition level_state :: api_state where
  "level_state = idle_state\<lparr>as_cfg := [(''thresholds'', PDict four_levels), (''disk_thresholds'', PDict four_levels),
     (''network_thresholds'', PDict four_levels)]\<rparr>"

definition level_posts :: "(api_env \<times> request) list" where
  \<comment> \<open>one that is fine, and one that would put low above medium\<close>
  "level_posts =
     [(api_at 7, Post ''disk_pressure'' (PDict [(''disk_thresholds'', PDict [(''low'', PFloat (2/5))])])),
      (api_at 8, Post ''system_pressure'' (PDict [(''thresholds'', PDict [(''low'', PFloat (3/5))])]))]"

lemma level_posts_run:
  "level_at (dict_of (map_of (as_cfg (handle_all level_posts level_state)) ''disk_thresholds'')) ''low'' = 2/5
   \<and> level_at (dict_of (map_of (as_cfg (handle_all level_posts level_state)) ''thresholds'')) ''low'' = 3/10"
  by code_simp

theorem levels_stay_ordered_witness:
  "levels_ordered (as_cfg (handle_all level_posts level_state))
   \<and> level_at (dict_of (map_of (as_cfg (handle_all level_posts level_state)) ''disk_thresholds'')) ''low'' = 2/5"
proof -
  have "levels_ordered (as_cfg level_state)" "levels_stored_as_floats (as_cfg level_state)" by code_simp+
  from levels_stay_ordered [OF this, of level_posts] level_posts_run show ?thesis by simp
qed

definition weight_state :: api_state where
  "weight_state = idle_state\<lparr>as_cfg := [(''disk_pressure_model'', PDict [(''sub_weights'', PDict [(''queue'', PFloat (3/10))])])]\<rparr>"

definition weight_posts :: "(api_env \<times> request) list" where
  \<comment> \<open>the second would take the sum above 1\<close>
  "weight_posts =
     [(api_at 7, Post ''disk_pressure'' (PDict [(''disk_pressure_model'', PDict [(''sub_weights'', PDict [(''latency'', PFloat (1/2))])])])),
      (api_at 8, Post ''disk_pressure'' (PDict [(''expected_updated_at'', PInt 7),
         (''disk_pressure_model'', PDict [(''sub_weights'', PDict [(''util'', PFloat (1/2))])])]))]"

lemma weight_posts_run:
  "dm_w_latency (disk_model_of (value_or_none (as_cfg (handle_all weight_posts weight_state)) ''disk_pressure_model'')) = 1/2
   \<and> dm_w_util (disk_model_of (value_or_none (as_cfg (handle_all weight_posts weight_state)) ''disk_pressure_model'')) = 1/10"
  by code_simp

theorem disk_weights_stay_sound_witness:
  "sub_weights_sound (as_cfg (handle_all weight_posts weight_state))
   \<and> dm_w_latency (disk_model_of (value_or_none (as_cfg (handle_all weight_posts weight_state)) ''disk_pressure_model'')) = 1/2"
proof -
  have "sub_weights_sound (as_cfg weight_state)" by code_simp
  from disk_weights_stay_sound [OF this, of weight_posts] weight_posts_run show ?thesis by simp
qed

end
