(* ===== verification/Event_Ledger.thy ===== *)
theory Event_Ledger
  imports Config_Store "HOL-Library.Product_Lexorder" "HOL-Library.List_Lexorder" "HOL-Library.Char_ord"
begin

text \<open>
  The ledger of operational events: the catalogue (\<open>diagnostics/event_catalog.py\<close>), how an event is recorded once
  (\<open>event_store.record_event\<close> and \<open>OperationalEvent\<close> of \<open>db/DatabaseModel.py\<close>), how a limit action of the balancer
  becomes events (\<open>_control_resources\<close>, \<open>_emit_control_events\<close>, \<open>control_events.record_control_action\<close>), and which events
  survive the retention. The table is the list of its rows in the order of insertion. A row has the columns that are
  read again; the generated id, the clock and the boot id are arguments, a write succeeds unless the unique index rejects it,
  and the scrubbing of texts and the snapshot of processes are left out.
\<close>

subsection \<open>Events\<close>

record event =
  ev_id :: string
  ev_ts :: string  \<comment> \<open>\<open>ts_utc\<close>\<close>
  ev_severity :: string
  ev_category :: string
  ev_type :: string
  ev_summary :: string
  ev_source :: "string option"
  ev_service :: "string option"
  ev_app :: "string option"
  ev_job :: "string option"
  ev_impact :: "string option"
  ev_resource :: "string option"
  ev_protection :: "string option"
  ev_cgroups :: "string list"  \<comment> \<open>\<open>attributes["cgroups"]\<close>\<close>
  ev_boot_attr :: "string option"  \<comment> \<open>\<open>attributes["boot_id"]\<close>\<close>
  ev_dedup :: "string option"  \<comment> \<open>\<open>dedup_key\<close>\<close>
  ev_created :: int  \<comment> \<open>\<open>create_time\<close>\<close>

record event_env =
  ee_id :: string  \<comment> \<open>\<open>new_event_id()\<close>\<close>
  ee_iso :: string  \<comment> \<open>\<open>now_iso()\<close>\<close>
  ee_now :: int
  ee_boot :: "string option"

subsection \<open>The catalogue\<close>

definition default_events :: "string list" where
  \<comment> \<open>the keys of \<open>_DEFAULTS\<close>, the configurable types; each is on by default\<close>
  "default_events =
     [''RESOURCE_SYSTEM_PRESSURE_CHANGED'', ''LOG_ERROR'', ''LOG_EXCEPTION'', ''WORKLOAD_BENCHMARK_STARTED'',
      ''WORKLOAD_BENCHMARK_DONE'', ''WORKLOAD_BENCHMARK_CANCELLED'', ''WORKLOAD_MODEL_DOWNLOAD_STARTED'',
      ''WORKLOAD_MODEL_DOWNLOAD_DONE'', ''WORKLOAD_MODEL_DOWNLOAD_CANCELLED'', ''WORKLOAD_MODEL_WEIGHTS_DELETED'',
      ''WORKLOAD_BENCHMARK_RESULTS_DELETED'', ''WORKLOAD_BENCHMARK_CASES_DELETED'']"

definition event_enabled :: "pydict \<Rightarrow> string \<Rightarrow> bool" where
  "event_enabled cfg t =
     (if t \<notin> set default_events then True
      else case map_of (dict_of (map_of cfg ''diagnostic_events'')) t of Some v \<Rightarrow> truthy v | None \<Rightarrow> True)"

subsection \<open>Recording\<close>

definition valid_severity :: "string list" where "valid_severity = [''info'', ''warning'', ''error'', ''critical'']"

definition severity_of :: "string \<Rightarrow> string" where
  "severity_of s = (let l = lower (if s = [] then ''info'' else s) in if l \<in> set valid_severity then l else ''info'')"

definition event_key :: "event_env \<Rightarrow> string option \<Rightarrow> string \<Rightarrow> string \<Rightarrow> string" where
  \<comment> \<open>\<open>f"{source or '-'}:{boot_id}:{identity}:{event_type}"\<close>\<close>
  "event_key e src identity t =
     (case src of None \<Rightarrow> ''-'' | Some s \<Rightarrow> if s = [] then ''-'' else s) @ '':''
       @ (case ee_boot e of None \<Rightarrow> ''None'' | Some b \<Rightarrow> b) @ '':'' @ identity @ '':'' @ t"

definition insert_event :: "event \<Rightarrow> event list \<Rightarrow> bool \<times> event list" where
  \<comment> \<open>False when the unique index on the key rejects the row\<close>
  "insert_event ev rows =
     (if ev_dedup ev \<noteq> None \<and> list_ex (\<lambda>r. ev_dedup r = ev_dedup ev) rows then (False, rows) else (True, rows @ [ev]))"

definition record_event :: "event_env \<Rightarrow> event \<Rightarrow> string option \<Rightarrow> event list \<Rightarrow> event option \<times> event list" where
  \<comment> \<open>\<open>draft\<close> is what the producer passes; an empty time means none was given\<close>
  "record_event e draft identity rows =
     (let ev = draft\<lparr>ev_id := ee_id e, ev_ts := (if ev_ts draft = [] then ee_iso e else ev_ts draft),
                 ev_severity := severity_of (ev_severity draft), ev_created := ee_now e,
                 ev_dedup := map_option (\<lambda>i. event_key e (ev_source draft) i (ev_type draft)) identity\<rparr>
      in case insert_event ev rows of (ok, rows1) \<Rightarrow> (if ok then Some ev else None, rows1))"

subsection \<open>Limit actions of the balancer\<close>

datatype control_action = Applied | Recovered | Unsuccessful

definition action_name :: "control_action \<Rightarrow> string" where
  "action_name a = (case a of Applied \<Rightarrow> ''APPLIED'' | Recovered \<Rightarrow> ''RECOVERED'' | Unsuccessful \<Rightarrow> ''FAILED'')"

definition control_resources :: "bool \<Rightarrow> bool \<Rightarrow> bool \<Rightarrow> bool \<Rightarrow> string list" where
  \<comment> \<open>\<open>cpu_mem_limited\<close>, \<open>io_limited\<close> of the parts, \<open>cpu\<close>, \<open>memory\<close> of the resource parts\<close>
  "control_resources cpu_mem io cpu mem =
     (if cpu_mem then (if \<not> cpu \<and> \<not> mem then [''CPU'', ''MEMORY'']
                       else (if cpu then [''CPU''] else []) @ (if mem then [''MEMORY''] else [])) else [])
     @ (if io then [''DISK_IO''] else [])"

definition control_event_type :: "string \<Rightarrow> control_action \<Rightarrow> string" where
  "control_event_type res a = ''CONTROL_'' @ res @ ''_LIMIT_'' @ action_name a"

definition control_identity :: "string \<Rightarrow> control_action \<Rightarrow> string \<Rightarrow> string" where
  "control_identity pid a res = pid @ '':'' @ action_name a @ '':'' @ res"

definition title_case :: "string \<Rightarrow> string" where
  \<comment> \<open>\<open>s.replace('_', ' ').title()\<close> of a name in capitals\<close>
  "title_case s = join_with '' '' (map (\<lambda>w. case w of [] \<Rightarrow> [] | c # cs \<Rightarrow> c # lower cs) (split_char CHR ''_'' s))"

definition control_draft ::
  "event_env \<Rightarrow> control_action \<Rightarrow> string \<Rightarrow> string \<Rightarrow> string \<Rightarrow> string list \<Rightarrow> string \<Rightarrow> event" where
  "control_draft e a app name pid cgs res =
     \<lparr>ev_id = [], ev_ts = [], ev_severity = (if a = Unsuccessful then ''error'' else ''info''),
      ev_category = ''platform.control'', ev_type = control_event_type res a,
      ev_summary = title_case res @ '' limit '' @ lower (action_name a) @ '' for '' @ name, ev_source = Some ''balancer'', ev_service = None,
      ev_app = Some app, ev_job = None,
      ev_impact = Some (case a of Unsuccessful \<Rightarrow> ''failed'' | Applied \<Rightarrow> ''degraded'' | Recovered \<Rightarrow> ''none''),
      ev_resource = Some (lower res), ev_protection = Some pid, ev_cgroups = filter (\<lambda>c. c \<noteq> []) cgs,
      ev_boot_attr = ee_boot e, ev_dedup = None, ev_created = 0\<rparr>"

fun record_control_action ::
  "event_env list \<Rightarrow> control_action \<Rightarrow> string \<Rightarrow> string \<Rightarrow> string \<Rightarrow> string list \<Rightarrow> string list \<Rightarrow> event list \<Rightarrow> event list" where
  \<comment> \<open>one event per resource; the environments are those of the single writes. Control events cannot be switched off\<close>
  "record_control_action (e # es) a app name pid cgs (res # ress) rows =
     record_control_action es a app name pid cgs ress
       (if res = [] then rows else snd (record_event e (control_draft e a app name pid cgs res) (Some (control_identity pid a res)) rows))"
| "record_control_action _ a app name pid cgs _ rows = rows"

subsection \<open>Unresolved protections and retention\<close>

definition endswith :: "string \<Rightarrow> string \<Rightarrow> bool" where
  "endswith s t \<longleftrightarrow> length t \<le> length s \<and> drop (length s - length t) s = t"

record tally =
  ta_applied :: nat
  ta_ended :: nat
  ta_rebooted :: bool
  ta_latest :: int

definition no_tally :: tally where
  "no_tally = \<lparr>ta_applied = 0, ta_ended = 0, ta_rebooted = False, ta_latest = 0\<rparr>"

definition count_event :: "event \<Rightarrow> tally \<Rightarrow> tally" where
  "count_event ev t =
     (let t1 = (if endswith (ev_type ev) ''_APPLIED'' then t\<lparr>ta_applied := ta_applied t + 1\<rparr>
                else if endswith (ev_type ev) ''_RECOVERED'' \<or> endswith (ev_type ev) ''_FAILED'' then t\<lparr>ta_ended := ta_ended t + 1\<rparr>
                else if ev_type ev = ''CONTROL_LIFECYCLE_CLEARED_BY_REBOOT'' then t\<lparr>ta_rebooted := True\<rparr>
                else t)
      in t1\<lparr>ta_latest := max (ta_latest t1) (ev_created ev)\<rparr>)"

definition is_control_of :: "string \<Rightarrow> event \<Rightarrow> bool" where
  "is_control_of pid ev \<longleftrightarrow> ev_category ev = ''platform.control'' \<and> ev_protection ev = Some pid"

definition tally_of :: "string \<Rightarrow> event list \<Rightarrow> tally" where
  "tally_of pid rows = fold count_event (filter (is_control_of pid) rows) no_tally"

definition control_ids :: "event list \<Rightarrow> string list" where
  "control_ids rows = remdups (List.map_filter (\<lambda>ev. if ev_category ev = ''platform.control'' then ev_protection ev else None) rows)"

definition scan_control_lifecycles :: "event list \<Rightarrow> (string \<times> tally) list" where
  "scan_control_lifecycles rows = map (\<lambda>pid. (pid, tally_of pid rows)) (control_ids rows)"

definition is_unresolved :: "tally \<Rightarrow> bool" where
  "is_unresolved t \<longleftrightarrow> \<not> ta_rebooted t \<and> ta_applied t > ta_ended t"

definition protection_ids_to_retain :: "int \<Rightarrow> event list \<Rightarrow> string list" where
  "protection_ids_to_retain cutoff rows =
     map fst (filter (\<lambda>(pid, t). is_unresolved t \<or> cutoff \<le> ta_latest t) (scan_control_lifecycles rows))"

definition unresolved_protection_ids :: "event list \<Rightarrow> string list" where
  "unresolved_protection_ids rows = map fst (filter (\<lambda>(pid, t). is_unresolved t) (scan_control_lifecycles rows))"

definition cutoff_of :: "int \<Rightarrow> int \<Rightarrow> int" where
  "cutoff_of now days = now - max 1 days * 86400"

definition delete_older_than :: "int \<Rightarrow> int \<Rightarrow> event list \<Rightarrow> nat \<times> event list" where
  "delete_older_than now days rows =
     (let cutoff = cutoff_of now days;
          retain = protection_ids_to_retain cutoff rows;
          gone = (\<lambda>ev. ev_created ev < cutoff
             \<and> (retain = [] \<or> (case ev_protection ev of None \<Rightarrow> True | Some pid \<Rightarrow> pid \<notin> set retain)))
      in (length (filter gone rows), filter (\<lambda>ev. \<not> gone ev) rows))"

definition events_for_protections :: "string list \<Rightarrow> string option \<Rightarrow> event list \<Rightarrow> event list" where
  \<comment> \<open>newest first\<close>
  "events_for_protections pids app rows =
     (let ids = filter (\<lambda>p. p \<noteq> []) pids in
      if ids = [] then []
      else rev (sort_key ev_created (filter (\<lambda>ev.
        (case ev_protection ev of None \<Rightarrow> False | Some p \<Rightarrow> p \<in> set ids)
        \<and> (case app of None \<Rightarrow> True | Some a \<Rightarrow> a = [] \<or> ev_app ev = Some a)) rows)))"

definition configured_days :: "pydict \<Rightarrow> int" where
  \<comment> \<open>the setting of the monitor history; the argument is the content of \<open>runtime_state.json\<close>\<close>
  "configured_days settings =
     max 1 (min (case int_of_val (case map_of settings ''snapshot_retention_days'' of None \<Rightarrow> PInt 3 | Some v \<Rightarrow> v) of
                   Inl e \<Rightarrow> 3 | Inr i \<Rightarrow> i) 7)"

subsection \<open>Lemmas\<close>

definition keys_unique :: "event list \<Rightarrow> bool" where
  "keys_unique rows \<longleftrightarrow> distinct (List.map_filter ev_dedup rows)"

lemma map_filter_app [simp]: "List.map_filter f (xs @ ys) = List.map_filter f xs @ List.map_filter f ys"
  by (simp add: List.map_filter_def)

lemma map_filter_mem: "y \<in> set (List.map_filter f xs) \<longleftrightarrow> (\<exists>x\<in>set xs. f x = Some y)"
  by (induction xs) (auto simp: List.map_filter_simps split: option.splits)

lemma insert_keeps_unique: "keys_unique rows \<Longrightarrow> keys_unique (snd (insert_event ev rows))"
  by (cases "ev_dedup ev") (auto simp: insert_event_def keys_unique_def list_ex_iff List.map_filter_simps map_filter_mem)

lemma record_keeps_unique: "keys_unique rows \<Longrightarrow> keys_unique (snd (record_event e d i rows))"
  using insert_keeps_unique by (simp add: record_event_def Let_def case_prod_beta)

lemma record_control_keeps_unique: "keys_unique rows \<Longrightarrow> keys_unique (record_control_action es a app name pid cgs ress rows)"
  by (induction es a app name pid cgs ress rows rule: record_control_action.induct) (simp_all add: record_keeps_unique)

lemma control_ids_iff: "pid \<in> set (control_ids rows) \<longleftrightarrow> list_ex (is_control_of pid) rows"
  by (auto simp: control_ids_def map_filter_mem list_ex_iff is_control_of_def split: if_splits)

lemma scanned: "fst ` {x \<in> set (scan_control_lifecycles rows). P x} = {pid. list_ex (is_control_of pid) rows \<and> P (pid, tally_of pid rows)}"
  by (auto simp: scan_control_lifecycles_def control_ids_iff image_iff)

lemma retained_iff:
  "pid \<in> set (protection_ids_to_retain cutoff rows) \<longleftrightarrow>
     list_ex (is_control_of pid) rows \<and> (is_unresolved (tally_of pid rows) \<or> cutoff \<le> ta_latest (tally_of pid rows))"
  using scanned [of rows "\<lambda>(pid, t). is_unresolved t \<or> cutoff \<le> ta_latest t"] by (simp add: protection_ids_to_retain_def)

lemma unresolved_iff:
  "pid \<in> set (unresolved_protection_ids rows) \<longleftrightarrow> list_ex (is_control_of pid) rows \<and> is_unresolved (tally_of pid rows)"
  using scanned [of rows "\<lambda>(pid, t). is_unresolved t"] by (simp add: unresolved_protection_ids_def)

lemma latest_bound: "ev \<in> set evs \<Longrightarrow> ev_created ev \<le> ta_latest (fold count_event evs t)"
proof (induction evs arbitrary: t)
  case (Cons x evs)
  have mono: "ta_latest t \<le> ta_latest (fold count_event ys t)" for ys t
  proof (induction ys arbitrary: t)
    case (Cons y ys)
    have "ta_latest t \<le> ta_latest (count_event y t)" by (simp add: count_event_def Let_def)
    with Cons.IH [of "count_event y t"] show ?case by simp
  qed simp
  have "ev_created x \<le> ta_latest (count_event x t)" by (simp add: count_event_def Let_def)
  with mono [of "count_event x t" evs] Cons show ?case by auto
qed simp

lemma tally_latest: "is_control_of pid ev \<Longrightarrow> ev \<in> set rows \<Longrightarrow> ev_created ev \<le> ta_latest (tally_of pid rows)"
  by (simp add: tally_of_def latest_bound)

lemma unresolved_has_event: "is_unresolved (tally_of pid rows) \<Longrightarrow> list_ex (is_control_of pid) rows"
proof (rule ccontr)
  assume u: "is_unresolved (tally_of pid rows)" and "\<not> list_ex (is_control_of pid) rows"
  hence "filter (is_control_of pid) rows = []" by (simp add: list_ex_iff filter_empty_conv)
  with u show False by (simp add: tally_of_def no_tally_def is_unresolved_def)
qed

lemma latest_attained:
  "0 < cutoff \<Longrightarrow> \<forall>ev\<in>set evs. ev_created ev < cutoff \<Longrightarrow> ta_latest t < cutoff \<Longrightarrow> ta_latest (fold count_event evs t) < cutoff"
  by (induction evs arbitrary: t) (simp_all add: count_event_def Let_def)

definition in_retention :: "int \<Rightarrow> string \<Rightarrow> event list \<Rightarrow> bool" where
  \<comment> \<open>a protection that the retention has to leave alone\<close>
  "in_retention cutoff pid rows \<longleftrightarrow>
     is_unresolved (tally_of pid rows) \<or> list_ex (\<lambda>ev. is_control_of pid ev \<and> cutoff \<le> ev_created ev) rows"

lemma retained_exact:
  assumes "0 < cutoff"
  shows "pid \<in> set (protection_ids_to_retain cutoff rows) \<longleftrightarrow> in_retention cutoff pid rows"
proof -
  have "list_ex (\<lambda>ev. is_control_of pid ev \<and> cutoff \<le> ev_created ev) rows \<longleftrightarrow> cutoff \<le> ta_latest (tally_of pid rows)"
  proof
    assume "list_ex (\<lambda>ev. is_control_of pid ev \<and> cutoff \<le> ev_created ev) rows"
    thus "cutoff \<le> ta_latest (tally_of pid rows)" using tally_latest order_trans by (fastforce simp: list_ex_iff)
  next
    assume l: "cutoff \<le> ta_latest (tally_of pid rows)"
    show "list_ex (\<lambda>ev. is_control_of pid ev \<and> cutoff \<le> ev_created ev) rows"
    proof (rule ccontr)
      assume "\<not> ?thesis"
      hence "\<forall>ev\<in>set (filter (is_control_of pid) rows). ev_created ev < cutoff" by (fastforce simp: list_ex_iff)
      from latest_attained [OF assms this, of no_tally] l assms show False by (simp add: tally_of_def no_tally_def)
    qed
  qed
  thus ?thesis
    using unresolved_has_event [of pid rows] by (auto simp: retained_iff in_retention_def list_ex_iff)
qed

lemma deleted_iff:
  assumes "0 < cutoff_of now days"
  shows "snd (delete_older_than now days rows) =
    filter (\<lambda>ev. cutoff_of now days \<le> ev_created ev
       \<or> (case ev_protection ev of None \<Rightarrow> False | Some pid \<Rightarrow> in_retention (cutoff_of now days) pid rows)) rows"
  unfolding delete_older_than_def Let_def snd_conv
proof (rule filter_cong [OF refl])
  fix ev
  show "(\<not> (ev_created ev < cutoff_of now days \<and> (protection_ids_to_retain (cutoff_of now days) rows = []
            \<or> (case ev_protection ev of None \<Rightarrow> True | Some pid \<Rightarrow> pid \<notin> set (protection_ids_to_retain (cutoff_of now days) rows)))))
      = (cutoff_of now days \<le> ev_created ev
         \<or> (case ev_protection ev of None \<Rightarrow> False | Some pid \<Rightarrow> in_retention (cutoff_of now days) pid rows))"
    by (cases "ev_protection ev") (auto simp: retained_exact [OF assms, symmetric])
qed

lemma deleted_length: "fst (delete_older_than now days rows) + length (snd (delete_older_than now days rows)) = length rows"
  unfolding delete_older_than_def Let_def fst_conv snd_conv by (rule sum_length_filter_compl)

text \<open>C30: 
  The retention removes old events and never part of a lifecycle. Exactly those events stay that are not older than
  the days kept, or belong to a protection that is still in force by the count of its events or has a control event that
  is not too old; so of every protection either all events stay or no control event does.
\<close>
theorem retention_whole_lifecycles:
  assumes "0 < cutoff_of now days" "delete_older_than now days rows = (n, kept)"
  shows "(if in_retention (cutoff_of now days) pid rows
          then filter (\<lambda>ev. ev_protection ev = Some pid) kept = filter (\<lambda>ev. ev_protection ev = Some pid) rows
          else filter (is_control_of pid) kept = [])
         \<and> filter (\<lambda>ev. cutoff_of now days \<le> ev_created ev) kept = filter (\<lambda>ev. cutoff_of now days \<le> ev_created ev) rows
         \<and> filter (\<lambda>ev. ev_protection ev = None \<and> ev_created ev < cutoff_of now days) kept = []
         \<and> n + length kept = length rows"
proof (intro conjI)
  have k: "kept = filter (\<lambda>ev. cutoff_of now days \<le> ev_created ev
       \<or> (case ev_protection ev of None \<Rightarrow> False | Some pid \<Rightarrow> in_retention (cutoff_of now days) pid rows)) rows"
    using deleted_iff [OF assms(1), of rows] by (simp add: assms(2))
  show "if in_retention (cutoff_of now days) pid rows
        then filter (\<lambda>ev. ev_protection ev = Some pid) kept = filter (\<lambda>ev. ev_protection ev = Some pid) rows
        else filter (is_control_of pid) kept = []"
  proof (cases "in_retention (cutoff_of now days) pid rows")
    case True
    have "filter (\<lambda>ev. ev_protection ev = Some pid) kept = filter (\<lambda>ev. ev_protection ev = Some pid) rows"
      unfolding k filter_filter by (rule filter_cong [OF refl]) (auto simp: True)
    thus ?thesis by (simp add: True)
  next
    case False
    hence "\<And>ev. ev \<in> set rows \<Longrightarrow> is_control_of pid ev \<Longrightarrow> ev_created ev < cutoff_of now days"
      by (fastforce simp: in_retention_def list_ex_iff)
    hence "filter (is_control_of pid) kept = []"
      using False by (fastforce simp: k filter_empty_conv is_control_of_def)
    thus ?thesis by (simp add: False)
  qed
  show "filter (\<lambda>ev. cutoff_of now days \<le> ev_created ev) kept = filter (\<lambda>ev. cutoff_of now days \<le> ev_created ev) rows"
    unfolding k filter_filter by (rule filter_cong [OF refl]) auto
  show "filter (\<lambda>ev. ev_protection ev = None \<and> ev_created ev < cutoff_of now days) kept = []"
    by (auto simp: k filter_empty_conv)
  show "n + length kept = length rows"
    using deleted_length [of now days rows] by (simp add: assms(2))
qed

subsection \<open>A fact is recorded once\<close>

definition same_event :: "event_env \<Rightarrow> event_env \<Rightarrow> event \<Rightarrow> event \<Rightarrow> bool" where
  \<comment> \<open>the same boot, producer and type\<close>
  "same_event e e' d d' \<longleftrightarrow> ee_boot e = ee_boot e' \<and> ev_source d = ev_source d' \<and> ev_type d = ev_type d'"

lemma insert_dedup: "ev_dedup ev = Some k \<Longrightarrow> list_ex (\<lambda>r. ev_dedup r = Some k) (snd (insert_event ev rows))"
  by (simp add: insert_event_def)

lemma insert_known: "ev_dedup ev = Some k \<Longrightarrow> list_ex (\<lambda>r. ev_dedup r = Some k) rows \<Longrightarrow> insert_event ev rows = (False, rows)"
  by (simp add: insert_event_def)

text \<open>
  A producer that reports a fact again changes nothing. Whatever was recorded in between, the second report of an
  identity, from the same producer and in the same boot, is not stored and answered with none; and the keys of the ledger
  stay unique.
\<close>
theorem recorded_once:
  assumes "same_event e e' d d'" "set (snd (record_event e d (Some i) rows)) \<subseteq> set later" "keys_unique later"
  shows "record_event e' d' (Some i) later = (None, later) \<and> keys_unique (snd (record_event e' d' j later))"
proof -
  define k where "k = event_key e (ev_source d) i (ev_type d)"
  have k': "event_key e' (ev_source d') i (ev_type d') = k" using assms(1) by (simp add: same_event_def event_key_def k_def)
  have "list_ex (\<lambda>r. ev_dedup r = Some k) (snd (record_event e d (Some i) rows))"
    by (simp add: record_event_def Let_def case_prod_beta insert_dedup k_def)
  hence "list_ex (\<lambda>r. ev_dedup r = Some k) later" using assms(2) by (fastforce simp: list_ex_iff)
  hence "record_event e' d' (Some i) later = (None, later)"
    by (simp add: record_event_def Let_def k' insert_known)
  thus ?thesis using record_keeps_unique [OF assms(3)] by simp
qed

subsection \<open>Concrete ledgers\<close>

definition boot_env :: "int \<Rightarrow> event_env" where
  "boot_env n = \<lparr>ee_id = ''e'', ee_iso = ''t'', ee_now = n, ee_boot = Some ''b1''\<rparr>"

definition old_limit :: "event list" where
  \<comment> \<open>a limit from long ago that is still in force, and an old one that was lifted\<close>
  "old_limit = record_control_action [boot_env 3] Recovered ''b'' ''B'' ''p2'' [] [''CPU'']
     (record_control_action [boot_env 2] Applied ''b'' ''B'' ''p2'' [] [''CPU'']
     (record_control_action [boot_env 1] Applied ''a'' ''A'' ''p1'' [] [''CPU''] []))"

theorem retention_whole_lifecycles_witness:
  "fst (delete_older_than 864000 3 old_limit) = 2
   \<and> filter (\<lambda>ev. ev_protection ev = Some ''p1'') (snd (delete_older_than 864000 3 old_limit)) = filter (\<lambda>ev. ev_protection ev = Some ''p1'') old_limit"
proof -
  have c: "0 < cutoff_of 864000 3" by (simp add: cutoff_of_def)
  obtain n kept where d: "delete_older_than 864000 3 old_limit = (n, kept)" by fastforce
  have "in_retention (cutoff_of 864000 3) ''p1'' old_limit" by code_simp
  moreover have "fst (delete_older_than 864000 3 old_limit) = 2" by code_simp
  ultimately show ?thesis using retention_whole_lifecycles [OF c d, of "''p1''"] by (simp add: d)
qed

theorem recorded_once_witness:
  "record_event (boot_env 9) (control_draft (boot_env 9) Applied ''a'' ''A'' ''p1'' [] ''CPU'') (Some ''x'')
     (snd (record_event (boot_env 5) (control_draft (boot_env 5) Applied ''a'' ''A'' ''p1'' [] ''CPU'') (Some ''x'') []))
   = (None, snd (record_event (boot_env 5) (control_draft (boot_env 5) Applied ''a'' ''A'' ''p1'' [] ''CPU'') (Some ''x'') []))"
proof -
  have s: "same_event (boot_env 5) (boot_env 9) (control_draft (boot_env 5) Applied ''a'' ''A'' ''p1'' [] ''CPU'')
      (control_draft (boot_env 9) Applied ''a'' ''A'' ''p1'' [] ''CPU'')"
    by (simp add: same_event_def boot_env_def control_draft_def)
  have u: "keys_unique (snd (record_event (boot_env 5) (control_draft (boot_env 5) Applied ''a'' ''A'' ''p1'' [] ''CPU'') (Some ''x'') []))"
    by (rule record_keeps_unique) (simp add: keys_unique_def List.map_filter_simps)
  from recorded_once [OF s subset_refl u] show ?thesis by simp
qed

end
