(* ===== verification/Lifecycle.thy ===== *)
theory Lifecycle
  imports Event_Ledger "HOL-Library.Multiset"
begin

text \<open>
  The life of a resource limit, read from the ledger: \<open>diagnostics/control_lifecycle.py\<close>. \<open>summarize\<close> groups the events
  by protection and takes the last action of each resource; \<open>query\<close> pages over the summaries, \<open>reconcile_interrupted_lifecycles\<close>
  marks at the start what was left in force, and \<open>clear_without_runtime_state\<close> ends an orphan.
\<close>

subsection \<open>Summaries\<close>

definition action_for :: "string \<Rightarrow> control_action option" where
  "action_for t =
     (if endswith t ''_APPLIED'' then Some Applied else if endswith t ''_RECOVERED'' then Some Recovered
      else if endswith t ''_FAILED'' then Some Unsuccessful else None)"

definition resource_for :: "event \<Rightarrow> string" where
  "resource_for ev = (case ev_resource ev of None \<Rightarrow> ''unknown'' | Some r \<Rightarrow> if r = [] then ''unknown'' else r)"

record lifecycle =
  lc_id :: string
  lc_status :: string
  lc_started :: string
  lc_updated :: string
  lc_app :: "string option"
  lc_source :: "string option"
  lc_boot :: "string option"
  lc_applied :: "string list"
  lc_recovered :: "string list"
  lc_failed :: "string list"
  lc_active :: "string list"
  lc_cgroups :: "string list"
  lc_events :: "event list"

definition event_order :: "event \<Rightarrow> string \<times> string" where
  "event_order ev = (ev_ts ev, ev_id ev)"

fun note_action :: "event \<Rightarrow> (string \<times> control_action) list \<times> string list \<Rightarrow> (string \<times> control_action) list \<times> string list" where
  "note_action ev (latest, ever) =
     (case action_for (ev_type ev) of
        None \<Rightarrow> (latest, ever)
      | Some a \<Rightarrow>
          (AList.update (resource_for ev) a latest,
           if a = Applied \<and> resource_for ev \<notin> set ever then ever @ [resource_for ev] else ever))"

definition with_action :: "control_action \<Rightarrow> (string \<times> control_action) list \<Rightarrow> string list" where
  "with_action a latest = sort (map fst (filter (\<lambda>(r, b). b = a) latest))"

definition status_of :: "string list \<Rightarrow> string list \<Rightarrow> string list \<Rightarrow> string" where
  \<comment> \<open>the resources whose last action failed, those in force, and the types of the events\<close>
  "status_of failed active types =
     (let st = (if failed \<noteq> [] then ''failed'' else if active \<noteq> [] then ''active'' else ''recovered'') in
      if ''CONTROL_LIFECYCLE_CLEARED_BY_REBOOT'' \<in> set types then ''cleared_by_reboot''
      else if ''CONTROL_LIFECYCLE_CLEARED_WITHOUT_RUNTIME_STATE'' \<in> set types then ''cleared_without_runtime_state''
      else if ''CONTROL_LIFECYCLE_REQUIRES_VERIFICATION'' \<in> set types \<and> st = ''active'' then ''requires_verification''
      else st)"

definition lifecycle_of :: "string \<Rightarrow> event list \<Rightarrow> lifecycle" where
  \<comment> \<open>of a grp that is not empty\<close>
  "lifecycle_of pid grp =
     (let entries = sort_key event_order grp;
          (latest, ever) = fold note_action entries ([], []);
          active = with_action Applied latest;
          failed = with_action Unsuccessful latest
      in \<lparr>lc_id = pid, lc_status = status_of failed active (map ev_type entries),
          lc_started = ev_ts (hd entries), lc_updated = ev_ts (last entries), lc_app = ev_app (hd entries),
          lc_source = ev_source (hd entries), lc_boot = ev_boot_attr (hd entries),
          lc_applied = sort ever, lc_recovered = with_action Recovered latest, lc_failed = failed, lc_active = active,
          lc_cgroups = ev_cgroups (hd entries), lc_events = entries\<rparr>)"

definition of_protection :: "string \<Rightarrow> event \<Rightarrow> bool" where
  "of_protection pid ev \<longleftrightarrow> ev_protection ev = Some pid"

definition protections_of :: "event list \<Rightarrow> string list" where
  \<comment> \<open>in the order of their first event\<close>
  "protections_of evs = rev (remdups (rev (filter (\<lambda>p. p \<noteq> []) (List.map_filter ev_protection evs))))"

definition summarize :: "event list \<Rightarrow> lifecycle list" where
  "summarize evs =
     rev (sort_key lc_updated (rev (map (\<lambda>pid. lifecycle_of pid (filter (of_protection pid) evs)) (protections_of evs))))"

subsection \<open>Queries\<close>

definition fold_in :: "event list \<Rightarrow> event list \<Rightarrow> event list" where
  \<comment> \<open>the events that are not there yet, by their id\<close>
  "fold_in evs found = foldl (\<lambda>acc ev. if ev_id ev \<in> ev_id ` set acc then acc else acc @ [ev]) evs found"

definition control_window :: "int option \<Rightarrow> int option \<Rightarrow> string option \<Rightarrow> string option \<Rightarrow> event list \<Rightarrow> event list" where
  \<comment> \<open>\<open>query_events\<close> with these filters, newest first, at most 2000\<close>
  "control_window start_time end_time app pid rows =
     take 2000 (rev (sort_key ev_created (filter (\<lambda>ev. ev_category ev = ''platform.control''
       \<and> (case app of None \<Rightarrow> True | Some a \<Rightarrow> a = [] \<or> ev_app ev = Some a)
       \<and> (case pid of None \<Rightarrow> True | Some p \<Rightarrow> p = [] \<or> ev_protection ev = Some p)
       \<and> (case start_time of None \<Rightarrow> True | Some t \<Rightarrow> t \<le> ev_created ev)
       \<and> (case end_time of None \<Rightarrow> True | Some t \<Rightarrow> ev_created ev \<le> t)) rows)))"

definition query_lifecycles ::
  "int option \<Rightarrow> int option \<Rightarrow> string option \<Rightarrow> string option \<Rightarrow> int \<Rightarrow> int \<Rightarrow> event list \<Rightarrow> lifecycle list" where
  "query_lifecycles start_time end_time app pid limit offset rows =
     (let evs = control_window start_time end_time app pid rows;
          all = (if pid = None \<and> start_time = None \<and> end_time = None
                 then fold_in evs (events_for_protections (unresolved_protection_ids rows) app rows) else evs)
      in take (nat (max 1 limit)) (drop (nat (max 0 offset)) (summarize all)))"

subsection \<open>Reconciling\<close>

definition mark_type :: "event_env \<Rightarrow> lifecycle \<Rightarrow> string" where
  \<comment> \<open>whether the host has been restarted since\<close>
  "mark_type e lc =
     (case (ee_boot e, lc_boot lc) of
        (Some b, Some b') \<Rightarrow>
          if b \<noteq> [] \<and> b' \<noteq> [] \<and> b' \<noteq> b then ''CONTROL_LIFECYCLE_CLEARED_BY_REBOOT''
          else ''CONTROL_LIFECYCLE_REQUIRES_VERIFICATION''
      | _ \<Rightarrow> ''CONTROL_LIFECYCLE_REQUIRES_VERIFICATION'')"

definition mark_draft :: "event_env \<Rightarrow> lifecycle \<Rightarrow> event" where
  "mark_draft e lc =
     (let rebooted = (mark_type e lc = ''CONTROL_LIFECYCLE_CLEARED_BY_REBOOT'') in
      \<lparr>ev_id = [], ev_ts = [], ev_severity = (if rebooted then ''info'' else ''warning''), ev_category = ''platform.control'',
       ev_type = mark_type e lc,
       ev_summary = (if rebooted then ''Resource limit lifecycle ended because the system rebooted''
                     else ''Resource limit lifecycle was interrupted and requires verification''),
       ev_source = Some ''diagnostics'', ev_service = None, ev_app = lc_app lc, ev_job = None,
       ev_impact = Some (if rebooted then ''none'' else ''degraded''), ev_resource = None, ev_protection = Some (lc_id lc),
       ev_cgroups = [], ev_boot_attr = ee_boot e, ev_dedup = None, ev_created = 0\<rparr>)"

definition to_mark :: "event list \<Rightarrow> lifecycle list" where
  "to_mark rows =
     (let evs = events_for_protections (unresolved_protection_ids rows) None rows;
          markers = List.map_filter (\<lambda>ev. if ev_type ev \<in> {''CONTROL_LIFECYCLE_REQUIRES_VERIFICATION'', ''CONTROL_LIFECYCLE_CLEARED_BY_REBOOT''}
                                          then ev_protection ev else None) evs
      in filter (\<lambda>lc. lc_status lc = ''active'' \<and> lc_id lc \<notin> set markers) (summarize evs))"

fun mark_all :: "(nat \<Rightarrow> event_env) \<Rightarrow> nat \<Rightarrow> lifecycle list \<Rightarrow> event list \<Rightarrow> event list" where
  \<comment> \<open>the environment of the n-th write\<close>
  "mark_all env n [] rows = rows"
| "mark_all env n (lc # lcs) rows = mark_all env (n + 1) lcs (snd (record_event (env n) (mark_draft (env n) lc) None rows))"

definition reconcile_interrupted_lifecycles :: "(nat \<Rightarrow> event_env) \<Rightarrow> event list \<Rightarrow> string list \<times> event list" where
  "reconcile_interrupted_lifecycles env rows = (map lc_id (to_mark rows), mark_all env 0 (to_mark rows) rows)"

definition clear_without_runtime_state :: "event_env \<Rightarrow> string \<Rightarrow> event list \<Rightarrow> bool \<times> event list" where
  "clear_without_runtime_state e pid rows =
     (case summarize (events_for_protections [pid] None rows) of
        [lc] \<Rightarrow>
          if lc_status lc \<noteq> ''active'' \<or> lc_cgroups lc \<noteq> [] then (False, rows)
          else (True, snd (record_event e
            \<lparr>ev_id = [], ev_ts = [], ev_severity = ''info'', ev_category = ''platform.control'',
             ev_type = ''CONTROL_LIFECYCLE_CLEARED_WITHOUT_RUNTIME_STATE'',
             ev_summary = ''Resource limit lifecycle cleared because no runtime state is available'',
             ev_source = Some ''diagnostics'', ev_service = None, ev_app = lc_app lc, ev_job = None, ev_impact = Some ''none'',
             ev_resource = None, ev_protection = Some pid, ev_cgroups = [], ev_boot_attr = None, ev_dedup = None, ev_created = 0\<rparr>
            None rows))
      | _ \<Rightarrow> (False, rows))"

subsection \<open>The last action counts\<close>

definition last_action :: "string \<Rightarrow> event list \<Rightarrow> control_action option" where
  \<comment> \<open>of a resource, in the order of the events\<close>
  "last_action r evs =
     (case filter (\<lambda>ev. resource_for ev = r \<and> action_for (ev_type ev) \<noteq> None) evs of
        [] \<Rightarrow> None
      | x # xs \<Rightarrow> action_for (ev_type (last (x # xs))))"

lemma last_action_Nil [simp]: "last_action r [] = None" by (simp add: last_action_def)

lemma last_action_snoc:
  "last_action r (evs @ [ev]) = (if resource_for ev = r \<and> action_for (ev_type ev) \<noteq> None then action_for (ev_type ev) else last_action r evs)"
  by (auto simp: last_action_def split: list.split)

lemma note_actions:
  "map_of (fst (fold note_action evs ([], []))) r = last_action r evs
   \<and> distinct (map fst (fst (fold note_action evs ([], []))))
   \<and> set (snd (fold note_action evs ([], []))) = {resource_for ev |ev. ev \<in> set evs \<and> action_for (ev_type ev) = Some Applied}"
proof (induction evs rule: rev_induct)
  case (snoc ev evs)
  obtain l e where le: "fold note_action evs ([], []) = (l, e)" by fastforce
  show ?case
  proof (cases "action_for (ev_type ev)")
    case None
    thus ?thesis using snoc by (auto simp: le last_action_snoc)
  next
    case (Some a)
    have ever: "set (snd (note_action ev (l, e))) = set e \<union> (if a = Applied then {resource_for ev} else {})"
      by (auto simp: Some)
    show ?thesis
      using snoc by (auto simp: le last_action_snoc Some ever update_conv' distinct_update simp del: note_action.simps)
        (auto simp: Some update_conv' distinct_update)
  qed
qed simp

lemma with_action_set:
  assumes "distinct (map fst l)"
  shows "set (with_action a l) = {r. map_of l r = Some a} \<and> sorted (with_action a l) \<and> distinct (with_action a l)"
proof -
  have "distinct (map fst (filter (\<lambda>(r, b). b = a) l))" using assms by (rule distinct_map_filter)
  moreover have "fst ` {x \<in> set l. case x of (r, b) \<Rightarrow> b = a} = {r. map_of l r = Some a}"
    using assms by (force simp: map_of_eq_Some_iff)
  ultimately show ?thesis by (simp add: with_action_def)
qed

lemma lifecycle_fields:
  assumes "fold note_action (sort_key event_order grp) ([], []) = (latest, ever)"
  shows "lc_active (lifecycle_of pid grp) = with_action Applied latest"
    "lc_recovered (lifecycle_of pid grp) = with_action Recovered latest"
    "lc_failed (lifecycle_of pid grp) = with_action Unsuccessful latest"
    "lc_events (lifecycle_of pid grp) = sort_key event_order grp"
  by (simp_all add: lifecycle_of_def Let_def assms)

text \<open>C31: 
  What the dashboard shows of a limit is its last word. In the summary of a protection a resource is in force, lifted
  or failed exactly as the last of its actions says, by time and then by id; every resource is in one of the three lists at
  most once, the lists are sorted, and the order in which the ledger delivers the events has no influence, as long as no
  two of them share their time and their id.
\<close>
theorem summary_by_last_action:
  assumes "mset grp' = mset grp" "inj_on event_order (set grp)"
  shows "lifecycle_of pid grp' = lifecycle_of pid grp
    \<and> sorted (map event_order (lc_events (lifecycle_of pid grp))) \<and> mset (lc_events (lifecycle_of pid grp)) = mset grp
    \<and> (\<forall>a. let shown = (case a of Applied \<Rightarrow> lc_active | Recovered \<Rightarrow> lc_recovered | Unsuccessful \<Rightarrow> lc_failed) (lifecycle_of pid grp)
           in set shown = {r. last_action r (lc_events (lifecycle_of pid grp)) = Some a} \<and> sorted shown \<and> distinct shown)"
proof (intro conjI allI)
  have sets: "set grp' = set grp" using assms(1) by (rule mset_eq_setD)
  have "sort_key event_order grp' = sort_key event_order grp"
    by (rule sort_key_inj_key_eq) (use assms in \<open>simp_all add: sets\<close>)
  thus "lifecycle_of pid grp' = lifecycle_of pid grp" by (simp add: lifecycle_of_def)
  show "sorted (map event_order (lc_events (lifecycle_of pid grp)))" "mset (lc_events (lifecycle_of pid grp)) = mset grp"
    by (simp_all add: lifecycle_of_def Let_def case_prod_beta)
  obtain latest ever where f: "fold note_action (sort_key event_order grp) ([], []) = (latest, ever)" by fastforce
  have m: "map_of latest r = last_action r (sort_key event_order grp)" "distinct (map fst latest)" for r
    using note_actions [of "sort_key event_order grp" r] by (simp_all add: f)
  show "let shown = (case a of Applied \<Rightarrow> lc_active | Recovered \<Rightarrow> lc_recovered | Unsuccessful \<Rightarrow> lc_failed) (lifecycle_of pid grp)
           in set shown = {r. last_action r (lc_events (lifecycle_of pid grp)) = Some a} \<and> sorted shown \<and> distinct shown" for a
    using with_action_set [OF m(2)] by (cases a) (simp_all add: Let_def lifecycle_fields [OF f] m(1))
qed

subsection \<open>Reconciling once\<close>

definition mark_types :: "string list" where
  "mark_types = [''CONTROL_LIFECYCLE_REQUIRES_VERIFICATION'', ''CONTROL_LIFECYCLE_CLEARED_BY_REBOOT'']"

definition restarted :: "string option \<Rightarrow> string option \<Rightarrow> bool" where
  \<comment> \<open>both boots are known, and they differ\<close>
  "restarted now before \<longleftrightarrow> (\<exists>b b'. now = Some b \<and> before = Some b' \<and> b \<noteq> [] \<and> b' \<noteq> [] \<and> b \<noteq> b')"

definition marks_for :: "string option \<Rightarrow> lifecycle \<Rightarrow> event \<Rightarrow> bool" where
  "marks_for boot lc m \<longleftrightarrow> ev_protection m = Some (lc_id lc) \<and> ev_category m = ''platform.control'' \<and> ev_boot_attr m = boot
     \<and> ev_type m = (if restarted boot (lc_boot lc) then ''CONTROL_LIFECYCLE_CLEARED_BY_REBOOT''
         else ''CONTROL_LIFECYCLE_REQUIRES_VERIFICATION'')"

lemma marks_for_type: "marks_for boot lc m \<Longrightarrow> ev_type m \<in> set mark_types"
  by (simp add: marks_for_def mark_types_def)

lemma mark_type_restarted:
  "mark_type e lc = (if restarted (ee_boot e) (lc_boot lc) then ''CONTROL_LIFECYCLE_CLEARED_BY_REBOOT''
     else ''CONTROL_LIFECYCLE_REQUIRES_VERIFICATION'')"
  by (auto simp: mark_type_def restarted_def split: option.split)

lemma mark_all_appends:
  assumes "\<forall>n. ee_boot (env n) = boot"
  shows "\<exists>marks. mark_all env n lcs rows = rows @ marks \<and> list_all2 (marks_for boot) lcs marks"
proof (induction lcs arbitrary: n rows)
  case (Cons lc lcs)
  obtain ev where ev: "snd (record_event (env n) (mark_draft (env n) lc) None rows) = rows @ [ev]" "marks_for boot lc ev"
    using assms by (simp add: record_event_def insert_event_def Let_def mark_draft_def marks_for_def mark_type_restarted)
  obtain marks where "mark_all env (n + 1) lcs (rows @ [ev]) = (rows @ [ev]) @ marks" "list_all2 (marks_for boot) lcs marks"
    using Cons.IH [of "n + 1" "rows @ [ev]"] by blast
  thus ?case using ev by (intro exI [of _ "ev # marks"]) simp
qed simp

lemma mark_not_action: "t \<in> set mark_types \<Longrightarrow> \<not> endswith t ''_APPLIED'' \<and> \<not> endswith t ''_RECOVERED'' \<and> \<not> endswith t ''_FAILED''"
proof -
  have "list_all (\<lambda>t. \<not> endswith t ''_APPLIED'' \<and> \<not> endswith t ''_RECOVERED'' \<and> \<not> endswith t ''_FAILED'') mark_types" by code_simp
  thus "t \<in> set mark_types \<Longrightarrow> \<not> endswith t ''_APPLIED'' \<and> \<not> endswith t ''_RECOVERED'' \<and> \<not> endswith t ''_FAILED''"
    by (simp add: list_all_iff)
qed

lemma marks_resolve:
  "\<forall>m\<in>set ms. ev_type m \<in> set mark_types \<Longrightarrow> is_unresolved (fold count_event ms t) \<Longrightarrow> is_unresolved t"
proof (induction ms arbitrary: t)
  case (Cons m ms)
  from Cons have "is_unresolved (count_event m t)" by simp
  with mark_not_action [of "ev_type m"] Cons.prems(1) show ?case
    by (simp add: count_event_def is_unresolved_def Let_def split: if_splits)
qed simp

lemma filtered_events:
  "events_for_protections ids None rows
   = rev (sort_key ev_created (filter (\<lambda>ev. case ev_protection ev of None \<Rightarrow> False | Some p \<Rightarrow> p \<in> set ids \<and> p \<noteq> []) rows))"
proof (cases "filter (\<lambda>p. p \<noteq> []) ids = []")
  case True
  hence "filter (\<lambda>ev. case ev_protection ev of None \<Rightarrow> False | Some p \<Rightarrow> p \<in> set ids \<and> p \<noteq> []) rows = []"
    by (auto simp: filter_empty_conv split: option.splits)
  thus ?thesis by (simp only: events_for_protections_def Let_def True if_True) simp
next
  case False
  thus ?thesis unfolding events_for_protections_def Let_def by (auto intro!: arg_cong [where f = "sort_key ev_created"] filter_cong split: option.split)
qed

lemma group_of:
  "filter (of_protection pid) (events_for_protections ids None rows)
   = (if pid \<in> set ids \<and> pid \<noteq> [] then rev (sort_key ev_created (filter (of_protection pid) rows)) else [])"
proof -
  have "filter (\<lambda>ev. of_protection pid ev \<and> (case ev_protection ev of None \<Rightarrow> False | Some p \<Rightarrow> p \<in> set ids \<and> p \<noteq> [])) rows
      = (if pid \<in> set ids \<and> pid \<noteq> [] then filter (of_protection pid) rows else [])"
    by (auto simp: of_protection_def filter_empty_conv intro: filter_cong)
  thus ?thesis by (simp add: filtered_events rev_filter [symmetric] filter_sort conj_commute)
qed

lemma in_events_for:
  "ev \<in> set (events_for_protections ids None rows) \<longleftrightarrow>
   ev \<in> set rows \<and> (\<exists>pid. ev_protection ev = Some pid \<and> pid \<in> set ids \<and> pid \<noteq> [])"
  by (auto simp: filtered_events split: option.splits)

lemma protections_of_mem: "pid \<in> set (protections_of evs) \<longleftrightarrow> pid \<noteq> [] \<and> (\<exists>ev\<in>set evs. ev_protection ev = Some pid)"
  by (auto simp: protections_of_def map_filter_mem)

lemma lc_id_of [simp]: "lc_id (lifecycle_of pid grp) = pid"
  by (simp add: lifecycle_of_def Let_def case_prod_beta)

lemma summarize_mem:
  "lc \<in> set (summarize evs) \<longleftrightarrow> (\<exists>pid\<in>set (protections_of evs). lc = lifecycle_of pid (filter (of_protection pid) evs))"
  by (auto simp: summarize_def)

definition live_events :: "event list \<Rightarrow> event list" where
  "live_events rows = events_for_protections (unresolved_protection_ids rows) None rows"

lemma to_mark_mem:
  "lc \<in> set (to_mark rows) \<longleftrightarrow>
     lc_status lc = ''active''
     \<and> (\<exists>pid\<in>set (protections_of (live_events rows)). lc = lifecycle_of pid (filter (of_protection pid) (live_events rows)))
     \<and> \<not> (\<exists>ev\<in>set (live_events rows). ev_type ev \<in> set mark_types \<and> ev_protection ev = Some (lc_id lc))"
  by (auto simp: to_mark_def Let_def live_events_def [symmetric] summarize_mem map_filter_mem mark_types_def split: if_splits)

lemma all2_partner: "list_all2 P xs ys \<Longrightarrow> x \<in> set xs \<Longrightarrow> \<exists>y\<in>set ys. P x y"
  by (induction xs ys rule: list_all2_induct) auto

lemma to_mark_settled:
  assumes "list_all2 (marks_for boot) (to_mark rows) marks"
  shows "to_mark (rows @ marks) = []"
proof (rule ccontr)
  assume "to_mark (rows @ marks) \<noteq> []"
  then obtain lc where lc: "lc \<in> set (to_mark (rows @ marks))" using hd_in_set by blast
  then obtain pid where pid: "pid \<in> set (protections_of (live_events (rows @ marks)))"
    and l: "lc = lifecycle_of pid (filter (of_protection pid) (live_events (rows @ marks)))" and active: "lc_status lc = ''active''"
    and unmarked: "\<not> (\<exists>ev\<in>set (live_events (rows @ marks)). ev_type ev \<in> set mark_types \<and> ev_protection ev = Some pid)"
    by (auto simp: to_mark_mem)
  have types: "\<forall>m\<in>set marks. ev_type m \<in> set mark_types"
    using assms marks_for_type by (fastforce simp: list_all2_conv_all_nth in_set_conv_nth)
  have ids: "pid \<in> set (unresolved_protection_ids (rows @ marks))" and ne: "pid \<noteq> []"
    using pid by (auto simp: protections_of_mem live_events_def in_events_for)
  have no_mark: "ev_protection m \<noteq> Some pid" if "m \<in> set marks" for m
    using unmarked that types ids ne by (auto simp: live_events_def in_events_for)
  have tally: "is_unresolved (tally_of pid rows)"
    using ids marks_resolve [of "filter (is_control_of pid) marks" "tally_of pid rows"] types
    by (simp add: unresolved_iff tally_of_def)
  hence old: "pid \<in> set (unresolved_protection_ids rows)" by (simp add: unresolved_iff unresolved_has_event)
  have same: "filter (of_protection pid) marks = []"
    using no_mark by (auto simp: of_protection_def filter_empty_conv)
  have l': "lc = lifecycle_of pid (filter (of_protection pid) (live_events rows))"
    using l by (simp add: live_events_def group_of ids old same)
  have "pid \<in> set (protections_of (live_events rows))"
  proof -
    have "\<exists>ev\<in>set (rows @ marks). ev_protection ev = Some pid"
      using pid by (auto simp: protections_of_mem live_events_def in_events_for)
    then obtain ev where "ev \<in> set (rows @ marks)" "ev_protection ev = Some pid" by blast
    hence "ev \<in> set rows" using no_mark by auto
    thus ?thesis using \<open>ev_protection ev = Some pid\<close> old ne by (auto simp: protections_of_mem live_events_def in_events_for)
  qed
  moreover have "\<not> (\<exists>ev\<in>set (live_events rows). ev_type ev \<in> set mark_types \<and> ev_protection ev = Some pid)"
    using unmarked ids ne by (auto simp: live_events_def in_events_for)
  ultimately have "lc \<in> set (to_mark rows)" using l' active by (auto simp: to_mark_mem)
  then obtain m where "m \<in> set marks" "marks_for boot lc m" using all2_partner [OF assms] by blast
  thus False using no_mark l by (auto simp: marks_for_def)
qed

lemma to_mark_distinct: "distinct (map lc_id (to_mark rows))"
proof -
  have "distinct (map lc_id (rev (sort_key lc_updated (rev lcs))))" if "distinct (map lc_id lcs)" for lcs :: "lifecycle list"
    using that by (simp add: distinct_map)
  moreover have "distinct (map lc_id (map (\<lambda>pid. lifecycle_of pid (filter (of_protection pid) evs)) (protections_of evs)))" for evs
    by (simp add: o_def protections_of_def)
  ultimately have "distinct (map lc_id (summarize evs))" for evs unfolding summarize_def by blast
  thus ?thesis by (simp add: to_mark_def Let_def distinct_map_filter)
qed

subsection \<open>What has to be marked\<close>

text \<open>The specification of reconciling speaks of the rows of the ledger alone. The history of a protection are its events by
  time and id; it was left open when more of its control events apply a limit than end one, the last action of some resource
  was to apply a limit and that of none has failed, and no event of it is a mark of this kind yet.\<close>

definition history :: "string \<Rightarrow> event list \<Rightarrow> event list" where
  "history pid rows = sort_key event_order (filter (\<lambda>ev. ev_protection ev = Some pid) rows)"

definition mark_kinds :: "string list" where
  "mark_kinds = [''CONTROL_LIFECYCLE_REQUIRES_VERIFICATION'', ''CONTROL_LIFECYCLE_CLEARED_BY_REBOOT'',
     ''CONTROL_LIFECYCLE_CLEARED_WITHOUT_RUNTIME_STATE'']"

definition actions_of :: "control_action set \<Rightarrow> string \<Rightarrow> event list \<Rightarrow> nat" where
  "actions_of kinds pid rows = length (filter (\<lambda>ev. ev_category ev = ''platform.control'' \<and> ev_protection ev = Some pid
     \<and> (case action_for (ev_type ev) of None \<Rightarrow> False | Some a \<Rightarrow> a \<in> kinds)) rows)"

definition left_open :: "string \<Rightarrow> event list \<Rightarrow> bool" where
  "left_open pid rows \<longleftrightarrow> pid \<noteq> []
     \<and> actions_of {Recovered, Unsuccessful} pid rows < actions_of {Applied} pid rows
     \<and> (\<exists>r. last_action r (history pid rows) = Some Applied) \<and> (\<forall>r. last_action r (history pid rows) \<noteq> Some Unsuccessful)
     \<and> (\<forall>ev\<in>set rows. ev_protection ev = Some pid \<longrightarrow> ev_type ev \<notin> set mark_kinds)"

lemma tally_counts:
  "ta_applied (fold count_event evs t) = ta_applied t + length (filter (\<lambda>ev. action_for (ev_type ev) = Some Applied) evs)"
  "ta_ended (fold count_event evs t) = ta_ended t
     + length (filter (\<lambda>ev. action_for (ev_type ev) = Some Recovered \<or> action_for (ev_type ev) = Some Unsuccessful) evs)"
  "ta_rebooted (fold count_event evs t) \<longleftrightarrow> ta_rebooted t \<or> (\<exists>ev\<in>set evs. ev_type ev = ''CONTROL_LIFECYCLE_CLEARED_BY_REBOOT'')"
proof -
  have no: "\<not> endswith ''CONTROL_LIFECYCLE_CLEARED_BY_REBOOT'' ''_APPLIED'' \<and> \<not> endswith ''CONTROL_LIFECYCLE_CLEARED_BY_REBOOT'' ''_RECOVERED''
      \<and> \<not> endswith ''CONTROL_LIFECYCLE_CLEARED_BY_REBOOT'' ''_FAILED''"
    by (rule mark_not_action) (simp add: mark_types_def)
  have step: "ta_applied (count_event ev t) = ta_applied t + (if action_for (ev_type ev) = Some Applied then 1 else 0)"
    "ta_ended (count_event ev t) = ta_ended t + (if action_for (ev_type ev) = Some Recovered \<or> action_for (ev_type ev) = Some Unsuccessful then 1 else 0)"
    "ta_rebooted (count_event ev t) \<longleftrightarrow> ta_rebooted t \<or> ev_type ev = ''CONTROL_LIFECYCLE_CLEARED_BY_REBOOT''" for ev t
    using no by (auto simp: count_event_def action_for_def Let_def)
  show "ta_applied (fold count_event evs t) = ta_applied t + length (filter (\<lambda>ev. action_for (ev_type ev) = Some Applied) evs)"
    by (induction evs arbitrary: t) (simp_all add: step)
  show "ta_ended (fold count_event evs t) = ta_ended t
     + length (filter (\<lambda>ev. action_for (ev_type ev) = Some Recovered \<or> action_for (ev_type ev) = Some Unsuccessful) evs)"
    by (induction evs arbitrary: t) (simp_all add: step)
  show "ta_rebooted (fold count_event evs t) \<longleftrightarrow> ta_rebooted t \<or> (\<exists>ev\<in>set evs. ev_type ev = ''CONTROL_LIFECYCLE_CLEARED_BY_REBOOT'')"
    by (induction evs arbitrary: t) (auto simp: step)
qed

lemma unresolved_counts:
  "is_unresolved (tally_of pid rows) \<longleftrightarrow> actions_of {Recovered, Unsuccessful} pid rows < actions_of {Applied} pid rows
     \<and> (\<forall>ev\<in>set rows. is_control_of pid ev \<longrightarrow> ev_type ev \<noteq> ''CONTROL_LIFECYCLE_CLEARED_BY_REBOOT'')"
proof -
  have cnt: "actions_of kinds pid rows = length (filter (\<lambda>ev. \<exists>a\<in>kinds. action_for (ev_type ev) = Some a) (filter (is_control_of pid) rows))" for kinds
    unfolding actions_of_def filter_filter
    by (intro arg_cong [where f = length] filter_cong refl) (auto simp: is_control_of_def split: option.splits)
  show ?thesis unfolding cnt by (auto simp: is_unresolved_def tally_of_def tally_counts no_tally_def)
qed

lemma history_group:
  assumes "inj_on event_order (set rows)"
  shows "sort_key event_order (rev (sort_key ev_created (filter (of_protection pid) rows))) = history pid rows"
proof -
  have "filter (of_protection pid) rows = filter (\<lambda>ev. ev_protection ev = Some pid) rows"
    by (rule filter_cong) (simp_all add: of_protection_def)
  moreover have "inj_on event_order (set (filter (\<lambda>ev. ev_protection ev = Some pid) rows))"
    by (rule inj_on_subset [OF assms]) auto
  ultimately show ?thesis unfolding history_def by (intro sort_key_inj_key_eq) simp_all
qed

lemma status_active:
  "status_of failed active types = ''active'' \<longleftrightarrow> failed = [] \<and> active \<noteq> [] \<and> set types \<inter> set mark_kinds = {}"
  by (auto simp: status_of_def mark_kinds_def Let_def)

lemma lifecycle_active:
  assumes "sort_key event_order grp = evs"
  shows "lc_status (lifecycle_of pid grp) = ''active'' \<longleftrightarrow>
      (\<exists>r. last_action r evs = Some Applied) \<and> (\<forall>r. last_action r evs \<noteq> Some Unsuccessful) \<and> ev_type ` set evs \<inter> set mark_kinds = {}"
    and "lc_boot (lifecycle_of pid grp) = ev_boot_attr (hd evs)"
proof -
  obtain latest ever where f: "fold note_action evs ([], []) = (latest, ever)" by fastforce
  have m: "map_of latest r = last_action r evs" "distinct (map fst latest)" for r
    using note_actions [of evs r] by (simp_all add: f)
  have none: "with_action a latest = [] \<longleftrightarrow> (\<forall>r. last_action r evs \<noteq> Some a)" for a
    using with_action_set [OF m(2), of a] by (auto simp: m(1) set_empty [symmetric] simp del: set_empty)
  show "lc_status (lifecycle_of pid grp) = ''active'' \<longleftrightarrow>
      (\<exists>r. last_action r evs = Some Applied) \<and> (\<forall>r. last_action r evs \<noteq> Some Unsuccessful) \<and> ev_type ` set evs \<inter> set mark_kinds = {}"
    by (auto simp: lifecycle_of_def Let_def assms f status_active none)
  show "lc_boot (lifecycle_of pid grp) = ev_boot_attr (hd evs)"
    by (simp add: lifecycle_of_def Let_def assms f)
qed

lemma mark_types_kinds: "set mark_types \<subseteq> set mark_kinds"
  by (simp add: mark_types_def mark_kinds_def)

lemma to_mark_open:
  assumes "inj_on event_order (set rows)"
  shows "lc_id ` set (to_mark rows) = {pid. left_open pid rows}"
    and "lc \<in> set (to_mark rows) \<Longrightarrow> lc_boot lc = ev_boot_attr (hd (history (lc_id lc) rows))"
proof -
  define grp where "grp pid = filter (of_protection pid) (live_events rows)" for pid
  have sorted_grp: "sort_key event_order (grp pid) = history pid rows"
    if "pid \<in> set (unresolved_protection_ids rows)" "pid \<noteq> []" for pid
    using that history_group [OF assms, of pid] by (simp add: grp_def live_events_def group_of)
  have prot: "pid \<in> set (protections_of (live_events rows)) \<longleftrightarrow> pid \<noteq> [] \<and> pid \<in> set (unresolved_protection_ids rows)" for pid
    using unresolved_iff [of pid rows]
    by (auto simp: protections_of_mem live_events_def in_events_for list_ex_iff is_control_of_def)
  have types: "ev_type ` set (history pid rows) = ev_type ` {ev \<in> set rows. ev_protection ev = Some pid}" for pid
    by (simp add: history_def)
  have marked: "\<not> (\<exists>ev\<in>set (live_events rows). ev_type ev \<in> set mark_types \<and> ev_protection ev = Some pid)"
    if "ev_type ` set (history pid rows) \<inter> set mark_kinds = {}" for pid
  proof (rule notI, elim bexE conjE)
    fix ev assume ev: "ev \<in> set (live_events rows)" "ev_type ev \<in> set mark_types" "ev_protection ev = Some pid"
    have "ev \<in> set rows" using ev(1) unfolding live_events_def in_events_for by blast
    then have "ev_type ev \<in> ev_type ` set (history pid rows)" unfolding types using ev(3) by blast
    then show False using that ev(2) mark_types_kinds by blast
  qed
  have mem: "lc \<in> set (to_mark rows) \<longleftrightarrow> (\<exists>pid. lc = lifecycle_of pid (grp pid) \<and> pid \<noteq> [] \<and> pid \<in> set (unresolved_protection_ids rows)
      \<and> (\<exists>r. last_action r (history pid rows) = Some Applied) \<and> (\<forall>r. last_action r (history pid rows) \<noteq> Some Unsuccessful)
      \<and> ev_type ` set (history pid rows) \<inter> set mark_kinds = {})" for lc
    unfolding to_mark_mem Bex_def prot grp_def [symmetric]
    using lifecycle_active(1) [OF sorted_grp] marked by (metis lc_id_of)
  have opened: "left_open pid rows \<longleftrightarrow> pid \<noteq> [] \<and> pid \<in> set (unresolved_protection_ids rows)
      \<and> (\<exists>r. last_action r (history pid rows) = Some Applied) \<and> (\<forall>r. last_action r (history pid rows) \<noteq> Some Unsuccessful)
      \<and> ev_type ` set (history pid rows) \<inter> set mark_kinds = {}" for pid
  proof -
    have disj: "(ev_type ` set (history pid rows) \<inter> set mark_kinds = {}) \<longleftrightarrow> (\<forall>ev\<in>set rows. ev_protection ev = Some pid \<longrightarrow> ev_type ev \<notin> set mark_kinds)"
      unfolding types by blast
    have "(\<forall>ev\<in>set rows. ev_protection ev = Some pid \<longrightarrow> ev_type ev \<notin> set mark_kinds) \<Longrightarrow>
        pid \<in> set (unresolved_protection_ids rows) \<longleftrightarrow> actions_of {Recovered, Unsuccessful} pid rows < actions_of {Applied} pid rows"
      using unresolved_has_event [of pid rows] unfolding unresolved_iff unresolved_counts
      by (auto simp: is_control_of_def mark_kinds_def)
    then show ?thesis unfolding left_open_def disj by blast
  qed
  show "lc_id ` set (to_mark rows) = {pid. left_open pid rows}"
  proof -
    have mem': "lc \<in> set (to_mark rows) \<longleftrightarrow> (\<exists>pid. lc = lifecycle_of pid (grp pid) \<and> left_open pid rows)" for lc
      unfolding mem opened ..
    have "pid \<in> lc_id ` set (to_mark rows) \<longleftrightarrow> left_open pid rows" for pid
      unfolding image_iff Bex_def mem' by (metis lc_id_of)
    then show ?thesis by blast
  qed
  show "lc_boot lc = ev_boot_attr (hd (history (lc_id lc) rows))" if "lc \<in> set (to_mark rows)"
    using that mem [of lc] lifecycle_active(2) [OF sorted_grp] by (metis lc_id_of)
qed

text \<open>C32: 
  What was left in force is classified once, and nothing is missed. Reconciling reports exactly the protections that were
  left open, each once, and appends one mark for each of them and nothing else to the ledger. The mark says that the limit
  ended with the boot exactly when the boot of the first event of the protection is known and differs from the present one,
  and that it has to be verified otherwise. A second run finds nothing left to mark. No two events of the ledger may share
  their time and their id.
\<close>
theorem reconciled_once:
  assumes ids: "inj_on event_order (set rows)" and boot: "\<forall>n. ee_boot (env n) = boot"
    and r: "reconcile_interrupted_lifecycles env rows = (pids, rows')"
  shows "\<exists>marks. rows' = rows @ marks \<and> map ev_protection marks = map Some pids
     \<and> distinct pids \<and> set pids = {pid. left_open pid rows}
     \<and> (\<forall>m\<in>set marks. ev_category m = ''platform.control'' \<and> ev_boot_attr m = boot
          \<and> ev_type m = (if restarted boot (ev_boot_attr (hd (history (the (ev_protection m)) rows)))
              then ''CONTROL_LIFECYCLE_CLEARED_BY_REBOOT'' else ''CONTROL_LIFECYCLE_REQUIRES_VERIFICATION''))
     \<and> reconcile_interrupted_lifecycles env' rows' = ([], rows')"
proof -
  obtain marks where m: "mark_all env 0 (to_mark rows) rows = rows @ marks" "list_all2 (marks_for boot) (to_mark rows) marks"
    using mark_all_appends [OF boot] by blast
  have pids: "pids = map lc_id (to_mark rows)" and rows': "rows' = rows @ marks"
    using r m(1) by (simp_all add: reconcile_interrupted_lifecycles_def)
  have prot: "map ev_protection marks = map Some pids"
    using m(2) unfolding pids by (induction rule: list_all2_induct) (simp_all add: marks_for_def)
  have each: "ev_category x = ''platform.control'' \<and> ev_boot_attr x = boot
          \<and> ev_type x = (if restarted boot (ev_boot_attr (hd (history (the (ev_protection x)) rows)))
              then ''CONTROL_LIFECYCLE_CLEARED_BY_REBOOT'' else ''CONTROL_LIFECYCLE_REQUIRES_VERIFICATION'')" if x: "x \<in> set marks" for x
  proof -
    have "list_all2 (\<lambda>x lc. marks_for boot lc x) marks (to_mark rows)" using m(2) by (simp add: list_all2_conv_all_nth)
    from all2_partner [OF this x] obtain lc where lc: "lc \<in> set (to_mark rows)" "marks_for boot lc x" by blast
    from to_mark_open(2) [OF ids lc(1)] lc(2) show ?thesis by (simp add: marks_for_def)
  qed
  have "reconcile_interrupted_lifecycles env' rows' = ([], rows')"
    unfolding rows' using to_mark_settled [OF m(2)] by (simp add: reconcile_interrupted_lifecycles_def)
  moreover have "distinct pids" "set pids = {pid. left_open pid rows}"
    unfolding pids using to_mark_distinct to_mark_open(1) [OF ids] by simp_all
  ultimately show ?thesis using rows' prot each by blast
qed

subsection \<open>Concrete runs\<close>

definition ledger_at :: "nat \<Rightarrow> event_env" where
  \<comment> \<open>one event per tick, in the first boot\<close>
  "ledger_at n = \<lparr>ee_id = [char_of n], ee_iso = ''t'' @ [char_of n], ee_now = int n, ee_boot = Some ''b1''\<rparr>"

definition limit_event :: "nat \<Rightarrow> control_action \<Rightarrow> string \<Rightarrow> event list \<Rightarrow> event list" where
  "limit_event n a res = record_control_action [ledger_at n] a ''app'' ''App'' ''p1'' [''cg''] [res]"

definition shown :: "event list \<Rightarrow> (string \<times> string list) list" where
  "shown rows = map (\<lambda>lc. (lc_status lc, lc_active lc)) (query_lifecycles None None None None 10 0 rows)"

text \<open>
  A channel that is capped again while the other one of the same limit is still capped is missing from the ledger: the
  second event has the identity of the first, and is taken for a repetition. The dashboard shows the channel as lifted, and
  once the other channel is lifted the limit counts as resolved, although the processor is still capped.
\<close>

lemma recap_lost:
  "shown (limit_event 70 Applied ''CPU'' (limit_event 69 Recovered ''DISK_IO'' (limit_event 68 Recovered ''CPU''
     (limit_event 67 Applied ''DISK_IO'' (limit_event 66 Applied ''CPU'' []))))) = [(''recovered'', [])]
   \<and> unresolved_protection_ids (limit_event 70 Applied ''CPU'' (limit_event 69 Recovered ''DISK_IO'' (limit_event 68 Recovered ''CPU''
     (limit_event 67 Applied ''DISK_IO'' (limit_event 66 Applied ''CPU'' []))))) = []"
  by code_simp

text \<open>
  A restore that failed leaves the cap in place, and ends the protection by the count: it is no longer kept by the
  retention, nor marked after an interruption.
\<close>

lemma failed_restore_unwatched:
  "shown (limit_event 67 Unsuccessful ''CPU'' (limit_event 66 Applied ''CPU'' [])) = [(''failed'', [])]
   \<and> unresolved_protection_ids (limit_event 67 Unsuccessful ''CPU'' (limit_event 66 Applied ''CPU'' [])) = []
   \<and> snd (delete_older_than 864000 3 (limit_event 67 Unsuccessful ''CPU'' (limit_event 66 Applied ''CPU'' []))) = []"
  by code_simp

definition two_events :: "event list" where
  "two_events = limit_event 67 Applied ''MEMORY'' (limit_event 66 Applied ''CPU'' [])"

theorem reconciled_once_witness:
  "\<exists>pids rows'. reconcile_interrupted_lifecycles (\<lambda>n. (ledger_at (70 + n))\<lparr>ee_boot := Some ''b2''\<rparr>) two_events = (pids, rows')
     \<and> pids = [''p1''] \<and> map ev_type (drop 2 rows') = [''CONTROL_LIFECYCLE_CLEARED_BY_REBOOT'']"
proof -
  let ?env = "\<lambda>n. (ledger_at (70 + n))\<lparr>ee_boot := Some ''b2''\<rparr>"
  obtain pids rows' where r: "reconcile_interrupted_lifecycles ?env two_events = (pids, rows')" by fastforce
  have p: "fst (reconcile_interrupted_lifecycles ?env two_events) = [''p1'']" by code_simp
  have ids: "inj_on event_order (set two_events)"
  proof -
    have "distinct (map event_order two_events)" by code_simp
    thus ?thesis by (simp add: distinct_map)
  qed
  have "restarted (Some ''b2'') (ev_boot_attr (hd (history ''p1'' two_events)))"
  proof -
    have "ev_boot_attr (hd (history ''p1'' two_events)) = Some ''b1''" by code_simp
    thus ?thesis by (simp add: restarted_def)
  qed
  moreover have "length two_events = 2" by code_simp
  moreover have "\<forall>n. ee_boot (?env n) = Some ''b2''" by simp
  from reconciled_once [OF ids this r] obtain marks where "rows' = two_events @ marks" "map ev_protection marks = map Some pids"
    "\<forall>m\<in>set marks. ev_type m = (if restarted (Some ''b2'') (ev_boot_attr (hd (history (the (ev_protection m)) two_events)))
              then ''CONTROL_LIFECYCLE_CLEARED_BY_REBOOT'' else ''CONTROL_LIFECYCLE_REQUIRES_VERIFICATION'')" by blast
  ultimately show ?thesis using r p by (cases marks) auto
qed

theorem summary_by_last_action_witness:
  "lifecycle_of ''p1'' (rev two_events) = lifecycle_of ''p1'' two_events \<and> set (lc_active (lifecycle_of ''p1'' two_events)) = {''cpu'', ''memory''}"
proof -
  have "lc_active (lifecycle_of ''p1'' two_events) = [''cpu'', ''memory'']" by code_simp
  moreover have "inj_on event_order (set two_events)"
  proof -
    have "distinct (map event_order two_events)" by code_simp
    thus ?thesis by (simp add: distinct_map)
  qed
  ultimately show ?thesis using summary_by_last_action [of "rev two_events" two_events "''p1''"] by simp
qed

end
