(* ===== verification/Alerts.thy ===== *)
theory Alerts
  imports Event_Ledger
begin

text \<open>
  Alerts: \<open>diagnostics/alerts.py\<close> with \<open>AlertState\<close> and \<open>AlertEpisode\<close> of \<open>db/DatabaseModel.py\<close>, and \<open>emit_event\<close>, that
  records an event and then folds it into the alerts. The two tables are lists of rows; a write succeeds. The reading of a
  time stamp by \<open>fromisoformat\<close> and the clock are arguments; the reason and the evidence of an escalation are texts and are
  left out. In \<open>emit_event\<close> the context that fills in missing ids and the scrubbing of secrets are left out.
\<close>

subsection \<open>Policies\<close>

record alert_policy =
  ap_severity :: string
  ap_for :: real
  ap_ttl :: "real option"
  ap_close_on_ack :: bool

definition alert_policies :: "(string \<times> alert_policy) list" where
  "alert_policies =
     [(''PLATFORM_KERNEL_PANIC'', \<lparr>ap_severity = ''critical'', ap_for = 0, ap_ttl = None, ap_close_on_ack = True\<rparr>),
      (''RESOURCE_MEMORY_OOM_KILL'', \<lparr>ap_severity = ''critical'', ap_for = 0, ap_ttl = None, ap_close_on_ack = True\<rparr>),
      (''DEVICE_GPU_HANG'', \<lparr>ap_severity = ''critical'', ap_for = 0, ap_ttl = None, ap_close_on_ack = True\<rparr>),
      (''PLATFORM_SERVICE_CRASHED'', \<lparr>ap_severity = ''critical'', ap_for = 0, ap_ttl = None, ap_close_on_ack = False\<rparr>),
      (''PLATFORM_SYSTEMD_RESTART_LOOP'', \<lparr>ap_severity = ''error'', ap_for = 0, ap_ttl = Some 120, ap_close_on_ack = False\<rparr>),
      (''CONTROL_CPU_LIMIT_FAILED'', \<lparr>ap_severity = ''error'', ap_for = 0, ap_ttl = None, ap_close_on_ack = False\<rparr>),
      (''CONTROL_MEMORY_LIMIT_FAILED'', \<lparr>ap_severity = ''error'', ap_for = 0, ap_ttl = None, ap_close_on_ack = False\<rparr>),
      (''CONTROL_DISK_IO_LIMIT_FAILED'', \<lparr>ap_severity = ''error'', ap_for = 0, ap_ttl = None, ap_close_on_ack = False\<rparr>)]"

record escalation_rule =
  er_id :: string
  er_window :: real
  er_threshold :: nat
  er_to :: string

definition escalation_rules :: "(string \<times> escalation_rule) list" where
  "escalation_rules =
     [(''PLATFORM_SYSTEMD_RESTART_LOOP'',
       \<lparr>er_id = ''restart_storm_v1'', er_window = 300, er_threshold = 3, er_to = ''critical''\<rparr>)]"

definition cooldown_seconds :: int where "cooldown_seconds = 300"

definition closes_on_ack :: "string \<Rightarrow> bool" where
  "closes_on_ack t = (case map_of alert_policies t of None \<Rightarrow> False | Some p \<Rightarrow> ap_close_on_ack p)"

subsection \<open>Rows\<close>

datatype alert_status = Pending | Active | Resolved

record alert_row =
  al_key :: string  \<comment> \<open>\<open>dedup_key\<close>\<close>
  al_first :: string  \<comment> \<open>\<open>first_fired_at\<close>\<close>
  al_last :: string
  al_count :: nat
  al_event :: string
  al_ack :: "string option"
  al_silenced :: "string option"
  al_status :: alert_status
  al_pending :: "string option"
  al_seen :: string
  al_resolved :: "string option"
  al_resolved_by :: "string option"
  al_scope :: string
  al_severity :: string
  al_escalated :: bool  \<comment> \<open>\<open>severity_origin\<close> is \<open>rule_escalated\<close>\<close>
  al_baseline :: "string option"
  al_rule :: "string option"
  al_escalated_at :: "string option"
  al_type :: string
  al_summary :: string
  al_updated :: int  \<comment> \<open>\<open>update_time\<close>\<close>

record episode =
  ep_row :: alert_row
  ep_resolved_at :: string
  ep_resolved_by :: "string option"
  ep_updated :: int

record alert_db =
  ad_rows :: "alert_row list"
  ad_episodes :: "episode list"

definition row_of :: "string \<Rightarrow> alert_row list \<Rightarrow> alert_row option" where
  "row_of key rows = find (\<lambda>r. al_key r = key) rows"

definition update_row :: "string \<Rightarrow> (alert_row \<Rightarrow> alert_row) \<Rightarrow> alert_row list \<Rightarrow> alert_row list" where
  "update_row key f rows = map (\<lambda>r. if al_key r = key then f r else r) rows"

definition scope_for :: "event \<Rightarrow> string" where
  \<comment> \<open>the first that is set\<close>
  "scope_for ev =
     (case filter (\<lambda>s. s \<noteq> []) (List.map_filter (\<lambda>x. x) [ev_protection ev, ev_job ev, ev_app ev, ev_service ev, ev_source ev]) of
        [] \<Rightarrow> ''-'' | s # _ \<Rightarrow> s)"

definition dedup_key_for :: "event \<Rightarrow> string" where
  "dedup_key_for ev = ev_type ev @ ''::'' @ scope_for ev"

definition recovery_target :: "string \<Rightarrow> string option" where
  "recovery_target t =
     (if t = ''PLATFORM_SERVICE_STARTED'' then Some ''PLATFORM_SERVICE_CRASHED''
      else if endswith t ''_LIMIT_RECOVERED'' then Some (take (length t - length ''_LIMIT_RECOVERED'') t @ ''_LIMIT_FAILED'')
      else None)"

definition record_pending :: "int \<Rightarrow> string \<Rightarrow> event \<Rightarrow> alert_db \<Rightarrow> string option \<times> alert_db" where
  "record_pending now sev ev db =
     (let key = dedup_key_for ev; ts = ev_ts ev in
      case row_of key (ad_rows db) of
        None \<Rightarrow>
          (Some ts, db\<lparr>ad_rows := ad_rows db @
             [\<lparr>al_key = key, al_first = ts, al_last = ts, al_count = 0, al_event = ev_id ev, al_ack = None, al_silenced = None,
               al_status = Pending, al_pending = Some ts, al_seen = ts, al_resolved = None, al_resolved_by = None,
               al_scope = scope_for ev, al_severity = sev, al_escalated = False, al_baseline = None, al_rule = None,
               al_escalated_at = None, al_type = ev_type ev, al_summary = ev_summary ev, al_updated = now\<rparr>]\<rparr>)
      | Some row \<Rightarrow>
          if al_status row = Active then (None, db)
          else (let since = (case al_pending row of None \<Rightarrow> ts | Some s \<Rightarrow> if s = [] then ts else s) in
                (Some since, db\<lparr>ad_rows := update_row key (\<lambda>r. r\<lparr>al_last := ts, al_seen := ts, al_event := ev_id ev,
                   al_severity := sev, al_summary := ev_summary ev, al_scope := scope_for ev, al_type := ev_type ev,
                   al_status := Pending, al_pending := Some since, al_resolved := None, al_resolved_by := None,
                   al_updated := now\<rparr>) (ad_rows db)\<rparr>)))"

definition record_fire :: "int \<Rightarrow> int \<Rightarrow> string \<Rightarrow> event \<Rightarrow> alert_db \<Rightarrow> bool \<times> nat \<times> alert_db" where
  "record_fire now cooldown sev ev db =
     (let key = dedup_key_for ev; ts = ev_ts ev in
      case row_of key (ad_rows db) of
        None \<Rightarrow>
          (True, 1, db\<lparr>ad_rows := ad_rows db @
             [\<lparr>al_key = key, al_first = ts, al_last = ts, al_count = 1, al_event = ev_id ev, al_ack = None, al_silenced = None,
               al_status = Active, al_pending = None, al_seen = ts, al_resolved = None, al_resolved_by = None,
               al_scope = scope_for ev, al_severity = sev, al_escalated = False, al_baseline = None, al_rule = None,
               al_escalated_at = None, al_type = ev_type ev, al_summary = ev_summary ev, al_updated = now\<rparr>]\<rparr>)
      | Some row \<Rightarrow>
          (let became = (al_status row \<noteq> Active);
               notify = (became \<or> max 0 cooldown \<le> now - al_updated row);
               n = (if became then 1 else al_count row + 1)
           in (notify, n, db\<lparr>ad_rows := update_row key (\<lambda>r.
                (let r1 = r\<lparr>al_last := ts, al_count := n, al_event := ev_id ev,
                            al_severity := (if al_status row = Active \<and> al_escalated row then al_severity row else sev),
                            al_type := ev_type ev, al_summary := ev_summary ev, al_scope := scope_for ev, al_status := Active,
                            al_pending := None, al_seen := ts, al_resolved := None, al_resolved_by := None\<rparr>;
                     r2 = (if notify then r1\<lparr>al_updated := now\<rparr> else r1)
                 in if became then r2\<lparr>al_first := ts, al_ack := None, al_silenced := None\<rparr> else r2)) (ad_rows db)\<rparr>)))"

definition archive :: "int \<Rightarrow> alert_row \<Rightarrow> string \<Rightarrow> string option \<Rightarrow> episode list \<Rightarrow> episode list" where
  \<comment> \<open>the occurrence of a key is identified by its start; the same one again is ignored\<close>
  "archive now row at_ts by_event eps =
     (if list_ex (\<lambda>ep. al_key (ep_row ep) = al_key row \<and> al_first (ep_row ep) = al_first row) eps then eps
      else eps @ [\<lparr>ep_row = row, ep_resolved_at = at_ts, ep_resolved_by = by_event, ep_updated = now\<rparr>])"

definition resolve :: "int \<Rightarrow> string \<Rightarrow> string \<Rightarrow> string \<Rightarrow> string option \<Rightarrow> alert_db \<Rightarrow> nat \<times> alert_db" where
  "resolve now t scope ts by_event db =
     (let hit = (\<lambda>r. al_type r = t \<and> al_scope r = scope \<and> al_status r = Active) in
      (length (filter hit (ad_rows db)),
       \<lparr>ad_rows = map (\<lambda>r. if hit r then r\<lparr>al_status := Resolved, al_resolved := Some ts, al_resolved_by := by_event,
                                        al_updated := now\<rparr> else r) (ad_rows db),
        ad_episodes = foldl (\<lambda>eps r. archive now r ts by_event eps) (ad_episodes db) (filter hit (ad_rows db))\<rparr>))"

definition acknowledge_row :: "int \<Rightarrow> string \<Rightarrow> string \<Rightarrow> alert_db \<Rightarrow> bool \<times> alert_db" where
  "acknowledge_row now key ts db =
     (list_ex (\<lambda>r. al_key r = key \<and> al_status r = Active) (ad_rows db),
      db\<lparr>ad_rows := update_row key (\<lambda>r. if al_status r = Active then r\<lparr>al_ack := Some ts, al_updated := now\<rparr> else r) (ad_rows db)\<rparr>)"

definition close_acknowledged :: "int \<Rightarrow> string \<Rightarrow> string \<Rightarrow> alert_db \<Rightarrow> bool \<times> alert_db" where
  "close_acknowledged now key ts db =
     (case find (\<lambda>r. al_key r = key \<and> al_status r = Active) (ad_rows db) of
        None \<Rightarrow> (False, db)
      | Some row \<Rightarrow>
          (True,
           \<lparr>ad_rows = update_row key (\<lambda>r. r\<lparr>al_ack := Some ts, al_status := Resolved, al_resolved := Some ts,
              al_resolved_by := None, al_updated := now\<rparr>) (ad_rows db),
            ad_episodes = archive now (row\<lparr>al_ack := Some ts\<rparr>) ts None (ad_episodes db)\<rparr>))"

definition silence :: "int \<Rightarrow> string \<Rightarrow> string \<Rightarrow> alert_db \<Rightarrow> bool \<times> alert_db" where
  "silence now key until_ts db =
     (list_ex (\<lambda>r. al_key r = key \<and> al_status r = Active) (ad_rows db),
      db\<lparr>ad_rows := update_row key (\<lambda>r. if al_status r = Active then r\<lparr>al_silenced := Some until_ts, al_updated := now\<rparr> else r) (ad_rows db)\<rparr>)"

definition severity_rank :: "string \<Rightarrow> int" where
  "severity_rank s =
     (if s = ''info'' then 0 else if s = ''warning'' then 1 else if s = ''error'' then 2 else if s = ''critical'' then 3 else -1)"

definition escalate :: "int \<Rightarrow> string \<Rightarrow> escalation_rule \<Rightarrow> string \<Rightarrow> alert_db \<Rightarrow> bool \<times> alert_db" where
  "escalate now key rule ts db =
     (case row_of key (ad_rows db) of
        None \<Rightarrow> (False, db)
      | Some row \<Rightarrow>
          (let current = (if al_severity row = [] then ''info'' else al_severity row) in
           if al_escalated row \<and> severity_rank (er_to rule) \<le> severity_rank current then (False, db)
           else (True, db\<lparr>ad_rows := update_row key (\<lambda>r. r\<lparr>al_severity := er_to rule, al_escalated := True,
                  al_baseline := Some (case al_baseline row of None \<Rightarrow> current | Some b \<Rightarrow> if b = [] then current else b),
                  al_rule := Some (er_id rule), al_escalated_at := Some ts, al_ack := None, al_updated := now\<rparr>) (ad_rows db)\<rparr>)))"

subsection \<open>Events and alerts\<close>

definition try_escalate :: "(string \<Rightarrow> real option) \<Rightarrow> int \<Rightarrow> string \<Rightarrow> event \<Rightarrow> nat \<Rightarrow> escalation_rule \<Rightarrow> alert_db \<Rightarrow> alert_db" where
  "try_escalate epoch now key ev n rule db =
     (case row_of key (ad_rows db) of
        None \<Rightarrow> db
      | Some row \<Rightarrow>
          if n < er_threshold rule then db
          else (case (epoch (al_first row), epoch (ev_ts ev)) of
                  (Some a, Some b) \<Rightarrow> if b - a > er_window rule then db else snd (escalate now key rule (ev_ts ev) db)
                | _ \<Rightarrow> db))"

definition evaluate_alert :: "(string \<Rightarrow> real option) \<Rightarrow> int \<Rightarrow> int \<Rightarrow> event \<Rightarrow> alert_db \<Rightarrow> bool \<times> nat \<times> alert_db" where
  "evaluate_alert epoch now cooldown ev db =
     (let db1 = (case recovery_target (ev_type ev) of
                   None \<Rightarrow> db | Some t \<Rightarrow> snd (resolve now t (scope_for ev) (ev_ts ev) (Some (ev_id ev)) db)) in
      case map_of alert_policies (ev_type ev) of
        None \<Rightarrow> (False, 0, db1)
      | Some p \<Rightarrow>
          (case epoch (ev_ts ev) of
             None \<Rightarrow> (False, 0, db1)
           | Some t \<Rightarrow>
               (case record_pending now (ap_severity p) ev db1 of
                  (since, db2) \<Rightarrow>
                    if (case since of None \<Rightarrow> False | Some s \<Rightarrow> (case epoch s of None \<Rightarrow> True | Some a \<Rightarrow> t - a < ap_for p))
                    then (False, 0, db2)
                    else (case record_fire now cooldown (ap_severity p) ev db2 of
                            (notify, n, db3) \<Rightarrow>
                              (notify, n, (case map_of escalation_rules (ev_type ev) of
                                 None \<Rightarrow> db3 | Some rule \<Rightarrow> try_escalate epoch now (dedup_key_for ev) ev n rule db3))))))"

definition acknowledge :: "int \<Rightarrow> string \<Rightarrow> string \<Rightarrow> alert_db \<Rightarrow> (bool \<times> bool) \<times> alert_db" where
  "acknowledge now now_iso key db =
     (case find (\<lambda>r. al_key r = key \<and> al_status r = Active) (ad_rows db) of
        None \<Rightarrow> ((False, False), db)
      | Some row \<Rightarrow>
          if closes_on_ack (al_type row) then (case close_acknowledged now key now_iso db of (c, db1) \<Rightarrow> ((c, c), db1))
          else (case acknowledge_row now key now_iso db of (a, db1) \<Rightarrow> ((a, False), db1)))"

definition lease_lapsed :: "(string \<Rightarrow> real option) \<Rightarrow> real \<Rightarrow> alert_row \<Rightarrow> bool" where
  "lease_lapsed epoch now r =
     (case map_of alert_policies (al_type r) of
        None \<Rightarrow> False
      | Some p \<Rightarrow>
          (case (ap_ttl p, epoch (al_seen r)) of
             (Some ttl, Some t) \<Rightarrow> ttl \<noteq> 0 \<and> \<not> now - t \<le> ttl | _ \<Rightarrow> False))"

definition resolve_expired :: "(string \<Rightarrow> real option) \<Rightarrow> int \<Rightarrow> real \<Rightarrow> string \<Rightarrow> alert_db \<Rightarrow> nat \<times> alert_db" where
  "resolve_expired epoch now now_epoch now_iso db =
     foldl (\<lambda>(n, d) r. if lease_lapsed epoch now_epoch r
                       then (case resolve now (al_type r) (al_scope r) now_iso None d of (k, d1) \<Rightarrow> (n + k, d1)) else (n, d))
       (0, db) (filter (\<lambda>r. al_status r = Active) (ad_rows db))"

record diag_state =
  di_ledger :: "event list"
  di_alerts :: alert_db

definition emit_event :: "pydict \<Rightarrow> (string \<Rightarrow> real option) \<Rightarrow> event_env \<Rightarrow> event \<Rightarrow> string option \<Rightarrow> diag_state \<Rightarrow> event option \<times> diag_state" where
  "emit_event cfg epoch e draft identity s =
     (if \<not> event_enabled cfg (ev_type draft) then (None, s)
      else case record_event e draft identity (di_ledger s) of
        (None, rows) \<Rightarrow> (None, s\<lparr>di_ledger := rows\<rparr>)
      | (Some ev, rows) \<Rightarrow>
          (Some ev, \<lparr>di_ledger = rows, di_alerts = snd (snd (evaluate_alert epoch (ee_now e) cooldown_seconds ev (di_alerts s)))\<rparr>))"

definition delete_resolved_older_than :: "int \<Rightarrow> int \<Rightarrow> alert_db \<Rightarrow> alert_db" where
  "delete_resolved_older_than now days db =
     db\<lparr>ad_rows := filter (\<lambda>r. \<not> (al_status r = Resolved \<and> al_updated r < cutoff_of now days)) (ad_rows db)\<rparr>"

definition delete_episodes_older_than :: "int \<Rightarrow> int \<Rightarrow> alert_db \<Rightarrow> alert_db" where
  "delete_episodes_older_than now days db =
     db\<lparr>ad_episodes := filter (\<lambda>ep. \<not> ep_updated ep < cutoff_of now days) (ad_episodes db)\<rparr>"

definition run_cleanup :: "int \<Rightarrow> pydict \<Rightarrow> diag_state \<Rightarrow> diag_state" where
  "run_cleanup now settings s =
     (let days = configured_days settings in
      \<lparr>di_ledger = snd (delete_older_than now days (di_ledger s)),
       di_alerts = delete_episodes_older_than now days (delete_resolved_older_than now days (di_alerts s))\<rparr>)"

subsection \<open>Occurrences are kept\<close>

definition archived :: "string \<Rightarrow> string \<Rightarrow> alert_db \<Rightarrow> bool" where
  "archived key first db \<longleftrightarrow> list_ex (\<lambda>ep. al_key (ep_row ep) = key \<and> al_first (ep_row ep) = first) (ad_episodes db)"

definition one_row_each :: "alert_db \<Rightarrow> bool" where
  "one_row_each db \<longleftrightarrow> distinct (map al_key (ad_rows db))"

definition goes_on :: "int \<Rightarrow> alert_row \<Rightarrow> alert_row \<Rightarrow> bool" where
  \<comment> \<open>the same occurrence, still active; if it was touched at the time \<open>t\<close> or later, it still was\<close>
  "goes_on t r r' \<longleftrightarrow> al_status r' = Active \<and> al_key r' = al_key r \<and> al_first r' = al_first r
     \<and> (t \<le> al_updated r \<longrightarrow> t \<le> al_updated r')"

definition keeps :: "int \<Rightarrow> alert_db \<Rightarrow> alert_db \<Rightarrow> bool" where
  "keeps t db db' \<longleftrightarrow> (one_row_each db \<longrightarrow> one_row_each db'
     \<and> (\<forall>key first. archived key first db \<longrightarrow> archived key first db')
     \<and> (\<forall>r\<in>set (ad_rows db). al_status r = Active \<longrightarrow>
          (\<exists>r'\<in>set (ad_rows db'). goes_on t r r') \<or> archived (al_key r) (al_first r) db'))"

lemma goes_on_refl: "al_status r = Active \<Longrightarrow> goes_on t r r" by (simp add: goes_on_def)

lemma keeps_refl [simp]: "keeps t db db"
  using goes_on_refl by (auto simp: keeps_def)

lemma keeps_trans:
  assumes "keeps t a b" "keeps t b c"
  shows "keeps t a c"
  unfolding keeps_def
proof (intro impI conjI allI ballI)
  assume u: "one_row_each a"
  with assms(1) have ub: "one_row_each b" by (simp add: keeps_def)
  with assms(2) show "one_row_each c" by (simp add: keeps_def)
  show "archived k f c" if "archived k f a" for k f using assms u ub that by (simp add: keeps_def)
  show "(\<exists>r'\<in>set (ad_rows c). goes_on t r r') \<or> archived (al_key r) (al_first r) c"
    if r: "r \<in> set (ad_rows a)" "al_status r = Active" for r
  proof -
    from assms(1) u r consider r' where "r' \<in> set (ad_rows b)" "goes_on t r r'" | "archived (al_key r) (al_first r) b"
      unfolding keeps_def by blast
    thus ?thesis
    proof cases
      case 1
      hence "(\<exists>r''\<in>set (ad_rows c). goes_on t r' r'') \<or> archived (al_key r') (al_first r') c"
        using assms(2) ub unfolding keeps_def goes_on_def by blast
      thus ?thesis using 1(2) by (auto simp: goes_on_def)
    next
      case 2
      thus ?thesis using assms(2) ub by (simp add: keeps_def)
    qed
  qed
qed

lemma keeps_map:
  assumes "ad_rows db' = map g (ad_rows db)" "\<And>r. al_key (g r) = al_key r"
    "\<And>key first. archived key first db \<Longrightarrow> archived key first db'"
    "\<And>r. one_row_each db \<Longrightarrow> r \<in> set (ad_rows db) \<Longrightarrow> al_status r = Active \<Longrightarrow>
       goes_on t r (g r) \<or> archived (al_key r) (al_first r) db'"
  shows "keeps t db db'"
  unfolding keeps_def
proof (intro impI conjI allI ballI)
  assume u: "one_row_each db"
  thus "one_row_each db'" by (simp add: one_row_each_def assms(1,2) o_def)
  show "(\<exists>r'\<in>set (ad_rows db'). goes_on t r r') \<or> archived (al_key r) (al_first r) db'"
    if "r \<in> set (ad_rows db)" "al_status r = Active" for r
    using assms(4) [OF u that] that(1) by (auto simp: assms(1))
qed (use assms(3) in blast)

lemma keeps_update:
  assumes "\<And>r. al_key (f r) = al_key r"
    "\<And>r. one_row_each db \<Longrightarrow> r \<in> set (ad_rows db) \<Longrightarrow> al_key r = key \<Longrightarrow> al_status r = Active \<Longrightarrow> goes_on t r (f r)"
  shows "keeps t db (db\<lparr>ad_rows := update_row key f (ad_rows db)\<rparr>)"
  by (rule keeps_map [where g = "\<lambda>r. if al_key r = key then f r else r"])
    (use assms goes_on_refl in \<open>auto simp: update_row_def archived_def\<close>)

lemma keeps_append:
  assumes "row_of (al_key r) (ad_rows db) = None"
  shows "keeps t db (db\<lparr>ad_rows := ad_rows db @ [r]\<rparr>)"
proof -
  have "al_key r \<notin> al_key ` set (ad_rows db)" using assms by (auto simp: row_of_def find_None_iff)
  thus ?thesis using goes_on_refl by (auto simp: keeps_def one_row_each_def archived_def)
qed

lemma row_of_unique: "one_row_each db \<Longrightarrow> row_of key (ad_rows db) = Some row \<Longrightarrow> r \<in> set (ad_rows db) \<Longrightarrow> al_key r = key \<Longrightarrow> r = row"
proof -
  assume u: "one_row_each db" and "row_of key (ad_rows db) = Some row" and r: "r \<in> set (ad_rows db)" "al_key r = key"
  hence "row \<in> set (ad_rows db)" "al_key row = key" by (auto simp: row_of_def find_Some_iff)
  with u r show "r = row" by (auto simp: one_row_each_def distinct_map dest: inj_onD)
qed

lemma row_of_mem: "row_of key rows = Some row \<Longrightarrow> row \<in> set rows \<and> al_key row = key"
  by (auto simp: row_of_def find_Some_iff)

lemma archived_rows [simp]: "archived key first (db\<lparr>ad_rows := rows\<rparr>) = archived key first db"
  by (simp add: archived_def)

lemma keeps_pending: "keeps t db (snd (record_pending now sev ev db))"
proof (cases "row_of (dedup_key_for ev) (ad_rows db)")
  case None
  show ?thesis by (simp add: record_pending_def Let_def None) (rule keeps_append, simp add: None)
next
  case (Some row)
  show ?thesis
  proof (cases "al_status row = Active")
    case False
    show ?thesis
      by (simp add: record_pending_def Let_def Some False, rule keeps_update) (use row_of_unique [OF _ Some] False in auto)
  qed (simp add: record_pending_def Let_def Some)
qed

lemma keeps_fire:
  assumes "t \<le> now"
  shows "keeps t db (snd (snd (record_fire now cd sev ev db)))"
proof (cases "row_of (dedup_key_for ev) (ad_rows db)")
  case None
  show ?thesis by (simp add: record_fire_def Let_def None) (rule keeps_append, simp add: None)
next
  case (Some row)
  show ?thesis
    unfolding record_fire_def Let_def Some option.case snd_conv
    by (rule keeps_update) (use row_of_unique [OF _ Some] assms in \<open>auto simp: goes_on_def\<close>)
qed

lemma keeps_escalate:
  assumes "t \<le> now"
  shows "keeps t db (snd (escalate now key rule ts db))"
proof (cases "row_of key (ad_rows db)")
  case (Some row)
  have "keeps t db (db\<lparr>ad_rows := update_row key (\<lambda>r. r\<lparr>al_severity := a, al_escalated := True, al_baseline := b,
      al_rule := c, al_escalated_at := d, al_ack := None, al_updated := now\<rparr>) (ad_rows db)\<rparr>)" for a b c d
    by (rule keeps_update) (use assms in \<open>simp_all add: goes_on_def\<close>)
  thus ?thesis by (simp add: escalate_def Let_def Some)
qed (simp add: escalate_def)

lemma keeps_try_escalate: "t \<le> now \<Longrightarrow> keeps t db (try_escalate epoch now key ev n rule db)"
  using keeps_escalate by (simp add: try_escalate_def split: option.split)

lemma archived_archive:
  "list_ex (\<lambda>ep. al_key (ep_row ep) = k \<and> al_first (ep_row ep) = f) (archive now row ts by_event eps) \<longleftrightarrow>
   (k = al_key row \<and> f = al_first row) \<or> list_ex (\<lambda>ep. al_key (ep_row ep) = k \<and> al_first (ep_row ep) = f) eps"
  by (auto simp: archive_def)

lemma archived_fold:
  "list_ex (\<lambda>ep. al_key (ep_row ep) = k \<and> al_first (ep_row ep) = f) (foldl (\<lambda>eps r. archive now r ts by_event eps) eps rs) \<longleftrightarrow>
   (\<exists>r\<in>set rs. k = al_key r \<and> f = al_first r) \<or> list_ex (\<lambda>ep. al_key (ep_row ep) = k \<and> al_first (ep_row ep) = f) eps"
  by (induction rs arbitrary: eps) (auto simp: archived_archive)

lemma keeps_resolve: "keeps t db (snd (resolve now ty scope ts by_event db))"
  by (rule keeps_map [where g = "\<lambda>r. if al_type r = ty \<and> al_scope r = scope \<and> al_status r = Active
        then r\<lparr>al_status := Resolved, al_resolved := Some ts, al_resolved_by := by_event, al_updated := now\<rparr> else r"])
    (use goes_on_refl in \<open>auto simp: resolve_def Let_def archived_def archived_fold\<close>)

lemma keeps_ack: "t \<le> now \<Longrightarrow> keeps t db (snd (acknowledge_row now key ts db))"
  unfolding acknowledge_row_def snd_conv by (rule keeps_update) (simp_all add: goes_on_def)

lemma keeps_silence: "t \<le> now \<Longrightarrow> keeps t db (snd (silence now key ts db))"
  unfolding silence_def snd_conv by (rule keeps_update) (simp_all add: goes_on_def)

lemma keeps_close: "keeps t db (snd (close_acknowledged now key ts db))"
proof (cases "find (\<lambda>r. al_key r = key \<and> al_status r = Active) (ad_rows db)")
  case (Some row)
  hence row: "row \<in> set (ad_rows db)" "al_key row = key" by (auto simp: find_Some_iff)
  show ?thesis
  proof (rule keeps_map [where g = "\<lambda>r. if al_key r = key then (r\<lparr>al_ack := Some ts, al_status := Resolved, al_resolved := Some ts,
              al_resolved_by := None, al_updated := now\<rparr>) else r"])
    show "goes_on t r (if al_key r = key then (r\<lparr>al_ack := Some ts, al_status := Resolved, al_resolved := Some ts,
              al_resolved_by := None, al_updated := now\<rparr>) else r) \<or> archived (al_key r) (al_first r) (snd (close_acknowledged now key ts db))"
      if "one_row_each db" "r \<in> set (ad_rows db)" "al_status r = Active" for r
    proof (cases "al_key r = key")
      case True
      hence "r = row" using that row by (auto simp: one_row_each_def distinct_map dest: inj_onD)
      thus ?thesis by (simp add: close_acknowledged_def Some archived_def archived_archive)
    next
      case False
      thus ?thesis using goes_on_refl [OF that(3)] by simp
    qed
  qed (auto simp: close_acknowledged_def Some update_row_def archived_def archived_archive)
qed (simp add: close_acknowledged_def)

lemma keeps_evaluate:
  assumes "t \<le> now"
  shows "keeps t db (snd (snd (evaluate_alert epoch now cd ev db)))"
proof -
  define db1 where "db1 = (case recovery_target (ev_type ev) of
                   None \<Rightarrow> db | Some t \<Rightarrow> snd (resolve now t (scope_for ev) (ev_ts ev) (Some (ev_id ev)) db))"
  have 1: "keeps t db db1" using keeps_resolve by (simp add: db1_def split: option.split)
  have 2: "keeps t db1 (snd (record_pending now sev ev db1))" for sev by (rule keeps_pending)
  have 3: "keeps t d (snd (snd (record_fire now cd sev ev d)))" for sev d by (rule keeps_fire [OF assms])
  have 4: "keeps t d (case map_of escalation_rules (ev_type ev) of
                                 None \<Rightarrow> d | Some rule \<Rightarrow> try_escalate epoch now (dedup_key_for ev) ev n rule d)" for n d
    using keeps_try_escalate [OF assms] by (simp split: option.split)
  have 23: "keeps t db (snd (record_pending now sev ev db1))" for sev by (rule keeps_trans [OF 1 2])
  have 234: "keeps t db (case map_of escalation_rules (ev_type ev) of
                None \<Rightarrow> snd (snd (record_fire now cd sev ev (snd (record_pending now sev ev db1))))
              | Some rule \<Rightarrow> try_escalate epoch now (dedup_key_for ev) ev n rule
                  (snd (snd (record_fire now cd sev ev (snd (record_pending now sev ev db1))))))" for sev n
    by (rule keeps_trans [OF keeps_trans [OF 23 3] 4])
  show ?thesis
    using 1 23 234 by (simp add: evaluate_alert_def Let_def db1_def [symmetric] case_prod_beta split: option.split)
qed

subsection \<open>Runs\<close>

datatype alert_op =
    Observe int event
  | Acknowledge int string string
  | Silence int string string
  | Expire int real string

fun op_time :: "alert_op \<Rightarrow> int" where
  "op_time (Observe now ev) = now"
| "op_time (Acknowledge now ts key) = now"
| "op_time (Silence now key until_ts) = now"
| "op_time (Expire now t ts) = now"

fun alert_step :: "(string \<Rightarrow> real option) \<Rightarrow> int \<Rightarrow> alert_op \<Rightarrow> alert_db \<Rightarrow> alert_db" where
  "alert_step epoch cd (Observe now ev) db = snd (snd (evaluate_alert epoch now cd ev db))"
| "alert_step epoch cd (Acknowledge now ts key) db = snd (acknowledge now ts key db)"
| "alert_step epoch cd (Silence now key until_ts) db = snd (silence now key until_ts db)"
| "alert_step epoch cd (Expire now t ts) db = snd (resolve_expired epoch now t ts db)"

definition alert_run :: "(string \<Rightarrow> real option) \<Rightarrow> int \<Rightarrow> alert_op list \<Rightarrow> alert_db \<Rightarrow> alert_db" where
  "alert_run epoch cd ops db = fold (alert_step epoch cd) ops db"

lemma keeps_expired: "keeps t db (snd (resolve_expired epoch now te ts db))"
proof -
  have "keeps t d (snd (foldl (\<lambda>(n, d) r. if lease_lapsed epoch te r
                       then (case resolve now (al_type r) (al_scope r) ts None d of (k, d1) \<Rightarrow> (n + k, d1)) else (n, d)) (n, d) rs))"
    for n d rs
  proof (induction rs arbitrary: n d)
    case (Cons r rs)
    show ?case
      using Cons.IH keeps_trans [OF keeps_resolve Cons.IH] by (auto simp: case_prod_beta)
  qed simp
  thus ?thesis by (simp add: resolve_expired_def)
qed

lemma keeps_step: "t \<le> op_time op \<Longrightarrow> keeps t db (alert_step epoch cd op db)"
  by (cases op) (simp_all add: keeps_evaluate keeps_silence keeps_expired acknowledge_def keeps_close keeps_ack
      case_prod_beta split: option.split)

lemma keeps_run: "\<forall>op\<in>set ops. t \<le> op_time op \<Longrightarrow> keeps t db (alert_run epoch cd ops db)"
  unfolding alert_run_def
proof (induction ops arbitrary: db)
  case (Cons op ops)
  from keeps_trans [OF keeps_step Cons.IH] Cons.prems show ?case by simp
qed simp

lemma lower_bound: "\<exists>t. \<forall>op\<in>set ops. t \<le> op_time op"
proof (induction ops)
  case (Cons op ops)
  then obtain t where "\<forall>op\<in>set ops. t \<le> op_time op" by blast
  thus ?case by (intro exI [of _ "min t (op_time op)"]) auto
qed simp

text \<open>C33: 
  No occurrence of an alert is lost. Through any run of events, acknowledgements, silencing and expiry every key has
  one row; an alert that was active is still active, with the same start, or its occurrence is among the closed ones; and
  a closed occurrence stays on record.
\<close>
theorem no_occurrence_lost:
  assumes "one_row_each db"
  shows "one_row_each (alert_run epoch cd ops db)
    \<and> (\<forall>key first. archived key first db \<longrightarrow> archived key first (alert_run epoch cd ops db))
    \<and> (\<forall>r\<in>set (ad_rows db). al_status r = Active \<longrightarrow>
          (\<exists>r'\<in>set (ad_rows (alert_run epoch cd ops db)). al_status r' = Active \<and> al_key r' = al_key r \<and> al_first r' = al_first r)
          \<or> archived (al_key r) (al_first r) (alert_run epoch cd ops db))"
proof -
  obtain t where "\<forall>op\<in>set ops. t \<le> op_time op" using lower_bound by blast
  from keeps_run [OF this, of db epoch cd] assms show ?thesis by (auto simp: keeps_def goes_on_def)
qed

subsection \<open>The cooldown\<close>

lemma fire_rows:
  assumes "one_row_each db" "record_fire now cd sev ev db = (notify, n, db')" "r \<in> set (ad_rows db')" "al_key r = dedup_key_for ev"
  shows "al_status r = Active \<and> (notify \<longrightarrow> al_updated r = now)"
proof (cases "row_of (dedup_key_for ev) (ad_rows db)")
  case None
  have "\<forall>x\<in>set (ad_rows db). al_key x \<noteq> dedup_key_for ev" using None by (auto simp: row_of_def find_None_iff)
  thus ?thesis using assms(2-4) by (auto simp: record_fire_def Let_def None)
next
  case (Some row)
  thus ?thesis using assms(2-4) by (auto simp: record_fire_def Let_def update_row_def)
qed

lemma fire_spacing:
  assumes "one_row_each db" "record_fire now cd sev ev db = (True, n, db')" "r \<in> set (ad_rows db)" "al_key r = dedup_key_for ev"
    "al_status r = Active" "t \<le> al_updated r"
  shows "t + max 0 cd \<le> now"
proof -
  obtain row where row: "row_of (dedup_key_for ev) (ad_rows db) = Some row"
    using assms(3,4) by (cases "row_of (dedup_key_for ev) (ad_rows db)") (auto simp: row_of_def find_None_iff)
  have "r = row" by (rule row_of_unique [OF assms(1) row assms(3,4)])
  thus ?thesis using assms(2,5,6) row by (auto simp: record_fire_def Let_def)
qed

definition notified_at :: "int \<Rightarrow> string \<Rightarrow> alert_row list \<Rightarrow> bool" where
  "notified_at now key rows \<longleftrightarrow> list_all (\<lambda>r. al_key r = key \<longrightarrow> al_status r = Active \<and> al_updated r = now) rows"

lemma notified_update:
  assumes "\<And>r. al_key (f r) = al_key r" "\<And>r. al_status (f r) = al_status r" "\<And>r. al_updated (f r) = now"
    "notified_at now key rows"
  shows "notified_at now key (update_row key f rows)"
  unfolding notified_at_def update_row_def list_all_iff
proof (intro ballI impI)
  fix x assume "x \<in> set (map (\<lambda>r. if al_key r = key then f r else r) rows)" "al_key x = key"
  then obtain r where r: "r \<in> set rows" "x = (if al_key r = key then f r else r)" by (simp only: set_map) blast
  with \<open>al_key x = key\<close> assms(1) have "al_key r = key" by (simp split: if_splits)
  with r assms(2,3,4) show "al_status x = Active \<and> al_updated x = now" by (simp add: notified_at_def list_all_iff)
qed

lemma escalate_active: "notified_at now key (ad_rows db) \<Longrightarrow> notified_at now key (ad_rows (try_escalate epoch now key ev n rule db))"
  by (simp add: try_escalate_def escalate_def Let_def notified_update split: option.split)

lemma fire_episodes: "ad_episodes (snd (snd (record_fire now cd sev ev db))) = ad_episodes db"
  by (simp add: record_fire_def Let_def split: option.split)

lemma escalate_episodes: "ad_episodes (try_escalate epoch now key ev n rule db) = ad_episodes db"
  by (simp add: try_escalate_def escalate_def Let_def split: option.split)

lemma evaluate_notifies:
  assumes "one_row_each db" "evaluate_alert epoch now cd ev db = (True, n, db')"
  shows "\<exists>sev db2 db3. keeps t db db2 \<and> one_row_each db2 \<and> record_fire now cd sev ev db2 = (True, n, db3) \<and> ad_episodes db' = ad_episodes db2
    \<and> db' = (case map_of escalation_rules (ev_type ev) of None \<Rightarrow> db3 | Some rule \<Rightarrow> try_escalate epoch now (dedup_key_for ev) ev n rule db3)"
proof -
  define db1 where "db1 = (case recovery_target (ev_type ev) of
                   None \<Rightarrow> db | Some t \<Rightarrow> snd (resolve now t (scope_for ev) (ev_ts ev) (Some (ev_id ev)) db))"
  have 1: "keeps t db db1" for t using keeps_resolve by (simp add: db1_def split: option.split)
  obtain p where p: "map_of alert_policies (ev_type ev) = Some p"
    using assms(2) by (cases "map_of alert_policies (ev_type ev)") (simp_all add: evaluate_alert_def Let_def)
  define db2 where "db2 = snd (record_pending now (ap_severity p) ev db1)"
  have 2: "keeps t db db2" for t unfolding db2_def by (rule keeps_trans [OF 1 keeps_pending])
  obtain b m db3 where f: "record_fire now cd (ap_severity p) ev db2 = (b, m, db3)" by (metis prod_cases3)
  from assms(2) have b: "b = True" "m = n" "db' = (case map_of escalation_rules (ev_type ev) of None \<Rightarrow> db3
      | Some rule \<Rightarrow> try_escalate epoch now (dedup_key_for ev) ev m rule db3)"
    by (auto simp: evaluate_alert_def Let_def db1_def [symmetric] p case_prod_beta db2_def [symmetric] f split: option.splits if_splits)
  have "one_row_each db2" using 2 [of 0] assms(1) by (simp add: keeps_def)
  moreover have "ad_episodes db' = ad_episodes db2"
    using fire_episodes [of now cd "ap_severity p" ev db2] by (simp add: f b(3) escalate_episodes split: option.split)
  ultimately show ?thesis using 2 f [unfolded b(1,2)] b(3) [unfolded b(2)] by blast
qed

lemma notified_row:
  assumes "one_row_each db" "evaluate_alert epoch now cd ev db = (True, n, db')"
  shows "notified_at now (dedup_key_for ev) (ad_rows db')"
proof -
  obtain sev db2 db3 where d: "one_row_each db2" "record_fire now cd sev ev db2 = (True, n, db3)"
    "db' = (case map_of escalation_rules (ev_type ev) of None \<Rightarrow> db3 | Some rule \<Rightarrow> try_escalate epoch now (dedup_key_for ev) ev n rule db3)"
    using evaluate_notifies [OF assms] by blast
  have "notified_at now (dedup_key_for ev) (ad_rows db3)" using fire_rows [OF d(1,2)] by (simp add: notified_at_def list_all_iff)
  thus ?thesis using escalate_active by (simp add: d(3) split: option.split)
qed

lemma update_row_keys: "(\<And>r. al_key (f r) = al_key r) \<Longrightarrow> al_key ` set (update_row key f rows) = al_key ` set rows"
  unfolding update_row_def set_map image_image by (rule image_cong) simp_all

lemma fire_keys: "dedup_key_for ev \<in> al_key ` set (ad_rows (snd (snd (record_fire now cd sev ev db))))"
proof (cases "row_of (dedup_key_for ev) (ad_rows db)")
  case (Some row)
  have "al_key ` set (ad_rows (snd (snd (record_fire now cd sev ev db)))) = al_key ` set (ad_rows db)"
    by (simp add: record_fire_def Let_def Some update_row_keys)
  thus ?thesis using row_of_mem [OF Some] by (metis imageI)
qed (simp add: record_fire_def Let_def)

lemma escalate_keys: "al_key ` set (ad_rows (try_escalate epoch now k ev n rule db)) = al_key ` set (ad_rows db)"
  by (simp add: try_escalate_def escalate_def Let_def update_row_keys split: option.split)

lemma notified_exists:
  assumes "one_row_each db" "evaluate_alert epoch now cd ev db = (True, n, db')"
  shows "\<exists>r\<in>set (ad_rows db'). al_key r = dedup_key_for ev"
proof -
  obtain sev db2 db3 where d: "record_fire now cd sev ev db2 = (True, n, db3)"
    "db' = (case map_of escalation_rules (ev_type ev) of None \<Rightarrow> db3 | Some rule \<Rightarrow> try_escalate epoch now (dedup_key_for ev) ev n rule db3)"
    using evaluate_notifies [OF assms] by blast
  have "dedup_key_for ev \<in> al_key ` set (ad_rows db3)" using fire_keys [where now = now and cd = cd and sev = sev and ev = ev and db = db2] by (simp add: d(1))
  hence "dedup_key_for ev \<in> al_key ` set (ad_rows db')" by (simp add: d(2) escalate_keys split: option.split)
  thus ?thesis by fastforce
qed

text \<open>C34: 
  Two notifications of one alert are at least the cooldown apart, whatever happens in between, unless the alert was
  closed: then the occurrence that was notified first is on record as closed.
\<close>
theorem notifications_spaced:
  assumes "one_row_each db" "evaluate_alert epoch now1 cd ev1 db = (True, n1, db1)"
    "\<forall>op\<in>set ops. now1 \<le> op_time op"
    "evaluate_alert epoch now2 cd ev2 (alert_run epoch cd ops db1) = (True, n2, db3)" "dedup_key_for ev2 = dedup_key_for ev1"
  shows "now1 + max 0 cd \<le> now2
    \<or> (\<exists>r\<in>set (ad_rows db1). al_key r = dedup_key_for ev1 \<and> al_status r = Active \<and> archived (al_key r) (al_first r) db3)"
proof -
  define db2 where "db2 = alert_run epoch cd ops db1"
  obtain r where r: "r \<in> set (ad_rows db1)" "al_key r = dedup_key_for ev1" using notified_exists [OF assms(1,2)] by blast
  have act: "al_status r = Active" "al_updated r = now1" using notified_row [OF assms(1,2)] r by (auto simp: notified_at_def list_all_iff)
  have u1: "one_row_each db1" using keeps_evaluate [of now1 now1 db epoch cd ev1] assms(1,2) by (simp add: keeps_def)
  have k2: "keeps now1 db1 db2" unfolding db2_def by (rule keeps_run [OF assms(3)])
  hence u2: "one_row_each db2" using u1 by (simp add: keeps_def)
  obtain sev d2 d3 where d: "keeps now1 db2 d2" "one_row_each d2" "record_fire now2 cd sev ev2 d2 = (True, n2, d3)"
    "ad_episodes db3 = ad_episodes d2"
    using evaluate_notifies [OF u2 assms(4) [folded db2_def]] by blast
  have "keeps now1 db1 d2" by (rule keeps_trans [OF k2 d(1)])
  then consider r' where "r' \<in> set (ad_rows d2)" "goes_on now1 r r'" | "archived (al_key r) (al_first r) d2"
    using u1 r(1) act(1) unfolding keeps_def by blast
  thus ?thesis
  proof cases
    case 1
    have "now1 + max 0 cd \<le> now2"
      by (rule fire_spacing [OF d(2,3) 1(1)]) (use 1(2) act r(2) assms(5) in \<open>auto simp: goes_on_def\<close>)
    thus ?thesis ..
  next
    case 2
    hence "archived (al_key r) (al_first r) db3" by (simp add: archived_def d(4))
    thus ?thesis using r act(1) by blast
  qed
qed

subsection \<open>Concrete runs\<close>

definition clock_of :: "string \<Rightarrow> real option" where
  \<comment> \<open>the length of the stamp, in seconds\<close>
  "clock_of s = Some (real (length s))"

definition loop_event :: "nat \<Rightarrow> event" where
  "loop_event n = \<lparr>ev_id = ''e'', ev_ts = replicate n CHR ''t'', ev_severity = ''error'', ev_category = ''platform.availability'',
     ev_type = ''PLATFORM_SYSTEMD_RESTART_LOOP'', ev_summary = ''restarts'', ev_source = Some ''journal'', ev_service = Some ''svc'',
     ev_app = None, ev_job = None, ev_impact = None, ev_resource = None, ev_protection = None, ev_cgroups = [],
     ev_boot_attr = None, ev_dedup = None, ev_created = 0\<rparr>"

definition no_alerts :: alert_db where "no_alerts = \<lparr>ad_rows = [], ad_episodes = []\<rparr>"

definition restart_storm :: "alert_op list" where
  \<comment> \<open>three restarts, a calm time in which the lease lapses, and one more restart\<close>
  "restart_storm = [Observe 1 (loop_event 1), Observe 2 (loop_event 2), Observe 3 (loop_event 3), Expire 200 200 ''u'']"

text \<open>
  What an escalation left on a row stays there when the alert is closed and fires again: the first restart of the next
  occurrence is reported as escalated by the rule, with its old time, although its severity is the one of the policy.
\<close>

lemma stale_escalation:
  "map (\<lambda>r. (al_count r, al_severity r, al_escalated r, al_rule r, al_escalated_at r))
     (ad_rows (alert_run clock_of 300 (restart_storm @ [Observe 250 (loop_event 9)]) no_alerts))
   = [(1, ''error'', True, Some ''restart_storm_v1'', Some ''ttt'')]"
  by code_simp

lemma storm_run:
  "map (\<lambda>r. (al_key r, al_first r, al_status r)) (ad_rows (alert_run clock_of 300 [Observe 1 (loop_event 1)] no_alerts))
     = [(''PLATFORM_SYSTEMD_RESTART_LOOP::svc'', ''t'', Active)]
   \<and> map al_status (ad_rows (alert_run clock_of 300 restart_storm no_alerts)) = [Resolved]"
  by code_simp

theorem no_occurrence_lost_witness:
  "archived ''PLATFORM_SYSTEMD_RESTART_LOOP::svc'' ''t'' (alert_run clock_of 300 (tl restart_storm) (alert_run clock_of 300 [hd restart_storm] no_alerts))"
proof -
  define db where "db = alert_run clock_of 300 [Observe 1 (loop_event 1)] no_alerts"
  have rows: "map (\<lambda>r. (al_key r, al_first r, al_status r)) (ad_rows db) = [(''PLATFORM_SYSTEMD_RESTART_LOOP::svc'', ''t'', Active)]"
    using storm_run by (simp add: db_def)
  then obtain r where r: "ad_rows db = [r]" "al_key r = ''PLATFORM_SYSTEMD_RESTART_LOOP::svc''" "al_first r = ''t''" "al_status r = Active"
    by (auto simp: map_eq_Cons_conv)
  have one: "one_row_each db" by (simp add: one_row_each_def r(1))
  have "alert_run clock_of 300 (tl restart_storm) db = alert_run clock_of 300 restart_storm no_alerts"
    by (simp add: alert_run_def restart_storm_def db_def)
  hence "map al_status (ad_rows (alert_run clock_of 300 (tl restart_storm) db)) = [Resolved]" using storm_run by simp
  hence "\<forall>r'\<in>set (ad_rows (alert_run clock_of 300 (tl restart_storm) db)). al_status r' \<noteq> Active" by (auto simp: map_eq_Cons_conv)
  thus ?thesis
    using no_occurrence_lost [OF one, of clock_of 300 "tl restart_storm"] r by (auto simp: db_def restart_storm_def)
qed

definition loop_row :: "nat \<Rightarrow> nat \<Rightarrow> int \<Rightarrow> alert_row" where
  "loop_row n last_ts now = \<lparr>al_key = ''PLATFORM_SYSTEMD_RESTART_LOOP::svc'', al_first = ''t'', al_last = replicate last_ts CHR ''t'',
     al_count = n, al_event = ''e'', al_ack = None, al_silenced = None, al_status = Active, al_pending = None,
     al_seen = replicate last_ts CHR ''t'', al_resolved = None, al_resolved_by = None, al_scope = ''svc'', al_severity = ''error'',
     al_escalated = False, al_baseline = None, al_rule = None, al_escalated_at = None,
     al_type = ''PLATFORM_SYSTEMD_RESTART_LOOP'', al_summary = ''restarts'', al_updated = now\<rparr>"

lemma first_notice: "evaluate_alert clock_of 1 300 (loop_event 1) no_alerts = (True, 1, \<lparr>ad_rows = [loop_row 1 1 1], ad_episodes = []\<rparr>)"
  by code_simp

lemma second_notice:
  "evaluate_alert clock_of 400 300 (loop_event 5) \<lparr>ad_rows = [loop_row 1 1 1], ad_episodes = []\<rparr>
   = (True, 2, \<lparr>ad_rows = [loop_row 2 5 400], ad_episodes = []\<rparr>)"
  by code_simp

theorem notifications_spaced_witness:
  "fst (evaluate_alert clock_of 400 300 (loop_event 5) (snd (snd (evaluate_alert clock_of 1 300 (loop_event 1) no_alerts)))) = True
   \<and> (1::int) + max 0 300 \<le> 400"
proof -
  have run: "alert_run clock_of 300 [] \<lparr>ad_rows = [loop_row 1 1 1], ad_episodes = []\<rparr> = \<lparr>ad_rows = [loop_row 1 1 1], ad_episodes = []\<rparr>"
    by (simp add: alert_run_def)
  have "dedup_key_for (loop_event 5) = dedup_key_for (loop_event 1)" by code_simp
  moreover have "one_row_each no_alerts" by (simp add: one_row_each_def no_alerts_def)
  ultimately have "(1::int) + max 0 300 \<le> 400 \<or> (\<exists>r\<in>set (ad_rows \<lparr>ad_rows = [loop_row 1 1 1], ad_episodes = []\<rparr>).
      al_key r = dedup_key_for (loop_event 1) \<and> al_status r = Active
      \<and> archived (al_key r) (al_first r) \<lparr>ad_rows = [loop_row 2 5 400], ad_episodes = []\<rparr>)"
    using notifications_spaced [of no_alerts clock_of 1 300 "loop_event 1" 1 "\<lparr>ad_rows = [loop_row 1 1 1], ad_episodes = []\<rparr>"
      "[]" 400 "loop_event 5" 2 "\<lparr>ad_rows = [loop_row 2 5 400], ad_episodes = []\<rparr>", OF _ first_notice]
    by (simp only: run second_notice list.set ball_empty simp_thms)
  thus ?thesis by (simp only: first_notice second_notice fst_conv snd_conv) simp
qed

end
