(* ===== verification/Pressure_Watch.thy ===== *)
theory Pressure_Watch
  imports Pressure Py_String
begin

text \<open>
  How the rest of the program sees the pressure: \<open>SystemPressureMonitor\<close> of \<open>monitor/monitor_api.py\<close>, that refreshes the levels,
  latches the peak until the balancer consumes it and tells its listeners, and \<open>PressureLevelTracker\<close> of
  \<open>diagnostics/episodes.py\<close>, that records a level only when it has lasted. The samples of PSI, of the usage and of the disks are
  arguments, none when reading them raised; the pressure itself is computed by the theory Pressure. Log output, the lock and
  the threads are left out: an update or a consume is one step.
\<close>

subsection \<open>The monitor\<close>

definition level_order :: "level option \<Rightarrow> int" where
  \<comment> \<open>\<open>_LEVEL_ORDER.get(level, -1)\<close>\<close>
  "level_order l =
     (case l of None \<Rightarrow> -1 | Some Unknown \<Rightarrow> -1 | Some Low \<Rightarrow> 0 | Some Medium \<Rightarrow> 1 | Some High \<Rightarrow> 2 | Some Critical \<Rightarrow> 3)"

definition fast_pressure_update :: real where "fast_pressure_update = 2"
definition fast_zone_mem_margin :: real where "fast_zone_mem_margin = 20"

record watch =
  wa_level :: "level option"
  wa_score :: real
  wa_stressed :: bool
  wa_disk_level :: level
  wa_peak :: "level option"
  wa_peak_disk :: level
  wa_ttl :: real
  wa_interval :: real
  wa_fast_zone :: bool
  wa_dominant :: bool
  wa_cgroups :: "string list"
  wa_analyzer :: press_state

record watch_cfg =
  wc_press :: press_cfg
  wc_thresholds :: thresholds
  wc_disk_thresholds :: thresholds

record watch_sample =
  sa_psi :: "string \<rightharpoonup> real"
  sa_usage :: "string \<rightharpoonup> (string \<rightharpoonup> real)"
  sa_disk_combined :: real
  sa_io_full :: real
  sa_self :: "string list \<Rightarrow> (string \<rightharpoonup> real)"  \<comment> \<open>\<open>get_self_inflicted_fraction\<close>\<close>

definition watch_init :: "real \<Rightarrow> watch" where
  "watch_init regular =
     (let ttl = max 1 (min 60 regular) in
      \<lparr>wa_level = None, wa_score = 0, wa_stressed = False, wa_disk_level = Low, wa_peak = None, wa_peak_disk = Low,
       wa_ttl = ttl, wa_interval = ttl, wa_fast_zone = False, wa_dominant = False, wa_cgroups = [], wa_analyzer = press_init\<rparr>)"

definition set_limited_app_dominant :: "bool \<Rightarrow> string list \<Rightarrow> watch \<Rightarrow> watch" where
  "set_limited_app_dominant dominant cgs w = w\<lparr>wa_dominant := dominant, wa_cgroups := (if dominant then cgs else [])\<rparr>"

definition update_pressure_level ::
  "watch_cfg \<Rightarrow> watch_sample option \<Rightarrow> watch \<Rightarrow> (level \<times> real \<times> bool \<times> level) \<times> watch" where
  \<comment> \<open>the level, the score, whether the disks are stressed and their level; low when there is none\<close>
  "update_pressure_level cfg smp w =
     (case smp of
        None \<Rightarrow> ((Unknown, 0, False, Low), w)
      | Some d \<Rightarrow>
          (let self = (if wa_dominant w \<and> wa_cgroups w \<noteq> [] then Some (sa_self d (wa_cgroups w)) else None) in
           case calculate_pressure_score (wc_press cfg) (sa_psi d) (sa_usage d) (wa_dominant w) self of
             Inl e \<Rightarrow> ((Unknown, 0, False, Low), w)
           | Inr raw \<Rightarrow>
               (case classify_disk_pressure (wc_press cfg) (sa_disk_combined d) (dget (sa_psi d) ''io'' 0) (sa_io_full d) self
                       (wc_disk_thresholds cfg) (wa_analyzer w) of
                  Inl e \<Rightarrow> ((Unknown, 0, False, Low), w)
                | Inr (an, dlevel, dscore, dstressed) \<Rightarrow>
                    (case classify_level raw (wc_thresholds cfg) an of
                       (an1, lvl, score) \<Rightarrow>
                         (let mem = (case sa_usage d ''memory'' of None \<Rightarrow> 0 | Some m \<Rightarrow> dget m ''usage'' 0);
                              busy = (case pc_memory_busy_threshold (wc_press cfg) of None \<Rightarrow> 90 | Some b \<Rightarrow> b);
                              fast = (mem \<ge> busy - fast_zone_mem_margin)
                          in ((lvl, score, dstressed, dlevel),
                              w\<lparr>wa_analyzer := an1, wa_interval := (if fast then min fast_pressure_update (wa_ttl w) else wa_ttl w),
                                wa_fast_zone := fast\<rparr>))))))"

record notice =
  no_critical :: "bool option"  \<comment> \<open>what the listeners of the critical state are told\<close>
  no_change :: "(level \<times> level) option"  \<comment> \<open>what the listeners of every change are told\<close>

definition latch :: "level \<Rightarrow> level option \<Rightarrow> level option" where
  "latch new peak = (if level_order (Some new) > level_order peak then Some new else peak)"

definition safe_update :: "watch_cfg \<Rightarrow> watch_sample option \<Rightarrow> watch \<Rightarrow> notice \<times> watch" where
  "safe_update cfg smp w =
     (case update_pressure_level cfg smp w of
        ((new, score, stressed, dnew), w1) \<Rightarrow>
          (let was = (wa_level w = Some Critical); now = (new = Critical) in
           (\<lparr>no_critical = (if was \<noteq> now then Some now else None),
             no_change = (if wa_level w \<noteq> Some new \<or> wa_disk_level w \<noteq> dnew then Some (new, dnew) else None)\<rparr>,
            w1\<lparr>wa_level := Some new, wa_score := score, wa_stressed := stressed, wa_disk_level := dnew,
               wa_peak := latch new (wa_peak w), wa_peak_disk := the (latch dnew (Some (wa_peak_disk w)))\<rparr>)))"

definition consume_peak_pressure_level :: "watch \<Rightarrow> (level option \<times> real \<times> level) \<times> watch" where
  "consume_peak_pressure_level w =
     ((case wa_peak w of Some l \<Rightarrow> Some l | None \<Rightarrow> wa_level w, wa_score w, wa_peak_disk w),
      w\<lparr>wa_peak := wa_level w, wa_peak_disk := wa_disk_level w\<rparr>)"

subsection \<open>The tracker of levels\<close>

datatype band = Normal | High_band | Critical_band

definition band_rank :: "band \<Rightarrow> nat" where
  "band_rank b = (case b of Normal \<Rightarrow> 0 | High_band \<Rightarrow> 1 | Critical_band \<Rightarrow> 2)"

definition band_of :: "string \<Rightarrow> band" where
  "band_of s = (if lower s = ''high'' then High_band else if lower s = ''critical'' then Critical_band else Normal)"

definition trigger_seconds :: real where "trigger_seconds = 30"
definition clear_seconds :: real where "clear_seconds = 60"

record tracker =
  tk_confirmed :: band
  tk_dir :: int
  tk_since :: "real option"

definition tracker_init :: tracker where
  "tracker_init = \<lparr>tk_confirmed = Normal, tk_dir = 0, tk_since = None\<rparr>"

definition side :: "band \<Rightarrow> band \<Rightarrow> int" where
  \<comment> \<open>where a band is, seen from the confirmed one\<close>
  "side c b = (if b = c then 0 else if band_rank c < band_rank b then 1 else -1)"

definition dwell_of :: "int \<Rightarrow> real" where
  "dwell_of d = (if d > 0 then trigger_seconds else clear_seconds)"

definition observe :: "band \<Rightarrow> real \<Rightarrow> tracker \<Rightarrow> (band \<times> band) option \<times> tracker" where
  "observe b ts tk =
     (if b = tk_confirmed tk then (None, tk\<lparr>tk_dir := 0, tk_since := None\<rparr>)
      else (let d = side (tk_confirmed tk) b;
                tk1 = (if tk_dir tk \<noteq> d then tk\<lparr>tk_dir := d, tk_since := Some ts\<rparr> else tk);
                since = (case tk_since tk1 of None \<Rightarrow> ts | Some t \<Rightarrow> t)
            in if ts - since < dwell_of d then (None, tk1)
               else (Some (tk_confirmed tk, b), tk1\<lparr>tk_confirmed := b, tk_dir := 0, tk_since := None\<rparr>)))"

subsection \<open>The peak is the maximum\<close>

fun updates :: "watch_cfg \<Rightarrow> watch_sample option list \<Rightarrow> watch \<Rightarrow> watch" where
  "updates cfg [] w = w"
| "updates cfg (x # xs) w = updates cfg xs (snd (safe_update cfg x w))"

fun levels_seen :: "watch_cfg \<Rightarrow> watch_sample option list \<Rightarrow> watch \<Rightarrow> (level option \<times> level) list" where
  \<comment> \<open>the system and the disk level after each refresh\<close>
  "levels_seen cfg [] w = []"
| "levels_seen cfg (x # xs) w =
     (wa_level (snd (safe_update cfg x w)), wa_disk_level (snd (safe_update cfg x w))) # levels_seen cfg xs (snd (safe_update cfg x w))"

lemma wa_peak_update:
  "wa_peak (snd (safe_update cfg x w)) = latch (the (wa_level (snd (safe_update cfg x w)))) (wa_peak w)"
  "wa_peak_disk (snd (safe_update cfg x w)) =
     the (latch (wa_disk_level (snd (safe_update cfg x w))) (Some (wa_peak_disk w)))"
  "wa_level (snd (safe_update cfg x w)) \<noteq> None"
proof -
  obtain lvl sc st dl w1 where u: "update_pressure_level cfg x w = ((lvl, sc, st, dl), w1)" by (metis surj_pair)
  have keep: "wa_peak w1 = wa_peak w" "wa_peak_disk w1 = wa_peak_disk w"
    using u by (auto simp: update_pressure_level_def Let_def split: option.splits sum.splits prod.splits)
  show "wa_peak (snd (safe_update cfg x w)) = latch (the (wa_level (snd (safe_update cfg x w)))) (wa_peak w)"
    "wa_peak_disk (snd (safe_update cfg x w)) =
       the (latch (wa_disk_level (snd (safe_update cfg x w))) (Some (wa_peak_disk w)))"
    "wa_level (snd (safe_update cfg x w)) \<noteq> None"
    by (simp_all add: safe_update_def u keep Let_def)
qed

lemma latch_order: "level_order (latch l p) = max (level_order p) (level_order (Some l))"
  by (simp add: latch_def)

lemma latch_cases: "latch l p = Some l \<or> latch l p = p"
  by (simp add: latch_def)

lemma peak_after:
  "wa_peak (updates cfg xs w) \<in> insert (wa_peak w) (fst ` set (levels_seen cfg xs w)) \<and>
   level_order (wa_peak (updates cfg xs w)) = Max (level_order ` insert (wa_peak w) (fst ` set (levels_seen cfg xs w)))"
proof (induction xs arbitrary: w)
  case Nil
  show ?case by simp
next
  case (Cons x xs)
  define v where "v = snd (safe_update cfg x w)"
  obtain l where l: "wa_level v = Some l" using wa_peak_update(3)[of cfg x w] by (auto simp: v_def)
  have pk: "wa_peak v = latch l (wa_peak w)" using wa_peak_update(1)[of cfg x w] l by (simp add: v_def)
  let ?S = "fst ` set (levels_seen cfg xs v)"
  have IH: "wa_peak (updates cfg xs v) \<in> insert (wa_peak v) ?S"
    "level_order (wa_peak (updates cfg xs v)) = Max (level_order ` insert (wa_peak v) ?S)"
    using Cons.IH[of v] by blast+
  have seen: "fst ` set (levels_seen cfg (x # xs) w) = insert (Some l) ?S" by (simp add: v_def[symmetric] l)
  have after: "updates cfg (x # xs) w = updates cfg xs v" by (simp add: v_def)
  have "wa_peak (updates cfg xs v) \<in> insert (wa_peak w) (insert (Some l) ?S)"
    using IH(1) latch_cases[of l "wa_peak w"] unfolding pk by auto
  moreover have "Max (level_order ` insert (wa_peak v) ?S) = Max (level_order ` insert (wa_peak w) (insert (Some l) ?S))"
    by (cases "?S = {}") (simp_all add: pk latch_order max.assoc)
  ultimately show ?case unfolding seen after IH(2) by simp
qed

lemma disk_peak_after:
  "wa_peak_disk (updates cfg xs w) \<in> insert (wa_peak_disk w) (snd ` set (levels_seen cfg xs w)) \<and>
   level_order (Some (wa_peak_disk (updates cfg xs w))) =
     Max ((\<lambda>l. level_order (Some l)) ` insert (wa_peak_disk w) (snd ` set (levels_seen cfg xs w)))"
proof (induction xs arbitrary: w)
  case Nil
  show ?case by simp
next
  case (Cons x xs)
  define v where "v = snd (safe_update cfg x w)"
  define l where "l = wa_disk_level v"
  have pk: "Some (wa_peak_disk v) = latch l (Some (wa_peak_disk w))"
    using wa_peak_update(2)[of cfg x w] latch_cases[of l "Some (wa_peak_disk w)"] by (auto simp: v_def l_def)
  let ?S = "snd ` set (levels_seen cfg xs v)"
  let ?o = "\<lambda>l. level_order (Some l)"
  have IH: "wa_peak_disk (updates cfg xs v) \<in> insert (wa_peak_disk v) ?S"
    "?o (wa_peak_disk (updates cfg xs v)) = Max (?o ` insert (wa_peak_disk v) ?S)"
    using Cons.IH[of v] by blast+
  have seen: "snd ` set (levels_seen cfg (x # xs) w) = insert l ?S" by (simp add: v_def[symmetric] l_def)
  have after: "updates cfg (x # xs) w = updates cfg xs v" by (simp add: v_def)
  have "wa_peak_disk (updates cfg xs v) \<in> insert (wa_peak_disk w) (insert l ?S)"
    using IH(1) latch_cases[of l "Some (wa_peak_disk w)"] pk by auto
  moreover have "?o (wa_peak_disk v) = max (?o (wa_peak_disk w)) (?o l)" by (simp add: pk latch_order)
  then have "Max (?o ` insert (wa_peak_disk v) ?S) = Max (?o ` insert (wa_peak_disk w) (insert l ?S))"
    by (cases "?S = {}") (simp_all add: max.assoc)
  ultimately show ?case unfolding seen after IH(2) by simp
qed

lemma consumed_start:
  "wa_peak (snd (consume_peak_pressure_level w)) = wa_level w"
  "wa_peak_disk (snd (consume_peak_pressure_level w)) = wa_disk_level w"
  "wa_level (snd (consume_peak_pressure_level w)) = wa_level w"
  by (simp_all add: consume_peak_pressure_level_def)

lemma no_peak_level:
  "wa_peak w = wa_level w \<Longrightarrow> wa_peak (updates cfg xs w) = None \<Longrightarrow>
     wa_level (updates cfg xs w) \<in> insert (wa_level w) (fst ` set (levels_seen cfg xs w))"
proof (induction xs arbitrary: w rule: rev_induct)
  case Nil
  then show ?case by simp
next
  case (snoc x xs)
  have app: "updates cfg (xs @ [x]) w = snd (safe_update cfg x (updates cfg xs w))" for w
    by (induction xs arbitrary: w) simp_all
  have seen: "levels_seen cfg (xs @ [x]) w =
      levels_seen cfg xs w @ [(wa_level (updates cfg (xs @ [x]) w), wa_disk_level (updates cfg (xs @ [x]) w))]" for w
    unfolding app by (induction xs arbitrary: w) simp_all
  show ?case by (simp add: seen)
qed

text \<open>C35: The balancer never misses a spike: between two calls of \<open>consume_peak_pressure_level\<close>, the level it gets by the second
  is one the monitor really had, and the highest of the level at the first and of every refresh since, for the system and,
  separately, for the disks. A refresh that failed counts as unknown, below every level.\<close>
theorem peak_is_maximum:
  fixes cfg xs w
  defines "a \<equiv> snd (consume_peak_pressure_level w)"
  defines "sys \<equiv> insert (wa_level w) (fst ` set (levels_seen cfg xs a))"
  defines "disk \<equiv> insert (wa_disk_level w) (snd ` set (levels_seen cfg xs a))"
  defines "got \<equiv> fst (consume_peak_pressure_level (updates cfg xs a))"
  shows "fst got \<in> sys \<and> level_order (fst got) = Max (level_order ` sys) \<and>
    snd (snd got) \<in> disk \<and> level_order (Some (snd (snd got))) = Max ((\<lambda>l. level_order (Some l)) ` disk)"
proof -
  let ?v = "updates cfg xs a"
  have p: "wa_peak ?v \<in> sys" "level_order (wa_peak ?v) = Max (level_order ` sys)"
    using peak_after[of cfg xs a] unfolding a_def sys_def consumed_start by blast+
  have d: "wa_peak_disk ?v \<in> disk" "level_order (Some (wa_peak_disk ?v)) = Max ((\<lambda>l. level_order (Some l)) ` disk)"
    using disk_peak_after[of cfg xs a] unfolding a_def disk_def consumed_start by blast+
  have got: "got = (case wa_peak ?v of Some l \<Rightarrow> Some l | None \<Rightarrow> wa_level ?v, wa_score ?v, wa_peak_disk ?v)"
    by (simp add: got_def consume_peak_pressure_level_def)
  have s: "fst got \<in> sys \<and> level_order (fst got) = Max (level_order ` sys)"
  proof (cases "wa_peak ?v")
    case None
    have same: "wa_peak a = wa_level a" by (simp add: a_def consumed_start)
    have mem: "wa_level ?v \<in> sys" using no_peak_level[OF same None] by (simp add: sys_def a_def consumed_start)
    have fin: "finite sys" by (simp add: sys_def)
    have low: "-1 \<le> level_order l" for l by (simp add: level_order_def split: option.split level.split)
    have "Max (level_order ` sys) = -1" using p(2) None by (simp add: level_order_def[of None])
    moreover have "level_order (wa_level ?v) \<le> Max (level_order ` sys)" using fin mem by simp
    ultimately have "level_order (wa_level ?v) = Max (level_order ` sys)" using low[of "wa_level ?v"] by simp
    then show ?thesis using mem None by (simp add: got)
  next
    case (Some l)
    then show ?thesis using p by (simp add: got)
  qed
  have "snd (snd got) \<in> disk \<and> level_order (Some (snd (snd got))) = Max ((\<lambda>l. level_order (Some l)) ` disk)"
    using d by (simp add: got)
  with s show ?thesis by blast
qed

subsection \<open>The listeners hear every edge once\<close>

fun edges :: "watch_cfg \<Rightarrow> watch_sample option list \<Rightarrow> watch \<Rightarrow> bool list" where
  \<comment> \<open>what the listeners of the critical state are told, in order\<close>
  "edges cfg [] w = []"
| "edges cfg (x # xs) w =
     (case no_critical (fst (safe_update cfg x w)) of None \<Rightarrow> [] | Some b \<Rightarrow> [b]) @ edges cfg xs (snd (safe_update cfg x w))"

fun alternating :: "bool \<Rightarrow> bool list \<Rightarrow> bool" where
  "alternating b [] = True"
| "alternating b (x # xs) = (x = b \<and> alternating (\<not> b) xs)"

lemma update_edge:
  "no_critical (fst (safe_update cfg x w)) =
     (let now = (wa_level (snd (safe_update cfg x w)) = Some Critical) in
      if (wa_level w = Some Critical) = now then None else Some now)"
  by (auto simp: safe_update_def Let_def split: prod.splits)

text \<open>The listeners of the critical state hear every edge exactly once: what they are told alternates, starting with the
  opposite of the state before, and the last thing they were told is the state the monitor is in, however the refreshes
  went, failed ones included.\<close>
theorem critical_edges_alternate:
  "alternating (wa_level w \<noteq> Some Critical) (edges cfg xs w) \<and>
   (wa_level (updates cfg xs w) = Some Critical) = last ((wa_level w = Some Critical) # edges cfg xs w)"
proof (induction xs arbitrary: w)
  case Nil
  show ?case by simp
next
  case (Cons x xs)
  define v where "v = snd (safe_update cfg x w)"
  show ?case
  proof (cases "(wa_level w = Some Critical) = (wa_level v = Some Critical)")
    case True
    then have e: "edges cfg (x # xs) w = edges cfg xs v" using update_edge[of cfg x w] by (simp add: v_def)
    show ?thesis using Cons.IH[of v] True unfolding e by (simp add: v_def[symmetric])
  next
    case False
    then have e: "edges cfg (x # xs) w = (wa_level v = Some Critical) # edges cfg xs v"
      using update_edge[of cfg x w] by (simp add: v_def Let_def)
    show ?thesis using Cons.IH[of v] False unfolding e by (simp add: v_def[symmetric])
  qed
qed

lemma failed_refresh_ends_critical:
  \<comment> \<open>a refresh that could not read the sensors tells the listeners that the critical state is over\<close>
  "wa_level w = Some Critical \<Longrightarrow> no_critical (fst (safe_update cfg None w)) = Some False"
  by (simp add: safe_update_def update_pressure_level_def)

subsection \<open>The tracker against its history\<close>

text \<open>What the tracker promises, without its counters: it keeps the samples since the last change it recorded, the newest
  first, and records a change when the newest samples have all been on the same side of the recorded band for the dwell of
  that side.\<close>

definition since_of :: "band \<Rightarrow> int \<Rightarrow> (band \<times> real) list \<Rightarrow> real" where
  "since_of c d h = snd (last (takeWhile (\<lambda>x. side c (fst x) = d) h))"

definition observe_spec ::
  "band \<Rightarrow> real \<Rightarrow> band \<times> (band \<times> real) list \<Rightarrow> (band \<times> band) option \<times> band \<times> (band \<times> real) list" where
  "observe_spec b ts m =
     (let c = fst m; h = (b, ts) # snd m; d = side c b in
      if d \<noteq> 0 \<and> dwell_of d \<le> ts - since_of c d h then (Some (c, b), b, []) else (None, c, h))"

definition tracks :: "tracker \<Rightarrow> band \<times> (band \<times> real) list \<Rightarrow> bool" where
  "tracks tk m =
     (tk_confirmed tk = fst m \<and>
      (case snd m of [] \<Rightarrow> tk_dir tk = 0
       | x # h \<Rightarrow> tk_dir tk = side (fst m) (fst x) \<and>
           (tk_dir tk \<noteq> 0 \<longrightarrow> tk_since tk = Some (since_of (fst m) (tk_dir tk) (x # h)))))"

lemma side_zero [simp]: "side c b = 0 \<longleftrightarrow> b = c"
  by (simp add: side_def)

lemma observe_simulates:
  assumes "tracks tk m"
  shows "fst (observe b ts tk) = fst (observe_spec b ts m) \<and> tracks (snd (observe b ts tk)) (snd (observe_spec b ts m))"
proof (cases "b = tk_confirmed tk")
  case True
  then show ?thesis using assms by (simp add: tracks_def observe_def observe_spec_def Let_def side_def)
next
  case False
  obtain c h where m: "m = (c, h)" by (cases m)
  have c: "tk_confirmed tk = c" using assms by (simp add: tracks_def m)
  let ?d = "side c b"
  have d0: "?d \<noteq> 0" using False c by simp
  have since: "since_of c ?d ((b, ts) # h) =
      (if tk_dir tk \<noteq> ?d then ts else (case tk_since tk of None \<Rightarrow> ts | Some t \<Rightarrow> t))"
  proof (cases h)
    case Nil
    then show ?thesis using assms d0 by (simp add: tracks_def m since_of_def)
  next
    case (Cons x h')
    have dir: "tk_dir tk = side c (fst x)" using assms by (simp add: tracks_def m Cons)
    have some: "tk_since tk = Some (since_of c ?d (x # h'))" if "tk_dir tk = ?d"
    proof -
      have "tk_dir tk \<noteq> 0 \<longrightarrow> tk_since tk = Some (since_of c (tk_dir tk) (x # h'))"
        using assms by (simp add: tracks_def m Cons)
      then show ?thesis using that d0 by simp
    qed
    show ?thesis
    proof (cases "tk_dir tk = ?d")
      case True
      have t: "tk_since tk = Some (since_of c ?d (x # h'))" by (rule some[OF True])
      have fx: "side c (fst x) = ?d" using True dir by simp
      show ?thesis unfolding Cons t by (simp add: True fx since_of_def)
    next
      case False
      then show ?thesis using dir by (simp add: Cons since_of_def)
    qed
  qed
  have timed: "tk_dir tk \<noteq> 0 \<Longrightarrow> \<exists>t. tk_since tk = Some t"
    using assms by (cases h) (auto simp: tracks_def m)
  show ?thesis
    using False d0 c since timed
    by (auto simp: observe_def observe_spec_def tracks_def m Let_def not_less)
qed

fun changes :: "(band \<times> real) list \<Rightarrow> tracker \<Rightarrow> (band \<times> band) option list" where
  "changes [] tk = []"
| "changes (x # xs) tk = fst (observe (fst x) (snd x) tk) # changes xs (snd (observe (fst x) (snd x) tk))"

fun changes_spec :: "(band \<times> real) list \<Rightarrow> band \<times> (band \<times> real) list \<Rightarrow> (band \<times> band) option list" where
  "changes_spec [] m = []"
| "changes_spec (x # xs) m = fst (observe_spec (fst x) (snd x) m) # changes_spec xs (snd (observe_spec (fst x) (snd x) m))"

lemma changes_simulate: "tracks tk m \<Longrightarrow> changes xs tk = changes_spec xs m"
proof (induction xs arbitrary: tk m)
  case Nil
  show ?case by simp
next
  case (Cons x xs)
  show ?case using observe_simulates[OF Cons.prems, of "fst x" "snd x"] Cons.IH by simp
qed

text \<open>C36: The tracker that keeps one direction and one time records exactly what its history would: a change to the band of the
  newest sample when all the samples since some time, at least the dwell ago, have been on the same side of the recorded
  band, whatever bands they were on that side. One sample on the other side or on the recorded band starts the wait anew.\<close>
theorem tracker_refines:
  "changes xs tracker_init = changes_spec xs (Normal, [])"
  by (rule changes_simulate) (simp add: tracks_def tracker_init_def)

end
