(* ===== verification/Proc_Identity.thy ===== *)
theory Proc_Identity
  imports Py_String "HOL-Library.AList" "HOL-Library.Product_Lexorder"
begin

text \<open>
  Who a process is. The rule that derives the program of a process from its command line and the search of the wizard
  (\<open>monitor/app_discovery.py\<close>), the exact match by which a configured name finds its processes again (\<open>utils/app_utils.py\<close>)
  and the tables and the match that attribute a cgroup to an application (\<open>ResourceMonitor\<close> of \<open>monitor/res_monitor.py\<close>).
  The files under \<open>/proc\<close> and the records of \<open>psutil\<close> are arguments; the names a scope or a container is shown under,
  \<open>shlex.split\<close> and \<open>systemd-cgls\<close> too. Text is ASCII.
\<close>

subsection \<open>Programs behind shells and interpreters\<close>

definition default_shell_tools :: "string list" where
  "default_shell_tools =
     [''bash'', ''sh'', ''dash'', ''zsh'', ''fish'', ''tcsh'', ''sudo'', ''su'', ''env'', ''which'', ''getent'', ''cat'', ''head'', ''tail'',
      ''ls'', ''find'', ''xargs'', ''grep'', ''sed'', ''awk'', ''cut'', ''sort'', ''uniq'', ''wc'', ''tr'', ''tee'', ''ps'', ''top'', ''pgrep'',
      ''pkill'', ''true'', ''false'', ''sleep'', ''kill'', ''mv'', ''cp'', ''rm'', ''ln'', ''mkdir'', ''rmdir'', ''touch'', ''chmod'', ''chown'']"

definition shell_tools :: "string list \<Rightarrow> string list" where
  \<comment> \<open>the argument is the setting \<open>shell_tools\<close>, empty when there is none\<close>
  "shell_tools configured =
     (if configured = [] then default_shell_tools else map (\<lambda>n. lower (strip n)) (filter (\<lambda>n. strip n \<noteq> []) configured))"

definition interpreters :: "string list" where
  "interpreters = [''python'', ''python2'', ''python3'', ''node'', ''nodejs'', ''perl'', ''ruby'', ''java'', ''php'', ''lua'', ''rscript'']"

definition is_interpreter :: "string \<Rightarrow> bool" where
  "is_interpreter name =
     (let n = lower name; stem = takeWhile (\<lambda>c. \<not> is_digit c) n
      in n \<in> set interpreters \<or> (stem \<noteq> [] \<and> stem \<in> set interpreters))"

definition base_of :: "string \<Rightarrow> string" where
  \<comment> \<open>\<open>os.path.basename\<close>\<close>
  "base_of p = after_last ''/'' p"

fun first_argument :: "string list \<Rightarrow> string" where
  \<comment> \<open>the loop of \<open>_script_from_cmdline\<close>\<close>
  "first_argument [] = []"
| "first_argument (tok # toks) =
     (let t = strip tok in if t = [] \<or> startswith t ''-'' then first_argument toks else base_of t)"

definition script_from_cmdline :: "string list \<Rightarrow> string" where
  "script_from_cmdline tokens = first_argument (tl tokens)"

record proc_view =
  pv_comm :: string
  pv_exe :: string
  pv_argv0 :: string  \<comment> \<open>\<open>cmdline_argv0\<close>\<close>
  pv_tokens :: "string list"  \<comment> \<open>\<open>cmdline_tokens\<close>\<close>
  pv_pretty :: string  \<comment> \<open>\<open>cmdline_pretty\<close>\<close>
  pv_ppid :: int
  pv_unit :: string  \<comment> \<open>\<open>cgroup_unit\<close>\<close>

definition derive_process_name :: "string list \<Rightarrow> proc_view \<Rightarrow> string" where
  \<comment> \<open>the first argument is the filter of shell tools in force\<close>
  "derive_process_name tools v =
     (let comm = strip (pv_comm v);
          exe_base = base_of (pv_exe v);
          argv0_base = base_of (strip (pv_argv0 v));
          launcher = (if exe_base = [] then argv0_base else exe_base)
      in if lower launcher \<in> set tools \<or> is_interpreter launcher
         then (let script = script_from_cmdline (pv_tokens v) in if script = [] then comm else script)
         else if exe_base = [] then comm else exe_base)"

subsection \<open>Discovery\<close>

record proc_files =
  pf_comm :: string
  pf_cmdline :: string  \<comment> \<open>separated by NUL\<close>
  pf_exe :: string  \<comment> \<open>the link, empty when it cannot be read\<close>
  pf_status :: "string list"  \<comment> \<open>the lines\<close>
  pf_cgroup :: "string list"  \<comment> \<open>the lines\<close>

definition after_two_colons :: "string \<Rightarrow> string" where
  \<comment> \<open>\<open>line.split(":", 2)[-1]\<close>\<close>
  "after_two_colons line =
     (case partition_at CHR '':'' line of (a, True, r) \<Rightarrow>
        (case partition_at CHR '':'' r of (b, True, s) \<Rightarrow> s | (b, False, s) \<Rightarrow> r)
      | (a, False, r) \<Rightarrow> line)"

definition is_unit_name :: "string \<Rightarrow> bool" where
  "is_unit_name s \<longleftrightarrow> suffix ''.service'' s \<or> suffix ''.scope'' s \<or> suffix ''.slice'' s"

fun parse_systemd_unit :: "string list \<Rightarrow> string" where
  "parse_systemd_unit [] = []"
| "parse_systemd_unit (line # ls) =
     (let path = strip (after_two_colons line)
      in if path = [] then parse_systemd_unit ls
         else (case find is_unit_name (rev (split_char CHR ''/'' path)) of Some u \<Rightarrow> u | None \<Rightarrow> parse_systemd_unit ls))"

fun ppid_of :: "string list \<Rightarrow> int" where
  "ppid_of [] = 0"
| "ppid_of (line # ls) =
     (if startswith line ''PPid:''
      then (case split_ws line of a # b # r \<Rightarrow> (case py_int b of Some n \<Rightarrow> n | None \<Rightarrow> 0) | _ \<Rightarrow> 0)
      else ppid_of ls)"

abbreviation NUL :: char where "NUL \<equiv> char_of (0 :: nat)"

definition read_proc :: "proc_files \<Rightarrow> proc_view option" where
  "read_proc f =
     (let comm = strip (pf_comm f); raw = pf_cmdline f in
      if comm = [] then None
      else Some \<lparr>pv_comm = comm, pv_exe = pf_exe f, pv_argv0 = hd (split_char NUL raw),
                 pv_tokens = filter (\<lambda>t. t \<noteq> []) (split_char NUL raw),
                 pv_pretty = strip (map (\<lambda>c. if c = NUL then CHR '' '' else c) raw),
                 pv_ppid = ppid_of (pf_status f), pv_unit = parse_systemd_unit (pf_cgroup f)\<rparr>)"

definition is_blacklisted :: "string list \<Rightarrow> string list \<Rightarrow> string \<Rightarrow> string \<Rightarrow> bool" where
  "is_blacklisted tools blacklist comm exe_basename \<longleftrightarrow>
     lower comm \<in> set tools
     \<or> list_ex (\<lambda>bad. let b = strip (lower bad) in b \<noteq> [] \<and> (contains (lower comm) b \<or> contains (lower exe_basename) b)) blacklist"

definition matches_any_keyword :: "string list \<Rightarrow> proc_view \<Rightarrow> bool" where
  "matches_any_keyword kws v \<longleftrightarrow>
     list_ex (\<lambda>kw. list_ex (\<lambda>h. contains h kw) [lower (pv_comm v), lower (base_of (pv_exe v)), lower (pv_pretty v)]) kws"

definition score_of :: "proc_view \<Rightarrow> int" where
  "score_of v =
     (let u = pv_unit v in
      (if suffix ''.scope'' u \<and> contains u ''user-'' then 50
       else if suffix ''.service'' u \<and> contains u ''user@'' then 40
       else if suffix ''.service'' u then 20 else 0)
      + (if pv_exe v \<noteq> [] then 10 else 0) + (if pv_ppid v = 1 then 5 else 0))"

record found =
  fo_pid :: nat
  fo_name :: string
  fo_score :: int

definition search_processes :: "string list \<Rightarrow> string list \<Rightarrow> string list \<Rightarrow> nat \<Rightarrow> (nat \<times> proc_files) list \<Rightarrow> found list" where
  "search_processes tools blacklist keywords limit procs =
     (let kws = map (\<lambda>k. lower (strip k)) (filter (\<lambda>k. strip k \<noteq> []) keywords);
          hits = List.map_filter (\<lambda>(pid, f).
            if pid < 100 then None
            else (case read_proc f of None \<Rightarrow> None
              | Some v \<Rightarrow>
                  if is_blacklisted tools blacklist (pv_comm v) (if pv_exe v = [] then [] else base_of (pv_exe v)) then None
                  else if \<not> matches_any_keyword kws v then None
                  else Some \<lparr>fo_pid = pid, fo_name = derive_process_name tools v, fo_score = score_of v\<rparr>)) procs
      in if kws = [] then [] else take limit (sort_key (\<lambda>c. (- fo_score c, fo_pid c)) hits))"

fun slug_loop :: "string \<Rightarrow> string \<Rightarrow> bool \<Rightarrow> string" where
  \<comment> \<open>what has been written so far, and whether a dash was the last\<close>
  "slug_loop [] out prev = out"
| "slug_loop (ch # s) out prev =
     (if (97 \<le> (of_char ch :: nat) \<and> (of_char ch :: nat) \<le> 122) \<or> is_digit ch then slug_loop s (out @ [ch]) False
      else if out \<noteq> [] \<and> \<not> prev then slug_loop s (out @ ''-'') True
      else slug_loop s out prev)"

definition strip_dashes :: "string \<Rightarrow> string" where
  "strip_dashes s = rev (dropWhile (\<lambda>c. c = CHR ''-'') (rev (dropWhile (\<lambda>c. c = CHR ''-'') s)))"

definition slugify :: "string \<Rightarrow> string" where
  "slugify s = strip_dashes (slug_loop (lower s) [] False)"

record extracted =
  ex_bpf :: "string list"
  ex_names :: "string list"
  ex_cmds :: "string list"
  ex_units :: "string list"
  ex_id :: string

definition note_new :: "string \<Rightarrow> string list \<Rightarrow> string list" where
  "note_new x xs = (if x = [] \<or> x \<in> set xs then xs else xs @ [x])"

definition extract_one :: "string list \<Rightarrow> proc_view \<Rightarrow> extracted \<Rightarrow> extracted" where
  "extract_one tools v r =
     (let comm = strip (pv_comm v);
          bpf = (if comm \<noteq> [] \<and> (lower comm \<in> set tools \<or> is_interpreter comm)
                 then (let s = script_from_cmdline (pv_tokens v) in if s = [] then comm else s) else comm);
          cmd = (let p = strip (pv_pretty v) in if p = [] then strip (pv_argv0 v) else p)
      in r\<lparr>ex_bpf := note_new bpf (ex_bpf r), ex_names := note_new (derive_process_name tools v) (ex_names r),
           ex_cmds := note_new cmd (ex_cmds r), ex_units := note_new (pv_unit v) (ex_units r)\<rparr>)"

definition extract_fields :: "string list \<Rightarrow> proc_files list \<Rightarrow> string \<Rightarrow> extracted" where
  \<comment> \<open>the files of the selected processes\<close>
  "extract_fields tools sel name =
     (let r = fold (extract_one tools) (List.map_filter read_proc sel) \<lparr>ex_bpf = [], ex_names = [], ex_cmds = [], ex_units = [], ex_id = []\<rparr>;
          own = (case ex_units r of [u] \<Rightarrow> if suffix ''.slice'' u then [] else u | _ \<Rightarrow> []);
          slug = slugify name
      in r\<lparr>ex_bpf := sort (ex_bpf r), ex_names := sort (ex_names r), ex_cmds := sort (ex_cmds r), ex_units := sort (ex_units r),
           ex_id := (if own \<noteq> [] then own else if name \<noteq> [] \<and> slug \<noteq> [] then slug @ ''.id'' else [])\<rparr>)"

subsection \<open>Exact match\<close>

record ps_proc =
  ps_pid :: nat
  ps_name :: string
  ps_exe :: string
  ps_cmdline :: "string list"

definition derived_process_identity :: "string list \<Rightarrow> string \<Rightarrow> string \<Rightarrow> string list \<Rightarrow> string" where
  \<comment> \<open>of a name, an executable and a command line\<close>
  "derived_process_identity tools name exe cmdline =
     derive_process_name tools
       \<lparr>pv_comm = strip name, pv_exe = strip exe, pv_argv0 = (case cmdline of [] \<Rightarrow> [] | a # r \<Rightarrow> strip a), pv_tokens = cmdline,
        pv_pretty = [], pv_ppid = 0, pv_unit = []\<rparr>"

definition plain_names :: "ps_proc \<Rightarrow> string list" where
  \<comment> \<open>what the first argument, the name and the executable say\<close>
  "plain_names p =
     [case ps_cmdline p of [] \<Rightarrow> [] | a # r \<Rightarrow> lower (base_of (strip a)), lower (strip (ps_name p)), lower (base_of (strip (ps_exe p)))]"

definition argument_names :: "ps_proc \<Rightarrow> string list" where
  "argument_names p = map (\<lambda>t. lower (base_of (strip t))) (tl (ps_cmdline p))"

definition own_identity :: "string list \<Rightarrow> ps_proc \<Rightarrow> string" where
  "own_identity tools p = lower (strip (derived_process_identity tools (ps_name p) (ps_exe p) (ps_cmdline p)))"

definition matches_exactly :: "string list \<Rightarrow> string \<Rightarrow> ps_proc \<Rightarrow> bool" where
  "matches_exactly tools q p \<longleftrightarrow> q \<in> set (plain_names p) \<or> (q \<in> set (argument_names p) \<and> own_identity tools p = q)"

definition get_app_processes_by_exact_name :: "string list \<Rightarrow> ps_proc list \<Rightarrow> string \<Rightarrow> nat list" where
  "get_app_processes_by_exact_name tools procs process_name =
     (let q = lower (strip process_name)
      in if q = [] then [] else sort (remdups (map ps_pid (filter (matches_exactly tools q) procs))))"

definition dominant_cgroup_by_pids :: "(nat \<Rightarrow> string option) \<Rightarrow> nat list \<Rightarrow> (string \<times> nat) option" where
  \<comment> \<open>the first argument is \<open>get_cgroup_path_by_pid\<close>; an empty path counts as none\<close>
  "dominant_cgroup_by_pids cgroup_of pids =
     (let seen = List.map_filter (\<lambda>pid. case cgroup_of pid of None \<Rightarrow> None | Some p \<Rightarrow> if p = [] then None else Some (p, pid)) pids;
          count = (\<lambda>p. length (filter (\<lambda>x. fst x = p) seen))
      in case sort_key (\<lambda>p. (- int (count p), p)) (remdups (map fst seen)) of
           [] \<Rightarrow> None
         | w # r \<Rightarrow> map_option (\<lambda>pid. (w, pid)) (map_of seen w))"

subsection \<open>Tables of applications\<close>

record app_entry =
  ae_id :: string
  ae_name :: string
  ae_process_names :: "string list"
  ae_cmdline :: string

definition process_name_table :: "app_entry list \<Rightarrow> (string \<times> string) list" where
  \<comment> \<open>\<open>_proc_name_to_app\<close>, filled by \<open>_load_multiprocess_config\<close>\<close>
  "process_name_table apps =
     fold (\<lambda>app t. fold (\<lambda>p t. if p = [] then t else AList.update (lower p) (ae_id app) t) (ae_process_names app) t) apps []"

definition multiprocess_name :: "app_entry list \<Rightarrow> string \<Rightarrow> string option" where
  \<comment> \<open>the display name in \<open>_multiprocess_apps\<close>\<close>
  "multiprocess_name apps i = map_option ae_name (find (\<lambda>a. ae_id a = i \<and> ae_process_names a \<noteq> []) (rev apps))"

definition identity_keys :: "string \<Rightarrow> string list" where
  "identity_keys name = (let n = lower (strip name) in if n = [] then [] else if length n \<le> 15 then [n] else [n, take 15 n])"

definition set_default :: "'k \<Rightarrow> 'v \<Rightarrow> ('k \<times> 'v) list \<Rightarrow> ('k \<times> 'v) list" where
  "set_default k v t = (if map_of t k = None then t @ [(k, v)] else t)"

definition index_app :: "string list \<Rightarrow> app_entry \<Rightarrow> (string \<times> string) list \<times> (string \<times> string) list \<Rightarrow> (string \<times> string) list \<times> (string \<times> string) list" where
  "index_app tools app ix =
     (let tokens = split_ws (ae_cmdline app);
          exe_token = (case tokens of [] \<Rightarrow> [] | a # r \<Rightarrow> a);
          derived = (if exe_token = [] then [] else derived_process_identity tools [] exe_token tokens);
          keys = concat (map identity_keys (ae_name app # derived # ae_process_names app))
      in (fold (\<lambda>k t. set_default k (ae_id app) t) keys (fst ix),
          if exe_token \<noteq> [] \<and> lower derived = lower (base_of exe_token) then set_default (lower exe_token) (ae_id app) (snd ix) else snd ix))"

definition desktop_identity_index :: "string list \<Rightarrow> app_entry list \<Rightarrow> (string \<times> string) list \<times> (string \<times> string) list" where
  \<comment> \<open>the names and the executables; the first registration wins\<close>
  "desktop_identity_index tools apps = fold (index_app tools) apps ([], [])"

fun first_hit :: "(string \<Rightarrow> string option) \<Rightarrow> string list \<Rightarrow> string option" where
  \<comment> \<open>the first name with an application; an empty id counts as none\<close>
  "first_hit t [] = None"
| "first_hit t (n # ns) = (case t n of None \<Rightarrow> first_hit t ns | Some i \<Rightarrow> if i = [] then first_hit t ns else Some i)"

definition app_id_for_process :: "string list \<Rightarrow> (string \<times> string) list \<Rightarrow> ps_proc \<Rightarrow> string" where
  "app_id_for_process tools table p =
     (case first_hit (map_of table) (filter (\<lambda>n. n \<noteq> []) (plain_names p)) of
        Some i \<Rightarrow> i
      | None \<Rightarrow>
          if list_ex (\<lambda>a. map_of table a \<noteq> None) (argument_names p)
          then (case map_of table (own_identity tools p) of None \<Rightarrow> [] | Some i \<Rightarrow> i) else [])"

definition bare_interpreter :: "string \<Rightarrow> bool" where
  \<comment> \<open>\<open>_BARE_INTERPRETER_RE\<close>\<close>
  "bare_interpreter n \<longleftrightarrow>
     n \<in> set [''bash'', ''sh'', ''dash'', ''zsh'', ''fish'', ''tcsh'', ''python'', ''node'', ''nodejs'']
     \<or> (startswith n ''python'' \<and> list_all (\<lambda>v. v \<noteq> [] \<and> list_all is_digit v) (split_char CHR ''.'' (drop 6 n)))"

definition split_tokens :: "(string \<Rightarrow> string list option) \<Rightarrow> string \<Rightarrow> string list" where
  \<comment> \<open>\<open>shlex.split\<close>, and plain words when it raises\<close>
  "split_tokens shlex s = (case shlex s of Some ts \<Rightarrow> ts | None \<Rightarrow> split_ws s)"

definition is_identifiable_representative :: "string list \<Rightarrow> (string \<Rightarrow> string list option) \<Rightarrow> string \<Rightarrow> string \<Rightarrow> bool" where
  "is_identifiable_representative tools shlex name cmdline \<longleftrightarrow>
     name \<noteq> [] \<and> (\<not> bare_interpreter (lower name)
       \<or> (let i = derived_process_identity tools name [] (split_tokens shlex cmdline) in i \<noteq> [] \<and> i \<noteq> name))"

subsection \<open>The application of a cgroup\<close>

definition is_hex :: "char \<Rightarrow> bool" where
  "is_hex c \<longleftrightarrow> is_digit c \<or> lower [c] \<in> set [''a'', ''b'', ''c'', ''d'', ''e'', ''f'']"

definition container_id :: "string \<Rightarrow> string option" where
  \<comment> \<open>the two patterns, case-insensitive; the end of a pattern also matches before a newline at the end\<close>
  "container_id s =
     (let rest = drop 7 s; i = take 64 rest; tail = lower (drop 64 rest); more = drop 6 s; sp = takeWhile is_space more;
          j = takeWhile is_hex (dropWhile is_space more)
      in if lower (take 7 s) = ''docker-'' \<and> length i = 64 \<and> list_all is_hex i
            \<and> tail \<in> set [[], ''.scope'', [char_of (10 :: nat)], ''.scope'' @ [char_of (10 :: nat)]] then Some i
         else if lower (take 6 s) = ''docker'' \<and> sp \<noteq> [] \<and> j \<noteq> [] then Some j
         else None)"

definition docker_container_name :: "(string \<Rightarrow> string option) \<Rightarrow> string \<Rightarrow> string option" where
  \<comment> \<open>\<open>_get_docker_container_name\<close>; the first argument is the answer of \<open>docker inspect\<close>, none when it failed\<close>
  "docker_container_name inspect s =
     map_option (\<lambda>i.
       let short = take 12 i;
           name = (case inspect short of None \<Rightarrow> [] | Some n \<Rightarrow> let t = strip n in if startswith t ''/'' then tl t else t)
       in if name = [] then ''Docker '' @ short else ''Docker: '' @ name) (container_id s)"

definition is_letter :: "char \<Rightarrow> bool" where
  "is_letter c \<longleftrightarrow> 97 \<le> (of_char (hd (lower [c])) :: nat) \<and> (of_char (hd (lower [c])) :: nat) \<le> 122"

definition upper_char :: "char \<Rightarrow> char" where
  "upper_char c = (if is_letter c \<and> lower [c] = [c] then char_of ((of_char c :: nat) - 32) else c)"

fun title_loop :: "bool \<Rightarrow> string \<Rightarrow> string" where
  \<comment> \<open>\<open>s.title()\<close>; whether the character before was a letter\<close>
  "title_loop prev [] = []"
| "title_loop prev (c # cs) = (if prev then hd (lower [c]) else upper_char c) # title_loop (is_letter c) cs"

definition spaces_for :: "char list \<Rightarrow> string \<Rightarrow> string" where
  "spaces_for ds s = map (\<lambda>c. if c \<in> set ds then CHR '' '' else c) s"

definition drop_unit_suffix :: "string \<Rightarrow> string" where
  "drop_unit_suffix s =
     (let nl = [char_of (10 :: nat)];
          cut_at = (\<lambda>t. case find (\<lambda>u. suffix u t) [''.scope'', ''.service'', ''.slice''] of
             None \<Rightarrow> None | Some u \<Rightarrow> Some (take (length t - length u) t))
      in case cut_at s of Some t \<Rightarrow> t
         | None \<Rightarrow> (if suffix nl s then (case cut_at (butlast s) of Some t \<Rightarrow> t @ nl | None \<Rightarrow> s) else s))"

definition drop_instance :: "string \<Rightarrow> string" where
  \<comment> \<open>the last \<open>@\<close> with what follows it, when something does\<close>
  "drop_instance s =
     (let t = takeWhile (\<lambda>c. c \<noteq> CHR ''@'') (rev s)
      in if t \<noteq> [] \<and> length t < length s then take (length s - length t - 1) s else s)"

definition extract_readable_app_name :: "string \<Rightarrow> py_error + string" where
  "extract_readable_app_name scope =
     (let n1 = drop_unit_suffix scope;
          n2 = (if startswith n1 ''app-'' then drop 4 n1 else n1);
          snap = (if startswith n2 ''snap.'' then takeWhile (\<lambda>c. c \<noteq> CHR ''.'') (drop 5 n2) else [])
      in if snap \<noteq> [] then Inr (title_loop False (spaces_for [CHR ''-''] snap))
         else (let n3 = drop_instance n2; parts = filter (\<lambda>p. p \<noteq> []) (split_char CHR ''.'' n3);
                   finish = (\<lambda>n. Inr (title_loop False (spaces_for [CHR ''-'', CHR ''_''] n)))
               in if CHR ''.'' \<in> set n3
                  then (if parts = [] then Inl IndexError
                        else finish (join_with '' '' (drop (length parts - 2) parts)))
                  else finish n3))"

record group_info =
  gi_cgroup :: string
  gi_exe :: string
  gi_dominant :: string  \<comment> \<open>\<open>dominant_name\<close>\<close>
  gi_dominant_cmd :: string
  gi_names :: "string list"
  gi_pids :: "nat list"

record app_match =
  am_type :: string
  am_id :: string
  am_name :: string

record match_env =
  me_tools :: "string list"
  me_shlex :: "string \<Rightarrow> string list option"
  me_inspect :: "string \<Rightarrow> string option"
  me_unit :: "nat \<Rightarrow> string option"  \<comment> \<open>\<open>_find_systemd_unit\<close>\<close>

definition generic_container :: "string \<Rightarrow> bool" where
  "generic_container s \<longleftrightarrow>
     (let t = (if suffix [char_of (10 :: nat)] s then butlast s else s);
          numbered = (\<lambda>pre suf. startswith t pre \<and> suffix suf t \<and> length pre + length suf < length t
             \<and> list_all is_digit (take (length t - length pre - length suf) (drop (length pre) t)))
      in numbered ''session-'' ''.scope'' \<or> numbered ''user@'' ''.service'' \<or> t = ''init.scope'' \<or> numbered ''user-'' ''.slice''
         \<or> t = ''user.slice'')"

definition resolved_identity :: "match_env \<Rightarrow> group_info \<Rightarrow> string" where
  \<comment> \<open>the program behind the dominant process, empty when it is not known\<close>
  "resolved_identity e g =
     (if gi_dominant g = [] \<or> strip (gi_dominant_cmd g) = [] then []
      else strip (derived_process_identity (me_tools e) (gi_dominant g) (gi_exe g) (split_tokens (me_shlex e) (strip (gi_dominant_cmd g)))))"

definition configured_match :: "app_entry list \<Rightarrow> group_info \<Rightarrow> app_match option" where
  "configured_match apps g =
     (let t = process_name_table apps; names = (if gi_dominant g = [] then gi_names g else [gi_dominant g])
      in case find (\<lambda>n. first_hit (map_of t) [lower n] \<noteq> None) names of
           None \<Rightarrow> None
         | Some n \<Rightarrow> map_option (\<lambda>i. \<lparr>am_type = ''configured'', am_id = i,
             am_name = (case multiprocess_name apps i of None \<Rightarrow> n | Some d \<Rightarrow> d)\<rparr>) (first_hit (map_of t) [lower n]))"

definition desktop_match :: "string list \<Rightarrow> app_entry list \<Rightarrow> group_info \<Rightarrow> app_match option" where
  "desktop_match tools apps g =
     (case desktop_identity_index tools apps of (names, exes) \<Rightarrow>
        (let exe = strip (gi_exe g);
             ks = (if gi_dominant g = [] then gi_names g else [gi_dominant g]);
             by_exe = (if exe = [] then None
               else (case first_hit (map_of exes) [lower exe] of Some i \<Rightarrow> Some i | None \<Rightarrow> first_hit (map_of names) [lower (base_of exe)]));
             hit = (case by_exe of Some i \<Rightarrow> Some i | None \<Rightarrow> first_hit (map_of names) (map (\<lambda>n. lower (strip n)) ks))
         in map_option (\<lambda>i. \<lparr>am_type = ''desktop'', am_id = i,
              am_name = (case find (\<lambda>a. ae_id a = i) apps of None \<Rightarrow> i | Some a \<Rightarrow> if ae_name a = [] then i else ae_name a)\<rparr>) hit))"

fun rstrip_slashes :: "string \<Rightarrow> string" where
  "rstrip_slashes s = rev (dropWhile (\<lambda>c. c = CHR ''/'') (rev s))"

definition cgroup_match :: "match_env \<Rightarrow> group_info \<Rightarrow> py_error + app_match" where
  "cgroup_match e g =
     (let parts = split_char CHR ''/'' (rstrip_slashes (gi_cgroup g)); scope = last parts;
          as_process = (\<lambda>n. Inr \<lparr>am_type = ''process'', am_id = n, am_name = n\<rparr>);
          who = resolved_identity e g
      in case docker_container_name (me_inspect e) scope of
           Some d \<Rightarrow> Inr \<lparr>am_type = ''docker'', am_id = scope, am_name = d\<rparr>
         | None \<Rightarrow>
             if startswith scope ''vte-spawn-''
             then bindE (if 2 \<le> length parts \<and> parts ! (length parts - 2) \<noteq> [] then extract_readable_app_name (parts ! (length parts - 2))
                         else Inr ''Terminal'')
                    (\<lambda>term. Inr \<lparr>am_type = ''cgroup'', am_id = scope,
                       am_name = (if gi_dominant g = [] then term else term @ '' - '' @ gi_dominant g)\<rparr>)
             else if generic_container scope \<and> gi_dominant g \<noteq> [] then as_process (if who = [] then gi_dominant g else who)
             else if who \<noteq> [] then as_process who
             else bindE (extract_readable_app_name scope) (\<lambda>n. Inr \<lparr>am_type = ''cgroup'', am_id = scope, am_name = n\<rparr>))"

definition try_match_app :: "match_env \<Rightarrow> app_entry list \<Rightarrow> app_entry list \<Rightarrow> group_info \<Rightarrow> py_error + app_match option" where
  \<comment> \<open>the applications of the configuration, and those of them registered with an id, each id once\<close>
  "try_match_app e configured registered g =
     (case configured_match configured g of
        Some m \<Rightarrow> Inr (Some m)
      | None \<Rightarrow>
          (case desktop_match (me_tools e) registered g of
             Some m \<Rightarrow> Inr (Some m)
           | None \<Rightarrow>
               if gi_cgroup g \<noteq> [] then bindE (cgroup_match e g) (\<lambda>m. Inr (Some m))
               else (case gi_pids g of
                       [] \<Rightarrow> Inr None
                     | pid # r \<Rightarrow>
                         (case me_unit e pid of
                            None \<Rightarrow> Inr None
                          | Some u \<Rightarrow> if u = [] then Inr None
                              else bindE (extract_readable_app_name u) (\<lambda>n. Inr (Some \<lparr>am_type = ''systemd'', am_id = u, am_name = n\<rparr>))))))"

subsection \<open>What the wizard writes is found again\<close>

lemma dropWhile_idem: "dropWhile P (dropWhile P xs) = dropWhile P xs"
  by (induction xs) auto

lemma dropWhile_keeps_last:
  "dropWhile P xs = xs \<Longrightarrow> dropWhile P (rev (dropWhile P (rev xs))) = rev (dropWhile P (rev xs))"
proof (cases xs)
  case Nil
  then show ?thesis by simp
next
  case (Cons a l)
  assume "dropWhile P xs = xs"
  then have na: "\<not> P a" using Cons length_dropWhile_le[of P l] by (auto split: if_splits)
  have "dropWhile P (rev l @ [a]) = dropWhile P (rev l) @ [a]"
    by (cases "dropWhile P (rev l) = []") (use na in \<open>auto simp: dropWhile_append dropWhile_eq_Nil_conv\<close>)
  then show ?thesis using Cons na by simp
qed

lemma strip_twice [simp]: "strip (strip s) = strip s"
proof -
  let ?d = "dropWhile is_space s"
  have "dropWhile is_space (rev (dropWhile is_space (rev ?d))) = rev (dropWhile is_space (rev ?d))"
    by (rule dropWhile_keeps_last) (rule dropWhile_idem)
  then show ?thesis by (simp add: strip_def dropWhile_idem)
qed

lemma first_argument_mem: "first_argument ts \<noteq> [] \<Longrightarrow> \<exists>t\<in>set ts. first_argument ts = base_of (strip t)"
  by (induction ts) (auto simp: Let_def split: if_splits)

definition same_process :: "proc_view \<Rightarrow> ps_proc \<Rightarrow> bool" where
  \<comment> \<open>the two readings of one process agree\<close>
  "same_process v p \<longleftrightarrow>
     ps_name p = pv_comm v \<and> ps_exe p = pv_exe v \<and> ps_cmdline p = pv_tokens v
     \<and> pv_argv0 v = (case pv_tokens v of [] \<Rightarrow> [] | a # r \<Rightarrow> a)"

lemma read_proc_comm: "read_proc f = Some v \<Longrightarrow> pv_comm v \<noteq> [] \<and> strip (pv_comm v) = pv_comm v"
  by (auto simp: read_proc_def Let_def split: if_splits)

lemma derived_from_either:
  assumes "same_process v p" "strip (pv_exe v) = pv_exe v" "strip (pv_comm v) = pv_comm v"
  shows "derived_process_identity tools (ps_name p) (ps_exe p) (ps_cmdline p) = derive_process_name tools v"
proof -
  have a: "strip (case pv_tokens v of [] \<Rightarrow> [] | a # r \<Rightarrow> strip a) = strip (pv_argv0 v)"
    using assms(1) by (cases "pv_tokens v") (simp_all add: same_process_def)
  show ?thesis
    using assms unfolding derived_process_identity_def derive_process_name_def Let_def by (simp add: same_process_def a)
qed

lemma derived_cases:
  "derive_process_name tools v = strip (pv_comm v) \<or> derive_process_name tools v = base_of (pv_exe v)
   \<or> (\<exists>t\<in>set (tl (pv_tokens v)). derive_process_name tools v = base_of (strip t))"
  using first_argument_mem[of "tl (pv_tokens v)"]
  by (auto simp: derive_process_name_def Let_def script_from_cmdline_def)

lemma derived_nonempty: "strip (pv_comm v) \<noteq> [] \<Longrightarrow> derive_process_name tools v \<noteq> []"
  by (auto simp: derive_process_name_def Let_def)

lemma own_name_matches:
  assumes "read_proc f = Some v" "same_process v p" "strip (pv_exe v) = pv_exe v"
    "strip (derive_process_name tools v) = derive_process_name tools v"
  shows "matches_exactly tools (lower (derive_process_name tools v)) p"
proof -
  have comm: "strip (pv_comm v) = pv_comm v" using read_proc_comm[OF assms(1)] by blast
  have own: "own_identity tools p = lower (derive_process_name tools v)"
    by (simp add: own_identity_def derived_from_either[OF assms(2,3) comm] assms(4))
  have p: "ps_name p = pv_comm v" "ps_exe p = pv_exe v" "ps_cmdline p = pv_tokens v"
    using assms(2) by (simp_all add: same_process_def)
  consider "derive_process_name tools v = pv_comm v" | "derive_process_name tools v = base_of (pv_exe v)"
    | t where "t \<in> set (tl (pv_tokens v))" "derive_process_name tools v = base_of (strip t)"
    using derived_cases[of tools v] comm by auto
  then show ?thesis
    by cases (auto simp: matches_exactly_def plain_names_def argument_names_def own p comm assms(3))
qed

lemma note_new_keeps: "set xs \<subseteq> set (note_new x xs)" "x \<noteq> [] \<Longrightarrow> x \<in> set (note_new x xs)"
  by (auto simp: note_new_def)

lemma extract_names:
  "set (ex_names r) \<union> {n. n \<noteq> [] \<and> n \<in> derive_process_name tools ` set vs} \<subseteq> set (ex_names (fold (extract_one tools) vs r))"
proof (induction vs arbitrary: r)
  case (Cons v vs)
  have e: "ex_names (extract_one tools v r) = note_new (derive_process_name tools v) (ex_names r)"
    by (simp add: extract_one_def Let_def)
  show ?case
    using Cons.IH[of "extract_one tools v r"] note_new_keeps(1)[of "ex_names r" "derive_process_name tools v"]
      note_new_keeps(2)[of "derive_process_name tools v" "ex_names r"] unfolding e by auto
qed simp

lemma wizard_names:
  assumes "f \<in> set sel" "read_proc f = Some v"
  shows "derive_process_name tools v \<in> set (ex_names (extract_fields tools sel name))"
proof -
  have "v \<in> set (List.map_filter read_proc sel)" using assms by (force simp: List.map_filter_def)
  moreover have "derive_process_name tools v \<noteq> []" using derived_nonempty[of v] read_proc_comm[OF assms(2)] by simp
  ultimately have "derive_process_name tools v \<in> set (ex_names (fold (extract_one tools) (List.map_filter read_proc sel) r))" for r
    using extract_names[of r tools "List.map_filter read_proc sel"] by blast
  then show ?thesis by (simp add: extract_fields_def Let_def)
qed

text \<open>C37: What the wizard writes is found again. For every process the user selects, one of the process names that are
  written to the configuration finds that very process by the exact match, be it a plain program or a script behind a shell
  or an interpreter, whatever else is running; provided the two readings of the process agree and its names carry no white
  space at their ends.\<close>
theorem discovered_is_found:
  assumes "f \<in> set sel" "read_proc f = Some v" "same_process v p" "p \<in> set procs"
    "strip (pv_exe v) = pv_exe v" "strip (derive_process_name tools v) = derive_process_name tools v"
  shows "\<exists>n\<in>set (ex_names (extract_fields tools sel name)). ps_pid p \<in> set (get_app_processes_by_exact_name tools procs n)"
proof
  let ?n = "derive_process_name tools v"
  show "?n \<in> set (ex_names (extract_fields tools sel name))" by (rule wizard_names[OF assms(1,2)])
  have "lower ?n \<noteq> []" using derived_nonempty[of v tools] read_proc_comm[OF assms(2)] by (simp add: lower_def)
  moreover have "ps_pid p \<in> ps_pid ` {x \<in> set procs. matches_exactly tools (lower ?n) x}"
    using own_name_matches[OF assms(2,3,5,6)] assms(4) by blast
  ultimately show "ps_pid p \<in> set (get_app_processes_by_exact_name tools procs ?n)"
    unfolding get_app_processes_by_exact_name_def assms(6) Let_def by simp
qed

definition script_files :: proc_files where
  \<comment> \<open>\<open>python3 -u /opt/app/server.py\<close>\<close>
  "script_files = \<lparr>pf_comm = ''python3'', pf_cmdline = ''python3'' @ [NUL] @ ''-u'' @ [NUL] @ ''/opt/app/server.py'' @ [NUL],
     pf_exe = ''/usr/bin/python3.12'', pf_status = [''PPid: 1''], pf_cgroup = [''0::/user.slice/app.slice/app-server.scope'']\<rparr>"

definition script_ps :: ps_proc where
  "script_ps = \<lparr>ps_pid = 700, ps_name = ''python3'', ps_exe = ''/usr/bin/python3.12'', ps_cmdline = [''python3'', ''-u'', ''/opt/app/server.py'']\<rparr>"

definition script_view :: proc_view where
  "script_view = \<lparr>pv_comm = ''python3'', pv_exe = ''/usr/bin/python3.12'', pv_argv0 = ''python3'',
     pv_tokens = [''python3'', ''-u'', ''/opt/app/server.py''], pv_pretty = ''python3 -u /opt/app/server.py'', pv_ppid = 1, pv_unit = ''app-server.scope''\<rparr>"

lemma script_read: "read_proc script_files = Some script_view"
  by code_simp

lemma script_same: "same_process script_view script_ps"
  by code_simp

theorem discovered_is_found_witness:
  "\<exists>n\<in>set (ex_names (extract_fields default_shell_tools [script_files] [])). 700 \<in> set (get_app_processes_by_exact_name default_shell_tools [script_ps] n)"
proof -
  have "strip (pv_exe script_view) = pv_exe script_view"
    "strip (derive_process_name default_shell_tools script_view) = derive_process_name default_shell_tools script_view"
    by code_simp+
  from discovered_is_found[OF _ script_read script_same _ this, of "[script_files]" "[script_ps]" "[]"]
  show ?thesis by (simp add: script_ps_def)
qed

text \<open>The score of a found process asks the name of its unit for the parts of its path, \<open>user-\<close> and \<open>user@\<close>, that the unit of
  an application never has: an application of the user's session is listed below a system service.\<close>

lemma session_app_ranks_low:
  "score_of (script_view\<lparr>pv_unit := ''app-org.gnome.Calculator-77.scope''\<rparr>) < score_of (script_view\<lparr>pv_unit := ''cron.service''\<rparr>)"
  by code_simp

end
