(* ===== verification/Top_Consumers.thy ===== *)
theory Top_Consumers
  imports Proc_Identity "HOL-Library.Multiset"
begin

text \<open>
  Which application weighs most: the accounting of \<open>io.stat\<close> (\<open>monitor/cgroup.py\<close>) and the ranking of
  \<open>ResourceMonitor\<close> (\<open>monitor/res_monitor.py\<close>), whose first entries the balancer limits. A pass over the processes, the two
  readings of a window, the members of a cgroup and the clock are arguments; a process that vanished or could not be read is
  none. A set is kept as a list in the order of insertion, so that only ties of the ranking depend on it. Rounding of the
  figures that are shown, log output and the sleeps are left out where they decide nothing.
\<close>

subsection \<open>Accounting of devices\<close>

record io_counts =
  ic_rbytes :: int
  ic_wbytes :: int
  ic_rios :: int
  ic_wios :: int

definition no_counts :: io_counts where
  "no_counts = \<lparr>ic_rbytes = 0, ic_wbytes = 0, ic_rios = 0, ic_wios = 0\<rparr>"

definition add_counts :: "io_counts \<Rightarrow> io_counts \<Rightarrow> io_counts" where
  "add_counts a b = \<lparr>ic_rbytes = ic_rbytes a + ic_rbytes b, ic_wbytes = ic_wbytes a + ic_wbytes b,
     ic_rios = ic_rios a + ic_rios b, ic_wios = ic_wios a + ic_wios b\<rparr>"

type_synonym devices = "(string \<times> io_counts) list"

definition field_of :: "string list \<Rightarrow> string \<Rightarrow> int option" where
  \<comment> \<open>the last token \<open>key=n\<close> whose value is a number\<close>
  "field_of tokens key =
     fold (\<lambda>tok acc. case partition_at CHR ''='' tok of
         (k, True, raw) \<Rightarrow> (if k = key then (case py_int raw of None \<Rightarrow> acc | Some n \<Rightarrow> Some n) else acc)
       | (k, False, raw) \<Rightarrow> acc) tokens None"

definition io_stat_line :: "string \<Rightarrow> devices \<Rightarrow> devices" where
  "io_stat_line line res =
     (case split_ws line of
        dev # a # r \<Rightarrow>
          (let get = field_of (a # r); n = (\<lambda>k. case get k of None \<Rightarrow> 0 | Some v \<Rightarrow> v)
           in if list_all (\<lambda>k. get k = None) [''rbytes'', ''wbytes'', ''rios'', ''wios''] then res
              else AList.update dev \<lparr>ic_rbytes = n ''rbytes'', ic_wbytes = n ''wbytes'', ic_rios = n ''rios'', ic_wios = n ''wios''\<rparr> res)
      | _ \<Rightarrow> res)"

definition read_cgroup_io_stat :: "string list option \<Rightarrow> devices option" where
  \<comment> \<open>the lines of the file, none when it could not be read\<close>
  "read_cgroup_io_stat file = map_option (\<lambda>ls. fold io_stat_line ls []) file"

definition snapshot_cgroup_io :: "(string \<Rightarrow> string list option) \<Rightarrow> string list \<Rightarrow> (string \<times> devices) list" where
  \<comment> \<open>the cgroups, each once\<close>
  "snapshot_cgroup_io files cgs =
     List.map_filter (\<lambda>cg. map_option (\<lambda>d. (cg, d)) (read_cgroup_io_stat (files cg))) cgs"

definition delta_counts :: "io_counts \<Rightarrow> io_counts \<Rightarrow> io_counts" where
  "delta_counts a b = \<lparr>ic_rbytes = max 0 (ic_rbytes b - ic_rbytes a), ic_wbytes = max 0 (ic_wbytes b - ic_wbytes a),
     ic_rios = max 0 (ic_rios b - ic_rios a), ic_wios = max 0 (ic_wios b - ic_wios a)\<rparr>"

definition device_deltas :: "devices \<Rightarrow> devices \<Rightarrow> devices" where
  "device_deltas d0 d1 =
     filter (\<lambda>(dev, c). c \<noteq> no_counts)
       (map (\<lambda>(dev, f1). (dev, delta_counts (case map_of d0 dev of None \<Rightarrow> no_counts | Some f0 \<Rightarrow> f0) f1)) d1)"

definition sum_counts :: "devices \<Rightarrow> io_counts" where
  "sum_counts ds = fold (\<lambda>(dev, c) acc. add_counts acc c) ds no_counts"

definition io_stat_deltas ::
  "real \<Rightarrow> (string \<times> devices) list \<Rightarrow> real \<Rightarrow> (string \<times> devices) list \<Rightarrow> real \<times> (string \<times> io_counts \<times> devices) list" where
  "io_stat_deltas t0 snap0 t1 snap1 =
     (if t1 - t0 \<le> 0 then (0, [])
      else (t1 - t0, List.map_filter (\<lambda>(cg, d1). case map_of snap0 cg of
          None \<Rightarrow> None
        | Some d0 \<Rightarrow> (let ds = device_deltas d0 d1; s = sum_counts ds in if s = no_counts then None else Some (cg, s, ds))) snap1))"

record dev_rates =
  ir_read_mb :: real
  ir_write_mb :: real
  ir_read_iops :: real
  ir_write_iops :: real

definition as_io_rates :: "io_counts \<Rightarrow> real \<Rightarrow> dev_rates" where
  "as_io_rates c elapsed =
     (if elapsed \<le> 0 then \<lparr>ir_read_mb = 0, ir_write_mb = 0, ir_read_iops = 0, ir_write_iops = 0\<rparr>
      else \<lparr>ir_read_mb = real_of_int (ic_rbytes c) / elapsed / 1024 ^ 2, ir_write_mb = real_of_int (ic_wbytes c) / elapsed / 1024 ^ 2,
            ir_read_iops = real_of_int (ic_rios c) / elapsed, ir_write_iops = real_of_int (ic_wios c) / elapsed\<rparr>)"

definition add_device :: "string \<Rightarrow> io_counts \<Rightarrow> devices \<Rightarrow> devices" where
  "add_device k c ds = AList.update k (add_counts (case map_of ds k of None \<Rightarrow> no_counts | Some d \<Rightarrow> d) c) ds"

definition per_disk_rates :: "(string \<Rightarrow> string) \<Rightarrow> devices \<Rightarrow> real \<Rightarrow> (string \<times> dev_rates) list" where
  \<comment> \<open>the first argument is \<open>disk_name_for_devno\<close>; the rates before they are rounded to four places\<close>
  "per_disk_rates disk_of ds elapsed =
     (if ds = [] \<or> elapsed \<le> 0 then []
      else map (\<lambda>(d, c). (d, as_io_rates c elapsed)) (fold (\<lambda>(dev, c) acc. add_device (disk_of dev) c acc) ds []))"

subsection \<open>Candidates\<close>

record scan_row =
  sr_pid :: nat
  sr_name :: string
  sr_cpu :: real
  sr_mem :: real
  sr_age :: real  \<comment> \<open>\<open>time.time() - create_time\<close>\<close>

record weights =
  wt_cpu :: real
  wt_mem :: real

definition adjust_weights_by_pressure :: "real \<Rightarrow> real \<Rightarrow> (string \<rightharpoonup> real) \<Rightarrow> weights" where
  \<comment> \<open>\<open>weights_top\<close> of the configuration\<close>
  "adjust_weights_by_pressure cpu mem psi = \<lparr>wt_cpu = cpu * (1 + dget psi ''cpu'' 0), wt_mem = mem * (1 + dget psi ''memory'' 0)\<rparr>"

definition named_in :: "string list \<Rightarrow> string \<Rightarrow> bool" where
  "named_in blacklist name \<longleftrightarrow> list_ex (\<lambda>b. contains (lower name) b) blacklist"

definition max_per_cgroup :: nat where "max_per_cgroup = 2"

fun diverse :: "('a \<Rightarrow> 'c) \<Rightarrow> nat \<Rightarrow> 'a list \<Rightarrow> 'a list \<Rightarrow> 'a list" where
  \<comment> \<open>at most two per cgroup, until there are enough; the third argument holds what has been picked\<close>
  "diverse cg num sel [] = sel"
| "diverse cg num sel (p # ps) =
     (if length (filter (\<lambda>q. cg q = cg p) sel) < max_per_cgroup
      then (let sel1 = sel @ [p] in if num \<le> length sel1 then sel1 else diverse cg num sel1 ps)
      else diverse cg num sel ps)"

definition group_key :: "(nat \<Rightarrow> string option) \<Rightarrow> nat \<Rightarrow> string + nat" where
  \<comment> \<open>\<open>get_cgroup_path_by_pid(pid) or str(pid)\<close>\<close>
  "group_key cgroup_of pid = (case cgroup_of pid of None \<Rightarrow> Inr pid | Some p \<Rightarrow> if p = [] then Inr pid else Inl p)"

definition fresh_rows :: "string list \<Rightarrow> nat list \<Rightarrow> scan_row list \<Rightarrow> scan_row list" where
  "fresh_rows blacklist seen rows = filter (\<lambda>r. sr_pid r \<notin> set seen \<and> \<not> named_in blacklist (sr_name r) \<and> \<not> sr_age r < 2) rows"

definition rank_score :: "weights \<Rightarrow> scan_row \<Rightarrow> real" where
  "rank_score w r = wt_cpu w * min (sr_cpu r) 100 + wt_mem w * min (sr_mem r) 100"

fun get_candidate_processes ::
  "(nat \<Rightarrow> string option) \<Rightarrow> string list \<Rightarrow> weights \<Rightarrow> nat \<Rightarrow> scan_row list list \<Rightarrow> nat list \<Rightarrow> scan_row list" where
  \<comment> \<open>one pass per sample, each process once in a pass; the last argument holds the processes seen in earlier passes\<close>
  "get_candidate_processes cgroup_of bl w num [] seen = []"
| "get_candidate_processes cgroup_of bl w num (rows # later) seen =
     (let now = fresh_rows bl seen rows
      in diverse (\<lambda>r. group_key cgroup_of (sr_pid r)) num [] (sort_key (\<lambda>r. - rank_score w r) now)
         @ get_candidate_processes cgroup_of bl w num later (seen @ map sr_pid now))"

record traffic_row =
  io_pid :: nat
  io_name :: string
  io_total :: int

definition io_scored :: "string list \<Rightarrow> traffic_row list \<Rightarrow> traffic_row list \<Rightarrow> (nat \<times> int) list" where
  "io_scored bl snap0 snap1 =
     (let s0 = map (\<lambda>r. (io_pid r, io_total r)) (filter (\<lambda>r. \<not> named_in bl (io_name r)) snap0)
      in List.map_filter (\<lambda>r. case map_of s0 (io_pid r) of None \<Rightarrow> None
            | Some start \<Rightarrow> if 0 < io_total r - start then Some (io_pid r, io_total r - start) else None)
           (filter (\<lambda>r. \<not> named_in bl (io_name r)) snap1))"

definition get_disk_io_candidate_processes ::
  "(nat \<Rightarrow> string option) \<Rightarrow> string list \<Rightarrow> nat \<Rightarrow> traffic_row list \<Rightarrow> traffic_row list \<Rightarrow> nat list" where
  "get_disk_io_candidate_processes cgroup_of bl num snap0 snap1 =
     map fst (diverse (\<lambda>x. group_key cgroup_of (fst x)) num [] (sort_key (\<lambda>x. - snd x) (io_scored bl snap0 snap1)))"

subsection \<open>Usage of a cgroup\<close>

record usage =
  us_cpu :: real
  us_mem :: real
  us_rss :: int
  us_io :: io_counts
  us_devices :: devices
  us_count :: nat
  us_pids :: "nat list"
  us_names :: "string list"
  us_cmds :: "string list"
  us_dom :: "(nat \<times> string \<times> string) option"  \<comment> \<open>\<open>dominant_*\<close>\<close>
  us_dom_metric :: real
  us_rep :: "(nat \<times> string \<times> string) option"  \<comment> \<open>\<open>representative_*\<close>\<close>
  us_rep_metric :: real
  us_extra :: "string list"  \<comment> \<open>\<open>extra_cgroups\<close>\<close>
  us_per_rss :: "(string \<times> int) list"
  us_per_cpu :: "(string \<times> real) list"

definition empty_usage :: usage where
  "empty_usage = \<lparr>us_cpu = 0, us_mem = 0, us_rss = 0, us_io = no_counts, us_devices = [], us_count = 0, us_pids = [], us_names = [],
     us_cmds = [], us_dom = None, us_dom_metric = 0, us_rep = None, us_rep_metric = 0, us_extra = [], us_per_rss = [], us_per_cpu = []\<rparr>"

record reading =
  rd_cpu :: real
  rd_mem :: real
  rd_rss :: int
  rd_io :: "io_counts option"  \<comment> \<open>none when the counters could not be read\<close>
  rd_name :: string  \<comment> \<open>empty when the name could not be read\<close>
  rd_cmd :: "string list"

definition union_new :: "'a list \<Rightarrow> 'a list \<Rightarrow> 'a list" where
  "union_new xs ys = xs @ filter (\<lambda>y. y \<notin> set xs) ys"

definition add_process :: "bool \<Rightarrow> (string \<Rightarrow> string \<Rightarrow> bool) \<Rightarrow> io_counts \<Rightarrow> nat \<Rightarrow> reading \<Rightarrow> usage \<Rightarrow> usage" where
  \<comment> \<open>whether the disks are ranked, what counts as a useful name, the counters at the start of the window\<close>
  "add_process io identifiable start pid rd u =
     (let cpu = (if io then 0 else rd_cpu rd); mem = (if io then 0 else rd_mem rd);
          d = (case rd_io rd of None \<Rightarrow> no_counts | Some e \<Rightarrow> delta_counts start e);
          name = rd_name rd;
          cmd = (if name = [] then [] else (let c = join_with '' '' (rd_cmd rd) in if c = [] then name else c));
          metric = (if io then real_of_int (ic_rbytes d + ic_wbytes d) else cpu);
          u1 = u\<lparr>us_cpu := us_cpu u + cpu, us_mem := us_mem u + mem, us_rss := us_rss u + rd_rss rd, us_io := add_counts (us_io u) d,
                 us_count := us_count u + 1, us_pids := union_new (us_pids u) [pid],
                 us_names := (if name = [] then us_names u else union_new (us_names u) [name]),
                 us_cmds := (if name = [] then us_cmds u else union_new (us_cmds u) [cmd])\<rparr>;
          u2 = (if us_dom_metric u < metric \<and> name \<noteq> [] then u1\<lparr>us_dom := Some (pid, name, cmd), us_dom_metric := metric\<rparr> else u1)
      in if identifiable name cmd \<and> us_rep_metric u < metric then u2\<lparr>us_rep := Some (pid, name, cmd), us_rep_metric := metric\<rparr> else u2)"

record rank_env =
  re_cgroup :: "nat \<Rightarrow> string option"  \<comment> \<open>\<open>get_cgroup_path_by_pid\<close>\<close>
  re_members :: "string \<Rightarrow> nat list"  \<comment> \<open>\<open>get_pids_in_cgroup\<close>\<close>
  re_self :: string  \<comment> \<open>\<open>_self_cgroup\<close> as resolved at init; empty when that failed, and then nothing is excluded by it\<close>
  re_table :: "(string \<times> string) list"  \<comment> \<open>\<open>_proc_name_to_app\<close>\<close>
  re_procs :: "ps_proc list"
  re_start :: "nat \<Rightarrow> io_counts option option"  \<comment> \<open>none for a process that is gone, then for counters that cannot be read\<close>
  re_end :: "string \<Rightarrow> nat \<Rightarrow> reading option"
  re_files0 :: "string \<Rightarrow> string list option"
  re_files1 :: "string \<Rightarrow> string list option"
  re_t0 :: real
  re_t1 :: real
  re_elapsed :: real
  re_cores :: real
  re_disk :: "string \<Rightarrow> string"
  re_match :: match_env

definition may_limit :: "rank_env \<Rightarrow> string \<Rightarrow> bool" where
  "may_limit e cg \<longleftrightarrow> cg \<noteq> [] \<and> cg \<noteq> ''/'' \<and> cg \<noteq> re_self e"

definition cgroup_for :: "rank_env \<Rightarrow> nat \<Rightarrow> string option" where
  \<comment> \<open>a cgroup that may be limited\<close>
  "cgroup_for e pid = (case re_cgroup e pid of None \<Rightarrow> None | Some cg \<Rightarrow> if may_limit e cg then Some cg else None)"

definition configured_cgroups :: "rank_env \<Rightarrow> (string \<times> string) list" where
  \<comment> \<open>\<open>multiapp_cgroup_to_app\<close>\<close>
  "configured_cgroups e =
     fold (\<lambda>p m. let i = app_id_for_process (me_tools (re_match e)) (re_table e) p in
            if i = [] then m else (case cgroup_for e (ps_pid p) of None \<Rightarrow> m | Some cg \<Rightarrow> AList.update cg i m)) (re_procs e) []"

definition ranked_cgroups :: "rank_env \<Rightarrow> nat list \<Rightarrow> string list" where
  \<comment> \<open>\<open>cgroup_paths\<close>\<close>
  "ranked_cgroups e candidates =
     union_new (rev (remdups (rev (List.map_filter (cgroup_for e) candidates)))) (map fst (configured_cgroups e))"

definition usage_in :: "bool \<Rightarrow> rank_env \<Rightarrow> string \<Rightarrow> usage option" where
  \<comment> \<open>none for a cgroup without a process that could be read\<close>
  "usage_in io e cg =
     (let read = List.map_filter (\<lambda>pid. case re_start e pid of
                     None \<Rightarrow> None
                   | Some st \<Rightarrow> map_option (\<lambda>rd. (pid, (case st of None \<Rightarrow> no_counts | Some c \<Rightarrow> c), rd)) (re_end e cg pid)) (re_members e cg)
      in if read = [] then None
         else Some (fold (\<lambda>(pid, st, rd) u. add_process io (is_identifiable_representative (me_tools (re_match e)) (me_shlex (re_match e))) st pid rd u) read empty_usage))"

definition with_devices :: "(string \<times> io_counts \<times> devices) list \<Rightarrow> string \<Rightarrow> usage \<Rightarrow> usage" where
  "with_devices counts cg u =
     (case map_of counts cg of None \<Rightarrow> u\<lparr>us_io := no_counts, us_devices := []\<rparr> | Some (c, ds) \<Rightarrow> u\<lparr>us_io := c, us_devices := ds\<rparr>)"

definition merge_usage :: "string \<Rightarrow> usage \<Rightarrow> usage \<Rightarrow> usage" where
  \<comment> \<open>the cgroup that is merged, its usage, the usage of the primary\<close>
  "merge_usage other d p =
     (let q = p\<lparr>us_cpu := us_cpu p + us_cpu d, us_mem := us_mem p + us_mem d, us_rss := us_rss p + us_rss d,
                us_io := add_counts (us_io p) (us_io d),
                us_devices := fold (\<lambda>(dev, c) acc. add_device dev c acc) (us_devices d) (us_devices p),
                us_count := us_count p + us_count d, us_pids := union_new (us_pids p) (us_pids d),
                us_names := union_new (us_names p) (us_names d), us_cmds := union_new (us_cmds p) (us_cmds d),
                us_extra := us_extra p @ [other]\<rparr>
      in if us_dom_metric p < us_dom_metric d then q\<lparr>us_dom := us_dom d, us_dom_metric := us_dom_metric d\<rparr> else q)"

definition merge_step :: "string \<Rightarrow> string \<Rightarrow> (string \<times> usage) list \<Rightarrow> (string \<times> usage) list" where
  "merge_step primary other data =
     (case map_of data other of
        None \<Rightarrow> data
      | Some d \<Rightarrow>
          if other = primary then data
          else AList.delete other (AList.update primary
                 (merge_usage other d (case map_of data primary of None \<Rightarrow> empty_usage | Some p \<Rightarrow> p)) data))"

definition per_unit :: "(usage \<Rightarrow> 'v) \<Rightarrow> string list \<Rightarrow> (string \<times> usage) list \<Rightarrow> (string \<times> 'v) list" where
  "per_unit f cgs data =
     fold (\<lambda>cg m. case map_of data cg of None \<Rightarrow> m | Some u \<Rightarrow> AList.update (base_of cg) (f u) m) cgs []"

definition merge_app :: "string list \<Rightarrow> (string \<times> usage) list \<Rightarrow> (string \<times> usage) list" where
  \<comment> \<open>the cgroups of one application\<close>
  "merge_app cgs data =
     (if length cgs \<le> 1 then data
      else (let primary = hd (sort cgs);
                data1 = fold (merge_step primary) cgs data;
                p = (case map_of data1 primary of None \<Rightarrow> empty_usage | Some p \<Rightarrow> p)
            in AList.update primary (p\<lparr>us_per_rss := per_unit us_rss cgs data, us_per_cpu := per_unit us_cpu cgs data\<rparr>) data1))"

definition app_groups :: "(string \<times> string) list \<Rightarrow> string list list" where
  "app_groups m = map (\<lambda>i. map fst (filter (\<lambda>x. snd x = i) m)) (rev (remdups (rev (map snd m))))"

definition cgroup_usage :: "bool \<Rightarrow> rank_env \<Rightarrow> nat list \<Rightarrow> (string \<times> usage) list" where
  \<comment> \<open>before the cgroups of one application are merged\<close>
  "cgroup_usage io e candidates =
     (let cgs = ranked_cgroups e candidates;
          counts = snd (io_stat_deltas (re_t0 e) (snapshot_cgroup_io (re_files0 e) cgs) (re_t1 e) (snapshot_cgroup_io (re_files1 e) cgs))
      in map (\<lambda>(cg, u). (cg, if io then with_devices counts cg u else u))
           (List.map_filter (\<lambda>cg. map_option (\<lambda>u. (cg, u)) (usage_in io e cg)) cgs))"

definition merged_usage :: "bool \<Rightarrow> rank_env \<Rightarrow> nat list \<Rightarrow> (string \<times> usage) list" where
  "merged_usage io e candidates = fold merge_app (app_groups (configured_cgroups e)) (cgroup_usage io e candidates)"

subsection \<open>The ranking\<close>

record consumer =
  co_cgroup :: string
  co_extra :: "string list"
  co_pids :: "nat list"
  co_score :: real
  co_cpu :: real
  co_mem :: real
  co_rss_gb :: real
  co_io :: dev_rates
  co_disks :: "(string \<times> dev_rates) list"
  co_names :: "string list"
  co_cmds :: "string list"
  co_pid :: "nat option"  \<comment> \<open>\<open>dominant_pid\<close>\<close>
  co_name :: string
  co_cmd :: string
  co_per_rss :: "(string \<times> int) list"
  co_per_cpu :: "(string \<times> real) list"

definition least_of :: "string \<Rightarrow> string list \<Rightarrow> string" where
  \<comment> \<open>\<open>min(xs, default=d)\<close>\<close>
  "least_of d xs = (case sort xs of [] \<Rightarrow> d | x # r \<Rightarrow> x)"

definition io_window :: "bool \<Rightarrow> rank_env \<Rightarrow> real" where
  \<comment> \<open>the window of \<open>io.stat\<close> is zero when its clock did not move\<close>
  "io_window io e =
     (let w = (if io then (if re_t1 e - re_t0 e \<le> 0 then 0 else re_t1 e - re_t0 e) else re_elapsed e)
      in if w \<le> 0 then (if re_elapsed e = 0 then 1 / 2 else re_elapsed e) else w)"

definition round_rates :: "nat \<Rightarrow> nat \<Rightarrow> dev_rates \<Rightarrow> dev_rates" where
  "round_rates a b r = \<lparr>ir_read_mb = py_round a (ir_read_mb r), ir_write_mb = py_round a (ir_write_mb r),
     ir_read_iops = py_round b (ir_read_iops r), ir_write_iops = py_round b (ir_write_iops r)\<rparr>"

definition plain_rates :: "io_counts \<Rightarrow> real \<Rightarrow> dev_rates" where
  "plain_rates c w = \<lparr>ir_read_mb = real_of_int (ic_rbytes c) / w / 1024 ^ 2, ir_write_mb = real_of_int (ic_wbytes c) / w / 1024 ^ 2,
     ir_read_iops = real_of_int (ic_rios c) / w, ir_write_iops = real_of_int (ic_wios c) / w\<rparr>"

definition usage_score :: "bool \<Rightarrow> weights \<Rightarrow> rank_env \<Rightarrow> usage \<Rightarrow> real" where
  "usage_score io w e u =
     (if io then (let r = plain_rates (us_io u) (io_window io e)
                  in ir_read_mb r + ir_write_mb r + (ir_read_iops r + ir_write_iops r) / 1000)
      else wt_cpu w * min (us_cpu u / re_cores e) 100 + wt_mem w * min (us_mem u) 100)"

definition consumer_of :: "bool \<Rightarrow> weights \<Rightarrow> rank_env \<Rightarrow> string \<Rightarrow> usage \<Rightarrow> consumer" where
  "consumer_of io w e cg u =
     (let dom_name = (case us_dom u of Some (pid, n, c) \<Rightarrow> n | None \<Rightarrow> least_of ''unknown'' (us_names u));
          dom_cmd = (case us_dom u of Some (pid, n, c) \<Rightarrow> c | None \<Rightarrow> least_of [] (us_cmds u))
      in \<lparr>co_cgroup = cg, co_extra = us_extra u, co_pids = us_pids u, co_score = py_round 2 (usage_score io w e u),
          co_cpu = (if io then 0 else py_round 1 (us_cpu u / re_cores e)), co_mem = (if io then 0 else py_round 1 (us_mem u)),
          co_rss_gb = py_round 2 (real_of_int (us_rss u) / 1024 ^ 3),
          co_io = round_rates 4 1 (plain_rates (us_io u) (io_window io e)),
          co_disks = map (\<lambda>(d, r). (d, round_rates 4 4 r)) (per_disk_rates (re_disk e) (us_devices u) (io_window io e)),
          co_names = us_names u, co_cmds = us_cmds u,
          co_pid = (case us_rep u of Some (pid, n, c) \<Rightarrow> Some pid | None \<Rightarrow> map_option fst (us_dom u)),
          co_name = (case us_rep u of Some (pid, n, c) \<Rightarrow> n | None \<Rightarrow> dom_name),
          co_cmd = (case us_rep u of Some (pid, n, c) \<Rightarrow> c | None \<Rightarrow> dom_cmd),
          co_per_rss = us_per_rss u, co_per_cpu = us_per_cpu u\<rparr>)"

definition get_top_processes :: "bool \<Rightarrow> weights \<Rightarrow> rank_env \<Rightarrow> nat \<Rightarrow> nat list \<Rightarrow> consumer list" where
  \<comment> \<open>the last argument holds the candidates; their number is \<open>max(3 n, 9)\<close>\<close>
  "get_top_processes io w e n candidates =
     take n (sort_key (\<lambda>c. - co_score c)
       (map (\<lambda>(cg, u). consumer_of io w e cg u) (filter (\<lambda>(cg, u). 0 < us_count u) (merged_usage io e candidates))))"

definition num_candidates :: "nat \<Rightarrow> nat" where "num_candidates n = max (n * 3) 9"

definition threshold_cpu_pct :: real where "threshold_cpu_pct = 25"
definition threshold_mem_fraction :: real where "threshold_mem_fraction = 1 / 4"

definition candidates_reach_threshold :: "real \<Rightarrow> consumer list \<Rightarrow> bool" where
  \<comment> \<open>the memory of the machine in GiB\<close>
  "candidates_reach_threshold total_gb cs =
     (case cs of [] \<Rightarrow> True
      | leader # r \<Rightarrow>
          (let bar = total_gb * threshold_mem_fraction in
           co_cpu leader \<ge> threshold_cpu_pct \<or> co_rss_gb leader \<ge> bar
           \<or> sum_list (map co_cpu cs) \<ge> threshold_cpu_pct \<or> sum_list (map co_rss_gb cs) \<ge> bar))"

record top_entry =
  te_pid :: "nat option"
  te_name :: string
  te_cmd :: string
  te_score :: real
  te_app :: "app_match option"
  te_cgroup :: string
  te_pids :: "nat list"
  te_extra :: "string list"
  te_per_rss :: "(string \<times> int) list"
  te_per_cpu :: "(string \<times> real) list"
  te_io :: dev_rates
  te_disks :: "(string \<times> dev_rates) list"

definition entry_of :: "consumer \<Rightarrow> app_match option \<Rightarrow> top_entry" where
  "entry_of c m =
     \<lparr>te_pid = (case co_pid c of Some p \<Rightarrow> Some p | None \<Rightarrow> (case co_pids c of [] \<Rightarrow> None | p # r \<Rightarrow> Some p)),
      te_name = co_name c, te_cmd = (if co_cmd c = [] then (case co_cmds c of [] \<Rightarrow> ''unknown'' | x # r \<Rightarrow> x) else co_cmd c),
      te_score = py_round 3 (co_score c), te_app = m, te_cgroup = co_cgroup c, te_pids = co_pids c,
      te_extra = map base_of (co_extra c), te_per_rss = co_per_rss c, te_per_cpu = co_per_cpu c, te_io = co_io c, te_disks = co_disks c\<rparr>"

fun entries_of :: "match_env \<Rightarrow> app_entry list \<Rightarrow> app_entry list \<Rightarrow> consumer list \<Rightarrow> py_error + top_entry list" where
  "entries_of m configured registered [] = Inr []"
| "entries_of m configured registered (c # cs) =
     bindE (try_match_app m configured registered \<lparr>gi_cgroup = co_cgroup c, gi_exe = [], gi_dominant = co_name c,
              gi_dominant_cmd = co_cmd c, gi_names = co_names c, gi_pids = co_pids c\<rparr>)
       (\<lambda>a. bindE (entries_of m configured registered cs) (\<lambda>es. Inr (entry_of c a # es)))"

definition get_top_resource_consumers ::
  "weights \<Rightarrow> rank_env \<Rightarrow> app_entry list \<Rightarrow> app_entry list \<Rightarrow> real \<Rightarrow> string list \<Rightarrow> scan_row list list \<Rightarrow> nat \<Rightarrow> py_error + top_entry list \<times> bool" where
  "get_top_resource_consumers w e configured registered total_gb bl scans n =
     (let cand = map sr_pid (get_candidate_processes (re_cgroup e) bl w (num_candidates n) scans []);
          cs = get_top_processes False w e n cand
      in bindE (entries_of (re_match e) configured registered cs) (\<lambda>es. Inr (es, candidates_reach_threshold total_gb cs)))"

definition get_top_disk_io_consumers ::
  "weights \<Rightarrow> rank_env \<Rightarrow> app_entry list \<Rightarrow> app_entry list \<Rightarrow> string list \<Rightarrow> traffic_row list \<Rightarrow> traffic_row list \<Rightarrow> nat \<Rightarrow> py_error + top_entry list" where
  "get_top_disk_io_consumers w e configured registered bl snap0 snap1 n =
     entries_of (re_match e) configured registered
       (get_top_processes True w e n (get_disk_io_candidate_processes (re_cgroup e) bl (num_candidates n) snap0 snap1))"

subsection \<open>Candidates are diverse and heavy\<close>

lemma diverse_picks:
  assumes "\<And>c. length (filter (\<lambda>q. cg q = c) sel) \<le> max_per_cgroup" "length sel < num"
  shows "length (filter (\<lambda>q. cg q = c) (diverse cg num sel ps)) \<le> max_per_cgroup \<and> length (diverse cg num sel ps) \<le> num
    \<and> set sel \<subseteq> set (diverse cg num sel ps) \<and> set (diverse cg num sel ps) \<subseteq> set sel \<union> set ps"
  using assms
proof (induction cg num sel ps rule: diverse.induct)
  case (1 cg num sel)
  then show ?case by simp
next
  case (2 cg num sel p ps)
  show ?case
  proof (cases "length (filter (\<lambda>q. cg q = cg p) sel) < max_per_cgroup")
    case True
    have cap: "length (filter (\<lambda>q. cg q = x) (sel @ [p])) \<le> max_per_cgroup" for x
      using True 2(3)[of x] by (cases "cg p = x") auto
    show ?thesis
    proof (cases "num \<le> length (sel @ [p])")
      case stop: True
      then show ?thesis using True cap[of c] 2(4) by (auto simp: Let_def)
    next
      case go: False
      then show ?thesis using True 2(1)[OF True refl go cap] by (auto simp: Let_def)
    qed
  next
    case False
    then show ?thesis using 2(2)[OF False 2(3,4)] by auto
  qed
qed

lemma diverse_extends: "\<exists>r. diverse cg num sel ps = sel @ r"
  by (induction cg num sel ps rule: diverse.induct) (auto simp: Let_def)

lemma diverse_keeps: "set sel \<subseteq> set (diverse cg num sel ps)"
  using diverse_extends[of cg num sel ps] by auto

lemma diverse_prefix: "length (filter P sel) \<le> length (filter P (diverse cg num sel ps))"
  using diverse_extends[of cg num sel ps] by auto

lemma diverse_greedy:
  assumes "length sel < num" "x \<in> set ps" "x \<notin> set (diverse cg num sel ps)"
    "sorted (map (\<lambda>p. - key p) (sel @ ps))"
  shows "(length (diverse cg num sel ps) = num \<and> (\<forall>q\<in>set (diverse cg num sel ps). key x \<le> (key q :: 'v :: linordered_ab_group_add)))
    \<or> max_per_cgroup \<le> length (filter (\<lambda>q. cg q = cg x \<and> key x \<le> key q) (diverse cg num sel ps))"
  using assms
proof (induction cg num sel ps rule: diverse.induct)
  case (1 cg num sel)
  then show ?case by simp
next
  case (2 cg num sel p ps)
  have earlier: "\<forall>q\<in>set (sel @ [p]). key x \<le> key q"
    using 2(4,6) by (auto simp: sorted_append)
  show ?case
  proof (cases "length (filter (\<lambda>q. cg q = cg p) sel) < max_per_cgroup")
    case True
    show ?thesis
    proof (cases "num \<le> length (sel @ [p])")
      case stop: True
      then have "diverse cg num sel (p # ps) = sel @ [p]" using True by simp
      then show ?thesis using earlier stop 2(3) by auto
    next
      case go: False
      then have d: "diverse cg num sel (p # ps) = diverse cg num (sel @ [p]) ps" using True by (simp add: Let_def)
      have "set (sel @ [p]) \<subseteq> set (diverse cg num (sel @ [p]) ps)"
        by (rule diverse_keeps)
      then have "x \<in> set ps" using 2(4,5) d by auto
      then show ?thesis using 2(1)[OF True refl go] 2(5,6) go unfolding d by simp
    qed
  next
    case False
    then have d: "diverse cg num sel (p # ps) = diverse cg num sel ps" by simp
    show ?thesis
    proof (cases "x = p")
      case True
      have "filter (\<lambda>q. cg q = cg x) sel = filter (\<lambda>q. cg q = cg x \<and> key x \<le> key q) sel"
        by (rule filter_cong[OF refl]) (use earlier in auto)
      then have "max_per_cgroup \<le> length (filter (\<lambda>q. cg q = cg x \<and> key x \<le> key q) sel)" using False True by simp
      moreover have "length (filter (\<lambda>q. cg q = cg x \<and> key x \<le> key q) sel)
          \<le> length (filter (\<lambda>q. cg q = cg x \<and> key x \<le> key q) (diverse cg num sel ps))"
        by (rule diverse_prefix)
      ultimately show ?thesis unfolding d by linarith
    next
      case other: False
      then show ?thesis using 2(2)[OF False 2(3)] 2(4,5,6) unfolding d by (simp add: sorted_append)
    qed
  qed
qed

text \<open>C38: The candidates of the disks are the heavy writers, with room for others: at most the number asked for, at most two of one
  cgroup, each with its traffic in the window; and a process with traffic is only left out when the list is full of processes
  with at least as much, or two of its own cgroup with at least as much are on it. So the heaviest process is always on it.\<close>
theorem disk_candidates_sound:
  fixes bl snap0 snap1 cgroup_of
  assumes "0 < num"
  defines "active \<equiv> io_scored bl snap0 snap1"
  defines "picked \<equiv> get_disk_io_candidate_processes cgroup_of bl num snap0 snap1"
  shows "\<exists>P. picked = map fst P \<and> set P \<subseteq> set active \<and> length P \<le> num
    \<and> (\<forall>c. length (filter (\<lambda>q. group_key cgroup_of (fst q) = c) P) \<le> max_per_cgroup)
    \<and> (\<forall>x\<in>set active. x \<in> set P
        \<or> length P = num \<and> (\<forall>q\<in>set P. snd x \<le> snd q)
        \<or> max_per_cgroup \<le> length (filter (\<lambda>q. group_key cgroup_of (fst q) = group_key cgroup_of (fst x) \<and> snd x \<le> snd q) P))"
proof (intro exI conjI)
  let ?cg = "\<lambda>x. group_key cgroup_of (fst x)" and ?ps = "sort_key (\<lambda>x. - snd x) active"
  let ?P = "diverse ?cg num [] ?ps"
  have basic: "length (filter (\<lambda>q. ?cg q = c) ?P) \<le> max_per_cgroup \<and> length ?P \<le> num \<and> set [] \<subseteq> set ?P \<and> set ?P \<subseteq> set [] \<union> set ?ps" for c
    by (rule diverse_picks) (use assms(1) in simp_all)
  show "picked = map fst ?P" by (simp add: picked_def get_disk_io_candidate_processes_def active_def)
  show "set ?P \<subseteq> set active" using basic by simp
  show "length ?P \<le> num" using basic by blast
  show "\<forall>c. length (filter (\<lambda>q. ?cg q = c) ?P) \<le> max_per_cgroup" using basic by blast
  show "\<forall>x\<in>set active. x \<in> set ?P \<or> length ?P = num \<and> (\<forall>q\<in>set ?P. snd x \<le> snd q)
      \<or> max_per_cgroup \<le> length (filter (\<lambda>q. ?cg q = ?cg x \<and> snd x \<le> snd q) ?P)"
  proof
    fix x assume x: "x \<in> set active"
    show "x \<in> set ?P \<or> length ?P = num \<and> (\<forall>q\<in>set ?P. snd x \<le> snd q)
      \<or> max_per_cgroup \<le> length (filter (\<lambda>q. ?cg q = ?cg x \<and> snd x \<le> snd q) ?P)"
      using diverse_greedy[of "[]" num x ?ps ?cg snd] x assms(1) by auto
  qed
qed

subsection \<open>Merging conserves usage\<close>

definition amount :: "(string \<Rightarrow> usage \<Rightarrow> 'a :: comm_monoid_add) \<Rightarrow> (string \<times> usage) list \<Rightarrow> 'a" where
  "amount g data = sum_list (map (\<lambda>(k, u). g k u) data)"

lemma amount_delete:
  "distinct (map fst al) \<Longrightarrow> map_of al k = Some v \<Longrightarrow> amount g al = g k v + amount g (AList.delete k al)"
proof (induction al)
  case (Cons x al)
  obtain a b where x: "x = (a, b)" by (cases x)
  show ?case
  proof (cases "a = k")
    case True
    then have "k \<notin> fst ` set al" using Cons.prems x by auto
    then show ?thesis using True Cons.prems x by (simp add: amount_def)
  next
    case False
    then show ?thesis using Cons x by (simp add: amount_def add.left_commute)
  qed
qed simp

lemma amount_update:
  "distinct (map fst al) \<Longrightarrow> amount g (AList.update k v al) = g k v + amount g (AList.delete k al)"
  using amount_delete[OF distinct_update, of al k v k v g] by (simp add: update_conv' delete_update_same)

definition base_amount :: "(string \<Rightarrow> usage \<Rightarrow> 'a :: comm_monoid_add) \<Rightarrow> string \<Rightarrow> (string \<times> usage) list \<Rightarrow> 'a" where
  \<comment> \<open>what a cgroup that is not in the table adds when it is created\<close>
  "base_amount g k data = (if map_of data k = None then g k empty_usage else 0)"

definition merges :: "(string \<Rightarrow> usage \<Rightarrow> 'a :: cancel_comm_monoid_add) \<Rightarrow> bool" where
  \<comment> \<open>an amount that merging adds up\<close>
  "merges g \<longleftrightarrow>
     (\<forall>k p o' d. us_extra d = [] \<longrightarrow> g k (merge_usage o' d p) = g k p + g o' d)
     \<and> (\<forall>k p a b. g k (p\<lparr>us_per_rss := a, us_per_cpu := b\<rparr>) = g k p)"

lemma merge_step_keys: "distinct (map fst data) \<Longrightarrow> distinct (map fst (merge_step primary other data))"
  by (auto simp: merge_step_def distinct_update distinct_delete split: option.split)

lemma merge_step_other: "cg \<noteq> primary \<Longrightarrow> cg \<noteq> other \<Longrightarrow> map_of (merge_step primary other data) cg = map_of data cg"
  by (simp add: merge_step_def update_conv' split: option.split)

lemma merge_step_primary: "map_of data primary \<noteq> None \<Longrightarrow> map_of (merge_step primary other data) primary \<noteq> None"
  by (auto simp: merge_step_def update_conv' split: option.split)

lemma merge_step_amount:
  assumes "merges g" "distinct (map fst data)" "\<And>d. map_of data other = Some d \<Longrightarrow> other \<noteq> primary \<Longrightarrow> us_extra d = []"
  shows "amount g (merge_step primary other data) + base_amount g primary (merge_step primary other data)
       = amount g data + base_amount g primary data"
proof (cases "map_of data other = None \<or> other = primary")
  case True
  then show ?thesis by (auto simp: merge_step_def split: option.split)
next
  case False
  then obtain d where d: "map_of data other = Some d" and ne: "other \<noteq> primary" by auto
  define p where "p = (case map_of data primary of None \<Rightarrow> empty_usage | Some p \<Rightarrow> p)"
  define up where "up = AList.update primary (merge_usage other d p) data"
  have step: "merge_step primary other data = AList.delete other up" using d ne by (simp add: merge_step_def up_def p_def)
  have du: "distinct (map fst up)" unfolding up_def by (rule distinct_update) (rule assms(2))
  have "map_of up other = Some d" using d ne by (simp add: up_def update_conv')
  then have a: "amount g up = g other d + amount g (AList.delete other up)" by (rule amount_delete[OF du])
  have "us_extra d = []" using assms(3) d ne by blast
  then have m: "g primary (merge_usage other d p) = g primary p + g other d" using assms(1) by (simp add: merges_def)
  have b: "amount g up = g primary p + g other d + amount g (AList.delete primary data)"
    unfolding up_def amount_update[OF assms(2)] m by (rule refl)
  have c: "amount g data + base_amount g primary data = g primary p + amount g (AList.delete primary data)"
  proof (cases "map_of data primary")
    case None
    then have "primary \<notin> fst ` set data" by (simp add: map_of_eq_None_iff)
    then show ?thesis using None by (simp add: base_amount_def p_def add.commute)
  next
    case (Some q)
    then show ?thesis using amount_delete[OF assms(2) Some, of g] by (simp add: base_amount_def p_def)
  qed
  have "map_of (AList.delete other up) primary \<noteq> None" using ne by (simp add: up_def update_conv')
  then have z: "base_amount g primary (AList.delete other up) = 0" by (auto simp: base_amount_def)
  have "g other d + amount g (AList.delete other up) = g other d + (g primary p + amount g (AList.delete primary data))"
    using a b by (simp add: add.assoc add.left_commute)
  then have "amount g (AList.delete other up) = g primary p + amount g (AList.delete primary data)" by simp
  then show ?thesis unfolding step z c by simp
qed

lemma merge_fold:
  assumes "merges g" "distinct (map fst data)" "distinct cgs"
    "\<And>cg d. cg \<in> set cgs \<Longrightarrow> cg \<noteq> primary \<Longrightarrow> map_of data cg = Some d \<Longrightarrow> us_extra d = []"
  shows "distinct (map fst (fold (merge_step primary) cgs data)) \<and>
    amount g (fold (merge_step primary) cgs data) + base_amount g primary (fold (merge_step primary) cgs data)
      = amount g data + base_amount g primary data
    \<and> (\<forall>cg. cg \<noteq> primary \<longrightarrow> cg \<notin> set cgs \<longrightarrow> map_of (fold (merge_step primary) cgs data) cg = map_of data cg)"
  using assms(2,3,4)
proof (induction cgs arbitrary: data)
  case Nil
  then show ?case by simp
next
  case (Cons o' cgs)
  let ?d = "merge_step primary o' data"
  have keys: "distinct (map fst ?d)" by (rule merge_step_keys[OF Cons.prems(1)])
  have extra: "us_extra d = []" if c: "cg \<in> set cgs" "cg \<noteq> primary" "map_of ?d cg = Some d" for cg d
  proof -
    have "cg \<noteq> o'" using c(1) Cons.prems(2) by auto
    then show ?thesis using c merge_step_other[of cg primary o' data] Cons.prems(3)[of cg d] by auto
  qed
  have here: "amount g ?d + base_amount g primary ?d = amount g data + base_amount g primary data"
    by (rule merge_step_amount[OF assms(1) Cons.prems(1)]) (use Cons.prems(3) in auto)
  have other: "cg \<noteq> primary \<Longrightarrow> cg \<notin> set (o' # cgs) \<Longrightarrow> map_of ?d cg = map_of data cg" for cg
    by (rule merge_step_other) auto
  show ?case using Cons.IH[OF keys _ extra] Cons.prems(2) here other by simp
qed

definition primary_of :: "string list \<Rightarrow> string" where "primary_of cgs = hd (sort cgs)"

lemma primary_in: "cgs \<noteq> [] \<Longrightarrow> primary_of cgs \<in> set cgs"
  using hd_in_set[of "sort cgs"] unfolding primary_of_def by (cases "sort cgs = []") (simp_all flip: set_empty)

lemma primary_mem: "\<not> length cgs \<le> 1 \<Longrightarrow> primary_of cgs \<in> set cgs"
  by (rule primary_in) auto

lemma merge_app_law:
  assumes "merges g" "distinct (map fst data)" "distinct cgs"
    "\<And>cg d. cg \<in> set cgs \<Longrightarrow> map_of data cg = Some d \<Longrightarrow> us_extra d = []"
  shows "distinct (map fst (merge_app cgs data)) \<and>
    amount g (merge_app cgs data) = amount g data + (if length cgs \<le> 1 then 0 else base_amount g (primary_of cgs) data)
    \<and> (\<forall>cg. cg \<notin> set cgs \<longrightarrow> map_of (merge_app cgs data) cg = map_of data cg)"
proof (cases "length cgs \<le> 1")
  case True
  then show ?thesis using assms(2) by (simp add: merge_app_def)
next
  case False
  let ?k = "primary_of cgs"
  define data1 where "data1 = fold (merge_step ?k) cgs data"
  define p where "p = (case map_of data1 ?k of None \<Rightarrow> empty_usage | Some p \<Rightarrow> p)"
  define q where "q = p\<lparr>us_per_rss := per_unit us_rss cgs data, us_per_cpu := per_unit us_cpu cgs data\<rparr>"
  have app: "merge_app cgs data = AList.update ?k q data1"
    using False by (simp add: merge_app_def Let_def data1_def p_def q_def primary_of_def)
  have law: "distinct (map fst data1)" "amount g data1 + base_amount g ?k data1 = amount g data + base_amount g ?k data"
    "\<And>cg. cg \<noteq> ?k \<Longrightarrow> cg \<notin> set cgs \<Longrightarrow> map_of data1 cg = map_of data cg"
    using merge_fold[OF assms(1,2,3), of ?k] assms(4) unfolding data1_def by blast+
  have gq: "g ?k q = g ?k p" using assms(1) by (simp add: merges_def q_def)
  have "amount g (AList.update ?k q data1) = amount g data1 + base_amount g ?k data1"
  proof (cases "map_of data1 ?k")
    case None
    then have "?k \<notin> fst ` set data1" by (simp add: map_of_eq_None_iff)
    then show ?thesis using None amount_update[OF law(1), of g ?k q] gq by (simp add: base_amount_def p_def add.commute)
  next
    case (Some u)
    then show ?thesis using amount_delete[OF law(1) Some, of g] amount_update[OF law(1), of g ?k q] gq
      by (simp add: base_amount_def p_def)
  qed
  moreover have "?k \<in> set cgs" by (rule primary_in) (use False in auto)
  ultimately show ?thesis
    using False law distinct_update[OF law(1), of ?k q] unfolding app by (auto simp: update_conv')
qed

lemma merge_apps_law:
  assumes "merges g" "distinct (map fst data)" "distinct (concat gs)"
    "\<And>cg d. cg \<in> set (concat gs) \<Longrightarrow> map_of data cg = Some d \<Longrightarrow> us_extra d = []"
  shows "distinct (map fst (fold merge_app gs data)) \<and>
    amount g (fold merge_app gs data)
      = amount g data + sum_list (map (\<lambda>c. if length c \<le> 1 then 0 else base_amount g (primary_of c) data) gs)"
  using assms(2-)
proof (induction gs arbitrary: data)
  case Nil
  then show ?case by simp
next
  case (Cons c gs)
  let ?d = "merge_app c data"
  have dc: "distinct c" using Cons.prems(2) by simp
  have ec: "us_extra d = []" if "cg \<in> set c" "map_of data cg = Some d" for cg d
    using Cons.prems(3)[of cg d] that by simp
  have app_law: "distinct (map fst ?d) \<and> amount g ?d = amount g data + (if length c \<le> 1 then 0 else base_amount g (primary_of c) data)
      \<and> (\<forall>cg. cg \<notin> set c \<longrightarrow> map_of ?d cg = map_of data cg)"
    by (rule merge_app_law[OF assms(1) Cons.prems(1) dc]) (erule ec, assumption)
  have law: "distinct (map fst ?d)"
    "amount g ?d = amount g data + (if length c \<le> 1 then 0 else base_amount g (primary_of c) data)"
    "\<And>cg. cg \<notin> set c \<Longrightarrow> map_of ?d cg = map_of data cg"
    using app_law by blast+
  have apart: "cg \<notin> set c" if "cg \<in> set (concat gs)" for cg using that Cons.prems(2) by auto
  have same: "base_amount g (primary_of x) ?d = base_amount g (primary_of x) data" if "x \<in> set gs" "\<not> length x \<le> 1" for x
  proof -
    have "primary_of x \<in> set (concat gs)" using primary_mem[OF that(2)] that(1) by auto
    then show ?thesis using law(3)[OF apart] by (simp add: base_amount_def)
  qed
  have sums: "map (\<lambda>x. if length x \<le> 1 then 0 else base_amount g (primary_of x) ?d) gs
      = map (\<lambda>x. if length x \<le> 1 then 0 else base_amount g (primary_of x) data) gs"
    by (rule map_cong[OF refl]) (simp add: same)
  have ext: "us_extra d = []" if "cg \<in> set (concat gs)" "map_of ?d cg = Some d" for cg d
    using that Cons.prems(3)[of cg d] law(3)[OF apart[OF that(1)]] by auto
  have "distinct (map fst (fold merge_app gs ?d)) \<and> amount g (fold merge_app gs ?d)
      = amount g ?d + sum_list (map (\<lambda>x. if length x \<le> 1 then 0 else base_amount g (primary_of x) ?d) gs)"
    by (rule Cons.IH[OF law(1)]) (use Cons.prems(2) ext in auto)
  then show ?case unfolding sums law(2) by (simp add: add.assoc)
qed

lemma groups_distinct:
  "distinct ids \<Longrightarrow> distinct (map fst m) \<Longrightarrow> distinct (concat (map (\<lambda>i. map fst (filter (\<lambda>x. snd x = i) m)) ids))"
proof (induction ids)
  case Nil
  then show ?case by simp
next
  case (Cons i ids)
  have d: "distinct (map fst (filter (\<lambda>x. snd x = i) m))" using Cons.prems(2) by (simp add: distinct_map inj_on_def)
  have "fst x \<noteq> fst y" if "x \<in> set m" "y \<in> set m" "snd x \<noteq> snd y" for x y
    using that Cons.prems(2) by (metis eq_key_imp_eq_value prod.collapse)
  then show ?case using Cons d by fastforce
qed

lemma app_groups_distinct: "distinct (map fst m) \<Longrightarrow> distinct (concat (app_groups m))"
  unfolding app_groups_def by (rule groups_distinct) simp_all

lemma app_groups_keys: "set (concat (app_groups m)) \<subseteq> fst ` set m"
  by (auto simp: app_groups_def)

lemma configured_law:
  "distinct (map fst (configured_cgroups e)) \<and> list_all (may_limit e) (map fst (configured_cgroups e))"
proof -
  define f where "f = (\<lambda>p m. let i = app_id_for_process (me_tools (re_match e)) (re_table e) p in
    if i = [] then m else (case cgroup_for e (ps_pid p) of None \<Rightarrow> m | Some cg \<Rightarrow> AList.update cg i m))"
  have step: "distinct (map fst (f p m)) \<and> list_all (may_limit e) (map fst (f p m))"
    if "distinct (map fst m)" "list_all (may_limit e) (map fst m)" for p m
  proof (cases "app_id_for_process (me_tools (re_match e)) (re_table e) p = [] \<or> cgroup_for e (ps_pid p) = None")
    case True
    then show ?thesis using that by (auto simp: f_def Let_def)
  next
    case False
    then obtain cg where cg: "cgroup_for e (ps_pid p) = Some cg" by auto
    then have "may_limit e cg" by (auto simp: cgroup_for_def split: option.splits if_splits)
    then show ?thesis
      using False that cg by (simp add: f_def Let_def distinct_update list_all_iff dom_update)
  qed
  have "distinct (map fst (fold f ps m)) \<and> list_all (may_limit e) (map fst (fold f ps m))"
    if "distinct (map fst m)" "list_all (may_limit e) (map fst m)" for ps m
    using that by (induction ps arbitrary: m) (simp_all add: step)
  from this[of "[]" "re_procs e"] show ?thesis by (simp add: configured_cgroups_def f_def)
qed

lemma ranked_law: "distinct (ranked_cgroups e cand) \<and> list_all (may_limit e) (ranked_cgroups e cand)"
proof -
  have "list_all (may_limit e) (List.map_filter (cgroup_for e) cand)"
    by (auto simp: list_all_iff List.map_filter_def cgroup_for_def split: option.splits if_splits)
  then show ?thesis using configured_law[of e] by (auto simp: ranked_cgroups_def union_new_def list_all_iff)
qed

lemma configured_ranked: "fst ` set (configured_cgroups e) \<subseteq> set (ranked_cgroups e cand)"
  by (auto simp: ranked_cgroups_def union_new_def)

lemma add_process_extra: "us_extra (add_process io f st pid rd u) = us_extra u"
  by (simp add: add_process_def Let_def)

lemma usage_extra: "usage_in io e cg = Some u \<Longrightarrow> us_extra u = []"
proof -
  have "us_extra (fold (\<lambda>(pid, st, rd) u. add_process io f st pid rd u) xs u) = us_extra u" for f xs u
    by (induction xs arbitrary: u) (auto simp: add_process_extra)
  then show "usage_in io e cg = Some u \<Longrightarrow> us_extra u = []"
    by (auto simp: usage_in_def Let_def empty_usage_def split: if_splits)
qed

lemma before_law:
  "distinct (map fst (cgroup_usage io e cand)) \<and> set (map fst (cgroup_usage io e cand)) \<subseteq> set (ranked_cgroups e cand)
   \<and> (\<forall>(cg, u)\<in>set (cgroup_usage io e cand). us_extra u = [])"
proof -
  define cs where "cs = ranked_cgroups e cand"
  define h where "h = (\<lambda>cg. map_option (\<lambda>u. (cg, u)) (usage_in io e cg))"
  have keys: "map fst (List.map_filter h xs) = filter (\<lambda>cg. usage_in io e cg \<noteq> None) xs" for xs
    by (induction xs) (auto simp: List.map_filter_simps h_def split: option.splits)
  have extra: "us_extra u = []" if "(cg, u) \<in> set (List.map_filter h cs)" for cg u
    using that usage_extra by (force simp: List.map_filter_def h_def)
  have fst_map: "map fst (map (\<lambda>(cg, u). (cg, f cg u)) xs) = map fst xs" for f :: "string \<Rightarrow> usage \<Rightarrow> usage" and xs
    by (induction xs) auto
  have w: "us_extra (if io then with_devices c cg u else u) = us_extra u" for c cg u
    by (simp add: with_devices_def split: option.split)
  have d: "distinct (filter (\<lambda>cg. usage_in io e cg \<noteq> None) cs)" using ranked_law[of e cand] by (simp add: cs_def)
  show ?thesis
    using d extra unfolding cgroup_usage_def Let_def fst_map h_def[symmetric] cs_def[symmetric] keys by (auto simp: w)
qed

definition covers :: "(string \<times> usage) list \<Rightarrow> string list" where
  \<comment> \<open>the cgroups a table stands for\<close>
  "covers data = concat (map (\<lambda>(cg, u). cg # us_extra u) data)"

lemma covers_amount: "mset (covers data) = amount (\<lambda>k u. mset (k # us_extra u)) data"
  by (induction data) (auto simp: covers_def amount_def)

lemma merge_usage_sums:
  "us_cpu (merge_usage k d p) = us_cpu p + us_cpu d" "us_mem (merge_usage k d p) = us_mem p + us_mem d"
  "us_rss (merge_usage k d p) = us_rss p + us_rss d" "us_count (merge_usage k d p) = us_count p + us_count d"
  "us_io (merge_usage k d p) = add_counts (us_io p) (us_io d)" "us_extra (merge_usage k d p) = us_extra p @ [k]"
  by (simp_all add: merge_usage_def Let_def)

lemma merged_amount:
  assumes "merges g"
  shows "amount g (merged_usage io e cand) = amount g (cgroup_usage io e cand)
    + sum_list (map (\<lambda>c. if length c \<le> 1 then 0 else base_amount g (primary_of c) (cgroup_usage io e cand))
        (app_groups (configured_cgroups e)))"
proof -
  have "us_extra d = []" if "map_of (cgroup_usage io e cand) cg = Some d" for cg d
    using before_law[of io e cand] map_of_SomeD[OF that] by auto
  then show ?thesis
    unfolding merged_usage_def
    using merge_apps_law[OF assms, of "cgroup_usage io e cand" "app_groups (configured_cgroups e)"]
      before_law[of io e cand] app_groups_distinct configured_law[of e] by blast
qed

lemma merged_total:
  assumes "merges (\<lambda>k u. f u)" "f empty_usage = 0"
  shows "sum_list (map (\<lambda>x. f (snd x)) (merged_usage io e cand)) = sum_list (map (\<lambda>x. f (snd x)) (cgroup_usage io e cand))"
proof -
  have z: "(\<lambda>c :: string list. if length c \<le> 1 then 0 else base_amount (\<lambda>k u. f u) (primary_of c) d) = (\<lambda>c. 0)" for d
    using assms(2) by (simp add: base_amount_def fun_eq_iff)
  have a: "amount (\<lambda>k u. f u) d = sum_list (map (\<lambda>x. f (snd x)) d)" for d
    unfolding amount_def by (induction d) auto
  show ?thesis using merged_amount[OF assms(1), of io e cand] unfolding z a by simp
qed

lemma merges_covers: "merges (\<lambda>k u. mset (k # us_extra u))"
  by (simp add: merges_def merge_usage_sums)

definition created :: "(string \<times> usage) list \<Rightarrow> string list list \<Rightarrow> string list" where
  \<comment> \<open>primaries without a readable process of their own\<close>
  "created data gs = map primary_of (filter (\<lambda>c. \<not> length c \<le> 1 \<and> map_of data (primary_of c) = None) gs)"

lemma created_sum:
  "sum_list (map (\<lambda>c. if length c \<le> 1 then 0 else base_amount (\<lambda>k u. mset (k # us_extra u)) (primary_of c) data) gs) = mset (created data gs)"
  by (induction gs) (auto simp: created_def base_amount_def empty_usage_def)

lemma created_in: "set (created data gs) \<subseteq> set (concat gs)"
proof
  fix x assume "x \<in> set (created data gs)"
  then obtain c where "c \<in> set gs" "\<not> length c \<le> 1" "x = primary_of c" by (auto simp: created_def)
  then show "x \<in> set (concat gs)" using primary_mem[of c] by auto
qed

lemma created_distinct: "distinct (concat gs) \<Longrightarrow> distinct (created data gs)"
proof (induction gs)
  case (Cons c gs)
  have "primary_of c \<notin> set (created data gs)" if "\<not> length c \<le> 1"
    using created_in[of data gs] primary_mem[OF that] Cons.prems by auto
  then show ?case using Cons by (simp add: created_def)
qed (simp add: created_def)

lemma merged_covers:
  fixes e io cand
  defines "gs \<equiv> app_groups (configured_cgroups e)"
  shows "mset (covers (merged_usage io e cand)) = mset (map fst (cgroup_usage io e cand) @ created (cgroup_usage io e cand) gs)
    \<and> distinct (map fst (cgroup_usage io e cand) @ created (cgroup_usage io e cand) gs)
    \<and> set (created (cgroup_usage io e cand) gs) \<subseteq> set (ranked_cgroups e cand)"
proof (intro conjI)
  let ?b = "cgroup_usage io e cand"
  have "covers d = map fst d" if "\<forall>(cg, u)\<in>set d. us_extra u = []" for d
    using that by (induction d) (auto simp: covers_def)
  then have b: "covers ?b = map fst ?b" using before_law[of io e cand] by blast
  show "mset (covers (merged_usage io e cand)) = mset (map fst ?b @ created ?b gs)"
    using merged_amount[OF merges_covers, of io e cand] unfolding covers_amount[symmetric] created_sum b gs_def by simp
  have gd: "distinct (concat gs)" unfolding gs_def using app_groups_distinct configured_law by blast
  have "map_of ?b x = None" if "x \<in> set (created ?b gs)" for x using that by (auto simp: created_def)
  then show "distinct (map fst ?b @ created ?b gs)"
    using before_law[of io e cand] created_distinct[OF gd, of ?b] by (auto simp: map_of_eq_None_iff)
  show "set (created ?b gs) \<subseteq> set (ranked_cgroups e cand)"
    using created_in[of ?b gs] app_groups_keys[of "configured_cgroups e"] configured_ranked[of e cand] unfolding gs_def by blast
qed

text \<open>C39: Merging the cgroups of one application neither loses usage nor counts it twice: the processor time, the memory, the
  processes and the four device counters of the table add up to the same totals before and after, every cgroup with a process
  is still there, as an entry of its own or as one of the cgroups of an entry, and none is there twice.\<close>
theorem merging_conserves_usage:
  fixes io e cand
  defines "before \<equiv> cgroup_usage io e cand" and "after \<equiv> merged_usage io e cand"
  defines "tot \<equiv> (\<lambda>f :: usage \<Rightarrow> int. \<lambda>data. sum_list (map (\<lambda>x. f (snd x)) data))"
  shows "distinct (covers after) \<and> set (map fst before) \<subseteq> set (covers after)
    \<and> sum_list (map (\<lambda>x. us_cpu (snd x)) after) = sum_list (map (\<lambda>x. us_cpu (snd x)) before)
    \<and> sum_list (map (\<lambda>x. us_mem (snd x)) after) = sum_list (map (\<lambda>x. us_mem (snd x)) before)
    \<and> tot us_rss after = tot us_rss before \<and> tot (\<lambda>u. int (us_count u)) after = tot (\<lambda>u. int (us_count u)) before
    \<and> tot (\<lambda>u. ic_rbytes (us_io u)) after = tot (\<lambda>u. ic_rbytes (us_io u)) before
    \<and> tot (\<lambda>u. ic_wbytes (us_io u)) after = tot (\<lambda>u. ic_wbytes (us_io u)) before
    \<and> tot (\<lambda>u. ic_rios (us_io u)) after = tot (\<lambda>u. ic_rios (us_io u)) before
    \<and> tot (\<lambda>u. ic_wios (us_io u)) after = tot (\<lambda>u. ic_wios (us_io u)) before"
proof (intro conjI)
  note mc = merged_covers[of io e cand]
  show "distinct (covers after)" unfolding after_def using mc mset_eq_imp_distinct_iff by blast
  have "set (covers after) = set (map fst before @ created before (app_groups (configured_cgroups e)))"
    unfolding after_def before_def using mc mset_eq_setD by blast
  then show "set (map fst before) \<subseteq> set (covers after)" by simp
qed (unfold after_def before_def tot_def, (rule merged_total; simp add: merges_def merge_usage_sums empty_usage_def no_counts_def add_counts_def)+)

text \<open>C40: Neither the root cgroup nor the one of the service itself is ever handed to the balancer, neither as the cgroup of a
  consumer nor among the further cgroups of one, whatever processes run in them. The cgroup of the service is the one it resolved at its
  start (\<open>_self_cgroup\<close>, an argument of the model); when that failed it is empty, and only the root cgroup is excluded.\<close>
theorem own_cgroup_never_ranked:
  "list_all (\<lambda>cg. cg \<noteq> ''/'' \<and> cg \<noteq> re_self e) (concat (map (\<lambda>c. co_cgroup c # co_extra c) (get_top_processes io w e n cand)))"
proof -
  let ?m = "merged_usage io e cand"
  have "set (covers ?m) = set (map fst (cgroup_usage io e cand) @ created (cgroup_usage io e cand) (app_groups (configured_cgroups e)))"
    using merged_covers[of io e cand] mset_eq_setD by blast
  then have "set (covers ?m) \<subseteq> set (ranked_cgroups e cand)"
    using merged_covers[of io e cand] before_law[of io e cand] by (simp only: set_append Un_subset_iff)
  then have ok: "may_limit e x" if "x \<in> set (covers ?m)" for x
    using that ranked_law[of e cand] by (auto simp: list_all_iff)
  have "list_all (may_limit e) (co_cgroup c # co_extra c)" if picked: "c \<in> set (get_top_processes io w e n cand)" for c
  proof -
    obtain cg u where u: "(cg, u) \<in> set ?m" "c = consumer_of io w e cg u"
      using in_set_takeD[OF picked[unfolded get_top_processes_def]] by auto
    have cov: "set (cg # us_extra u) \<subseteq> set (covers ?m)" unfolding covers_def using u(1) by force
    have c: "co_cgroup c = cg" "co_extra c = us_extra u" by (simp_all add: u(2) consumer_of_def Let_def)
    show ?thesis unfolding c list_all_iff using ok cov by blast
  qed
  then show ?thesis by (auto simp: list_all_iff may_limit_def)
qed

subsection \<open>Concrete passes\<close>

definition writer :: "nat \<Rightarrow> int \<Rightarrow> traffic_row" where
  "writer pid n = \<lparr>io_pid = pid, io_name = ''w'', io_total = n\<rparr>"

definition home_of :: "nat \<Rightarrow> string option" where
  \<comment> \<open>processes from 100 on share a cgroup, the others have one each\<close>
  "home_of pid = Some (if 100 \<le> pid then ''/shared'' else ''/own'' @ show_nat pid)"

definition silent_start :: "traffic_row list" where
  "silent_start = map (\<lambda>pid. writer pid 0) ([1..<11] @ [100..<110])"

definition busy_end :: "traffic_row list" where
  "busy_end = map (\<lambda>pid. writer pid 20) [1..<11] @ map (\<lambda>pid. writer pid 15) [100..<110]"

text \<open>The cgroup with the most traffic need not be among the candidates: ten processes of one cgroup write 150 together, ten single
  ones 20 each, and the nine places for the single top consumer all go to those.\<close>

lemma small_writers_missed:
  "get_disk_io_candidate_processes home_of [] (num_candidates 1) silent_start busy_end = [1..<10]"
  by code_simp

theorem disk_candidates_sound_witness:
  "set (get_disk_io_candidate_processes home_of [] (num_candidates 1) silent_start busy_end) \<subseteq> fst ` set (io_scored [] silent_start busy_end)"
proof -
  have "0 < num_candidates 1" by (simp add: num_candidates_def)
  from disk_candidates_sound[OF this, of home_of "[]" silent_start busy_end] obtain P where
    "get_disk_io_candidate_processes home_of [] (num_candidates 1) silent_start busy_end = map fst P"
    "set P \<subseteq> set (io_scored [] silent_start busy_end)" by blast
  then show ?thesis by (simp only: set_map image_mono)
qed

definition half_machine :: consumer where
  \<comment> \<open>an application that keeps two of sixteen processors busy\<close>
  "half_machine = consumer_of False \<lparr>wt_cpu = 1, wt_mem = 1\<rparr>
     \<lparr>re_cgroup = (\<lambda>p. None), re_members = (\<lambda>c. []), re_self = [], re_table = [], re_procs = [], re_start = (\<lambda>p. None), re_end = (\<lambda>c p. None),
      re_files0 = (\<lambda>c. None), re_files1 = (\<lambda>c. None), re_t0 = 0, re_t1 = 0, re_elapsed = 1, re_cores = 16, re_disk = (\<lambda>d. d),
      re_match = \<lparr>me_tools = [], me_shlex = (\<lambda>s. None), me_inspect = (\<lambda>s. None), me_unit = (\<lambda>p. None)\<rparr>\<rparr>
     ''/app'' (empty_usage\<lparr>us_cpu := 200, us_count := 2\<rparr>)"

text \<open>The bar of 25 is documented as a percentage of one processor; it is compared with the share of the whole machine, so an
  application that keeps two of sixteen processors busy does not reach it.\<close>

lemma cpu_bar_is_whole_machine:
  "co_cpu half_machine = 25 / 2" "candidates_reach_threshold 16 [half_machine] = False"
proof -
  have c: "co_cpu half_machine = py_round 1 (25 / 2)"
    by (simp add: half_machine_def consumer_of_def Let_def)
  have "py_round 1 (25 / 2 :: real) = of_int (round_half_even (of_int 125)) / 10" by (simp add: py_round_def)
  then have r: "py_round 1 (25 / 2 :: real) = 25 / 2" unfolding round_half_even_of_int by simp
  have m: "co_rss_gb half_machine = 0" by (simp add: half_machine_def consumer_of_def Let_def empty_usage_def)
  show "co_cpu half_machine = 25 / 2" using c r by simp
  then show "candidates_reach_threshold 16 [half_machine] = False"
    using m by (simp add: candidates_reach_threshold_def Let_def threshold_cpu_pct_def threshold_mem_fraction_def)
qed

text \<open>When the cgroups of an application are merged, the process that stands for it stays the one of the primary cgroup, however
  much more another one uses.\<close>

lemma merged_keeps_own_representative:
  "us_rep (merge_usage other d p) = us_rep p"
  by (simp add: merge_usage_def Let_def)

end
