(* ===== verification/Spec2Isabelle.thy ===== *)
theory Spec2Isabelle
  imports Pressure Quiet_Mode Ui_Lease Psi Disk_Pressure Reclaim Cpu Freeze Net_Cycle Monitor_Loop
    Affinity Io_Ctl Unit_Ctl Settings_Levels
    Lifecycle Alerts Pressure_Watch Top_Consumers
begin

text \<open>
  A verification library for smartune, a service that watches the load of a Linux desktop and limits background
  applications so that important ones stay responsive. A monitor turns kernel counters into pressure scores and
  levels; a balancer acts on the levels through cgroups, swap, processor sets and traffic classes and takes its
  actions back when the pressure is gone. Both parts are Python and are modelled here function by function.
\<close>

subsection \<open>From the code to the theories\<close>

text \<open>
  \<^item> \<open>Py_Base\<close>, \<open>Py_String\<close>: the prelude. Exceptions are the left side of a sum, dicts are maps or association
    lists, \<open>pyval\<close> is what YAML or JSON delivers; rounding, clamping, smoothing, string operations.
  \<^item> \<open>Pressure\<close> (\<open>monitor/pressure.py\<close>): scores of the system and of the disks, the two smoothed and
    hysteretic levels. \<open>Psi\<close> (\<open>monitor/psi.py\<close>): stall rates and the share that limited applications cause
    themselves. \<open>Disk_Pressure\<close> (\<open>monitor/disk_pressure.py\<close>): media classes, the pressure of one disk, the
    combination of all disks, the view of the dashboard. \<open>Net_Monitor\<close> (\<open>monitor/network.py\<close>,
    \<open>monitor/network_pressure.py\<close>): the score of a network interface, the published snapshot and its gauge.
  \<^item> \<open>Lease\<close>: the contract of a lease manager, a locale; \<open>Quiet_Mode\<close> (\<open>utils/quiet_mode.py\<close>) and \<open>Ui_Lease\<close>
    (\<open>utils/ui_lease.py\<close>) interpret it: the gate that suspends monitoring during a benchmark, and the watchdog
    that stops the service when no browser tab is left.
  \<^item> \<open>Swap\<close>, \<open>Swap_Exec\<close> (\<open>controller/swap.py\<close>): planning to grow or shrink swap, and the execution on files,
    swap areas and zswap. \<open>Cpu\<close> (\<open>controller/cpu.py\<close>): cpu lists, core classes, pinning and its undoing.
    \<open>Freeze\<close> (\<open>controller/freeze.py\<close>): freezing cgroups with a record on disk that survives a crash.
    \<open>Reclaim\<close> (\<open>controller/memory.py\<close> and the reclaim part of \<open>control_manager.py\<close>): writes to memory.reclaim.
  \<^item> \<open>Limit_Policy\<close> (\<open>balancer/balancer.py\<close>): the registry of limited applications, recording a limit, the
    restore arm, the disk arm and the control flow of the policy tick. \<open>Launch_Queue\<close>, \<open>Prefetch\<close>,
    \<open>Reclaim_Sched\<close> (same file): launches held back, the cache of top consumers, the schedule of background reclaim.
  \<^item> \<open>Net_Tc\<close>, \<open>Net_Apps\<close>, \<open>Net_Control\<close>, \<open>Net_Cycle\<close> (\<open>controller/network.py\<close>): traffic classes and the staged
    throttle, marks and filters of the applications, caps and escalation, and the cycle with its hot reload.
  \<^item> \<open>Limit_Rates\<close>, \<open>Proc_State\<close>, \<open>Limit_Apply\<close> (\<open>balancer/balancer.py\<close>): the rates and profiles of a limit, the presence of
    the processes of an application, and the writing of an automatic limit; \<open>Manual_Limit\<close>, \<open>Policy_Life\<close>, \<open>Limit_Life\<close>: limits,
    freezes and restores by the user, runs of policy ticks with takeovers, and the end of a limit. \<open>Affinity\<close>, \<open>Io_Ctl\<close>,
    \<open>Unit_Ctl\<close> (\<open>controller/io.py\<close>, \<open>controller/controller.py\<close>, \<open>control_manager.py\<close>): binding of applications to cores,
    disk caps and properties of systemd units. \<open>Monitor_Loop\<close>: the passes of the loop that composes all of this.
  \<^item> \<open>Config_Store\<close>, \<open>Config_Yaml\<close> (\<open>config/config.py\<close>): the settings in memory and the line edits of \<open>config.yaml\<close>.
    \<open>Settings_Check\<close>, \<open>Settings_Api\<close> (\<open>monitor/monitor_api.py\<close>): what the requests that change settings check, write and
    answer; \<open>Settings_Sound\<close>, \<open>Settings_Levels\<close>: runs of such requests.
  \<^item> \<open>Pressure_Watch\<close> (\<open>monitor/monitor_api.py\<close>, \<open>diagnostics/episodes.py\<close>): the refreshed levels with their peaks and
    listeners, and the debounced tracker. \<open>Proc_Identity\<close>, \<open>Top_Consumers\<close> (\<open>monitor/app_discovery.py\<close>,
    \<open>monitor/res_monitor.py\<close>, \<open>monitor/cgroup.py\<close>, part of \<open>utils/app_utils.py\<close>): who a process is and which applications weigh
    most, the input of every automatic limit.
  \<^item> \<open>Event_Ledger\<close>, \<open>Lifecycle\<close>, \<open>Alerts\<close> (\<open>diagnostics\<close>, \<open>db/DatabaseModel.py\<close>): the events, the life of a limit as
    they tell it, retention, reconciliation after a start, and the alerts raised from them.
\<close>

subsection \<open>How state and operations correspond\<close>

text \<open>
  A class is a record of its fields; a method is a function that takes the record and returns it updated, with its
  result. Kernel files, commands and sampled values are arguments (records of functions such as \<open>mem_kernel\<close> or
  \<open>rx_host\<close>) or, for \<open>tc\<close> and \<open>iptables\<close>, commands with an interpretation \<open>tc_exec\<close> that follows their documented
  behaviour. The clock is an argument; one operation reads it once. Floats are real numbers, ints are \<open>int\<close>. Threads
  appear as interleaved steps where the code relies on their order (\<open>Prefetch\<close>); elsewhere an operation is
  atomic, as the locks of the code make it. Loops that poll or retry carry fuel, which is the number of rounds the
  code itself allows, so no result is lost by it.
\<close>

subsection \<open>What the lemmas show\<close>

text \<open>
  \<^item> Bounds: every published score is in the unit interval whatever the kernel reports; plans and reclaims stay within
    their budgets and caps.
  \<^item> State machines: no downgrade without hysteresis, no revived hold of the quiet gate, swap shrinks only after
    sustained calm, a disk cap is lifted only after ten calm minutes or in favour of a CPU/memory cap in a critical tick,
    traffic classes change at most every ten seconds.
  \<^item> Undoing: pins, freezes, limits and the receive path are put back, and what could not be put back stays on record.
  \<^item> Refinement: the launch queue implements a line ordered by priority and arrival; the stage of a shaper is an exact
    record of its traffic classes; the dashboard's gauge equals the worst level the shaping acts on.
  \<^item> Limits: an automatic limit stays within its target and leaves manual ones alone, a manual one survives every policy tick,
    switching the balancer to passive hands everything over, and the service never ranks its own cgroup. Merging the cgroups
    of one application conserves what they use.
  \<^item> Settings: levels stay ordered and weights sound whatever clients send, no save overwrites one its client has not seen,
    and a patched file reads back with every other setting unchanged.
  \<^item> Records: the ledger keeps a limit whole or drops it whole, a restart marks each open limit once, no occurrence of an
    alert is lost, notifications keep their distance, no spike escapes the balancer, and a process the wizard selected is
    found again by the name it wrote.
  \<^item> Where the code misses its intent, a lemma exhibits a concrete run (\<open>filter_priority_collision\<close>,
    \<open>freeze_timeout_unrecorded\<close>, \<open>disk_timer_runs_through_critical\<close> and others).
\<close>

subsection \<open>Not modelled\<close>

text \<open>
  Logging and the text of notifications; the REST routes other than those that change settings, and the dashboard; device
  telemetry behind drivers and the per-application views built on it; interception of launches by eBPF and the signals to
  processes; the tables of priorities, snapshots and configuration revisions; the detectors over logs, the insights and
  metrics of the diagnostics; the benchmark runner; the parsers of YAML and JSON; rounding errors, infinities and NaN of floats.
\<close>

end
